(* ===== verification/Prelude.thy ===== *)
theory Prelude
  imports Main "HOL-Library.Word" "HOL-Library.AList"
begin

text \<open>
  Shared vocabulary of the development: machine integers at their Rust widths, the clock,
  hash maps, Unicode strings, and the generic lemmas the component theories rest on.

  \<^item> \<open>Instant\<close> and \<open>Duration\<close> are counted in nanoseconds as \<^typ>\<open>nat\<close>.
    \<open>Instant::duration_since\<close> saturates at zero, which is subtraction on \<^typ>\<open>nat\<close>.
    The overflow panic of \<open>Instant + Duration\<close> (after centuries of uptime) is not modelled.
  \<^item> A \<open>HashMap\<close> is an association list whose keys are distinct (\<open>hm_wf\<close>). Rust leaves the
    iteration order open; statements quantify over every list, so over every order.
  \<^item> A \<open>String\<close> is the list of its Unicode scalar values; \<open>str_len\<close> is \<open>len()\<close>, the number
    of UTF-8 bytes, and \<open>length\<close> is \<open>chars().count()\<close>.
\<close>

section \<open>Collections of facts\<close>

named_theorems hm_simps \<open>hash map lookups after updates\<close>
named_theorems hm_intros \<open>preservation of distinct keys\<close>

section \<open>Machine integers\<close>

type_synonym u8 = "8 word"
type_synonym u16 = "16 word"
type_synonym u32 = "32 word"
type_synonym u64 = "64 word"

definition sat_sub :: "'a::len word \<Rightarrow> 'a word \<Rightarrow> 'a word" where
  "sat_sub a b = (if a < b then 0 else a - b)"

lemma unat_sat_sub: "unat (sat_sub a b) = unat a - unat b"
  by (auto simp: sat_sub_def unat_sub word_less_nat_alt not_less word_le_nat_alt)

lemma unat_bound: "unat (w :: 'a::len word) < 2 ^ LENGTH('a)"
  by (rule unsigned_less)

lemma unat_eqI: "unat a = unat b \<Longrightarrow> a = (b :: 'a::len word)"
  by (simp add: word_unat_eq_iff)

lemma unat_ucast_widen:
  assumes "LENGTH('a) \<le> LENGTH('b)"
  shows "unat (ucast (w :: 'a::len word) :: 'b::len word) = unat w"
proof -
  have "unat w < 2 ^ LENGTH('b)"
    using unat_bound [of w] power_increasing [OF assms, of "2::nat"] by linarith
  then show ?thesis by (simp add: unsigned_ucast_eq take_bit_nat_eq_self)
qed

lemma unat_of_nat_small: "n < 2 ^ LENGTH('a) \<Longrightarrow> unat (of_nat n :: 'a::len word) = n"
  by (simp add: unsigned_of_nat take_bit_nat_eq_self)

lemma unat_add_no_wrap:
  fixes a b :: "'a::len word"
  assumes "unat a + unat b < 2 ^ LENGTH('a)"
  shows "unat (a + b) = unat a + unat b"
  using assms by (simp add: unat_word_ariths)

text \<open>\<open>to_le_bytes\<close> and \<open>to_be_bytes\<close> of a \<open>k\<close>-byte integer, and the readings back.\<close>

fun le_bytes :: "nat \<Rightarrow> nat \<Rightarrow> u8 list" where
  "le_bytes 0 n = []"
| "le_bytes (Suc k) n = of_nat (n mod 256) # le_bytes k (n div 256)"

definition be_bytes :: "nat \<Rightarrow> nat \<Rightarrow> u8 list" where
  "be_bytes k n = rev (le_bytes k n)"

fun le_val :: "u8 list \<Rightarrow> nat" where
  "le_val [] = 0"
| "le_val (b # bs) = unat b + 256 * le_val bs"

definition be_val :: "u8 list \<Rightarrow> nat" where
  "be_val bs = le_val (rev bs)"

lemma length_le_bytes [simp]: "length (le_bytes k n) = k"
  by (induction k arbitrary: n) simp_all

lemma length_be_bytes [simp]: "length (be_bytes k n) = k"
  by (simp add: be_bytes_def)

lemma le_bytes_4:
  "le_bytes 4 n = [of_nat (n mod 256), of_nat (n div 256 mod 256), of_nat (n div 65536 mod 256),
    of_nat (n div 16777216 mod 256)]"
proof -
  have "le_bytes (Suc (Suc (Suc (Suc 0)))) n = [of_nat (n mod 256), of_nat (n div 256 mod 256),
      of_nat (n div 65536 mod 256), of_nat (n div 16777216 mod 256)]"
    by (simp add: div_mult2_eq [symmetric])
  moreover have "(4 :: nat) = Suc (Suc (Suc (Suc 0)))" by simp
  ultimately show ?thesis by (simp only:)
qed

lemma le_val_le_bytes: "n < 256 ^ k \<Longrightarrow> le_val (le_bytes k n) = n"
proof (induction k arbitrary: n)
  case (Suc k)
  then have "n div 256 < 256 ^ k" by (simp add: less_mult_imp_div_less mult.commute)
  then show ?case using Suc.IH by (simp add: unat_of_nat_small)
qed simp

lemma be_val_be_bytes: "n < 256 ^ k \<Longrightarrow> be_val (be_bytes k n) = n"
  by (simp add: be_val_def be_bytes_def le_val_le_bytes)

lemma le_val_bound: "le_val bs < 256 ^ length bs"
proof (induction bs)
  case (Cons b bs)
  have "unat b < 256" using unat_bound [of b] by simp
  with Cons show ?case by simp
qed simp

section \<open>The clock\<close>

type_synonym instant = nat
type_synonym duration = nat

definition secs :: "nat \<Rightarrow> duration" where
  "secs n = n * 1000000000"

definition millis :: "nat \<Rightarrow> duration" where
  "millis n = n * 1000000"

definition duration_since :: "instant \<Rightarrow> instant \<Rightarrow> duration" where
  [simp]: "duration_since now t = now - t"

section \<open>Hash maps\<close>

type_synonym ('k, 'v) hmap = "('k \<times> 'v) list"

definition hm_wf :: "('k, 'v) hmap \<Rightarrow> bool" where
  "hm_wf m = distinct (map fst m)"

definition hm_get :: "('k, 'v) hmap \<Rightarrow> 'k \<Rightarrow> 'v option" where
  "hm_get m k = map_of m k"

definition hm_insert :: "'k \<Rightarrow> 'v \<Rightarrow> ('k, 'v) hmap \<Rightarrow> ('k, 'v) hmap" where
  "hm_insert k v m = AList.update k v m"

definition hm_remove :: "'k \<Rightarrow> ('k, 'v) hmap \<Rightarrow> ('k, 'v) hmap" where
  "hm_remove k m = AList.delete k m"

definition hm_retain :: "('k \<Rightarrow> 'v \<Rightarrow> bool) \<Rightarrow> ('k, 'v) hmap \<Rightarrow> ('k, 'v) hmap" where
  "hm_retain P m = filter (\<lambda>(k, v). P k v) m"

definition hm_contains :: "('k, 'v) hmap \<Rightarrow> 'k \<Rightarrow> bool" where
  "hm_contains m k = (hm_get m k \<noteq> None)"

lemma hm_get_Nil [simp]: "hm_get [] k = None"
  by (simp add: hm_get_def)

lemma hm_get_insert [simp, hm_simps]:
  "hm_get (hm_insert k v m) k' = (if k' = k then Some v else hm_get m k')"
  by (simp add: hm_get_def hm_insert_def update_conv')

lemma hm_get_remove [simp, hm_simps]:
  "hm_get (hm_remove k m) k' = (if k' = k then None else hm_get m k')"
  by (simp add: hm_get_def hm_remove_def delete_conv')

lemma hm_wf_Nil [simp, hm_intros]: "hm_wf []"
  by (simp add: hm_wf_def)

lemma hm_wf_insert [simp, hm_intros]: "hm_wf m \<Longrightarrow> hm_wf (hm_insert k v m)"
  by (simp add: hm_wf_def hm_insert_def distinct_update)

lemma hm_wf_remove [simp, hm_intros]: "hm_wf m \<Longrightarrow> hm_wf (hm_remove k m)"
  by (simp add: hm_wf_def hm_remove_def distinct_delete)

lemma hm_wf_retain [simp, hm_intros]: "hm_wf m \<Longrightarrow> hm_wf (hm_retain P m)"
  by (induction m) (auto simp: hm_wf_def hm_retain_def)

lemma hm_get_Some_in: "hm_get m k = Some v \<Longrightarrow> (k, v) \<in> set m"
  by (simp add: hm_get_def map_of_SomeD)

lemma hm_get_in_wf: "hm_wf m \<Longrightarrow> (k, v) \<in> set m \<Longrightarrow> hm_get m k = Some v"
  by (simp add: hm_wf_def hm_get_def)

lemma hm_get_in_iff: "hm_wf m \<Longrightarrow> hm_get m k = Some v \<longleftrightarrow> (k, v) \<in> set m"
  by (auto intro: hm_get_Some_in hm_get_in_wf)

lemma hm_get_retain [simp, hm_simps]:
  assumes "hm_wf m"
  shows "hm_get (hm_retain P m) k =
    (case hm_get m k of Some v \<Rightarrow> if P k v then Some v else None | None \<Rightarrow> None)"
proof (cases "hm_get m k")
  case None
  then show ?thesis
    by (auto simp: hm_get_def hm_retain_def map_of_eq_None_iff image_iff split: option.split
        dest!: map_of_SomeD)
next
  case (Some v)
  note wf = hm_wf_retain [OF assms, of P]
  show ?thesis
  proof (cases "P k v")
    case True
    then have "(k, v) \<in> set (hm_retain P m)"
      using hm_get_Some_in [OF Some] by (simp add: hm_retain_def)
    then show ?thesis using Some True hm_get_in_wf [OF wf] by simp
  next
    case False
    have "hm_get (hm_retain P m) k = None"
    proof (rule ccontr)
      assume "hm_get (hm_retain P m) k \<noteq> None"
      then obtain w where "(k, w) \<in> set (hm_retain P m)"
        using hm_get_Some_in by fastforce
      then have "(k, w) \<in> set m" and "P k w" by (auto simp: hm_retain_def)
      then show False using hm_get_in_wf [OF assms] Some False by fastforce
    qed
    then show ?thesis using Some False by simp
  qed
qed

lemma hm_insert_fresh: "hm_get m k = None \<Longrightarrow> hm_insert k v m = m @ [(k, v)]"
  by (induction m) (auto simp: hm_get_def hm_insert_def split: if_splits)

lemma length_hm_insert_fresh:
  "hm_get m k = None \<Longrightarrow> length (hm_insert k v m) = Suc (length m)"
  by (simp add: hm_insert_fresh)

lemma length_hm_insert_present:
  "hm_get m k = Some w \<Longrightarrow> length (hm_insert k v m) = length m"
  by (induction m) (auto simp: hm_get_def hm_insert_def split: if_splits)

lemma length_hm_remove_le [simp]: "length (hm_remove k m) \<le> length m"
  by (simp add: hm_remove_def length_delete_le)

lemma length_hm_insert_le: "length (hm_insert k v m) \<le> Suc (length m)"
  by (cases "hm_get m k") (simp_all add: length_hm_insert_fresh length_hm_insert_present)

lemma hm_remove_insert: "hm_remove k (hm_insert k v m) = hm_remove k m"
  by (induction m) (auto simp: hm_remove_def hm_insert_def)

lemma hm_get_insert_same: "hm_get (hm_insert k v m) k = Some v"
  by simp

section \<open>Strings\<close>

type_synonym uchar = nat
type_synonym rstr = "uchar list"

definition lit :: "string \<Rightarrow> rstr" where
  "lit s = map of_char s"

definition utf8_len :: "uchar \<Rightarrow> nat" where
  "utf8_len c = (if c < 128 then 1 else if c < 2048 then 2 else if c < 65536 then 3 else 4)"

definition str_len :: "rstr \<Rightarrow> nat" where
  "str_len s = sum_list (map utf8_len s)"

definition is_control :: "uchar \<Rightarrow> bool" where
  "is_control c = (c < 32 \<or> 127 \<le> c \<and> c < 160)"

lemma lit_simps [simp]:
  "lit [] = []"
  "lit (c # s) = of_char c # lit s"
  by (simp_all add: lit_def)

lemma str_len_Nil [simp]: "str_len [] = 0"
  by (simp add: str_len_def)

lemma str_len_Cons [simp]: "str_len (c # s) = utf8_len c + str_len s"
  by (simp add: str_len_def)

lemma utf8_len_pos: "0 < utf8_len c"
  by (simp add: utf8_len_def)

lemma utf8_len_le: "utf8_len c \<le> 4"
  by (simp add: utf8_len_def)

lemma str_len_append: "str_len (s @ t) = str_len s + str_len t"
  by (simp add: str_len_def)

lemma length_le_str_len: "length s \<le> str_len s"
proof (induction s)
  case (Cons c s)
  then show ?case using utf8_len_pos [of c] by simp
qed simp

lemma str_len_ascii: "\<forall>c \<in> set s. c < 128 \<Longrightarrow> str_len s = length s"
  by (induction s) (auto simp: utf8_len_def)

text \<open>
  \<open>as_bytes\<close>: the UTF-8 encoding. A Unicode scalar value is below \<open>0x110000\<close> (\<open>str_ok\<close>).
\<close>

definition str_ok :: "rstr \<Rightarrow> bool" where
  "str_ok s = (\<forall>c \<in> set s. c < 1114112)"

definition utf8_nats :: "uchar \<Rightarrow> nat list" where
  "utf8_nats c =
     (if c < 128 then [c]
      else if c < 2048 then [192 + c div 64, 128 + c mod 64]
      else if c < 65536 then [224 + c div 4096, 128 + c div 64 mod 64, 128 + c mod 64]
      else [240 + c div 262144, 128 + c div 4096 mod 64, 128 + c div 64 mod 64, 128 + c mod 64])"

definition as_bytes :: "rstr \<Rightarrow> u8 list" where
  "as_bytes s = concat (map (\<lambda>c. map of_nat (utf8_nats c)) s)"

lemma length_as_bytes: "length (as_bytes s) = str_len s"
  by (induction s) (simp_all add: as_bytes_def utf8_nats_def utf8_len_def)

lemma as_bytes_append: "as_bytes (s @ t) = as_bytes s @ as_bytes t"
  by (simp add: as_bytes_def)

lemma unat_u8_small: "n < 256 \<Longrightarrow> unat (of_nat n :: u8) = n"
  by (simp add: unat_of_nat_small)

lemma utf8_nats_bound: "c < 1114112 \<Longrightarrow> b \<in> set (utf8_nats c) \<Longrightarrow> b < 256"
  by (auto simp: utf8_nats_def split: if_splits)

lemma utf8_nats_high: "128 \<le> c \<Longrightarrow> b \<in> set (utf8_nats c) \<Longrightarrow> 128 \<le> b"
  by (auto simp: utf8_nats_def split: if_splits)

lemma utf8_nats_nonempty: "utf8_nats c \<noteq> []"
  by (simp add: utf8_nats_def)

text \<open>A test that only ASCII bytes pass sees the same of the bytes as of the characters.\<close>

lemma bytes_all_ascii:
  assumes "str_ok s" and "\<And>n. P n \<Longrightarrow> n < 128"
  shows "(\<forall>b \<in> set (as_bytes s). P (unat b)) \<longleftrightarrow> (\<forall>c \<in> set s. P c)"
proof -
  have "(\<forall>b \<in> set (utf8_nats c). P (unat (of_nat b :: u8))) \<longleftrightarrow> P c" if "c < 1114112" for c
  proof (cases "c < 128")
    case True
    then show ?thesis by (simp add: utf8_nats_def unat_u8_small)
  next
    case False
    have "\<not> P (unat (of_nat b :: u8))" if "b \<in> set (utf8_nats c)" for b
      using utf8_nats_bound [OF \<open>c < 1114112\<close> that] utf8_nats_high [of c, OF _ that] False assms(2)
      by (fastforce simp: unat_u8_small)
    then show ?thesis using False utf8_nats_nonempty [of c] assms(2) [of c]
      by (cases "utf8_nats c") auto
  qed
  then show ?thesis using assms(1) by (auto simp: as_bytes_def str_ok_def)
qed

text \<open>
  \<open>s.split_at(n)\<close> by byte index: \<open>None\<close> is the panic for an index past the end or inside a
  character.
\<close>

function split_at_byte :: "nat \<Rightarrow> rstr \<Rightarrow> (rstr \<times> rstr) option" where
  "split_at_byte n s =
     (if n = 0 then Some ([], s)
      else case s of
        [] \<Rightarrow> None
      | c # cs \<Rightarrow> if utf8_len c \<le> n
          then map_option (\<lambda>(a, b). (c # a, b)) (split_at_byte (n - utf8_len c) cs)
          else None)"
  by pat_completeness auto
termination
  by (relation "measure (\<lambda>(n, s). length s)") auto

declare split_at_byte.simps [simp del]

lemma split_at_byte_ascii:
  "\<forall>c \<in> set s. c < 128 \<Longrightarrow> n \<le> length s \<Longrightarrow> split_at_byte n s = Some (take n s, drop n s)"
proof (induction s arbitrary: n)
  case Nil
  then show ?case by (simp add: split_at_byte.simps)
next
  case (Cons c s)
  then show ?case
    by (cases n) (simp_all add: split_at_byte.simps [of "Suc _"] split_at_byte.simps [of 0] utf8_len_def)
qed

definition str_slice :: "rstr \<Rightarrow> nat \<Rightarrow> nat \<Rightarrow> rstr option" where
  "str_slice s a b =
     (if a \<le> b then Option.bind (split_at_byte b s) (\<lambda>(p, _). map_option snd (split_at_byte a p))
      else None)"

lemma str_slice_ascii:
  assumes "\<forall>c \<in> set s. c < 128" "a \<le> b" "b \<le> length s"
  shows "str_slice s a b = Some (take (b - a) (drop a s))"
proof -
  have "\<forall>c \<in> set (take b s). c < 128" using assms(1) by (auto dest: in_set_takeD)
  then show ?thesis
    using assms by (simp add: str_slice_def split_at_byte_ascii drop_take)
qed

section \<open>Lists\<close>

lemma filter_filter_imp:
  assumes "\<And>x. x \<in> set xs \<Longrightarrow> Q x \<Longrightarrow> P x"
  shows "filter Q (filter P xs) = filter Q xs"
  using assms by (induction xs) auto

section \<open>Step systems\<close>

text \<open>
  The reachable states of a step relation, and the induction principle every invariant proof
  of the development uses: an invariant of the initial states that each step keeps.
\<close>

inductive reach :: "('s \<Rightarrow> bool) \<Rightarrow> ('s \<Rightarrow> 's \<Rightarrow> bool) \<Rightarrow> 's \<Rightarrow> bool"
  for init :: "'s \<Rightarrow> bool" and step :: "'s \<Rightarrow> 's \<Rightarrow> bool" where
  reach_init: "init s \<Longrightarrow> reach init step s"
| reach_step: "reach init step s \<Longrightarrow> step s t \<Longrightarrow> reach init step t"

locale invariant_system =
  fixes init :: "'s \<Rightarrow> bool"
    and step :: "'s \<Rightarrow> 's \<Rightarrow> bool"
    and inv :: "'s \<Rightarrow> bool"
  assumes inv_init: "init s \<Longrightarrow> inv s"
    and inv_step: "inv s \<Longrightarrow> step s t \<Longrightarrow> inv t"
begin

lemma reach_inv: "reach init step s \<Longrightarrow> inv s"
  by (induction rule: reach.induct) (auto intro: inv_init inv_step)

end

end
