(* ===== verification/Limiter.thy ===== *)
theory Limiter
  imports Prelude
begin

text \<open>
  \<open>crates/security/src/limiter.rs\<close>: failure counting with a temporary lockout. The record
  \<open>limiter\<close> is \<open>AttemptLimiter\<close>, \<open>entry\<close> its per-key entry; every method is one definition that
  returns its result and the new limiter. The clock reading \<open>now\<close> is an argument, as in the code.

  The theory shows that the failure list is exactly the sliding window of the recorded failures
  (so a lockout happens at the \<open>max_failures\<close>-th failure of a window and never earlier), and that
  a lockout, once triggered, holds against every later operation but \<open>record_success\<close>. The locale
  \<open>lockout\<close> is the interface the server and the engine use.
\<close>

record entry =
  e_failures :: "instant list"
  e_locked_until :: "instant option"

record 'k limiter =
  max_failures :: u32
  window :: duration
  lockout :: duration
  lim_state :: "('k, entry) hmap"

section \<open>Operations\<close>

definition limiter_new :: "u32 \<Rightarrow> duration \<Rightarrow> duration \<Rightarrow> 'k limiter" where
  "limiter_new n w d = \<lparr>max_failures = n, window = w, lockout = d, lim_state = []\<rparr>"

definition locked :: "'k limiter \<Rightarrow> 'k \<Rightarrow> instant \<Rightarrow> duration option \<times> 'k limiter" where
  "locked l k now =
     (case hm_get (lim_state l) k of
        None \<Rightarrow> (None, l)
      | Some e \<Rightarrow>
          (case e_locked_until e of
             Some t \<Rightarrow>
               if t > now then (Some (t - now), l)
               else (None, l\<lparr>lim_state := hm_remove k (lim_state l)\<rparr>)
           | None \<Rightarrow> (None, l)))"

definition empty_entry :: entry where
  "empty_entry = \<lparr>e_failures = [], e_locked_until = None\<rparr>"

text \<open>\<open>state.entry(key).or_insert(..)\<close> and the failures that \<open>retain\<close> keeps.\<close>

definition entry_of :: "'k limiter \<Rightarrow> 'k \<Rightarrow> entry" where
  "entry_of l k = (case hm_get (lim_state l) k of Some e \<Rightarrow> e | None \<Rightarrow> empty_entry)"

definition recent_failures :: "'k limiter \<Rightarrow> 'k \<Rightarrow> instant \<Rightarrow> instant list" where
  "recent_failures l k now =
     filter (\<lambda>t. duration_since now t < window l) (e_failures (entry_of l k))"

definition record_failure :: "'k limiter \<Rightarrow> 'k \<Rightarrow> instant \<Rightarrow> bool \<times> 'k limiter" where
  "record_failure l k now =
     (let fs = recent_failures l k now @ [now]
      in if (of_nat (length fs) :: u32) \<ge> max_failures l
         then (True, l\<lparr>lim_state := hm_insert k
                \<lparr>e_failures = [], e_locked_until = Some (now + lockout l)\<rparr> (lim_state l)\<rparr>)
         else (False, l\<lparr>lim_state := hm_insert k
                ((entry_of l k)\<lparr>e_failures := fs\<rparr>) (lim_state l)\<rparr>))"

definition record_success :: "'k limiter \<Rightarrow> 'k \<Rightarrow> 'k limiter" where
  "record_success l k = l\<lparr>lim_state := hm_remove k (lim_state l)\<rparr>"

definition entry_live :: "duration \<Rightarrow> instant \<Rightarrow> entry \<Rightarrow> bool" where
  "entry_live w now e =
     (case e_locked_until e of
        Some t \<Rightarrow> t > now
      | None \<Rightarrow> (\<exists>f \<in> set (e_failures e). duration_since now f < w))"

definition sweep :: "'k limiter \<Rightarrow> instant \<Rightarrow> 'k limiter" where
  "sweep l now = l\<lparr>lim_state := hm_retain (\<lambda>_. entry_live (window l) now) (lim_state l)\<rparr>"

definition limiter_len :: "'k limiter \<Rightarrow> nat" where
  "limiter_len l = length (lim_state l)"

definition limiter_is_empty :: "'k limiter \<Rightarrow> bool" where
  "limiter_is_empty l = (lim_state l = [])"

section \<open>Well-formed limiters\<close>

text \<open>
  Keys are distinct, and no entry holds \<open>max_failures\<close> failures: the list is cleared when it
  reaches the limit. So the cast \<open>len() as u32\<close> never truncates.
\<close>

definition lim_wf :: "'k limiter \<Rightarrow> bool" where
  "lim_wf l \<longleftrightarrow> hm_wf (lim_state l) \<and>
     (\<forall>k e. hm_get (lim_state l) k = Some e \<longrightarrow>
        length (e_failures e) \<le> unat (max_failures l) - 1)"

lemma lim_wf_new [simp]: "lim_wf (limiter_new n w d)"
  by (simp add: lim_wf_def limiter_new_def)

lemma lim_wfD: "lim_wf l \<Longrightarrow> hm_get (lim_state l) k = Some e \<Longrightarrow>
    length (e_failures e) \<le> unat (max_failures l) - 1"
  by (simp add: lim_wf_def)

lemma limiter_new_params [simp]:
  "max_failures (limiter_new n w d) = n"
  "window (limiter_new n w d) = w"
  "lockout (limiter_new n w d) = d"
  by (simp_all add: limiter_new_def)

lemma locked_params [simp]:
  "max_failures (snd (locked l k now)) = max_failures l"
  "window (snd (locked l k now)) = window l"
  "lockout (snd (locked l k now)) = lockout l"
  by (simp_all add: locked_def split: option.split)

lemma record_failure_params [simp]:
  "max_failures (snd (record_failure l k now)) = max_failures l"
  "window (snd (record_failure l k now)) = window l"
  "lockout (snd (record_failure l k now)) = lockout l"
  by (simp_all add: record_failure_def Let_def)

lemma record_success_params [simp]:
  "max_failures (record_success l k) = max_failures l"
  "window (record_success l k) = window l"
  "lockout (record_success l k) = lockout l"
  by (simp_all add: record_success_def)

lemma sweep_params [simp]:
  "max_failures (sweep l now) = max_failures l"
  "window (sweep l now) = window l"
  "lockout (sweep l now) = lockout l"
  by (simp_all add: sweep_def)

lemma lim_wf_locked: "lim_wf l \<Longrightarrow> lim_wf (snd (locked l k now))"
  by (auto simp: locked_def lim_wf_def split: option.split if_splits)

lemma lim_wf_success: "lim_wf l \<Longrightarrow> lim_wf (record_success l k)"
  by (auto simp: record_success_def lim_wf_def split: if_splits)

lemma lim_wf_sweep: "lim_wf l \<Longrightarrow> lim_wf (sweep l now)"
  by (auto simp: sweep_def lim_wf_def split: option.splits if_splits)

lemma entry_of_len: "lim_wf l \<Longrightarrow> length (e_failures (entry_of l k)) \<le> unat (max_failures l) - 1"
  by (auto simp: entry_of_def empty_entry_def dest: lim_wfD split: option.splits)

lemma recent_failures_len:
  "lim_wf l \<Longrightarrow> length (recent_failures l k now) \<le> unat (max_failures l) - 1"
  unfolding recent_failures_def
  by (rule le_trans [OF length_filter_le entry_of_len])

text \<open>The new failure list has at most \<open>max_failures\<close> elements, so its length is exact as \<open>u32\<close>.\<close>

lemma recent_failures_cast:
  assumes "lim_wf l"
  shows "max_failures l \<le> (of_nat (length (recent_failures l k now @ [now])) :: u32)
    \<longleftrightarrow> unat (max_failures l) \<le> Suc (length (recent_failures l k now))"
proof -
  have "unat (max_failures l) < 2 ^ 32"
    using unat_bound [of "max_failures l"] by simp
  with recent_failures_len [OF assms, of k now]
  have lt: "Suc (length (recent_failures l k now)) < 2 ^ LENGTH(32)"
    by simp
  show ?thesis
    unfolding word_le_nat_alt length_append list.size add_0_right add_Suc_right
    using unat_of_nat_small [OF lt] by simp
qed

lemma record_failure_eq:
  assumes "lim_wf l"
  shows "record_failure l k now =
    (if unat (max_failures l) \<le> Suc (length (recent_failures l k now))
     then (True, l\<lparr>lim_state := hm_insert k
            \<lparr>e_failures = [], e_locked_until = Some (now + lockout l)\<rparr> (lim_state l)\<rparr>)
     else (False, l\<lparr>lim_state := hm_insert k
            ((entry_of l k)\<lparr>e_failures := recent_failures l k now @ [now]\<rparr>) (lim_state l)\<rparr>))"
  unfolding record_failure_def Let_def recent_failures_cast [OF assms] ..

lemma lim_wf_failure:
  assumes "lim_wf l"
  shows "lim_wf (snd (record_failure l k now))"
  using assms
  by (auto simp: record_failure_eq [OF assms] lim_wf_def split: if_splits)

lemmas lim_wf_intros [intro] =
  lim_wf_locked lim_wf_failure lim_wf_success lim_wf_sweep

section \<open>The lockout a key is under\<close>

definition until :: "'k limiter \<Rightarrow> 'k \<Rightarrow> instant option" where
  "until l k = Option.bind (hm_get (lim_state l) k) e_locked_until"

lemma until_new [simp]: "until (limiter_new n w d) k = None"
  by (simp add: until_def limiter_new_def)

lemma locked_result:
  "fst (locked l k now) =
    (case until l k of Some t \<Rightarrow> if t > now then Some (t - now) else None | None \<Rightarrow> None)"
  by (auto simp: locked_def until_def split: option.split)

lemma until_locked:
  "until (snd (locked l k now)) k' =
    (if k' = k \<and> (\<exists>t. until l k = Some t \<and> t \<le> now) then None else until l k')"
  by (auto simp: locked_def until_def split: option.split)

lemma until_success: "until (record_success l k) k' = (if k' = k then None else until l k')"
  by (simp add: record_success_def until_def)

lemma until_failure:
  "until (snd (record_failure l k now)) k' =
    (if k' = k \<and> fst (record_failure l k now) then Some (now + lockout l) else until l k')"
  by (auto simp: record_failure_def Let_def until_def entry_of_def empty_entry_def
      split: option.split)

lemma until_sweep:
  assumes "lim_wf l"
  shows "until (sweep l now) k =
    (case until l k of Some t \<Rightarrow> if t > now then Some t else None | None \<Rightarrow> None)"
  using assms
  by (auto simp: sweep_def until_def lim_wf_def entry_live_def split: option.splits)

section \<open>The interface: lockout locale\<close>

text \<open>
  What the server and the engine rely on, whatever the limiter's representation: \<open>lk\<close> is the
  check, \<open>fail\<close> the failure count, \<open>lock_end\<close> the abstract view of a key's lockout.
\<close>

locale lockout_limiter =
  fixes ok :: "'s \<Rightarrow> bool"
    and lk :: "'s \<Rightarrow> 'k \<Rightarrow> instant \<Rightarrow> duration option \<times> 's"
    and fail :: "'s \<Rightarrow> 'k \<Rightarrow> instant \<Rightarrow> bool \<times> 's"
    and clean :: "'s \<Rightarrow> instant \<Rightarrow> 's"
    and lock_end :: "'s \<Rightarrow> 'k \<Rightarrow> instant option"
    and period :: "'s \<Rightarrow> duration"
  assumes lk_result: "fst (lk s k now) =
        (case lock_end s k of Some t \<Rightarrow> if t > now then Some (t - now) else None | None \<Rightarrow> None)"
    and lk_view: "lock_end (snd (lk s k now)) k' =
        (if k' = k \<and> (\<exists>t. lock_end s k = Some t \<and> t \<le> now) then None else lock_end s k')"
    and fail_view: "lock_end (snd (fail s k now)) k' =
        (if k' = k \<and> fst (fail s k now) then Some (now + period s) else lock_end s k')"
    and clean_view: "ok s \<Longrightarrow> lock_end (clean s now) k =
        (case lock_end s k of Some t \<Rightarrow> if t > now then Some t else None | None \<Rightarrow> None)"
    and ok_lk: "ok s \<Longrightarrow> ok (snd (lk s k now))"
    and ok_fail: "ok s \<Longrightarrow> ok (snd (fail s k now))"
    and ok_clean: "ok s \<Longrightarrow> ok (clean s now)"
begin

lemma refused_iff: "fst (lk s k now) \<noteq> None \<longleftrightarrow> (\<exists>t. lock_end s k = Some t \<and> now < t)"
  by (auto simp: lk_result split: option.split)

lemma trip_refuses:
  assumes "fst (fail s k t0)" and "now < t0 + period s"
  shows "fst (lk (snd (fail s k t0)) k now) = Some (t0 + period s - now)"
  using assms by (simp add: lk_result fail_view)

lemma expired_admits:
  assumes "lock_end s k = Some t" and "t \<le> now"
  shows "fst (lk s k now) = None" and "lock_end (snd (lk s k now)) k = None"
  using assms by (simp_all add: lk_result lk_view)

lemma other_key_unaffected:
  "k' \<noteq> k \<Longrightarrow> lock_end (snd (fail s k now)) k' = lock_end s k'"
  "k' \<noteq> k \<Longrightarrow> lock_end (snd (lk s k now)) k' = lock_end s k'"
  by (simp_all add: fail_view lk_view)

lemma lock_kept:
  assumes "lock_end s k = Some t" and "now < t"
  shows "lock_end (snd (lk s k' now)) k = Some t"
    and "\<exists>t'. lock_end (snd (fail s k' now)) k = Some t' \<and> (t' = t \<or> t' = now + period s)"
    and "ok s \<Longrightarrow> lock_end (clean s now) k = Some t"
  using assms by (auto simp: lk_view fail_view clean_view)

end

interpretation lim: lockout_limiter lim_wf locked record_failure sweep until lockout
  by unfold_locales
    (auto simp: locked_result until_locked until_failure until_sweep)

section \<open>The failure list is the sliding window\<close>

text \<open>
  The reference for the counting: all failures recorded for one key since it was last unknown,
  newest last. Under a clock that does not run backwards the stored list is what \<open>window\<close>
  leaves of it, although \<open>retain\<close> throws old failures away at every step.
\<close>

fun record_all :: "'k limiter \<Rightarrow> 'k \<Rightarrow> instant list \<Rightarrow> bool list \<times> 'k limiter" where
  "record_all l k [] = ([], l)"
| "record_all l k (t # ts) =
     (let (b, l1) = record_failure l k t; (bs, l2) = record_all l1 k ts in (b # bs, l2))"

lemma fst_record_all_Cons [simp]:
  "fst (record_all l k (t # ts)) =
    fst (record_failure l k t) # fst (record_all (snd (record_failure l k t)) k ts)"
  by (simp add: Let_def split: prod.split)

declare record_all.simps(2) [simp del]

definition in_window :: "duration \<Rightarrow> instant list \<Rightarrow> instant \<Rightarrow> instant list" where
  "in_window w ts now = filter (\<lambda>t. duration_since now t < w) ts"

lemma in_window_shrinks:
  assumes "\<forall>t \<in> set ts. t \<le> t0" and "t0 \<le> now"
  shows "in_window w (in_window w ts t0) now = in_window w ts now"
  unfolding in_window_def using assms
  by (intro filter_filter_imp) fastforce

text \<open>One step: a key without a lockout whose stored list is the window of \<open>hist\<close>.\<close>

definition tracks :: "'k limiter \<Rightarrow> 'k \<Rightarrow> instant list \<Rightarrow> instant \<Rightarrow> bool" where
  "tracks l k hist now \<longleftrightarrow> e_failures (entry_of l k) = in_window (window l) hist now"

lemma record_failure_tracks:
  assumes wf: "lim_wf l" and tr: "tracks l k hist t0"
    and mono: "\<forall>t \<in> set hist. t \<le> t0" "t0 \<le> now" and pos: "0 < window l"
  shows "fst (record_failure l k now) \<longleftrightarrow>
      unat (max_failures l) \<le> length (in_window (window l) (hist @ [now]) now)" (is ?trip)
    and "\<not> fst (record_failure l k now) \<Longrightarrow>
      tracks (snd (record_failure l k now)) k (hist @ [now]) now"
proof -
  have rf: "recent_failures l k now = in_window (window l) hist now"
    using tr in_window_shrinks [OF mono, of "window l"]
    by (simp add: recent_failures_def tracks_def in_window_def)
  have now_in: "in_window (window l) (hist @ [now]) now = in_window (window l) hist now @ [now]"
    using pos by (simp add: in_window_def)
  show ?trip
    by (simp add: record_failure_eq [OF wf] rf now_in)
  show "tracks (snd (record_failure l k now)) k (hist @ [now]) now"
    if "\<not> fst (record_failure l k now)"
    using that
    by (auto simp: record_failure_eq [OF wf] rf now_in tracks_def entry_of_def split: if_splits)
qed

lemma record_all_window_from:
  assumes "lim_wf l" and "tracks l k hist t0"
    and "\<forall>t \<in> set hist. t \<le> t0" and "sorted (t0 # ts)" and "0 < window l"
    and "i < length ts" and "\<forall>j < i. \<not> fst (record_all l k ts) ! j"
  shows "fst (record_all l k ts) ! i \<longleftrightarrow>
    unat (max_failures l) \<le> length (in_window (window l) (hist @ take (Suc i) ts) (ts ! i))"
  using assms
proof (induction ts arbitrary: l hist t0 i)
  case Nil
  then show ?case by simp
next
  case (Cons t ts)
  note step = record_failure_tracks [OF Cons.prems(1-3), of t]
  have t: "t0 \<le> t" using Cons.prems(4) by simp
  show ?case
  proof (cases i)
    case 0
    then show ?thesis using step(1) [OF t Cons.prems(5)]
      by simp
  next
    case (Suc m)
    define l1 where "l1 = snd (record_failure l k t)"
    have ra: "fst (record_all l k (t # ts)) = fst (record_failure l k t) # fst (record_all l1 k ts)"
      by (simp add: l1_def)
    have nb: "\<not> fst (record_failure l k t)"
      using Cons.prems(7) Suc unfolding ra by force
    have wf1: "lim_wf l1" using lim_wf_failure [OF Cons.prems(1)] by (simp add: l1_def)
    have tr1: "tracks l1 k (hist @ [t]) t"
      unfolding l1_def by (rule step(2) [OF t Cons.prems(5) nb])
    have par: "window l1 = window l" "max_failures l1 = max_failures l" by (simp_all add: l1_def)
    have le: "\<forall>t' \<in> set (hist @ [t]). t' \<le> t" using Cons.prems(3) t by force
    have so: "sorted (t # ts)" using Cons.prems(4) by simp
    have m: "m < length ts" using Cons.prems(6) Suc by simp
    have pos1: "0 < window l1" using Cons.prems(5) par by simp
    have "\<forall>j < m. \<not> fst (record_all l1 k ts) ! j"
      using Cons.prems(7) Suc unfolding ra by force
    from Cons.IH [OF wf1 tr1 le so pos1 m this] show ?thesis
      unfolding ra Suc par by simp
  qed
qed

section \<open>Properties\<close>

text \<open>
  The lockout trips exactly when the code means it to: for the failures of one source at
  times \<open>ts\<close> (the clock does not run backwards), the call at index \<open>i\<close>, the first that may
  lock, returns true if and only if at least \<open>max_failures\<close> of the failures so far lie within
  the window that ends at it. Old failures that \<open>retain\<close> dropped never count, recent ones are
  never lost.
\<close>

theorem lockout_iff_window_full:
  assumes "sorted ts" and "0 < w" and "i < length ts"
    and "\<forall>j < i. \<not> fst (record_all (limiter_new n w d) k ts) ! j"
  shows "fst (record_all (limiter_new n w d) k ts) ! i \<longleftrightarrow>
    unat n \<le> length (filter (\<lambda>t. duration_since (ts ! i) t < w) (take (Suc i) ts))"
proof -
  have "tracks (limiter_new n w d) k [] 0"
    by (simp add: tracks_def limiter_new_def entry_of_def empty_entry_def in_window_def)
  moreover have "sorted (0 # ts)" using assms(1) by simp
  ultimately show ?thesis
    using record_all_window_from [of "limiter_new n w d" k "[]" 0 ts i] assms(2-4)
    by (simp add: in_window_def)
qed

theorem lockout_iff_window_full_witness:
  "fst (record_all (limiter_new 3 60 300) ''a'' [1, 50, 55]) ! 2"
proof -
  have no: "\<forall>j < 2. \<not> fst (record_all (limiter_new 3 60 300) ''a'' [1, 50, 55]) ! j"
    by (auto simp: less_2_cases_iff limiter_new_def record_failure_def
        recent_failures_def entry_of_def empty_entry_def Let_def word_le_nat_alt)
  have "unat (3 :: u32) \<le>
      length (filter (\<lambda>t. duration_since ([1, 50, 55] ! 2) t < 60) (take (Suc 2) [1, 50, 55 :: nat]))"
    by simp
  then show ?thesis
    using lockout_iff_window_full [of "[1, 50, 55]" 60 2 3 300 "''a''"] no by simp
qed

text \<open>Every way a client touches a limiter.\<close>

datatype 'k limiter_op =
    Op_locked 'k instant
  | Op_failure 'k instant
  | Op_success 'k
  | Op_sweep instant

fun limiter_step :: "'k limiter \<Rightarrow> 'k limiter_op \<Rightarrow> 'k limiter" where
  "limiter_step l (Op_locked k now) = snd (locked l k now)"
| "limiter_step l (Op_failure k now) = snd (record_failure l k now)"
| "limiter_step l (Op_success k) = record_success l k"
| "limiter_step l (Op_sweep now) = sweep l now"

fun op_time :: "'k limiter_op \<Rightarrow> instant" where
  "op_time (Op_locked k now) = now"
| "op_time (Op_failure k now) = now"
| "op_time (Op_success k) = 0"
| "op_time (Op_sweep now) = now"

lemma lim_wf_step: "lim_wf l \<Longrightarrow> lim_wf (limiter_step l x)"
  by (cases x) auto

lemma lockout_step [simp]: "lockout (limiter_step l x) = lockout l"
  by (cases x) simp_all

text \<open>The lockout of \<open>k\<close> reaches at least \<open>bound\<close>; operations before \<open>bound\<close> keep that.\<close>

definition locked_past :: "'k limiter \<Rightarrow> 'k \<Rightarrow> instant \<Rightarrow> bool" where
  "locked_past l k bound \<longleftrightarrow> (\<exists>t. until l k = Some t \<and> bound \<le> t)"

lemma locked_past_step:
  assumes wf: "lim_wf l" and lp: "locked_past l k bound"
    and time: "op_time x < bound" "bound \<le> op_time x + lockout l \<or> (\<forall>now. x \<noteq> Op_failure k now)"
    and "x \<noteq> Op_success k"
  shows "locked_past (limiter_step l x) k bound"
proof -
  from lp obtain t where t: "until l k = Some t" "bound \<le> t" by (auto simp: locked_past_def)
  show ?thesis
  proof (cases x)
    case (Op_locked k' now)
    then show ?thesis using t time lim.lock_kept(1) [OF t(1), of now k'] by (auto simp: locked_past_def)
  next
    case (Op_failure k' now)
    then show ?thesis using t time by (auto simp: locked_past_def until_failure)
  next
    case (Op_success k')
    then show ?thesis using t assms(5) by (auto simp: locked_past_def until_success)
  next
    case (Op_sweep now)
    then show ?thesis using t time lim.lock_kept(3) [OF t(1), of now] wf by (auto simp: locked_past_def)
  qed
qed

lemma locked_past_run:
  assumes "lim_wf l" and "locked_past l k bound"
    and "\<forall>x \<in> set xs. op_time x < bound \<and> x \<noteq> Op_success k \<and>
      (\<forall>now. x = Op_failure k now \<longrightarrow> bound \<le> now + lockout l)"
  shows "locked_past (foldl limiter_step l xs) k bound"
  using assms
proof (induction xs arbitrary: l)
  case (Cons x xs)
  have "locked_past (limiter_step l x) k bound"
  proof (rule locked_past_step [OF Cons.prems(1,2)])
    show "op_time x < bound" and "x \<noteq> Op_success k" using Cons.prems(3) by simp_all
    show "bound \<le> op_time x + lockout l \<or> (\<forall>now. x \<noteq> Op_failure k now)"
      using Cons.prems(3) by (cases x) auto
  qed
  then show ?case
    using Cons.IH [of "limiter_step l x"] Cons.prems lim_wf_step [of l x] by simp
qed simp

text \<open>
  A lockout cannot be shaken off: once a failure at \<open>t0\<close> tripped it, any sequence of checks,
  further failures, sweeps and successes of other sources before \<open>t0 + lockout\<close>, in any order,
  leaves the source refused at every moment before \<open>t0 + lockout\<close>; only its own
  \<open>record_success\<close> would lift it.
\<close>

theorem lockout_persists:
  assumes "lim_wf l" and "fst (record_failure l k t0)"
    and "\<forall>x \<in> set xs. op_time x < t0 + lockout l \<and> x \<noteq> Op_success k \<and>
      (\<forall>now. x = Op_failure k now \<longrightarrow> t0 \<le> now)"
    and "now < t0 + lockout l"
  shows "fst (locked (foldl limiter_step (snd (record_failure l k t0)) xs) k now) \<noteq> None"
proof -
  let ?l0 = "snd (record_failure l k t0)"
  have "locked_past ?l0 k (t0 + lockout l)"
    using assms(2) by (simp add: locked_past_def until_failure)
  then have "locked_past (foldl limiter_step ?l0 xs) k (t0 + lockout l)"
    using assms by (intro locked_past_run) auto
  then show ?thesis
    unfolding lim.refused_iff locked_past_def using assms(4) by (auto intro: less_le_trans)
qed

theorem lockout_persists_witness:
  "fst (locked (foldl limiter_step (snd (record_failure (limiter_new 1 60 300) ''a'' 5))
      [Op_sweep 100, Op_success ''b'', Op_failure ''a'' 200]) ''a'' 299) \<noteq> None"
  by (rule lockout_persists)
    (auto simp: limiter_new_def lim_wf_def record_failure_def recent_failures_def entry_of_def
      empty_entry_def Let_def)

end
