(* ===== verification/Ids.thy ===== *)
theory Ids
  imports Prelude
begin

text \<open>
  Identifiers and passwords: \<open>crates/common/src/ids.rs\<close> (\<open>DeviceId\<close>, \<open>SessionId\<close>),
  \<open>crates/security/src/ids.rs\<close> (rejection sampling of device ids) and
  \<open>crates/security/src/password.rs\<close> (temporary passwords).

  The operating system's random generator is a list of its answers, one element per call; running
  out of answers is \<open>None\<close>, so a definition that draws returns once enough acceptable answers have
  come (\<open>generate_device_id_returns\<close>, \<open>generate_temp_password_returns\<close>).
  \<open>char::to_uppercase\<close> is a parameter (the Unicode tables are not part of the repository).

  Shown: accepted ids are canonical and round-trip, generated ids and passwords are uniform, and
  what a user types for a generated password is normalised to it.
\<close>

section \<open>Device ids\<close>

type_synonym device_id = rstr

definition DEVICE_ID_LEN :: nat where
  "DEVICE_ID_LEN = 9"

definition is_separator :: "uchar \<Rightarrow> bool" where
  "is_separator c \<longleftrightarrow> c = 32 \<or> c = 45 \<or> c = 46 \<or> c = 160"

definition is_ascii_digit :: "nat \<Rightarrow> bool" where
  "is_ascii_digit b \<longleftrightarrow> 48 \<le> b \<and> b \<le> 57"

definition normalize_digits :: "rstr \<Rightarrow> rstr" where
  "normalize_digits s = map (\<lambda>c.
     if 1632 \<le> c \<and> c \<le> 1641 then 48 + (c - 1632)
     else if 1776 \<le> c \<and> c \<le> 1785 then 48 + (c - 1776)
     else c) s"

definition device_id_parse :: "rstr \<Rightarrow> device_id option" where
  "device_id_parse input =
     (let digits = normalize_digits (filter (\<lambda>c. \<not> is_separator c) input)
      in if str_len digits = DEVICE_ID_LEN \<and>
            (\<forall>b \<in> set (as_bytes digits). is_ascii_digit (unat b)) \<and>
            \<not> (\<exists>rest. digits = 48 # rest)
         then Some digits else None)"

lemma starts_with_0 [code_unfold, simp]:
  "(\<exists>rest. digits = 48 # rest) \<longleftrightarrow> (case digits of [] \<Rightarrow> False | c # _ \<Rightarrow> c = (48 :: nat))"
  by (cases digits) auto

text \<open>\<open>format!("{n:09}")\<close>\<close>

fun dec_digits :: "nat \<Rightarrow> rstr" where
  "dec_digits n = (if n < 10 then [48 + n] else dec_digits (n div 10) @ [48 + n mod 10])"

declare dec_digits.simps [simp del]

definition pad9 :: "rstr \<Rightarrow> rstr" where
  "pad9 s = replicate (9 - length s) 48 @ s"

definition device_id_from_number :: "u32 \<Rightarrow> device_id" where
  "device_id_from_number n = pad9 (dec_digits (unat n))"

text \<open>\<open>format!("{} {} {}", &self.0[0..3], &self.0[3..6], &self.0[6..9])\<close>\<close>

definition device_id_display :: "device_id \<Rightarrow> rstr option" where
  "device_id_display d =
     Option.bind (str_slice d 0 3) (\<lambda>a.
     Option.bind (str_slice d 3 6) (\<lambda>b.
     Option.bind (str_slice d 6 9) (\<lambda>c. Some (a @ [32] @ b @ [32] @ c))))"

text \<open>The canonical form: nine ASCII digits, the first not zero.\<close>

definition canonical_id :: "device_id \<Rightarrow> bool" where
  "canonical_id d \<longleftrightarrow> length d = 9 \<and> (\<forall>c \<in> set d. is_ascii_digit c) \<and> hd d \<noteq> 48"

lemma is_ascii_digit_lt: "is_ascii_digit n \<Longrightarrow> n < 128"
  by (simp add: is_ascii_digit_def)

lemma normalize_digits_ok: "str_ok s \<Longrightarrow> str_ok (normalize_digits s)"
  by (auto simp: str_ok_def normalize_digits_def)

lemma normalize_digits_id: "\<forall>c \<in> set s. c < 1632 \<Longrightarrow> normalize_digits s = s"
  by (induction s) (auto simp: normalize_digits_def)

lemma device_id_parse_canonical:
  assumes "str_ok s" and "device_id_parse s = Some d"
  shows "canonical_id d"
proof -
  let ?d = "normalize_digits (filter (\<lambda>c. \<not> is_separator c) s)"
  have d: "d = ?d" and len: "str_len d = 9"
    and dig: "\<forall>b \<in> set (as_bytes d). is_ascii_digit (unat b)"
    and nz: "\<not> (\<exists>rest. d = 48 # rest)"
    using assms(2) by (auto simp: device_id_parse_def Let_def DEVICE_ID_LEN_def split: if_splits)
  have "str_ok d"
    unfolding d using assms(1) by (intro normalize_digits_ok) (auto simp: str_ok_def)
  with dig have digs: "\<forall>c \<in> set d. is_ascii_digit c"
    using bytes_all_ascii [of d is_ascii_digit] is_ascii_digit_lt by blast
  then have "length d = 9"
    using str_len_ascii [of d] len is_ascii_digit_lt by auto
  with digs nz show ?thesis by (cases d) (auto simp: canonical_id_def)
qed

lemma canonical_parse_spaced:
  assumes "canonical_id d" and "filter (\<lambda>c. \<not> is_separator c) s = d"
  shows "device_id_parse s = Some d"
proof -
  have digs: "\<forall>c \<in> set d. is_ascii_digit c" using assms(1) by (simp add: canonical_id_def)
  then have small: "\<forall>c \<in> set d. c < 128" by (auto dest: is_ascii_digit_lt)
  have ok: "str_ok d" using small by (auto simp: str_ok_def)
  have "normalize_digits d = d" using small by (intro normalize_digits_id) auto
  moreover have "\<forall>b \<in> set (as_bytes d). is_ascii_digit (unat b)"
    using bytes_all_ascii [OF ok, of is_ascii_digit] is_ascii_digit_lt digs by blast
  moreover have "str_len d = 9"
    using str_len_ascii [OF small] assms(1) by (simp add: canonical_id_def)
  ultimately show ?thesis using assms
    by (cases d) (auto simp: device_id_parse_def DEVICE_ID_LEN_def canonical_id_def)
qed

lemma canonical_no_separator:
  "canonical_id d \<Longrightarrow> filter (\<lambda>c. \<not> is_separator c) d = d"
  by (rule filter_True) (auto simp: canonical_id_def is_separator_def is_ascii_digit_def)

lemma canonical_display:
  assumes "canonical_id d"
  shows "device_id_display d
    = Some (take 3 d @ [32] @ take 3 (drop 3 d) @ [32] @ take 3 (drop 6 d))"
proof -
  have "\<forall>c \<in> set d. c < 128"
    using assms by (auto simp: canonical_id_def dest: is_ascii_digit_lt)
  moreover have "length d = 9" using assms by (simp add: canonical_id_def)
  ultimately show ?thesis
    by (simp add: device_id_display_def str_slice_ascii)
qed

lemma display_unspaced:
  assumes "canonical_id d" and "device_id_display d = Some s"
  shows "filter (\<lambda>c. \<not> is_separator c) s = d"
proof -
  have split9: "d = take 3 d @ take 3 (drop 3 d) @ take 3 (drop 6 d)"
  proof -
    have "take 3 (drop 6 d) = drop 6 d" using assms(1) by (simp add: canonical_id_def)
    moreover have "drop 3 d = take 3 (drop 3 d) @ drop 6 d"
      using append_take_drop_id [of 3 "drop 3 d"] by (simp add: add.commute)
    ultimately show ?thesis using append_take_drop_id [of 3 d] by metis
  qed
  have "s = take 3 d @ [32] @ take 3 (drop 3 d) @ [32] @ take 3 (drop 6 d)"
    using assms canonical_display by simp
  then have "filter (\<lambda>c. \<not> is_separator c) s
    = filter (\<lambda>c. \<not> is_separator c) (take 3 d @ take 3 (drop 3 d) @ take 3 (drop 6 d))"
    by (simp add: is_separator_def)
  then show ?thesis
    using split9 canonical_no_separator [OF assms(1)] by metis
qed

section \<open>Generating device ids\<close>

definition ID_LOW :: u32 where "ID_LOW = 100000000"
definition ID_SPAN :: u32 where "ID_SPAN = 900000000"
definition ID_LIMIT :: u32 where "ID_LIMIT = 4294967295 - (4294967295 mod ID_SPAN)"

fun generate_device_id :: "u32 list \<Rightarrow> device_id option" where
  "generate_device_id [] = None"
| "generate_device_id (n # ns) =
     (if n < ID_LIMIT then Some (device_id_from_number (ID_LOW + n mod ID_SPAN))
      else generate_device_id ns)"

lemma ID_LIMIT_eq: "ID_LIMIT = 3600000000"
  by (simp add: ID_LIMIT_def ID_SPAN_def)

lemma generate_device_id_returns:
  "\<exists>n \<in> set ns. n < ID_LIMIT \<Longrightarrow> generate_device_id ns \<noteq> None"
  by (induction ns) auto

lemma dec_digits_digit: "c \<in> set (dec_digits n) \<Longrightarrow> is_ascii_digit c"
proof (induction n rule: dec_digits.induct)
  case (1 n)
  then show ?case
    by (auto simp: dec_digits.simps [of n] is_ascii_digit_def split: if_splits)
qed

lemma length_dec_digits: "10 ^ k \<le> n \<Longrightarrow> n < 10 ^ Suc k \<Longrightarrow> length (dec_digits n) = Suc k"
proof (induction k arbitrary: n)
  case 0
  then show ?case by (simp add: dec_digits.simps [of n])
next
  case (Suc k)
  have "\<not> n < 10"
  proof -
    have "10 * 1 \<le> 10 * (10::nat) ^ k" by (intro mult_le_mono) simp_all
    also have "\<dots> \<le> n" using Suc.prems(1) by simp
    finally show ?thesis by simp
  qed
  moreover have "10 ^ k \<le> n div 10"
    using div_le_mono [OF Suc.prems(1), of 10] by simp
  moreover have "n div 10 < 10 ^ Suc k"
    using Suc.prems(2) by (simp add: less_mult_imp_div_less)
  ultimately show ?case
    using Suc.IH [of "n div 10"] by (simp add: dec_digits.simps [of n])
qed

lemma hd_dec_digits: "0 < n \<Longrightarrow> dec_digits n \<noteq> [] \<and> hd (dec_digits n) \<noteq> 48"
proof (induction n rule: dec_digits.induct)
  case (1 n)
  show ?case
  proof (cases "n < 10")
    case True
    then show ?thesis using 1 by (simp add: dec_digits.simps [of n])
  next
    case False
    then have "0 < n div 10" by simp
    with 1 False have "dec_digits (n div 10) \<noteq> [] \<and> hd (dec_digits (n div 10)) \<noteq> 48" by blast
    then show ?thesis using False by (simp add: dec_digits.simps [of n])
  qed
qed

lemma from_number_canonical:
  assumes "100000000 \<le> unat n" and "unat n < 1000000000"
  shows "canonical_id (device_id_from_number n)"
proof -
  have len: "length (dec_digits (unat n)) = 9"
    using length_dec_digits [of 8 "unat n"] assms by simp
  have "0 < unat n" using assms(1) by simp
  then show ?thesis
    using len hd_dec_digits [of "unat n"]
    by (auto simp: device_id_from_number_def pad9_def canonical_id_def dec_digits_digit)
qed

lemma unat_id_number: "unat (ID_LOW + n mod ID_SPAN) = 100000000 + unat n mod 900000000"
proof -
  have "unat n mod 900000000 < 900000000" by simp
  then have "unat ID_LOW + unat (n mod ID_SPAN) < 2 ^ LENGTH(32)"
    by (simp add: ID_LOW_def ID_SPAN_def unat_mod)
  then show ?thesis
    by (subst unat_add_no_wrap) (simp_all add: ID_LOW_def ID_SPAN_def unat_mod)
qed

lemma generate_device_id_canonical:
  "generate_device_id ns = Some d \<Longrightarrow> canonical_id d"
proof (induction ns)
  case (Cons n ns)
  have "canonical_id (device_id_from_number (ID_LOW + n mod ID_SPAN))"
  proof (rule from_number_canonical)
    have "unat n mod 900000000 < 900000000" by simp
    then show "100000000 \<le> unat (ID_LOW + n mod ID_SPAN)"
      and "unat (ID_LOW + n mod ID_SPAN) < 1000000000"
      unfolding unat_id_number by linarith+
  qed
  then show ?case using Cons by (auto split: if_splits)
qed simp

text \<open>Reading a decimal number back, to see that the digits determine it.\<close>

definition dval :: "rstr \<Rightarrow> nat" where
  "dval ds = foldl (\<lambda>a c. 10 * a + (c - 48)) 0 ds"

lemma dval_snoc: "dval (ds @ [c]) = 10 * dval ds + (c - 48)"
  by (simp add: dval_def)

lemma dval_dec_digits: "dval (dec_digits n) = n"
proof (induction n rule: dec_digits.induct)
  case (1 n)
  show ?case
  proof (cases "n < 10")
    case True
    then show ?thesis by (simp add: dec_digits.simps [of n] dval_def)
  next
    case False
    then show ?thesis using "1.IH" by (simp add: dec_digits.simps [of n] dval_snoc)
  qed
qed

lemma dec_digits_dval:
  "ds \<noteq> [] \<Longrightarrow> \<forall>c \<in> set ds. is_ascii_digit c \<Longrightarrow> hd ds \<noteq> 48 \<Longrightarrow>
    dec_digits (dval ds) = ds \<and> 0 < dval ds"
proof (induction ds rule: rev_induct)
  case (snoc c ds)
  have c: "48 \<le> c" "c - 48 < 10" using snoc.prems(2) by (auto simp: is_ascii_digit_def)
  show ?case
  proof (cases "ds = []")
    case True
    then show ?thesis using snoc.prems c
      by (simp add: dval_def dec_digits.simps [of "c - 48"] is_ascii_digit_def)
  next
    case False
    then have IH: "dec_digits (dval ds) = ds" "0 < dval ds"
      using snoc by auto
    then have "\<not> dval (ds @ [c]) < 10" and "dval (ds @ [c]) div 10 = dval ds"
      and "dval (ds @ [c]) mod 10 = c - 48"
    proof -
      obtain m where m: "c = 48 + m" "m < 10" using c by (metis le_Suc_ex add_diff_cancel_left')
      show "\<not> dval (ds @ [c]) < 10" "dval (ds @ [c]) div 10 = dval ds"
        "dval (ds @ [c]) mod 10 = c - 48"
        using IH(2) m by (simp_all add: dval_snoc)
    qed
    then have "dec_digits (dval (ds @ [c])) = dec_digits (dval ds) @ [48 + (c - 48)]"
      by (subst dec_digits.simps) (simp only: if_False)
    then show ?thesis
      using IH c by (simp add: dval_snoc)
  qed
qed simp

lemma dval_bounds:
  assumes "canonical_id d"
  shows "100000000 \<le> dval d" and "dval d < 1000000000"
proof -
  have nd: "dec_digits (dval d) = d" "0 < dval d"
    using dec_digits_dval [of d] assms by (cases "d = []"; simp add: canonical_id_def)+
  have len: "length (dec_digits (dval d)) = 9" using assms nd by (simp add: canonical_id_def)
  have "\<exists>k. 10 ^ k \<le> dval d \<and> dval d < 10 ^ (k + 1)"
    using nd(2) by (intro ex_power_ivl1) simp_all
  then obtain k where k: "10 ^ k \<le> dval d" "dval d < 10 ^ Suc k" by auto
  then have "k = 8" using length_dec_digits [OF k] len by simp
  then show "100000000 \<le> dval d" and "dval d < 1000000000" using k by simp_all
qed

lemma from_number_dval:
  assumes "canonical_id d" and that: "unat n < 1000000000" "100000000 \<le> unat n"
  shows "device_id_from_number n = d \<longleftrightarrow> unat n = dval d"
proof
  assume "device_id_from_number n = d"
  moreover have "length (dec_digits (unat n)) = 9"
    using length_dec_digits [of 8 "unat n"] that by simp
  ultimately show "unat n = dval d"
    using dval_dec_digits [of "unat n"] by (simp add: device_id_from_number_def pad9_def)
next
  assume n: "unat n = dval d"
  have "dec_digits (dval d) = d" using dec_digits_dval [of d] assms
    by (cases "d = []"; simp add: canonical_id_def)
  then show "device_id_from_number n = d"
    using n assms by (simp add: device_id_from_number_def pad9_def canonical_id_def)
qed

lemma residue_draws:
  assumes "r < 900000000"
  shows "{n :: u32. n < 3600000000 \<and> unat n mod 900000000 = r}
    = of_nat ` {r, r + 900000000, r + 1800000000, r + 2700000000}" (is "?A = of_nat ` ?R")
proof
  show "?A \<subseteq> of_nat ` ?R"
  proof
    fix n assume "n \<in> ?A"
    then have lt: "unat n < 3600000000" and md: "unat n mod 900000000 = r"
      by (auto simp: word_less_nat_alt)
    have "unat n div 900000000 < 4" using lt by (simp add: less_mult_imp_div_less)
    moreover have "unat n = 900000000 * (unat n div 900000000) + r"
      using md mult_div_mod_eq [of 900000000 "unat n"] by simp
    moreover have "q = 0 \<or> q = 1 \<or> q = 2 \<or> q = 3" if "q < 4" for q :: nat
      using that by arith
    ultimately have "unat n \<in> ?R" by fastforce
    then have "of_nat (unat n) \<in> (of_nat :: nat \<Rightarrow> u32) ` ?R" by (rule imageI)
    then show "n \<in> of_nat ` ?R" by simp
  qed
next
  show "of_nat ` ?R \<subseteq> ?A"
  proof
    fix n :: u32 assume "n \<in> of_nat ` ?R"
    then obtain x where x: "x \<in> ?R" and n: "n = of_nat x" by blast
    have "x < 2 ^ LENGTH(32)" using x assms by auto
    then have "unat n = x" unfolding n by (rule unat_of_nat_small)
    moreover have "x mod 900000000 = r" using x assms by (auto intro!: mod_nat_eqI)
    moreover have "x < 3600000000" using x assms by auto
    ultimately show "n \<in> ?A" by (simp add: word_less_nat_alt)
  qed
qed

lemma card_residue_draws:
  assumes "r < 900000000"
  shows "card {n :: u32. n < 3600000000 \<and> unat n mod 900000000 = r} = 4"
proof -
  let ?R = "{r, r + 900000000, r + 1800000000, r + 2700000000}"
  have "inj_on (of_nat :: nat \<Rightarrow> u32) ?R"
  proof (rule inj_onI)
    fix x y assume "x \<in> ?R" "y \<in> ?R" and e: "(of_nat x :: u32) = of_nat y"
    then have "x < 2 ^ LENGTH(32)" "y < 2 ^ LENGTH(32)" using assms by auto
    then show "x = y" using e by (metis unat_of_nat_small)
  qed
  then show ?thesis by (simp add: residue_draws [OF assms] card_image)
qed

section \<open>Session ids\<close>

definition hex_digit :: "nat \<Rightarrow> uchar" where
  "hex_digit n = (if n < 10 then 48 + n else 87 + n)"

text \<open>\<open>format!("{b:02x}")\<close> for every byte.\<close>

definition to_hex :: "u8 list \<Rightarrow> rstr" where
  "to_hex sid = concat (map (\<lambda>b. [hex_digit (unat b div 16), hex_digit (unat b mod 16)]) sid)"

lemma hex_digit_inj: "a < 16 \<Longrightarrow> b < 16 \<Longrightarrow> hex_digit a = hex_digit b \<longleftrightarrow> a = b"
  by (auto simp: hex_digit_def split: if_splits)

lemma hex_byte_inj:
  assumes "hex_digit (unat a div 16) = hex_digit (unat b div 16)"
    and "hex_digit (unat a mod 16) = hex_digit (unat b mod 16)"
  shows "a = (b :: u8)"
proof -
  have "unat a < 256" "unat b < 256" using unat_bound [of a] unat_bound [of b] by simp_all
  then have "unat a div 16 < 16" "unat b div 16 < 16" by (simp_all add: less_mult_imp_div_less)
  with assms have "unat a div 16 = unat b div 16" "unat a mod 16 = unat b mod 16"
    by (simp_all add: hex_digit_inj)
  then have "unat a = unat b" by (metis mult_div_mod_eq)
  then show ?thesis by (rule unat_eqI)
qed

lemma to_hex_inj: "to_hex s = to_hex t \<Longrightarrow> s = t"
proof (induction s arbitrary: t)
  case Nil
  then show ?case by (cases t) (simp_all add: to_hex_def)
next
  case (Cons b s)
  then obtain c u where t: "t = c # u" by (cases t) (simp_all add: to_hex_def)
  with Cons.prems have "b = c" by (intro hex_byte_inj) (simp_all add: to_hex_def)
  moreover have "s = u" using Cons t by (simp add: to_hex_def)
  ultimately show ?case using t by simp
qed

section \<open>Temporary passwords\<close>

definition ALPHABET :: rstr where
  "ALPHABET = lit ''ABCDEFGHJKMNPQRSTUVWXYZ23456789''"

definition TEMP_PASSWORD_LEN :: nat where
  "TEMP_PASSWORD_LEN = 6"

definition pw_limit :: u16 where
  "pw_limit = 256 - (256 mod of_nat (length ALPHABET))"

definition pw_push :: "rstr \<Rightarrow> u8 \<Rightarrow> rstr" where
  "pw_push out b =
     (if (ucast b :: u16) < pw_limit \<and> length out < TEMP_PASSWORD_LEN
      then out @ [ALPHABET ! unat ((ucast b :: u16) mod of_nat (length ALPHABET))]
      else out)"

text \<open>The outer loop draws sixteen bytes per turn; the list holds the generator's answers.\<close>

fun generate_temp_password :: "rstr \<Rightarrow> u8 list list \<Rightarrow> rstr option" where
  "generate_temp_password out blocks =
     (if length out < TEMP_PASSWORD_LEN
      then case blocks of [] \<Rightarrow> None | b # bs \<Rightarrow> generate_temp_password (foldl pw_push out b) bs
      else Some out)"

definition is_whitespace :: "uchar \<Rightarrow> bool" where
  "is_whitespace c \<longleftrightarrow> (9 \<le> c \<and> c \<le> 13) \<or> c = 32 \<or> c = 133 \<or> c = 160 \<or> c = 5760 \<or>
     (8192 \<le> c \<and> c \<le> 8202) \<or> c = 8232 \<or> c = 8233 \<or> c = 8239 \<or> c = 8287 \<or> c = 12288"

definition normalize_temp_password :: "(uchar \<Rightarrow> rstr) \<Rightarrow> rstr \<Rightarrow> rstr" where
  "normalize_temp_password to_uppercase input =
     concat (map to_uppercase (filter (\<lambda>c. \<not> is_whitespace c \<and> c \<noteq> 45) input))"

declare generate_temp_password.simps [simp del]

definition alphabet_char :: "uchar \<Rightarrow> bool" where
  "alphabet_char c \<longleftrightarrow> c \<in> set ALPHABET"

lemma length_ALPHABET [simp]: "length ALPHABET = 31"
  by (simp add: ALPHABET_def)

lemma pw_limit_eq: "pw_limit = 248"
  by (simp add: pw_limit_def)

lemma ucast_u8_u16: "unat (ucast (b :: u8) :: u16) = unat b"
  by (simp add: unat_ucast_widen)

lemma pw_push_eq:
  "pw_push out b =
    (if unat b < 248 \<and> length out < 6 then out @ [ALPHABET ! (unat b mod 31)] else out)"
  by (simp add: pw_push_def pw_limit_eq TEMP_PASSWORD_LEN_def word_less_nat_alt unat_mod
      ucast_u8_u16)

text \<open>The characters the acceptable bytes of a stream stand for; the password is the first six.\<close>

definition accepted :: "u8 list \<Rightarrow> rstr" where
  "accepted bs = map (\<lambda>b. ALPHABET ! (unat b mod 31)) (filter (\<lambda>b. unat b < 248) bs)"

lemma foldl_pw_push: "length out \<le> 6 \<Longrightarrow> foldl pw_push out bs = take 6 (out @ accepted bs)"
proof (induction bs arbitrary: out)
  case Nil
  then show ?case by (simp add: accepted_def)
next
  case (Cons b bs)
  show ?case
  proof (cases "unat b < 248 \<and> length out < 6")
    case True
    then show ?thesis using Cons.IH [of "out @ [ALPHABET ! (unat b mod 31)]"]
      by (simp add: pw_push_eq accepted_def)
  next
    case False
    then show ?thesis using Cons by (auto simp: pw_push_eq accepted_def)
  qed
qed

lemma generate_temp_password_eq:
  assumes "length out \<le> 6" and "6 \<le> length out + length (accepted (concat blocks))"
  shows "generate_temp_password out blocks = Some (take 6 (out @ accepted (concat blocks)))"
  using assms
proof (induction blocks arbitrary: out)
  case Nil
  then show ?case
    by (simp add: generate_temp_password.simps [of out] accepted_def TEMP_PASSWORD_LEN_def)
next
  case (Cons b bs)
  show ?case
  proof (cases "length out < 6")
    case True
    let ?o = "take 6 (out @ accepted b)"
    have "accepted (concat (b # bs)) = accepted b @ accepted (concat bs)"
      by (simp add: accepted_def)
    moreover have "generate_temp_password ?o bs = Some (take 6 (?o @ accepted (concat bs)))"
      using Cons.prems by (intro Cons.IH) (auto simp: accepted_def)
    moreover have "take 6 (?o @ accepted (concat bs)) = take 6 ((out @ accepted b) @ accepted (concat bs))"
      using True by (cases "length (out @ accepted b) \<le> 6") (simp_all add: min_def)
    ultimately show ?thesis using True Cons.prems(1)
      by (simp add: generate_temp_password.simps [of out] TEMP_PASSWORD_LEN_def foldl_pw_push)
  next
    case False
    then show ?thesis using Cons.prems(1)
      by (simp add: generate_temp_password.simps [of out] TEMP_PASSWORD_LEN_def)
  qed
qed

text \<open>Every symbol of the alphabet stands for the same number of bytes: no modulo bias.\<close>

lemma accepted_bytes_uniform:
  assumes "i < 31"
  shows "card {n :: nat. n < 248 \<and> n mod 31 = i} = 8"
proof -
  have "{n :: nat. n < 248 \<and> n mod 31 = i} = (\<lambda>q. 31 * q + i) ` {..<8}"
  proof (intro set_eqI iffI)
    fix n assume "n \<in> {n. n < 248 \<and> n mod 31 = i}"
    then have "n = 31 * (n div 31) + i" "n div 31 < 8"
      using mult_div_mod_eq [of 31 n] by (auto simp: less_mult_imp_div_less)
    then show "n \<in> (\<lambda>q. 31 * q + i) ` {..<8}" by blast
  qed (use assms in auto)
  moreover have "inj_on (\<lambda>q. 31 * q + i) {..<8}" by (simp add: inj_on_def)
  ultimately show ?thesis by (simp add: card_image)
qed

lemma accepted_alphabet: "c \<in> set (accepted bs) \<Longrightarrow> alphabet_char c"
  by (auto simp: accepted_def alphabet_char_def)

lemma generate_temp_password_stream:
  assumes "length out \<le> 6" and "generate_temp_password out blocks = Some pw"
  shows "pw = take 6 (out @ accepted (concat blocks))"
    and "6 \<le> length out + length (accepted (concat blocks))"
proof -
  have "6 \<le> length out + length (accepted (concat blocks))"
    using assms
  proof (induction blocks arbitrary: out)
    case Nil
    then show ?case
      by (simp add: generate_temp_password.simps [of out] TEMP_PASSWORD_LEN_def split: if_splits)
  next
    case (Cons b bs)
    show ?case
    proof (cases "length out < 6")
      case True
      then have "generate_temp_password (take 6 (out @ accepted b)) bs = Some pw"
        using Cons.prems by (simp add: generate_temp_password.simps [of out] TEMP_PASSWORD_LEN_def
            foldl_pw_push)
      from Cons.IH [OF _ this]
      have "6 \<le> length (take 6 (out @ accepted b)) + length (accepted (concat bs))" by simp
      then show ?thesis by (simp add: accepted_def)
    qed simp
  qed
  then show "6 \<le> length out + length (accepted (concat blocks))" .
  from generate_temp_password_eq [OF assms(1) this] assms(2)
  show "pw = take 6 (out @ accepted (concat blocks))" by simp
qed

text \<open>What the code relies on in \<open>char::to_uppercase\<close>: its documented values on ASCII.\<close>

definition ascii_upper_ok :: "(uchar \<Rightarrow> rstr) \<Rightarrow> bool" where
  "ascii_upper_ok up \<longleftrightarrow>
     (\<forall>c < 128. up c = [if 97 \<le> c \<and> c \<le> 122 then c - 32 else c])"

text \<open>\<open>c\<close> is the symbol \<open>p\<close> or its lower-case letter.\<close>

definition same_key :: "uchar \<Rightarrow> uchar \<Rightarrow> bool" where
  "same_key c p \<longleftrightarrow> c = p \<or> (65 \<le> p \<and> p \<le> 90 \<and> c = p + 32)"

lemma alphabet_range:
  "alphabet_char c \<Longrightarrow> (65 \<le> c \<and> c \<le> 90) \<or> (50 \<le> c \<and> c \<le> 57)"
  by (auto simp: alphabet_char_def ALPHABET_def)

lemma same_key_upper:
  "ascii_upper_ok up \<Longrightarrow> alphabet_char p \<Longrightarrow> same_key c p \<Longrightarrow> up c = [p]"
  using alphabet_range [of p] by (auto simp: ascii_upper_ok_def same_key_def)

lemma same_keys_upper:
  "ascii_upper_ok up \<Longrightarrow> \<forall>p \<in> set pw. alphabet_char p \<Longrightarrow> list_all2 same_key cs pw \<Longrightarrow>
    concat (map up cs) = pw"
  by (induction pw arbitrary: cs) (auto simp: same_key_upper list_all2_Cons2)

section \<open>Properties\<close>

text \<open>
  Whatever spelling of a device id is accepted (spaces, dashes, dots, Arabic digits), the
  result is canonical: nine ASCII digits without a leading zero. It parses to itself, its
  three-group display form exists (no slice panics), and that display form parses back to it.
\<close>

theorem device_id_roundtrip:
  assumes "str_ok s" and "device_id_parse s = Some d"
  shows "canonical_id d \<and> device_id_parse d = Some d \<and>
    (\<exists>t. device_id_display d = Some t \<and> device_id_parse t = Some d)"
proof -
  have c: "canonical_id d" using assms by (rule device_id_parse_canonical)
  obtain t where t: "device_id_display d = Some t" using canonical_display [OF c] by blast
  have "device_id_parse t = Some d"
    using canonical_parse_spaced [OF c display_unspaced [OF c t]] .
  then show ?thesis
    using c t canonical_parse_spaced [OF c canonical_no_separator [OF c]] by blast
qed

theorem device_id_roundtrip_witness:
  "\<exists>d. device_id_parse (lit ''58'' @ [1635, 45, 160] @ lit ''294.814'') = Some d \<and>
    canonical_id d \<and> device_id_parse d = Some d"
proof -
  have ok: "str_ok (lit ''58'' @ [1635, 45, 160] @ lit ''294.814'')"
    by (simp add: str_ok_def)
  have parsed: "device_id_parse (lit ''58'' @ [1635, 45, 160] @ lit ''294.814'')
      = Some (lit ''583294814'')"
    by (simp add: device_id_parse_def is_separator_def normalize_digits_def DEVICE_ID_LEN_def
        as_bytes_def utf8_nats_def utf8_len_def is_ascii_digit_def Let_def)
  show ?thesis using device_id_roundtrip [OF ok parsed] parsed by blast
qed

text \<open>
  Device ids are drawn without bias: for every canonical nine-digit id there are exactly four
  32-bit random words that yield it at once, so rejection sampling makes all 900 million ids
  equally likely (and every id it yields is canonical).
\<close>

theorem device_id_uniform:
  assumes "canonical_id d"
  shows "card {n. generate_device_id [n] = Some d} = 4"
proof -
  note b = dval_bounds [OF assms]
  have "generate_device_id [n] = Some d \<longleftrightarrow>
      n < 3600000000 \<and> unat n mod 900000000 = dval d - 100000000" for n
  proof -
    have "unat (ID_LOW + n mod ID_SPAN) < 1000000000" "100000000 \<le> unat (ID_LOW + n mod ID_SPAN)"
      unfolding unat_id_number using mod_less_divisor [of 900000000 "unat n"] by linarith+
    from from_number_dval [OF assms this]
    have "device_id_from_number (ID_LOW + n mod ID_SPAN) = d \<longleftrightarrow>
        100000000 + unat n mod 900000000 = dval d"
      by (simp only: unat_id_number)
    then show ?thesis using b by (auto simp: ID_LIMIT_eq)
  qed
  then show ?thesis
    using card_residue_draws [of "dval d - 100000000"] b by simp
qed

theorem device_id_uniform_witness:
  "card {n. generate_device_id [n] = Some (lit ''583294814'')} = 4"
  by (rule device_id_uniform) (simp add: canonical_id_def is_ascii_digit_def)

text \<open>
  A temporary password consists of six symbols of the unambiguous alphabet, namely the first
  six acceptable bytes of the random stream, and any way of typing it (other case, white space,
  dashes in between) is normalised to it, given what Unicode upper-casing does on ASCII.
\<close>

theorem typed_password_normalizes:
  assumes "generate_temp_password [] blocks = Some pw"
    and "ascii_upper_ok up"
    and "list_all2 same_key (filter (\<lambda>c. \<not> is_whitespace c \<and> c \<noteq> 45) typed) pw"
  shows "length pw = 6 \<and> (\<forall>c \<in> set pw. alphabet_char c) \<and>
    pw = take 6 (accepted (concat blocks)) \<and> normalize_temp_password up typed = pw"
proof -
  note st = generate_temp_password_stream [of "[]" blocks pw, OF _ assms(1)]
  then have pw: "pw = take 6 (accepted (concat blocks))" and len: "length pw = 6" by simp_all
  have al: "\<forall>c \<in> set pw. alphabet_char c"
    unfolding pw by (blast dest: in_set_takeD intro: accepted_alphabet)
  have "normalize_temp_password up typed = pw"
    unfolding normalize_temp_password_def using assms(2) al assms(3) by (rule same_keys_upper)
  with pw len al show ?thesis by blast
qed

theorem typed_password_normalizes_witness:
  "normalize_temp_password (\<lambda>c. [if 97 \<le> c \<and> c \<le> 122 then c - 32 else c]) (lit '' abc-dEF '')
    = lit ''ABCDEF''"
proof -
  have g: "generate_temp_password [] [[0, 1, 250, 2, 34, 4, 5, 6]] = Some (lit ''ABCDEF'')"
    by (simp add: generate_temp_password.simps pw_push_eq TEMP_PASSWORD_LEN_def ALPHABET_def)
  have k: "list_all2 same_key
      (filter (\<lambda>c. \<not> is_whitespace c \<and> c \<noteq> 45) (lit '' abc-dEF '')) (lit ''ABCDEF'')"
    by (simp add: is_whitespace_def same_key_def)
  have u: "ascii_upper_ok (\<lambda>c. [if 97 \<le> c \<and> c \<le> 122 then c - 32 else c])"
    by (simp add: ascii_upper_ok_def)
  show ?thesis using typed_password_normalizes [OF g u k] by blast
qed

end
