(* ===== verification/Wire.thy ===== *)
theory Wire
  imports Prelude
begin

text \<open>
  Everything that crosses a trust boundary as bytes: the bounded codec of
  \<open>crates/common/src/wire.rs\<close>, the length-prefixed frames of a direct TCP link
  (\<open>from_tcp\<close> in \<open>crates/session/src/link.rs\<close>) and the messages on the elevated-control pipes
  (\<open>write_msg\<close> and \<open>read_msg\<close> in \<open>crates/elevate/src/proto.rs\<close>).

  The serialiser itself is the third-party \<open>postcard\<close>: two parameters, \<open>ser\<close>
  (\<open>to_stdvec\<close>) and \<open>de\<close> (\<open>take_from_bytes\<close>, which returns the value and the unread rest), with its
  documented inverse law \<open>postcard_ok\<close> where a property needs it. A byte stream is the list
  of all bytes up to its end, so \<open>read_exact\<close> fails when too few are left.

  Both stream formats are instances of the locale \<open>framing\<close>.
\<close>

section \<open>The bounded codec\<close>

definition MAX_FRAME :: nat where
  "MAX_FRAME = 8 * 1024 * 1024"

datatype wire_error = TooLarge nat | Malformed

definition wire_encode :: "('m \<Rightarrow> u8 list option) \<Rightarrow> 'm \<Rightarrow> wire_error + u8 list" where
  "wire_encode ser msg =
     (case ser msg of
        None \<Rightarrow> Inl Malformed
      | Some bytes \<Rightarrow> if length bytes > MAX_FRAME then Inl (TooLarge (length bytes)) else Inr bytes)"

definition wire_decode :: "(u8 list \<Rightarrow> ('m \<times> u8 list) option) \<Rightarrow> u8 list \<Rightarrow> wire_error + 'm" where
  "wire_decode de bytes =
     (if length bytes > MAX_FRAME then Inl (TooLarge (length bytes))
      else case de bytes of
             None \<Rightarrow> Inl Malformed
           | Some (value, rest) \<Rightarrow> if rest \<noteq> [] then Inl Malformed else Inr value)"

definition postcard_ok :: "('m \<Rightarrow> u8 list option) \<Rightarrow> (u8 list \<Rightarrow> ('m \<times> u8 list) option) \<Rightarrow> bool" where
  "postcard_ok ser de \<longleftrightarrow> (\<forall>m b rest. ser m = Some b \<longrightarrow> de (b @ rest) = Some (m, rest))"

lemma postcard_okD: "postcard_ok ser de \<Longrightarrow> ser m = Some b \<Longrightarrow> de (b @ rest) = Some (m, rest)"
  by (simp add: postcard_ok_def)

lemma postcard_ok_exact: "postcard_ok ser de \<Longrightarrow> ser m = Some b \<Longrightarrow> de b = Some (m, [])"
  using postcard_okD [of ser de m b "[]"] by simp

lemma wire_encode_Inr:
  "wire_encode ser m = Inr b \<longleftrightarrow> ser m = Some b \<and> length b \<le> MAX_FRAME"
  by (auto simp: wire_encode_def split: option.splits if_splits)

lemma wire_decode_encode:
  "postcard_ok ser de \<Longrightarrow> wire_encode ser m = Inr b \<Longrightarrow> wire_decode de b = Inr m"
  using postcard_ok_exact [of ser de m b] by (simp add: wire_encode_Inr wire_decode_def)

lemma wire_decode_trailing:
  assumes "postcard_ok ser de" and "wire_encode ser m = Inr b" and "junk \<noteq> []"
  shows "\<exists>e. wire_decode de (b @ junk) = Inl e"
proof -
  have "de (b @ junk) = Some (m, junk)"
    using assms(1,2) by (simp add: wire_encode_Inr postcard_okD)
  then show ?thesis using assms(3) by (simp add: wire_decode_def)
qed

section \<open>Length-prefixed streams\<close>

text \<open>
  One step of a reader: four length bytes, the range check, the body. \<open>None\<close> ends the
  connection; \<open>get_len\<close> is the byte order, \<open>limit\<close> the largest body.
\<close>

definition take_frame :: "(u8 list \<Rightarrow> nat) \<Rightarrow> nat \<Rightarrow> u8 list \<Rightarrow> (u8 list \<times> u8 list) option" where
  "take_frame get_len limit bs =
     (if length bs < 4 then None
      else let n = get_len (take 4 bs); body = drop 4 bs
           in if n = 0 \<or> n > limit \<or> length body < n then None
              else Some (take n body, drop n body))"

lemma take_frame_shrinks: "take_frame g l bs = Some (f, rest) \<Longrightarrow> length rest < length bs"
  by (auto simp: take_frame_def Let_def split: if_splits)

function take_frames :: "(u8 list \<Rightarrow> nat) \<Rightarrow> nat \<Rightarrow> u8 list \<Rightarrow> u8 list list" where
  "take_frames g limit bs =
     (case take_frame g limit bs of None \<Rightarrow> [] | Some (f, rest) \<Rightarrow> f # take_frames g limit rest)"
  by pat_completeness auto
termination
  by (relation "measure (\<lambda>(g, limit, bs). length bs)") (auto dest: take_frame_shrinks)

declare take_frames.simps [simp del]

locale framing =
  fixes put_len :: "nat \<Rightarrow> u8 list" and get_len :: "u8 list \<Rightarrow> nat" and limit :: nat
  assumes put_len_4: "length (put_len n) = 4"
    and get_put: "n \<le> limit \<Longrightarrow> get_len (put_len n) = n"
begin

lemma take_frame_put:
  assumes "f \<noteq> []" and "length f \<le> limit"
  shows "take_frame get_len limit (put_len (length f) @ f @ rest) = Some (f, rest)"
  using assms by (simp add: take_frame_def put_len_4 get_put Let_def)

lemma take_frames_stream:
  assumes "\<forall>f \<in> set fs. f \<noteq> [] \<and> length f \<le> limit"
  shows "take_frames get_len limit (concat (map (\<lambda>f. put_len (length f) @ f) fs) @ rest)
    = fs @ take_frames get_len limit rest"
  using assms
proof (induction fs)
  case (Cons f fs)
  then show ?case
    by (subst take_frames.simps) (simp add: take_frame_put)
qed simp

lemma take_frames_cut:
  assumes "\<forall>f \<in> set fs. f \<noteq> [] \<and> length f \<le> limit" and "take_frame get_len limit rest = None"
  shows "take_frames get_len limit (concat (map (\<lambda>f. put_len (length f) @ f) fs) @ rest) = fs"
  using take_frames_stream [OF assms(1), of rest] assms(2)
  by (simp add: take_frames.simps [of _ _ rest])

end

lemma take_frames_bounded:
  "f \<in> set (take_frames g limit bs) \<Longrightarrow> f \<noteq> [] \<and> length f \<le> limit"
proof (induction g limit bs rule: take_frames.induct)
  case (1 g limit bs)
  show ?case
  proof (cases "take_frame g limit bs")
    case None
    then show ?thesis using "1.prems" by (simp add: take_frames.simps [of g limit bs])
  next
    case (Some p)
    obtain h rest where p: "p = (h, rest)" by force
    have "h \<noteq> [] \<and> length h \<le> limit"
      using Some p by (auto simp: take_frame_def Let_def split: if_splits)
    then show ?thesis using 1 Some p by (auto simp: take_frames.simps [of g limit bs])
  qed
qed

section \<open>Frames on a direct link\<close>

text \<open>\<open>(frame.len() as u32).to_be_bytes()\<close> in front of the frame, in one write.\<close>

definition link_write :: "u8 list \<Rightarrow> u8 list" where
  "link_write frame = be_bytes 4 (unat (of_nat (length frame) :: u32)) @ frame"

definition LINK_LIMIT :: nat where
  "LINK_LIMIT = MAX_FRAME + 64"

text \<open>The reader task: the frames it delivers before it stops.\<close>

definition link_read :: "u8 list \<Rightarrow> u8 list list" where
  "link_read = take_frames be_val LINK_LIMIT"

interpretation link: framing "be_bytes 4" be_val LINK_LIMIT
  by unfold_locales (simp_all add: be_val_be_bytes LINK_LIMIT_def MAX_FRAME_def)

lemma link_write_eq: "length f \<le> LINK_LIMIT \<Longrightarrow> link_write f = be_bytes 4 (length f) @ f"
  by (simp add: link_write_def unat_of_nat_small LINK_LIMIT_def MAX_FRAME_def)

section \<open>Messages on the elevated-control pipes\<close>

definition MAX_MESSAGE :: nat where
  "MAX_MESSAGE = 16 * 1024 * 1024"

datatype frame_error = Io | Frame_TooLarge | Frame_Malformed

text \<open>The bytes \<open>write_msg\<close> hands to \<open>write_all\<close>, in one call.\<close>

definition write_msg :: "('m \<Rightarrow> u8 list option) \<Rightarrow> 'm \<Rightarrow> frame_error + u8 list" where
  "write_msg ser msg =
     (case ser msg of
        None \<Rightarrow> Inl Frame_Malformed
      | Some body \<Rightarrow>
          if length body > MAX_MESSAGE then Inl Frame_TooLarge
          else Inr (le_bytes 4 (unat (of_nat (length body) :: u32)) @ body))"

text \<open>\<open>read_msg\<close> on the bytes of the pipe: the message and the bytes still unread.\<close>

definition read_msg ::
  "(u8 list \<Rightarrow> ('m \<times> u8 list) option) \<Rightarrow> u8 list \<Rightarrow> frame_error + ('m \<times> u8 list)" where
  "read_msg de bs =
     (if length bs < 4 then Inl Io
      else let n = le_val (take 4 bs); more = drop 4 bs
           in if n = 0 \<or> n > MAX_MESSAGE then Inl Frame_TooLarge
              else if length more < n then Inl Io
              else case de (take n more) of
                     None \<Rightarrow> Inl Frame_Malformed
                   | Some (v, rest) \<Rightarrow>
                       if rest \<noteq> [] then Inl Frame_Malformed else Inr (v, drop n more))"

interpretation pipe: framing "le_bytes 4" le_val MAX_MESSAGE
  by unfold_locales (simp_all add: le_val_le_bytes MAX_MESSAGE_def)

lemma read_msg_take_frame:
  "read_msg de bs =
    (case take_frame le_val MAX_MESSAGE bs of
       Some (body, more) \<Rightarrow>
         (case de body of
            None \<Rightarrow> Inl Frame_Malformed
          | Some (v, rest) \<Rightarrow> if rest \<noteq> [] then Inl Frame_Malformed else Inr (v, more))
     | None \<Rightarrow> if 4 \<le> length bs \<and> (le_val (take 4 bs) = 0 \<or> le_val (take 4 bs) > MAX_MESSAGE)
               then Inl Frame_TooLarge else Inl Io)"
  by (auto simp: read_msg_def take_frame_def Let_def split: option.split)

lemma write_msg_Inr:
  "write_msg ser m = Inr bs \<longleftrightarrow>
    (\<exists>body. ser m = Some body \<and> length body \<le> MAX_MESSAGE \<and> bs = le_bytes 4 (length body) @ body)"
  by (auto simp: write_msg_def unat_of_nat_small MAX_MESSAGE_def split: option.splits if_splits)

section \<open>Properties\<close>

text \<open>
  The bounded codec is exact: what \<open>encode\<close> produces decodes to the same message, the same
  bytes with anything appended are refused, and neither direction passes more than 8 MiB.
\<close>

theorem wire_roundtrip:
  assumes "postcard_ok ser de" and "wire_encode ser m = Inr b"
  shows "wire_decode de b = Inr m \<and> length b \<le> MAX_FRAME \<and>
    (\<forall>junk. junk \<noteq> [] \<longrightarrow> (\<exists>e. wire_decode de (b @ junk) = Inl e)) \<and>
    (\<forall>big. MAX_FRAME < length big \<longrightarrow> wire_decode de big = Inl (TooLarge (length big)))"
proof -
  have "length b \<le> MAX_FRAME" using assms(2) by (simp add: wire_encode_Inr)
  moreover have "\<forall>big. MAX_FRAME < length big \<longrightarrow> wire_decode de big = Inl (TooLarge (length big))"
    by (simp add: wire_decode_def)
  ultimately show ?thesis using wire_decode_encode [OF assms] wire_decode_trailing [OF assms] by blast
qed

theorem wire_roundtrip_witness:
  "wire_decode (\<lambda>bs. case bs of [] \<Rightarrow> None | b # r \<Rightarrow> Some (b, r)) [7] = Inr (7 :: u8)"
proof -
  have p: "postcard_ok (\<lambda>b. Some [b]) (\<lambda>bs. case bs of [] \<Rightarrow> None | b # r \<Rightarrow> Some (b, r))"
    by (simp add: postcard_ok_def)
  have e: "wire_encode (\<lambda>b. Some [b]) (7 :: u8) = Inr [7]"
    by (simp add: wire_encode_Inr MAX_FRAME_def)
  show ?thesis using wire_roundtrip [OF p e] by blast
qed

text \<open>
  Link frames survive the stream: whatever non-empty frames of at most 8 MiB and 64 bytes one
  side writes, the other side's reader delivers exactly these, in order, even when the stream is
  cut inside a further frame; and no frame it ever delivers, from any bytes, is empty or longer.
\<close>

theorem link_stream_roundtrip:
  assumes "\<forall>f \<in> set fs. f \<noteq> [] \<and> length f \<le> LINK_LIMIT"
    and "f' \<noteq> []" "length f' \<le> LINK_LIMIT" "k < length (link_write f')"
  shows "link_read (concat (map link_write fs) @ take k (link_write f')) = fs \<and>
    (\<forall>bs. \<forall>f \<in> set (link_read bs). f \<noteq> [] \<and> length f \<le> LINK_LIMIT)"
proof -
  have ws: "concat (map link_write fs) = concat (map (\<lambda>f. be_bytes 4 (length f) @ f) fs)"
    using assms(1) by (induction fs) (simp_all add: link_write_eq)
  have w: "link_write f' = be_bytes 4 (length f') @ f'" using assms(3) by (rule link_write_eq)
  have cut: "take_frame be_val LINK_LIMIT (take k (link_write f')) = None"
  proof (cases "k < 4")
    case True
    then have "length (take k (link_write f')) < 4" by simp
    then show ?thesis unfolding take_frame_def by (rule if_P)
  next
    case False
    then have t: "take k (link_write f') = be_bytes 4 (length f') @ take (k - 4) f'"
      by (simp add: w)
    have "k - 4 < length f'" using assms(4) False by (simp add: w)
    then show ?thesis
      unfolding t using link.get_put [OF assms(3)] by (simp add: take_frame_def Let_def)
  qed
  show ?thesis
    unfolding link_read_def ws
    using link.take_frames_cut [OF assms(1) cut] take_frames_bounded by blast
qed

theorem link_stream_roundtrip_witness:
  "link_read (concat (map link_write [[1, 2, 3], [4]]) @ take 5 (link_write [9, 9])) = [[1, 2, 3], [4]]"
  using link_stream_roundtrip [of "[[1, 2, 3], [4]]" "[9, 9]" 5]
  by (simp add: LINK_LIMIT_def MAX_FRAME_def link_write_def)

text \<open>
  On a service pipe, a message that \<open>write_msg\<close> accepts (its encoding is not empty) is read
  back exactly, leaving the bytes behind it untouched; so a sequence of writes is read as the same
  sequence of messages.
\<close>

theorem pipe_msg_roundtrip:
  assumes "postcard_ok ser de" and "write_msg ser m = Inr bs" and "ser m \<noteq> Some []"
  shows "read_msg de (bs @ more) = Inr (m, more)"
proof -
  obtain body where b: "ser m = Some body" "length body \<le> MAX_MESSAGE"
      "bs = le_bytes 4 (length body) @ body"
    using assms(2) by (auto simp: write_msg_Inr)
  have "take_frame le_val MAX_MESSAGE (bs @ more) = Some (body, more)"
    using pipe.take_frame_put [of body more] b assms(3) by auto
  then show ?thesis
    using postcard_ok_exact [OF assms(1) b(1)] by (simp add: read_msg_take_frame)
qed

theorem pipe_msg_roundtrip_witness:
  "read_msg (\<lambda>bs. case bs of [] \<Rightarrow> None | b # r \<Rightarrow> Some (b, r)) [1, 0, 0, 0, 7, 42]
    = Inr (7 :: u8, [42])"
proof -
  have p: "postcard_ok (\<lambda>b. Some [b]) (\<lambda>bs. case bs of [] \<Rightarrow> None | b # r \<Rightarrow> Some (b, r))"
    by (simp add: postcard_ok_def)
  have w: "write_msg (\<lambda>b. Some [b]) (7 :: u8) = Inr [1, 0, 0, 0, 7]"
    by (simp add: write_msg_def MAX_MESSAGE_def le_bytes_4)
  show ?thesis using pipe_msg_roundtrip [OF p w, of "[42]"] by simp
qed

end
