(* ===== verification/Channel.thy ===== *)
theory Channel
  imports Prelude
begin

text \<open>
  The ordered AEAD channel of \<open>crates/security/src/channel.rs\<close>: implicit counter nonces, a sealer
  and an opener per direction. ChaCha20-Poly1305 is third-party code: the parameters \<open>enc\<close> and
  \<open>dec\<close> (key, nonce, text), with decryption undoing encryption (\<open>aead_correct\<close>) and ciphertext
  integrity relative to what was sealed under the key (\<open>aead_auth\<close>) as hypotheses where used.
\<close>

section \<open>Sealer, opener and channel\<close>

type_synonym nonce_bytes = "u8 list"
type_synonym 'k aead = "'k \<Rightarrow> nonce_bytes \<Rightarrow> u8 list \<Rightarrow> u8 list option"

datatype channel_error = Auth | Exhausted

record 'k sealer =
  s_cipher :: 'k
  s_counter :: u64

record 'k opener =
  o_cipher :: 'k
  o_counter :: u64

definition nonce :: "u64 \<Rightarrow> nonce_bytes" where
  "nonce counter = [0, 0, 0, 0] @ be_bytes 8 (unat counter)"

definition checked_inc :: "u64 \<Rightarrow> u64 option" where
  "checked_inc c = (if c = - 1 then None else Some (c + 1))"

definition seal :: "'k aead \<Rightarrow> 'k sealer \<Rightarrow> u8 list \<Rightarrow> (channel_error + u8 list) \<times> 'k sealer" where
  "seal enc s plaintext =
     (case enc (s_cipher s) (nonce (s_counter s)) plaintext of
        None \<Rightarrow> (Inl Auth, s)
      | Some ct \<Rightarrow>
          (case checked_inc (s_counter s) of
             None \<Rightarrow> (Inl Exhausted, s)
           | Some c \<Rightarrow> (Inr ct, s\<lparr>s_counter := c\<rparr>)))"

definition open_frame :: "'k aead \<Rightarrow> 'k opener \<Rightarrow> u8 list \<Rightarrow> (channel_error + u8 list) \<times> 'k opener" where
  "open_frame dec r ciphertext =
     (case dec (o_cipher r) (nonce (o_counter r)) ciphertext of
        None \<Rightarrow> (Inl Auth, r)
      | Some pt \<Rightarrow>
          (case checked_inc (o_counter r) of
             None \<Rightarrow> (Inl Exhausted, r)
           | Some c \<Rightarrow> (Inr pt, r\<lparr>o_counter := c\<rparr>)))"

record 'k secure_channel =
  sc_sealer :: "'k sealer"
  sc_opener :: "'k opener"

definition secure_channel_new :: "'k \<Rightarrow> 'k \<Rightarrow> 'k secure_channel" where
  "secure_channel_new send_key recv_key =
     \<lparr>sc_sealer = \<lparr>s_cipher = send_key, s_counter = 0\<rparr>,
      sc_opener = \<lparr>o_cipher = recv_key, o_counter = 0\<rparr>\<rparr>"

text \<open>\<open>SecureChannel::seal\<close>: \<open>None\<close> is the panic of its \<open>expect\<close>.\<close>

definition channel_seal :: "'k aead \<Rightarrow> 'k secure_channel \<Rightarrow> u8 list \<Rightarrow> (u8 list \<times> 'k secure_channel) option" where
  "channel_seal enc ch plaintext =
     (case seal enc (sc_sealer ch) plaintext of
        (Inl _, _) \<Rightarrow> None
      | (Inr ct, s) \<Rightarrow> Some (ct, ch\<lparr>sc_sealer := s\<rparr>))"

definition channel_open ::
  "'k aead \<Rightarrow> 'k secure_channel \<Rightarrow> u8 list \<Rightarrow> (channel_error + u8 list) \<times> 'k secure_channel" where
  "channel_open dec ch ciphertext =
     (let (res, r) = open_frame dec (sc_opener ch) ciphertext in (res, ch\<lparr>sc_opener := r\<rparr>))"

definition channel_split :: "'k secure_channel \<Rightarrow> 'k sealer \<times> 'k opener" where
  "channel_split ch = (sc_sealer ch, sc_opener ch)"

section \<open>Nonces\<close>

lemma be_bytes_inj: "m < 256 ^ k \<Longrightarrow> n < 256 ^ k \<Longrightarrow> be_bytes k m = be_bytes k n \<Longrightarrow> m = n"
  using be_val_be_bytes by metis

lemma nonce_inj [simp]: "nonce a = nonce b \<longleftrightarrow> a = b"
proof
  assume "nonce a = nonce b"
  moreover have "unat a < 256 ^ 8" "unat b < 256 ^ 8"
    using unat_bound [of a] unat_bound [of b] by simp_all
  ultimately show "a = b"
    unfolding nonce_def by (intro unat_eqI be_bytes_inj [of _ 8]) simp_all
qed simp

lemma length_nonce: "length (nonce c) = 12"
  by (simp add: nonce_def)

lemma unat_u64_max: "unat (- 1 :: u64) = 18446744073709551615"
  by (simp add: unsigned_minus_1_eq_mask mask_eq_exp_minus_1)

lemma checked_inc_Some: "checked_inc c = Some d \<longleftrightarrow> unat d = Suc (unat c)"
proof -
  note m = unat_u64_max
  show ?thesis
  proof (cases "c = - 1")
    case True
    moreover have "unat d < 18446744073709551616" using unat_bound [of d] by simp
    ultimately show ?thesis using m by (simp add: checked_inc_def)
  next
    case False
    then have "unat c \<noteq> 18446744073709551615" using m unat_eqI [of c "- 1"] by auto
    then have "unat c + unat (1 :: u64) < 2 ^ LENGTH(64)" using unat_bound [of c] by simp
    from unat_add_no_wrap [OF this] have "unat (c + 1) = Suc (unat c)" by simp
    then show ?thesis using False unat_eqI [of "c + 1" d] by (auto simp: checked_inc_def)
  qed
qed

section \<open>Runs\<close>

text \<open>
  What one side emits for a list of messages: the triples nonce, plaintext, ciphertext of the
  seals that succeed. A failed seal emits nothing.
\<close>

fun seal_all :: "'k aead \<Rightarrow> 'k sealer \<Rightarrow> u8 list list \<Rightarrow> (nonce_bytes \<times> u8 list \<times> u8 list) list" where
  "seal_all enc s [] = []"
| "seal_all enc s (p # ps) =
     (case seal enc s p of
        (Inl _, s') \<Rightarrow> seal_all enc s' ps
      | (Inr ct, s') \<Rightarrow> (nonce (s_counter s), p, ct) # seal_all enc s' ps)"

text \<open>What the other side accepts of the frames the network delivers.\<close>

fun open_all :: "'k aead \<Rightarrow> 'k opener \<Rightarrow> u8 list list \<Rightarrow> u8 list list" where
  "open_all dec r [] = []"
| "open_all dec r (c # cs) =
     (case open_frame dec r c of
        (Inl _, r') \<Rightarrow> open_all dec r' cs
      | (Inr p, r') \<Rightarrow> p # open_all dec r' cs)"

lemma seal_cases:
  obtains (ok) ct c where "seal enc s p = (Inr ct, s\<lparr>s_counter := c\<rparr>)"
      "unat c = Suc (unat (s_counter s))" "enc (s_cipher s) (nonce (s_counter s)) p = Some ct"
  | (fail) e where "seal enc s p = (Inl e, s)"
proof (cases "enc (s_cipher s) (nonce (s_counter s)) p")
  case None
  then show ?thesis by (intro fail) (simp add: seal_def)
next
  case (Some ct)
  then show ?thesis
    using ok [of ct] fail by (cases "checked_inc (s_counter s)") (simp_all add: seal_def checked_inc_Some)
qed

lemma open_cases:
  obtains (ok) pt c where "open_frame dec r ct = (Inr pt, r\<lparr>o_counter := c\<rparr>)"
      "unat c = Suc (unat (o_counter r))" "dec (o_cipher r) (nonce (o_counter r)) ct = Some pt"
  | (fail) e where "open_frame dec r ct = (Inl e, r)"
proof (cases "dec (o_cipher r) (nonce (o_counter r)) ct")
  case None
  then show ?thesis by (intro fail) (simp add: open_frame_def)
next
  case (Some pt)
  then show ?thesis
    using ok [of pt] fail by (cases "checked_inc (o_counter r)") (simp_all add: open_frame_def checked_inc_Some)
qed

lemma seal_all_entry:
  assumes "i < length (seal_all enc s ps)"
  shows "\<exists>c p ct. seal_all enc s ps ! i = (nonce c, p, ct) \<and> unat c = unat (s_counter s) + i \<and>
    enc (s_cipher s) (nonce c) p = Some ct \<and> unat (s_counter s) + i < 2 ^ 64 - 1"
  using assms
proof (induction ps arbitrary: s i)
  case (Cons p ps)
  show ?case
  proof (cases rule: seal_cases [of enc s p])
    case (ok ct c)
    have lim: "unat (s_counter s) < 2 ^ 64 - 1" using ok(2) unat_bound [of c] by simp
    show ?thesis
    proof (cases i)
      case 0
      then show ?thesis using ok lim by auto
    next
      case (Suc j)
      then show ?thesis using Cons.IH [of j "s\<lparr>s_counter := c\<rparr>"] Cons.prems ok by auto
    qed
  next
    case (fail e)
    then show ?thesis using Cons by simp
  qed
qed simp

definition aead_correct :: "'k aead \<Rightarrow> 'k aead \<Rightarrow> bool" where
  "aead_correct enc dec \<longleftrightarrow> (\<forall>k n p c. enc k n p = Some c \<longrightarrow> dec k n c = Some p)"

definition aead_auth :: "'k aead \<Rightarrow> 'k \<Rightarrow> (nonce_bytes \<times> u8 list \<times> u8 list) list \<Rightarrow> bool" where
  "aead_auth dec k sealed \<longleftrightarrow> (\<forall>n p c. dec k n c = Some p \<longrightarrow> (n, p, c) \<in> set sealed)"

lemma seal_all_nonce_unique:
  assumes "(nonce c, p, ct) \<in> set (seal_all enc s ps)"
  shows "\<exists>i < length (seal_all enc s ps). seal_all enc s ps ! i = (nonce c, p, ct) \<and>
    unat c = unat (s_counter s) + i"
proof -
  obtain i where i: "i < length (seal_all enc s ps)" "seal_all enc s ps ! i = (nonce c, p, ct)"
    using assms by (auto simp: in_set_conv_nth)
  then show ?thesis using seal_all_entry [OF i(1)] by auto
qed

text \<open>One accepted frame is the next one of the sender's list.\<close>

lemma accept_next:
  assumes auth: "aead_auth dec k (seal_all enc s ps)" and s: "s_counter s = 0"
    and r: "o_cipher r = k" and acc: "open_frame dec r ct = (Inr pt, r')"
  shows "unat (o_counter r) < length (seal_all enc s ps) \<and>
    seal_all enc s ps ! unat (o_counter r) = (nonce (o_counter r), pt, ct) \<and>
    unat (o_counter r') = Suc (unat (o_counter r)) \<and> o_cipher r' = k"
proof (cases rule: open_cases [of dec r ct])
  case (ok pt' c)
  then have "(nonce (o_counter r), pt, ct) \<in> set (seal_all enc s ps)"
    using auth r acc by (simp add: aead_auth_def)
  from seal_all_nonce_unique [OF this] show ?thesis using ok r acc s by auto
next
  case (fail e)
  then show ?thesis using acc by simp
qed

lemma open_all_prefix_from:
  assumes "aead_auth dec k (seal_all enc s ps)" and "s_counter s = 0" and "o_cipher r = k"
  shows "\<exists>n. open_all dec r fs =
    take n (drop (unat (o_counter r)) (map (\<lambda>(_, p, _). p) (seal_all enc s ps)))"
  using assms
proof (induction fs arbitrary: r)
  case Nil
  then show ?case by (intro exI [of _ 0]) simp
next
  case (Cons f fs)
  let ?P = "map (\<lambda>(_, p, _). p) (seal_all enc s ps)"
  show ?case
  proof (cases rule: open_cases [of dec r f])
    case (ok pt c)
    let ?r = "r\<lparr>o_counter := c\<rparr>"
    have nx: "unat (o_counter r) < length (seal_all enc s ps)"
        "seal_all enc s ps ! unat (o_counter r) = (nonce (o_counter r), pt, f)" "o_cipher ?r = k"
      using accept_next [OF Cons.prems(1,2,3) ok(1)] by auto
    obtain n where n: "open_all dec ?r fs = take n (drop (unat (o_counter ?r)) ?P)"
      using Cons.IH [OF Cons.prems(1,2) nx(3)] by blast
    have "drop (unat (o_counter r)) ?P = pt # drop (Suc (unat (o_counter r))) ?P"
      using nx(1,2) by (simp flip: Cons_nth_drop_Suc)
    then have "open_all dec r (f # fs) = take (Suc n) (drop (unat (o_counter r)) ?P)"
      using n ok by simp
    then show ?thesis by blast
  next
    case (fail e)
    then show ?thesis using Cons by simp
  qed
qed

text \<open>The opener's position after any frames is the number of plaintexts accepted.\<close>

fun opener_after :: "'k aead \<Rightarrow> 'k opener \<Rightarrow> u8 list list \<Rightarrow> 'k opener" where
  "opener_after dec r [] = r"
| "opener_after dec r (c # cs) = opener_after dec (snd (open_frame dec r c)) cs"

lemma opener_after_pos:
  "unat (o_counter (opener_after dec r fs)) = unat (o_counter r) + length (open_all dec r fs) \<and>
    o_cipher (opener_after dec r fs) = o_cipher r"
proof (induction fs arbitrary: r)
  case (Cons f fs)
  show ?case
  proof (cases rule: open_cases [of dec r f])
    case (ok pt c)
    then show ?thesis using Cons.IH [of "r\<lparr>o_counter := c\<rparr>"] by simp
  next
    case (fail e)
    then show ?thesis using Cons.IH [of r] by simp
  qed
qed simp

section \<open>Properties\<close>

text \<open>
  C1. Replay, reordering, dropping, duplication and reflection gain nothing: whatever frames the
  network delivers, in any order and number, the plaintexts a fresh opener accepts are an initial
  segment of the messages the peer sealed, in order, each at most once.
\<close>

theorem channel_accepts_prefix:
  assumes "aead_auth dec k (seal_all enc (sc_sealer (secure_channel_new k k')) ps)"
  shows "\<exists>n. open_all dec (sc_opener (secure_channel_new k' k)) fs =
    take n (map (\<lambda>(_, p, _). p) (seal_all enc (sc_sealer (secure_channel_new k k')) ps))"
  using open_all_prefix_from [OF assms, of "sc_opener (secure_channel_new k' k)" fs]
  by (simp add: secure_channel_new_def)

definition toy_enc :: "nat aead" where
  "toy_enc k n p = (if k = 1 \<and> p = [5] \<and> n = nonce 0 then Some [9, 9] else
    if k = 1 \<and> p = [6] \<and> n = nonce 1 then Some [8, 8] else None)"

definition toy_dec :: "nat aead" where
  "toy_dec k n c = (if k = 1 \<and> c = [9, 9] \<and> n = nonce 0 then Some [5] else
    if k = 1 \<and> c = [8, 8] \<and> n = nonce 1 then Some [6] else None)"

lemma toy_seals:
  "seal_all toy_enc (sc_sealer (secure_channel_new 1 2)) [[5], [6]] =
    [(nonce 0, [5], [9, 9]), (nonce 1, [6], [8, 8])]"
  by (simp add: secure_channel_new_def seal_def toy_enc_def checked_inc_def)

lemma toy_auth: "aead_auth toy_dec 1 (seal_all toy_enc (sc_sealer (secure_channel_new 1 2)) [[5], [6]])"
  unfolding toy_seals by (auto simp: aead_auth_def toy_dec_def split: if_splits)

theorem channel_accepts_prefix_witness:
  "\<exists>n. open_all toy_dec (sc_opener (secure_channel_new 2 1)) [[8, 8], [9, 9], [9, 9], [8, 8]] =
    take n [[5], [6]]"
  using channel_accepts_prefix [OF toy_auth, of "[[8, 8], [9, 9], [9, 9], [8, 8]]"]
  unfolding toy_seals by simp

text \<open>
  An attacker cannot desynchronise a live channel: after any frames whatever, the genuine frame
  that follows the last accepted one still opens, to the message that was sealed.
\<close>

theorem channel_not_desynchronised:
  assumes "aead_correct enc dec"
    and "seal_all enc (sc_sealer (secure_channel_new k k')) ps = sealed"
    and "i = length (open_all dec (sc_opener (secure_channel_new k' k)) fs)"
    and "i < length sealed"
  shows "fst (open_frame dec (opener_after dec (sc_opener (secure_channel_new k' k)) fs)
      (snd (snd (sealed ! i)))) = Inr (fst (snd (sealed ! i)))"
proof -
  let ?r = "opener_after dec (sc_opener (secure_channel_new k' k)) fs"
  have pos: "unat (o_counter ?r) = i" "o_cipher ?r = k"
    using opener_after_pos [of dec "sc_opener (secure_channel_new k' k)" fs] assms(3)
    by (simp_all add: secure_channel_new_def)
  obtain c p ct where e: "sealed ! i = (nonce c, p, ct)" "unat c = i" "i < 2 ^ 64 - 1"
      "enc k (nonce c) p = Some ct"
    using seal_all_entry [of i enc "sc_sealer (secure_channel_new k k')" ps] assms(2,4)
    by (auto simp: secure_channel_new_def)
  have c: "c = o_counter ?r" using e(2) pos(1) by (intro unat_eqI) simp
  have "dec k (nonce c) ct = Some p" using assms(1) e(4) by (simp add: aead_correct_def)
  moreover have "checked_inc c \<noteq> None"
  proof -
    have "c \<noteq> - 1" using e(2,3) unat_u64_max by auto
    then show ?thesis by (simp add: checked_inc_def)
  qed
  ultimately show ?thesis using e(1) c pos(2) by (auto simp: open_frame_def split: option.split)
qed

theorem channel_not_desynchronised_witness:
  "fst (open_frame toy_dec (opener_after toy_dec (sc_opener (secure_channel_new 2 1))
      [[8, 8], [9, 9], [9, 9]]) [8, 8]) = Inr [6]"
proof -
  have a: "aead_correct toy_enc toy_dec" by (simp add: aead_correct_def toy_enc_def toy_dec_def)
  have o: "1 = length (open_all toy_dec (sc_opener (secure_channel_new 2 1)) [[8, 8], [9, 9], [9, 9]])"
    by (simp add: secure_channel_new_def open_frame_def toy_dec_def checked_inc_def)
  show ?thesis using channel_not_desynchronised [OF a toy_seals o] by simp
qed

text \<open>
  C10. No nonce is ever used for two emitted frames, not even by messages that failed to seal or
  when the counter is exhausted: the emitted nonces are distinct, 12 bytes each, and at most
  \<open>2^64 - 1\<close> in number.
\<close>

theorem nonces_never_reused:
  "distinct (map fst (seal_all enc s ps)) \<and> (\<forall>n \<in> fst ` set (seal_all enc s ps). length n = 12) \<and>
    length (seal_all enc s ps) \<le> 2 ^ 64 - 1"
proof -
  let ?L = "seal_all enc s ps"
  have "map fst ?L ! i \<noteq> map fst ?L ! j" if "i < length ?L" "j < length ?L" "i \<noteq> j" for i j
    using seal_all_entry [OF that(1)] seal_all_entry [OF that(2)] that by auto
  then have d: "distinct (map fst ?L)" by (auto simp: distinct_conv_nth)
  have l: "length n = 12" if n: "n \<in> fst ` set ?L" for n
  proof -
    obtain i where "i < length ?L" "n = fst (?L ! i)" using n by (auto simp: in_set_conv_nth)
    then show ?thesis using seal_all_entry [of i enc s ps] by (auto simp: length_nonce)
  qed
  have m: "length ?L \<le> 2 ^ 64 - 1"
  proof (cases "length ?L")
    case (Suc i)
    then show ?thesis using seal_all_entry [of i enc s ps] by auto
  qed simp
  show ?thesis using d l m by blast
qed

theorem nonces_never_reused_witness:
  "distinct (map fst (seal_all toy_enc \<lparr>s_cipher = 1, s_counter = 0\<rparr> [[5], [7], [6]]))"
  using nonces_never_reused [of toy_enc "\<lparr>s_cipher = 1, s_counter = 0\<rparr>" "[[5], [7], [6]]"] by blast

end
