(* ===== verification/Floats.thy ===== *)
theory Floats
  imports Prelude Complex_Main "HOL-Library.Log_Nat"
begin

text \<open>
  IEEE 754 arithmetic as the Rust code uses it: a finite \<open>f32\<close> or \<open>f64\<close> is the rational number it
  denotes, and every operation is the exact result rounded to nearest, ties to even, at 24 or 53
  bits of precision (\<open>fround\<close>). Overflow to infinity and subnormals are outside the model: no
  value of the code comes near \<open>2^127\<close> or \<open>2^-126\<close>. A division by zero is not modelled by HOL's
  \<open>x / 0 = 0\<close>: the definitions that divide write that case out.
\<close>

section \<open>Rounding\<close>

definition round_even :: "rat \<Rightarrow> int" where
  "round_even x =
     (let f = floor x; d = x - of_int f
      in if d < 1 / 2 then f else if d > 1 / 2 then f + 1 else if even f then f else f + 1)"

lemma round_even_bounds: "floor x \<le> round_even x" "round_even x \<le> floor x + 1"
  by (simp_all add: round_even_def Let_def)

lemma round_even_int [simp]: "round_even (of_int n) = n"
  by (simp add: round_even_def)

lemma round_even_mono:
  assumes "x \<le> y"
  shows "round_even x \<le> round_even y"
proof (cases "floor x = floor y")
  case True
  then show ?thesis using assms by (auto simp: round_even_def Let_def)
next
  case False
  then have "floor x + 1 \<le> floor y" using floor_mono [OF assms] by linarith
  then show ?thesis using round_even_bounds [of x] round_even_bounds [of y] by linarith
qed

lemma round_even_ge: "of_int n \<le> x \<Longrightarrow> n \<le> round_even x"
  using round_even_mono [of "of_int n" x] by simp

lemma round_even_le: "x \<le> of_int n \<Longrightarrow> round_even x \<le> n"
  using round_even_mono [of x "of_int n"] by simp

lemma round_even_close: "\<bar>of_int (round_even x) - x\<bar> \<le> 1 / 2"
  using floor_correct [of x] unfolding round_even_def Let_def by (auto simp: abs_le_iff field_simps)

text \<open>The exponent of a positive rational: \<open>2 powi ilog2 x \<le> x < 2 powi (ilog2 x + 1)\<close>.\<close>

definition ilog2 :: "rat \<Rightarrow> int" where
  "ilog2 x =
     (case quotient_of x of (n, d) \<Rightarrow>
        let k = int (floorlog 2 (nat n)) - int (floorlog 2 (nat d))
        in if 2 powi k \<le> x then k else k - 1)"

definition fround :: "nat \<Rightarrow> rat \<Rightarrow> rat" where
  "fround p x =
     (if x = 0 then 0
      else let u = 2 powi (ilog2 \<bar>x\<bar> - int p + 1) in of_int (round_even (x / u)) * u)"

abbreviation r64 :: "rat \<Rightarrow> rat" where
  "r64 \<equiv> fround 53"

abbreviation r32 :: "rat \<Rightarrow> rat" where
  "r32 \<equiv> fround 24"

lemma floorlog_rat:
  assumes "0 < n"
  shows "2 powi (int (floorlog 2 (nat n)) - 1) \<le> (of_int n :: rat)"
    and "(of_int n :: rat) < 2 powi int (floorlog 2 (nat n))"
proof -
  have b: "2 ^ (floorlog 2 (nat n) - 1) \<le> nat n" "nat n < 2 ^ floorlog 2 (nat n)"
    using floorlog_bounds [of "nat n" 2] assms by simp_all
  have pos: "0 < floorlog 2 (nat n)"
    using assms floorlog_eq_zero_iff [of 2 "nat n"] by auto
  have n: "rat_of_nat (nat n) = of_int n" using assms by simp
  have "rat_of_nat (2 ^ (floorlog 2 (nat n) - 1)) \<le> of_int n"
    using b(1) n of_nat_mono by metis
  moreover have "2 powi (int (floorlog 2 (nat n)) - 1) = (2 :: rat) ^ (floorlog 2 (nat n) - 1)"
    using pos by (simp add: power_int_def nat_diff_distrib)
  ultimately show "2 powi (int (floorlog 2 (nat n)) - 1) \<le> (of_int n :: rat)" by simp
  have "rat_of_nat (nat n) < rat_of_nat (2 ^ floorlog 2 (nat n))"
    using b(2) by (simp only: of_nat_less_iff)
  then show "(of_int n :: rat) < 2 powi int (floorlog 2 (nat n))"
    by (simp add: n)
qed

lemma powi_mult: "(2 :: rat) powi a * 2 powi b = 2 powi (a + b)"
  by (simp add: power_int_add)

lemma of_int_pow2: "(of_int (2 ^ n) :: rat) = 2 powi int n"
  by simp

lemma ilog2_bounds:
  assumes "0 < x"
  shows "2 powi ilog2 x \<le> x" and "x < 2 powi (ilog2 x + 1)"
proof -
  obtain n d where q: "quotient_of x = (n, d)" by force
  have d: "0 < d" and x: "x = of_int n / of_int d"
    using q by (rule quotient_of_denom_pos) (rule quotient_of_div [OF q])
  have n: "0 < n" using assms x d by (simp add: zero_less_divide_iff)
  let ?a = "int (floorlog 2 (nat n))" and ?b = "int (floorlog 2 (nat d))"
  note fn = floorlog_rat [OF n] and fd = floorlog_rat [OF d]
  have D: "0 < (of_int d :: rat)" using d by simp
  have lo: "2 powi (?a - ?b - 1) \<le> x"
  proof -
    have "2 powi (?a - ?b - 1) * (of_int d :: rat) \<le> 2 powi (?a - ?b - 1) * 2 powi ?b"
      using fd(2) by (intro mult_left_mono) simp_all
    also have "\<dots> = 2 powi (?a - 1)" by (simp only: powi_mult) simp
    also have "\<dots> \<le> of_int n" by (rule fn(1))
    finally show ?thesis using D by (simp add: x pos_le_divide_eq)
  qed
  have hi: "x < 2 powi (?a - ?b + 1)"
  proof -
    have "of_int n < (2 :: rat) powi ?a" by (rule fn(2))
    also have "\<dots> = 2 powi (?a - ?b + 1) * 2 powi (?b - 1)" by (simp only: powi_mult) simp
    also have "\<dots> \<le> 2 powi (?a - ?b + 1) * of_int d"
      using fd(1) by (intro mult_left_mono) simp_all
    finally show ?thesis using D by (simp add: x pos_divide_less_eq)
  qed
  show "2 powi ilog2 x \<le> x" and "x < 2 powi (ilog2 x + 1)"
    using lo hi by (simp_all add: ilog2_def q Let_def not_le)
qed

lemma powi_less_cancel: "(2 :: rat) powi a < 2 powi b \<Longrightarrow> a < b"
  using power_int_increasing [of b a "2 :: rat"] by (metis not_less one_le_numeral)

lemma ilog2_unique:
  assumes "2 powi e \<le> x" and "x < 2 powi (e + 1)"
  shows "ilog2 x = e"
proof -
  have "0 < x" using assms(1) by (metis less_le_trans zero_less_power_int zero_less_numeral)
  note b = ilog2_bounds [OF this]
  have "ilog2 x < e + 1" by (rule powi_less_cancel) (use b(1) assms(2) in linarith)
  moreover have "e < ilog2 x + 1" by (rule powi_less_cancel) (use b(2) assms(1) in linarith)
  ultimately show ?thesis by simp
qed

lemma ilog2_mono: "0 < x \<Longrightarrow> x \<le> y \<Longrightarrow> ilog2 x \<le> ilog2 y"
  using ilog2_bounds [of x] ilog2_bounds [of y] powi_less_cancel [of "ilog2 x" "ilog2 y + 1"]
  by fastforce

section \<open>Monotonicity, exactness and error\<close>

lemma fround_0 [simp]: "fround p 0 = 0"
  by (simp add: fround_def)

lemma fround_nonneg: "0 \<le> x \<Longrightarrow> 0 \<le> fround p x"
  by (simp add: fround_def Let_def round_even_ge)

lemma fround_nonpos:
  assumes "x \<le> 0"
  shows "fround p x \<le> 0"
proof -
  let ?u = "(2 :: rat) powi (ilog2 \<bar>x\<bar> - int p + 1)"
  have "round_even (x / ?u) \<le> 0"
    by (rule round_even_le) (use assms in \<open>simp add: divide_le_0_iff\<close>)
  then show ?thesis by (simp add: fround_def Let_def mult_le_0_iff)
qed

text \<open>A number of at most \<open>p\<close> significant bits is itself.\<close>

lemma fround_exact:
  assumes x: "x = of_int m * 2 powi e" and m: "\<bar>m\<bar> < 2 ^ p"
  shows "fround p x = x"
proof (cases "x = 0")
  case False
  let ?u = "(2 :: rat) powi (ilog2 \<bar>x\<bar> - int p + 1)"
  have "2 powi ilog2 \<bar>x\<bar> \<le> \<bar>x\<bar>" using False by (intro ilog2_bounds(1)) simp
  also have "\<dots> = of_int \<bar>m\<bar> * 2 powi e" by (simp add: x abs_mult)
  also have "\<dots> < of_int (2 ^ p) * 2 powi e"
    using m by (intro mult_strict_right_mono) (simp_all only: of_int_less_iff, simp)
  also have "\<dots> = 2 powi (int p + e)" by (simp only: of_int_pow2 powi_mult)
  finally have "ilog2 \<bar>x\<bar> < int p + e" by (rule powi_less_cancel)
  define k where "k = ilog2 \<bar>x\<bar> - int p + 1"
  have j: "e - k = int (nat (e - k))" using \<open>ilog2 \<bar>x\<bar> < int p + e\<close> by (simp add: k_def)
  have "2 powi (e - k) = (2 :: rat) powi e / 2 powi k" by (simp add: power_int_diff)
  then have "x / 2 powi k = of_int m * 2 powi (e - k)" by (simp add: x)
  also have "\<dots> = of_int (m * 2 ^ nat (e - k))"
    using j by (metis of_int_mult of_int_pow2)
  finally have "of_int (round_even (x / 2 powi k)) = x / 2 powi k" by (metis round_even_int)
  then show ?thesis using False by (simp add: fround_def Let_def k_def)
qed simp

lemma fround_int: "\<bar>n\<bar> < 2 ^ p \<Longrightarrow> fround p (of_int n) = of_int n"
  by (rule fround_exact [of _ n 0]) simp_all

lemma fround_nat: "n < 2 ^ p \<Longrightarrow> fround p (of_nat n) = of_nat n"
  using fround_int [of "int n" p] by (metis abs_of_nat of_int_of_nat_eq of_nat_less_numeral_power_cancel_iff)

lemma fround_pos_bounds:
  assumes "0 < x" and "0 < p"
  shows "2 powi ilog2 x \<le> fround p x" and "fround p x \<le> 2 powi (ilog2 x + 1)"
proof -
  let ?e = "ilog2 x"
  let ?u = "(2 :: rat) powi (?e - int p + 1)"
  note b = ilog2_bounds [OF assms(1)]
  have pw: "of_int (2 ^ (p - 1)) * ?u = 2 powi ?e" "of_int (2 ^ p) * ?u = 2 powi (?e + 1)"
    using assms(2) by (simp_all only: of_int_pow2 powi_mult) (simp_all add: of_nat_diff)
  have "2 ^ (p - 1) \<le> round_even (x / ?u)"
    by (rule round_even_ge) (simp only: pos_le_divide_eq zero_less_power_int zero_less_numeral pw b)
  moreover have "round_even (x / ?u) \<le> 2 ^ p"
    by (rule round_even_le)
      (simp only: pos_divide_le_eq zero_less_power_int zero_less_numeral pw b less_imp_le)
  ultimately have "of_int (2 ^ (p - 1)) * ?u \<le> of_int (round_even (x / ?u)) * ?u"
      "of_int (round_even (x / ?u)) * ?u \<le> of_int (2 ^ p) * ?u"
    by (intro mult_right_mono; simp only: of_int_le_iff zero_le_power_int zero_le_numeral)+
  then show "2 powi ilog2 x \<le> fround p x" "fround p x \<le> 2 powi (ilog2 x + 1)"
    using assms(1) by (simp_all only: pw fround_def Let_def abs_of_pos if_False) auto
qed

lemma fround_pos:
  assumes "0 < x" and "0 < p"
  shows "0 < fround p x"
proof -
  have "0 < (2 :: rat) powi ilog2 x" by simp
  then show ?thesis using fround_pos_bounds(1) [OF assms] by linarith
qed

lemma round_even_minus: "round_even (- x) = - round_even x"
proof -
  define f where "f = floor x"
  define d where "d = x - of_int f"
  have x: "x = of_int f + d" "0 \<le> d" "d < 1" by (simp_all add: d_def f_def) linarith
  show ?thesis
  proof (cases "d = 0")
    case True
    then have "x = of_int f" "- x = of_int (- f)" using x by simp_all
    then show ?thesis by (simp only: round_even_int)
  next
    case False
    then have "floor (- x) = - f - 1" using x by (intro floor_unique) simp_all
    moreover have "floor x = f" by (simp add: f_def)
    ultimately show ?thesis using x False by (auto simp: round_even_def Let_def)
  qed
qed

lemma fround_minus: "fround p (- x) = - fround p x"
  by (simp add: fround_def Let_def round_even_minus)

lemma fround_mono_pos:
  assumes "0 < x" and "x \<le> y" and "0 < p"
  shows "fround p x \<le> fround p y"
proof (cases "ilog2 x = ilog2 y")
  case True
  then show ?thesis using assms
    by (auto simp: fround_def Let_def intro!: mult_right_mono round_even_mono divide_right_mono)
next
  case False
  then have "ilog2 x + 1 \<le> ilog2 y" using ilog2_mono assms by fastforce
  then have "(2 :: rat) powi (ilog2 x + 1) \<le> 2 powi ilog2 y" by (intro power_int_increasing) simp_all
  then show ?thesis
    using fround_pos_bounds(2) [of x p] fround_pos_bounds(1) [of y p] assms by linarith
qed

lemma fround_mono:
  assumes "x \<le> y" and "0 < p"
  shows "fround p x \<le> fround p y"
proof -
  consider "0 < x" | "x \<le> 0" "0 \<le> y" | "y < 0" using assms(1) by linarith
  then show ?thesis
  proof cases
    case 1
    then show ?thesis using fround_mono_pos assms by blast
  next
    case 2
    then show ?thesis using fround_nonneg [of y p] fround_nonpos [of x p] by linarith
  next
    case 3
    then have "fround p (- y) \<le> fround p (- x)"
      using assms by (intro fround_mono_pos) simp_all
    then show ?thesis by (simp add: fround_minus)
  qed
qed

lemmas r64_mono = fround_mono [where p = 53, simplified]
lemmas r32_mono = fround_mono [where p = 24, simplified]

lemma r64_nat: "n < 9007199254740992 \<Longrightarrow> r64 (of_nat n) = of_nat n"
  by (rule fround_nat) simp

section \<open>Conversions\<close>

text \<open>
  \<open>x as u32\<close> and \<open>x as u64\<close> of a float truncate towards zero and saturate; \<open>n as f64\<close> rounds.
\<close>

definition float_to_nat :: "nat \<Rightarrow> rat \<Rightarrow> nat" where
  "float_to_nat bits x = min (nat (floor x)) (2 ^ bits - 1)"

text \<open>\<open>Duration::as_secs_f64\<close> and \<open>Duration::from_secs_f64\<close> (rounded to the nearest nanosecond).\<close>

definition as_secs_f64 :: "duration \<Rightarrow> rat" where
  "as_secs_f64 d =
     r64 (r64 (of_nat (d div 1000000000)) + r64 (of_nat (d mod 1000000000) / 1000000000))"

definition from_secs_f64 :: "rat \<Rightarrow> duration" where
  "from_secs_f64 x = nat (round_even (x * 1000000000))"

lemma as_secs_f64_nonneg: "0 \<le> as_secs_f64 d"
  by (simp add: as_secs_f64_def fround_nonneg)

lemma float_to_nat_mono: "x \<le> y \<Longrightarrow> float_to_nat b x \<le> float_to_nat b y"
  unfolding float_to_nat_def by (intro min.mono nat_mono floor_mono order_refl)

lemma float_to_nat_nat: "n < 2 ^ b \<Longrightarrow> float_to_nat b (of_nat n) = n"
  by (simp add: float_to_nat_def)

lemma float_to_nat_le: "x \<le> of_nat n \<Longrightarrow> float_to_nat b x \<le> n"
proof -
  assume "x \<le> of_nat n"
  then have "floor x \<le> int n" using floor_mono [of x "of_nat n"] by simp
  then show ?thesis by (simp add: float_to_nat_def)
qed

end
