(* ===== verification/Messages.thy ===== *)
theory Messages
  imports Prelude
begin

text \<open>
  The messages between a client and the server (\<open>crates/common/src/signaling.rs\<close>). A session id is
  the list of its 16 bytes.
\<close>

type_synonym session_id = "u8 list"

definition PROTOCOL_VERSION :: u16 where "PROTOCOL_VERSION = 2"
definition MAX_NAME_LEN :: nat where "MAX_NAME_LEN = 64"
definition MAX_CANDIDATES :: nat where "MAX_CANDIDATES = 8"

datatype connect_failure = Offline | NotAccepting | RateLimited | Banned | Busy | InvalidId

datatype client_to_server =
    C_Register rstr
  | C_Auth rstr "u8 list" rstr rstr "rstr list" bool
  | C_Connect rstr
  | C_Relay session_id "u8 list"
  | C_EndSession session_id bool
  | C_SessionMode session_id bool
  | C_QueryPresence "rstr list"
  | C_SetIncomingEnabled bool
  | C_Ping

datatype server_to_client =
    S_Registered rstr "u8 list"
  | S_AuthOk rstr
  | S_AuthFailed rstr
  | S_Incoming session_id rstr rstr bool
  | S_SessionReady session_id rstr "rstr list" bool
  | S_ConnectFailed rstr connect_failure
  | S_Relay session_id "u8 list"
  | S_SessionEnded session_id
  | S_Presence "(rstr \<times> bool) list"
  | S_Pong
  | S_Error rstr

end
