(* ===== verification/Hub.thy ===== *)
theory Hub
  imports Limiter Ids Floats Messages
begin

text \<open>
  The server's presence and session state, \<open>server/src/hub.rs\<close>: who is online, who is in a
  session with whom, what may be relayed and how fast.

  An outbox (the sending half of a connection's channel) and a connection's kick signal are opaque
  handles; an IP address is an opaque value. \<open>Instant::now()\<close> and the random session id are
  arguments. Every method takes the hub's mutex for its whole run, so each is one step of the
  state; the atomic counters are part of that state.
\<close>

section \<open>State\<close>

type_synonym outbox = nat
type_synonym kick = nat
type_synonym ip = nat

record conn =
  conn_id :: u64
  conn_tx :: outbox
  conn_kick :: kick
  conn_name :: rstr
  conn_ip :: ip
  conn_candidates :: "rstr list"
  incoming_enabled :: bool

datatype mode = Pending | Relay | Direct

record bucket =
  tokens :: rat
  b_last :: instant

record session =
  s_viewer :: rstr
  s_host :: rstr
  s_viewer_ip :: ip
  s_created :: instant
  s_last_activity :: instant
  s_mode :: mode
  s_bytes :: u64
  s_bucket :: bucket

record limiters =
  auth_fail_ip :: "ip limiter"
  register_ip :: "ip limiter"
  connect_src :: "rstr limiter"
  enumerate_ip :: "ip limiter"
  pw_fail_viewer :: "rstr limiter"
  pw_fail_ip :: "ip limiter"
  admin_fail_ip :: "ip limiter"

record metrics =
  relay_bytes :: u64
  sessions_total :: u64
  connects_rejected :: u64
  auth_failures :: u64

record hub =
  max_sessions :: nat
  max_relay_mbps :: u32
  devices :: "(rstr, conn) hmap"
  sessions :: "(session_id, session) hmap"
  in_session :: "(rstr, session_id) hmap"
  lim :: limiters
  metrics :: metrics
  next_conn :: u64

record ended =
  en_session :: session_id
  en_viewer :: rstr
  en_host :: rstr
  en_mode :: mode
  en_bytes :: u64
  en_notify :: "outbox list"

record started =
  st_session :: session_id
  st_host_tx :: outbox
  st_host_name :: rstr
  st_viewer_name :: rstr
  st_same_network :: bool
  st_host_candidates :: "rstr list"
  st_replaced :: "ended option"

record hub_stats =
  n_online :: nat
  n_sessions :: nat
  n_direct :: nat
  n_relay :: nat
  n_pending :: nat

definition MINUTE :: duration where
  "MINUTE = secs 60"

definition new_limiters :: limiters where
  "new_limiters =
     \<lparr>auth_fail_ip = limiter_new 10 (5 * MINUTE) (15 * MINUTE),
      register_ip = limiter_new 30 (60 * MINUTE) (15 * MINUTE),
      connect_src = limiter_new 30 MINUTE (5 * MINUTE),
      enumerate_ip = limiter_new 15 (10 * MINUTE) (30 * MINUTE),
      pw_fail_viewer = limiter_new 5 (10 * MINUTE) (30 * MINUTE),
      pw_fail_ip = limiter_new 10 (10 * MINUTE) (30 * MINUTE),
      admin_fail_ip = limiter_new 5 (5 * MINUTE) (15 * MINUTE)\<rparr>"

definition hub_new :: "nat \<Rightarrow> u32 \<Rightarrow> hub" where
  "hub_new max_s mbps =
     \<lparr>max_sessions = max_s, max_relay_mbps = mbps, devices = [], sessions = [], in_session = [],
      lim = new_limiters,
      metrics = \<lparr>relay_bytes = 0, sessions_total = 0, connects_rejected = 0, auth_failures = 0\<rparr>,
      next_conn = 1\<rparr>"

definition next_conn_id :: "hub \<Rightarrow> u64 \<times> hub" where
  "next_conn_id g = (next_conn g, g\<lparr>next_conn := next_conn g + 1\<rparr>)"

section \<open>Rate limiting\<close>

definition ip_banned_for_auth :: "hub \<Rightarrow> ip \<Rightarrow> instant \<Rightarrow> bool \<times> hub" where
  "ip_banned_for_auth g a now =
     (let (r, l) = locked (auth_fail_ip (lim g)) a now
      in (r \<noteq> None, g\<lparr>lim := (lim g)\<lparr>auth_fail_ip := l\<rparr>\<rparr>))"

definition record_auth_failure :: "hub \<Rightarrow> ip \<Rightarrow> instant \<Rightarrow> bool \<times> hub" where
  "record_auth_failure g a now =
     (let (b, l) = record_failure (auth_fail_ip (lim g)) a now
      in (b, g\<lparr>metrics := (metrics g)\<lparr>auth_failures := auth_failures (metrics g) + 1\<rparr>,
               lim := (lim g)\<lparr>auth_fail_ip := l\<rparr>\<rparr>))"

definition allow_register :: "hub \<Rightarrow> ip \<Rightarrow> instant \<Rightarrow> bool \<times> hub" where
  "allow_register g a now =
     (let (r, l) = locked (register_ip (lim g)) a now
      in if r \<noteq> None then (False, g\<lparr>lim := (lim g)\<lparr>register_ip := l\<rparr>\<rparr>)
         else (True, g\<lparr>lim := (lim g)\<lparr>register_ip := snd (record_failure l a now)\<rparr>\<rparr>))"

definition admin_locked :: "hub \<Rightarrow> ip \<Rightarrow> instant \<Rightarrow> bool \<times> hub" where
  "admin_locked g a now =
     (let (r, l) = locked (admin_fail_ip (lim g)) a now
      in (r \<noteq> None, g\<lparr>lim := (lim g)\<lparr>admin_fail_ip := l\<rparr>\<rparr>))"

definition admin_failure :: "hub \<Rightarrow> ip \<Rightarrow> instant \<Rightarrow> hub" where
  "admin_failure g a now =
     g\<lparr>lim := (lim g)\<lparr>admin_fail_ip := snd (record_failure (admin_fail_ip (lim g)) a now)\<rparr>\<rparr>"

section \<open>Presence\<close>

text \<open>The kick signal notified, if an older connection held the slot.\<close>

definition attach :: "hub \<Rightarrow> rstr \<Rightarrow> conn \<Rightarrow> kick option \<times> hub" where
  "attach g i c =
     (map_option conn_kick (hm_get (devices g) i), g\<lparr>devices := hm_insert i c (devices g)\<rparr>)"

definition update_incoming :: "hub \<Rightarrow> rstr \<Rightarrow> u64 \<Rightarrow> bool \<Rightarrow> hub" where
  "update_incoming g i cid enabled =
     (case hm_get (devices g) i of
        None \<Rightarrow> g
      | Some c \<Rightarrow>
          if conn_id c = cid
          then g\<lparr>devices := hm_insert i (c\<lparr>incoming_enabled := enabled\<rparr>) (devices g)\<rparr>
          else g)"

definition end_locked :: "hub \<Rightarrow> session_id \<Rightarrow> ended option \<times> hub" where
  "end_locked g sid =
     (case hm_get (sessions g) sid of
        None \<Rightarrow> (None, g)
      | Some s \<Rightarrow>
          (Some \<lparr>en_session = sid, en_viewer = s_viewer s, en_host = s_host s, en_mode = s_mode s,
             en_bytes = s_bytes s,
             en_notify = List.map_filter (\<lambda>i. map_option conn_tx (hm_get (devices g) i))
               [s_viewer s, s_host s]\<rparr>,
           g\<lparr>sessions := hm_remove sid (sessions g),
             in_session := hm_remove (s_host s) (hm_remove (s_viewer s) (in_session g))\<rparr>))"

text \<open>\<open>Ended::notify\<close>: the messages offered to the surviving peers.\<close>

definition notify_ended :: "ended \<Rightarrow> (outbox \<times> server_to_client) list" where
  "notify_ended e = map (\<lambda>tx. (tx, S_SessionEnded (en_session e))) (en_notify e)"

definition detach :: "hub \<Rightarrow> rstr \<Rightarrow> u64 \<Rightarrow> ended list \<times> hub" where
  "detach g i cid =
     (if map_option conn_id (hm_get (devices g) i) \<noteq> Some cid then ([], g)
      else let g1 = g\<lparr>devices := hm_remove i (devices g)\<rparr>
           in case hm_get (in_session g1) i of
                None \<Rightarrow> ([], g1)
              | Some sid \<Rightarrow>
                  (case end_locked g1 sid of
                     (None, g2) \<Rightarrow> ([], g2)
                   | (Some e, g2) \<Rightarrow> ([e], g2)))"

definition presence :: "hub \<Rightarrow> rstr list \<Rightarrow> (rstr \<times> bool) list" where
  "presence g ids =
     map (\<lambda>i. (i, case hm_get (devices g) i of Some c \<Rightarrow> incoming_enabled c | None \<Rightarrow> False)) ids"

section \<open>Sessions\<close>

definition relay_rate :: "hub \<Rightarrow> rat" where
  "relay_rate g = r64 (of_nat (unat (max_relay_mbps g)) * 125000)"

definition reject :: "hub \<Rightarrow> connect_failure \<Rightarrow> (connect_failure + started) \<times> hub" where
  "reject g f =
     (Inl f, g\<lparr>metrics := (metrics g)\<lparr>connects_rejected := connects_rejected (metrics g) + 1\<rparr>\<rparr>)"

definition count_enumeration :: "hub \<Rightarrow> ip \<Rightarrow> instant \<Rightarrow> hub" where
  "count_enumeration g a now =
     g\<lparr>lim := (lim g)\<lparr>enumerate_ip := snd (record_failure (enumerate_ip (lim g)) a now)\<rparr>\<rparr>"

text \<open>
  The short-circuit \<open>||\<close> over three \<open>locked\<close> calls: a later limiter is only touched when the
  earlier ones admit.
\<close>

definition connect_banned :: "hub \<Rightarrow> rstr \<Rightarrow> ip \<Rightarrow> instant \<Rightarrow> bool \<times> hub" where
  "connect_banned g viewer a now =
     (let (r1, l1) = locked (pw_fail_viewer (lim g)) viewer now;
          g1 = g\<lparr>lim := (lim g)\<lparr>pw_fail_viewer := l1\<rparr>\<rparr>
      in if r1 \<noteq> None then (True, g1)
         else let (r2, l2) = locked (pw_fail_ip (lim g1)) a now;
                  g2 = g1\<lparr>lim := (lim g1)\<lparr>pw_fail_ip := l2\<rparr>\<rparr>
              in if r2 \<noteq> None then (True, g2)
                 else let (r3, l3) = locked (enumerate_ip (lim g2)) a now
                      in (r3 \<noteq> None, g2\<lparr>lim := (lim g2)\<lparr>enumerate_ip := l3\<rparr>\<rparr>))"

text \<open>A viewer reconnecting replaces its own previous session.\<close>

definition replace_own :: "hub \<Rightarrow> rstr \<Rightarrow> ended option \<times> hub" where
  "replace_own g viewer =
     (case hm_get (in_session g) viewer of
        None \<Rightarrow> (None, g)
      | Some old \<Rightarrow>
          (case hm_get (sessions g) old of
             Some s \<Rightarrow> if s_viewer s = viewer then end_locked g old else (None, g)
           | None \<Rightarrow> (None, g)))"

definition new_session :: "hub \<Rightarrow> rstr \<Rightarrow> rstr \<Rightarrow> ip \<Rightarrow> instant \<Rightarrow> session" where
  "new_session g viewer host a now =
     \<lparr>s_viewer = viewer, s_host = host, s_viewer_ip = a, s_created = now, s_last_activity = now,
      s_mode = Pending, s_bytes = 0,
      s_bucket = \<lparr>tokens = r64 (relay_rate g / 4), b_last = now\<rparr>\<rparr>"

text \<open>From the replaced session on: busy checks, the new session, the reply.\<close>

definition admit ::
  "hub \<Rightarrow> rstr \<Rightarrow> ip \<Rightarrow> rstr \<Rightarrow> rstr \<Rightarrow> conn \<Rightarrow> session_id \<Rightarrow> instant \<Rightarrow>
    (connect_failure + started) \<times> hub" where
  "admit g viewer viewer_ip viewer_name target host sid now =
     (let (replaced, g1) = replace_own g viewer
      in if hm_contains (in_session g1) target \<or> hm_contains (in_session g1) viewer then reject g1 Busy
         else if length (sessions g1) \<ge> max_sessions g1 then reject g1 Busy
         else let same_network = (conn_ip host = viewer_ip)
              in (Inr \<lparr>st_session = sid, st_host_tx = conn_tx host, st_host_name = conn_name host,
                       st_viewer_name = viewer_name, st_same_network = same_network,
                       st_host_candidates = (if same_network then conn_candidates host else []),
                       st_replaced = replaced\<rparr>,
                  g1\<lparr>sessions := hm_insert sid (new_session g1 viewer target viewer_ip now) (sessions g1),
                     in_session := hm_insert target sid (hm_insert viewer sid (in_session g1)),
                     metrics := (metrics g1)\<lparr>sessions_total := sessions_total (metrics g1) + 1\<rparr>\<rparr>))"

definition hub_connect ::
  "hub \<Rightarrow> rstr \<Rightarrow> rstr \<Rightarrow> session_id \<Rightarrow> instant \<Rightarrow> (connect_failure + started) \<times> hub" where
  "hub_connect g viewer target sid now =
     (case hm_get (devices g) viewer of
        None \<Rightarrow> (Inl Offline, g)
      | Some vc \<Rightarrow>
          (let viewer_ip = conn_ip vc;
               (r, l) = locked (connect_src (lim g)) viewer now;
               g1 = g\<lparr>lim := (lim g)\<lparr>connect_src := l\<rparr>\<rparr>
           in if r \<noteq> None then reject g1 RateLimited
              else let g2 = g1\<lparr>lim := (lim g1)\<lparr>connect_src :=
                         snd (record_failure (connect_src (lim g1)) viewer now)\<rparr>\<rparr>;
                       (banned, g3) = connect_banned g2 viewer viewer_ip now
                   in if banned then reject g3 Banned
                      else case device_id_parse target of
                             None \<Rightarrow> reject (count_enumeration g3 viewer_ip now) InvalidId
                           | Some tid \<Rightarrow>
                               if tid = viewer then reject g3 InvalidId
                               else case hm_get (devices g3) tid of
                                      None \<Rightarrow> reject (count_enumeration g3 viewer_ip now) Offline
                                    | Some host \<Rightarrow>
                                        if \<not> incoming_enabled host then reject g3 NotAccepting
                                        else admit g3 viewer viewer_ip (conn_name vc) tid host sid now))"

section \<open>Relaying\<close>

text \<open>
  \<open>Duration::from_secs_f64(-tokens / rate)\<close> panics when the rate is 0 (the quotient is infinite). The
  lock is recovered from a poisoned mutex, so the writes before the panic stay.
\<close>

datatype route_result = NoRoute | Routed outbox duration | RoutePanic

definition refill :: "bucket \<Rightarrow> rat \<Rightarrow> instant \<Rightarrow> nat \<Rightarrow> bucket" where
  "refill b rate now len =
     (let filled = min (r64 (tokens b + r64 (as_secs_f64 (duration_since now (b_last b)) * rate)))
                       (r64 (rate / 4))
      in b\<lparr>tokens := r64 (filled - r64 (of_nat len)), b_last := now\<rparr>)"

definition relay_peer :: "session \<Rightarrow> rstr \<Rightarrow> rstr option" where
  "relay_peer s from =
     (if s_viewer s = from then Some (s_host s)
      else if s_host s = from then Some (s_viewer s) else None)"

definition relay_route :: "hub \<Rightarrow> session_id \<Rightarrow> rstr \<Rightarrow> nat \<Rightarrow> instant \<Rightarrow> route_result \<times> hub" where
  "relay_route g sid from len now =
     (case hm_get (sessions g) sid of
        None \<Rightarrow> (NoRoute, g)
      | Some s \<Rightarrow>
          (case relay_peer s from of
             None \<Rightarrow> (NoRoute, g)
           | Some peer \<Rightarrow>
               (let s1 = (if s_mode s = Pending then s\<lparr>s_mode := Relay\<rparr> else s)
                in if s_mode s1 \<noteq> Relay then (NoRoute, g)
                   else let rate = relay_rate g;
                            b = refill (s_bucket s1) rate now len;
                            s2 = s1\<lparr>s_last_activity := now, s_bytes := s_bytes s1 + of_nat len, s_bucket := b\<rparr>;
                            g1 = g\<lparr>sessions := hm_insert sid s2 (sessions g),
                                   metrics := (metrics g)\<lparr>relay_bytes := relay_bytes (metrics g) + of_nat len\<rparr>\<rparr>
                        in if tokens b < 0 \<and> rate = 0 then (RoutePanic, g1)
                           else case hm_get (devices g1) peer of
                                  None \<Rightarrow> (NoRoute, g1)
                                | Some c \<Rightarrow>
                                    (Routed (conn_tx c)
                                       (if tokens b < 0 then from_secs_f64 (r64 (- tokens b / rate)) else 0),
                                     g1))))"

definition set_mode :: "hub \<Rightarrow> session_id \<Rightarrow> rstr \<Rightarrow> bool \<Rightarrow> instant \<Rightarrow> hub" where
  "set_mode g sid from direct now =
     (case hm_get (sessions g) sid of
        None \<Rightarrow> g
      | Some s \<Rightarrow>
          if s_viewer s = from \<and> s_mode s = Pending
          then g\<lparr>sessions := hm_insert sid
                 (s\<lparr>s_mode := (if direct then Direct else Relay), s_last_activity := now\<rparr>) (sessions g)\<rparr>
          else g)"

definition end_by :: "hub \<Rightarrow> session_id \<Rightarrow> rstr \<Rightarrow> ended option \<times> hub" where
  "end_by g sid who =
     (case hm_get (sessions g) sid of
        None \<Rightarrow> (None, g)
      | Some s \<Rightarrow>
          if s_viewer s \<noteq> who \<and> s_host s \<noteq> who then (None, g) else end_locked g sid)"

definition report_password_failure ::
  "hub \<Rightarrow> session_id \<Rightarrow> rstr \<Rightarrow> instant \<Rightarrow> (rstr \<times> bool) option \<times> hub" where
  "report_password_failure g sid host now =
     (case hm_get (sessions g) sid of
        None \<Rightarrow> (None, g)
      | Some s \<Rightarrow>
          if s_host s \<noteq> host then (None, g)
          else let (a, l1) = record_failure (pw_fail_viewer (lim g)) (s_viewer s) now;
                   (b, l2) = record_failure (pw_fail_ip (lim g)) (s_viewer_ip s) now
               in (Some (s_viewer s, a \<or> b),
                   g\<lparr>lim := (lim g)\<lparr>pw_fail_viewer := l1, pw_fail_ip := l2\<rparr>\<rparr>))"

section \<open>Upkeep\<close>

definition stale :: "instant \<Rightarrow> session \<Rightarrow> bool" where
  "stale now s =
     (case s_mode s of
        Pending \<Rightarrow> duration_since now (s_created s) > secs 60
      | Relay \<Rightarrow> duration_since now (s_last_activity s) > secs 120
      | Direct \<Rightarrow> False)"

fun end_each :: "hub \<Rightarrow> session_id list \<Rightarrow> ended list \<times> hub" where
  "end_each g [] = ([], g)"
| "end_each g (sid # sids) =
     (let (e, g1) = end_locked g sid; (es, g2) = end_each g1 sids
      in (case e of Some x \<Rightarrow> x # es | None \<Rightarrow> es, g2))"

definition sweep_limiters :: "limiters \<Rightarrow> instant \<Rightarrow> limiters" where
  "sweep_limiters l now =
     \<lparr>auth_fail_ip = sweep (auth_fail_ip l) now, register_ip = sweep (register_ip l) now,
      connect_src = sweep (connect_src l) now, enumerate_ip = sweep (enumerate_ip l) now,
      pw_fail_viewer = sweep (pw_fail_viewer l) now, pw_fail_ip = sweep (pw_fail_ip l) now,
      admin_fail_ip = sweep (admin_fail_ip l) now\<rparr>"

definition hub_sweep :: "hub \<Rightarrow> instant \<Rightarrow> ended list \<times> hub" where
  "hub_sweep g now =
     (let (es, g1) = end_each g (map fst (filter (\<lambda>(_, s). stale now s) (sessions g)))
      in (es, g1\<lparr>lim := sweep_limiters (lim g1) now\<rparr>))"

definition stats :: "hub \<Rightarrow> hub_stats" where
  "stats g =
     (let count = (\<lambda>m. length (filter (\<lambda>(_, s). s_mode s = m) (sessions g)))
      in \<lparr>n_online = length (devices g), n_sessions = length (sessions g), n_direct = count Direct,
          n_relay = count Relay, n_pending = count Pending\<rparr>)"

end
