(* ===== verification/Hub_Inv.thy ===== *)
theory Hub_Inv
  imports Hub
begin

text \<open>
  What every reachable state of the server's hub satisfies: presence, sessions and the
  participant index agree, and every limiter is well formed. Rests on \<open>Hub\<close>; the step relation
  has one rule per method of \<open>server/src/hub.rs\<close>.
\<close>

section \<open>The session tables agree\<close>

definition core_ok ::
  "(rstr, conn) hmap \<Rightarrow> (session_id, session) hmap \<Rightarrow> (rstr, session_id) hmap \<Rightarrow> nat \<Rightarrow> bool" where
  "core_ok dv ss ins mx \<longleftrightarrow>
     hm_wf dv \<and> hm_wf ss \<and> hm_wf ins \<and> length ss \<le> mx \<and>
     (\<forall>sid s. hm_get ss sid = Some s \<longrightarrow>
        s_viewer s \<noteq> s_host s \<and> hm_get ins (s_viewer s) = Some sid \<and> hm_get ins (s_host s) = Some sid) \<and>
     (\<forall>i sid. hm_get ins i = Some sid \<longrightarrow>
        hm_get dv i \<noteq> None \<and>
        (\<exists>s. hm_get ss sid = Some s \<and> (i = s_viewer s \<or> i = s_host s)))"

definition lims_ok :: "limiters \<Rightarrow> bool" where
  "lims_ok l \<longleftrightarrow> lim_wf (auth_fail_ip l) \<and> lim_wf (register_ip l) \<and> lim_wf (connect_src l) \<and>
     lim_wf (enumerate_ip l) \<and> lim_wf (pw_fail_viewer l) \<and> lim_wf (pw_fail_ip l) \<and>
     lim_wf (admin_fail_ip l)"

definition hub_inv :: "hub \<Rightarrow> bool" where
  "hub_inv g \<longleftrightarrow> core_ok (devices g) (sessions g) (in_session g) (max_sessions g) \<and> lims_ok (lim g)"

lemma core_okI:
  assumes "hm_wf dv" "hm_wf ss" "hm_wf ins" "length ss \<le> mx"
    and "\<And>sid s. hm_get ss sid = Some s \<Longrightarrow>
        s_viewer s \<noteq> s_host s \<and> hm_get ins (s_viewer s) = Some sid \<and> hm_get ins (s_host s) = Some sid"
    and "\<And>i sid. hm_get ins i = Some sid \<Longrightarrow>
        hm_get dv i \<noteq> None \<and> (\<exists>s. hm_get ss sid = Some s \<and> (i = s_viewer s \<or> i = s_host s))"
  shows "core_ok dv ss ins mx"
  unfolding core_ok_def using assms by blast

lemma core_ok_session:
  "core_ok dv ss ins mx \<Longrightarrow> hm_get ss sid = Some s \<Longrightarrow>
    s_viewer s \<noteq> s_host s \<and> hm_get ins (s_viewer s) = Some sid \<and> hm_get ins (s_host s) = Some sid"
  by (simp add: core_ok_def)

lemma core_ok_index:
  "core_ok dv ss ins mx \<Longrightarrow> hm_get ins i = Some sid \<Longrightarrow>
    hm_get dv i \<noteq> None \<and> (\<exists>s. hm_get ss sid = Some s \<and> (i = s_viewer s \<or> i = s_host s))"
  by (simp add: core_ok_def)

lemma core_ok_wf: "core_ok dv ss ins mx \<Longrightarrow> hm_wf dv \<and> hm_wf ss \<and> hm_wf ins \<and> length ss \<le> mx"
  by (simp add: core_ok_def)

lemma core_ok_devices_insert: "core_ok dv ss ins mx \<Longrightarrow> core_ok (hm_insert i c dv) ss ins mx"
  by (auto simp: core_ok_def)

lemma core_ok_update:
  assumes ok: "core_ok dv ss ins mx" and old: "hm_get ss sid = Some s"
    and same: "s_viewer s' = s_viewer s" "s_host s' = s_host s"
  shows "core_ok dv (hm_insert sid s' ss) ins mx"
proof (rule core_okI)
  show "length (hm_insert sid s' ss) \<le> mx"
    using core_ok_wf [OF ok] old by (simp add: length_hm_insert_present)
  fix x t
  assume "hm_get (hm_insert sid s' ss) x = Some t"
  then show "s_viewer t \<noteq> s_host t \<and> hm_get ins (s_viewer t) = Some x \<and> hm_get ins (s_host t) = Some x"
    using core_ok_session [OF ok] old same by (auto split: if_splits)
next
  fix i x
  assume "hm_get ins i = Some x"
  from core_ok_index [OF ok this] show "hm_get dv i \<noteq> None \<and>
      (\<exists>t. hm_get (hm_insert sid s' ss) x = Some t \<and> (i = s_viewer t \<or> i = s_host t))"
    using old same by auto
qed (use core_ok_wf [OF ok] in auto)

text \<open>Ending a session removes exactly its two participants from the index.\<close>

lemma core_ok_end:
  assumes ok: "core_ok dv ss ins mx" and s: "hm_get ss sid = Some s"
  shows "core_ok dv (hm_remove sid ss) (hm_remove (s_host s) (hm_remove (s_viewer s) ins)) mx"
proof (rule core_okI)
  show "length (hm_remove sid ss) \<le> mx"
    using core_ok_wf [OF ok] length_hm_remove_le [of sid ss] by linarith
  fix x t
  assume "hm_get (hm_remove sid ss) x = Some t"
  then have x: "x \<noteq> sid" "hm_get ss x = Some t" by (auto split: if_splits)
  then have "s_viewer t \<notin> {s_viewer s, s_host s}" "s_host t \<notin> {s_viewer s, s_host s}"
    using core_ok_session [OF ok x(2)] core_ok_session [OF ok s] by auto
  then show "s_viewer t \<noteq> s_host t \<and>
      hm_get (hm_remove (s_host s) (hm_remove (s_viewer s) ins)) (s_viewer t) = Some x \<and>
      hm_get (hm_remove (s_host s) (hm_remove (s_viewer s) ins)) (s_host t) = Some x"
    using core_ok_session [OF ok x(2)] by simp
next
  fix i x
  assume "hm_get (hm_remove (s_host s) (hm_remove (s_viewer s) ins)) i = Some x"
  then have i: "i \<noteq> s_viewer s" "i \<noteq> s_host s" "hm_get ins i = Some x" by (auto split: if_splits)
  then have "x \<noteq> sid" using core_ok_index [OF ok i(3)] s by auto
  then show "hm_get dv i \<noteq> None \<and>
      (\<exists>t. hm_get (hm_remove sid ss) x = Some t \<and> (i = s_viewer t \<or> i = s_host t))"
    using core_ok_index [OF ok i(3)] by auto
qed (use core_ok_wf [OF ok] in auto)

lemma core_ok_new:
  assumes ok: "core_ok dv ss ins mx" and fresh: "hm_get ss sid = None" and room: "length ss < mx"
    and free: "hm_get ins (s_viewer s) = None" "hm_get ins (s_host s) = None"
    and online: "hm_get dv (s_viewer s) \<noteq> None" "hm_get dv (s_host s) \<noteq> None"
    and ne: "s_viewer s \<noteq> s_host s"
  shows "core_ok dv (hm_insert sid s ss) (hm_insert (s_host s) sid (hm_insert (s_viewer s) sid ins)) mx"
proof (rule core_okI)
  show "length (hm_insert sid s ss) \<le> mx" using room fresh by (simp add: length_hm_insert_fresh)
  fix x t
  assume x: "hm_get (hm_insert sid s ss) x = Some t"
  show "s_viewer t \<noteq> s_host t \<and>
      hm_get (hm_insert (s_host s) sid (hm_insert (s_viewer s) sid ins)) (s_viewer t) = Some x \<and>
      hm_get (hm_insert (s_host s) sid (hm_insert (s_viewer s) sid ins)) (s_host t) = Some x"
  proof (cases "x = sid")
    case True
    then show ?thesis using x ne by simp
  next
    case False
    then have "hm_get ss x = Some t" using x by simp
    from core_ok_session [OF ok this] show ?thesis using free by auto
  qed
next
  fix i x
  assume i: "hm_get (hm_insert (s_host s) sid (hm_insert (s_viewer s) sid ins)) i = Some x"
  show "hm_get dv i \<noteq> None \<and>
      (\<exists>t. hm_get (hm_insert sid s ss) x = Some t \<and> (i = s_viewer t \<or> i = s_host t))"
  proof (cases "i = s_viewer s \<or> i = s_host s")
    case True
    then show ?thesis using i online by (auto split: if_splits)
  next
    case False
    then have "hm_get ins i = Some x" using i by simp
    from core_ok_index [OF ok this] show ?thesis using fresh by auto
  qed
qed (use core_ok_wf [OF ok] in auto)

lemma core_ok_detach:
  assumes ok: "core_ok dv ss ins mx" and none: "hm_get ins i = None"
  shows "core_ok (hm_remove i dv) ss ins mx"
proof (rule core_okI)
  fix j x
  assume j: "hm_get ins j = Some x"
  then have "j \<noteq> i" using none by auto
  then show "hm_get (hm_remove i dv) j \<noteq> None \<and> (\<exists>s. hm_get ss x = Some s \<and> (j = s_viewer s \<or> j = s_host s))"
    using core_ok_index [OF ok j] by simp
qed (use core_ok_wf [OF ok] core_ok_session [OF ok] in auto)

text \<open>Each participant appears once: two devices are busy per session.\<close>

lemma core_ok_length_index:
  assumes ok: "core_ok dv ss ins mx"
  shows "length ins = 2 * length ss"
proof -
  let ?f = "\<lambda>(sid, s). [(s_viewer s, sid), (s_host s, sid)]"
  have wf: "hm_wf ss" "hm_wf ins" using core_ok_wf [OF ok] by auto
  have sets: "set ins = set (concat (map ?f ss))"
  proof
    show "set ins \<subseteq> set (concat (map ?f ss))"
    proof
      fix p assume "p \<in> set ins"
      then obtain i sid where p: "p = (i, sid)" "hm_get ins i = Some sid"
        using hm_get_in_wf [OF wf(2)] by (metis surj_pair)
      obtain s where "hm_get ss sid = Some s" "i = s_viewer s \<or> i = s_host s"
        using core_ok_index [OF ok p(2)] by blast
      then show "p \<in> set (concat (map ?f ss))"
        using p(1) hm_get_Some_in [of ss sid s] by (fastforce intro!: bexI [of _ "(sid, s)"])
    qed
    show "set (concat (map ?f ss)) \<subseteq> set ins"
    proof
      fix p assume "p \<in> set (concat (map ?f ss))"
      then obtain sid s where x: "(sid, s) \<in> set ss" "p = (s_viewer s, sid) \<or> p = (s_host s, sid)"
        by auto
      from core_ok_session [OF ok hm_get_in_wf [OF wf(1) x(1)]] show "p \<in> set ins"
        using x(2) by (auto intro: hm_get_Some_in)
    qed
  qed
  have "distinct (concat (map ?f xs))" if "set xs \<subseteq> set ss" "distinct (map fst xs)" for xs
    using that
  proof (induction xs)
    case (Cons x xs)
    obtain sid s where x: "x = (sid, s)" by force
    then have "hm_get ss sid = Some s" using Cons.prems(1) hm_get_in_wf [OF wf(1)] by simp
    then have "s_viewer s \<noteq> s_host s" using core_ok_session [OF ok] by blast
    moreover have "(i, sid) \<notin> set (concat (map ?f xs))" for i
    proof
      assume "(i, sid) \<in> set (concat (map ?f xs))"
      then have "\<exists>t. (sid, t) \<in> set xs" by auto
      then show False using Cons.prems(2) x by force
    qed
    moreover have "distinct (concat (map ?f xs))" using Cons by simp
    ultimately show ?case by (simp add: x)
  qed simp
  then have "distinct (concat (map ?f ss))" using wf(1) by (simp add: hm_wf_def)
  moreover have "distinct ins" using wf(2) by (simp add: hm_wf_def distinct_map)
  ultimately have "length ins = length (concat (map ?f ss))"
    by (simp only: distinct_card [symmetric] sets)
  also have "\<dots> = 2 * length ss" by (induction ss) (auto split: prod.split)
  finally show ?thesis .
qed

section \<open>Every operation keeps it\<close>

lemma lim_wf_pairs:
  "locked l k now = (r, l') \<Longrightarrow> lim_wf l \<Longrightarrow> lim_wf l'"
  "record_failure l k now = (b, l') \<Longrightarrow> lim_wf l \<Longrightarrow> lim_wf l'"
  using lim_wf_locked [of l k now] lim_wf_failure [of l k now] by simp_all

definition same_core :: "hub \<Rightarrow> hub \<Rightarrow> bool" where
  "same_core g h \<longleftrightarrow> devices h = devices g \<and> sessions h = sessions g \<and>
     in_session h = in_session g \<and> max_sessions h = max_sessions g \<and> (lims_ok (lim g) \<longrightarrow> lims_ok (lim h))"

lemma same_core_refl [simp, intro]: "same_core g g"
  by (simp add: same_core_def)

lemma same_core_trans: "same_core g h \<Longrightarrow> same_core h k \<Longrightarrow> same_core g k"
  by (auto simp: same_core_def)

lemma same_core_inv: "same_core g h \<Longrightarrow> hub_inv g \<Longrightarrow> hub_inv h"
  by (auto simp: same_core_def hub_inv_def)

lemma same_core_ops [intro]:
  "same_core g (snd (next_conn_id g))"
  "same_core g (snd (ip_banned_for_auth g a now))"
  "same_core g (snd (record_auth_failure g a now))"
  "same_core g (snd (allow_register g a now))"
  "same_core g (snd (admin_locked g a now))"
  "same_core g (admin_failure g a now)"
  "same_core g (snd (report_password_failure g sid i now))"
  "same_core g (snd (reject g f))"
  "same_core g (count_enumeration g a now)"
  "same_core g (g\<lparr>lim := sweep_limiters (lim g) now\<rparr>)"
  by (auto simp: same_core_def lims_ok_def next_conn_id_def ip_banned_for_auth_def
      record_auth_failure_def allow_register_def admin_locked_def admin_failure_def
      report_password_failure_def reject_def count_enumeration_def sweep_limiters_def Let_def
      lim_wf_locked lim_wf_failure lim_wf_sweep
      dest: lim_wf_pairs split: prod.splits option.splits)

lemma same_core_banned [intro]: "same_core g (snd (connect_banned g v a now))"
  by (auto simp: same_core_def lims_ok_def connect_banned_def Let_def lim_wf_locked
      dest: lim_wf_pairs split: prod.splits)

lemma inv_end_locked: "hub_inv g \<Longrightarrow> hub_inv (snd (end_locked g sid))"
  by (auto simp: hub_inv_def end_locked_def core_ok_end split: option.split)

lemma inv_attach: "hub_inv g \<Longrightarrow> hub_inv (snd (attach g i c))"
  by (simp add: hub_inv_def attach_def core_ok_devices_insert)

lemma inv_update_incoming: "hub_inv g \<Longrightarrow> hub_inv (update_incoming g i cid b)"
  by (auto simp: hub_inv_def update_incoming_def core_ok_devices_insert split: option.split)

lemma inv_detach:
  assumes inv: "hub_inv g"
  shows "hub_inv (snd (detach g i cid))"
proof (cases "map_option conn_id (hm_get (devices g) i) = Some cid")
  case True
  let ?g1 = "g\<lparr>devices := hm_remove i (devices g)\<rparr>"
  have ok: "core_ok (devices g) (sessions g) (in_session g) (max_sessions g)" and l: "lims_ok (lim g)"
    using inv by (auto simp: hub_inv_def)
  show ?thesis
  proof (cases "hm_get (in_session g) i")
    case None
    then show ?thesis using True l core_ok_detach [OF ok None] by (simp add: detach_def hub_inv_def)
  next
    case (Some sid)
    then obtain s where s: "hm_get (sessions g) sid = Some s" "i = s_viewer s \<or> i = s_host s"
      using core_ok_index [OF ok] by blast
    have "hm_get (hm_remove (s_host s) (hm_remove (s_viewer s) (in_session g))) i = None"
      using s(2) by auto
    from core_ok_detach [OF core_ok_end [OF ok s(1)] this] show ?thesis
      using True Some s(1) l by (simp add: detach_def hub_inv_def end_locked_def)
  qed
qed (simp add: detach_def inv)

lemma inv_end_by: "hub_inv g \<Longrightarrow> hub_inv (snd (end_by g sid who))"
  by (auto simp: end_by_def inv_end_locked split: option.split)

lemma inv_replace_own: "hub_inv g \<Longrightarrow> hub_inv (snd (replace_own g v))"
  by (auto simp: replace_own_def inv_end_locked split: option.split)

lemma end_locked_keeps [simp]:
  "devices (snd (end_locked g sid)) = devices g"
  "max_sessions (snd (end_locked g sid)) = max_sessions g"
  "lim (snd (end_locked g sid)) = lim g"
  "metrics (snd (end_locked g sid)) = metrics g"
  by (simp_all add: end_locked_def split: option.split)

lemma replace_own_keeps [simp]:
  "devices (snd (replace_own g v)) = devices g"
  "max_sessions (snd (replace_own g v)) = max_sessions g"
  by (simp_all add: replace_own_def split: option.split)

lemma sessions_end_locked: "hm_get (sessions (snd (end_locked g sid))) x =
    (if x = sid then None else hm_get (sessions g) x)"
  by (auto simp: end_locked_def split: option.split)

lemma replace_own_sessions: "hm_get (sessions g) x = None \<Longrightarrow> hm_get (sessions (snd (replace_own g v))) x = None"
  by (auto simp: replace_own_def sessions_end_locked split: option.split)

lemma inv_admit:
  assumes inv: "hub_inv g" and fresh: "hm_get (sessions g) sid = None" and ne: "target \<noteq> viewer"
    and online: "hm_get (devices g) viewer \<noteq> None" "hm_get (devices g) target \<noteq> None"
  shows "hub_inv (snd (admit g viewer a vn target host sid now))"
proof -
  obtain r g1 where r: "replace_own g viewer = (r, g1)" by force
  have inv1: "hub_inv g1" using inv_replace_own [OF inv, of viewer] r by simp
  have g1: "devices g1 = devices g" "hm_get (sessions g1) sid = None"
    using replace_own_keeps(1) [of g viewer] replace_own_sessions [OF fresh, of viewer] r by simp_all
  let ?s = "new_session g1 viewer target a now"
  consider "hm_contains (in_session g1) target \<or> hm_contains (in_session g1) viewer \<or>
      length (sessions g1) \<ge> max_sessions g1"
    | "hm_get (in_session g1) target = None" "hm_get (in_session g1) viewer = None"
      "length (sessions g1) < max_sessions g1"
    by (metis hm_contains_def not_le)
  then show ?thesis
  proof cases
    case 1
    then have "snd (admit g viewer a vn target host sid now) = snd (reject g1 Busy)"
      by (auto simp: admit_def r)
    then show ?thesis using same_core_inv [OF same_core_ops(8) inv1] by simp
  next
    case 2
    have v: "s_viewer ?s = viewer" "s_host ?s = target" by (simp_all add: new_session_def)
    have "core_ok (devices g1) (hm_insert sid ?s (sessions g1))
        (hm_insert (s_host ?s) sid (hm_insert (s_viewer ?s) sid (in_session g1))) (max_sessions g1)"
      by (rule core_ok_new) (use inv1 g1 2 online ne in \<open>auto simp: hub_inv_def v\<close>)
    then show ?thesis
      using 2 inv1 by (simp add: admit_def r hm_contains_def hub_inv_def v Let_def)
  qed
qed

lemma inv_connect:
  assumes inv: "hub_inv g" and fresh: "hm_get (sessions g) sid = None"
  shows "hub_inv (snd (hub_connect g viewer target sid now))"
proof (cases "hm_get (devices g) viewer")
  case None
  then show ?thesis using inv by (simp add: hub_connect_def)
next
  case (Some vc)
  obtain r l where l: "locked (connect_src (lim g)) viewer now = (r, l)" by force
  define g1 where "g1 = g\<lparr>lim := (lim g)\<lparr>connect_src := l\<rparr>\<rparr>"
  define g2 where "g2 = g1\<lparr>lim := (lim g1)\<lparr>connect_src :=
      snd (record_failure (connect_src (lim g1)) viewer now)\<rparr>\<rparr>"
  obtain banned g3 where b: "connect_banned g2 viewer (conn_ip vc) now = (banned, g3)" by force
  have c1: "same_core g g1"
    using lim_wf_locked [of "connect_src (lim g)" viewer now] l
    by (auto simp: g1_def same_core_def lims_ok_def)
  have c2: "same_core g1 g2" by (auto simp: g2_def same_core_def lims_ok_def lim_wf_failure)
  have c3: "same_core g g3"
    using same_core_trans [OF same_core_trans [OF c1 c2]] same_core_banned [of g2 viewer "conn_ip vc" now] b
    by simp
  note i3 = same_core_inv [OF c3 inv]
  have rj: "hub_inv (snd (reject g3 f))" for f by (rule same_core_inv [OF same_core_ops(8) i3])
  have re: "hub_inv (snd (reject (count_enumeration g3 x now) f))" for f x
    by (rule same_core_inv [OF same_core_ops(8) same_core_inv [OF same_core_ops(9) i3]])
  have r1: "hub_inv (snd (reject g1 f))" for f
    by (rule same_core_inv [OF same_core_ops(8) same_core_inv [OF c1 inv]])
  have ad: "hub_inv (snd (admit g3 viewer (conn_ip vc) vn tid host sid now))"
    if "tid \<noteq> viewer" "hm_get (devices g3) tid = Some host" for tid host vn
    by (rule inv_admit [OF i3]) (use c3 fresh Some that in \<open>auto simp: same_core_def\<close>)
  show ?thesis
    unfolding hub_connect_def Some option.case l Let_def prod.case
    unfolding g1_def [symmetric]
    unfolding g2_def [symmetric] b prod.case
    by (auto intro: r1 rj re ad split: option.split)
qed

lemma inv_set_mode: "hub_inv g \<Longrightarrow> hub_inv (set_mode g sid i b now)"
  by (auto simp: hub_inv_def set_mode_def split: option.split intro: core_ok_update)

lemma inv_relay: "hub_inv g \<Longrightarrow> hub_inv (snd (relay_route g sid i len now))"
  by (auto simp: hub_inv_def relay_route_def Let_def split: option.split intro: core_ok_update)

lemma snd_end_each_Cons [simp]:
  "snd (end_each g (sid # sids)) = snd (end_each (snd (end_locked g sid)) sids)"
  by (simp add: Let_def split: prod.split)

lemma snd_hub_sweep:
  "snd (hub_sweep g now) =
    (let g1 = snd (end_each g (map fst (filter (\<lambda>(_, s). stale now s) (sessions g))))
     in g1\<lparr>lim := sweep_limiters (lim g1) now\<rparr>)"
  by (simp add: hub_sweep_def Let_def split: prod.split)

lemma inv_end_each: "hub_inv g \<Longrightarrow> hub_inv (snd (end_each g sids))"
proof (induction sids arbitrary: g)
  case (Cons sid sids)
  then show ?case using inv_end_locked [of g sid] by (simp only: snd_end_each_Cons)
qed simp

lemma inv_sweep: "hub_inv g \<Longrightarrow> hub_inv (snd (hub_sweep g now))"
proof -
  assume "hub_inv g"
  then have "hub_inv (snd (end_each g (map fst (filter (\<lambda>(_, s). stale now s) (sessions g)))))"
    by (rule inv_end_each)
  from same_core_inv [OF same_core_ops(10) this] show ?thesis
    unfolding snd_hub_sweep Let_def by blast
qed

section \<open>The hub as a step system\<close>

text \<open>
  Everything the rest of the server does to the hub, as data: the executable \<open>hub_apply\<close> runs one
  event. A new session id is 128 random bits, so it is not one in use (\<open>event_ok\<close>).
\<close>

datatype hub_event =
    E_next_conn
  | E_banned ip instant
  | E_auth_failure ip instant
  | E_register ip instant
  | E_admin_locked ip instant
  | E_admin_failure ip instant
  | E_attach rstr conn
  | E_incoming rstr u64 bool
  | E_detach rstr u64
  | E_connect rstr rstr session_id instant
  | E_relay session_id rstr nat instant
  | E_mode session_id rstr bool instant
  | E_end session_id rstr
  | E_password session_id rstr instant
  | E_sweep instant

fun hub_apply :: "hub \<Rightarrow> hub_event \<Rightarrow> hub" where
  "hub_apply g E_next_conn = snd (next_conn_id g)"
| "hub_apply g (E_banned a now) = snd (ip_banned_for_auth g a now)"
| "hub_apply g (E_auth_failure a now) = snd (record_auth_failure g a now)"
| "hub_apply g (E_register a now) = snd (allow_register g a now)"
| "hub_apply g (E_admin_locked a now) = snd (admin_locked g a now)"
| "hub_apply g (E_admin_failure a now) = admin_failure g a now"
| "hub_apply g (E_attach i c) = snd (attach g i c)"
| "hub_apply g (E_incoming i cid b) = update_incoming g i cid b"
| "hub_apply g (E_detach i cid) = snd (detach g i cid)"
| "hub_apply g (E_connect v t sid now) = snd (hub_connect g v t sid now)"
| "hub_apply g (E_relay sid i len now) = snd (relay_route g sid i len now)"
| "hub_apply g (E_mode sid i b now) = set_mode g sid i b now"
| "hub_apply g (E_end sid i) = snd (end_by g sid i)"
| "hub_apply g (E_password sid i now) = snd (report_password_failure g sid i now)"
| "hub_apply g (E_sweep now) = snd (hub_sweep g now)"

fun event_ok :: "hub \<Rightarrow> hub_event \<Rightarrow> bool" where
  "event_ok g (E_connect v t sid now) = (hm_get (sessions g) sid = None)"
| "event_ok g _ = True"

inductive hub_step :: "hub \<Rightarrow> hub \<Rightarrow> bool" where
  hub_event: "event_ok g e \<Longrightarrow> hub_step g (hub_apply g e)"

definition hub_init :: "hub \<Rightarrow> bool" where
  "hub_init g \<longleftrightarrow> (\<exists>mx mbps. g = hub_new mx mbps)"

lemma hub_inv_new: "hub_inv (hub_new mx mbps)"
  by (simp add: hub_inv_def hub_new_def core_ok_def lims_ok_def new_limiters_def)

lemma hub_inv_apply: "hub_inv g \<Longrightarrow> event_ok g e \<Longrightarrow> hub_inv (hub_apply g e)"
  by (cases e)
    (auto intro: inv_attach inv_update_incoming inv_detach inv_connect
      inv_relay inv_set_mode inv_end_by inv_sweep same_core_inv [OF same_core_ops(1)]
      same_core_inv [OF same_core_ops(2)] same_core_inv [OF same_core_ops(3)]
      same_core_inv [OF same_core_ops(4)] same_core_inv [OF same_core_ops(5)]
      same_core_inv [OF same_core_ops(6)] same_core_inv [OF same_core_ops(7)])

interpretation hub_sys: invariant_system hub_init hub_step hub_inv
proof
  show "hub_init g \<Longrightarrow> hub_inv g" for g by (auto simp: hub_init_def hub_inv_new)
  show "hub_inv h" if "hub_inv g" and "hub_step g h" for g h
    using that(2,1) by (cases rule: hub_step.cases) (simp add: hub_inv_apply)
qed

end
