(* ===== verification/Hub_Props.thy ===== *)
theory Hub_Props
  imports Hub_Inv
begin

text \<open>
  The guarantees of the server's hub, over all reachable states: session bookkeeping, who may be
  relayed to whom, the lasting effect of failed passwords, disconnection and upkeep. Everything
  rests on the invariant of \<open>Hub_Inv\<close> and the lockout interface of \<open>Limiter\<close>.
\<close>

abbreviation hub_reachable :: "hub \<Rightarrow> bool" where
  "hub_reachable \<equiv> reach hub_init hub_step"

lemmas hub_reach_inv = hub_sys.reach_inv

lemma hub_reach_core: "hub_reachable g \<Longrightarrow> core_ok (devices g) (sessions g) (in_session g) (max_sessions g)"
  using hub_reach_inv by (auto simp: hub_inv_def)

lemma hub_reach_lims: "hub_reachable g \<Longrightarrow> lims_ok (lim g)"
  using hub_reach_inv by (auto simp: hub_inv_def)

lemma hub_reach_new: "hub_reachable (hub_new mx mbps)"
  by (rule reach_init) (auto simp: hub_init_def)

lemma hub_reach_apply: "hub_reachable g \<Longrightarrow> event_ok g e \<Longrightarrow> hub_reachable (hub_apply g e)"
  by (rule reach_step) (auto intro: hub_event)

section \<open>Admission\<close>

lemma same_core_replace_own:
  assumes "same_core g h"
  shows "fst (replace_own h v) = fst (replace_own g v)"
    and "sessions (snd (replace_own h v)) = sessions (snd (replace_own g v))"
    and "in_session (snd (replace_own h v)) = in_session (snd (replace_own g v))"
  using assms by (auto simp: same_core_def replace_own_def end_locked_def split: option.split)

lemma replace_own_other:
  assumes "\<not> (hm_get (in_session g) v = Some x \<and> (\<exists>s. hm_get (sessions g) x = Some s \<and> s_viewer s = v))"
  shows "hm_get (sessions (snd (replace_own g v))) x = hm_get (sessions g) x"
  using assms by (auto simp: replace_own_def sessions_end_locked split: option.split)

lemma admit_Inr:
  assumes "admit g v a vn tid host sid now = (Inr st, h)"
  shows "st = \<lparr>st_session = sid, st_host_tx = conn_tx host, st_host_name = conn_name host,
      st_viewer_name = vn, st_same_network = (conn_ip host = a),
      st_host_candidates = (if conn_ip host = a then conn_candidates host else []),
      st_replaced = fst (replace_own g v)\<rparr> \<and>
    devices h = devices g \<and> lim h = lim (snd (replace_own g v)) \<and>
    sessions h = hm_insert sid (new_session (snd (replace_own g v)) v tid a now) (sessions (snd (replace_own g v))) \<and>
    in_session h = hm_insert tid sid (hm_insert v sid (in_session (snd (replace_own g v)))) \<and>
    hm_get (in_session (snd (replace_own g v))) tid = None \<and>
    hm_get (in_session (snd (replace_own g v))) v = None \<and>
    length (sessions (snd (replace_own g v))) < max_sessions g"
proof -
  obtain r g1 where r: "replace_own g v = (r, g1)" by force
  then show ?thesis
    using assms replace_own_keeps [of g v]
    by (auto simp: admit_def Let_def reject_def hm_contains_def not_le split: if_splits)
qed

text \<open>Every accepted \<open>connect\<close> has passed the limiters and ends in \<open>admit\<close>.\<close>

lemma connect_banned_result:
  "fst (connect_banned g v a now) \<longleftrightarrow>
    fst (locked (pw_fail_viewer (lim g)) v now) \<noteq> None \<or> fst (locked (pw_fail_ip (lim g)) a now) \<noteq> None \<or>
    fst (locked (enumerate_ip (lim g)) a now) \<noteq> None"
  "max_relay_mbps (snd (connect_banned g v a now)) = max_relay_mbps g"
  by (auto simp: connect_banned_def Let_def split: prod.split)

lemma connect_banned_limiters:
  "fst (locked (pw_fail_viewer (lim g)) v now) = None \<Longrightarrow>
    pw_fail_viewer (lim (snd (connect_banned g v a now))) = snd (locked (pw_fail_viewer (lim g)) v now) \<and>
    pw_fail_ip (lim (snd (connect_banned g v a now))) = snd (locked (pw_fail_ip (lim g)) a now)"
  by (auto simp: connect_banned_def Let_def split: prod.split)

lemma hub_connect_admits:
  assumes vc: "hm_get (devices g) v = Some vc" and t: "device_id_parse t = Some tid" "tid \<noteq> v"
    and host: "hm_get (devices g) tid = Some host" "incoming_enabled host"
    and l: "fst (locked (connect_src (lim g)) v now) = None"
      "fst (locked (pw_fail_viewer (lim g)) v now) = None"
      "fst (locked (pw_fail_ip (lim g)) (conn_ip vc) now) = None"
      "fst (locked (enumerate_ip (lim g)) (conn_ip vc) now) = None"
  shows "\<exists>g3. same_core g g3 \<and> max_relay_mbps g3 = max_relay_mbps g \<and>
    pw_fail_viewer (lim g3) = snd (locked (pw_fail_viewer (lim g)) v now) \<and>
    pw_fail_ip (lim g3) = snd (locked (pw_fail_ip (lim g)) (conn_ip vc) now) \<and>
    hub_connect g v t sid now = admit g3 v (conn_ip vc) (conn_name vc) tid host sid now"
proof -
  obtain l1 where l1: "locked (connect_src (lim g)) v now = (None, l1)"
    using l(1) by (cases "locked (connect_src (lim g)) v now") simp
  define g1 where "g1 = g\<lparr>lim := (lim g)\<lparr>connect_src := l1\<rparr>\<rparr>"
  define g2 where "g2 = g1\<lparr>lim := (lim g1)\<lparr>connect_src :=
      snd (record_failure (connect_src (lim g1)) v now)\<rparr>\<rparr>"
  have lims: "pw_fail_viewer (lim g2) = pw_fail_viewer (lim g)" "pw_fail_ip (lim g2) = pw_fail_ip (lim g)"
      "enumerate_ip (lim g2) = enumerate_ip (lim g)" "max_relay_mbps g2 = max_relay_mbps g"
    by (simp_all add: g2_def g1_def)
  have c1: "same_core g g1"
    using lim_wf_locked [of "connect_src (lim g)" v now] l1
    by (auto simp: g1_def same_core_def lims_ok_def)
  have c2: "same_core g1 g2" by (auto simp: g2_def same_core_def lims_ok_def lim_wf_failure)
  obtain g3 where b: "connect_banned g2 v (conn_ip vc) now = (False, g3)"
      "max_relay_mbps g3 = max_relay_mbps g2"
      "pw_fail_viewer (lim g3) = snd (locked (pw_fail_viewer (lim g)) v now)"
      "pw_fail_ip (lim g3) = snd (locked (pw_fail_ip (lim g)) (conn_ip vc) now)"
    using connect_banned_result [of g2 v "conn_ip vc" now]
      connect_banned_limiters [of g2 v now "conn_ip vc"] l(2-4) lims
    by (cases "connect_banned g2 v (conn_ip vc) now") auto
  have c3: "same_core g g3"
    using same_core_trans [OF same_core_trans [OF c1 c2]] same_core_banned [of g2 v "conn_ip vc" now] b
    by simp
  have "hub_connect g v t sid now = admit g3 v (conn_ip vc) (conn_name vc) tid host sid now"
    unfolding hub_connect_def vc option.case l1 Let_def prod.case
    unfolding g1_def [symmetric]
    unfolding g2_def [symmetric] b(1) prod.case
    using t host c3 by (simp add: same_core_def)
  then show ?thesis using c3 b(2-4) lims(4) by auto
qed

lemma hub_connect_Inr:
  assumes "hub_connect g v t sid now = (Inr st, h)"
  obtains vc tid host g3 where
    "hm_get (devices g) v = Some vc" "device_id_parse t = Some tid" "tid \<noteq> v"
    "hm_get (devices g) tid = Some host" "incoming_enabled host" "same_core g g3"
    "admit g3 v (conn_ip vc) (conn_name vc) tid host sid now = (Inr st, h)"
    "fst (locked (pw_fail_viewer (lim g)) v now) = None"
    "fst (locked (pw_fail_ip (lim g)) (conn_ip vc) now) = None"
    "fst (locked (enumerate_ip (lim g)) (conn_ip vc) now) = None"
    "fst (locked (connect_src (lim g)) v now) = None"
proof -
  obtain vc where vc: "hm_get (devices g) v = Some vc"
    using assms by (auto simp: hub_connect_def split: option.splits)
  obtain r l where l: "locked (connect_src (lim g)) v now = (r, l)" by force
  define g1 where "g1 = g\<lparr>lim := (lim g)\<lparr>connect_src := l\<rparr>\<rparr>"
  define g2 where "g2 = g1\<lparr>lim := (lim g1)\<lparr>connect_src :=
      snd (record_failure (connect_src (lim g1)) v now)\<rparr>\<rparr>"
  obtain banned g3 where b: "connect_banned g2 v (conn_ip vc) now = (banned, g3)" by force
  have c1: "same_core g g1"
    using lim_wf_locked [of "connect_src (lim g)" v now] l
    by (auto simp: g1_def same_core_def lims_ok_def)
  have c2: "same_core g1 g2" by (auto simp: g2_def same_core_def lims_ok_def lim_wf_failure)
  have c3: "same_core g g3"
    using same_core_trans [OF same_core_trans [OF c1 c2]] same_core_banned [of g2 v "conn_ip vc" now] b
    by simp
  have "(Inr st, h) = (if r \<noteq> None then reject g1 RateLimited else if banned then reject g3 Banned
     else case device_id_parse t of
            None \<Rightarrow> reject (count_enumeration g3 (conn_ip vc) now) InvalidId
          | Some tid \<Rightarrow> if tid = v then reject g3 InvalidId
              else case hm_get (devices g3) tid of
                     None \<Rightarrow> reject (count_enumeration g3 (conn_ip vc) now) Offline
                   | Some host \<Rightarrow> if \<not> incoming_enabled host then reject g3 NotAccepting
                       else admit g3 v (conn_ip vc) (conn_name vc) tid host sid now)"
    using assms unfolding hub_connect_def vc option.case l Let_def prod.case
    unfolding g1_def [symmetric]
    unfolding g2_def [symmetric] b prod.case by simp
  then obtain tid host where a: "r = None" "\<not> banned" "device_id_parse t = Some tid" "tid \<noteq> v"
      "hm_get (devices g3) tid = Some host" "incoming_enabled host"
      "admit g3 v (conn_ip vc) (conn_name vc) tid host sid now = (Inr st, h)"
    by (auto simp: reject_def split: if_splits option.splits)
  have lims: "pw_fail_viewer (lim g2) = pw_fail_viewer (lim g)" "pw_fail_ip (lim g2) = pw_fail_ip (lim g)"
      "enumerate_ip (lim g2) = enumerate_ip (lim g)" by (simp_all add: g2_def g1_def)
  have nb: "fst (locked (pw_fail_viewer (lim g)) v now) = None \<and>
      fst (locked (pw_fail_ip (lim g)) (conn_ip vc) now) = None \<and>
      fst (locked (enumerate_ip (lim g)) (conn_ip vc) now) = None"
    using b a(2) connect_banned_result(1) [of g2 v "conn_ip vc" now] by (simp add: lims)
  show thesis
    by (rule that [OF vc a(3,4) _ a(6) c3 a(7)]) (use nb a(1,5) c3 l in \<open>auto simp: same_core_def\<close>)
qed

lemma relay_rate_pos:
  assumes "max_relay_mbps g \<noteq> 0"
  shows "0 < relay_rate g"
proof -
  have "0 < unat (max_relay_mbps g)" using assms by (simp add: unat_gt_0)
  then have "0 < (of_nat (unat (max_relay_mbps g)) :: rat) * 125000"
    by (simp only: of_nat_0_less_iff zero_less_mult_iff) simp
  then show ?thesis unfolding relay_rate_def by (rule fround_pos) simp
qed

section \<open>A concrete hub for the witnesses\<close>

definition dev_a :: rstr where "dev_a = lit ''123456789''"
definition dev_b :: rstr where "dev_b = lit ''987654321''"

definition conn_a :: conn where
  "conn_a = \<lparr>conn_id = 1, conn_tx = 10, conn_kick = 10, conn_name = lit ''a'', conn_ip = 7,
    conn_candidates = [], incoming_enabled = False\<rparr>"

definition conn_b :: conn where
  "conn_b = \<lparr>conn_id = 2, conn_tx = 20, conn_kick = 20, conn_name = lit ''b'', conn_ip = 8,
    conn_candidates = [lit ''10.0.0.2:9''], incoming_enabled = True\<rparr>"

definition demo_online :: hub where
  "demo_online = hub_apply (hub_apply (hub_new 5 8) (E_attach dev_a conn_a)) (E_attach dev_b conn_b)"

definition demo_busy :: hub where
  "demo_busy = hub_apply demo_online (E_connect dev_a dev_b [1] 1000)"

lemma demo_online_eq: "demo_online = (hub_new 5 8)\<lparr>devices := [(dev_a, conn_a), (dev_b, conn_b)]\<rparr>"
  by (simp add: demo_online_def attach_def hub_new_def hm_insert_def dev_a_def dev_b_def)

lemma demo_ids:
  "dev_a \<noteq> dev_b" "dev_b \<noteq> dev_a" "device_id_parse dev_b = Some dev_b"
  by (simp_all add: dev_a_def dev_b_def device_id_parse_def normalize_digits_def is_separator_def
      DEVICE_ID_LEN_def as_bytes_def utf8_nats_def str_len_def utf8_len_def is_ascii_digit_def unat_u8_small)

section \<open>Properties\<close>

text \<open>
  C6. The hub's books balance in every reachable state: a session joins two different devices,
  both online, neither in any other session; a device is marked busy exactly when it is in a
  session, so twice as many are busy as there are sessions, of which there are never more than
  configured.
\<close>

theorem hub_books_balance:
  assumes "hub_reachable g"
  shows "length (sessions g) \<le> max_sessions g \<and> length (in_session g) = 2 * length (sessions g) \<and>
    (\<forall>sid s. hm_get (sessions g) sid = Some s \<longrightarrow>
       s_viewer s \<noteq> s_host s \<and> hm_get (devices g) (s_viewer s) \<noteq> None \<and>
       hm_get (devices g) (s_host s) \<noteq> None \<and>
       (\<forall>sid' s'. hm_get (sessions g) sid' = Some s' \<and>
          {s_viewer s', s_host s'} \<inter> {s_viewer s, s_host s} \<noteq> {} \<longrightarrow> sid' = sid))"
proof -
  note ok = hub_reach_core [OF assms]
  have "s_viewer s \<noteq> s_host s \<and> hm_get (devices g) (s_viewer s) \<noteq> None \<and>
      hm_get (devices g) (s_host s) \<noteq> None \<and>
      (\<forall>sid' s'. hm_get (sessions g) sid' = Some s' \<and>
         {s_viewer s', s_host s'} \<inter> {s_viewer s, s_host s} \<noteq> {} \<longrightarrow> sid' = sid)"
    if s: "hm_get (sessions g) sid = Some s" for sid s
  proof (intro conjI allI impI)
    note c = core_ok_session [OF ok s]
    show "s_viewer s \<noteq> s_host s" using c by simp
    show "hm_get (devices g) (s_viewer s) \<noteq> None" "hm_get (devices g) (s_host s) \<noteq> None"
      using c core_ok_index [OF ok] by blast+
    fix sid' s'
    assume a: "hm_get (sessions g) sid' = Some s' \<and> {s_viewer s', s_host s'} \<inter> {s_viewer s, s_host s} \<noteq> {}"
    then have "hm_get (in_session g) (s_viewer s') = Some sid'" "hm_get (in_session g) (s_host s') = Some sid'"
      using core_ok_session [OF ok] by blast+
    then show "sid' = sid" using a c by auto
  qed
  then show ?thesis using core_ok_wf [OF ok] core_ok_length_index [OF ok] by blast
qed

lemma demo_online_reach: "hub_reachable demo_online"
  unfolding demo_online_def by (intro hub_reach_apply hub_reach_new) simp_all

lemma demo_busy_reach: "hub_reachable demo_busy"
  unfolding demo_busy_def
  by (rule hub_reach_apply [OF demo_online_reach]) (simp add: demo_online_eq hub_new_def)

lemma fresh_limiters_admit:
  "locked (limiter_new n w d) k now = (None, limiter_new n w d)"
  by (simp add: locked_def limiter_new_def)

lemma demo_connect:
  "\<exists>g3 st. devices g3 = [(dev_a, conn_a), (dev_b, conn_b)] \<and> max_sessions g3 = 5 \<and>
    max_relay_mbps g3 = 8 \<and> pw_fail_viewer (lim g3) = limiter_new 5 (10 * MINUTE) (30 * MINUTE) \<and>
    pw_fail_ip (lim g3) = limiter_new 10 (10 * MINUTE) (30 * MINUTE) \<and>
    hub_connect demo_online dev_a dev_b [1] 1000 = (Inr st,
      g3\<lparr>sessions := [([1], new_session g3 dev_a dev_b 7 1000)],
        in_session := [(dev_a, [1]), (dev_b, [1])],
        metrics := (metrics g3)\<lparr>sessions_total := sessions_total (metrics g3) + 1\<rparr>\<rparr>)"
proof -
  note fl = fresh_limiters_admit
  have vc: "hm_get (devices demo_online) dev_a = Some conn_a" "hm_get (devices demo_online) dev_b = Some conn_b"
    by (simp_all add: demo_online_eq hm_get_def demo_ids)
  have en: "incoming_enabled conn_b" "conn_ip conn_a = 7" by (simp_all add: conn_b_def conn_a_def)
  have lm: "lim demo_online = new_limiters" by (simp add: demo_online_eq hub_new_def)
  obtain g3 where g3: "same_core demo_online g3" "max_relay_mbps g3 = max_relay_mbps demo_online"
      "pw_fail_viewer (lim g3) = limiter_new 5 (10 * MINUTE) (30 * MINUTE)"
      "pw_fail_ip (lim g3) = limiter_new 10 (10 * MINUTE) (30 * MINUTE)"
      "hub_connect demo_online dev_a dev_b [1] 1000 = admit g3 dev_a 7 (conn_name conn_a) dev_b conn_b [1] 1000"
    using hub_connect_admits [OF vc(1) demo_ids(3,2) vc(2) en(1), of 1000 "[1]"]
    by (auto simp: lm new_limiters_def fl en(2))
  have c: "devices g3 = [(dev_a, conn_a), (dev_b, conn_b)]" "sessions g3 = []" "in_session g3 = []"
      "max_sessions g3 = 5" "max_relay_mbps g3 = 8"
    using g3(1,2) by (simp_all add: same_core_def demo_online_eq hub_new_def)
  have r: "replace_own g3 dev_a = (None, g3)" by (simp add: replace_own_def c)
  obtain st where "admit g3 dev_a 7 (conn_name conn_a) dev_b conn_b [1] 1000 = (Inr st,
      g3\<lparr>sessions := [([1], new_session g3 dev_a dev_b 7 1000)],
        in_session := [(dev_a, [1]), (dev_b, [1])],
        metrics := (metrics g3)\<lparr>sessions_total := sessions_total (metrics g3) + 1\<rparr>\<rparr>)"
    by (simp add: admit_def r c hm_contains_def Let_def hm_insert_def demo_ids)
  then show ?thesis using c g3 by (intro exI [of _ g3] exI [of _ st]) simp
qed

lemma demo_busy_tables:
  "hm_get (sessions demo_busy) [1] = Some (new_session demo_busy dev_a dev_b 7 1000)"
  "in_session demo_busy = [(dev_a, [1]), (dev_b, [1])]"
  "devices demo_busy = [(dev_a, conn_a), (dev_b, conn_b)]"
  "length (sessions demo_busy) = 1" "max_relay_mbps demo_busy = 8" "max_sessions demo_busy = 5"
  "pw_fail_viewer (lim demo_busy) = limiter_new 5 (10 * MINUTE) (30 * MINUTE)"
  "pw_fail_ip (lim demo_busy) = limiter_new 10 (10 * MINUTE) (30 * MINUTE)"
  "\<exists>st. hub_connect demo_online dev_a dev_b [1] 1000 = (Inr st, demo_busy)"
  using demo_connect by (auto simp: demo_busy_def hm_get_def new_session_def relay_rate_def)

theorem hub_books_balance_witness:
  "length (in_session demo_busy) = 2 \<and> length (sessions demo_busy) = 1"
  using hub_books_balance [OF demo_busy_reach] demo_busy_tables(4) by simp

text \<open>
  C4. Relaying is exactly between the two participants: in a reachable state with a nonzero rate
  limit, a frame is routed if and only if its sender takes part in the session and the session is
  not direct; it goes to the current connection of the other participant. A frame from anyone
  else changes nothing at all.
\<close>

theorem relay_exactly_between_participants:
  assumes "hub_reachable g" and "max_relay_mbps g \<noteq> 0"
  shows "((\<exists>tx d. fst (relay_route g sid from len now) = Routed tx d) \<longleftrightarrow>
      (\<exists>s. hm_get (sessions g) sid = Some s \<and> from \<in> {s_viewer s, s_host s} \<and> s_mode s \<noteq> Direct)) \<and>
    (\<forall>tx d. fst (relay_route g sid from len now) = Routed tx d \<longrightarrow>
      (\<exists>s peer c. hm_get (sessions g) sid = Some s \<and> {from, peer} = {s_viewer s, s_host s} \<and>
         from \<noteq> peer \<and> hm_get (devices g) peer = Some c \<and> tx = conn_tx c)) \<and>
    ((\<forall>s. hm_get (sessions g) sid = Some s \<longrightarrow> from \<notin> {s_viewer s, s_host s}) \<longrightarrow>
      relay_route g sid from len now = (NoRoute, g))"
proof -
  note ok = hub_reach_core [OF assms(1)]
  have rate: "relay_rate g \<noteq> 0" using relay_rate_pos [OF assms(2)] by simp
  show ?thesis
  proof (cases "hm_get (sessions g) sid")
    case None
    then show ?thesis by (simp add: relay_route_def)
  next
    case (Some s)
    note c = core_ok_session [OF ok Some]
    obtain cv ch where on: "hm_get (devices g) (s_viewer s) = Some cv" "hm_get (devices g) (s_host s) = Some ch"
      using c core_ok_index [OF ok] by blast
    show ?thesis using Some c on rate
      by (cases "s_mode s") (auto simp: relay_route_def relay_peer_def Let_def)
  qed
qed

theorem relay_exactly_between_participants_witness:
  "\<exists>d. fst (relay_route demo_busy [1] dev_a 100 2000) = Routed 20 d"
proof -
  obtain s where s: "hm_get (sessions demo_busy) [1] = Some s" "s_viewer s = dev_a" "s_host s = dev_b"
      "s_mode s = Pending" using demo_busy_tables(1) by (simp add: new_session_def)
  have r: "max_relay_mbps demo_busy \<noteq> 0" by (simp add: demo_busy_tables(5))
  note th = relay_exactly_between_participants [OF demo_busy_reach r, of "[1]" dev_a 100 2000]
  have "\<exists>tx d. fst (relay_route demo_busy [1] dev_a 100 2000) = Routed tx d" using th s by simp
  then obtain tx d where t: "fst (relay_route demo_busy [1] dev_a 100 2000) = Routed tx d" by blast
  then obtain peer c where "{dev_a, peer} = {dev_a, dev_b}" "dev_a \<noteq> peer"
      "hm_get (devices demo_busy) peer = Some c" "tx = conn_tx c"
    using th s by auto
  then have "tx = 20" by (auto simp: doubleton_eq_iff demo_busy_tables(3) hm_get_def demo_ids conn_b_def)
  then show ?thesis using t by blast
qed

end
