(* ===== verification/Hub_Safety.thy ===== *)
theory Hub_Safety
  imports Hub_Props
begin

text \<open>
  The second part of the hub's guarantees: what a successful \<open>connect\<close> implies, how long failed
  passwords keep a viewer out, and the exact effect of disconnection and of the periodic sweep.
\<close>

section \<open>The limiters behind a ban\<close>

fun event_time :: "hub_event \<Rightarrow> instant option" where
  "event_time (E_connect v t sid now) = Some now"
| "event_time (E_password sid i now) = Some now"
| "event_time (E_sweep now) = Some now"
| "event_time e = None"

text \<open>
  One event does to the two password limiters at most one limiter operation, at the event's time,
  and never a \<open>record_success\<close>.
\<close>

definition evolves :: "'k limiter \<Rightarrow> 'k limiter \<Rightarrow> instant option \<Rightarrow> bool" where
  "evolves l l' t \<longleftrightarrow> l' = l \<or> (\<exists>x now. t = Some now \<and> l' = limiter_step l x \<and> op_time x = now \<and>
     (\<forall>k. x \<noteq> Op_success k))"

lemma evolves_refl [simp, intro]: "evolves l l t"
  by (simp add: evolves_def)

lemma evolves_locked: "evolves l (snd (locked l k now)) (Some now)"
  unfolding evolves_def by (intro disjI2 exI [of _ "Op_locked k now"]) simp

lemma evolves_failure: "evolves l (snd (record_failure l k now)) (Some now)"
  unfolding evolves_def by (intro disjI2 exI [of _ "Op_failure k now"]) simp

lemma evolves_sweep: "evolves l (sweep l now) (Some now)"
  unfolding evolves_def by (intro disjI2 exI [of _ "Op_sweep now"]) simp

lemma evolves_lockout: "evolves l l' t \<Longrightarrow> lockout l' = lockout l"
  by (auto simp: evolves_def)

lemma evolves_locked_past:
  assumes "evolves l l' t" and "lim_wf l" and "locked_past l k b"
    and "\<And>now. t = Some now \<Longrightarrow> now < b \<and> b \<le> now + lockout l"
  shows "locked_past l' k b"
proof (cases "l' = l")
  case False
  then obtain x now where x: "t = Some now" "l' = limiter_step l x" "op_time x = now" "\<forall>k. x \<noteq> Op_success k"
    using assms(1) by (auto simp: evolves_def)
  have "locked_past (limiter_step l x) k b"
    using assms(4) [OF x(1)] x(3,4) by (intro locked_past_step [OF assms(2,3)]) simp_all
  then show ?thesis by (simp add: x(2))
qed (simp add: assms(3))

lemma banned_limiters:
  "evolves (pw_fail_viewer (lim g)) (pw_fail_viewer (lim (snd (connect_banned g v a now)))) (Some now)"
  "evolves (pw_fail_ip (lim g)) (pw_fail_ip (lim (snd (connect_banned g v a now)))) (Some now)"
  using evolves_locked [of "pw_fail_viewer (lim g)" v now] evolves_locked [of "pw_fail_ip (lim g)" a now]
  by (auto simp: connect_banned_def Let_def split: prod.split)

lemma reject_lim [simp]: "lim (snd (reject g f)) = lim g"
  by (simp add: reject_def)

lemma count_enumeration_lims [simp]:
  "pw_fail_viewer (lim (count_enumeration g a now)) = pw_fail_viewer (lim g)"
  "pw_fail_ip (lim (count_enumeration g a now)) = pw_fail_ip (lim g)"
  by (simp_all add: count_enumeration_def)

lemma replace_own_lim [simp]: "lim (snd (replace_own g v)) = lim g"
  by (simp add: replace_own_def split: option.split)

lemma admit_lim: "lim (snd (admit g v a vn tid host sid now)) = lim g"
proof -
  obtain r g1 where r: "replace_own g v = (r, g1)" by force
  then have "lim g1 = lim g" using replace_own_lim [of g v] by simp
  then show ?thesis by (simp add: admit_def r Let_def)
qed

lemma connect_limiters:
  "evolves (pw_fail_viewer (lim g)) (pw_fail_viewer (lim (snd (hub_connect g v t sid now)))) (Some now) \<and>
   evolves (pw_fail_ip (lim g)) (pw_fail_ip (lim (snd (hub_connect g v t sid now)))) (Some now)"
proof (cases "hm_get (devices g) v")
  case None
  then show ?thesis by (simp add: hub_connect_def)
next
  case (Some vc)
  obtain r l where l: "locked (connect_src (lim g)) v now = (r, l)" by force
  define g1 where "g1 = g\<lparr>lim := (lim g)\<lparr>connect_src := l\<rparr>\<rparr>"
  define g2 where "g2 = g1\<lparr>lim := (lim g1)\<lparr>connect_src :=
      snd (record_failure (connect_src (lim g1)) v now)\<rparr>\<rparr>"
  obtain banned g3 where b: "connect_banned g2 v (conn_ip vc) now = (banned, g3)" by force
  have e1: "pw_fail_viewer (lim g1) = pw_fail_viewer (lim g)" "pw_fail_ip (lim g1) = pw_fail_ip (lim g)"
    and e2: "pw_fail_viewer (lim g2) = pw_fail_viewer (lim g)" "pw_fail_ip (lim g2) = pw_fail_ip (lim g)"
    by (simp_all add: g2_def g1_def)
  have e3: "evolves (pw_fail_viewer (lim g)) (pw_fail_viewer (lim g3)) (Some now)"
      "evolves (pw_fail_ip (lim g)) (pw_fail_ip (lim g3)) (Some now)"
    using banned_limiters [of g2 v "conn_ip vc" now] b e2 by simp_all
  show ?thesis
    unfolding hub_connect_def Some option.case l Let_def prod.case
    unfolding g1_def [symmetric]
    unfolding g2_def [symmetric] b prod.case
    using e1 e3 by (auto simp: admit_lim split: option.split)
qed

lemma end_locked_lim_each: "lim (snd (end_each g sids)) = lim g"
proof (induction sids arbitrary: g)
  case (Cons sid sids)
  then show ?case by (simp only: snd_end_each_Cons end_locked_keeps)
qed simp

lemma event_limiters:
  "evolves (pw_fail_viewer (lim g)) (pw_fail_viewer (lim (hub_apply g e))) (event_time e) \<and>
   evolves (pw_fail_ip (lim g)) (pw_fail_ip (lim (hub_apply g e))) (event_time e)"
proof (cases e)
  case (E_connect v t sid now)
  then show ?thesis using connect_limiters by simp
next
  case (E_password sid i now)
  then show ?thesis
    using evolves_failure [of "pw_fail_viewer (lim g)"] evolves_failure [of "pw_fail_ip (lim g)"]
    by (auto simp: report_password_failure_def split: option.split prod.split) (metis snd_conv)+
next
  case (E_sweep now)
  then show ?thesis
    by (simp add: snd_hub_sweep end_locked_lim_each sweep_limiters_def evolves_sweep Let_def)
next
  case (E_relay sid i len now)
  then show ?thesis by (simp add: relay_route_def Let_def split: option.split)
next
  case (E_detach i cid)
  then show ?thesis by (simp add: detach_def end_locked_def Let_def split: option.split)
qed (simp_all add: next_conn_id_def ip_banned_for_auth_def record_auth_failure_def allow_register_def
    admin_locked_def admin_failure_def attach_def update_incoming_def set_mode_def end_by_def
    Let_def split: prod.split option.split)

definition pw_params :: "hub \<Rightarrow> bool" where
  "pw_params g \<longleftrightarrow> lockout (pw_fail_viewer (lim g)) = 30 * MINUTE \<and> lockout (pw_fail_ip (lim g)) = 30 * MINUTE"

interpretation pw_sys: invariant_system hub_init hub_step pw_params
proof
  show "hub_init g \<Longrightarrow> pw_params g" for g
    by (auto simp: hub_init_def pw_params_def hub_new_def new_limiters_def)
  show "pw_params h" if "pw_params g" and "hub_step g h" for g h
    using that(2,1) evolves_lockout [OF conjunct1 [OF event_limiters]]
      evolves_lockout [OF conjunct2 [OF event_limiters]]
    by (cases rule: hub_step.cases) (simp add: pw_params_def)
qed

section \<open>Running a list of events\<close>

fun hub_run :: "hub \<Rightarrow> hub_event list \<Rightarrow> hub" where
  "hub_run g [] = g"
| "hub_run g (e # es) = hub_run (hub_apply g e) es"

fun events_ok :: "hub \<Rightarrow> hub_event list \<Rightarrow> bool" where
  "events_ok g [] = True"
| "events_ok g (e # es) = (event_ok g e \<and> events_ok (hub_apply g e) es)"

lemma hub_reach_run: "hub_reachable g \<Longrightarrow> events_ok g es \<Longrightarrow> hub_reachable (hub_run g es)"
  by (induction es arbitrary: g) (auto intro: hub_reach_apply)

definition timed_in :: "hub_event \<Rightarrow> instant \<Rightarrow> instant \<Rightarrow> bool" where
  "timed_in e a b = (case event_time e of Some now \<Rightarrow> a \<le> now \<and> now < b | None \<Rightarrow> True)"

lemma run_locked_past:
  assumes "hub_reachable g" and "events_ok g es" and "\<forall>e \<in> set es. timed_in e t0 (t0 + 30 * MINUTE)"
  shows "(locked_past (pw_fail_viewer (lim g)) v (t0 + 30 * MINUTE) \<longrightarrow>
      locked_past (pw_fail_viewer (lim (hub_run g es))) v (t0 + 30 * MINUTE)) \<and>
    (locked_past (pw_fail_ip (lim g)) a (t0 + 30 * MINUTE) \<longrightarrow>
      locked_past (pw_fail_ip (lim (hub_run g es))) a (t0 + 30 * MINUTE))"
  using assms
proof (induction es arbitrary: g)
  case (Cons e es)
  let ?b = "t0 + 30 * MINUTE"
  have par: "pw_params g" using pw_sys.reach_inv [OF Cons.prems(1)] .
  have wf: "lim_wf (pw_fail_viewer (lim g))" "lim_wf (pw_fail_ip (lim g))"
    using hub_reach_lims [OF Cons.prems(1)] by (simp_all add: lims_ok_def)
  have t: "now < ?b \<and> t0 \<le> now" if "event_time e = Some now" for now
    using Cons.prems(3) that by (simp add: timed_in_def)
  have "locked_past (pw_fail_viewer (lim g)) v ?b \<Longrightarrow> locked_past (pw_fail_viewer (lim (hub_apply g e))) v ?b"
    by (rule evolves_locked_past [OF conjunct1 [OF event_limiters] wf(1)])
      (use t par in \<open>auto simp: pw_params_def\<close>)
  moreover have "locked_past (pw_fail_ip (lim g)) a ?b \<Longrightarrow> locked_past (pw_fail_ip (lim (hub_apply g e))) a ?b"
    by (rule evolves_locked_past [OF conjunct2 [OF event_limiters] wf(2)])
      (use t par in \<open>auto simp: pw_params_def\<close>)
  ultimately show ?case
    using Cons.IH [of "hub_apply g e"] hub_reach_apply [OF Cons.prems(1)] Cons.prems(2,3) by auto
qed simp

lemma locked_past_refuses:
  "locked_past l k b \<Longrightarrow> now < b \<Longrightarrow> fst (locked l k now) \<noteq> None"
  unfolding locked_past_def lim.refused_iff by (auto intro: less_le_trans)

section \<open>Properties\<close>

text \<open>
  C7. A password lockout holds: once a host's report of a failed password is answered with a ban at
  \<open>t0\<close>, then whatever happens in the following 30 minutes (any calls, by anyone, in any order), the
  reported viewer, coming from the same address, cannot start a session before the 30 minutes are
  over.
\<close>

theorem password_ban_holds:
  assumes "hub_reachable g" and "hm_get (sessions g) sid = Some s"
    and "report_password_failure g sid host t0 = (Some (v, True), g1)"
    and "events_ok g1 es" and "\<forall>e \<in> set es. timed_in e t0 (t0 + 30 * MINUTE)"
    and "now < t0 + 30 * MINUTE"
    and "\<And>c. hm_get (devices (hub_run g1 es)) v = Some c \<Longrightarrow> conn_ip c = s_viewer_ip s"
  shows "fst (hub_connect (hub_run g1 es) v target sid' now) \<in> Inl ` UNIV"
proof -
  let ?b = "t0 + 30 * MINUTE" and ?h = "hub_run g1 es"
  have g1: "g1 = hub_apply g (E_password sid host t0)" using assms(3) by simp
  have reach1: "hub_reachable g1" unfolding g1 by (rule hub_reach_apply [OF assms(1)]) simp
  have par: "pw_params g" using pw_sys.reach_inv [OF assms(1)] .
  have "v = s_viewer s \<and> (locked_past (pw_fail_viewer (lim g1)) v ?b \<or> locked_past (pw_fail_ip (lim g1)) (s_viewer_ip s) ?b)"
    using assms(2,3) par
      until_failure [of "pw_fail_viewer (lim g)" "s_viewer s" t0 "s_viewer s"]
      until_failure [of "pw_fail_ip (lim g)" "s_viewer_ip s" t0 "s_viewer_ip s"]
    by (auto simp: report_password_failure_def locked_past_def pw_params_def split: if_splits prod.splits)
  then have lp: "locked_past (pw_fail_viewer (lim ?h)) v ?b \<or> locked_past (pw_fail_ip (lim ?h)) (s_viewer_ip s) ?b"
    using run_locked_past [OF reach1 assms(4,5)] by blast
  have "fst (hub_connect ?h v target sid' now) \<noteq> Inr st" for st
  proof
    assume "fst (hub_connect ?h v target sid' now) = Inr st"
    then have "hub_connect ?h v target sid' now = (Inr st, snd (hub_connect ?h v target sid' now))"
      by (metis prod.collapse)
    then obtain vc where c: "hm_get (devices ?h) v = Some vc"
        "fst (locked (pw_fail_viewer (lim ?h)) v now) = None"
        "fst (locked (pw_fail_ip (lim ?h)) (conn_ip vc) now) = None"
      by (rule hub_connect_Inr) blast
    then show False using lp assms(7) [OF c(1)] locked_past_refuses [OF _ assms(6)] by metis
  qed
  then show ?thesis by (cases "fst (hub_connect ?h v target sid' now)") auto
qed

lemma devices_end_each: "devices (snd (end_each g sids)) = devices g"
proof (induction sids arbitrary: g)
  case (Cons sid sids)
  then show ?case by (simp only: snd_end_each_Cons end_locked_keeps)
qed simp

lemma devices_end_by: "devices (snd (end_by g sid i)) = devices g"
  by (simp add: end_by_def split: option.split)

lemma report_password_failure_eq:
  assumes "hm_get (sessions g) sid = Some s" and "s_host s = host"
  shows "report_password_failure g sid host now =
    (Some (s_viewer s, fst (record_failure (pw_fail_viewer (lim g)) (s_viewer s) now) \<or>
        fst (record_failure (pw_fail_ip (lim g)) (s_viewer_ip s) now)),
     g\<lparr>lim := (lim g)\<lparr>pw_fail_viewer := snd (record_failure (pw_fail_viewer (lim g)) (s_viewer s) now),
       pw_fail_ip := snd (record_failure (pw_fail_ip (lim g)) (s_viewer_ip s) now)\<rparr>\<rparr>)"
  using assms by (simp add: report_password_failure_def split: prod.split)

definition demo_reported :: hub where
  "demo_reported = hub_run demo_busy (map (E_password [1] dev_b) [1001, 1002, 1003, 1004])"

lemma demo_reported_eq:
  "\<exists>l. pw_fail_viewer l = \<lparr>max_failures = 5, window = 10 * MINUTE, lockout = 30 * MINUTE,
      lim_state = [(dev_a, \<lparr>e_failures = [1001, 1002, 1003, 1004], e_locked_until = None\<rparr>)]\<rparr> \<and>
    demo_reported = demo_busy\<lparr>lim := l\<rparr>"
proof -
  have h: "s_host (new_session demo_busy dev_a dev_b 7 1000) = dev_b"
      "s_viewer (new_session demo_busy dev_a dev_b 7 1000) = dev_a" by (simp_all add: new_session_def)
  have e: "snd (report_password_failure g [1] dev_b now) =
      g\<lparr>lim := (lim g)\<lparr>pw_fail_viewer := snd (record_failure (pw_fail_viewer (lim g)) dev_a now),
        pw_fail_ip := snd (record_failure (pw_fail_ip (lim g)) 7 now)\<rparr>\<rparr>"
    if "sessions g = sessions demo_busy" for g now
    using report_password_failure_eq [of g "[1]" "new_session demo_busy dev_a dev_b 7 1000" dev_b now]
    by (simp add: that demo_busy_tables(1) h) (simp add: new_session_def)
  have run: "hub_run g (map (E_password [1] dev_b) ts) =
      g\<lparr>lim := lim (hub_run g (map (E_password [1] dev_b) ts))\<rparr> \<and>
    pw_fail_viewer (lim (hub_run g (map (E_password [1] dev_b) ts))) =
      snd (record_all (pw_fail_viewer (lim g)) dev_a ts)"
    if "sessions g = sessions demo_busy" for g ts
    using that
  proof (induction ts arbitrary: g)
    case (Cons t ts)
    show ?case
      using Cons.IH [of "snd (report_password_failure g [1] dev_b t)"] Cons.prems
      by (simp add: e record_all.simps split: prod.split)
  qed simp
  have "snd (record_all (limiter_new 5 (10 * MINUTE) (30 * MINUTE)) dev_a [1001, 1002, 1003, 1004]) =
      \<lparr>max_failures = 5, window = 10 * MINUTE, lockout = 30 * MINUTE,
       lim_state = [(dev_a, \<lparr>e_failures = [1001, 1002, 1003, 1004], e_locked_until = None\<rparr>)]\<rparr>"
    by (simp add: record_all.simps record_failure_def recent_failures_def entry_of_def empty_entry_def
        limiter_new_def Let_def word_le_nat_alt MINUTE_def secs_def hm_get_def hm_insert_def)
  then show ?thesis
    using run [of demo_busy "[1001, 1002, 1003, 1004]"]
    unfolding demo_reported_def demo_busy_tables(7) by metis
qed

theorem password_ban_holds_witness:
  "\<exists>g1. report_password_failure demo_reported [1] dev_b 1005 = (Some (dev_a, True), g1) \<and>
    fst (hub_connect (hub_run g1 [E_end [1] dev_b, E_sweep 2000]) dev_a dev_b [2] 3000) \<in> Inl ` UNIV"
proof -
  obtain l where l: "pw_fail_viewer l = \<lparr>max_failures = 5, window = 10 * MINUTE, lockout = 30 * MINUTE,
      lim_state = [(dev_a, \<lparr>e_failures = [1001, 1002, 1003, 1004], e_locked_until = None\<rparr>)]\<rparr>"
      "demo_reported = demo_busy\<lparr>lim := l\<rparr>" using demo_reported_eq by blast
  let ?s = "new_session demo_busy dev_a dev_b 7 1000"
  have s: "hm_get (sessions demo_reported) [1] = Some ?s" "devices demo_reported = devices demo_busy"
    by (simp_all add: l(2) demo_busy_tables(1))
  have sv: "s_host ?s = dev_b" "s_viewer ?s = dev_a" "s_viewer_ip ?s = 7" by (simp_all add: new_session_def)
  have reach: "hub_reachable demo_reported"
    unfolding demo_reported_def by (rule hub_reach_run [OF demo_busy_reach]) simp
  have v: "fst (record_failure (pw_fail_viewer l) dev_a 1005)"
    by (simp add: l(1) record_failure_def recent_failures_def entry_of_def Let_def word_le_nat_alt
        MINUTE_def secs_def hm_get_def)
  obtain g1 where r: "report_password_failure demo_reported [1] dev_b 1005 = (Some (dev_a, True), g1)"
      "devices g1 = devices demo_busy"
  proof -
    let ?R = "report_password_failure demo_reported [1] dev_b 1005"
    note eq = report_password_failure_eq [OF s(1) sv(1), of 1005]
    have "fst ?R = Some (dev_a, True)" "devices (snd ?R) = devices demo_busy"
      using v unfolding eq by (simp_all add: sv l(2))
    then show thesis using that [of "snd ?R"] by (metis prod.collapse)
  qed
  have dv: "devices (hub_run g1 [E_end [1] dev_b, E_sweep 2000]) = [(dev_a, conn_a), (dev_b, conn_b)]"
    using r(2) by (simp add: demo_busy_tables(3) snd_hub_sweep Let_def devices_end_each devices_end_by)
  have ip: "conn_ip c = s_viewer_ip ?s"
    if "hm_get (devices (hub_run g1 [E_end [1] dev_b, E_sweep 2000])) dev_a = Some c" for c
    using that unfolding dv by (auto simp: hm_get_def sv conn_a_def)
  have "fst (hub_connect (hub_run g1 [E_end [1] dev_b, E_sweep 2000]) dev_a dev_b [2] 3000) \<in> Inl ` UNIV"
    by (rule password_ban_holds [OF reach s(1), of dev_b 1005])
      (use r ip in \<open>auto simp: timed_in_def MINUTE_def secs_def\<close>)
  then show ?thesis using r by auto
qed

text \<open>
  What a successful \<open>connect\<close> implies: caller and target are online, the target is a different
  device, accepts sessions and was in none (save one the caller itself was viewing); both are now
  in the new session, pending, and no other session was touched except the caller's own previous
  one; the target's local addresses are revealed only to a caller behind the same public address.
\<close>

theorem connect_success:
  assumes "hub_reachable g" and "hm_get (sessions g) sid = None"
    and "hub_connect g v t sid now = (Inr st, h)"
  shows "\<exists>vc tid host s. hm_get (devices g) v = Some vc \<and> device_id_parse t = Some tid \<and> tid \<noteq> v \<and>
    hm_get (devices g) tid = Some host \<and> incoming_enabled host \<and> st_host_tx st = conn_tx host \<and>
    (\<forall>x s0. hm_get (in_session g) tid = Some x \<and> hm_get (sessions g) x = Some s0 \<longrightarrow> s_viewer s0 = v) \<and>
    hm_get (sessions h) sid = Some s \<and> s_viewer s = v \<and> s_host s = tid \<and> s_mode s = Pending \<and>
    s_viewer_ip s = conn_ip vc \<and>
    hm_get (in_session h) v = Some sid \<and> hm_get (in_session h) tid = Some sid \<and>
    (\<forall>x. x \<noteq> sid \<longrightarrow> hm_get (sessions h) x = hm_get (sessions g) x \<or>
       (\<exists>s0. hm_get (sessions g) x = Some s0 \<and> s_viewer s0 = v \<and> hm_get (sessions h) x = None)) \<and>
    (st_host_candidates st \<noteq> [] \<longrightarrow> conn_ip host = conn_ip vc)"
proof -
  obtain vc tid host g3 where
    a: "hm_get (devices g) v = Some vc" "device_id_parse t = Some tid" "tid \<noteq> v"
      "hm_get (devices g) tid = Some host" "incoming_enabled host" "same_core g g3"
      "admit g3 v (conn_ip vc) (conn_name vc) tid host sid now = (Inr st, h)"
    by (rule hub_connect_Inr [OF assms(3)]) blast
  note ad = admit_Inr [OF a(7)]
  note ro = same_core_replace_own [OF a(6), of v]
  note ok = hub_reach_core [OF assms(1)]
  let ?r = "snd (replace_own g v)"
  define s where "s = new_session (snd (replace_own g3 v)) v tid (conn_ip vc) now"
  have s: "s_viewer s = v" "s_host s = tid" "s_mode s = Pending" "s_viewer_ip s = conn_ip vc"
    by (simp_all add: s_def new_session_def)
  have sess: "sessions h = hm_insert sid s (sessions ?r)" using ad ro by (simp add: s_def)
  have ins: "in_session h = hm_insert tid sid (hm_insert v sid (in_session ?r))" using ad ro by simp
  have free: "hm_get (in_session ?r) tid = None" using ad ro by simp
  have tgt: "\<forall>x s0. hm_get (in_session g) tid = Some x \<and> hm_get (sessions g) x = Some s0 \<longrightarrow> s_viewer s0 = v"
    using free
    by (auto simp: replace_own_def end_locked_def split: option.splits if_splits
        dest: core_ok_session [OF ok])
      (use core_ok_session [OF ok] in fastforce)
  have other: "\<forall>x. x \<noteq> sid \<longrightarrow> hm_get (sessions h) x = hm_get (sessions g) x \<or>
      (\<exists>s0. hm_get (sessions g) x = Some s0 \<and> s_viewer s0 = v \<and> hm_get (sessions h) x = None)"
    by (auto simp: sess replace_own_def sessions_end_locked split: option.split)
  have cand: "st_host_candidates st \<noteq> [] \<longrightarrow> conn_ip host = conn_ip vc" using ad by (auto split: if_splits)
  have post: "hm_get (sessions h) sid = Some s" "hm_get (in_session h) v = Some sid"
      "hm_get (in_session h) tid = Some sid" by (simp_all add: sess ins)
  have tx: "st_host_tx st = conn_tx host" using ad by simp
  show ?thesis
    by (intro exI conjI) (fact a(1) a(2) a(3) a(4) a(5) tx tgt s post other cand)+
qed

theorem connect_success_witness:
  "\<exists>s. hm_get (sessions demo_busy) [1] = Some s \<and> s_viewer s = dev_a \<and> s_host s = dev_b \<and> s_mode s = Pending"
proof -
  obtain st where st: "hub_connect demo_online dev_a dev_b [1] 1000 = (Inr st, demo_busy)"
    using demo_busy_tables(9) by blast
  have f: "hm_get (sessions demo_online) [1] = None" by (simp add: demo_online_eq hub_new_def)
  show ?thesis using connect_success [OF demo_online_reach f st] demo_ids(3) by auto
qed

section \<open>Disconnection and upkeep\<close>

lemma end_each_sessions:
  "hm_get (sessions (snd (end_each g sids))) x = (if x \<in> set sids then None else hm_get (sessions g) x)"
proof (induction sids arbitrary: g)
  case (Cons sid sids)
  show ?case unfolding snd_end_each_Cons Cons.IH sessions_end_locked by auto
qed simp

lemma fst_end_each_Cons:
  "fst (end_each g (sid # sids)) =
    (case fst (end_locked g sid) of Some x \<Rightarrow> [x] | None \<Rightarrow> []) @ fst (end_each (snd (end_locked g sid)) sids)"
  by (simp add: Let_def split: prod.split option.split)

text \<open>The sessions ended are exactly the listed ones that exist, in the order of the list.\<close>

lemma contains_end_locked:
  "hm_contains (sessions (snd (end_locked g sid))) x \<longleftrightarrow> x \<noteq> sid \<and> hm_contains (sessions g) x"
  by (simp add: hm_contains_def sessions_end_locked)

lemma end_locked_cases:
  "(fst (end_locked g sid) = None \<and> \<not> hm_contains (sessions g) sid) \<or>
   (\<exists>e. fst (end_locked g sid) = Some e \<and> en_session e = sid \<and> hm_contains (sessions g) sid)"
  by (simp add: end_locked_def hm_contains_def split: option.split)

lemma end_each_ended:
  assumes "distinct sids"
  shows "map en_session (fst (end_each g sids)) = filter (hm_contains (sessions g)) sids"
  using assms
proof (induction sids arbitrary: g)
  case (Cons sid sids)
  have "filter (hm_contains (sessions (snd (end_locked g sid)))) sids = filter (hm_contains (sessions g)) sids"
    using Cons.prems by (intro filter_cong) (auto simp: contains_end_locked)
  then show ?case
    unfolding fst_end_each_Cons map_append
    using Cons.IH [of "snd (end_locked g sid)"] Cons.prems end_locked_cases [of g sid] by auto
qed simp

text \<open>
  The sweep ends exactly the sessions that are pending for more than 60 seconds or relayed with
  no traffic for more than 120 seconds: each is reported once, and every other session, every
  connection and the order of the rest stay as they are.
\<close>

theorem sweep_ends_exactly_stale:
  assumes "hub_reachable g"
  shows "(\<forall>sid. hm_get (sessions (snd (hub_sweep g now))) sid =
      (case hm_get (sessions g) sid of Some s \<Rightarrow> if stale now s then None else Some s | None \<Rightarrow> None)) \<and>
    devices (snd (hub_sweep g now)) = devices g \<and>
    map en_session (fst (hub_sweep g now)) = map fst (filter (\<lambda>(_, s). stale now s) (sessions g))"
proof -
  have wf: "hm_wf (sessions g)" using core_ok_wf [OF hub_reach_core [OF assms]] by blast
  let ?S = "map fst (filter (\<lambda>(_, s). stale now s) (sessions g))"
  have mem: "x \<in> set ?S \<longleftrightarrow> (\<exists>s. hm_get (sessions g) x = Some s \<and> stale now s)" for x
    using hm_get_in_iff [OF wf] by force
  have dist: "distinct ?S" using wf by (simp add: hm_wf_def distinct_map_filter)
  have "filter (hm_contains (sessions g)) ?S = ?S"
    by (intro filter_True ballI) (metis mem hm_contains_def option.distinct(1))
  then have ended: "map en_session (fst (hub_sweep g now)) = ?S"
    using end_each_ended [OF dist, of g] by (simp add: hub_sweep_def Let_def split: prod.split)
      (metis fst_conv)
  have sess: "hm_get (sessions (snd (hub_sweep g now))) sid =
      (case hm_get (sessions g) sid of Some s \<Rightarrow> if stale now s then None else Some s | None \<Rightarrow> None)" for sid
    using mem [of sid]
    by (auto simp: snd_hub_sweep Let_def end_each_sessions split: option.split)
  show ?thesis
    using sess ended by (simp add: snd_hub_sweep Let_def devices_end_each)
qed

theorem sweep_ends_exactly_stale_witness:
  "hm_get (sessions (snd (hub_sweep demo_busy 61000001000))) [1] = None \<and>
   hm_get (sessions (snd (hub_sweep demo_busy 60000001000))) [1] \<noteq> None"
proof -
  have "stale 61000001000 (new_session demo_busy dev_a dev_b 7 1000)"
      "\<not> stale 60000001000 (new_session demo_busy dev_a dev_b 7 1000)"
    by (simp_all add: stale_def new_session_def secs_def)
  then show ?thesis
    using sweep_ends_exactly_stale [OF demo_busy_reach, of 61000001000]
      sweep_ends_exactly_stale [OF demo_busy_reach, of 60000001000]
    by (simp add: demo_busy_tables(1))
qed

text \<open>
  Disconnection is clean: when the current connection of a device goes away, the device is
  offline and in no session, the session it was in is gone, and the other participant, who becomes
  free, is the one and only peer told; an old connection that was replaced changes nothing.
\<close>

theorem detach_ends_session:
  assumes "hub_reachable g"
  shows "(map_option conn_id (hm_get (devices g) i) \<noteq> Some cid \<longrightarrow> detach g i cid = ([], g)) \<and>
    (map_option conn_id (hm_get (devices g) i) = Some cid \<longrightarrow>
       hm_get (devices (snd (detach g i cid))) i = None \<and>
       hm_get (in_session (snd (detach g i cid))) i = None \<and>
       (hm_get (in_session g) i = None \<longrightarrow> fst (detach g i cid) = []) \<and>
       (\<forall>sid s peer. hm_get (in_session g) i = Some sid \<and> hm_get (sessions g) sid = Some s \<and>
          {i, peer} = {s_viewer s, s_host s} \<longrightarrow>
          hm_get (sessions (snd (detach g i cid))) sid = None \<and>
          hm_get (in_session (snd (detach g i cid))) peer = None \<and>
          (\<exists>e c. fst (detach g i cid) = [e] \<and> hm_get (devices g) peer = Some c \<and>
             notify_ended e = [(conn_tx c, S_SessionEnded sid)])))"
proof -
  note ok = hub_reach_core [OF assms]
  show ?thesis
  proof (cases "map_option conn_id (hm_get (devices g) i) = Some cid")
    case False
    then have "detach g i cid = ([], g)" unfolding detach_def by (rule if_P)
    then show ?thesis using False by blast
  next
    case True
    show ?thesis
    proof (cases "hm_get (in_session g) i")
      case None
      then have "detach g i cid = ([], g\<lparr>devices := hm_remove i (devices g)\<rparr>)"
        using True by (simp add: detach_def)
      then show ?thesis using True None by simp
    next
      case (Some sid)
      then obtain s where s: "hm_get (sessions g) sid = Some s" "i = s_viewer s \<or> i = s_host s"
        using core_ok_index [OF ok] by blast
      note c = core_ok_session [OF ok s(1)]
      obtain cv ch where on: "hm_get (devices g) (s_viewer s) = Some cv" "hm_get (devices g) (s_host s) = Some ch"
        using c core_ok_index [OF ok] by blast
      define e where "e = \<lparr>en_session = sid, en_viewer = s_viewer s, en_host = s_host s, en_mode = s_mode s,
        en_bytes = s_bytes s,
        en_notify = List.map_filter (\<lambda>j. map_option conn_tx (hm_get (hm_remove i (devices g)) j))
          [s_viewer s, s_host s]\<rparr>"
      have d: "detach g i cid = ([e], g\<lparr>devices := hm_remove i (devices g), sessions := hm_remove sid (sessions g),
          in_session := hm_remove (s_host s) (hm_remove (s_viewer s) (in_session g))\<rparr>)"
        using True Some s(1) by (simp add: detach_def end_locked_def e_def)
      have n: "peer \<in> {s_viewer s, s_host s} \<and> (\<exists>c. hm_get (devices g) peer = Some c \<and>
          notify_ended e = [(conn_tx c, S_SessionEnded sid)])"
        if "{i, peer} = {s_viewer s, s_host s}" for peer
        using that s(2) c on
        by (auto simp: doubleton_eq_iff notify_ended_def e_def List.map_filter_def)
      show ?thesis
        using True Some s n unfolding d by (fastforce simp: insert_commute)
    qed
  qed
qed

theorem detach_ends_session_witness:
  "\<exists>e. fst (detach demo_busy dev_b 2) = [e] \<and> notify_ended e = [(10, S_SessionEnded [1])]"
proof -
  let ?s = "new_session demo_busy dev_a dev_b 7 1000"
  have s: "hm_get (in_session demo_busy) dev_b = Some [1]" "{dev_b, dev_a} = {s_viewer ?s, s_host ?s}"
    by (auto simp: demo_busy_tables(2) hm_get_def new_session_def demo_ids)
  note s = s(1) demo_busy_tables(1) s(2)
  have c: "map_option conn_id (hm_get (devices demo_busy) dev_b) = Some 2"
      "hm_get (devices demo_busy) dev_a = Some conn_a"
    by (simp_all add: demo_busy_tables(3) hm_get_def demo_ids conn_b_def)
  obtain e c' where "fst (detach demo_busy dev_b 2) = [e]" "hm_get (devices demo_busy) dev_a = Some c'"
      "notify_ended e = [(conn_tx c', S_SessionEnded [1])]"
    using detach_ends_session [OF demo_busy_reach, of dev_b 2] s c(1) by blast
  then show ?thesis using c(2) by (auto simp: conn_a_def)
qed

section \<open>What goes wrong\<close>

text \<open>
  A viewer that leaves its session by connecting elsewhere loses that session even when the new
  connection is refused as busy, and then the summary that would notify the old host is dropped:
  the result carries only the failure.
\<close>

lemma busy_reconnect_drops_notice:
  assumes "hm_get (in_session g) v = Some old" and "hm_get (sessions g) old = Some s" and "s_viewer s = v"
    and "hm_get (in_session g) tid = Some other" and "tid \<notin> {v, s_host s}"
  shows "fst (admit g v a vn tid host sid now) = Inl Busy \<and>
    hm_get (sessions (snd (admit g v a vn tid host sid now))) old = None"
  using assms
  by (simp add: admit_def replace_own_def end_locked_def hm_contains_def reject_def Let_def)

text \<open>With a configured rate of 0 the first frame a participant relays makes \<open>relay_route\<close> panic.\<close>

lemma relay_rate_zero_panics:
  assumes "max_relay_mbps g = 0" and "hm_get (sessions g) sid = Some s" and "s_viewer s = from"
    and "s_mode s = Pending" and "tokens (s_bucket s) = 0" and "0 < len" "len < 9007199254740992"
  shows "fst (relay_route g sid from len now) = RoutePanic"
proof -
  have r: "relay_rate g = 0" by (simp add: relay_rate_def assms(1))
  have "tokens (refill (s_bucket s) 0 now len) = r64 (- of_nat len)"
    using assms(5,7) by (simp add: refill_def Let_def r64_nat)
  also have "\<dots> < 0" using assms(6,7) by (simp add: fround_minus r64_nat)
  finally show ?thesis using assms(2-4) r by (simp add: relay_route_def relay_peer_def Let_def)
qed

end
