(* ===== verification/Peer.thy ===== *)
theory Peer
  imports Wire Floats
begin

text \<open>
  The end-to-end protocol between viewer and host, \<open>crates/common/src/peer.rs\<close>: the messages, the
  permission set and the structural validation every received message passes.

  Signed integers are machine words read with \<open>sint\<close>; an \<open>f32\<close> is the rational it denotes.
\<close>

type_synonym i16 = "16 word"
type_synonym i32 = "32 word"
type_synonym f32 = rat

definition MAX_TEXT :: nat where "MAX_TEXT = 1048576"
definition MAX_CHUNK :: nat where "MAX_CHUNK = 256 * 1024"
definition MAX_CURSOR_PIXELS :: nat where "MAX_CURSOR_PIXELS = 128 * 128 * 4"

section \<open>Handshake and permissions\<close>

datatype auth_kind = Temporary | Permanent

record permissions =
  p_view :: bool
  p_mouse :: bool
  p_keyboard :: bool
  p_clipboard :: bool
  p_files :: bool
  p_elevated :: bool

definition PERM_ALL :: permissions where
  "PERM_ALL = \<lparr>p_view = True, p_mouse = True, p_keyboard = True, p_clipboard = True, p_files = True,
     p_elevated = False\<rparr>"

definition PERM_ALL_ELEVATED :: permissions where
  "PERM_ALL_ELEVATED = PERM_ALL\<lparr>p_elevated := True\<rparr>"

definition PERM_NONE :: permissions where
  "PERM_NONE = \<lparr>p_view = False, p_mouse = False, p_keyboard = False, p_clipboard = False,
     p_files = False, p_elevated = False\<rparr>"

definition intersect :: "permissions \<Rightarrow> permissions \<Rightarrow> permissions" where
  "intersect a b =
     \<lparr>p_view = (p_view a \<and> p_view b), p_mouse = (p_mouse a \<and> p_mouse b),
      p_keyboard = (p_keyboard a \<and> p_keyboard b), p_clipboard = (p_clipboard a \<and> p_clipboard b),
      p_files = (p_files a \<and> p_files b), p_elevated = (p_elevated a \<and> p_elevated b)\<rparr>"

datatype abort_reason = A_Busy | A_Unsupported | A_NotAccepting | A_LockedOut | A_AuthFailed | A_UnattendedDisabled

datatype handshake =
    H_Hello u16 rstr rstr auth_kind "u8 list" permissions
  | H_HelloReply "u8 list"
  | H_Confirm "u8 list"
  | H_Abort abort_reason

datatype reject_reason = R_Declined | R_Timeout | R_Busy

section \<open>Quality, displays, video, cursor\<close>

datatype codec = H264 | H265 | Av1

datatype preset = P_Auto | P_BestQuality | P_Balanced | P_LowLatency | P_LowBandwidth

record quality =
  q_preset :: preset
  q_fps :: u8
  q_max_height :: u16
  q_bitrate_kbps :: u32
  q_codec :: "codec option"
  q_hardware :: bool
  q_adaptive :: bool

definition quality_default :: quality where
  "quality_default = \<lparr>q_preset = P_Auto, q_fps = 0, q_max_height = 0, q_bitrate_kbps = 0,
     q_codec = None, q_hardware = True, q_adaptive = True\<rparr>"

record display_info =
  d_index :: u32
  d_name :: rstr
  d_width :: u32
  d_height :: u32
  d_x :: i32
  d_y :: i32
  d_primary :: bool

record video_frame =
  vf_seq :: u64
  vf_display :: u32
  vf_codec :: codec
  vf_keyframe :: bool
  vf_width :: u32
  vf_height :: u32
  vf_captured_ms :: u64
  vf_input_seq :: u32
  vf_data :: "u8 list"

record cursor_shape =
  cs_id :: u32
  cs_width :: u16
  cs_height :: u16
  cs_hot_x :: u16
  cs_hot_y :: u16
  cs_rgba :: "u8 list"

record cursor_update =
  cu_x :: i32
  cu_y :: i32
  cu_visible :: bool
  cu_shape :: "cursor_shape option"

section \<open>Input, clipboard, files\<close>

datatype mouse_button = B_Left | B_Right | B_Middle | B_Back | B_Forward

datatype input_event =
    MouseMove u16 u16
  | MouseButton mouse_button bool
  | Wheel i16 i16
  | Key u16 bool bool
  | TextInput rstr
  | ReleaseAll

datatype clipboard_payload = Clip_Text rstr | Clip_Image "u8 list"

record dir_entry =
  de_name :: rstr
  de_is_dir :: bool
  de_size :: u64

datatype file_msg =
    F_Offer u64 rstr u64
  | F_Accept u64 u64
  | F_Reject u64 rstr
  | F_Chunk u64 u64 "u8 list"
  | F_Done u64 "u8 list"
  | F_Verified u64 bool
  | F_Cancel u64
  | F_ListDir rstr
  | F_DirListing rstr "dir_entry list" "rstr option"
  | F_Fetch u64 rstr

record host_stats =
  hs_fps :: f32
  hs_bitrate_kbps :: u32
  hs_capture_ms :: f32
  hs_encode_ms :: f32
  hs_dropped :: u64
  hs_encoder :: rstr
  hs_codec :: "codec option"
  hs_width :: u32
  hs_height :: u32
  hs_input_queue_us :: u32
  hs_input_apply_us :: u32
  hs_stale_moves_dropped :: u64

section \<open>Messages\<close>

datatype msg =
    M_Accepted permissions "display_info list" u32 rstr
  | M_Rejected reject_reason
  | M_Video video_frame
  | M_Cursor cursor_update
  | M_PermissionsChanged permissions
  | M_DisplaysChanged "display_info list" u32
  | M_Stats host_stats
  | M_SelectDisplay u32
  | M_SetQuality quality
  | M_RequestKeyframe
  | M_Clipboard clipboard_payload
  | M_File file_msg
  | M_Chat u64 rstr u64
  | M_Ping u64
  | M_Pong u64
  | M_Bye
  | M_InputAt u32 input_event
  | M_InputAck u32 u32 u32

text \<open>\<open>Inl\<close> is \<open>Err\<close> with the static message.\<close>

fun validate :: "msg \<Rightarrow> string + unit" where
  "validate (M_Video v) =
     (if length (vf_data v) > MAX_FRAME then Inl ''video too large'' else Inr ())"
| "validate (M_InputAt _ (TextInput t)) =
     (if length t > 4096 then Inl ''text input too long'' else Inr ())"
| "validate (M_Clipboard (Clip_Text t)) =
     (if str_len t > MAX_TEXT then Inl ''clipboard too large'' else Inr ())"
| "validate (M_Clipboard (Clip_Image i)) =
     (if length i > 16 * 1024 * 1024 then Inl ''clipboard image too large'' else Inr ())"
| "validate (M_Chat _ text _) =
     (if length text > 8192 then Inl ''chat too long'' else Inr ())"
| "validate (M_File (F_Chunk _ _ data)) =
     (if length data > MAX_CHUNK then Inl ''chunk too large'' else Inr ())"
| "validate (M_File (F_Offer _ name _)) =
     (if str_len name > 1024 then Inl ''path too long'' else Inr ())"
| "validate (M_File (F_Fetch _ name)) =
     (if str_len name > 1024 then Inl ''path too long'' else Inr ())"
| "validate (M_File (F_ListDir name)) =
     (if str_len name > 1024 then Inl ''path too long'' else Inr ())"
| "validate (M_Cursor c) =
     (case cu_shape c of
        Some s \<Rightarrow>
          if length (cs_rgba s) > MAX_CURSOR_PIXELS \<or>
             length (cs_rgba s) \<noteq> unat (cs_width s) * unat (cs_height s) * 4
          then Inl ''bad cursor shape'' else Inr ()
      | None \<Rightarrow> Inr ())"
| "validate (M_DisplaysChanged d _) =
     (if length d > 32 then Inl ''too many displays'' else Inr ())"
| "validate (M_Accepted _ d _ _) =
     (if length d > 32 then Inl ''too many displays'' else Inr ())"
| "validate _ = Inr ()"

section \<open>Permissions form a lattice below the request\<close>

definition perm_le :: "permissions \<Rightarrow> permissions \<Rightarrow> bool" where
  "perm_le a b \<longleftrightarrow> (p_view a \<longrightarrow> p_view b) \<and> (p_mouse a \<longrightarrow> p_mouse b) \<and> (p_keyboard a \<longrightarrow> p_keyboard b) \<and>
     (p_clipboard a \<longrightarrow> p_clipboard b) \<and> (p_files a \<longrightarrow> p_files b) \<and> (p_elevated a \<longrightarrow> p_elevated b)"

lemma perm_le_refl [simp]: "perm_le a a"
  by (simp add: perm_le_def)

lemma perm_le_trans: "perm_le a b \<Longrightarrow> perm_le b c \<Longrightarrow> perm_le a c"
  by (simp add: perm_le_def)

lemma intersect_le: "perm_le (intersect a b) a" "perm_le (intersect a b) b"
  by (simp_all add: perm_le_def intersect_def)

lemma intersect_greatest: "perm_le c a \<Longrightarrow> perm_le c b \<Longrightarrow> perm_le c (intersect a b)"
  by (simp add: perm_le_def intersect_def)

lemma perm_le_antisym: "perm_le a b \<Longrightarrow> perm_le b a \<Longrightarrow> a = b"
  unfolding perm_le_def by (intro permissions.equality) auto

end
