(* ===== verification/Secure.thy ===== *)
theory Secure
  imports Channel Peer
begin

unbundle bit_operations_syntax

text \<open>
  The encrypted, prioritised message pipe of \<open>crates/session/src/secure.rs\<close>: the input clock, the
  sending side (control, video and bulk lanes, movement coalescing, fragmentation, the bulk rate
  limit) and the receiving side (reassembly, decoding, validation, delivery).

  One record \<open>pipe\<close> holds what the sending tasks share: the channels between them and the writer,
  the newest-position slot and the counters. Every operation of another task is one step of it, and
  so is each piece of the writer's loop that runs without releasing control: draining the control
  channel and taking the slot are separate steps, because other threads run in between.
  The tokio channels are lists (unbounded, capacity 2, capacity 4).
\<close>

definition FRAGMENT :: nat where "FRAGMENT = 8 * 1024"

definition LANE_CTL :: u8 where "LANE_CTL = 0"
definition LANE_VIDEO :: u8 where "LANE_VIDEO = 1"
definition LANE_BULK :: u8 where "LANE_BULK = 2"
definition WHOLE :: u8 where "WHOLE = 0"
definition FIRST :: u8 where "FIRST = 1"
definition MID :: u8 where "MID = 2"
definition LAST :: u8 where "LAST = 3"

definition CLOCK_SLOTS :: nat where "CLOCK_SLOTS = 1024"

section \<open>The input clock\<close>

record input_clock =
  ck_base :: instant
  ck_next :: u32
  ck_slots :: "u64 list"

definition clock_default :: "instant \<Rightarrow> input_clock" where
  "clock_default now = \<lparr>ck_base = now, ck_next = 0, ck_slots = replicate CLOCK_SLOTS 0\<rparr>"

definition now_us :: "input_clock \<Rightarrow> instant \<Rightarrow> u64" where
  "now_us ck now = of_nat (duration_since now (ck_base ck) div 1000)"

definition stamp :: "input_clock \<Rightarrow> instant \<Rightarrow> u32 \<times> input_clock" where
  "stamp ck now =
     (let seq1 = ck_next ck + 1;
          (seq, nxt) = (if seq1 = 0 then (seq1 + 1, seq1 + 1) else (seq1, seq1))
      in (seq, ck\<lparr>ck_next := nxt,
            ck_slots := (ck_slots ck)[unat seq mod CLOCK_SLOTS :=
              push_bit 16 (now_us ck now) OR (ucast seq AND 0xffff)]\<rparr>))"

definition age_us :: "input_clock \<Rightarrow> u32 \<Rightarrow> instant \<Rightarrow> u64 option" where
  "age_us ck seq now =
     (let v = ck_slots ck ! (unat seq mod CLOCK_SLOTS)
      in if v \<noteq> 0 \<and> v AND 0xffff = ucast seq AND 0xffff
         then Some (sat_sub (now_us ck now) (drop_bit 16 v)) else None)"

section \<open>The shared state\<close>

record counters =
  bytes_sent :: u64
  bytes_received :: u64
  video_send_us :: u64
  video_dropped :: u64
  moves_coalesced :: u64
  input_queue_us :: u64
  input_rtt_us :: u64
  motion_to_frame_us :: u64
  bulk_rate_bps :: u64
  bulk_bytes_sent :: u64
  clock :: input_clock

definition ewma :: "u64 \<Rightarrow> u64 \<Rightarrow> u64" where
  "ewma old smp = (if old = 0 then smp else (old * 7 + smp) div 8)"

record queued =
  q_msg :: msg
  q_at :: instant

record outgoing =
  og_lane :: u8
  og_data :: "u8 list"
  og_off :: nat
  og_at :: instant

record pacer =
  pc_tokens :: rat
  pc_last :: instant

record pipe =
  ch_ctl :: "queued list"
  pending_move :: "queued option"
  ch_video :: "queued list"
  ch_bulk :: "queued list"
  w_ctl :: "queued list"
  w_video :: "outgoing option"
  w_bulk :: "outgoing option"
  w_bucket :: pacer
  pc :: counters

definition is_move :: "msg \<Rightarrow> bool" where
  "is_move m = (case m of M_InputAt _ (MouseMove _ _) \<Rightarrow> True | _ \<Rightarrow> False)"

definition is_input :: "msg \<Rightarrow> bool" where
  "is_input m = (case m of M_InputAt _ _ \<Rightarrow> True | _ \<Rightarrow> False)"

definition counters_default :: "instant \<Rightarrow> counters" where
  "counters_default now =
     \<lparr>bytes_sent = 0, bytes_received = 0, video_send_us = 0, video_dropped = 0, moves_coalesced = 0,
      input_queue_us = 0, input_rtt_us = 0, motion_to_frame_us = 0, bulk_rate_bps = 0,
      bulk_bytes_sent = 0, clock = clock_default now\<rparr>"

definition pipe_new :: "instant \<Rightarrow> pipe" where
  "pipe_new now =
     \<lparr>ch_ctl = [], pending_move = None, ch_video = [], ch_bulk = [], w_ctl = [], w_video = None,
      w_bulk = None, w_bucket = \<lparr>pc_tokens = 0, pc_last = now\<rparr>, pc = counters_default now\<rparr>"

section \<open>Senders\<close>

definition tx_send :: "pipe \<Rightarrow> msg \<Rightarrow> instant \<Rightarrow> pipe" where
  "tx_send p m now = p\<lparr>ch_ctl := ch_ctl p @ [\<lparr>q_msg = m, q_at = now\<rparr>]\<rparr>"

definition tx_send_input :: "pipe \<Rightarrow> input_event \<Rightarrow> instant \<Rightarrow> u32 \<times> pipe" where
  "tx_send_input p ev now =
     (let (seq, ck) = stamp (clock (pc p)) now;
          p1 = p\<lparr>pc := (pc p)\<lparr>clock := ck\<rparr>\<rparr>;
          item = \<lparr>q_msg = M_InputAt seq ev, q_at = now\<rparr>
      in (seq,
          if is_move (q_msg item)
          then (case pending_move p1 of
                  Some old \<Rightarrow>
                    p1\<lparr>pending_move := Some (item\<lparr>q_at := q_at old\<rparr>),
                       pc := (pc p1)\<lparr>moves_coalesced := moves_coalesced (pc p1) + 1\<rparr>\<rparr>
                | None \<Rightarrow> p1\<lparr>pending_move := Some item\<rparr>)
          else (case pending_move p1 of
                  Some m \<Rightarrow> p1\<lparr>pending_move := None, ch_ctl := ch_ctl p1 @ [m, item]\<rparr>
                | None \<Rightarrow> p1\<lparr>ch_ctl := ch_ctl p1 @ [item]\<rparr>)))"

definition tx_try_send_video :: "pipe \<Rightarrow> msg \<Rightarrow> instant \<Rightarrow> bool \<times> pipe" where
  "tx_try_send_video p m now =
     (if length (ch_video p) < 2
      then (True, p\<lparr>ch_video := ch_video p @ [\<lparr>q_msg = m, q_at = now\<rparr>]\<rparr>)
      else (False, p\<lparr>pc := (pc p)\<lparr>video_dropped := video_dropped (pc p) + 1\<rparr>\<rparr>))"

definition video_congested :: "pipe \<Rightarrow> bool" where
  "video_congested p = (length (ch_video p) = 2)"

text \<open>\<open>send_bulk\<close> waits while the channel is full: \<open>None\<close> is "not yet".\<close>

definition tx_send_bulk :: "pipe \<Rightarrow> msg \<Rightarrow> instant \<Rightarrow> pipe option" where
  "tx_send_bulk p m now =
     (if length (ch_bulk p) < 4
      then Some (p\<lparr>ch_bulk := ch_bulk p @ [\<lparr>q_msg = m, q_at = now\<rparr>]\<rparr>) else None)"

section \<open>The writer\<close>

text \<open>The control queue and whether a waiting position was replaced.\<close>

definition push_ctl :: "queued list \<Rightarrow> queued \<Rightarrow> queued list \<times> bool" where
  "push_ctl queue item =
     (if is_move (q_msg item) \<and> queue \<noteq> [] \<and> is_move (q_msg (last queue))
      then (butlast queue @ [item\<lparr>q_at := q_at (last queue)\<rparr>], True)
      else (queue @ [item], False))"

definition w_push :: "pipe \<Rightarrow> queued \<Rightarrow> pipe" where
  "w_push p item =
     (let (q, r) = push_ctl (w_ctl p) item
      in p\<lparr>w_ctl := q,
           pc := (pc p)\<lparr>moves_coalesced := moves_coalesced (pc p) + (if r then 1 else 0)\<rparr>\<rparr>)"

text \<open>\<open>while let Ok(m) = ctl_rx.try_recv()\<close>\<close>

definition drain_ctl :: "pipe \<Rightarrow> pipe" where
  "drain_ctl p = foldl w_push (p\<lparr>ch_ctl := []\<rparr>) (ch_ctl p)"

definition take_slot :: "pipe \<Rightarrow> pipe" where
  "take_slot p =
     (case pending_move p of
        None \<Rightarrow> p
      | Some m \<Rightarrow> w_push (p\<lparr>pending_move := None\<rparr>) m)"

definition outgoing_new :: "(msg \<Rightarrow> u8 list option) \<Rightarrow> u8 \<Rightarrow> queued \<Rightarrow> outgoing option" where
  "outgoing_new ser lane q =
     (case wire_encode ser (q_msg q) of
        Inl _ \<Rightarrow> None
      | Inr b \<Rightarrow> Some \<lparr>og_lane = lane, og_data = b, og_off = 0, og_at = q_at q\<rparr>)"

definition gather_lanes :: "(msg \<Rightarrow> u8 list option) \<Rightarrow> pipe \<Rightarrow> pipe" where
  "gather_lanes ser p =
     (let p1 = (case (w_video p, ch_video p) of
                  (None, m # ms) \<Rightarrow> p\<lparr>w_video := outgoing_new ser LANE_VIDEO m, ch_video := ms\<rparr>
                | _ \<Rightarrow> p)
      in case (w_bulk p1, ch_bulk p1) of
           (None, m # ms) \<Rightarrow> p1\<lparr>w_bulk := outgoing_new ser LANE_BULK m, ch_bulk := ms\<rparr>
         | _ \<Rightarrow> p1)"

text \<open>\<open>Bucket::available\<close>: \<open>None\<close> is infinity.\<close>

definition available :: "pacer \<Rightarrow> u64 \<Rightarrow> instant \<Rightarrow> rat option \<times> pacer" where
  "available b rate now =
     (if rate = 0 then (None, b)
      else let r = r64 (of_nat (unat rate));
               cap = max (r64 (r / 4)) (of_nat FRAGMENT);
               t = min (r64 (pc_tokens b + r64 (as_secs_f64 (duration_since now (pc_last b)) * r))) cap
           in (Some t, b\<lparr>pc_tokens := t, pc_last := now\<rparr>))"

definition at_least_one :: "rat option \<Rightarrow> bool" where
  "at_least_one t = (case t of None \<Rightarrow> True | Some x \<Rightarrow> x \<ge> 1)"

text \<open>
  After gathering: is there anything to send? \<open>bulk_ok\<close> short-circuits, so the bucket is refilled
  only when a bulk message waits.
\<close>

definition ready :: "pipe \<Rightarrow> instant \<Rightarrow> bool \<times> pipe" where
  "ready p now =
     (let (bulk_ok, p1) =
        (case w_bulk p of
           None \<Rightarrow> (False, p)
         | Some _ \<Rightarrow>
             (let (t, b) = available (w_bucket p) (bulk_rate_bps (pc p)) now
              in (at_least_one t, p\<lparr>w_bucket := b\<rparr>)))
      in (\<not> (w_ctl p1 = [] \<and> w_video p1 = None \<and> \<not> bulk_ok), p1))"

definition next_unit :: "outgoing \<Rightarrow> u8 list \<times> bool \<times> outgoing" where
  "next_unit o1 =
     (let remaining = length (og_data o1) - og_off o1;
          (flag, n) =
            (if og_off o1 = 0 \<and> remaining \<le> FRAGMENT then (WHOLE, remaining)
             else if og_off o1 = 0 then (FIRST, FRAGMENT)
             else if remaining \<le> FRAGMENT then (LAST, remaining)
             else (MID, FRAGMENT));
          unit = (push_bit 2 (og_lane o1) OR flag) # take n (drop (og_off o1) (og_data o1));
          o2 = o1\<lparr>og_off := og_off o1 + n\<rparr>
      in (unit, og_off o2 \<ge> length (og_data o2), o2))"

text \<open>
  The choice, made once the link has room: the oldest control message, else the next piece of the
  video message, else of the bulk message. \<open>None\<close> is a \<open>continue\<close>.
\<close>

definition writer_choose :: "(msg \<Rightarrow> u8 list option) \<Rightarrow> pipe \<Rightarrow> instant \<Rightarrow> u8 list option \<times> pipe" where
  "writer_choose ser p now =
     (case w_ctl p of
        q # rest \<Rightarrow>
          (let p1 = p\<lparr>w_ctl := rest,
                 pc := (if is_input (q_msg q)
                        then (pc p)\<lparr>input_queue_us := ewma (input_queue_us (pc p))
                               (of_nat (duration_since now (q_at q) div 1000))\<rparr>
                        else pc p)\<rparr>
           in case wire_encode ser (q_msg q) of
                Inl _ \<Rightarrow> (None, p1)
              | Inr plain \<Rightarrow> (Some ((push_bit 2 LANE_CTL OR WHOLE) # plain), p1))
      | [] \<Rightarrow>
          (case w_video p of
             Some v \<Rightarrow>
               (let (unit, fin, v2) = next_unit v
                in (Some unit,
                    if fin then p\<lparr>w_video := None,
                                  pc := (pc p)\<lparr>video_send_us := of_nat (duration_since now (og_at v) div 1000)\<rparr>\<rparr>
                    else p\<lparr>w_video := Some v2\<rparr>))
           | None \<Rightarrow>
               (case w_bulk p of
                  Some b \<Rightarrow>
                    (let (unit, fin, b2) = next_unit b
                     in (Some unit,
                         p\<lparr>w_bulk := (if fin then None else Some b2),
                           w_bucket := (w_bucket p)\<lparr>pc_tokens := r64 (pc_tokens (w_bucket p) - r64 (of_nat (length unit)))\<rparr>,
                           pc := (pc p)\<lparr>bulk_bytes_sent := bulk_bytes_sent (pc p) + of_nat (length unit)\<rparr>\<rparr>))
                | None \<Rightarrow> (None, p))))"

text \<open>Sealing the unit: \<open>None\<close> ends the writer.\<close>

definition seal_unit :: "'k aead \<Rightarrow> 'k sealer \<Rightarrow> pipe \<Rightarrow> u8 list \<Rightarrow> (u8 list \<times> 'k sealer \<times> pipe) option" where
  "seal_unit enc s p unit =
     (case seal enc s unit of
        (Inl _, _) \<Rightarrow> None
      | (Inr cipher, s2) \<Rightarrow>
          Some (cipher, s2, p\<lparr>pc := (pc p)\<lparr>bytes_sent := bytes_sent (pc p) + of_nat (length cipher)\<rparr>\<rparr>))"

section \<open>The reader\<close>

text \<open>
  One decrypted unit against the per-lane buffers: \<open>None\<close> closes the session, otherwise the new
  buffers and the message bytes that are complete.
\<close>

definition reassemble :: "u8 list list \<Rightarrow> u8 list \<Rightarrow> (u8 list list \<times> u8 list option) option" where
  "reassemble partial plain =
     (case plain of
        [] \<Rightarrow> None
      | hdr # body \<Rightarrow>
          (let lane = unat (drop_bit 2 hdr); flag = hdr AND 3
           in if lane > 2 then None
              else if flag = WHOLE then Some (partial, Some body)
              else let start = (if flag = FIRST then [] else partial ! lane)
                   in if flag \<noteq> FIRST \<and> start = [] then None
                      else if length start + length body > MAX_FRAME then None
                      else if flag = LAST then Some (partial[lane := []], Some (start @ body))
                      else Some (partial[lane := start @ body], None)))"

record 'k reader =
  rd_opener :: "'k opener"
  rd_partial :: "u8 list list"
  rd_last_measured :: u32

datatype delivery = D_None | D_Input u32 input_event instant | D_Msg msg

definition measure_msg :: "counters \<Rightarrow> u32 \<Rightarrow> msg \<Rightarrow> instant \<Rightarrow> counters \<times> u32" where
  "measure_msg c last_seq m now =
     (case m of
        M_InputAck seq _ _ \<Rightarrow>
          ((case age_us (clock c) seq now of
              Some age \<Rightarrow> c\<lparr>input_rtt_us := ewma (input_rtt_us c) age\<rparr> | None \<Rightarrow> c), last_seq)
      | M_Video f \<Rightarrow>
          if vf_input_seq f \<noteq> 0 \<and> vf_input_seq f \<noteq> last_seq
          then ((case age_us (clock c) (vf_input_seq f) now of
                   Some age \<Rightarrow> c\<lparr>motion_to_frame_us := ewma (motion_to_frame_us c) age\<rparr> | None \<Rightarrow> c),
                vf_input_seq f)
          else (c, last_seq)
      | _ \<Rightarrow> (c, last_seq))"

text \<open>
  One frame from the link. \<open>routed\<close> says whether an input route was given; without one, input
  events are dropped. \<open>None\<close> ends the session. (A receiver that has gone away also ends it.)
\<close>

definition reader_frame ::
  "'k aead \<Rightarrow> (u8 list \<Rightarrow> (msg \<times> u8 list) option) \<Rightarrow> bool \<Rightarrow> 'k reader \<Rightarrow> counters \<Rightarrow> u8 list \<Rightarrow> instant \<Rightarrow>
    ('k reader \<times> counters \<times> delivery) option" where
  "reader_frame dec de routed r c0 frame now =
     (let c = c0\<lparr>bytes_received := bytes_received c0 + of_nat (length frame)\<rparr>
      in case open_frame dec (rd_opener r) frame of
           (Inl _, _) \<Rightarrow> None
         | (Inr plain, op) \<Rightarrow>
             (case reassemble (rd_partial r) plain of
                None \<Rightarrow> None
              | Some (partial, finished) \<Rightarrow>
                  (let r1 = r\<lparr>rd_opener := op, rd_partial := partial\<rparr>
                   in case finished of
                        None \<Rightarrow> Some (r1, c, D_None)
                      | Some bytes \<Rightarrow>
                          (case wire_decode de bytes of
                             Inl _ \<Rightarrow> None
                           | Inr m \<Rightarrow>
                               (case validate m of
                                  Inl _ \<Rightarrow> None
                                | Inr _ \<Rightarrow>
                                    (case m of
                                       M_InputAt seq ev \<Rightarrow>
                                         Some (r1, c, if routed then D_Input seq ev now else D_None)
                                     | _ \<Rightarrow>
                                         (let (c1, ls) = measure_msg c (rd_last_measured r1) m now
                                          in Some (r1\<lparr>rd_last_measured := ls\<rparr>, c1, D_Msg m))))))))"

definition reader_new :: "'k opener \<Rightarrow> 'k reader" where
  "reader_new op = \<lparr>rd_opener = op, rd_partial = [[], [], []], rd_last_measured = 0\<rparr>"

end
