(* ===== verification/Secure_Props.thy ===== *)
theory Secure_Props
  imports Secure
begin

text \<open>
  What the secure pipe guarantees: fragments of different lanes may be interleaved at will and
  every message still arrives whole and in order; what a hostile peer can make the reader hold or
  deliver is bounded; and coalescing of mouse movement never changes where a click happens, as long
  as the writer's gathering is not interrupted.
\<close>

section \<open>Unit headers\<close>

definition is_lane :: "u8 \<Rightarrow> bool" where
  "is_lane l \<longleftrightarrow> l = LANE_CTL \<or> l = LANE_VIDEO \<or> l = LANE_BULK"

definition lane_of :: "u8 list \<Rightarrow> nat" where
  "lane_of u = (case u of [] \<Rightarrow> 3 | h # _ \<Rightarrow> unat (drop_bit 2 h))"

lemma flag_values: "WHOLE = 0" "FIRST = 1" "MID = 2" "LAST = 3" "LANE_CTL = 0" "LANE_VIDEO = 1" "LANE_BULK = 2"
  by (simp_all add: WHOLE_def FIRST_def MID_def LAST_def LANE_CTL_def LANE_VIDEO_def LANE_BULK_def)

lemma header_fields:
  assumes "is_lane l" and "f \<in> {WHOLE, FIRST, MID, LAST}"
  shows "drop_bit 2 (push_bit 2 l OR f) = l" and "(push_bit 2 l OR f) AND 3 = f"
  using assms by (auto simp: is_lane_def flag_values)

lemma lane_bound: "is_lane l \<Longrightarrow> unat l \<le> 2"
  by (auto simp: is_lane_def flag_values)

section \<open>Cutting a message into units\<close>

lemma next_unit_progress:
  "next_unit o1 = (u, False, o2) \<Longrightarrow> length (og_data o2) - og_off o2 < length (og_data o1) - og_off o1"
  by (auto simp: next_unit_def Let_def FRAGMENT_def split: if_splits)

function units_of :: "outgoing \<Rightarrow> u8 list list" where
  "units_of o1 = (case next_unit o1 of (u, fin, o2) \<Rightarrow> if fin then [u] else u # units_of o2)"
  by pat_completeness auto
termination
  by (relation "measure (\<lambda>o1. length (og_data o1) - og_off o1)") (auto dest!: next_unit_progress [OF sym])

declare units_of.simps [simp del]

definition message_units :: "u8 \<Rightarrow> u8 list \<Rightarrow> u8 list list" where
  "message_units lane data = units_of \<lparr>og_lane = lane, og_data = data, og_off = 0, og_at = 0\<rparr>"

section \<open>One lane's buffer\<close>

text \<open>What \<open>reassemble\<close> does to the buffer of the unit's own lane.\<close>

definition lane_step :: "u8 list \<Rightarrow> u8 list \<Rightarrow> (u8 list \<times> u8 list option) option" where
  "lane_step part u =
     (case u of
        [] \<Rightarrow> None
      | hdr # body \<Rightarrow>
          (let flag = hdr AND 3
           in if flag = WHOLE then Some (part, Some body)
              else let start = (if flag = FIRST then [] else part)
                   in if flag \<noteq> FIRST \<and> start = [] then None
                      else if length start + length body > MAX_FRAME then None
                      else if flag = LAST then Some ([], Some (start @ body))
                      else Some (start @ body, None)))"

lemma reassemble_lane:
  assumes "length parts = 3" and "lane_of u \<le> 2"
  shows "reassemble parts u =
    map_option (\<lambda>(p, out). (parts[lane_of u := p], out)) (lane_step (parts ! lane_of u) u)"
  using assms
  by (cases u) (auto simp: reassemble_def lane_step_def lane_of_def Let_def)

fun lane_run :: "u8 list \<Rightarrow> u8 list list \<Rightarrow> (u8 list \<times> u8 list list) option" where
  "lane_run part [] = Some (part, [])"
| "lane_run part (u # us) =
     (case lane_step part u of
        None \<Rightarrow> None
      | Some (p, out) \<Rightarrow>
          map_option (\<lambda>(q, outs). (q, (case out of Some b \<Rightarrow> b # outs | None \<Rightarrow> outs))) (lane_run p us))"

lemma units_of_run:
  assumes "is_lane (og_lane o1)" and "og_off o1 < length (og_data o1)" and "length (og_data o1) \<le> MAX_FRAME"
    and "og_off o1 = 0 \<longrightarrow> part = []" and "og_off o1 \<noteq> 0 \<longrightarrow> part = take (og_off o1) (og_data o1)"
  shows "lane_run part (units_of o1 @ rest) =
    map_option (\<lambda>(q, outs). (q, og_data o1 # outs)) (lane_run [] rest)"
  using assms
proof (induction o1 arbitrary: part rule: units_of.induct)
  case (1 o1)
  let ?d = "og_data o1" and ?k = "og_off o1"
  let ?rem = "length ?d - ?k"
  note hd = header_fields [OF "1.prems"(1)]
  have pk: "part = take ?k ?d" using "1.prems"(4,5) by (cases "?k = 0") simp_all
  have len: "length part = ?k" using "1.prems"(2) pk by simp
  show ?case
  proof (cases "?rem \<le> FRAGMENT")
    case True
    have u: "units_of o1 = [(push_bit 2 (og_lane o1) OR (if ?k = 0 then WHOLE else LAST)) # drop ?k ?d]"
      using True "1.prems"(2) by (subst units_of.simps) (auto simp: next_unit_def Let_def)
    have "part @ drop ?k ?d = ?d" using pk by simp
    moreover have "part \<noteq> []" if "?k \<noteq> 0" using len that by auto
    moreover have "length part + length (drop ?k ?d) \<le> MAX_FRAME" using len "1.prems"(2,3) by simp
    ultimately have "lane_step part ((push_bit 2 (og_lane o1) OR (if ?k = 0 then WHOLE else LAST)) # drop ?k ?d) =
        Some ([], Some ?d)"
      using "1.prems"(4) hd(2) [of WHOLE] hd(2) [of LAST]
      by (cases "?k = 0") (simp_all add: lane_step_def Let_def flag_values)
    then show ?thesis unfolding u by (simp add: split_def)
  next
    case False
    let ?o2 = "o1\<lparr>og_off := ?k + FRAGMENT\<rparr>"
    let ?f = "if ?k = 0 then FIRST else MID"
    have n: "next_unit o1 = ((push_bit 2 (og_lane o1) OR ?f) # take FRAGMENT (drop ?k ?d), False, ?o2)"
      using False by (auto simp: next_unit_def Let_def)
    have u: "units_of o1 = ((push_bit 2 (og_lane o1) OR ?f) # take FRAGMENT (drop ?k ?d)) # units_of ?o2"
      by (subst units_of.simps) (simp add: n)
    have t: "part @ take FRAGMENT (drop ?k ?d) = take (?k + FRAGMENT) ?d"
      using pk by (simp add: take_add)
    have b: "length part + length (take FRAGMENT (drop ?k ?d)) \<le> MAX_FRAME"
      using False len "1.prems"(3) by simp
    have s: "lane_step part ((push_bit 2 (og_lane o1) OR ?f) # take FRAGMENT (drop ?k ?d)) =
        Some (take (?k + FRAGMENT) ?d, None)"
    proof (cases "?k = 0")
      case True
      then show ?thesis using hd(2) [of FIRST] t "1.prems"(3,4) False
        by (simp add: lane_step_def Let_def flag_values)
    next
      case k: False
      then have "part \<noteq> []" using len by auto
      then show ?thesis using k hd(2) [of MID] t b by (simp add: lane_step_def Let_def flag_values)
    qed
    have "lane_run (take (?k + FRAGMENT) ?d) (units_of ?o2 @ rest) =
        map_option (\<lambda>(q, outs). (q, ?d # outs)) (lane_run [] rest)"
      using "1.IH" [OF n [symmetric] refl, of "take (?k + FRAGMENT) ?d"] "1.prems"(1,3) False
      by (simp add: FRAGMENT_def)
    then show ?thesis unfolding u by (simp add: s option.map_comp comp_def split_def)
  qed
qed

text \<open>A control message is never cut; the other lanes go unit by unit.\<close>

definition lane_units :: "u8 \<Rightarrow> u8 list \<Rightarrow> u8 list list" where
  "lane_units l d =
     (if l = LANE_CTL then [(push_bit 2 LANE_CTL OR WHOLE) # d] else message_units l d)"

lemma lane_run_units:
  assumes "is_lane l" and "d \<noteq> []" "length d \<le> MAX_FRAME"
  shows "lane_run [] (lane_units l d @ rest) = map_option (\<lambda>(q, outs). (q, d # outs)) (lane_run [] rest)"
proof (cases "l = LANE_CTL")
  case True
  then show ?thesis using header_fields(2) [OF assms(1), of WHOLE]
    by (simp add: lane_units_def lane_step_def Let_def split_def)
next
  case False
  then show ?thesis
    using units_of_run [of "\<lparr>og_lane = l, og_data = d, og_off = 0, og_at = 0\<rparr>" "[]"] assms
    by (simp add: lane_units_def message_units_def)
qed

lemma lane_run_messages:
  assumes "is_lane l" and "\<forall>d \<in> set ds. d \<noteq> [] \<and> length d \<le> MAX_FRAME"
  shows "lane_run [] (concat (map (lane_units l) ds)) = Some ([], ds)"
  using assms(2)
proof (induction ds)
  case (Cons d ds)
  then show ?case using lane_run_units [OF assms(1), of d "concat (map (lane_units l) ds)"] by simp
qed simp

section \<open>All lanes at once\<close>

fun reassemble_all :: "u8 list list \<Rightarrow> u8 list list \<Rightarrow> (u8 list list \<times> (nat \<times> u8 list) list) option" where
  "reassemble_all parts [] = Some (parts, [])"
| "reassemble_all parts (u # us) =
     (case reassemble parts u of
        None \<Rightarrow> None
      | Some (p, out) \<Rightarrow>
          map_option (\<lambda>(q, outs). (q, (case out of Some b \<Rightarrow> (lane_of u, b) # outs | None \<Rightarrow> outs)))
            (reassemble_all p us))"

definition on_lane :: "nat \<Rightarrow> (nat \<times> u8 list) list \<Rightarrow> u8 list list" where
  "on_lane l outs = map snd (filter (\<lambda>(k, _). k = l) outs)"

lemma on_lane_simps [simp]:
  "on_lane l [] = []"
  "on_lane l ((k, b) # outs) = (if k = l then b # on_lane l outs else on_lane l outs)"
  by (simp_all add: on_lane_def)

text \<open>If every lane's own units go through, so does any interleaving of them.\<close>

lemma interleaving:
  assumes "length parts = 3" and "\<forall>u \<in> set us. lane_of u \<le> 2"
    and "\<forall>l \<le> 2. lane_run (parts ! l) (filter (\<lambda>u. lane_of u = l) us) = Some (fin l, msgs l)"
  shows "\<exists>outs parts'. reassemble_all parts us = Some (parts', outs) \<and> length parts' = 3 \<and>
    (\<forall>l \<le> 2. parts' ! l = fin l \<and> on_lane l outs = msgs l)"
  using assms
proof (induction us arbitrary: parts msgs)
  case (Cons u us)
  let ?k = "lane_of u"
  have k: "?k \<le> 2" using Cons.prems(2) by simp
  obtain p out where st: "lane_step (parts ! ?k) u = Some (p, out)"
    using Cons.prems(3) [rule_format, OF k] by (auto split: option.splits)
  let ?parts = "parts[?k := p]"
  obtain ms where ms: "lane_run p (filter (\<lambda>v. lane_of v = ?k) us) = Some (fin ?k, ms)"
      "msgs ?k = (case out of Some b \<Rightarrow> b # ms | None \<Rightarrow> ms)"
    using Cons.prems(3) [rule_format, OF k] st by auto
  have run: "\<forall>l \<le> 2. lane_run (?parts ! l) (filter (\<lambda>v. lane_of v = l) us) =
      Some (fin l, if l = ?k then ms else msgs l)"
    using Cons.prems(1,3) ms(1) k by (auto simp: nth_list_update)
  obtain outs parts' where o1: "reassemble_all ?parts us = Some (parts', outs)" "length parts' = 3"
      "\<forall>l \<le> 2. parts' ! l = fin l \<and> on_lane l outs = (if l = ?k then ms else msgs l)"
    using Cons.IH [OF _ _ run] Cons.prems(1,2) by auto
  have "reassemble_all parts (u # us) =
      Some (parts', case out of Some b \<Rightarrow> (?k, b) # outs | None \<Rightarrow> outs)"
    using o1(1) by (simp add: reassemble_lane [OF Cons.prems(1) k] st)
  then show ?case
    using o1(2,3) ms(2) by (auto split: option.split)
next
  case Nil
  then show ?case by (intro exI [of _ "[]"] exI [of _ parts]) auto
qed

section \<open>Coalescing and the order of input\<close>

text \<open>
  Where each event that is not a movement lands (the position in force just before it) and the
  final position: all that the sequence of input messages means to the host.
\<close>

fun landings :: "msg option \<Rightarrow> msg list \<Rightarrow> (msg option \<times> msg) list \<times> msg option" where
  "landings pos [] = ([], pos)"
| "landings pos (m # ms) =
     (if is_move m then landings (Some m) ms
      else (let (ps, e) = landings pos ms in ((pos, m) # ps, e)))"

lemma landings_append:
  "landings pos (xs @ ys) =
    (let (ps, e) = landings pos xs; (qs, f) = landings e ys in (ps @ qs, f))"
  by (induction xs arbitrary: pos) (auto simp: Let_def split: prod.splits)

lemma landings_move_move:
  "is_move m \<Longrightarrow> is_move n \<Longrightarrow> landings pos (xs @ m # n # ys) = landings pos (xs @ n # ys)"
  by (simp add: landings_append split: prod.split)

definition slot_list :: "pipe \<Rightarrow> queued list" where
  "slot_list p = (case pending_move p of Some m \<Rightarrow> [m] | None \<Rightarrow> [])"

text \<open>Everything on its way, in the order it will leave when nothing new comes.\<close>

definition waiting :: "pipe \<Rightarrow> msg list" where
  "waiting p = map q_msg (w_ctl p @ ch_ctl p @ slot_list p)"

definition inputs :: "msg list \<Rightarrow> msg list" where
  "inputs ms = filter is_input ms"

lemma move_is_input: "is_move m \<Longrightarrow> is_input m"
  by (cases m) (simp_all add: is_move_def is_input_def)

lemma inputs_simps [simp]:
  "inputs [] = []" "inputs (m # ms) = (if is_input m then m # inputs ms else inputs ms)"
  "inputs (xs @ ys) = inputs xs @ inputs ys"
  by (simp_all add: inputs_def)

text \<open>Pushing never changes what a later reading of the queue means.\<close>

lemma push_ctl_landings:
  "landings pos (inputs (map q_msg (fst (push_ctl q item)) @ ys)) =
    landings pos (inputs (map q_msg (q @ [item]) @ ys))"
proof (cases "is_move (q_msg item) \<and> q \<noteq> [] \<and> is_move (q_msg (last q))")
  case True
  then obtain b l where q: "q = b @ [l]" by (metis append_butlast_last_id)
  then show ?thesis
    using True landings_move_move [of "q_msg l" "q_msg item" pos "inputs (map q_msg b)" "inputs ys"]
    by (simp add: push_ctl_def move_is_input)
next
  case False
  then have "push_ctl q item = (q @ [item], False)" by (auto simp: push_ctl_def)
  then show ?thesis by simp
qed

lemma push_ctl_keeps:
  "filter (\<lambda>m. \<not> is_move m) (map q_msg (fst (push_ctl q item))) =
    filter (\<lambda>m. \<not> is_move m) (map q_msg (q @ [item]))"
proof (cases "is_move (q_msg item) \<and> q \<noteq> [] \<and> is_move (q_msg (last q))")
  case True
  then obtain b l where q: "q = b @ [l]" by (metis append_butlast_last_id)
  then show ?thesis using True by (simp add: push_ctl_def)
next
  case False
  then have "push_ctl q item = (q @ [item], False)" by (auto simp: push_ctl_def)
  then show ?thesis by simp
qed

lemma w_push_fields [simp]:
  "w_ctl (w_push p item) = fst (push_ctl (w_ctl p) item)"
  "ch_ctl (w_push p item) = ch_ctl p" "pending_move (w_push p item) = pending_move p"
  "w_video (w_push p item) = w_video p" "w_bulk (w_push p item) = w_bulk p"
  "w_bucket (w_push p item) = w_bucket p" "bulk_rate_bps (pc (w_push p item)) = bulk_rate_bps (pc p)"
  by (simp_all add: w_push_def Let_def split: prod.split)

lemma foldl_push_fields:
  "ch_ctl (foldl w_push p items) = ch_ctl p \<and> pending_move (foldl w_push p items) = pending_move p \<and>
   w_video (foldl w_push p items) = w_video p \<and> w_bulk (foldl w_push p items) = w_bulk p \<and>
   w_bucket (foldl w_push p items) = w_bucket p"
  by (induction items arbitrary: p) simp_all

lemma foldl_push_landings:
  "landings pos (inputs (map q_msg (w_ctl (foldl w_push p items)) @ ys)) =
    landings pos (inputs (map q_msg (w_ctl p @ items) @ ys))"
proof (induction items arbitrary: p)
  case (Cons x items)
  have "landings pos (inputs (map q_msg (w_ctl (foldl w_push (w_push p x) items)) @ ys)) =
      landings pos (inputs (map q_msg (fst (push_ctl (w_ctl p) x)) @ map q_msg items @ ys))"
    using Cons.IH [of "w_push p x"] by simp
  also have "\<dots> = landings pos (inputs (map q_msg (w_ctl p @ [x]) @ map q_msg items @ ys))"
    by (rule push_ctl_landings)
  finally show ?case by simp
qed simp

lemma foldl_push_keeps:
  "filter (\<lambda>m. \<not> is_move m) (map q_msg (w_ctl (foldl w_push p items))) =
    filter (\<lambda>m. \<not> is_move m) (map q_msg (w_ctl p @ items))"
proof (induction items arbitrary: p)
  case (Cons x items)
  then show ?case using push_ctl_keeps [of "w_ctl p" x] by simp
qed simp

definition gather :: "pipe \<Rightarrow> pipe" where
  "gather p = take_slot (drain_ctl p)"

lemma drain_fields:
  "ch_ctl (drain_ctl p) = []" "pending_move (drain_ctl p) = pending_move p"
  "w_video (drain_ctl p) = w_video p" "w_bulk (drain_ctl p) = w_bulk p" "w_bucket (drain_ctl p) = w_bucket p"
  using foldl_push_fields [of "p\<lparr>ch_ctl := []\<rparr>" "ch_ctl p"] by (simp_all add: drain_ctl_def)

lemma take_slot_fields:
  "ch_ctl (take_slot p) = ch_ctl p" "pending_move (take_slot p) = None"
  "w_video (take_slot p) = w_video p" "w_bulk (take_slot p) = w_bulk p" "w_bucket (take_slot p) = w_bucket p"
  by (simp_all add: take_slot_def split: option.split)

lemma w_ctl_take_slot: "w_ctl (take_slot p) =
    (case pending_move p of Some m \<Rightarrow> fst (push_ctl (w_ctl p) m) | None \<Rightarrow> w_ctl p)"
  by (simp add: take_slot_def split: option.split)

lemma gather_landings:
  "landings pos (inputs (waiting (gather p))) = landings pos (inputs (waiting p))"
proof -
  have d: "landings pos (inputs (map q_msg (w_ctl (drain_ctl p)) @ ys)) =
      landings pos (inputs (map q_msg (w_ctl p @ ch_ctl p) @ ys))" for ys
    using foldl_push_landings [of pos "p\<lparr>ch_ctl := []\<rparr>" "ch_ctl p" ys] by (simp add: drain_ctl_def)
  show ?thesis
  proof (cases "pending_move p")
    case None
    then show ?thesis using d [of "[]"]
      by (simp add: gather_def waiting_def slot_list_def take_slot_fields drain_fields w_ctl_take_slot)
  next
    case (Some m)
    then show ?thesis using d [of "[q_msg m]"] push_ctl_landings [of pos "w_ctl (drain_ctl p)" m "[]"]
      by (simp add: gather_def waiting_def slot_list_def take_slot_fields drain_fields w_ctl_take_slot)
  qed
qed

section \<open>Schedules\<close>

text \<open>
  What the session's tasks do to the pipe, in any order. \<open>O_drain\<close> and \<open>O_slot\<close> are the two halves of
  the writer's gathering, \<open>O_gather\<close> is both without interruption.
\<close>

datatype pipe_op =
    O_send msg instant
  | O_input input_event instant
  | O_video msg instant
  | O_bulk msg instant
  | O_drain
  | O_slot
  | O_gather
  | O_lanes
  | O_ready instant
  | O_choose instant

fun pipe_apply :: "(msg \<Rightarrow> u8 list option) \<Rightarrow> pipe \<Rightarrow> pipe_op \<Rightarrow> pipe" where
  "pipe_apply ser p (O_send m now) = tx_send p m now"
| "pipe_apply ser p (O_input ev now) = snd (tx_send_input p ev now)"
| "pipe_apply ser p (O_video m now) = snd (tx_try_send_video p m now)"
| "pipe_apply ser p (O_bulk m now) = (case tx_send_bulk p m now of Some p' \<Rightarrow> p' | None \<Rightarrow> p)"
| "pipe_apply ser p O_drain = drain_ctl p"
| "pipe_apply ser p O_slot = take_slot p"
| "pipe_apply ser p O_gather = gather p"
| "pipe_apply ser p O_lanes = gather_lanes ser p"
| "pipe_apply ser p (O_ready now) = snd (ready p now)"
| "pipe_apply ser p (O_choose now) = snd (writer_choose ser p now)"

text \<open>The input messages made by an operation, and the control message it takes for sending.\<close>

fun made :: "pipe \<Rightarrow> pipe_op \<Rightarrow> msg list" where
  "made p (O_input ev now) = [M_InputAt (fst (tx_send_input p ev now)) ev]"
| "made p _ = []"

fun taken :: "pipe \<Rightarrow> pipe_op \<Rightarrow> msg list" where
  "taken p (O_choose now) = (case w_ctl p of q # _ \<Rightarrow> [q_msg q] | [] \<Rightarrow> [])"
| "taken p _ = []"

fun pipe_run :: "(msg \<Rightarrow> u8 list option) \<Rightarrow> pipe \<Rightarrow> pipe_op list \<Rightarrow> pipe \<times> msg list \<times> msg list" where
  "pipe_run ser p [] = (p, [], [])"
| "pipe_run ser p (x # xs) =
     (let (q, ms, ts) = pipe_run ser (pipe_apply ser p x) xs in (q, made p x @ ms, taken p x @ ts))"

fun op_ok :: "pipe_op \<Rightarrow> bool" where
  "op_ok (O_send m now) = (\<not> is_input m)"
| "op_ok _ = True"

lemma choose_waiting:
  "map q_msg (w_ctl p) = taken p (O_choose now) @ map q_msg (w_ctl (snd (writer_choose ser p now))) \<and>
   ch_ctl (snd (writer_choose ser p now)) = ch_ctl p \<and>
   pending_move (snd (writer_choose ser p now)) = pending_move p"
  by (cases "w_ctl p") (auto simp: writer_choose_def Let_def split: option.split sum.split prod.split)

lemma other_waiting:
  "waiting (snd (tx_try_send_video p m now)) = waiting p"
  "waiting (case tx_send_bulk p m now of Some p' \<Rightarrow> p' | None \<Rightarrow> p) = waiting p"
  "waiting (gather_lanes ser p) = waiting p"
  "waiting (snd (ready p now)) = waiting p"
  by (auto simp: waiting_def slot_list_def tx_try_send_video_def tx_send_bulk_def gather_lanes_def
      ready_def Let_def split: option.split list.split prod.split)

lemma stamp_fst: "fst (tx_send_input p ev now) = fst (stamp (clock (pc p)) now)"
  by (simp add: tx_send_input_def Let_def split: prod.split)

definition slot_ok :: "pipe \<Rightarrow> bool" where
  "slot_ok p \<longleftrightarrow> (\<forall>q. pending_move p = Some q \<longrightarrow> is_move (q_msg q))"

lemma input_landings:
  assumes "slot_ok p"
  shows "landings pos (inputs (waiting (snd (tx_send_input p ev now)))) =
    landings pos (inputs (waiting p) @ made p (O_input ev now))"
proof -
  obtain seq ck where st: "stamp (clock (pc p)) now = (seq, ck)" by force
  let ?m = "M_InputAt seq ev"
  have i: "is_input ?m" by (simp add: is_input_def)
  have md: "made p (O_input ev now) = [?m]" using stamp_fst [of p ev now] st by simp
  show ?thesis
  proof (cases "is_move ?m")
    case True
    show ?thesis
    proof (cases "pending_move p")
      case None
      then show ?thesis using True i md
        by (simp add: tx_send_input_def st waiting_def slot_list_def Let_def)
    next
      case (Some old)
      then have "landings pos (inputs (waiting (snd (tx_send_input p ev now)))) =
          landings pos (inputs (map q_msg (w_ctl p @ ch_ctl p)) @ [?m])"
        using True i by (simp add: tx_send_input_def st waiting_def slot_list_def Let_def)
      also have "\<dots> = landings pos (inputs (map q_msg (w_ctl p @ ch_ctl p)) @ q_msg old # ?m # [])"
        using True Some assms
          landings_move_move [of "q_msg old" ?m pos "inputs (map q_msg (w_ctl p @ ch_ctl p))" "[]"]
        by (simp add: slot_ok_def)
      finally show ?thesis using Some md assms
        by (simp add: waiting_def slot_list_def slot_ok_def move_is_input)
    qed
  next
    case False
    then show ?thesis using i md
      by (cases "pending_move p") (simp_all add: tx_send_input_def st waiting_def slot_list_def Let_def)
  qed
qed

section \<open>Whole runs\<close>

definition same_meaning :: "msg list \<Rightarrow> msg list \<Rightarrow> bool" where
  "same_meaning xs ys \<longleftrightarrow> (\<forall>pos. landings pos xs = landings pos ys)"

lemma same_meaning_refl [simp]: "same_meaning xs xs"
  by (simp add: same_meaning_def)

lemma same_meaning_trans: "same_meaning xs ys \<Longrightarrow> same_meaning ys zs \<Longrightarrow> same_meaning xs zs"
  by (simp add: same_meaning_def)

lemma same_meaning_append: "same_meaning xs ys \<Longrightarrow> same_meaning xs' ys' \<Longrightarrow> same_meaning (xs @ xs') (ys @ ys')"
  by (simp add: same_meaning_def landings_append)

definition presses :: "msg list \<Rightarrow> msg list" where
  "presses ms = filter (\<lambda>m. is_input m \<and> \<not> is_move m) ms"

lemma presses_simps [simp]:
  "presses [] = []" "presses (xs @ ys) = presses xs @ presses ys"
  "presses (m # ms) = (if is_input m \<and> \<not> is_move m then m # presses ms else presses ms)"
  by (simp_all add: presses_def)

fun uninterrupted :: "pipe_op \<Rightarrow> bool" where
  "uninterrupted O_drain = False"
| "uninterrupted O_slot = False"
| "uninterrupted _ = True"

lemma slot_ok_input: "slot_ok p \<Longrightarrow> slot_ok (snd (tx_send_input p ev now))"
  by (auto simp: slot_ok_def tx_send_input_def Let_def split: prod.split option.split if_splits)

lemma slot_ok_apply: "slot_ok p \<Longrightarrow> slot_ok (pipe_apply ser p x)"
proof (cases x)
  case (O_input ev now)
  then show "slot_ok p \<Longrightarrow> ?thesis" using slot_ok_input by simp
next
  case (O_choose now)
  then show "slot_ok p \<Longrightarrow> ?thesis" using choose_waiting [of p now ser] by (simp add: slot_ok_def)
qed (auto simp: slot_ok_def gather_def take_slot_fields drain_fields tx_send_def tx_try_send_video_def
    tx_send_bulk_def gather_lanes_def ready_def Let_def split: option.split list.split prod.split)

lemma step_meaning:
  assumes "slot_ok p" and "op_ok x" and "uninterrupted x"
  shows "same_meaning (inputs (taken p x @ waiting (pipe_apply ser p x))) (inputs (waiting p) @ made p x)"
proof (cases x)
  case (O_send m now)
  then show ?thesis using assms(2)
    by (simp add: tx_send_def waiting_def slot_list_def)
next
  case (O_input ev now)
  then show ?thesis using input_landings [OF assms(1)] by (simp add: same_meaning_def)
next
  case O_gather
  then show ?thesis using gather_landings by (simp add: same_meaning_def)
next
  case (O_choose now)
  then show ?thesis using choose_waiting [of p now ser] by (simp add: waiting_def slot_list_def)
qed (use assms(3) in \<open>simp_all add: other_waiting\<close>)

lemma push_presses: "presses (map q_msg (fst (push_ctl q item))) = presses (map q_msg (q @ [item]))"
proof -
  have e: "presses ms = filter is_input (filter (\<lambda>m. \<not> is_move m) ms)" for ms
    by (simp add: presses_def conj_commute)
  show ?thesis unfolding e push_ctl_keeps ..
qed

lemma foldl_push_presses:
  "presses (map q_msg (w_ctl (foldl w_push p items))) = presses (map q_msg (w_ctl p @ items))"
proof (induction items arbitrary: p)
  case (Cons x items)
  then show ?case using push_presses [of "w_ctl p" x] by simp
qed simp

lemma drain_presses:
  "presses (map q_msg (w_ctl (drain_ctl p))) = presses (map q_msg (w_ctl p @ ch_ctl p))"
  using foldl_push_presses [of "p\<lparr>ch_ctl := []\<rparr>" "ch_ctl p"] by (simp add: drain_ctl_def)

lemma slot_presses:
  assumes "slot_ok p"
  shows "presses (map q_msg (w_ctl (take_slot p))) = presses (map q_msg (w_ctl p))"
  using assms push_presses [of "w_ctl p"] by (cases "pending_move p") (simp_all add: w_ctl_take_slot slot_ok_def)

lemma waiting_presses:
  assumes "slot_ok p"
  shows "presses (waiting p) = presses (map q_msg (w_ctl p @ ch_ctl p))"
  using assms by (auto simp: waiting_def slot_list_def slot_ok_def split: option.split)

lemma slot_ok_drain_take: "slot_ok p \<Longrightarrow> slot_ok (drain_ctl p)" "slot_ok (take_slot p)"
  by (simp_all add: slot_ok_def drain_fields take_slot_fields)

lemma step_presses:
  assumes "slot_ok p" and "op_ok x"
  shows "presses (taken p x @ waiting (pipe_apply ser p x)) = presses (waiting p) @ presses (made p x)"
proof (cases x)
  case (O_send m now)
  then show ?thesis using assms(2)
    by (simp add: tx_send_def waiting_def slot_list_def)
next
  case (O_input ev now)
  obtain seq ck where st: "stamp (clock (pc p)) now = (seq, ck)" by force
  have i: "is_input (M_InputAt seq ev)" by (simp add: is_input_def)
  show ?thesis using O_input assms(1) i stamp_fst [of p ev now]
    by (cases "pending_move p")
      (auto simp: tx_send_input_def st waiting_def slot_list_def slot_ok_def Let_def)
next
  case O_drain
  then show ?thesis using drain_presses [of p]
    by (simp add: waiting_presses assms(1) slot_ok_drain_take drain_fields)
next
  case O_slot
  then show ?thesis using slot_presses [OF assms(1)]
    by (simp add: waiting_presses assms(1) slot_ok_drain_take take_slot_fields)
next
  case O_gather
  then show ?thesis
    using slot_presses [OF slot_ok_drain_take(1) [OF assms(1)]] drain_presses [of p]
    by (simp add: gather_def waiting_presses assms(1) slot_ok_drain_take take_slot_fields drain_fields)
next
  case (O_choose now)
  then show ?thesis using choose_waiting [of p now ser] by (simp add: waiting_def slot_list_def)
qed (simp_all add: other_waiting)

lemma run_presses:
  assumes "slot_ok p" and "\<forall>x \<in> set xs. op_ok x" and "pipe_run ser p xs = (q, ms, ts)"
  shows "presses (ts @ waiting q) = presses (waiting p) @ presses ms"
  using assms
proof (induction xs arbitrary: p ms ts)
  case (Cons x xs)
  obtain ms1 ts1 where r: "pipe_run ser (pipe_apply ser p x) xs = (q, ms1, ts1)"
      "ms = made p x @ ms1" "ts = taken p x @ ts1"
    using Cons.prems(3) by (auto simp: Let_def split: prod.splits)
  show ?case
    using Cons.IH [OF slot_ok_apply [OF Cons.prems(1)] _ r(1)] Cons.prems(2)
      step_presses [OF Cons.prems(1), of x ser] r(2,3) by simp
qed simp

lemma run_meaning:
  assumes "slot_ok p" and "\<forall>x \<in> set xs. op_ok x \<and> uninterrupted x" and "pipe_run ser p xs = (q, ms, ts)"
  shows "same_meaning (inputs (ts @ waiting q)) (inputs (waiting p) @ ms)"
  using assms
proof (induction xs arbitrary: p ms ts)
  case (Cons x xs)
  obtain ms1 ts1 where r: "pipe_run ser (pipe_apply ser p x) xs = (q, ms1, ts1)"
      "ms = made p x @ ms1" "ts = taken p x @ ts1"
    using Cons.prems(3) by (auto simp: Let_def split: prod.splits)
  have "same_meaning (inputs (ts1 @ waiting q)) (inputs (waiting (pipe_apply ser p x)) @ ms1)"
    using Cons.IH [OF slot_ok_apply [OF Cons.prems(1)] _ r(1)] Cons.prems(2) by simp
  then have "same_meaning (inputs (taken p x) @ inputs (ts1 @ waiting q))
      (inputs (taken p x) @ inputs (waiting (pipe_apply ser p x)) @ ms1)"
    by (intro same_meaning_append) simp_all
  moreover have "same_meaning (inputs (taken p x @ waiting (pipe_apply ser p x)) @ ms1)
      ((inputs (waiting p) @ made p x) @ ms1)"
    using step_meaning [OF Cons.prems(1)] Cons.prems(2) by (intro same_meaning_append) simp_all
  ultimately show ?case using r(2,3) same_meaning_trans by simp
qed simp

lemma made_inputs: "inputs (made p x) = made p x"
  by (cases x) (simp_all add: is_input_def)

lemma slot_ok_new: "slot_ok (pipe_new now)"
  by (simp add: slot_ok_def pipe_new_def)

lemma waiting_new: "waiting (pipe_new now) = []"
  by (simp add: waiting_def slot_list_def pipe_new_def)

section \<open>What the writer emits\<close>

text \<open>The units an operation hands to the sealer, and those of a run.\<close>

fun sent_unit :: "(msg \<Rightarrow> u8 list option) \<Rightarrow> pipe \<Rightarrow> pipe_op \<Rightarrow> u8 list list" where
  "sent_unit ser p (O_choose now) = (case fst (writer_choose ser p now) of Some u \<Rightarrow> [u] | None \<Rightarrow> [])"
| "sent_unit ser p _ = []"

fun pipe_units :: "(msg \<Rightarrow> u8 list option) \<Rightarrow> pipe \<Rightarrow> pipe_op list \<Rightarrow> u8 list list" where
  "pipe_units ser p [] = []"
| "pipe_units ser p (x # xs) = sent_unit ser p x @ pipe_units ser (pipe_apply ser p x) xs"

definition encodes :: "(msg \<Rightarrow> u8 list option) \<Rightarrow> msg \<Rightarrow> bool" where
  "encodes ser m = (case wire_encode ser m of Inl _ \<Rightarrow> False | Inr _ \<Rightarrow> True)"

text \<open>A message under way on a lane, and what the peer's buffer of that lane holds of it.\<close>

definition under_way :: "u8 \<Rightarrow> outgoing option \<Rightarrow> bool" where
  "under_way l oo = (case oo of None \<Rightarrow> True | Some o1 \<Rightarrow> og_lane o1 = l \<and> length (og_data o1) \<le> MAX_FRAME \<and>
     (og_off o1 = 0 \<or> og_off o1 < length (og_data o1)))"

definition part_of :: "outgoing option \<Rightarrow> u8 list" where
  "part_of oo = (case oo of None \<Rightarrow> [] | Some o1 \<Rightarrow> take (og_off o1) (og_data o1))"

definition lanes_ok :: "pipe \<Rightarrow> bool" where
  "lanes_ok p \<longleftrightarrow> under_way LANE_VIDEO (w_video p) \<and> under_way LANE_BULK (w_bulk p)"

definition buffers_of :: "pipe \<Rightarrow> u8 list list" where
  "buffers_of p = [[], part_of (w_video p), part_of (w_bulk p)]"

lemma under_way_None [simp]: "under_way l None" "part_of None = []"
  by (simp_all add: under_way_def part_of_def)

lemma lanes_ok_new: "lanes_ok (pipe_new now)"
  by (simp add: lanes_ok_def pipe_new_def)

lemma buffers_new: "buffers_of (pipe_new now) = [[], [], []]"
  by (simp add: buffers_of_def pipe_new_def)

lemma outgoing_new_ok: "under_way l (outgoing_new ser l q) \<and> part_of (outgoing_new ser l q) = []"
  by (auto simp: outgoing_new_def under_way_def part_of_def wire_encode_Inr split: sum.split)

lemma unit_step:
  assumes "is_lane l" and "under_way l (Some o1)" and "next_unit o1 = (u, fin, o2)"
  shows "lane_of u = unat l \<and>
    lane_step (part_of (Some o1)) u =
      Some (part_of (if fin then None else Some o2), if fin then Some (og_data o1) else None) \<and>
    under_way l (if fin then None else Some o2)"
proof -
  let ?d = "og_data o1" and ?k = "og_off o1"
  note hd = header_fields [OF assms(1)]
  have len: "length (take ?k ?d) = ?k" and k: "?k = 0 \<or> take ?k ?d \<noteq> []"
    using assms(2) by (auto simp: under_way_def)
  have j: "take ?k ?d @ take n (drop ?k ?d) = take (?k + n) ?d" for n by (simp add: take_add)
  have m: "length ?d \<le> MAX_FRAME" "og_lane o1 = l" using assms(2) by (simp_all add: under_way_def)
  show ?thesis
  proof (cases "length ?d - ?k \<le> FRAGMENT")
    case True
    then have "u = (push_bit 2 l OR (if ?k = 0 then WHOLE else LAST)) # drop ?k ?d" "fin"
      using assms(3) m(2) by (cases "?k = 0"; auto simp: next_unit_def Let_def)+
    then show ?thesis using hd(1,2) [of WHOLE] hd(1,2) [of LAST] k len m(1)
      by (cases "?k = 0") (simp_all add: lane_of_def lane_step_def Let_def flag_values part_of_def min_def split: if_splits)
  next
    case False
    then have u: "u = (push_bit 2 l OR (if ?k = 0 then FIRST else MID)) # take FRAGMENT (drop ?k ?d)"
        "\<not> fin" "o2 = o1\<lparr>og_off := ?k + FRAGMENT\<rparr>"
      using assms(3) m(2) by (cases "?k = 0"; auto simp: next_unit_def Let_def)+
    have "?k + FRAGMENT < length ?d" using False by linarith
    then show ?thesis using u hd(1,2) [of FIRST] hd(1,2) [of MID] k len m
      by (cases "?k = 0") (simp_all add: lane_of_def lane_step_def Let_def flag_values part_of_def under_way_def take_add)
  qed
qed

lemma reassemble_all_append:
  "reassemble_all a us = Some (b, os) \<Longrightarrow> reassemble_all b vs = Some (c, ps) \<Longrightarrow>
    reassemble_all a (us @ vs) = Some (c, os @ ps)"
  by (induction us arbitrary: a os) (auto split: option.splits)

text \<open>Every operation keeps the peer's buffers in step, and a control message it emits is decoded as it was.\<close>

lemma step_reassembles:
  assumes "postcard_ok ser de" and "lanes_ok p"
  shows "\<exists>outs. reassemble_all (buffers_of p) (sent_unit ser p x) = Some (buffers_of (pipe_apply ser p x), outs) \<and>
    map (wire_decode de) (on_lane 0 outs) = map Inr (filter (encodes ser) (taken p x)) \<and> lanes_ok (pipe_apply ser p x)"
proof (cases x)
  case (O_choose now)
  have r: "reassemble (buffers_of p) u = Some ((buffers_of p)[lane_of u := q], out)"
    if "lane_of u \<le> 2" "lane_step (buffers_of p ! lane_of u) u = Some (q, out)" for u q out
    using reassemble_lane [of "buffers_of p" u] that by (simp add: buffers_of_def)
  show ?thesis
  proof (cases "w_ctl p")
    case (Cons q rest)
    have h: "lane_of ((push_bit 2 LANE_CTL OR WHOLE) # b) = 0" for b by (simp add: lane_of_def flag_values)
    have st: "lane_step [] ((push_bit 2 LANE_CTL OR WHOLE) # b) = Some ([], Some b)" for b
      by (simp add: lane_step_def flag_values)
    show ?thesis
    proof (cases "wire_encode ser (q_msg q)")
      case (Inl e)
      then show ?thesis using O_choose Cons assms(2)
        by (simp add: writer_choose_def Let_def encodes_def buffers_of_def lanes_ok_def)
    next
      case (Inr b)
      have "reassemble (buffers_of p) ((push_bit 2 LANE_CTL OR WHOLE) # b) = Some (buffers_of p, Some b)"
        using r [of "(push_bit 2 LANE_CTL OR WHOLE) # b"] st h by (simp add: buffers_of_def)
      then show ?thesis using O_choose Cons Inr assms(2) wire_decode_encode [OF assms(1) Inr] h
        by (simp add: writer_choose_def Let_def encodes_def buffers_of_def lanes_ok_def)
    qed
  next
    case Nil
    show ?thesis
    proof (cases "w_video p")
      case (Some v)
      obtain u fin v2 where n: "next_unit v = (u, fin, v2)" by (metis prod_cases3)
      have "is_lane LANE_VIDEO" by (simp add: is_lane_def)
      from unit_step [OF this _ n] assms(2) Some
      have s: "lane_of u = 1" "lane_step (part_of (w_video p)) u =
            Some (part_of (if fin then None else Some v2), if fin then Some (og_data v) else None)"
          "under_way LANE_VIDEO (if fin then None else Some v2)"
        by (simp_all add: lanes_ok_def flag_values)
      then show ?thesis using O_choose Nil Some n assms(2) r [of u]
        by (cases fin) (auto simp: writer_choose_def buffers_of_def lanes_ok_def)
    next
      case None
      show ?thesis
      proof (cases "w_bulk p")
        case (Some v)
        obtain u fin v2 where n: "next_unit v = (u, fin, v2)" by (metis prod_cases3)
        have "is_lane LANE_BULK" by (simp add: is_lane_def)
        from unit_step [OF this _ n] assms(2) Some
        have s: "lane_of u = 2" "lane_step (part_of (w_bulk p)) u =
              Some (part_of (if fin then None else Some v2), if fin then Some (og_data v) else None)"
            "under_way LANE_BULK (if fin then None else Some v2)"
          by (simp_all add: lanes_ok_def flag_values)
        then show ?thesis using O_choose Nil None Some n assms(2) r [of u]
          by (cases fin) (auto simp: writer_choose_def buffers_of_def lanes_ok_def numeral_2_eq_2)
      qed (use O_choose Nil None assms(2) in \<open>simp add: writer_choose_def\<close>)
    qed
  qed
next
  case O_lanes
  then show ?thesis using assms(2) outgoing_new_ok
    by (auto simp: gather_lanes_def Let_def lanes_ok_def buffers_of_def split: option.split list.split)
qed (use assms(2) in \<open>auto simp: lanes_ok_def buffers_of_def gather_def take_slot_fields drain_fields tx_send_def
    tx_send_input_def tx_try_send_video_def tx_send_bulk_def ready_def Let_def split: option.split prod.split\<close>)

lemma run_reassembles:
  assumes "postcard_ok ser de" and "lanes_ok p" and "pipe_run ser p xs = (q, ms, ts)"
  shows "\<exists>parts outs. reassemble_all (buffers_of p) (pipe_units ser p xs) = Some (parts, outs) \<and>
    map (wire_decode de) (on_lane 0 outs) = map Inr (filter (encodes ser) ts)"
  using assms(2,3)
proof (induction xs arbitrary: p ms ts)
  case (Cons x xs)
  obtain ms1 ts1 where r: "pipe_run ser (pipe_apply ser p x) xs = (q, ms1, ts1)" "ts = taken p x @ ts1"
    using Cons.prems(2) by (auto simp: Let_def split: prod.splits)
  obtain os where s: "reassemble_all (buffers_of p) (sent_unit ser p x) = Some (buffers_of (pipe_apply ser p x), os)"
      "map (wire_decode de) (on_lane 0 os) = map Inr (filter (encodes ser) (taken p x))" "lanes_ok (pipe_apply ser p x)"
    using step_reassembles [OF assms(1) Cons.prems(1), of x] by blast
  obtain parts outs where t: "reassemble_all (buffers_of (pipe_apply ser p x)) (pipe_units ser (pipe_apply ser p x) xs) = Some (parts, outs)"
      "map (wire_decode de) (on_lane 0 outs) = map Inr (filter (encodes ser) ts1)"
    using Cons.IH [OF s(3) r(1)] by blast
  have "on_lane 0 (os @ outs) = on_lane 0 os @ on_lane 0 outs" by (simp add: on_lane_def)
  then show ?case using reassemble_all_append [OF s(1) t(1)] s(2) t(2) r(2) by simp
qed simp

text \<open>A format for one message, and a run that sends it past an interrupted gathering.\<close>

definition click_ser :: "msg \<Rightarrow> u8 list option" where
  "click_ser m = (if m = M_InputAt 1 (MouseButton B_Left True) then Some [7] else None)"

definition click_de :: "u8 list \<Rightarrow> (msg \<times> u8 list) option" where
  "click_de bs = (case bs of [] \<Rightarrow> None | b # r \<Rightarrow> if b = 7 then Some (M_InputAt 1 (MouseButton B_Left True), r) else None)"

definition click_ops :: "pipe_op list" where
  "click_ops = [O_input (MouseButton B_Left True) 0, O_drain, O_input (MouseMove 2 2) 0, O_slot, O_choose 0]"

section \<open>Pacing of bulk data\<close>

lemma push_nonempty: "fst (push_ctl q item) \<noteq> []"
  by (simp add: push_ctl_def)

lemma foldl_push_nonempty: "w_ctl p \<noteq> [] \<Longrightarrow> w_ctl (foldl w_push p items) \<noteq> []"
  by (induction items arbitrary: p) (simp_all add: push_nonempty)

lemma gather_writer:
  "w_video (gather p) = w_video p" "w_bulk (gather p) = w_bulk p" "w_bucket (gather p) = w_bucket p"
  "w_ctl (gather p) = [] \<Longrightarrow> w_ctl p = []"
proof -
  show "w_video (gather p) = w_video p" "w_bulk (gather p) = w_bulk p" "w_bucket (gather p) = w_bucket p"
    by (simp_all add: gather_def take_slot_fields drain_fields)
  show "w_ctl p = []" if "w_ctl (gather p) = []"
  proof (rule ccontr)
    assume "w_ctl p \<noteq> []"
    then have "w_ctl (drain_ctl p) \<noteq> []"
      using foldl_push_nonempty [of "p\<lparr>ch_ctl := []\<rparr>" "ch_ctl p"] by (simp add: drain_ctl_def)
    then show False using that
      by (simp add: gather_def w_ctl_take_slot push_nonempty split: option.splits)
  qed
qed

text \<open>What other tasks do while the writer waits for room on the link.\<close>

fun by_others :: "pipe_op \<Rightarrow> bool" where
  "by_others (O_send m now) = True"
| "by_others (O_input ev now) = True"
| "by_others (O_video m now) = True"
| "by_others (O_bulk m now) = True"
| "by_others _ = False"

lemma others_writer:
  assumes "by_others x"
  shows "w_ctl (pipe_apply ser p x) = w_ctl p \<and> w_video (pipe_apply ser p x) = w_video p \<and>
    w_bulk (pipe_apply ser p x) = w_bulk p \<and> w_bucket (pipe_apply ser p x) = w_bucket p"
  using assms
  by (cases x)
    (auto simp: tx_send_def tx_send_input_def tx_try_send_video_def tx_send_bulk_def Let_def
      split: prod.split option.split)

lemma others_run_writer:
  assumes "\<forall>x \<in> set xs. by_others x"
  shows "w_ctl (foldl (pipe_apply ser) p xs) = w_ctl p \<and> w_video (foldl (pipe_apply ser) p xs) = w_video p \<and>
    w_bulk (foldl (pipe_apply ser) p xs) = w_bulk p \<and> w_bucket (foldl (pipe_apply ser) p xs) = w_bucket p"
  using assms
proof (induction xs arbitrary: p)
  case (Cons x xs)
  then show ?case using others_writer [of x ser p] by simp
qed simp

lemma next_unit_length: "length (fst (next_unit o1)) \<le> Suc FRAGMENT"
  by (auto simp: next_unit_def Let_def min_def)

lemma r64_sub_unit:
  assumes "1 \<le> (t :: rat)" and "n \<le> Suc FRAGMENT"
  shows "- of_nat FRAGMENT \<le> r64 (t - r64 (of_nat n))"
proof -
  have n: "r64 (of_nat n) = of_nat n" using assms(2) by (intro r64_nat) (simp add: FRAGMENT_def)
  have "(of_nat n :: rat) \<le> of_nat (Suc FRAGMENT)" using assms(2) by (simp only: of_nat_le_iff)
  then have "of_int (- int FRAGMENT) \<le> t - r64 (of_nat n)" using assms(1) unfolding n by simp
  then have "r64 (of_int (- int FRAGMENT)) \<le> r64 (t - r64 (of_nat n))" by (rule r64_mono)
  moreover have "r64 (of_int (- int FRAGMENT)) = of_int (- int FRAGMENT)"
    by (rule fround_int) (simp add: FRAGMENT_def)
  ultimately show ?thesis by simp
qed

section \<open>Properties\<close>

text \<open>
  Fragmentation is invisible: cut the messages of the video and bulk lanes into units and let the scheduler
  interleave the lanes in any way; the peer's reader accepts every unit, delivers exactly the
  messages of every lane, whole and in the lane's order, and ends with empty buffers.
\<close>

theorem fragments_reassemble:
  assumes "\<forall>u \<in> set us. lane_of u \<le> 2"
    and "\<forall>l \<in> {LANE_CTL, LANE_VIDEO, LANE_BULK}.
      filter (\<lambda>u. lane_of u = unat l) us = concat (map (lane_units l) (msgs l))"
    and "\<forall>l \<in> {LANE_CTL, LANE_VIDEO, LANE_BULK}. \<forall>d \<in> set (msgs l). d \<noteq> [] \<and> length d \<le> MAX_FRAME"
  shows "\<exists>outs. reassemble_all [[], [], []] us = Some ([[], [], []], outs) \<and>
    (\<forall>l \<in> {LANE_CTL, LANE_VIDEO, LANE_BULK}. on_lane (unat l) outs = msgs l)"
proof -
  let ?m = "\<lambda>l :: nat. msgs (of_nat l)"
  have all: "\<forall>l \<le> 2. lane_run ([[], [], []] ! l) (filter (\<lambda>u. lane_of u = l) us) = Some ([], ?m l)"
  proof (intro allI impI)
    fix l :: nat assume "l \<le> 2"
    then have l: "l = 0 \<or> l = 1 \<or> l = 2" by auto
    then have "is_lane (of_nat l)" "unat (of_nat l :: u8) = l"
        "(of_nat l :: u8) \<in> {LANE_CTL, LANE_VIDEO, LANE_BULK}" "[[], [], []] ! l = ([] :: u8 list)"
      by (auto simp: is_lane_def flag_values)
    then show "lane_run ([[], [], []] ! l) (filter (\<lambda>u. lane_of u = l) us) = Some ([], ?m l)"
      using lane_run_messages [of "of_nat l" "?m l"] assms(2,3) by metis
  qed
  obtain outs parts where o1: "reassemble_all [[], [], []] us = Some (parts, outs)" "length parts = 3"
      "\<forall>l \<le> 2. parts ! l = [] \<and> on_lane l outs = ?m l"
    using interleaving [of "[[], [], []]" us "\<lambda>_. []" ?m] all assms(1) by auto
  have "parts = [[], [], []]"
  proof (rule nth_equalityI)
    fix i assume "i < length parts"
    then have "i = 0 \<or> i = 1 \<or> i = 2" using o1(2) by auto
    then show "parts ! i = [[], [], []] ! i" using o1(3) by auto
  qed (simp add: o1(2))
  moreover have "on_lane (unat l) outs = msgs l" if "l \<in> {LANE_CTL, LANE_VIDEO, LANE_BULK}" for l
    using o1(3) that by (auto simp: flag_values)
  ultimately show ?thesis using o1(1) by blast
qed

theorem fragments_reassemble_witness:
  "\<exists>outs. reassemble_all [[], [], []] [[4, 1], [0, 9], [8, 2, 3]] = Some ([[], [], []], outs) \<and>
    on_lane 0 outs = [[9]] \<and> on_lane 1 outs = [[1]] \<and> on_lane 2 outs = [[2, 3]]"
proof -
  let ?us = "[[4, 1], [0, 9], [8, 2, 3]] :: u8 list list"
  let ?m = "\<lambda>l :: u8. if l = LANE_CTL then [[9]] else if l = LANE_VIDEO then [[1]] else [[2, 3 :: u8]]"
  have l: "\<forall>u \<in> set ?us. lane_of u \<le> 2" by (simp add: lane_of_def)
  have f: "\<forall>l \<in> {LANE_CTL, LANE_VIDEO, LANE_BULK}.
      filter (\<lambda>u. lane_of u = unat l) ?us = concat (map (lane_units l) (?m l))"
    by (simp add: lane_of_def lane_units_def message_units_def units_of.simps next_unit_def FRAGMENT_def flag_values)
  have m: "\<forall>l \<in> {LANE_CTL, LANE_VIDEO, LANE_BULK}. \<forall>d \<in> set (?m l). d \<noteq> [] \<and> length d \<le> MAX_FRAME"
    by (simp add: MAX_FRAME_def flag_values)
  show ?thesis using fragments_reassemble [OF l f m] by (simp add: flag_values)
qed

text \<open>
  C11. A click lands where it was made: as long as the writer's gathering is not interrupted, then
  after any operations of the session's tasks, what the writer took for sending plus what waits, in order, gives every
  click, key and wheel event the same position as the sequence of events the user made, and ends at
  the newest position, however many movements were coalesced.
\<close>

theorem clicks_land_where_made:
  assumes "\<forall>x \<in> set xs. op_ok x \<and> uninterrupted x" and "pipe_run ser (pipe_new now) xs = (p, evs, sent)"
  shows "landings None (inputs (sent @ waiting p)) = landings None evs"
proof -
  have "same_meaning (inputs (sent @ waiting p)) (inputs (waiting (pipe_new now)) @ evs)"
    by (rule run_meaning [OF slot_ok_new assms])
  then show ?thesis by (simp add: same_meaning_def waiting_new)
qed

theorem clicks_land_where_made_witness:
  "\<exists>p evs sent. pipe_run (\<lambda>_. None) (pipe_new 0) [O_input (MouseMove 1 1) 0, O_input (MouseMove 2 2) 0, O_gather,
      O_input (MouseButton B_Left True) 0, O_gather, O_choose 0] = (p, evs, sent) \<and>
    landings None (inputs (sent @ waiting p)) = landings None evs"
proof -
  obtain p evs sent where r: "pipe_run (\<lambda>_. None) (pipe_new 0) [O_input (MouseMove 1 1) 0, O_input (MouseMove 2 2) 0,
      O_gather, O_input (MouseButton B_Left True) 0, O_gather, O_choose 0] = (p, evs, sent)"
    by (metis prod_cases3)
  show ?thesis using clicks_land_where_made [OF _ r] r by auto
qed

text \<open>
  C12. Clicks, keys, text and wheel events are never dropped, duplicated or reordered, under every
  interleaving of the session's tasks, interrupted gathering included, and down to the peer: it reassembles
  every unit the writer emits, whatever pieces of video and bulk messages come between, decodes every
  message of the control lane, and the events among these, followed by those that still wait, are those the
  user made. Only an event that \<open>wire::encode\<close> refuses (a text beyond the 8 MiB limit) is dropped.
\<close>

theorem presses_never_lost:
  assumes "postcard_ok ser de" and "\<forall>x \<in> set xs. op_ok x" and "pipe_run ser (pipe_new now) xs = (p, evs, sent)"
  shows "\<exists>parts outs ds. reassemble_all [[], [], []] (pipe_units ser (pipe_new now) xs) = Some (parts, outs) \<and>
    map (wire_decode de) (on_lane 0 outs) = map Inr ds \<and>
    filter (\<lambda>m. is_input m \<and> \<not> is_move m) (ds @ filter (encodes ser) (waiting p)) =
      filter (\<lambda>m. is_input m \<and> \<not> is_move m) (filter (encodes ser) evs)"
proof -
  obtain parts outs where r: "reassemble_all (buffers_of (pipe_new now)) (pipe_units ser (pipe_new now) xs) = Some (parts, outs)"
      "map (wire_decode de) (on_lane 0 outs) = map Inr (filter (encodes ser) sent)"
    using run_reassembles [OF assms(1) lanes_ok_new assms(3)] by blast
  have "presses (sent @ waiting p) = presses evs"
    using run_presses [OF slot_ok_new assms(2,3)] by (simp add: waiting_new)
  then have "filter (encodes ser) (presses (sent @ waiting p)) = filter (encodes ser) (presses evs)" by (rule arg_cong)
  then have "presses (filter (encodes ser) sent @ filter (encodes ser) (waiting p)) = presses (filter (encodes ser) evs)"
    by (simp add: presses_def conj_commute)
  then show ?thesis using r by (auto simp: buffers_new presses_def)
qed

theorem presses_never_lost_witness:
  "\<exists>outs. reassemble_all [[], [], []] (pipe_units click_ser (pipe_new 0) click_ops) = Some ([[], [], []], outs) \<and>
    map (wire_decode click_de) (on_lane 0 outs) = [Inr (M_InputAt 1 (MouseButton B_Left True))]"
proof -
  have de: "postcard_ok click_ser click_de" by (auto simp: postcard_ok_def click_ser_def click_de_def split: if_splits)
  have u: "pipe_units click_ser (pipe_new 0) click_ops = [[0, 7]]"
    by (simp add: click_ops_def tx_send_input_def stamp_def Let_def pipe_new_def counters_default_def clock_default_def
        is_move_def drain_ctl_def take_slot_def w_push_def push_ctl_def writer_choose_def wire_encode_def click_ser_def
        MAX_FRAME_def flag_values)
  obtain p evs sent where r: "pipe_run click_ser (pipe_new 0) click_ops = (p, evs, sent)" by (metis prod_cases3)
  obtain parts outs ds where o1: "reassemble_all [[], [], []] [[0, 7]] = Some (parts, outs)"
      "map (wire_decode click_de) (on_lane 0 outs) = map Inr ds"
    using presses_never_lost [OF de _ r, unfolded u] by (auto simp: click_ops_def)
  then show ?thesis unfolding u
    by (auto simp: reassemble_def lane_of_def flag_values wire_decode_def click_de_def MAX_FRAME_def)
qed

text \<open>
  Bulk data keeps to its allowance: when a rate is set, the writer sends a piece of a bulk
  message only if at least one byte's worth of tokens was there when it looked, whatever other
  tasks queued while it waited for the link; so the debt never exceeds one fragment.
\<close>

theorem bulk_within_allowance:
  assumes "ready p now = (True, p1)" and "bulk_rate_bps (pc p) \<noteq> 0"
    and "\<forall>x \<in> set xs. by_others x" and "p2 = gather (foldl (pipe_apply ser) p1 xs)"
    and "w_ctl p2 = []" and "w_video p2 = None" and "w_bulk p2 = Some b"
  shows "1 \<le> pc_tokens (w_bucket p2) \<and>
    - of_nat FRAGMENT \<le> pc_tokens (w_bucket (snd (writer_choose ser p2 later)))"
proof -
  let ?q = "foldl (pipe_apply ser) p1 xs"
  note ow = others_run_writer [OF assms(3), of ser p1]
  note gw = gather_writer [of ?q]
  have p1: "w_ctl p1 = []" "w_video p1 = None" "w_bulk p1 = Some b" "w_bucket p2 = w_bucket p1"
    using assms(4-7) ow gw by simp_all
  have same: "w_ctl p1 = w_ctl p" "w_video p1 = w_video p" "w_bulk p1 = w_bulk p"
    using assms(1) by (auto simp: ready_def Let_def split: option.splits prod.splits)
  have tok: "1 \<le> pc_tokens (w_bucket p1)"
    using assms(1,2) p1 same
    by (auto simp: ready_def Let_def available_def at_least_one_def split: option.splits prod.splits)
  have u: "length (fst (next_unit b)) \<le> Suc FRAGMENT" by (rule next_unit_length)
  have "pc_tokens (w_bucket (snd (writer_choose ser p2 later))) =
      r64 (pc_tokens (w_bucket p2) - r64 (of_nat (length (fst (next_unit b)))))"
    using assms(5-7) by (simp add: writer_choose_def Let_def split: prod.split)
  then show ?thesis using r64_sub_unit [OF _ u] tok p1(4) by simp
qed

theorem bulk_within_allowance_witness:
  "let b = \<lparr>og_lane = LANE_BULK, og_data = [1], og_off = 0, og_at = 0\<rparr>;
       p = (pipe_new 0)\<lparr>w_bulk := Some b, w_bucket := \<lparr>pc_tokens = 5, pc_last = 0\<rparr>,
              pc := (counters_default 0)\<lparr>bulk_rate_bps := 1024\<rparr>\<rparr>
   in - of_nat FRAGMENT \<le> pc_tokens (w_bucket (snd (writer_choose (\<lambda>_. None) p 0)))"
proof -
  define b where "b = \<lparr>og_lane = LANE_BULK, og_data = [1], og_off = 0, og_at = 0\<rparr>"
  define p where "p = (pipe_new 0)\<lparr>w_bulk := Some b, w_bucket := \<lparr>pc_tokens = 5, pc_last = 0\<rparr>,
              pc := (counters_default 0)\<lparr>bulk_rate_bps := 1024\<rparr>\<rparr>"
  have five: "r64 5 = 5" using r64_nat [of 5] by simp
  have av: "available (w_bucket p) (bulk_rate_bps (pc p)) 0 = (Some 5, w_bucket p)"
    by (simp add: p_def available_def Let_def as_secs_f64_def five FRAGMENT_def)
  have r: "ready p 0 = (True, p)"
    unfolding ready_def av by (simp add: p_def at_least_one_def)
  have g: "p = gather (foldl (pipe_apply (\<lambda>_. None)) p [])"
    by (simp add: p_def pipe_new_def gather_def take_slot_def drain_ctl_def)
  have "- of_nat FRAGMENT \<le> pc_tokens (w_bucket (snd (writer_choose (\<lambda>_. None) p 0)))"
    by (rule conjunct2 [OF bulk_within_allowance [OF r _ _ g]]) (simp_all add: p_def pipe_new_def)
  then show ?thesis by (simp add: p_def b_def Let_def)
qed

definition buffers_ok :: "u8 list list \<Rightarrow> bool" where
  "buffers_ok parts \<longleftrightarrow> length parts = 3 \<and> (\<forall>b \<in> set parts. length b \<le> MAX_FRAME)"

lemma buffers_ok_update: "buffers_ok parts \<Longrightarrow> length b \<le> MAX_FRAME \<Longrightarrow> buffers_ok (parts[i := b])"
  using set_update_subset_insert [of parts i b] by (auto simp: buffers_ok_def)

lemma reassemble_bounded:
  assumes "buffers_ok parts" and "reassemble parts u = Some (parts', out)"
  shows "buffers_ok parts'"
  using assms
  by (auto simp: reassemble_def Let_def intro!: buffers_ok_update split: list.splits if_splits)

fun reader_all ::
  "'k aead \<Rightarrow> (u8 list \<Rightarrow> (msg \<times> u8 list) option) \<Rightarrow> bool \<Rightarrow> 'k reader \<Rightarrow> counters \<Rightarrow>
    (u8 list \<times> instant) list \<Rightarrow> 'k reader \<times> delivery list" where
  "reader_all dec de routed r c [] = (r, [])"
| "reader_all dec de routed r c ((frame, now) # fs) =
     (case reader_frame dec de routed r c frame now of
        None \<Rightarrow> (r, [])
      | Some (r1, c1, d) \<Rightarrow> (let (r2, ds) = reader_all dec de routed r1 c1 fs in (r2, d # ds)))"

fun delivery_ok :: "bool \<Rightarrow> delivery \<Rightarrow> bool" where
  "delivery_ok routed D_None = True"
| "delivery_ok routed (D_Input seq ev now) = (routed \<and> validate (M_InputAt seq ev) = Inr ())"
| "delivery_ok routed (D_Msg m) = (\<not> is_input m \<and> validate m = Inr ())"

lemma reader_frame_ok:
  assumes "reader_frame dec de routed r c frame now = Some (r1, c1, d)" and "buffers_ok (rd_partial r)"
  shows "buffers_ok (rd_partial r1) \<and> delivery_ok routed d"
proof -
  let ?c = "c\<lparr>bytes_received := bytes_received c + of_nat (length frame)\<rparr>"
  obtain plain op where o1: "open_frame dec (rd_opener r) frame = (Inr plain, op)"
    using assms(1) by (auto simp: reader_frame_def Let_def split: prod.splits sum.splits)
  obtain parts out where re: "reassemble (rd_partial r) plain = Some (parts, out)"
    using assms(1) o1 by (auto simp: reader_frame_def Let_def split: option.splits)
  have b: "buffers_ok parts" by (rule reassemble_bounded [OF assms(2) re])
  show ?thesis
  proof (cases out)
    case None
    then show ?thesis using assms(1) o1 re b by (auto simp: reader_frame_def Let_def)
  next
    case (Some bytes)
    then obtain m where m: "wire_decode de bytes = Inr m" "validate m = Inr ()"
      using assms(1) o1 re by (auto simp: reader_frame_def Let_def split: sum.splits)
    show ?thesis
      using assms(1) o1 re b Some m
      by (cases m) (auto simp: reader_frame_def Let_def is_input_def split: prod.splits)
  qed
qed

text \<open>
  C13. What a hostile peer can do to the reader is bounded: whatever bytes it seals, the three
  reassembly buffers stay within the 8 MiB limit, only messages that pass validation come out, and
  input events reach nothing but the input route.
\<close>

theorem hostile_peer_bounded:
  assumes "reader_all dec de routed (reader_new op) c fs = (r, ds)"
  shows "length (rd_partial r) = 3 \<and> (\<forall>b \<in> set (rd_partial r). length b \<le> MAX_FRAME) \<and>
    (\<forall>d \<in> set ds. delivery_ok routed d)"
proof -
  have "buffers_ok (rd_partial r') \<and> (\<forall>d \<in> set ds'. delivery_ok routed d)"
    if "reader_all dec de routed r0 c0 fs = (r', ds')" and "buffers_ok (rd_partial r0)" for r0 r' c0 ds'
    using that
  proof (induction fs arbitrary: r0 c0 ds')
    case (Cons f fs)
    show ?case
    proof (cases "reader_frame dec de routed r0 c0 (fst f) (snd f)")
      case None
      then show ?thesis using Cons.prems by (cases f) auto
    next
      case (Some p)
      then obtain r1 c1 d where p: "reader_frame dec de routed r0 c0 (fst f) (snd f) = Some (r1, c1, d)"
        by (cases p) auto
      then obtain ds1 where "reader_all dec de routed r1 c1 fs = (r', ds1)" "ds' = d # ds1"
        using Cons.prems(1) by (cases f) (auto simp: Let_def split: prod.splits)
      then show ?thesis using reader_frame_ok [OF p Cons.prems(2)] Cons.IH by simp
    qed
  qed auto
  from this [OF assms] show ?thesis by (simp add: reader_new_def buffers_ok_def)
qed

theorem hostile_peer_bounded_witness:
  "\<exists>r ds. reader_all toy_dec (\<lambda>_. None) True (reader_new \<lparr>o_cipher = 1, o_counter = 0\<rparr>)
      (counters_default 0) [([9, 9], 5), ([1], 6)] = (r, ds) \<and> length (rd_partial r) = 3"
proof -
  obtain r ds where r: "reader_all toy_dec (\<lambda>_. None) True (reader_new \<lparr>o_cipher = 1, o_counter = 0\<rparr>)
      (counters_default 0) [([9, 9], 5), ([1], 6)] = (r, ds)" by force
  show ?thesis using hostile_peer_bounded [OF r] r by blast
qed

section \<open>The gathering race\<close>

text \<open>
  The writer drains the control channel and then takes the slot, in two steps. A click and a newer
  movement made in between swap: the pending position has moved into the channel with the click,
  the newer one is taken first, and the host ends at the old position. With an empty slot the click
  itself lands at the newer position.
\<close>

lemma interrupted_gather_loses_newest_position:
  "case pipe_run (\<lambda>_. None) (pipe_new 0)
      [O_input (MouseMove 1 1) 0, O_drain, O_input (MouseButton B_Left True) 0,
       O_input (MouseMove 2 2) 0, O_slot, O_gather] of
     (p, evs, sent) \<Rightarrow> snd (landings None (inputs (sent @ waiting p))) = Some (M_InputAt 1 (MouseMove 1 1)) \<and>
       snd (landings None evs) = Some (M_InputAt 3 (MouseMove 2 2))"
  by (simp add: tx_send_input_def stamp_def Let_def pipe_new_def counters_default_def clock_default_def
      is_move_def drain_ctl_def take_slot_def gather_def w_push_def push_ctl_def waiting_def slot_list_def
      is_input_def)

lemma interrupted_gather_moves_click:
  "case pipe_run (\<lambda>_. None) (pipe_new 0)
      [O_input (MouseMove 1 1) 0, O_gather, O_drain, O_input (MouseButton B_Left True) 0,
       O_input (MouseMove 2 2) 0, O_slot, O_gather] of
     (p, evs, sent) \<Rightarrow>
       fst (landings None (inputs (sent @ waiting p))) = [(Some (M_InputAt 3 (MouseMove 2 2)), M_InputAt 2 (MouseButton B_Left True))] \<and>
       fst (landings None evs) = [(Some (M_InputAt 1 (MouseMove 1 1)), M_InputAt 2 (MouseButton B_Left True))]"
  by (simp add: tx_send_input_def stamp_def Let_def pipe_new_def counters_default_def clock_default_def
      is_move_def drain_ctl_def take_slot_def gather_def w_push_def push_ctl_def waiting_def slot_list_def
      is_input_def)

end
