(* ===== verification/Broker.thy ===== *)
theory Broker
  imports Peer
begin

text \<open>
  Elevated control: the messages on the service's pipes (\<open>crates/elevate/src/proto.rs\<close>), the
  broker that owns the one grant (\<open>crates/service/src/broker.rs\<close>) and the loop that serves one
  connection of the desktop application (\<open>crates/service/src/server.rs\<close>).

  What the operating system answers is an argument: the image of a process, the console session,
  the environment variables, whether the agent started and is alive, whether a write to a pipe
  succeeded and what the agent answered. What is written to an agent is logged in the broker, so
  that its history can be stated. Every broker method is one step; the halves of those that drop
  the lock in between (\<open>sweep\<close>, \<open>revoke\<close>, \<open>owner_gone\<close>, \<open>grant\<close>) are definitions of their own.
\<close>

section \<open>Messages and their validation\<close>

definition MAX_DIMENSION :: u32 where "MAX_DIMENSION = 7680"
definition GRANT_LAPSE_SECS :: nat where "GRANT_LAPSE_SECS = 10"
definition ELEVATE_VERSION :: u16 where "ELEVATE_VERSION = 1"

datatype conn_role = Role_Input | Role_Video

type_synonym token = "u8 list"

datatype ui_to_service =
    U_Hello u16
  | U_Grant rstr
  | U_Attach token conn_role
  | U_Revoke
  | U_Heartbeat
  | U_Input input_event display_info
  | U_Capture display_info u32 u32
  | U_Status

datatype deny_reason = NotAuthorized | NoActiveSession | AgentUnavailable | AlreadyGranted | NotGranted

record picture =
  pic_width :: u32
  pic_height :: u32
  pic_nv12 :: "u8 list"
  pic_pointer :: "(i32 \<times> i32 \<times> bool) option"

datatype service_to_ui =
    T_Welcome u16 rstr
  | T_Granted token
  | T_Attached
  | T_Denied deny_reason
  | T_Revoked
  | T_Picture picture
  | T_NoPicture
  | T_Status bool bool

datatype service_to_agent =
    G_Inject input_event display_info
  | G_Capture display_info u32 u32
  | G_Status
  | G_Shutdown

datatype agent_to_service =
    A_Ready u32 conn_role
  | A_Picture picture
  | A_NoPicture
  | A_Status bool

definition check_display :: "display_info \<Rightarrow> string + unit" where
  "check_display d =
     (if d_width d = 0 \<or> d_height d = 0 \<or> d_width d > MAX_DIMENSION \<or> d_height d > MAX_DIMENSION
      then Inl ''bad display size''
      else if str_len (d_name d) > 256 then Inl ''display name too long''
      else Inr ())"

fun validate_ui :: "ui_to_service \<Rightarrow> string + unit" where
  "validate_ui (U_Grant label) = (if str_len label > 128 then Inl ''label too long'' else Inr ())"
| "validate_ui (U_Input ev d) =
     (case ev of
        TextInput t \<Rightarrow> if length t > 4096 then Inl ''text too long'' else check_display d
      | _ \<Rightarrow> check_display d)"
| "validate_ui (U_Capture d out_w out_h) =
     (case check_display d of
        Inl e \<Rightarrow> Inl e
      | Inr _ \<Rightarrow>
          if out_w < 16 \<or> out_h < 16 \<or> out_w > MAX_DIMENSION \<or> out_h > MAX_DIMENSION
          then Inl ''bad output size''
          else if out_w mod 2 \<noteq> 0 \<or> out_h mod 2 \<noteq> 0 then Inl ''output size must be even''
          else Inr ())"
| "validate_ui _ = Inr ()"

section \<open>The broker\<close>

type_synonym agent = nat

record broker_config =
  bc_allowed_ui :: "rstr list"
  bc_exe_dir :: rstr
  bc_enforce_console :: bool
  bc_require_protected :: bool

record grant =
  gr_token :: token
  gr_owner_pid :: u32
  gr_label :: rstr
  gr_last_beat :: instant
  gr_agent :: agent

record broker =
  br_grant :: "grant option"
  br_log :: "(agent \<times> conn_role \<times> service_to_agent) list"
  br_killed :: "agent list"

definition broker_new :: broker where
  "broker_new = \<lparr>br_grant = None, br_log = [], br_killed = []\<rparr>"

definition agent_write :: "broker \<Rightarrow> agent \<Rightarrow> conn_role \<Rightarrow> service_to_agent \<Rightarrow> broker" where
  "agent_write b a r m = b\<lparr>br_log := br_log b @ [(a, r, m)]\<rparr>"

definition agent_shutdown :: "broker \<Rightarrow> agent \<Rightarrow> broker" where
  "agent_shutdown b a =
     (let b1 = agent_write (agent_write b a Role_Input G_Shutdown) a Role_Video G_Shutdown
      in b1\<lparr>br_killed := br_killed b1 @ [a]\<rparr>)"

definition end_grant :: "broker \<Rightarrow> broker" where
  "end_grant b =
     (case br_grant b of
        None \<Rightarrow> b
      | Some g \<Rightarrow> agent_shutdown (b\<lparr>br_grant := None\<rparr>) (gr_agent g))"

text \<open>\<open>sweep\<close>: the check under the lock, then, with the lock released, \<open>end_grant\<close>.\<close>

definition grant_dead :: "broker \<Rightarrow> (agent \<Rightarrow> bool) \<Rightarrow> instant \<Rightarrow> bool" where
  "grant_dead b alive now =
     (case br_grant b of
        None \<Rightarrow> False
      | Some g \<Rightarrow> duration_since now (gr_last_beat g) > secs GRANT_LAPSE_SECS \<or> \<not> alive (gr_agent g))"

definition broker_sweep :: "broker \<Rightarrow> (agent \<Rightarrow> bool) \<Rightarrow> instant \<Rightarrow> broker" where
  "broker_sweep b alive now = (if grant_dead b alive now then end_grant b else b)"

definition ascii_lower :: "uchar \<Rightarrow> uchar" where
  "ascii_lower c = (if 65 \<le> c \<and> c \<le> 90 then c + 32 else c)"

definition same_path :: "rstr \<Rightarrow> rstr \<Rightarrow> bool" where
  "same_path a b = (map ascii_lower a = map ascii_lower b)"

text \<open>\<open>proc_image\<close> is \<open>process_image\<close>, \<open>active\<close> is \<open>WTSGetActiveConsoleSessionId\<close>.\<close>

definition caller_allowed :: "broker_config \<Rightarrow> (u32 \<Rightarrow> rstr option) \<Rightarrow> u32 \<Rightarrow> u32 \<Rightarrow> u32 \<Rightarrow> bool" where
  "caller_allowed cfg proc_image active pid session =
     (case proc_image pid of
        None \<Rightarrow> False
      | Some path \<Rightarrow>
          if \<not> (\<exists>p \<in> set (bc_allowed_ui cfg). same_path p path) then False
          else if bc_enforce_console cfg then \<not> (active = - 1 \<or> active \<noteq> session)
          else True)"

text \<open>\<open>lower\<close> is \<open>str::to_lowercase\<close>, \<open>program_dirs\<close> the values of the three variables that are set.\<close>

definition install_is_protected :: "broker_config \<Rightarrow> (rstr \<Rightarrow> rstr) \<Rightarrow> rstr list \<Rightarrow> bool" where
  "install_is_protected cfg lower program_dirs =
     (if \<not> bc_require_protected cfg then True
      else (\<exists>pf \<in> set program_dirs.
              take (length (lower pf)) (lower (bc_exe_dir cfg)) = lower pf))"

text \<open>The second half of \<open>grant\<close>: the slot is locked again once the agent runs.\<close>

definition grant_commit :: "broker \<Rightarrow> u32 \<Rightarrow> rstr \<Rightarrow> agent \<Rightarrow> token \<Rightarrow> instant \<Rightarrow> (deny_reason + token) \<times> broker" where
  "grant_commit b pid label a tok now =
     (case br_grant b of
        Some _ \<Rightarrow> (Inl AlreadyGranted, agent_shutdown b a)
      | None \<Rightarrow>
          (Inr tok, b\<lparr>br_grant := Some \<lparr>gr_token = tok, gr_owner_pid = pid, gr_label = take 64 label,
                                         gr_last_beat = now, gr_agent = a\<rparr>\<rparr>))"

definition broker_grant ::
  "broker \<Rightarrow> bool \<Rightarrow> agent option \<Rightarrow> token \<Rightarrow> u32 \<Rightarrow> rstr \<Rightarrow> instant \<Rightarrow> (deny_reason + token) \<times> broker" where
  "broker_grant b protected started tok pid label now =
     (if \<not> protected then (Inl NotAuthorized, b)
      else if br_grant b \<noteq> None then (Inl AlreadyGranted, b)
      else case started of
             None \<Rightarrow> (Inl AgentUnavailable, b)
           | Some a \<Rightarrow> grant_commit b pid label a tok now)"

definition current :: "broker \<Rightarrow> token \<Rightarrow> u32 \<Rightarrow> deny_reason + grant" where
  "current b tok pid =
     (case br_grant b of
        None \<Rightarrow> Inl NotGranted
      | Some g \<Rightarrow> if gr_token g \<noteq> tok \<or> gr_owner_pid g \<noteq> pid then Inl NotAuthorized else Inr g)"

definition broker_attach :: "broker \<Rightarrow> token \<Rightarrow> u32 \<Rightarrow> deny_reason + unit" where
  "broker_attach b tok pid = (case current b tok pid of Inl e \<Rightarrow> Inl e | Inr _ \<Rightarrow> Inr ())"

definition broker_revoke :: "broker \<Rightarrow> token \<Rightarrow> u32 \<Rightarrow> broker" where
  "broker_revoke b tok pid = (case current b tok pid of Inl _ \<Rightarrow> b | Inr _ \<Rightarrow> end_grant b)"

definition owner_gone :: "broker \<Rightarrow> u32 \<Rightarrow> broker" where
  "owner_gone b pid =
     (case br_grant b of
        None \<Rightarrow> b
      | Some g \<Rightarrow> if gr_owner_pid g = pid then end_grant b else b)"

definition broker_heartbeat :: "broker \<Rightarrow> token \<Rightarrow> u32 \<Rightarrow> instant \<Rightarrow> (deny_reason + unit) \<times> broker" where
  "broker_heartbeat b tok pid now =
     (case current b tok pid of
        Inl e \<Rightarrow> (Inl e, b)
      | Inr g \<Rightarrow> (Inr (), b\<lparr>br_grant := Some (g\<lparr>gr_last_beat := now\<rparr>)\<rparr>))"

definition inject ::
  "broker \<Rightarrow> token \<Rightarrow> u32 \<Rightarrow> input_event \<Rightarrow> display_info \<Rightarrow> bool \<Rightarrow> (deny_reason + unit) \<times> broker" where
  "inject b tok pid ev d wrote =
     (case current b tok pid of
        Inl e \<Rightarrow> (Inl e, b)
      | Inr g \<Rightarrow>
          if wrote then (Inr (), agent_write b (gr_agent g) Role_Input (G_Inject ev d))
          else (Inl AgentUnavailable, b))"

definition capture ::
  "broker \<Rightarrow> token \<Rightarrow> u32 \<Rightarrow> display_info \<Rightarrow> u32 \<Rightarrow> u32 \<Rightarrow> bool \<Rightarrow> agent_to_service option \<Rightarrow>
    (deny_reason + picture option) \<times> broker" where
  "capture b tok pid d out_w out_h wrote answer =
     (case current b tok pid of
        Inl e \<Rightarrow> (Inl e, b)
      | Inr g \<Rightarrow>
          if \<not> wrote then (Inl AgentUnavailable, b)
          else (case answer of
                  Some (A_Picture p) \<Rightarrow> Inr (Some p)
                | Some A_NoPicture \<Rightarrow> Inr None
                | _ \<Rightarrow> Inl AgentUnavailable,
                agent_write b (gr_agent g) Role_Video (G_Capture d out_w out_h)))"

definition broker_status ::
  "broker \<Rightarrow> token \<Rightarrow> u32 \<Rightarrow> bool \<Rightarrow> agent_to_service option \<Rightarrow> (deny_reason + bool) \<times> broker" where
  "broker_status b tok pid wrote answer =
     (case current b tok pid of
        Inl e \<Rightarrow> (Inl e, b)
      | Inr g \<Rightarrow>
          if \<not> wrote then (Inl AgentUnavailable, b)
          else (case answer of Some (A_Status s) \<Rightarrow> Inr s | _ \<Rightarrow> Inl AgentUnavailable,
                agent_write b (gr_agent g) Role_Video G_Status))"

definition has_grant :: "broker \<Rightarrow> bool" where
  "has_grant b = (br_grant b \<noteq> None)"

section \<open>One connection\<close>

definition MAX_CONNECTIONS :: nat where "MAX_CONNECTIONS = 8"

text \<open>What the surroundings do during one request.\<close>

record surroundings =
  su_now :: instant
  su_protected :: bool
  su_started :: "agent option"
  su_token :: token
  su_wrote :: bool
  su_answer :: "agent_to_service option"

record ui_conn =
  uc_pid :: u32
  uc_token :: "token option"
  uc_owner :: bool

datatype client_result = Answer "service_to_ui option" | Close_conn

definition denied :: "deny_reason + 'a \<Rightarrow> service_to_ui option" where
  "denied r = (case r of Inl e \<Rightarrow> Some (T_Denied e) | Inr _ \<Rightarrow> None)"

text \<open>The greeting: the first message of an admitted caller.\<close>

definition client_hello :: "rstr \<Rightarrow> ui_to_service \<Rightarrow> client_result" where
  "client_hello service_version m =
     (case m of
        U_Hello v \<Rightarrow> if v = ELEVATE_VERSION then Answer (Some (T_Welcome ELEVATE_VERSION service_version)) else Close_conn
      | _ \<Rightarrow> Close_conn)"

text \<open>The body of the request loop.\<close>

definition client_request ::
  "broker \<Rightarrow> ui_conn \<Rightarrow> ui_to_service \<Rightarrow> surroundings \<Rightarrow> client_result \<times> ui_conn \<times> broker" where
  "client_request b c m e =
     (case validate_ui m of
        Inl _ \<Rightarrow> (Close_conn, c, b)
      | Inr _ \<Rightarrow>
          (case m of
             U_Hello _ \<Rightarrow> (Close_conn, c, b)
           | U_Grant label \<Rightarrow>
               if uc_token c \<noteq> None then (Answer (Some (T_Denied AlreadyGranted)), c, b)
               else (case broker_grant b (su_protected e) (su_started e) (su_token e) (uc_pid c) label (su_now e) of
                       (Inr t, b1) \<Rightarrow> (Answer (Some (T_Granted t)), c\<lparr>uc_token := Some t, uc_owner := True\<rparr>, b1)
                     | (Inl r, b1) \<Rightarrow> (Answer (Some (T_Denied r)), c, b1))
           | U_Attach t _ \<Rightarrow>
               (case broker_attach b t (uc_pid c) of
                  Inr _ \<Rightarrow> (Answer (Some T_Attached), c\<lparr>uc_token := Some t\<rparr>, b)
                | Inl r \<Rightarrow> (Answer (Some (T_Denied r)), c, b))
           | U_Revoke \<Rightarrow>
               (Answer (Some T_Revoked), c\<lparr>uc_token := None\<rparr>,
                case uc_token c of Some t \<Rightarrow> broker_revoke b t (uc_pid c) | None \<Rightarrow> b)
           | U_Heartbeat \<Rightarrow>
               (case uc_token c of
                  Some t \<Rightarrow> (let (r, b1) = broker_heartbeat b t (uc_pid c) (su_now e) in (Answer (denied r), c, b1))
                | None \<Rightarrow> (Answer (Some (T_Denied NotGranted)), c, b))
           | U_Input ev d \<Rightarrow>
               (case uc_token c of
                  Some t \<Rightarrow> (let (r, b1) = inject b t (uc_pid c) ev d (su_wrote e) in (Answer (denied r), c, b1))
                | None \<Rightarrow> (Answer (Some (T_Denied NotGranted)), c, b))
           | U_Capture d out_w out_h \<Rightarrow>
               (case uc_token c of
                  Some t \<Rightarrow>
                    (let (r, b1) = capture b t (uc_pid c) d out_w out_h (su_wrote e) (su_answer e)
                     in (Answer (Some (case r of Inr (Some p) \<Rightarrow> T_Picture p | Inr None \<Rightarrow> T_NoPicture | Inl x \<Rightarrow> T_Denied x)), c, b1))
                | None \<Rightarrow> (Answer (Some (T_Denied NotGranted)), c, b))
           | U_Status \<Rightarrow>
               (case uc_token c of
                  Some t \<Rightarrow>
                    (let (r, b1) = broker_status b t (uc_pid c) (su_wrote e) (su_answer e)
                     in (Answer (Some (case r of Inr s \<Rightarrow> T_Status s True | Inl x \<Rightarrow> T_Denied x)), c, b1))
                | None \<Rightarrow> (Answer (Some (T_Status False False)), c, b))))"

text \<open>The end of the connection, however the loop ended.\<close>

definition client_closed :: "broker \<Rightarrow> ui_conn \<Rightarrow> broker" where
  "client_closed b c = (if uc_owner c then owner_gone b (uc_pid c) else b)"

end
