(* ===== verification/Broker_Props.thy ===== *)
theory Broker_Props
  imports Broker
begin

text \<open>
  The elevation service as a whole: any number of admitted connections, the broker and its
  watchdog, in any order of events. Shown: a grant never outlives the connection that asked for
  it, an agent is driven only by the grant's owner, nothing reaches an agent after its shutdown,
  and a grant without heartbeats lapses.
\<close>

section \<open>The service as a step system\<close>

record service =
  sv_broker :: broker
  sv_conns :: "(nat, ui_conn) hmap"
  sv_agents :: "agent list"
  sv_tokens :: "token list"

datatype svc_event =
    V_accept nat u32
  | V_request nat ui_to_service surroundings
  | V_close nat
  | V_sweep "agent \<Rightarrow> bool" instant

definition svc_close :: "service \<Rightarrow> nat \<Rightarrow> ui_conn \<Rightarrow> broker \<Rightarrow> service" where
  "svc_close s cid c b =
     s\<lparr>sv_broker := client_closed b c, sv_conns := hm_remove cid (sv_conns s)\<rparr>"

fun svc_apply :: "service \<Rightarrow> svc_event \<Rightarrow> service" where
  "svc_apply s (V_accept cid pid) =
     (if length (sv_conns s) \<ge> MAX_CONNECTIONS then s
      else s\<lparr>sv_conns := hm_insert cid \<lparr>uc_pid = pid, uc_token = None, uc_owner = False\<rparr> (sv_conns s)\<rparr>)"
| "svc_apply s (V_request cid m e) =
     (case hm_get (sv_conns s) cid of
        None \<Rightarrow> s
      | Some c \<Rightarrow>
          (let (r, c1, b1) = client_request (sv_broker s) c m e;
               s1 = s\<lparr>sv_agents := (case su_started e of Some a \<Rightarrow> a # sv_agents s | None \<Rightarrow> sv_agents s),
                      sv_tokens := su_token e # sv_tokens s\<rparr>
           in case r of
                Answer _ \<Rightarrow> s1\<lparr>sv_broker := b1, sv_conns := hm_insert cid c1 (sv_conns s)\<rparr>
              | Close_conn \<Rightarrow> svc_close s1 cid c1 b1))"
| "svc_apply s (V_close cid) =
     (case hm_get (sv_conns s) cid of None \<Rightarrow> s | Some c \<Rightarrow> svc_close s cid c (sv_broker s))"
| "svc_apply s (V_sweep alive now) = s\<lparr>sv_broker := broker_sweep (sv_broker s) alive now\<rparr>"

text \<open>
  Connection handles are new, only admitted processes get past the caller check, each agent
  started is a new process and each token is 128 fresh random bits.
\<close>

fun svc_ok :: "(u32 \<Rightarrow> bool) \<Rightarrow> service \<Rightarrow> svc_event \<Rightarrow> bool" where
  "svc_ok allowed s (V_accept cid pid) = (hm_get (sv_conns s) cid = None \<and> allowed pid)"
| "svc_ok allowed s (V_request cid m e) =
     ((\<forall>a. su_started e = Some a \<longrightarrow> a \<notin> set (sv_agents s)) \<and> su_token e \<notin> set (sv_tokens s))"
| "svc_ok allowed s _ = True"

inductive svc_step :: "(u32 \<Rightarrow> bool) \<Rightarrow> service \<Rightarrow> service \<Rightarrow> bool" for allowed where
  svc_event: "svc_ok allowed s e \<Longrightarrow> svc_step allowed s (svc_apply s e)"

inductive_cases svc_stepE: "svc_step allowed s t"

definition svc_new :: service where
  "svc_new = \<lparr>sv_broker = broker_new, sv_conns = [], sv_agents = [], sv_tokens = []\<rparr>"

definition svc_init :: "service \<Rightarrow> bool" where
  "svc_init s \<longleftrightarrow> s = svc_new"

abbreviation svc_reachable :: "(u32 \<Rightarrow> bool) \<Rightarrow> service \<Rightarrow> bool" where
  "svc_reachable allowed \<equiv> reach svc_init (svc_step allowed)"

section \<open>What one broker operation does\<close>

text \<open>
  The log only grows; what is new is either the shutdown of the agent whose grant ends, or one
  message to the agent of the live grant, which then stays.
\<close>

definition drives :: "broker \<Rightarrow> broker \<Rightarrow> bool" where
  "drives b b1 \<longleftrightarrow>
     (\<exists>g r x. br_grant b = Some g \<and> br_grant b1 = Some g \<and> x \<noteq> G_Shutdown \<and>
        br_log b1 = br_log b @ [(gr_agent g, r, x)])"

definition ends :: "broker \<Rightarrow> broker \<Rightarrow> bool" where
  "ends b b1 \<longleftrightarrow>
     (\<exists>g. br_grant b = Some g \<and> br_grant b1 = None \<and>
        br_log b1 = br_log b @ [(gr_agent g, Role_Input, G_Shutdown), (gr_agent g, Role_Video, G_Shutdown)])"

definition begins :: "broker \<Rightarrow> broker \<Rightarrow> grant \<Rightarrow> bool" where
  "begins b b1 g \<longleftrightarrow> br_grant b = None \<and> br_grant b1 = Some g \<and> br_log b1 = br_log b"

definition beats :: "broker \<Rightarrow> broker \<Rightarrow> bool" where
  "beats b b1 \<longleftrightarrow> (\<exists>g t. br_grant b = Some g \<and> br_grant b1 = Some (g\<lparr>gr_last_beat := t\<rparr>) \<and> br_log b1 = br_log b)"

lemma end_grant_ends: "br_grant b = Some g \<Longrightarrow> ends b (end_grant b)"
  by (simp add: ends_def end_grant_def agent_shutdown_def agent_write_def Let_def)

lemma end_grant_none: "br_grant b = None \<Longrightarrow> end_grant b = b"
  by (simp add: end_grant_def)

lemma current_Inr: "current b tok pid = Inr g \<longleftrightarrow> br_grant b = Some g \<and> gr_token g = tok \<and> gr_owner_pid g = pid"
  by (auto simp: current_def split: option.splits)

lemma owner_gone_cases: "owner_gone b pid = b \<and> (\<forall>g. br_grant b = Some g \<longrightarrow> gr_owner_pid g \<noteq> pid) \<or>
    ends b (owner_gone b pid)"
  by (auto simp: owner_gone_def end_grant_ends split: option.split)

lemma sweep_cases: "broker_sweep b alive now = b \<or> ends b (broker_sweep b alive now)"
  by (auto simp: broker_sweep_def grant_dead_def end_grant_ends split: option.splits)

text \<open>The connection of a request keeps its process and, unless it becomes the owner, its role.\<close>

lemma client_request_cases:
  assumes "client_request b c m e = (r, c1, b1)"
  shows "uc_pid c1 = uc_pid c \<and>
    (b1 = b \<and> (uc_owner c1 = uc_owner c) \<or>
     ends b b1 \<and> uc_owner c1 = uc_owner c \<or>
     beats b b1 \<and> uc_owner c1 = uc_owner c \<and> m = U_Heartbeat \<or>
     (drives b b1 \<and> c1 = c \<and> validate_ui m = Inr () \<and>
       (\<exists>g. br_grant b = Some g \<and> gr_owner_pid g = uc_pid c \<and> uc_token c = Some (gr_token g))) \<or>
     (\<exists>a label. begins b b1 \<lparr>gr_token = su_token e, gr_owner_pid = uc_pid c, gr_label = take 64 label,
          gr_last_beat = su_now e, gr_agent = a\<rparr> \<and> su_started e = Some a \<and> su_protected e \<and>
        uc_owner c1 \<and> (\<exists>ans. r = Answer ans)))"
proof (cases "validate_ui m")
  case (Inl why)
  then show ?thesis using assms by (auto simp: client_request_def)
next
  case (Inr u)
  show ?thesis
  proof (cases m)
    case (U_Grant label)
    then show ?thesis using assms Inr
      by (auto simp: client_request_def broker_grant_def grant_commit_def begins_def
          split: if_splits option.splits sum.splits prod.splits)
  next
    case U_Revoke
    then show ?thesis using assms Inr
      by (auto simp: client_request_def broker_revoke_def current_Inr intro: end_grant_ends
          split: option.splits sum.splits)
  next
    case U_Heartbeat
    then show ?thesis using assms Inr
      by (auto simp: client_request_def broker_heartbeat_def current_Inr beats_def Let_def
          split: option.splits sum.splits prod.splits)
  next
    case (U_Input ev d)
    then show ?thesis using assms Inr
      by (auto simp: client_request_def inject_def current_Inr drives_def agent_write_def Let_def
          split: option.splits sum.splits prod.splits if_splits)
  next
    case (U_Capture d w h)
    then show ?thesis using assms Inr
      by (auto simp: client_request_def capture_def current_Inr drives_def agent_write_def Let_def
          split: option.splits sum.splits prod.splits if_splits)
  next
    case U_Status
    then show ?thesis using assms Inr
      by (auto simp: client_request_def broker_status_def current_Inr drives_def agent_write_def Let_def
          split: option.splits sum.splits prod.splits if_splits)
  qed (use assms Inr in \<open>auto simp: client_request_def split: sum.splits\<close>)
qed

section \<open>The invariant\<close>

text \<open>After an agent's shutdown only shutdowns follow for it.\<close>

definition quiet :: "(agent \<times> conn_role \<times> service_to_agent) list \<Rightarrow> bool" where
  "quiet l \<longleftrightarrow> (\<forall>xs a r ys. l = xs @ (a, r, G_Shutdown) # ys \<longrightarrow> (\<forall>r' x. (a, r', x) \<in> set ys \<longrightarrow> x = G_Shutdown))"

definition shut :: "(agent \<times> conn_role \<times> service_to_agent) list \<Rightarrow> agent \<Rightarrow> bool" where
  "shut l a \<longleftrightarrow> (\<exists>r. (a, r, G_Shutdown) \<in> set l)"

lemma quiet_Nil [simp]: "quiet []"
  by (simp add: quiet_def)

lemma quietD:
  assumes "quiet l" and "l = xs @ (a, r, G_Shutdown) # ys" and "(a, r', x) \<in> set ys"
  shows "x = G_Shutdown"
  using assms(1) [unfolded quiet_def, rule_format, OF assms(2) assms(3)] .

lemma quiet_snoc:
  assumes "quiet l" and "x = G_Shutdown \<or> \<not> shut l a"
  shows "quiet (l @ [(a, r, x)])"
  unfolding quiet_def
proof (intro allI impI)
  fix xs a1 r1 ys r' y
  assume e: "l @ [(a, r, x)] = xs @ (a1, r1, G_Shutdown) # ys" and y: "(a1, r', y) \<in> set ys"
  then obtain zs where ys: "ys = zs @ [(a, r, x)]" "l = xs @ (a1, r1, G_Shutdown) # zs"
    by (cases ys rule: rev_cases) auto
  show "y = G_Shutdown"
  proof (cases "(a1, r', y) \<in> set zs")
    case True
    then show ?thesis using assms(1) ys(2) unfolding quiet_def by blast
  next
    case False
    then have "a1 = a" "y = x" using y ys(1) by auto
    moreover have "shut l a1" using ys(2) by (auto simp: shut_def)
    ultimately show ?thesis using assms(2) by auto
  qed
qed

definition svc_inv :: "(u32 \<Rightarrow> bool) \<Rightarrow> service \<Rightarrow> bool" where
  "svc_inv allowed s \<longleftrightarrow>
     length (sv_conns s) \<le> MAX_CONNECTIONS \<and>
     (\<forall>cid c. hm_get (sv_conns s) cid = Some c \<longrightarrow> allowed (uc_pid c)) \<and>
     quiet (br_log (sv_broker s)) \<and>
     fst ` set (br_log (sv_broker s)) \<subseteq> set (sv_agents s) \<and>
     (\<forall>g. br_grant (sv_broker s) = Some g \<longrightarrow>
        length (gr_label g) \<le> 64 \<and> gr_agent g \<in> set (sv_agents s) \<and> gr_token g \<in> set (sv_tokens s) \<and>
        \<not> shut (br_log (sv_broker s)) (gr_agent g) \<and>
        (\<exists>cid c. hm_get (sv_conns s) cid = Some c \<and> uc_owner c \<and> uc_pid c = gr_owner_pid g))"

text \<open>The log part, for every kind of change.\<close>

definition log_inv :: "broker \<Rightarrow> agent list \<Rightarrow> token list \<Rightarrow> bool" where
  "log_inv b as ts \<longleftrightarrow> quiet (br_log b) \<and> fst ` set (br_log b) \<subseteq> set as \<and>
     (\<forall>g. br_grant b = Some g \<longrightarrow> length (gr_label g) \<le> 64 \<and> gr_agent g \<in> set as \<and> gr_token g \<in> set ts \<and>
        \<not> shut (br_log b) (gr_agent g))"

lemma log_inv_mono: "log_inv b as ts \<Longrightarrow> set as \<subseteq> set as' \<Longrightarrow> set ts \<subseteq> set ts' \<Longrightarrow> log_inv b as' ts'"
  unfolding log_inv_def by blast

lemma log_inv_ends:
  assumes "log_inv b as ts" and "ends b b1"
  shows "log_inv b1 as ts"
proof -
  obtain g where g: "br_grant b = Some g" "br_grant b1 = None"
      "br_log b1 = (br_log b @ [(gr_agent g, Role_Input, G_Shutdown)]) @ [(gr_agent g, Role_Video, G_Shutdown)]"
    using assms(2) by (auto simp: ends_def)
  have "quiet (br_log b1)"
    unfolding g(3) using assms(1) by (intro quiet_snoc) (auto simp: log_inv_def)
  then show ?thesis using assms(1) g by (auto simp: log_inv_def)
qed

lemma log_inv_drives:
  assumes "log_inv b as ts" and "drives b b1"
  shows "log_inv b1 as ts"
proof -
  obtain g r x where g: "br_grant b = Some g" "br_grant b1 = Some g" "x \<noteq> G_Shutdown"
      "br_log b1 = br_log b @ [(gr_agent g, r, x)]"
    using assms(2) by (auto simp: drives_def)
  have "quiet (br_log b1)"
    unfolding g(4) using assms(1) g(1) by (intro quiet_snoc) (auto simp: log_inv_def)
  then show ?thesis using assms(1) g by (auto simp: log_inv_def shut_def)
qed

lemma log_inv_beats:
  assumes "log_inv b as ts" and "beats b b1"
  shows "log_inv b1 as ts"
proof -
  obtain g t where "br_grant b = Some g" "br_grant b1 = Some (g\<lparr>gr_last_beat := t\<rparr>)" "br_log b1 = br_log b"
    using assms(2) by (auto simp: beats_def)
  then show ?thesis using assms(1) unfolding log_inv_def by simp
qed

lemma log_inv_begins:
  assumes "log_inv b as ts" and "begins b b1 g" and "gr_agent g \<notin> set as" and "length (gr_label g) \<le> 64"
  shows "log_inv b1 (gr_agent g # as) (gr_token g # ts)"
proof -
  have "\<not> shut (br_log b) (gr_agent g)" using assms(1,3) by (force simp: log_inv_def shut_def)
  then show ?thesis using assms by (auto simp: log_inv_def begins_def)
qed

definition conn_inv :: "(u32 \<Rightarrow> bool) \<Rightarrow> broker \<Rightarrow> (nat, ui_conn) hmap \<Rightarrow> bool" where
  "conn_inv allowed b cs \<longleftrightarrow>
     length cs \<le> MAX_CONNECTIONS \<and> (\<forall>cid c. hm_get cs cid = Some c \<longrightarrow> allowed (uc_pid c)) \<and>
     (\<forall>g. br_grant b = Some g \<longrightarrow> (\<exists>cid c. hm_get cs cid = Some c \<and> uc_owner c \<and> uc_pid c = gr_owner_pid g))"

lemma svc_inv_split: "svc_inv allowed s \<longleftrightarrow>
    log_inv (sv_broker s) (sv_agents s) (sv_tokens s) \<and> conn_inv allowed (sv_broker s) (sv_conns s)"
  by (auto simp: svc_inv_def log_inv_def conn_inv_def)

lemma conn_inv_ends: "conn_inv allowed b cs \<Longrightarrow> ends b b1 \<Longrightarrow> conn_inv allowed b1 cs"
  by (auto simp: conn_inv_def ends_def)

lemma conn_inv_close:
  assumes "conn_inv allowed b cs" and "hm_get cs cid = Some c"
  shows "conn_inv allowed (client_closed b c) (hm_remove cid cs)"
proof -
  have len: "length (hm_remove cid cs) \<le> MAX_CONNECTIONS"
    using assms(1) unfolding conn_inv_def by (meson length_hm_remove_le le_trans)
  have own: "\<exists>cid' c'. hm_get (hm_remove cid cs) cid' = Some c' \<and> uc_owner c' \<and> uc_pid c' = gr_owner_pid g"
    if g: "br_grant (client_closed b c) = Some g" for g
  proof -
    have b: "br_grant b = Some g" "uc_owner c \<Longrightarrow> gr_owner_pid g \<noteq> uc_pid c"
      using g owner_gone_cases [of b "uc_pid c"] by (auto simp: client_closed_def ends_def split: if_splits)
    obtain cid' c' where c': "hm_get cs cid' = Some c'" "uc_owner c'" "uc_pid c' = gr_owner_pid g"
      using assms(1) b(1) by (auto simp: conn_inv_def)
    then have "cid' \<noteq> cid" using assms(2) b(2) by auto
    then show ?thesis using c' by (intro exI [of _ cid'] exI [of _ c']) simp
  qed
  show ?thesis using assms(1) len own by (auto simp: conn_inv_def split: if_splits)
qed

lemma log_inv_close: "log_inv b as ts \<Longrightarrow> log_inv (client_closed b c) as ts"
  using owner_gone_cases [of b "uc_pid c"] by (auto simp: client_closed_def intro: log_inv_ends)

text \<open>A request, before the connection table is updated.\<close>

lemma request_inv:
  assumes inv: "log_inv b as ts" "conn_inv allowed b cs" and c: "hm_get cs cid = Some c"
    and req: "client_request b c m e = (r, c1, b1)"
    and fresh: "\<forall>a. su_started e = Some a \<longrightarrow> a \<notin> set as" "su_token e \<notin> set ts"
  shows "log_inv b1 (case su_started e of Some a \<Rightarrow> a # as | None \<Rightarrow> as) (su_token e # ts) \<and>
    conn_inv allowed b1 (hm_insert cid c1 cs)"
proof -
  note cs = client_request_cases [OF req]
  have sub: "set as \<subseteq> set (case su_started e of Some a \<Rightarrow> a # as | None \<Rightarrow> as)" "set ts \<subseteq> set (su_token e # ts)"
    by (auto split: option.split)
  have base: "length (hm_insert cid c1 cs) \<le> MAX_CONNECTIONS"
      "\<forall>k x. hm_get (hm_insert cid c1 cs) k = Some x \<longrightarrow> allowed (uc_pid x)"
    using inv(2) c cs by (auto simp: conn_inv_def length_hm_insert_present)
  have keep: "\<exists>k x. hm_get (hm_insert cid c1 cs) k = Some x \<and> uc_owner x \<and> uc_pid x = gr_owner_pid g"
    if g: "br_grant b = Some g" "uc_owner c \<longrightarrow> uc_owner c1" for g
  proof -
    obtain k x where k: "hm_get cs k = Some x" "uc_owner x" "uc_pid x = gr_owner_pid g"
      using inv(2) g(1) by (auto simp: conn_inv_def)
    then show ?thesis using c cs g(2)
      by (cases "k = cid") (auto intro: exI [of _ k] exI [of _ x])
  qed
  consider (same) "b1 = b" "uc_owner c1 = uc_owner c" | (ends) "ends b b1"
    | (beats) "beats b b1" "uc_owner c1 = uc_owner c" | (drives) "drives b b1" "c1 = c"
    | (begins) a label where "begins b b1 \<lparr>gr_token = su_token e, gr_owner_pid = uc_pid c, gr_label = take 64 label,
          gr_last_beat = su_now e, gr_agent = a\<rparr>" "su_started e = Some a" "uc_owner c1"
    using cs by blast
  then show ?thesis
  proof cases
    case same
    then show ?thesis using log_inv_mono [OF inv(1) sub] base keep by (auto simp: conn_inv_def)
  next
    case ends
    then show ?thesis using log_inv_mono [OF log_inv_ends [OF inv(1) ends] sub] base
      by (auto simp: conn_inv_def ends_def)
  next
    case beats
    then obtain g t where g: "br_grant b = Some g" "br_grant b1 = Some (g\<lparr>gr_last_beat := t\<rparr>)"
      by (auto simp: beats_def)
    have "\<exists>k x. hm_get (hm_insert cid c1 cs) k = Some x \<and> uc_owner x \<and> uc_pid x = gr_owner_pid g"
      using keep [OF g(1)] beats(2) by blast
    then have "conn_inv allowed b1 (hm_insert cid c1 cs)"
      using base unfolding conn_inv_def g(2) by simp
    then show ?thesis using log_inv_mono [OF log_inv_beats [OF inv(1) beats(1)] sub] by blast
  next
    case drives
    then obtain g where g: "br_grant b = Some g" "br_grant b1 = Some g" by (auto simp: drives_def)
    have "\<exists>k x. hm_get (hm_insert cid c1 cs) k = Some x \<and> uc_owner x \<and> uc_pid x = gr_owner_pid g"
      using keep [OF g(1)] drives(2) by blast
    then have "conn_inv allowed b1 (hm_insert cid c1 cs)"
      using base unfolding conn_inv_def g(2) by simp
    then show ?thesis using log_inv_mono [OF log_inv_drives [OF inv(1) drives(1)] sub] by blast
  next
    case begins
    then have "log_inv b1 (a # as) (su_token e # ts)"
      using log_inv_begins [OF inv(1) begins(1)] fresh by simp
    moreover have "conn_inv allowed b1 (hm_insert cid c1 cs)"
      unfolding conn_inv_def
    proof (intro conjI allI impI)
      fix g assume "br_grant b1 = Some g"
      then have "gr_owner_pid g = uc_pid c" using begins(1) by (auto simp: begins_def)
      then show "\<exists>k x. hm_get (hm_insert cid c1 cs) k = Some x \<and> uc_owner x \<and> uc_pid x = gr_owner_pid g"
        using cs begins(3) by (intro exI [of _ cid] exI [of _ c1]) simp
    qed (use base in blast)+
    ultimately show ?thesis using begins(2) by simp
  qed
qed

lemma svc_inv_apply:
  assumes inv: "svc_inv allowed s" and ok: "svc_ok allowed s x"
  shows "svc_inv allowed (svc_apply s x)"
proof (cases x)
  case (V_accept cid pid)
  show ?thesis
  proof (cases "length (sv_conns s) \<ge> MAX_CONNECTIONS")
    case True
    then show ?thesis using inv V_accept by simp
  next
    case False
    let ?c = "\<lparr>uc_pid = pid, uc_token = None, uc_owner = False\<rparr>"
    have fresh: "hm_get (sv_conns s) cid = None" "allowed pid" using ok V_accept by simp_all
    have "\<exists>k c. hm_get (hm_insert cid ?c (sv_conns s)) k = Some c \<and> uc_owner c \<and> uc_pid c = gr_owner_pid g"
      if g: "br_grant (sv_broker s) = Some g" for g
    proof -
      obtain k c where k: "hm_get (sv_conns s) k = Some c" "uc_owner c" "uc_pid c = gr_owner_pid g"
        using inv g by (auto simp: svc_inv_def)
      then have "k \<noteq> cid" using fresh by auto
      then show ?thesis using k by (intro exI [of _ k] exI [of _ c]) simp
    qed
    then show ?thesis using inv fresh False V_accept
      by (auto simp: svc_inv_split conn_inv_def length_hm_insert_fresh)
  qed
next
  case (V_request cid m e)
  show ?thesis
  proof (cases "hm_get (sv_conns s) cid")
    case None
    then show ?thesis using inv V_request by simp
  next
    case (Some c)
    obtain r c1 b1 where req: "client_request (sv_broker s) c m e = (r, c1, b1)" by (metis prod_cases3)
    have li: "log_inv (sv_broker s) (sv_agents s) (sv_tokens s)" and ci: "conn_inv allowed (sv_broker s) (sv_conns s)"
      using inv by (simp_all add: svc_inv_split)
    have fr: "\<forall>a. su_started e = Some a \<longrightarrow> a \<notin> set (sv_agents s)" "su_token e \<notin> set (sv_tokens s)"
      using ok V_request by simp_all
    note i = conjunct1 [OF request_inv [OF li ci Some req fr]] conjunct2 [OF request_inv [OF li ci Some req fr]]
    show ?thesis
    proof (cases r)
      case (Answer ans)
      then show ?thesis using V_request Some req i by (simp add: svc_inv_split)
    next
      case Close_conn
      have "conn_inv allowed (client_closed b1 c1) (hm_remove cid (hm_insert cid c1 (sv_conns s)))"
        by (rule conn_inv_close [OF i(2)]) simp
      moreover have "hm_remove cid (hm_insert cid c1 (sv_conns s)) = hm_remove cid (sv_conns s)"
        by (simp add: hm_remove_insert)
      ultimately show ?thesis using V_request Some req Close_conn log_inv_close [OF i(1)]
        by (simp add: svc_inv_split svc_close_def)
    qed
  qed
next
  case (V_close cid)
  then show ?thesis using inv
    by (auto simp: svc_inv_split svc_close_def log_inv_close conn_inv_close split: option.split)
next
  case (V_sweep alive now)
  then show ?thesis using inv sweep_cases [of "sv_broker s" alive now]
    by (auto simp: svc_inv_split intro: log_inv_ends conn_inv_ends)
qed

interpretation svc_sys: invariant_system svc_init "svc_step allowed" "svc_inv allowed"
proof
  show "svc_init s \<Longrightarrow> svc_inv allowed s" for s
    by (simp add: svc_init_def svc_new_def svc_inv_def broker_new_def)
  show "svc_inv allowed t" if "svc_inv allowed s" and "svc_step allowed s t" for s t
    using that(2,1) by (auto elim!: svc_stepE intro: svc_inv_apply)
qed

section \<open>Provenance and lapse\<close>

lemma svc_reach_inv: "svc_reachable allowed s \<Longrightarrow> svc_inv allowed s"
  by (rule svc_sys.reach_inv)

lemma client_closed_log:
  assumes "br_log (client_closed b c) = br_log b @ new" and "(a, r, y) \<in> set new"
  shows "y = G_Shutdown"
  using assms owner_gone_cases [of b "uc_pid c"] by (auto simp: client_closed_def ends_def split: if_splits)

lemma drives_inject:
  assumes "client_request b c m e = (r, c1, b1)" and "br_log b1 = br_log b @ [(a, ro, G_Inject ev d)]"
  shows "m = U_Input ev d"
  using assms client_request_cases [OF assms(1)]
  by (cases m)
    (auto simp: client_request_def broker_grant_def grant_commit_def agent_shutdown_def agent_write_def
      broker_revoke_def end_grant_def broker_heartbeat_def inject_def capture_def broker_status_def Let_def
      split: option.splits sum.splits prod.splits if_splits)

lemma client_closed_grows: "\<exists>new. br_log (client_closed b c) = br_log b @ new"
  using owner_gone_cases [of b "uc_pid c"] by (auto simp: client_closed_def ends_def)

text \<open>The grant with token \<open>t\<close>, if it is live, had its last heartbeat at \<open>t0\<close>.\<close>

definition beat_at :: "service \<Rightarrow> token \<Rightarrow> instant \<Rightarrow> bool" where
  "beat_at s t t0 \<longleftrightarrow> t \<in> set (sv_tokens s) \<and>
     (\<forall>g. br_grant (sv_broker s) = Some g \<and> gr_token g = t \<longrightarrow> gr_last_beat g = t0)"

fun silent :: "svc_event \<Rightarrow> bool" where
  "silent (V_request cid m e) = (m \<noteq> U_Heartbeat)"
| "silent _ = True"

lemma closed_grant: "br_grant (client_closed b c) = Some g \<Longrightarrow> br_grant b = Some g"
  using owner_gone_cases [of b "uc_pid c"] by (auto simp: client_closed_def ends_def split: if_splits)

lemma beat_at_step:
  assumes "beat_at s t t0" and "svc_ok allowed s x" and "silent x"
  shows "beat_at (svc_apply s x) t t0"
proof (cases x)
  case (V_request cid m e)
  show ?thesis
  proof (cases "hm_get (sv_conns s) cid")
    case None
    then show ?thesis using assms(1) V_request by simp
  next
    case (Some c)
    obtain r c1 b1 where req: "client_request (sv_broker s) c m e = (r, c1, b1)" by (metis prod_cases3)
    have g: "gr_last_beat g = t0" if "br_grant b1 = Some g" "gr_token g = t" for g
      using client_request_cases [OF req] assms that V_request
      by (auto simp: beat_at_def ends_def drives_def begins_def)
    show ?thesis
      using V_request Some req assms(1) g closed_grant [of b1 c1]
      by (cases r) (auto simp: beat_at_def svc_close_def)
  qed
next
  case (V_close cid)
  show ?thesis
  proof (cases "hm_get (sv_conns s) cid")
    case None
    then show ?thesis using assms(1) V_close by simp
  next
    case (Some c)
    have "gr_last_beat g = t0" if "br_grant (client_closed (sv_broker s) c) = Some g" "gr_token g = t" for g
      using closed_grant [OF that(1)] that(2) assms(1) by (simp add: beat_at_def)
    then show ?thesis using assms(1) V_close Some by (simp add: beat_at_def svc_close_def)
  qed
next
  case (V_sweep alive now)
  then show ?thesis using assms(1) sweep_cases [of "sv_broker s" alive now]
    by (auto simp: beat_at_def ends_def)
qed (use assms(1) in \<open>simp add: beat_at_def\<close>)

fun svc_run :: "service \<Rightarrow> svc_event list \<Rightarrow> service" where
  "svc_run s [] = s"
| "svc_run s (x # xs) = svc_run (svc_apply s x) xs"

fun svc_events_ok :: "(u32 \<Rightarrow> bool) \<Rightarrow> service \<Rightarrow> svc_event list \<Rightarrow> bool" where
  "svc_events_ok allowed s [] = True"
| "svc_events_ok allowed s (x # xs) = (svc_ok allowed s x \<and> svc_events_ok allowed (svc_apply s x) xs)"

lemma beat_at_run:
  "beat_at s t t0 \<Longrightarrow> svc_events_ok allowed s xs \<Longrightarrow> \<forall>x \<in> set xs. silent x \<Longrightarrow> beat_at (svc_run s xs) t t0"
  by (induction xs arbitrary: s) (auto intro: beat_at_step)

lemma svc_reach_run:
  "svc_reachable allowed s \<Longrightarrow> svc_events_ok allowed s xs \<Longrightarrow> svc_reachable allowed (svc_run s xs)"
  by (induction xs arbitrary: s) (auto intro: reach_step svc_event)

lemma svc_reach_new: "svc_reachable allowed svc_new"
  by (rule reach_init) (simp add: svc_init_def)

section \<open>A concrete service for the witnesses\<close>

definition demo_env :: surroundings where
  "demo_env = \<lparr>su_now = 100, su_protected = True, su_started = Some 7, su_token = [1, 2], su_wrote = True,
     su_answer = None\<rparr>"

definition demo_display :: display_info where
  "demo_display = \<lparr>d_index = 0, d_name = [], d_width = 1920, d_height = 1080, d_x = 0, d_y = 0, d_primary = True\<rparr>"

definition demo_granted :: service where
  "demo_granted = svc_run svc_new [V_accept 0 42, V_request 0 (U_Grant (lit ''v'')) demo_env]"

lemma demo_granted_eq:
  "demo_granted = \<lparr>sv_broker = \<lparr>br_grant = Some \<lparr>gr_token = [1, 2], gr_owner_pid = 42, gr_label = [118],
       gr_last_beat = 100, gr_agent = 7\<rparr>, br_log = [], br_killed = []\<rparr>,
     sv_conns = [(0, \<lparr>uc_pid = 42, uc_token = Some [1, 2], uc_owner = True\<rparr>)],
     sv_agents = [7], sv_tokens = [[1, 2]]\<rparr>"
  by (simp add: demo_granted_def svc_new_def MAX_CONNECTIONS_def hm_insert_def hm_get_def client_request_def
      demo_env_def broker_grant_def grant_commit_def broker_new_def utf8_len_def)

lemma demo_granted_reach: "svc_reachable (\<lambda>pid. pid = 42) demo_granted"
  unfolding demo_granted_def by (rule svc_reach_run [OF svc_reach_new]) (simp add: svc_new_def)

section \<open>Properties\<close>

text \<open>
  C14. A grant never outlives its owner: in every reachable state a live grant belongs to an admitted
  process with an open connection that asked for it, at most eight connections are open, and the
  label shown is at most 64 characters.
\<close>

theorem grant_has_live_owner:
  assumes "svc_reachable allowed s" and "br_grant (sv_broker s) = Some g"
  shows "length (sv_conns s) \<le> MAX_CONNECTIONS \<and> length (gr_label g) \<le> 64 \<and>
    (\<exists>cid c. hm_get (sv_conns s) cid = Some c \<and> uc_owner c \<and> uc_pid c = gr_owner_pid g \<and> allowed (uc_pid c))"
  using svc_reach_inv [OF assms(1)] assms(2) unfolding svc_inv_def by blast

theorem grant_has_live_owner_witness:
  "\<exists>c. hm_get (sv_conns demo_granted) 0 = Some c \<and> uc_owner c \<and> uc_pid c = 42"
proof -
  obtain g where g: "br_grant (sv_broker demo_granted) = Some g" by (simp add: demo_granted_eq)
  have "\<exists>cid c. hm_get (sv_conns demo_granted) cid = Some c \<and> uc_owner c \<and> uc_pid c = gr_owner_pid g \<and> uc_pid c = 42"
    using grant_has_live_owner [OF demo_granted_reach g] by blast
  then show ?thesis by (auto simp: demo_granted_eq hm_get_def split: if_splits)
qed

text \<open>
  C15. An elevated agent is driven only by the owner of the live grant: whatever event writes a
  message other than the shutdown to an agent, it is a validated request on an open connection of
  an admitted process that holds the token of the live grant, made for this process, and an
  injected event is exactly the one requested.
\<close>

theorem agent_driven_only_by_owner:
  assumes "svc_reachable allowed s" and "br_log (sv_broker (svc_apply s x)) = br_log (sv_broker s) @ new"
    and "(a, r, y) \<in> set new" and "y \<noteq> G_Shutdown"
  shows "\<exists>cid m e c g. x = V_request cid m e \<and> validate_ui m = Inr () \<and>
    hm_get (sv_conns s) cid = Some c \<and> allowed (uc_pid c) \<and>
    br_grant (sv_broker s) = Some g \<and> gr_agent g = a \<and> gr_owner_pid g = uc_pid c \<and> uc_token c = Some (gr_token g) \<and>
    (\<forall>ev d. y = G_Inject ev d \<longrightarrow> m = U_Input ev d)"
proof (cases x)
  case (V_request cid m e)
  obtain c where c: "hm_get (sv_conns s) cid = Some c"
    using assms(2,3) V_request by (cases "hm_get (sv_conns s) cid") auto
  obtain rr c1 b1 where req: "client_request (sv_broker s) c m e = (rr, c1, b1)" by (metis prod_cases3)
  have al: "allowed (uc_pid c)" using svc_reach_inv [OF assms(1)] c by (simp add: svc_inv_def)
  have sb: "sv_broker (svc_apply s x) = b1 \<or> sv_broker (svc_apply s x) = client_closed b1 c1"
    using V_request c req by (cases rr) (simp_all add: svc_close_def)
  obtain mid where mid: "br_log b1 = br_log (sv_broker s) @ mid"
    using client_request_cases [OF req] by (auto simp: ends_def drives_def begins_def beats_def)
  have "(a, r, y) \<in> set mid"
  proof -
    obtain tail where t: "br_log (client_closed b1 c1) = br_log b1 @ tail" using client_closed_grows by blast
    then have "new = mid \<or> new = mid @ tail" using sb assms(2) mid by auto
    then show ?thesis using assms(3,4) client_closed_log [OF t] by auto
  qed
  then have dr: "drives (sv_broker s) b1" "validate_ui m = Inr ()"
      "\<exists>g. br_grant (sv_broker s) = Some g \<and> gr_owner_pid g = uc_pid c \<and> uc_token c = Some (gr_token g)"
    using client_request_cases [OF req] mid assms(4) by (auto simp: ends_def begins_def beats_def)
  then obtain g where g: "br_grant (sv_broker s) = Some g" "gr_owner_pid g = uc_pid c" "uc_token c = Some (gr_token g)"
    by blast
  have m1: "mid = [(a, r, y)]" "a = gr_agent g"
    using dr(1) mid \<open>(a, r, y) \<in> set mid\<close> g(1) by (auto simp: drives_def)
  have "\<forall>ev d. y = G_Inject ev d \<longrightarrow> m = U_Input ev d"
    using drives_inject [OF req] mid m1(1) by auto
  then show ?thesis using V_request dr(2) c al g m1(2) by blast
next
  case (V_close cid)
  then show ?thesis using assms client_closed_log
    by (auto simp: svc_close_def split: option.splits)
next
  case (V_sweep alive now)
  then show ?thesis using assms sweep_cases [of "sv_broker s" alive now] by (auto simp: ends_def)
next
  case (V_accept cid pid)
  then show ?thesis using assms by (auto split: if_splits)
qed

theorem agent_driven_only_by_owner_witness:
  "\<exists>c g. hm_get (sv_conns demo_granted) 0 = Some c \<and> br_grant (sv_broker demo_granted) = Some g \<and>
    gr_agent g = 7 \<and> uc_token c = Some (gr_token g)"
proof -
  let ?x = "V_request 0 (U_Input (Key 30 False True) demo_display) (demo_env\<lparr>su_started := None, su_token := [3]\<rparr>)"
  have l: "br_log (sv_broker (svc_apply demo_granted ?x)) = br_log (sv_broker demo_granted) @
      [(7, Role_Input, G_Inject (Key 30 False True) demo_display)]"
    by (simp add: demo_granted_eq hm_get_def client_request_def inject_def current_def agent_write_def
        demo_env_def demo_display_def check_display_def MAX_DIMENSION_def denied_def)
  show ?thesis
    using agent_driven_only_by_owner [OF demo_granted_reach l, of 7 Role_Input "G_Inject (Key 30 False True) demo_display"]
    by auto
qed

text \<open>
  Nothing reaches an agent after its shutdown: in the log of every reachable state, once
  \<open>Shutdown\<close> was written to an agent, only \<open>Shutdown\<close> follows for it.
\<close>

theorem nothing_after_shutdown:
  assumes "svc_reachable allowed s" and "br_log (sv_broker s) = before @ (a, r, G_Shutdown) # after"
    and "(a, r', m) \<in> set after"
  shows "m = G_Shutdown"
proof -
  have "quiet (br_log (sv_broker s))" using svc_reach_inv [OF assms(1)] by (simp add: svc_inv_def)
  then show ?thesis using assms(2,3) by (rule quietD)
qed

theorem nothing_after_shutdown_witness:
  "\<exists>after. br_log (sv_broker (svc_run demo_granted [V_close 0])) = [] @ (7, Role_Input, G_Shutdown) # after \<and>
    (\<forall>r m. (7, r, m) \<in> set after \<longrightarrow> m = G_Shutdown)"
proof -
  have r: "svc_reachable (\<lambda>pid. pid = 42) (svc_run demo_granted [V_close 0])"
    by (rule svc_reach_run [OF demo_granted_reach]) simp
  have l: "br_log (sv_broker (svc_run demo_granted [V_close 0])) =
      [] @ (7, Role_Input, G_Shutdown) # [(7, Role_Video, G_Shutdown)]"
    by (simp add: demo_granted_eq hm_get_def svc_close_def client_closed_def owner_gone_def end_grant_def
        agent_shutdown_def agent_write_def Let_def)
  show ?thesis using nothing_after_shutdown [OF r l] l by blast
qed

text \<open>
  C16. A grant lapses without heartbeats: if after its last heartbeat at \<open>t0\<close> any events other than
  heartbeats happen and then the watchdog looks more than 10 seconds later, the grant with that
  token is gone.
\<close>

theorem grant_lapses:
  assumes "svc_reachable allowed s" and "br_grant (sv_broker s) = Some g"
    and "svc_events_ok allowed s xs" and "\<forall>x \<in> set xs. silent x"
    and "gr_last_beat g + secs GRANT_LAPSE_SECS < now"
    and "br_grant (sv_broker (svc_apply (svc_run s xs) (V_sweep alive now))) = Some g'"
  shows "gr_token g' \<noteq> gr_token g"
proof
  assume tok: "gr_token g' = gr_token g"
  have "beat_at s (gr_token g) (gr_last_beat g)"
    using svc_reach_inv [OF assms(1)] assms(2) by (simp add: svc_inv_def beat_at_def)
  from beat_at_run [OF this assms(3,4)] have b: "beat_at (svc_run s xs) (gr_token g) (gr_last_beat g)" .
  show False
    using b assms(5,6) tok sweep_cases [of "sv_broker (svc_run s xs)" alive now]
    by (auto simp: beat_at_def broker_sweep_def grant_dead_def end_grant_def agent_shutdown_def agent_write_def
        Let_def split: option.splits if_splits)
qed

theorem grant_lapses_witness:
  "br_grant (sv_broker (svc_apply (svc_run demo_granted [V_accept 1 42]) (V_sweep (\<lambda>_. True) 10000000101))) = None"
proof (cases "br_grant (sv_broker (svc_apply (svc_run demo_granted [V_accept 1 42]) (V_sweep (\<lambda>_. True) 10000000101)))")
  case (Some g')
  obtain g where g: "br_grant (sv_broker demo_granted) = Some g" "gr_last_beat g = 100" "gr_token g = [1, 2]"
    by (simp add: demo_granted_eq)
  have "gr_token g' \<noteq> gr_token g"
    by (rule grant_lapses [OF demo_granted_reach g(1) _ _ _ Some])
      (simp_all add: g(2) secs_def GRANT_LAPSE_SECS_def demo_granted_eq hm_get_def)
  moreover have "br_grant (sv_broker (svc_run demo_granted [V_accept 1 42])) = Some g"
    using g by (simp add: demo_granted_eq MAX_CONNECTIONS_def)
  ultimately show ?thesis
    using Some sweep_cases [of "sv_broker (svc_run demo_granted [V_accept 1 42])" "\<lambda>_. True" 10000000101]
    by (auto simp: ends_def)
qed simp

section \<open>What goes wrong\<close>

text \<open>
  A connection stays "owner" after it revoked its grant; when it closes later it ends whatever
  grant its process holds by then, here a newer one obtained on another connection.
\<close>

lemma old_owner_ends_newer_grant:
  "let s1 = svc_run demo_granted [V_request 0 U_Revoke (demo_env\<lparr>su_started := None, su_token := [3]\<rparr>),
         V_accept 1 42, V_request 1 (U_Grant (lit ''w'')) (demo_env\<lparr>su_started := Some 8, su_token := [4]\<rparr>)]
   in map_option gr_token (br_grant (sv_broker s1)) = Some [4] \<and>
      br_grant (sv_broker (svc_apply s1 (V_close 0))) = None"
  by (simp add: demo_granted_eq hm_get_def hm_insert_def hm_remove_def client_request_def broker_revoke_def
      current_def end_grant_def agent_shutdown_def agent_write_def demo_env_def broker_grant_def
      grant_commit_def MAX_CONNECTIONS_def svc_close_def client_closed_def owner_gone_def Let_def
      utf8_len_def)

text \<open>
  The protected-directory check compares path prefixes as strings: a sibling directory whose name
  merely starts like the program directory passes.
\<close>

lemma sibling_directory_is_protected:
  "install_is_protected \<lparr>bc_allowed_ui = [], bc_exe_dir = lit ''c:/program files-x'', bc_enforce_console = True,
     bc_require_protected = True\<rparr> (map ascii_lower) [lit ''C:/Program Files'']"
  by (simp add: install_is_protected_def ascii_lower_def)

end
