(* ===== verification/Files.thy ===== *)
theory Files
  imports Ids
begin

text \<open>
  The file-transfer primitives of \<open>crates/files/src/lib.rs\<close>: which peer-supplied names are accepted,
  where an incoming file is written, and the resumable, hash-verified ends of a transfer.

  A path is the list of its components. The file system is what \<open>std::fs\<close> shows of it: directories,
  names bound to files, and the files' contents, so that an open handle keeps its file when the name
  is renamed or removed, as it does on the real system. Names are compared exactly. SHA-256 is the parameter
  \<open>sha\<close>. An I/O failure that depends on more than this state (disk full, access denied) is an
  argument of the operation that can meet it.
\<close>

section \<open>Names\<close>

type_synonym path = "rstr list"

definition CHUNK :: nat where
  "CHUNK = 64 * 1024"

definition DEFAULT_MAX_FILE :: u64 where
  "DEFAULT_MAX_FILE = push_bit 40 1"

datatype file_error = Bad_Name | File_Too_Large | Out_Of_Order | File_Io

definition RESERVED :: "rstr list" where
  "RESERVED = map lit
     [''CON'', ''PRN'', ''AUX'', ''NUL'', ''COM1'', ''COM2'', ''COM3'', ''COM4'', ''COM5'', ''COM6'',
      ''COM7'', ''COM8'', ''COM9'', ''LPT1'', ''LPT2'', ''LPT3'', ''LPT4'', ''LPT5'', ''LPT6'',
      ''LPT7'', ''LPT8'', ''LPT9'']"

text \<open>\<open>str::split\<close> on one character: one more piece than separators.\<close>

fun split_on :: "uchar \<Rightarrow> rstr \<Rightarrow> rstr list" where
  "split_on c [] = [[]]"
| "split_on c (x # xs) =
     (if x = c then [] # split_on c xs
      else (case split_on c xs of [] \<Rightarrow> [[x]] | p # ps \<Rightarrow> (x # p) # ps))"

fun join_with :: "uchar \<Rightarrow> rstr list \<Rightarrow> rstr" where
  "join_with c [] = []"
| "join_with c [p] = p"
| "join_with c (p # ps) = p @ c # join_with c ps"

definition ascii_upper :: "uchar \<Rightarrow> uchar" where
  "ascii_upper c = (if 97 \<le> c \<and> c \<le> 122 then c - 32 else c)"

definition forbidden_char :: "uchar \<Rightarrow> bool" where
  "forbidden_char c = (is_control c \<or> c \<in> set (lit ''<>:|?*/'') \<or> c = 34 \<or> c = 92)"

definition valid_component :: "rstr \<Rightarrow> bool" where
  "valid_component c =
     (if c = [] \<or> str_len c > 200 \<or> c = lit ''.'' \<or> c = lit ''..'' then False
      else if last c = 46 \<or> last c = 32 then False
      else if \<exists>ch \<in> set c. forbidden_char ch then False
      else map ascii_upper (hd (split_on 46 c)) \<notin> set RESERVED)"

text \<open>
  After the loop the code checks once more that every component is a plain name
  (\<open>Component::Normal\<close>); a component with a separator, a drive prefix or a dot name is not.
\<close>

definition normal_component :: "rstr \<Rightarrow> bool" where
  "normal_component c = (c \<noteq> [] \<and> c \<noteq> lit ''.'' \<and> c \<noteq> lit ''..'' \<and> 47 \<notin> set c \<and> 92 \<notin> set c \<and> 58 \<notin> set c)"

definition sanitize_relative :: "rstr \<Rightarrow> file_error + path" where
  "sanitize_relative name =
     (if name = [] \<or> str_len name > 1000 \<or> hd name = 47 \<or> 92 \<in> set name then Inl Bad_Name
      else if \<exists>part \<in> set (split_on 47 name). \<not> valid_component part then Inl Bad_Name
      else if \<exists>c \<in> set (split_on 47 name). \<not> normal_component c then Inl Bad_Name
      else Inr (split_on 47 name))"

lemma split_on_not_Nil [simp]: "split_on c s \<noteq> []"
  by (cases s) (auto split: list.split)

lemma join_split [simp]: "join_with c (split_on c s) = s"
proof (induction s)
  case (Cons x xs)
  obtain p ps where "split_on c xs = p # ps" by (meson list.exhaust split_on_not_Nil)
  then show ?case using Cons by (cases ps) simp_all
qed simp

lemma split_no_sep: "p \<in> set (split_on c s) \<Longrightarrow> c \<notin> set p"
  by (induction s arbitrary: p) (auto split: list.splits if_splits)

lemma split_on_plain: "c \<notin> set p \<Longrightarrow> split_on c p = [p]"
  by (induction p) auto

lemma split_on_append: "c \<notin> set p \<Longrightarrow> split_on c (p @ c # s) = p # split_on c s"
  by (induction p) auto

lemma split_join:
  assumes "ps \<noteq> []" and "\<forall>p \<in> set ps. c \<notin> set p"
  shows "split_on c (join_with c ps) = ps"
  using assms
proof (induction ps rule: induct_list012)
  case (3 p q ps)
  then show ?case by (simp add: split_on_append)
qed (simp_all add: split_on_plain)

lemma valid_componentD:
  assumes "valid_component c"
  shows "c \<noteq> []" "str_len c \<le> 200" "c \<noteq> [46]" "c \<noteq> [46, 46]" "last c \<noteq> 46" "last c \<noteq> 32"
    "ch \<in> set c \<Longrightarrow> \<not> forbidden_char ch" "map ascii_upper (hd (split_on 46 c)) \<notin> set RESERVED"
  using assms by (auto simp: valid_component_def split: if_splits)

lemma valid_normal: "valid_component c \<Longrightarrow> normal_component c"
  using valid_componentD(1,3,4) [of c] valid_componentD(7) [of c 47] valid_componentD(7) [of c 92]
    valid_componentD(7) [of c 58]
  by (auto simp: normal_component_def forbidden_char_def)

text \<open>The second check never fails: the first already excludes whatever it would catch.\<close>

lemma sanitize_Inr:
  "sanitize_relative name = Inr p \<longleftrightarrow>
     name \<noteq> [] \<and> str_len name \<le> 1000 \<and> p = split_on 47 name \<and> (\<forall>c \<in> set p. valid_component c)"
proof -
  let ?ps = "split_on 47 name"
  have "hd name \<noteq> 47 \<and> 92 \<notin> set name" if ok: "\<forall>c \<in> set ?ps. valid_component c" and ne: "name \<noteq> []"
  proof
    obtain x xs where n: "name = x # xs" using ne by (cases name) auto
    have "x \<noteq> 47"
    proof
      assume "x = 47"
      then have "[] \<in> set ?ps" using n by simp
      then show False using ok valid_componentD(1) by blast
    qed
    then show "hd name \<noteq> 47" using n by simp
    have sub: "set (join_with 47 ps) \<subseteq> insert 47 (\<Union> (set ` set ps))" for ps
      by (induction ps rule: induct_list012) auto
    have "92 \<notin> set c" if "c \<in> set ?ps" for c
      using that ok valid_componentD(7) [of c 92] by (auto simp: forbidden_char_def)
    then have "92 \<notin> set (join_with 47 ?ps)" using sub [of ?ps] by auto
    then show "92 \<notin> set name" by simp
  qed
  then show ?thesis
    unfolding sanitize_relative_def using valid_normal by (auto simp: not_less split: if_splits)
qed

text \<open>What a path names once dot components are resolved.\<close>

definition resolve :: "path \<Rightarrow> path" where
  "resolve p = foldl (\<lambda>acc c. if c = lit ''.'' then acc else if c = lit ''..'' then butlast acc else acc @ [c]) [] p"

lemma resolve_normal:
  assumes "\<forall>c \<in> set p. normal_component c"
  shows "resolve (dir @ p) = resolve dir @ p"
  using assms unfolding resolve_def
  by (induction p rule: rev_induct) (auto simp: normal_component_def)

definition strictly_inside :: "path \<Rightarrow> path \<Rightarrow> bool" where
  "strictly_inside dir p \<longleftrightarrow> length dir < length p \<and> take (length dir) p = dir"

lemma strictly_inside_append [simp]: "strictly_inside dir (dir @ p) \<longleftrightarrow> p \<noteq> []"
  by (auto simp: strictly_inside_def)

text \<open>
  C17. A name the receiver accepts stays inside: resolved against any directory it names something
  strictly below that directory, spelled exactly as offered, with no component that Windows would
  treat as a device, a stream, a drive or another directory.
\<close>

theorem accepted_name_stays_inside:
  assumes "sanitize_relative name = Inr p"
  shows "resolve (dir @ p) = resolve dir @ p \<and> strictly_inside (resolve dir) (resolve (dir @ p)) \<and>
    join_with 47 p = name \<and>
    (\<forall>c \<in> set p. c \<noteq> lit ''..'' \<and> 47 \<notin> set c \<and> 92 \<notin> set c \<and> 58 \<notin> set c \<and>
       map ascii_upper (hd (split_on 46 c)) \<notin> set RESERVED)"
proof -
  have p: "p = split_on 47 name" and v: "\<forall>c \<in> set p. valid_component c"
    using assms by (auto simp: sanitize_Inr)
  have n: "\<forall>c \<in> set p. normal_component c" using v valid_normal by blast
  have "p \<noteq> []" using p by simp
  then have "strictly_inside (resolve dir) (resolve (dir @ p))" by (simp add: resolve_normal [OF n])
  then show ?thesis using resolve_normal [OF n] n v valid_componentD(8)
    by (auto simp: p normal_component_def)
qed

theorem accepted_name_stays_inside_witness:
  "resolve ([lit ''Users'', lit ''Downloads''] @ [lit ''dir'', lit ''file.txt'']) =
     resolve [lit ''Users'', lit ''Downloads''] @ [lit ''dir'', lit ''file.txt'']"
proof -
  have "sanitize_relative (lit ''dir/file.txt'') = Inr [lit ''dir'', lit ''file.txt'']"
    by code_simp
  then show ?thesis using accepted_name_stays_inside by blast
qed

section \<open>The file system\<close>

text \<open>
  \<open>f_names\<close> binds file paths to file numbers, an index into \<open>f_data\<close>; an open handle is a file number.
\<close>

record fsys =
  f_dirs :: "path list"
  f_names :: "(path, nat) hmap"
  f_data :: "u8 list list"

definition is_dir :: "fsys \<Rightarrow> path \<Rightarrow> bool" where
  "is_dir fs p \<longleftrightarrow> p \<in> set (f_dirs fs)"

definition path_exists :: "fsys \<Rightarrow> path \<Rightarrow> bool" where
  "path_exists fs p \<longleftrightarrow> is_dir fs p \<or> hm_contains (f_names fs) p"

definition content :: "fsys \<Rightarrow> nat \<Rightarrow> u8 list" where
  "content fs i = (if i < length (f_data fs) then f_data fs ! i else [])"

definition file_at :: "fsys \<Rightarrow> path \<Rightarrow> u8 list option" where
  "file_at fs p = map_option (content fs) (hm_get (f_names fs) p)"

fun prefixes_of :: "path \<Rightarrow> path list" where
  "prefixes_of [] = [[]]"
| "prefixes_of (c # cs) = [] # map ((#) c) (prefixes_of cs)"

definition create_dir_all :: "fsys \<Rightarrow> path \<Rightarrow> fsys option" where
  "create_dir_all fs p =
     (if \<exists>q \<in> set (prefixes_of p). hm_contains (f_names fs) q then None
      else Some (fs\<lparr>f_dirs := f_dirs fs @ filter (\<lambda>q. \<not> is_dir fs q) (prefixes_of p)\<rparr>))"

definition open_write :: "fsys \<Rightarrow> path \<Rightarrow> bool \<Rightarrow> (nat \<times> fsys) option" where
  "open_write fs p trunc =
     (if is_dir fs p \<or> \<not> is_dir fs (butlast p) then None
      else case hm_get (f_names fs) p of
             Some i \<Rightarrow> Some (i, if trunc then fs\<lparr>f_data := (f_data fs)[i := []]\<rparr> else fs)
           | None \<Rightarrow>
               Some (length (f_data fs),
                     fs\<lparr>f_names := hm_insert p (length (f_data fs)) (f_names fs), f_data := f_data fs @ [[]]\<rparr>))"

definition write_at :: "u8 list \<Rightarrow> nat \<Rightarrow> u8 list \<Rightarrow> u8 list" where
  "write_at bs off d = take off bs @ replicate (off - length bs) 0 @ d @ drop (off + length d) bs"

definition fs_write :: "fsys \<Rightarrow> nat \<Rightarrow> nat \<Rightarrow> u8 list \<Rightarrow> fsys" where
  "fs_write fs i off d = fs\<lparr>f_data := (f_data fs)[i := write_at (content fs i) off d]\<rparr>"

definition remove_file :: "fsys \<Rightarrow> path \<Rightarrow> fsys" where
  "remove_file fs p = fs\<lparr>f_names := hm_remove p (f_names fs)\<rparr>"

text \<open>\<open>rename\<close> replaces an existing file, and fails on a directory.\<close>

definition fs_rename :: "fsys \<Rightarrow> path \<Rightarrow> path \<Rightarrow> fsys option" where
  "fs_rename fs a b =
     (case hm_get (f_names fs) a of
        None \<Rightarrow> None
      | Some i \<Rightarrow>
          if is_dir fs b \<or> \<not> is_dir fs (butlast b) then None
          else Some (fs\<lparr>f_names := hm_insert b i (hm_remove a (f_names fs))\<rparr>))"

section \<open>Where an incoming file goes\<close>

definition part_path :: "path \<Rightarrow> path" where
  "part_path p = (if p = [] then [lit ''.part''] else butlast p @ [last p @ lit ''.part''])"

text \<open>
  \<open>file_stem\<close> and \<open>extension\<close>: the name is cut at its last dot, unless it has none or only a
  leading one.
\<close>

definition rsplit_dot :: "rstr \<Rightarrow> rstr \<times> rstr option" where
  "rsplit_dot name =
     (let pieces = split_on 46 name; before = join_with 46 (butlast pieces)
      in if length pieces = 1 \<or> before = [] then (name, None) else (before, Some (last pieces)))"

definition numbered :: "rstr \<Rightarrow> nat \<Rightarrow> rstr" where
  "numbered name i =
     (case rsplit_dot name of (stem, ext) \<Rightarrow>
        stem @ lit '' ('' @ dec_digits i @ lit '')'' @ (case ext of None \<Rightarrow> [] | Some e \<Rightarrow> 46 # e))"

definition path_free :: "fsys \<Rightarrow> path \<Rightarrow> bool" where
  "path_free fs p \<longleftrightarrow> \<not> path_exists fs p \<and> \<not> path_exists fs (part_path p)"

definition unique_path :: "fsys \<Rightarrow> path \<Rightarrow> path \<Rightarrow> path" where
  "unique_path fs dir rel =
     (let candidate = dir @ rel
      in if path_free fs candidate then candidate
         else case find (path_free fs)
                     (map (\<lambda>i. dir @ butlast rel @ [numbered (last rel) i]) [1..<10000]) of
                Some p \<Rightarrow> p
              | None \<Rightarrow> candidate)"

section \<open>Receiving\<close>

record incoming =
  inc_target :: path
  inc_part :: path
  inc_file :: nat
  inc_expected :: u64
  inc_received :: u64

definition incoming_open ::
  "fsys \<Rightarrow> path \<Rightarrow> rstr \<Rightarrow> u64 \<Rightarrow> u64 \<Rightarrow> bool \<Rightarrow> (file_error + incoming) \<times> fsys" where
  "incoming_open fs dir rel expected maximum resume =
     (if expected > maximum then (Inl File_Too_Large, fs)
      else case sanitize_relative rel of
             Inl e \<Rightarrow> (Inl e, fs)
           | Inr r \<Rightarrow>
               (let target = (if resume then dir @ r else unique_path fs dir r)
                in case create_dir_all fs (butlast target) of
                     None \<Rightarrow> (Inl File_Io, fs)
                   | Some fs1 \<Rightarrow>
                       (let part = part_path target;
                            existing = (if resume
                                        then (case file_at fs1 part of Some b \<Rightarrow> of_nat (length b) | None \<Rightarrow> 0)
                                        else (0 :: u64));
                            existing = (if existing \<le> expected then existing else 0)
                        in case open_write fs1 part (existing = 0) of
                             None \<Rightarrow> (Inl File_Io, fs1)
                           | Some (i, fs2) \<Rightarrow>
                               (Inr \<lparr>inc_target = target, inc_part = part, inc_file = i,
                                     inc_expected = expected, inc_received = existing\<rparr>, fs2))))"

text \<open>\<open>stop = Some k\<close>: the disk fails after \<open>k\<close> bytes of the chunk.\<close>

definition write_chunk ::
  "fsys \<Rightarrow> incoming \<Rightarrow> u64 \<Rightarrow> u8 list \<Rightarrow> nat option \<Rightarrow> (file_error + incoming) \<times> fsys" where
  "write_chunk fs inc offset data stop =
     (if offset \<noteq> inc_received inc \<or> inc_received inc + of_nat (length data) > inc_expected inc
      then (Inl Out_Of_Order, fs)
      else case stop of
             Some k \<Rightarrow> (Inl File_Io, fs_write fs (inc_file inc) (unat offset) (take k data))
           | None \<Rightarrow>
               (Inr (inc\<lparr>inc_received := inc_received inc + of_nat (length data)\<rparr>),
                fs_write fs (inc_file inc) (unat offset) data))"

definition hash_file :: "(u8 list \<Rightarrow> u8 list) \<Rightarrow> fsys \<Rightarrow> path \<Rightarrow> u8 list option" where
  "hash_file sha fs p = map_option sha (file_at fs p)"

text \<open>
  What the disk answers while a transfer is finished: whether the flush, the reading back, the removal of a
  bad part file and the move into place succeed. The result of the removal is not looked at.
\<close>

record finish_env =
  fi_flushed :: bool
  fi_read :: bool
  fi_removed :: bool
  fi_renamed :: bool

definition finish ::
  "(u8 list \<Rightarrow> u8 list) \<Rightarrow> fsys \<Rightarrow> incoming \<Rightarrow> u8 list \<Rightarrow> finish_env \<Rightarrow> (file_error + path) \<times> fsys" where
  "finish sha fs inc sha256 env =
     (if \<not> fi_flushed env then (Inl File_Io, fs)
      else if inc_received inc \<noteq> inc_expected inc then (Inl Out_Of_Order, fs)
      else case (if fi_read env then hash_file sha fs (inc_part inc) else None) of
             None \<Rightarrow> (Inl File_Io, fs)
           | Some digest \<Rightarrow>
               if digest \<noteq> sha256
               then (Inl Bad_Name, if fi_removed env then remove_file fs (inc_part inc) else fs)
               else case (if fi_renamed env then fs_rename fs (inc_part inc) (inc_target inc) else None) of
                      None \<Rightarrow> (Inl File_Io, fs)
                    | Some fs1 \<Rightarrow> (Inr (inc_target inc), fs1))"

definition discard :: "fsys \<Rightarrow> incoming \<Rightarrow> bool \<Rightarrow> fsys" where
  "discard fs inc removed = (if removed then remove_file fs (inc_part inc) else fs)"

section \<open>Sending\<close>

record outfile =
  of_file :: nat
  of_size :: u64
  of_offset :: u64

definition outgoing_open :: "fsys \<Rightarrow> path \<Rightarrow> outfile option" where
  "outgoing_open fs p =
     (case hm_get (f_names fs) p of
        None \<Rightarrow> None
      | Some i \<Rightarrow> Some \<lparr>of_file = i, of_size = of_nat (length (content fs i)), of_offset = 0\<rparr>)"

definition seek_to :: "outfile \<Rightarrow> u64 \<Rightarrow> outfile" where
  "seek_to f offset = f\<lparr>of_offset := offset\<rparr>"

text \<open>A read returns at least one byte and at most a buffer's worth, or nothing at the end: \<open>n\<close>.\<close>

definition next_chunk :: "fsys \<Rightarrow> outfile \<Rightarrow> nat \<Rightarrow> (u64 \<times> u8 list) option \<times> outfile" where
  "next_chunk fs f n =
     (let buf = take (min CHUNK (max 1 n)) (drop (unat (of_offset f)) (content fs (of_file f)))
      in if buf = [] then (None, f)
         else (Some (of_offset f, buf), f\<lparr>of_offset := of_offset f + of_nat (length buf)\<rparr>))"

text \<open>
  \<open>expand_paths\<close>: a directory tree in the order \<open>read_dir\<close> lists it. A folder is walked to depth
  32; what is neither file nor folder is left out.
\<close>

datatype tree = T_File | T_Dir "(rstr \<times> tree) list" | T_Other

fun walk :: "rstr \<Rightarrow> path \<Rightarrow> (rstr \<times> tree) list \<Rightarrow> nat \<Rightarrow> (path \<times> rstr) list"
and walk_entry :: "rstr \<Rightarrow> path \<Rightarrow> rstr \<Rightarrow> tree \<Rightarrow> nat \<Rightarrow> (path \<times> rstr) list" where
  "walk root dir [] depth = []"
| "walk root dir ((n, t) # es) depth =
     (if depth > 32 then [] else walk_entry root dir n t depth @ walk root dir es depth)"
| "walk_entry root dir n T_File depth = [(dir @ [n], root @ 47 # n)]"
| "walk_entry root dir n (T_Dir es) depth = walk (root @ 47 # n) (dir @ [n]) es (depth + 1)"
| "walk_entry root dir n T_Other depth = []"

definition expand_paths :: "(path \<times> tree) list \<Rightarrow> (path \<times> rstr) list" where
  "expand_paths ps = concat (map (\<lambda>(p, t).
     let name = (if p = [] then [] else last p)
     in case t of
          T_Dir es \<Rightarrow> walk name p es 0
        | T_File \<Rightarrow> [(p, name)]
        | T_Other \<Rightarrow> []) ps)"

end
