(* ===== verification/Transfers.thy ===== *)
theory Transfers
  imports Files Peer "HOL-Library.Product_Lexorder" "HOL-Library.List_Lexorder"
begin

text \<open>
  File transfer over an established session, \<open>FileManager\<close> in \<open>crates/session/src/transfer.rs\<close>:
  offers, resumable chunked streaming, verification, pause, cancel, retry, and on the host side
  directory browsing.

  Each method is one definition on the manager's state. What the code shares through \<open>Arc\<close> is explicit:
  the pause and cancel flags live in a store (\<open>fm_ctls\<close>) to which a transfer and its streaming task
  both point, so a task can outlive the table entry it started from. The outputs are the messages for
  the control queue (\<open>fm_sent\<close>) and for the bulk queue (\<open>fm_bulk\<close>) and the events for the user
  interface. A hash map iterates in the order of its list. The operating system's part in a
  call (a disk error, a directory listing, the result of \<open>canonicalize\<close> and \<open>expand_paths\<close>) is the
  argument \<open>env\<close>. A loop of the code that does not end makes the result \<open>None\<close>.
\<close>

section \<open>State\<close>

datatype side = Side_Host | Side_Viewer

record file_policy =
  fp_side :: side
  fp_dir :: path
  fp_ask :: bool
  fp_max_size :: u64
  fp_max_active :: nat

datatype transfer_status = TS_Pending | TS_Active | TS_Paused | TS_Completed | TS_Failed | TS_Cancelled

record transfer_info =
  ti_id :: u64
  ti_name :: rstr
  ti_size :: u64
  ti_transferred :: u64
  ti_upload :: bool
  ti_status :: transfer_status
  ti_speed :: u64
  ti_eta :: "u64 option"
  ti_error :: "rstr option"

record ctl =
  ctl_paused :: bool
  ctl_cancelled :: bool

record speed =
  sp_last :: instant
  sp_window :: "(instant \<times> u64) list"

record transfer =
  tr_info :: transfer_info
  tr_path :: path
  tr_ctl :: nat
  tr_incoming :: "incoming option"
  tr_speed :: speed
  tr_queued :: bool
  tr_resume :: u64

datatype file_event =
    FE_Transfer transfer_info
  | FE_Request u64 rstr u64
  | FE_Listing rstr "dir_entry list" "rstr option"

text \<open>A streaming task: opening the file, at the top of its loop, or inside the pause loop.\<close>

datatype stream_at = At_Open | At_Top outfile | At_Pause outfile

record stream_task =
  st_id :: u64
  st_path :: path
  st_resume :: u64
  st_ctl :: nat
  st_at :: stream_at

record manager =
  fm_policy :: file_policy
  fm_allowed :: bool
  fm_next :: u64
  fm_transfers :: "(u64, transfer) hmap"
  fm_until :: "instant option"
  fm_approval :: "(u64, rstr \<times> u64) hmap"
  fm_ctls :: "ctl list"
  fm_streams :: "stream_task list"
  fm_fs :: fsys
  fm_sent :: "file_msg list"
  fm_bulk :: "file_msg list"
  fm_events :: "file_event list"

record file_env =
  fe_stop :: "nat option"
  fe_finish :: finish_env
  fe_listing :: "dir_entry list \<times> rstr option"
  fe_expanded :: "(path \<times> rstr) list option"
  fe_canonical :: bool

definition manager_new :: "file_policy \<Rightarrow> bool \<Rightarrow> fsys \<Rightarrow> manager" where
  "manager_new p allowed fs =
     \<lparr>fm_policy = p, fm_allowed = allowed, fm_next = 0, fm_transfers = [], fm_until = None,
      fm_approval = [], fm_ctls = [], fm_streams = [], fm_fs = fs, fm_sent = [], fm_bulk = [],
      fm_events = []\<rparr>"

section \<open>The table of transfers\<close>

definition fm_send :: "manager \<Rightarrow> file_msg \<Rightarrow> manager" where
  "fm_send m x = m\<lparr>fm_sent := fm_sent m @ [x]\<rparr>"

definition fm_emit :: "manager \<Rightarrow> file_event \<Rightarrow> manager" where
  "fm_emit m e = m\<lparr>fm_events := fm_events m @ [e]\<rparr>"

definition alloc_id :: "manager \<Rightarrow> u64 \<times> manager" where
  "alloc_id m =
     (fm_next m * 2 + (if fp_side (fm_policy m) = Side_Viewer then 1 else 0), m\<lparr>fm_next := fm_next m + 1\<rparr>)"

definition t_update :: "manager \<Rightarrow> u64 \<Rightarrow> (transfer \<Rightarrow> transfer) \<Rightarrow> manager" where
  "t_update m tid f =
     (case hm_get (fm_transfers m) tid of
        None \<Rightarrow> m
      | Some t \<Rightarrow> fm_emit (m\<lparr>fm_transfers := hm_insert tid (f t) (fm_transfers m)\<rparr>) (FE_Transfer (tr_info (f t))))"

definition t_fail :: "manager \<Rightarrow> u64 \<Rightarrow> rstr \<Rightarrow> manager" where
  "t_fail m tid why = t_update m tid (\<lambda>t.
     t\<lparr>tr_info := (tr_info t)\<lparr>ti_status := TS_Failed, ti_error := Some why, ti_speed := 0, ti_eta := None\<rparr>,
       tr_incoming := None\<rparr>)"

definition track ::
  "manager \<Rightarrow> u64 \<Rightarrow> rstr \<Rightarrow> u64 \<Rightarrow> bool \<Rightarrow> path \<Rightarrow> transfer_status \<Rightarrow> instant \<Rightarrow> manager" where
  "track m tid name sz upload path status now =
     (let info = \<lparr>ti_id = tid, ti_name = name, ti_size = sz, ti_transferred = 0, ti_upload = upload,
                  ti_status = status, ti_speed = 0, ti_eta = None, ti_error = None\<rparr>;
          t = \<lparr>tr_info = info, tr_path = path, tr_ctl = length (fm_ctls m), tr_incoming = None,
               tr_speed = \<lparr>sp_last = now, sp_window = []\<rparr>, tr_queued = False, tr_resume = 0\<rparr>
      in fm_emit (m\<lparr>fm_ctls := fm_ctls m @ [\<lparr>ctl_paused = False, ctl_cancelled = False\<rparr>],
                    fm_transfers := hm_insert tid t (fm_transfers m)\<rparr>) (FE_Transfer info))"

definition active_count :: "manager \<Rightarrow> nat" where
  "active_count m = length (filter (\<lambda>(_, t). ti_status (tr_info t) = TS_Active) (fm_transfers m))"

definition window_speed :: "(instant \<times> u64) list \<Rightarrow> u64 \<Rightarrow> u64" where
  "window_speed w old =
     (if w = [] then old
      else let dt = as_secs_f64 (duration_since (fst (last w)) (fst (hd w)))
           in if dt > r64 (1 / 5)
              then of_nat (float_to_nat 64 (r64 (r64 (of_nat (unat (snd (last w) - snd (hd w)))) / dt)))
              else old)"

text \<open>The entry after progress, and whether an event is due.\<close>

definition progress_entry :: "transfer \<Rightarrow> u64 \<Rightarrow> instant \<Rightarrow> bool \<times> transfer" where
  "progress_entry t transferred now =
     (let w = filter (\<lambda>(at1, _). duration_since now at1 < secs 3) (sp_window (tr_speed t) @ [(now, transferred)]);
          sp = window_speed w (ti_speed (tr_info t));
          due = duration_since now (sp_last (tr_speed t)) > millis 250
      in (due,
          t\<lparr>tr_info := (tr_info t)\<lparr>ti_transferred := transferred, ti_speed := sp,
               ti_eta := (if sp > 0 then Some (sat_sub (ti_size (tr_info t)) transferred div sp) else None)\<rparr>,
            tr_speed := \<lparr>sp_last = (if due then now else sp_last (tr_speed t)), sp_window = w\<rparr>\<rparr>))"

definition progress :: "manager \<Rightarrow> u64 \<Rightarrow> u64 \<Rightarrow> instant \<Rightarrow> manager" where
  "progress m tid transferred now =
     (case hm_get (fm_transfers m) tid of
        None \<Rightarrow> m
      | Some t \<Rightarrow>
          (let (due, t1) = progress_entry t transferred now;
               m1 = m\<lparr>fm_transfers := hm_insert tid t1 (fm_transfers m)\<rparr>
           in if due then fm_emit m1 (FE_Transfer (tr_info t1)) else m1))"

definition set_ctl :: "manager \<Rightarrow> u64 \<Rightarrow> (ctl \<Rightarrow> ctl) \<Rightarrow> manager" where
  "set_ctl m tid f =
     (case hm_get (fm_transfers m) tid of
        None \<Rightarrow> m
      | Some t \<Rightarrow>
          if tr_ctl t < length (fm_ctls m)
          then m\<lparr>fm_ctls := (fm_ctls m)[tr_ctl t := f (fm_ctls m ! tr_ctl t)]\<rparr> else m)"

definition ctl_at :: "manager \<Rightarrow> nat \<Rightarrow> ctl" where
  "ctl_at m c = (if c < length (fm_ctls m) then fm_ctls m ! c else \<lparr>ctl_paused = False, ctl_cancelled = False\<rparr>)"

section \<open>Local commands\<close>

definition t_offer :: "manager \<Rightarrow> path \<Rightarrow> rstr \<Rightarrow> instant \<Rightarrow> (rstr + unit) \<times> manager" where
  "t_offer m path name now =
     (case file_at (fm_fs m) path of
        None \<Rightarrow> (Inl (lit ''i/o error''), m)
      | Some b \<Rightarrow>
          (let sz = of_nat (length b);
               (tid, m1) = alloc_id m
           in (Inr (), fm_send (track m1 tid name sz True path TS_Pending now) (F_Offer tid name sz))))"

fun offer_each :: "manager \<Rightarrow> (path \<times> rstr) list \<Rightarrow> instant \<Rightarrow> (rstr + unit) \<times> manager" where
  "offer_each m [] now = (Inr (), m)"
| "offer_each m ((p, n) # fs) now =
     (case t_offer m p n now of
        (Inl e, m1) \<Rightarrow> (Inl e, m1)
      | (Inr _, m1) \<Rightarrow> offer_each m1 fs now)"

definition send_paths :: "manager \<Rightarrow> file_env \<Rightarrow> instant \<Rightarrow> (rstr + nat) \<times> manager" where
  "send_paths m env now =
     (if \<not> fm_allowed m then (Inl (lit ''file transfer is not permitted in this session''), m)
      else case fe_expanded env of
             None \<Rightarrow> (Inl (lit ''i/o error''), m)
           | Some files \<Rightarrow>
               (case offer_each m files now of
                  (Inl e, m1) \<Rightarrow> (Inl e, m1)
                | (Inr _, m1) \<Rightarrow> (Inr (length files), m1)))"

definition download :: "manager \<Rightarrow> rstr \<Rightarrow> instant \<Rightarrow> (rstr + unit) \<times> manager" where
  "download m remote_path now =
     (if \<not> fm_allowed m \<or> fp_side (fm_policy m) \<noteq> Side_Viewer then (Inl (lit ''downloads are not permitted''), m)
      else let (tid, m1) = alloc_id (m\<lparr>fm_until := Some (now + secs 30)\<rparr>)
           in (Inr (), fm_send m1 (F_Fetch tid remote_path)))"

definition list_dir :: "manager \<Rightarrow> rstr \<Rightarrow> manager" where
  "list_dir m p = fm_send m (F_ListDir p)"

definition t_pause :: "manager \<Rightarrow> u64 \<Rightarrow> manager" where
  "t_pause m tid =
     t_update (set_ctl m tid (\<lambda>c. c\<lparr>ctl_paused := True\<rparr>)) tid (\<lambda>t.
       if ti_status (tr_info t) = TS_Active
       then t\<lparr>tr_info := (tr_info t)\<lparr>ti_status := TS_Paused, ti_speed := 0\<rparr>\<rparr> else t)"

definition t_resume :: "manager \<Rightarrow> u64 \<Rightarrow> manager" where
  "t_resume m tid =
     t_update (set_ctl m tid (\<lambda>c. c\<lparr>ctl_paused := False\<rparr>)) tid (\<lambda>t.
       if ti_status (tr_info t) = TS_Paused
       then t\<lparr>tr_info := (tr_info t)\<lparr>ti_status := TS_Active\<rparr>\<rparr> else t)"

definition mark_cancelled :: "transfer \<Rightarrow> transfer" where
  "mark_cancelled t =
     t\<lparr>tr_info := (tr_info t)\<lparr>ti_status := TS_Cancelled, ti_speed := 0\<rparr>, tr_incoming := None\<rparr>"

definition t_cancel :: "manager \<Rightarrow> u64 \<Rightarrow> manager" where
  "t_cancel m tid =
     (if hm_contains (fm_transfers m) tid
      then t_update (fm_send (set_ctl m tid (\<lambda>c. c\<lparr>ctl_cancelled := True\<rparr>)) (F_Cancel tid)) tid mark_cancelled
      else m)"

definition cancel_all :: "manager \<Rightarrow> manager" where
  "cancel_all m =
     foldl t_cancel m (map fst (filter
       (\<lambda>(_, t). ti_status (tr_info t) \<in> {TS_Active, TS_Pending, TS_Paused}) (fm_transfers m)))"

definition fm_set_allowed :: "manager \<Rightarrow> bool \<Rightarrow> manager" where
  "fm_set_allowed m allowed =
     (let m1 = m\<lparr>fm_allowed := allowed\<rparr> in if \<not> allowed then cancel_all m1 else m1)"

definition retry :: "manager \<Rightarrow> u64 \<Rightarrow> instant \<Rightarrow> (rstr + unit) \<times> manager" where
  "retry m tid now =
     (case hm_get (fm_transfers m) tid of
        None \<Rightarrow> (Inl (lit ''unknown transfer''), m)
      | Some t \<Rightarrow>
          if \<not> ti_upload (tr_info t)
          then (Inl (lit ''only uploads can be retried from this side; ask the sender to retry''), m)
          else t_offer (m\<lparr>fm_transfers := hm_remove tid (fm_transfers m)\<rparr>) (tr_path t) (ti_name (tr_info t)) now)"

section \<open>Receiving\<close>

fun error_text :: "file_error \<Rightarrow> rstr" where
  "error_text Bad_Name = lit ''unsafe or invalid file name''"
| "error_text File_Too_Large = lit ''file exceeds the allowed size''"
| "error_text Out_Of_Order = lit ''chunk out of order''"
| "error_text File_Io = lit ''i/o error''"

definition resumes :: "fsys \<Rightarrow> path \<Rightarrow> rstr \<Rightarrow> bool" where
  "resumes fs dir name =
     (case sanitize_relative name of
        Inl _ \<Rightarrow> False
      | Inr rel \<Rightarrow> path_exists fs (part_path (dir @ rel)) \<and> \<not> path_exists fs (dir @ rel))"

definition start_incoming :: "manager \<Rightarrow> u64 \<Rightarrow> rstr \<Rightarrow> u64 \<Rightarrow> instant \<Rightarrow> manager" where
  "start_incoming m tid name sz now =
     (let pol = fm_policy m;
          resume = resumes (fm_fs m) (fp_dir pol) name
      in case incoming_open (fm_fs m) (fp_dir pol) name sz (fp_max_size pol) resume of
           (Inr inc, fs1) \<Rightarrow>
             (let m1 = m\<lparr>fm_fs := fs1\<rparr>;
                  m2 = (if hm_contains (fm_transfers m1) tid then m1
                        else track m1 tid name sz False (fp_dir pol @ split_on 47 name) TS_Active now);
                  m3 = t_update m2 tid (\<lambda>t.
                         t\<lparr>tr_info := (tr_info t)\<lparr>ti_status := TS_Active, ti_transferred := inc_received inc\<rparr>,
                           tr_queued := False, tr_incoming := Some inc\<rparr>)
              in fm_send m3 (F_Accept tid (inc_received inc)))
         | (Inl e, fs1) \<Rightarrow>
             t_fail (fm_send (m\<lparr>fm_fs := fs1\<rparr>) (F_Reject tid (error_text e))) tid (error_text e))"

definition accept_incoming :: "manager \<Rightarrow> u64 \<Rightarrow> rstr \<Rightarrow> u64 \<Rightarrow> instant \<Rightarrow> manager" where
  "accept_incoming m tid name sz now =
     (if active_count m \<ge> fp_max_active (fm_policy m)
      then (let m1 = track m tid name sz False [] TS_Pending now
            in case hm_get (fm_transfers m1) tid of
                 None \<Rightarrow> m1
               | Some t \<Rightarrow> m1\<lparr>fm_transfers := hm_insert tid (t\<lparr>tr_queued := True\<rparr>) (fm_transfers m1)\<rparr>)
      else start_incoming m tid name sz now)"

definition next_queued :: "manager \<Rightarrow> (u64 \<times> transfer) option" where
  "next_queued m = find (\<lambda>(_, t). tr_queued t \<and> \<not> ti_upload (tr_info t)) (fm_transfers m)"

partial_function (option) start_queued :: "manager \<Rightarrow> instant \<Rightarrow> manager option" where
  "start_queued m now =
     (if active_count m < fp_max_active (fm_policy m)
      then (case next_queued m of
              None \<Rightarrow> Some m
            | Some (tid, t) \<Rightarrow>
                start_queued (start_incoming m tid (ti_name (tr_info t)) (ti_size (tr_info t)) now) now)
      else Some m)"

definition respond :: "manager \<Rightarrow> u64 \<Rightarrow> bool \<Rightarrow> instant \<Rightarrow> manager" where
  "respond m tid accept now =
     (case hm_get (fm_approval m) tid of
        None \<Rightarrow> m
      | Some (name, sz) \<Rightarrow>
          (let m1 = m\<lparr>fm_approval := hm_remove tid (fm_approval m)\<rparr>
           in if accept then accept_incoming m1 tid name sz now
              else fm_send m1 (F_Reject tid (lit ''declined''))))"

section \<open>Messages from the peer\<close>

definition on_offer :: "manager \<Rightarrow> u64 \<Rightarrow> rstr \<Rightarrow> u64 \<Rightarrow> instant \<Rightarrow> manager" where
  "on_offer m tid name sz now =
     (let pol = fm_policy m;
          from_peer_namespace = (tid mod 2 = (if fp_side pol = Side_Host then 1 else 0))
      in if \<not> from_peer_namespace \<or> hm_contains (fm_transfers m) tid
         then fm_send m (F_Reject tid (lit ''invalid transfer id''))
         else if (case sanitize_relative name of Inl _ \<Rightarrow> True | Inr _ \<Rightarrow> False) \<or> sz > fp_max_size pol
         then fm_send m (F_Reject tid (lit ''file not acceptable''))
         else case fp_side pol of
                Side_Viewer \<Rightarrow>
                  if (case fm_until m of None \<Rightarrow> False | Some u \<Rightarrow> now < u)
                  then accept_incoming m tid name sz now
                  else fm_send m (F_Reject tid (lit ''unsolicited transfer''))
              | Side_Host \<Rightarrow>
                  if fp_ask pol
                  then fm_emit (m\<lparr>fm_approval := hm_insert tid (name, sz) (fm_approval m)\<rparr>) (FE_Request tid name sz)
                  else accept_incoming m tid name sz now)"

definition on_accept :: "manager \<Rightarrow> u64 \<Rightarrow> u64 \<Rightarrow> manager" where
  "on_accept m tid resume_from =
     (case hm_get (fm_transfers m) tid of
        None \<Rightarrow> m
      | Some t \<Rightarrow>
          if \<not> (ti_upload (tr_info t) \<and> ti_status (tr_info t) = TS_Pending) then m
          else let m1 = m\<lparr>fm_transfers := hm_insert tid
                       (t\<lparr>tr_info := (tr_info t)\<lparr>ti_status := TS_Active\<rparr>, tr_resume := resume_from\<rparr>) (fm_transfers m)\<rparr>
               in if resume_from > ti_size (tr_info t)
                  then t_fail m1 tid (lit ''peer requested an invalid resume offset'')
                  else let m2 = t_update m1 tid (\<lambda>t. t\<lparr>tr_info := (tr_info t)\<lparr>ti_transferred := resume_from\<rparr>\<rparr>)
                       in m2\<lparr>fm_streams := fm_streams m2 @
                            [\<lparr>st_id = tid, st_path = tr_path t, st_resume = resume_from, st_ctl = tr_ctl t,
                              st_at = At_Open\<rparr>]\<rparr>)"

definition on_chunk :: "manager \<Rightarrow> u64 \<Rightarrow> u64 \<Rightarrow> u8 list \<Rightarrow> file_env \<Rightarrow> instant \<Rightarrow> manager" where
  "on_chunk m tid offset data env now =
     (case hm_get (fm_transfers m) tid of
        None \<Rightarrow> m
      | Some t \<Rightarrow>
          if ctl_cancelled (ctl_at m (tr_ctl t)) then m
          else case tr_incoming t of
                 None \<Rightarrow> m
               | Some inc \<Rightarrow>
                   (case write_chunk (fm_fs m) inc offset data (fe_stop env) of
                      (Inr inc1, fs1) \<Rightarrow>
                        progress (m\<lparr>fm_fs := fs1,
                            fm_transfers := hm_insert tid (t\<lparr>tr_incoming := Some inc1\<rparr>) (fm_transfers m)\<rparr>)
                          tid (inc_received inc1) now
                    | (Inl e, fs1) \<Rightarrow>
                        t_fail (fm_send (m\<lparr>fm_fs := fs1\<rparr>) (F_Cancel tid)) tid (error_text e)))"

definition mark_completed :: "transfer \<Rightarrow> transfer" where
  "mark_completed t =
     t\<lparr>tr_info := (tr_info t)\<lparr>ti_status := TS_Completed, ti_transferred := ti_size (tr_info t),
                   ti_speed := 0, ti_eta := None\<rparr>\<rparr>"

text \<open>The end of one incoming file, before the queue is looked at.\<close>

definition done_file ::
  "(u8 list \<Rightarrow> u8 list) \<Rightarrow> manager \<Rightarrow> u64 \<Rightarrow> transfer \<Rightarrow> incoming \<Rightarrow> u8 list \<Rightarrow> file_env \<Rightarrow> manager" where
  "done_file sha m tid t inc sha256 env =
     (let m1 = m\<lparr>fm_transfers := hm_insert tid (t\<lparr>tr_incoming := None\<rparr>) (fm_transfers m)\<rparr>
      in case finish sha (fm_fs m) inc sha256 (fe_finish env) of
           (Inr final, fs1) \<Rightarrow>
             t_update (fm_send (m1\<lparr>fm_fs := fs1\<rparr>) (F_Verified tid True)) tid
               (\<lambda>t. (mark_completed t)\<lparr>tr_path := final\<rparr>)
         | (Inl e, fs1) \<Rightarrow>
             t_fail (fm_send (m1\<lparr>fm_fs := fs1\<rparr>) (F_Verified tid False)) tid
               (lit ''integrity check failed''))"

definition on_done ::
  "(u8 list \<Rightarrow> u8 list) \<Rightarrow> manager \<Rightarrow> u64 \<Rightarrow> u8 list \<Rightarrow> file_env \<Rightarrow> instant \<Rightarrow> manager option" where
  "on_done sha m tid sha256 env now =
     (case hm_get (fm_transfers m) tid of
        None \<Rightarrow> Some m
      | Some t \<Rightarrow>
          (case tr_incoming t of
             None \<Rightarrow> Some m
           | Some inc \<Rightarrow> start_queued (done_file sha m tid t inc sha256 env) now))"

definition on_list :: "manager \<Rightarrow> rstr \<Rightarrow> file_env \<Rightarrow> manager" where
  "on_list m p env =
     (if fp_side (fm_policy m) \<noteq> Side_Host then m
      else fm_send m (F_DirListing p (fst (fe_listing env)) (snd (fe_listing env))))"

text \<open>Offers that fail are logged and skipped.\<close>

definition on_fetch :: "manager \<Rightarrow> u64 \<Rightarrow> rstr \<Rightarrow> file_env \<Rightarrow> instant \<Rightarrow> manager" where
  "on_fetch m req p env now =
     (if fp_side (fm_policy m) \<noteq> Side_Host then fm_send m (F_Reject req (lit ''not supported''))
      else if \<not> fe_canonical env then fm_send m (F_Reject req (lit ''not found''))
      else case fe_expanded env of
             Some (f # fs) \<Rightarrow> foldl (\<lambda>m (q, n). snd (t_offer m q n now)) m (f # fs)
           | _ \<Rightarrow> fm_send m (F_Reject req (lit ''nothing to send'')))"

definition on_file_msg ::
  "(u8 list \<Rightarrow> u8 list) \<Rightarrow> manager \<Rightarrow> file_msg \<Rightarrow> file_env \<Rightarrow> instant \<Rightarrow> manager option" where
  "on_file_msg sha m x env now =
     (if \<not> fm_allowed m
      then Some (case x of
                   F_Offer tid _ _ \<Rightarrow> fm_send m (F_Reject tid (lit ''file transfer disabled''))
                 | F_Fetch tid _ \<Rightarrow> fm_send m (F_Reject tid (lit ''file transfer disabled''))
                 | _ \<Rightarrow> m)
      else case x of
             F_Offer tid name sz \<Rightarrow> Some (on_offer m tid name sz now)
           | F_Accept tid resume_from \<Rightarrow> Some (on_accept m tid resume_from)
           | F_Reject tid reason \<Rightarrow> Some (t_fail m tid reason)
           | F_Chunk tid offset data \<Rightarrow> Some (on_chunk m tid offset data env now)
           | F_Done tid sha256 \<Rightarrow> on_done sha m tid sha256 env now
           | F_Verified tid ok \<Rightarrow>
               Some (if ok then t_update m tid mark_completed
                     else t_fail m tid (lit ''verification failed on the receiving side''))
           | F_Cancel tid \<Rightarrow>
               Some (t_update (set_ctl m tid (\<lambda>c. c\<lparr>ctl_cancelled := True\<rparr>)) tid mark_cancelled)
           | F_ListDir p \<Rightarrow> Some (on_list m p env)
           | F_DirListing p entries err \<Rightarrow> Some (fm_emit m (FE_Listing p entries err))
           | F_Fetch tid p \<Rightarrow> Some (on_fetch m tid p env now))"

section \<open>Streaming tasks\<close>

text \<open>
  One step of \<open>stream_file\<close> for the task at position \<open>k\<close>: opening, one look at the flags, or one
  chunk. \<open>n\<close> is the size of the read (\<open>None\<close>: it failed), \<open>up\<close> whether the bulk queue still takes
  messages.
\<close>

definition stream_end :: "manager \<Rightarrow> nat \<Rightarrow> manager" where
  "stream_end m k = m\<lparr>fm_streams := take k (fm_streams m) @ drop (Suc k) (fm_streams m)\<rparr>"

definition stream_set :: "manager \<Rightarrow> nat \<Rightarrow> stream_at \<Rightarrow> manager" where
  "stream_set m k a = m\<lparr>fm_streams := (fm_streams m)[k := (fm_streams m ! k)\<lparr>st_at := a\<rparr>]\<rparr>"

definition send_bulk :: "manager \<Rightarrow> file_msg \<Rightarrow> manager" where
  "send_bulk m x = m\<lparr>fm_bulk := fm_bulk m @ [x]\<rparr>"

definition stream_chunk ::
  "(u8 list \<Rightarrow> u8 list) \<Rightarrow> manager \<Rightarrow> nat \<Rightarrow> stream_task \<Rightarrow> outfile \<Rightarrow> nat option \<Rightarrow> bool \<Rightarrow> instant \<Rightarrow> manager" where
  "stream_chunk sha m k s f n up now =
     (case n of
        None \<Rightarrow> t_fail (stream_end m k) (st_id s) (lit ''i/o error'')
      | Some n \<Rightarrow>
          (case next_chunk (fm_fs m) f n of
             (Some (offset, data), f1) \<Rightarrow>
               if up then progress (stream_set (send_bulk m (F_Chunk (st_id s) offset data)) k (At_Top f1))
                            (st_id s) (offset + of_nat (length data)) now
               else t_fail (stream_end m k) (st_id s) (lit ''connection closed'')
           | (None, _) \<Rightarrow>
               (case hash_file sha (fm_fs m) (st_path s) of
                  Some h \<Rightarrow> stream_end (if up then send_bulk m (F_Done (st_id s) h) else m) k
                | None \<Rightarrow> t_fail (stream_end m k) (st_id s) (lit ''could not hash the file''))))"

definition stream_step ::
  "(u8 list \<Rightarrow> u8 list) \<Rightarrow> manager \<Rightarrow> nat \<Rightarrow> nat option \<Rightarrow> bool \<Rightarrow> instant \<Rightarrow> manager" where
  "stream_step sha m k n up now =
     (if k \<ge> length (fm_streams m) then m
      else let s = fm_streams m ! k; c = ctl_at m (st_ctl s)
           in case st_at s of
                At_Open \<Rightarrow>
                  (case outgoing_open (fm_fs m) (st_path s) of
                     None \<Rightarrow> t_fail (stream_end m k) (st_id s) (lit ''could not read the file'')
                   | Some f \<Rightarrow> stream_set m k (At_Top (seek_to f (st_resume s))))
              | At_Top f \<Rightarrow>
                  if ctl_cancelled c then stream_end m k
                  else if ctl_paused c then stream_set m k (At_Pause f)
                  else stream_chunk sha m k s f n up now
              | At_Pause f \<Rightarrow>
                  if ctl_paused c \<and> \<not> ctl_cancelled c then m
                  else stream_chunk sha m k s f n up now)"

section \<open>Directory listings\<close>

text \<open>
  The drive roots for an empty path; else at most \<open>MAX_LIST\<close> entries, folders first, then by
  lower-cased name (\<open>lower\<close> is \<open>str::to_lowercase\<close>). An entry without metadata is left out.
\<close>

definition MAX_LIST :: nat where
  "MAX_LIST = 5000"

definition list_directory ::
  "(rstr \<Rightarrow> rstr) \<Rightarrow> (rstr \<Rightarrow> bool) \<Rightarrow> (rstr \<times> (bool \<times> u64) option) list option \<Rightarrow> rstr \<Rightarrow>
    dir_entry list \<times> rstr option" where
  "list_directory lower present contents p =
     (if p = [] then
        (map (\<lambda>r. \<lparr>de_name = r, de_is_dir = True, de_size = 0\<rparr>)
           (filter present (map (\<lambda>c. c # lit '':'' @ [92]) [65..<91])), None)
      else case contents of
             None \<Rightarrow> ([], Some (lit ''i/o error''))
           | Some es \<Rightarrow>
               (sort_key (\<lambda>e. (\<not> de_is_dir e, lower (de_name e)))
                  (List.map_filter (\<lambda>(n, meta).
                     map_option (\<lambda>(d, s). \<lparr>de_name = n, de_is_dir = d, de_size = (if d then 0 else s)\<rparr>) meta)
                     (take MAX_LIST es)), None))"

end
