(* ===== verification/Files_Props.thy ===== *)
theory Files_Props
  imports Files
begin

text \<open>
  Correctness of the file-transfer ends of \<open>Files.thy\<close>: an incoming file never lands on an existing
  one, the bytes written are the bytes received, a finished file has the announced hash, and a
  transfer resumed from any prefix reproduces the source.
\<close>

section \<open>The file system\<close>

definition fs_ok :: "fsys \<Rightarrow> bool" where
  "fs_ok fs \<longleftrightarrow> (\<forall>p i. hm_get (f_names fs) p = Some i \<longrightarrow> i < length (f_data fs))"

lemma fs_okD: "fs_ok fs \<Longrightarrow> hm_get (f_names fs) p = Some i \<Longrightarrow> i < length (f_data fs)"
  by (simp add: fs_ok_def)

lemma content_fields [simp]:
  "content (fs\<lparr>f_names := n\<rparr>) = content fs" "content (fs\<lparr>f_dirs := ds\<rparr>) = content fs"
  by (simp_all add: content_def fun_eq_iff)

lemma create_dir_all_Some:
  assumes "create_dir_all fs p = Some fs1"
  shows "f_names fs1 = f_names fs" "f_data fs1 = f_data fs" "is_dir fs1 p"
    "is_dir fs q \<Longrightarrow> is_dir fs1 q" "is_dir fs1 q \<Longrightarrow> is_dir fs q \<or> q \<in> set (prefixes_of p)"
proof -
  have fs1: "fs1 = fs\<lparr>f_dirs := f_dirs fs @ filter (\<lambda>q. \<not> is_dir fs q) (prefixes_of p)\<rparr>"
    using assms by (auto simp: create_dir_all_def split: if_splits)
  have "p \<in> set (prefixes_of p)" by (induction p) auto
  then show "is_dir fs1 p" by (auto simp: fs1 is_dir_def)
qed (use assms in \<open>auto simp: create_dir_all_def is_dir_def split: if_splits\<close>)

lemma prefixes_length: "q \<in> set (prefixes_of p) \<Longrightarrow> length q \<le> length p \<and> q = take (length q) p"
  by (induction p arbitrary: q) auto

lemma open_write_Some:
  assumes "open_write fs p trunc = Some (i, fs1)" and "fs_ok fs"
  shows "hm_get (f_names fs1) p = Some i" "i < length (f_data fs1)" "fs_ok fs1" "f_dirs fs1 = f_dirs fs"
    "q \<noteq> p \<Longrightarrow> hm_get (f_names fs1) q = hm_get (f_names fs) q"
    "content fs1 i = (if trunc then [] else case file_at fs p of Some b \<Rightarrow> b | None \<Rightarrow> [])"
    "j \<noteq> i \<Longrightarrow> content fs1 j = content fs j"
    "\<not> is_dir fs p" "is_dir fs (butlast p)"
  using assms
  by (auto simp: open_write_def fs_ok_def content_def file_at_def nth_append less_Suc_eq nth_list_update
      split: if_splits option.splits)

lemma length_fs_write [simp]: "length (f_data (fs_write fs i off d)) = length (f_data fs)"
  by (simp add: fs_write_def)

lemma fs_write_names [simp]: "f_names (fs_write fs i off d) = f_names fs" "f_dirs (fs_write fs i off d) = f_dirs fs"
  by (simp_all add: fs_write_def)

lemma content_fs_write:
  "i < length (f_data fs) \<Longrightarrow> content (fs_write fs i off d) i = write_at (content fs i) off d"
  "j \<noteq> i \<Longrightarrow> content (fs_write fs i off d) j = content fs j"
  by (simp_all add: fs_write_def content_def)

lemma fs_ok_write [simp]: "fs_ok (fs_write fs i off d) = fs_ok fs"
  by (simp add: fs_ok_def)

lemma write_at_end: "write_at bs (length bs) d = bs @ d"
  by (simp add: write_at_def)

lemma part_path_neq: "part_path p \<noteq> p"
proof
  assume eq: "part_path p = p"
  show False
  proof (cases "p = []")
    case False
    then have "last (part_path p) = last p @ lit ''.part''" by (simp add: part_path_def)
    then show False using eq by simp
  qed (use eq in \<open>simp add: part_path_def\<close>)
qed

lemma part_path_butlast: "p \<noteq> [] \<Longrightarrow> butlast (part_path p) = butlast p"
  by (simp add: part_path_def)

section \<open>Where an incoming file goes\<close>

lemma unique_path_cases:
  obtains "unique_path fs dir rel = dir @ rel" "path_free fs (dir @ rel)"
  | i where "1 \<le> i" "i < 10000" "unique_path fs dir rel = dir @ butlast rel @ [numbered (last rel) i]"
      "path_free fs (unique_path fs dir rel)"
  | "unique_path fs dir rel = dir @ rel" "\<not> path_free fs (dir @ rel)"
      "\<forall>i \<in> {1..<10000}. \<not> path_free fs (dir @ butlast rel @ [numbered (last rel) i])"
proof -
  define cands where "cands = map (\<lambda>i. dir @ butlast rel @ [numbered (last rel) i]) [1..<10000]"
  have u: "unique_path fs dir rel =
      (if path_free fs (dir @ rel) then dir @ rel
       else case find (path_free fs) cands of Some p \<Rightarrow> p | None \<Rightarrow> dir @ rel)"
    by (simp only: unique_path_def Let_def cands_def)
  show thesis
  proof (cases "path_free fs (dir @ rel)")
    case True
    then show thesis using that(1) u by simp
  next
    case False
    show thesis
    proof (cases "find (path_free fs) cands")
      case None
      then have "\<forall>p \<in> set cands. \<not> path_free fs p" by (simp add: find_None_iff)
      then have "\<forall>i \<in> {1..<10000}. \<not> path_free fs (dir @ butlast rel @ [numbered (last rel) i])"
        by (simp only: cands_def set_map set_upt ball_simps)
      then show thesis using that(3) False u None by simp
    next
      case (Some p)
      then have p: "p \<in> set cands" "path_free fs p" by (auto simp: find_Some_iff)
      obtain i where i: "i \<in> {1..<10000}" "p = dir @ butlast rel @ [numbered (last rel) i]"
        using p(1) unfolding cands_def set_map set_upt by blast
      then show thesis using that(2) [of i] p(2) u False Some by simp
    qed
  qed
qed

text \<open>Inversion of a successful \<open>open\<close>.\<close>

lemma incoming_open_Inr:
  assumes "incoming_open fs dir rel expected maximum resume = (Inr inc, fs2)"
  obtains r fs1 where "sanitize_relative rel = Inr r" "expected \<le> maximum"
    "inc_target inc = (if resume then dir @ r else unique_path fs dir r)"
    "create_dir_all fs (butlast (inc_target inc)) = Some fs1"
    "inc_part inc = part_path (inc_target inc)" "inc_expected inc = expected"
    "inc_received inc \<le> expected"
    "open_write fs1 (inc_part inc) (inc_received inc = 0) = Some (inc_file inc, fs2)"
    "inc_received inc \<noteq> 0 \<longrightarrow> resume \<and> (\<exists>b. file_at fs1 (inc_part inc) = Some b \<and> inc_received inc = of_nat (length b))"
proof -
  obtain r where r: "sanitize_relative rel = Inr r"
    using assms by (auto simp: incoming_open_def split: sum.splits if_splits)
  define target where "target = (if resume then dir @ r else unique_path fs dir r)"
  obtain fs1 where f1: "create_dir_all fs (butlast target) = Some fs1"
    using assms r by (auto simp: incoming_open_def target_def Let_def split: sum.splits if_splits option.splits)
  define ex0 where "ex0 = (if resume then (case file_at fs1 (part_path target) of
      Some b \<Rightarrow> of_nat (length b) | None \<Rightarrow> 0) else (0 :: u64))"
  define ex where "ex = (if ex0 \<le> expected then ex0 else 0)"
  have ng: "\<not> maximum < expected" using assms by (auto simp: incoming_open_def)
  have "incoming_open fs dir rel expected maximum resume =
      (case open_write fs1 (part_path target) (ex = 0) of
         None \<Rightarrow> (Inl File_Io, fs1)
       | Some (i, fs2) \<Rightarrow>
           (Inr \<lparr>inc_target = target, inc_part = part_path target, inc_file = i,
                 inc_expected = expected, inc_received = ex\<rparr>, fs2))"
    using ng r f1 unfolding incoming_open_def
    by (simp only: if_False sum.case Let_def option.case ex_def ex0_def flip: target_def)
  then obtain i where ow: "open_write fs1 (part_path target) (ex = 0) = Some (i, fs2)"
    and inc: "inc = \<lparr>inc_target = target, inc_part = part_path target, inc_file = i,
                 inc_expected = expected, inc_received = ex\<rparr>"
    using assms by (auto split: option.splits)
  have "ex \<noteq> 0 \<Longrightarrow> resume \<and> (\<exists>b. file_at fs1 (part_path target) = Some b \<and> ex = of_nat (length b))"
    by (auto simp: ex_def ex0_def split: if_splits option.splits)
  then show thesis
    using that [of r fs1] r ng f1 ow unfolding inc target_def [symmetric] by (auto simp: ex_def)
qed

definition all_numbers_taken :: "fsys \<Rightarrow> path \<Rightarrow> path \<Rightarrow> bool" where
  "all_numbers_taken fs dir r \<longleftrightarrow>
     (\<forall>i \<in> {1..<10000}. \<not> path_free fs (dir @ butlast r @ [numbered (last r) i]))"

text \<open>
  A new incoming file overwrites nothing: without resuming, neither the target nor its part file
  existed, unless the name and all its 9,999 numbered variants are taken; and what existed under any
  other name is untouched.
\<close>

theorem new_file_overwrites_nothing:
  assumes "incoming_open fs dir rel expected maximum False = (Inr inc, fs2)"
    and "\<not> all_numbers_taken fs dir (split_on 47 rel)" and "fs_ok fs"
  shows "\<not> path_exists fs (inc_target inc) \<and> \<not> path_exists fs (inc_part inc) \<and>
    (\<forall>q b. file_at fs q = Some b \<longrightarrow> file_at fs2 q = Some b)"
proof -
  obtain r fs1 where o: "sanitize_relative rel = Inr r" "inc_target inc = unique_path fs dir r"
      "create_dir_all fs (butlast (inc_target inc)) = Some fs1"
      "inc_part inc = part_path (inc_target inc)"
      "open_write fs1 (inc_part inc) (inc_received inc = 0) = Some (inc_file inc, fs2)"
    using assms(1) by (rule incoming_open_Inr) auto
  have r: "r = split_on 47 rel" using o(1) by (simp add: sanitize_Inr)
  have free: "path_free fs (inc_target inc)"
  proof (cases rule: unique_path_cases [of fs dir r])
    case 3
    then show ?thesis using assms(2) r by (auto simp: all_numbers_taken_def)
  qed (use o(2) in auto)
  note c = create_dir_all_Some [OF o(3)]
  have ok1: "fs_ok fs1" using assms(3) c by (simp add: fs_ok_def)
  note w = open_write_Some [OF o(5) ok1]
  have new: "hm_get (f_names fs1) (inc_part inc) = None"
    using free o(4) c(1) by (auto simp: path_free_def path_exists_def hm_contains_def)
  have num: "inc_file inc = length (f_data fs1)"
    using o(5) new by (auto simp: open_write_def split: if_splits)
  have "file_at fs2 q = Some b" if q: "file_at fs q = Some b" for q b
  proof -
    obtain j where j: "hm_get (f_names fs) q = Some j" "b = content fs j"
      using q by (auto simp: file_at_def)
    then have "q \<noteq> inc_part inc" "j \<noteq> inc_file inc"
      using new c(1) num fs_okD [OF ok1, of q j] by auto
    then show ?thesis using j w(5,7) c by (simp add: file_at_def content_def)
  qed
  then show ?thesis using free o(4) by (simp add: path_free_def)
qed

text \<open>A disk for the examples: one user file in the download directory.\<close>

definition demo_fs :: fsys where
  "demo_fs = \<lparr>f_dirs = [[], [lit ''d'']], f_names = [([lit ''d'', lit ''a''], 0)], f_data = [[1, 2, 3]]\<rparr>"

lemma demo_fs_ok: "fs_ok demo_fs"
  by (auto simp: fs_ok_def demo_fs_def hm_get_def split: if_splits)

lemma demo_free: "path_free demo_fs [lit ''d'', lit ''b'']" "path_free demo_fs [lit ''d'', lit ''b (1)'']"
  by code_simp+

lemma demo_numbered: "numbered (lit ''b'') 1 = lit ''b (1)''"
  by code_simp

lemma demo_open:
  "incoming_open demo_fs [lit ''d''] (lit ''b'') 4 100 False =
     (Inr \<lparr>inc_target = [lit ''d'', lit ''b''], inc_part = [lit ''d'', lit ''b.part''], inc_file = 1,
           inc_expected = 4, inc_received = 0\<rparr>,
      demo_fs\<lparr>f_names := [([lit ''d'', lit ''a''], 0), ([lit ''d'', lit ''b.part''], 1)],
              f_data := [[1, 2, 3], []]\<rparr>)"
proof -
  have s: "sanitize_relative (lit ''b'') = Inr [lit ''b'']" by code_simp
  have u: "unique_path demo_fs [lit ''d''] [lit ''b''] = [lit ''d'', lit ''b'']"
    using demo_free(1) by (simp add: unique_path_def Let_def)
  have c: "create_dir_all demo_fs [lit ''d''] = Some demo_fs" by code_simp
  have p: "part_path [lit ''d'', lit ''b''] = [lit ''d'', lit ''b.part'']" by code_simp
  have w: "open_write demo_fs [lit ''d'', lit ''b.part''] True =
      Some (1, demo_fs\<lparr>f_names := [([lit ''d'', lit ''a''], 0), ([lit ''d'', lit ''b.part''], 1)],
              f_data := [[1, 2, 3], []]\<rparr>)"
    by code_simp
  show ?thesis
    unfolding incoming_open_def s sum.case Let_def if_False u butlast.simps list.distinct
    using c p w by simp
qed

theorem new_file_overwrites_nothing_witness:
  "\<exists>inc fs2. incoming_open demo_fs [lit ''d''] (lit ''b'') 4 100 False = (Inr inc, fs2) \<and>
     \<not> path_exists demo_fs (inc_target inc) \<and> file_at fs2 [lit ''d'', lit ''a''] = Some [1, 2, 3]"
proof -
  obtain inc fs2 where o: "incoming_open demo_fs [lit ''d''] (lit ''b'') 4 100 False = (Inr inc, fs2)"
    using demo_open by blast
  have "split_on 47 (lit ''b'') = [lit ''b'']" by code_simp
  moreover have "(1 :: nat) \<in> {1..<10000}" by simp
  ultimately have n: "\<not> all_numbers_taken demo_fs [lit ''d''] (split_on 47 (lit ''b''))"
    using demo_free(2) demo_numbered unfolding all_numbers_taken_def by fastforce
  have "file_at demo_fs [lit ''d'', lit ''a''] = Some [1, 2, 3]" by code_simp
  then show ?thesis using new_file_overwrites_nothing [OF o n demo_fs_ok] o by blast
qed

section \<open>Appending in order\<close>

text \<open>
  What a receiver of chunks relies on: a store that takes a piece only at its end. The client lemma
  is that whatever was accepted is the concatenation, each piece at its own offset.
\<close>

locale byte_sink =
  fixes ok :: "'s \<Rightarrow> bool" and stored :: "'s \<Rightarrow> u8 list"
    and push :: "'s \<Rightarrow> u64 \<Rightarrow> u8 list \<Rightarrow> 's option"
  assumes push_Some: "ok s \<Longrightarrow> push s off d = Some s' \<Longrightarrow>
      ok s' \<and> stored s' = stored s @ d \<and> unat off = length (stored s)"
begin

fun push_all :: "'s \<Rightarrow> (u64 \<times> u8 list) list \<Rightarrow> 's option" where
  "push_all s [] = Some s"
| "push_all s ((off, d) # cs) = (case push s off d of None \<Rightarrow> None | Some s1 \<Rightarrow> push_all s1 cs)"

lemma push_all_Some:
  "ok s \<Longrightarrow> push_all s cs = Some s' \<Longrightarrow> ok s' \<and> stored s' = stored s @ concat (map snd cs)"
proof (induction s cs rule: push_all.induct)
  case (2 s off d cs)
  then show ?case using push_Some by (auto split: option.splits)
qed simp

lemma push_all_offset:
  "ok s \<Longrightarrow> push_all s (cs @ (off, d) # ds) = Some s' \<Longrightarrow>
     unat off = length (stored s) + length (concat (map snd cs))"
proof (induction s cs rule: push_all.induct)
  case (1 s)
  then show ?case using push_Some by (auto split: option.splits)
next
  case (2 s off1 d1 cs)
  from 2(3) obtain s1 where s1: "push s off1 d1 = Some s1" "push_all s1 (cs @ (off, d) # ds) = Some s'"
    by (auto split: option.splits)
  have "ok s1" "stored s1 = stored s @ d1" using push_Some [OF 2(2) s1(1)] by simp_all
  then show ?case using 2(1) [OF s1(1) _ s1(2)] by simp
qed

end

text \<open>The receiver of \<open>Files\<close>: a part file and the record of the transfer.\<close>

definition inc_ok :: "fsys \<times> incoming \<Rightarrow> bool" where
  "inc_ok s = (case s of (fs, inc) \<Rightarrow>
     inc_file inc < length (f_data fs) \<and> length (content fs (inc_file inc)) = unat (inc_received inc) \<and>
     inc_received inc \<le> inc_expected inc)"

text \<open>
  A chunk that reaches the disk whole. Its length is bounded by the message validation; the
  expected size leaves room for one more chunk below \<open>2^64\<close>, so the check cannot wrap.
\<close>

definition inc_push :: "fsys \<times> incoming \<Rightarrow> u64 \<Rightarrow> u8 list \<Rightarrow> (fsys \<times> incoming) option" where
  "inc_push s off d =
     (case s of (fs, inc) \<Rightarrow>
        if unat (inc_expected inc) + length d < 2 ^ 64 then
          (case write_chunk fs inc off d None of (Inr inc1, fs1) \<Rightarrow> Some (fs1, inc1) | (Inl _, _) \<Rightarrow> None)
        else None)"

lemma write_chunk_Inr:
  assumes "inc_ok (fs, inc)" and "write_chunk fs inc off d stop = (Inr inc1, fs1)"
    and "unat (inc_expected inc) + length d < 2 ^ 64"
  shows "inc_ok (fs1, inc1)" "content fs1 (inc_file inc) = content fs (inc_file inc) @ d"
    "unat off = length (content fs (inc_file inc))"
    "unat (inc_received inc1) = unat (inc_received inc) + length d"
    "inc1 = inc\<lparr>inc_received := inc_received inc1\<rparr>" "f_names fs1 = f_names fs" "f_dirs fs1 = f_dirs fs"
    "stop = None"
proof -
  have ok: "inc_file inc < length (f_data fs)" "length (content fs (inc_file inc)) = unat (inc_received inc)"
      "unat (inc_received inc) \<le> unat (inc_expected inc)"
    using assms(1) by (simp_all add: inc_ok_def word_le_nat_alt)
  have w: "off = inc_received inc" "inc_received inc + of_nat (length d) \<le> inc_expected inc" "stop = None"
      "inc1 = inc\<lparr>inc_received := inc_received inc + of_nat (length d)\<rparr>"
      "fs1 = fs_write fs (inc_file inc) (unat off) d"
    using assms(2) by (auto simp: write_chunk_def split: if_splits option.splits)
  have len: "unat (of_nat (length d) :: u64) = length d"
    using assms(3) by (intro unat_of_nat_small) simp
  have sum: "unat (inc_received inc + of_nat (length d)) = unat (inc_received inc) + length d"
    using ok(3) assms(3) len by (subst unat_add_no_wrap) simp_all
  have c: "content fs1 (inc_file inc) = content fs (inc_file inc) @ d"
    using ok(1,2) w(1,5) by (simp add: content_fs_write write_at_end flip: ok(2))
  show "content fs1 (inc_file inc) = content fs (inc_file inc) @ d" by (rule c)
  show "inc_ok (fs1, inc1)"
    using ok w(2,4,5) sum c by (simp add: inc_ok_def word_le_nat_alt)
  show "unat (inc_received inc1) = unat (inc_received inc) + length d" using sum w(4) by simp
  show "unat off = length (content fs (inc_file inc))" using ok(2) w(1) by simp
qed (use assms(2) in \<open>auto simp: write_chunk_def split: if_splits option.splits\<close>)

interpretation part: byte_sink inc_ok "\<lambda>(fs, inc). content fs (inc_file inc)" inc_push
proof (unfold_locales, goal_cases)
  case (1 s off d s')
  obtain fs inc where s: "s = (fs, inc)" by force
  obtain fs1 inc1 where w: "write_chunk fs inc off d None = (Inr inc1, fs1)" "s' = (fs1, inc1)"
      "unat (inc_expected inc) + length d < 2 ^ 64"
    using 1(2) by (auto simp: s inc_push_def split: if_splits prod.splits sum.splits)
  note r = write_chunk_Inr [OF 1(1) [unfolded s] w(1,3)]
  have "inc_file inc1 = inc_file inc" by (subst r(5)) simp
  then show ?case using r(1-3) s w(2) by simp
qed

section \<open>Sending and finishing\<close>

text \<open>Reading with any read sizes until the end of the file; \<open>True\<close> says the end was reached.\<close>

fun read_all :: "fsys \<Rightarrow> outfile \<Rightarrow> nat list \<Rightarrow> (u64 \<times> u8 list) list \<times> bool" where
  "read_all fs f [] = ([], False)"
| "read_all fs f (n # ns) =
     (case next_chunk fs f n of
        (None, _) \<Rightarrow> ([], True)
      | (Some c, f1) \<Rightarrow> (let (cs, e) = read_all fs f1 ns in (c # cs, e)))"

lemma next_chunk_cases:
  assumes "unat (of_offset f) \<le> length (content fs (of_file f))"
    and "length (content fs (of_file f)) < 2 ^ 64"
  obtains "next_chunk fs f n = (None, f)" "unat (of_offset f) = length (content fs (of_file f))"
  | d f1 where "next_chunk fs f n = (Some (of_offset f, d), f1)" "d \<noteq> []" "length d \<le> CHUNK"
      "drop (unat (of_offset f)) (content fs (of_file f)) = d @ drop (unat (of_offset f1)) (content fs (of_file f))"
      "of_file f1 = of_file f" "unat (of_offset f1) = unat (of_offset f) + length d"
      "unat (of_offset f1) \<le> length (content fs (of_file f))"
proof -
  let ?b = "content fs (of_file f)" and ?o = "unat (of_offset f)"
  define d where "d = take (min CHUNK (max 1 n)) (drop ?o ?b)"
  show thesis
  proof (cases "?o = length ?b")
    case True
    then show thesis using that(1) by (simp add: next_chunk_def Let_def)
  next
    case False
    then have ne: "d \<noteq> []" using assms(1) by (simp add: d_def CHUNK_def)
    have le: "?o + length d \<le> length ?b" using assms(1) by (simp add: d_def)
    have len: "unat (of_nat (length d) :: u64) = length d"
      using le assms(2) by (intro unat_of_nat_small) simp
    have off: "unat (of_offset f + of_nat (length d)) = ?o + length d"
      using le assms(2) len by (subst unat_add_no_wrap) simp_all
    have n: "next_chunk fs f n = (Some (of_offset f, d), f\<lparr>of_offset := of_offset f + of_nat (length d)\<rparr>)"
      unfolding next_chunk_def Let_def d_def [symmetric] using ne by simp
    have dr: "drop ?o ?b = d @ drop (?o + length d) ?b"
      by (metis append_take_drop_id add.commute d_def drop_drop length_take append_eq_conv_conj)
    have "length d \<le> CHUNK" by (simp add: d_def)
    from that(2) [OF n ne this] show thesis using off le dr by simp
  qed
qed

lemma fewer_left: "(n :: nat) - a < Suc k \<Longrightarrow> b = a + l \<Longrightarrow> l \<noteq> 0 \<Longrightarrow> b \<le> n \<Longrightarrow> n - b < k"
  by linarith

lemma read_all_content:
  assumes "unat (of_offset f) \<le> length (content fs (of_file f))"
    and "length (content fs (of_file f)) < 2 ^ 64"
    and "length (content fs (of_file f)) - unat (of_offset f) < length ns"
  shows "snd (read_all fs f ns) \<and>
    concat (map snd (fst (read_all fs f ns))) = drop (unat (of_offset f)) (content fs (of_file f)) \<and>
    (\<forall>c \<in> set (fst (read_all fs f ns)). length (snd c) \<le> CHUNK)"
  using assms
proof (induction fs f ns rule: read_all.induct)
  case (2 fs f n ns)
  show ?case
  proof (cases rule: next_chunk_cases [OF 2(2,3), of n])
    case 1
    then show ?thesis by simp
  next
    case (2 d f1)
    have "length d \<noteq> 0" using 2(2) by simp
    then have "length (content fs (of_file f1)) - unat (of_offset f1) < length ns"
      using fewer_left [of "length (content fs (of_file f))" "unat (of_offset f)" "length ns"] 2(5-7)
        \<open>length (content fs (of_file f)) - unat (of_offset f) < length (n # ns)\<close> by simp
    then have "snd (read_all fs f1 ns) \<and>
        concat (map snd (fst (read_all fs f1 ns))) = drop (unat (of_offset f1)) (content fs (of_file f1)) \<and>
        (\<forall>c \<in> set (fst (read_all fs f1 ns)). length (snd c) \<le> CHUNK)"
      using 2(1,5,7) "2.IH" "2.prems"(2) by simp
    then show ?thesis using 2(1,3,4,5) by (simp add: split_beta)
  qed
qed simp

text \<open>The chunks a sender produces are exactly the ones the receiver accepts next.\<close>

lemma sent_chunks_accepted:
  assumes "inc_ok (fs1, inc)" and "inc_received inc = of_offset f"
    and "unat (of_offset f) \<le> length (content fs (of_file f))"
    and "length (content fs (of_file f)) = unat (inc_expected inc)"
    and "unat (inc_expected inc) + CHUNK < 2 ^ 64"
    and "length (content fs (of_file f)) - unat (of_offset f) < length ns"
  shows "\<exists>fs2 inc2. part.push_all (fs1, inc) (fst (read_all fs f ns)) = Some (fs2, inc2) \<and>
    inc_received inc2 = inc_expected inc \<and> inc2 = inc\<lparr>inc_received := inc_received inc2\<rparr> \<and>
    f_names fs2 = f_names fs1 \<and> f_dirs fs2 = f_dirs fs1"
  using assms
proof (induction fs f ns arbitrary: fs1 inc rule: read_all.induct)
  case (2 fs f n ns)
  note IH = "2.IH" and prems = "2.prems"
  have lt: "length (content fs (of_file f)) < 2 ^ 64" using prems(4,5) by simp
  show ?case
  proof (cases rule: next_chunk_cases [OF prems(3) lt, of n])
    case 1
    have "inc_received inc = inc_expected inc" using 1(2) prems(2,4) by (intro unat_eqI) simp
    then show ?thesis using 1(1) by simp
  next
    case (2 d f1)
    have room: "unat (inc_expected inc) + length d < 2 ^ 64" using 2(3) prems(5) by simp
    have fits: "inc_received inc + of_nat (length d) \<le> inc_expected inc"
    proof -
      have "unat (of_nat (length d) :: u64) = length d" using room by (intro unat_of_nat_small) simp
      then have "unat (inc_received inc + of_nat (length d)) = unat (of_offset f1)"
        using 2(6,7) prems(2,4) lt by (subst unat_add_no_wrap) simp_all
      then show ?thesis using 2(7) prems(4) by (simp add: word_le_nat_alt)
    qed
    define inc1 where "inc1 = inc\<lparr>inc_received := inc_received inc + of_nat (length d)\<rparr>"
    define fs' where "fs' = fs_write fs1 (inc_file inc) (unat (of_offset f)) d"
    have w: "write_chunk fs1 inc (of_offset f) d None = (Inr inc1, fs')"
      using fits prems(2) by (auto simp: write_chunk_def inc1_def fs'_def)
    note r = write_chunk_Inr [OF prems(1) w room]
    have p: "inc_push (fs1, inc) (of_offset f) d = Some (fs', inc1)" using w room by (simp add: inc_push_def)
    have rec: "inc_received inc1 = of_offset f1"
      using r(4) 2(6) prems(2) by (intro unat_eqI) simp
    have "length d \<noteq> 0" using 2(2) by simp
    then have short: "length (content fs (of_file f1)) - unat (of_offset f1) < length ns"
      using fewer_left [of "length (content fs (of_file f))" "unat (of_offset f)" "length ns"] 2(5-7)
        prems(6) by simp
    have "\<exists>fs2 inc2. part.push_all (fs', inc1) (fst (read_all fs f1 ns)) = Some (fs2, inc2) \<and>
        inc_received inc2 = inc_expected inc1 \<and> inc2 = inc1\<lparr>inc_received := inc_received inc2\<rparr> \<and>
        f_names fs2 = f_names fs' \<and> f_dirs fs2 = f_dirs fs'"
      by (rule IH [OF 2(1) [symmetric] refl r(1) rec])
        (use 2(5,7) prems(4,5) short in \<open>simp_all add: inc1_def\<close>)
    then show ?thesis using p 2(1) by (simp add: split_beta inc1_def fs'_def)
  qed
qed simp

lemma finish_Inr:
  assumes "finish sha fs inc h env = (Inr p, fs1)"
  shows "p = inc_target inc" "inc_received inc = inc_expected inc"
    "\<exists>b. file_at fs (inc_part inc) = Some b \<and> sha b = h \<and> file_at fs1 (inc_target inc) = Some b"
    "q \<noteq> inc_target inc \<Longrightarrow> q \<noteq> inc_part inc \<Longrightarrow> file_at fs1 q = file_at fs q"
    "f_dirs fs1 = f_dirs fs" "f_data fs1 = f_data fs"
  using assms
  by (auto simp: finish_def hash_file_def fs_rename_def file_at_def
      split: if_splits option.splits)

text \<open>Every answer is yes.\<close>

definition disk_fine :: finish_env where
  "disk_fine = \<lparr>fi_flushed = True, fi_read = True, fi_removed = True, fi_renamed = True\<rparr>"

text \<open>
  C18. Nothing is delivered unverified: a transfer that finishes put at the target exactly the bytes
  of its part file, and their SHA-256 is the announced one. On any other outcome the target keeps what it had,
  and the disk is as it was, but for a part file with the wrong hash: it is gone if it could be removed, and
  stays if not, since the code does not look at the result of the removal.
\<close>

theorem delivered_means_verified:
  assumes "finish sha fs inc h env = (r, fs1)" and "inc_part inc = part_path (inc_target inc)"
  shows "(case r of
      Inr p \<Rightarrow> p = inc_target inc \<and> fi_flushed env \<and> inc_received inc = inc_expected inc \<and>
        (\<exists>b. file_at fs (inc_part inc) = Some b \<and> sha b = h \<and> file_at fs1 p = Some b) \<and>
        file_at fs1 (inc_part inc) = None
    | Inl e \<Rightarrow> file_at fs1 (inc_target inc) = file_at fs (inc_target inc) \<and>
        (e = Bad_Name \<longrightarrow> (\<exists>b. file_at fs (inc_part inc) = Some b \<and> sha b \<noteq> h \<and>
           file_at fs1 (inc_part inc) = (if fi_removed env then None else Some b))) \<and>
        (e \<noteq> Bad_Name \<longrightarrow> fs1 = fs)) \<and>
    (\<forall>q. q \<noteq> inc_target inc \<longrightarrow> q \<noteq> inc_part inc \<longrightarrow> file_at fs1 q = file_at fs q)"
  using assms part_path_neq [of "inc_target inc"]
  by (auto simp: finish_def hash_file_def fs_rename_def file_at_def remove_file_def
      split: if_splits option.splits)

theorem delivered_means_verified_witness:
  "let inc = \<lparr>inc_target = [lit ''b''], inc_part = part_path [lit ''b''], inc_file = 0,
         inc_expected = 2, inc_received = 2\<rparr>;
       fs = \<lparr>f_dirs = [[]], f_names = [(part_path [lit ''b''], 0)], f_data = [[1, 2]]\<rparr>
   in file_at (snd (finish (\<lambda>b. b) fs inc [1, 2] disk_fine)) [lit ''b''] = Some [1, 2]"
proof -
  define inc where "inc = \<lparr>inc_target = [lit ''b''], inc_part = part_path [lit ''b''], inc_file = 0,
         inc_expected = (2 :: u64), inc_received = 2\<rparr>"
  define fs where "fs = \<lparr>f_dirs = [[]], f_names = [(part_path [lit ''b''], 0)], f_data = [[1, 2 :: u8]]\<rparr>"
  obtain fs1 where f: "finish (\<lambda>b. b) fs inc [1, 2] disk_fine = (Inr [lit ''b''], fs1)"
    by (simp add: fs_def inc_def finish_def hash_file_def file_at_def content_def fs_rename_def
        is_dir_def hm_get_def disk_fine_def)
  have "inc_part inc = part_path (inc_target inc)" by (simp add: inc_def)
  from delivered_means_verified [OF f this]
  have "file_at fs1 [lit ''b''] = Some [1, 2]" by (auto simp: inc_def)
  then show ?thesis using f by (simp add: inc_def fs_def Let_def)
qed

text \<open>A part file that could not be removed: the next transfer of the same name resumes from it.\<close>

lemma bad_part_is_resumed:
  "let inc = \<lparr>inc_target = [lit ''b''], inc_part = part_path [lit ''b''], inc_file = 0,
         inc_expected = 2, inc_received = 2\<rparr>;
       fs = \<lparr>f_dirs = [[]], f_names = [(part_path [lit ''b''], 0)], f_data = [[6, 6]]\<rparr>;
       (r, fs1) = finish (\<lambda>b. b) fs inc [1, 2] (disk_fine\<lparr>fi_removed := False\<rparr>);
       (r1, fs2) = incoming_open fs1 [] (lit ''b'') 2 100 True
   in r = Inl Bad_Name \<and> (case r1 of Inr inc1 \<Rightarrow> inc_received inc1 = 2 \<and> file_at fs2 (inc_part inc1) = Some [6, 6] | Inl _ \<Rightarrow> False)"
  by code_simp

text \<open>The receiver's loop over the chunks, none of which meets a disk error.\<close>

fun write_all :: "fsys \<Rightarrow> incoming \<Rightarrow> (u64 \<times> u8 list) list \<Rightarrow> (fsys \<times> incoming) option" where
  "write_all fs inc [] = Some (fs, inc)"
| "write_all fs inc ((off, d) # cs) =
     (case write_chunk fs inc off d None of
        (Inl _, _) \<Rightarrow> None
      | (Inr inc1, fs1) \<Rightarrow> write_all fs1 inc1 cs)"

lemma push_all_write_all: "part.push_all (fs, inc) cs = Some r \<Longrightarrow> write_all fs inc cs = Some r"
proof (induction fs inc cs rule: write_all.induct)
  case (2 fs inc off d cs)
  from 2(2) obtain fs1 inc1 where p: "inc_push (fs, inc) off d = Some (fs1, inc1)"
      "part.push_all (fs1, inc1) cs = Some r"
    by (auto split: option.splits)
  then have w: "write_chunk fs inc off d None = (Inr inc1, fs1)"
    by (auto simp: inc_push_def split: if_splits prod.splits sum.splits)
  then show ?case using 2(1) p(2) by simp
qed simp

lemma open_inc_ok:
  assumes "incoming_open fs dir rel expected maximum resume = (Inr inc, fs1)" and "fs_ok fs"
    and "length (content fs1 (inc_file inc)) < 2 ^ 64"
  shows "inc_ok (fs1, inc)" "inc_expected inc = expected" "inc_part inc = part_path (inc_target inc)"
    "hm_get (f_names fs1) (inc_part inc) = Some (inc_file inc)" "is_dir fs1 (butlast (inc_target inc))"
    "inc_received inc \<le> expected" "fs_ok fs1"
proof -
  obtain r fs0 where o: "create_dir_all fs (butlast (inc_target inc)) = Some fs0"
      "inc_part inc = part_path (inc_target inc)" "inc_expected inc = expected"
      "inc_received inc \<le> expected"
      "open_write fs0 (inc_part inc) (inc_received inc = 0) = Some (inc_file inc, fs1)"
      "inc_received inc \<noteq> 0 \<longrightarrow> resume \<and> (\<exists>b. file_at fs0 (inc_part inc) = Some b \<and> inc_received inc = of_nat (length b))"
    using assms(1) by (rule incoming_open_Inr) (rule that, assumption+)
  note c = create_dir_all_Some [OF o(1)]
  have ok0: "fs_ok fs0" using assms(2) c by (simp add: fs_ok_def)
  note w = open_write_Some [OF o(5) ok0]
  have "length (content fs1 (inc_file inc)) = unat (inc_received inc)"
  proof (cases "inc_received inc = 0")
    case True
    then show ?thesis using w(6) by simp
  next
    case False
    then obtain b where b: "file_at fs0 (inc_part inc) = Some b" "inc_received inc = of_nat (length b)"
      using o(6) by blast
    then have "content fs1 (inc_file inc) = b" using w(6) False by simp
    then show ?thesis using b(2) assms(3) by (simp add: unat_of_nat_small)
  qed
  then show "inc_ok (fs1, inc)" using w(2) o(3,4) by (simp add: inc_ok_def)
  show "is_dir fs1 (butlast (inc_target inc))" using c(3) w(4) by (simp add: is_dir_def)
  show "hm_get (f_names fs1) (inc_part inc) = Some (inc_file inc)" "fs_ok fs1" by (rule w(1,3))+
  show "inc_expected inc = expected" "inc_part inc = part_path (inc_target inc)"
    "inc_received inc \<le> expected" by (rule o(2-4))+
qed

text \<open>
  C19. A transfer reproduces the file, resumed or not: when the part file holds the source's first
  bytes, the sender continuing at the offset the receiver named, in whatever pieces its reads
  return, makes the receiver finish with a target that is the source byte for byte.
\<close>

theorem transfer_reproduces_source:
  assumes opened: "incoming_open fs dir rel (of_nat (length src)) maximum resume = (Inr inc, fs1)"
    and ok: "fs_ok fs" and src: "content sfs (of_file f) = src" and room: "length src + CHUNK < 2 ^ 64"
    and prefix: "content fs1 (inc_file inc) = take (unat (inc_received inc)) src"
    and reads: "length src < length ns" and target: "\<not> is_dir fs1 (inc_target inc)"
  shows "\<exists>fs2 inc2 fs3. write_all fs1 inc (fst (read_all sfs (seek_to f (inc_received inc)) ns)) = Some (fs2, inc2) \<and>
    finish sha fs2 inc2 (sha src) \<lparr>fi_flushed = True, fi_read = True, fi_removed = removed, fi_renamed = True\<rparr> = (Inr (inc_target inc), fs3) \<and>
    file_at fs3 (inc_target inc) = Some src"
proof -
  let ?f = "seek_to f (inc_received inc)"
  have small: "length (content fs1 (inc_file inc)) < 2 ^ 64" using prefix room by simp
  note o = open_inc_ok [OF opened ok small]
  have exp: "unat (inc_expected inc) = length src" using o(2) room by (simp add: unat_of_nat_small)
  have le: "unat (inc_received inc) \<le> length src" using o(2,6) exp by (simp add: word_le_nat_alt)
  have f: "of_file ?f = of_file f" "of_offset ?f = inc_received inc" by (simp_all add: seek_to_def)
  have le': "unat (of_offset ?f) \<le> length (content sfs (of_file ?f))" using le src f by simp
  have len: "length (content sfs (of_file ?f)) = unat (inc_expected inc)" using exp src f by simp
  have room': "unat (inc_expected inc) + CHUNK < 2 ^ 64" using exp room by simp
  have less: "length (content sfs (of_file ?f)) - unat (of_offset ?f) < length ns"
    using reads len exp by linarith
  obtain fs2 inc2 where p: "part.push_all (fs1, inc) (fst (read_all sfs ?f ns)) = Some (fs2, inc2)"
      "inc_received inc2 = inc_expected inc" "inc2 = inc\<lparr>inc_received := inc_received inc2\<rparr>"
      "f_names fs2 = f_names fs1" "f_dirs fs2 = f_dirs fs1"
    using sent_chunks_accepted [OF o(1) f(2) [symmetric] le' len room' less] by blast
  have "concat (map snd (fst (read_all sfs ?f ns))) = drop (unat (inc_received inc)) src"
    using read_all_content [OF le', of ns] room reads src f by simp
  then have c: "content fs2 (inc_file inc2) = src"
    using part.push_all_Some [OF o(1) p(1)] prefix by simp
  have same: "inc_file inc2 = inc_file inc" "inc_part inc2 = inc_part inc"
      "inc_target inc2 = inc_target inc" "inc_expected inc2 = inc_expected inc"
    by (subst p(3), simp)+
  have "finish sha fs2 inc2 (sha src) \<lparr>fi_flushed = True, fi_read = True, fi_removed = removed, fi_renamed = True\<rparr> =
      (Inr (inc_target inc), fs2\<lparr>f_names := hm_insert (inc_target inc) (inc_file inc)
         (hm_remove (inc_part inc) (f_names fs2))\<rparr>)"
    using p(2,4,5) same o(4,5) target c
    by (simp add: finish_def hash_file_def file_at_def fs_rename_def is_dir_def)
  moreover have "file_at (fs2\<lparr>f_names := hm_insert (inc_target inc) (inc_file inc)
         (hm_remove (inc_part inc) (f_names fs2))\<rparr>) (inc_target inc) = Some src"
    using c same by (simp add: file_at_def)
  ultimately show ?thesis using push_all_write_all [OF p(1)] by blast
qed

theorem transfer_reproduces_source_witness:
  "case incoming_open demo_fs [lit ''d''] (lit ''b'') 4 100 False of
     (Inl _, _) \<Rightarrow> False
   | (Inr inc, fs1) \<Rightarrow>
       \<exists>fs2 inc2 fs3. finish (\<lambda>b. b) fs2 inc2 [5, 6, 7, 8] disk_fine = (Inr [lit ''d'', lit ''b''], fs3) \<and>
         file_at fs3 [lit ''d'', lit ''b''] = Some [5, 6, 7, 8]"
proof -
  define src where "src = [5, 6, 7, 8 :: u8]"
  define sfs where "sfs = \<lparr>f_dirs = [[]], f_names = [([lit ''s''], 0)], f_data = [src]\<rparr>"
  define f where "f = \<lparr>of_file = 0, of_size = 4, of_offset = (0 :: u64)\<rparr>"
  define inc where "inc = \<lparr>inc_target = [lit ''d'', lit ''b''], inc_part = [lit ''d'', lit ''b.part''],
      inc_file = 1, inc_expected = (4 :: u64), inc_received = (0 :: u64)\<rparr>"
  define fs1 where "fs1 = demo_fs\<lparr>f_names := [([lit ''d'', lit ''a''], 0), ([lit ''d'', lit ''b.part''], 1)],
      f_data := [[1, 2, 3], []]\<rparr>"
  have o: "incoming_open demo_fs [lit ''d''] (lit ''b'') (of_nat (length src)) 100 False = (Inr inc, fs1)"
    using demo_open by (simp add: src_def inc_def fs1_def)
  have c: "content sfs (of_file f) = src" by (simp add: sfs_def f_def content_def)
  have r: "length src + CHUNK < 2 ^ 64" "length src < length [0 :: nat, 0, 0, 0, 0]"
    by (simp_all add: src_def CHUNK_def)
  have pre: "content fs1 (inc_file inc) = take (unat (inc_received inc)) src"
    by (simp add: fs1_def inc_def content_def)
  have t: "\<not> is_dir fs1 (inc_target inc)" by (simp add: fs1_def demo_fs_def inc_def is_dir_def)
  have "inc_target inc = [lit ''d'', lit ''b'']" by (simp add: inc_def)
  then have "\<exists>fs2 inc2 fs3. finish (\<lambda>b. b) fs2 inc2 src disk_fine = (Inr [lit ''d'', lit ''b''], fs3) \<and>
         file_at fs3 [lit ''d'', lit ''b''] = Some src"
    using transfer_reproduces_source [OF o demo_fs_ok c r(1) pre r(2) t, of "\<lambda>b. b" True, folded disk_fine_def] by auto
  then show ?thesis using o by (simp add: src_def)
qed

section \<open>Folders\<close>

fun tree_names :: "tree \<Rightarrow> rstr set" where
  "tree_names (T_Dir es) = (\<Union>(n, t) \<in> set es. insert n (tree_names t))"
| "tree_names _ = {}"

lemma join_with_snoc: "ps \<noteq> [] \<Longrightarrow> join_with c (ps @ [p]) = join_with c ps @ c # p"
proof (induction ps rule: induct_list012)
  case (3 a b zs)
  then show ?case by simp
qed simp_all

lemma walk_names:
  shows "(p, w) \<in> set (walk root dir es d) \<Longrightarrow>
      \<exists>ns. p = dir @ ns \<and> ns \<noteq> [] \<and> w = join_with 47 (root # ns) \<and> set ns \<subseteq> tree_names (T_Dir es)"
    and "(p, w) \<in> set (walk_entry root dir n t d) \<Longrightarrow>
      \<exists>ns. p = dir @ ns \<and> ns \<noteq> [] \<and> w = join_with 47 (root # ns) \<and> set ns \<subseteq> insert n (tree_names t)"
proof (induction root dir es d and root dir n t d rule: walk_walk_entry.induct)
  case (2 root dir n t es depth)
  then consider "(p, w) \<in> set (walk_entry root dir n t depth)" "\<not> 32 < depth"
    | "(p, w) \<in> set (walk root dir es depth)" "\<not> 32 < depth"
    by (auto split: if_splits)
  then show ?case using "2.IH" by cases fastforce+
next
  case (4 root dir n es depth)
  then obtain ns where ns: "p = (dir @ [n]) @ ns" "w = join_with 47 ((root @ 47 # n) # ns)"
      "set ns \<subseteq> tree_names (T_Dir es)" "ns \<noteq> []" by auto
  have "join_with 47 ((root @ 47 # n) # ns) = join_with 47 (root # n # ns)"
    using ns(4) by (cases ns) simp_all
  then show ?case using ns by (intro exI [of _ "n # ns"]) auto
qed auto

text \<open>
  What one side offers the other can take: every file a dropped folder expands to is offered
  under the path below that folder's parent, and when its components are names the receiver
  accepts (and the whole is at most 1,000 bytes) the receiver recovers exactly that relative path.
\<close>

theorem expanded_name_is_relative_path:
  assumes "(p, w) \<in> set (expand_paths [(parent @ [name], T_Dir es)])"
    and "valid_component name" and "\<forall>n \<in> tree_names (T_Dir es). valid_component n" and "str_len w \<le> 1000"
  shows "\<exists>rel. p = parent @ rel \<and> hd rel = name \<and> sanitize_relative w = Inr rel"
proof -
  have w: "(p, w) \<in> set (walk name (parent @ [name]) es 0)"
    using assms(1) by (simp add: expand_paths_def)
  obtain ns where ns: "p = (parent @ [name]) @ ns" "w = join_with 47 (name # ns)" "ns \<noteq> []"
      "set ns \<subseteq> tree_names (T_Dir es)"
    using walk_names(1) [OF w] by blast
  have v: "\<forall>c \<in> set (name # ns). valid_component c" using ns(4) assms(2,3) by auto
  have slash: "\<forall>c \<in> set (name # ns). 47 \<notin> set c"
    using v valid_normal by (auto simp: normal_component_def)
  have sp: "split_on 47 w = name # ns" unfolding ns(2) by (rule split_join [OF _ slash]) simp
  have "w \<noteq> []" using ns(2,3) by (cases ns) auto
  then have "sanitize_relative w = Inr (name # ns)" using sp v assms(4) by (simp add: sanitize_Inr)
  then show ?thesis using ns(1) by (intro exI [of _ "name # ns"]) simp
qed

theorem expanded_name_is_relative_path_witness:
  "\<exists>rel. [lit ''proj'', lit ''sub'', lit ''b.txt''] = [] @ rel \<and> hd rel = lit ''proj'' \<and>
     sanitize_relative (lit ''proj/sub/b.txt'') = Inr rel"
proof (rule expanded_name_is_relative_path)
  let ?es = "[(lit ''sub'', T_Dir [(lit ''b.txt'', T_File)]), (lit ''link'', T_Other)]"
  show "([lit ''proj'', lit ''sub'', lit ''b.txt''], lit ''proj/sub/b.txt'') \<in> set (expand_paths [([] @ [lit ''proj''], T_Dir ?es)])"
    by (simp add: expand_paths_def)
  show "valid_component (lit ''proj'')" by code_simp
  have "valid_component (lit ''sub'')" "valid_component (lit ''b.txt'')" "valid_component (lit ''link'')"
    by code_simp+
  then show "\<forall>n \<in> tree_names (T_Dir ?es). valid_component n" by simp
  show "str_len (lit ''proj/sub/b.txt'') \<le> 1000" by code_simp
qed

section \<open>Where "never overwrites" ends\<close>

text \<open>
  A file of the user's that happens to be called \<open>a.part\<close> is taken for the rest of an earlier
  transfer of \<open>a\<close>: resuming into it, which is what the receiver does when \<open>a.part\<close> exists and
  \<open>a\<close> does not, empties it.
\<close>

lemma part_named_file_is_lost:
  "let fs = \<lparr>f_dirs = [[]], f_names = [([lit ''a.part''], 0)], f_data = [[1, 2, 3]]\<rparr>;
       (r, fs1) = incoming_open fs [] (lit ''a'') 1 100 True
   in file_at fs [lit ''a.part''] = Some [1, 2, 3] \<and> file_at fs1 [lit ''a.part''] = Some []"
  by code_simp

text \<open>When the name and its 9,999 variants are taken the fallback is the name itself.\<close>

lemma numbers_exhausted:
  assumes "all_numbers_taken fs dir r" and "\<not> path_free fs (dir @ r)"
  shows "unique_path fs dir r = dir @ r"
proof (cases rule: unique_path_cases [of fs dir r])
  case (2 i)
  then show ?thesis using assms(1) by (auto simp: all_numbers_taken_def)
qed simp_all

end
