(* ===== verification/Transfers_Props.thy ===== *)
theory Transfers_Props
  imports Transfers Files_Props
begin

text \<open>
  Properties of the file manager over every sequence of its operations: what is received was
  asked for, in an answer to the offer last shown under its number; nothing outside the download directory is touched, what switching file transfer off
  stops, and when the loop that starts queued downloads ends.
\<close>

section \<open>Sequences of operations\<close>

datatype fm_op =
    Op_Msg file_msg file_env instant
  | Op_Send file_env instant
  | Op_Download rstr instant
  | Op_List rstr
  | Op_Pause u64
  | Op_Resume u64
  | Op_Cancel u64
  | Op_Retry u64 instant
  | Op_Respond u64 bool instant
  | Op_Allow bool
  | Op_Stream nat "nat option" bool instant

fun fm_apply :: "(u8 list \<Rightarrow> u8 list) \<Rightarrow> manager \<Rightarrow> fm_op \<Rightarrow> manager option" where
  "fm_apply sha m (Op_Msg x env now) = on_file_msg sha m x env now"
| "fm_apply sha m (Op_Send env now) = Some (snd (send_paths m env now))"
| "fm_apply sha m (Op_Download p now) = Some (snd (download m p now))"
| "fm_apply sha m (Op_List p) = Some (list_dir m p)"
| "fm_apply sha m (Op_Pause i) = Some (t_pause m i)"
| "fm_apply sha m (Op_Resume i) = Some (t_resume m i)"
| "fm_apply sha m (Op_Cancel i) = Some (t_cancel m i)"
| "fm_apply sha m (Op_Retry i now) = Some (snd (retry m i now))"
| "fm_apply sha m (Op_Respond i accept now) = Some (respond m i accept now)"
| "fm_apply sha m (Op_Allow a) = Some (fm_set_allowed m a)"
| "fm_apply sha m (Op_Stream k n up now) = Some (stream_step sha m k n up now)"

fun fm_run :: "(u8 list \<Rightarrow> u8 list) \<Rightarrow> manager \<Rightarrow> fm_op list \<Rightarrow> manager option" where
  "fm_run sha m [] = Some m"
| "fm_run sha m (op # ops) = (case fm_apply sha m op of None \<Rightarrow> None | Some m1 \<Rightarrow> fm_run sha m1 ops)"

lemma fm_run_append:
  "fm_run sha m (xs @ ys) = (case fm_run sha m xs of None \<Rightarrow> None | Some m1 \<Rightarrow> fm_run sha m1 ys)"
  by (induction sha m xs rule: fm_run.induct) (auto split: option.split)

lemma fm_run_induct [consumes 1, case_names Nil snoc]:
  assumes "fm_run sha m0 ops = Some m"
    and "P [] m0"
    and "\<And>ops m op m1. fm_run sha m0 ops = Some m \<Longrightarrow> P ops m \<Longrightarrow> fm_apply sha m op = Some m1 \<Longrightarrow> P (ops @ [op]) m1"
  shows "P ops m"
  using assms(1)
proof (induction ops arbitrary: m rule: rev_induct)
  case Nil
  then show ?case using assms(2) by simp
next
  case (snoc op ops)
  then show ?case using assms(3) by (auto simp: fm_run_append split: option.splits)
qed

section \<open>What each helper keeps\<close>

named_theorems fm_simps "fields the helpers leave alone"

lemma fm_send_fields [fm_simps]:
  "fm_transfers (fm_send m x) = fm_transfers m" "fm_fs (fm_send m x) = fm_fs m"
  "fm_policy (fm_send m x) = fm_policy m" "fm_until (fm_send m x) = fm_until m"
  "fm_allowed (fm_send m x) = fm_allowed m" "fm_approval (fm_send m x) = fm_approval m"
  "fm_sent (fm_send m x) = fm_sent m @ [x]" "fm_ctls (fm_send m x) = fm_ctls m"
  by (simp_all add: fm_send_def)

lemma fm_emit_fields [fm_simps]:
  "fm_transfers (fm_emit m e) = fm_transfers m" "fm_fs (fm_emit m e) = fm_fs m"
  "fm_policy (fm_emit m e) = fm_policy m" "fm_until (fm_emit m e) = fm_until m"
  "fm_allowed (fm_emit m e) = fm_allowed m" "fm_approval (fm_emit m e) = fm_approval m"
  "fm_sent (fm_emit m e) = fm_sent m" "fm_ctls (fm_emit m e) = fm_ctls m"
  by (simp_all add: fm_emit_def)

lemma t_update_fields [fm_simps]:
  "fm_fs (t_update m i f) = fm_fs m" "fm_policy (t_update m i f) = fm_policy m"
  "fm_until (t_update m i f) = fm_until m" "fm_allowed (t_update m i f) = fm_allowed m"
  "fm_approval (t_update m i f) = fm_approval m" "fm_sent (t_update m i f) = fm_sent m"
  "fm_ctls (t_update m i f) = fm_ctls m"
  "hm_get (fm_transfers (t_update m i f)) j =
     (if i = j then map_option f (hm_get (fm_transfers m) i) else hm_get (fm_transfers m) j)"
  by (auto simp: t_update_def fm_simps split: option.split)

lemma t_fail_fields [fm_simps]:
  "fm_fs (t_fail m i w) = fm_fs m" "fm_policy (t_fail m i w) = fm_policy m"
  "fm_until (t_fail m i w) = fm_until m" "fm_allowed (t_fail m i w) = fm_allowed m"
  "fm_approval (t_fail m i w) = fm_approval m" "fm_sent (t_fail m i w) = fm_sent m"
  by (simp_all add: t_fail_def fm_simps)

lemma track_fields [fm_simps]:
  "fm_fs (track m i n s u p st now) = fm_fs m" "fm_policy (track m i n s u p st now) = fm_policy m"
  "fm_until (track m i n s u p st now) = fm_until m" "fm_allowed (track m i n s u p st now) = fm_allowed m"
  "fm_approval (track m i n s u p st now) = fm_approval m"
  by (simp_all add: track_def Let_def fm_simps)

lemma progress_entry_keeps [fm_simps]:
  "tr_incoming (snd (progress_entry t n now)) = tr_incoming t"
  "tr_queued (snd (progress_entry t n now)) = tr_queued t"
  "tr_ctl (snd (progress_entry t n now)) = tr_ctl t"
  "ti_upload (tr_info (snd (progress_entry t n now))) = ti_upload (tr_info t)"
  "ti_status (tr_info (snd (progress_entry t n now))) = ti_status (tr_info t)"
  "ti_size (tr_info (snd (progress_entry t n now))) = ti_size (tr_info t)"
  "ti_name (tr_info (snd (progress_entry t n now))) = ti_name (tr_info t)"
  by (simp_all add: progress_entry_def Let_def)

lemma progress_fields [fm_simps]:
  "fm_fs (progress m i n now) = fm_fs m" "fm_policy (progress m i n now) = fm_policy m"
  "fm_until (progress m i n now) = fm_until m" "fm_allowed (progress m i n now) = fm_allowed m"
  "fm_approval (progress m i n now) = fm_approval m" "fm_sent (progress m i n now) = fm_sent m"
  "fm_ctls (progress m i n now) = fm_ctls m"
  "hm_get (fm_transfers (progress m i n now)) j =
     (if i = j then map_option (\<lambda>t. snd (progress_entry t n now)) (hm_get (fm_transfers m) i)
      else hm_get (fm_transfers m) j)"
  by (auto simp: progress_def Let_def fm_simps split: option.split prod.split)

lemma set_ctl_fields [fm_simps]:
  "fm_fs (set_ctl m i f) = fm_fs m" "fm_policy (set_ctl m i f) = fm_policy m"
  "fm_until (set_ctl m i f) = fm_until m" "fm_allowed (set_ctl m i f) = fm_allowed m"
  "fm_approval (set_ctl m i f) = fm_approval m" "fm_transfers (set_ctl m i f) = fm_transfers m"
  "fm_sent (set_ctl m i f) = fm_sent m"
  by (simp_all add: set_ctl_def split: option.split)

lemma stream_fields [fm_simps]:
  "fm_fs (stream_end m k) = fm_fs m" "fm_policy (stream_end m k) = fm_policy m"
  "fm_until (stream_end m k) = fm_until m" "fm_allowed (stream_end m k) = fm_allowed m"
  "fm_transfers (stream_end m k) = fm_transfers m"
  "fm_fs (stream_set m k a) = fm_fs m" "fm_policy (stream_set m k a) = fm_policy m"
  "fm_until (stream_set m k a) = fm_until m" "fm_allowed (stream_set m k a) = fm_allowed m"
  "fm_transfers (stream_set m k a) = fm_transfers m"
  "fm_fs (send_bulk m x) = fm_fs m" "fm_policy (send_bulk m x) = fm_policy m"
  "fm_until (send_bulk m x) = fm_until m" "fm_allowed (send_bulk m x) = fm_allowed m"
  "fm_transfers (send_bulk m x) = fm_transfers m"
  by (simp_all add: stream_end_def stream_set_def send_bulk_def)

section \<open>What a table entry receives\<close>

text \<open>
  \<open>grows S m m'\<close>: every entry of \<open>m'\<close> holds an incoming file, or waits in the queue for one, only
  if that entry did in \<open>m\<close>, under the same name and size, or \<open>S\<close> has its id, name and size.
\<close>

definition receiving :: "transfer \<Rightarrow> bool" where
  "receiving t \<longleftrightarrow> tr_incoming t \<noteq> None \<or> tr_queued t \<and> \<not> ti_upload (tr_info t)"

definition meant :: "transfer \<Rightarrow> rstr \<times> u64" where
  "meant t = (ti_name (tr_info t), ti_size (tr_info t))"

definition wants :: "manager \<Rightarrow> u64 \<Rightarrow> rstr \<times> u64 \<Rightarrow> bool" where
  "wants m i x \<longleftrightarrow> (\<exists>t. hm_get (fm_transfers m) i = Some t \<and> receiving t \<and> meant t = x)"

definition grows :: "(u64 \<times> rstr \<times> u64) set \<Rightarrow> manager \<Rightarrow> manager \<Rightarrow> bool" where
  "grows S m m' \<longleftrightarrow> (\<forall>i x. wants m' i x \<longrightarrow> wants m i x \<or> (i, x) \<in> S)"

lemma grows_refl [intro]: "grows S m m"
  by (simp add: grows_def)

lemma grows_trans: "grows S m m1 \<Longrightarrow> grows S m1 m2 \<Longrightarrow> grows S m m2"
  unfolding grows_def by blast

lemma grows_transfers: "fm_transfers m' = fm_transfers m \<Longrightarrow> grows S m m'"
  by (simp add: grows_def wants_def)

lemma grows_mono: "grows S m m' \<Longrightarrow> S \<subseteq> T \<Longrightarrow> grows T m m'"
  unfolding grows_def by blast

lemma grows_cong: "fm_transfers m1 = fm_transfers m \<Longrightarrow> grows S m1 m' \<longleftrightarrow> grows S m m'"
  by (simp add: grows_def wants_def)

lemma grows_update:
  "(\<And>t. hm_get (fm_transfers m) i = Some t \<Longrightarrow> receiving (f t) \<Longrightarrow>
      receiving t \<and> meant (f t) = meant t \<or> (i, meant (f t)) \<in> S) \<Longrightarrow> grows S m (t_update m i f)"
  by (fastforce simp: grows_def wants_def fm_simps split: if_splits)

lemma grows_insert: 
  "hm_get (fm_transfers m) i = Some t0 \<Longrightarrow> (receiving t \<Longrightarrow> receiving t0 \<and> meant t = meant t0 \<or> (i, meant t) \<in> S) \<Longrightarrow>
     fm_transfers m' = hm_insert i t (fm_transfers m) \<Longrightarrow> grows S m m'"
  by (auto simp: grows_def wants_def split: if_splits)

lemma grows_other_fields [simp]:
  "grows S (m\<lparr>fm_allowed := a\<rparr>) r = grows S m r" "grows S m (r\<lparr>fm_allowed := a\<rparr>) = grows S m r"
  "grows S (m\<lparr>fm_approval := p\<rparr>) r = grows S m r" "grows S m (r\<lparr>fm_approval := p\<rparr>) = grows S m r"
  by (simp_all add: grows_def wants_def)

lemma grows_ctl_update:
  "(\<And>t. receiving (f t) \<Longrightarrow> receiving t \<and> meant (f t) = meant t) \<Longrightarrow> grows S m (t_update (set_ctl m i g) j f)"
  by (rule grows_trans [OF grows_transfers grows_update]) (simp_all add: fm_simps)

lemma grows_fail [intro]: "grows S m (t_fail m i w)"
  unfolding t_fail_def by (rule grows_update) (simp add: receiving_def meant_def)

lemma grows_track [intro]: "grows S m (track m i n s u p st now)"
  by (auto simp: grows_def wants_def track_def Let_def fm_simps receiving_def split: if_splits)

lemma grows_progress [intro]: "grows S m (progress m i n now)"
  by (auto simp: grows_def wants_def meant_def fm_simps receiving_def split: if_splits)

lemma grows_offer [intro]: "grows S m (snd (t_offer m p n now))"
proof -
  have "grows S m (track (snd (alloc_id m)) i n s True p TS_Pending now)" for i s
    by (rule grows_trans [OF grows_transfers grows_track]) (simp add: alloc_id_def)
  then show ?thesis
    by (auto simp: t_offer_def Let_def alloc_id_def grows_def wants_def fm_simps split: option.split)
qed

lemma grows_foldl: "(\<And>m x. grows S m (f m x)) \<Longrightarrow> grows S m (foldl f m xs)"
  by (induction xs arbitrary: m) (auto intro: grows_trans)

lemma grows_offer_each [intro]: "grows S m (snd (offer_each m fs now))"
proof (induction m fs now rule: offer_each.induct)
  case (2 m p n fs now)
  then show ?case using grows_offer [of S m p n now]
    by (auto split: prod.split sum.split intro: grows_trans)
qed auto

lemma send_paths_state:
  "snd (send_paths m env now) =
     (if \<not> fm_allowed m then m
      else case fe_expanded env of None \<Rightarrow> m | Some fs \<Rightarrow> snd (offer_each m fs now))"
  by (auto simp: send_paths_def split: option.split prod.split sum.split)

lemma grows_start_incoming:
  assumes "\<And>t. hm_get (fm_transfers m) i = Some t \<Longrightarrow> meant t = (name, sz)"
  shows "grows (insert (i, name, sz) S) m (start_incoming m i name sz now)"
proof (cases "incoming_open (fm_fs m) (fp_dir (fm_policy m)) name sz (fp_max_size (fm_policy m))
        (resumes (fm_fs m) (fp_dir (fm_policy m)) name)")
  case (Pair r fs1)
  show ?thesis
  proof (cases r)
    case (Inl e)
    have "grows (insert (i, name, sz) S) m (fm_send (m\<lparr>fm_fs := fs1\<rparr>) (F_Reject i (error_text e)))"
      by (rule grows_transfers) (simp add: fm_simps)
    then show ?thesis
      using Pair Inl by (auto simp: start_incoming_def Let_def intro: grows_trans)
  next
    case (Inr inc)
    define m1 where "m1 = m\<lparr>fm_fs := fs1\<rparr>"
    define m2 where "m2 = (if hm_contains (fm_transfers m1) i then m1
        else track m1 i name sz False (fp_dir (fm_policy m) @ split_on 47 name) TS_Active now)"
    have "grows (insert (i, name, sz) S) m m1" by (rule grows_transfers) (simp add: m1_def)
    moreover have "grows (insert (i, name, sz) S) m1 m2" unfolding m2_def by auto
    moreover have "meant t = (name, sz)" if "hm_get (fm_transfers m2) i = Some t" for t
      using that assms
      by (auto simp: m2_def m1_def hm_contains_def track_def Let_def fm_simps meant_def split: if_splits)
    then have "grows (insert (i, name, sz) S) m2 (t_update m2 i f)" if "\<And>t. meant (f t) = meant t" for f
      using that by (intro grows_update) simp
    ultimately have g: "grows (insert (i, name, sz) S) m (t_update m2 i f)" if "\<And>t. meant (f t) = meant t" for f
      using that by (blast intro: grows_trans)
    show ?thesis
      unfolding start_incoming_def Let_def Pair prod.case Inr sum.case m1_def [symmetric]
        m2_def [symmetric]
      by (rule grows_trans [OF g grows_transfers]) (simp_all add: fm_simps meant_def)
  qed
qed

lemma grows_accept_incoming:
  assumes "hm_get (fm_transfers m) i = None"
  shows "grows (insert (i, name, sz) S) m (accept_incoming m i name sz now)"
proof -
  have "grows (insert (i, name, sz) S) m (let m1 = track m i name sz False [] TS_Pending now
      in case hm_get (fm_transfers m1) i of None \<Rightarrow> m1
         | Some t \<Rightarrow> m1\<lparr>fm_transfers := hm_insert i (t\<lparr>tr_queued := True\<rparr>) (fm_transfers m1)\<rparr>)"
    using grows_track [of "insert (i, name, sz) S" m i name sz False "[]" TS_Pending now]
    by (auto simp: grows_def wants_def Let_def track_def meant_def fm_simps split: option.split if_splits)
  moreover have "grows (insert (i, name, sz) S) m (start_incoming m i name sz now)"
    by (rule grows_start_incoming) (use assms in simp)
  ultimately show ?thesis by (simp add: accept_incoming_def)
qed

text \<open>The loop only starts what already waited.\<close>

lemma next_queued_Some:
  assumes "next_queued m = Some (i, t)" and "hm_wf (fm_transfers m)"
  shows "hm_get (fm_transfers m) i = Some t" "tr_queued t" "\<not> ti_upload (tr_info t)"
proof -
  have "(i, t) \<in> set (fm_transfers m) \<and> tr_queued t \<and> \<not> ti_upload (tr_info t)"
    using assms(1) by (auto simp: next_queued_def find_Some_iff dest: nth_mem)
  then show "hm_get (fm_transfers m) i = Some t" "tr_queued t" "\<not> ti_upload (tr_info t)"
    using assms(2) hm_get_in_wf by auto
qed

lemma start_queued_inv:
  assumes "start_queued m now = Some r" and "I m"
    and "\<And>m i t. I m \<Longrightarrow> next_queued m = Some (i, t) \<Longrightarrow>
      I (start_incoming m i (ti_name (tr_info t)) (ti_size (tr_info t)) now)"
  shows "I r"
proof -
  let ?J = "\<lambda>now. \<forall>m i t. I m \<longrightarrow> next_queued m = Some (i, t) \<longrightarrow>
      I (start_incoming m i (ti_name (tr_info t)) (ti_size (tr_info t)) now)"
  have "I m \<longrightarrow> ?J now \<longrightarrow> I r"
    by (rule start_queued.raw_induct [OF _ assms(1), where P = "\<lambda>m now r. I m \<longrightarrow> ?J now \<longrightarrow> I r"])
      (auto split: if_splits option.splits)
  then show ?thesis using assms(2,3) by blast
qed

lemma fm_wf_helpers [fm_simps]:
  "hm_wf (fm_transfers m) \<Longrightarrow> hm_wf (fm_transfers (t_update m i f))"
  "hm_wf (fm_transfers m) \<Longrightarrow> hm_wf (fm_transfers (t_fail m i w))"
  "hm_wf (fm_transfers m) \<Longrightarrow> hm_wf (fm_transfers (track m i n s u p st now))"
  "hm_wf (fm_transfers m) \<Longrightarrow> hm_wf (fm_transfers (progress m i k now))"
  "hm_wf (fm_transfers m) \<Longrightarrow> hm_wf (fm_transfers (snd (t_offer m q n now)))"
  by (auto simp: t_fail_def t_update_def track_def progress_def t_offer_def alloc_id_def Let_def fm_simps
      split: option.split prod.split)

lemma wf_start_incoming: "hm_wf (fm_transfers m) \<Longrightarrow> hm_wf (fm_transfers (start_incoming m i n s now))"
  by (auto simp: start_incoming_def Let_def fm_simps split: prod.split sum.split)

lemma wf_accept_incoming: "hm_wf (fm_transfers m) \<Longrightarrow> hm_wf (fm_transfers (accept_incoming m i n s now))"
  by (auto simp: accept_incoming_def Let_def fm_simps wf_start_incoming split: option.split)

lemma wf_start_queued: "start_queued m now = Some r \<Longrightarrow> hm_wf (fm_transfers m) \<Longrightarrow> hm_wf (fm_transfers r)"
  by (erule start_queued_inv) (auto intro: wf_start_incoming)

lemma wf_foldl:
  "(\<And>m x. hm_wf (fm_transfers m) \<Longrightarrow> hm_wf (fm_transfers (f m x))) \<Longrightarrow> hm_wf (fm_transfers m) \<Longrightarrow>
     hm_wf (fm_transfers (foldl f m xs))"
  by (induction xs arbitrary: m) auto

lemma wf_offer_each: "hm_wf (fm_transfers m) \<Longrightarrow> hm_wf (fm_transfers (snd (offer_each m fs now)))"
proof (induction m fs now rule: offer_each.induct)
  case (2 m p n fs now)
  then show ?case using fm_wf_helpers(5) [of m p n now] by (auto split: prod.split sum.split)
qed simp

lemma wf_cancel: "hm_wf (fm_transfers m) \<Longrightarrow> hm_wf (fm_transfers (t_cancel m i))"
  by (simp add: t_cancel_def fm_simps)

lemma wf_on_done:
  assumes "on_done sha m i h env now = Some r" and "hm_wf (fm_transfers m)"
  shows "hm_wf (fm_transfers r)"
  using assms wf_start_queued
  by (fastforce simp: on_done_def done_file_def Let_def fm_simps split: option.splits prod.splits sum.splits)

lemma wf_on_file_msg:
  assumes "on_file_msg sha m x env now = Some r" and "hm_wf (fm_transfers m)"
  shows "hm_wf (fm_transfers r)"
proof (cases "fm_allowed m")
  case True
  show ?thesis
  proof (cases x)
    case (F_Offer i n s)
    then show ?thesis using assms True
      by (auto simp: on_file_msg_def on_offer_def Let_def fm_simps wf_accept_incoming split: side.splits option.splits if_splits)
  next
    case (F_Accept i f)
    then show ?thesis using assms True
      by (auto simp: on_file_msg_def on_accept_def Let_def fm_simps split: option.splits if_splits)
  next
    case (F_Chunk i off d)
    then show ?thesis using assms True
      by (auto simp: on_file_msg_def on_chunk_def Let_def fm_simps split: option.splits if_splits prod.splits sum.splits)
  next
    case (F_Done i h)
    then show ?thesis using assms True wf_on_done by (auto simp: on_file_msg_def)
  next
    case (F_Fetch i p)
    have "hm_wf (fm_transfers (foldl (\<lambda>m (q, n). snd (t_offer m q n now)) m fs))" for fs
      by (rule wf_foldl [OF _ assms(2)]) (auto simp: fm_simps split: prod.split)
    then show ?thesis using assms True F_Fetch
      by (auto simp: on_file_msg_def on_fetch_def fm_simps simp del: foldl.simps
          split: option.splits if_splits list.splits)
  qed (use assms True in \<open>auto simp: on_file_msg_def on_list_def fm_simps split: if_splits\<close>)
qed (use assms in \<open>auto simp: on_file_msg_def fm_simps split: file_msg.splits\<close>)

lemma wf_stream_step: "hm_wf (fm_transfers m) \<Longrightarrow> hm_wf (fm_transfers (stream_step sha m k n up now))"
  by (auto simp: stream_step_def stream_chunk_def Let_def fm_simps
      split: stream_at.split option.split prod.split)

lemma wf_apply:
  assumes "fm_apply sha m op = Some r" and "hm_wf (fm_transfers m)"
  shows "hm_wf (fm_transfers r)"
proof (cases op)
  case (Op_Msg x env now)
  then show ?thesis using assms wf_on_file_msg by simp
next
  case (Op_Send env now)
  then show ?thesis using assms wf_offer_each by (auto simp: send_paths_state split: option.split)
next
  case (Op_Allow a)
  have "hm_wf (fm_transfers (foldl t_cancel (m\<lparr>fm_allowed := a\<rparr>) is))" for "is"
    by (rule wf_foldl) (use assms(2) in \<open>simp_all add: wf_cancel\<close>)
  then show ?thesis using assms Op_Allow by (auto simp: fm_set_allowed_def cancel_all_def Let_def)
next
  case (Op_Retry i now)
  then show ?thesis using assms
    by (auto simp: retry_def fm_simps split: option.split)
qed (use assms in \<open>auto simp: download_def alloc_id_def list_dir_def t_pause_def t_resume_def wf_cancel
  respond_def wf_stream_step wf_accept_incoming Let_def fm_simps split: option.split\<close>)

lemma grows_start_queued:
  assumes "start_queued m now = Some r" and "hm_wf (fm_transfers m)"
  shows "grows S m r"
proof -
  have "hm_wf (fm_transfers r) \<and> grows S m r"
    using assms(1)
  proof (rule start_queued_inv [where I = "\<lambda>r. hm_wf (fm_transfers r) \<and> grows S m r"], goal_cases)
    case (2 m1 i t)
    have n: "hm_get (fm_transfers m1) i = Some t" "tr_queued t" "\<not> ti_upload (tr_info t)"
      using next_queued_Some [OF 2(2)] 2(1) by auto
    then have "wants m1 i (ti_name (tr_info t), ti_size (tr_info t))" by (auto simp: wants_def receiving_def meant_def)
    moreover have "grows {(i, ti_name (tr_info t), ti_size (tr_info t))} m1
        (start_incoming m1 i (ti_name (tr_info t)) (ti_size (tr_info t)) now)"
      by (rule grows_start_incoming) (use n(1) in \<open>simp add: meant_def\<close>)
    ultimately have "grows S m (start_incoming m1 i (ti_name (tr_info t)) (ti_size (tr_info t)) now)"
      using 2(1) unfolding grows_def by blast
    then show ?case using 2(1) wf_start_incoming by blast
  qed (use assms(2) in auto)
  then show ?thesis by blast
qed

lemma grows_on_done:
  assumes "on_done sha m i h env now = Some r" and "hm_wf (fm_transfers m)"
  shows "grows S m r"
proof (cases "\<exists>t inc. hm_get (fm_transfers m) i = Some t \<and> tr_incoming t = Some inc")
  case False
  then have "r = m" using assms(1) by (auto simp: on_done_def split: option.splits)
  then show ?thesis by auto
next
  case True
  then obtain t inc where t: "hm_get (fm_transfers m) i = Some t" "tr_incoming t = Some inc" by blast
  define m1 where "m1 = m\<lparr>fm_transfers := hm_insert i (t\<lparr>tr_incoming := None\<rparr>) (fm_transfers m)\<rparr>"
  define m2 where "m2 = (case finish sha (fm_fs m) inc h (fe_finish env) of
      (Inr final, fs1) \<Rightarrow> t_update (fm_send (m1\<lparr>fm_fs := fs1\<rparr>) (F_Verified i True)) i
          (\<lambda>t. (mark_completed t)\<lparr>tr_path := final\<rparr>)
    | (Inl e, fs1) \<Rightarrow> t_fail (fm_send (m1\<lparr>fm_fs := fs1\<rparr>) (F_Verified i False)) i
          (lit ''integrity check failed''))"
  have sq: "start_queued m2 now = Some r"
    using assms(1) t by (simp add: on_done_def done_file_def Let_def flip: m1_def m2_def)
  have "grows S m m1" by (rule grows_insert [OF t(1)]) (auto simp: m1_def receiving_def meant_def t)
  moreover have "grows S m1 (fm_send (m1\<lparr>fm_fs := fs1\<rparr>) x)" for fs1 x
    by (rule grows_transfers) (simp add: fm_simps)
  ultimately have g: "grows S m (fm_send (m1\<lparr>fm_fs := fs1\<rparr>) x)" for fs1 x by (rule grows_trans)
  have "grows S m (t_fail (fm_send (m1\<lparr>fm_fs := fs1\<rparr>) x) i w)" for fs1 x w
    by (rule grows_trans [OF g grows_fail])
  moreover have "grows S m' (t_update m' i (\<lambda>t. (mark_completed t)\<lparr>tr_path := final\<rparr>))" for m' final
    by (rule grows_update) (simp add: receiving_def mark_completed_def meant_def)
  then have "grows S m (t_update (fm_send (m1\<lparr>fm_fs := fs1\<rparr>) x) i (\<lambda>t. (mark_completed t)\<lparr>tr_path := final\<rparr>))"
    for fs1 x final by (rule grows_trans [OF g])
  ultimately have "grows S m m2"
    unfolding m2_def by (auto split: prod.split sum.split)
  moreover have "hm_wf (fm_transfers m2)"
    using assms(2) unfolding m2_def m1_def by (auto simp: fm_simps split: prod.split sum.split)
  ultimately show ?thesis using grows_start_queued [OF sq] grows_trans by blast
qed

lemma grows_cancel: "grows S m (t_cancel m i)"
proof -
  have "grows S m (fm_send (set_ctl m i g) x)" for g x by (rule grows_transfers) (simp add: fm_simps)
  moreover have "grows S m' (t_update m' i mark_cancelled)" for m'
    by (rule grows_update) (simp add: receiving_def mark_cancelled_def meant_def)
  ultimately show ?thesis by (auto simp: t_cancel_def intro: grows_trans)
qed

lemma grows_stream_chunk: "grows S m (stream_chunk sha m k t f n up now)"
proof -
  have a: "grows S m (t_fail (stream_end m k) i w)" for i w
    by (rule grows_trans [OF grows_transfers grows_fail]) (simp add: fm_simps)
  have b: "grows S m (progress (stream_set (send_bulk m x) k y) i j now)" for x y i j
    by (rule grows_trans [OF grows_transfers grows_progress]) (simp add: fm_simps)
  have c: "grows S m (stream_end m k)" "grows S m (stream_end (send_bulk m x) k)" for x
    by (rule grows_transfers, simp add: fm_simps)+
  show ?thesis
    unfolding stream_chunk_def
    by (cases n; cases "next_chunk (fm_fs m) f (the n)"; cases "fst (next_chunk (fm_fs m) f (the n))";
        cases "hash_file sha (fm_fs m) (st_path t)") (simp_all add: a b c split: prod.split)
qed

lemma grows_stream_step: "grows S m (stream_step sha m k n up now)"
proof -
  have a: "grows S m (t_fail (stream_end m k) i w)" for i w
    by (rule grows_trans [OF grows_transfers grows_fail]) (simp add: fm_simps)
  have b: "grows S m (stream_end m k)" "grows S m (stream_set m k x)" for x
    by (rule grows_transfers, simp add: fm_simps)+
  show ?thesis
    unfolding stream_step_def Let_def
    by (simp add: a b grows_stream_chunk grows_refl split: stream_at.split option.split)
qed

fun may_start :: "manager \<Rightarrow> fm_op \<Rightarrow> (u64 \<times> rstr \<times> u64) set" where
  "may_start m (Op_Respond i True now) = (case hm_get (fm_approval m) i of None \<Rightarrow> {} | Some x \<Rightarrow> {(i, x)})"
| "may_start m (Op_Msg (F_Offer i n s) env now) =
     (case fp_side (fm_policy m) of
        Side_Host \<Rightarrow> if fp_ask (fm_policy m) then {} else {(i, n, s)}
      | Side_Viewer \<Rightarrow> (case fm_until m of None \<Rightarrow> {} | Some u \<Rightarrow> if now < u then {(i, n, s)} else {}))"
| "may_start m _ = {}"

lemma grows_on_file_msg:
  assumes "on_file_msg sha m x env now = Some r" and "hm_wf (fm_transfers m)"
  shows "grows (may_start m (Op_Msg x env now)) m r"
proof (cases "fm_allowed m")
  case True
  have mark: "grows S m' (t_update m' i mark_cancelled)" "grows S m' (t_update m' i mark_completed)" for S m' i
    by (rule grows_update, simp add: receiving_def mark_cancelled_def mark_completed_def meant_def)+
  have same: "grows S m (fm_send m y)" "grows S m (fm_emit m e)" "grows S m (set_ctl m i f)" for S y e i f
    by (rule grows_transfers, simp add: fm_simps)+
  show ?thesis
  proof (cases x)
    case (F_Offer i n s)
    have "on_offer m i n s now = accept_incoming m i n s now \<and> (i, n, s) \<in> may_start m (Op_Msg x env now) \<and>
          hm_get (fm_transfers m) i = None \<or>
        fm_transfers (on_offer m i n s now) = fm_transfers m"
      by (auto simp: F_Offer on_offer_def Let_def fm_simps hm_contains_def split: side.splits option.splits)
    moreover have "r = on_offer m i n s now" using assms(1) True F_Offer by (simp add: on_file_msg_def)
    ultimately show ?thesis
      using grows_mono [OF grows_accept_incoming [of m i n s "{}" now]] grows_transfers
      by (metis empty_subsetI insert_subset)
  next
    case (F_Accept i f)
    show ?thesis
    proof (cases "hm_get (fm_transfers m) i")
      case None
      then show ?thesis using assms True F_Accept by (auto simp: on_file_msg_def on_accept_def)
    next
      case (Some t)
      define m1 where "m1 = m\<lparr>fm_transfers := hm_insert i
          (t\<lparr>tr_info := (tr_info t)\<lparr>ti_status := TS_Active\<rparr>, tr_resume := f\<rparr>) (fm_transfers m)\<rparr>"
      have "grows {} m m1" by (rule grows_insert [OF Some]) (auto simp: m1_def receiving_def meant_def)
      moreover have "grows {} m1 (t_update m1 i (\<lambda>t. t\<lparr>tr_info := (tr_info t)\<lparr>ti_transferred := f\<rparr>\<rparr>))"
        by (rule grows_update) (simp add: receiving_def meant_def)
      ultimately have "grows {} m (t_update m1 i (\<lambda>t. t\<lparr>tr_info := (tr_info t)\<lparr>ti_transferred := f\<rparr>\<rparr>))"
        "grows {} m (t_fail m1 i w)" for w by (blast intro: grows_trans)+
      then have "grows {} m (on_accept m i f)"
        unfolding on_accept_def Some option.case Let_def m1_def [symmetric]
        by (auto simp: grows_def wants_def)
      then show ?thesis using assms True F_Accept by (auto simp: on_file_msg_def)
    qed
  next
    case (F_Chunk i off d)
    show ?thesis
    proof (cases "hm_get (fm_transfers m) i")
      case None
      then show ?thesis using assms True F_Chunk by (auto simp: on_file_msg_def on_chunk_def)
    next
      case (Some t)
      have "grows {} m (m\<lparr>fm_fs := fs1, fm_transfers := hm_insert i (t\<lparr>tr_incoming := Some inc1\<rparr>) (fm_transfers m)\<rparr>)"
        if "tr_incoming t = Some inc" for fs1 inc inc1
        by (rule grows_insert [OF Some]) (auto simp: receiving_def meant_def that)
      note a = grows_trans [OF this grows_progress]
      have "grows {} m (fm_send (m\<lparr>fm_fs := fs1\<rparr>) y)" for fs1 y
        by (rule grows_transfers) (simp add: fm_simps)
      note b = grows_trans [OF this grows_fail]
      have "grows {} m (on_chunk m i off d env now)"
        unfolding on_chunk_def Some option.case by (auto split: option.split prod.split sum.split intro: a b)
      then show ?thesis using assms True F_Chunk by (auto simp: on_file_msg_def)
    qed
  next
    case (F_Done i h)
    then show ?thesis using assms True grows_on_done by (auto simp: on_file_msg_def)
  next
    case (F_Fetch i p)
    have "grows {} m (foldl (\<lambda>m (q, n). snd (t_offer m q n now)) m fs)" for fs
      by (rule grows_foldl) (auto split: prod.split)
    then show ?thesis using assms True F_Fetch same
      by (auto simp: on_file_msg_def on_fetch_def simp del: foldl.simps split: option.splits if_splits list.splits)
  next
    case (F_Cancel i)
    then show ?thesis using assms True
      by (auto simp: on_file_msg_def receiving_def mark_cancelled_def meant_def intro!: grows_ctl_update)
  qed (use assms True same mark in \<open>auto simp: on_file_msg_def on_list_def split: if_splits\<close>)
next
  case False
  then show ?thesis using assms grows_transfers
    by (auto simp: on_file_msg_def grows_def wants_def fm_simps split: file_msg.splits)
qed

lemma grows_apply:
  assumes "fm_apply sha m op = Some r" and "hm_wf (fm_transfers m)"
    and "\<And>i x. hm_get (fm_approval m) i = Some x \<Longrightarrow> hm_get (fm_transfers m) i = None"
  shows "grows (may_start m op) m r"
proof (cases op)
  case (Op_Msg x env now)
  then show ?thesis using assms grows_on_file_msg by simp
next
  case (Op_Send env now)
  then show ?thesis using assms by (auto simp: send_paths_state split: option.split)
next
  case (Op_Pause i)
  then show ?thesis using assms
    by (auto simp: t_pause_def receiving_def meant_def intro!: grows_ctl_update split: if_splits)
next
  case (Op_Resume i)
  then show ?thesis using assms
    by (auto simp: t_resume_def receiving_def meant_def intro!: grows_ctl_update split: if_splits)
next
  case (Op_Cancel i)
  then show ?thesis using assms by (auto intro: grows_cancel)
next
  case (Op_Allow a)
  have "grows {} (m\<lparr>fm_allowed := a\<rparr>) (foldl t_cancel (m\<lparr>fm_allowed := a\<rparr>) is)" for "is"
    by (rule grows_foldl) (rule grows_cancel)
  then show ?thesis using assms Op_Allow by (auto simp: fm_set_allowed_def cancel_all_def Let_def)
next
  case (Op_Retry i now)
  have "grows {} m (m\<lparr>fm_transfers := hm_remove i (fm_transfers m)\<rparr>)"
    by (auto simp: grows_def wants_def split: if_splits)
  then show ?thesis using assms Op_Retry grows_trans [OF _ grows_offer]
    by (auto simp: retry_def split: option.split)
next
  case (Op_Respond i accept now)
  have "grows (insert (i, n, s) {}) (m\<lparr>fm_approval := a\<rparr>) (accept_incoming (m\<lparr>fm_approval := a\<rparr>) i n s now)"
    if "hm_get (fm_approval m) i = Some (n, s)" for a n s
    by (rule grows_accept_incoming) (use assms(3) that in simp)
  then show ?thesis using assms(1) Op_Respond
    by (cases accept) (auto simp: respond_def Let_def fm_simps intro: grows_transfers split: option.split)
next
  case (Op_Stream k n up now)
  then show ?thesis using assms by (auto intro: grows_stream_step)
qed (use assms in \<open>auto simp: download_def alloc_id_def list_dir_def Let_def fm_simps intro: grows_transfers\<close>)

section \<open>Consent\<close>

lemma accept_incoming_fixed:
  "fm_policy (accept_incoming m i n s now) = fm_policy m" "fm_until (accept_incoming m i n s now) = fm_until m"
  by (auto simp: accept_incoming_def start_incoming_def Let_def fm_simps
      split: option.split prod.split sum.split)

lemma start_queued_fixed:
  assumes "start_queued m now = Some r"
  shows "fm_policy r = fm_policy m \<and> fm_until r = fm_until m"
  using assms
  by (rule start_queued_inv [where I = "\<lambda>r. fm_policy r = fm_policy m \<and> fm_until r = fm_until m"])
    (auto simp: start_incoming_def Let_def fm_simps split: prod.split sum.split)

lemma t_offer_fixed:
  "fm_policy (snd (t_offer m p n now)) = fm_policy m \<and> fm_until (snd (t_offer m p n now)) = fm_until m"
  by (auto simp: t_offer_def alloc_id_def Let_def fm_simps split: option.split)

lemma offer_each_fixed:
  "fm_policy (snd (offer_each m fs now)) = fm_policy m \<and> fm_until (snd (offer_each m fs now)) = fm_until m"
proof (induction m fs now rule: offer_each.induct)
  case (2 m p n fs now)
  then show ?case using t_offer_fixed [of m p n now] by (auto split: prod.split sum.split)
qed simp

lemma foldl_fixed:
  "(\<And>m x. fm_policy (f m x) = fm_policy m \<and> fm_until (f m x) = fm_until m) \<Longrightarrow>
     fm_policy (foldl f m xs) = fm_policy m \<and> fm_until (foldl f m xs) = fm_until m"
  by (induction xs arbitrary: m) auto

lemma cancel_fixed: "fm_policy (t_cancel m i) = fm_policy m \<and> fm_until (t_cancel m i) = fm_until m"
  by (simp add: t_cancel_def fm_simps)

lemma on_file_msg_fixed:
  assumes "on_file_msg sha m x env now = Some r"
  shows "fm_policy r = fm_policy m \<and> fm_until r = fm_until m"
proof (cases "fm_allowed m")
  case True
  show ?thesis
  proof (cases x)
    case (F_Offer i n s)
    then show ?thesis using assms True
      by (auto simp: on_file_msg_def on_offer_def Let_def fm_simps accept_incoming_fixed split: side.splits option.splits if_splits)
  next
    case (F_Accept i f)
    then show ?thesis using assms True
      by (auto simp: on_file_msg_def on_accept_def Let_def fm_simps split: option.splits if_splits)
  next
    case (F_Chunk i off d)
    then show ?thesis using assms True
      by (auto simp: on_file_msg_def on_chunk_def Let_def fm_simps split: option.splits if_splits prod.splits sum.splits)
  next
    case (F_Done i h)
    then show ?thesis using assms True start_queued_fixed
      by (fastforce simp: on_file_msg_def on_done_def done_file_def Let_def fm_simps split: option.splits prod.splits sum.splits)
  next
    case (F_Fetch i p)
    have "fm_policy (foldl (\<lambda>m (q, n). snd (t_offer m q n now)) m fs) = fm_policy m \<and>
        fm_until (foldl (\<lambda>m (q, n). snd (t_offer m q n now)) m fs) = fm_until m" for fs
      by (rule foldl_fixed) (auto simp: t_offer_fixed split: prod.split)
    then show ?thesis using assms True F_Fetch
      by (auto simp: on_file_msg_def on_fetch_def fm_simps simp del: foldl.simps
          split: option.splits if_splits list.splits)
  qed (use assms True in \<open>auto simp: on_file_msg_def on_list_def fm_simps split: if_splits\<close>)
qed (use assms in \<open>auto simp: on_file_msg_def fm_simps split: file_msg.splits\<close>)

lemma stream_step_fixed:
  "fm_policy (stream_step sha m k n up now) = fm_policy m \<and> fm_until (stream_step sha m k n up now) = fm_until m"
proof -
  have "fm_policy (stream_chunk sha m k t f n up now) = fm_policy m \<and>
      fm_until (stream_chunk sha m k t f n up now) = fm_until m" for t f
    unfolding stream_chunk_def
    by (cases n; cases "next_chunk (fm_fs m) f (the n)"; cases "fst (next_chunk (fm_fs m) f (the n))";
        cases "hash_file sha (fm_fs m) (st_path t)") (simp_all add: fm_simps split: prod.split)
  then show ?thesis
    unfolding stream_step_def Let_def by (simp add: fm_simps split: stream_at.split option.split)
qed

lemma apply_fixed:
  assumes "fm_apply sha m op = Some r"
  shows "fm_policy r = fm_policy m \<and> (fm_until r = fm_until m \<or> (\<exists>p t. op = Op_Download p t \<and> fm_until r = Some (t + secs 30)))"
proof (cases op)
  case (Op_Msg x env now)
  then show ?thesis using assms on_file_msg_fixed by simp
next
  case (Op_Send env now)
  then show ?thesis using assms offer_each_fixed by (auto simp: send_paths_state split: option.split)
next
  case (Op_Allow a)
  have "fm_policy (foldl t_cancel (m\<lparr>fm_allowed := a\<rparr>) is) = fm_policy (m\<lparr>fm_allowed := a\<rparr>) \<and>
      fm_until (foldl t_cancel (m\<lparr>fm_allowed := a\<rparr>) is) = fm_until (m\<lparr>fm_allowed := a\<rparr>)" for "is"
    by (rule foldl_fixed) (rule cancel_fixed)
  then show ?thesis using assms Op_Allow by (auto simp: fm_set_allowed_def cancel_all_def Let_def)
next
  case (Op_Retry i now)
  then show ?thesis using assms t_offer_fixed by (auto simp: retry_def split: option.split)
next
  case (Op_Stream k n up now)
  then show ?thesis using assms stream_step_fixed by auto
qed (use assms in \<open>auto simp: download_def alloc_id_def list_dir_def t_pause_def t_resume_def cancel_fixed
  respond_def accept_incoming_fixed Let_def fm_simps split: option.split\<close>)

section \<open>The table of pending answers\<close>

text \<open>The requests shown to the user, and the ids this side gives to its own transfers.\<close>

definition requests :: "file_event list \<Rightarrow> (u64 \<times> rstr \<times> u64) list" where
  "requests es = List.map_filter (\<lambda>e. case e of FE_Request i n s \<Rightarrow> Some (i, n, s) | _ \<Rightarrow> None) es"

lemma requests_simps [simp]:
  "requests [] = []" "requests (es @ [FE_Transfer t]) = requests es" "requests (es @ [FE_Listing p d e]) = requests es"
  "requests (es @ [FE_Request i n s]) = requests es @ [(i, n, s)]"
  by (simp_all add: requests_def List.map_filter_def)

definition own_id :: "side \<Rightarrow> u64 \<Rightarrow> bool" where
  "own_id sd i \<longleftrightarrow> i mod 2 = (if sd = Side_Viewer then 1 else 0)"

lemma alloc_own: "own_id (fp_side (fm_policy m)) (fst (alloc_id m))"
proof -
  have "(x * 2) mod 2 = (0 :: u64)" "(x * 2 + 1) mod 2 = (1 :: u64)" for x
    by (simp_all flip: even_iff_mod_2_eq_zero odd_iff_mod_2_eq_one)
  then show ?thesis by (simp add: alloc_id_def own_id_def)
qed

text \<open>
  \<open>calm K m m'\<close>: nothing was shown or answered, and an entry that is new has an id of this side's own or
  one of \<open>K\<close>.
\<close>

definition calm :: "u64 set \<Rightarrow> manager \<Rightarrow> manager \<Rightarrow> bool" where
  "calm K m m' \<longleftrightarrow> fm_approval m' = fm_approval m \<and> requests (fm_events m') = requests (fm_events m) \<and>
     fm_policy m' = fm_policy m \<and>
     (\<forall>i. hm_get (fm_transfers m) i = None \<longrightarrow> hm_get (fm_transfers m') i = None \<or> i \<in> K \<or> own_id (fp_side (fm_policy m)) i)"

lemma calm_refl [intro]: "calm K m m"
  by (simp add: calm_def)

lemma calm_trans: "calm K m m1 \<Longrightarrow> calm K m1 m2 \<Longrightarrow> calm K m m2"
  unfolding calm_def by metis

lemma calm_same:
  "fm_transfers m' = fm_transfers m \<Longrightarrow> fm_approval m' = fm_approval m \<Longrightarrow> fm_events m' = fm_events m \<Longrightarrow>
    fm_policy m' = fm_policy m \<Longrightarrow> calm K m m'"
  by (simp add: calm_def)

lemma calm_fields [simp]:
  "calm K (m\<lparr>fm_fs := f\<rparr>) r = calm K m r" "calm K m (r\<lparr>fm_fs := f\<rparr>) = calm K m r"
  "calm K m (r\<lparr>fm_allowed := a\<rparr>) = calm K m r" "calm K (m\<lparr>fm_allowed := a\<rparr>) r = calm K m r"
  by (simp_all add: calm_def)

lemma fm_emit_events: "fm_events (fm_emit m e) = fm_events m @ [e]" "fm_events (fm_send m x) = fm_events m"
  by (simp_all add: fm_emit_def fm_send_def)

lemma calm_send [simp]: "calm K m (fm_send r x) = calm K m r"
  by (simp add: calm_def fm_simps fm_emit_events)

lemma calm_update [intro]: "calm K m (t_update m i f)"
  by (auto simp: calm_def t_update_def fm_simps fm_emit_events split: option.split)

lemma calm_set_ctl [intro]: "calm K m (set_ctl m i f)"
  by (auto simp: calm_def set_ctl_def split: option.split)

lemma calm_ctl_update [intro]: "calm K m (t_update (set_ctl m i g) j f)"
  by (rule calm_trans [OF calm_set_ctl calm_update])

lemma calm_fail [intro]: "calm K m (t_fail m i w)"
  unfolding t_fail_def by (rule calm_update)

lemma calm_track: "i \<in> K \<or> own_id (fp_side (fm_policy m)) i \<Longrightarrow> calm K m (track m i n s u p st now)"
  by (auto simp: calm_def track_def Let_def fm_simps fm_emit_events)

lemma calm_progress [intro]: "calm K m (progress m i n now)"
  by (auto simp: calm_def progress_def Let_def fm_simps fm_emit_events split: option.split prod.split)

lemma calm_alloc: "calm K m (snd (alloc_id m))"
  by (simp add: calm_def alloc_id_def)

lemma calm_offer [intro]: "calm K m (snd (t_offer m p n now))"
proof -
  have "calm K (snd (alloc_id m)) (track (snd (alloc_id m)) (fst (alloc_id m)) n s True p TS_Pending now)" for s
    by (rule calm_track) (use alloc_own [of m] in \<open>simp add: alloc_id_def\<close>)
  then have "calm K m (track (snd (alloc_id m)) (fst (alloc_id m)) n s True p TS_Pending now)" for s
    using calm_alloc calm_trans by blast
  then show ?thesis by (auto simp: t_offer_def Let_def split_beta split: option.split)
qed

lemma calm_foldl: "(\<And>m x. calm K m (f m x)) \<Longrightarrow> calm K m (foldl f m xs)"
  by (induction xs arbitrary: m) (auto intro: calm_trans)

lemma calm_offer_each [intro]: "calm K m (snd (offer_each m fs now))"
proof (induction m fs now rule: offer_each.induct)
  case (2 m p n fs now)
  then show ?case using calm_offer [of K m p n now] by (auto split: prod.split sum.split intro: calm_trans)
qed auto

lemma calm_start_incoming: "calm (insert i K) m (start_incoming m i n s now)"
proof (cases "incoming_open (fm_fs m) (fp_dir (fm_policy m)) n s (fp_max_size (fm_policy m))
        (resumes (fm_fs m) (fp_dir (fm_policy m)) n)")
  case (Pair r fs1)
  have "calm (insert i K) (m\<lparr>fm_fs := fs1\<rparr>) (t_fail (fm_send (m\<lparr>fm_fs := fs1\<rparr>) x) j w)" for x j w
    by (rule calm_trans [OF _ calm_fail]) (simp add: calm_refl)
  moreover have "calm (insert i K) (m\<lparr>fm_fs := fs1\<rparr>) (t_update (if hm_contains (fm_transfers m) i then m\<lparr>fm_fs := fs1\<rparr>
      else track (m\<lparr>fm_fs := fs1\<rparr>) i n s False q TS_Active now) i f)" for q f
    using calm_track [of i "insert i K" "m\<lparr>fm_fs := fs1\<rparr>" n s False q TS_Active now]
    by (intro calm_trans [OF _ calm_update]) (simp add: calm_refl)
  ultimately show ?thesis unfolding start_incoming_def Let_def Pair
    by (auto split: sum.split)
qed

lemma calm_accept_incoming: "calm (insert i K) m (accept_incoming m i n s now)"
proof -
  let ?m1 = "track m i n s False [] TS_Pending now"
  have t: "calm (insert i K) m ?m1" by (rule calm_track) simp
  have "calm (insert i K) ?m1 (?m1\<lparr>fm_transfers := hm_insert i t (fm_transfers ?m1)\<rparr>)" for t
    by (simp add: calm_def)
  from calm_trans [OF t this] have "calm (insert i K) m (case hm_get (fm_transfers ?m1) i of
      None \<Rightarrow> ?m1 | Some t \<Rightarrow> ?m1\<lparr>fm_transfers := hm_insert i (t\<lparr>tr_queued := True\<rparr>) (fm_transfers ?m1)\<rparr>)"
    using t by (simp split: option.split)
  then show ?thesis by (simp add: accept_incoming_def Let_def calm_start_incoming)
qed

lemma calm_known: "calm (insert i K) m m' \<Longrightarrow> hm_get (fm_transfers m) i \<noteq> None \<Longrightarrow> calm K m m'"
  by (simp add: calm_def) (metis option.distinct(1))

lemma calm_start_queued:
  assumes "start_queued m now = Some r" and "hm_wf (fm_transfers m)"
  shows "calm K m r"
proof -
  have "hm_wf (fm_transfers r) \<and> calm K m r"
    using assms(1)
  proof (rule start_queued_inv [where I = "\<lambda>r. hm_wf (fm_transfers r) \<and> calm K m r"], goal_cases)
    case (2 m1 i t)
    have "hm_get (fm_transfers m1) i \<noteq> None" using next_queued_Some [OF 2(2)] 2(1) by auto
    then have "calm K m1 (start_incoming m1 i (ti_name (tr_info t)) (ti_size (tr_info t)) now)"
      using calm_known [OF calm_start_incoming] by blast
    then show ?case using 2(1) wf_start_incoming calm_trans by blast
  qed (use assms(2) in auto)
  then show ?thesis by blast
qed

lemma calm_done_file:
  assumes "hm_get (fm_transfers m) i = Some t0"
  shows "calm K m (done_file sha m i t inc h env)"
proof -
  have a: "calm K m (m\<lparr>fm_transfers := hm_insert i t' (fm_transfers m)\<rparr>)" for t'
    using assms by (auto simp: calm_def)
  have "calm K m (t_update (fm_send (m\<lparr>fm_transfers := hm_insert i t' (fm_transfers m), fm_fs := f\<rparr>) x) j g)"
      "calm K m (t_fail (fm_send (m\<lparr>fm_transfers := hm_insert i t' (fm_transfers m), fm_fs := f\<rparr>) x) j w)" for t' f x j g w
    by (rule calm_trans [OF _ calm_update], simp add: a, rule calm_trans [OF _ calm_fail], simp add: a)
  then show ?thesis unfolding done_file_def Let_def by (auto split: prod.split sum.split)
qed

lemma calm_on_chunk: "calm K m (on_chunk m i off d env now)"
proof (cases "hm_get (fm_transfers m) i")
  case (Some t)
  have a: "calm K m (m\<lparr>fm_fs := f, fm_transfers := hm_insert i t' (fm_transfers m)\<rparr>)" for t' f
    using Some by (auto simp: calm_def)
  have "calm K m (t_fail (fm_send (m\<lparr>fm_fs := f\<rparr>) x) j w)" for f x j w
    by (rule calm_trans [OF _ calm_fail]) (simp add: calm_refl)
  then show ?thesis unfolding on_chunk_def using Some calm_trans [OF a calm_progress]
    by (auto split: option.split prod.split sum.split)
qed (simp add: on_chunk_def calm_refl)

lemma calm_on_accept: "calm K m (on_accept m i f)"
proof (cases "hm_get (fm_transfers m) i")
  case (Some t)
  have a: "calm K m (m\<lparr>fm_transfers := hm_insert i t' (fm_transfers m)\<rparr>)" for t'
    using Some by (auto simp: calm_def)
  have b: "calm K m' (t_update m' i g\<lparr>fm_streams := x\<rparr>)" for m' g x
    by (rule calm_trans [OF calm_update calm_same]) simp_all
  show ?thesis unfolding on_accept_def Let_def using Some calm_trans [OF a calm_fail] calm_trans [OF a b]
    by (auto split: option.split)
qed (simp add: on_accept_def calm_refl)

lemma calm_stream_step: "calm K m (stream_step sha m k n up now)"
proof -
  have e: "fm_events (stream_end m k) = fm_events m" "fm_events (stream_set m k y) = fm_events m"
      "fm_events (send_bulk m x) = fm_events m" "fm_approval (stream_end m k) = fm_approval m"
      "fm_approval (stream_set m k y) = fm_approval m" "fm_approval (send_bulk m x) = fm_approval m" for m k x y
    by (simp_all add: stream_end_def stream_set_def send_bulk_def)
  have a: "calm K m (t_fail (stream_end m k) i w)" for i w
    by (rule calm_trans [OF calm_same calm_fail]) (simp_all add: fm_simps e)
  have b: "calm K m (progress (stream_set (send_bulk m x) k y) i j now)" for x y i j
    by (rule calm_trans [OF calm_same calm_progress]) (simp_all add: fm_simps e)
  have c: "calm K m (stream_end m k)" "calm K m (stream_end (send_bulk m x) k)" "calm K m (stream_set m k y)" for x y
    by (rule calm_same, simp_all add: fm_simps e)+
  have "calm K m (stream_chunk sha m k t f n up now)" for t f
    unfolding stream_chunk_def
    by (cases n; cases "next_chunk (fm_fs m) f (the n)"; cases "fst (next_chunk (fm_fs m) f (the n))";
        cases "hash_file sha (fm_fs m) (st_path t)") (simp_all add: a b c split: prod.split)
  then show ?thesis
    unfolding stream_step_def Let_def by (simp add: a c calm_refl split: stream_at.split option.split)
qed

lemma calm_cancel: "calm K m (t_cancel m i)"
proof -
  have "calm K m (t_update (fm_send (set_ctl m i g) x) i mark_cancelled)" for g x
    by (rule calm_trans [OF _ calm_update]) (simp add: calm_set_ctl)
  then show ?thesis by (simp add: t_cancel_def calm_refl)
qed

text \<open>What an offer or an answer changes, and that nothing else changes the requests and the answers.\<close>

fun decides :: "fm_op \<Rightarrow> bool" where
  "decides (Op_Msg (F_Offer i n s) env now) = True"
| "decides (Op_Respond i a now) = True"
| "decides _ = False"

lemma calm_on_file_msg:
  assumes "on_file_msg sha m x env now = Some r" and "hm_wf (fm_transfers m)" and "\<not> decides (Op_Msg x env now)"
  shows "calm {} m r"
proof (cases "fm_allowed m")
  case True
  have list: "calm {} m (fm_emit m (FE_Listing p d e))" for p d e
    by (simp add: calm_def fm_simps fm_emit_events)
  show ?thesis
  proof (cases x)
    case (F_Done i h)
    show ?thesis
    proof (cases "\<exists>t inc. hm_get (fm_transfers m) i = Some t \<and> tr_incoming t = Some inc")
      case False
      then have "r = m" using assms(1) True F_Done by (auto simp: on_file_msg_def on_done_def split: option.splits)
      then show ?thesis by auto
    next
      case known: True
      then obtain t inc where t: "hm_get (fm_transfers m) i = Some t" "tr_incoming t = Some inc" by blast
      have q: "start_queued (done_file sha m i t inc h env) now = Some r"
        using assms(1) True F_Done t by (simp add: on_file_msg_def on_done_def)
      have "hm_wf (fm_transfers (done_file sha m i t inc h env))"
        using assms(2) by (auto simp: done_file_def Let_def fm_simps split: prod.split sum.split)
      from calm_start_queued [OF q this] show ?thesis using calm_done_file [OF t(1)] calm_trans by blast
    qed
  next
    case (F_Fetch i p)
    have "calm {} m (foldl (\<lambda>m (q, n). snd (t_offer m q n now)) m fs)" for fs
      by (rule calm_foldl) (auto split: prod.split)
    then show ?thesis using assms True F_Fetch
      by (auto simp: on_file_msg_def on_fetch_def calm_refl simp del: foldl.simps
          split: option.splits if_splits list.splits)
  qed (use assms True list calm_on_chunk calm_on_accept in \<open>auto simp: on_file_msg_def on_list_def split: if_splits\<close>)
next
  case False
  then show ?thesis using assms(1) by (auto simp: on_file_msg_def split: file_msg.splits)
qed

lemma calm_apply:
  assumes "fm_apply sha m op = Some r" and "hm_wf (fm_transfers m)" and "\<not> decides op"
  shows "calm {} m r"
proof (cases op)
  case (Op_Msg x env now)
  then show ?thesis using assms calm_on_file_msg by simp
next
  case (Op_Send env now)
  then show ?thesis using assms by (auto simp: send_paths_state split: option.split)
next
  case (Op_Allow a)
  have "calm {} m (foldl t_cancel (m\<lparr>fm_allowed := a\<rparr>) is)" for "is"
    using calm_foldl [of "{}" t_cancel "m\<lparr>fm_allowed := a\<rparr>" "is"] calm_cancel by simp
  then show ?thesis using assms Op_Allow by (auto simp: fm_set_allowed_def cancel_all_def Let_def)
next
  case (Op_Retry i now)
  have "calm {} m (m\<lparr>fm_transfers := hm_remove i (fm_transfers m)\<rparr>)" by (simp add: calm_def)
  then show ?thesis using assms Op_Retry calm_trans [OF _ calm_offer]
    by (auto simp: retry_def split: option.split)
next
  case (Op_Stream k n up now)
  then show ?thesis using assms calm_stream_step by auto
next
  case (Op_Download p now)
  have "calm {} m (m\<lparr>fm_until := u, fm_next := k\<rparr>)" for u k by (rule calm_same) simp_all
  then show ?thesis using assms Op_Download by (auto simp: download_def alloc_id_def Let_def)
qed (use assms calm_cancel in \<open>auto simp: list_dir_def t_pause_def t_resume_def\<close>)

text \<open>
  What counts as having been asked for. On a host that asks: its user said yes to the id, and the last
  request shown to the user under that id was for this name and this size, which a peer's offer had named. On a host that
  does not ask: the offer. On the viewer: its user had started a download less than 30 seconds before the
  offer of this name and size arrived.
\<close>

definition last_shown :: "manager \<Rightarrow> u64 \<Rightarrow> (rstr \<times> u64) option" where
  "last_shown m i = map_of (rev (requests (fm_events m))) i"

definition asked :: "(u8 list \<Rightarrow> u8 list) \<Rightarrow> manager \<Rightarrow> fm_op list \<Rightarrow> u64 \<Rightarrow> rstr \<Rightarrow> u64 \<Rightarrow> bool" where
  "asked sha m0 ops i n s \<longleftrightarrow>
     (case fp_side (fm_policy m0) of
        Side_Host \<Rightarrow>
          if fp_ask (fm_policy m0)
          then \<exists>xs now zs m1 env t. ops = xs @ Op_Respond i True now # zs \<and> fm_run sha m0 xs = Some m1 \<and>
                 last_shown m1 i = Some (n, s) \<and> Op_Msg (F_Offer i n s) env t \<in> set xs
          else \<exists>env now. Op_Msg (F_Offer i n s) env now \<in> set ops
      | Side_Viewer \<Rightarrow>
          \<exists>xs env now zs p t. ops = xs @ Op_Msg (F_Offer i n s) env now # zs \<and> Op_Download p t \<in> set xs \<and> now < t + secs 30)"

lemma asked_append: "asked sha m0 ops i n s \<Longrightarrow> asked sha m0 (ops @ [x]) i n s"
  unfolding asked_def by (cases "fp_side (fm_policy m0)") (auto split: if_splits, fastforce+)

text \<open>A request waits for its answer only if it is the last one shown, and its id is free.\<close>

definition answers_ok :: "fm_op list \<Rightarrow> manager \<Rightarrow> bool" where
  "answers_ok ops m \<longleftrightarrow>
     (\<forall>i n s. hm_get (fm_approval m) i = Some (n, s) \<longrightarrow>
        fp_side (fm_policy m) = Side_Host \<and> fp_ask (fm_policy m) \<and> \<not> own_id Side_Host i \<and>
        hm_get (fm_transfers m) i = None \<and> last_shown m i = Some (n, s) \<and>
        (\<exists>env t. Op_Msg (F_Offer i n s) env t \<in> set ops))"

lemma answers_ok_calm:
  assumes "answers_ok ops m" and "calm {} m m'"
  shows "answers_ok (ops @ [op]) m'"
  using assms unfolding answers_ok_def calm_def last_shown_def by (metis Un_iff empty_iff set_append)

lemma answers_ok_offer:
  assumes "answers_ok ops m"
  shows "answers_ok (ops @ [Op_Msg (F_Offer i n s) env now]) (on_offer m i n s now)"
proof -
  let ?ops = "ops @ [Op_Msg (F_Offer i n s) env now]"
  have keep: "answers_ok ?ops m" using answers_ok_calm [OF assms calm_refl] .
  have same: "answers_ok ?ops (fm_send m x)" for x
    using keep by (simp add: answers_ok_def last_shown_def fm_simps fm_emit_events)
  have acc: "answers_ok ?ops (accept_incoming m i n s now)" if "\<not> (fp_side (fm_policy m) = Side_Host \<and> fp_ask (fm_policy m))"
    using keep that calm_accept_incoming [of i "{}" m n s now] unfolding answers_ok_def calm_def by metis
  have pend: "answers_ok ?ops (fm_emit (m\<lparr>fm_approval := hm_insert i (n, s) (fm_approval m)\<rparr>) (FE_Request i n s))"
    if "fp_side (fm_policy m) = Side_Host" "fp_ask (fm_policy m)" "i mod 2 = 1" "hm_get (fm_transfers m) i = None"
    using keep that unfolding answers_ok_def
    by (fastforce simp: last_shown_def fm_simps fm_emit_events own_id_def split: if_splits)
  show ?thesis
    using same acc pend
    by (auto simp: on_offer_def Let_def hm_contains_def split: side.split option.split)
qed

lemma answers_ok_respond:
  assumes "answers_ok ops m"
  shows "answers_ok (ops @ [Op_Respond i a now]) (respond m i a now)"
proof (cases "hm_get (fm_approval m) i")
  case None
  then show ?thesis using answers_ok_calm [OF assms calm_refl] by (simp add: respond_def)
next
  case (Some x)
  let ?m1 = "m\<lparr>fm_approval := hm_remove i (fm_approval m)\<rparr>"
  have k: "answers_ok (ops @ [Op_Respond i a now]) ?m1"
    using assms by (auto simp: answers_ok_def last_shown_def split: if_splits)
  have "answers_ok (ops @ [Op_Respond i a now]) (accept_incoming ?m1 i n s now)" for n s
    unfolding answers_ok_def
  proof (intro allI impI)
    fix j n1 s1 assume a: "hm_get (fm_approval (accept_incoming ?m1 i n s now)) j = Some (n1, s1)"
    have c: "calm {i} ?m1 (accept_incoming ?m1 i n s now)" using calm_accept_incoming .
    then have "hm_get (fm_approval ?m1) j = Some (n1, s1)" "j \<noteq> i" using a by (auto simp: calm_def split: if_splits)
    then show "fp_side (fm_policy (accept_incoming ?m1 i n s now)) = Side_Host \<and>
        fp_ask (fm_policy (accept_incoming ?m1 i n s now)) \<and> \<not> own_id Side_Host j \<and>
        hm_get (fm_transfers (accept_incoming ?m1 i n s now)) j = None \<and>
        last_shown (accept_incoming ?m1 i n s now) j = Some (n1, s1) \<and>
        (\<exists>env t. Op_Msg (F_Offer j n1 s1) env t \<in> set (ops @ [Op_Respond i a now]))"
      using k c unfolding answers_ok_def calm_def last_shown_def by (metis singletonD)
  qed
  moreover have "answers_ok (ops @ [Op_Respond i a now]) (fm_send ?m1 y)" for y
    using k by (simp add: answers_ok_def last_shown_def fm_simps fm_emit_events)
  ultimately show ?thesis using Some by (cases x; cases a) (simp_all add: respond_def Let_def)
qed

lemma answers_ok_apply:
  assumes "fm_apply sha m op = Some r" and "hm_wf (fm_transfers m)" and "answers_ok ops m"
  shows "answers_ok (ops @ [op]) r"
proof (cases "decides op")
  case False
  then show ?thesis using answers_ok_calm assms calm_apply by blast
next
  case True
  then consider i n s env now where "op = Op_Msg (F_Offer i n s) env now" | i a now where "op = Op_Respond i a now"
    by (cases op rule: decides.cases) auto
  then show ?thesis
  proof cases
    case 1
    then have "r = on_offer m i n s now \<or> r = fm_send m (F_Reject i (lit ''file transfer disabled''))"
      using assms(1) by (auto simp: on_file_msg_def split: if_splits)
    moreover have "answers_ok (ops @ [op]) (fm_send m x)" for x
      using answers_ok_calm [OF assms(3), of "fm_send m x" op] by (simp add: calm_refl)
    ultimately show ?thesis using answers_ok_offer [OF assms(3)] 1 by auto
  next
    case 2
    then show ?thesis using assms(1) answers_ok_respond [OF assms(3)] by auto
  qed
qed

section \<open>What was asked for\<close>

lemma may_start_asked:
  assumes "(i, n, s) \<in> may_start m op" and "fm_run sha m0 ops = Some m" and "fm_policy m = fm_policy m0"
    and "answers_ok ops m"
    and "\<forall>u. fm_until m = Some u \<longrightarrow> (\<exists>p t. Op_Download p t \<in> set ops \<and> u = t + secs 30)"
  shows "asked sha m0 (ops @ [op]) i n s"
  using assms(1)
proof (cases "(m, op)" rule: may_start.cases)
  case (1 m' j now)
  then have "hm_get (fm_approval m) i = Some (n, s)" "op = Op_Respond i True now"
    using assms(1) by (auto split: option.splits)
  moreover from this obtain env t where "Op_Msg (F_Offer i n s) env t \<in> set ops" "last_shown m i = Some (n, s)"
      "fp_side (fm_policy m) = Side_Host" "fp_ask (fm_policy m)"
    using assms(4) unfolding answers_ok_def by blast
  ultimately show ?thesis using assms(2,3) unfolding asked_def by auto
next
  case (2 m' j n' s' env now)
  then have o: "op = Op_Msg (F_Offer i n s) env now" using assms(1) by (auto split: side.splits option.splits if_splits)
  show ?thesis
  proof (cases "fp_side (fm_policy m)")
    case Side_Host
    then show ?thesis using 2 assms(1,3) o by (auto simp: asked_def split: if_splits)
  next
    case Side_Viewer
    then obtain p t where "Op_Download p t \<in> set ops" "now < t + secs 30"
      using 2 assms(1,5) by (auto split: option.splits if_splits)
    then have "\<exists>xs env' now' zs p t. ops @ [op] = xs @ Op_Msg (F_Offer i n s) env' now' # zs \<and>
        Op_Download p t \<in> set xs \<and> now' < t + secs 30" unfolding o by blast
    then show ?thesis using Side_Viewer assms(3) by (simp add: asked_def)
  qed
qed auto

text \<open>
  C20. Nothing is received unasked: in every run, an entry that holds an open incoming file, or waits
  for a slot to get one, has a name and a size that were asked for. On a host that asks, its user said yes to
  the entry's id while the last request shown under that id was the one for this name and size (an offer that
  repeats an id replaces the one before it, and the answer names only the id); on the viewer the offer of this file
  fell into the window that a download opens.
\<close>

theorem received_only_if_asked:
  assumes "fm_run sha (manager_new pol allowed fs) ops = Some m"
    and "hm_get (fm_transfers m) i = Some t" and "receiving t"
  shows "asked sha (manager_new pol allowed fs) ops i (ti_name (tr_info t)) (ti_size (tr_info t))"
proof -
  let ?m0 = "manager_new pol allowed fs"
  have "hm_wf (fm_transfers m) \<and> fm_policy m = fm_policy ?m0 \<and> answers_ok ops m \<and>
      (\<forall>u. fm_until m = Some u \<longrightarrow> (\<exists>p t. Op_Download p t \<in> set ops \<and> u = t + secs 30)) \<and>
      (\<forall>i n s. wants m i (n, s) \<longrightarrow> asked sha ?m0 ops i n s)"
    using assms(1)
  proof (induction rule: fm_run_induct)
    case Nil
    show ?case by (simp add: manager_new_def wants_def answers_ok_def)
  next
    case (snoc ops m op m1)
    note f = apply_fixed [OF snoc(2)]
    have free: "hm_get (fm_transfers m) i = None" if "hm_get (fm_approval m) i = Some x" for i x
      using that snoc(3) by (cases x) (simp add: answers_ok_def)
    have "asked sha ?m0 (ops @ [op]) j n s" if "wants m1 j (n, s)" for j n s
    proof (cases "wants m j (n, s)")
      case True
      then show ?thesis using snoc(3) by (blast intro: asked_append)
    next
      case False
      have "grows (may_start m op) m m1"
        by (rule grows_apply [OF snoc(2)]) (use snoc(3) free in auto)
      then have "(j, n, s) \<in> may_start m op" using False that unfolding grows_def by blast
      then show ?thesis using may_start_asked snoc(1,3) by blast
    qed
    moreover have "\<exists>p t. Op_Download p t \<in> set (ops @ [op]) \<and> u = t + secs 30"
      if "fm_until m1 = Some u" for u
      using f snoc(3) that unfolding set_append by (metis UnI1 UnI2 list.set_intros(1) option.inject)
    ultimately show ?case using f snoc(3) wf_apply [OF snoc(2)] answers_ok_apply [OF snoc(2)] by auto
  qed
  moreover have "wants m i (ti_name (tr_info t), ti_size (tr_info t))"
    using assms(2,3) by (simp add: wants_def meant_def)
  ultimately show ?thesis by blast
qed

text \<open>A host that takes files into \<open>d\<close> of the example disk; hashing is the identity here.\<close>

definition demo_policy :: "side \<Rightarrow> bool \<Rightarrow> nat \<Rightarrow> file_policy" where
  "demo_policy sd ask slots =
     \<lparr>fp_side = sd, fp_dir = [lit ''d''], fp_ask = ask, fp_max_size = 100, fp_max_active = slots\<rparr>"

definition demo_env :: file_env where
  "demo_env = \<lparr>fe_stop = None, fe_finish = disk_fine, fe_listing = ([], None), fe_expanded = None, fe_canonical = False\<rparr>"

lemma demo_received:
  "\<exists>m t. fm_run (\<lambda>b. b) (manager_new (demo_policy Side_Host True 0) True demo_fs)
     [Op_Msg (F_Offer 1 (lit ''b'') 4) demo_env 0, Op_Respond 1 True 5] = Some m \<and>
     hm_get (fm_transfers m) 1 = Some t \<and> receiving t \<and> meant t = (lit ''b'', 4)"
proof -
  have s: "\<exists>r. sanitize_relative (lit ''b'') = Inr r" by (simp add: sanitize_Inr) code_simp
  show ?thesis using s
    by (auto simp: manager_new_def demo_policy_def on_file_msg_def on_offer_def respond_def
        accept_incoming_def active_count_def wants_def receiving_def track_def Let_def meant_def
        fm_emit_def hm_contains_def)
qed

theorem received_only_if_asked_witness:
  "\<exists>m. fm_run (\<lambda>b. b) (manager_new (demo_policy Side_Host True 0) True demo_fs)
     [Op_Msg (F_Offer 1 (lit ''b'') 4) demo_env 0, Op_Respond 1 True 5] = Some m \<and>
     asked (\<lambda>b. b) (manager_new (demo_policy Side_Host True 0) True demo_fs)
       [Op_Msg (F_Offer 1 (lit ''b'') 4) demo_env 0, Op_Respond 1 True 5] 1 (lit ''b'') 4"
proof -
  obtain m t where m: "fm_run (\<lambda>b. b) (manager_new (demo_policy Side_Host True 0) True demo_fs)
     [Op_Msg (F_Offer 1 (lit ''b'') 4) demo_env 0, Op_Respond 1 True 5] = Some m"
     "hm_get (fm_transfers m) 1 = Some t" "receiving t" "meant t = (lit ''b'', 4)"
    using demo_received by blast
  show ?thesis using received_only_if_asked [OF m(1-3)] m(1,4) by (simp add: meant_def)
qed

text \<open>
  What the theorem does not say: that the user saw the name before answering. Two offers under one id, and the
  answer meant for the first takes the second.
\<close>

lemma answer_takes_later_offer:
  "case fm_run (\<lambda>b. b) (manager_new (demo_policy Side_Host True 0) True demo_fs)
     [Op_Msg (F_Offer 1 (lit ''b'') 4) demo_env 0, Op_Msg (F_Offer 1 (lit ''evil'') 9) demo_env 0, Op_Respond 1 True 5] of
     None \<Rightarrow> False
   | Some m \<Rightarrow> requests (fm_events m) = [(1, lit ''b'', 4), (1, lit ''evil'', 9)] \<and>
       map_option meant (hm_get (fm_transfers m) 1) = Some (lit ''evil'', 9) \<and>
       map_option receiving (hm_get (fm_transfers m) 1) = Some True"
  by code_simp

end
