(* ===== verification/Transfers_Guard.thy ===== *)
theory Transfers_Guard
  imports Transfers_Props
begin

text \<open>
  What the file manager can do to the disk. Its only effects go through the three operations of an
  incoming file; the locale \<open>store_guard\<close> states what a property of the file system must satisfy
  for those three to keep it, and lifts it to every run of the manager. Its instance says that
  nothing outside the download directory is ever touched.
\<close>

section \<open>Operations that leave the disk alone\<close>

definition holding :: "manager \<Rightarrow> incoming \<Rightarrow> bool" where
  "holding m inc \<longleftrightarrow> (\<exists>i t. hm_get (fm_transfers m) i = Some t \<and> tr_incoming t = Some inc)"

definition keeps :: "manager \<Rightarrow> manager \<Rightarrow> bool" where
  "keeps m m' \<longleftrightarrow> fm_fs m' = fm_fs m \<and> (\<forall>inc. holding m' inc \<longrightarrow> holding m inc)"

lemma keeps_refl [intro, simp]: "keeps m m"
  by (simp add: keeps_def)

lemma keeps_trans: "keeps m m1 \<Longrightarrow> keeps m1 m2 \<Longrightarrow> keeps m m2"
  by (simp add: keeps_def)

lemma keeps_same: "fm_transfers m' = fm_transfers m \<Longrightarrow> fm_fs m' = fm_fs m \<Longrightarrow> keeps m m'"
  by (simp add: keeps_def holding_def)

lemma keeps_update:
  "(\<And>t. tr_incoming (f t) = None \<or> tr_incoming (f t) = tr_incoming t) \<Longrightarrow> keeps m (t_update m i f)"
  by (simp add: keeps_def holding_def fm_simps) (metis option.distinct(1))

lemma keeps_ctl_update:
  "(\<And>t. tr_incoming (f t) = None \<or> tr_incoming (f t) = tr_incoming t) \<Longrightarrow> keeps m (t_update (set_ctl m i g) j f)"
  by (rule keeps_trans [OF keeps_same keeps_update]) (simp_all add: fm_simps)

lemma keeps_fail: "keeps m (t_fail m i w)"
  unfolding t_fail_def by (rule keeps_update) simp

lemma keeps_track: "keeps m (track m i n s u p st now)"
  by (auto simp: keeps_def holding_def track_def Let_def fm_simps split: if_splits)

lemma keeps_progress: "keeps m (progress m i n now)"
  by (auto simp: keeps_def holding_def fm_simps split: if_splits)

lemma keeps_offer: "keeps m (snd (t_offer m p n now))"
proof -
  have "keeps m (fm_send (track (m\<lparr>fm_next := k\<rparr>) i n s True p TS_Pending now) x)" for k i s x
  proof (rule keeps_trans [OF _ keeps_same])
    show "keeps m (track (m\<lparr>fm_next := k\<rparr>) i n s True p TS_Pending now)"
      by (rule keeps_trans [OF keeps_same keeps_track]) simp_all
  qed (simp_all add: fm_simps)
  then show ?thesis by (simp add: t_offer_def alloc_id_def Let_def split: option.split)
qed

lemma keeps_foldl: "(\<And>m x. keeps m (f m x)) \<Longrightarrow> keeps m (foldl f m xs)"
proof (induction xs arbitrary: m)
  case (Cons x xs)
  then show ?case using keeps_trans by (metis foldl_Cons)
qed simp

lemma keeps_offer_each: "keeps m (snd (offer_each m fs now))"
proof (induction m fs now rule: offer_each.induct)
  case (2 m p n fs now)
  show ?case
  proof (cases "t_offer m p n now")
    case (Pair r m1)
    then show ?thesis using 2 keeps_offer [of m p n now] keeps_trans by (cases r) auto
  qed
qed simp

lemma keeps_cancel: "keeps m (t_cancel m i)"
proof -
  have "keeps m (t_update (fm_send (set_ctl m i g) x) i mark_cancelled)" for g x
    by (rule keeps_trans [OF keeps_same keeps_update]) (simp_all add: fm_simps mark_cancelled_def)
  then show ?thesis by (simp add: t_cancel_def)
qed

lemma keeps_stream_step: "keeps m (stream_step sha m k n up now)"
proof -
  have a: "keeps m (t_fail (stream_end m k) i w)" for i w
    by (rule keeps_trans [OF keeps_same keeps_fail]) (simp_all add: fm_simps)
  have b: "keeps m (progress (stream_set (send_bulk m x) k y) i j now)" for x y i j
    by (rule keeps_trans [OF keeps_same keeps_progress]) (simp_all add: fm_simps)
  have c: "keeps m (stream_end m k)" "keeps m (stream_end (send_bulk m x) k)" "keeps m (stream_set m k y)" for x y
    by (rule keeps_same, simp_all add: fm_simps)+
  have "keeps m (stream_chunk sha m k t f n up now)" for t f
    unfolding stream_chunk_def
    by (cases n; cases "next_chunk (fm_fs m) f (the n)"; cases "fst (next_chunk (fm_fs m) f (the n))";
        cases "hash_file sha (fm_fs m) (st_path t)") (simp_all add: a b c split: prod.split)
  then show ?thesis
    unfolding stream_step_def Let_def by (simp add: a c split: stream_at.split option.split)
qed

lemma keeps_on_accept: "keeps m (on_accept m i f)"
proof (cases "hm_get (fm_transfers m) i")
  case None
  then show ?thesis by (simp add: on_accept_def)
next
  case (Some t)
  define m1 where "m1 = m\<lparr>fm_transfers := hm_insert i
      (t\<lparr>tr_info := (tr_info t)\<lparr>ti_status := TS_Active\<rparr>, tr_resume := f\<rparr>) (fm_transfers m)\<rparr>"
  have "keeps m m1" using Some by (auto simp: keeps_def holding_def m1_def split: if_splits)
  moreover have "keeps m1 (t_update m1 i (\<lambda>t. t\<lparr>tr_info := (tr_info t)\<lparr>ti_transferred := f\<rparr>\<rparr>))"
    by (rule keeps_update) simp
  ultimately have k: "keeps m (t_update m1 i (\<lambda>t. t\<lparr>tr_info := (tr_info t)\<lparr>ti_transferred := f\<rparr>\<rparr>))"
    "keeps m (t_fail m1 i w)" for w using keeps_fail keeps_trans by blast+
  then show ?thesis
    unfolding on_accept_def Some option.case Let_def m1_def [symmetric]
    by (auto simp: keeps_def holding_def)
qed

section \<open>Lifting a property of the disk\<close>

locale store_guard =
  fixes good :: "fsys \<Rightarrow> bool" and holds :: "fsys \<Rightarrow> incoming \<Rightarrow> bool" and rel :: "fsys \<Rightarrow> fsys \<Rightarrow> bool"
    and dir :: path
  assumes rel_refl: "rel fs fs"
    and rel_trans: "rel fs fs1 \<Longrightarrow> rel fs1 fs2 \<Longrightarrow> rel fs fs2"
    and open_keeps: "good fs \<Longrightarrow> incoming_open fs dir n s mx resume = (r, fs1) \<Longrightarrow>
        good fs1 \<and> rel fs fs1 \<and> (\<forall>inc. holds fs inc \<longrightarrow> holds fs1 inc) \<and> (\<forall>inc. r = Inr inc \<longrightarrow> holds fs1 inc)"
    and write_keeps: "good fs \<Longrightarrow> holds fs inc \<Longrightarrow> write_chunk fs inc off d stop = (w, fs1) \<Longrightarrow>
        good fs1 \<and> rel fs fs1 \<and> (\<forall>inc. holds fs inc \<longrightarrow> holds fs1 inc) \<and> (\<forall>inc. w = Inr inc \<longrightarrow> holds fs1 inc)"
    and finish_keeps: "good fs \<Longrightarrow> holds fs inc \<Longrightarrow> finish sha fs inc h env = (p, fs1) \<Longrightarrow>
        good fs1 \<and> rel fs fs1 \<and> (\<forall>inc. holds fs inc \<longrightarrow> holds fs1 inc)"
begin

definition guarded :: "manager \<Rightarrow> bool" where
  "guarded m \<longleftrightarrow> good (fm_fs m) \<and> (\<forall>inc. holding m inc \<longrightarrow> holds (fm_fs m) inc) \<and>
     fp_dir (fm_policy m) = dir \<and> hm_wf (fm_transfers m)"

definition advances :: "manager \<Rightarrow> manager \<Rightarrow> bool" where
  "advances m m' \<longleftrightarrow> good (fm_fs m') \<and> (\<forall>inc. holding m' inc \<longrightarrow> holds (fm_fs m') inc) \<and> rel (fm_fs m) (fm_fs m')"

lemma advances_keeps: "guarded m \<Longrightarrow> keeps m m' \<Longrightarrow> advances m m'"
  by (simp add: guarded_def keeps_def advances_def rel_refl)

lemma advances_then_keeps: "advances m m1 \<Longrightarrow> keeps m1 m2 \<Longrightarrow> advances m m2"
  by (simp add: keeps_def advances_def)

lemma advances_start_incoming:
  assumes "guarded m"
  shows "advances m (start_incoming m i n s now)"
proof (cases "incoming_open (fm_fs m) (fp_dir (fm_policy m)) n s (fp_max_size (fm_policy m))
        (resumes (fm_fs m) (fp_dir (fm_policy m)) n)")
  case (Pair r fs1)
  have g: "good (fm_fs m)" and d: "fp_dir (fm_policy m) = dir" using assms by (simp_all add: guarded_def)
  note o = open_keeps [OF g Pair [unfolded d]]
  have m1: "advances m (m\<lparr>fm_fs := fs1\<rparr>)"
    using o assms by (auto simp: advances_def guarded_def holding_def)
  show ?thesis
  proof (cases r)
    case (Inl e)
    have "keeps (m\<lparr>fm_fs := fs1\<rparr>) (t_fail (fm_send (m\<lparr>fm_fs := fs1\<rparr>) x) i w)" for x w
      by (rule keeps_trans [OF keeps_same keeps_fail]) (simp_all add: fm_simps)
    then show ?thesis
      using Pair Inl advances_then_keeps [OF m1] by (simp add: start_incoming_def Let_def)
  next
    case (Inr inc)
    define m2 where "m2 = (if hm_contains (fm_transfers (m\<lparr>fm_fs := fs1\<rparr>)) i then m\<lparr>fm_fs := fs1\<rparr>
        else track (m\<lparr>fm_fs := fs1\<rparr>) i n s False (fp_dir (fm_policy m) @ split_on 47 n) TS_Active now)"
    have "keeps (m\<lparr>fm_fs := fs1\<rparr>) m2" by (simp add: m2_def keeps_track)
    then have m2: "advances m m2" by (rule advances_then_keeps [OF m1])
    have fs2: "fm_fs m2 = fs1" by (simp add: m2_def fm_simps)
    define m3 where "m3 = t_update m2 i (\<lambda>t.
        t\<lparr>tr_info := (tr_info t)\<lparr>ti_status := TS_Active, ti_transferred := inc_received inc\<rparr>,
          tr_queued := False, tr_incoming := Some inc\<rparr>)"
    have "advances m m3"
      using m2 o Inr fs2 by (auto simp: advances_def m3_def holding_def fm_simps split: if_splits)
    moreover have "keeps m3 (fm_send m3 x)" for x by (rule keeps_same) (simp_all add: fm_simps)
    ultimately have "advances m (fm_send m3 x)" for x by (rule advances_then_keeps)
    then show ?thesis
      unfolding start_incoming_def Let_def Pair prod.case Inr sum.case m2_def [symmetric] m3_def [symmetric] .
  qed
qed

lemma advances_accept_incoming:
  assumes "guarded m"
  shows "advances m (accept_incoming m i n s now)"
proof -
  let ?m1 = "track m i n s False [] TS_Pending now"
  have "keeps ?m1 (?m1\<lparr>fm_transfers := hm_insert i (t\<lparr>tr_queued := True\<rparr>) (fm_transfers ?m1)\<rparr>)"
    if "hm_get (fm_transfers ?m1) i = Some t" for t
    using that by (auto simp: keeps_def holding_def split: if_splits)
  then have "keeps m (case hm_get (fm_transfers ?m1) i of None \<Rightarrow> ?m1
      | Some t \<Rightarrow> ?m1\<lparr>fm_transfers := hm_insert i (t\<lparr>tr_queued := True\<rparr>) (fm_transfers ?m1)\<rparr>)"
    using keeps_track keeps_trans by (fastforce split: option.split)
  then show ?thesis
    unfolding accept_incoming_def Let_def
    using advances_keeps [OF assms] advances_start_incoming [OF assms] by simp
qed

lemma advances_start_queued:
  assumes "start_queued m0 now = Some r" and "guarded m0" and "advances m m0"
  shows "advances m r"
proof -
  have "guarded r \<and> advances m r"
    using assms(1)
  proof (rule start_queued_inv [where I = "\<lambda>r. guarded r \<and> advances m r"], goal_cases)
    case (2 m1 i t)
    let ?r = "start_incoming m1 i (ti_name (tr_info t)) (ti_size (tr_info t)) now"
    have a: "advances m1 ?r" using 2 advances_start_incoming by blast
    have "fp_dir (fm_policy ?r) = dir" "hm_wf (fm_transfers ?r)"
      using 2 wf_start_incoming
      by (auto simp: guarded_def start_incoming_def Let_def fm_simps split: prod.split sum.split)
    then show ?case using a 2 rel_trans by (auto simp: guarded_def advances_def)
  qed (use assms(2,3) in auto)
  then show ?thesis by blast
qed

lemma advances_on_chunk:
  assumes "guarded m"
  shows "advances m (on_chunk m i off d env now)"
proof (cases "\<exists>t inc. hm_get (fm_transfers m) i = Some t \<and> tr_incoming t = Some inc \<and>
    \<not> ctl_cancelled (ctl_at m (tr_ctl t))")
  case False
  then have "on_chunk m i off d env now = m" by (auto simp: on_chunk_def split: option.split)
  then show ?thesis using advances_keeps [OF assms] by simp
next
  case True
  then obtain t inc where t: "hm_get (fm_transfers m) i = Some t" "tr_incoming t = Some inc"
      "\<not> ctl_cancelled (ctl_at m (tr_ctl t))" by blast
  have g: "good (fm_fs m)" and h: "holds (fm_fs m) inc"
    using assms t by (auto simp: guarded_def holding_def)
  obtain w fs1 where w: "write_chunk (fm_fs m) inc off d (fe_stop env) = (w, fs1)" by force
  note k = write_keeps [OF g h w]
  show ?thesis
  proof (cases w)
    case (Inl e)
    have "advances m (m\<lparr>fm_fs := fs1\<rparr>)" using k assms by (auto simp: advances_def guarded_def holding_def)
    moreover have "keeps (m\<lparr>fm_fs := fs1\<rparr>) (t_fail (fm_send (m\<lparr>fm_fs := fs1\<rparr>) x) i y)" for x y
      by (rule keeps_trans [OF keeps_same keeps_fail]) (simp_all add: fm_simps)
    ultimately show ?thesis
      unfolding on_chunk_def using t w Inl advances_then_keeps by simp
  next
    case (Inr inc1)
    let ?m1 = "m\<lparr>fm_fs := fs1, fm_transfers := hm_insert i (t\<lparr>tr_incoming := Some inc1\<rparr>) (fm_transfers m)\<rparr>"
    have "advances m ?m1"
      using k assms Inr by (auto simp: advances_def guarded_def holding_def split: if_splits)
    then have "advances m (progress ?m1 i (inc_received inc1) now)"
      by (rule advances_then_keeps [OF _ keeps_progress])
    then show ?thesis unfolding on_chunk_def using t w Inr by simp
  qed
qed

lemma advances_on_done:
  assumes "on_done sha m i h env now = Some r" and "guarded m"
  shows "advances m r"
proof (cases "\<exists>t inc. hm_get (fm_transfers m) i = Some t \<and> tr_incoming t = Some inc")
  case False
  then have "r = m" using assms(1) by (auto simp: on_done_def split: option.splits)
  then show ?thesis using advances_keeps [OF assms(2)] by simp
next
  case True
  then obtain t inc where t: "hm_get (fm_transfers m) i = Some t" "tr_incoming t = Some inc" by blast
  have g: "good (fm_fs m)" and hd: "holds (fm_fs m) inc"
    using assms(2) t by (auto simp: guarded_def holding_def)
  obtain p fs1 where p: "finish sha (fm_fs m) inc h (fe_finish env) = (p, fs1)" by force
  note k = finish_keeps [OF g hd p]
  define m1 where "m1 = m\<lparr>fm_fs := fs1, fm_transfers := hm_insert i (t\<lparr>tr_incoming := None\<rparr>) (fm_transfers m)\<rparr>"
  have "advances m m1"
    using k assms(2) by (auto simp: advances_def guarded_def holding_def m1_def split: if_splits)
  moreover have up: "keeps m1 (t_update (fm_send m1 x) i (\<lambda>t. (mark_completed t)\<lparr>tr_path := q\<rparr>))" for x q
    by (rule keeps_trans [OF keeps_same keeps_update]) (simp_all add: fm_simps mark_completed_def)
  moreover have fl: "keeps m1 (t_fail (fm_send m1 x) i y)" for x y
    by (rule keeps_trans [OF keeps_same keeps_fail]) (simp_all add: fm_simps)
  ultimately have a: "advances m (t_update (fm_send m1 x) i (\<lambda>t. (mark_completed t)\<lparr>tr_path := q\<rparr>))"
      "advances m (t_fail (fm_send m1 x) i y)" for x y q
    by (blast intro: advances_then_keeps)+
  have wf1: "hm_wf (fm_transfers m1)" "fp_dir (fm_policy m1) = dir"
    using assms(2) by (simp_all add: guarded_def m1_def)
  define m2 where "m2 = (case p of
      Inr final \<Rightarrow> t_update (fm_send m1 (F_Verified i True)) i (\<lambda>t. (mark_completed t)\<lparr>tr_path := final\<rparr>)
    | Inl e \<Rightarrow> t_fail (fm_send m1 (F_Verified i False)) i (lit ''integrity check failed''))"
  have m1': "m\<lparr>fm_transfers := hm_insert i (t\<lparr>tr_incoming := None\<rparr>) (fm_transfers m), fm_fs := fs1\<rparr> = m1"
    by (simp add: m1_def)
  have "start_queued m2 now = Some r"
    using assms(1) t p m1' by (cases p) (simp_all add: on_done_def done_file_def Let_def m2_def)
  moreover have "advances m m2" unfolding m2_def by (cases p) (simp_all only: sum.case a)
  moreover have "guarded m2"
    using \<open>advances m m2\<close> wf1 unfolding m2_def by (cases p) (auto simp: guarded_def advances_def fm_simps)
  ultimately show ?thesis using advances_start_queued by blast
qed

lemma advances_on_offer:
  assumes "guarded m"
  shows "advances m (on_offer m i n s now)"
proof -
  have "on_offer m i n s now = accept_incoming m i n s now \<or> keeps m (on_offer m i n s now)"
    by (auto simp: on_offer_def Let_def fm_simps intro!: keeps_same split: side.split option.split)
  then show ?thesis using advances_accept_incoming [OF assms] advances_keeps [OF assms] by metis
qed

lemma advances_on_file_msg:
  assumes "on_file_msg sha m x env now = Some r" and "guarded m"
  shows "advances m r"
proof (cases "fm_allowed m")
  case False
  then have "keeps m r" using assms(1)
    by (auto simp: on_file_msg_def fm_simps intro!: keeps_same split: file_msg.splits)
  then show ?thesis by (rule advances_keeps [OF assms(2)])
next
  case True
  have same: "keeps m (fm_send m y)" "keeps m (fm_emit m e)" for y e
    by (rule keeps_same, simp_all add: fm_simps)+
  show ?thesis
  proof (cases x)
    case (F_Offer i n s)
    then show ?thesis using assms True advances_on_offer by (auto simp: on_file_msg_def)
  next
    case (F_Chunk i off d)
    then show ?thesis using assms True advances_on_chunk by (auto simp: on_file_msg_def)
  next
    case (F_Done i h)
    then show ?thesis using assms True advances_on_done by (auto simp: on_file_msg_def)
  next
    case (F_Fetch i p)
    have "keeps m (foldl (\<lambda>m (q, n). snd (t_offer m q n now)) m fs)" for fs
      by (rule keeps_foldl) (auto simp: keeps_offer split: prod.split)
    then have "keeps m r" using assms True F_Fetch same
      by (auto simp: on_file_msg_def on_fetch_def simp del: foldl.simps split: option.splits if_splits list.splits)
    then show ?thesis by (rule advances_keeps [OF assms(2)])
  next
    case (F_Verified i ok)
    have "keeps m (t_update m i mark_completed)" by (rule keeps_update) (simp add: mark_completed_def)
    then show ?thesis using assms True F_Verified advances_keeps [OF assms(2)] keeps_fail
      by (auto simp: on_file_msg_def split: if_splits)
  next
    case (F_Cancel i)
    have "keeps m (t_update (set_ctl m i g) i mark_cancelled)" for g
      by (rule keeps_ctl_update) (simp add: mark_cancelled_def)
    then show ?thesis using assms True F_Cancel advances_keeps [OF assms(2)] by (auto simp: on_file_msg_def)
  qed (use assms True advances_keeps [OF assms(2)] keeps_on_accept keeps_fail same in
      \<open>auto simp: on_file_msg_def on_list_def split: if_splits\<close>)
qed

lemma advances_apply:
  assumes "fm_apply sha m op = Some r" and "guarded m"
  shows "advances m r"
proof (cases op)
  case (Op_Msg x env now)
  then show ?thesis using assms advances_on_file_msg by simp
next
  case (Op_Respond i accept now)
  have "guarded (m\<lparr>fm_approval := a\<rparr>)" for a using assms(2) by (simp add: guarded_def holding_def)
  then have "advances (m\<lparr>fm_approval := a\<rparr>) (accept_incoming (m\<lparr>fm_approval := a\<rparr>) i n s now)" for a n s
    by (rule advances_accept_incoming)
  then have "advances m (accept_incoming (m\<lparr>fm_approval := a\<rparr>) i n s now)" for a n s
    by (simp add: advances_def)
  moreover have "keeps m (fm_send (m\<lparr>fm_approval := a\<rparr>) x)" for a x by (rule keeps_same) (simp_all add: fm_simps)
  ultimately show ?thesis using assms Op_Respond advances_keeps [OF assms(2)]
    by (auto simp: respond_def Let_def split: option.splits)
next
  case (Op_Send env now)
  then show ?thesis using assms advances_keeps [OF assms(2)] keeps_offer_each
    by (auto simp: send_paths_state split: option.splits)
next
  case (Op_Download p now)
  have "keeps m (fm_send (m\<lparr>fm_until := u, fm_next := k\<rparr>) x)" for u k x
    by (rule keeps_same) (simp_all add: fm_simps)
  then show ?thesis using assms Op_Download advances_keeps [OF assms(2)]
    by (auto simp: download_def alloc_id_def Let_def split: if_splits)
next
  case (Op_List p)
  have "keeps m (fm_send m x)" for x by (rule keeps_same) (simp_all add: fm_simps)
  then show ?thesis using assms Op_List advances_keeps [OF assms(2)] by (auto simp: list_dir_def)
next
  case (Op_Pause i)
  then show ?thesis using assms by (auto simp: t_pause_def intro!: advances_keeps keeps_ctl_update split: if_splits)
next
  case (Op_Resume i)
  then show ?thesis using assms by (auto simp: t_resume_def intro!: advances_keeps keeps_ctl_update split: if_splits)
next
  case (Op_Cancel i)
  then show ?thesis using assms advances_keeps [OF assms(2)] keeps_cancel by auto
next
  case (Op_Allow a)
  have "keeps (m\<lparr>fm_allowed := a\<rparr>) (foldl t_cancel (m\<lparr>fm_allowed := a\<rparr>) is)" for "is"
    by (rule keeps_foldl) (rule keeps_cancel)
  then have "keeps m (foldl t_cancel (m\<lparr>fm_allowed := a\<rparr>) is)" "keeps m (m\<lparr>fm_allowed := a\<rparr>)" for "is"
    by (simp_all add: keeps_def holding_def)
  then show ?thesis using assms Op_Allow advances_keeps [OF assms(2)]
    by (auto simp: fm_set_allowed_def cancel_all_def Let_def)
next
  case (Op_Retry i now)
  have "keeps m (m\<lparr>fm_transfers := hm_remove i (fm_transfers m)\<rparr>)"
    by (auto simp: keeps_def holding_def split: if_splits)
  then show ?thesis using assms Op_Retry advances_keeps [OF assms(2)] keeps_trans [OF _ keeps_offer]
    by (auto simp: retry_def split: option.splits if_splits)
next
  case (Op_Stream k n up now)
  then show ?thesis using assms advances_keeps [OF assms(2)] keeps_stream_step by auto
qed

lemma run_guarded:
  assumes "fm_run sha m0 ops = Some m" and "guarded m0"
  shows "guarded m \<and> rel (fm_fs m0) (fm_fs m)"
  using assms(1)
proof (induction rule: fm_run_induct)
  case Nil
  show ?case using assms(2) rel_refl by simp
next
  case (snoc ops m op m1)
  have "advances m m1" using advances_apply snoc by blast
  moreover have "fp_dir (fm_policy m1) = dir" "hm_wf (fm_transfers m1)"
    using apply_fixed [OF snoc(2)] wf_apply [OF snoc(2)] snoc(3) by (auto simp: guarded_def)
  ultimately show ?case using snoc(3) rel_trans by (auto simp: guarded_def advances_def)
qed

end

section \<open>Nothing outside the download directory\<close>

text \<open>
  What a path names once its dot components are resolved: something below the directory, spelled with plain
  names only, none of which is a drive, a stream or another path.
\<close>

definition inside :: "path \<Rightarrow> path \<Rightarrow> bool" where
  "inside dir p \<longleftrightarrow> strictly_inside (resolve dir) (resolve p) \<and>
     (\<forall>c \<in> set (drop (length (resolve dir)) (resolve p)). normal_component c)"

definition apart :: "path \<Rightarrow> fsys \<Rightarrow> bool" where
  "apart dir fs \<longleftrightarrow> fs_ok fs \<and>
     (\<forall>p q i. inside dir p \<longrightarrow> \<not> inside dir q \<longrightarrow>
        hm_get (f_names fs) p = Some i \<longrightarrow> hm_get (f_names fs) q \<noteq> Some i)"

definition inside_file :: "path \<Rightarrow> fsys \<Rightarrow> incoming \<Rightarrow> bool" where
  "inside_file dir fs inc \<longleftrightarrow> inside dir (inc_target inc) \<and> inside dir (inc_part inc) \<and>
     inc_file inc < length (f_data fs) \<and>
     (\<forall>q. \<not> inside dir q \<longrightarrow> hm_get (f_names fs) q \<noteq> Some (inc_file inc))"

definition same_outside :: "path \<Rightarrow> fsys \<Rightarrow> fsys \<Rightarrow> bool" where
  "same_outside dir fs fs1 \<longleftrightarrow> (\<forall>q. \<not> inside dir q \<longrightarrow> file_at fs1 q = file_at fs q)"

lemma inside_normal: "r \<noteq> [] \<Longrightarrow> \<forall>c \<in> set r. normal_component c \<Longrightarrow> inside dir (dir @ r)"
  by (simp add: inside_def resolve_normal)

text \<open>The names made up from an accepted one are plain names too.\<close>

lemma normal_extend: "normal_component c \<Longrightarrow> \<forall>x \<in> set e. x \<notin> {47, 92, 58} \<Longrightarrow> length c + length e > 2 \<Longrightarrow>
    normal_component (c @ e)"
  by (auto simp: normal_component_def dest: arg_cong [of _ "[46]" length] arg_cong [of _ "[46, 46]" length])

lemma split_on_chars: "p \<in> set (split_on c s) \<Longrightarrow> set p \<subseteq> set s"
proof (induction s arbitrary: p)
  case (Cons x xs)
  then show ?case by (fastforce split: list.splits if_splits)
qed simp

lemma join_with_chars: "set (join_with c ps) \<subseteq> insert c (\<Union> (set ` set ps))"
  by (induction ps rule: induct_list012) auto

lemma rsplit_dot_chars:
  assumes "rsplit_dot name = (stem, ext)"
  shows "set stem \<subseteq> insert 46 (set name)" "ext = Some e \<Longrightarrow> set e \<subseteq> set name"
proof -
  have b: "set (join_with 46 (butlast (split_on 46 name))) \<subseteq> insert 46 (set name)"
  proof
    fix x assume "x \<in> set (join_with 46 (butlast (split_on 46 name)))"
    then have "x = 46 \<or> (\<exists>p \<in> set (butlast (split_on 46 name)). x \<in> set p)" using join_with_chars by fastforce
    then show "x \<in> insert 46 (set name)" using in_set_butlastD split_on_chars by fastforce
  qed
  show "set stem \<subseteq> insert 46 (set name)" using assms b by (auto simp: rsplit_dot_def Let_def split: if_splits)
  show "set e \<subseteq> set name" if "ext = Some e"
    using assms that split_on_chars [of "last (split_on 46 name)" 46 name]
    by (auto simp: rsplit_dot_def Let_def split: if_splits)
qed

lemma numbered_normal:
  assumes "normal_component c"
  shows "normal_component (numbered c i)"
proof -
  obtain stem ext where r: "rsplit_dot c = (stem, ext)" by force
  have ok: "47 \<notin> set c" "92 \<notin> set c" "58 \<notin> set c" using assms by (simp_all add: normal_component_def)
  have d: "47 \<notin> set (dec_digits i)" "92 \<notin> set (dec_digits i)" "58 \<notin> set (dec_digits i)"
    using dec_digits_digit [of _ i] by (fastforce simp: is_ascii_digit_def)+
  have st: "47 \<notin> set stem" "92 \<notin> set stem" "58 \<notin> set stem" using rsplit_dot_chars(1) [OF r] ok by auto
  have "47 \<notin> set e" "92 \<notin> set e" "58 \<notin> set e" if "ext = Some e" for e
    using rsplit_dot_chars(2) [OF r that] ok by auto
  moreover have "40 \<in> set (numbered c i)" by (simp add: numbered_def r)
  then have "numbered c i \<noteq> [46]" "numbered c i \<noteq> [46, 46]" "numbered c i \<noteq> []" by auto
  ultimately show ?thesis using st d by (auto simp: normal_component_def numbered_def r split: option.splits)
qed

lemma unique_path_inside:
  assumes "r \<noteq> []" and "\<forall>c \<in> set r. normal_component c"
  shows "\<exists>r1. unique_path fs dir r = dir @ r1 \<and> r1 \<noteq> [] \<and> (\<forall>c \<in> set r1. normal_component c)"
proof (cases rule: unique_path_cases [of fs dir r])
  case (2 i)
  have "\<forall>c \<in> set (butlast r @ [numbered (last r) i]). normal_component c"
    using assms in_set_butlastD [of _ r] numbered_normal [of "last r" i] by auto
  then show ?thesis using 2(3) by blast
qed (use assms in auto)

lemma part_path_inside:
  assumes "r \<noteq> []" and "\<forall>c \<in> set r. normal_component c"
  shows "inside dir (part_path (dir @ r))"
proof -
  have "normal_component (last r @ lit ''.part'')"
    by (rule normal_extend) (use assms in auto)
  then have "\<forall>c \<in> set (butlast r @ [last r @ lit ''.part'']). normal_component c"
    using assms(2) in_set_butlastD [of _ r] by auto
  then have "inside dir (dir @ butlast r @ [last r @ lit ''.part''])" by (intro inside_normal) simp_all
  then show ?thesis using assms(1) by (simp add: part_path_def butlast_append)
qed

lemma open_apart:
  assumes ap: "apart dir fs" and "incoming_open fs dir n s mx resume = (r, fs1)"
  shows "apart dir fs1 \<and> same_outside dir fs fs1 \<and> (\<forall>inc. inside_file dir fs inc \<longrightarrow> inside_file dir fs1 inc) \<and>
    (\<forall>inc. r = Inr inc \<longrightarrow> inside_file dir fs1 inc)"
proof (cases r)
  case (Inl e)
  have "f_names fs1 = f_names fs \<and> f_data fs1 = f_data fs"
    using assms(2) Inl create_dir_all_Some(1,2)
    by (fastforce simp: incoming_open_def Let_def split: if_splits sum.splits option.splits)
  moreover from this have "content fs1 = content fs" by (simp add: content_def fun_eq_iff)
  ultimately have "file_at fs1 = file_at fs" "fs_ok fs1 = fs_ok fs"
    by (simp_all add: file_at_def [abs_def] fs_ok_def)
  then show ?thesis using Inl ap \<open>f_names fs1 = f_names fs \<and> f_data fs1 = f_data fs\<close>
    by (simp add: apart_def same_outside_def inside_file_def)
next
  case (Inr inc)
  have opened: "incoming_open fs dir n s mx resume = (Inr inc, fs1)" using assms(2) Inr by simp
  obtain rel fs0 where o: "sanitize_relative n = Inr rel"
      "inc_target inc = (if resume then dir @ rel else unique_path fs dir rel)"
      "create_dir_all fs (butlast (inc_target inc)) = Some fs0"
      "inc_part inc = part_path (inc_target inc)"
      "open_write fs0 (inc_part inc) (inc_received inc = 0) = Some (inc_file inc, fs1)"
    using opened by (rule incoming_open_Inr) (rule that, assumption+)
  note c = create_dir_all_Some [OF o(3)]
  have ok0: "fs_ok fs0" using ap c by (simp add: apart_def fs_ok_def)
  note w = open_write_Some [OF o(5) ok0]
  have r: "rel \<noteq> []" "\<forall>c \<in> set rel. normal_component c" using o(1) valid_normal by (auto simp: sanitize_Inr)
  obtain r1 where r1: "inc_target inc = dir @ r1" "r1 \<noteq> []" "\<forall>c \<in> set r1. normal_component c"
    using o(2) unique_path_inside [OF r, of fs dir] r by (cases resume) auto
  have tin: "inside dir (inc_target inc)" unfolding r1(1) by (rule inside_normal [OF r1(2,3)])
  have pin: "inside dir (inc_part inc)" unfolding o(4) r1(1) by (rule part_path_inside [OF r1(2,3)])
  have names: "hm_get (f_names fs1) q = hm_get (f_names fs) q" if "q \<noteq> inc_part inc" for q
    using w(5) [OF that] c(1) by simp
  have fresh: "inc_file inc = length (f_data fs)" if "hm_get (f_names fs) (inc_part inc) = None"
    using o(5) that c by (auto simp: open_write_def split: if_splits)
  have old: "hm_get (f_names fs) (inc_part inc) = Some j \<Longrightarrow> inc_file inc = j" for j
    using o(5) c by (auto simp: open_write_def split: if_splits)
  have sep: "hm_get (f_names fs) q \<noteq> Some (inc_file inc)" if "\<not> inside dir q" for q
  proof (cases "hm_get (f_names fs) (inc_part inc)")
    case None
    then show ?thesis using fresh ap fs_okD [of fs q] by (auto simp: apart_def)
  next
    case (Some j)
    then show ?thesis using old ap pin that unfolding apart_def by metis
  qed
  have len: "length (f_data fs) \<le> length (f_data fs1)"
    using o(5) c by (auto simp: open_write_def split: if_splits option.splits)
  have keep: "file_at fs1 q = file_at fs q" if "\<not> inside dir q" for q
  proof -
    have q: "q \<noteq> inc_part inc" using that pin by blast
    show ?thesis
    proof (cases "hm_get (f_names fs) q")
      case (Some j)
      then have "j \<noteq> inc_file inc" using sep that by auto
      then show ?thesis using names [OF q] Some w(7) c by (simp add: file_at_def content_def)
    qed (use names [OF q] in \<open>simp add: file_at_def\<close>)
  qed
  have in1: "inside_file dir fs1 inc"
    using tin pin w(2) sep names unfolding inside_file_def by metis
  have other: "hm_get (f_names fs1) q \<noteq> Some i"
    if a: "inside dir p" "\<not> inside dir q" "hm_get (f_names fs1) p = Some i" for p q i
  proof -
    have "q \<noteq> inc_part inc" using a(2) pin by blast
    then have q: "hm_get (f_names fs1) q = hm_get (f_names fs) q" by (rule names)
    show ?thesis
    proof (cases "p = inc_part inc")
      case True
      then have "i = inc_file inc" using a(3) w(1) by simp
      then show ?thesis using q sep [OF a(2)] by simp
    next
      case False
      then have "hm_get (f_names fs) p = Some i" using a(3) names by simp
      then show ?thesis using a(1,2) q ap unfolding apart_def by simp
    qed
  qed
  then have "apart dir fs1" using w(3) unfolding apart_def by blast
  moreover have "inside_file dir fs1 j" if "inside_file dir fs j" for j
  proof -
    have "hm_get (f_names fs1) q \<noteq> Some (inc_file j)" if q: "\<not> inside dir q" for q
    proof -
      have "q \<noteq> inc_part inc" using q pin by blast
      then show ?thesis using names [of q] \<open>inside_file dir fs j\<close> q by (simp add: inside_file_def)
    qed
    then show ?thesis using that len by (simp add: inside_file_def)
  qed
  ultimately show ?thesis using Inr keep in1 by (auto simp: same_outside_def)
qed

lemma write_apart:
  assumes "apart dir fs" and "inside_file dir fs inc" and "write_chunk fs inc off d stop = (w, fs1)"
  shows "apart dir fs1 \<and> same_outside dir fs fs1 \<and> (\<forall>inc. inside_file dir fs inc \<longrightarrow> inside_file dir fs1 inc) \<and>
    (\<forall>inc. w = Inr inc \<longrightarrow> inside_file dir fs1 inc)"
proof -
  have fs1: "fs1 = fs \<or> (\<exists>o1 d1. fs1 = fs_write fs (inc_file inc) o1 d1)"
    and w: "\<And>inc1. w = Inr inc1 \<Longrightarrow> inc_target inc1 = inc_target inc \<and> inc_part inc1 = inc_part inc \<and> inc_file inc1 = inc_file inc"
    using assms(3) by (auto simp: write_chunk_def split: if_splits option.splits)
  have wi: "inside_file dir fs inc1" if "w = Inr inc1" for inc1
    using w [OF that] assms(2) unfolding inside_file_def by metis
  from fs1 consider "fs1 = fs" | o1 d1 where "fs1 = fs_write fs (inc_file inc) o1 d1" by blast
  then show ?thesis
  proof cases
    case 1
    then show ?thesis using assms(1,2) wi by (simp add: same_outside_def)
  next
    case 2
    have "same_outside dir fs fs1"
      unfolding same_outside_def
    proof (intro allI impI)
      fix q assume q: "\<not> inside dir q"
      show "file_at fs1 q = file_at fs q"
      proof (cases "hm_get (f_names fs) q")
        case (Some j)
        then have "j \<noteq> inc_file inc" using assms(2) q by (auto simp: inside_file_def)
        then show ?thesis using Some 2 by (simp add: file_at_def content_fs_write)
      qed (simp add: file_at_def 2)
    qed
    moreover have "apart dir fs1" using assms(1) 2 by (simp add: apart_def)
    moreover have "inside_file dir fs1 j" if "inside_file dir fs j" for j
      using that 2 by (simp add: inside_file_def)
    ultimately show ?thesis using wi by blast
  qed
qed

lemma finish_disk:
  assumes "finish sha fs inc h env = (p, fs1)"
  obtains "fs1 = fs" | "fs1 = remove_file fs (inc_part inc)"
    | i where "hm_get (f_names fs) (inc_part inc) = Some i"
        "fs1 = fs\<lparr>f_names := hm_insert (inc_target inc) i (hm_remove (inc_part inc) (f_names fs))\<rparr>"
proof -
  have "fs1 = fs \<or> fs1 = remove_file fs (inc_part inc) \<or> fs_rename fs (inc_part inc) (inc_target inc) = Some fs1"
    using assms by (auto simp: finish_def split: if_splits option.splits)
  then show thesis using that by (auto simp: fs_rename_def split: option.splits if_splits)
qed

text \<open>Moving or dropping names inside the directory.\<close>

lemma apart_rename:
  assumes "apart dir fs" and "f_data fs1 = f_data fs"
    and out: "\<And>q. \<not> inside dir q \<Longrightarrow> hm_get (f_names fs1) q = hm_get (f_names fs) q"
    and ins: "\<And>p i. inside dir p \<Longrightarrow> hm_get (f_names fs1) p = Some i \<Longrightarrow>
        \<exists>p1. inside dir p1 \<and> hm_get (f_names fs) p1 = Some i"
  shows "apart dir fs1 \<and> same_outside dir fs fs1 \<and> (\<forall>inc. inside_file dir fs inc \<longrightarrow> inside_file dir fs1 inc)"
proof (intro conjI allI impI)
  have old: "\<exists>p1. hm_get (f_names fs) p1 = Some i" if "hm_get (f_names fs1) p = Some i" for p i
    using that out ins by (cases "inside dir p") (auto, metis)
  have "fs_ok fs1" using assms(1,2) old unfolding apart_def fs_ok_def by metis
  moreover have "hm_get (f_names fs1) q \<noteq> Some i"
    if "inside dir p" "\<not> inside dir q" "hm_get (f_names fs1) p = Some i" for p q i
    using that ins [OF that(1,3)] out [OF that(2)] assms(1) unfolding apart_def by metis
  ultimately show "apart dir fs1" unfolding apart_def by blast
  have "content fs1 = content fs" using assms(2) by (simp add: content_def fun_eq_iff)
  then show "same_outside dir fs fs1" using out by (simp add: same_outside_def file_at_def)
  show "inside_file dir fs1 inc" if "inside_file dir fs inc" for inc
    using that out assms(2) by (simp add: inside_file_def)
qed

lemma finish_apart:
  assumes "apart dir fs" and "inside_file dir fs inc" and "finish sha fs inc h env = (p, fs1)"
  shows "apart dir fs1 \<and> same_outside dir fs fs1 \<and> (\<forall>inc. inside_file dir fs inc \<longrightarrow> inside_file dir fs1 inc)"
proof -
  have tp: "inside dir (inc_target inc)" "inside dir (inc_part inc)"
    using assms(2) by (simp_all add: inside_file_def)
  show ?thesis
  proof (cases rule: finish_disk [OF assms(3)])
    case 1
    then show ?thesis using assms by (simp add: same_outside_def)
  next
    case 2
    show ?thesis
      by (rule apart_rename [OF assms(1)]) (use tp 2 in \<open>auto simp: remove_file_def split: if_splits\<close>)
  next
    case (3 i)
    show ?thesis
      by (rule apart_rename [OF assms(1)]) (use tp 3 in \<open>auto split: if_splits\<close>)
  qed
qed

interpretation outside: store_guard "apart dir" "inside_file dir" "same_outside dir" dir for dir
proof (unfold_locales, goal_cases)
  case (3 fs n s mx resume r fs1)
  then show ?case by (rule open_apart)
next
  case (4 fs inc off d stop w fs1)
  then show ?case by (rule write_apart)
next
  case (5 fs inc sha h flushed p fs1)
  then show ?case by (rule finish_apart)
qed (simp_all add: same_outside_def)

text \<open>
  C21. Confinement: whatever the peer sends and the user does, in any order, every file outside the
  download directory keeps its content, where a path is inside if it still is one step or more below the directory after
  its dot components are resolved, by plain names alone; provided no file is known both by a name
  inside and by a name outside.
\<close>

theorem only_download_dir_changes:
  assumes "fm_run sha (manager_new pol allowed fs) ops = Some m" and "apart (fp_dir pol) fs"
    and "\<not> inside (fp_dir pol) q"
  shows "file_at (fm_fs m) q = file_at fs q"
proof -
  have "outside.guarded (fp_dir pol) (manager_new pol allowed fs)"
    using assms(2) by (simp add: outside.guarded_def manager_new_def holding_def)
  from outside.run_guarded [OF assms(1) this] show ?thesis
    using assms(3) by (simp add: same_outside_def manager_new_def)
qed

theorem only_download_dir_changes_witness:
  "\<exists>m. fm_run (\<lambda>b. b) (manager_new (demo_policy Side_Host True 0) True demo_fs)
     [Op_Msg (F_Offer 1 (lit ''b'') 4) demo_env 0, Op_Respond 1 True 5] = Some m \<and>
     file_at (fm_fs m) [lit ''d'', lit ''..'', lit ''x''] = None"
proof -
  obtain m where m: "fm_run (\<lambda>b. b) (manager_new (demo_policy Side_Host True 0) True demo_fs)
      [Op_Msg (F_Offer 1 (lit ''b'') 4) demo_env 0, Op_Respond 1 True 5] = Some m"
    using demo_received by blast
  have names: "f_names demo_fs = [([lit ''d'', lit ''a''], 0)]" by (simp add: demo_fs_def)
  have d: "fp_dir (demo_policy Side_Host True 0) = [lit ''d'']" by (simp add: demo_policy_def)
  have "inside [lit ''d''] [lit ''d'', lit ''a'']" by code_simp
  then have "apart (fp_dir (demo_policy Side_Host True 0)) demo_fs"
    using demo_fs_ok unfolding apart_def d names hm_get_def by (auto split: if_splits)
  moreover have "\<not> inside (fp_dir (demo_policy Side_Host True 0)) [lit ''d'', lit ''..'', lit ''x'']"
    unfolding d by code_simp
  ultimately have "file_at (fm_fs m) [lit ''d'', lit ''..'', lit ''x''] = file_at demo_fs [lit ''d'', lit ''..'', lit ''x'']"
    by (rule only_download_dir_changes [OF m])
  moreover have "file_at demo_fs [lit ''d'', lit ''..'', lit ''x''] = None" by code_simp
  ultimately show ?thesis using m by auto
qed

end
