(* ===== verification/Transfers_Live.thy ===== *)
theory Transfers_Live
  imports Transfers_Props "HOL-Library.Code_Target_Nat"
begin

text \<open>
  What switching file transfer off stops, when the loop that starts queued downloads returns, and
  runs that show where it does not and what a second transfer of the same name can do.
\<close>

section \<open>Switching file transfer off\<close>

lemma mark_cancelled_twice [simp]: "mark_cancelled (mark_cancelled t) = mark_cancelled t"
  by (simp add: mark_cancelled_def)

lemma cancel_get:
  "hm_get (fm_transfers (t_cancel m i)) j =
     map_option (\<lambda>t. if j = i then mark_cancelled t else t) (hm_get (fm_transfers m) j)"
  by (cases "hm_get (fm_transfers m) j") (auto simp: t_cancel_def hm_contains_def fm_simps)

lemma foldl_cancel_get:
  "hm_get (fm_transfers (foldl t_cancel m is)) j =
     map_option (\<lambda>t. if j \<in> set is then mark_cancelled t else t) (hm_get (fm_transfers m) j)"
proof (induction "is" arbitrary: m)
  case Nil
  then show ?case by (cases "hm_get (fm_transfers m) j") simp_all
next
  case (Cons i "is")
  then show ?case by (cases "hm_get (fm_transfers m) j") (simp_all add: cancel_get)
qed

lemma cancel_other_fields:
  "fm_fs (t_cancel m i) = fm_fs m" "fm_allowed (t_cancel m i) = fm_allowed m"
  by (simp_all add: t_cancel_def fm_simps)

lemma foldl_cancel_fields:
  "fm_fs (foldl t_cancel m is) = fm_fs m" "fm_allowed (foldl t_cancel m is) = fm_allowed m"
  by (induction "is" arbitrary: m) (simp_all add: cancel_other_fields)

definition over :: "transfer_status \<Rightarrow> bool" where
  "over s \<longleftrightarrow> s \<in> {TS_Completed, TS_Failed, TS_Cancelled}"

lemma set_allowed_False:
  assumes "hm_wf (fm_transfers m)"
  shows "\<not> fm_allowed (fm_set_allowed m False)" "fm_fs (fm_set_allowed m False) = fm_fs m"
    "hm_get (fm_transfers (fm_set_allowed m False)) i = Some t \<Longrightarrow> over (ti_status (tr_info t))"
proof -
  let ?is = "map fst (filter (\<lambda>(_, t). ti_status (tr_info t) \<in> {TS_Active, TS_Pending, TS_Paused})
      (fm_transfers (m\<lparr>fm_allowed := False\<rparr>)))"
  have e: "fm_set_allowed m False = foldl t_cancel (m\<lparr>fm_allowed := False\<rparr>) ?is"
    unfolding fm_set_allowed_def Let_def cancel_all_def by simp
  show "\<not> fm_allowed (fm_set_allowed m False)" "fm_fs (fm_set_allowed m False) = fm_fs m"
    unfolding e foldl_cancel_fields by simp_all
  assume "hm_get (fm_transfers (fm_set_allowed m False)) i = Some t"
  then obtain t0 where t0: "hm_get (fm_transfers m) i = Some t0" "t = (if i \<in> set ?is then mark_cancelled t0 else t0)"
    unfolding e foldl_cancel_get by auto
  show "over (ti_status (tr_info t))"
  proof (cases "ti_status (tr_info t0) \<in> {TS_Active, TS_Pending, TS_Paused}")
    case True
    have "(i, t0) \<in> set (fm_transfers m)" using t0(1) by (rule hm_get_Some_in)
    then have "i \<in> set ?is" using True by force
    then show ?thesis using t0(2) by (simp add: mark_cancelled_def over_def)
  next
    case False
    then have "over (ti_status (tr_info t0))" by (cases "ti_status (tr_info t0)") (simp_all add: over_def)
    then show ?thesis using t0(2) by (auto simp: mark_cancelled_def over_def)
  qed
qed

definition is_peer_msg :: "fm_op \<Rightarrow> bool" where
  "is_peer_msg op = (case op of Op_Msg _ _ _ \<Rightarrow> True | _ \<Rightarrow> False)"

text \<open>
  Off means off: once file transfer is switched off every transfer is over, and whatever the
  peer sends then, the disk, the table, the streams and the bulk queue stay as they are; the only
  answer is a refusal.
\<close>

theorem off_refuses_everything:
  assumes "hm_wf (fm_transfers m)" and "fm_run sha (fm_set_allowed m False) ops = Some m2"
    and "\<forall>op \<in> set ops. is_peer_msg op"
  shows "(\<forall>i t. hm_get (fm_transfers m2) i = Some t \<longrightarrow> over (ti_status (tr_info t))) \<and>
    fm_fs m2 = fm_fs m \<and>
    (\<exists>ids. m2 = (fm_set_allowed m False)\<lparr>fm_sent :=
       fm_sent (fm_set_allowed m False) @ map (\<lambda>i. F_Reject i (lit ''file transfer disabled'')) ids\<rparr>)"
proof -
  let ?m1 = "fm_set_allowed m False"
  have "\<exists>ids. m2 = ?m1\<lparr>fm_sent := fm_sent ?m1 @ map (\<lambda>i. F_Reject i (lit ''file transfer disabled'')) ids\<rparr>"
    using assms(2,3)
  proof (induction rule: fm_run_induct)
    case Nil
    show ?case by (intro exI [of _ "[]"]) simp
  next
    case (snoc ops m' op m1)
    then obtain ids where ids: "m' = ?m1\<lparr>fm_sent := fm_sent ?m1 @ map (\<lambda>i. F_Reject i (lit ''file transfer disabled'')) ids\<rparr>"
      by auto
    obtain x env now where op: "op = Op_Msg x env now"
      using snoc(4) by (auto simp: is_peer_msg_def split: fm_op.splits)
    have "\<not> fm_allowed m'" using ids set_allowed_False(1) [OF assms(1)] by simp
    then have "m1 = m' \<or> (\<exists>i. m1 = fm_send m' (F_Reject i (lit ''file transfer disabled'')))"
      using snoc(2) op by (auto simp: on_file_msg_def split: file_msg.splits)
    then show ?case
    proof
      assume "\<exists>i. m1 = fm_send m' (F_Reject i (lit ''file transfer disabled''))"
      then obtain i where "m1 = fm_send m' (F_Reject i (lit ''file transfer disabled''))" by blast
      then show ?thesis using ids by (intro exI [of _ "ids @ [i]"]) (simp add: fm_send_def)
    qed (use ids in blast)
  qed
  then obtain ids where ids: "m2 = ?m1\<lparr>fm_sent := fm_sent ?m1 @ map (\<lambda>i. F_Reject i (lit ''file transfer disabled'')) ids\<rparr>"
    by blast
  then show ?thesis using set_allowed_False [OF assms(1)] by auto
qed

section \<open>Starting queued downloads\<close>

abbreviation try_open :: "fsys \<Rightarrow> file_policy \<Rightarrow> transfer \<Rightarrow> (file_error + incoming) \<times> fsys" where
  "try_open fs pol t \<equiv> incoming_open fs (fp_dir pol) (ti_name (tr_info t)) (ti_size (tr_info t)) (fp_max_size pol)
     (resumes fs (fp_dir pol) (ti_name (tr_info t)))"

text \<open>A free slot, and the next queued download cannot be opened.\<close>

definition stuck :: "manager \<Rightarrow> bool" where
  "stuck m \<longleftrightarrow> active_count m < fp_max_active (fm_policy m) \<and>
     (\<exists>i t e fs1. next_queued m = Some (i, t) \<and> try_open (fm_fs m) (fm_policy m) t = (Inl e, fs1))"

inductive starts :: "instant \<Rightarrow> manager \<Rightarrow> manager \<Rightarrow> bool" for now m where
  starts_none: "starts now m m"
| starts_one: "starts now m m1 \<Longrightarrow> active_count m1 < fp_max_active (fm_policy m1) \<Longrightarrow>
    next_queued m1 = Some (i, t) \<Longrightarrow>
    starts now m (start_incoming m1 i (ti_name (tr_info t)) (ti_size (tr_info t)) now)"

lemma open_fails_again:
  assumes "incoming_open fs dir n s mx (resumes fs dir n) = (Inl e, fs1)"
  shows "\<exists>e fs2. incoming_open fs1 dir n s mx (resumes fs1 dir n) = (Inl e, fs2)"
proof (cases "mx < s")
  case True
  then show ?thesis by (simp add: incoming_open_def)
next
  case small: False
  show ?thesis
  proof (cases "sanitize_relative n")
    case (Inl e)
    then show ?thesis using small by (simp add: incoming_open_def)
  next
    case (Inr r)
    define target where "target = (if resumes fs dir n then dir @ r else unique_path fs dir r)"
    have ne: "r \<noteq> []" using Inr by (auto simp: sanitize_Inr)
    show ?thesis
    proof (cases "create_dir_all fs (butlast target)")
      case None
      then have "fs1 = fs" using assms small Inr by (simp add: incoming_open_def Let_def target_def)
      then show ?thesis using assms by blast
    next
      case (Some fs0)
      note c = create_dir_all_Some [OF Some]
      let ?part = "part_path target"
      have "\<exists>trunc. open_write fs0 ?part trunc = None \<and> fs1 = fs0"
        using assms small Inr Some
        by (auto simp: incoming_open_def Let_def simp flip: target_def split: option.splits)
      then have fs1: "fs1 = fs0" and fail: "\<exists>trunc. open_write fs0 ?part trunc = None" by blast+
      have tne: "target \<noteq> []" and tlen: "length target = length (dir @ r)"
        using ne unfolding target_def
        by (cases rule: unique_path_cases [of fs dir r]; simp)+
      have lenp: "length ?part = length target" using tne by (simp add: part_path_def)
      have "is_dir fs0 ?part"
        using fail c(3) part_path_butlast [OF tne] by (auto simp: open_write_def split: if_splits option.splits)
      have long: "path_exists fs0 q = path_exists fs q" if "length (dir @ r) \<le> length q" for q
      proof -
        have "q \<notin> set (prefixes_of (butlast target))"
          using prefixes_length [of q "butlast target"] that tlen length_greater_0_conv [of target] tne
          unfolding length_butlast by linarith
        then have "is_dir fs0 q = is_dir fs q" using c(4,5) by blast
        then show ?thesis using c(1) by (simp add: path_exists_def)
      qed
      have partlen: "length (part_path q) = length q" if "q \<noteq> []" for q :: path
        using that by (simp add: part_path_def)
      have free: "path_free fs0 q = path_free fs q" if "length q = length (dir @ r)" for q
      proof -
        have "q \<noteq> []" using that ne by auto
        then show ?thesis
          using that long [of q] long [of "part_path q"] partlen [of q] by (simp add: path_free_def)
      qed
      have res: "resumes fs0 dir n = resumes fs dir n"
        using long [of "dir @ r"] long [of "part_path (dir @ r)"] partlen [of "dir @ r"] Inr ne
        by (simp add: resumes_def)
      have uni: "unique_path fs0 dir r = unique_path fs dir r"
      proof -
        have "find (path_free fs0) (map (\<lambda>i. dir @ butlast r @ [numbered (last r) i]) [1..<10000]) =
            find (path_free fs) (map (\<lambda>i. dir @ butlast r @ [numbered (last r) i]) [1..<10000])"
          by (rule find_cong) (use free ne in \<open>auto simp: length_butlast\<close>)
        then show ?thesis unfolding unique_path_def Let_def using free [of "dir @ r"] by simp
      qed
      have t0: "(if resumes fs0 dir n then dir @ r else unique_path fs0 dir r) = target"
        by (simp add: target_def res uni)
      obtain fs2 where fs2: "create_dir_all fs0 (butlast target) = Some fs2"
        using Some c(1) by (auto simp: create_dir_all_def split: if_splits)
      have "is_dir fs2 ?part" using create_dir_all_Some(4) [OF fs2] \<open>is_dir fs0 ?part\<close> by blast
      then have "open_write fs2 ?part trunc = None" for trunc by (simp add: open_write_def)
      then show ?thesis
        using small Inr fs2 unfolding fs1 incoming_open_def by (simp add: t0 Let_def)
    qed
  qed
qed

lemma find_updated:
  assumes "find (\<lambda>(_, t). P t) xs = Some (i, t)" and "distinct (map fst xs)" and "P (f t)"
  shows "find (\<lambda>(_, t). P t) (hm_insert i (f t) xs) = Some (i, f t)"
  using assms
proof (induction xs)
  case (Cons x xs)
  obtain k t1 where x: "x = (k, t1)" by force
  show ?case
  proof (cases "P t1")
    case True
    then show ?thesis using Cons x by (simp add: hm_insert_def)
  next
    case False
    then have f: "find (\<lambda>(_, t). P t) xs = Some (i, t)" using Cons(2) x by simp
    then have "(i, t) \<in> set xs" using nth_mem by (fastforce simp: find_Some_iff)
    then have "k \<noteq> i" using Cons(3) x by force
    then show ?thesis using Cons(1) [OF f] Cons(3,4) x False by (simp add: hm_insert_def)
  qed
qed simp

lemma length_filter_update_less:
  assumes "hm_get xs i = Some t" and "P t" and "\<not> P u"
  shows "length (filter (\<lambda>(_, t). P t) (hm_insert i u xs)) < length (filter (\<lambda>(_, t). P t) xs)"
  using assms by (induction xs) (auto simp: hm_get_def hm_insert_def)

lemma length_filter_update_le:
  assumes "hm_get xs i = Some t" and "P u \<Longrightarrow> P t"
  shows "length (filter (\<lambda>(_, t). P t) (hm_insert i u xs)) \<le> length (filter (\<lambda>(_, t). P t) xs)"
  using assms by (induction xs) (auto simp: hm_get_def hm_insert_def)

definition queue_length :: "manager \<Rightarrow> nat" where
  "queue_length m = length (filter (\<lambda>(_, t). tr_queued t \<and> \<not> ti_upload (tr_info t)) (fm_transfers m))"

lemma start_incoming_opened:
  assumes "hm_get (fm_transfers m) i = Some t" and "tr_queued t" "\<not> ti_upload (tr_info t)"
    and "try_open (fm_fs m) (fm_policy m) t = (Inr inc, fs1)"
  shows "queue_length (start_incoming m i (ti_name (tr_info t)) (ti_size (tr_info t)) now) < queue_length m"
proof -
  define f :: "transfer \<Rightarrow> transfer" where "f = (\<lambda>t. t\<lparr>tr_info := (tr_info t)\<lparr>ti_status := TS_Active, ti_transferred := inc_received inc\<rparr>,
      tr_queued := False, tr_incoming := Some inc\<rparr>)"
  have "fm_transfers (start_incoming m i (ti_name (tr_info t)) (ti_size (tr_info t)) now) =
      hm_insert i (f t) (fm_transfers m)"
    using assms(1,4) by (simp add: start_incoming_def Let_def fm_simps hm_contains_def t_update_def f_def)
  then show ?thesis
    unfolding queue_length_def
    using length_filter_update_less [OF assms(1), of "\<lambda>t. tr_queued t \<and> \<not> ti_upload (tr_info t)" "f t"] assms(2,3)
    by (simp add: f_def)
qed

lemma stuck_again:
  assumes "stuck m" and "hm_wf (fm_transfers m)" and "next_queued m = Some (i, t)"
  shows "stuck (start_incoming m i (ti_name (tr_info t)) (ti_size (tr_info t)) now)"
proof -
  obtain e fs1 where o: "try_open (fm_fs m) (fm_policy m) t = (Inl e, fs1)"
    using assms(1,3) by (auto simp: stuck_def)
  note q = next_queued_Some [OF assms(3,2)]
  define g :: "transfer \<Rightarrow> transfer" where "g = (\<lambda>t. t\<lparr>tr_info := (tr_info t)\<lparr>ti_status := TS_Failed, ti_error := Some (error_text e),
      ti_speed := 0, ti_eta := None\<rparr>, tr_incoming := None\<rparr>)"
  let ?r = "start_incoming m i (ti_name (tr_info t)) (ti_size (tr_info t)) now"
  have r: "fm_transfers ?r = hm_insert i (g t) (fm_transfers m)" "fm_fs ?r = fs1" "fm_policy ?r = fm_policy m"
    using o q(1) by (simp_all add: start_incoming_def Let_def fm_simps t_fail_def t_update_def g_def)
  have nq: "next_queued ?r = Some (i, g t)"
    unfolding next_queued_def r(1)
    by (rule find_updated [where P = "\<lambda>t. tr_queued t \<and> \<not> ti_upload (tr_info t)"])
      (use assms(2,3) q in \<open>simp_all add: next_queued_def hm_wf_def g_def\<close>)
  have "active_count ?r \<le> active_count m"
    unfolding active_count_def r(1)
    by (rule length_filter_update_le [OF q(1), where P = "\<lambda>t. ti_status (tr_info t) = TS_Active"])
      (simp add: g_def)
  moreover have "try_open (fm_fs ?r) (fm_policy ?r) (g t) = incoming_open fs1 (fp_dir (fm_policy m))
      (ti_name (tr_info t)) (ti_size (tr_info t)) (fp_max_size (fm_policy m))
      (resumes fs1 (fp_dir (fm_policy m)) (ti_name (tr_info t)))"
    by (simp add: r g_def)
  ultimately show ?thesis
    using open_fails_again [OF o] nq assms(1) by (auto simp: stuck_def r(3))
qed

lemma stuck_never_returns:
  assumes "start_queued m now = Some r" and "hm_wf (fm_transfers m)"
  shows "\<not> stuck m"
proof -
  have "hm_wf (fm_transfers m) \<longrightarrow> \<not> stuck m"
  proof (rule start_queued.raw_induct [OF _ assms(1), where P = "\<lambda>m now r. hm_wf (fm_transfers m) \<longrightarrow> \<not> stuck m"], rule impI, rule notI)
    fix rec m now y
    assume IH: "\<And>m now y. rec m now = Some y \<Longrightarrow> hm_wf (fm_transfers m) \<longrightarrow> \<not> stuck m"
      and body: "(if active_count m < fp_max_active (fm_policy m)
        then case next_queued m of None \<Rightarrow> Some m
          | Some (tid, t) \<Rightarrow> rec (start_incoming m tid (ti_name (tr_info t)) (ti_size (tr_info t)) now) now
        else Some m) = Some y"
      and wf: "hm_wf (fm_transfers m)" and st: "stuck m"
    obtain i t where q: "next_queued m = Some (i, t)" and a: "active_count m < fp_max_active (fm_policy m)"
      using st by (auto simp: stuck_def)
    have "rec (start_incoming m i (ti_name (tr_info t)) (ti_size (tr_info t)) now) now = Some y"
      using body q a by simp
    then show False using IH stuck_again [OF st wf q] wf_start_incoming [OF wf] by blast
  qed
  then show ?thesis using assms(2) by blast
qed

lemma starts_same:
  assumes "starts now m m1" and "hm_wf (fm_transfers m)"
  shows "hm_wf (fm_transfers m1) \<and> start_queued m now = start_queued m1 now"
  using assms(1)
proof induction
  case (starts_one m1 i t)
  have "start_queued m1 now =
      start_queued (start_incoming m1 i (ti_name (tr_info t)) (ti_size (tr_info t)) now) now"
    using starts_one(2,3) by (subst start_queued.simps) simp
  then show ?case using starts_one(4) wf_start_incoming by simp
qed (use assms(2) in simp)

lemma starts_step:
  assumes "starts now (start_incoming m i (ti_name (tr_info t)) (ti_size (tr_info t)) now) m1"
    and "active_count m < fp_max_active (fm_policy m)" and "next_queued m = Some (i, t)"
  shows "starts now m m1"
  using assms(1)
proof induction
  case starts_none
  show ?case using starts.starts_one [OF starts.starts_none assms(2,3)] .
next
  case (starts_one m1 j u)
  then show ?case using starts.starts_one by blast
qed

lemma returns_or_gets_stuck:
  assumes "hm_wf (fm_transfers m)"
  shows "(\<exists>r. start_queued m now = Some r) \<or> (\<exists>m1. starts now m m1 \<and> stuck m1)"
  using assms
proof (induction "queue_length m" arbitrary: m rule: less_induct)
  case less
  show ?case
  proof (cases "active_count m < fp_max_active (fm_policy m) \<and> next_queued m \<noteq> None")
    case False
    then show ?thesis by (subst start_queued.simps) (auto split: option.split)
  next
    case True
    then obtain i t where q: "next_queued m = Some (i, t)" by auto
    let ?m1 = "start_incoming m i (ti_name (tr_info t)) (ti_size (tr_info t)) now"
    show ?thesis
    proof (cases "\<exists>e fs1. try_open (fm_fs m) (fm_policy m) t = (Inl e, fs1)")
      case fails: True
      then have "stuck m" using True q by (auto simp: stuck_def)
      then show ?thesis using starts_none by blast
    next
      case False
      then obtain inc fs1 where "try_open (fm_fs m) (fm_policy m) t = (Inr inc, fs1)"
        by (metis prod.exhaust sum.exhaust)
      then have "queue_length ?m1 < queue_length m"
        using next_queued_Some [OF q less(2)] start_incoming_opened by blast
      then have "(\<exists>r. start_queued ?m1 now = Some r) \<or> (\<exists>m1. starts now ?m1 m1 \<and> stuck m1)"
        using less(1) wf_start_incoming [OF less(2)] by blast
      moreover have "start_queued m now = start_queued ?m1 now"
        using True q by (subst start_queued.simps) simp
      ultimately show ?thesis using starts_step [OF _ _ q] True by metis
    qed
  qed
qed

text \<open>
  C22. The loop that starts queued downloads returns exactly when it never meets, with a slot still
  free, a queued download that cannot be opened; and then either all slots are taken or nothing
  waits any more.
\<close>

theorem start_queued_returns_iff:
  assumes "hm_wf (fm_transfers m)"
  shows "(\<exists>r. start_queued m now = Some r \<and>
        (active_count r \<ge> fp_max_active (fm_policy r) \<or> next_queued r = None)) \<longleftrightarrow>
      \<not> (\<exists>m1. starts now m m1 \<and> stuck m1)"
proof -
  have full: "active_count r \<ge> fp_max_active (fm_policy r) \<or> next_queued r = None"
    if "start_queued m now = Some r" for m now r
    by (rule start_queued.raw_induct [OF _ that, where P = "\<lambda>m now r.
        active_count r \<ge> fp_max_active (fm_policy r) \<or> next_queued r = None"])
      (auto split: if_splits option.splits prod.splits)
  have "\<not> stuck m1" if "starts now m m1" "start_queued m now = Some r" for m1 r
    using starts_same [OF that(1) assms] that(2) stuck_never_returns by metis
  then show ?thesis using returns_or_gets_stuck [OF assms] full by blast
qed

section \<open>Runs\<close>

theorem start_queued_returns_iff_witness:
  "\<not> (\<exists>m1. starts 0 (manager_new (demo_policy Side_Host True 2) True demo_fs) m1 \<and> stuck m1)"
proof -
  have "start_queued (manager_new (demo_policy Side_Host True 2) True demo_fs) 0 =
      Some (manager_new (demo_policy Side_Host True 2) True demo_fs)"
    by (subst start_queued.simps) (simp add: manager_new_def active_count_def next_queued_def)
  moreover have "next_queued (manager_new (demo_policy Side_Host True 2) True demo_fs) = None"
    by (simp add: manager_new_def next_queued_def)
  moreover have "hm_wf (fm_transfers (manager_new (demo_policy Side_Host True 2) True demo_fs))"
    by (simp add: manager_new_def)
  ultimately show ?thesis using start_queued_returns_iff by blast
qed

theorem off_refuses_everything_witness:
  "\<exists>m2. fm_run (\<lambda>b. b) (fm_set_allowed (track (manager_new (demo_policy Side_Host True 2) True demo_fs)
       1 (lit ''b'') 4 False [] TS_Pending 0) False) [Op_Msg (F_Fetch 3 []) demo_env 0] = Some m2 \<and>
     (\<forall>i t. hm_get (fm_transfers m2) i = Some t \<longrightarrow> over (ti_status (tr_info t))) \<and> fm_fs m2 = demo_fs"
proof -
  let ?m = "track (manager_new (demo_policy Side_Host True 2) True demo_fs) 1 (lit ''b'') 4 False [] TS_Pending 0"
  have wf: "hm_wf (fm_transfers ?m)" by (simp add: fm_simps manager_new_def)
  have fs: "fm_fs ?m = demo_fs" by (simp add: fm_simps manager_new_def)
  obtain m2 where r: "fm_run (\<lambda>b. b) (fm_set_allowed ?m False) [Op_Msg (F_Fetch 3 []) demo_env 0] = Some m2"
    using set_allowed_False(1) [OF wf] by (simp add: on_file_msg_def)
  have "\<forall>op \<in> set [Op_Msg (F_Fetch 3 []) demo_env 0]. is_peer_msg op" by (simp add: is_peer_msg_def)
  from off_refuses_everything [OF wf r this] show ?thesis using r fs by auto
qed

text \<open>One measurement leaves the speed alone: no float is evaluated in the runs below.\<close>

lemma window_speed_one: "window_speed [p] old = old"
proof -
  have z: "as_secs_f64 (duration_since (fst (last [p])) (fst (hd [p]))) = 0"
    by (simp add: as_secs_f64_def)
  have "0 \<le> r64 (1 / 5)" by (rule fround_nonneg) simp
  then have "\<not> r64 (1 / 5) < 0" by (simp only: not_less)
  then show ?thesis unfolding window_speed_def Let_def z by (simp only: if_False if_cancel)
qed

definition window_speed_more :: "instant \<times> u64 \<Rightarrow> instant \<times> u64 \<Rightarrow> (instant \<times> u64) list \<Rightarrow> u64 \<Rightarrow> u64" where
  [code del]: "window_speed_more p q w old = window_speed (p # q # w) old"

lemma window_speed_code [code]:
  "window_speed [] old = old"
  "window_speed [p] old = old"
  "window_speed (p # q # w) old = window_speed_more p q w old"
  by (simp add: window_speed_def) (rule window_speed_one, simp only: window_speed_more_def)

lemmas start_queued_code [code] = start_queued.simps

text \<open>
  Two offers of one name share a part file: while the first is being received the second resumes
  into it. After the first is verified and moved into place the second still writes to it.
\<close>

lemma verified_file_changes_later:
  "case fm_run (\<lambda>b. b) (manager_new (demo_policy Side_Host False 2) True demo_fs)
     [Op_Msg (F_Offer 1 (lit ''b'') 2) demo_env 0, Op_Msg (F_Offer 3 (lit ''b'') 2) demo_env 0,
      Op_Msg (F_Chunk 1 0 [1, 2]) demo_env 0, Op_Msg (F_Done 1 [1, 2]) demo_env 0] of
     None \<Rightarrow> False
   | Some m \<Rightarrow>
       file_at (fm_fs m) [lit ''d'', lit ''b''] = Some [1, 2] \<and>
       map_option (\<lambda>t. ti_status (tr_info t)) (hm_get (fm_transfers m) 1) = Some TS_Completed \<and>
       (case fm_run (\<lambda>b. b) m [Op_Msg (F_Chunk 3 0 [9, 9]) demo_env 0] of
          None \<Rightarrow> False
        | Some m2 \<Rightarrow> file_at (fm_fs m2) [lit ''d'', lit ''b''] = Some [9, 9])"
  by code_simp

text \<open>
  A queued download that is cancelled stays marked as queued: it is started when another one is
  done, reports itself active, and ignores every chunk, so its slot is never free again.
\<close>

lemma cancelled_download_comes_back:
  "case fm_run (\<lambda>b. b) (manager_new (demo_policy Side_Host False 1) True demo_fs)
     [Op_Msg (F_Offer 1 (lit ''b'') 1) demo_env 0, Op_Msg (F_Offer 3 (lit ''c'') 1) demo_env 0,
      Op_Cancel 3, Op_Msg (F_Chunk 1 0 [1]) demo_env 0, Op_Msg (F_Done 1 [1]) demo_env 0] of
     None \<Rightarrow> False
   | Some m \<Rightarrow>
       fm_sent m = [F_Accept 1 0, F_Cancel 3, F_Verified 1 True, F_Accept 3 0] \<and>
       map_option (\<lambda>t. ti_status (tr_info t)) (hm_get (fm_transfers m) 3) = Some TS_Active \<and>
       fm_run (\<lambda>b. b) m [Op_Msg (F_Chunk 3 0 [9]) demo_env 0] = Some m"
  by code_simp

text \<open>
  A peer can make the loop run forever: with every slot taken it queues a file below what will be a
  plain file by the time the slot is free.
\<close>

definition hang_ops :: "fm_op list" where
  "hang_ops = [Op_Msg (F_Offer 1 (lit ''f'') 1) demo_env 0, Op_Msg (F_Offer 3 (lit ''f/x'') 1) demo_env 0,
     Op_Msg (F_Chunk 1 0 [1]) demo_env 0, Op_Msg (F_Done 1 [1]) demo_env 0]"

definition hang_info :: "u64 \<Rightarrow> rstr \<Rightarrow> transfer_status \<Rightarrow> u64 \<Rightarrow> transfer_info" where
  "hang_info i n st tr = \<lparr>ti_id = i, ti_name = n, ti_size = 1, ti_transferred = tr, ti_upload = False,
     ti_status = st, ti_speed = 0, ti_eta = None, ti_error = None\<rparr>"

definition hang_before :: manager where
  "hang_before = \<lparr>fm_policy = demo_policy Side_Host False 1, fm_allowed = True, fm_next = 0,
     fm_transfers =
       [(1, \<lparr>tr_info = hang_info 1 (lit ''f'') TS_Active 1, tr_path = [lit ''d'', lit ''f''], tr_ctl = 0,
             tr_incoming = Some \<lparr>inc_target = [lit ''d'', lit ''f''], inc_part = [lit ''d'', lit ''f.part''],
                inc_file = 1, inc_expected = 1, inc_received = 1\<rparr>,
             tr_speed = \<lparr>sp_last = 0, sp_window = [(0, 1)]\<rparr>, tr_queued = False, tr_resume = 0\<rparr>),
        (3, \<lparr>tr_info = hang_info 3 (lit ''f/x'') TS_Pending 0, tr_path = [], tr_ctl = 1, tr_incoming = None,
             tr_speed = \<lparr>sp_last = 0, sp_window = []\<rparr>, tr_queued = True, tr_resume = 0\<rparr>)],
     fm_until = None, fm_approval = [],
     fm_ctls = replicate 2 \<lparr>ctl_paused = False, ctl_cancelled = False\<rparr>, fm_streams = [],
     fm_fs = \<lparr>f_dirs = [[], [lit ''d'']],
        f_names = [([lit ''d'', lit ''a''], 0), ([lit ''d'', lit ''f.part''], 1)],
        f_data = [[1, 2, 3], [1]]\<rparr>,
     fm_sent = [F_Accept 1 0], fm_bulk = [],
     fm_events = map FE_Transfer [hang_info 1 (lit ''f'') TS_Active 0, hang_info 1 (lit ''f'') TS_Active 0,
        hang_info 3 (lit ''f/x'') TS_Pending 0]\<rparr>"

text \<open>What \<open>on_done\<close> hands to the loop.\<close>

definition hang_done :: manager where
  "hang_done = (case hm_get (fm_transfers hang_before) 1 of
     Some t \<Rightarrow> (case tr_incoming t of
        Some inc \<Rightarrow> done_file (\<lambda>b. b) hang_before 1 t inc [1] demo_env | None \<Rightarrow> hang_before)
   | None \<Rightarrow> hang_before)"

lemma peer_hangs_host:
  "fm_run (\<lambda>b. b) (manager_new (demo_policy Side_Host False 1) True demo_fs) hang_ops = None"
proof -
  have r: "fm_run (\<lambda>b. b) (manager_new (demo_policy Side_Host False 1) True demo_fs) (butlast hang_ops) = Some hang_before"
    by code_simp
  have e: "(case hm_get (fm_transfers hang_before) 1 of None \<Rightarrow> False | Some t \<Rightarrow> tr_incoming t \<noteq> None)"
    "fm_allowed hang_before" by code_simp+
  have d: "on_done (\<lambda>b. b) hang_before 1 [1] demo_env 0 = start_queued hang_done 0"
    using e(1) by (auto simp: on_done_def hang_done_def split: option.splits)
  have "active_count hang_done < fp_max_active (fm_policy hang_done) \<and>
      (case next_queued hang_done of None \<Rightarrow> False
       | Some (i, t) \<Rightarrow> (case fst (try_open (fm_fs hang_done) (fm_policy hang_done) t) of Inl _ \<Rightarrow> True | Inr _ \<Rightarrow> False))"
    by code_simp
  then have st: "stuck hang_done"
    by (auto simp: stuck_def split: option.splits prod.splits sum.splits) (metis prod.collapse)
  have "hm_wf (fm_transfers hang_done)" by code_simp
  then have "start_queued hang_done 0 = None" using stuck_never_returns st by (metis option.exhaust)
  then have "fm_apply (\<lambda>b. b) hang_before (last hang_ops) = None"
    using d e(2) by (simp add: hang_ops_def on_file_msg_def)
  moreover have "hang_ops = butlast hang_ops @ [last hang_ops]" by (simp add: hang_ops_def)
  ultimately show ?thesis using r by (metis fm_run.simps(2) fm_run_append option.simps(4,5))
qed

end
