(* ===== verification/Handshake.thy ===== *)
theory Handshake
  imports Peer Channel Messages "HOL-Library.Code_Target_Nat"
begin

text \<open>
  Session establishment: the password-authenticated key exchange (\<open>crates/security/src/pake.rs\<close>) and
  the two sides of the handshake (\<open>crates/session/src/handshake.rs\<close>).

  SPAKE2, SHA-256, HKDF and HMAC are third-party code: the fields of \<open>crypto\<close>, whose documented laws are
  \<open>pake_agrees\<close> (both sides finish with the same key when password and identities agree). What a
  side receives is a list: one entry per \<open>recv\<close>, \<open>None\<close> for a timeout or a closed link. \<open>up k\<close> says
  whether the link takes the side's \<open>k\<close>-th frame.
\<close>

section \<open>The key exchange\<close>

datatype role = Role_Viewer | Role_Host

type_synonym bytes = "u8 list"

record 's crypto =
  start_a :: "nat \<Rightarrow> bytes \<Rightarrow> bytes \<Rightarrow> bytes \<Rightarrow> 's \<times> bytes"
  start_b :: "nat \<Rightarrow> bytes \<Rightarrow> bytes \<Rightarrow> bytes \<Rightarrow> 's \<times> bytes"
  spake_finish :: "'s \<Rightarrow> bytes \<Rightarrow> bytes option"
  sha256 :: "bytes \<Rightarrow> bytes"
  hkdf :: "bytes \<Rightarrow> bytes \<Rightarrow> bytes \<Rightarrow> bytes"
  hmac :: "bytes \<Rightarrow> bytes \<Rightarrow> bytes"

record 's pake =
  pk_role :: role
  pk_spake :: 's
  pk_msg :: bytes
  pk_session :: bytes

record keys =
  k_role :: role
  k_v2h :: bytes
  k_h2v :: bytes
  k_confirm_v :: bytes
  k_confirm_h :: bytes
  k_transcript :: bytes

definition blit :: "string \<Rightarrow> bytes" where
  "blit s = as_bytes (lit s)"

definition identity_v :: "bytes \<Rightarrow> rstr \<Rightarrow> bytes" where
  "identity_v session viewer_id = session @ blit ''|viewer|'' @ as_bytes viewer_id"

definition identity_h :: "bytes \<Rightarrow> rstr \<Rightarrow> bytes" where
  "identity_h session host_id = session @ blit ''|host|'' @ as_bytes host_id"

definition pake_start :: "'s crypto \<Rightarrow> nat \<Rightarrow> role \<Rightarrow> bytes \<Rightarrow> bytes \<Rightarrow> rstr \<Rightarrow> rstr \<Rightarrow> 's pake" where
  "pake_start cr seed r password session viewer_id host_id =
     (let (sp, m) = (case r of Role_Viewer \<Rightarrow> start_a cr | Role_Host \<Rightarrow> start_b cr)
                      seed password (identity_v session viewer_id) (identity_h session host_id)
      in \<lparr>pk_role = r, pk_spake = sp, pk_msg = m, pk_session = session\<rparr>)"

definition u32_be :: "nat \<Rightarrow> bytes" where
  "u32_be n = be_bytes 4 (n mod 2 ^ 32)"

definition transcript :: "'s crypto \<Rightarrow> bytes \<Rightarrow> bytes \<Rightarrow> bytes \<Rightarrow> bytes" where
  "transcript cr session viewer_msg host_msg =
     sha256 cr (blit ''remotex-transcript-v1'' @ session @ u32_be (length viewer_msg) @ viewer_msg @
       u32_be (length host_msg) @ host_msg)"

definition okm_take :: "bytes \<Rightarrow> nat \<Rightarrow> bytes" where
  "okm_take okm i = take 32 (drop (i * 32) okm)"

definition pake_finish :: "'s crypto \<Rightarrow> 's pake \<Rightarrow> bytes \<Rightarrow> keys option" where
  "pake_finish cr p peer_msg =
     (case spake_finish cr (pk_spake p) peer_msg of
        None \<Rightarrow> None
      | Some key \<Rightarrow>
          (let (vm, hm) = (case pk_role p of Role_Viewer \<Rightarrow> (pk_msg p, peer_msg) | Role_Host \<Rightarrow> (peer_msg, pk_msg p));
               t = transcript cr (pk_session p) vm hm;
               okm = hkdf cr t key (blit ''remotex-session-keys-v1'')
           in Some \<lparr>k_role = pk_role p, k_v2h = okm_take okm 0, k_h2v = okm_take okm 1,
                    k_confirm_v = okm_take okm 2, k_confirm_h = okm_take okm 3, k_transcript = t\<rparr>))"

definition key_mac :: "'s crypto \<Rightarrow> keys \<Rightarrow> bytes \<Rightarrow> bytes \<Rightarrow> bytes" where
  "key_mac cr k key label = hmac cr key (label @ k_transcript k)"

definition viewer_mac :: "'s crypto \<Rightarrow> keys \<Rightarrow> bytes" where
  "viewer_mac cr k = key_mac cr k (k_confirm_v k) (blit ''viewer-confirm'')"

definition host_mac :: "'s crypto \<Rightarrow> keys \<Rightarrow> bytes" where
  "host_mac cr k = key_mac cr k (k_confirm_h k) (blit ''host-confirm'')"

definition my_confirm :: "'s crypto \<Rightarrow> keys \<Rightarrow> bytes" where
  "my_confirm cr k = (case k_role k of Role_Viewer \<Rightarrow> viewer_mac cr k | Role_Host \<Rightarrow> host_mac cr k)"

definition verify_peer_confirm :: "'s crypto \<Rightarrow> keys \<Rightarrow> bytes \<Rightarrow> bool" where
  "verify_peer_confirm cr k m =
     ((case k_role k of Role_Viewer \<Rightarrow> host_mac cr k | Role_Host \<Rightarrow> viewer_mac cr k) = m)"

definition into_channel :: "keys \<Rightarrow> bytes secure_channel" where
  "into_channel k =
     (case k_role k of
        Role_Viewer \<Rightarrow> secure_channel_new (k_v2h k) (k_h2v k)
      | Role_Host \<Rightarrow> secure_channel_new (k_h2v k) (k_v2h k))"

section \<open>Both sides of the handshake\<close>

type_synonym hs_ser = "handshake \<Rightarrow> bytes option"
type_synonym hs_de = "bytes \<Rightarrow> (handshake \<times> bytes) option"

datatype viewer_failure = V_Aborted abort_reason | V_WrongPassword | V_Protocol

record viewer_params =
  vp_session :: bytes
  vp_viewer_id :: rstr
  vp_viewer_name :: rstr
  vp_host_id :: rstr
  vp_password :: rstr
  vp_auth :: auth_kind
  vp_requested :: permissions

datatype password_lookup = Available rstr | Disabled | LockedOut

record host_params =
  hp_session :: bytes
  hp_host_id :: rstr
  hp_expected_viewer_id :: rstr

record authenticated =
  au_channel :: "bytes secure_channel"
  au_viewer_id :: rstr
  au_viewer_name :: rstr
  au_auth :: auth_kind
  au_requested :: permissions

datatype host_failure = H_BadPassword rstr | H_Refused abort_reason | H_Protocol

definition hs_send :: "hs_ser \<Rightarrow> bool \<Rightarrow> handshake \<Rightarrow> bytes option" where
  "hs_send ser up h = (case wire_encode ser h of Inl _ \<Rightarrow> None | Inr b \<Rightarrow> if up then Some b else None)"

definition hs_recv :: "hs_de \<Rightarrow> bytes option list \<Rightarrow> nat \<Rightarrow> handshake option" where
  "hs_recv de rs k =
     (if k < length rs
      then (case rs ! k of None \<Rightarrow> None | Some f \<Rightarrow> (case wire_decode de f of Inl _ \<Rightarrow> None | Inr h \<Rightarrow> Some h))
      else None)"

definition viewer_hello :: "viewer_params \<Rightarrow> bytes \<Rightarrow> handshake" where
  "viewer_hello p m = H_Hello PROTOCOL_VERSION (vp_viewer_id p) (vp_viewer_name p) (vp_auth p) m (vp_requested p)"

text \<open>The frames sent and the result.\<close>

definition viewer_handshake ::
  "'s crypto \<Rightarrow> hs_ser \<Rightarrow> hs_de \<Rightarrow> (nat \<Rightarrow> bool) \<Rightarrow> nat \<Rightarrow> viewer_params \<Rightarrow> bytes option list \<Rightarrow>
    bytes list \<times> (viewer_failure + bytes secure_channel)" where
  "viewer_handshake cr ser de up seed p rs =
     (let pake = pake_start cr seed Role_Viewer (as_bytes (vp_password p)) (vp_session p) (vp_viewer_id p) (vp_host_id p)
      in case hs_send ser (up 0) (viewer_hello p (pk_msg pake)) of
           None \<Rightarrow> ([], Inl V_Protocol)
         | Some f0 \<Rightarrow>
             (case hs_recv de rs 0 of
                Some (H_HelloReply peer_msg) \<Rightarrow>
                  (case pake_finish cr pake peer_msg of
                     None \<Rightarrow> ([f0], Inl V_Protocol)
                   | Some keys \<Rightarrow>
                       (case hs_send ser (up 1) (H_Confirm (my_confirm cr keys)) of
                          None \<Rightarrow> ([f0], Inl V_Protocol)
                        | Some f1 \<Rightarrow>
                            ([f0, f1],
                             case hs_recv de rs 1 of
                               Some (H_Confirm m) \<Rightarrow>
                                 if verify_peer_confirm cr keys m then Inr (into_channel keys) else Inl V_WrongPassword
                             | Some (H_Abort A_AuthFailed) \<Rightarrow> Inl V_WrongPassword
                             | Some (H_Abort reason) \<Rightarrow> Inl (V_Aborted reason)
                             | _ \<Rightarrow> Inl V_Protocol)))
              | Some (H_Abort reason) \<Rightarrow> ([f0], Inl (V_Aborted reason))
              | _ \<Rightarrow> ([f0], Inl V_Protocol)))"

definition abort_with :: "hs_ser \<Rightarrow> bool \<Rightarrow> abort_reason \<Rightarrow> bytes list" where
  "abort_with ser up reason = (case hs_send ser up (H_Abort reason) of None \<Rightarrow> [] | Some f \<Rightarrow> [f])"

definition viewer_name_ok :: "rstr \<Rightarrow> bool" where
  "viewer_name_ok n \<longleftrightarrow> n \<noteq> [] \<and> str_len n \<le> MAX_NAME_LEN \<and> (\<forall>c \<in> set n. \<not> is_control c)"

text \<open>The host's last step, with the viewer's confirmation.\<close>

definition host_confirm ::
  "'s crypto \<Rightarrow> hs_ser \<Rightarrow> hs_de \<Rightarrow> bool \<Rightarrow> bytes \<Rightarrow> keys \<Rightarrow> rstr \<Rightarrow> rstr \<Rightarrow> auth_kind \<Rightarrow> permissions \<Rightarrow>
    bytes option list \<Rightarrow> bytes list \<times> (host_failure + authenticated)" where
  "host_confirm cr ser de up f0 keys viewer_id viewer_name auth requested rs =
     (case hs_recv de rs 1 of
        Some (H_Confirm m) \<Rightarrow>
          if \<not> verify_peer_confirm cr keys m
          then (f0 # abort_with ser up A_AuthFailed, Inl (H_BadPassword viewer_id))
          else (case hs_send ser up (H_Confirm (my_confirm cr keys)) of
                  None \<Rightarrow> ([f0], Inl H_Protocol)
                | Some f1 \<Rightarrow>
                    ([f0, f1],
                     Inr \<lparr>au_channel = into_channel keys, au_viewer_id = viewer_id,
                          au_viewer_name = viewer_name, au_auth = auth, au_requested = requested\<rparr>))
      | _ \<Rightarrow> ([f0], Inl H_Protocol))"

definition host_handshake ::
  "'s crypto \<Rightarrow> hs_ser \<Rightarrow> hs_de \<Rightarrow> (nat \<Rightarrow> bool) \<Rightarrow> nat \<Rightarrow> host_params \<Rightarrow> (rstr \<Rightarrow> auth_kind \<Rightarrow> password_lookup) \<Rightarrow>
    bytes option list \<Rightarrow> bytes list \<times> (host_failure + authenticated)" where
  "host_handshake cr ser de up seed p lookup rs =
     (case hs_recv de rs 0 of
        Some (H_Hello version viewer_id viewer_name auth pake requested) \<Rightarrow>
          if version \<noteq> PROTOCOL_VERSION then (abort_with ser (up 0) A_Unsupported, Inl (H_Refused A_Unsupported))
          else if viewer_id \<noteq> hp_expected_viewer_id p \<or> \<not> viewer_name_ok viewer_name then ([], Inl H_Protocol)
          else (case lookup viewer_id auth of
                  Disabled \<Rightarrow> (abort_with ser (up 0) A_UnattendedDisabled, Inl (H_Refused A_UnattendedDisabled))
                | LockedOut \<Rightarrow> (abort_with ser (up 0) A_LockedOut, Inl (H_Refused A_LockedOut))
                | Available password \<Rightarrow>
                    (let st = pake_start cr seed Role_Host (as_bytes password) (hp_session p) viewer_id (hp_host_id p)
                     in case hs_send ser (up 0) (H_HelloReply (pk_msg st)) of
                          None \<Rightarrow> ([], Inl H_Protocol)
                        | Some f0 \<Rightarrow>
                            (case pake_finish cr st pake of
                               None \<Rightarrow> ([f0], Inl H_Protocol)
                             | Some keys \<Rightarrow>
                                 host_confirm cr ser de (up 1) f0 keys viewer_id viewer_name auth requested rs)))
      | _ \<Rightarrow> ([], Inl H_Protocol))"

section \<open>What the host accepts\<close>

lemma host_handshake_accepts:
  assumes "host_handshake cr ser de up seed p lookup rs = (sent, Inr a)"
  shows "\<exists>name auth pk req pw keys f0 f1 st.
    hs_recv de rs 0 = Some (H_Hello PROTOCOL_VERSION (hp_expected_viewer_id p) name auth pk req) \<and>
    viewer_name_ok name \<and> lookup (hp_expected_viewer_id p) auth = Available pw \<and>
    st = pake_start cr seed Role_Host (as_bytes pw) (hp_session p) (hp_expected_viewer_id p) (hp_host_id p) \<and>
    pake_finish cr st pk = Some keys \<and> hs_recv de rs 1 = Some (H_Confirm (viewer_mac cr keys)) \<and>
    hs_send ser (up 0) (H_HelloReply (pk_msg st)) = Some f0 \<and>
    hs_send ser (up 1) (H_Confirm (host_mac cr keys)) = Some f1 \<and> sent = [f0, f1] \<and>
    a = \<lparr>au_channel = into_channel keys, au_viewer_id = hp_expected_viewer_id p, au_viewer_name = name,
         au_auth = auth, au_requested = req\<rparr>"
proof -
  let ?vid = "hp_expected_viewer_id p"
  obtain name auth pk req where h: "hs_recv de rs 0 = Some (H_Hello PROTOCOL_VERSION ?vid name auth pk req)"
    and v: "viewer_name_ok name"
    using assms by (auto simp: host_handshake_def split: option.splits handshake.splits if_splits)
  obtain pw where pw: "lookup ?vid auth = Available pw"
    using assms h v by (auto simp: host_handshake_def split: password_lookup.splits)
  define st where "st = pake_start cr seed Role_Host (as_bytes pw) (hp_session p) ?vid (hp_host_id p)"
  have e: "(case hs_send ser (up 0) (H_HelloReply (pk_msg st)) of
      None \<Rightarrow> ([], Inl H_Protocol)
    | Some f0 \<Rightarrow> (case pake_finish cr st pk of None \<Rightarrow> ([f0], Inl H_Protocol)
        | Some keys \<Rightarrow> host_confirm cr ser de (up 1) f0 keys ?vid name auth req rs)) = (sent, Inr a)"
    using assms h v pw unfolding st_def by (simp add: host_handshake_def Let_def)
  obtain f0 keys where f0: "hs_send ser (up 0) (H_HelloReply (pk_msg st)) = Some f0"
    and keys: "pake_finish cr st pk = Some keys"
    and c: "host_confirm cr ser de (up 1) f0 keys ?vid name auth req rs = (sent, Inr a)"
    using e by (auto split: option.splits)
  have r: "k_role keys = Role_Host"
    using keys by (auto simp: pake_finish_def st_def pake_start_def Let_def split: option.splits prod.splits)
  obtain m where m: "hs_recv de rs 1 = Some (H_Confirm m)" and ver: "verify_peer_confirm cr keys m"
    using c by (auto simp: host_confirm_def split: option.splits handshake.splits if_splits)
  have mac: "m = viewer_mac cr keys" "my_confirm cr keys = host_mac cr keys"
    using ver r by (simp_all add: verify_peer_confirm_def my_confirm_def)
  obtain f1 where f1: "hs_send ser (up 1) (H_Confirm (host_mac cr keys)) = Some f1"
    and out: "sent = [f0, f1]" "a = \<lparr>au_channel = into_channel keys, au_viewer_id = ?vid,
      au_viewer_name = name, au_auth = auth, au_requested = req\<rparr>"
    using c m ver mac by (auto simp: host_confirm_def split: option.splits)
  show ?thesis using h v pw f0 keys m mac f1 out unfolding st_def by blast
qed

text \<open>
  C23. Whatever arrives, the host authenticates a viewer only if the first frame is a greeting in this
  protocol version from exactly the viewer the server attested, with a well-formed name; the
  password lookup offered a password; and the second frame carries the viewer's MAC under the keys the
  host derived from that password, the session and both identities. The host's own confirmation is
  sent after that and only then, and nothing but the reply precedes it.
\<close>

theorem host_accepts_only_proof_of_password:
  assumes "host_handshake cr ser de up seed p lookup rs = (sent, Inr a)"
  shows "\<exists>name auth pk req pw keys f0 f1 st.
    hs_recv de rs 0 = Some (H_Hello PROTOCOL_VERSION (hp_expected_viewer_id p) name auth pk req) \<and>
    viewer_name_ok name \<and> lookup (hp_expected_viewer_id p) auth = Available pw \<and>
    st = pake_start cr seed Role_Host (as_bytes pw) (hp_session p) (hp_expected_viewer_id p) (hp_host_id p) \<and>
    pake_finish cr st pk = Some keys \<and> hs_recv de rs 1 = Some (H_Confirm (viewer_mac cr keys)) \<and>
    hs_send ser (up 0) (H_HelloReply (pk_msg st)) = Some f0 \<and>
    hs_send ser (up 1) (H_Confirm (host_mac cr keys)) = Some f1 \<and> sent = [f0, f1] \<and>
    a = \<lparr>au_channel = into_channel keys, au_viewer_id = hp_expected_viewer_id p, au_viewer_name = name,
         au_auth = auth, au_requested = req\<rparr>"
  using assms by (rule host_handshake_accepts)

section \<open>Two honest sides\<close>

definition pake_agrees :: "'s crypto \<Rightarrow> bool" where
  "pake_agrees cr \<longleftrightarrow> (\<forall>s1 s2 pw idv idh.
     case (start_a cr s1 pw idv idh, start_b cr s2 pw idv idh) of
       ((a, ma), (b, mb)) \<Rightarrow>
         (\<exists>k. spake_finish cr a mb = Some k \<and> spake_finish cr b ma = Some k))"

text \<open>The states of a viewer and a host that know each other's identity and the session.\<close>

definition viewer_pake :: "'s crypto \<Rightarrow> nat \<Rightarrow> viewer_params \<Rightarrow> 's pake" where
  "viewer_pake cr s vp =
     pake_start cr s Role_Viewer (as_bytes (vp_password vp)) (vp_session vp) (vp_viewer_id vp) (vp_host_id vp)"

definition host_pake :: "'s crypto \<Rightarrow> nat \<Rightarrow> viewer_params \<Rightarrow> rstr \<Rightarrow> 's pake" where
  "host_pake cr s vp pw =
     pake_start cr s Role_Host (as_bytes pw) (vp_session vp) (vp_viewer_id vp) (vp_host_id vp)"

definition host_params_for :: "viewer_params \<Rightarrow> host_params" where
  "host_params_for vp =
     \<lparr>hp_session = vp_session vp, hp_host_id = vp_host_id vp, hp_expected_viewer_id = vp_viewer_id vp\<rparr>"

lemma pake_start_fields [simp]:
  "pk_role (pake_start cr s r pw ss v h) = r" "pk_session (pake_start cr s r pw ss v h) = ss"
  by (simp_all add: pake_start_def Let_def split: prod.splits)

lemma pake_finish_role: "pake_finish cr p m = Some k \<Longrightarrow> k_role k = pk_role p"
  by (auto simp: pake_finish_def Let_def split: option.splits prod.splits)

lemma pake_finish_roles:
  assumes "pake_finish cr (viewer_pake cr s1 vp) (pk_msg (host_pake cr s2 vp pw)) = Some kv"
    and "pake_finish cr (host_pake cr s2 vp pw) (pk_msg (viewer_pake cr s1 vp)) = Some kh"
  shows "k_role kv = Role_Viewer" "k_role kh = Role_Host"
  using pake_finish_role [OF assms(1)] pake_finish_role [OF assms(2)]
  by (simp_all add: viewer_pake_def host_pake_def)

lemma same_password_same_keys:
  assumes "pake_agrees cr"
  shows "\<exists>kv kh. pake_finish cr (viewer_pake cr s1 vp) (pk_msg (host_pake cr s2 vp (vp_password vp))) = Some kv \<and>
    pake_finish cr (host_pake cr s2 vp (vp_password vp)) (pk_msg (viewer_pake cr s1 vp)) = Some kh \<and>
    kh = kv\<lparr>k_role := Role_Host\<rparr> \<and> viewer_mac cr kv = viewer_mac cr kh \<and> host_mac cr kv = host_mac cr kh"
proof -
  let ?pw = "as_bytes (vp_password vp)"
  let ?iv = "identity_v (vp_session vp) (vp_viewer_id vp)" and ?ih = "identity_h (vp_session vp) (vp_host_id vp)"
  obtain a ma where a: "start_a cr s1 ?pw ?iv ?ih = (a, ma)" by force
  obtain b mb where b: "start_b cr s2 ?pw ?iv ?ih = (b, mb)" by force
  obtain k where k: "spake_finish cr a mb = Some k" "spake_finish cr b ma = Some k"
    using assms [unfolded pake_agrees_def, THEN spec, of s1, THEN spec, of s2, THEN spec, of ?pw,
        THEN spec, of ?iv, THEN spec, of ?ih] unfolding a b by auto
  have v: "viewer_pake cr s1 vp = \<lparr>pk_role = Role_Viewer, pk_spake = a, pk_msg = ma, pk_session = vp_session vp\<rparr>"
    using a by (simp add: viewer_pake_def pake_start_def)
  have h: "host_pake cr s2 vp (vp_password vp) =
      \<lparr>pk_role = Role_Host, pk_spake = b, pk_msg = mb, pk_session = vp_session vp\<rparr>"
    using b by (simp add: host_pake_def pake_start_def)
  show ?thesis
    unfolding v h by (simp add: pake_finish_def k Let_def viewer_mac_def host_mac_def key_mac_def)
qed

lemma hs_send_Some: "hs_send ser up h = Some f \<longleftrightarrow> wire_encode ser h = Inr f \<and> up"
  by (auto simp: hs_send_def split: sum.splits)

lemma hs_recv_sent:
  assumes "postcard_ok ser de" and "k < length fs" and "wire_encode ser h = Inr (fs ! k)"
  shows "hs_recv de (map Some fs) k = Some h"
  using wire_decode_encode [OF assms(1,3)] assms(2) by (simp add: hs_recv_def)

text \<open>Every message of the exchange fits a frame.\<close>

definition exchange_fits :: "'s crypto \<Rightarrow> hs_ser \<Rightarrow> nat \<Rightarrow> nat \<Rightarrow> viewer_params \<Rightarrow> rstr \<Rightarrow> keys \<Rightarrow> keys \<Rightarrow> bool" where
  "exchange_fits cr ser s1 s2 vp pw kv kh \<longleftrightarrow>
     (\<forall>h \<in> {viewer_hello vp (pk_msg (viewer_pake cr s1 vp)), H_HelloReply (pk_msg (host_pake cr s2 vp pw)),
            H_Confirm (viewer_mac cr kv), H_Confirm (host_mac cr kh), H_Abort A_AuthFailed}.
        \<exists>b. wire_encode ser h = Inr b)"

text \<open>
  C24. Over a link that delivers what each side sends, a viewer and a host that agree on the session
  and the identities both succeed when the passwords are the same, with channels whose directions use
  the same keys and with the viewer's request unchanged; and when the viewer's proof does not match
  the host's expectation, both report the wrong password and neither gets a channel.
\<close>

theorem exchange_succeeds_iff_passwords_match:
  assumes viewer: "viewer_handshake cr ser de (\<lambda>_. True) s1 vp (map Some hs) = (vs, rv)"
    and host: "host_handshake cr ser de (\<lambda>_. True) s2 (host_params_for vp) lookup (map Some vs) = (hs, rh)"
    and codec: "postcard_ok ser de" and pw: "lookup (vp_viewer_id vp) (vp_auth vp) = Available pw"
    and name: "viewer_name_ok (vp_viewer_name vp)"
    and kv: "pake_finish cr (viewer_pake cr s1 vp) (pk_msg (host_pake cr s2 vp pw)) = Some kv"
    and kh: "pake_finish cr (host_pake cr s2 vp pw) (pk_msg (viewer_pake cr s1 vp)) = Some kh"
    and fits: "exchange_fits cr ser s1 s2 vp pw kv kh"
  shows "(pake_agrees cr \<and> pw = vp_password vp \<longrightarrow>
      (\<exists>send_key recv_key. rv = Inr (secure_channel_new send_key recv_key) \<and>
        rh = Inr \<lparr>au_channel = secure_channel_new recv_key send_key, au_viewer_id = vp_viewer_id vp,
          au_viewer_name = vp_viewer_name vp, au_auth = vp_auth vp, au_requested = vp_requested vp\<rparr>)) \<and>
    (viewer_mac cr kv \<noteq> viewer_mac cr kh \<longrightarrow>
      rv = Inl V_WrongPassword \<and> rh = Inl (H_BadPassword (vp_viewer_id vp)))"
proof -
  note roles = pake_finish_roles [OF kv kh]
  have vm: "my_confirm cr kv = viewer_mac cr kv" and hm: "my_confirm cr kh = host_mac cr kh"
    by (simp_all add: my_confirm_def roles)
  obtain f0 g0 f1 g1 ab where
    f0: "wire_encode ser (viewer_hello vp (pk_msg (viewer_pake cr s1 vp))) = Inr f0" and
    g0: "wire_encode ser (H_HelloReply (pk_msg (host_pake cr s2 vp pw))) = Inr g0" and
    f1: "wire_encode ser (H_Confirm (viewer_mac cr kv)) = Inr f1" and
    g1: "wire_encode ser (H_Confirm (host_mac cr kh)) = Inr g1" and
    ab: "wire_encode ser (H_Abort A_AuthFailed) = Inr ab"
    using fits unfolding exchange_fits_def by (simp only: ball_simps) (elim conjE exE, rule that)
  have "\<exists>r. vs = f0 # r"
    using viewer f0
    by (auto simp: viewer_handshake_def Let_def hs_send_def simp flip: viewer_pake_def
        split: option.splits handshake.splits sum.splits)
  then have "hs_recv de (map Some vs) 0 = Some (viewer_hello vp (pk_msg (viewer_pake cr s1 vp)))"
    using hs_recv_sent [OF codec, of 0 vs] f0 by auto
  then have h: "host_confirm cr ser de True g0 kh (vp_viewer_id vp) (vp_viewer_name vp) (vp_auth vp)
      (vp_requested vp) (map Some vs) = (hs, rh)"
    using host pw name g0 kh
    by (simp add: host_handshake_def viewer_hello_def host_params_for_def hs_send_def host_pake_def)
  then have "\<exists>r. hs = g0 # r"
    by (auto simp: host_confirm_def split: option.splits handshake.splits if_splits)
  then have "hs_recv de (map Some hs) 0 = Some (H_HelloReply (pk_msg (host_pake cr s2 vp pw)))"
    using hs_recv_sent [OF codec, of 0 hs] g0 by auto
  then have v: "vs = [f0, f1]" "rv = (case hs_recv de (map Some hs) 1 of
      Some (H_Confirm m) \<Rightarrow> if verify_peer_confirm cr kv m then Inr (into_channel kv) else Inl V_WrongPassword
    | Some (H_Abort A_AuthFailed) \<Rightarrow> Inl V_WrongPassword
    | Some (H_Abort reason) \<Rightarrow> Inl (V_Aborted reason)
    | _ \<Rightarrow> Inl V_Protocol)"
    using viewer f0 f1 kv vm
    by (simp_all add: viewer_handshake_def hs_send_def Let_def flip: viewer_pake_def)
  have c: "hs_recv de (map Some vs) 1 = Some (H_Confirm (viewer_mac cr kv))"
    using hs_recv_sent [OF codec, of 1 vs] v(1) f1 by simp
  have ver: "verify_peer_confirm cr kh (viewer_mac cr kv) \<longleftrightarrow> viewer_mac cr kh = viewer_mac cr kv"
    by (simp add: verify_peer_confirm_def roles)
  show ?thesis
  proof (intro conjI impI)
    assume "viewer_mac cr kv \<noteq> viewer_mac cr kh"
    then have r: "hs = [g0, ab]" "rh = Inl (H_BadPassword (vp_viewer_id vp))"
      using h c ver ab by (simp_all add: host_confirm_def abort_with_def hs_send_def)
    have "hs_recv de (map Some hs) 1 = Some (H_Abort A_AuthFailed)"
      using hs_recv_sent [OF codec, of 1 hs] r(1) ab by simp
    then show "rv = Inl V_WrongPassword" "rh = Inl (H_BadPassword (vp_viewer_id vp))"
      using v(2) r(2) by simp_all
  next
    assume same: "pake_agrees cr \<and> pw = vp_password vp"
    obtain kv' kh' where k: "pake_finish cr (viewer_pake cr s1 vp) (pk_msg (host_pake cr s2 vp pw)) = Some kv'"
        "pake_finish cr (host_pake cr s2 vp pw) (pk_msg (viewer_pake cr s1 vp)) = Some kh'"
        "kh' = kv'\<lparr>k_role := Role_Host\<rparr>" "viewer_mac cr kv' = viewer_mac cr kh'" "host_mac cr kv' = host_mac cr kh'"
      using same_password_same_keys [of cr s1 vp s2] same by auto
    have k': "kh = kv\<lparr>k_role := Role_Host\<rparr>" "viewer_mac cr kv = viewer_mac cr kh" "host_mac cr kv = host_mac cr kh"
      using k kv kh by auto
    have r: "hs = [g0, g1]" "rh = Inr \<lparr>au_channel = into_channel kh, au_viewer_id = vp_viewer_id vp,
          au_viewer_name = vp_viewer_name vp, au_auth = vp_auth vp, au_requested = vp_requested vp\<rparr>"
      using h c ver k'(2) hm g1 by (simp_all add: host_confirm_def hs_send_def)
    have "hs_recv de (map Some hs) 1 = Some (H_Confirm (host_mac cr kh))"
      using hs_recv_sent [OF codec, of 1 hs] r(1) g1 by simp
    then have "rv = Inr (into_channel kv)" using v(2) k'(3) roles by (simp add: verify_peer_confirm_def)
    then show "\<exists>send_key recv_key. rv = Inr (secure_channel_new send_key recv_key) \<and>
        rh = Inr \<lparr>au_channel = secure_channel_new recv_key send_key, au_viewer_id = vp_viewer_id vp,
          au_viewer_name = vp_viewer_name vp, au_auth = vp_auth vp, au_requested = vp_requested vp\<rparr>"
      using r(2) roles k'(1) by (auto simp: into_channel_def)
  qed
qed

section \<open>A toy instance\<close>

text \<open>A crypto provider and a codec satisfying the laws, on which the properties are applied.\<close>

definition toy_crypto :: "bytes crypto" where
  "toy_crypto = \<lparr>start_a = (\<lambda>_ pw _ _. (pw, [1])), start_b = (\<lambda>_ pw _ _. (pw, [2])),
     spake_finish = (\<lambda>s _. Some s), sha256 = (\<lambda>_. [0]), hkdf = (\<lambda>_ key _. concat (replicate 128 (take 1 key))),
     hmac = (\<lambda>key m. [hd key + of_nat (length m)])\<rparr>"

definition toy_vp :: viewer_params where
  "toy_vp = \<lparr>vp_session = [7], vp_viewer_id = [49], vp_viewer_name = [86], vp_host_id = [50], vp_password = [97],
     vp_auth = Temporary, vp_requested = PERM_ALL\<rparr>"

definition toy_ser :: hs_ser where
  "toy_ser h = (case h of
       H_HelloReply [b] \<Rightarrow> Some [1, b]
     | H_Confirm [b] \<Rightarrow> Some [2, b]
     | H_Abort A_AuthFailed \<Rightarrow> Some [3]
     | _ \<Rightarrow> if h = viewer_hello toy_vp [1] then Some [0] else None)"

definition toy_de :: hs_de where
  "toy_de bs = (case bs of
       [] \<Rightarrow> None
     | t # r \<Rightarrow> if t = 0 then Some (viewer_hello toy_vp [1], r)
                else if t = 3 then Some (H_Abort A_AuthFailed, r)
                else (case r of [] \<Rightarrow> None | b # r' \<Rightarrow>
                        Some (if t = 1 then H_HelloReply [b] else H_Confirm [b], r')))"

lemma toy_postcard: "postcard_ok toy_ser toy_de"
  by (auto simp: postcard_ok_def toy_ser_def toy_de_def viewer_hello_def
      split: handshake.splits list.splits abort_reason.splits if_splits)

lemma toy_agrees: "pake_agrees toy_crypto"
  by (simp add: pake_agrees_def toy_crypto_def)

lemma toy_host_run:
  "host_handshake toy_crypto toy_ser toy_de (\<lambda>_. True) 0 (host_params_for toy_vp) (\<lambda>_ _. Available [97])
     [Some [0], Some [2, 112]] =
   ([[1, 2], [2, 110]],
    Inr \<lparr>au_channel = secure_channel_new (replicate 32 97) (replicate 32 97), au_viewer_id = [49],
         au_viewer_name = [86], au_auth = Temporary, au_requested = PERM_ALL\<rparr>)"
  by code_simp

lemma toy_host_refuses:
  "host_handshake toy_crypto toy_ser toy_de (\<lambda>_. True) 0 (host_params_for toy_vp) (\<lambda>_ _. Available [98])
     [Some [0], Some [2, 112]] = ([[1, 2], [3]], Inl (H_BadPassword [49]))"
  by code_simp

lemma toy_viewer_run:
  "viewer_handshake toy_crypto toy_ser toy_de (\<lambda>_. True) 0 toy_vp [Some [1, 2], Some [2, 110]] =
   ([[0], [2, 112]], Inr (secure_channel_new (replicate 32 97) (replicate 32 97)))"
  by code_simp

lemma toy_viewer_refused:
  "viewer_handshake toy_crypto toy_ser toy_de (\<lambda>_. True) 0 toy_vp [Some [1, 2], Some [3]] =
   ([[0], [2, 112]], Inl V_WrongPassword)"
  by code_simp


theorem host_accepts_only_proof_of_password_witness:
  "\<exists>keys. hs_recv toy_de [Some [0], Some [2, 112]] 1 = Some (H_Confirm (viewer_mac toy_crypto keys))"
  using host_accepts_only_proof_of_password [OF toy_host_run] by blast

lemma toy_keys:
  "pake_finish toy_crypto (viewer_pake toy_crypto 0 toy_vp) (pk_msg (host_pake toy_crypto 0 toy_vp [97])) =
     Some \<lparr>k_role = Role_Viewer, k_v2h = replicate 32 97, k_h2v = replicate 32 97, k_confirm_v = replicate 32 97,
           k_confirm_h = replicate 32 97, k_transcript = [0]\<rparr>"
  "pake_finish toy_crypto (host_pake toy_crypto 0 toy_vp [97]) (pk_msg (viewer_pake toy_crypto 0 toy_vp)) =
     Some \<lparr>k_role = Role_Host, k_v2h = replicate 32 97, k_h2v = replicate 32 97, k_confirm_v = replicate 32 97,
           k_confirm_h = replicate 32 97, k_transcript = [0]\<rparr>"
  by code_simp+

lemma toy_fits:
  "exchange_fits toy_crypto toy_ser 0 0 toy_vp [97]
     \<lparr>k_role = Role_Viewer, k_v2h = replicate 32 97, k_h2v = replicate 32 97, k_confirm_v = replicate 32 97,
      k_confirm_h = replicate 32 97, k_transcript = [0]\<rparr>
     \<lparr>k_role = Role_Host, k_v2h = replicate 32 97, k_h2v = replicate 32 97, k_confirm_v = replicate 32 97,
      k_confirm_h = replicate 32 97, k_transcript = [0]\<rparr>"
proof -
  let ?k = "\<lparr>k_role = Role_Viewer, k_v2h = replicate 32 97, k_h2v = replicate 32 97,
    k_confirm_v = replicate 32 97, k_confirm_h = replicate 32 97, k_transcript = [0]\<rparr> :: keys"
  let ?h = "?k\<lparr>k_role := Role_Host\<rparr>"
  have "wire_encode toy_ser (viewer_hello toy_vp (pk_msg (viewer_pake toy_crypto 0 toy_vp))) = Inr [0]"
    "wire_encode toy_ser (H_HelloReply (pk_msg (host_pake toy_crypto 0 toy_vp [97]))) = Inr [1, 2]"
    "wire_encode toy_ser (H_Confirm (viewer_mac toy_crypto ?k)) = Inr [2, 112]"
    "wire_encode toy_ser (H_Confirm (host_mac toy_crypto ?h)) = Inr [2, 110]"
    "wire_encode toy_ser (H_Abort A_AuthFailed) = Inr [3]"
    by code_simp+
  then show ?thesis by (simp add: exchange_fits_def)
qed

theorem exchange_succeeds_iff_passwords_match_witness:
  "\<exists>send_key recv_key.
     snd (viewer_handshake toy_crypto toy_ser toy_de (\<lambda>_. True) 0 toy_vp (map Some [[1, 2], [2, 110]])) =
       Inr (secure_channel_new send_key recv_key)"
proof -
  have l: "(\<lambda>_ _. Available [97]) (vp_viewer_id toy_vp) (vp_auth toy_vp) = Available [97]" by simp
  have n: "viewer_name_ok (vp_viewer_name toy_vp)" "[97] = vp_password toy_vp" by code_simp+
  have v: "viewer_handshake toy_crypto toy_ser toy_de (\<lambda>_. True) 0 toy_vp (map Some [[1, 2], [2, 110]]) =
      ([[0], [2, 112]], Inr (secure_channel_new (replicate 32 97) (replicate 32 97)))"
    using toy_viewer_run by simp
  have h: "host_handshake toy_crypto toy_ser toy_de (\<lambda>_. True) 0 (host_params_for toy_vp)
      (\<lambda>_ _. Available [97]) (map Some [[0], [2, 112]]) =
    ([[1, 2], [2, 110]],
     Inr \<lparr>au_channel = secure_channel_new (replicate 32 97) (replicate 32 97), au_viewer_id = [49],
         au_viewer_name = [86], au_auth = Temporary, au_requested = PERM_ALL\<rparr>)"
    using toy_host_run by simp
  show ?thesis
    using exchange_succeeds_iff_passwords_match [OF v h toy_postcard l n(1) toy_keys toy_fits] toy_agrees n(2) v
    by auto
qed

end
