(* ===== verification/Adapt.thy ===== *)
theory Adapt
  imports Peer
begin

text \<open>
  The two controllers of the host: \<open>Adapter\<close> (\<open>crates/session/src/adapt.rs\<close>), which chooses bitrate,
  frame rate and scale of the video from one measurement per second, and \<open>BulkGovernor\<close>
  (\<open>crates/session/src/bulk.rs\<close>), which caps the rate of file data.

  Bitrates and dimensions are 32-bit words and floating point is rounded as in \<open>Floats\<close>.
\<close>

unbundle bit_operations_syntax

section \<open>The adapter\<close>

record target =
  t_bitrate_kbps :: u32
  t_fps :: u32
  t_scale_percent :: u32

record sample =
  s_rtt_ms :: f32
  s_send_delay_ms :: f32
  s_dropped :: u32

definition FPS_STEPS :: "u32 list" where "FPS_STEPS = [60, 30, 15]"
definition SCALE_STEPS :: "u32 list" where "SCALE_STEPS = [100, 75, 50, 33]"

record adapter =
  ad_quality :: quality
  ad_native_pixels :: u64
  ad_max :: u32
  ad_min :: u32
  ad_bitrate :: u32
  ad_fps_idx :: nat
  ad_scale_idx :: nat
  ad_baseline :: "f32 option"
  ad_good_streak :: u32
  ad_last_change :: instant

fun preset_bpp :: "preset \<Rightarrow> rat" where
  "preset_bpp P_Auto = r64 (4 / 100)"
| "preset_bpp P_LowLatency = r64 (4 / 100)"
| "preset_bpp P_Balanced = r64 (6 / 100)"
| "preset_bpp P_BestQuality = r64 (10 / 100)"
| "preset_bpp P_LowBandwidth = r64 (15 / 1000)"

text \<open>\<open>x as u32\<close> of a float, and \<open>n as f64\<close> of an integer.\<close>

definition to_u32 :: "rat \<Rightarrow> u32" where
  "to_u32 x = of_nat (float_to_nat 32 x)"

definition f64_of :: "'a::len word \<Rightarrow> rat" where
  "f64_of w = r64 (of_nat (unat w))"

definition fps_cap :: "quality \<Rightarrow> u32" where
  "fps_cap q =
     (if q_fps q > 0 then ucast (q_fps q) else if q_preset q = P_LowBandwidth then 30 else 60)"

definition fps_start :: "u32 \<Rightarrow> nat" where
  "fps_start cap =
     (case find (\<lambda>i. FPS_STEPS ! i \<le> cap) [0..<length FPS_STEPS] of
        Some i \<Rightarrow> i | None \<Rightarrow> length FPS_STEPS - 1)"

definition capped_pixels :: "quality \<Rightarrow> u32 \<Rightarrow> u32 \<Rightarrow> u64" where
  "capped_pixels q w h =
     (let mh = ucast (q_max_height q) :: u64
      in if q_max_height q > 0 \<and> (ucast (q_max_height q) :: u32) < h
         then (ucast w * mh * mh) div ucast h
         else if q_preset q = P_LowBandwidth \<and> h > 720 then (ucast w * 720 * 720) div ucast h
         else ucast w * ucast h)"

definition ideal_bitrate :: "quality \<Rightarrow> u64 \<Rightarrow> u32 \<Rightarrow> u32" where
  "ideal_bitrate q pixels fps =
     to_u32 (r64 (r64 (r64 (f64_of pixels * f64_of fps) * preset_bpp (q_preset q)) / 1000))"

definition clamp :: "'a::linorder \<Rightarrow> 'a \<Rightarrow> 'a \<Rightarrow> 'a" where
  "clamp lo hi x = (if x < lo then lo else if x > hi then hi else x)"

definition adapter_new :: "quality \<Rightarrow> u32 \<Rightarrow> u32 \<Rightarrow> instant \<Rightarrow> adapter" where
  "adapter_new q w h now =
     (let i = fps_start (fps_cap q);
          ideal = ideal_bitrate q (capped_pixels q w h) (FPS_STEPS ! i);
          mx = (if q_bitrate_kbps q > 0 then q_bitrate_kbps q else clamp 500 60000 ideal)
      in \<lparr>ad_quality = q, ad_native_pixels = ucast w * ucast h, ad_max = mx, ad_min = max (mx div 8) 300,
          ad_bitrate = mx, ad_fps_idx = i, ad_scale_idx = 0, ad_baseline = None, ad_good_streak = 0,
          ad_last_change = now\<rparr>)"

definition ad_target :: "adapter \<Rightarrow> target" where
  "ad_target a = \<lparr>t_bitrate_kbps = ad_bitrate a, t_fps = FPS_STEPS ! ad_fps_idx a,
     t_scale_percent = SCALE_STEPS ! ad_scale_idx a\<rparr>"

definition auto_bitrate :: "adapter \<Rightarrow> bool" where
  "auto_bitrate a \<longleftrightarrow> q_bitrate_kbps (ad_quality a) = 0"

definition auto_fps :: "adapter \<Rightarrow> bool" where
  "auto_fps a \<longleftrightarrow> q_fps (ad_quality a) = 0 \<and> q_preset (ad_quality a) \<noteq> P_BestQuality"

definition auto_scale :: "adapter \<Rightarrow> bool" where
  "auto_scale a \<longleftrightarrow> q_max_height (ad_quality a) = 0"

definition scale_budget :: "adapter \<Rightarrow> rat" where
  "scale_budget a = (let f = r64 (f64_of (SCALE_STEPS ! ad_scale_idx a) / 100)
     in max (r64 (r64 (f64_of (ad_max a) * f) * f)) (f64_of (ad_min a)))"

definition max_bitrate_for_scale :: "adapter \<Rightarrow> adapter" where
  "max_bitrate_for_scale a = a\<lparr>ad_bitrate := min (ad_bitrate a) (to_u32 (scale_budget a))\<rparr>"

definition degrade :: "adapter \<Rightarrow> adapter" where
  "degrade a =
     (if auto_bitrate a \<and> ad_bitrate a > ad_min a
      then a\<lparr>ad_bitrate := max (to_u32 (r64 (f64_of (ad_bitrate a) * (3 / 4)))) (ad_min a)\<rparr>
      else if auto_fps a \<and> ad_fps_idx a + 1 < length FPS_STEPS
      then a\<lparr>ad_fps_idx := ad_fps_idx a + 1, ad_bitrate := max (ad_bitrate a) (ad_min a)\<rparr>
      else if auto_scale a \<and> ad_scale_idx a + 1 < length SCALE_STEPS
      then max_bitrate_for_scale (a\<lparr>ad_scale_idx := ad_scale_idx a + 1\<rparr>)
      else a)"

definition improve :: "adapter \<Rightarrow> adapter" where
  "improve a =
     (if ad_scale_idx a > 0 \<and> auto_scale a
      then max_bitrate_for_scale (a\<lparr>ad_scale_idx := ad_scale_idx a - 1\<rparr>)
      else if ad_fps_idx a > 0 \<and> auto_fps a \<and> ad_bitrate a \<ge> ad_min a * 2
      then a\<lparr>ad_fps_idx := ad_fps_idx a - 1\<rparr>
      else if auto_bitrate a \<and> ad_bitrate a < ad_max a
      then a\<lparr>ad_bitrate := min (to_u32 (r64 (f64_of (ad_bitrate a) * r64 (115 / 100)))) (ad_max a)\<rparr>
      else a)"

definition baseline_after :: "f32 option \<Rightarrow> f32 \<Rightarrow> f32 option" where
  "baseline_after old rtt =
     (if rtt > 0
      then Some (case old of
             Some b \<Rightarrow> r32 (r32 (min b rtt * r32 (98 / 100)) + r32 (min rtt (r32 (b * 3)) * r32 (2 / 100)))
           | None \<Rightarrow> rtt)
      else old)"

definition congested :: "f32 \<Rightarrow> sample \<Rightarrow> bool" where
  "congested base s \<longleftrightarrow> s_send_delay_ms s > 60 \<or> s_dropped s \<ge> 3 \<or>
     (s_rtt_ms s > 0 \<and> s_rtt_ms s > r32 (r32 (base * 2) + 60))"

definition clean :: "f32 \<Rightarrow> sample \<Rightarrow> bool" where
  "clean base s \<longleftrightarrow> s_send_delay_ms s < 25 \<and> s_dropped s = 0 \<and>
     (s_rtt_ms s = 0 \<or> s_rtt_ms s < r32 (r32 (base * (3 / 2)) + 30))"

definition base_rtt :: "adapter \<Rightarrow> f32" where
  "base_rtt a = (case ad_baseline a of Some b \<Rightarrow> b | None \<Rightarrow> 0)"

definition ad_react :: "adapter \<Rightarrow> sample \<Rightarrow> duration \<Rightarrow> adapter" where
  "ad_react a s hold =
     (if congested (base_rtt a) s \<and> hold \<ge> millis 1500 then degrade (a\<lparr>ad_good_streak := 0\<rparr>)
      else if clean (base_rtt a) s
      then (let n = ad_good_streak a + 1
            in if n \<ge> 6 \<and> hold \<ge> secs 5 then improve (a\<lparr>ad_good_streak := 3\<rparr>)
               else a\<lparr>ad_good_streak := n\<rparr>)
      else a\<lparr>ad_good_streak := 0\<rparr>)"

definition ad_update :: "adapter \<Rightarrow> sample \<Rightarrow> instant \<Rightarrow> target option \<times> adapter" where
  "ad_update a s now =
     (if \<not> q_adaptive (ad_quality a) then (None, a)
      else let a1 = a\<lparr>ad_baseline := baseline_after (ad_baseline a) (s_rtt_ms s)\<rparr>;
               a2 = ad_react a1 s (duration_since now (ad_last_change a))
           in if ad_target a2 \<noteq> ad_target a then (Some (ad_target a2), a2\<lparr>ad_last_change := now\<rparr>)
              else (None, a2))"

definition output_size :: "u32 \<Rightarrow> u32 \<Rightarrow> u32 \<Rightarrow> u16 \<Rightarrow> u32 \<times> u32" where
  "output_size nw nh scale max_height =
     (let h0 = nh * scale div 100;
          h1 = (if max_height > 0 then min h0 (ucast max_height) else h0);
          h = min (max h1 180) (max nh 180);
          w = ucast ((ucast nw * ucast h :: u64) div ucast (max nh 1)) :: u32
      in (max w 320 AND NOT 1, h AND NOT 1))"

section \<open>The bulk governor\<close>

definition MIN_RATE :: u64 where "MIN_RATE = 32 * 1024"
definition START_RATE :: u64 where "START_RATE = 64 * 1024"
definition MAX_RATE :: u64 where "MAX_RATE = 256 * 1024 * 1024"
definition TARGET_MS :: f32 where "TARGET_MS = 25"
definition BACK_OFF_MS :: f32 where "BACK_OFF_MS = 60"

record governor =
  gv_floor_ms :: "f32 option"
  gv_rate :: u64

definition gv_default :: governor where
  "gv_default = \<lparr>gv_floor_ms = None, gv_rate = START_RATE\<rparr>"

definition to_u64 :: "rat \<Rightarrow> u64" where
  "to_u64 x = of_nat (float_to_nat 64 x)"

definition floor_after :: "f32 option \<Rightarrow> f32 \<Rightarrow> f32" where
  "floor_after old rtt =
     (case old of
        Some f \<Rightarrow> r32 (r32 (min f rtt * r32 (995 / 1000)) + r32 (max rtt (min f rtt) * r32 (5 / 1000)))
      | None \<Rightarrow> rtt)"

definition next_rate :: "u64 \<Rightarrow> f32 \<Rightarrow> u64" where
  "next_rate rate delay =
     (if delay > BACK_OFF_MS then to_u64 (r64 (f64_of rate * (1 / 2)))
      else if delay > TARGET_MS then to_u64 (r64 (f64_of rate * r64 (8 / 10)))
      else if delay > r32 (TARGET_MS / 2) then rate
      else rate + max (rate div 8) (16 * 1024))"

definition gv_update :: "governor \<Rightarrow> f32 \<Rightarrow> u64 \<times> governor" where
  "gv_update g rtt =
     (let fl = floor_after (gv_floor_ms g) rtt;
          rate = clamp MIN_RATE MAX_RATE (next_rate (gv_rate g) (max (r32 (rtt - fl)) 0))
      in (rate, \<lparr>gv_floor_ms = Some fl, gv_rate = rate\<rparr>))"

end
