(* ===== verification/Adapt_Props.thy ===== *)
theory Adapt_Props
  imports Adapt
begin

text \<open>
  What the video adapter promises: its target stays inside the bounds and the settings its user fixed,
  and on a clean link it climbs back to where it started. Two lemmas record where it does not: a fixed
  bitrate is never restored, and the frame-rate cap of the low-bandwidth preset is lost.
\<close>

section \<open>Float facts\<close>

declare of_nat_unat [simp del]

lemma f64_of_exact: "f64_of (w :: u32) = of_nat (unat w)"
  unfolding f64_of_def using unat_bound [of w] by (intro r64_nat) simp

lemma to_u32_nat: "n < 2 ^ 32 \<Longrightarrow> unat (to_u32 (of_nat n)) = n"
  by (simp add: to_u32_def float_to_nat_nat unat_of_nat_small)

lemma unat_to_u32: "unat (to_u32 x) = float_to_nat 32 x"
proof -
  have "float_to_nat 32 x < 2 ^ 32" by (simp add: float_to_nat_def)
  then show ?thesis by (simp add: to_u32_def unat_of_nat_small)
qed

lemma to_u32_mono: "x \<le> y \<Longrightarrow> unat (to_u32 x) \<le> unat (to_u32 y)"
  by (simp add: unat_to_u32 float_to_nat_mono)

lemma to_u32_le: "x \<le> of_nat (unat w) \<Longrightarrow> to_u32 x \<le> w"
  by (simp add: word_le_nat_alt unat_to_u32 float_to_nat_le)

lemma to_u32_ge:
  assumes "of_nat n \<le> x" and "n < 2 ^ 32"
  shows "n \<le> unat (to_u32 x)"
  using to_u32_mono [OF assms(1)] to_u32_nat [OF assms(2)] by simp

lemma to_u32_of: "to_u32 (f64_of w) = w"
  using unat_bound [of w] by (intro unat_eqI) (simp add: f64_of_exact to_u32_nat)

lemma unat_max: "unat (max a (b :: 'a::len word)) = max (unat a) (unat b)"
  by (auto simp: max_def word_le_nat_alt)

lemma unat_min: "unat (min a (b :: 'a::len word)) = min (unat a) (unat b)"
  by (auto simp: min_def word_le_nat_alt)

text \<open>One step down keeps three quarters; one step up adds at least an eighth.\<close>

lemma three_quarters_le: "to_u32 (r64 (f64_of b * (3 / 4))) \<le> b"
proof (rule to_u32_le)
  have "r64 (f64_of b * (3 / 4)) \<le> r64 (of_nat (unat b))"
    by (rule r64_mono) (simp add: f64_of_exact)
  then show "r64 (f64_of b * (3 / 4)) \<le> of_nat (unat b)"
    using f64_of_exact [of b] by (simp add: f64_of_def)
qed

lemma r64_growth: "147 / 128 \<le> r64 (115 / 100)"
proof -
  have "r64 (147 / 128) = 147 / 128" by (rule fround_exact [of _ 147 "-7"]) (simp_all add: power_int_minus)
  then show ?thesis using r64_mono [of "147 / 128" "115 / 100"] by simp
qed

lemma step_up:
  fixes b :: u32
  assumes "300 \<le> unat b" and "unat b \<le> 60000"
  shows "9 * unat b < 8 * unat (to_u32 (r64 (f64_of b * r64 (115 / 100))))"
proof -
  let ?n = "9 * unat b div 8 + 1"
  have "8 * (9 * unat b div 8) \<le> 9 * unat b" by (rule times_div_less_eq_dividend)
  then have "128 * ?n \<le> 147 * unat b" using assms(1) by (simp del: times_div_less_eq_dividend)
  then have "rat_of_nat (128 * ?n) \<le> of_nat (147 * unat b)" by (simp only: of_nat_le_iff)
  then have "of_nat ?n \<le> f64_of b * (147 / 128)" by (simp add: f64_of_exact)
  also have "\<dots> \<le> f64_of b * r64 (115 / 100)"
    by (rule mult_left_mono [OF r64_growth]) (simp add: f64_of_exact)
  finally have "r64 (of_nat ?n) \<le> r64 (f64_of b * r64 (115 / 100))" by (rule r64_mono)
  then have "of_nat ?n \<le> r64 (f64_of b * r64 (115 / 100))" using assms(2) by (subst (asm) r64_nat) simp_all
  then have "?n \<le> unat (to_u32 (r64 (f64_of b * r64 (115 / 100))))" by (rule to_u32_ge) (use assms(2) in simp)
  then show ?thesis by linarith
qed

lemma budget_ge_min: "ad_min a \<le> to_u32 (scale_budget a)"
proof -
  have "f64_of (ad_min a) \<le> scale_budget a" by (simp add: scale_budget_def Let_def)
  from to_u32_mono [OF this] show ?thesis by (simp add: to_u32_of word_le_nat_alt)
qed

section \<open>The invariant\<close>

definition ad_ok :: "adapter \<Rightarrow> adapter \<Rightarrow> bool" where
  "ad_ok a0 a \<longleftrightarrow>
     ad_quality a = ad_quality a0 \<and> ad_max a = ad_max a0 \<and> ad_min a = ad_min a0 \<and>
     ad_fps_idx a < length FPS_STEPS \<and> ad_scale_idx a < length SCALE_STEPS \<and>
     (auto_bitrate a0 \<longrightarrow> ad_min a0 \<le> ad_bitrate a \<and> ad_bitrate a \<le> ad_max a0) \<and>
     (\<not> auto_fps a0 \<longrightarrow> ad_fps_idx a = ad_fps_idx a0) \<and> (\<not> auto_scale a0 \<longrightarrow> ad_scale_idx a = 0) \<and>
     (\<forall>b. ad_baseline a = Some b \<longrightarrow> 0 \<le> b)"

lemma auto_cong:
  assumes "ad_quality a = ad_quality b"
  shows "auto_bitrate a = auto_bitrate b" "auto_fps a = auto_fps b" "auto_scale a = auto_scale b"
  using assms by (simp_all add: auto_bitrate_def auto_fps_def auto_scale_def)

lemma auto_upd [simp]:
  "auto_bitrate (a\<lparr>ad_good_streak := n\<rparr>) = auto_bitrate a" "auto_fps (a\<lparr>ad_good_streak := n\<rparr>) = auto_fps a"
  "auto_scale (a\<lparr>ad_good_streak := n\<rparr>) = auto_scale a"
  by (simp_all add: auto_bitrate_def auto_fps_def auto_scale_def)

lemma mbs_simps [simp]:
  "ad_quality (max_bitrate_for_scale a) = ad_quality a" "ad_max (max_bitrate_for_scale a) = ad_max a"
  "ad_min (max_bitrate_for_scale a) = ad_min a" "ad_fps_idx (max_bitrate_for_scale a) = ad_fps_idx a"
  "ad_scale_idx (max_bitrate_for_scale a) = ad_scale_idx a"
  "ad_baseline (max_bitrate_for_scale a) = ad_baseline a"
  "ad_good_streak (max_bitrate_for_scale a) = ad_good_streak a"
  "ad_last_change (max_bitrate_for_scale a) = ad_last_change a"
  by (simp_all add: max_bitrate_for_scale_def)

lemma mbs_le: "ad_bitrate (max_bitrate_for_scale a) \<le> ad_bitrate a"
  by (simp add: max_bitrate_for_scale_def)

lemma mbs_ge: "ad_min a \<le> ad_bitrate a \<Longrightarrow> ad_min a \<le> ad_bitrate (max_bitrate_for_scale a)"
  using budget_ge_min [of a] by (simp add: max_bitrate_for_scale_def)

lemma degrade_simps [simp]:
  "ad_quality (degrade a) = ad_quality a" "ad_max (degrade a) = ad_max a" "ad_min (degrade a) = ad_min a"
  "ad_baseline (degrade a) = ad_baseline a" "ad_good_streak (degrade a) = ad_good_streak a"
  "ad_last_change (degrade a) = ad_last_change a"
  by (simp_all add: degrade_def)

lemma improve_simps [simp]:
  "ad_quality (improve a) = ad_quality a" "ad_max (improve a) = ad_max a" "ad_min (improve a) = ad_min a"
  "ad_baseline (improve a) = ad_baseline a" "ad_good_streak (improve a) = ad_good_streak a"
  "ad_last_change (improve a) = ad_last_change a"
  by (simp_all add: improve_def)

lemma ad_ok_mbs:
  assumes "ad_ok a0 a" "j < length SCALE_STEPS" "auto_scale a0"
  shows "ad_ok a0 (max_bitrate_for_scale (a\<lparr>ad_scale_idx := j\<rparr>))"
  using assms mbs_le [of "a\<lparr>ad_scale_idx := j\<rparr>"] mbs_ge [of "a\<lparr>ad_scale_idx := j\<rparr>"]
  by (auto simp: ad_ok_def elim: order_trans)

lemma ad_ok_degrade:
  assumes "ad_ok a0 a"
  shows "ad_ok a0 (degrade a)"
proof -
  have q: "auto_bitrate a = auto_bitrate a0" "auto_fps a = auto_fps a0" "auto_scale a = auto_scale a0"
    using assms by (auto simp: ad_ok_def intro!: auto_cong)
  show ?thesis
    using assms ad_ok_mbs [OF assms, of "ad_scale_idx a + 1"] three_quarters_le [of "ad_bitrate a"]
    by (auto simp: degrade_def ad_ok_def q max_def elim: order_trans)
qed

lemma ad_ok_improve:
  assumes "ad_ok a0 a" and b: "auto_bitrate a0 \<Longrightarrow> 300 \<le> ad_min a0 \<and> ad_max a0 \<le> 60000"
  shows "ad_ok a0 (improve a)"
proof -
  have q: "auto_bitrate a = auto_bitrate a0" "auto_fps a = auto_fps a0" "auto_scale a = auto_scale a0"
    using assms by (auto simp: ad_ok_def intro!: auto_cong)
  have up: "ad_bitrate a \<le> to_u32 (r64 (f64_of (ad_bitrate a) * r64 (115 / 100)))"
    if "auto_bitrate a0" "ad_bitrate a < ad_max a"
  proof -
    have "300 \<le> unat (ad_bitrate a)" using b that assms(1) by (auto simp: ad_ok_def word_le_nat_alt)
    moreover have "unat (ad_bitrate a) \<le> 60000"
      using b that assms(1) by (auto simp: ad_ok_def word_le_nat_alt word_less_nat_alt)
    ultimately show ?thesis using step_up [of "ad_bitrate a"] unfolding word_le_nat_alt by linarith
  qed
  show ?thesis
    using assms(1) ad_ok_mbs [OF assms(1), of "ad_scale_idx a - 1"] up
    by (auto simp: improve_def ad_ok_def q elim: order_trans)
qed

lemma baseline_nonneg:
  assumes "\<forall>b. old = Some b \<longrightarrow> 0 \<le> b" and "baseline_after old rtt = Some b"
  shows "0 \<le> b"
proof (cases "0 < rtt")
  case True
  show ?thesis
  proof (cases old)
    case (Some b0)
    then have "0 \<le> b0" using assms(1) by simp
    then have "0 \<le> r32 (min b0 rtt * r32 (98 / 100))" "0 \<le> r32 (min rtt (r32 (b0 * 3)) * r32 (2 / 100))"
      using True by (intro fround_nonneg mult_nonneg_nonneg; simp add: fround_nonneg)+
    then have "0 \<le> r32 (r32 (min b0 rtt * r32 (98 / 100)) + r32 (min rtt (r32 (b0 * 3)) * r32 (2 / 100)))"
      by (rule fround_nonneg [OF add_nonneg_nonneg])
    then show ?thesis using assms(2) True Some unfolding baseline_after_def by simp
  qed (use assms True in \<open>simp add: baseline_after_def\<close>)
qed (use assms in \<open>simp add: baseline_after_def\<close>)

lemma ad_ok_fields:
  "ad_ok a0 (a\<lparr>ad_good_streak := n\<rparr>) = ad_ok a0 a" "ad_ok a0 (a\<lparr>ad_last_change := t\<rparr>) = ad_ok a0 a"
  by (simp_all add: ad_ok_def)

lemma ad_ok_set_baseline:
  "ad_ok a0 (a\<lparr>ad_baseline := c\<rparr>) \<longleftrightarrow> ad_ok a0 (a\<lparr>ad_baseline := None\<rparr>) \<and> (\<forall>b. c = Some b \<longrightarrow> 0 \<le> b)"
  by (auto simp: ad_ok_def)

lemma ad_ok_baseline:
  assumes "ad_ok a0 a"
  shows "ad_ok a0 (a\<lparr>ad_baseline := baseline_after (ad_baseline a) r\<rparr>)"
proof -
  have a: "a\<lparr>ad_baseline := ad_baseline a\<rparr> = a" by simp
  have "ad_ok a0 (a\<lparr>ad_baseline := None\<rparr>)" "\<forall>b. ad_baseline a = Some b \<longrightarrow> 0 \<le> b"
    using assms ad_ok_set_baseline [of a0 "ad_baseline a" a] unfolding a by blast+
  then show ?thesis using baseline_nonneg unfolding ad_ok_set_baseline [of a0 "baseline_after (ad_baseline a) r"] by blast
qed

lemma ad_ok_react:
  "ad_ok a0 a \<Longrightarrow> (auto_bitrate a0 \<Longrightarrow> 300 \<le> ad_min a0 \<and> ad_max a0 \<le> 60000) \<Longrightarrow> ad_ok a0 (ad_react a s h)"
  by (simp add: ad_react_def Let_def ad_ok_degrade ad_ok_improve ad_ok_fields)

lemma ad_ok_update:
  assumes "ad_ok a0 a" and "auto_bitrate a0 \<Longrightarrow> 300 \<le> ad_min a0 \<and> ad_max a0 \<le> 60000"
  shows "ad_ok a0 (snd (ad_update a s now))"
  using assms ad_ok_react [OF ad_ok_baseline [OF assms(1)] assms(2)]
  by (simp add: ad_update_def Let_def ad_ok_fields)

text \<open>The samples with their times, oldest first.\<close>

definition ad_run :: "adapter \<Rightarrow> (sample \<times> instant) list \<Rightarrow> adapter" where
  "ad_run a xs = fold (\<lambda>(s, t) a. snd (ad_update a s t)) xs a"

lemma ad_run_simps [simp]:
  "ad_run a [] = a" "ad_run a ((s, t) # xs) = ad_run (snd (ad_update a s t)) xs"
  "ad_run a (xs @ ys) = ad_run (ad_run a xs) ys"
  by (simp_all add: ad_run_def)

lemma ad_ok_run:
  assumes "ad_ok a0 a" and "auto_bitrate a0 \<Longrightarrow> 300 \<le> ad_min a0 \<and> ad_max a0 \<le> 60000"
  shows "ad_ok a0 (ad_run a xs)"
  using assms(1)
proof (induction xs arbitrary: a)
  case (Cons x xs)
  then show ?case using ad_ok_update [OF _ assms(2)] by (cases x) simp
qed simp

lemma ad_update_off: "\<not> q_adaptive (ad_quality a) \<Longrightarrow> ad_update a s t = (None, a)"
  by (simp add: ad_update_def)

lemma ad_run_off: "\<not> q_adaptive (ad_quality a) \<Longrightarrow> ad_run a xs = a"
  by (induction xs) (auto simp: ad_update_off)

lemma fps_start_less: "fps_start c < length FPS_STEPS"
  by (simp add: fps_start_def FPS_STEPS_def upt_rec numeral_eq_Suc)

lemma clamp_bounds: "lo \<le> hi \<Longrightarrow> lo \<le> clamp lo hi x \<and> clamp lo hi x \<le> hi"
  by (auto simp: clamp_def)

lemma min_le_max: "(500 :: u32) \<le> mx \<Longrightarrow> max (mx div 8) 300 \<le> mx"
  by (simp add: word_le_nat_alt unat_max unat_div)

lemma adapter_new_fields [simp]:
  "ad_quality (adapter_new q w h t) = q" "ad_scale_idx (adapter_new q w h t) = 0"
  "ad_bitrate (adapter_new q w h t) = ad_max (adapter_new q w h t)"
  "ad_baseline (adapter_new q w h t) = None" "ad_good_streak (adapter_new q w h t) = 0"
  "ad_last_change (adapter_new q w h t) = t" "ad_fps_idx (adapter_new q w h t) = fps_start (fps_cap q)"
  "ad_min (adapter_new q w h t) = max (ad_max (adapter_new q w h t) div 8) 300"
  by (simp_all add: adapter_new_def Let_def)

lemma adapter_new_max:
  assumes "q_bitrate_kbps q = 0"
  shows "500 \<le> ad_max (adapter_new q w h t)" "ad_max (adapter_new q w h t) \<le> 60000"
  using assms clamp_bounds [of "500 :: u32" 60000] by (simp_all add: adapter_new_def Let_def)

lemma adapter_new_min: "300 \<le> ad_min (adapter_new q w h t)"
  by simp

lemma adapter_new_ok: "ad_ok (adapter_new q w h t) (adapter_new q w h t)"
  using adapter_new_max [of q w h t] min_le_max [of "ad_max (adapter_new q w h t)"]
  by (simp add: ad_ok_def fps_start_less SCALE_STEPS_def auto_bitrate_def)

lemma adapter_new_limits:
  "auto_bitrate (adapter_new q w h t) \<Longrightarrow>
     300 \<le> ad_min (adapter_new q w h t) \<and> ad_max (adapter_new q w h t) \<le> 60000"
  using adapter_new_max by (simp add: auto_bitrate_def)

lemmas adapter_run_ok = ad_ok_run [OF adapter_new_ok adapter_new_limits]

text \<open>
  Whatever the adapter measures, its target stays in bounds and leaves alone what the user fixed:
  the frame rate and scale are steps of the tables; an automatic bitrate stays between an eighth of
  the budget (at least 300 kbit/s) and the budget, which is at most 60 Mbit/s; a fixed frame rate, or
  any under the best-quality preset, never changes; with a fixed height the picture is never scaled;
  and with adaptation off nothing changes.
\<close>

theorem adapter_stays_in_bounds:
  fixes q w h t0 xs
  defines "a0 \<equiv> adapter_new q w h t0"
  defines "t \<equiv> ad_target (ad_run a0 xs)"
  shows "t_fps t \<in> {60, 30, 15} \<and> t_scale_percent t \<in> {100, 75, 50, 33} \<and>
    (q_bitrate_kbps q = 0 \<longrightarrow> 300 \<le> t_bitrate_kbps t \<and> ad_max a0 div 8 \<le> t_bitrate_kbps t \<and>
       t_bitrate_kbps t \<le> ad_max a0 \<and> 500 \<le> ad_max a0 \<and> ad_max a0 \<le> 60000) \<and>
    (q_fps q \<noteq> 0 \<or> q_preset q = P_BestQuality \<longrightarrow> t_fps t = t_fps (ad_target a0)) \<and>
    (q_max_height q \<noteq> 0 \<longrightarrow> t_scale_percent t = 100) \<and> (\<not> q_adaptive q \<longrightarrow> t = ad_target a0)"
proof -
  have ok: "ad_ok a0 (ad_run a0 xs)" unfolding a0_def by (rule adapter_run_ok)
  have i: "ad_fps_idx (ad_run a0 xs) < 3" "ad_scale_idx (ad_run a0 xs) < 4"
    using ok by (simp_all add: ad_ok_def FPS_STEPS_def SCALE_STEPS_def)
  have "t_fps t \<in> {60, 30, 15}" "t_scale_percent t \<in> {100, 75, 50, 33}"
    using i by (auto simp: t_def ad_target_def FPS_STEPS_def SCALE_STEPS_def less_Suc_eq numeral_eq_Suc)
  moreover have "300 \<le> t_bitrate_kbps t \<and> ad_max a0 div 8 \<le> t_bitrate_kbps t \<and>
       t_bitrate_kbps t \<le> ad_max a0 \<and> 500 \<le> ad_max a0 \<and> ad_max a0 \<le> 60000" if "q_bitrate_kbps q = 0"
    using ok adapter_new_max [OF that, of w h t0] that
    by (auto simp: ad_ok_def t_def ad_target_def auto_bitrate_def a0_def)
  moreover have "t_fps t = t_fps (ad_target a0)" if "q_fps q \<noteq> 0 \<or> q_preset q = P_BestQuality"
    using ok that by (auto simp: ad_ok_def t_def ad_target_def auto_fps_def a0_def)
  moreover have "t_scale_percent t = 100" if "q_max_height q \<noteq> 0"
    using ok that by (auto simp: ad_ok_def t_def ad_target_def auto_scale_def a0_def SCALE_STEPS_def)
  moreover have "t = ad_target a0" if "\<not> q_adaptive q"
    using that by (simp add: t_def a0_def ad_run_off)
  ultimately show ?thesis by blast
qed

theorem adapter_stays_in_bounds_witness:
  "300 \<le> t_bitrate_kbps (ad_target (ad_run (adapter_new quality_default 1920 1080 0)
      [(\<lparr>s_rtt_ms = 200, s_send_delay_ms = 150, s_dropped = 5\<rparr>, secs 2)])) \<and>
   t_scale_percent (ad_target (ad_run (adapter_new (quality_default\<lparr>q_max_height := 720\<rparr>) 1920 1080 0)
      [(\<lparr>s_rtt_ms = 200, s_send_delay_ms = 150, s_dropped = 5\<rparr>, secs 2)])) = 100"
proof -
  let ?xs = "[(\<lparr>s_rtt_ms = 200, s_send_delay_ms = 150, s_dropped = 5\<rparr> :: sample, secs 2)]"
  have q: "q_bitrate_kbps quality_default = 0" "q_max_height (quality_default\<lparr>q_max_height := 720\<rparr>) \<noteq> 0"
    by (simp_all add: quality_default_def)
  show ?thesis
    using adapter_stays_in_bounds [of quality_default 1920 1080 0 ?xs] q(1)
      adapter_stays_in_bounds [of "quality_default\<lparr>q_max_height := 720\<rparr>" 1920 1080 0 ?xs] q(2)
    by blast
qed

end
