(* ===== verification/Adapt_Recovery.thy ===== *)
theory Adapt_Recovery
  imports Adapt_Props
begin

text \<open>
  Recovery of the video adapter on a clean link: a rank that every improvement lowers, a bound on the
  samples between improvements, and the settings under which recovery is not complete.
\<close>

section \<open>The rank\<close>

definition grow_steps :: "nat \<Rightarrow> nat \<Rightarrow> nat" where
  "grow_steps mx b =
     (if mx \<le> b then 0 else card {k. 1 \<le> k \<and> k \<le> 45 \<and> (of_nat b :: rat) < 300 * (9 / 8) ^ k})"

lemma grow_steps_finite: "finite {k. 1 \<le> k \<and> k \<le> (45::nat) \<and> P k}"
  by (rule finite_subset [of _ "{..45}"]) auto

lemma grow_steps_le: "grow_steps mx b \<le> 45"
proof -
  have "card {k. 1 \<le> k \<and> k \<le> (45::nat) \<and> (of_nat b :: rat) < 300 * (9 / 8) ^ k} \<le> card {1..45::nat}"
    by (rule card_mono) auto
  then show ?thesis by (simp add: grow_steps_def)
qed

lemma grow_steps_less:
  assumes b: "300 \<le> b" "b < mx" "mx \<le> 60000" and up: "9 * b < 8 * b'"
  shows "grow_steps mx b' < grow_steps mx b"
proof -
  let ?in = "\<lambda>b k. 1 \<le> k \<and> k \<le> 45 \<and> (of_nat b :: rat) < 300 * (9 / 8) ^ k"
  have "(of_nat b :: rat) < of_nat 60000" using b by (simp only: of_nat_less_iff)
  also have "(of_nat 60000 :: rat) \<le> 300 * (9 / 8) ^ 45" by (simp add: power_divide)
  finally have top: "?in b 45" by simp
  define k where "k = (LEAST k. ?in b k)"
  have k: "?in b k" unfolding k_def by (rule LeastI [of "?in b", OF top])
  have low: "300 * (9 / 8) ^ (k - 1) \<le> (of_nat b :: rat)"
  proof (cases "k = 1")
    case True
    have "(of_nat 300 :: rat) \<le> of_nat b" using b(1) by (simp only: of_nat_le_iff)
    then show ?thesis using True by simp
  next
    case False
    then have "k - 1 < k" "1 \<le> k - 1" "k - 1 \<le> 45" using k by auto
    then show ?thesis using not_less_Least [of "k - 1" "?in b"] k_def by (simp add: not_less)
  qed
  have "300 * (9 / 8) ^ k = (9 / 8 :: rat) * (300 * (9 / 8) ^ (k - 1))"
    using k by (cases k) simp_all
  also have "\<dots> \<le> 9 / 8 * of_nat b" using low by simp
  also have "\<dots> \<le> of_nat b'"
  proof -
    have "(of_nat (9 * b) :: rat) \<le> of_nat (8 * b')" using up by (simp only: of_nat_le_iff less_imp_le)
    then show ?thesis by simp
  qed
  finally have out: "\<not> ?in b' k" by simp
  have "b < b'" using up by simp
  then have "{k. ?in b' k} \<subseteq> {k. ?in b k}" by (auto elim: less_trans [rotated])
  then have "{k. ?in b' k} \<subset> {k. ?in b k}" using k out by blast
  from psubset_card_mono [OF grow_steps_finite this]
  have "card {k. ?in b' k} < card {k. ?in b k}" .
  then show ?thesis using b(2) by (simp add: grow_steps_def)
qed

definition open_fps :: "adapter \<Rightarrow> nat" where
  "open_fps a = (if auto_fps a then ad_fps_idx a else 0)"

definition ad_rank :: "adapter \<Rightarrow> nat" where
  "ad_rank a = (3 * ad_scale_idx a + open_fps a) * 46 + grow_steps (unat (ad_max a)) (unat (ad_bitrate a))"

text \<open>An adapter whose bitrate is its own to choose, on a budget that leaves room above the minimum.\<close>

definition can_recover :: "adapter \<Rightarrow> bool" where
  "can_recover a0 \<longleftrightarrow> auto_bitrate a0 \<and> 300 \<le> ad_min a0 \<and> ad_max a0 \<le> 60000 \<and>
     2 * unat (ad_min a0) \<le> unat (ad_max a0)"

lemma ad_okD:
  assumes "ad_ok a0 a" and "can_recover a0"
  shows "auto_bitrate a" "300 \<le> unat (ad_bitrate a)" "unat (ad_bitrate a) \<le> unat (ad_max a)"
    "unat (ad_max a) \<le> 60000" "2 * unat (ad_min a) \<le> unat (ad_max a)" "ad_fps_idx a < 3" "ad_scale_idx a < 4"
    "ad_scale_idx a > 0 \<Longrightarrow> auto_scale a"
proof -
  have q: "auto_bitrate a = auto_bitrate a0" "auto_scale a = auto_scale a0"
    using assms(1) by (auto simp: ad_ok_def intro!: auto_cong)
  have f: "ad_min a0 \<le> ad_bitrate a" "ad_bitrate a \<le> ad_max a0" "ad_max a = ad_max a0" "ad_min a = ad_min a0"
    "\<not> auto_scale a0 \<longrightarrow> ad_scale_idx a = 0" "ad_fps_idx a < length FPS_STEPS" "ad_scale_idx a < length SCALE_STEPS"
    using assms by (simp_all add: ad_ok_def can_recover_def)
  have c: "auto_bitrate a0" "300 \<le> unat (ad_min a0)" "unat (ad_max a0) \<le> 60000"
    "2 * unat (ad_min a0) \<le> unat (ad_max a0)"
    using assms(2) by (simp_all add: can_recover_def word_le_nat_alt)
  show "auto_bitrate a" using q c by simp
  show "300 \<le> unat (ad_bitrate a)" using f(1) c(2) by (simp add: word_le_nat_alt)
  show "unat (ad_bitrate a) \<le> unat (ad_max a)" using f(2,3) by (simp add: word_le_nat_alt)
  show "unat (ad_max a) \<le> 60000" "2 * unat (ad_min a) \<le> unat (ad_max a)" using c f by simp_all
  show "ad_fps_idx a < 3" "ad_scale_idx a < 4" using f by (simp_all add: FPS_STEPS_def SCALE_STEPS_def)
  show "ad_scale_idx a > 0 \<Longrightarrow> auto_scale a" using f q by auto
qed

lemma rank_le:
  assumes "ad_ok a0 a" and "can_recover a0"
  shows "ad_rank a \<le> 551"
  using ad_okD(6,7) [OF assms] grow_steps_le [of "unat (ad_max a)" "unat (ad_bitrate a)"]
  by (auto simp: ad_rank_def open_fps_def)

lemma open_fps_cong [simp]:
  "open_fps (a\<lparr>ad_good_streak := n\<rparr>) = open_fps a" "open_fps (a\<lparr>ad_last_change := t\<rparr>) = open_fps a"
  "open_fps (a\<lparr>ad_baseline := b\<rparr>) = open_fps a" "open_fps (a\<lparr>ad_bitrate := c\<rparr>) = open_fps a"
  "open_fps (a\<lparr>ad_scale_idx := i\<rparr>) = open_fps a" "open_fps (max_bitrate_for_scale a) = open_fps a"
  by (simp_all add: open_fps_def auto_fps_def)

lemma ad_rank_cong [simp]:
  "ad_rank (a\<lparr>ad_good_streak := n\<rparr>) = ad_rank a" "ad_rank (a\<lparr>ad_last_change := t\<rparr>) = ad_rank a"
  "ad_rank (a\<lparr>ad_baseline := b\<rparr>) = ad_rank a"
  by (simp_all add: ad_rank_def)

text \<open>Below the top every improvement lowers the rank; at the top it changes nothing.\<close>

lemma unat_times2:
  assumes "2 * unat (m :: u32) \<le> unat (x :: u32)"
  shows "unat (m * 2) = 2 * unat m"
proof -
  have "unat x < 4294967296" using unat_bound [of x] by simp
  then have "unat m * 2 < 4294967296" using assms by linarith
  then show ?thesis by (simp add: unat_word_ariths)
qed

lemma improve_rank:
  assumes ok: "ad_ok a0 a" and rec: "can_recover a0"
  shows "ad_rank a = 0 \<and> improve a = a \<or> ad_rank (improve a) < ad_rank a"
proof -
  note d = ad_okD [OF ok rec]
  note two = unat_times2 [OF d(5)]
  consider (scale) "ad_scale_idx a > 0" | (fps) "ad_scale_idx a = 0" "open_fps a > 0" "ad_min a * 2 \<le> ad_bitrate a"
    | (rate) "ad_scale_idx a = 0" "\<not> (open_fps a > 0 \<and> ad_min a * 2 \<le> ad_bitrate a)" "ad_bitrate a < ad_max a"
    | (top) "ad_scale_idx a = 0" "open_fps a = 0" "\<not> ad_bitrate a < ad_max a"
  proof -
    have "ad_bitrate a < ad_max a" if "\<not> ad_min a * 2 \<le> ad_bitrate a"
      using that d(5) two by (simp add: word_le_nat_alt word_less_nat_alt)
    then show ?thesis using that by (metis gr0I)
  qed
  then show ?thesis
  proof cases
    case scale
    then have "improve a = max_bitrate_for_scale (a\<lparr>ad_scale_idx := ad_scale_idx a - 1\<rparr>)"
      using d(8) by (simp add: improve_def)
    moreover obtain j where "ad_scale_idx a = Suc j" using scale by (cases "ad_scale_idx a") auto
    ultimately have "ad_rank (improve a) \<le> (3 * j + open_fps a) * 46 + 45" "ad_rank a \<ge> (3 * Suc j + open_fps a) * 46"
      using grow_steps_le by (simp_all add: ad_rank_def)
    then show ?thesis by (simp add: algebra_simps)
  next
    case fps
    then have a: "auto_fps a" "ad_fps_idx a > 0" by (auto simp: open_fps_def split: if_splits)
    then have "improve a = a\<lparr>ad_fps_idx := ad_fps_idx a - 1\<rparr>" using fps by (simp add: improve_def)
    moreover have "auto_fps (a\<lparr>ad_fps_idx := ad_fps_idx a - 1\<rparr>)" using a by (simp add: auto_fps_def)
    ultimately show ?thesis using a by (simp add: ad_rank_def open_fps_def)
  next
    case rate
    then have i: "improve a = a\<lparr>ad_bitrate := min (to_u32 (r64 (f64_of (ad_bitrate a) * r64 (115 / 100)))) (ad_max a)\<rparr>"
      using d(1) by (auto simp: improve_def open_fps_def split: if_splits)
    let ?n = "to_u32 (r64 (f64_of (ad_bitrate a) * r64 (115 / 100)))"
    have b: "unat (ad_bitrate a) < unat (ad_max a)" using rate(3) by (simp add: word_less_nat_alt)
    have "grow_steps (unat (ad_max a)) (unat (min ?n (ad_max a))) < grow_steps (unat (ad_max a)) (unat (ad_bitrate a))"
    proof (cases "unat (ad_max a) \<le> unat ?n")
      case True
      then have "grow_steps (unat (ad_max a)) (unat (min ?n (ad_max a))) = 0" by (simp add: grow_steps_def unat_min)
      moreover have "unat (ad_bitrate a) \<le> 60000" using b d(4) by simp
      from grow_steps_less [OF d(2) b d(4) step_up [OF d(2) this]]
      have "0 < grow_steps (unat (ad_max a)) (unat (ad_bitrate a))" by simp
      ultimately show ?thesis by simp
    next
      case False
      have "unat (ad_bitrate a) \<le> 60000" using b d(4) by simp
      then show ?thesis using False grow_steps_less [OF d(2) b d(4) step_up [OF d(2)]] by (simp add: unat_min)
    qed
    then show ?thesis by (simp add: i ad_rank_def)
  next
    case top
    then have "improve a = a" by (auto simp: improve_def open_fps_def split: if_splits)
    moreover have "ad_rank a = 0" using top by (simp add: ad_rank_def grow_steps_def word_less_nat_alt)
    ultimately show ?thesis by simp
  qed
qed

section \<open>Clean samples\<close>

text \<open>Every sample is clean for the adapter when it arrives; successive times are at least \<open>d\<close> apart.\<close>

fun fed_clean :: "adapter \<Rightarrow> (sample \<times> instant) list \<Rightarrow> bool" where
  "fed_clean a [] \<longleftrightarrow> True"
| "fed_clean a ((s, t) # xs) \<longleftrightarrow>
     clean (base_rtt (a\<lparr>ad_baseline := baseline_after (ad_baseline a) (s_rtt_ms s)\<rparr>)) s \<and>
     fed_clean (snd (ad_update a s t)) xs"

fun paced :: "duration \<Rightarrow> instant \<Rightarrow> (sample \<times> instant) list \<Rightarrow> bool" where
  "paced d t [] \<longleftrightarrow> True"
| "paced d t ((s, u) # xs) \<longleftrightarrow> t + d \<le> u \<and> paced d u xs"

definition last_time :: "instant \<Rightarrow> (sample \<times> instant) list \<Rightarrow> instant" where
  "last_time t xs = last (t # map snd xs)"

lemma clean_not_congested:
  assumes "clean b s" and "0 \<le> b"
  shows "\<not> congested b s"
proof -
  have "r32 (r32 (b * (3 / 2)) + 30) \<le> r32 (r32 (b * 2) + 60)"
    using assms(2) r32_mono [of "b * (3 / 2)" "b * 2"] by (intro r32_mono) simp
  then show ?thesis using assms(1) by (auto simp: clean_def congested_def)
qed

lemma base_rtt_nonneg: "ad_ok a0 a \<Longrightarrow> 0 \<le> base_rtt a"
  by (auto simp: ad_ok_def base_rtt_def split: option.splits)

definition ad_wait :: "adapter \<Rightarrow> instant \<Rightarrow> nat" where
  "ad_wait a t = (6 - unat (ad_good_streak a)) + (ad_last_change a + secs 5 - t) div secs 1"

definition ad_measure :: "adapter \<Rightarrow> instant \<Rightarrow> nat" where
  "ad_measure a t = ad_rank a * 12 + ad_wait a t"

lemma wait_le: "ad_last_change a \<le> t \<Longrightarrow> ad_wait a t \<le> 11"
  by (simp add: ad_wait_def secs_def)

text \<open>A clean sample a second later: the rank falls, or the wait does, or the top is kept.\<close>

definition count_up :: "adapter \<Rightarrow> adapter" where
  "count_up a = a\<lparr>ad_good_streak := ad_good_streak a + 1\<rparr>"

lemma react_clean:
  assumes "ad_ok a0 a" and "clean (base_rtt a) s"
  shows "ad_react a s h = (if unat (ad_good_streak a + 1) \<ge> 6 \<and> h \<ge> secs 5
    then improve (a\<lparr>ad_good_streak := 3\<rparr>) else count_up a)"
  using assms(2) clean_not_congested [OF assms(2) base_rtt_nonneg [OF assms(1)]]
  by (simp add: ad_react_def count_up_def word_le_nat_alt Let_def)

lemma ad_target_cong [simp]:
  "ad_target (a\<lparr>ad_good_streak := n\<rparr>) = ad_target a" "ad_target (a\<lparr>ad_baseline := b\<rparr>) = ad_target a"
  "ad_target (a\<lparr>ad_last_change := t\<rparr>) = ad_target a" "ad_target (count_up a) = ad_target a"
  by (simp_all add: ad_target_def count_up_def)

lemma improve_target_same: "improve a = a \<Longrightarrow> improve (a\<lparr>ad_good_streak := n\<rparr>) = a\<lparr>ad_good_streak := n\<rparr>"
proof -
  have "improve (a\<lparr>ad_good_streak := n\<rparr>) = (improve a)\<lparr>ad_good_streak := n\<rparr>"
    by (simp add: improve_def max_bitrate_for_scale_def scale_budget_def)
  then show "improve a = a \<Longrightarrow> ?thesis" by simp
qed

lemma wait_count_up:
  assumes "unat (ad_good_streak a) + 1 < 2 ^ 32" and "t + secs 1 \<le> u"
    and "unat (ad_good_streak a + 1) < 6 \<or> duration_since u (ad_last_change a) < secs 5"
    and "ad_last_change a \<le> t"
  shows "ad_wait (count_up a) u < ad_wait a t"
proof -
  have n: "unat (ad_good_streak a + 1) = unat (ad_good_streak a) + 1"
    using assms(1) unat_add_no_wrap [of "ad_good_streak a" 1] by simp
  have le: "(ad_last_change a + secs 5 - u) div secs 1 \<le> (ad_last_change a + secs 5 - t) div secs 1"
    using assms(2) by (intro div_le_mono) simp
  show ?thesis
  proof (cases "unat (ad_good_streak a + 1) < 6")
    case True
    then show ?thesis using le by (simp add: ad_wait_def count_up_def n)
  next
    case False
    then have "u < ad_last_change a + secs 5" using assms(3) by (simp add: secs_def)
    then have "(ad_last_change a + secs 5 - u) + secs 1 \<le> ad_last_change a + secs 5 - t"
      using assms(2) by simp
    then have "((ad_last_change a + secs 5 - u) + secs 1) div secs 1 \<le> (ad_last_change a + secs 5 - t) div secs 1"
      by (rule div_le_mono)
    then have "(ad_last_change a + secs 5 - u) div secs 1 + 1 \<le> (ad_last_change a + secs 5 - t) div secs 1"
      by (simp add: secs_def)
    then show ?thesis by (simp add: ad_wait_def count_up_def n)
  qed
qed

lemma clean_step:
  assumes ok: "ad_ok a0 a" and rec: "can_recover a0" and ad: "q_adaptive (ad_quality a)"
    and cl: "clean (base_rtt (a\<lparr>ad_baseline := baseline_after (ad_baseline a) (s_rtt_ms s)\<rparr>)) s"
    and t: "t + secs 1 \<le> u" "ad_last_change a \<le> t" and n: "unat (ad_good_streak a) + 1 < 2 ^ 32"
  defines "a' \<equiv> snd (ad_update a s u)"
  shows "ad_last_change a' \<le> u" "unat (ad_good_streak a') \<le> unat (ad_good_streak a) + 3"
    "ad_rank a = 0 \<and> ad_rank a' = 0 \<or> ad_measure a' u < ad_measure a t"
proof -
  define b where "b = a\<lparr>ad_baseline := baseline_after (ad_baseline a) (s_rtt_ms s)\<rparr>"
  have okb: "ad_ok a0 b" unfolding b_def by (rule ad_ok_baseline [OF ok])
  have b: "ad_good_streak b = ad_good_streak a" "ad_last_change b = ad_last_change a" "ad_rank b = ad_rank a"
      "ad_target b = ad_target a" "clean (base_rtt b) s"
    using cl by (simp_all add: b_def)
  define c where "c = ad_react b s (duration_since u (ad_last_change a))"
  have upd: "a' = (if ad_target c \<noteq> ad_target a then c\<lparr>ad_last_change := u\<rparr> else c)"
    using ad by (simp add: a'_def ad_update_def Let_def c_def b_def)
  have lc: "ad_last_change c = ad_last_change a"
    by (simp add: c_def ad_react_def Let_def b(2))
  have le: "ad_last_change a' \<le> u" using t by (simp add: upd lc)
  have w: "unat (ad_good_streak a + 1) = unat (ad_good_streak a) + 1"
    using n unat_add_no_wrap [of "ad_good_streak a" 1] by simp
  have st: "unat (ad_good_streak c) \<le> unat (ad_good_streak a) + 3"
    by (simp add: c_def react_clean [OF okb b(5)] b count_up_def w)
  show "ad_last_change a' \<le> u" by (rule le)
  show "unat (ad_good_streak a') \<le> unat (ad_good_streak a) + 3" using st by (simp add: upd)
  show "ad_rank a = 0 \<and> ad_rank a' = 0 \<or> ad_measure a' u < ad_measure a t"
  proof (cases "unat (ad_good_streak b + 1) \<ge> 6 \<and> duration_since u (ad_last_change a) \<ge> secs 5")
    case True
    then have c: "c = improve (b\<lparr>ad_good_streak := 3\<rparr>)" by (simp add: c_def react_clean [OF okb b(5)])
    have okc: "ad_ok a0 (b\<lparr>ad_good_streak := 3\<rparr>)" using okb by (simp add: ad_ok_fields)
    from improve_rank [OF okc rec] consider "ad_rank a = 0" "c = b\<lparr>ad_good_streak := 3\<rparr>" | "ad_rank c < ad_rank a"
      using c b(3) by auto
    then show ?thesis
    proof cases
      case 1
      then show ?thesis using b by (simp add: upd)
    next
      case 2
      then have "ad_rank a' < ad_rank a" by (simp add: upd)
      then show ?thesis using wait_le [OF le] by (simp add: ad_measure_def)
    qed
  next
    case False
    then have "c = count_up b" by (auto simp: c_def react_clean [OF okb b(5)])
    then have a': "a' = count_up b" by (simp add: upd b)
    have "ad_wait a' u < ad_wait b t"
      unfolding a' by (rule wait_count_up) (use False n t b in auto)
    moreover have "ad_wait b t = ad_wait a t" by (simp add: ad_wait_def b)
    moreover have "ad_rank a' = ad_rank a" using b(3) by (simp add: a' count_up_def)
    ultimately show ?thesis by (simp add: ad_measure_def)
  qed
qed

lemma clean_run:
  assumes "ad_ok a0 a" "can_recover a0" "q_adaptive (ad_quality a0)" "fed_clean a ys" "paced (secs 1) t ys"
    "ad_last_change a \<le> t" "unat (ad_good_streak a) + 3 * length ys < 2 ^ 32"
    "ad_rank a = 0 \<or> ad_measure a t \<le> length ys"
  shows "ad_rank (ad_run a ys) = 0"
  using assms(1,4-)
proof (induction ys arbitrary: a t)
  case Nil
  then show ?case by (auto simp: ad_measure_def)
next
  case (Cons x ys)
  obtain s u where x: "x = (s, u)" by force
  let ?a = "snd (ad_update a s u)"
  have q: "q_adaptive (ad_quality a)" using Cons.prems(1) assms(3) by (simp add: ad_ok_def)
  have step: "ad_last_change ?a \<le> u" "unat (ad_good_streak ?a) \<le> unat (ad_good_streak a) + 3"
      "ad_rank a = 0 \<and> ad_rank ?a = 0 \<or> ad_measure ?a u < ad_measure a t"
    by (rule clean_step [OF Cons.prems(1) assms(2) q]; use Cons.prems x in simp)+
  have ok: "ad_ok a0 ?a"
    by (rule ad_ok_update [OF Cons.prems(1)]) (use assms(2) in \<open>simp add: can_recover_def\<close>)
  have "ad_rank ?a = 0 \<or> ad_measure ?a u \<le> length ys"
    using step(3) Cons.prems(6) wait_le [OF Cons.prems(4)] unfolding ad_measure_def length_Cons by linarith
  then have "ad_rank (ad_run ?a ys) = 0"
    by (intro Cons.IH [OF ok, of u]) (use Cons.prems x step in simp_all)
  then show ?case by (simp add: x)
qed

lemma last_change_run:
  assumes "ad_last_change a \<le> t" and "paced 0 t xs"
  shows "ad_last_change (ad_run a xs) \<le> last_time t xs"
  using assms
proof (induction xs arbitrary: a t)
  case (Cons x xs)
  obtain s u where x: "x = (s, u)" by force
  have "ad_last_change (snd (ad_update a s u)) = ad_last_change a \<or> ad_last_change (snd (ad_update a s u)) = u"
    by (auto simp: ad_update_def ad_react_def Let_def)
  then have "ad_last_change (snd (ad_update a s u)) \<le> u" using Cons.prems x by auto
  then show ?case using Cons.IH Cons.prems x by (simp add: last_time_def)
qed (simp add: last_time_def)

lemma streak_run: "unat (ad_good_streak (ad_run a xs)) \<le> unat (ad_good_streak a) + 3 * length xs"
proof (induction xs arbitrary: a)
  case (Cons x xs)
  obtain s u where x: "x = (s, u)" by force
  have "unat (ad_good_streak a + 1) \<le> unat (ad_good_streak a) + 1"
    by (simp add: unat_word_ariths)
  then have "unat (ad_good_streak (snd (ad_update a s u))) \<le> unat (ad_good_streak a) + 3"
    by (auto simp: ad_update_def ad_react_def Let_def)
  then show ?case using Cons.IH [of "snd (ad_update a s u)"] by (simp add: x)
qed simp

section \<open>Recovery\<close>

lemma fps_start_60: "fps_start 60 = 0"
  by (simp add: fps_start_def FPS_STEPS_def upt_rec)

lemma top_target:
  assumes ok: "ad_ok (adapter_new q w h t0) a" and rec: "can_recover (adapter_new q w h t0)"
    and q: "q_preset q \<noteq> P_LowBandwidth" and top: "ad_rank a = 0"
  shows "ad_target a = ad_target (adapter_new q w h t0)"
proof -
  let ?a0 = "adapter_new q w h t0"
  note d = ad_okD [OF ok rec]
  have r: "ad_scale_idx a = 0" "open_fps a = 0" "grow_steps (unat (ad_max a)) (unat (ad_bitrate a)) = 0"
    using top by (simp_all add: ad_rank_def)
  have "\<not> unat (ad_bitrate a) < unat (ad_max a)"
  proof
    assume b: "unat (ad_bitrate a) < unat (ad_max a)"
    have "unat (ad_bitrate a) \<le> 60000" using b d(4) by simp
    from grow_steps_less [OF d(2) b d(4) step_up [OF d(2) this]] show False using r(3) by simp
  qed
  then have "ad_bitrate a = ad_max a" using d(3) by (intro unat_eqI) simp
  then have b: "ad_bitrate a = ad_bitrate ?a0" using ok by (simp add: ad_ok_def)
  have f: "ad_fps_idx a = ad_fps_idx ?a0"
  proof (cases "auto_fps ?a0")
    case True
    then have "fps_cap q = 60" using q by (simp add: auto_fps_def fps_cap_def)
    moreover have "auto_fps a" using ok True auto_cong(2) [of a ?a0] by (simp add: ad_ok_def)
    ultimately show ?thesis using r(2) by (simp add: open_fps_def fps_start_60)
  next
    case False
    then show ?thesis using ok by (simp add: ad_ok_def)
  qed
  show ?thesis using b f r(1) by (simp add: ad_target_def)
qed

text \<open>
  C25. On a clean link the adapter comes back: with an automatic bitrate whose budget is at least 600
  kbit/s, and any preset but low bandwidth, after any history 6,623 clean samples, one a second, bring
  the target back to what it was at the start.
\<close>

theorem adapter_recovers:
  fixes q w h t0 xs ys
  defines "a0 \<equiv> adapter_new q w h t0"
  assumes q: "q_adaptive q" "q_bitrate_kbps q = 0" "q_preset q \<noteq> P_LowBandwidth" "600 \<le> unat (ad_max a0)"
    and times: "paced 0 t0 xs" "paced (secs 1) (last_time t0 xs) ys"
    and clean: "fed_clean (ad_run a0 xs) ys"
    and len: "6623 \<le> length ys" "3 * (length xs + length ys) < 2 ^ 32"
  shows "ad_target (ad_run a0 (xs @ ys)) = ad_target a0"
proof -
  have ok: "ad_ok a0 (ad_run a0 zs)" for zs unfolding a0_def by (rule adapter_run_ok)
  have lim: "unat (ad_max a0) \<le> 60000" using adapter_new_max(2) [OF q(2), of w h t0]
    by (simp add: a0_def word_le_nat_alt)
  have rec: "can_recover a0"
    using q(2,4) lim adapter_new_min [of q w h t0]
    by (auto simp: can_recover_def a0_def auto_bitrate_def word_le_nat_alt unat_max unat_div max_def)
  have lc: "ad_last_change (ad_run a0 xs) \<le> last_time t0 xs"
    using last_change_run [OF _ times(1), of a0] by (simp add: a0_def)
  have st: "unat (ad_good_streak (ad_run a0 xs)) \<le> 3 * length xs"
    using streak_run [of a0 xs] by (simp add: a0_def)
  have "ad_measure (ad_run a0 xs) (last_time t0 xs) \<le> 551 * 12 + 11"
    using rank_le [OF ok rec, of xs] wait_le [OF lc] by (simp add: ad_measure_def)
  then have "ad_rank (ad_run (ad_run a0 xs) ys) = 0"
    by (intro clean_run [OF ok rec _ clean times(2) lc]) (use q len st in \<open>simp_all add: a0_def\<close>)
  then show ?thesis
    using top_target [of q w h t0, folded a0_def, OF ok rec q(3), of "xs @ ys"] by simp
qed

text \<open>The sample a quiet link gives, and forty congested ones before 6,623 of them.\<close>

definition quiet :: sample where
  "quiet = \<lparr>s_rtt_ms = 0, s_send_delay_ms = 5, s_dropped = 0\<rparr>"

definition busy :: sample where
  "busy = \<lparr>s_rtt_ms = 200, s_send_delay_ms = 150, s_dropped = 5\<rparr>"

fun every_second :: "sample \<Rightarrow> nat \<Rightarrow> nat \<Rightarrow> (sample \<times> instant) list" where
  "every_second s i 0 = []"
| "every_second s i (Suc n) = (s, secs i) # every_second s (Suc i) n"

lemma every_second_paced: "t + d \<le> secs i \<Longrightarrow> d \<le> secs 1 \<Longrightarrow> paced d t (every_second s i n)"
proof (induction n arbitrary: i t)
  case (Suc n)
  then have "secs i + d \<le> secs (Suc i)" by (simp add: secs_def)
  then show ?case using Suc by simp
qed simp

lemma quiet_clean: "clean b quiet"
  by (simp add: clean_def quiet_def)

lemma every_second_clean: "fed_clean a (every_second quiet i n)"
  by (induction n arbitrary: a i) (simp_all add: quiet_clean)

lemma length_every_second [simp]: "length (every_second s i n) = n"
  by (induction n arbitrary: i) simp_all

lemma default_budget: "3888 \<le> unat (ideal_bitrate quality_default 2073600 60)"
proof -
  have b: "(1 / 32 :: rat) \<le> r64 (4 / 100)"
  proof -
    have "r64 (1 / 32) = 1 / 32" by (rule fround_exact [of _ 1 "-5"]) (simp_all add: power_int_minus)
    then show ?thesis using r64_mono [of "1 / 32" "4 / 100"] by simp
  qed
  have n: "r64 (of_nat n) = of_nat n" if "n < 9007199254740992" for n using that by (rule r64_nat)
  have "f64_of (2073600 :: u64) = 2073600" "f64_of (60 :: u32) = 60"
    using n [of 2073600] n [of 60] by (simp_all add: f64_of_def)
  then have p: "r64 (f64_of (2073600 :: u64) * f64_of (60 :: u32)) = 124416000"
    using n [of 124416000] by simp
  have "r64 3888000 \<le> r64 (124416000 * r64 (4 / 100))" using b by (intro r64_mono) simp
  then have "3888000 \<le> r64 (124416000 * r64 (4 / 100))" using n [of 3888000] by simp
  then have "r64 3888 \<le> r64 (r64 (124416000 * r64 (4 / 100)) / 1000)" by (intro r64_mono) simp
  then have "of_nat 3888 \<le> r64 (r64 (124416000 * r64 (4 / 100)) / 1000)" using n [of 3888] by simp
  then have "3888 \<le> unat (to_u32 (r64 (r64 (124416000 * r64 (4 / 100)) / 1000)))" by (rule to_u32_ge) simp
  then show ?thesis by (simp add: ideal_bitrate_def p quality_default_def)
qed

lemma default_new: "600 \<le> unat (ad_max (adapter_new quality_default 1920 1080 t))"
proof -
  have "fps_cap quality_default = 60" "capped_pixels quality_default 1920 1080 = 2073600"
    by (simp_all add: fps_cap_def capped_pixels_def quality_default_def)
  then have "ad_max (adapter_new quality_default 1920 1080 t) =
      clamp 500 60000 (ideal_bitrate quality_default 2073600 60)"
    by (simp add: adapter_new_def Let_def fps_start_60 FPS_STEPS_def quality_default_def)
  then show ?thesis using default_budget by (simp add: clamp_def word_less_nat_alt)
qed

theorem adapter_recovers_witness:
  "ad_target (ad_run (adapter_new quality_default 1920 1080 0) (every_second busy 1 40 @ every_second quiet 60 6623)) =
   ad_target (adapter_new quality_default 1920 1080 0)"
proof (rule adapter_recovers)
  show "paced 0 0 (every_second busy 1 40)" by (rule every_second_paced) (simp_all add: secs_def)
  have "last_time 0 (every_second busy 1 40) = secs 40"
    by (simp add: last_time_def numeral_eq_Suc)
  then show "paced (secs 1) (last_time 0 (every_second busy 1 40)) (every_second quiet 60 6623)"
    by (intro every_second_paced) (simp_all add: secs_def)
qed (simp_all add: every_second_clean quality_default_def default_new [unfolded quality_default_def])

section \<open>Where recovery is not complete\<close>

text \<open>
  With less than twice the minimum to spend (a budget below 600 kbit/s, or a fixed bitrate once it was
  scaled down) a frame rate that was lowered is never raised again.
\<close>

definition stuck :: "adapter \<Rightarrow> bool" where
  "stuck a \<longleftrightarrow> ad_bitrate a < ad_min a * 2 \<and> ad_min a < ad_min a * 2 \<and> (auto_bitrate a \<longrightarrow> ad_max a < ad_min a * 2)"

lemma stuck_cong:
  assumes "ad_quality a = ad_quality b" "ad_min a = ad_min b" "ad_max a = ad_max b"
    "ad_bitrate a \<le> ad_bitrate b \<or> ad_bitrate a \<le> ad_min b \<or> auto_bitrate b \<and> ad_bitrate a \<le> ad_max b" "stuck b"
  shows "stuck a"
  using assms auto_cong(1) [OF assms(1)] by (auto simp: stuck_def)

lemma stuck_degrade:
  assumes "stuck a"
  shows "stuck (degrade a) \<and> ad_fps_idx a \<le> ad_fps_idx (degrade a)"
proof
  have m: "ad_bitrate (max_bitrate_for_scale (a\<lparr>ad_scale_idx := j\<rparr>)) \<le> ad_bitrate a" for j
    using mbs_le [of "a\<lparr>ad_scale_idx := j\<rparr>"] by simp
  show "stuck (degrade a)"
    using m [of "ad_scale_idx a + 1"] three_quarters_le [of "ad_bitrate a"]
    by (intro stuck_cong [OF _ _ _ _ assms]) (auto simp: degrade_def max_def)
  show "ad_fps_idx a \<le> ad_fps_idx (degrade a)" by (simp add: degrade_def)
qed

lemma stuck_improve:
  assumes "stuck a"
  shows "stuck (improve a) \<and> ad_fps_idx a \<le> ad_fps_idx (improve a)"
proof
  have m: "ad_bitrate (max_bitrate_for_scale (a\<lparr>ad_scale_idx := j\<rparr>)) \<le> ad_bitrate a" for j
    using mbs_le [of "a\<lparr>ad_scale_idx := j\<rparr>"] by simp
  show "stuck (improve a)"
    using m [of "ad_scale_idx a - 1"] assms
    by (intro stuck_cong [OF _ _ _ _ assms]) (auto simp: improve_def)
  have "\<not> ad_min a * 2 \<le> ad_bitrate a" using assms by (simp add: stuck_def not_le)
  then show "ad_fps_idx a \<le> ad_fps_idx (improve a)" by (simp add: improve_def)
qed

lemma stuck_update:
  assumes "stuck a"
  shows "stuck (snd (ad_update a s t)) \<and> ad_fps_idx a \<le> ad_fps_idx (snd (ad_update a s t))"
proof -
  have f: "stuck (a\<lparr>ad_baseline := b, ad_good_streak := n\<rparr>)" for b n
    using assms by (intro stuck_cong [OF _ _ _ _ assms]) simp_all
  have r: "stuck (ad_react (a\<lparr>ad_baseline := b\<rparr>) s h) \<and> ad_fps_idx a \<le> ad_fps_idx (ad_react (a\<lparr>ad_baseline := b\<rparr>) s h)"
    for b h
    using f [where b = b] stuck_degrade [OF f [where b = b and n = 0]] stuck_improve [OF f [where b = b and n = 3]]
    by (simp add: ad_react_def Let_def)
  have l: "stuck (x\<lparr>ad_last_change := t\<rparr>) = stuck x" for x
    by (simp add: stuck_def auto_bitrate_def)
  show ?thesis
    using assms r [of "baseline_after (ad_baseline a) (s_rtt_ms s)" "t - ad_last_change a"]
    by (simp add: ad_update_def Let_def l)
qed

lemma fps_never_restored:
  "stuck a \<Longrightarrow> stuck (ad_run a xs) \<and> ad_fps_idx a \<le> ad_fps_idx (ad_run a xs)"
proof (induction xs arbitrary: a)
  case (Cons x xs)
  obtain s u where x: "x = (s, u)" by force
  from stuck_update [OF Cons.prems, of s u] Cons.IH [of "snd (ad_update a s u)"] show ?case
    unfolding x ad_run_simps by (meson order_trans)
qed simp

lemma small_budget_stuck:
  assumes "q_bitrate_kbps q = 0" and "unat (ad_max (adapter_new q w h t)) < 600"
  shows "stuck (adapter_new q w h t)"
proof -
  let ?a = "adapter_new q w h t"
  have m: "500 \<le> unat (ad_max ?a)" using adapter_new_max(1) [OF assms(1)] by (simp add: word_le_nat_alt)
  then have "unat (ad_min ?a) = 300" using assms(2) by (simp add: unat_max unat_div)
  then have "unat (ad_min ?a * 2) = 600" by (simp add: unat_word_ariths del: adapter_new_fields(8))
  then show ?thesis
    using assms(2) \<open>unat (ad_min ?a) = 300\<close> by (simp add: stuck_def word_less_nat_alt del: adapter_new_fields(8))
qed

text \<open>The low-bandwidth preset starts at 30 frames per second; an improvement lifts it to 60.\<close>

lemma low_bandwidth_cap_lost:
  assumes "q_preset q = P_LowBandwidth" "q_fps q = 0" "ad_min (adapter_new q w h t) * 2 \<le> ad_max (adapter_new q w h t)"
  shows "fps_cap q = 30" "t_fps (ad_target (adapter_new q w h t)) = 30"
    "t_fps (ad_target (improve (adapter_new q w h t))) = 60"
proof -
  show c: "fps_cap q = 30" using assms(1,2) by (simp add: fps_cap_def)
  have f: "fps_start 30 = 1" by (simp add: fps_start_def FPS_STEPS_def upt_rec)
  show "t_fps (ad_target (adapter_new q w h t)) = 30" by (simp add: ad_target_def c f FPS_STEPS_def)
  have "auto_fps (adapter_new q w h t)" using assms(1,2) by (simp add: auto_fps_def)
  then have "improve (adapter_new q w h t) = (adapter_new q w h t)\<lparr>ad_fps_idx := 0\<rparr>"
    using assms(3) by (simp add: improve_def c f)
  then show "t_fps (ad_target (improve (adapter_new q w h t))) = 60"
    by (simp add: ad_target_def FPS_STEPS_def)
qed

text \<open>A fixed bitrate below 300 kbit/s is raised to 300 by congestion.\<close>

lemma congestion_raises_fixed_bitrate:
  assumes "q_bitrate_kbps q = 100" "q_fps q = 0" "q_preset q = P_Auto"
  shows "ad_bitrate (adapter_new q w h t) = 100" "ad_bitrate (degrade (adapter_new q w h t)) = 300"
proof -
  have "fps_cap q = 60" using assms by (simp add: fps_cap_def)
  then show "ad_bitrate (adapter_new q w h t) = 100" "ad_bitrate (degrade (adapter_new q w h t)) = 300"
    using assms by (simp_all add: degrade_def adapter_new_def auto_bitrate_def auto_fps_def fps_start_60
        FPS_STEPS_def Let_def)
qed

section \<open>The bulk governor\<close>

lemma governor_bounded: "MIN_RATE \<le> fst (gv_update g rtt) \<and> fst (gv_update g rtt) \<le> MAX_RATE"
  using clamp_bounds [of MIN_RATE MAX_RATE] by (simp add: gv_update_def Let_def MIN_RATE_def MAX_RATE_def)

end
