(* ===== verification/Injector.thy ===== *)
theory Injector
  imports Peer
begin

text \<open>
  Keyboard and mouse injection, \<open>crates/input/src/injector.rs\<close>. A Windows flag word is the set of the
  named flags it is made of; \<open>SendInput\<close> is the list of the records passed to it. The theory shows
  that the bookkeeping of what is held is exact for a system that does what the records say, so that
  releasing leaves nothing held, and that positions are mapped monotonically into the desktop.
\<close>

section \<open>Records\<close>

datatype mouse_flag =
    ME_Move | ME_Absolute | ME_VirtualDesk | ME_LeftDown | ME_LeftUp | ME_RightDown | ME_RightUp
  | ME_MiddleDown | ME_MiddleUp | ME_XDown | ME_XUp | ME_Wheel | ME_HWheel

datatype key_flag = KE_Scancode | KE_ExtendedKey | KE_KeyUp | KE_Unicode

datatype os_input =
    OS_Mouse "mouse_flag set" i32 i32 u32
  | OS_Key u16 "key_flag set"

section \<open>Positions\<close>

record virtual_screen =
  vs_x :: i32
  vs_y :: i32
  vs_w :: i32
  vs_h :: i32

definition smax :: "i32 \<Rightarrow> i32 \<Rightarrow> i32" where
  "smax a b = (if sint a < sint b then b else a)"

text \<open>\<open>VirtualScreen::current\<close> over the system's metrics.\<close>

definition screen_current :: "i32 \<Rightarrow> i32 \<Rightarrow> i32 \<Rightarrow> i32 \<Rightarrow> virtual_screen" where
  "screen_current x y w h = \<lparr>vs_x = x, vs_y = y, vs_w = smax w 1, vs_h = smax h 1\<rparr>"

text \<open>\<open>f64::round\<close> rounds halves away from zero; \<open>as i32\<close> then \<open>clamp\<close> is a clamp of the integer.\<close>

definition round_away :: "rat \<Rightarrow> int" where
  "round_away x = (if x \<ge> 0 then floor (x + 1 / 2) else - floor (1 / 2 - x))"

definition to_abs :: "rat \<Rightarrow> int \<Rightarrow> int \<Rightarrow> int" where
  "to_abs p origin extent =
     max 0 (min 65535 (round_away (r64 (r64 (r64 (p - of_int origin) * 65535) / of_int (max (extent - 1) 1)))))"

definition to_pixel :: "u16 \<Rightarrow> i32 \<Rightarrow> u32 \<Rightarrow> rat" where
  "to_pixel n origin extent =
     r64 (of_int (sint origin) + r64 (r64 (of_nat (unat n) / 65535) * of_nat (unat (sat_sub extent 1))))"

definition to_virtual_abs :: "u16 \<Rightarrow> u16 \<Rightarrow> display_info \<Rightarrow> virtual_screen \<Rightarrow> int \<times> int" where
  "to_virtual_abs nx ny d v =
     (to_abs (to_pixel nx (d_x d) (d_width d)) (sint (vs_x v)) (sint (vs_w v)),
      to_abs (to_pixel ny (d_y d) (d_height d)) (sint (vs_y v)) (sint (vs_h v)))"

section \<open>The injector\<close>

fun button_flags :: "mouse_button \<Rightarrow> bool \<Rightarrow> mouse_flag set \<times> u32" where
  "button_flags B_Left True = ({ME_LeftDown}, 0)"
| "button_flags B_Left False = ({ME_LeftUp}, 0)"
| "button_flags B_Right True = ({ME_RightDown}, 0)"
| "button_flags B_Right False = ({ME_RightUp}, 0)"
| "button_flags B_Middle True = ({ME_MiddleDown}, 0)"
| "button_flags B_Middle False = ({ME_MiddleUp}, 0)"
| "button_flags B_Back True = ({ME_XDown}, 1)"
| "button_flags B_Back False = ({ME_XUp}, 1)"
| "button_flags B_Forward True = ({ME_XDown}, 2)"
| "button_flags B_Forward False = ({ME_XUp}, 2)"

text \<open>The hash sets are lists without duplicates, in any order.\<close>

record injector =
  in_keys :: "(u16 \<times> bool) list"
  in_buttons :: "u8 list"

definition set_insert :: "'a \<Rightarrow> 'a list \<Rightarrow> 'a list" where
  "set_insert x xs = (if x \<in> set xs then xs else x # xs)"

definition injector_new :: injector where
  "injector_new = \<lparr>in_keys = [], in_buttons = []\<rparr>"

fun button_id :: "mouse_button \<Rightarrow> u8" where
  "button_id B_Left = 0"
| "button_id B_Right = 1"
| "button_id B_Middle = 2"
| "button_id B_Back = 3"
| "button_id B_Forward = 4"

definition button_of :: "u8 \<Rightarrow> mouse_button" where
  "button_of b = (if b = button_id B_Left then B_Left else if b = button_id B_Right then B_Right
     else if b = button_id B_Middle then B_Middle else if b = button_id B_Back then B_Back else B_Forward)"

definition mouse_rec :: "mouse_flag set \<Rightarrow> i32 \<Rightarrow> i32 \<Rightarrow> u32 \<Rightarrow> os_input" where
  "mouse_rec f dx dy data = OS_Mouse f dx dy data"

definition key_up_rec :: "u16 \<times> bool \<Rightarrow> os_input" where
  "key_up_rec k = OS_Key (fst k) ({KE_Scancode, KE_KeyUp} \<union> (if snd k then {KE_ExtendedKey} else {}))"

definition button_rec :: "mouse_button \<Rightarrow> bool \<Rightarrow> os_input" where
  "button_rec b down = (let (f, data) = button_flags b down in mouse_rec f 0 0 data)"

definition release_records :: "injector \<Rightarrow> os_input list \<times> injector" where
  "release_records i =
     (map key_up_rec (in_keys i) @ map (\<lambda>b. button_rec (button_of b) False) (in_buttons i),
      i\<lparr>in_keys := [], in_buttons := []\<rparr>)"

definition utf16 :: "uchar \<Rightarrow> u16 list" where
  "utf16 c = (if c < 65536 then [of_nat c]
     else [of_nat (0xD800 + (c - 65536) div 1024), of_nat (0xDC00 + (c - 65536) mod 1024)])"

definition key_rec :: "u16 \<Rightarrow> bool \<Rightarrow> bool \<Rightarrow> os_input" where
  "key_rec scan ext down =
     OS_Key scan ({KE_Scancode} \<union> (if ext then {KE_ExtendedKey} else {}) \<union> (if down then {} else {KE_KeyUp}))"

definition inj_build :: "injector \<Rightarrow> input_event \<Rightarrow> display_info \<Rightarrow> virtual_screen \<Rightarrow> os_input list \<times> injector" where
  "inj_build i ev d v =
     (case ev of
        MouseMove x y \<Rightarrow>
          (let (ax, ay) = to_virtual_abs x y d v
           in ([mouse_rec {ME_Move, ME_Absolute, ME_VirtualDesk} (of_int ax) (of_int ay) 0], i))
      | MouseButton b down \<Rightarrow>
          ([button_rec b down],
           i\<lparr>in_buttons := (if down then set_insert (button_id b) else removeAll (button_id b)) (in_buttons i)\<rparr>)
      | Wheel dx dy \<Rightarrow>
          ((if dy \<noteq> 0 then [mouse_rec {ME_Wheel} 0 0 (scast (scast dy :: i32))] else []) @
           (if dx \<noteq> 0 then [mouse_rec {ME_HWheel} 0 0 (scast (scast dx :: i32))] else []), i)
      | Key scan ext down \<Rightarrow>
          (if scan = 0 \<or> scan > 0xff then ([], i)
           else ([key_rec scan ext down],
                 i\<lparr>in_keys := (if down then set_insert (scan, ext) else removeAll (scan, ext)) (in_keys i)\<rparr>))
      | TextInput t \<Rightarrow>
          (concat (map (\<lambda>u. [OS_Key u {KE_Unicode}, OS_Key u {KE_Unicode, KE_KeyUp}]) (concat (map utf16 t))), i)
      | ReleaseAll \<Rightarrow> release_records i)"

definition held_count :: "injector \<Rightarrow> nat" where
  "held_count i = length (in_keys i) + length (in_buttons i)"

text \<open>What a sink is asked to do; the records it sends for it.\<close>

datatype sink_call = SC_Apply input_event display_info | SC_ReleaseAll

definition inj_call :: "injector \<Rightarrow> virtual_screen \<Rightarrow> sink_call \<Rightarrow> os_input list \<times> injector" where
  "inj_call i v c = (case c of SC_Apply ev d \<Rightarrow> inj_build i ev d v | SC_ReleaseAll \<Rightarrow> release_records i)"

fun inj_calls :: "injector \<Rightarrow> (virtual_screen \<times> sink_call) list \<Rightarrow> os_input list \<times> injector" where
  "inj_calls i [] = ([], i)"
| "inj_calls i ((v, c) # cs) =
     (let (r, i1) = inj_call i v c; (rs, i2) = inj_calls i1 cs in (r @ rs, i2))"

section \<open>What the system holds\<close>

text \<open>
  The documented meaning of the records: a scancode record without the key-up flag presses the key,
  with it releases it, and the extended flag tells the two keys of a scancode apart; the button flags
  press and release the buttons, the data word telling the two X buttons apart.
\<close>

type_synonym held = "(u16 \<times> bool) set \<times> mouse_button set"

definition x_button :: "u32 \<Rightarrow> mouse_button" where
  "x_button data = (if data = 1 then B_Back else B_Forward)"

definition pressed_by :: "mouse_flag set \<Rightarrow> u32 \<Rightarrow> mouse_button set" where
  "pressed_by f data = (if ME_LeftDown \<in> f then {B_Left} else {}) \<union> (if ME_RightDown \<in> f then {B_Right} else {}) \<union>
     (if ME_MiddleDown \<in> f then {B_Middle} else {}) \<union> (if ME_XDown \<in> f then {x_button data} else {})"

definition released_by :: "mouse_flag set \<Rightarrow> u32 \<Rightarrow> mouse_button set" where
  "released_by f data = (if ME_LeftUp \<in> f then {B_Left} else {}) \<union> (if ME_RightUp \<in> f then {B_Right} else {}) \<union>
     (if ME_MiddleUp \<in> f then {B_Middle} else {}) \<union> (if ME_XUp \<in> f then {x_button data} else {})"

fun os_step :: "os_input \<Rightarrow> held \<Rightarrow> held" where
  "os_step (OS_Mouse f _ _ data) (ks, bs) = (ks, bs - released_by f data \<union> pressed_by f data)"
| "os_step (OS_Key scan f) (ks, bs) =
     (if KE_Unicode \<in> f \<or> KE_Scancode \<notin> f then (ks, bs)
      else let k = (scan, KE_ExtendedKey \<in> f) in (if KE_KeyUp \<in> f then ks - {k} else insert k ks, bs))"

definition os_run :: "os_input list \<Rightarrow> held \<Rightarrow> held" where
  "os_run rs h = fold os_step rs h"

definition held_of :: "injector \<Rightarrow> held" where
  "held_of i = (set (in_keys i), button_of ` set (in_buttons i))"

section \<open>Nothing stays held\<close>

lemma os_run_simps [simp]:
  "os_run [] h = h" "os_run (r # rs) h = os_run rs (os_step r h)" "os_run (rs @ ss) h = os_run ss (os_run rs h)"
  by (simp_all add: os_run_def)

lemma button_of_id [simp]: "button_of (button_id b) = b"
  by (cases b) (simp_all add: button_of_def)

lemma set_set_insert [simp]: "set (set_insert x xs) = insert x (set xs)"
  by (auto simp: set_insert_def)

lemma button_rec_step [simp]:
  "os_step (button_rec b down) (ks, bs) = (ks, if down then insert b bs else bs - {b})"
  by (cases b; cases down)
    (simp_all add: button_rec_def mouse_rec_def pressed_by_def released_by_def x_button_def)

lemma key_up_step [simp]: "os_step (key_up_rec k) (ks, bs) = (ks - {k}, bs)"
  by (cases k) (simp add: key_up_rec_def Let_def)

lemma os_run_key_ups: "os_run (map key_up_rec ks) (K, B) = (K - set ks, B)"
  by (induction ks arbitrary: K) auto

lemma os_run_button_ups: "os_run (map (\<lambda>b. button_rec (button_of b) False) bs) (K, B) = (K, B - button_of ` set bs)"
  by (induction bs arbitrary: B) auto

lemma os_run_release:
  "os_run (fst (release_records i)) (K, B) = (K - fst (held_of i), B - snd (held_of i))"
  by (simp add: release_records_def os_run_key_ups os_run_button_ups held_of_def)

lemma os_run_text:
  "os_run (concat (map (\<lambda>u. [OS_Key u {KE_Unicode}, OS_Key u {KE_Unicode, KE_KeyUp}]) us)) h = h"
proof -
  have "os_step (OS_Key u (insert KE_Unicode f)) h = h" for u f h by (cases h) simp
  then show ?thesis by (induction us) simp_all
qed

definition inj_ok :: "injector \<Rightarrow> bool" where
  "inj_ok i \<longleftrightarrow> (\<forall>b \<in> set (in_buttons i). button_id (button_of b) = b)"

lemma inj_ok_new [simp]: "inj_ok injector_new"
  by (simp add: inj_ok_def injector_new_def)

text \<open>What the system holds beyond what it held before is what the injector remembers.\<close>

definition tracks :: "held \<Rightarrow> injector \<Rightarrow> held \<Rightarrow> bool" where
  "tracks h0 i h \<longleftrightarrow> fst (held_of i) \<subseteq> fst h \<and> fst h \<subseteq> fst (held_of i) \<union> fst h0 \<and>
     snd (held_of i) \<subseteq> snd h \<and> snd h \<subseteq> snd (held_of i) \<union> snd h0"

lemma removeAll_buttons:
  assumes "inj_ok i"
  shows "button_of ` set (removeAll (button_id b) (in_buttons i)) = button_of ` set (in_buttons i) - {b}"
  using assms by (auto simp: inj_ok_def)

lemma inj_button:
  assumes "inj_ok i"
  shows "inj_ok (snd (inj_build i (MouseButton b down) d v))"
    "tracks h0 i h \<Longrightarrow> tracks h0 (snd (inj_build i (MouseButton b down) d v))
       (os_run (fst (inj_build i (MouseButton b down) d v)) h)"
proof -
  show "inj_ok (snd (inj_build i (MouseButton b down) d v))"
    using assms by (auto simp: inj_ok_def inj_build_def)
  show "tracks h0 (snd (inj_build i (MouseButton b down) d v)) (os_run (fst (inj_build i (MouseButton b down) d v)) h)"
    if "tracks h0 i h"
    using that removeAll_buttons [OF assms, of b]
    by (cases h; cases down) (auto simp: inj_build_def tracks_def held_of_def)
qed

lemma key_rec_step [simp]:
  "os_step (key_rec scan ext down) (ks, bs) = ((if down then insert (scan, ext) ks else ks - {(scan, ext)}), bs)"
  by (cases ext; cases down) (simp_all add: key_rec_def Let_def)

lemma inj_key:
  assumes "inj_ok i"
  shows "inj_ok (snd (inj_build i (Key scan ext down) d v))"
    "tracks h0 i h \<Longrightarrow> tracks h0 (snd (inj_build i (Key scan ext down) d v))
       (os_run (fst (inj_build i (Key scan ext down) d v)) h)"
proof -
  show "inj_ok (snd (inj_build i (Key scan ext down) d v))"
    using assms by (simp add: inj_ok_def inj_build_def)
  show "tracks h0 (snd (inj_build i (Key scan ext down) d v)) (os_run (fst (inj_build i (Key scan ext down) d v)) h)"
    if "tracks h0 i h"
  proof (cases "scan = 0 \<or> scan > 0xff")
    case True
    then show ?thesis using that by (simp add: inj_build_def)
  next
    case False
    obtain ks bs where "h = (ks, bs)" by force
    then show ?thesis using False that
      by (cases down) (auto simp: inj_build_def tracks_def held_of_def)
  qed
qed

lemma inj_call_ok:
  assumes ok: "inj_ok i"
  shows "inj_ok (snd (inj_call i v c))"
    and "tracks h0 i h \<Longrightarrow> tracks h0 (snd (inj_call i v c)) (os_run (fst (inj_call i v c)) h)"
proof -
  have r: "inj_ok (snd (release_records i)) \<and>
      (tracks h0 i h \<longrightarrow> tracks h0 (snd (release_records i)) (os_run (fst (release_records i)) h))"
    using os_run_release [of i "fst h" "snd h"]
    by (auto simp: inj_ok_def release_records_def tracks_def held_of_def)
  have "inj_ok (snd (inj_call i v c)) \<and>
      (tracks h0 i h \<longrightarrow> tracks h0 (snd (inj_call i v c)) (os_run (fst (inj_call i v c)) h))"
  proof (cases c)
    case (SC_Apply ev d)
    show ?thesis
    proof (cases ev)
      case (MouseButton b down)
      then show ?thesis using inj_button [OF ok] SC_Apply by (simp add: inj_call_def)
    next
      case (Key scan ext down)
      then show ?thesis using inj_key [OF ok] SC_Apply by (simp add: inj_call_def)
    next
      case ReleaseAll
      then show ?thesis using r SC_Apply by (simp add: inj_call_def inj_build_def)
    next
      case (TextInput t)
      then show ?thesis using ok SC_Apply by (simp add: inj_call_def inj_build_def os_run_text)
    next
      case (MouseMove x y)
      then show ?thesis using ok SC_Apply
        by (cases h) (simp add: inj_call_def inj_build_def mouse_rec_def pressed_by_def released_by_def split: prod.splits)
    next
      case (Wheel dx dy)
      then show ?thesis using ok SC_Apply
        by (cases h) (simp add: inj_call_def inj_build_def mouse_rec_def pressed_by_def released_by_def)
    qed
  next
    case SC_ReleaseAll
    then show ?thesis using r by (simp add: inj_call_def)
  qed
  then show "inj_ok (snd (inj_call i v c))"
    "tracks h0 i h \<Longrightarrow> tracks h0 (snd (inj_call i v c)) (os_run (fst (inj_call i v c)) h)" by auto
qed

lemma inj_calls_ok:
  "inj_ok i \<Longrightarrow> inj_ok (snd (inj_calls i cs)) \<and>
     (tracks h0 i h \<longrightarrow> tracks h0 (snd (inj_calls i cs)) (os_run (fst (inj_calls i cs)) h))"
proof (induction cs arbitrary: i h)
  case (Cons x cs)
  obtain v c where x: "x = (v, c)" by force
  obtain r i1 where c: "inj_call i v c = (r, i1)" by force
  obtain rs i2 where cs: "inj_calls i1 cs = (rs, i2)" by force
  have "inj_ok i1" "tracks h0 i h \<Longrightarrow> tracks h0 i1 (os_run r h)"
    using inj_call_ok(1) [OF Cons.prems, of v c] inj_call_ok(2) [OF Cons.prems, of h0 h v c] c by simp_all
  then show ?case using Cons.IH [of i1 "os_run r h"] x c cs by simp
qed simp

text \<open>
  C26. Nothing stays held. After any sequence of injected events and releases, the keys and buttons
  that the records sent so far hold down are exactly those the injector remembers; and releasing
  lets go of every one of them, whatever the user held before: no key or button is down that was not
  already, and the injector remembers nothing.
\<close>

theorem nothing_stays_held:
  assumes "inj_calls injector_new cs = (rs, i)" and "release_records i = (out, j)"
  shows "os_run rs ({}, {}) = held_of i \<and> fst (os_run (rs @ out) (ks, bs)) \<subseteq> ks \<and>
    snd (os_run (rs @ out) (ks, bs)) \<subseteq> bs \<and> held_count j = 0"
proof -
  have t: "tracks (K, B) i (os_run rs (K, B))" for K B
    using inj_calls_ok [OF inj_ok_new, of cs "(K, B)" "(K, B)"] assms(1)
    by (auto simp: tracks_def held_of_def injector_new_def)
  have 1: "os_run rs ({}, {}) = held_of i" using t [of "{}" "{}"] by (auto simp: tracks_def intro: prod_eqI)
  have "os_run out (os_run rs (ks, bs)) =
      (fst (os_run rs (ks, bs)) - fst (held_of i), snd (os_run rs (ks, bs)) - snd (held_of i))"
    using os_run_release [of i "fst (os_run rs (ks, bs))" "snd (os_run rs (ks, bs))"] assms(2) by simp
  then have 2: "fst (os_run (rs @ out) (ks, bs)) \<subseteq> ks" "snd (os_run (rs @ out) (ks, bs)) \<subseteq> bs"
    using t [of ks bs] by (auto simp: tracks_def)
  have "held_count j = 0" using assms(2) by (auto simp: release_records_def held_count_def)
  then show ?thesis using 1 2 by blast
qed

text \<open>The display and screen of the witnesses.\<close>

definition some_display :: display_info where
  "some_display = \<lparr>d_index = 0, d_name = [], d_width = 1920, d_height = 1080, d_x = 0, d_y = 0, d_primary = True\<rparr>"

definition some_screen :: virtual_screen where
  "some_screen = screen_current 0 0 3840 1080"

theorem nothing_stays_held_witness:
  "fst (os_run (fst (inj_calls injector_new [(some_screen, SC_Apply (Key 0x1d False True) some_display),
      (some_screen, SC_Apply (MouseButton B_Back True) some_display)]) @
      [key_up_rec (0x1d, False), button_rec B_Back False]) ({}, {})) = {}"
proof -
  let ?cs = "[(some_screen, SC_Apply (Key 0x1d False True) some_display),
      (some_screen, SC_Apply (MouseButton B_Back True) some_display)]"
  let ?i = "\<lparr>in_keys = [(0x1d, False)], in_buttons = [3]\<rparr>"
  have c: "inj_calls injector_new ?cs = ([key_rec 0x1d False True, button_rec B_Back True], ?i)"
    by (simp add: inj_call_def inj_build_def injector_new_def set_insert_def)
  have r: "release_records ?i = ([key_up_rec (0x1d, False), button_rec B_Back False], \<lparr>in_keys = [], in_buttons = []\<rparr>)"
    by (simp add: release_records_def button_of_def)
  show ?thesis using nothing_stays_held [OF c r, of "{}" "{}"] c by (simp del: os_run_simps)
qed

section \<open>Positions\<close>

lemma round_away_mono: "x \<le> y \<Longrightarrow> round_away x \<le> round_away y"
proof -
  assume le: "x \<le> y"
  have n: "round_away z \<le> 0" if "z < 0" for z
    using that floor_mono [of 0 "1 / 2 - z"] by (simp add: round_away_def)
  have p: "0 \<le> round_away z" if "0 \<le> z" for z
    using that floor_mono [of 0 "z + 1 / 2"] by (simp add: round_away_def)
  show ?thesis
  proof (cases "0 \<le> x \<or> y < 0")
    case True
    then show ?thesis using le floor_mono [of "x + 1 / 2" "y + 1 / 2"] floor_mono [of "1 / 2 - y" "1 / 2 - x"]
      by (auto simp: round_away_def)
  next
    case False
    then show ?thesis using n [of x] p [of y] by simp
  qed
qed

lemma to_abs_range: "0 \<le> to_abs p o' e" "to_abs p o' e \<le> 65535"
  by (simp_all add: to_abs_def)

lemma to_abs_mono: "p \<le> p' \<Longrightarrow> to_abs p o' e \<le> to_abs p' o' e"
  unfolding to_abs_def
  by (intro max.mono min.mono order_refl round_away_mono r64_mono divide_right_mono mult_right_mono) auto

lemma to_pixel_mono: "unat m \<le> unat n \<Longrightarrow> to_pixel m x e \<le> to_pixel n x e"
  unfolding to_pixel_def
  by (intro r64_mono add_left_mono mult_right_mono divide_right_mono) (auto simp del: of_nat_unat)

lemma to_virtual_abs_mono:
  assumes "unat x \<le> unat x'" and "unat y \<le> unat y'"
  shows "fst (to_virtual_abs x y d v) \<le> fst (to_virtual_abs x' y' d v)"
    "snd (to_virtual_abs x y d v) \<le> snd (to_virtual_abs x' y' d v)"
  using assms by (simp_all add: to_virtual_abs_def to_abs_mono to_pixel_mono)

end
