(* ===== verification/Input_Thread.thy ===== *)
theory Input_Thread
  imports Injector
begin

text \<open>
  The host's input thread, \<open>crates/session/src/input_thread.rs\<close>: the state it shares with the session
  loop and the steps of its loop. The thread runs beside the session loop, so each access to the shared
  state is a step of its own: taking the waiting events, deciding whether the next one is allowed, and
  applying it are separate, and other threads may change the permissions in between.

  The ordinary injector is \<open>Injector\<close>; an elevated path is a handle, and the events written to it
  are recorded.
\<close>

section \<open>Shared state\<close>

record input_shared =
  sh_mouse :: bool
  sh_keyboard :: bool
  sh_displays :: "display_info list"
  sh_active :: u32
  sh_stale_moves :: u64
  sh_queue_us :: u32
  sh_apply_us :: u32
  sh_elevated :: "nat option"
  sh_elevated_lost :: bool

definition shared_new :: "permissions \<Rightarrow> display_info list \<Rightarrow> u32 \<Rightarrow> input_shared" where
  "shared_new p ds act = \<lparr>sh_mouse = p_mouse p, sh_keyboard = p_keyboard p, sh_displays = ds, sh_active = act,
     sh_stale_moves = 0, sh_queue_us = 0, sh_apply_us = 0, sh_elevated = None, sh_elevated_lost = False\<rparr>"

definition set_elevated :: "input_shared \<Rightarrow> nat option \<Rightarrow> input_shared" where
  "set_elevated s e = s\<lparr>sh_elevated := e, sh_elevated_lost := False\<rparr>"

definition take_elevated_lost :: "input_shared \<Rightarrow> bool \<times> input_shared" where
  "take_elevated_lost s = (sh_elevated_lost s, s\<lparr>sh_elevated_lost := False\<rparr>)"

definition set_permissions :: "input_shared \<Rightarrow> permissions \<Rightarrow> input_shared" where
  "set_permissions s p = s\<lparr>sh_mouse := p_mouse p, sh_keyboard := p_keyboard p\<rparr>"

definition set_displays :: "input_shared \<Rightarrow> display_info list \<Rightarrow> u32 \<Rightarrow> input_shared" where
  "set_displays s ds act = s\<lparr>sh_displays := ds, sh_active := act\<rparr>"

definition set_active :: "input_shared \<Rightarrow> u32 \<Rightarrow> input_shared" where
  "set_active s act = s\<lparr>sh_active := act\<rparr>"

section \<open>Events\<close>

record inbound =
  ib_seq :: u32
  ib_ev :: input_event
  ib_arrived :: instant

definition ev_move :: "input_event \<Rightarrow> bool" where
  "ev_move e = (case e of MouseMove _ _ \<Rightarrow> True | _ \<Rightarrow> False)"

definition is_mouse :: "input_event \<Rightarrow> bool" where
  "is_mouse e = (case e of MouseMove _ _ \<Rightarrow> True | MouseButton _ _ \<Rightarrow> True | Wheel _ _ \<Rightarrow> True | _ \<Rightarrow> False)"

definition is_keyboard :: "input_event \<Rightarrow> bool" where
  "is_keyboard e = (case e of Key _ _ _ \<Rightarrow> True | TextInput _ \<Rightarrow> True | _ \<Rightarrow> False)"

definition seq_before :: "u32 \<Rightarrow> u32 \<Rightarrow> bool" where
  "seq_before a b \<longleftrightarrow> sint (a - b) < 0"

text \<open>\<open>old * 7 + sample\<close> wraps in a release build.\<close>

definition smooth :: "u32 \<Rightarrow> u32 \<Rightarrow> u32" where
  "smooth old smp = (if old = 0 then smp else (old * 7 + smp) div 8)"

definition coalesce_step :: "inbound list \<times> nat \<Rightarrow> inbound \<Rightarrow> inbound list \<times> nat" where
  "coalesce_step = (\<lambda>(out, dropped) it.
     if ev_move (ib_ev it) \<and> out \<noteq> [] \<and> ev_move (ib_ev (last out))
     then (butlast out @ [it], dropped + 1) else (out @ [it], dropped))"

definition coalesce_moves :: "inbound list \<Rightarrow> inbound list \<times> nat" where
  "coalesce_moves items = foldl coalesce_step ([], 0) items"

definition allowed :: "input_shared \<Rightarrow> input_event \<Rightarrow> bool" where
  "allowed s e = (if is_mouse e then sh_mouse s else if is_keyboard e then sh_keyboard s
     else (case e of ReleaseAll \<Rightarrow> True | _ \<Rightarrow> False))"

section \<open>The thread\<close>

record input_world =
  iw_shared :: input_shared
  iw_route :: "inbound list"
  iw_batch :: "inbound list"
  iw_checked :: "(inbound \<times> bool) option"
  iw_newest :: "(u32 \<times> u32 \<times> u32) option"
  iw_last_move :: u32
  iw_last_ack :: instant
  iw_applied_seq :: u32
  iw_stop :: bool
  iw_done :: bool
  iw_sink :: injector
  iw_records :: "os_input list"
  iw_elev :: "(nat \<times> input_event \<times> display_info) list"
  iw_acks :: "msg list"

definition input_spawn :: "input_shared \<Rightarrow> instant \<Rightarrow> input_world" where
  "input_spawn s now = \<lparr>iw_shared = s, iw_route = [], iw_batch = [], iw_checked = None, iw_newest = None,
     iw_last_move = 0, iw_last_ack = now - secs 1, iw_applied_seq = 0, iw_stop = False, iw_done = False,
     iw_sink = injector_new, iw_records = [], iw_elev = [], iw_acks = []\<rparr>"

definition route_send :: "input_world \<Rightarrow> inbound \<Rightarrow> input_world" where
  "route_send w it = w\<lparr>iw_route := iw_route w @ [it]\<rparr>"

definition at_recv :: "input_world \<Rightarrow> bool" where
  "at_recv w \<longleftrightarrow> iw_batch w = [] \<and> iw_checked w = None \<and> iw_newest w = None \<and> \<not> iw_done w"

text \<open>Waking up with something in the route: the backlog, coalesced, is the next batch.\<close>

definition in_wake :: "input_world \<Rightarrow> input_world" where
  "in_wake w =
     (if at_recv w \<and> iw_route w \<noteq> []
      then (case coalesce_moves (iw_route w) of (batch, dropped) \<Rightarrow>
              w\<lparr>iw_route := [], iw_batch := batch,
                iw_shared := (iw_shared w)\<lparr>sh_stale_moves := sh_stale_moves (iw_shared w) + of_nat dropped\<rparr>\<rparr>)
      else w)"

text \<open>The next event of the batch: an outdated movement is dropped, anything else is checked.\<close>

definition in_check :: "input_world \<Rightarrow> input_world" where
  "in_check w =
     (case (iw_checked w, iw_batch w) of
        (None, it # rest) \<Rightarrow>
          (if ev_move (ib_ev it) \<and> seq_before (ib_seq it) (iw_last_move w)
           then w\<lparr>iw_batch := rest,
                  iw_shared := (iw_shared w)\<lparr>sh_stale_moves := sh_stale_moves (iw_shared w) + 1\<rparr>\<rparr>
           else w\<lparr>iw_batch := rest, iw_checked := Some (it, allowed (iw_shared w) (ib_ev it)),
                  iw_last_move := (if ev_move (ib_ev it) then ib_seq it else iw_last_move w)\<rparr>)
      | _ \<Rightarrow> w)"

definition sink_do :: "input_world \<Rightarrow> virtual_screen \<Rightarrow> sink_call \<Rightarrow> input_world" where
  "sink_do w v c = (case inj_call (iw_sink w) v c of (rs, i) \<Rightarrow> w\<lparr>iw_sink := i, iw_records := iw_records w @ rs\<rparr>)"

definition elev_do :: "input_world \<Rightarrow> nat \<Rightarrow> input_event \<Rightarrow> display_info \<Rightarrow> input_world" where
  "elev_do w h ev d = w\<lparr>iw_elev := iw_elev w @ [(h, ev, d)]\<rparr>"

definition drop_dead :: "(nat \<Rightarrow> bool) \<Rightarrow> input_world \<Rightarrow> input_world" where
  "drop_dead alive w =
     (case sh_elevated (iw_shared w) of
        Some h \<Rightarrow> if alive h then w
                  else w\<lparr>iw_shared := (iw_shared w)\<lparr>sh_elevated := None, sh_elevated_lost := True\<rparr>\<rparr>
      | None \<Rightarrow> w)"

definition active_display :: "input_shared \<Rightarrow> display_info option" where
  "active_display s = (if unat (sh_active s) < length (sh_displays s)
     then Some (sh_displays s ! unat (sh_active s)) else None)"

definition apply_event :: "(nat \<Rightarrow> bool) \<Rightarrow> virtual_screen \<Rightarrow> input_event \<Rightarrow> input_world \<Rightarrow> input_world" where
  "apply_event alive v ev w =
     (let d = active_display (iw_shared w); w1 = drop_dead alive w; e = sh_elevated (iw_shared w1)
      in case ev of
           ReleaseAll \<Rightarrow>
             sink_do (case (e, d) of (Some h, Some d) \<Rightarrow> elev_do w1 h ReleaseAll d | _ \<Rightarrow> w1) v SC_ReleaseAll
         | _ \<Rightarrow> (case (d, e) of
                   (Some d, Some h) \<Rightarrow> elev_do w1 h ev d
                 | (Some d, None) \<Rightarrow> sink_do w1 v (SC_Apply ev d)
                 | _ \<Rightarrow> w1))"

text \<open>Applying the checked event; \<open>took\<close> is the measured time, \<open>now\<close> the clock at the check.\<close>

definition in_apply :: "(nat \<Rightarrow> bool) \<Rightarrow> virtual_screen \<Rightarrow> instant \<Rightarrow> u32 \<Rightarrow> input_world \<Rightarrow> input_world" where
  "in_apply alive v now took w =
     (case iw_checked w of
        None \<Rightarrow> w
      | Some (it, ok) \<Rightarrow>
          (let w1 = (if ok then apply_event alive v (ib_ev it) w else w)\<lparr>iw_checked := None\<rparr>;
               q = of_nat (min (duration_since now (ib_arrived it) div 1000) (2 ^ 32 - 1));
               a = (if ok then took else 0)
           in if ib_seq it = 0 then w1
              else w1\<lparr>iw_applied_seq := ib_seq it, iw_newest := Some (ib_seq it, q, a),
                      iw_shared := (iw_shared w1)\<lparr>sh_queue_us := smooth (sh_queue_us (iw_shared w1)) q,
                                                  sh_apply_us := smooth (sh_apply_us (iw_shared w1)) a\<rparr>\<rparr>))"

text \<open>The end of a batch: the newest sequence number is acknowledged at most every 15 ms.\<close>

definition in_ack :: "instant \<Rightarrow> input_world \<Rightarrow> input_world" where
  "in_ack now w =
     (if iw_batch w = [] \<and> iw_checked w = None
      then (case iw_newest w of
              None \<Rightarrow> w
            | Some (sq, q, a) \<Rightarrow>
                (let w1 = w\<lparr>iw_newest := None\<rparr>
                 in if duration_since now (iw_last_ack w) \<ge> millis 15
                    then w1\<lparr>iw_last_ack := now, iw_acks := iw_acks w @ [M_InputAck sq q a]\<rparr> else w1))
      else w)"

text \<open>A receive that times out with the stop flag set: everything is released and the thread ends.\<close>

definition in_finish :: "virtual_screen \<Rightarrow> input_world \<Rightarrow> input_world" where
  "in_finish v w =
     (if at_recv w \<and> iw_route w = [] \<and> iw_stop w
      then let w1 = sink_do (w\<lparr>iw_done := True\<rparr>) v SC_ReleaseAll
           in case (sh_elevated (iw_shared w1), sh_displays (iw_shared w1)) of
                (Some h, d # _) \<Rightarrow> elev_do w1 h ReleaseAll d
              | _ \<Rightarrow> w1
      else w)"

datatype in_step = I_Wake | I_Check | I_Apply "nat \<Rightarrow> bool" virtual_screen instant u32 | I_Ack instant
  | I_Finish virtual_screen

definition in_step :: "in_step \<Rightarrow> input_world \<Rightarrow> input_world" where
  "in_step x w = (case x of
       I_Wake \<Rightarrow> in_wake w
     | I_Check \<Rightarrow> in_check w
     | I_Apply alive v now took \<Rightarrow> in_apply alive v now took w
     | I_Ack now \<Rightarrow> in_ack now w
     | I_Finish v \<Rightarrow> in_finish v w)"

end
