(* ===== verification/Clip.thy ===== *)
theory Clip
  imports Peer
begin

text \<open>
  Clipboard synchronisation: \<open>ClipboardSync\<close> of \<open>crates/input/src/clipboard.rs\<close> over any backend, and
  the Windows backend of \<open>crates/input/src/system_clipboard.rs\<close> over the system's clipboard, which
  with the PNG codec is a parameter. The theory shows what loop prevention achieves and where it
  swallows a genuine copy.
\<close>

section \<open>The backend trait\<close>

record 'b backend_ops =
  bk_sequence :: "'b \<Rightarrow> u32"
  bk_read :: "'b \<Rightarrow> clipboard_payload option \<times> 'b"
  bk_write :: "'b \<Rightarrow> clipboard_payload \<Rightarrow> (rstr + unit) \<times> 'b"

text \<open>The Windows backend. \<open>os_clipboard\<close> is \<open>arboard\<close> with the system's sequence number.\<close>

type_synonym rgba_image = "nat \<times> nat \<times> u8 list"

record 'o os_clipboard =
  os_sequence :: "'o \<Rightarrow> u32"
  os_get_text :: "'o \<Rightarrow> rstr option"
  os_get_image :: "'o \<Rightarrow> rgba_image option"
  os_set_text :: "'o \<Rightarrow> rstr \<Rightarrow> (rstr + unit) \<times> 'o"
  os_set_image :: "'o \<Rightarrow> rgba_image \<Rightarrow> (rstr + unit) \<times> 'o"
  os_encode_png :: "rgba_image \<Rightarrow> u8 list option"
  os_decode_png :: "u8 list \<Rightarrow> rgba_image option"

record 'o sys_clipboard =
  sy_inner :: 'o
  sy_images :: bool

definition sys_sequence :: "'o os_clipboard \<Rightarrow> 'o sys_clipboard \<Rightarrow> u32" where
  "sys_sequence os c = os_sequence os (sy_inner c)"

definition sys_read :: "'o os_clipboard \<Rightarrow> 'o sys_clipboard \<Rightarrow> clipboard_payload option \<times> 'o sys_clipboard" where
  "sys_read os c =
     (case os_get_text os (sy_inner c) of
        Some t \<Rightarrow> (Some (Clip_Text t), c)
      | None \<Rightarrow>
          (if sy_images c
           then (case os_get_image os (sy_inner c) of
                   None \<Rightarrow> (None, c)
                 | Some img \<Rightarrow> (map_option Clip_Image (os_encode_png os img), c))
           else (None, c)))"

definition sys_write ::
  "'o os_clipboard \<Rightarrow> 'o sys_clipboard \<Rightarrow> clipboard_payload \<Rightarrow> (rstr + unit) \<times> 'o sys_clipboard" where
  "sys_write os c p =
     (case p of
        Clip_Text t \<Rightarrow> (case os_set_text os (sy_inner c) t of (r, i) \<Rightarrow> (r, c\<lparr>sy_inner := i\<rparr>))
      | Clip_Image png \<Rightarrow>
          (if \<not> sy_images c then (Inl (lit ''image clipboard disabled''), c)
           else (case os_decode_png os png of
                   None \<Rightarrow> (Inl (lit ''unsupported image''), c)
                 | Some img \<Rightarrow> (case os_set_image os (sy_inner c) img of (r, i) \<Rightarrow> (r, c\<lparr>sy_inner := i\<rparr>)))))"

definition sys_ops :: "'o os_clipboard \<Rightarrow> 'o sys_clipboard backend_ops" where
  "sys_ops os = \<lparr>bk_sequence = sys_sequence os, bk_read = sys_read os, bk_write = sys_write os\<rparr>"

section \<open>Synchronisation\<close>

record 'b clip_sync =
  cl_backend :: 'b
  cl_last_seq :: u32
  cl_suppressed :: "u8 list option"
  cl_last_sent :: "u8 list option"
  cl_max_bytes :: nat

definition clip_digest :: "(u8 list \<Rightarrow> u8 list) \<Rightarrow> clipboard_payload \<Rightarrow> u8 list" where
  "clip_digest sha p = (case p of Clip_Text t \<Rightarrow> sha (0 # as_bytes t) | Clip_Image i \<Rightarrow> sha (1 # i))"

definition clip_size :: "clipboard_payload \<Rightarrow> nat" where
  "clip_size p = (case p of Clip_Text t \<Rightarrow> str_len t | Clip_Image i \<Rightarrow> length i)"

definition clip_new :: "'b backend_ops \<Rightarrow> 'b \<Rightarrow> nat \<Rightarrow> 'b clip_sync" where
  "clip_new ops b mx = \<lparr>cl_backend = b, cl_last_seq = bk_sequence ops b, cl_suppressed = None,
     cl_last_sent = None, cl_max_bytes = mx\<rparr>"

definition poll_local ::
  "(u8 list \<Rightarrow> u8 list) \<Rightarrow> 'b backend_ops \<Rightarrow> 'b clip_sync \<Rightarrow> clipboard_payload option \<times> 'b clip_sync" where
  "poll_local sha ops c =
     (let sq = bk_sequence ops (cl_backend c)
      in if sq = cl_last_seq c then (None, c)
         else (case bk_read ops (cl_backend c) of
                 (None, b) \<Rightarrow> (None, c\<lparr>cl_last_seq := sq, cl_backend := b\<rparr>)
               | (Some p, b) \<Rightarrow>
                   (let c1 = c\<lparr>cl_last_seq := sq, cl_backend := b\<rparr>; d = clip_digest sha p
                    in if clip_size p = 0 \<or> clip_size p > cl_max_bytes c then (None, c1)
                       else if cl_suppressed c = Some d then (None, c1\<lparr>cl_suppressed := None\<rparr>)
                       else if cl_last_sent c = Some d then (None, c1)
                       else (Some p, c1\<lparr>cl_last_sent := Some d\<rparr>))))"

definition apply_remote ::
  "(u8 list \<Rightarrow> u8 list) \<Rightarrow> 'b backend_ops \<Rightarrow> 'b clip_sync \<Rightarrow> clipboard_payload \<Rightarrow> (rstr + unit) \<times> 'b clip_sync" where
  "apply_remote sha ops c p =
     (if clip_size p > cl_max_bytes c then (Inl (lit ''clipboard content too large''), c)
      else let d = clip_digest sha p; c1 = c\<lparr>cl_suppressed := Some d, cl_last_sent := Some d\<rparr>
           in case bk_write ops (cl_backend c1) p of
                (Inl e, b) \<Rightarrow> (Inl e, c1\<lparr>cl_backend := b\<rparr>)
              | (Inr _, b) \<Rightarrow> (Inr (), c1\<lparr>cl_backend := b, cl_last_seq := bk_sequence ops b\<rparr>))"

section \<open>Loop prevention\<close>

text \<open>
  What happens to the clipboard between two polls: \<open>C_Bump\<close> is a change of the sequence number only,
  \<open>C_Copy\<close> a copy made by the local user. The backend of these lemmas is the clipboard itself:
  sequence number and content, as the tests' \<open>Mock\<close>.
\<close>

record mock =
  mk_seq :: u32
  mk_content :: "clipboard_payload option"

definition mock_ops :: "mock backend_ops" where
  "mock_ops = \<lparr>bk_sequence = mk_seq, bk_read = (\<lambda>b. (mk_content b, b)),
     bk_write = (\<lambda>b p. (Inr (), b\<lparr>mk_seq := mk_seq b + 1, mk_content := Some p\<rparr>))\<rparr>"

text \<open>A poll says something only about the content it has read.\<close>

lemma poll_reports_content:
  assumes "poll_local sha ops c = (Some p, c')"
  shows "bk_sequence ops (cl_backend c) \<noteq> cl_last_seq c" "fst (bk_read ops (cl_backend c)) = Some p"
    "clip_size p \<noteq> 0" "clip_size p \<le> cl_max_bytes c" "cl_last_sent c \<noteq> Some (clip_digest sha p)"
    "cl_last_sent c' = Some (clip_digest sha p)"
  using assms by (auto simp: poll_local_def Let_def split: if_splits option.splits prod.splits)

lemma poll_keeps:
  "cl_max_bytes (snd (poll_local sha ops c)) = cl_max_bytes c"
  "fst (poll_local sha ops c) = None \<Longrightarrow> cl_last_sent (snd (poll_local sha ops c)) = cl_last_sent c"
  by (auto simp: poll_local_def Let_def split: option.splits prod.splits if_splits)

text \<open>The polls of a run: what the outside does to the backend before each.\<close>

fun polls :: "(u8 list \<Rightarrow> u8 list) \<Rightarrow> 'b backend_ops \<Rightarrow> ('b \<Rightarrow> 'b) list \<Rightarrow> 'b clip_sync \<Rightarrow>
    clipboard_payload list \<times> 'b clip_sync" where
  "polls sha ops [] c = ([], c)"
| "polls sha ops (f # fs) c =
     (case poll_local sha ops (c\<lparr>cl_backend := f (cl_backend c)\<rparr>) of (r, c1) \<Rightarrow>
      case polls sha ops fs c1 of (out, c2) \<Rightarrow>
        ((case r of None \<Rightarrow> out | Some p \<Rightarrow> p # out), c2))"

lemma polls_silent:
  assumes "\<And>b q. Q b \<Longrightarrow> fst (bk_read ops b) = Some q \<Longrightarrow> clip_digest sha q = d"
    and "\<And>b. Q b \<Longrightarrow> Q (snd (bk_read ops b))" and "\<And>f b. f \<in> set fs \<Longrightarrow> Q b \<Longrightarrow> Q (f b)"
    and "Q (cl_backend c)" and "cl_last_sent c = Some d"
  shows "fst (polls sha ops fs c) = []"
  using assms(3-)
proof (induction fs arbitrary: c)
  case (Cons f fs)
  let ?c = "c\<lparr>cl_backend := f (cl_backend c)\<rparr>"
  obtain r c1 where p: "poll_local sha ops ?c = (r, c1)" by force
  have q: "Q (f (cl_backend c))" using Cons.prems by simp
  have r: "r = None"
  proof (cases r)
    case (Some x)
    with p have "poll_local sha ops ?c = (Some x, c1)" by simp
    from poll_reports_content [OF this] assms(1) [OF q] Cons.prems(3) show ?thesis by simp
  qed
  have "Q (cl_backend c1)"
    using p q assms(2) [OF q] by (auto simp: poll_local_def Let_def split: if_splits option.splits prod.splits)
  moreover have "cl_last_sent c1 = Some d" using poll_keeps(2) [of sha ops ?c] p r Cons.prems(3) by simp
  ultimately have "fst (polls sha ops fs c1) = []" using Cons.prems(1) by (intro Cons.IH) auto
  then show ?case using p r by (simp split: prod.splits)
qed simp

text \<open>
  Content written because of a remote update is not sent back: however often the system signals a
  change, as long as what it reads back has the digest of what was written, no poll reports anything.
  And an update above the size limit is refused and changes nothing.
\<close>

theorem remote_update_does_not_echo:
  assumes "apply_remote sha ops c p = (r, c')"
    and "\<And>b q. Q b \<Longrightarrow> fst (bk_read ops b) = Some q \<Longrightarrow> clip_digest sha q = clip_digest sha p"
    and "\<And>b. Q b \<Longrightarrow> Q (snd (bk_read ops b))" and "\<And>f b. f \<in> set fs \<Longrightarrow> Q b \<Longrightarrow> Q (f b)"
    and "Q (cl_backend c')"
  shows "(clip_size p > cl_max_bytes c \<longrightarrow> r = Inl (lit ''clipboard content too large'') \<and> c' = c) \<and>
    (clip_size p \<le> cl_max_bytes c \<longrightarrow> fst (polls sha ops fs c') = [])"
proof (rule conjI; rule impI)
  assume "cl_max_bytes c < clip_size p"
  then show "r = Inl (lit ''clipboard content too large'') \<and> c' = c" using assms(1) by (simp add: apply_remote_def)
next
  assume "clip_size p \<le> cl_max_bytes c"
  then have "cl_last_sent c' = Some (clip_digest sha p)"
    using assms(1) by (auto simp: apply_remote_def Let_def split: sum.splits prod.splits)
  then show "fst (polls sha ops fs c') = []" 
    using polls_silent [of Q ops sha "clip_digest sha p" fs c'] assms(2-5) by blast
qed

theorem remote_update_does_not_echo_witness:
  "fst (polls (\<lambda>x. x) mock_ops [\<lambda>b. b\<lparr>mk_seq := mk_seq b + 1\<rparr>, \<lambda>b. b\<lparr>mk_seq := mk_seq b + 1\<rparr>]
     (snd (apply_remote (\<lambda>x. x) mock_ops (clip_new mock_ops \<lparr>mk_seq = 0, mk_content = None\<rparr> 1000) (Clip_Text [120])))) = []"
proof -
  let ?c = "clip_new mock_ops \<lparr>mk_seq = 0, mk_content = None\<rparr> 1000" and ?p = "Clip_Text [120]"
  let ?Q = "\<lambda>b. mk_content b = Some ?p"
  have s: "clip_size ?p \<le> cl_max_bytes ?c" by (simp add: clip_size_def clip_new_def str_len_def utf8_len_def)
  have q: "?Q (cl_backend (snd (apply_remote (\<lambda>x. x) mock_ops ?c ?p)))"
    using s by (simp add: apply_remote_def mock_ops_def clip_new_def Let_def)
  show ?thesis
    by (rule remote_update_does_not_echo [where Q = ?Q, OF prod.collapse [symmetric], THEN conjunct2, THEN mp])
      (use q s in \<open>auto simp: mock_ops_def\<close>)
qed

text \<open>
  A suppression that no notification used up stays: after a remote update the user's copy of
  something else is sent, but copying the remote text again afterwards is not, and the peer keeps
  the older content.
\<close>

lemma later_copy_swallowed:
  assumes "clip_digest sha p \<noteq> clip_digest sha q" and "clip_size p \<noteq> 0" "clip_size q \<noteq> 0"
    and "clip_size p \<le> mx" "clip_size q \<le> mx"
  defines "c \<equiv> snd (apply_remote sha mock_ops (clip_new mock_ops \<lparr>mk_seq = 0, mk_content = None\<rparr> mx) p)"
  shows "fst (polls sha mock_ops
    [\<lambda>b. \<lparr>mk_seq = mk_seq b + 1, mk_content = Some q\<rparr>, \<lambda>b. \<lparr>mk_seq = mk_seq b + 1, mk_content = Some p\<rparr>] c) = [q]"
  using assms(1-5)
  by (simp add: c_def apply_remote_def clip_new_def mock_ops_def poll_local_def Let_def)

end
