(* ===== verification/Host_Session.thy ===== *)
theory Host_Session
  imports Input_Thread Adapt Clip Transfers Handshake
begin

text \<open>
  The host side of an authenticated session, \<open>crates/session/src/host.rs\<close>: what each branch of the
  session loop does with the permissions, the displays, the video thread, the input thread, the
  clipboard and the file manager.

  The loop runs one branch at a time, the input thread beside it. A branch is one step, except that
  changing the permissions is two: the input thread may run between the moment it sees the new flags
  and the moment the release it is owed is queued. What a branch sends to the viewer, to the video thread and to the
  user interface is appended to \<open>ho_sent\<close>, \<open>ho_video\<close> and \<open>ho_events\<close>. A file message whose handling
  never ends makes the result \<open>None\<close>.
\<close>

section \<open>Types of the engine\<close>

datatype link_kind = Link_Direct | Link_Relay

record link_info =
  li_kind :: link_kind
  li_peer :: rstr
  li_protocol :: string

datatype end_reason = PeerClosed | LocalClosed | ConnectionLost | Kicked

record engine_config =
  ec_server_url :: rstr
  ec_cert_pins :: "u8 list list"
  ec_allow_insecure :: bool
  ec_client_version :: rstr
  ec_device_name :: rstr
  ec_download_dir :: path
  ec_ask_before_receiving :: bool
  ec_max_file_size :: u64
  ec_max_transfers :: nat
  ec_temp_password_ttl :: "duration option"
  ec_rotate_after_session :: bool
  ec_direct_enabled :: bool
  ec_relay_fallback :: bool
  ec_incoming_enabled :: bool
  ec_clipboard_images :: bool
  ec_approval_timeout :: duration

definition engine_config_new :: "rstr \<Rightarrow> rstr \<Rightarrow> rstr \<Rightarrow> path \<Rightarrow> engine_config" where
  "engine_config_new version url name dir =
     \<lparr>ec_server_url = url, ec_cert_pins = [], ec_allow_insecure = False, ec_client_version = version,
      ec_device_name = name, ec_download_dir = dir, ec_ask_before_receiving = True,
      ec_max_file_size = DEFAULT_MAX_FILE, ec_max_transfers = 3, ec_temp_password_ttl = None,
      ec_rotate_after_session = True, ec_direct_enabled = True, ec_relay_fallback = True,
      ec_incoming_enabled = True, ec_clipboard_images = True, ec_approval_timeout = secs 60\<rparr>"

datatype video_ctl = VC_Select u32 | VC_Quality quality | VC_Keyframe | VC_Target target | VC_Pause bool
  | VC_Elevated "nat option"

datatype video_event = VE_Stats host_stats | VE_Displays "display_info list" u32 | VE_Failed rstr

datatype host_cmd = HC_SetPermissions permissions | HC_Chat rstr | HC_Kick | HC_ApproveFile u64 bool

datatype host_event =
    HE_ElevationUnavailable
  | HE_Started rstr rstr permissions link_info
  | HE_Permissions permissions
  | HE_Chat u64 u64 rstr u64 bool

section \<open>The session\<close>

record 'b host =
  ho_session :: u64
  ho_viewer_id :: rstr
  ho_perms :: permissions
  ho_max_perms :: permissions
  ho_displays :: "display_info list"
  ho_active :: u32
  ho_quality :: quality
  ho_adapter :: "adapter option"
  ho_governor :: governor
  ho_rtt_ms :: f32
  ho_last_bulk :: u64
  ho_last_dropped :: u64
  ho_last_rx :: instant
  ho_files :: manager
  ho_clip :: "'b clip_sync option"
  ho_guard :: "nat option"
  ho_input :: input_world
  ho_video :: "video_ctl list"
  ho_sent :: "msg list"
  ho_bulk :: "msg list"
  ho_events :: "host_event list"
  ho_bulk_rate :: u64
  ho_mid :: "(permissions \<times> bool) option"
  ho_ended :: "end_reason option"

text \<open>What the surroundings answer during a step.\<close>

record 'b host_env =
  he_now :: instant
  he_now_ms :: u64
  he_sha :: "u8 list \<Rightarrow> u8 list"
  he_clip_ops :: "'b backend_ops"
  he_file :: file_env
  he_begin :: "nat option"
  he_video_dropped :: u64
  he_video_send_us :: u64
  he_bulk_bytes :: u64

definition ho_send :: "'b host \<Rightarrow> msg \<Rightarrow> 'b host" where
  "ho_send s m = s\<lparr>ho_sent := ho_sent s @ [m]\<rparr>"

definition ho_emit :: "'b host \<Rightarrow> host_event \<Rightarrow> 'b host" where
  "ho_emit s e = s\<lparr>ho_events := ho_events s @ [e]\<rparr>"

definition ho_control :: "'b host \<Rightarrow> video_ctl \<Rightarrow> 'b host" where
  "ho_control s c = s\<lparr>ho_video := ho_video s @ [c]\<rparr>"

definition on_shared :: "(input_shared \<Rightarrow> input_shared) \<Rightarrow> 'b host \<Rightarrow> 'b host" where
  "on_shared f s = s\<lparr>ho_input := (ho_input s)\<lparr>iw_shared := f (iw_shared (ho_input s))\<rparr>\<rparr>"

definition release_all :: "'b host \<Rightarrow> instant \<Rightarrow> 'b host" where
  "release_all s now =
     s\<lparr>ho_input := route_send (ho_input s) \<lparr>ib_seq = 0, ib_ev = ReleaseAll, ib_arrived = now\<rparr>\<rparr>"

definition adapter_for :: "quality \<Rightarrow> display_info list \<Rightarrow> u32 \<Rightarrow> instant \<Rightarrow> adapter option" where
  "adapter_for q ds i now =
     (if unat i < length ds then Some (adapter_new q (d_width (ds ! unat i)) (d_height (ds ! unat i)) now) else None)"

definition primary_index :: "display_info list \<Rightarrow> u32" where
  "primary_index ds = of_nat (case find (\<lambda>i. d_primary (ds ! i)) [0..<length ds] of Some i \<Rightarrow> i | None \<Rightarrow> 0)"

definition host_policy :: "engine_config \<Rightarrow> file_policy" where
  "host_policy cfg = \<lparr>fp_side = Side_Host, fp_dir = ec_download_dir cfg, fp_ask = ec_ask_before_receiving cfg,
     fp_max_size = ec_max_file_size cfg, fp_max_active = ec_max_transfers cfg\<rparr>"

definition CLIP_MAX :: nat where
  "CLIP_MAX = 16 * 1024 * 1024"

text \<open>
  The beginning of \<open>run\<close>: without the service the session goes on without elevated control; without a
  screen it ends. \<open>screen\<close> are the displays, \<open>clip\<close> the clipboard backend, \<open>fs\<close> the file system.
\<close>

definition host_elevate :: "permissions \<Rightarrow> nat option \<Rightarrow> permissions \<times> host_event list \<times> nat option" where
  "host_elevate granted elev =
     (if p_elevated granted
      then (case elev of
              Some h \<Rightarrow> (granted, [], Some h)
            | None \<Rightarrow> (granted\<lparr>p_elevated := False\<rparr>, [HE_ElevationUnavailable], None))
      else (granted, [], None))"

definition host_start ::
  "u64 \<Rightarrow> engine_config \<Rightarrow> rstr \<Rightarrow> authenticated \<Rightarrow> link_info \<Rightarrow> permissions \<Rightarrow> display_info list option \<Rightarrow>
    'b option \<Rightarrow> fsys \<Rightarrow> 'b host_env \<Rightarrow> (msg list \<times> host_event list \<times> end_reason) + 'b host" where
  "host_start no cfg host_name auth link granted screen clip fs env =
     (case host_elevate granted (he_begin env) of (perms, notices, elev) \<Rightarrow>
      case screen of
        None \<Rightarrow> Inl ([M_Rejected R_Busy], notices, ConnectionLost)
      | Some ds \<Rightarrow>
          (let act = primary_index ds;
               sh = shared_new perms ds act;
               sh1 = (case elev of Some h \<Rightarrow> set_elevated sh (Some h) | None \<Rightarrow> sh)
           in Inr \<lparr>ho_session = no, ho_viewer_id = au_viewer_id auth, ho_perms = perms, ho_max_perms = perms,
                ho_displays = ds, ho_active = act, ho_quality = quality_default,
                ho_adapter = adapter_for quality_default ds act (he_now env), ho_governor = gv_default,
                ho_rtt_ms = 0, ho_last_bulk = 0, ho_last_dropped = 0, ho_last_rx = he_now env,
                ho_files = manager_new (host_policy cfg) (p_files perms) fs,
                ho_clip = map_option (\<lambda>b. clip_new (he_clip_ops env) b CLIP_MAX) clip,
                ho_guard = elev, ho_input = input_spawn sh1 (he_now env),
                ho_video = VC_Pause (\<not> p_view perms) # (case elev of Some h \<Rightarrow> [VC_Elevated (Some h)] | None \<Rightarrow> []),
                ho_sent = [M_Accepted perms ds act host_name], ho_bulk = [],
                ho_events = notices @ [HE_Started (au_viewer_id auth) (au_viewer_name auth) perms link],
                ho_bulk_rate = 0, ho_mid = None, ho_ended = None\<rparr>))"

section \<open>Messages from the viewer\<close>

definition select_display :: "'b host \<Rightarrow> u32 \<Rightarrow> instant \<Rightarrow> 'b host" where
  "select_display s i now =
     (if unat i < length (ho_displays s)
      then (ho_control (on_shared (\<lambda>sh. set_active sh i) (s\<lparr>ho_active := i\<rparr>)) (VC_Select i))
             \<lparr>ho_adapter := adapter_for (ho_quality s) (ho_displays s) i now\<rparr>
      else s)"

definition set_quality :: "'b host \<Rightarrow> quality \<Rightarrow> instant \<Rightarrow> 'b host" where
  "set_quality s q now =
     (ho_control (s\<lparr>ho_quality := q\<rparr>) (VC_Quality q))
       \<lparr>ho_adapter := adapter_for q (ho_displays s) (ho_active s) now\<rparr>"

definition host_clipboard :: "'b host \<Rightarrow> clipboard_payload \<Rightarrow> 'b host_env \<Rightarrow> 'b host" where
  "host_clipboard s p env =
     (case ho_clip s of
        None \<Rightarrow> s
      | Some c \<Rightarrow> s\<lparr>ho_clip := Some (snd (apply_remote (he_sha env) (he_clip_ops env) c p))\<rparr>)"

definition on_pong :: "'b host \<Rightarrow> u64 \<Rightarrow> 'b host_env \<Rightarrow> 'b host" where
  "on_pong s t env =
     (let rtt = r32 (of_nat (unat (sat_sub (he_now_ms env) t))); (rate, g) = gv_update (ho_governor s) rtt
      in s\<lparr>ho_rtt_ms := rtt, ho_governor := g, ho_bulk_rate := rate\<rparr>)"

definition host_msg :: "'b host \<Rightarrow> msg \<Rightarrow> 'b host_env \<Rightarrow> 'b host option" where
  "host_msg s0 m env =
     (let s = s0\<lparr>ho_last_rx := he_now env\<rparr>; p = ho_perms s
      in case m of
           M_SelectDisplay i \<Rightarrow> Some (if p_view p then select_display s i (he_now env) else s)
         | M_SetQuality q \<Rightarrow> Some (if p_view p then set_quality s q (he_now env) else s)
         | M_RequestKeyframe \<Rightarrow> Some (if p_view p then ho_control s VC_Keyframe else s)
         | M_Clipboard c \<Rightarrow> Some (if p_clipboard p then host_clipboard s c env else s)
         | M_File f \<Rightarrow>
             map_option (\<lambda>fm. s\<lparr>ho_files := fm\<rparr>) (on_file_msg (he_sha env) (ho_files s) f (he_file env) (he_now env))
         | M_Chat cid text ts \<Rightarrow> Some (ho_emit s (HE_Chat (ho_session s) cid text ts False))
         | M_Ping t \<Rightarrow> Some (ho_send s (M_Pong t))
         | M_Pong t \<Rightarrow> Some (on_pong s t env)
         | M_Bye \<Rightarrow> Some (s\<lparr>ho_ended := Some PeerClosed\<rparr>)
         | _ \<Rightarrow> Some s)"

section \<open>Commands of the owner\<close>

text \<open>
  \<open>SetPermissions\<close> up to the new flags of the input thread: elevated control is begun or ended first,
  and \<open>ho_mid\<close> holds what is still to be done.
\<close>

definition elevate_change :: "'b host \<Rightarrow> permissions \<Rightarrow> 'b host_env \<Rightarrow> permissions \<times> 'b host" where
  "elevate_change s new env =
     (if p_elevated new \<and> \<not> p_elevated (ho_perms s)
      then (case he_begin env of
              Some h \<Rightarrow> (new, (ho_control (on_shared (\<lambda>sh. set_elevated sh (Some h)) s) (VC_Elevated (Some h)))
                                \<lparr>ho_guard := Some h\<rparr>)
            | None \<Rightarrow> (new\<lparr>p_elevated := False\<rparr>, s))
      else if \<not> p_elevated new \<and> p_elevated (ho_perms s)
      then (new, (ho_control (on_shared (\<lambda>sh. set_elevated sh None) s) (VC_Elevated None))\<lparr>ho_guard := None\<rparr>)
      else (new, s))"

definition lost_input :: "permissions \<Rightarrow> permissions \<Rightarrow> bool" where
  "lost_input old new \<longleftrightarrow> p_mouse old \<and> \<not> p_mouse new \<or> p_keyboard old \<and> \<not> p_keyboard new"

definition begin_permissions :: "'b host \<Rightarrow> permissions \<Rightarrow> 'b host_env \<Rightarrow> 'b host" where
  "begin_permissions s p env =
     (case elevate_change s (intersect p (ho_max_perms s)) env of (new, s1) \<Rightarrow>
        if new \<noteq> ho_perms s
        then (on_shared (\<lambda>sh. set_permissions sh new) s1)\<lparr>ho_mid := Some (new, lost_input (ho_perms s) new)\<rparr>
        else s1)"

definition end_permissions :: "'b host \<Rightarrow> 'b host_env \<Rightarrow> 'b host" where
  "end_permissions s env =
     (case ho_mid s of
        None \<Rightarrow> s
      | Some (new, lost) \<Rightarrow>
          (let s1 = (if lost then release_all s (he_now env) else s);
               s2 = (if p_view new \<noteq> p_view (ho_perms s) then ho_control s1 (VC_Pause (\<not> p_view new)) else s1);
               s3 = s2\<lparr>ho_files := fm_set_allowed (ho_files s2) (p_files new), ho_perms := new, ho_mid := None\<rparr>
           in ho_emit (ho_send s3 (M_PermissionsChanged new)) (HE_Permissions new)))"

definition host_command :: "'b host \<Rightarrow> host_cmd \<Rightarrow> 'b host_env \<Rightarrow> 'b host" where
  "host_command s c env =
     (case c of
        HC_SetPermissions p \<Rightarrow> begin_permissions s p env
      | HC_Chat text \<Rightarrow>
          ho_emit (ho_send s (M_Chat (he_now_ms env) text (he_now_ms env)))
            (HE_Chat (ho_session s) (he_now_ms env) text (he_now_ms env) True)
      | HC_ApproveFile tid accept \<Rightarrow> s\<lparr>ho_files := respond (ho_files s) tid accept (he_now env)\<rparr>
      | HC_Kick \<Rightarrow> (ho_send s M_Bye)\<lparr>ho_ended := Some Kicked\<rparr>)"

section \<open>The other branches\<close>

definition host_video_event :: "'b host \<Rightarrow> video_event \<Rightarrow> 'b host" where
  "host_video_event s e =
     (case e of
        VE_Stats st \<Rightarrow>
          (let sh = iw_shared (ho_input s)
           in ho_send s (M_Stats (st\<lparr>hs_input_queue_us := sh_queue_us sh, hs_input_apply_us := sh_apply_us sh,
                                     hs_stale_moves_dropped := sh_stale_moves sh\<rparr>)))
      | VE_Displays ds act \<Rightarrow>
          ho_send (on_shared (\<lambda>sh. set_displays sh ds act) (s\<lparr>ho_displays := ds, ho_active := act\<rparr>))
            (M_DisplaysChanged ds act)
      | VE_Failed _ \<Rightarrow> s\<lparr>ho_ended := Some ConnectionLost\<rparr>)"

definition host_clip_tick :: "'b host \<Rightarrow> 'b host_env \<Rightarrow> 'b host" where
  "host_clip_tick s env =
     (if \<not> p_clipboard (ho_perms s) then s
      else case ho_clip s of
             None \<Rightarrow> s
           | Some c \<Rightarrow>
               (case poll_local (he_sha env) (he_clip_ops env) c of
                  (None, c1) \<Rightarrow> s\<lparr>ho_clip := Some c1\<rparr>
                | (Some (Clip_Image i), c1) \<Rightarrow>
                    s\<lparr>ho_clip := Some c1, ho_bulk := ho_bulk s @ [M_Clipboard (Clip_Image i)]\<rparr>
                | (Some (Clip_Text t), c1) \<Rightarrow> ho_send (s\<lparr>ho_clip := Some c1\<rparr>) (M_Clipboard (Clip_Text t))))"

definition elevation_lost :: "'b host \<Rightarrow> 'b host" where
  "elevation_lost s =
     (let p = (ho_perms s)\<lparr>p_elevated := False\<rparr>;
          s1 = (ho_control s (VC_Elevated None))\<lparr>ho_guard := None, ho_perms := p,
                 ho_max_perms := (ho_max_perms s)\<lparr>p_elevated := False\<rparr>\<rparr>
      in ho_emit (ho_send s1 (M_PermissionsChanged p)) (HE_Permissions p))"

definition host_adapt_tick :: "'b host \<Rightarrow> 'b host_env \<Rightarrow> 'b host" where
  "host_adapt_tick s env =
     (let s1 = (if p_elevated (ho_perms s)
                then (case take_elevated_lost (iw_shared (ho_input s)) of (lost, sh) \<Rightarrow>
                        let s0 = on_shared (\<lambda>_. sh) s in if lost then elevation_lost s0 else s0)
                else s);
          smp = \<lparr>s_rtt_ms = ho_rtt_ms s1,
                 s_send_delay_ms = r32 (r32 (of_nat (unat (he_video_send_us env))) / 1000),
                 s_dropped = ucast (sat_sub (he_video_dropped env) (ho_last_dropped s1))\<rparr>;
          s2 = s1\<lparr>ho_last_dropped := he_video_dropped env\<rparr>
      in case ho_adapter s2 of
           None \<Rightarrow> s2
         | Some a \<Rightarrow>
             (case ad_update a smp (he_now env) of
                (Some t, a1) \<Rightarrow> ho_control (s2\<lparr>ho_adapter := Some a1\<rparr>) (VC_Target t)
              | (None, a1) \<Rightarrow> s2\<lparr>ho_adapter := Some a1\<rparr>))"

definition host_probe :: "'b host \<Rightarrow> 'b host_env \<Rightarrow> 'b host" where
  "host_probe s env =
     (if he_bulk_bytes env \<noteq> ho_last_bulk s
      then ho_send (s\<lparr>ho_last_bulk := he_bulk_bytes env\<rparr>) (M_Ping (he_now_ms env)) else s)"

definition host_ping :: "'b host \<Rightarrow> 'b host_env \<Rightarrow> 'b host" where
  "host_ping s env =
     (let s1 = ho_send s (M_Ping (he_now_ms env))
      in if duration_since (he_now env) (ho_last_rx s) > secs 15 then s1\<lparr>ho_ended := Some ConnectionLost\<rparr> else s1)"

section \<open>The loop\<close>

text \<open>The branches; \<open>HS_Closed\<close> is the end of the receive channel or of the link, \<open>HS_Input\<close> an event
  the network reader routes to the input thread, \<open>HS_Thread\<close> a step of that thread.\<close>

datatype 'b host_step =
    HS_Msg msg "'b host_env" | HS_Cmd host_cmd "'b host_env" | HS_Permissions "'b host_env"
  | HS_Video video_event | HS_Clip "'b host_env" | HS_Adapt "'b host_env" | HS_Probe "'b host_env"
  | HS_Ping "'b host_env" | HS_Closed | HS_Input inbound | HS_Thread in_step

definition in_loop :: "'b host \<Rightarrow> bool" where
  "in_loop s \<longleftrightarrow> ho_ended s = None \<and> ho_mid s = None"

definition host_step :: "'b host \<Rightarrow> 'b host_step \<Rightarrow> 'b host option" where
  "host_step s x =
     (case x of
        HS_Input it \<Rightarrow> Some (s\<lparr>ho_input := route_send (ho_input s) it\<rparr>)
      | HS_Thread t \<Rightarrow> Some (s\<lparr>ho_input := in_step t (ho_input s)\<rparr>)
      | HS_Permissions env \<Rightarrow> Some (end_permissions s env)
      | HS_Msg m env \<Rightarrow> if in_loop s then host_msg s m env else Some s
      | HS_Cmd c env \<Rightarrow> Some (if in_loop s then host_command s c env else s)
      | HS_Video e \<Rightarrow> Some (if in_loop s then host_video_event s e else s)
      | HS_Clip env \<Rightarrow> Some (if in_loop s then host_clip_tick s env else s)
      | HS_Adapt env \<Rightarrow> Some (if in_loop s then host_adapt_tick s env else s)
      | HS_Probe env \<Rightarrow> Some (if in_loop s then host_probe s env else s)
      | HS_Ping env \<Rightarrow> Some (if in_loop s then host_ping s env else s)
      | HS_Closed \<Rightarrow> Some (if in_loop s then s\<lparr>ho_ended := Some ConnectionLost\<rparr> else s))"

text \<open>After the loop: the input thread is told to stop; once it has, elevated control ends with the session.\<close>

definition host_stop :: "'b host \<Rightarrow> 'b host" where
  "host_stop s = (if ho_ended s \<noteq> None then s\<lparr>ho_input := (ho_input s)\<lparr>iw_stop := True\<rparr>\<rparr> else s)"

definition host_end :: "'b host \<Rightarrow> 'b host" where
  "host_end s =
     (case ho_ended s of
        Some r \<Rightarrow>
          if iw_done (ho_input s)
          then let s1 = (ho_control s (VC_Elevated None))\<lparr>ho_guard := None\<rparr>
               in if r \<noteq> PeerClosed \<and> r \<noteq> Kicked then ho_send s1 M_Bye else s1
          else s
      | None \<Rightarrow> s)"

end
