(* ===== verification/Host_Engine.thy ===== *)
theory Host_Engine
  imports Host_Session Limiter
begin

text \<open>
  The host side of the engine: \<open>handle_incoming\<close> of \<open>crates/session/src/engine_host.rs\<close> with the state
  and the settings of \<open>crates/session/src/engine.rs\<close> it works on.

  Every announced connection is a task of its own; several run side by side. A step runs one task
  from one point where it waits to the next. What the surroundings decide (the link a viewer chose,
  the frames it sends, the owner's answers and commands, the clock, new random passwords) comes with the
  step. What goes to the user interface and to the server is appended to \<open>en_events\<close> and \<open>en_sent\<close>.
\<close>

section \<open>State\<close>

record host_state =
  hg_temp :: rstr
  hg_temp_created :: instant
  hg_busy :: bool
  hg_active :: "u64 option"
  hg_pending :: "(u64, nat) hmap"
  hg_failures :: "rstr limiter"
  hg_global :: "unit limiter"
  hg_resume :: "(rstr, permissions \<times> instant) hmap"
  hg_unattended :: bool
  hg_any_device :: bool
  hg_unattended_elevated :: bool
  hg_authorized :: "rstr list"
  hg_permanent :: "rstr option"

datatype server_state = SS_Starting | SS_Connecting | SS_Online | SS_Reconnecting u32 | SS_NoInternet
  | SS_Unavailable | SS_Rejected

datatype engine_event =
    EE_Server server_state
  | EE_Identity rstr
  | EE_TempPassword rstr "nat option"
  | EE_Incoming u64 rstr rstr permissions bool nat
  | EE_Cancelled u64
  | EE_Ended end_reason
  | EE_PasswordRejected rstr
  | EE_LockedOut
  | EE_Declined rstr
  | EE_Presence "(rstr \<times> bool) list"
  | EE_Security rstr

text \<open>How far a task has come, with its local variables. \<open>Ph_Prompt\<close> holds the answer channel.\<close>

datatype 'b phase =
    Ph_Check
  | Ph_Await
  | Ph_Shake link_kind
  | Ph_Shook link_kind "host_failure + authenticated"
  | Ph_Consent link_kind authenticated
  | Ph_Prompt link_kind authenticated u64 "permissions option option"
  | Ph_Granted link_kind authenticated permissions
  | Ph_Run authenticated permissions "'b host"
  | Ph_Over authenticated permissions end_reason
  | Ph_Close bool bool bool
  | Ph_Done

record 'b incoming =
  ic_session :: session_id
  ic_from :: rstr
  ic_name :: rstr
  ic_cfg :: engine_config
  ic_my_id :: rstr
  ic_phase :: "'b phase"

record 'b engine =
  en_now :: instant
  en_cfg :: engine_config
  en_host :: host_state
  en_my_id :: "rstr option"
  en_online :: bool
  en_incoming :: bool
  en_routes :: "session_id list"
  en_direct :: "(session_id, nat) hmap"
  en_connects :: "rstr list"
  en_resolved :: "(rstr \<times> (connect_failure + session_id \<times> rstr list)) list"
  en_relayed :: "(session_id \<times> u8 list) list"
  en_next_session :: u64
  en_next_request :: u64
  en_cmds :: "host_cmd list"
  en_events :: "engine_event list"
  en_sent :: "client_to_server list"
  en_rejected :: "(session_id \<times> reject_reason) list"
  en_tasks :: "'b incoming list"

definition RESUME_WINDOW :: duration where
  "RESUME_WINDOW = secs 300"

definition as_secs :: "duration \<Rightarrow> nat" where
  "as_secs d = d div secs 1"

definition host_state_new :: "rstr \<Rightarrow> instant \<Rightarrow> host_state" where
  "host_state_new temp now =
     \<lparr>hg_temp = temp, hg_temp_created = now, hg_busy = False, hg_active = None, hg_pending = [],
      hg_failures = limiter_new 5 (secs 600) (secs 1800), hg_global = limiter_new 10 (secs 600) (secs 600),
      hg_resume = [], hg_unattended = False, hg_any_device = False, hg_unattended_elevated = False,
      hg_authorized = [], hg_permanent = None\<rparr>"

definition engine_new :: "engine_config \<Rightarrow> rstr \<Rightarrow> instant \<Rightarrow> 'b engine" where
  "engine_new cfg temp now =
     \<lparr>en_now = now, en_cfg = cfg, en_host = host_state_new temp now, en_my_id = None, en_online = False,
      en_incoming = ec_incoming_enabled cfg, en_routes = [], en_direct = [], en_connects = [], en_resolved = [],
      en_relayed = [], en_next_session = 1, en_next_request = 1, en_cmds = [],
      en_events = [EE_Server SS_Starting, EE_TempPassword temp (map_option as_secs (ec_temp_password_ttl cfg))],
      en_sent = [], en_rejected = [], en_tasks = []\<rparr>"

section \<open>Helpers of the engine\<close>

definition emit :: "'b engine \<Rightarrow> engine_event \<Rightarrow> 'b engine" where
  "emit e ev = e\<lparr>en_events := en_events e @ [ev]\<rparr>"

definition on_host :: "(host_state \<Rightarrow> host_state) \<Rightarrow> 'b engine \<Rightarrow> 'b engine" where
  "on_host f e = e\<lparr>en_host := f (en_host e)\<rparr>"

definition to_phase :: "'b engine \<Rightarrow> nat \<Rightarrow> 'b phase \<Rightarrow> 'b engine" where
  "to_phase e i ph = e\<lparr>en_tasks := (en_tasks e)[i := (en_tasks e ! i)\<lparr>ic_phase := ph\<rparr>]\<rparr>"

definition rotate_password :: "'b engine \<Rightarrow> rstr \<Rightarrow> 'b engine" where
  "rotate_password e pw =
     emit (on_host (\<lambda>h. h\<lparr>hg_temp := pw, hg_temp_created := en_now e\<rparr>) e)
       (EE_TempPassword pw (map_option as_secs (ec_temp_password_ttl (en_cfg e))))"

definition relay_link :: "'b engine \<Rightarrow> session_id \<Rightarrow> 'b engine" where
  "relay_link e sid = e\<lparr>en_routes := List.insert sid (en_routes e)\<rparr>"

definition drop_route :: "'b engine \<Rightarrow> session_id \<Rightarrow> 'b engine" where
  "drop_route e sid = e\<lparr>en_routes := removeAll sid (en_routes e)\<rparr>"

definition end_on_server :: "'b engine \<Rightarrow> session_id \<Rightarrow> bool \<Rightarrow> 'b engine" where
  "end_on_server e sid failed =
     (let e1 = drop_route (e\<lparr>en_sent := en_sent e @ [C_EndSession sid failed]\<rparr>) sid
      in e1\<lparr>en_direct := hm_remove sid (en_direct e1)\<rparr>)"

definition reject :: "'b engine \<Rightarrow> session_id \<Rightarrow> reject_reason \<Rightarrow> 'b engine" where
  "reject e sid r = e\<lparr>en_rejected := en_rejected e @ [(sid, r)]\<rparr>"

section \<open>An incoming connection\<close>

text \<open>Claiming the host, up to waiting for the link.\<close>

definition hi_check :: "'b engine \<Rightarrow> nat \<Rightarrow> 'b engine" where
  "hi_check e i =
     (let t = (en_tasks e ! i)\<lparr>ic_cfg := en_cfg e, ic_my_id := (case en_my_id e of Some d \<Rightarrow> d | None \<Rightarrow> [])\<rparr>;
          e0 = e\<lparr>en_tasks := (en_tasks e)[i := t]\<rparr>
      in if \<not> en_incoming e \<or> hg_busy (en_host e) then to_phase e0 i (Ph_Close False False False)
         else let e1 = relay_link (on_host (\<lambda>h. h\<lparr>hg_busy := True\<rparr>) e0) (ic_session t)
              in to_phase (e1\<lparr>en_direct := hm_insert (ic_session t) i (en_direct e1)\<rparr>) i Ph_Await)"

text \<open>The relay brings the first frame, or nothing comes in time.\<close>

definition hi_link :: "'b engine \<Rightarrow> nat \<Rightarrow> bool \<Rightarrow> 'b engine" where
  "hi_link e i came = to_phase e i (if came then Ph_Shake Link_Relay else Ph_Close False True False)"

text \<open>A direct connection with the session id as preamble; \<open>ok\<close>: the acknowledgement could be written.\<close>

definition accept_direct :: "'b engine \<Rightarrow> session_id \<Rightarrow> bool \<Rightarrow> 'b engine" where
  "accept_direct e sid ok =
     (case hm_get (en_direct e) sid of
        None \<Rightarrow> e
      | Some i \<Rightarrow>
          (let e1 = e\<lparr>en_direct := hm_remove sid (en_direct e)\<rparr>
           in if i < length (en_tasks e) \<and> ic_phase (en_tasks e ! i) = Ph_Await
              then to_phase e1 i (if ok then Ph_Shake Link_Direct else Ph_Close False True False)
              else e1))"

text \<open>The password a viewer has to know, and which viewers may use the permanent one.\<close>

definition pw_lookup :: "host_state \<Rightarrow> instant \<Rightarrow> rstr \<Rightarrow> auth_kind \<Rightarrow> password_lookup \<times> host_state" where
  "pw_lookup h now v kind =
     (case locked (hg_failures h) v now of
        (Some _, l) \<Rightarrow> (LockedOut, h\<lparr>hg_failures := l\<rparr>)
      | (None, l) \<Rightarrow>
          (case kind of
             Temporary \<Rightarrow> Available (hg_temp h)
           | Permanent \<Rightarrow>
               (case (hg_permanent h, hg_unattended h) of
                  (Some pw, True) \<Rightarrow>
                    if hg_any_device h \<or> v \<in> set (hg_authorized h) then Available pw else Disabled
                | _ \<Rightarrow> Disabled),
           h\<lparr>hg_failures := l\<rparr>))"

text \<open>
  The handshake asks for the password at most once, after the greeting passed its checks; the answer of
  that moment decides its result. \<open>hs_env\<close> holds the parameters of \<open>host_handshake\<close>, \<open>rs\<close> what the
  viewer sends.
\<close>

record 's hs_env =
  hv_crypto :: "'s crypto"
  hv_ser :: hs_ser
  hv_de :: hs_de
  hv_up :: "nat \<Rightarrow> bool"
  hv_seed :: nat

definition asks_for :: "hs_de \<Rightarrow> host_params \<Rightarrow> bytes option list \<Rightarrow> (rstr \<times> auth_kind) option" where
  "asks_for de p rs =
     (case hs_recv de rs 0 of
        Some (H_Hello version v name kind _ _) \<Rightarrow>
          if version = PROTOCOL_VERSION \<and> v = hp_expected_viewer_id p \<and> viewer_name_ok name then Some (v, kind) else None
      | _ \<Rightarrow> None)"

definition ic_params :: "'b incoming \<Rightarrow> host_params" where
  "ic_params t = \<lparr>hp_session = ic_session t, hp_host_id = ic_my_id t, hp_expected_viewer_id = ic_from t\<rparr>"

definition shake :: "'s hs_env \<Rightarrow> host_params \<Rightarrow> host_state \<Rightarrow> instant \<Rightarrow> bytes option list \<Rightarrow> host_failure + authenticated" where
  "shake hv p h now rs =
     snd (host_handshake (hv_crypto hv) (hv_ser hv) (hv_de hv) (hv_up hv) (hv_seed hv) p
            (\<lambda>v kind. fst (pw_lookup h now v kind)) rs)"

definition hi_hello :: "'b engine \<Rightarrow> nat \<Rightarrow> link_kind \<Rightarrow> 's hs_env \<Rightarrow> bytes option list \<Rightarrow> 'b engine" where
  "hi_hello e i k hv rs =
     (let p = ic_params (en_tasks e ! i); h = en_host e;
          e1 = (case asks_for (hv_de hv) p rs of
                  None \<Rightarrow> e
                | Some (v, kind) \<Rightarrow> on_host (\<lambda>_. snd (pw_lookup h (en_now e) v kind)) e)
      in to_phase e1 i (Ph_Shook k (shake hv p h (en_now e) rs)))"

definition release_busy :: "'b engine \<Rightarrow> 'b engine" where
  "release_busy e = on_host (\<lambda>h. h\<lparr>hg_busy := False\<rparr>) e"

text \<open>A wrong password counts against the viewer and against the password itself.\<close>

definition bad_password :: "'b engine \<Rightarrow> rstr \<Rightarrow> rstr \<Rightarrow> 'b engine" where
  "bad_password e v pw =
     (case (record_failure (hg_failures (en_host e)) v (en_now e), record_failure (hg_global (en_host e)) () (en_now e)) of
        ((lock, l), (rot, g)) \<Rightarrow>
          (let e1 = emit (on_host (\<lambda>h. h\<lparr>hg_failures := l, hg_global := g\<rparr>) e) (EE_PasswordRejected v);
               e2 = (if lock then emit e1 EE_LockedOut else e1);
               e3 = (if rot then rotate_password e2 pw else e2)
           in release_busy e3))"

definition hi_result :: "'b engine \<Rightarrow> nat \<Rightarrow> link_kind \<Rightarrow> host_failure + authenticated \<Rightarrow> rstr \<Rightarrow> 'b engine" where
  "hi_result e i k r pw =
     (case r of
        Inr a \<Rightarrow>
          to_phase (on_host (\<lambda>h. h\<lparr>hg_failures := record_success (hg_failures h) (au_viewer_id a)\<rparr>) e) i (Ph_Consent k a)
      | Inl (H_BadPassword v) \<Rightarrow> to_phase (bad_password e v pw) i (Ph_Close True False False)
      | Inl _ \<Rightarrow> to_phase (release_busy e) i (Ph_Close False False False))"

text \<open>Consent without asking: unattended access, or a session that dropped a short while ago.\<close>

definition resume_grant :: "host_state \<Rightarrow> instant \<Rightarrow> rstr \<Rightarrow> permissions option" where
  "resume_grant h now v =
     (case hm_get (hg_resume h) v of
        Some (p, t) \<Rightarrow> if duration_since now t < RESUME_WINDOW then Some p else None
      | None \<Rightarrow> None)"

definition auto_grant :: "host_state \<Rightarrow> instant \<Rightarrow> authenticated \<Rightarrow> permissions option" where
  "auto_grant h now a =
     (if au_auth a = Permanent \<and> hg_unattended h
      then Some ((au_requested a)\<lparr>p_elevated := p_elevated (au_requested a) \<and> hg_unattended_elevated h\<rparr>)
      else map_option (\<lambda>p. (intersect p (au_requested a))\<lparr>p_elevated := False\<rparr>) (resume_grant h now (au_viewer_id a)))"

definition hi_consent :: "'b engine \<Rightarrow> nat \<Rightarrow> link_kind \<Rightarrow> authenticated \<Rightarrow> 'b engine" where
  "hi_consent e i k a =
     (case auto_grant (en_host e) (en_now e) a of
        Some p \<Rightarrow> to_phase e i (Ph_Granted k a p)
      | None \<Rightarrow>
          (let rid = en_next_request e; t = en_tasks e ! i;
               e1 = on_host (\<lambda>h. h\<lparr>hg_pending := hm_insert rid i (hg_pending h)\<rparr>) (e\<lparr>en_next_request := rid + 1\<rparr>)
           in to_phase (emit e1 (EE_Incoming rid (au_viewer_id a) (ic_name t) (au_requested a) (k = Link_Direct)
                (as_secs (ec_approval_timeout (ic_cfg t))))) i (Ph_Prompt k a rid None)))"

text \<open>The prompt ends with the owner's answer or after the approval timeout.\<close>

definition hi_decision :: "'b engine \<Rightarrow> nat \<Rightarrow> link_kind \<Rightarrow> authenticated \<Rightarrow> u64 \<Rightarrow> permissions option option \<Rightarrow> 'b engine" where
  "hi_decision e i k a rid ans =
     (let e1 = emit (on_host (\<lambda>h. h\<lparr>hg_pending := hm_remove rid (hg_pending h)\<rparr>) e) (EE_Cancelled rid);
          sid = ic_session (en_tasks e ! i)
      in case ans of
           Some (Some p) \<Rightarrow> to_phase e1 i (Ph_Granted k a (intersect p (au_requested a)))
         | Some None \<Rightarrow>
             to_phase (reject (emit e1 (EE_Declined (au_viewer_id a))) sid R_Declined) i (Ph_Close False True False)
         | None \<Rightarrow> to_phase (reject e1 sid R_Timeout) i (Ph_Close False True False))"

definition no_session :: "permissions \<Rightarrow> bool" where
  "no_session p \<longleftrightarrow> \<not> p_view p \<and> \<not> p_mouse p \<and> \<not> p_keyboard p \<and> \<not> p_clipboard p \<and> \<not> p_files p"

definition link_info_of :: "link_kind \<Rightarrow> rstr \<Rightarrow> link_info" where
  "link_info_of k peer = \<lparr>li_kind = k, li_peer = peer,
     li_protocol = (case k of Link_Direct \<Rightarrow> ''tcp'' | Link_Relay \<Rightarrow> ''tls-websocket'')\<rparr>"

text \<open>What the platform provides for a session.\<close>

record 'b platform =
  pf_peer :: rstr
  pf_screen :: "display_info list option"
  pf_clip :: "'b option"
  pf_fs :: fsys
  pf_env :: "'b host_env"

definition hi_start :: "'b engine \<Rightarrow> nat \<Rightarrow> link_kind \<Rightarrow> authenticated \<Rightarrow> permissions \<Rightarrow> 'b platform \<Rightarrow> 'b engine" where
  "hi_start e i k a g pf =
     (let t = en_tasks e ! i
      in if no_session g then to_phase (reject e (ic_session t) R_Declined) i (Ph_Close False True False)
         else let no = en_next_session e;
                  e1 = on_host (\<lambda>h. h\<lparr>hg_active := Some no\<rparr>) (e\<lparr>en_next_session := no + 1, en_cmds := []\<rparr>)
              in case host_start no (ic_cfg t) (ec_device_name (ic_cfg t)) a (link_info_of k (pf_peer pf)) g
                        (pf_screen pf) (pf_clip pf) (pf_fs pf) (pf_env pf) of
                   Inl (_, _, r) \<Rightarrow> to_phase e1 i (Ph_Over a g r)
                 | Inr s \<Rightarrow> to_phase e1 i (Ph_Run a g s))"

text \<open>The session itself; a command is taken from the queue the owner's commands wait in.\<close>

definition hi_run :: "'b engine \<Rightarrow> nat \<Rightarrow> authenticated \<Rightarrow> permissions \<Rightarrow> 'b host \<Rightarrow> 'b host_step \<Rightarrow> 'b engine" where
  "hi_run e i a g s x =
     (case x of
        HS_Cmd c _ \<Rightarrow>
          (case en_cmds e of
             c' # rest \<Rightarrow>
               if c' = c \<and> in_loop s
               then (case host_step s x of None \<Rightarrow> e | Some s' \<Rightarrow> to_phase (e\<lparr>en_cmds := rest\<rparr>) i (Ph_Run a g s'))
               else e
           | [] \<Rightarrow> e)
      | _ \<Rightarrow> (case host_step s x of None \<Rightarrow> e | Some s' \<Rightarrow> to_phase e i (Ph_Run a g s')))"

definition hi_stop :: "'b engine \<Rightarrow> nat \<Rightarrow> authenticated \<Rightarrow> permissions \<Rightarrow> 'b host \<Rightarrow> 'b engine" where
  "hi_stop e i a g s = to_phase e i (Ph_Run a g (host_stop s))"

definition hi_end :: "'b engine \<Rightarrow> nat \<Rightarrow> authenticated \<Rightarrow> permissions \<Rightarrow> 'b host \<Rightarrow> 'b engine" where
  "hi_end e i a g s =
     (case ho_ended s of
        Some r \<Rightarrow> if iw_done (ho_input s) then to_phase e i (Ph_Over a g r) else e
      | None \<Rightarrow> e)"

text \<open>After the session: a dropped one may be resumed, the server is told, the password is replaced.\<close>

definition hi_over :: "'b engine \<Rightarrow> nat \<Rightarrow> authenticated \<Rightarrow> permissions \<Rightarrow> end_reason \<Rightarrow> 'b engine" where
  "hi_over e i a g r =
     (let v = au_viewer_id a;
          e1 = on_host (\<lambda>h. h\<lparr>hg_active := None,
                 hg_resume := (if r = ConnectionLost then hm_insert v (g, en_now e) (hg_resume h)
                               else hm_remove v (hg_resume h))\<rparr>) e
      in to_phase (emit e1 (EE_Ended r)) i
           (Ph_Close False True (r \<noteq> ConnectionLost \<and> ec_rotate_after_session (ic_cfg (en_tasks e ! i)))))"

definition hi_close :: "'b engine \<Rightarrow> nat \<Rightarrow> bool \<Rightarrow> bool \<Rightarrow> bool \<Rightarrow> rstr \<Rightarrow> 'b engine" where
  "hi_close e i failed held rot pw =
     (let e1 = end_on_server e (ic_session (en_tasks e ! i)) failed;
          e2 = (if rot then rotate_password e1 pw else e1);
          e3 = (if held then release_busy e2 else e2)
      in to_phase e3 i Ph_Done)"

section \<open>The owner\<close>

definition set_unattended :: "'b engine \<Rightarrow> bool \<Rightarrow> rstr option \<Rightarrow> rstr list \<Rightarrow> bool \<Rightarrow> 'b engine" where
  "set_unattended e on pw ids any =
     (let enabled = (on \<and> (case pw of Some p \<Rightarrow> str_len p \<ge> 8 | None \<Rightarrow> False))
      in on_host (\<lambda>h. h\<lparr>hg_unattended := enabled, hg_permanent := (if enabled then pw else None),
                        hg_any_device := any, hg_authorized := remdups ids\<rparr>) e)"

definition set_unattended_elevated :: "'b engine \<Rightarrow> bool \<Rightarrow> 'b engine" where
  "set_unattended_elevated e on = on_host (\<lambda>h. h\<lparr>hg_unattended_elevated := on\<rparr>) e"

definition revoke_authorization :: "'b engine \<Rightarrow> rstr \<Rightarrow> 'b engine" where
  "revoke_authorization e v = on_host (\<lambda>h. h\<lparr>hg_authorized := removeAll v (hg_authorized h)\<rparr>) e"

definition respond_incoming :: "'b engine \<Rightarrow> u64 \<Rightarrow> permissions option \<Rightarrow> 'b engine" where
  "respond_incoming e rid grant =
     (case hm_get (hg_pending (en_host e)) rid of
        None \<Rightarrow> e
      | Some i \<Rightarrow>
          (let e1 = on_host (\<lambda>h. h\<lparr>hg_pending := hm_remove rid (hg_pending h)\<rparr>) e
           in if i < length (en_tasks e)
              then (case ic_phase (en_tasks e ! i) of
                      Ph_Prompt k a rid' None \<Rightarrow>
                        if rid' = rid then to_phase e1 i (Ph_Prompt k a rid (Some grant)) else e1
                    | _ \<Rightarrow> e1)
              else e1))"

definition engine_command :: "'b engine \<Rightarrow> host_cmd \<Rightarrow> 'b engine" where
  "engine_command e c = (if hg_active (en_host e) \<noteq> None then e\<lparr>en_cmds := en_cmds e @ [c]\<rparr> else e)"

text \<open>The timer of the temporary password.\<close>

definition password_expiry :: "'b engine \<Rightarrow> rstr \<Rightarrow> 'b engine" where
  "password_expiry e pw =
     (case ec_temp_password_ttl (en_cfg e) of
        None \<Rightarrow> e
      | Some ttl \<Rightarrow>
          if duration_since (en_now e) (hg_temp_created (en_host e)) \<ge> ttl \<and> \<not> hg_busy (en_host e)
          then rotate_password e pw else e)"

section \<open>Messages of the server\<close>

definition new_incoming :: "'b engine \<Rightarrow> session_id \<Rightarrow> rstr \<Rightarrow> rstr \<Rightarrow> 'b incoming" where
  "new_incoming e sid from name =
     \<lparr>ic_session = sid, ic_from = from, ic_name = name, ic_cfg = en_cfg e, ic_my_id = [], ic_phase = Ph_Check\<rparr>"

datatype sig_event = SE_State server_state | SE_Identity rstr | SE_Msg server_to_client

text \<open>
  \<open>first\<close> is the position of the pending connection a drained hash map yields first; \<open>full\<close>: the
  session's channel did not take the frame in five seconds, or is closed.
\<close>

definition resolve_first :: "'b engine \<Rightarrow> nat \<Rightarrow> connect_failure + session_id \<times> rstr list \<Rightarrow> 'b engine" where
  "resolve_first e first r =
     (if en_connects e = [] then e
      else e\<lparr>en_connects := [],
             en_resolved := en_resolved e @ [(en_connects e ! (first mod length (en_connects e)), r)]\<rparr>)"

definition dispatch :: "'b engine \<Rightarrow> sig_event \<Rightarrow> nat \<Rightarrow> bool \<Rightarrow> 'b engine" where
  "dispatch e ev first full =
     (case ev of
        SE_State s \<Rightarrow> emit (e\<lparr>en_online := (s = SS_Online)\<rparr>) (EE_Server s)
      | SE_Identity d \<Rightarrow> emit (e\<lparr>en_my_id := Some d\<rparr>) (EE_Identity d)
      | SE_Msg m \<Rightarrow>
          (case m of
             S_Incoming sid from name _ \<Rightarrow> e\<lparr>en_tasks := en_tasks e @ [new_incoming e sid from name]\<rparr>
           | S_SessionReady sid _ candidates _ \<Rightarrow> resolve_first e first (Inr (sid, candidates))
           | S_ConnectFailed target reason \<Rightarrow>
               if target \<in> set (en_connects e)
               then e\<lparr>en_connects := removeAll target (en_connects e),
                      en_resolved := en_resolved e @ [(target, Inl reason)]\<rparr>
               else resolve_first e first (Inl reason)
           | S_Relay sid bs \<Rightarrow>
               if sid \<in> set (en_routes e)
               then if full then drop_route e sid else e\<lparr>en_relayed := en_relayed e @ [(sid, bs)]\<rparr>
               else e
           | S_SessionEnded sid \<Rightarrow> drop_route e sid
           | S_Presence l \<Rightarrow> emit e (EE_Presence l)
           | S_Error msg \<Rightarrow> emit e (EE_Security msg)
           | _ \<Rightarrow> e))"

section \<open>Steps\<close>

datatype ('b, 's) engine_step =
    ES_Tick duration
  | ES_Server sig_event nat bool
  | ES_Check nat
  | ES_Link nat bool
  | ES_Direct session_id bool
  | ES_Hello nat "'s hs_env" "bytes option list"
  | ES_Result nat rstr
  | ES_Consent nat
  | ES_Decision nat
  | ES_Start nat "'b platform"
  | ES_Session nat "'b host_step"
  | ES_Stop nat
  | ES_End nat
  | ES_Over nat
  | ES_Close nat rstr
  | ES_Respond u64 "permissions option"
  | ES_Command host_cmd
  | ES_Unattended bool "rstr option" "rstr list" bool
  | ES_UnattendedElevated bool
  | ES_Revoke rstr
  | ES_Config engine_config
  | ES_Enable bool
  | ES_Rotate rstr
  | ES_Expiry rstr
  | ES_Connect rstr
  | ES_Viewer
  | ES_Presence "rstr list"

definition task_step :: "'b engine \<Rightarrow> nat \<Rightarrow> 'b phase \<Rightarrow> ('b, 's) engine_step \<Rightarrow> 'b engine" where
  "task_step e i ph x =
     (case x of
        ES_Check _ \<Rightarrow> (case ph of Ph_Check \<Rightarrow> hi_check e i | _ \<Rightarrow> e)
      | ES_Link _ came \<Rightarrow> (case ph of Ph_Await \<Rightarrow> hi_link e i came | _ \<Rightarrow> e)
      | ES_Hello _ hv rs \<Rightarrow> (case ph of Ph_Shake k \<Rightarrow> hi_hello e i k hv rs | _ \<Rightarrow> e)
      | ES_Result _ pw \<Rightarrow> (case ph of Ph_Shook k r \<Rightarrow> hi_result e i k r pw | _ \<Rightarrow> e)
      | ES_Consent _ \<Rightarrow> (case ph of Ph_Consent k a \<Rightarrow> hi_consent e i k a | _ \<Rightarrow> e)
      | ES_Decision _ \<Rightarrow> (case ph of Ph_Prompt k a rid ans \<Rightarrow> hi_decision e i k a rid ans | _ \<Rightarrow> e)
      | ES_Start _ pf \<Rightarrow> (case ph of Ph_Granted k a g \<Rightarrow> hi_start e i k a g pf | _ \<Rightarrow> e)
      | ES_Session _ y \<Rightarrow> (case ph of Ph_Run a g s \<Rightarrow> hi_run e i a g s y | _ \<Rightarrow> e)
      | ES_Stop _ \<Rightarrow> (case ph of Ph_Run a g s \<Rightarrow> hi_stop e i a g s | _ \<Rightarrow> e)
      | ES_End _ \<Rightarrow> (case ph of Ph_Run a g s \<Rightarrow> hi_end e i a g s | _ \<Rightarrow> e)
      | ES_Over _ \<Rightarrow> (case ph of Ph_Over a g r \<Rightarrow> hi_over e i a g r | _ \<Rightarrow> e)
      | ES_Close _ pw \<Rightarrow> (case ph of Ph_Close failed held rot \<Rightarrow> hi_close e i failed held rot pw | _ \<Rightarrow> e)
      | _ \<Rightarrow> e)"

definition step_task :: "('b, 's) engine_step \<Rightarrow> nat option" where
  "step_task x =
     (case x of
        ES_Check i \<Rightarrow> Some i | ES_Link i _ \<Rightarrow> Some i | ES_Hello i _ _ \<Rightarrow> Some i | ES_Result i _ \<Rightarrow> Some i
      | ES_Consent i \<Rightarrow> Some i | ES_Decision i \<Rightarrow> Some i | ES_Start i _ \<Rightarrow> Some i | ES_Session i _ \<Rightarrow> Some i
      | ES_Stop i \<Rightarrow> Some i | ES_End i \<Rightarrow> Some i | ES_Over i \<Rightarrow> Some i | ES_Close i _ \<Rightarrow> Some i | _ \<Rightarrow> None)"

text \<open>The steps that are not a task's own.\<close>

definition other_step :: "'b engine \<Rightarrow> ('b, 's) engine_step \<Rightarrow> 'b engine" where
  "other_step e x =
     (case x of
        ES_Tick d \<Rightarrow> e\<lparr>en_now := en_now e + d\<rparr>
      | ES_Server ev first full \<Rightarrow> dispatch e ev first full
      | ES_Direct sid ok \<Rightarrow> accept_direct e sid ok
      | ES_Respond rid g \<Rightarrow> respond_incoming e rid g
      | ES_Command c \<Rightarrow> engine_command e c
      | ES_Unattended on pw ids any \<Rightarrow> set_unattended e on pw ids any
      | ES_UnattendedElevated on \<Rightarrow> set_unattended_elevated e on
      | ES_Revoke v \<Rightarrow> revoke_authorization e v
      | ES_Config cfg \<Rightarrow> e\<lparr>en_cfg := cfg\<rparr>
      | ES_Enable on \<Rightarrow> e\<lparr>en_incoming := on\<rparr>
      | ES_Rotate pw \<Rightarrow> rotate_password e pw
      | ES_Expiry pw \<Rightarrow> password_expiry e pw
      | ES_Connect target \<Rightarrow> e\<lparr>en_connects := List.insert target (en_connects e)\<rparr>
      | ES_Viewer \<Rightarrow> e\<lparr>en_next_session := en_next_session e + 1\<rparr>
      | ES_Presence ids \<Rightarrow> e\<lparr>en_sent := en_sent e @ [C_QueryPresence ids]\<rparr>
      | _ \<Rightarrow> e)"

definition engine_step :: "'b engine \<Rightarrow> ('b, 's) engine_step \<Rightarrow> 'b engine" where
  "engine_step e x =
     (case step_task x of
        Some i \<Rightarrow> if i < length (en_tasks e) then task_step e i (ic_phase (en_tasks e ! i)) x else e
      | None \<Rightarrow> other_step e x)"

text \<open>Runs from a fresh engine, with the steps taken.\<close>

inductive engine_hist :: "('b, 's) engine_step list \<Rightarrow> 'b engine \<Rightarrow> bool" where
  hist_new: "engine_hist [] (engine_new cfg temp now)"
| hist_step: "engine_hist xs e \<Longrightarrow> engine_hist (xs @ [x]) (engine_step e x)"

end
