(* ===== verification/Input_Props.thy ===== *)
theory Input_Props
  imports Input_Thread
begin

text \<open>
  Facts about the input thread that hold alike for the two kinds of input a permission covers, the
  mouse and the keyboard. The locale \<open>input_class\<close> states what they share; both are interpreted on
  the model.
\<close>

section \<open>Coalescing\<close>

definition is_release :: "inbound \<Rightarrow> bool" where
  "is_release it \<longleftrightarrow> ib_ev it = ReleaseAll"

lemma coalesce_step_eq:
  "coalesce_step (out, n) it = (if ev_move (ib_ev it) \<and> out \<noteq> [] \<and> ev_move (ib_ev (last out))
     then (butlast out @ [it], n + 1) else (out @ [it], n))"
  by (simp add: coalesce_step_def)

lemma coalesce_run_filter:
  assumes "\<And>it. P it \<Longrightarrow> \<not> ev_move (ib_ev it)"
  shows "filter P (fst (foldl coalesce_step (out, n) xs)) = filter P out @ filter P xs"
proof (induction xs arbitrary: out n)
  case (Cons x xs)
  have b: "filter P (butlast out) = filter P out" if "out \<noteq> []" "ev_move (ib_ev (last out))"
  proof -
    have "out = butlast out @ [last out]" using that(1) by simp
    moreover have "\<not> P (last out)" using assms that(2) by blast
    ultimately show ?thesis by (metis append_Nil2 filter.simps(1,2) filter_append)
  qed
  show ?case using assms [of x] by (auto simp: coalesce_step_eq Cons.IH b)
qed simp

text \<open>Everything but movements passes, in order; a movement that passes was waiting.\<close>

lemma coalesce_keeps: "(\<And>it. P it \<Longrightarrow> \<not> ev_move (ib_ev it)) \<Longrightarrow> filter P (fst (coalesce_moves xs)) = filter P xs"
  using coalesce_run_filter [of P "[]" 0 xs] by (simp add: coalesce_moves_def)

lemma coalesce_subset_run: "set (fst (foldl coalesce_step (out, n) xs)) \<subseteq> set out \<union> set xs"
proof (induction xs arbitrary: out n)
  case (Cons x xs)
  have "set (butlast out) \<subseteq> set out" by (meson in_set_butlastD subsetI)
  then have "set (fst (coalesce_step (out, n) x)) \<subseteq> insert x (set out)" by (auto simp: coalesce_step_eq)
  moreover have "set (fst (foldl coalesce_step (coalesce_step (out, n) x) xs)) \<subseteq>
      set (fst (coalesce_step (out, n) x)) \<union> set xs"
    using Cons.IH [of "fst (coalesce_step (out, n) x)" "snd (coalesce_step (out, n) x)"] by simp
  ultimately show ?case by auto
qed simp

lemma coalesce_subset: "set (fst (coalesce_moves xs)) \<subseteq> set xs"
  using coalesce_subset_run [of "[]" 0 xs] by (simp add: coalesce_moves_def)

lemma release_not_move: "is_release it \<Longrightarrow> \<not> ev_move (ib_ev it)"
  by (simp add: is_release_def ev_move_def)

lemma coalesce_release: "(\<exists>it \<in> set (fst (coalesce_moves xs)). is_release it) \<longleftrightarrow> (\<exists>it \<in> set xs. is_release it)"
  using coalesce_keeps [OF release_not_move, of is_release xs] by (metis filter_empty_conv)

section \<open>A release on its way\<close>

definition release_pending :: "input_world \<Rightarrow> bool" where
  "release_pending w \<longleftrightarrow> (\<exists>it \<in> set (iw_route w) \<union> set (iw_batch w). is_release it) \<or>
     (\<exists>it. iw_checked w = Some (it, True) \<and> is_release it)"

definition in_flight :: "(input_event \<Rightarrow> bool) \<Rightarrow> input_world \<Rightarrow> bool" where
  "in_flight c w \<longleftrightarrow> (\<exists>it. iw_checked w = Some (it, True) \<and> c (ib_ev it))"

lemma allowed_release [simp]: "allowed s ReleaseAll"
  by (simp add: allowed_def is_mouse_def is_keyboard_def)

lemma drop_dead_fields [simp]:
  "iw_sink (drop_dead alive w) = iw_sink w" "iw_records (drop_dead alive w) = iw_records w"
  "iw_elev (drop_dead alive w) = iw_elev w" "iw_route (drop_dead alive w) = iw_route w"
  "iw_batch (drop_dead alive w) = iw_batch w"
  by (simp_all add: drop_dead_def split: option.splits)

lemma drop_dead_flags [simp]:
  "sh_mouse (iw_shared (drop_dead alive w)) = sh_mouse (iw_shared w)"
  "sh_keyboard (iw_shared (drop_dead alive w)) = sh_keyboard (iw_shared w)"
  "iw_checked (drop_dead alive w) = iw_checked w"
  by (simp_all add: drop_dead_def split: option.splits)

lemma do_fields [simp]:
  "iw_shared (sink_do w v c) = iw_shared w" "iw_route (sink_do w v c) = iw_route w"
  "iw_batch (sink_do w v c) = iw_batch w" "iw_checked (sink_do w v c) = iw_checked w"
  "iw_elev (sink_do w v c) = iw_elev w" "iw_sink (elev_do w h e d) = iw_sink w"
  "iw_shared (elev_do w h e d) = iw_shared w" "iw_route (elev_do w h e d) = iw_route w"
  "iw_batch (elev_do w h e d) = iw_batch w" "iw_checked (elev_do w h e d) = iw_checked w"
  "iw_records (elev_do w h e d) = iw_records w"
  by (simp_all add: sink_do_def elev_do_def split: prod.splits)

lemma apply_fields [simp]:
  "iw_route (apply_event alive v e w) = iw_route w" "iw_batch (apply_event alive v e w) = iw_batch w"
  "iw_checked (apply_event alive v e w) = iw_checked w"
  "sh_mouse (iw_shared (apply_event alive v e w)) = sh_mouse (iw_shared w)"
  "sh_keyboard (iw_shared (apply_event alive v e w)) = sh_keyboard (iw_shared w)"
  by (simp_all add: apply_event_def Let_def split: input_event.splits option.splits)

lemma step_flags:
  "sh_mouse (iw_shared (in_step x w)) = sh_mouse (iw_shared w)"
  "sh_keyboard (iw_shared (in_step x w)) = sh_keyboard (iw_shared w)"
  by (auto simp: in_step_def in_wake_def in_check_def in_apply_def in_ack_def in_finish_def Let_def
      split: in_step.splits option.splits list.splits prod.splits)

locale input_class =
  fixes on :: "input_shared \<Rightarrow> bool"
    and cls :: "input_event \<Rightarrow> bool"
    and free :: "injector \<Rightarrow> bool"
    and quiet :: "os_input \<Rightarrow> bool"
  assumes on_cong: "sh_mouse s = sh_mouse s' \<Longrightarrow> sh_keyboard s = sh_keyboard s' \<Longrightarrow> on s = on s'"
    and allowed_on: "allowed s e \<Longrightarrow> cls e \<Longrightarrow> on s"
    and cls_release: "\<not> cls ReleaseAll"
    and free_new: "free injector_new"
    and free_release: "free (snd (release_records i))"
    and free_build: "free i \<Longrightarrow> \<not> cls e \<Longrightarrow> free (snd (inj_build i e d v))"
    and quiet_release: "r \<in> set (fst (release_records i)) \<Longrightarrow> quiet r"
    and quiet_build: "\<not> cls e \<Longrightarrow> r \<in> set (fst (inj_build i e d v)) \<Longrightarrow> quiet r"
begin

text \<open>With the permission off: a release is still on its way, or nothing of this kind is held.\<close>

definition settled :: "input_world \<Rightarrow> bool" where
  "settled w \<longleftrightarrow> release_pending w \<or> (free (iw_sink w) \<and> \<not> in_flight cls w)"

definition silent :: "input_world \<Rightarrow> input_world \<Rightarrow> bool" where
  "silent w w' \<longleftrightarrow> (\<exists>rs es. iw_records w' = iw_records w @ rs \<and> iw_elev w' = iw_elev w @ es \<and>
     (\<forall>r \<in> set rs. quiet r) \<and> (\<forall>(h, e, d) \<in> set es. \<not> cls e))"

lemma silentI:
  "iw_records w' = iw_records w @ rs \<Longrightarrow> iw_elev w' = iw_elev w @ es \<Longrightarrow> (\<And>r. r \<in> set rs \<Longrightarrow> quiet r) \<Longrightarrow>
     (\<And>h e d. (h, e, d) \<in> set es \<Longrightarrow> \<not> cls e) \<Longrightarrow> silent w w'"
  unfolding silent_def by blast

lemma silent_same: "iw_records w' = iw_records w \<Longrightarrow> iw_elev w' = iw_elev w \<Longrightarrow> silent w w'"
  by (rule silentI [of _ _ "[]" "[]"]) auto

lemma silent_refl [simp]: "silent w w"
  by (simp add: silent_same)

lemma silent_trans: "silent w1 w2 \<Longrightarrow> silent w2 w3 \<Longrightarrow> silent w1 w3"
  unfolding silent_def by (fastforce simp: ball_Un)

text \<open>Applying an event that is not of this kind.\<close>

lemma apply_silent:
  assumes "\<not> cls ev"
  shows "silent w (apply_event alive v ev w)"
proof (cases "ev = ReleaseAll")
  case True
  then show ?thesis
    using cls_release quiet_release [of _ "iw_sink w"]
    by (auto simp: apply_event_def sink_do_def elev_do_def inj_call_def Let_def intro!: silentI
        split: option.splits prod.splits)
next
  case False
  let ?w = "drop_dead alive w"
  have s: "silent w (sink_do ?w v (SC_Apply ev d))" for d
    using quiet_build [OF assms, of _ "iw_sink w" d v]
    by (auto simp: sink_do_def inj_call_def split: prod.splits intro!: silentI [of _ _ _ "[]"])
  have e: "silent w (elev_do ?w h ev d)" for h d
    using assms by (auto simp: elev_do_def intro!: silentI [of _ _ "[]"])
  have n: "silent w ?w" by (simp add: silent_same)
  show ?thesis
    using False s e n by (auto simp: apply_event_def Let_def split: input_event.splits option.splits)
qed

lemma apply_free:
  assumes "free (iw_sink w)" "\<not> cls ev"
  shows "free (iw_sink (apply_event alive v ev w))"
proof (cases "ev = ReleaseAll")
  case True
  then show ?thesis
    using free_release [of "iw_sink w"]
    by (auto simp: apply_event_def sink_do_def elev_do_def inj_call_def Let_def split: option.splits prod.splits)
next
  case False
  have "free (iw_sink (sink_do (drop_dead alive w) v (SC_Apply ev d)))" for d
    using free_build [OF assms, of d v] by (auto simp: sink_do_def inj_call_def split: prod.splits)
  then show ?thesis
    using False assms(1) by (auto simp: apply_event_def Let_def elev_do_def split: input_event.splits option.splits)
qed

lemma apply_release_free: "free (iw_sink (apply_event alive v ReleaseAll w))"
  using free_release [of "iw_sink w"]
  by (auto simp: apply_event_def sink_do_def elev_do_def inj_call_def Let_def split: option.splits prod.splits)

text \<open>One step of the thread while the permission is off.\<close>

lemma off_step:
  "\<not> on (iw_shared w) \<Longrightarrow> \<not> on (iw_shared (in_step x w))"
  using on_cong [of "iw_shared (in_step x w)" "iw_shared w"] by (simp add: step_flags)

lemma apply_step_fields:
  assumes "iw_checked w = Some (it, ok)"
  shows "iw_checked (in_apply alive v now took w) = None" "iw_route (in_apply alive v now took w) = iw_route w"
    "iw_batch (in_apply alive v now took w) = iw_batch w"
    "iw_sink (in_apply alive v now took w) = (if ok then iw_sink (apply_event alive v (ib_ev it) w) else iw_sink w)"
    "iw_records (in_apply alive v now took w) = (if ok then iw_records (apply_event alive v (ib_ev it) w) else iw_records w)"
    "iw_elev (in_apply alive v now took w) = (if ok then iw_elev (apply_event alive v (ib_ev it) w) else iw_elev w)"
  using assms by (simp_all add: in_apply_def Let_def)

lemma finish_cases:
  "in_finish v w = w \<or> silent w (in_finish v w) \<and> free (iw_sink (in_finish v w)) \<and> \<not> in_flight cls (in_finish v w)"
proof (cases "at_recv w \<and> iw_route w = [] \<and> iw_stop w")
  case True
  let ?w = "sink_do (w\<lparr>iw_done := True\<rparr>) v SC_ReleaseAll"
  have r: "iw_records ?w = iw_records w @ fst (release_records (iw_sink w))" "iw_sink ?w = snd (release_records (iw_sink w))"
    by (simp_all add: sink_do_def inj_call_def split: prod.splits)
  have w: "in_finish v w = ?w \<or> (\<exists>h d. in_finish v w = elev_do ?w h ReleaseAll d)"
    using True by (auto simp: in_finish_def Let_def split: option.splits list.splits)
  have s: "silent w ?w" "\<And>h d. silent w (elev_do ?w h ReleaseAll d)"
    using quiet_release cls_release by (auto simp: elev_do_def r intro!: silentI)
  have "free (iw_sink ?w)" "\<not> in_flight cls ?w"
    using True free_release by (simp_all add: r in_flight_def at_recv_def)
  then show ?thesis using w s by (auto simp: in_flight_def)
next
  case False
  then have "in_finish v w = w" unfolding in_finish_def by (rule if_not_P)
  then show ?thesis ..
qed

lemma step_silent:
  assumes off: "\<not> on (iw_shared w)" and fl: "\<not> in_flight cls w"
  shows "silent w (in_step x w) \<and> \<not> in_flight cls (in_step x w)"
proof (cases x)
  case I_Wake
  then show ?thesis using fl by (auto simp: in_step_def in_wake_def in_flight_def split: prod.splits intro: silent_same)
next
  case I_Check
  have "silent w (in_check w)"
    by (rule silent_same) (auto simp: in_check_def split: option.splits list.splits)
  moreover have "\<not> in_flight cls (in_check w)"
    using off fl allowed_on by (auto simp: in_check_def in_flight_def split: option.splits list.splits)
  ultimately show ?thesis using I_Check by (simp add: in_step_def)
next
  case (I_Apply alive v now took)
  show ?thesis
  proof (cases "iw_checked w")
    case None
    then show ?thesis using I_Apply fl by (simp add: in_step_def in_apply_def)
  next
    case (Some p)
    obtain it ok where p: "p = (it, ok)" by force
    note f = apply_step_fields [OF Some [unfolded p], of alive v now took]
    have "\<not> in_flight cls (in_apply alive v now took w)" by (simp add: in_flight_def f)
    moreover have "silent w (in_apply alive v now took w)"
    proof (cases ok)
      case True
      then have "\<not> cls (ib_ev it)" using fl Some p by (simp add: in_flight_def)
      from apply_silent [OF this, of w alive v] show ?thesis using f True by (simp add: silent_def)
    next
      case False
      then show ?thesis using f by (simp add: silent_same)
    qed
    ultimately show ?thesis using I_Apply by (simp add: in_step_def)
  qed
next
  case (I_Ack now)
  then show ?thesis using fl
    by (auto simp: in_step_def in_ack_def in_flight_def Let_def split: option.splits intro: silent_same)
next
  case (I_Finish v)
  then show ?thesis using finish_cases [of v w] fl by (auto simp: in_step_def)
qed

lemma step_settled:
  assumes off: "\<not> on (iw_shared w)" and st: "settled w"
  shows "settled (in_step x w)"
proof (cases x)
  case I_Wake
  show ?thesis
  proof (cases "at_recv w \<and> iw_route w \<noteq> []")
    case True
    obtain b n where c: "coalesce_moves (iw_route w) = (b, n)" by force
    have "(\<exists>it \<in> set b. is_release it) \<longleftrightarrow> (\<exists>it \<in> set (iw_route w). is_release it)"
      using coalesce_release [of "iw_route w"] c by simp
    then show ?thesis using True st I_Wake c
      by (auto simp: in_step_def in_wake_def settled_def release_pending_def in_flight_def at_recv_def)
  qed (use st I_Wake in \<open>auto simp: in_step_def in_wake_def\<close>)
next
  case I_Check
  show ?thesis
  proof (cases "iw_checked w = None \<and> iw_batch w \<noteq> []")
    case True
    then obtain it rest where b: "iw_batch w = it # rest" by (cases "iw_batch w") auto
    have ok: "allowed (iw_shared w) (ib_ev it)" if "is_release it" using that by (simp add: is_release_def)
    have "\<not> (allowed (iw_shared w) (ib_ev it) \<and> cls (ib_ev it))" using off allowed_on by blast
    then show ?thesis using True st b ok release_not_move [of it] I_Check
      by (auto simp: in_step_def in_check_def settled_def release_pending_def in_flight_def)
  next
    case False
    then have "in_check w = w" by (auto simp: in_check_def split: option.splits list.splits)
    then show ?thesis using st I_Check by (simp add: in_step_def)
  qed
next
  case (I_Apply alive v now took)
  show ?thesis
  proof (cases "iw_checked w")
    case None
    then show ?thesis using I_Apply st by (simp add: in_step_def in_apply_def)
  next
    case (Some p)
    obtain it ok where p: "p = (it, ok)" by force
    note f = apply_step_fields [OF Some [unfolded p], of alive v now took]
    let ?w = "in_apply alive v now took w"
    have nf: "\<not> in_flight cls ?w" by (simp add: in_flight_def f)
    consider (rel) "ok" "is_release it" | (pend) "\<exists>it \<in> set (iw_route w) \<union> set (iw_batch w). is_release it"
      | (free) "free (iw_sink w)" "\<not> in_flight cls w"
      using st Some p by (auto simp: settled_def release_pending_def)
    then have "settled ?w"
    proof cases
      case rel
      then have "free (iw_sink ?w)" using apply_release_free [of alive v w] f by (simp add: is_release_def)
      then show ?thesis using nf by (simp add: settled_def)
    next
      case pend
      then show ?thesis using f by (auto simp: settled_def release_pending_def)
    next
      case free
      have "free (iw_sink ?w)"
      proof (cases ok)
        case True
        then have "\<not> cls (ib_ev it)" using free(2) Some p by (simp add: in_flight_def)
        then show ?thesis using apply_free [OF free(1)] f True by simp
      qed (use free f in simp)
      then show ?thesis using nf by (simp add: settled_def)
    qed
    then show ?thesis using I_Apply by (simp add: in_step_def)
  qed
next
  case (I_Ack now)
  then show ?thesis using st
    by (auto simp: in_step_def in_ack_def settled_def release_pending_def in_flight_def Let_def split: option.splits)
next
  case (I_Finish v)
  then show ?thesis using finish_cases [of v w] st by (auto simp: in_step_def settled_def)
qed

text \<open>Outside the thread: a release was queued, or nothing but the shared state changed.\<close>

lemma settled_cong:
  assumes "iw_route w' = iw_route w \<or> (\<exists>it. iw_route w' = iw_route w @ [it])" "iw_batch w' = iw_batch w"
    "iw_checked w' = iw_checked w" "iw_sink w' = iw_sink w" "settled w"
  shows "settled w'"
  using assms unfolding settled_def release_pending_def in_flight_def by auto

end

section \<open>Mouse and keyboard\<close>

definition types :: "os_input \<Rightarrow> bool" where
  "types r = (case r of OS_Key _ f \<Rightarrow> KE_KeyUp \<notin> f | OS_Mouse _ _ _ _ \<Rightarrow> False)"

definition points :: "os_input \<Rightarrow> bool" where
  "points r = (case r of OS_Mouse f _ _ _ \<Rightarrow> \<not> f \<subseteq> {ME_LeftUp, ME_RightUp, ME_MiddleUp, ME_XUp} | OS_Key _ _ \<Rightarrow> False)"

lemma release_records_quiet:
  "r \<in> set (fst (release_records i)) \<Longrightarrow> \<not> types r" "r \<in> set (fst (release_records i)) \<Longrightarrow> \<not> points r"
proof -
  have b: "\<not> points (button_rec b False) \<and> \<not> types (button_rec b False)" for b
    by (cases b) (simp_all add: button_rec_def mouse_rec_def points_def types_def)
  show "\<not> types r" "\<not> points r" if "r \<in> set (fst (release_records i))"
    using that b by (auto simp: release_records_def key_up_rec_def types_def points_def)
qed

lemma button_rec_types [simp]: "\<not> types (button_rec b down)"
  by (cases b; cases down) (simp_all add: button_rec_def mouse_rec_def types_def)

interpretation keyboard: input_class sh_keyboard is_keyboard "\<lambda>i. in_keys i = []" "\<lambda>r. \<not> types r"
proof
  show "in_keys i = [] \<Longrightarrow> \<not> is_keyboard e \<Longrightarrow> in_keys (snd (inj_build i e d v)) = []" for i e d v
    by (cases e) (auto simp: is_keyboard_def inj_build_def release_records_def split: prod.splits)
  show "\<not> is_keyboard e \<Longrightarrow> r \<in> set (fst (inj_build i e d v)) \<Longrightarrow> \<not> types r" for e r i d v
    using release_records_quiet(1) [of r i] button_rec_types
    by (cases e) (auto simp: is_keyboard_def inj_build_def mouse_rec_def types_def [of "OS_Mouse _ _ _ _"]
        split: prod.splits if_splits)
qed (auto simp: allowed_def is_mouse_def is_keyboard_def injector_new_def release_records_quiet
     release_records_def split: input_event.splits if_splits)

interpretation mouse: input_class sh_mouse is_mouse "\<lambda>i. in_buttons i = []" "\<lambda>r. \<not> points r"
proof
  show "in_buttons i = [] \<Longrightarrow> \<not> is_mouse e \<Longrightarrow> in_buttons (snd (inj_build i e d v)) = []" for i e d v
    by (cases e) (auto simp: is_mouse_def inj_build_def release_records_def split: prod.splits)
  show "\<not> is_mouse e \<Longrightarrow> r \<in> set (fst (inj_build i e d v)) \<Longrightarrow> \<not> points r" for e r i d v
    using release_records_quiet(2) [of r i]
    by (cases e) (auto simp: is_mouse_def inj_build_def key_rec_def points_def split: prod.splits if_splits)
qed (auto simp: allowed_def is_mouse_def is_keyboard_def injector_new_def release_records_quiet
     release_records_def split: input_event.splits if_splits)

end
