(* ===== verification/Host_Props.thy ===== *)
theory Host_Props
  imports Host_Session Input_Props Transfers_Live
begin

text \<open>
  What a host session enforces: the permissions in force are never more than was granted, every part
  of the session follows them, and input that is no longer permitted stops and leaves nothing held.
\<close>

section \<open>The file manager keeps its switch\<close>

lemma accept_keeps_switch:
  "fm_allowed (accept_incoming m i n z now) = fm_allowed m" "fm_allowed (start_incoming m i n z now) = fm_allowed m"
  by (auto simp: accept_incoming_def start_incoming_def Let_def fm_simps split: option.splits prod.splits sum.splits)

lemma respond_keeps_switch: "fm_allowed (respond m i a now) = fm_allowed m"
  by (simp add: respond_def Let_def fm_simps accept_keeps_switch split: option.splits prod.splits)

lemma start_queued_keeps_switch:
  assumes "start_queued m now = Some m'"
  shows "fm_allowed m' = fm_allowed m"
proof (rule start_queued.raw_induct [OF _ assms, where P = "\<lambda>m now m'. fm_allowed m' = fm_allowed m"])
  fix f :: "manager \<Rightarrow> instant \<Rightarrow> manager option" and m now m'
  assume IH: "\<And>m now m'. f m now = Some m' \<Longrightarrow> fm_allowed m' = fm_allowed m"
    and e: "(if active_count m < fp_max_active (fm_policy m)
      then (case next_queued m of None \<Rightarrow> Some m | Some (tid, t) \<Rightarrow>
              f (start_incoming m tid (ti_name (tr_info t)) (ti_size (tr_info t)) now) now)
      else Some m) = Some m'"
  show "fm_allowed m' = fm_allowed m"
  proof (cases "active_count m < fp_max_active (fm_policy m) \<and> next_queued m \<noteq> None")
    case True
    then obtain i t where "next_queued m = Some (i, t)" by auto
    then have "f (start_incoming m i (ti_name (tr_info t)) (ti_size (tr_info t)) now) now = Some m'"
      using e True by simp
    from IH [OF this] show ?thesis by (simp add: accept_keeps_switch)
  next
    case False
    then have "m' = m" using e by (cases "next_queued m") (auto split: if_splits)
    then show ?thesis by simp
  qed
qed

lemma offer_keeps_switch: "fm_allowed (snd (t_offer m p n now)) = fm_allowed m"
  by (auto simp: t_offer_def alloc_id_def Let_def fm_simps split: option.splits prod.splits)

lemma offers_keep_switch: "fm_allowed (foldl (\<lambda>m (q, n). snd (t_offer m q n now)) m fs) = fm_allowed m"
proof (induction fs arbitrary: m)
  case (Cons x fs)
  obtain q n where "x = (q, n)" by force
  then show ?case using Cons.IH [of "snd (t_offer m q n now)"] offer_keeps_switch [of m q n now] by simp
qed simp

lemma on_file_msg_keeps_switch:
  assumes "on_file_msg sha m x env now = Some m'"
  shows "fm_allowed m' = fm_allowed m"
proof (cases "fm_allowed m")
  case False
  then show ?thesis using assms by (auto simp: on_file_msg_def fm_simps split: file_msg.splits)
next
  case True
  have d: "fm_allowed (done_file sha m i t inc h env) = fm_allowed m" for i t inc h
    by (auto simp: done_file_def Let_def fm_simps split: sum.splits prod.splits)
  have o: "fm_allowed (on_offer m i n z now) = fm_allowed m" for i n z
    by (auto simp: on_offer_def Let_def fm_simps accept_keeps_switch split: side.splits)
  have a: "fm_allowed (on_accept m i r) = fm_allowed m" for i r
    by (auto simp: on_accept_def Let_def fm_simps split: option.splits)
  have c: "fm_allowed (on_chunk m i off data env now) = fm_allowed m" for i off data
    by (auto simp: on_chunk_def Let_def fm_simps split: option.splits prod.splits sum.splits)
  have l: "fm_allowed (on_list m p env) = fm_allowed m" for p
    by (simp add: on_list_def fm_simps)
  have f: "fm_allowed (on_fetch m i p env now) = fm_allowed m" for i p
    by (auto simp: on_fetch_def fm_simps offers_keep_switch offer_keeps_switch split: option.splits list.splits)
  have q: "fm_allowed m' = fm_allowed m" if "on_done sha m i h env now = Some m'" for i h
    using that start_queued_keeps_switch [of _ now m'] d by (auto simp: on_done_def split: option.splits)
  show ?thesis
    using assms True
    by (cases x) (simp_all add: on_file_msg_def o a c l f fm_simps q split: if_splits, auto simp: fm_simps o a c l f)
qed

lemma set_allowed_switch: "fm_allowed (fm_set_allowed m b) = b"
proof (cases b)
  case False
  have "fm_set_allowed m False = foldl t_cancel (m\<lparr>fm_allowed := False\<rparr>)
      (map fst (filter (\<lambda>(_, t). ti_status (tr_info t) \<in> {TS_Active, TS_Pending, TS_Paused})
        (fm_transfers (m\<lparr>fm_allowed := False\<rparr>))))"
    unfolding fm_set_allowed_def Let_def cancel_all_def by simp
  then show ?thesis using False by (simp add: foldl_cancel_fields)
qed (simp add: fm_set_allowed_def)

section \<open>The invariant\<close>

definition video_paused :: "video_ctl list \<Rightarrow> bool" where
  "video_paused cs = fold (\<lambda>c p. case c of VC_Pause b \<Rightarrow> b | _ \<Rightarrow> p) cs False"

lemma video_paused_snoc [simp]:
  "video_paused (cs @ [c]) = (case c of VC_Pause b \<Rightarrow> b | _ \<Rightarrow> video_paused cs)"
  by (cases c) (simp_all add: video_paused_def)

abbreviation ho_shared :: "'b host \<Rightarrow> input_shared" where
  "ho_shared s \<equiv> iw_shared (ho_input s)"

text \<open>The permissions the input thread sees: the ones in force, or those about to be.\<close>

definition current_perms :: "'b host \<Rightarrow> permissions" where
  "current_perms s = (case ho_mid s of None \<Rightarrow> ho_perms s | Some (new, _) \<Rightarrow> new)"

lemma current_perms_upd [simp]:
  "current_perms (s\<lparr>ho_input := w\<rparr>) = current_perms s" "current_perms (on_shared f s) = current_perms s"
  by (simp_all add: current_perms_def on_shared_def split: option.split)

definition host_ok :: "permissions \<Rightarrow> 'b host \<Rightarrow> bool" where
  "host_ok granted s \<longleftrightarrow>
     perm_le (ho_perms s) (ho_max_perms s) \<and> perm_le (ho_max_perms s) granted \<and>
     perm_le (current_perms s) (ho_max_perms s) \<and>
     (\<forall>new l. ho_mid s = Some (new, l) \<longrightarrow> l = lost_input (ho_perms s) new) \<and>
     sh_mouse (ho_shared s) = p_mouse (current_perms s) \<and>
     sh_keyboard (ho_shared s) = p_keyboard (current_perms s) \<and>
     (ho_guard s \<noteq> None \<longleftrightarrow> p_elevated (current_perms s)) \<and>
     (sh_elevated (ho_shared s) \<noteq> None \<longrightarrow> sh_elevated (ho_shared s) = ho_guard s) \<and>
     (sh_elevated_lost (ho_shared s) \<longrightarrow> sh_elevated (ho_shared s) = None) \<and>
     fm_allowed (ho_files s) = p_files (ho_perms s) \<and>
     video_paused (ho_video s) = (\<not> p_view (ho_perms s)) \<and>
     (iw_elev (ho_input s) \<noteq> [] \<longrightarrow> p_elevated granted)"

lemma host_ok_guard: "host_ok granted s \<Longrightarrow> ho_guard s \<noteq> None \<Longrightarrow> p_elevated granted"
  by (auto simp: host_ok_def perm_le_def)

text \<open>A step that touches none of this.\<close>

definition host_frame :: "'b host \<Rightarrow> 'b host \<Rightarrow> bool" where
  "host_frame s s' \<longleftrightarrow> ho_perms s' = ho_perms s \<and> ho_max_perms s' = ho_max_perms s \<and> ho_mid s' = ho_mid s \<and>
     ho_guard s' = ho_guard s \<and> sh_mouse (ho_shared s') = sh_mouse (ho_shared s) \<and>
     sh_keyboard (ho_shared s') = sh_keyboard (ho_shared s) \<and>
     sh_elevated (ho_shared s') = sh_elevated (ho_shared s) \<and>
     sh_elevated_lost (ho_shared s') = sh_elevated_lost (ho_shared s) \<and>
     fm_allowed (ho_files s') = fm_allowed (ho_files s) \<and> video_paused (ho_video s') = video_paused (ho_video s) \<and>
     iw_elev (ho_input s') = iw_elev (ho_input s)"

lemma host_frame_ok:
  assumes "host_frame s s'" and "host_ok granted s"
  shows "host_ok granted s'"
proof -
  have "current_perms s' = current_perms s" using assms(1) by (simp add: host_frame_def current_perms_def split: option.splits)
  then show ?thesis using assms unfolding host_frame_def host_ok_def by simp
qed

lemma host_frame_refl [simp]: "host_frame s s"
  by (simp add: host_frame_def)

lemma host_frame_trans: "host_frame s1 s2 \<Longrightarrow> host_frame s2 s3 \<Longrightarrow> host_frame s1 s3"
  by (simp add: host_frame_def)

lemmas host_defs = ho_send_def ho_emit_def ho_control_def on_shared_def release_all_def route_send_def
  set_active_def set_displays_def

lemma host_frame_msg:
  assumes "host_msg s m env = Some s'"
  shows "host_frame s s'"
proof (cases m)
  case (M_File f)
  then show ?thesis using assms on_file_msg_keeps_switch by (auto simp: host_msg_def Let_def host_frame_def)
next
  case (M_SelectDisplay i)
  then show ?thesis using assms
    by (auto simp: host_msg_def Let_def host_frame_def select_display_def host_defs split: if_splits)
next
  case (M_SetQuality q)
  then show ?thesis using assms
    by (auto simp: host_msg_def Let_def host_frame_def set_quality_def host_defs split: if_splits)
next
  case (M_Clipboard c)
  then show ?thesis using assms
    by (auto simp: host_msg_def Let_def host_frame_def host_clipboard_def split: if_splits option.splits)
next
  case (M_Pong t)
  then show ?thesis using assms
    by (auto simp: host_msg_def Let_def host_frame_def on_pong_def split: prod.splits)
qed (use assms in \<open>auto simp: host_msg_def Let_def host_frame_def host_defs split: if_splits\<close>)

lemma host_frame_video: "host_frame s (host_video_event s e)"
  by (cases e) (simp_all add: host_video_event_def host_frame_def host_defs Let_def)

lemma host_frame_clip: "host_frame s (host_clip_tick s env)"
  by (simp add: host_clip_tick_def host_frame_def host_defs split: option.splits prod.splits clipboard_payload.splits)

lemma host_frame_probe: "host_frame s (host_probe s env)"
  by (simp add: host_probe_def host_frame_def host_defs)

lemma host_frame_ping: "host_frame s (host_ping s env)"
  by (simp add: host_ping_def host_frame_def host_defs Let_def)

text \<open>The input thread writes to an elevated path only while there is one, and only ever drops it.\<close>

lemma apply_elev:
  "sh_elevated (iw_shared (apply_event alive v e w)) \<in> {None, sh_elevated (iw_shared w)}"
  "sh_elevated_lost (iw_shared (apply_event alive v e w)) \<longrightarrow>
     sh_elevated_lost (iw_shared w) \<or> sh_elevated (iw_shared (apply_event alive v e w)) = None"
  "iw_elev (apply_event alive v e w) \<noteq> iw_elev w \<longrightarrow> sh_elevated (iw_shared w) \<noteq> None"
  by (auto simp: apply_event_def Let_def drop_dead_def elev_do_def split: input_event.splits option.splits)

lemma step_elev:
  "sh_elevated (iw_shared (in_step x w)) \<in> {None, sh_elevated (iw_shared w)}"
  "sh_elevated_lost (iw_shared (in_step x w)) \<longrightarrow>
     sh_elevated_lost (iw_shared w) \<or> sh_elevated (iw_shared (in_step x w)) = None"
  "iw_elev (in_step x w) \<noteq> iw_elev w \<longrightarrow> sh_elevated (iw_shared w) \<noteq> None"
proof -
  have f: "iw_shared (in_finish v w) = iw_shared w" "iw_elev (in_finish v w) \<noteq> iw_elev w \<longrightarrow> sh_elevated (iw_shared w) \<noteq> None" for v
    by (auto simp: in_finish_def Let_def elev_do_def split: option.splits list.splits)
  have a: "sh_elevated (iw_shared (in_apply alive v now took w)) \<in> {None, sh_elevated (iw_shared w)}"
    "sh_elevated_lost (iw_shared (in_apply alive v now took w)) \<longrightarrow>
       sh_elevated_lost (iw_shared w) \<or> sh_elevated (iw_shared (in_apply alive v now took w)) = None"
    "iw_elev (in_apply alive v now took w) \<noteq> iw_elev w \<longrightarrow> sh_elevated (iw_shared w) \<noteq> None" for alive v now took
    using apply_elev [of alive v _ w] by (auto simp: in_apply_def Let_def split: option.splits)
  show "sh_elevated (iw_shared (in_step x w)) \<in> {None, sh_elevated (iw_shared w)}"
    using a(1) f by (cases x)
      (auto simp: in_step_def in_wake_def in_check_def in_ack_def Let_def split: option.splits list.splits prod.splits)
  show "sh_elevated_lost (iw_shared (in_step x w)) \<longrightarrow>
     sh_elevated_lost (iw_shared w) \<or> sh_elevated (iw_shared (in_step x w)) = None"
    using a(2) f by (cases x)
      (auto simp: in_step_def in_wake_def in_check_def in_ack_def Let_def split: option.splits list.splits prod.splits)
  show "iw_elev (in_step x w) \<noteq> iw_elev w \<longrightarrow> sh_elevated (iw_shared w) \<noteq> None"
    using a(3) f by (cases x)
      (auto simp: in_step_def in_wake_def in_check_def in_ack_def Let_def split: option.splits list.splits prod.splits)
qed

section \<open>Every step keeps the invariant\<close>

lemma perm_le_drop: "perm_le (p\<lparr>p_elevated := False\<rparr>) p" "perm_le p q \<Longrightarrow> perm_le (p\<lparr>p_elevated := False\<rparr>) (q\<lparr>p_elevated := False\<rparr>)"
  by (simp_all add: perm_le_def)

lemma begin_permissions_ok:
  assumes ok: "host_ok granted s" and mid: "ho_mid s = None"
  shows "host_ok granted (begin_permissions s p env)"
proof -
  define q where "q = intersect p (ho_max_perms s)"
  have q: "perm_le q (ho_max_perms s)" unfolding q_def by (rule intersect_le)
  have cur: "current_perms s = ho_perms s" using mid by (simp add: current_perms_def)
  obtain new s1 where e: "elevate_change s q env = (new, s1)" by force
  have new: "perm_le new (ho_max_perms s)"
    using q e by (auto simp: elevate_change_def perm_le_def split: if_splits option.splits)
  have s1: "ho_perms s1 = ho_perms s" "ho_max_perms s1 = ho_max_perms s" "ho_mid s1 = None"
      "sh_mouse (ho_shared s1) = sh_mouse (ho_shared s)" "sh_keyboard (ho_shared s1) = sh_keyboard (ho_shared s)"
      "ho_files s1 = ho_files s" "video_paused (ho_video s1) = video_paused (ho_video s)"
      "iw_elev (ho_input s1) = iw_elev (ho_input s)"
    using e mid
    by (auto simp: elevate_change_def host_defs set_elevated_def split: if_splits option.splits)
  have g: "ho_guard s1 \<noteq> None \<longleftrightarrow> p_elevated new"
      "sh_elevated (ho_shared s1) \<noteq> None \<longrightarrow> sh_elevated (ho_shared s1) = ho_guard s1"
      "sh_elevated_lost (ho_shared s1) \<longrightarrow> sh_elevated (ho_shared s1) = None"
  proof -
    have h: "ho_guard s \<noteq> None \<longleftrightarrow> p_elevated (ho_perms s)"
        "sh_elevated (ho_shared s) \<noteq> None \<longrightarrow> sh_elevated (ho_shared s) = ho_guard s"
        "sh_elevated_lost (ho_shared s) \<longrightarrow> sh_elevated (ho_shared s) = None"
      using ok cur by (simp_all add: host_ok_def)
    consider (on) h where "s1 = (ho_control (on_shared (\<lambda>sh. set_elevated sh (Some h)) s) (VC_Elevated (Some h)))
          \<lparr>ho_guard := Some h\<rparr>" "p_elevated new"
      | (off) "s1 = (ho_control (on_shared (\<lambda>sh. set_elevated sh None) s) (VC_Elevated None))\<lparr>ho_guard := None\<rparr>"
          "\<not> p_elevated new"
      | (same) "s1 = s" "p_elevated new = p_elevated (ho_perms s)"
      using e by (auto simp: elevate_change_def split: if_splits option.splits)
    then show "ho_guard s1 \<noteq> None \<longleftrightarrow> p_elevated new"
        "sh_elevated (ho_shared s1) \<noteq> None \<longrightarrow> sh_elevated (ho_shared s1) = ho_guard s1"
        "sh_elevated_lost (ho_shared s1) \<longrightarrow> sh_elevated (ho_shared s1) = None"
      by (cases; use h in \<open>simp add: host_defs set_elevated_def\<close>)+
  qed
  show ?thesis
  proof (cases "new = ho_perms s")
    case True
    then have "begin_permissions s p env = s1" using e by (simp add: begin_permissions_def q_def)
    then show ?thesis using ok cur s1 g True by (simp add: host_ok_def current_perms_def)
  next
    case False
    then have b: "begin_permissions s p env =
        (on_shared (\<lambda>sh. set_permissions sh new) s1)\<lparr>ho_mid := Some (new, lost_input (ho_perms s) new)\<rparr>"
      using e by (simp add: begin_permissions_def q_def)
    show ?thesis unfolding b
      using ok cur s1 g new by (simp add: host_ok_def current_perms_def on_shared_def set_permissions_def)
  qed
qed

lemma end_permissions_ok:
  assumes ok: "host_ok granted s"
  shows "host_ok granted (end_permissions s env)"
proof (cases "ho_mid s")
  case None
  then show ?thesis using ok by (simp add: end_permissions_def)
next
  case (Some p)
  obtain new l where p: "p = (new, l)" by force
  then have "current_perms s = new" using Some by (simp add: current_perms_def)
  then show ?thesis using ok Some p
    by (auto simp: host_ok_def end_permissions_def current_perms_def Let_def host_defs set_allowed_switch)
qed

lemma elevation_lost_ok:
  assumes "host_ok granted s" "ho_mid s = None" "sh_elevated (ho_shared s) = None"
  shows "host_ok granted (elevation_lost s)"
  using assms perm_le_drop(2) [of "ho_perms s" "ho_max_perms s"]
    perm_le_trans [OF perm_le_drop(1) [of "ho_max_perms s"], of granted]
  by (simp add: host_ok_def elevation_lost_def Let_def host_defs current_perms_def)

lemma host_frame_adapt:
  "host_frame s (case ho_adapter s of None \<Rightarrow> s
     | Some a \<Rightarrow> (case ad_update a smp now of
           (Some t, a1) \<Rightarrow> ho_control (s\<lparr>ho_adapter := Some a1\<rparr>) (VC_Target t)
         | (None, a1) \<Rightarrow> s\<lparr>ho_adapter := Some a1\<rparr>))"
  by (simp add: host_frame_def host_defs split: option.splits prod.splits)

lemma take_lost_ok:
  assumes "host_ok granted s"
  shows "host_ok granted (on_shared (\<lambda>sh. snd (take_elevated_lost sh)) s)"
  using assms by (simp add: host_ok_def, simp add: on_shared_def take_elevated_lost_def)

lemma host_adapt_ok:
  assumes ok: "host_ok granted s" and mid: "ho_mid s = None"
  shows "host_ok granted (host_adapt_tick s env)"
proof -
  define s1 where "s1 = (if p_elevated (ho_perms s)
     then (case take_elevated_lost (ho_shared s) of (lost, sh) \<Rightarrow>
             let s0 = on_shared (\<lambda>_. sh) s in if lost then elevation_lost s0 else s0)
     else s)"
  have t: "on_shared (\<lambda>_. snd (take_elevated_lost (ho_shared s))) s = on_shared (\<lambda>sh. snd (take_elevated_lost sh)) s"
    by (simp add: on_shared_def)
  have ok1: "host_ok granted s1"
  proof (cases "p_elevated (ho_perms s)")
    case True
    let ?s0 = "on_shared (\<lambda>sh. snd (take_elevated_lost sh)) s"
    have e: "s1 = (if sh_elevated_lost (ho_shared s) then elevation_lost ?s0 else ?s0)"
      using True t by (simp add: s1_def Let_def take_elevated_lost_def)
    have "sh_elevated_lost (ho_shared s) \<Longrightarrow> sh_elevated (ho_shared ?s0) = None" "ho_mid ?s0 = None"
      using ok mid by (simp_all add: host_ok_def on_shared_def take_elevated_lost_def)
    then show ?thesis using e take_lost_ok [OF ok] elevation_lost_ok [of granted ?s0] by simp
  qed (use ok in \<open>simp add: s1_def\<close>)
  let ?s2 = "s1\<lparr>ho_last_dropped := he_video_dropped env\<rparr>"
  have "host_frame s1 ?s2" by (simp add: host_frame_def)
  note ok2 = host_frame_ok [OF this ok1]
  define smp where "smp = \<lparr>s_rtt_ms = ho_rtt_ms s1, s_send_delay_ms = r32 (r32 (of_nat (unat (he_video_send_us env))) / 1000),
    s_dropped = ucast (sat_sub (he_video_dropped env) (ho_last_dropped s1))\<rparr>"
  have "host_adapt_tick s env = (case ho_adapter ?s2 of None \<Rightarrow> ?s2
     | Some a \<Rightarrow> (case ad_update a smp (he_now env) of
           (Some t, a1) \<Rightarrow> ho_control (?s2\<lparr>ho_adapter := Some a1\<rparr>) (VC_Target t)
         | (None, a1) \<Rightarrow> ?s2\<lparr>ho_adapter := Some a1\<rparr>))"
    unfolding host_adapt_tick_def smp_def s1_def by (simp only: Let_def)
  then show ?thesis using host_frame_ok [OF host_frame_adapt ok2] by simp
qed

lemma thread_ok:
  assumes ok: "host_ok granted s"
  shows "host_ok granted (s\<lparr>ho_input := in_step x (ho_input s)\<rparr>)"
proof -
  have g: "sh_elevated (ho_shared s) \<noteq> None \<Longrightarrow> p_elevated granted"
    using ok host_ok_guard [OF ok] by (auto simp: host_ok_def)
  have c: "current_perms (s\<lparr>ho_input := in_step x (ho_input s)\<rparr>) = current_perms s" by simp
  let ?w = "in_step x (ho_input s)"
  have o: "sh_elevated (ho_shared s) \<noteq> None \<longrightarrow> sh_elevated (ho_shared s) = ho_guard s"
      "sh_elevated_lost (ho_shared s) \<longrightarrow> sh_elevated (ho_shared s) = None"
      "iw_elev (ho_input s) \<noteq> [] \<longrightarrow> p_elevated granted"
    using ok by (simp_all add: host_ok_def)
  have e: "sh_elevated (iw_shared ?w) \<noteq> None \<longrightarrow> sh_elevated (iw_shared ?w) = ho_guard s"
      "sh_elevated_lost (iw_shared ?w) \<longrightarrow> sh_elevated (iw_shared ?w) = None"
      "iw_elev ?w \<noteq> [] \<longrightarrow> p_elevated granted"
    using o g step_elev [where x = x and w = "ho_input s"] by (metis empty_iff insert_iff)+
  show ?thesis using ok e unfolding host_ok_def c by (simp add: step_flags)
qed

lemma host_command_ok:
  assumes "host_ok granted s" "ho_mid s = None"
  shows "host_ok granted (host_command s c env)"
proof (cases c)
  case (HC_SetPermissions p)
  then show ?thesis using begin_permissions_ok [OF assms] by (simp add: host_command_def)
next
  case (HC_Chat t)
  have "host_frame s (host_command s c env)" using HC_Chat by (simp add: host_command_def host_frame_def host_defs)
  then show ?thesis by (rule host_frame_ok [OF _ assms(1)])
next
  case HC_Kick
  have "host_frame s (host_command s c env)" using HC_Kick by (simp add: host_command_def host_frame_def host_defs)
  then show ?thesis by (rule host_frame_ok [OF _ assms(1)])
next
  case (HC_ApproveFile i a)
  have "host_frame s (host_command s c env)" using HC_ApproveFile
    by (simp add: host_command_def host_frame_def respond_keeps_switch)
  then show ?thesis by (rule host_frame_ok [OF _ assms(1)])
qed

lemma host_step_ok:
  assumes "host_ok granted s" and "host_step s x = Some s'"
  shows "host_ok granted s'"
proof (cases x)
  case (HS_Thread t)
  then show ?thesis using assms thread_ok by (auto simp: host_step_def)
next
  case (HS_Permissions env)
  then show ?thesis using assms end_permissions_ok by (auto simp: host_step_def)
next
  case (HS_Input it)
  have "host_frame s s'" using assms(2) HS_Input by (auto simp: host_step_def host_frame_def route_send_def)
  then show ?thesis by (rule host_frame_ok [OF _ assms(1)])
next
  case (HS_Msg m env)
  have "host_frame s s'" using assms(2) HS_Msg host_frame_msg by (auto simp: host_step_def split: if_splits)
  then show ?thesis by (rule host_frame_ok [OF _ assms(1)])
next
  case (HS_Cmd c env)
  then show ?thesis using assms host_command_ok by (auto simp: host_step_def in_loop_def split: if_splits)
next
  case (HS_Adapt env)
  then show ?thesis using assms host_adapt_ok by (auto simp: host_step_def in_loop_def split: if_splits)
next
  case (HS_Video e)
  have "host_frame s s'" using assms(2) HS_Video host_frame_video by (auto simp: host_step_def split: if_splits)
  then show ?thesis by (rule host_frame_ok [OF _ assms(1)])
next
  case (HS_Clip env)
  have "host_frame s s'" using assms(2) HS_Clip host_frame_clip by (auto simp: host_step_def split: if_splits)
  then show ?thesis by (rule host_frame_ok [OF _ assms(1)])
next
  case (HS_Probe env)
  have "host_frame s s'" using assms(2) HS_Probe host_frame_probe by (auto simp: host_step_def split: if_splits)
  then show ?thesis by (rule host_frame_ok [OF _ assms(1)])
next
  case (HS_Ping env)
  have "host_frame s s'" using assms(2) HS_Ping host_frame_ping by (auto simp: host_step_def split: if_splits)
  then show ?thesis by (rule host_frame_ok [OF _ assms(1)])
next
  case HS_Closed
  have "host_frame s s'" using assms(2) HS_Closed by (auto simp: host_step_def host_frame_def split: if_splits)
  then show ?thesis by (rule host_frame_ok [OF _ assms(1)])
qed

lemma host_start_ok:
  assumes "host_start no cfg name auth link granted screen clip fs env = Inr s"
  shows "host_ok granted s" "ho_mid s = None" "ho_ended s = None"
proof -
  obtain perms notices elev where e: "host_elevate granted (he_begin env) = (perms, notices, elev)"
    by (metis prod_cases3)
  obtain ds where ds: "screen = Some ds" using assms e by (cases screen) (auto simp: host_start_def)
  have p: "perm_le perms granted" "elev \<noteq> None \<longleftrightarrow> p_elevated perms" "elev \<noteq> None \<longrightarrow> p_elevated granted"
    using e by (cases "he_begin env"; auto simp: host_elevate_def perm_le_def split: if_splits)+
  have s: "ho_perms s = perms" "ho_max_perms s = perms" "ho_mid s = None" "ho_guard s = elev" "ho_ended s = None"
    "ho_files s = manager_new (host_policy cfg) (p_files perms) fs"
    "ho_video s = VC_Pause (\<not> p_view perms) # (case elev of Some h \<Rightarrow> [VC_Elevated (Some h)] | None \<Rightarrow> [])"
    "ho_input s = input_spawn (case elev of Some h \<Rightarrow> set_elevated (shared_new perms ds (primary_index ds)) (Some h)
       | None \<Rightarrow> shared_new perms ds (primary_index ds)) (he_now env)"
    using assms e ds by (auto simp: host_start_def Let_def)
  show "ho_mid s = None" "ho_ended s = None" using s by simp_all
  have v: "video_paused (ho_video s) = (\<not> p_view perms)"
    unfolding s(7) by (simp add: video_paused_def split: option.splits)
  show "host_ok granted s"
    using p v s by (cases elev)
      (simp_all add: host_ok_def current_perms_def manager_new_def input_spawn_def shared_new_def set_elevated_def)
qed

inductive host_reachable :: "permissions \<Rightarrow> 'b host \<Rightarrow> bool" for granted where
  host_reach_start: "host_start no cfg name auth link granted screen clip fs env = Inr s \<Longrightarrow> host_reachable granted s"
| host_reach_step: "host_reachable granted s \<Longrightarrow> host_step s x = Some s' \<Longrightarrow> host_reachable granted s'"
| host_reach_stop: "host_reachable granted s \<Longrightarrow> host_reachable granted (host_stop s)"

lemma host_frame_stop: "host_frame s (host_stop s)"
  by (simp add: host_stop_def host_frame_def)

lemma host_reachable_ok: "host_reachable granted s \<Longrightarrow> host_ok granted s"
proof (induction rule: host_reachable.induct)
  case (host_reach_start no cfg name auth link screen clip fs env s)
  then show ?case by (rule host_start_ok(1))
next
  case (host_reach_step s x s')
  then show ?case using host_step_ok by blast
next
  case (host_reach_stop s)
  then show ?case using host_frame_ok host_frame_stop by blast
qed

text \<open>
  At every moment of a host session the permissions in force are within what was granted, and,
  between two commands of the owner, every part of the session follows them: the input thread's flags
  are the mouse and keyboard permissions, the file manager is open exactly with the file permission,
  the video thread is paused exactly without the view permission, an elevated grant is held exactly
  with the elevated permission, and input goes to that grant if to any. Without elevated control in
  the grant nothing is ever written to an elevated path.
\<close>

theorem permissions_never_exceed_grant:
  assumes "host_reachable granted s"
  shows "perm_le (ho_perms s) granted \<and>
    (ho_mid s = None \<longrightarrow>
       sh_mouse (ho_shared s) = p_mouse (ho_perms s) \<and> sh_keyboard (ho_shared s) = p_keyboard (ho_perms s) \<and>
       (ho_guard s \<noteq> None \<longleftrightarrow> p_elevated (ho_perms s))) \<and>
    fm_allowed (ho_files s) = p_files (ho_perms s) \<and> video_paused (ho_video s) = (\<not> p_view (ho_perms s)) \<and>
    (\<forall>h. sh_elevated (ho_shared s) = Some h \<longrightarrow> ho_guard s = Some h) \<and>
    (\<not> p_elevated granted \<longrightarrow> iw_elev (ho_input s) = [] \<and> ho_guard s = None)"
proof -
  have ok: "host_ok granted s" by (rule host_reachable_ok [OF assms])
  have "perm_le (ho_perms s) granted" using ok perm_le_trans by (auto simp: host_ok_def)
  then show ?thesis using ok host_ok_guard [OF ok] by (auto simp: host_ok_def current_perms_def)
qed

end
