(* ===== verification/Host_Revoke.thy ===== *)
theory Host_Revoke
  imports Host_Props
begin

text \<open>
  Withdrawing the mouse or the keyboard permission during a session: no more input of that kind is
  injected, and what was held is released, whatever the input thread was doing.
\<close>

section \<open>What the system holds follows the injector\<close>

definition sink_tracked :: "input_world \<Rightarrow> bool" where
  "sink_tracked w \<longleftrightarrow> inj_ok (iw_sink w) \<and> os_run (iw_records w) ({}, {}) = held_of (iw_sink w)"

lemma tracks_empty: "tracks ({}, {}) i h \<longleftrightarrow> h = held_of i"
  by (auto simp: tracks_def intro: prod_eqI)

lemma sink_do_tracked: "sink_tracked w \<Longrightarrow> sink_tracked (sink_do w v c)"
  using inj_call_ok(1) [of "iw_sink w" v c] inj_call_ok(2) [of "iw_sink w" "({}, {})" "held_of (iw_sink w)" v c]
  by (auto simp: sink_tracked_def sink_do_def tracks_empty split: prod.splits)

lemma sink_tracked_cong:
  "iw_sink w' = iw_sink w \<Longrightarrow> iw_records w' = iw_records w \<Longrightarrow> sink_tracked w' = sink_tracked w"
  by (simp add: sink_tracked_def)

lemma apply_tracked:
  assumes "sink_tracked w"
  shows "sink_tracked (apply_event alive v e w)"
proof -
  have d: "sink_tracked (drop_dead alive w)" using assms by (simp add: sink_tracked_cong [of "drop_dead alive w" w])
  have l: "sink_tracked (elev_do (drop_dead alive w) h ev disp)" for h ev disp
    using d by (simp add: sink_tracked_cong [of "elev_do (drop_dead alive w) h ev disp" "drop_dead alive w"])
  show ?thesis
    using d l sink_do_tracked [OF d] sink_do_tracked [OF l]
    by (auto simp: apply_event_def Let_def split: input_event.splits option.splits)
qed

lemma in_step_tracked:
  assumes "sink_tracked w"
  shows "sink_tracked (in_step x w)"
proof (cases x)
  case I_Wake
  have "iw_sink (in_wake w) = iw_sink w" "iw_records (in_wake w) = iw_records w"
    by (simp_all add: in_wake_def split: prod.splits)
  then show ?thesis using assms I_Wake by (simp add: in_step_def sink_tracked_def)
next
  case I_Check
  have "iw_sink (in_check w) = iw_sink w" "iw_records (in_check w) = iw_records w"
    by (simp_all add: in_check_def split: option.splits list.splits)
  then show ?thesis using assms I_Check by (simp add: in_step_def sink_tracked_def)
next
  case (I_Apply alive v now took)
  show ?thesis
  proof (cases "iw_checked w")
    case None
    then show ?thesis using assms I_Apply by (simp add: in_step_def in_apply_def)
  next
    case (Some p)
    obtain it ok where p: "iw_checked w = Some (it, ok)" using Some by (cases p) simp
    show ?thesis
      using assms apply_tracked [OF assms, of alive v "ib_ev it"]
        keyboard.apply_step_fields(4,5) [OF p, of alive v now took] I_Apply
      by (cases ok) (simp_all add: in_step_def sink_tracked_def)
  qed
next
  case (I_Ack now)
  have "iw_sink (in_ack now w) = iw_sink w" "iw_records (in_ack now w) = iw_records w"
    by (simp_all add: in_ack_def Let_def split: option.splits)
  then show ?thesis using assms I_Ack by (simp add: in_step_def sink_tracked_def)
next
  case (I_Finish v)
  have "sink_tracked (w\<lparr>iw_done := True\<rparr>)" using assms by (simp add: sink_tracked_def)
  from sink_do_tracked [OF this, of v SC_ReleaseAll] have "sink_tracked (in_finish v w)"
    using assms by (auto simp: in_finish_def Let_def sink_tracked_def split: option.splits list.splits)
  then show ?thesis using I_Finish by (simp add: in_step_def)
qed

section \<open>The session loop does not touch the thread\<close>

definition outside :: "input_world \<Rightarrow> input_world \<Rightarrow> bool" where
  "outside w w' \<longleftrightarrow> (iw_route w' = iw_route w \<or> (\<exists>it. iw_route w' = iw_route w @ [it])) \<and>
     iw_batch w' = iw_batch w \<and> iw_checked w' = iw_checked w \<and> iw_sink w' = iw_sink w \<and>
     iw_records w' = iw_records w \<and> iw_elev w' = iw_elev w"

lemma outside_refl [simp]: "outside w w"
  by (simp add: outside_def)

lemma outside_shared [simp]: "outside w (w\<lparr>iw_shared := sh\<rparr>)"
  by (simp add: outside_def)

lemma outside_route [simp]: "outside w (route_send w it)"
  by (simp add: outside_def route_send_def)

text \<open>Every step that is neither the thread's nor about the permissions also keeps the flags.\<close>

definition same_flags :: "'b host \<Rightarrow> 'b host \<Rightarrow> bool" where
  "same_flags s s' \<longleftrightarrow> ho_mid s' = ho_mid s \<and> sh_mouse (ho_shared s') = sh_mouse (ho_shared s) \<and>
     sh_keyboard (ho_shared s') = sh_keyboard (ho_shared s)"

lemma frame_flags: "host_frame s s' \<Longrightarrow> same_flags s s'"
  by (simp add: host_frame_def same_flags_def)

lemma host_msg_input: "host_msg s m env = Some s' \<Longrightarrow> ho_input s' = ho_input s \<or> (\<exists>sh. ho_input s' = (ho_input s)\<lparr>iw_shared := sh\<rparr>)"
  by (cases m) (auto simp: host_msg_def Let_def select_display_def set_quality_def host_clipboard_def on_pong_def
      host_defs split: if_splits option.splits prod.splits)

lemma adapt_input: "ho_input (host_adapt_tick s env) = ho_input s \<or>
    (\<exists>sh. ho_input (host_adapt_tick s env) = (ho_input s)\<lparr>iw_shared := sh\<rparr>)"
  and adapt_flags: "same_flags s (host_adapt_tick s env)"
proof -
  have a: "ho_input (case ho_adapter s of None \<Rightarrow> s
     | Some a \<Rightarrow> (case ad_update a smp now of
           (Some t, a1) \<Rightarrow> ho_control (s\<lparr>ho_adapter := Some a1\<rparr>) (VC_Target t)
         | (None, a1) \<Rightarrow> s\<lparr>ho_adapter := Some a1\<rparr>)) = ho_input s" for s :: "'a host" and smp now
    by (simp add: host_defs split: option.splits prod.splits)
  have b: "ho_mid (case ho_adapter s of None \<Rightarrow> s
     | Some a \<Rightarrow> (case ad_update a smp now of
           (Some t, a1) \<Rightarrow> ho_control (s\<lparr>ho_adapter := Some a1\<rparr>) (VC_Target t)
         | (None, a1) \<Rightarrow> s\<lparr>ho_adapter := Some a1\<rparr>)) = ho_mid s" for s :: "'a host" and smp now
    by (simp add: host_defs split: option.splits prod.splits)
  show "ho_input (host_adapt_tick s env) = ho_input s \<or> (\<exists>sh. ho_input (host_adapt_tick s env) = (ho_input s)\<lparr>iw_shared := sh\<rparr>)"
    unfolding host_adapt_tick_def Let_def a by (auto simp: elevation_lost_def Let_def host_defs split: prod.splits)
  show "same_flags s (host_adapt_tick s env)"
    unfolding same_flags_def host_adapt_tick_def Let_def a b
    by (auto simp: elevation_lost_def Let_def host_defs take_elevated_lost_def split: prod.splits)
qed

lemma begin_input: "\<exists>sh. ho_input (begin_permissions s p env) = (ho_input s)\<lparr>iw_shared := sh\<rparr>"
proof -
  have "\<exists>sh. ho_input (snd (elevate_change s q env)) = (ho_input s)\<lparr>iw_shared := sh\<rparr>" for q
    by (auto simp: elevate_change_def host_defs split: option.splits intro: exI [of _ "ho_shared s"])
  then obtain sh where sh: "ho_input (snd (elevate_change s (intersect p (ho_max_perms s)) env)) = (ho_input s)\<lparr>iw_shared := sh\<rparr>"
    by blast
  obtain new s1 where e: "elevate_change s (intersect p (ho_max_perms s)) env = (new, s1)" by force
  have "ho_input s1 = (ho_input s)\<lparr>iw_shared := sh\<rparr>" using sh e by simp
  then show ?thesis by (cases "new = ho_perms s") (auto simp: begin_permissions_def e host_defs)
qed

lemma end_input: "outside (ho_input s) (ho_input (end_permissions s env))"
  by (auto simp: end_permissions_def Let_def host_defs outside_def split: option.splits)

lemma step_input:
  assumes "host_step s x = Some s'" and "\<And>t. x \<noteq> HS_Thread t"
  shows "outside (ho_input s) (ho_input s')"
proof (cases x)
  case (HS_Msg m env)
  then show ?thesis using assms(1) host_msg_input [of s m env s'] by (auto simp: host_step_def split: if_splits)
next
  case (HS_Cmd c env)
  show ?thesis
  proof (cases c)
    case (HC_SetPermissions p)
    then show ?thesis using assms(1) HS_Cmd begin_input [of s p env]
      by (auto simp: host_step_def host_command_def split: if_splits)
  qed (use assms(1) HS_Cmd in \<open>auto simp: host_step_def host_command_def host_defs split: if_splits\<close>)
next
  case (HS_Adapt env)
  then show ?thesis using assms(1) adapt_input [of s env] by (auto simp: host_step_def split: if_splits)
next
  case (HS_Permissions env)
  then show ?thesis using assms(1) end_input by (auto simp: host_step_def)
next
  case (HS_Video e)
  then show ?thesis using assms(1)
    by (cases e) (auto simp: host_step_def host_video_event_def Let_def host_defs split: if_splits)
next
  case (HS_Clip env)
  have "ho_input (host_clip_tick s env) = ho_input s"
    by (simp add: host_clip_tick_def host_defs split: option.splits prod.splits clipboard_payload.splits)
  then show ?thesis using assms(1) HS_Clip by (auto simp: host_step_def split: if_splits)
qed (use assms in \<open>auto simp: host_step_def host_probe_def host_ping_def host_defs Let_def outside_def split: if_splits\<close>)

section \<open>A release is owed, on its way, or not needed\<close>

definition owes_release :: "'b host \<Rightarrow> bool" where
  "owes_release s \<longleftrightarrow> (\<exists>new. ho_mid s = Some (new, True))"

definition revoke_ok :: "'b host \<Rightarrow> bool" where
  "revoke_ok s \<longleftrightarrow> sink_tracked (ho_input s) \<and>
     (\<not> sh_keyboard (ho_shared s) \<longrightarrow> owes_release s \<or> keyboard.settled (ho_input s)) \<and>
     (\<not> sh_mouse (ho_shared s) \<longrightarrow> owes_release s \<or> mouse.settled (ho_input s))"

lemma outside_settled:
  assumes "outside w w'"
  shows "keyboard.settled w \<Longrightarrow> keyboard.settled w'" "mouse.settled w \<Longrightarrow> mouse.settled w'"
    "sink_tracked w \<Longrightarrow> sink_tracked w'"
  using assms keyboard.settled_cong [of w' w] mouse.settled_cong [of w' w] sink_tracked_cong [of w' w]
  by (simp_all add: outside_def)

lemma begin_flags:
  assumes "host_ok granted s" "ho_mid s = None" "begin_permissions s p env = s'"
  shows "sh_keyboard (ho_shared s) \<and> \<not> sh_keyboard (ho_shared s') \<longrightarrow> owes_release s'"
    "sh_mouse (ho_shared s) \<and> \<not> sh_mouse (ho_shared s') \<longrightarrow> owes_release s'"
    "sh_keyboard (ho_shared s') \<longrightarrow> p_keyboard p" "sh_mouse (ho_shared s') \<longrightarrow> p_mouse p"
proof -
  have ok': "host_ok granted s'" using begin_permissions_ok [OF assms(1,2), of p env] assms(3) by simp
  have f: "sh_mouse (ho_shared s) = p_mouse (ho_perms s)" "sh_keyboard (ho_shared s) = p_keyboard (ho_perms s)"
    "sh_mouse (ho_shared s') = p_mouse (current_perms s')" "sh_keyboard (ho_shared s') = p_keyboard (current_perms s')"
    using assms(1,2) ok' by (simp_all add: host_ok_def current_perms_def)
  obtain new s1 where e: "elevate_change s (intersect p (ho_max_perms s)) env = (new, s1)" by force
  have n: "p_keyboard new \<longrightarrow> p_keyboard p" "p_mouse new \<longrightarrow> p_mouse p" "ho_perms s1 = ho_perms s" "ho_mid s1 = ho_mid s"
    using e by (auto simp: elevate_change_def intersect_def host_defs split: if_splits option.splits)
  have s': "ho_mid s' = (if new \<noteq> ho_perms s then Some (new, lost_input (ho_perms s) new) else None)"
    "new = ho_perms s \<longrightarrow> ho_perms s' = ho_perms s"
    using assms(2,3) e n by (auto simp: begin_permissions_def host_defs)
  then have c: "current_perms s' = new" by (auto simp: current_perms_def)
  show "sh_keyboard (ho_shared s) \<and> \<not> sh_keyboard (ho_shared s') \<longrightarrow> owes_release s'"
    "sh_mouse (ho_shared s) \<and> \<not> sh_mouse (ho_shared s') \<longrightarrow> owes_release s'"
    using s'(1) f c by (auto simp: owes_release_def lost_input_def)
  show "sh_keyboard (ho_shared s') \<longrightarrow> p_keyboard p" "sh_mouse (ho_shared s') \<longrightarrow> p_mouse p"
    using f c n by simp_all
qed

lemma end_settled:
  assumes "revoke_ok s"
  shows "revoke_ok (end_permissions s env)"
proof (cases "ho_mid s")
  case None
  then show ?thesis using assms by (simp add: end_permissions_def)
next
  case (Some q)
  obtain new l where q: "ho_mid s = Some (new, l)" using Some by (cases q) simp
  let ?s = "end_permissions s env"
  have o: "outside (ho_input s) (ho_input ?s)" by (rule end_input)
  have fl: "ho_shared ?s = ho_shared s"
    using q by (simp add: end_permissions_def Let_def host_defs)
  show ?thesis
  proof (cases l)
    case True
    then have "release_pending (ho_input ?s)"
      using q by (simp add: end_permissions_def Let_def host_defs release_pending_def is_release_def)
    then have "keyboard.settled (ho_input ?s)" "mouse.settled (ho_input ?s)"
      by (simp_all add: keyboard.settled_def mouse.settled_def)
    then show ?thesis using assms outside_settled(3) [OF o] by (simp add: revoke_ok_def)
  next
    case False
    then have "\<not> owes_release s" using q by (simp add: owes_release_def)
    then show ?thesis using assms outside_settled [OF o] fl by (auto simp: revoke_ok_def)
  qed
qed

lemma outside_revoke:
  assumes "revoke_ok s" "outside (ho_input s) (ho_input s')" "same_flags s s'"
  shows "revoke_ok s'"
  using assms outside_settled [OF assms(2)] by (auto simp: revoke_ok_def same_flags_def owes_release_def)

lemma other_flags:
  assumes "host_step s x = Some s'" "\<And>t. x \<noteq> HS_Thread t" "\<And>env. x \<noteq> HS_Permissions env"
    "\<And>p env. x \<noteq> HS_Cmd (HC_SetPermissions p) env"
  shows "same_flags s s'"
proof (cases x)
  case (HS_Msg m env)
  show ?thesis
  proof (cases "in_loop s")
    case True
    then have "host_msg s m env = Some s'" using assms(1) HS_Msg by (simp add: host_step_def)
    then show ?thesis by (rule frame_flags [OF host_frame_msg])
  qed (use assms(1) HS_Msg in \<open>simp add: host_step_def same_flags_def\<close>)
next
  case (HS_Cmd c env)
  then show ?thesis using assms(1,4)
    by (cases c) (auto simp: host_step_def host_command_def same_flags_def host_defs split: if_splits)
next
  case (HS_Adapt env)
  then show ?thesis using assms(1) adapt_flags [of s env] by (auto simp: host_step_def same_flags_def split: if_splits)
next
  case (HS_Video e)
  then show ?thesis using assms(1) frame_flags [OF host_frame_video [of s e]]
    by (auto simp: host_step_def same_flags_def split: if_splits)
next
  case (HS_Clip env)
  then show ?thesis using assms(1) frame_flags [OF host_frame_clip [of s env]]
    by (auto simp: host_step_def same_flags_def split: if_splits)
next
  case (HS_Probe env)
  then show ?thesis using assms(1) frame_flags [OF host_frame_probe [of s env]]
    by (auto simp: host_step_def same_flags_def split: if_splits)
next
  case (HS_Ping env)
  then show ?thesis using assms(1) frame_flags [OF host_frame_ping [of s env]]
    by (auto simp: host_step_def same_flags_def split: if_splits)
qed (use assms in \<open>auto simp: host_step_def same_flags_def host_defs split: if_splits\<close>)

lemma revoke_step:
  assumes ok: "host_ok granted s" and inv: "revoke_ok s" and st: "host_step s x = Some s'"
  shows "revoke_ok s'"
proof -
  consider (thread) t where "x = HS_Thread t" | (fin) env where "x = HS_Permissions env"
    | (set) p env where "x = HS_Cmd (HC_SetPermissions p) env" "in_loop s"
    | (other) "same_flags s s'" "\<And>t. x \<noteq> HS_Thread t" | (stop) "s' = s"
  proof (cases "(\<exists>t. x = HS_Thread t) \<or> (\<exists>env. x = HS_Permissions env) \<or> (\<exists>p env. x = HS_Cmd (HC_SetPermissions p) env)")
    case True
    then show ?thesis using that st by (auto simp: host_step_def split: if_splits)
  next
    case False
    then show ?thesis using that(4) other_flags [OF st] by blast
  qed
  then show ?thesis
  proof cases
    case (thread t)
    then have s': "s' = s\<lparr>ho_input := in_step t (ho_input s)\<rparr>" using st by (simp add: host_step_def)
    show ?thesis using inv in_step_tracked [of "ho_input s" t] keyboard.step_settled [of "ho_input s" t]
        mouse.step_settled [of "ho_input s" t]
      by (auto simp: s' revoke_ok_def step_flags owes_release_def)
  next
    case (fin env)
    then show ?thesis using st end_settled [OF inv] by (auto simp: host_step_def)
  next
    case (set p env)
    then have mid: "ho_mid s = None" and s': "begin_permissions s p env = s'"
      using st by (simp_all add: in_loop_def host_step_def host_command_def)
    have o: "outside (ho_input s) (ho_input s')" by (rule step_input [OF st]) (simp add: set)
    have no: "\<not> owes_release s" using mid by (simp add: owes_release_def)
    show ?thesis using inv no outside_settled [OF o] begin_flags [OF ok mid s'] by (auto simp: revoke_ok_def)
  next
    case other
    then show ?thesis using outside_revoke [OF inv step_input [OF st]] by blast
  next
    case stop
    then show ?thesis using inv by simp
  qed
qed

lemma start_revoke: "host_start no cfg name auth link granted screen clip fs env = Inr s \<Longrightarrow> revoke_ok s"
proof -
  have "keyboard.settled (input_spawn sh t)" "mouse.settled (input_spawn sh t)" "sink_tracked (input_spawn sh t)" for sh t
    by (simp_all add: keyboard.settled_def mouse.settled_def input_spawn_def in_flight_def injector_new_def
        sink_tracked_def held_of_def inj_ok_def)
  then show "host_start no cfg name auth link granted screen clip fs env = Inr s \<Longrightarrow> ?thesis"
    by (auto simp: host_start_def revoke_ok_def Let_def split: prod.splits option.splits)
qed

lemma reachable_revoke: "host_reachable granted s \<Longrightarrow> revoke_ok s"
proof (induction rule: host_reachable.induct)
  case (host_reach_start no cfg name auth link screen clip fs env s)
  then show ?case by (rule start_revoke)
next
  case (host_reach_step s x s')
  then show ?case using revoke_step host_reachable_ok by blast
next
  case (host_reach_stop s)
  have "outside (ho_input s) (ho_input (host_stop s))" by (simp add: host_stop_def outside_def)
  then show ?case using host_reach_stop.IH outside_revoke frame_flags [OF host_frame_stop] by blast
qed

text \<open>
  C27. Once the mouse or the keyboard permission is gone and the input thread has worked off its
  backlog, nothing of that kind is held down: whatever was pressed before the withdrawal, and however
  the thread was interleaved with it, the records sent to the system leave no key (no button) pressed.
\<close>

theorem revoked_input_is_released:
  assumes "host_reachable granted s" and "ho_mid s = None"
    and "iw_route (ho_input s) = []" "iw_batch (ho_input s) = []" "iw_checked (ho_input s) = None"
  shows "(\<not> p_keyboard (ho_perms s) \<longrightarrow> fst (os_run (iw_records (ho_input s)) ({}, {})) = {}) \<and>
    (\<not> p_mouse (ho_perms s) \<longrightarrow> snd (os_run (iw_records (ho_input s)) ({}, {})) = {})"
proof -
  have inv: "revoke_ok s" by (rule reachable_revoke [OF assms(1)])
  have f: "sh_mouse (ho_shared s) = p_mouse (ho_perms s)" "sh_keyboard (ho_shared s) = p_keyboard (ho_perms s)"
    using host_reachable_ok [OF assms(1)] assms(2) by (simp_all add: host_ok_def current_perms_def)
  have no: "\<not> owes_release s" "\<not> release_pending (ho_input s)"
    using assms by (simp_all add: owes_release_def release_pending_def)
  have "in_keys (iw_sink (ho_input s)) = []" if "\<not> p_keyboard (ho_perms s)"
    using that inv no f by (auto simp: revoke_ok_def keyboard.settled_def)
  moreover have "in_buttons (iw_sink (ho_input s)) = []" if "\<not> p_mouse (ho_perms s)"
    using that inv no f by (auto simp: revoke_ok_def mouse.settled_def)
  ultimately show ?thesis using inv by (auto simp: revoke_ok_def sink_tracked_def held_of_def)
qed

section \<open>Withdrawn input stops\<close>

fun host_run :: "'b host \<Rightarrow> 'b host_step list \<Rightarrow> 'b host option" where
  "host_run s [] = Some s"
| "host_run s (x # xs) = (case host_step s x of None \<Rightarrow> None | Some s' \<Rightarrow> host_run s' xs)"

lemma host_run_reachable: "host_reachable granted s \<Longrightarrow> host_run s xs = Some s' \<Longrightarrow> host_reachable granted s'"
  by (induction xs arbitrary: s) (auto split: option.splits intro: host_reach_step)

text \<open>The owner does not give the permission back.\<close>

definition never_given :: "(permissions \<Rightarrow> bool) \<Rightarrow> 'b host_step list \<Rightarrow> bool" where
  "never_given perm xs \<longleftrightarrow> (\<forall>p env. HS_Cmd (HC_SetPermissions p) env \<in> set xs \<longrightarrow> \<not> perm p)"

lemma never_given_Cons:
  "never_given a (x # xs) \<Longrightarrow> never_given a xs \<and> (\<forall>p env. x = HS_Cmd (HC_SetPermissions p) env \<longrightarrow> \<not> a p)"
  by (auto simp: never_given_def)

lemma end_shared: "ho_shared (end_permissions s env) = ho_shared s"
  by (simp add: end_permissions_def Let_def host_defs split: option.splits prod.splits)

lemma flags_stay_off:
  assumes ok: "host_ok granted s" and st: "host_step s x = Some s'"
  shows "\<not> sh_keyboard (ho_shared s) \<Longrightarrow> (\<And>p env. x = HS_Cmd (HC_SetPermissions p) env \<Longrightarrow> \<not> p_keyboard p) \<Longrightarrow>
      \<not> sh_keyboard (ho_shared s')"
    and "\<not> sh_mouse (ho_shared s) \<Longrightarrow> (\<And>p env. x = HS_Cmd (HC_SetPermissions p) env \<Longrightarrow> \<not> p_mouse p) \<Longrightarrow>
      \<not> sh_mouse (ho_shared s')"
proof -
  have "(\<not> sh_keyboard (ho_shared s) \<longrightarrow> (\<forall>p env. x = HS_Cmd (HC_SetPermissions p) env \<longrightarrow> \<not> p_keyboard p) \<longrightarrow>
      \<not> sh_keyboard (ho_shared s')) \<and> (\<not> sh_mouse (ho_shared s) \<longrightarrow>
      (\<forall>p env. x = HS_Cmd (HC_SetPermissions p) env \<longrightarrow> \<not> p_mouse p) \<longrightarrow> \<not> sh_mouse (ho_shared s'))"
  proof (cases "(\<exists>t. x = HS_Thread t) \<or> (\<exists>env. x = HS_Permissions env)")
    case True
    then show ?thesis using st by (auto simp: host_step_def step_flags end_shared)
  next
    case other: False
    show ?thesis
    proof (cases "\<exists>p env. x = HS_Cmd (HC_SetPermissions p) env")
      case True
      then obtain p env where x: "x = HS_Cmd (HC_SetPermissions p) env" by blast
      show ?thesis
      proof (cases "in_loop s")
        case True
        then have "ho_mid s = None" "begin_permissions s p env = s'"
          using st x by (simp_all add: in_loop_def host_step_def host_command_def)
        from begin_flags(3,4) [OF ok this] x show ?thesis by blast
      qed (use st x in \<open>simp add: host_step_def\<close>)
    next
      case False
      then show ?thesis using other_flags [OF st] other by (auto simp: same_flags_def)
    qed
  qed
  then show "\<not> sh_keyboard (ho_shared s) \<Longrightarrow> (\<And>p env. x = HS_Cmd (HC_SetPermissions p) env \<Longrightarrow> \<not> p_keyboard p) \<Longrightarrow>
      \<not> sh_keyboard (ho_shared s')" "\<not> sh_mouse (ho_shared s) \<Longrightarrow>
      (\<And>p env. x = HS_Cmd (HC_SetPermissions p) env \<Longrightarrow> \<not> p_mouse p) \<Longrightarrow> \<not> sh_mouse (ho_shared s')" by blast+
qed

context input_class
begin

lemma outside_silent:
  assumes "outside w w'"
  shows "silent w w'" "in_flight c w' = in_flight c w"
  using assms silent_same [of w' w] by (simp_all add: outside_def in_flight_def)

lemma run_silent:
  fixes s s' :: "'b host"
  assumes off: "\<And>(t :: 'b host) x t'. host_ok granted t \<Longrightarrow> host_step t x = Some t' \<Longrightarrow> \<not> on (ho_shared t) \<Longrightarrow>
      \<forall>p env. x = HS_Cmd (HC_SetPermissions p) env \<longrightarrow> \<not> perm p \<Longrightarrow> \<not> on (ho_shared t')"
    and "host_ok granted s" "\<not> on (ho_shared s)" "\<not> in_flight cls (ho_input s)"
    "never_given perm xs" "host_run s xs = Some s'"
  shows "silent (ho_input s) (ho_input s')"
  using assms(2-)
proof (induction xs arbitrary: s)
  case (Cons x xs)
  obtain s1 where s1: "host_step s x = Some s1" "host_run s1 xs = Some s'" using Cons.prems(5) by (auto split: option.splits)
  note g = never_given_Cons [OF Cons.prems(4)]
  have o: "\<not> on (ho_shared s1)" using off [OF Cons.prems(1) s1(1) Cons.prems(2)] g by blast
  have step: "silent (ho_input s) (ho_input s1) \<and> \<not> in_flight cls (ho_input s1)"
  proof (cases "\<exists>t. x = HS_Thread t")
    case True
    then show ?thesis using s1(1) step_silent [OF Cons.prems(2,3)] by (auto simp: host_step_def)
  next
    case False
    then have "outside (ho_input s) (ho_input s1)" using step_input [OF s1(1)] by blast
    then show ?thesis using outside_silent Cons.prems(3) by blast
  qed
  then have "silent (ho_input s1) (ho_input s')"
    using Cons.IH [OF host_step_ok [OF Cons.prems(1) s1(1)] o _ _ s1(2)] g by blast
  then show ?case using step silent_trans by blast
qed simp

end

text \<open>
  Input that is no longer permitted stops at once: from a moment when the permission is off and no
  event of its kind is in the middle of being applied, whatever the viewer sends and however the steps
  interleave, until the owner gives the permission back, no key press and no text (no movement, press
  or wheel) is injected, only releases, and no such event goes to the elevated path.
\<close>

theorem revoked_input_stops:
  assumes "host_reachable granted s" "ho_mid s = None" "host_run s xs = Some s'"
  shows "(\<not> p_keyboard (ho_perms s) \<and> \<not> in_flight is_keyboard (ho_input s) \<and> never_given p_keyboard xs \<longrightarrow>
      (\<exists>rs es. iw_records (ho_input s') = iw_records (ho_input s) @ rs \<and> iw_elev (ho_input s') = iw_elev (ho_input s) @ es \<and>
        (\<forall>r \<in> set rs. \<not> types r) \<and> (\<forall>(h, e, d) \<in> set es. \<not> is_keyboard e))) \<and>
    (\<not> p_mouse (ho_perms s) \<and> \<not> in_flight is_mouse (ho_input s) \<and> never_given p_mouse xs \<longrightarrow>
      (\<exists>rs es. iw_records (ho_input s') = iw_records (ho_input s) @ rs \<and> iw_elev (ho_input s') = iw_elev (ho_input s) @ es \<and>
        (\<forall>r \<in> set rs. \<not> points r) \<and> (\<forall>(h, e, d) \<in> set es. \<not> is_mouse e)))"
proof -
  have ok: "host_ok granted s" by (rule host_reachable_ok [OF assms(1)])
  have f: "sh_mouse (ho_shared s) = p_mouse (ho_perms s)" "sh_keyboard (ho_shared s) = p_keyboard (ho_perms s)"
    using ok assms(2) by (simp_all add: host_ok_def current_perms_def)
  have "keyboard.silent (ho_input s) (ho_input s')"
    if "\<not> p_keyboard (ho_perms s)" "\<not> in_flight is_keyboard (ho_input s)" "never_given p_keyboard xs"
    by (rule keyboard.run_silent [where perm = p_keyboard, OF _ ok _ _ _ assms(3)])
      (use that f flags_stay_off(1) in blast)+
  moreover have "mouse.silent (ho_input s) (ho_input s')"
    if "\<not> p_mouse (ho_perms s)" "\<not> in_flight is_mouse (ho_input s)" "never_given p_mouse xs"
    by (rule mouse.run_silent [where perm = p_mouse, OF _ ok _ _ _ assms(3)])
      (use that f flags_stay_off(2) in blast)+
  ultimately show ?thesis unfolding keyboard.silent_def mouse.silent_def by blast
qed

end
