(* ===== verification/Engine_Props.thy ===== *)
theory Engine_Props
  imports Host_Engine Host_Revoke
begin

text \<open>
  Who gets into a host session, and with what: the invariants of the engine over every history of
  announced connections, frames, answers and settings, and the property that each session rests on a
  proof of the password and on the owner's consent.
\<close>

section \<open>What a history shows\<close>

definition viewer_proof :: "'s hs_env \<Rightarrow> host_params \<Rightarrow> bytes option list \<Rightarrow> rstr \<Rightarrow> authenticated \<Rightarrow> bool" where
  "viewer_proof hv p rs pw a \<longleftrightarrow>
     (\<exists>pk keys.
        hs_recv (hv_de hv) rs 0 = Some (H_Hello PROTOCOL_VERSION (hp_expected_viewer_id p) (au_viewer_name a) (au_auth a) pk
          (au_requested a)) \<and>
        pake_finish (hv_crypto hv)
          (pake_start (hv_crypto hv) (hv_seed hv) Role_Host (as_bytes pw) (hp_session p) (hp_expected_viewer_id p) (hp_host_id p))
          pk = Some keys \<and>
        hs_recv (hv_de hv) rs 1 = Some (H_Confirm (viewer_mac (hv_crypto hv) keys)) \<and>
        au_viewer_id a = hp_expected_viewer_id p)"

text \<open>The password that was valid for the viewer at that moment.\<close>

definition valid_password :: "host_state \<Rightarrow> instant \<Rightarrow> authenticated \<Rightarrow> rstr \<Rightarrow> bool" where
  "valid_password h now a pw \<longleftrightarrow>
     fst (locked (hg_failures h) (au_viewer_id a) now) = None \<and>
     (case au_auth a of
        Temporary \<Rightarrow> pw = hg_temp h
      | Permanent \<Rightarrow> hg_permanent h = Some pw \<and> hg_unattended h \<and>
          (hg_any_device h \<or> au_viewer_id a \<in> set (hg_authorized h)))"

definition admitted :: "('b, 's) engine_step list \<Rightarrow> authenticated \<Rightarrow> bool" where
  "admitted xs a \<longleftrightarrow>
     (\<exists>ys i hv rs zs (e :: 'b engine) pw.
        xs = ys @ ES_Hello i hv rs # zs \<and> engine_hist ys e \<and> i < length (en_tasks e) \<and>
        viewer_proof hv (ic_params (en_tasks e ! i)) rs pw a \<and> valid_password (en_host e) (en_now e) a pw)"

text \<open>The owner answered a prompt, open at that moment, that showed this viewer and its request.\<close>

definition owner_approved :: "('b, 's) engine_step list \<Rightarrow> rstr \<Rightarrow> permissions \<Rightarrow> bool" where
  "owner_approved xs v g \<longleftrightarrow>
     (\<exists>ys rid p zs (e :: 'b engine) name req lan t.
        xs = ys @ ES_Respond rid (Some p) # zs \<and> engine_hist ys e \<and> hm_contains (hg_pending (en_host e)) rid \<and>
        EE_Incoming rid v name req lan t \<in> set (en_events e) \<and> perm_le g (intersect p req))"

text \<open>Unattended access was on when an authorized viewer with the permanent password asked.\<close>

definition unattended_consent :: "('b, 's) engine_step list \<Rightarrow> rstr \<Rightarrow> permissions \<Rightarrow> bool" where
  "unattended_consent xs v g \<longleftrightarrow>
     (\<exists>a. admitted xs a \<and> au_viewer_id a = v \<and> au_auth a = Permanent \<and> perm_le g (au_requested a)) \<and>
     (\<exists>ys zs (e :: 'b engine). xs = ys @ zs \<and> engine_hist ys e \<and> hg_unattended (en_host e) \<and>
        (p_elevated g \<longrightarrow> hg_unattended_elevated (en_host e)))"

definition consented :: "('b, 's) engine_step list \<Rightarrow> rstr \<Rightarrow> permissions \<Rightarrow> bool" where
  "consented xs v g \<longleftrightarrow> owner_approved xs v g \<or> unattended_consent xs v g"

lemma admitted_more: "admitted xs a \<Longrightarrow> admitted (xs @ ws) a"
  unfolding admitted_def by (metis append.assoc append_Cons)

lemma consented_more:
  assumes "consented xs v g"
  shows "consented (xs @ ws) v g"
proof -
  have "owner_approved (xs @ ws) v g" if "owner_approved xs v g"
    using that unfolding owner_approved_def by (metis append.assoc append_Cons)
  moreover have "unattended_consent (xs @ ws) v g" if "unattended_consent xs v g"
    using that admitted_more unfolding unattended_consent_def by (metis append.assoc)
  ultimately show ?thesis using assms by (auto simp: consented_def)
qed

lemma consented_less:
  fixes xs :: "('b, 's) engine_step list"
  assumes "consented xs v g" "perm_le g' g"
  shows "consented xs v g'"
proof -
  have le: "perm_le g' q" if "perm_le g q" for q using perm_le_trans assms(2) that by blast
  have el: "p_elevated g' \<longrightarrow> p_elevated g" using assms(2) by (simp add: perm_le_def)
  have "owner_approved xs v g'" if "owner_approved xs v g"
    using that le unfolding owner_approved_def by blast
  moreover have "unattended_consent xs v g'" if u: "unattended_consent xs v g"
  proof -
    obtain a ys zs and e :: "'b engine" where "admitted xs a" "au_viewer_id a = v" "au_auth a = Permanent"
      "perm_le g (au_requested a)" "xs = ys @ zs" "engine_hist ys e" "hg_unattended (en_host e)"
      "p_elevated g \<longrightarrow> hg_unattended_elevated (en_host e)"
      using u unfolding unattended_consent_def by blast
    then show ?thesis using le el unfolding unattended_consent_def by blast
  qed
  ultimately show ?thesis using assms(1) by (auto simp: consented_def)
qed

section \<open>The handshake\<close>

lemma pw_lookup_available:
  assumes "fst (pw_lookup h now (au_viewer_id a) (au_auth a)) = Available pw"
  shows "valid_password h now a pw"
  using assms
  by (auto simp: pw_lookup_def valid_password_def split: prod.splits option.splits auth_kind.splits bool.splits if_splits)

lemma shake_accepts:
  assumes "shake hv p h now rs = Inr a"
  shows "\<exists>pw. viewer_proof hv p rs pw a \<and> valid_password h now a pw"
proof -
  obtain sent where "host_handshake (hv_crypto hv) (hv_ser hv) (hv_de hv) (hv_up hv) (hv_seed hv) p
      (\<lambda>v kind. fst (pw_lookup h now v kind)) rs = (sent, Inr a)"
    using assms unfolding shake_def by (metis prod.collapse)
  from host_handshake_accepts [OF this] obtain name auth pk req pw keys f0 f1 st where r:
    "hs_recv (hv_de hv) rs 0 = Some (H_Hello PROTOCOL_VERSION (hp_expected_viewer_id p) name auth pk req)"
    "fst (pw_lookup h now (hp_expected_viewer_id p) auth) = Available pw"
    "st = pake_start (hv_crypto hv) (hv_seed hv) Role_Host (as_bytes pw) (hp_session p) (hp_expected_viewer_id p) (hp_host_id p)"
    "pake_finish (hv_crypto hv) st pk = Some keys"
    "hs_recv (hv_de hv) rs 1 = Some (H_Confirm (viewer_mac (hv_crypto hv) keys))"
    "a = \<lparr>au_channel = into_channel keys, au_viewer_id = hp_expected_viewer_id p, au_viewer_name = name,
         au_auth = auth, au_requested = req\<rparr>"
    by blast
  have "viewer_proof hv p rs pw a" unfolding viewer_proof_def using r by auto
  moreover have "valid_password h now a pw" using r(2) pw_lookup_available by (simp add: r(6))
  ultimately show ?thesis by blast
qed

section \<open>The invariant\<close>

text \<open>Which tasks hold the host.\<close>

definition holds :: "'b phase \<Rightarrow> bool" where
  "holds ph = (case ph of Ph_Check \<Rightarrow> False | Ph_Close _ held _ \<Rightarrow> held | Ph_Done \<Rightarrow> False | _ \<Rightarrow> True)"

definition active_phase :: "'b phase \<Rightarrow> bool" where
  "active_phase ph = (case ph of Ph_Run _ _ _ \<Rightarrow> True | Ph_Over _ _ _ \<Rightarrow> True | _ \<Rightarrow> False)"

lemma holds_simps [simp]:
  "\<not> holds Ph_Check" "holds Ph_Await" "holds (Ph_Shake k)" "holds (Ph_Shook k r)" "holds (Ph_Consent k a)"
  "holds (Ph_Prompt k a rid ans)" "holds (Ph_Granted k a g)" "holds (Ph_Run a g s)" "holds (Ph_Over a g er)"
  "holds (Ph_Close b held rot) = held" "\<not> holds Ph_Done"
  by (simp_all add: holds_def)

lemma active_phase_simps [simp]:
  "\<not> active_phase Ph_Check" "\<not> active_phase Ph_Await" "\<not> active_phase (Ph_Shake k)" "\<not> active_phase (Ph_Shook k r)"
  "\<not> active_phase (Ph_Consent k a)" "\<not> active_phase (Ph_Prompt k a rid ans)" "\<not> active_phase (Ph_Granted k a g)"
  "active_phase (Ph_Run a g s)" "active_phase (Ph_Over a g er)" "\<not> active_phase (Ph_Close b held rot)"
  "\<not> active_phase Ph_Done"
  by (simp_all add: active_phase_def)

definition phase_ok :: "('b, 's) engine_step list \<Rightarrow> engine_event list \<Rightarrow> 'b phase \<Rightarrow> bool" where
  "phase_ok xs evs ph =
     (case ph of
        Ph_Shook _ (Inr a) \<Rightarrow> admitted xs a
      | Ph_Consent _ a \<Rightarrow> admitted xs a
      | Ph_Prompt _ a rid ans \<Rightarrow> admitted xs a \<and>
          (\<exists>name lan t. EE_Incoming rid (au_viewer_id a) name (au_requested a) lan t \<in> set evs) \<and>
          (\<forall>p. ans = Some (Some p) \<longrightarrow> owner_approved xs (au_viewer_id a) (intersect p (au_requested a)))
      | Ph_Granted _ a g \<Rightarrow> admitted xs a \<and> consented xs (au_viewer_id a) g
      | Ph_Run a g s \<Rightarrow> admitted xs a \<and> consented xs (au_viewer_id a) g \<and> \<not> no_session g \<and> host_reachable g s
      | Ph_Over a g r \<Rightarrow> consented xs (au_viewer_id a) g
      | _ \<Rightarrow> True)"

lemma phase_ok_more:
  assumes "phase_ok xs evs ph" "set evs \<subseteq> set evs'"
  shows "phase_ok (xs @ ws) evs' ph"
proof -
  have "owner_approved (xs @ ws) v g" if "owner_approved xs v g" for v g
    using that unfolding owner_approved_def by (metis append.assoc append_Cons)
  then show ?thesis using assms admitted_more consented_more
    unfolding phase_ok_def by (auto split: phase.splits sum.splits) blast
qed

definition phases :: "'b engine \<Rightarrow> 'b phase list" where
  "phases e = map ic_phase (en_tasks e)"

definition engine_ok :: "('b, 's) engine_step list \<Rightarrow> 'b engine \<Rightarrow> bool" where
  "engine_ok xs e \<longleftrightarrow>
     length (filter holds (phases e)) = (if hg_busy (en_host e) then 1 else 0) \<and>
     (hg_active (en_host e) \<noteq> None \<longleftrightarrow> (\<exists>ph \<in> set (phases e). active_phase ph)) \<and>
     (\<forall>ph \<in> set (phases e). phase_ok xs (en_events e) ph) \<and>
     (\<forall>v p t. hm_get (hg_resume (en_host e)) v = Some (p, t) \<longrightarrow> consented xs v p)"


lemma phases_to_phase [simp]: "phases (to_phase e i ph) = (phases e)[i := ph]"
  by (simp add: phases_def to_phase_def map_update)

lemma to_phase_keeps [simp]:
  "en_host (to_phase e i ph) = en_host e" "en_events (to_phase e i ph) = en_events e"
  "en_incoming (to_phase e i ph) = en_incoming e" "en_now (to_phase e i ph) = en_now e"
  "length (en_tasks (to_phase e i ph)) = length (en_tasks e)"
  by (simp_all add: to_phase_def)

lemma phases_nth: "i < length (en_tasks e) \<Longrightarrow> phases e ! i = ic_phase (en_tasks e ! i)"
  by (simp add: phases_def)

lemma length_phases [simp]: "length (phases e) = length (en_tasks e)"
  by (simp add: phases_def)

lemma count_update:
  "i < length xs \<Longrightarrow> length (filter P (xs[i := y])) + (if P (xs ! i) then 1 else 0) =
    length (filter P xs) + (if P y then 1 else 0)"
proof (induction xs arbitrary: i)
  case (Cons x xs)
  then show ?case by (cases i) auto
qed simp

lemma active_holds: "active_phase ph \<Longrightarrow> holds ph"
  by (simp add: active_phase_def holds_def split: phase.splits)

text \<open>Where one of the tasks holds the host, it is the only one.\<close>

lemma only_holder:
  assumes "length (filter P xs) \<le> 1" "i < length xs" "P (xs ! i)" "j < length xs" "P (xs ! j)"
  shows "i = j"
proof (rule ccontr)
  assume "i \<noteq> j"
  have "length (filter P (xs[i := undefined, j := undefined])) \<ge> 0" by simp
  have "card {k. k < length xs \<and> P (xs ! k)} \<le> 1" using assms(1) by (simp add: length_filter_conv_card)
  moreover have "{i, j} \<subseteq> {k. k < length xs \<and> P (xs ! k)}" using assms by auto
  then have "card {i, j} \<le> card {k. k < length xs \<and> P (xs ! k)}" by (rule card_mono [rotated]) simp
  ultimately show False using \<open>i \<noteq> j\<close> by simp
qed

lemma ex_set_nth: "(\<exists>x \<in> set xs. P x) \<longleftrightarrow> (\<exists>j < length xs. P (xs ! j))"
  by (metis in_set_conv_nth nth_mem)

lemma ok_update:
  assumes ok: "engine_ok xs e" and i: "i < length (en_tasks e)" and old: "old = ic_phase (en_tasks e ! i)"
    and ph: "phases e' = (phases e)[i := ph']" and ev: "set (en_events e) \<subseteq> set (en_events e')"
    and busy: "hg_busy (en_host e') = (holds ph' \<or> \<not> holds old \<and> hg_busy (en_host e))"
    and free: "holds ph' \<Longrightarrow> \<not> holds old \<Longrightarrow> \<not> hg_busy (en_host e)"
    and act: "(hg_active (en_host e') \<noteq> None) = (active_phase ph' \<or> \<not> active_phase old \<and> hg_active (en_host e) \<noteq> None)"
    and p: "phase_ok (xs @ [x]) (en_events e') ph'"
    and res: "\<And>v p t. hm_get (hg_resume (en_host e')) v = Some (p, t) \<Longrightarrow> consented (xs @ [x]) v p"
  shows "engine_ok (xs @ [x]) e'"
proof -
  have o: "phases e ! i = old" "i < length (phases e)" using i old by (simp_all add: phases_nth)
  have c: "length (filter holds (phases e)) = (if hg_busy (en_host e) then 1 else 0)" using ok by (simp add: engine_ok_def)
  have "length (filter holds (phases e')) + (if holds old then 1 else 0) =
      length (filter holds (phases e)) + (if holds ph' then 1 else 0)"
    using count_update [OF o(2), of holds ph'] o(1) by (simp add: ph)
  moreover have "holds old \<Longrightarrow> hg_busy (en_host e)"
    using c o by (metis filter_empty_conv length_0_conv nth_mem)
  ultimately have n: "length (filter holds (phases e')) = (if hg_busy (en_host e') then 1 else 0)"
    using c busy free by (auto split: if_splits)
  have others: "\<not> active_phase (phases e ! j)" if "j \<noteq> i" "j < length (phases e)" "holds old" for j
    using only_holder [of holds "phases e" i j] c o that active_holds by (auto split: if_splits)
  have a: "(hg_active (en_host e) \<noteq> None) = (\<exists>ph \<in> set (phases e). active_phase ph)" using ok by (simp add: engine_ok_def)
  have "(hg_active (en_host e') \<noteq> None) = (\<exists>ph \<in> set (phases e'). active_phase ph)"
  proof -
    have "(\<exists>q \<in> set (phases e'). active_phase q) \<longleftrightarrow> active_phase ph' \<or> (\<exists>j < length (phases e). j \<noteq> i \<and> active_phase (phases e ! j))"
      using o(2) unfolding ph ex_set_nth by (auto simp: nth_list_update)
    moreover have "(\<exists>j < length (phases e). j \<noteq> i \<and> active_phase (phases e ! j)) \<longleftrightarrow> \<not> active_phase old \<and> hg_active (en_host e) \<noteq> None"
    proof (cases "active_phase old")
      case True
      then show ?thesis using others active_holds by blast
    next
      case False
      then show ?thesis using o unfolding a ex_set_nth by auto
    qed
    ultimately show ?thesis using act by blast
  qed
  moreover have "phase_ok (xs @ [x]) (en_events e') q" if "q \<in> set (phases e')" for q
  proof -
    have "q = ph' \<or> q \<in> set (phases e)" using that set_update_subset_insert unfolding ph by fastforce
    then show ?thesis using p ok phase_ok_more [OF _ ev] by (auto simp: engine_ok_def)
  qed
  ultimately show ?thesis using n res unfolding engine_ok_def by blast
qed

lemma ok_same:
  assumes "engine_ok xs e" "phases e' = phases e" "set (en_events e) \<subseteq> set (en_events e')"
    "hg_busy (en_host e') = hg_busy (en_host e)" "hg_active (en_host e') = hg_active (en_host e)"
    "hg_resume (en_host e') = hg_resume (en_host e)"
  shows "engine_ok (xs @ [x]) e'"
  using assms phase_ok_more [OF _ assms(3)] consented_more unfolding engine_ok_def by (metis (no_types, lifting))

section \<open>Every step keeps it\<close>

lemma ok_resume:
  assumes "engine_ok xs e" "hm_get (hg_resume (en_host e)) v = Some (p, t)"
  shows "consented (xs @ ws) v p"
proof -
  have "consented xs v p" using assms unfolding engine_ok_def by blast
  then show ?thesis by (rule consented_more)
qed

lemma ok_phase: "engine_ok xs e \<Longrightarrow> i < length (en_tasks e) \<Longrightarrow> phase_ok (xs @ ws) (en_events e) (ic_phase (en_tasks e ! i))"
  using phase_ok_more [of xs "en_events e" _ "en_events e"] by (auto simp: engine_ok_def phases_def)

lemma ok_move:
  assumes "engine_ok xs e" "i < length (en_tasks e)" "old = ic_phase (en_tasks e ! i)"
    and "phases e' = (phases e)[i := ph']" "set (en_events e) \<subseteq> set (en_events e')"
    and "hg_busy (en_host e') = (holds ph' \<or> \<not> holds old \<and> hg_busy (en_host e))"
    and "holds ph' \<Longrightarrow> \<not> holds old \<Longrightarrow> \<not> hg_busy (en_host e)"
    and "(hg_active (en_host e') \<noteq> None) = (active_phase ph' \<or> \<not> active_phase old \<and> hg_active (en_host e) \<noteq> None)"
    and "phase_ok (xs @ [x]) (en_events e') ph'"
    and "hg_resume (en_host e') = hg_resume (en_host e)"
  shows "engine_ok (xs @ [x]) e'"
proof (rule ok_update [OF assms(1-9)])
  show "hm_get (hg_resume (en_host e')) v = Some (p, t) \<Longrightarrow> consented (xs @ [x]) v p" for v p t
    using ok_resume [OF assms(1)] assms(10) by metis
qed

text \<open>What the helpers leave alone.\<close>

lemma helper_keeps [simp]:
  "en_tasks (emit e ev) = en_tasks e" "en_host (emit e ev) = en_host e" "en_events (emit e ev) = en_events e @ [ev]"
  "en_tasks (on_host f e) = en_tasks e" "en_host (on_host f e) = f (en_host e)" "en_events (on_host f e) = en_events e"
  "en_tasks (relay_link e sid) = en_tasks e" "en_host (relay_link e sid) = en_host e" "en_events (relay_link e sid) = en_events e"
  "en_tasks (drop_route e sid) = en_tasks e" "en_host (drop_route e sid) = en_host e" "en_events (drop_route e sid) = en_events e"
  "en_tasks (end_on_server e sid b) = en_tasks e" "en_host (end_on_server e sid b) = en_host e"
  "en_events (end_on_server e sid b) = en_events e"
  "en_tasks (reject e sid r) = en_tasks e" "en_host (reject e sid r) = en_host e" "en_events (reject e sid r) = en_events e"
  "en_tasks (release_busy e) = en_tasks e" "en_events (release_busy e) = en_events e"
  "en_host (release_busy e) = (en_host e)\<lparr>hg_busy := False\<rparr>"
  by (simp_all add: emit_def on_host_def relay_link_def drop_route_def end_on_server_def reject_def release_busy_def Let_def)

lemma phases_keeps [simp]:
  "phases (emit e ev) = phases e" "phases (on_host f e) = phases e" "phases (relay_link e sid) = phases e"
  "phases (drop_route e sid) = phases e" "phases (end_on_server e sid b) = phases e" "phases (reject e sid r) = phases e"
  "phases (release_busy e) = phases e"
  by (simp_all add: phases_def)

lemma rotate_keeps [simp]:
  "en_tasks (rotate_password e pw) = en_tasks e" "set (en_events e) \<subseteq> set (en_events (rotate_password e pw))"
  "hg_busy (en_host (rotate_password e pw)) = hg_busy (en_host e)"
  "hg_active (en_host (rotate_password e pw)) = hg_active (en_host e)"
  "hg_resume (en_host (rotate_password e pw)) = hg_resume (en_host e)"
  "hg_pending (en_host (rotate_password e pw)) = hg_pending (en_host e)"
  "hg_failures (en_host (rotate_password e pw)) = hg_failures (en_host e)"
  by (auto simp: rotate_password_def)

lemma phases_rotate [simp]: "phases (rotate_password e pw) = phases e"
  by (simp add: phases_def)

lemma lookup_keeps [simp]:
  "hg_busy (snd (pw_lookup h now v k)) = hg_busy h" "hg_active (snd (pw_lookup h now v k)) = hg_active h"
  "hg_resume (snd (pw_lookup h now v k)) = hg_resume h"
  by (simp_all add: pw_lookup_def split: prod.splits option.splits)

lemma busy_if_holds:
  assumes "engine_ok xs e" "i < length (en_tasks e)" "holds (ic_phase (en_tasks e ! i))"
  shows "hg_busy (en_host e)"
proof -
  have "ic_phase (en_tasks e ! i) \<in> set (filter holds (phases e))" using assms(2,3) by (simp add: phases_def)
  then have "filter holds (phases e) \<noteq> []" by (metis empty_iff empty_set)
  then show ?thesis using assms(1) by (auto simp: engine_ok_def split: if_splits)
qed

lemma hi_check_eq:
  assumes "i < length (en_tasks e)"
  defines "free \<equiv> en_incoming e \<and> \<not> hg_busy (en_host e)"
  shows "phases (hi_check e i) = (phases e)[i := if free then Ph_Await else Ph_Close False False False]"
    "en_host (hi_check e i) = (if free then (en_host e)\<lparr>hg_busy := True\<rparr> else en_host e)"
    "en_events (hi_check e i) = en_events e"
proof -
  have u: "phases (e\<lparr>en_tasks := (en_tasks e)[i := t]\<rparr>) = (phases e)[i := ic_phase t]" for t
    by (simp add: phases_def map_update)
  have d: "phases (e'\<lparr>en_direct := d\<rparr>) = phases e'" for e' :: "'a engine" and d by (simp add: phases_def)
  show "phases (hi_check e i) = (phases e)[i := if free then Ph_Await else Ph_Close False False False]"
    unfolding free_def by (cases "en_incoming e"; cases "hg_busy (en_host e)") (simp_all add: hi_check_def Let_def u d)
  show "en_host (hi_check e i) = (if free then (en_host e)\<lparr>hg_busy := True\<rparr> else en_host e)"
    "en_events (hi_check e i) = en_events e"
    by (simp_all add: hi_check_def Let_def free_def)
qed

lemma ok_check:
  assumes "engine_ok xs e" "i < length (en_tasks e)" "ic_phase (en_tasks e ! i) = Ph_Check"
  shows "engine_ok (xs @ [x]) (hi_check e i)"
  by (rule ok_move [OF assms(1,2) refl hi_check_eq(1) [OF assms(2)]])
    (auto simp: hi_check_eq [OF assms(2)] assms(3) phase_ok_def split: if_splits)

lemma ok_link:
  assumes "engine_ok xs e" "i < length (en_tasks e)" "ic_phase (en_tasks e ! i) = Ph_Await"
  shows "engine_ok (xs @ [x]) (hi_link e i came)"
  by (rule ok_move [OF assms(1,2) refl, where ph' = "if came then Ph_Shake Link_Relay else Ph_Close False True False"])
    (use assms(2,3) busy_if_holds [OF assms(1,2)] in \<open>auto simp: hi_link_def phase_ok_def\<close>)

lemma ok_hello:
  assumes ok: "engine_ok xs e" "i < length (en_tasks e)" "ic_phase (en_tasks e ! i) = Ph_Shake k" and h: "engine_hist xs e"
  shows "engine_ok (xs @ [ES_Hello i hv rs]) (hi_hello e i k hv rs)"
proof -
  let ?r = "shake hv (ic_params (en_tasks e ! i)) (en_host e) (en_now e) rs"
  have p: "phase_ok (xs @ [ES_Hello i hv rs]) evs (Ph_Shook k ?r)" for evs
  proof (cases ?r)
    case (Inr a)
    then show ?thesis using shake_accepts [OF Inr] h ok(2)
      unfolding phase_ok_def admitted_def by (auto, metis append_Nil2)
  qed (simp add: phase_ok_def)
  show ?thesis
    by (rule ok_move [OF ok(1,2) refl, where ph' = "Ph_Shook k ?r"])
      (use ok(2,3) busy_if_holds [OF ok(1,2)] p in \<open>auto simp: hi_hello_def Let_def  split: option.split\<close>)
qed

lemma bad_password_keeps [simp]:
  "en_tasks (bad_password e v pw) = en_tasks e" "set (en_events e) \<subseteq> set (en_events (bad_password e v pw))"
  "\<not> hg_busy (en_host (bad_password e v pw))"
  "hg_active (en_host (bad_password e v pw)) = hg_active (en_host e)"
  "hg_resume (en_host (bad_password e v pw)) = hg_resume (en_host e)"
  by (auto simp: bad_password_def Let_def rotate_password_def split: prod.splits)

lemma phases_bad_password [simp]: "phases (bad_password e v pw) = phases e"
  by (simp add: phases_def)

lemma ok_result:
  assumes "engine_ok xs e" "i < length (en_tasks e)" "ic_phase (en_tasks e ! i) = Ph_Shook k r"
  shows "engine_ok (xs @ [x]) (hi_result e i k r pw)"
proof -
  note o = ok_move [OF assms(1,2) refl]
  have p: "phase_ok (xs @ [x]) (en_events e) (Ph_Shook k r)" using ok_phase [OF assms(1,2)] assms(3) by simp
  show ?thesis
  proof (cases r)
    case (Inr a)
    show ?thesis
      by (rule o [where ph' = "Ph_Consent k a"])
        (use assms(2,3) busy_if_holds [OF assms(1,2)] p Inr in \<open>auto simp: hi_result_def
          phase_ok_def \<close>)
  next
    case (Inl f)
    show ?thesis
    proof (cases f)
      case (H_BadPassword v)
      show ?thesis
        by (rule o [where ph' = "Ph_Close True False False"])
          (use assms(2,3) Inl H_BadPassword bad_password_keeps(2) [of e v pw] in \<open>auto simp: hi_result_def
            phase_ok_def \<close>)
    qed (rule o [where ph' = "Ph_Close False False False"];
        use assms(2,3) Inl in \<open>auto simp: hi_result_def phase_ok_def \<close>)+
  qed
qed

lemma auto_grant_consented:
  assumes ok: "engine_ok xs e" and h: "engine_hist xs e" and a: "admitted xs a"
    and g: "auto_grant (en_host e) (en_now e) a = Some p"
  shows "consented xs (au_viewer_id a) p"
proof (cases "au_auth a = Permanent \<and> hg_unattended (en_host e)")
  case True
  then have p: "p = (au_requested a)\<lparr>p_elevated := p_elevated (au_requested a) \<and> hg_unattended_elevated (en_host e)\<rparr>"
    using g by (simp add: auto_grant_def)
  have "perm_le p (au_requested a)" "p_elevated p \<longrightarrow> hg_unattended_elevated (en_host e)"
    by (simp_all add: p perm_le_def)
  moreover have "xs = xs @ []" by simp
  ultimately have "unattended_consent xs (au_viewer_id a) p"
    using True a h unfolding unattended_consent_def by blast
  then show ?thesis by (simp add: consented_def)
next
  case False
  then obtain q t where q: "hm_get (hg_resume (en_host e)) (au_viewer_id a) = Some (q, t)"
    "p = (intersect q (au_requested a))\<lparr>p_elevated := False\<rparr>"
    using g by (auto simp: auto_grant_def resume_grant_def split: option.splits if_splits)
  have "consented xs (au_viewer_id a) q" using ok q(1) unfolding engine_ok_def by blast
  moreover have "perm_le p q" by (simp add: q(2) perm_le_def intersect_def)
  ultimately show ?thesis by (rule consented_less)
qed

lemma ok_task: "engine_ok xs e \<Longrightarrow> i < length (en_tasks e) \<Longrightarrow> phase_ok xs (en_events e) (ic_phase (en_tasks e ! i))"
  by (simp add: engine_ok_def phases_def)

lemma ok_consent:
  assumes ok: "engine_ok xs e" "i < length (en_tasks e)" "ic_phase (en_tasks e ! i) = Ph_Consent k a" and h: "engine_hist xs e"
  shows "engine_ok (xs @ [x]) (hi_consent e i k a)"
proof -
  have a: "admitted xs a"
    using ok_task [OF ok(1,2)] ok(3) by (simp add: phase_ok_def)
  note m = ok_move [OF ok(1,2) refl] and b = busy_if_holds [OF ok(1,2)]
  show ?thesis
  proof (cases "auto_grant (en_host e) (en_now e) a")
    case (Some p)
    have "consented xs (au_viewer_id a) p" by (rule auto_grant_consented [OF ok(1) h a Some])
    then show ?thesis
      by (intro m [where ph' = "Ph_Granted k a p"])
        (use ok(2,3) b Some admitted_more [OF a] consented_more in \<open>auto simp: hi_consent_def phase_ok_def\<close>)
  next
    case None
    have p: "phases (e\<lparr>en_next_request := r\<rparr>) = phases e" for r by (simp add: phases_def)
    show ?thesis
      by (rule m [where ph' = "Ph_Prompt k a (en_next_request e) None"])
        (use ok(2,3) b None admitted_more [OF a] p in \<open>auto simp: hi_consent_def Let_def phase_ok_def\<close>)
  qed
qed

lemma ok_decision:
  assumes ok: "engine_ok xs e" "i < length (en_tasks e)" "ic_phase (en_tasks e ! i) = Ph_Prompt k a rid ans"
  shows "engine_ok (xs @ [x]) (hi_decision e i k a rid ans)"
proof -
  note m = ok_move [OF ok(1,2) refl] and b = busy_if_holds [OF ok(1,2)]
  have p: "phase_ok (xs @ [x]) (en_events e) (Ph_Prompt k a rid ans)" using ok_phase [OF ok(1,2)] ok(3) by simp
  show ?thesis
  proof (cases "\<exists>p. ans = Some (Some p)")
    case True
    then obtain q where q: "ans = Some (Some q)" by blast
    show ?thesis
      by (rule m [where ph' = "Ph_Granted k a (intersect q (au_requested a))"])
        (use ok(2,3) b q p in \<open>auto simp: hi_decision_def Let_def phase_ok_def consented_def\<close>)
  next
    case False
    show ?thesis
      by (rule m [where ph' = "Ph_Close False True False"])
        (use ok(2,3) b False in \<open>auto simp: hi_decision_def Let_def phase_ok_def split: option.split\<close>)
  qed
qed

lemma ok_start:
  assumes ok: "engine_ok xs e" "i < length (en_tasks e)" "ic_phase (en_tasks e ! i) = Ph_Granted k a g"
  shows "engine_ok (xs @ [x]) (hi_start e i k a g pf)"
proof -
  note m = ok_move [OF ok(1,2) refl] and b = busy_if_holds [OF ok(1,2)]
  have p: "phase_ok (xs @ [x]) (en_events e) (Ph_Granted k a g)" using ok_phase [OF ok(1,2)] ok(3) by simp
  let ?e1 = "on_host (\<lambda>h. h\<lparr>hg_active := Some (en_next_session e)\<rparr>) (e\<lparr>en_next_session := en_next_session e + 1, en_cmds := []\<rparr>)"
  let ?st = "host_start (en_next_session e) (ic_cfg (en_tasks e ! i)) (ec_device_name (ic_cfg (en_tasks e ! i))) a
    (link_info_of k (pf_peer pf)) g (pf_screen pf) (pf_clip pf) (pf_fs pf) (pf_env pf)"
  have e1: "phases ?e1 = phases e" "en_events ?e1 = en_events e" by (simp_all add: phases_def)
  have eq: "hi_start e i k a g pf = (case ?st of Inl (_, _, r) \<Rightarrow> to_phase ?e1 i (Ph_Over a g r) | Inr s \<Rightarrow> to_phase ?e1 i (Ph_Run a g s))"
    if "\<not> no_session g" using that by (simp add: hi_start_def Let_def)
  show ?thesis
  proof (cases "no_session g")
    case True
    show ?thesis
      by (rule m [where ph' = "Ph_Close False True False"])
        (use ok(2,3) b True in \<open>auto simp: hi_start_def phase_ok_def\<close>)
  next
    case False
    show ?thesis
    proof (cases ?st)
      case (Inl z)
      obtain ms es r where z: "z = (ms, es, r)" by (cases z)
      show ?thesis
        by (rule m [where ph' = "Ph_Over a g r"]) (use ok(2,3) b p e1 Inl z in \<open>auto simp: eq [OF False] phase_ok_def\<close>)
    next
      case (Inr s)
      then have "host_reachable g s" by (rule host_reach_start)
      then show ?thesis
        by (intro m [where ph' = "Ph_Run a g s"]) (use ok(2,3) b p e1 Inr False in \<open>auto simp: eq [OF False] phase_ok_def\<close>)
    qed
  qed
qed

lemma ok_active:
  assumes "engine_ok xs e" "i < length (en_tasks e)" "ic_phase (en_tasks e ! i) = Ph_Run a g s"
  shows "hg_active (en_host e) \<noteq> None"
proof -
  have "Ph_Run a g s \<in> set (phases e)" using assms(2,3) phases_nth [OF assms(2)] length_phases nth_mem by metis
  then show ?thesis using assms(1) active_phase_simps(8) unfolding engine_ok_def by blast
qed

lemma ok_session:
  assumes ok: "engine_ok xs e" "i < length (en_tasks e)" "ic_phase (en_tasks e ! i) = Ph_Run a g s"
    and s': "host_reachable g s'" and e': "phases e' = phases e" "en_host e' = en_host e" "en_events e' = en_events e"
  shows "engine_ok (xs @ [x]) (to_phase e' i (Ph_Run a g s'))"
proof -
  have p: "phase_ok (xs @ [x]) (en_events e) (Ph_Run a g s)" using ok_phase [OF ok(1,2)] ok(3) by simp
  show ?thesis
    by (rule ok_move [OF ok(1,2) refl, where ph' = "Ph_Run a g s'"])
      (use ok(2,3) busy_if_holds [OF ok(1,2)] p s' e' ok_active [OF ok] in \<open>auto simp: phase_ok_def\<close>)
qed

lemma ok_run:
  assumes ok: "engine_ok xs e" "i < length (en_tasks e)" "ic_phase (en_tasks e ! i) = Ph_Run a g s"
  shows "engine_ok (xs @ [x]) (hi_run e i a g s y)"
proof -
  have r: "host_reachable g s" using ok_task [OF ok(1,2)] ok(3) by (simp add: phase_ok_def)
  have stay: "engine_ok (xs @ [x]) e" by (rule ok_same [OF ok(1)]) simp_all
  have go: "engine_ok (xs @ [x]) (to_phase e' i (Ph_Run a g s'))"
    if "host_step s y = Some s'" "phases e' = phases e" "en_host e' = en_host e" "en_events e' = en_events e" for e' s'
    using ok_session [OF ok host_reach_step [OF r that(1)] that(2-4)] .
  have c: "phases (e\<lparr>en_cmds := q\<rparr>) = phases e" for q by (simp add: phases_def)
  show ?thesis
  proof (cases "\<exists>c env. y = HS_Cmd c env")
    case True
    then obtain c env where y: "y = HS_Cmd c env" by blast
    show ?thesis
    proof (cases "en_cmds e")
      case Nil
      then show ?thesis using stay by (simp add: hi_run_def y)
    next
      case (Cons c' rest)
      show ?thesis
      proof (cases "c' = c \<and> in_loop s")
        case False
        then show ?thesis using stay Cons by (auto simp: hi_run_def y)
      next
        case True
        then show ?thesis using stay go [of _ "e\<lparr>en_cmds := rest\<rparr>"] c Cons
          by (auto simp: hi_run_def y split: option.split)
      qed
    qed
  next
    case False
    then have "hi_run e i a g s y = (case host_step s y of None \<Rightarrow> e | Some s' \<Rightarrow> to_phase e i (Ph_Run a g s'))"
      by (cases y) (simp_all add: hi_run_def)
    then show ?thesis using stay go [of _ e] by (auto split: option.split)
  qed
qed

lemma ok_stop:
  assumes ok: "engine_ok xs e" "i < length (en_tasks e)" "ic_phase (en_tasks e ! i) = Ph_Run a g s"
  shows "engine_ok (xs @ [x]) (hi_stop e i a g s)"
proof -
  have "host_reachable g s" using ok_task [OF ok(1,2)] ok(3) by (simp add: phase_ok_def)
  then show ?thesis unfolding hi_stop_def by (intro ok_session [OF ok] host_reach_stop) simp_all
qed

lemma ok_end:
  assumes ok: "engine_ok xs e" "i < length (en_tasks e)" "ic_phase (en_tasks e ! i) = Ph_Run a g s"
  shows "engine_ok (xs @ [x]) (hi_end e i a g s)"
proof (cases "\<exists>r. ho_ended s = Some r \<and> iw_done (ho_input s)")
  case True
  then obtain r where r: "ho_ended s = Some r" "iw_done (ho_input s)" by blast
  have p: "phase_ok (xs @ [x]) (en_events e) (Ph_Run a g s)" using ok_phase [OF ok(1,2)] ok(3) by simp
  show ?thesis
    by (rule ok_move [OF ok(1,2) refl, where ph' = "Ph_Over a g r"])
      (use ok(2,3) busy_if_holds [OF ok(1,2)] p r ok_active [OF ok] in \<open>auto simp: hi_end_def phase_ok_def\<close>)
next
  case False
  then have "hi_end e i a g s = e" by (auto simp: hi_end_def split: option.splits)
  then show ?thesis using ok_same [OF ok(1)] by simp
qed

lemma ok_over:
  assumes ok: "engine_ok xs e" "i < length (en_tasks e)" "ic_phase (en_tasks e ! i) = Ph_Over a g r"
  shows "engine_ok (xs @ [x]) (hi_over e i a g r)"
proof (rule ok_update [OF ok(1,2) refl, where ph' = "Ph_Close False True (r \<noteq> ConnectionLost \<and> ec_rotate_after_session (ic_cfg (en_tasks e ! i)))"])
  have g: "consented (xs @ [x]) (au_viewer_id a) g" using ok_phase [OF ok(1,2), of "[x]"] ok(3) by (simp add: phase_ok_def)
  show "consented (xs @ [x]) v p" if "hm_get (hg_resume (en_host (hi_over e i a g r))) v = Some (p, t)" for v p t
  proof (cases "v = au_viewer_id a")
    case True
    then show ?thesis using that g by (auto simp: hi_over_def Let_def split: if_splits)
  next
    case False
    then have "hm_get (hg_resume (en_host e)) v = Some (p, t)" using that by (auto simp: hi_over_def Let_def split: if_splits)
    then show ?thesis by (rule ok_resume [OF ok(1)])
  qed
qed (use ok(2,3) busy_if_holds [OF ok(1,2)] in \<open>auto simp: hi_over_def Let_def phase_ok_def\<close>)

lemma ok_close:
  assumes ok: "engine_ok xs e" "i < length (en_tasks e)" "ic_phase (en_tasks e ! i) = Ph_Close failed held rot"
  shows "engine_ok (xs @ [x]) (hi_close e i failed held rot pw)"
  by (rule ok_move [OF ok(1,2) refl, where ph' = Ph_Done])
    (use ok(2,3) busy_if_holds [OF ok(1,2)] rotate_keeps(2) [of "end_on_server e (ic_session (en_tasks e ! i)) failed" pw] in \<open>auto simp: hi_close_def Let_def phase_ok_def\<close>)

lemma ok_direct:
  assumes ok: "engine_ok xs e"
  shows "engine_ok (xs @ [x]) (accept_direct e sid b)"
proof -
  have d: "phases (e\<lparr>en_direct := m\<rparr>) = phases e" for m by (simp add: phases_def)
  have same: "engine_ok (xs @ [x]) (e\<lparr>en_direct := m\<rparr>)" for m by (rule ok_same [OF ok]) (simp_all add: d)
  have same0: "engine_ok (xs @ [x]) e" by (rule ok_same [OF ok]) simp_all
  show ?thesis
  proof (cases "hm_get (en_direct e) sid")
    case None
    then show ?thesis using same0 by (simp add: accept_direct_def)
  next
    case (Some i)
    show ?thesis
    proof (cases "i < length (en_tasks e) \<and> ic_phase (en_tasks e ! i) = Ph_Await")
      case True
      then have i: "i < length (en_tasks e)" "ic_phase (en_tasks e ! i) = Ph_Await" by simp_all
      show ?thesis
        by (rule ok_move [OF ok i(1) refl, where ph' = "if b then Ph_Shake Link_Direct else Ph_Close False True False"])
          (use Some i d busy_if_holds [OF ok i(1)] in \<open>auto simp: accept_direct_def Let_def phase_ok_def\<close>)
    next
      case False
      then show ?thesis using Some same by (auto simp: accept_direct_def Let_def)
    qed
  qed
qed

lemma ok_respond:
  assumes ok: "engine_ok xs e" and h: "engine_hist xs e"
  shows "engine_ok (xs @ [ES_Respond rid g]) (respond_incoming e rid g)"
proof (cases "hm_get (hg_pending (en_host e)) rid")
  case None
  then show ?thesis using ok_same [OF ok] by (simp add: respond_incoming_def)
next
  case (Some i)
  let ?e1 = "on_host (\<lambda>h. h\<lparr>hg_pending := hm_remove rid (hg_pending h)\<rparr>) e"
  have same: "engine_ok (xs @ [ES_Respond rid g]) ?e1" by (rule ok_same [OF ok]) simp_all
  show ?thesis
  proof (cases "i < length (en_tasks e) \<and> (\<exists>k a. ic_phase (en_tasks e ! i) = Ph_Prompt k a rid None)")
    case False
    then have "respond_incoming e rid g = ?e1"
      using Some by (auto simp: respond_incoming_def Let_def split: phase.split option.split)
    then show ?thesis using same by simp
  next
    case True
    then obtain k a where i: "i < length (en_tasks e)" "ic_phase (en_tasks e ! i) = Ph_Prompt k a rid None" by blast
    have eq: "respond_incoming e rid g = to_phase ?e1 i (Ph_Prompt k a rid (Some g))"
      using Some i by (simp add: respond_incoming_def)
    have p: "phase_ok xs (en_events e) (Ph_Prompt k a rid None)" using ok_task [OF ok i(1)] i(2) by simp
    then obtain name lan t where inc: "EE_Incoming rid (au_viewer_id a) name (au_requested a) lan t \<in> set (en_events e)"
      by (auto simp: phase_ok_def)
    have "owner_approved (xs @ [ES_Respond rid g]) (au_viewer_id a) (intersect q (au_requested a))" if "g = Some q" for q
    proof -
      have "hm_contains (hg_pending (en_host e)) rid" using Some by (simp add: hm_contains_def)
      then show ?thesis using h inc that unfolding owner_approved_def by (metis append_Nil2 perm_le_refl)
    qed
    then have "phase_ok (xs @ [ES_Respond rid g]) (en_events e) (Ph_Prompt k a rid (Some g))"
      using p admitted_more [of xs a] by (auto simp: phase_ok_def)
    then show ?thesis unfolding eq
      by (intro ok_move [OF ok i(1) refl, where ph' = "Ph_Prompt k a rid (Some g)"])
        (use i busy_if_holds [OF ok i(1)] in auto)
  qed
qed

lemma ok_incoming:
  assumes "engine_ok xs e" "phases e' = phases e @ [Ph_Check]" "en_host e' = en_host e" "en_events e' = en_events e"
  shows "engine_ok (xs @ [x]) e'"
proof -
  have "phase_ok (xs @ [x]) (en_events e) ph" if "ph \<in> set (phases e)" for ph
    using assms(1) that phase_ok_more [of xs "en_events e" ph "en_events e"] by (simp add: engine_ok_def)
  then show ?thesis
    using assms ok_resume [OF assms(1)] unfolding engine_ok_def by (simp add: phase_ok_def)
qed

lemma ok_dispatch:
  assumes ok: "engine_ok xs e"
  shows "engine_ok (xs @ [x]) (dispatch e ev first full)"
proof -
  note same = ok_same [OF ok]
  have c: "phases (e\<lparr>en_online := b\<rparr>) = phases e" "phases (e\<lparr>en_my_id := d\<rparr>) = phases e"
    "phases (e\<lparr>en_connects := m, en_resolved := l\<rparr>) = phases e" "phases (e\<lparr>en_relayed := q\<rparr>) = phases e" for b d m l q
    by (simp_all add: phases_def)
  show ?thesis
  proof (cases ev)
    case (SE_State st)
    show ?thesis by (rule same) (auto simp: SE_State dispatch_def c)
  next
    case (SE_Identity d)
    show ?thesis by (rule same) (auto simp: SE_Identity dispatch_def c)
  next
    case (SE_Msg m)
    have rf: "engine_ok (xs @ [x]) (resolve_first e first r)" for r
      by (rule same) (auto simp: resolve_first_def c)
    have stay: "engine_ok (xs @ [x]) e" by (rule same) simp_all
    show ?thesis
    proof (cases m)
      case (S_Incoming sid src name same_net)
      show ?thesis
        by (rule ok_incoming [OF ok]) (simp_all add: SE_Msg S_Incoming dispatch_def phases_def new_incoming_def)
    next
      case (S_SessionReady sid p cs d)
      then show ?thesis using rf by (simp add: SE_Msg dispatch_def)
    next
      case (S_ConnectFailed target reason)
      have "engine_ok (xs @ [x]) (e\<lparr>en_connects := m, en_resolved := l\<rparr>)" for m l
        by (rule same) (simp_all add: c)
      then show ?thesis using rf by (simp add: SE_Msg S_ConnectFailed dispatch_def)
    next
      case (S_Relay sid bs)
      have "engine_ok (xs @ [x]) (drop_route e sid)" "engine_ok (xs @ [x]) (e\<lparr>en_relayed := q\<rparr>)" for q
        by (rule same; simp add: c)+
      then show ?thesis using stay by (simp add: SE_Msg S_Relay dispatch_def)
    next
      case (S_SessionEnded sid)
      show ?thesis by (rule same) (simp_all add: SE_Msg S_SessionEnded dispatch_def)
    next
      case (S_Presence l)
      show ?thesis by (rule same) (auto simp: SE_Msg S_Presence dispatch_def)
    next
      case (S_Error msg)
      show ?thesis by (rule same) (auto simp: SE_Msg S_Error dispatch_def)
    qed (use stay in \<open>simp_all add: SE_Msg dispatch_def\<close>)
  qed
qed

lemma ok_other:
  fixes xs :: "('b, 's) engine_step list"
  assumes ok: "engine_ok xs e" and h: "engine_hist xs e"
  shows "engine_ok (xs @ [x]) (other_step e x)"
proof -
  note same = ok_same [OF ok]
  have c: "phases (e\<lparr>en_now := n\<rparr>) = phases e" "phases (e\<lparr>en_cfg := cf\<rparr>) = phases e" "phases (e\<lparr>en_incoming := b\<rparr>) = phases e"
    "phases (e\<lparr>en_connects := m\<rparr>) = phases e" "phases (e\<lparr>en_cmds := l\<rparr>) = phases e"
    "phases (e\<lparr>en_next_session := r\<rparr>) = phases e" "phases (e\<lparr>en_sent := q\<rparr>) = phases e" for n cf b m l r q
    by (simp_all add: phases_def)
  show ?thesis
  proof (cases x)
    case (ES_Server ev first full)
    then show ?thesis using ok_dispatch [OF ok] by (simp add: other_step_def)
  next
    case (ES_Direct sid b)
    then show ?thesis using ok_direct [OF ok] by (simp add: other_step_def)
  next
    case (ES_Respond rid g)
    then show ?thesis using ok_respond [OF ok h] by (simp add: other_step_def)
  next
    case (ES_Command c)
    show ?thesis by (rule same) (simp_all add: ES_Command other_step_def engine_command_def c)
  next
    case (ES_Unattended on pw ids any)
    show ?thesis by (rule same) (simp_all add: ES_Unattended other_step_def set_unattended_def Let_def)
  next
    case (ES_UnattendedElevated on)
    show ?thesis by (rule same) (simp_all add: ES_UnattendedElevated other_step_def set_unattended_elevated_def)
  next
    case (ES_Revoke v)
    show ?thesis by (rule same) (simp_all add: ES_Revoke other_step_def revoke_authorization_def)
  next
    case (ES_Rotate pw)
    show ?thesis by (rule same) (simp_all add: ES_Rotate other_step_def)
  next
    case (ES_Expiry pw)
    show ?thesis by (rule same) (simp_all add: ES_Expiry other_step_def password_expiry_def split: option.split)
  qed ((rule same; simp add: other_step_def c)+)
qed

lemma ok_task_step:
  fixes xs :: "('b, 's) engine_step list"
  assumes ok: "engine_ok xs e" and h: "engine_hist xs e" and t: "step_task x = Some i" and i: "i < length (en_tasks e)"
  shows "engine_ok (xs @ [x]) (task_step e i (ic_phase (en_tasks e ! i)) x)"
proof -
  have stay: "engine_ok (xs @ [x]) e" by (rule ok_same [OF ok]) simp_all
  note l = ok_check [OF ok i] ok_link [OF ok i] ok_result [OF ok i] ok_consent [OF ok i _ h] ok_decision [OF ok i]
    ok_start [OF ok i] ok_run [OF ok i] ok_stop [OF ok i] ok_end [OF ok i] ok_over [OF ok i] ok_close [OF ok i]
  show ?thesis
  proof (cases x)
    case (ES_Hello j hv rs)
    then have "j = i" using t by (simp add: step_task_def)
    then show ?thesis using stay ok_hello [OF ok i _ h] ES_Hello
      by (cases "ic_phase (en_tasks e ! i)") (simp_all add: task_step_def)
  qed (use stay l in \<open>cases "ic_phase (en_tasks e ! i)"; simp add: task_step_def\<close>)+
qed

lemma engine_hist_ok: "engine_hist xs e \<Longrightarrow> engine_ok xs e"
proof (induction rule: engine_hist.induct)
  case (hist_new cfg temp now)
  then show ?case by (simp add: engine_ok_def engine_new_def phases_def host_state_new_def)
next
  case (hist_step xs e x)
  have ok: "engine_ok xs e" by fact
  have stay: "engine_ok (xs @ [x]) e" by (rule ok_same [OF ok]) simp_all
  show ?case
    using stay ok_task_step [OF ok hist_step.hyps] ok_other [OF ok hist_step.hyps]
    unfolding engine_step_def by (simp split: option.split)
qed

section \<open>Sessions\<close>

text \<open>
  C8. Nobody gets a host session without having proved a password that was valid for it and without
  the owner's consent. Whatever is announced, sent, answered and changed, in any order, a task that
  runs a session for a viewer has a history in which
  (1) that viewer, attested by the server, sent the confirmation only the valid password yields: the
  temporary one, or the permanent one with unattended access on and the viewer authorized, and
  the viewer was not locked out;
  (2) the owner answered an open prompt showing this viewer and its request with at least these
  permissions, or the viewer was let in unattended, with elevated control only if the owner
  allowed it there (a resumed session falls back on the consent of the dropped one);
  (3) the grant has an ordinary permission and the permissions in force never exceed it; and
  (4) no other task holds the host.
\<close>

theorem session_needs_password_and_consent:
  assumes "engine_hist xs e" "i < length (en_tasks e)" "ic_phase (en_tasks e ! i) = Ph_Run a g s"
  shows "admitted xs a \<and> (owner_approved xs (au_viewer_id a) g \<or> unattended_consent xs (au_viewer_id a) g) \<and>
    \<not> no_session g \<and> perm_le (ho_perms s) g \<and>
    (\<forall>j < length (en_tasks e). j \<noteq> i \<longrightarrow> \<not> holds (ic_phase (en_tasks e ! j)))"
proof -
  have ok: "engine_ok xs e" by (rule engine_hist_ok [OF assms(1)])
  have p: "admitted xs a" "consented xs (au_viewer_id a) g" "\<not> no_session g" "host_reachable g s"
    using ok_task [OF ok assms(2)] assms(3) by (simp_all add: phase_ok_def)
  have "host_ok g s" by (rule host_reachable_ok [OF p(4)])
  then have le: "perm_le (ho_perms s) g" using perm_le_trans by (auto simp: host_ok_def)
  have "i = j" if "j < length (en_tasks e)" "holds (ic_phase (en_tasks e ! j))" for j
    by (rule only_holder [of holds "phases e"])
      (use ok assms(2,3) that in \<open>simp_all add: engine_ok_def phases_nth\<close>)
  then show ?thesis using p le by (auto simp: consented_def)
qed

text \<open>
  The consent of a dropped session is the one it started with: what the owner withdrew in the
  meantime comes back when the viewer resumes.
\<close>

lemma resume_ignores_withdrawal:
  assumes "i < length (en_tasks e)" "ho_ended s = Some ConnectionLost" "iw_done (ho_input s)"
  shows "ic_phase (en_tasks (hi_end e i a g s) ! i) = Ph_Over a g ConnectionLost"
    "resume_grant (en_host (hi_over e i a g ConnectionLost)) (en_now e + secs 299) (au_viewer_id a) = Some g"
proof -
  show "ic_phase (en_tasks (hi_end e i a g s) ! i) = Ph_Over a g ConnectionLost"
    using assms by (simp add: hi_end_def to_phase_def)
  show "resume_grant (en_host (hi_over e i a g ConnectionLost)) (en_now e + secs 299) (au_viewer_id a) = Some g"
    by (simp add: hi_over_def Let_def resume_grant_def RESUME_WINDOW_def secs_def)
qed

section \<open>Lockout\<close>

lemma failures_keeps [simp]:
  "hg_failures (en_host (rotate_password e pw)) = hg_failures (en_host e)" "en_now (rotate_password e pw) = en_now e"
  "en_now (emit e ev) = en_now e" "en_now (on_host f e) = en_now e" "en_now (relay_link e sid) = en_now e"
  "en_now (drop_route e sid) = en_now e" "en_now (end_on_server e sid b) = en_now e" "en_now (reject e sid r) = en_now e"
  "en_now (release_busy e) = en_now e"
  by (simp_all add: rotate_password_def emit_def on_host_def relay_link_def drop_route_def end_on_server_def
      reject_def release_busy_def Let_def)

lemma now_task_step: "en_now (task_step e i ph x) = en_now e"
  by (simp add: task_step_def hi_check_def hi_link_def hi_hello_def hi_result_def hi_consent_def hi_decision_def
      hi_start_def hi_run_def hi_stop_def hi_end_def hi_over_def hi_close_def bad_password_def Let_def
      split: engine_step.split phase.split sum.split host_failure.split option.split host_step.split prod.split list.split)

lemma now_step: "en_now e \<le> en_now (engine_step e x)"
proof (cases "step_task x")
  case None
  have "en_now e \<le> en_now (other_step e x)"
    by (simp add: other_step_def dispatch_def accept_direct_def respond_incoming_def engine_command_def set_unattended_def
        set_unattended_elevated_def revoke_authorization_def password_expiry_def resolve_first_def Let_def
        split: engine_step.split sig_event.split server_to_client.split option.split phase.split)
  then show ?thesis by (simp add: engine_step_def None)
qed (simp add: engine_step_def now_task_step)

end
