(* ===== verification/Engine_Lockout.thy ===== *)
theory Engine_Lockout
  imports Engine_Props
begin

text \<open>
  The lockout of a viewer at the host: five wrong passwords within ten minutes shut it out for thirty
  minutes, whatever the tasks, the owner and the server do meanwhile.
\<close>

section \<open>How the failure limiter evolves\<close>

definition failures :: "'b engine \<Rightarrow> rstr limiter" where
  "failures e = hg_failures (en_host e)"

lemma failures_same [simp]:
  "failures (to_phase e i ph) = failures e" "failures (rotate_password e pw) = failures e" "failures (emit e ev) = failures e"
  "failures (relay_link e sid) = failures e" "failures (drop_route e sid) = failures e"
  "failures (end_on_server e sid b) = failures e" "failures (reject e sid r) = failures e" "failures (release_busy e) = failures e"
  by (simp_all add: failures_def)

lemma failures_on_host [simp]: "failures (on_host f e) = hg_failures (f (en_host e))"
  by (simp add: failures_def)

lemma lookup_failures: "hg_failures (snd (pw_lookup h now v kind)) = limiter_step (hg_failures h) (Op_locked v now)"
  by (simp add: pw_lookup_def split: prod.split option.split)

lemma bad_password_failures: "failures (bad_password e v pw) = limiter_step (failures e) (Op_failure v (en_now e))"
  by (simp add: bad_password_def Let_def failures_def split: prod.split)

lemma failures_direct [simp]: "failures (accept_direct e sid b) = failures e"
  by (simp add: accept_direct_def Let_def failures_def split: option.split)

lemma failures_respond [simp]: "failures (respond_incoming e rid g) = failures e"
  by (simp add: respond_incoming_def Let_def failures_def split: option.split phase.split)

lemma failures_dispatch [simp]: "failures (dispatch e ev first full) = failures e"
  by (simp add: dispatch_def resolve_first_def failures_def split: sig_event.split server_to_client.split)

lemma failures_other: "failures (other_step e x) = failures e"
  by (cases x)
    (simp_all add: other_step_def, simp_all add: failures_def engine_command_def set_unattended_def Let_def
      set_unattended_elevated_def revoke_authorization_def password_expiry_def split: option.split)

lemma failures_tasks [simp]:
  "failures (hi_check e i) = failures e" "failures (hi_link e i came) = failures e"
  "failures (hi_consent e i k a) = failures e" "failures (hi_decision e i k a rid ans) = failures e"
  "failures (hi_start e i k a g pf) = failures e" "failures (hi_run e i a g s y) = failures e"
  "failures (hi_stop e i a g s) = failures e" "failures (hi_end e i a g s) = failures e"
  "failures (hi_over e i a g r) = failures e" "failures (hi_close e i f held rot pw) = failures e"
  by (simp_all add: failures_def hi_check_def hi_link_def hi_consent_def hi_decision_def hi_start_def hi_run_def hi_stop_def
      hi_end_def hi_over_def hi_close_def Let_def split: option.split sum.split prod.split host_step.split list.split)

lemma failures_task_step:
  assumes "\<forall>j hv rs. x \<noteq> ES_Hello j hv rs" "\<forall>j pw. x \<noteq> ES_Result j pw"
  shows "failures (task_step e i ph x) = failures e"
  using assms by (cases x) (simp_all add: task_step_def split: phase.split)

text \<open>Every step checks, counts or forgets at most one viewer, and forgets only one that has passed.\<close>

lemma failures_step:
  fixes e :: "'b engine"
  shows "(\<exists>op. failures (engine_step e x) = limiter_step (failures e) op \<and> op_time op \<le> en_now e \<and>
      (\<forall>k t. op = Op_failure k t \<longrightarrow> t = en_now e) \<and>
      (\<forall>k. op = Op_success k \<longrightarrow> (\<exists>l a. Ph_Shook l (Inr a) \<in> set (phases e) \<and> au_viewer_id a = k))) \<or>
    failures (engine_step e x) = failures e"
proof (cases "step_task x")
  case None
  then show ?thesis by (simp add: engine_step_def failures_other)
next
  case (Some i)
  show ?thesis
  proof (cases "i < length (en_tasks e)")
    case True
    let ?ph = "ic_phase (en_tasks e ! i)"
    have e': "engine_step e x = task_step e i ?ph x" by (simp add: engine_step_def Some True)
    have lk: ?thesis if "failures (engine_step e x) = limiter_step (failures e) (Op_locked v (en_now e))" for v
      using that by (intro disjI1 exI [of _ "Op_locked v (en_now e)"]) simp
    have fl: ?thesis if "failures (engine_step e x) = limiter_step (failures e) (Op_failure v (en_now e))" for v
      using that by (intro disjI1 exI [of _ "Op_failure v (en_now e)"]) simp
    show ?thesis
    proof (cases x)
      case (ES_Hello j hv rs)
      show ?thesis
      proof (cases ?ph)
        case (Ph_Shake k)
        have "failures (engine_step e x) = (case asks_for (hv_de hv) (ic_params (en_tasks e ! i)) rs of
            None \<Rightarrow> failures e | Some (v, kind) \<Rightarrow> limiter_step (failures e) (Op_locked v (en_now e)))"
          unfolding e' by (simp add: ES_Hello task_step_def Ph_Shake hi_hello_def Let_def lookup_failures split: option.split prod.split) (simp add: failures_def)
        then show ?thesis using lk by (auto split: option.splits)
      qed (unfold e', simp_all add: ES_Hello task_step_def)
    next
      case (ES_Result j pw)
      show ?thesis
      proof (cases ?ph)
        case (Ph_Shook k r)
        have in_ph: "Ph_Shook k r \<in> set (phases e)" using True Ph_Shook by (simp add: phases_def image_iff) (metis nth_mem)
        show ?thesis
        proof (cases r)
          case (Inr a)
          have "failures (engine_step e x) = limiter_step (failures e) (Op_success (au_viewer_id a))"
            unfolding e' by (simp add: ES_Result task_step_def Ph_Shook Inr hi_result_def) (simp add: failures_def)
          then show ?thesis using in_ph Inr by (intro disjI1 exI [of _ "Op_success (au_viewer_id a)"]) auto
        next
          case (Inl f)
          show ?thesis
          proof (cases f)
            case (H_BadPassword v)
            show ?thesis
              by (rule fl [of v]) (unfold e', simp add: ES_Result task_step_def Ph_Shook Inl H_BadPassword hi_result_def bad_password_failures)
          qed (unfold e', simp_all add: ES_Result task_step_def Ph_Shook Inl hi_result_def)
        qed
      qed (unfold e', simp_all add: ES_Result task_step_def)
    qed (unfold e', simp_all add: failures_task_step)
  qed (simp add: engine_step_def Some)
qed

section \<open>Who passes the handshake\<close>

definition newly_passed :: "'b engine \<Rightarrow> 'b phase \<Rightarrow> bool" where
  "newly_passed e q \<longleftrightarrow> (\<forall>k a. q = Ph_Shook k (Inr a) \<longrightarrow> (\<exists>pw. valid_password (en_host e) (en_now e) a pw))"

lemma newly_passed_trivial: "\<forall>k a. q \<noteq> Ph_Shook k (Inr a) \<Longrightarrow> newly_passed e q"
  by (simp add: newly_passed_def)

lemma phases_fields [simp]:
  "phases (e\<lparr>en_direct := m\<rparr>) = phases e" "phases (e\<lparr>en_next_request := r\<rparr>) = phases e"
  "phases (e\<lparr>en_next_session := r\<rparr>) = phases e" "phases (e\<lparr>en_cmds := c\<rparr>) = phases e"
  "phases (e\<lparr>en_next_session := r, en_cmds := c\<rparr>) = phases e" "phases (e\<lparr>en_now := n\<rparr>) = phases e"
  "phases (e\<lparr>en_cfg := cf\<rparr>) = phases e" "phases (e\<lparr>en_incoming := b\<rparr>) = phases e" "phases (e\<lparr>en_connects := cs\<rparr>) = phases e"
  "phases (e\<lparr>en_connects := cs, en_resolved := rl\<rparr>) = phases e" "phases (e\<lparr>en_relayed := q\<rparr>) = phases e"
  "phases (e\<lparr>en_online := b\<rparr>) = phases e" "phases (e\<lparr>en_my_id := d\<rparr>) = phases e"
  "phases (e\<lparr>en_sent := sl\<rparr>) = phases e"
  by (simp_all add: phases_def)

definition one_task :: "'b engine \<Rightarrow> 'b engine \<Rightarrow> bool" where
  "one_task e e' \<longleftrightarrow> phases e' = phases e \<or> (\<exists>i q. phases e' = (phases e)[i := q] \<and> newly_passed e q) \<or>
     phases e' = phases e @ [Ph_Check]"

lemma one_task_same: "phases e' = phases e \<Longrightarrow> one_task e e'"
  by (simp add: one_task_def)

lemma one_task_move: "phases e' = (phases e)[i := q] \<Longrightarrow> newly_passed e q \<Longrightarrow> one_task e e'"
  unfolding one_task_def by blast

lemma one_task_hello:
  "one_task e (hi_hello e i k hv rs)"
proof (rule one_task_move)
  show "phases (hi_hello e i k hv rs) = (phases e)[i := Ph_Shook k (shake hv (ic_params (en_tasks e ! i)) (en_host e) (en_now e) rs)]"
    by (simp add: hi_hello_def Let_def split: option.split)
  show "newly_passed e (Ph_Shook k (shake hv (ic_params (en_tasks e ! i)) (en_host e) (en_now e) rs))"
    unfolding newly_passed_def using shake_accepts by blast
qed

lemma one_task_run: "one_task e (hi_run e i a g s y)"
proof -
  have "one_task e (to_phase e' i (Ph_Run a g s'))" if "phases e' = phases e" for e' s'
    by (rule one_task_move [where q = "Ph_Run a g s'"]) (simp_all add: that newly_passed_trivial)
  moreover have "one_task e e" by (rule one_task_same) simp
  ultimately show ?thesis by (simp add: hi_run_def split: host_step.split option.split list.split)
qed

lemma one_task_step: "one_task e (task_step e i ph x)"
proof -
  have mv: "one_task e e'" if "phases e' = (phases e)[i := q]" "\<forall>k a. q \<noteq> Ph_Shook k (Inr a)" for e' q
    using that newly_passed_trivial one_task_move by blast
  have st: "one_task e e" by (rule one_task_same) simp
  have d: "one_task e (hi_decision e i k a rid ans)" for k a rid ans
  proof (cases "\<exists>p. ans = Some (Some p)")
    case True
    then show ?thesis by (auto simp: hi_decision_def Let_def intro: mv)
  next
    case False
    show ?thesis by (rule mv [of _ "Ph_Close False True False"]) (use False in \<open>auto simp: hi_decision_def Let_def split: option.split\<close>)
  qed
  have c: "one_task e (hi_consent e i k a)" for k a
    by (cases "auto_grant (en_host e) (en_now e) a") (auto simp: hi_consent_def Let_def intro: mv)
  have s: "one_task e (hi_start e i k a g pf)" for k a g pf
    by (auto simp: hi_start_def Let_def split: sum.split prod.split intro: mv)
  have r: "one_task e (hi_result e i k r pw)" for k r pw
    by (auto simp: hi_result_def split: sum.split host_failure.split intro: mv)
  have rest: "one_task e (hi_link e i came)" "one_task e (hi_stop e i a g s)" "one_task e (hi_end e i a g s)"
    "one_task e (hi_over e i a g er)" "one_task e (hi_close e i f held rot pw)" for came a g s er f held rot pw
    using st by (auto simp: hi_link_def hi_stop_def hi_end_def hi_over_def hi_close_def Let_def split: option.split intro: mv)
  have k: "one_task e (hi_check e i)"
  proof (cases "i < length (en_tasks e)")
    case True
    show ?thesis by (rule mv [OF hi_check_eq(1) [OF True]]) simp
  next
    case False
    then have "phases (hi_check e i) = phases e"
      by (simp add: hi_check_def Let_def phases_def to_phase_def relay_link_def on_host_def list_update_beyond)
    then show ?thesis by (rule one_task_same)
  qed
  show ?thesis
    by (cases x) (simp_all add: task_step_def st d c s r rest k one_task_hello one_task_run split: phase.split)
qed

lemma one_task_dispatch: "one_task e (dispatch e ev first full)"
proof -
  have "phases (resolve_first e first r) = phases e" for r by (simp add: resolve_first_def)
  moreover have "phases (e\<lparr>en_tasks := en_tasks e @ [new_incoming e sid src name]\<rparr>) = phases e @ [Ph_Check]" for sid src name
    by (simp add: phases_def new_incoming_def)
  ultimately show ?thesis
    by (simp add: dispatch_def one_task_def split: sig_event.split server_to_client.split)
qed

lemma one_task_other: "one_task e (other_step e x)"
proof -
  have st: "one_task e e" by (rule one_task_same) simp
  have dr: "one_task e (accept_direct e sid b)" for sid b
    by (auto simp: accept_direct_def Let_def newly_passed_trivial split: option.split
        intro: one_task_same one_task_move [where q = "Ph_Shake Link_Direct"] one_task_move [where q = "Ph_Close False True False"])
  have rp: "one_task e (respond_incoming e rid g)" for rid g
    by (auto simp: respond_incoming_def Let_def newly_passed_def split: option.split phase.split
        intro: one_task_same one_task_move)
  show ?thesis
    by (cases x) (simp_all add: other_step_def st dr rp one_task_dispatch, simp_all add: one_task_def engine_command_def
        set_unattended_def set_unattended_elevated_def revoke_authorization_def password_expiry_def Let_def split: option.split)
qed

lemma one_task_engine: "one_task e (engine_step e x)"
  using one_task_step one_task_other one_task_same [of e e]
  by (auto simp: engine_step_def split: option.split)

lemma passing_step:
  assumes "Ph_Shook k (Inr a) \<in> set (phases (engine_step e x))"
  shows "Ph_Shook k (Inr a) \<in> set (phases e) \<or> (\<exists>pw. valid_password (en_host e) (en_now e) a pw)"
  using one_task_engine [of e x] assms set_update_subset_insert [of "phases e"]
  unfolding one_task_def newly_passed_def by fastforce

section \<open>The lockout holds\<close>

definition shut_out :: "rstr \<Rightarrow> instant \<Rightarrow> 'b engine \<Rightarrow> bool" where
  "shut_out v T e \<longleftrightarrow> locked_past (failures e) v T \<and> lim_wf (failures e) \<and> lockout (failures e) = secs 1800 \<and>
     T \<le> en_now e + secs 1800 \<and> (\<forall>k a. Ph_Shook k (Inr a) \<in> set (phases e) \<longrightarrow> au_viewer_id a \<noteq> v)"

lemma locked_past_locked: "locked_past l v T \<Longrightarrow> now < T \<Longrightarrow> fst (locked l v now) \<noteq> None"
  unfolding locked_past_def lim.refused_iff by (auto intro: less_le_trans)

lemma shut_out_step:
  assumes s: "shut_out v T e" and now: "en_now e < T"
  shows "shut_out v T (engine_step e x)"
proof -
  have l: "locked_past (failures e) v T" "lim_wf (failures e)" "lockout (failures e) = secs 1800" "T \<le> en_now e + secs 1800"
    using s by (simp_all add: shut_out_def)
  have "locked_past (failures (engine_step e x)) v T \<and> lim_wf (failures (engine_step e x)) \<and>
      lockout (failures (engine_step e x)) = secs 1800"
    using failures_step [of e x]
  proof (elim disjE exE conjE)
    fix op
    assume op: "failures (engine_step e x) = limiter_step (failures e) op" "op_time op \<le> en_now e"
      "\<forall>k t. op = Op_failure k t \<longrightarrow> t = en_now e"
      "\<forall>k. op = Op_success k \<longrightarrow> (\<exists>l a. Ph_Shook l (Inr a) \<in> set (phases e) \<and> au_viewer_id a = k)"
    have "locked_past (limiter_step (failures e) op) v T"
    proof (rule locked_past_step [OF l(2,1)])
      show "op_time op < T" using op(2) now by simp
      show "T \<le> op_time op + lockout (failures e) \<or> (\<forall>now. op \<noteq> Op_failure v now)" using op(3) l(3,4) by (cases op) auto
      show "op \<noteq> Op_success v" using op(4) s by (auto simp: shut_out_def)
    qed
    then show ?thesis using op(1) l lim_wf_step by simp
  qed (use l in simp)
  moreover have "au_viewer_id a \<noteq> v" if "Ph_Shook k (Inr a) \<in> set (phases (engine_step e x))" for k a
    using passing_step [OF that]
  proof
    assume "\<exists>pw. valid_password (en_host e) (en_now e) a pw"
    then have "fst (locked (failures e) (au_viewer_id a) (en_now e)) = None" by (auto simp: valid_password_def failures_def)
    then show ?thesis using locked_past_locked [OF l(1) now] by auto
  qed (use s in \<open>simp add: shut_out_def\<close>)
  moreover have "T \<le> en_now (engine_step e x) + secs 1800" using l(4) now_step [of e x] by simp
  ultimately show ?thesis by (simp add: shut_out_def)
qed

lemma now_run: "en_now e \<le> en_now (foldl engine_step e ys)"
proof (induction ys arbitrary: e)
  case (Cons y ys)
  then show ?case using now_step [of e y] order_trans by fastforce
qed simp

lemma shut_out_run: "shut_out v T e \<Longrightarrow> en_now (foldl engine_step e ys) < T \<Longrightarrow> shut_out v T (foldl engine_step e ys)"
proof (induction ys arbitrary: e)
  case (Cons y ys)
  have "en_now e < T" using now_run [of e "y # ys"] Cons.prems(2) by simp
  then have "shut_out v T (engine_step e y)" using shut_out_step Cons.prems(1) by blast
  then show ?case using Cons.IH Cons.prems(2) by simp
qed simp

lemma hist_limiter: "engine_hist xs e \<Longrightarrow> lim_wf (failures e) \<and> lockout (failures e) = secs 1800"
proof (induction rule: engine_hist.induct)
  case (hist_new cfg temp now)
  then show ?case by (simp add: failures_def engine_new_def host_state_new_def)
next
  case (hist_step xs e x)
  then show ?case using failures_step [of e x] lim_wf_step by auto
qed

text \<open>
  C28. A lockout at the host holds: when a wrong password trips it at some moment, then for the
  following thirty minutes, whatever connections are announced and attempted, whatever the owner
  changes and however the tasks interleave, the host offers that viewer no password, temporary or
  permanent, and no task authenticates it.
\<close>

theorem host_lockout_holds:
  fixes xs ys :: "('b, 's) engine_step list"
  assumes "engine_hist xs e" "i < length (en_tasks e)" "ic_phase (en_tasks e ! i) = Ph_Shook k (Inl (H_BadPassword v))"
    and "fst (record_failure (hg_failures (en_host e)) v (en_now e))"
    and "e' = foldl engine_step e (ES_Result i pw # ys)" "en_now e' < en_now e + secs 1800"
  shows "fst (pw_lookup (en_host e') (en_now e') v kind) = LockedOut \<and>
    (\<forall>k a. Ph_Shook k (Inr a) \<in> set (map ic_phase (en_tasks e')) \<longrightarrow> au_viewer_id a \<noteq> v)"
proof -
  let ?x = "ES_Result i pw :: ('b, 's) engine_step"
  let ?e1 = "engine_step e ?x" and ?T = "en_now e + secs 1800"
  have ok: "engine_ok xs e" by (rule engine_hist_ok [OF assms(1)])
  have lw: "lim_wf (failures e)" "lockout (failures e) = secs 1800" using hist_limiter [OF assms(1)] by simp_all
  have e1: "?e1 = to_phase (bad_password e v pw) i (Ph_Close True False False)"
    using assms(2,3) by (simp add: engine_step_def step_task_def task_step_def hi_result_def)
  have f: "failures ?e1 = snd (record_failure (failures e) v (en_now e))" by (simp add: e1 bad_password_failures)
  have trip: "fst (record_failure (failures e) v (en_now e))" using assms(4) by (simp add: failures_def)
  have "locked_past (failures ?e1) v ?T" unfolding f locked_past_def until_failure using trip lw by simp
  moreover have "lim_wf (failures ?e1)" using lw unfolding f by auto
  moreover have "lockout (failures ?e1) = secs 1800" unfolding f using lw by simp
  moreover have "?T \<le> en_now ?e1 + secs 1800" using now_step [of e ?x] by simp
  moreover have "q \<noteq> Ph_Shook l (Inr a)" if "q \<in> set (phases ?e1)" for q l a
  proof
    assume q: "q = Ph_Shook l (Inr a)"
    have "q \<in> set ((phases e)[i := Ph_Close True False False])" using that by (simp add: e1)
    then obtain j where j: "j < length (phases e)" "j \<noteq> i" "phases e ! j = q"
      using q assms(2) by (auto simp: in_set_conv_nth nth_list_update split: if_splits)
    have "i = j"
      by (rule only_holder [of holds "phases e"])
        (use ok assms(2,3) j q in \<open>simp_all add: engine_ok_def phases_nth\<close>)
    then show False using j(2) by simp
  qed
  ultimately have "shut_out v ?T ?e1" unfolding shut_out_def by blast
  then have s: "shut_out v ?T e'" using shut_out_run assms(5,6) by simp
  then have "fst (locked (hg_failures (en_host e')) v (en_now e')) \<noteq> None"
    using locked_past_locked assms(6) by (auto simp: shut_out_def failures_def)
  then have "fst (pw_lookup (en_host e') (en_now e') v kind) = LockedOut"
    by (auto simp: pw_lookup_def split: prod.split option.split)
  then show ?thesis using s by (auto simp: shut_out_def phases_def)
qed

end
