(* ===== verification/Host_Demo.thy ===== *)
theory Host_Demo
  imports Host_Revoke
begin

text \<open>
  A session in which the viewer presses a key and the owner withdraws the keyboard, evaluated step by
  step: the properties of the host's loop at a concrete input.
\<close>

section \<open>A session\<close>

text \<open>A session with all ordinary permissions in which the viewer presses a key and the owner withdraws the keyboard.\<close>

definition demo_env :: "mock host_env" where
  "demo_env = \<lparr>he_now = 0, he_now_ms = 0, he_sha = (\<lambda>b. b), he_clip_ops = mock_ops,
     he_file = \<lparr>fe_stop = None, fe_finish = disk_fine, fe_listing = ([], None), fe_expanded = None, fe_canonical = True\<rparr>,
     he_begin = None, he_video_dropped = 0, he_video_send_us = 0, he_bulk_bytes = 0\<rparr>"

definition demo_auth :: authenticated where
  "demo_auth = \<lparr>au_channel = secure_channel_new [] [], au_viewer_id = [49], au_viewer_name = [86],
     au_auth = Temporary, au_requested = PERM_ALL\<rparr>"

definition demo_link :: link_info where
  "demo_link = \<lparr>li_kind = Link_Direct, li_peer = [], li_protocol = ''tcp''\<rparr>"

definition demo_start :: "(msg list \<times> host_event list \<times> end_reason) + mock host" where
  "demo_start = host_start 1 (engine_config_new [] [] [] []) [72] demo_auth demo_link PERM_ALL
     (Some [some_display]) None \<lparr>f_dirs = [[]], f_names = [], f_data = []\<rparr> demo_env"

definition key_a :: "bool \<Rightarrow> inbound" where
  "key_a down = \<lparr>ib_seq = 1, ib_ev = Key 0x1e False down, ib_arrived = 0\<rparr>"

definition no_keyboard :: permissions where
  "no_keyboard = PERM_ALL\<lparr>p_keyboard := False\<rparr>"

lemma demo_started:
  "\<exists>s. demo_start = Inr s \<and> ho_perms s = PERM_ALL \<and> ho_max_perms s = PERM_ALL \<and> ho_mid s = None \<and> ho_ended s = None \<and>
     ho_guard s = None \<and> ho_input s = input_spawn (shared_new PERM_ALL [some_display] 0) 0"
proof -
  have "primary_index [some_display] = 0" by (simp add: primary_index_def some_display_def)
  then show ?thesis
    by (simp add: demo_start_def host_start_def host_elevate_def PERM_ALL_def demo_env_def Let_def)
qed


theorem permissions_never_exceed_grant_witness:
  "\<exists>s. demo_start = Inr s \<and> fm_allowed (ho_files s) = p_files (ho_perms s) \<and> perm_le (ho_perms s) PERM_ALL"
proof -
  obtain s where s: "demo_start = Inr s" using demo_started by blast
  have "host_reachable PERM_ALL s" using s unfolding demo_start_def by (rule host_reach_start)
  from permissions_never_exceed_grant [OF this] show ?thesis using s by blast
qed

lemma thread_run: "host_run s (map HS_Thread ts) = Some (s\<lparr>ho_input := foldl (\<lambda>w t. in_step t w) (ho_input s) ts\<rparr>)"
  by (induction ts arbitrary: s) (simp_all add: host_step_def)

definition thread_turn :: "in_step list" where
  "thread_turn = [I_Wake, I_Check, I_Apply (\<lambda>_. True) some_screen 0 0, I_Ack 0]"

lemma turn:
  assumes "at_recv w" "iw_route w = [it]" "\<not> ev_move (ib_ev it)" "allowed (iw_shared w) (ib_ev it) = ok"
  shows "foldl (\<lambda>w t. in_step t w) w thread_turn =
    in_ack 0 (in_apply (\<lambda>_. True) some_screen 0 0
      (w\<lparr>iw_route := [], iw_batch := [], iw_checked := Some (it, ok)\<rparr>))"
proof -
  have "in_wake w = w\<lparr>iw_route := [], iw_batch := [it]\<rparr>"
    using assms by (simp add: in_wake_def coalesce_moves_def coalesce_step_def)
  moreover have "in_check (w\<lparr>iw_route := [], iw_batch := [it]\<rparr>) =
      w\<lparr>iw_route := [], iw_batch := [], iw_checked := Some (it, ok)\<rparr>"
    using assms by (simp add: in_check_def at_recv_def)
  ultimately show ?thesis by (simp add: thread_turn_def in_step_def)
qed

lemma ack_sel [simp]:
  "iw_records (in_ack t w) = iw_records w" "iw_route (in_ack t w) = iw_route w" "iw_shared (in_ack t w) = iw_shared w"
  "iw_elev (in_ack t w) = iw_elev w" "iw_batch (in_ack t w) = iw_batch w" "iw_checked (in_ack t w) = iw_checked w"
  "iw_done (in_ack t w) = iw_done w" "iw_checked w = None \<Longrightarrow> iw_batch w = [] \<Longrightarrow> iw_newest (in_ack t w) = None" "iw_sink (in_ack t w) = iw_sink w"
  by (auto simp: in_ack_def Let_def split: option.splits)

lemma key_a_sel [simp]: "ib_ev (key_a d) = Key 0x1e False d" "ib_seq (key_a d) = 1" "ib_arrived (key_a d) = 0"
  by (simp_all add: key_a_def)

text \<open>The thread takes a key press with the permission and injects it.\<close>

lemma turn_press:
  assumes "at_recv w" "sh_keyboard (iw_shared w)" "sh_elevated (iw_shared w) = None" "sh_displays (iw_shared w) = [some_display]"
    "sh_active (iw_shared w) = 0" "iw_route w = []" "iw_last_ack w = 0"
    "w' = foldl (\<lambda>w t. in_step t w) (route_send w (key_a True)) thread_turn"
  shows "iw_records w' = iw_records w @ [key_rec 0x1e False True]" "iw_route w' = []" "iw_batch w' = []" "iw_checked w' = None"
    "iw_done w' = iw_done w" "iw_newest w' = None" "\<exists>q a. iw_shared w' = (iw_shared w)\<lparr>sh_queue_us := q, sh_apply_us := a\<rparr>"
proof -
  have w': "w' = in_ack 0 (in_apply (\<lambda>_. True) some_screen 0 0
      ((route_send w (key_a True))\<lparr>iw_route := [], iw_batch := [], iw_checked := Some (key_a True, True)\<rparr>))"
    unfolding assms(8) by (rule turn) (use assms in \<open>simp_all add: route_send_def at_recv_def allowed_def is_mouse_def is_keyboard_def ev_move_def\<close>)
  note d = in_apply_def apply_event_def drop_dead_def active_display_def sink_do_def inj_call_def inj_build_def route_send_def
  show "iw_records w' = iw_records w @ [key_rec 0x1e False True]" "iw_route w' = []" "iw_batch w' = []" "iw_checked w' = None"
    "iw_done w' = iw_done w" "iw_newest w' = None" "\<exists>q a. iw_shared w' = (iw_shared w)\<lparr>sh_queue_us := q, sh_apply_us := a\<rparr>"
    unfolding w' using assms(1-7) by (simp_all add: d) blast+
qed

text \<open>The thread takes a \<open>ReleaseAll\<close>.\<close>

lemma turn_release:
  assumes "at_recv w" "sh_elevated (iw_shared w) = None" "iw_route w = [\<lparr>ib_seq = 0, ib_ev = ReleaseAll, ib_arrived = t\<rparr>]"
    "w' = foldl (\<lambda>w t. in_step t w) w thread_turn"
  shows "iw_route w' = []" "iw_batch w' = []" "iw_checked w' = None" "iw_shared w' = iw_shared w"
proof -
  have w': "w' = in_ack 0 (in_apply (\<lambda>_. True) some_screen 0 0
      (w\<lparr>iw_route := [], iw_batch := [], iw_checked := Some (\<lparr>ib_seq = 0, ib_ev = ReleaseAll, ib_arrived = t\<rparr>, True)\<rparr>))"
    unfolding assms(4) by (rule turn) (use assms in \<open>simp_all add: allowed_def is_mouse_def is_keyboard_def ev_move_def\<close>)
  note d = in_apply_def apply_event_def drop_dead_def sink_do_def
  show "iw_route w' = []" "iw_batch w' = []" "iw_checked w' = None" "iw_shared w' = iw_shared w"
    unfolding w' using assms(1-3) by (simp_all add: d split: prod.splits)
qed

lemma demo_pressed:
  assumes "demo_start = Inr s"
  shows "\<exists>w. host_run s (HS_Input (key_a True) # map HS_Thread thread_turn) = Some (s\<lparr>ho_input := w\<rparr>) \<and>
    iw_records w = [key_rec 0x1e False True] \<and> at_recv w \<and> iw_route w = [] \<and>
    sh_elevated (iw_shared w) = None"
proof -
  have i: "ho_input s = input_spawn (shared_new PERM_ALL [some_display] 0) 0" using demo_started by (simp add: assms)
  define w where "w = foldl (\<lambda>w t. in_step t w) (route_send (ho_input s) (key_a True)) thread_turn"
  have r: "iw_records w = iw_records (ho_input s) @ [key_rec 0x1e False True]" "iw_route w = []" "iw_batch w = []"
    "iw_checked w = None" "iw_done w = iw_done (ho_input s)" "iw_newest w = None"
    "\<exists>q a. iw_shared w = (iw_shared (ho_input s))\<lparr>sh_queue_us := q, sh_apply_us := a\<rparr>"
    by (rule turn_press [OF _ _ _ _ _ _ _ w_def]; simp add: i input_spawn_def at_recv_def shared_new_def PERM_ALL_def)+
  have "host_run s (HS_Input (key_a True) # map HS_Thread thread_turn) = Some (s\<lparr>ho_input := w\<rparr>)"
    by (simp add: host_step_def thread_run w_def)
  then show ?thesis using r by (auto simp: i input_spawn_def at_recv_def shared_new_def)
qed

definition withdraw :: "mock host_step list" where
  "withdraw = [HS_Cmd (HC_SetPermissions no_keyboard) demo_env, HS_Permissions demo_env]"

lemma demo_withdrawn:
  assumes "ho_perms s = PERM_ALL" "ho_max_perms s = PERM_ALL" "ho_mid s = None" "ho_ended s = None" "iw_route (ho_input s) = []"
  shows "\<exists>s'. host_run s withdraw = Some s' \<and> ho_perms s' = no_keyboard \<and> ho_mid s' = None \<and>
    ho_input s' = (ho_input s)\<lparr>iw_shared := set_permissions (ho_shared s) no_keyboard,
      iw_route := [\<lparr>ib_seq = 0, ib_ev = ReleaseAll, ib_arrived = 0\<rparr>]\<rparr>"
  using assms
  by (simp add: withdraw_def host_step_def in_loop_def host_command_def begin_permissions_def elevate_change_def intersect_def
      no_keyboard_def PERM_ALL_def lost_input_def end_permissions_def host_defs demo_env_def)

text \<open>The key is held after the press, and released once the withdrawal has reached the thread.\<close>

lemma demo_session:
  "\<exists>s s1 s2 s3. demo_start = Inr s \<and>
    host_run s (HS_Input (key_a True) # map HS_Thread thread_turn) = Some s1 \<and>
    host_run s1 withdraw = Some s2 \<and> host_run s2 (map HS_Thread thread_turn) = Some s3 \<and>
    iw_records (ho_input s1) = [key_rec 0x1e False True] \<and>
    host_reachable PERM_ALL s3 \<and> ho_perms s3 = no_keyboard \<and> ho_mid s3 = None \<and>
    iw_route (ho_input s3) = [] \<and> iw_batch (ho_input s3) = [] \<and> iw_checked (ho_input s3) = None"
proof -
  obtain s where s: "demo_start = Inr s" "ho_perms s = PERM_ALL" "ho_max_perms s = PERM_ALL" "ho_mid s = None" "ho_ended s = None"
    using demo_started by blast
  obtain w where w: "host_run s (HS_Input (key_a True) # map HS_Thread thread_turn) = Some (s\<lparr>ho_input := w\<rparr>)"
    "iw_records w = [key_rec 0x1e False True]" "at_recv w" "iw_route w = []" "sh_elevated (iw_shared w) = None"
    using demo_pressed [OF s(1)] by blast
  obtain s2 where s2: "host_run (s\<lparr>ho_input := w\<rparr>) withdraw = Some s2" "ho_perms s2 = no_keyboard" "ho_mid s2 = None"
    "ho_input s2 = w\<lparr>iw_shared := set_permissions (iw_shared w) no_keyboard,
      iw_route := [\<lparr>ib_seq = 0, ib_ev = ReleaseAll, ib_arrived = 0\<rparr>]\<rparr>"
    using demo_withdrawn [of "s\<lparr>ho_input := w\<rparr>"] s w(4) by auto
  define w3 where "w3 = foldl (\<lambda>w t. in_step t w) (ho_input s2) thread_turn"
  have "at_recv (ho_input s2)" using w(3) by (simp add: s2(4) at_recv_def)
  then have r: "iw_route w3 = []" "iw_batch w3 = []" "iw_checked w3 = None"
    using turn_release [OF _ _ _ w3_def] w(5) by (simp_all add: s2(4) set_permissions_def)
  have run: "host_run s2 (map HS_Thread thread_turn) = Some (s2\<lparr>ho_input := w3\<rparr>)" by (simp add: thread_run w3_def)
  have "host_reachable PERM_ALL s" using s(1) unfolding demo_start_def by (rule host_reach_start)
  then have "host_reachable PERM_ALL (s2\<lparr>ho_input := w3\<rparr>)" using host_run_reachable w(1) s2(1) run by blast
  then show ?thesis using s w s2 run r by fastforce
qed

theorem revoked_input_is_released_witness:
  "\<exists>s1 s2 s3 :: mock host. host_run s1 withdraw = Some s2 \<and> host_run s2 (map HS_Thread thread_turn) = Some s3 \<and>
    fst (os_run (iw_records (ho_input s1)) ({}, {})) = {(0x1e, False)} \<and>
    fst (os_run (iw_records (ho_input s3)) ({}, {})) = {}"
proof -
  obtain s1 s2 s3 :: "mock host" where s: "host_run s1 withdraw = Some s2" "host_run s2 (map HS_Thread thread_turn) = Some s3"
    "iw_records (ho_input s1) = [key_rec 0x1e False True]" "host_reachable PERM_ALL s3" "ho_perms s3 = no_keyboard"
    "ho_mid s3 = None" "iw_route (ho_input s3) = []" "iw_batch (ho_input s3) = []" "iw_checked (ho_input s3) = None"
    using demo_session by blast
  have "\<not> p_keyboard (ho_perms s3)" by (simp add: s(5) no_keyboard_def)
  then have "fst (os_run (iw_records (ho_input s3)) ({}, {})) = {}"
    using revoked_input_is_released [OF s(4,6-9)] by blast
  moreover have "fst (os_run (iw_records (ho_input s1)) ({}, {})) = {(0x1e, False)}" by (simp add: s(3) os_run_def)
  ultimately show ?thesis using s(1,2) by blast
qed

text \<open>A key pressed after the withdrawal goes nowhere.\<close>

theorem revoked_input_stops_witness:
  "\<exists>s3 s4 :: mock host. ho_perms s3 = no_keyboard \<and>
    host_run s3 (HS_Input (key_a True) # map HS_Thread thread_turn) = Some s4 \<and>
    (\<exists>rs. iw_records (ho_input s4) = iw_records (ho_input s3) @ rs \<and> (\<forall>r \<in> set rs. \<not> types r))"
proof -
  obtain s3 :: "mock host" where s: "host_reachable PERM_ALL s3" "ho_perms s3 = no_keyboard"
    "ho_mid s3 = None" "iw_checked (ho_input s3) = None"
    using demo_session by blast
  let ?xs = "HS_Input (key_a True) # map HS_Thread thread_turn :: mock host_step list"
  obtain s4 where r: "host_run s3 ?xs = Some s4" by (simp add: host_step_def thread_run)
  have "\<not> p_keyboard (ho_perms s3)" "\<not> in_flight is_keyboard (ho_input s3)" "never_given p_keyboard ?xs"
    using s by (auto simp: no_keyboard_def in_flight_def never_given_def thread_turn_def)
  then show ?thesis using revoked_input_stops [OF s(1,3) r] s(2) r by blast
qed

end
