(* ===== verification/Engine_Demo.thy ===== *)
theory Engine_Demo
  imports Engine_Props Host_Demo
begin

text \<open>
  A viewer connects with the temporary password, the owner approves and the session starts: the
  properties of the engine at a concrete history.
\<close>

lemma hist_run: "engine_hist xs e \<Longrightarrow> engine_hist (xs @ ys) (foldl engine_step e ys)"
proof (induction ys arbitrary: xs e)
  case (Cons y ys)
  then show ?case using hist_step [of xs e y] by fastforce
qed simp

definition toy_env :: "8 word list hs_env" where
  "toy_env = \<lparr>hv_crypto = toy_crypto, hv_ser = toy_ser, hv_de = toy_de, hv_up = \<lambda>_. True, hv_seed = 0\<rparr>"

definition visit :: "(mock, 8 word list) engine_step list" where
  "visit = [ES_Server (SE_Identity (vp_host_id toy_vp)) 0 False,
     ES_Server (SE_Msg (S_Incoming (vp_session toy_vp) [49] [86] False)) 0 False,
     ES_Check 0, ES_Link 0 True, ES_Hello 0 toy_env (map Some [[0], [2, 112]]), ES_Result 0 [], ES_Consent 0,
     ES_Respond 1 (Some PERM_ALL), ES_Decision 0]"

definition fresh :: "mock engine" where
  "fresh = engine_new (engine_config_new [] [] [] []) [97] 0"

definition granted_all :: "mock engine \<Rightarrow> bool" where
  "granted_all e \<longleftrightarrow> length (en_tasks e) = 1 \<and>
     (case ic_phase (en_tasks e ! 0) of Ph_Granted k a g \<Rightarrow> g = PERM_ALL \<and> au_viewer_id a = [49] | _ \<Rightarrow> False)"

lemma visited: "granted_all (foldl engine_step fresh visit)"
  by code_simp

definition demo_platform :: "mock platform" where
  "demo_platform = \<lparr>pf_peer = [], pf_screen = Some [some_display], pf_clip = None,
     pf_fs = \<lparr>f_dirs = [[]], f_names = [], f_data = []\<rparr>, pf_env = demo_env\<rparr>"

lemma start_runs:
  fixes x :: "(mock, 8 word list) engine_step"
  assumes "granted_all e" "x = ES_Start 0 demo_platform"
  shows "\<exists>a s. length (en_tasks (engine_step e x)) = 1 \<and> ic_phase (en_tasks (engine_step e x) ! 0) = Ph_Run a PERM_ALL s"
proof -
  obtain k a where p: "ic_phase (en_tasks e ! 0) = Ph_Granted k a PERM_ALL" "au_viewer_id a = [49]"
    using assms by (auto simp: granted_all_def split: phase.splits)
  have "\<exists>s. host_start no cfg hn a l PERM_ALL (Some [some_display]) None fs demo_env = Inr s" for no cfg hn l fs
    by (simp add: host_start_def host_elevate_def PERM_ALL_def Let_def)
  then obtain s where s: "host_start (en_next_session e) (ic_cfg (en_tasks e ! 0)) (ec_device_name (ic_cfg (en_tasks e ! 0))) a
      (link_info_of k []) PERM_ALL (Some [some_display]) None \<lparr>f_dirs = [[]], f_names = [], f_data = []\<rparr> demo_env = Inr s"
    by blast
  have "\<not> no_session PERM_ALL" by (simp add: no_session_def PERM_ALL_def)
  then have "hi_start e 0 k a PERM_ALL demo_platform = to_phase (on_host (\<lambda>h. h\<lparr>hg_active := Some (en_next_session e)\<rparr>)
      (e\<lparr>en_next_session := en_next_session e + 1, en_cmds := []\<rparr>)) 0 (Ph_Run a PERM_ALL s)"
    using s by (simp add: hi_start_def Let_def demo_platform_def)
  then show ?thesis using assms p by (auto simp: engine_step_def step_task_def task_step_def granted_all_def to_phase_def)
qed

theorem session_needs_password_and_consent_witness:
  "\<exists>(e :: mock engine) a s. foldl engine_step fresh (visit @ [ES_Start 0 demo_platform]) = e \<and>
    ic_phase (en_tasks e ! 0) = Ph_Run a PERM_ALL s \<and> admitted (visit @ [ES_Start 0 demo_platform]) a \<and>
    perm_le (ho_perms s) PERM_ALL"
proof -
  let ?xs = "visit @ [ES_Start 0 demo_platform]"
  let ?x = "ES_Start 0 demo_platform :: (mock, 8 word list) engine_step"
  have f: "foldl engine_step fresh ?xs = engine_step (foldl engine_step fresh visit) ?x" by simp
  obtain a s where q: "length (en_tasks (foldl engine_step fresh ?xs)) = 1"
      "ic_phase (en_tasks (foldl engine_step fresh ?xs) ! 0) = Ph_Run a PERM_ALL s"
    using start_runs [OF visited, of ?x] unfolding f by blast
  have r: "0 < length (en_tasks (foldl engine_step fresh ?xs))" by (simp only: q(1))
  have "engine_hist [] fresh" unfolding fresh_def by (rule hist_new)
  from hist_run [OF this, of ?xs] have h: "engine_hist ?xs (foldl engine_step fresh ?xs)" by simp
  show ?thesis using session_needs_password_and_consent [OF h r q(2)] q(2) by blast
qed

end
