(* ===== verification/Lockout_Demo.thy ===== *)
theory Lockout_Demo
  imports Engine_Lockout Engine_Demo
begin

text \<open>A viewer guesses wrong five times in a row: the lockout at a concrete history.\<close>

definition guess :: "nat \<Rightarrow> (mock, 8 word list) engine_step list" where
  "guess i = [ES_Server (SE_Msg (S_Incoming (vp_session toy_vp) [49] [86] False)) 0 False,
     ES_Check i, ES_Link i True, ES_Hello i toy_env (map Some [[0], [2, 112]])]"

definition miss :: "nat \<Rightarrow> (mock, 8 word list) engine_step list" where
  "miss i = guess i @ [ES_Result i [98], ES_Close i []]"

definition guarded :: "mock engine" where
  "guarded = engine_new (engine_config_new [] [] [] []) [98] 0"

definition about_to_trip :: "mock engine \<Rightarrow> bool" where
  "about_to_trip e \<longleftrightarrow> length (en_tasks e) = 5 \<and> en_now e = 0 \<and> fst (record_failure (hg_failures (en_host e)) [49] (en_now e)) \<and>
     (case ic_phase (en_tasks e ! 4) of Ph_Shook Link_Relay (Inl (H_BadPassword v)) \<Rightarrow> v = [49] | _ \<Rightarrow> False)"

lemma four_misses:
  "about_to_trip (foldl engine_step guarded
     (ES_Server (SE_Identity (vp_host_id toy_vp)) 0 False # concat (map miss [0, 1, 2, 3]) @ guess 4))"
  by code_simp

definition misses :: "(mock, 8 word list) engine_step list" where
  "misses = ES_Server (SE_Identity (vp_host_id toy_vp)) 0 False # concat (map miss [0, 1, 2, 3]) @ guess 4"

lemma now_task: "step_task x = Some i \<Longrightarrow> en_now (engine_step e x) = en_now e"
  by (simp add: engine_step_def now_task_step)

theorem host_lockout_holds_witness:
  "\<exists>(e :: mock engine) e'. e = foldl engine_step guarded misses \<and>
     e' = foldl engine_step e [ES_Result 4 [], ES_Close 4 [], ES_Tick (secs 1700) :: (mock, 8 word list) engine_step] \<and>
     en_now e' = secs 1700 \<and> fst (pw_lookup (en_host e') (en_now e') [49] Temporary) = LockedOut"
proof -
  let ?e = "foldl engine_step guarded misses"
  let ?ys = "[ES_Close 4 [], ES_Tick (secs 1700)] :: (mock, 8 word list) engine_step list"
  let ?e' = "foldl engine_step ?e (ES_Result 4 [] # ?ys)"
  have a: "about_to_trip ?e" using four_misses by (simp add: misses_def)
  then have p: "4 < length (en_tasks ?e)" "ic_phase (en_tasks ?e ! 4) = Ph_Shook Link_Relay (Inl (H_BadPassword [49]))"
    "fst (record_failure (hg_failures (en_host ?e)) [49] (en_now ?e))" "en_now ?e = 0"
    by (auto simp: about_to_trip_def split: phase.splits sum.splits host_failure.splits link_kind.splits)
  have n: "en_now ?e' = secs 1700"
  proof -
    have "en_now (engine_step e (ES_Tick d :: (mock, 8 word list) engine_step)) = en_now e + d" for e :: "mock engine" and d
      by (simp add: engine_step_def step_task_def other_step_def)
    moreover have "en_now (engine_step e (ES_Result 4 [] :: (mock, 8 word list) engine_step)) = en_now e"
      "en_now (engine_step e (ES_Close 4 [] :: (mock, 8 word list) engine_step)) = en_now e" for e :: "mock engine"
      by (rule now_task; simp add: step_task_def)+
    ultimately show ?thesis using p(4) by simp
  qed
  then have lt: "en_now ?e' < en_now ?e + secs 1800" using p(4) by (simp add: secs_def)
  have "engine_hist [] guarded" unfolding guarded_def by (rule hist_new)
  from hist_run [OF this, of misses] have h: "engine_hist misses ?e" by simp
  show ?thesis using host_lockout_holds [OF h p(1-3) refl lt, of Temporary] n by blast
qed

end
