(* ===== verification/Views.thy ===== *)
theory Views
  imports Host_Session
begin

text \<open>
  What the engine tells the user interface of a viewer (\<open>crates/session/src/types.rs\<close>): the states and
  failures of a connection, the telemetry with its rating, and the cursor with its pixels in base64.
  The lemmas show that base64 loses nothing, against the decoder of RFC 4648.
\<close>

section \<open>Telemetry\<close>

datatype fail_reason = FR_Offline | FR_NotAccepting | FR_RateLimited | FR_Banned | FR_Busy | FR_InvalidId
  | FR_ServerUnavailable | FR_WrongPassword | FR_LockedOut | FR_Declined | FR_Timeout | FR_UnattendedDisabled
  | FR_Unsupported | FR_ConnectionLost | FR_Protocol

datatype viewer_state = VS_Connecting | VS_Authenticating | VS_WaitingForApproval | VS_Connected
  | VS_Reconnecting u32 u32 | VS_Failed fail_reason | VS_Closed

record viewer_ready =
  vr_host_name :: rstr
  vr_displays :: "display_info list"
  vr_permissions :: permissions
  vr_active :: u32
  vr_link :: link_info

datatype net_quality = NQ_Excellent | NQ_Good | NQ_Fair | NQ_Poor

definition nq_rate :: "f32 \<Rightarrow> f32 \<Rightarrow> f32 \<Rightarrow> net_quality" where
  "nq_rate rtt jitter dropped =
     (if rtt < 35 \<and> jitter < 12 \<and> dropped < 1 then NQ_Excellent
      else if rtt < 90 \<and> jitter < 30 \<and> dropped < 4 then NQ_Good
      else if rtt < 220 \<and> jitter < 80 \<and> dropped < 12 then NQ_Fair
      else NQ_Poor)"

fun nq_level :: "net_quality \<Rightarrow> nat" where
  "nq_level NQ_Excellent = 0" | "nq_level NQ_Good = 1" | "nq_level NQ_Fair = 2" | "nq_level NQ_Poor = 3"

lemma nq_rate_mono:
  "rtt \<le> rtt' \<Longrightarrow> jitter \<le> jitter' \<Longrightarrow> dropped \<le> dropped' \<Longrightarrow>
    nq_level (nq_rate rtt jitter dropped) \<le> nq_level (nq_rate rtt' jitter' dropped')"
  by (auto simp: nq_rate_def)

record latency_view =
  lv_input_rtt :: f32
  lv_input_queue :: f32
  lv_host_queue :: f32
  lv_host_apply :: f32
  lv_motion_to_frame :: f32
  lv_stale_moves :: u64
  lv_stale_video :: u64
  lv_file_rate_kbps :: u32

record viewer_stats =
  st_rtt :: f32
  st_jitter :: f32
  st_recv_kbps :: u32
  st_frames_per_sec :: f32
  st_dropped_percent :: f32
  st_quality :: net_quality
  st_host :: host_stats
  st_latency :: latency_view

text \<open>\<open>HostStatsView::default()\<close>; the view has the fields of \<open>HostStats\<close>.\<close>

definition host_stats_default :: host_stats where
  "host_stats_default = \<lparr>hs_fps = 0, hs_bitrate_kbps = 0, hs_capture_ms = 0, hs_encode_ms = 0, hs_dropped = 0,
     hs_encoder = [], hs_codec = None, hs_width = 0, hs_height = 0, hs_input_queue_us = 0, hs_input_apply_us = 0,
     hs_stale_moves_dropped = 0\<rparr>"

section \<open>Base64\<close>

definition B64 :: rstr where
  "B64 = lit ''ABCDEFGHIJKLMNOPQRSTUVWXYZabcdefghijklmnopqrstuvwxyz0123456789+/''"

definition b64_char :: "u32 \<Rightarrow> uchar" where
  "b64_char n = B64 ! unat (and n 63)"

text \<open>\<open>data.chunks(3)\<close>: the last piece may be shorter.\<close>

fun chunks3 :: "'a list \<Rightarrow> 'a list list" where
  "chunks3 (a # b # c # r) = [a, b, c] # chunks3 r"
| "chunks3 [] = []"
| "chunks3 xs = [xs]"

definition b64_pack :: "u8 \<Rightarrow> u8 \<Rightarrow> u8 \<Rightarrow> u32" where
  "b64_pack a b c = or (or (push_bit 16 (ucast a)) (push_bit 8 (ucast b))) (ucast c)"

definition b64_chunk :: "u8 list \<Rightarrow> rstr" where
  "b64_chunk c =
     (let at_or_0 = (\<lambda>i. if i < length c then c ! i else 0);
          n = b64_pack (c ! 0) (at_or_0 1) (at_or_0 2)
      in [b64_char (drop_bit 18 n), b64_char (drop_bit 12 n),
          if length c > 1 then b64_char (drop_bit 6 n) else 61,
          if length c > 2 then b64_char n else 61])"

definition base64 :: "u8 list \<Rightarrow> rstr" where
  "base64 data = concat (map b64_chunk (chunks3 data))"

record cursor_shape_view =
  cv_id :: u32
  cv_width :: u16
  cv_height :: u16
  cv_hot_x :: u16
  cv_hot_y :: u16
  cv_rgba :: rstr

record cursor_view =
  cw_x :: i32
  cw_y :: i32
  cw_visible :: bool
  cw_shape :: "cursor_shape_view option"

definition shape_view :: "cursor_shape \<Rightarrow> cursor_shape_view" where
  "shape_view s = \<lparr>cv_id = cs_id s, cv_width = cs_width s, cv_height = cs_height s, cv_hot_x = cs_hot_x s,
     cv_hot_y = cs_hot_y s, cv_rgba = base64 (cs_rgba s)\<rparr>"

definition cursor_to_view :: "cursor_update \<Rightarrow> cursor_view" where
  "cursor_to_view u = \<lparr>cw_x = cu_x u, cw_y = cu_y u, cw_visible = cu_visible u,
     cw_shape = map_option shape_view (cu_shape u)\<rparr>"

section \<open>The decoder of RFC 4648\<close>

definition b64_value :: "uchar \<Rightarrow> nat option" where
  "b64_value c =
     (if 65 \<le> c \<and> c \<le> 90 then Some (c - 65) else if 97 \<le> c \<and> c \<le> 122 then Some (c - 71)
      else if 48 \<le> c \<and> c \<le> 57 then Some (c + 4) else if c = 43 then Some 62 else if c = 47 then Some 63 else None)"

text \<open>Four characters carry 24 bits, fewer bytes with \<open>=\<close> at the end.\<close>

fun b64_decode :: "rstr \<Rightarrow> nat list option" where
  "b64_decode [] = Some []"
| "b64_decode (p # q # r # s # rest) =
     (case (b64_value p, b64_value q) of
        (Some x, Some y) \<Rightarrow>
          (if r = 61 \<and> s = 61 then if rest = [] then Some [4 * x + y div 16] else None
           else case b64_value r of
                  None \<Rightarrow> None
                | Some z \<Rightarrow>
                    (if s = 61 then if rest = [] then Some [4 * x + y div 16, 16 * (y mod 16) + z div 4] else None
                     else case b64_value s of
                            None \<Rightarrow> None
                          | Some w \<Rightarrow>
                              map_option ((@) [4 * x + y div 16, 16 * (y mod 16) + z div 4, 64 * (z mod 4) + w])
                                (b64_decode rest)))
      | _ \<Rightarrow> None)"
| "b64_decode _ = None"

lemma b64_alphabet: "i < 64 \<Longrightarrow> b64_value (B64 ! i) = Some i \<and> B64 ! i \<noteq> 61"
proof -
  have "\<forall>i \<in> set [0..<64]. b64_value (B64 ! i) = Some i \<and> B64 ! i \<noteq> 61" by code_simp
  then show "i < 64 \<Longrightarrow> b64_value (B64 ! i) = Some i \<and> B64 ! i \<noteq> 61" by simp
qed

lemma mask63: "unat (and n 63 :: u32) = unat n mod 64"
proof -
  have "and n 63 = take_bit 6 n" by (simp add: take_bit_eq_mask mask_eq_exp_minus_1)
  then show ?thesis by (simp add: unsigned_take_bit_eq take_bit_nat_def flip: unat_mod)
qed

lemma or_shift:
  fixes x y :: nat
  assumes "y < 2 ^ k"
  shows "or (push_bit k x) y = 2 ^ k * x + y"
proof -
  have y: "y = take_bit k y" using assms by (simp add: take_bit_nat_eq_self)
  have "and (push_bit k x) (take_bit k y) = 0" by (rule bit_eqI) (auto simp: bit_simps)
  then show ?thesis using y disjunctive_add_eq_or [of "push_bit k x" y] by (simp add: push_bit_eq_mult mult.commute)
qed

lemma unat_byte: "unat (ucast (a :: u8) :: u32) = unat a"
  by (simp add: unsigned_ucast_eq take_bit_nat_eq_self unat_bound [THEN less_trans])

lemma pack_bytes: "unat (b64_pack a b c) = 65536 * unat a + 256 * unat b + unat c"
proof -
  have bd: "unat a < 256" "unat b < 256" "unat c < 256" using unat_bound [of a] unat_bound [of b] unat_bound [of c] by simp_all
  have "unat (push_bit 16 (ucast a) :: u32) = take_bit 32 (push_bit 16 (unat a))"
    "unat (push_bit 8 (ucast b) :: u32) = take_bit 32 (push_bit 8 (unat b))"
    by (simp_all only: unsigned_push_bit_eq unat_byte) simp_all
  then have s: "unat (push_bit 16 (ucast a) :: u32) = push_bit 16 (unat a)" "unat (push_bit 8 (ucast b) :: u32) = push_bit 8 (unat b)"
    using bd by (simp_all add: take_bit_nat_eq_self push_bit_eq_mult)
  have "unat (b64_pack a b c) = or (or (push_bit 16 (unat a)) (push_bit 8 (unat b))) (unat c)"
    by (simp only: b64_pack_def unsigned_or_eq s unat_byte)
  also have "or (push_bit 16 (unat a)) (push_bit 8 (unat b)) = push_bit 8 (256 * unat a + unat b)"
    using or_shift [of "push_bit 8 (unat b)" 16 "unat a"] bd by (simp add: push_bit_eq_mult)
  also have "or (push_bit 8 (256 * unat a + unat b)) (unat c) = 65536 * unat a + 256 * unat b + unat c"
    using or_shift [of "unat c" 8 "256 * unat a + unat b"] bd by simp
  finally show ?thesis .
qed

lemma unat_drop: "unat (drop_bit k n :: u32) = unat n div 2 ^ k"
proof -
  have "unat (drop_bit k n) = drop_bit k (take_bit 32 (unat n))" using unsigned_drop_bit_eq [of k n] by simp
  then show ?thesis using unat_bound [of n] by (simp add: drop_bit_eq_div take_bit_nat_eq_self)
qed

lemma b64_char_value: "b64_value (b64_char n) = Some (unat n mod 64)" "b64_char n \<noteq> 61"
  using b64_alphabet [of "unat n mod 64"] by (simp_all add: b64_char_def mask63)

text \<open>The four sextets of three bytes give the bytes back.\<close>

lemma sextets:
  fixes a b c :: nat
  assumes "a < 256" "b < 256" "c < 256" and n: "n = 65536 * a + 256 * b + c"
  shows "4 * (n div 262144 mod 64) + n div 4096 mod 64 div 16 = a"
    "16 * (n div 4096 mod 64 mod 16) + n div 64 mod 64 div 4 = b"
    "64 * (n div 64 mod 64 mod 4) + n mod 64 = c"
proof -
  obtain x p where a: "a = 4 * x + p" "p < 4" "x < 64" using assms(1) that [of "a div 4" "a mod 4"] by simp
  obtain y q where b: "b = 16 * y + q" "q < 16" "y < 16" using assms(2) that [of "b div 16" "b mod 16"] by simp
  obtain z w where c: "c = 64 * z + w" "w < 64" "z < 4" using assms(3) that [of "c div 64" "c mod 64"] by simp
  have u: "(64 * k + r) mod 64 = r" if "r < 64" for k r :: nat using that by simp
  have dv: "(m * k + r) div m = k" if "r < m" for m k r :: nat using that by simp
  have n1: "n = 262144 * x + (65536 * p + 256 * b + c)" "n = 4096 * (64 * x + (16 * p + y)) + (256 * q + c)"
    "n = 64 * (64 * (16 * a + y) + (4 * q + z)) + w"
    by (simp_all add: n a(1) b(1) c(1))
  have r: "65536 * p + 256 * b + c < 262144" "256 * q + c < 4096" "16 * p + y < 64" "4 * q + z < 64"
    using a(2) b(2,3) c(3) assms(2,3) by linarith+
  have d: "n div 262144 = x" "n div 4096 = 64 * x + (16 * p + y)" "n div 64 = 64 * (16 * a + y) + (4 * q + z)" "n mod 64 = w"
    by (subst n1(1), rule dv [OF r(1)], subst n1(2), rule dv [OF r(2)], subst n1(3), rule dv [OF c(2)],
      subst n1(3), rule u [OF c(2)])
  show "4 * (n div 262144 mod 64) + n div 4096 mod 64 div 16 = a"
    unfolding d u [OF r(3)] using a b(3) by simp
  show "16 * (n div 4096 mod 64 mod 16) + n div 64 mod 64 div 4 = b"
    unfolding d u [OF r(3)] u [OF r(4)] using b c(3) by simp
  show "64 * (n div 64 mod 64 mod 4) + n mod 64 = c"
    unfolding d u [OF r(4)] using c by simp
qed

lemma b64_decode_chunk:
  fixes a b c :: u8
  shows "b64_decode (b64_chunk [a, b, c] @ rest) = map_option ((@) [unat a, unat b, unat c]) (b64_decode rest)"
    "b64_decode (b64_chunk [a, b]) = Some [unat a, unat b]" "b64_decode (b64_chunk [a]) = Some [unat a]"
proof -
  have bd: "unat x < 256" for x :: u8 using unat_bound [of x] by simp
  show "b64_decode (b64_chunk [a, b, c] @ rest) = map_option ((@) [unat a, unat b, unat c]) (b64_decode rest)"
    using sextets [OF bd [of a] bd [of b] bd [of c] pack_bytes]
    by (simp add: b64_chunk_def Let_def b64_char_value unat_drop)
  show "b64_decode (b64_chunk [a, b]) = Some [unat a, unat b]"
    using sextets [OF bd [of a] bd [of b] _ pack_bytes [of a b 0]]
    by (simp add: b64_chunk_def Let_def b64_char_value unat_drop)
  show "b64_decode (b64_chunk [a]) = Some [unat a]"
    using sextets [OF bd [of a] _ _ pack_bytes [of a 0 0]]
    by (simp add: b64_chunk_def Let_def b64_char_value unat_drop)
qed

text \<open>
  The cursor pixels reach the user interface unchanged: base64 writes four characters of the
  alphabet for every three bytes begun, and the decoder of RFC 4648 reads exactly the bytes back.
\<close>

theorem base64_roundtrip: "b64_decode (base64 data) = Some (map unat data) \<and> length (base64 data) = 4 * ((length data + 2) div 3)"
proof -
  have "b64_decode (base64 data) = Some (map unat data)"
    by (induction data rule: chunks3.induct) (simp_all add: base64_def b64_decode_chunk)
  moreover have "length (base64 data) = 4 * ((length data + 2) div 3)"
  proof (induction data rule: chunks3.induct)
    case (1 a b c r)
    have "(length (a # b # c # r) + 2) div 3 = Suc ((length r + 2) div 3)" by simp
    then show ?case using 1 by (simp add: base64_def b64_chunk_def Let_def)
  qed (simp_all add: base64_def b64_chunk_def Let_def)
  ultimately show ?thesis by simp
qed

end
