(* ===== verification/Viewer_Session.thy ===== *)
theory Viewer_Session
  imports Views
begin

text \<open>
  The viewer side of an authenticated session, \<open>crates/session/src/viewer.rs\<close>: the branches of its
  loop as steps. What is sent, handed to the bulk queue or to the input queue and reported to the user
  interface is appended to \<open>vw_sent\<close>, \<open>vw_bulk\<close>, \<open>vw_input\<close> and \<open>vw_events\<close>; the counters of the secure
  pipe and the clocks come with the step. A file message whose handling never ends gives \<open>None\<close>.
\<close>

section \<open>State\<close>

datatype viewer_cmd =
    VK_Input input_event
  | VK_SelectDisplay u32
  | VK_SetQuality quality
  | VK_RequestKeyframe
  | VK_SetClipboardSync bool
  | VK_Chat rstr
  | VK_SendFiles
  | VK_Download rstr
  | VK_ListDir rstr
  | VK_FilePause u64
  | VK_FileResume u64
  | VK_FileCancel u64
  | VK_FileRetry u64
  | VK_Disconnect

datatype viewer_event =
    VE_Video video_frame
  | VE_Cursor cursor_view
  | VE_ShowDisplays "display_info list" u32
  | VE_Permissions permissions
  | VE_Clipboard "rstr option" bool
  | VE_Chat u64 rstr u64 bool
  | VE_Security rstr
  | VE_ViewerStats viewer_stats

record 'b viewer =
  vw_perms :: permissions
  vw_displays :: "display_info list"
  vw_files :: manager
  vw_clip :: "'b clip_sync option"
  vw_clip_on :: bool
  vw_last_bulk :: u64
  vw_governor :: governor
  vw_bulk_rate :: u64
  vw_last_rx :: instant
  vw_rtt :: f32
  vw_jitter :: f32
  vw_prev_rtt :: "f32 option"
  vw_host_stats :: host_stats
  vw_frames :: u32
  vw_last_bytes :: u64
  vw_last_tick :: instant
  vw_dropped_prev :: u64
  vw_delivered :: u32
  vw_sent :: "msg list"
  vw_bulk :: "msg list"
  vw_input :: "input_event list"
  vw_events :: "viewer_event list"
  vw_ended :: "end_reason option"

record 'b viewer_env =
  ve_now :: instant
  ve_now_ms :: u64
  ve_sha :: "u8 list \<Rightarrow> u8 list"
  ve_clip_ops :: "'b backend_ops"
  ve_file :: file_env
  ve_bulk_bytes :: u64
  ve_bytes_received :: u64
  ve_input_rtt_us :: u64
  ve_input_queue_us :: u64
  ve_motion_to_frame_us :: u64
  ve_moves_coalesced :: u64

definition viewer_policy :: "engine_config \<Rightarrow> file_policy" where
  "viewer_policy cfg = \<lparr>fp_side = Side_Viewer, fp_dir = ec_download_dir cfg, fp_ask = False,
     fp_max_size = ec_max_file_size cfg, fp_max_active = ec_max_transfers cfg\<rparr>"

definition viewer_start ::
  "engine_config \<Rightarrow> permissions \<Rightarrow> display_info list \<Rightarrow> 'b option \<Rightarrow> fsys \<Rightarrow> 'b viewer_env \<Rightarrow> 'b viewer" where
  "viewer_start cfg perms ds clip fs env =
     \<lparr>vw_perms = perms, vw_displays = ds, vw_files = manager_new (viewer_policy cfg) (p_files perms) fs,
      vw_clip = map_option (\<lambda>b. clip_new (ve_clip_ops env) b CLIP_MAX) clip, vw_clip_on = True, vw_last_bulk = 0,
      vw_governor = gv_default, vw_bulk_rate = 0, vw_last_rx = ve_now env, vw_rtt = 0, vw_jitter = 0,
      vw_prev_rtt = None, vw_host_stats = host_stats_default, vw_frames = 0, vw_last_bytes = 0,
      vw_last_tick = ve_now env, vw_dropped_prev = 0, vw_delivered = 0, vw_sent = [], vw_bulk = [], vw_input = [],
      vw_events = [], vw_ended = None\<rparr>"

definition vw_send :: "'b viewer \<Rightarrow> msg \<Rightarrow> 'b viewer" where
  "vw_send s m = s\<lparr>vw_sent := vw_sent s @ [m]\<rparr>"

definition vw_emit :: "'b viewer \<Rightarrow> viewer_event \<Rightarrow> 'b viewer" where
  "vw_emit s e = s\<lparr>vw_events := vw_events s @ [e]\<rparr>"

section \<open>Messages of the host\<close>

definition clip_notice :: "clipboard_payload \<Rightarrow> viewer_event" where
  "clip_notice p = (case p of Clip_Text t \<Rightarrow> VE_Clipboard (Some (take 200 t)) False | Clip_Image _ \<Rightarrow> VE_Clipboard None True)"

definition viewer_clipboard :: "'b viewer \<Rightarrow> clipboard_payload \<Rightarrow> 'b viewer_env \<Rightarrow> 'b viewer" where
  "viewer_clipboard s p env =
     (case vw_clip s of
        None \<Rightarrow> s
      | Some c \<Rightarrow>
          (case apply_remote (ve_sha env) (ve_clip_ops env) c p of
             (Inl _, c1) \<Rightarrow> s\<lparr>vw_clip := Some c1\<rparr>
           | (Inr _, c1) \<Rightarrow> vw_emit (s\<lparr>vw_clip := Some c1\<rparr>) (clip_notice p)))"

definition viewer_pong :: "'b viewer \<Rightarrow> u64 \<Rightarrow> 'b viewer_env \<Rightarrow> 'b viewer" where
  "viewer_pong s t env =
     (let smp = r32 (of_nat (unat (sat_sub (ve_now_ms env) t)));
          j = (case vw_prev_rtt s of
                 Some p \<Rightarrow> r32 (vw_jitter s + r32 (r32 (\<bar>r32 (smp - p)\<bar> - vw_jitter s) / 16))
               | None \<Rightarrow> vw_jitter s);
          rtt = (if vw_rtt s = 0 then smp else r32 (r32 (vw_rtt s * r32 (7 / 10)) + r32 (smp * r32 (3 / 10))));
          (rate, g) = gv_update (vw_governor s) smp
      in s\<lparr>vw_jitter := j, vw_prev_rtt := Some smp, vw_rtt := rtt, vw_governor := g, vw_bulk_rate := rate\<rparr>)"

definition viewer_msg :: "'b viewer \<Rightarrow> msg \<Rightarrow> 'b viewer_env \<Rightarrow> 'b viewer option" where
  "viewer_msg s0 m env =
     (let s = s0\<lparr>vw_last_rx := ve_now env\<rparr>
      in case m of
           M_Video f \<Rightarrow> Some (vw_emit (s\<lparr>vw_frames := vw_frames s + 1, vw_delivered := vw_delivered s + 1\<rparr>) (VE_Video f))
         | M_Cursor u \<Rightarrow> Some (vw_emit s (VE_Cursor (cursor_to_view u)))
         | M_DisplaysChanged ds act \<Rightarrow> Some (vw_emit (s\<lparr>vw_displays := ds\<rparr>) (VE_ShowDisplays ds act))
         | M_PermissionsChanged p \<Rightarrow>
             Some (vw_emit (s\<lparr>vw_perms := p, vw_files := fm_set_allowed (vw_files s) (p_files p)\<rparr>) (VE_Permissions p))
         | M_Stats st \<Rightarrow> Some (s\<lparr>vw_host_stats := st\<rparr>)
         | M_Clipboard p \<Rightarrow> Some (if p_clipboard (vw_perms s) \<and> vw_clip_on s then viewer_clipboard s p env else s)
         | M_File f \<Rightarrow>
             map_option (\<lambda>fm. s\<lparr>vw_files := fm\<rparr>) (on_file_msg (ve_sha env) (vw_files s) f (ve_file env) (ve_now env))
         | M_Chat cid text ts \<Rightarrow> Some (vw_emit s (VE_Chat cid text ts False))
         | M_Ping t \<Rightarrow> Some (vw_send s (M_Pong t))
         | M_Pong t \<Rightarrow> Some (viewer_pong s t env)
         | M_Bye \<Rightarrow> Some (s\<lparr>vw_ended := Some PeerClosed\<rparr>)
         | _ \<Rightarrow> Some s)"

section \<open>Commands of the user\<close>

definition report :: "'b viewer \<Rightarrow> rstr + 'r \<Rightarrow> 'b viewer" where
  "report s r = (case r of Inl e \<Rightarrow> vw_emit s (VE_Security e) | Inr _ \<Rightarrow> s)"

definition viewer_command :: "'b viewer \<Rightarrow> viewer_cmd \<Rightarrow> 'b viewer_env \<Rightarrow> 'b viewer" where
  "viewer_command s c env =
     (case c of
        VK_Input ev \<Rightarrow> s\<lparr>vw_input := vw_input s @ [ev]\<rparr>
      | VK_SelectDisplay i \<Rightarrow> vw_send s (M_SelectDisplay i)
      | VK_SetQuality q \<Rightarrow> vw_send s (M_SetQuality q)
      | VK_RequestKeyframe \<Rightarrow> vw_send s M_RequestKeyframe
      | VK_SetClipboardSync on \<Rightarrow> s\<lparr>vw_clip_on := on\<rparr>
      | VK_Chat text \<Rightarrow>
          vw_emit (vw_send s (M_Chat (ve_now_ms env) text (ve_now_ms env))) (VE_Chat (ve_now_ms env) text (ve_now_ms env) True)
      | VK_SendFiles \<Rightarrow>
          (case send_paths (vw_files s) (ve_file env) (ve_now env) of (r, fm) \<Rightarrow> report (s\<lparr>vw_files := fm\<rparr>) r)
      | VK_Download p \<Rightarrow>
          (case download (vw_files s) p (ve_now env) of (r, fm) \<Rightarrow> report (s\<lparr>vw_files := fm\<rparr>) r)
      | VK_ListDir p \<Rightarrow> s\<lparr>vw_files := list_dir (vw_files s) p\<rparr>
      | VK_FilePause i \<Rightarrow> s\<lparr>vw_files := t_pause (vw_files s) i\<rparr>
      | VK_FileResume i \<Rightarrow> s\<lparr>vw_files := t_resume (vw_files s) i\<rparr>
      | VK_FileCancel i \<Rightarrow> s\<lparr>vw_files := t_cancel (vw_files s) i\<rparr>
      | VK_FileRetry i \<Rightarrow> s\<lparr>vw_files := snd (retry (vw_files s) i (ve_now env))\<rparr>
      | VK_Disconnect \<Rightarrow> (vw_send s M_Bye)\<lparr>vw_ended := Some LocalClosed\<rparr>)"

section \<open>Timers\<close>

definition viewer_clip_tick :: "'b viewer \<Rightarrow> 'b viewer_env \<Rightarrow> 'b viewer" where
  "viewer_clip_tick s env =
     (if \<not> (p_clipboard (vw_perms s) \<and> vw_clip_on s) then s
      else case vw_clip s of
             None \<Rightarrow> s
           | Some c \<Rightarrow>
               (case poll_local (ve_sha env) (ve_clip_ops env) c of
                  (None, c1) \<Rightarrow> s\<lparr>vw_clip := Some c1\<rparr>
                | (Some (Clip_Image i), c1) \<Rightarrow>
                    s\<lparr>vw_clip := Some c1, vw_bulk := vw_bulk s @ [M_Clipboard (Clip_Image i)]\<rparr>
                | (Some (Clip_Text t), c1) \<Rightarrow> vw_send (s\<lparr>vw_clip := Some c1\<rparr>) (M_Clipboard (Clip_Text t))))"

definition viewer_probe :: "'b viewer \<Rightarrow> 'b viewer_env \<Rightarrow> 'b viewer" where
  "viewer_probe s env =
     (if ve_bulk_bytes env \<noteq> vw_last_bulk s
      then vw_send (s\<lparr>vw_last_bulk := ve_bulk_bytes env\<rparr>) (M_Ping (ve_now_ms env)) else s)"

text \<open>A float cast to \<open>u32\<close> saturates.\<close>

definition f32_to_u32 :: "f32 \<Rightarrow> u32" where
  "f32_to_u32 x = of_int (max 0 (min (2 ^ 32 - 1) \<lfloor>x\<rfloor>))"

text \<open>\<open>Duration::as_secs_f32\<close>.\<close>

definition secs_f32 :: "duration \<Rightarrow> f32" where
  "secs_f32 d = r32 (r32 (of_nat (d div 1000000000)) + r32 (r32 (of_nat (d mod 1000000000)) / 1000000000))"

definition us_to_ms :: "nat \<Rightarrow> f32" where
  "us_to_ms n = r32 (r32 (of_nat n) / 1000)"

text \<open>The share of frames the host skipped since the last tick.\<close>

definition dropped_share :: "u64 \<Rightarrow> u32 \<Rightarrow> f32" where
  "dropped_share delta delivered =
     (let total = r32 (r32 (of_nat (unat delta)) + r32 (of_nat (unat delivered)))
      in if total > 0 then r32 (r32 (r32 (of_nat (unat delta)) / total) * 100) else 0)"

definition viewer_stats_now :: "'b viewer \<Rightarrow> 'b viewer_env \<Rightarrow> viewer_stats" where
  "viewer_stats_now s env =
     (let dt = max (secs_f32 (duration_since (ve_now env) (vw_last_tick s))) (r32 (1 / 1000));
          hs = vw_host_stats s;
          pct = dropped_share (sat_sub (hs_dropped hs) (vw_dropped_prev s)) (vw_delivered s)
      in \<lparr>st_rtt = vw_rtt s, st_jitter = vw_jitter s,
          st_recv_kbps = f32_to_u32 (r32 (r32 (r32 (r32 (of_nat (unat (ve_bytes_received env - vw_last_bytes s))) * 8) / dt) / 1000)),
          st_frames_per_sec = r32 (r32 (of_nat (unat (vw_frames s))) / dt), st_dropped_percent = pct,
          st_quality = nq_rate (vw_rtt s) (vw_jitter s) pct, st_host = hs,
          st_latency =
            \<lparr>lv_input_rtt = us_to_ms (unat (ve_input_rtt_us env)), lv_input_queue = us_to_ms (unat (ve_input_queue_us env)),
             lv_host_queue = us_to_ms (unat (hs_input_queue_us hs)), lv_host_apply = us_to_ms (unat (hs_input_apply_us hs)),
             lv_motion_to_frame = us_to_ms (unat (ve_motion_to_frame_us env)),
             lv_stale_moves = ve_moves_coalesced env + hs_stale_moves_dropped hs, lv_stale_video = 0,
             lv_file_rate_kbps = ucast (vw_bulk_rate s div 125)\<rparr>\<rparr>)"

definition viewer_ping :: "'b viewer \<Rightarrow> 'b viewer_env \<Rightarrow> 'b viewer" where
  "viewer_ping s env =
     (let s1 = vw_send s (M_Ping (ve_now_ms env))
      in if duration_since (ve_now env) (vw_last_rx s) > secs 15 then s1\<lparr>vw_ended := Some ConnectionLost\<rparr>
         else (vw_emit s1 (VE_ViewerStats (viewer_stats_now s env)))
                \<lparr>vw_dropped_prev := hs_dropped (vw_host_stats s), vw_frames := 0, vw_delivered := 0,
                 vw_last_bytes := ve_bytes_received env, vw_last_tick := ve_now env\<rparr>)"

section \<open>The loop\<close>

datatype 'b viewer_step = VT_Msg msg "'b viewer_env" | VT_Cmd viewer_cmd "'b viewer_env" | VT_Clip "'b viewer_env"
  | VT_Probe "'b viewer_env" | VT_Ping "'b viewer_env" | VT_Closed

definition viewer_step :: "'b viewer \<Rightarrow> 'b viewer_step \<Rightarrow> 'b viewer option" where
  "viewer_step s x =
     (if vw_ended s \<noteq> None then Some s
      else case x of
             VT_Msg m env \<Rightarrow> viewer_msg s m env
           | VT_Cmd c env \<Rightarrow> Some (viewer_command s c env)
           | VT_Clip env \<Rightarrow> Some (viewer_clip_tick s env)
           | VT_Probe env \<Rightarrow> Some (viewer_probe s env)
           | VT_Ping env \<Rightarrow> Some (viewer_ping s env)
           | VT_Closed \<Rightarrow> Some (s\<lparr>vw_ended := Some ConnectionLost\<rparr>))"

inductive viewer_reachable :: "'b viewer \<Rightarrow> bool" where
  viewer_reach_start: "viewer_reachable (viewer_start cfg perms ds clip fs env)"
| viewer_reach_step: "viewer_reachable s \<Longrightarrow> viewer_step s x = Some s' \<Longrightarrow> viewer_reachable s'"

end
