(* ===== verification/Viewer_Props.thy ===== *)
theory Viewer_Props
  imports Viewer_Session Host_Demo
begin

text \<open>
  The two ends of a session together: the permissions the viewer shows and enforces are those in
  force at the host, once the host's messages have arrived; and what the viewer does with the clipboard
  and with files stays within them.
\<close>

section \<open>The file manager's switch\<close>

lemma offer_each_keeps_switch: "fm_allowed (snd (offer_each m fs now)) = fm_allowed m"
proof (induction m fs now rule: offer_each.induct)
  case (2 m p n fs now)
  obtain r m1 where o: "t_offer m p n now = (r, m1)" by force
  have "fm_allowed m1 = fm_allowed m" using offer_keeps_switch [of m p n now] by (simp add: o)
  then show ?case using 2 [OF o [symmetric]] by (cases r) (simp_all add: o)
qed simp

lemma user_keeps_switch:
  "fm_allowed (snd (send_paths m fe now)) = fm_allowed m" "fm_allowed (snd (download m p now)) = fm_allowed m"
  "fm_allowed (list_dir m p) = fm_allowed m" "fm_allowed (t_pause m i) = fm_allowed m" "fm_allowed (t_resume m i) = fm_allowed m"
  "fm_allowed (t_cancel m i) = fm_allowed m" "fm_allowed (snd (retry m i now)) = fm_allowed m"
proof -
  show "fm_allowed (snd (send_paths m fe now)) = fm_allowed m"
    using offer_each_keeps_switch [of m _ now] by (auto simp: send_paths_def split: option.split prod.split sum.split) (metis snd_conv)+
qed (auto simp: download_def list_dir_def t_pause_def t_resume_def t_cancel_def retry_def alloc_id_def fm_simps
    offer_keeps_switch split: option.split)

section \<open>What the host announces\<close>

fun announces :: "msg \<Rightarrow> permissions option" where
  "announces (M_Accepted p _ _ _) = Some p"
| "announces (M_PermissionsChanged p) = Some p"
| "announces _ = None"

definition announced :: "permissions \<Rightarrow> msg list \<Rightarrow> permissions" where
  "announced p ms = foldl (\<lambda>q m. case announces m of Some r \<Rightarrow> r | None \<Rightarrow> q) p ms"

lemma announced_simps [simp]:
  "announced p [] = p"
  "announced p (ms @ [m]) = (case announces m of Some r \<Rightarrow> r | None \<Rightarrow> announced p ms)"
  "announced p (m # ms) = announced (case announces m of Some r \<Rightarrow> r | None \<Rightarrow> p) ms"
  unfolding announced_def by (simp_all split: option.split)

text \<open>The permissions in force are the last announced ones, and the first message is the acceptance.\<close>

definition tells :: "'b host \<Rightarrow> bool" where
  "tells s \<longleftrightarrow> (\<exists>p ds act name ms. ho_sent s = M_Accepted p ds act name # ms \<and> (\<forall>q d a n. M_Accepted q d a n \<notin> set ms)) \<and>
     announced PERM_NONE (ho_sent s) = ho_perms s"

definition quiet_step :: "'b host \<Rightarrow> 'b host \<Rightarrow> bool" where
  "quiet_step s s' \<longleftrightarrow> (ho_sent s' = ho_sent s \<or> (\<exists>m. ho_sent s' = ho_sent s @ [m] \<and> announces m = None)) \<and> ho_perms s' = ho_perms s"

lemma quiet_tells:
  assumes "quiet_step s s'" "tells s"
  shows "tells s'"
proof -
  have "announces (M_Accepted q d a n) \<noteq> None" for q d a n by simp
  then show ?thesis using assms by (auto simp: quiet_step_def tells_def)
qed

lemma tells_change: "tells s \<Longrightarrow> ho_sent s' = ho_sent s @ [M_PermissionsChanged p] \<Longrightarrow> ho_perms s' = p \<Longrightarrow> tells s'"
  by (auto simp: tells_def)

lemma msg_quiet:
  assumes "host_msg s m env = Some s'"
  shows "quiet_step s s'"
  using assms
  by (cases m) (auto simp: host_msg_def Let_def quiet_step_def select_display_def set_quality_def host_clipboard_def
      on_pong_def host_defs split: option.splits if_splits prod.splits)

lemma begin_quiet: "quiet_step s (begin_permissions s p env)"
  by (auto simp: begin_permissions_def elevate_change_def quiet_step_def host_defs split: prod.splits option.splits if_splits)

lemma end_tells: "tells s \<Longrightarrow> tells (end_permissions s env)"
proof (cases "ho_mid s")
  case (Some q)
  obtain new l where q: "ho_mid s = Some (new, l)" using Some by (cases q) simp
  assume t: "tells s"
  show ?thesis
    by (rule tells_change [OF t, of _ new]) (use q in \<open>auto simp: end_permissions_def Let_def host_defs\<close>)
qed (simp add: end_permissions_def)

lemma adapt_tells:
  assumes "tells s"
  shows "tells (host_adapt_tick s env)"
proof -
  define s1 where "s1 = (if p_elevated (ho_perms s)
    then (case take_elevated_lost (iw_shared (ho_input s)) of (lost, sh) \<Rightarrow>
            let s0 = on_shared (\<lambda>_. sh) s in if lost then elevation_lost s0 else s0)
    else s)"
  have t1: "tells s1"
  proof -
    have "tells (elevation_lost s0)" if "tells s0" for s0 :: "'a host"
      by (rule tells_change [OF that, of _ "(ho_perms s0)\<lparr>p_elevated := False\<rparr>"])
        (simp_all add: elevation_lost_def Let_def host_defs)
    moreover have "tells (on_shared f s)" for f using assms by (simp add: tells_def on_shared_def)
    ultimately show ?thesis using assms by (auto simp: s1_def Let_def split: prod.split)
  qed
  have "quiet_step s1 (host_adapt_tick s env)"
    by (auto simp: host_adapt_tick_def s1_def [symmetric] Let_def quiet_step_def host_defs split: option.split prod.split)
  then show ?thesis using t1 quiet_tells by blast
qed

lemma step_tells:
  assumes t: "tells s" and st: "host_step s x = Some s'"
  shows "tells s'"
proof -
  have id: "quiet_step s s" by (simp add: quiet_step_def)
  show ?thesis
  proof (cases x)
    case (HS_Msg m env)
    then show ?thesis using st t quiet_tells [OF msg_quiet] by (auto simp: host_step_def split: if_splits)
  next
    case (HS_Cmd c env)
    have "quiet_step s (host_command s c env)"
      using begin_quiet by (cases c) (auto simp: host_command_def quiet_step_def host_defs)
    then show ?thesis using st t quiet_tells HS_Cmd by (auto simp: host_step_def split: if_splits)
  next
    case (HS_Permissions env)
    then show ?thesis using st t end_tells by (auto simp: host_step_def)
  next
    case (HS_Video e)
    have "quiet_step s (host_video_event s e)" by (cases e) (auto simp: host_video_event_def quiet_step_def host_defs Let_def)
    then show ?thesis using st t quiet_tells HS_Video by (auto simp: host_step_def split: if_splits)
  next
    case (HS_Clip env)
    have "quiet_step s (host_clip_tick s env)"
      by (auto simp: host_clip_tick_def quiet_step_def host_defs split: option.split prod.split clipboard_payload.split)
    then show ?thesis using st t quiet_tells HS_Clip by (auto simp: host_step_def split: if_splits)
  next
    case (HS_Adapt env)
    then show ?thesis using st t adapt_tells by (auto simp: host_step_def split: if_splits)
  next
    case (HS_Probe env)
    have "quiet_step s (host_probe s env)" by (auto simp: host_probe_def quiet_step_def host_defs)
    then show ?thesis using st t quiet_tells HS_Probe by (auto simp: host_step_def split: if_splits)
  next
    case (HS_Ping env)
    have "quiet_step s (host_ping s env)" by (auto simp: host_ping_def quiet_step_def host_defs Let_def)
    then show ?thesis using st t quiet_tells HS_Ping by (auto simp: host_step_def split: if_splits)
  next
    case HS_Closed
    then show ?thesis using st t by (auto simp: host_step_def tells_def split: if_splits)
  qed (use st t in \<open>auto simp: host_step_def tells_def\<close>)
qed

lemma start_tells:
  assumes "host_start no cfg name auth link g screen clip fs env = Inr s"
  shows "tells s"
  using assms by (auto simp: host_start_def Let_def tells_def split: prod.splits option.splits)

lemma reachable_tells: "host_reachable g s \<Longrightarrow> tells s"
proof (induction rule: host_reachable.induct)
  case (host_reach_stop s)
  then show ?case by (simp add: tells_def host_stop_def)
qed (use start_tells step_tells in blast)+

section \<open>The viewer follows\<close>

definition viewer_ok :: "'b viewer \<Rightarrow> bool" where
  "viewer_ok v \<longleftrightarrow> fm_allowed (vw_files v) = p_files (vw_perms v)"

text \<open>What a step does to the permissions, and when it touches the clipboard.\<close>

definition heard :: "'b viewer_step \<Rightarrow> permissions option" where
  "heard x = (case x of VT_Msg (M_PermissionsChanged p) _ \<Rightarrow> Some p | _ \<Rightarrow> None)"

definition clips :: "msg list \<Rightarrow> msg list" where
  "clips ms = filter (\<lambda>m. case m of M_Clipboard _ \<Rightarrow> True | _ \<Rightarrow> False) ms"

lemma viewer_msg_perms:
  assumes "viewer_msg s m env = Some s'"
  shows "vw_perms s' = (case heard (VT_Msg m env) of Some p \<Rightarrow> p | None \<Rightarrow> vw_perms s)"
  using assms
  by (cases m) (auto simp: viewer_msg_def Let_def heard_def vw_emit_def vw_send_def viewer_clipboard_def viewer_pong_def
      split: option.splits prod.splits sum.splits if_splits)

lemma viewer_msg_ok:
  assumes "viewer_msg s m env = Some s'" "viewer_ok s"
  shows "viewer_ok s'"
  using assms
  by (cases m) (auto simp: viewer_msg_def Let_def viewer_ok_def vw_emit_def vw_send_def viewer_clipboard_def viewer_pong_def
      set_allowed_switch on_file_msg_keeps_switch split: option.splits prod.splits sum.splits if_splits)

lemma viewer_command_keeps:
  "vw_perms (viewer_command s c env) = vw_perms s" "viewer_ok s \<Longrightarrow> viewer_ok (viewer_command s c env)"
  "vw_clip (viewer_command s c env) = vw_clip s" "clips (vw_sent (viewer_command s c env)) = clips (vw_sent s)"
  "vw_bulk (viewer_command s c env) = vw_bulk s"
proof -
  note k = user_keeps_switch(1) [of "vw_files s" "ve_file env" "ve_now env"]
  show "vw_perms (viewer_command s c env) = vw_perms s" "vw_clip (viewer_command s c env) = vw_clip s"
    "clips (vw_sent (viewer_command s c env)) = clips (vw_sent s)" "vw_bulk (viewer_command s c env) = vw_bulk s"
    by (cases c; auto simp: viewer_command_def vw_emit_def vw_send_def report_def clips_def split: prod.split sum.split)+
  show "viewer_ok s \<Longrightarrow> viewer_ok (viewer_command s c env)"
    using user_keeps_switch
    by (cases c) (auto simp: viewer_command_def vw_emit_def vw_send_def report_def viewer_ok_def split: prod.split sum.split; metis snd_conv)+
qed

text \<open>A timer or command that is about the clipboard needs the permission and the user's switch.\<close>

lemma clipboard_needs_permission:
  assumes "viewer_step s x = Some s'"
    and "vw_clip s' \<noteq> vw_clip s \<or> clips (vw_sent s') \<noteq> clips (vw_sent s) \<or> vw_bulk s' \<noteq> vw_bulk s"
  shows "p_clipboard (vw_perms s) \<and> vw_clip_on s"
proof (rule ccontr)
  assume off: "\<not> (p_clipboard (vw_perms s) \<and> vw_clip_on s)"
  have "vw_clip s' = vw_clip s \<and> clips (vw_sent s') = clips (vw_sent s) \<and> vw_bulk s' = vw_bulk s"
  proof (cases "vw_ended s = None")
    case True
    show ?thesis
    proof (cases x)
      case (VT_Msg m env)
      then show ?thesis using assms(1) True off
        by (cases m) (auto simp: viewer_step_def viewer_msg_def Let_def vw_emit_def vw_send_def viewer_pong_def clips_def split: prod.splits)
    next
      case (VT_Cmd c env)
      then show ?thesis using assms(1) True viewer_command_keeps(3-5) by (auto simp: viewer_step_def)
    next
      case (VT_Clip env)
      then show ?thesis using assms(1) True off by (auto simp: viewer_step_def viewer_clip_tick_def)
    qed (use assms(1) True in \<open>auto simp: viewer_step_def viewer_probe_def viewer_ping_def Let_def vw_emit_def vw_send_def clips_def\<close>)
  qed (use assms(1) in \<open>simp add: viewer_step_def\<close>)
  then show False using assms(2) by blast
qed

lemma viewer_step_follows:
  assumes "viewer_step s x = Some s'" "vw_ended s = None"
  shows "vw_perms s' = (case heard x of Some p \<Rightarrow> p | None \<Rightarrow> vw_perms s)" "viewer_ok s \<Longrightarrow> viewer_ok s'"
proof -
  have "vw_perms s' = (case heard x of Some p \<Rightarrow> p | None \<Rightarrow> vw_perms s) \<and> (viewer_ok s \<longrightarrow> viewer_ok s')"
  proof (cases x)
    case (VT_Msg m env)
    then show ?thesis using assms viewer_msg_perms viewer_msg_ok by (auto simp: viewer_step_def)
  next
    case (VT_Cmd c env)
    then show ?thesis using assms viewer_command_keeps(1,2) [of s c env] by (auto simp: viewer_step_def heard_def)
  next
    case (VT_Clip env)
    then show ?thesis using assms
      by (auto simp: viewer_step_def viewer_clip_tick_def heard_def viewer_ok_def vw_send_def
          split: option.splits prod.splits clipboard_payload.splits if_splits)
  qed (use assms in \<open>auto simp: viewer_step_def viewer_probe_def viewer_ping_def Let_def vw_emit_def vw_send_def heard_def viewer_ok_def split: if_splits\<close>)
  then show "vw_perms s' = (case heard x of Some p \<Rightarrow> p | None \<Rightarrow> vw_perms s)" "viewer_ok s \<Longrightarrow> viewer_ok s'" by simp_all
qed

fun viewer_run :: "'b viewer \<Rightarrow> 'b viewer_step list \<Rightarrow> 'b viewer option" where
  "viewer_run s [] = Some s"
| "viewer_run s (x # xs) = (case viewer_step s x of None \<Rightarrow> None | Some s' \<Rightarrow> viewer_run s' xs)"

definition received :: "'b viewer_step list \<Rightarrow> msg list" where
  "received xs = concat (map (\<lambda>x. case x of VT_Msg m _ \<Rightarrow> [m] | _ \<Rightarrow> []) xs)"

lemma ended_stays: "viewer_run s xs = Some s' \<Longrightarrow> vw_ended s \<noteq> None \<Longrightarrow> vw_ended s' \<noteq> None"
  by (induction xs) (auto simp: viewer_step_def)

lemma viewer_run_follows:
  assumes "viewer_run s xs = Some v" "vw_ended v = None" "viewer_ok s" "\<forall>q d a n. M_Accepted q d a n \<notin> set (received xs)"
  shows "vw_perms v = announced (vw_perms s) (received xs) \<and> viewer_ok v"
  using assms
proof (induction xs arbitrary: s)
  case (Cons x xs)
  obtain s1 where s1: "viewer_step s x = Some s1" "viewer_run s1 xs = Some v" using Cons.prems(1) by (auto split: option.splits)
  have ne: "vw_ended s = None" using ended_stays [OF Cons.prems(1)] Cons.prems(2) by blast
  have st: "vw_perms s1 = (case heard x of Some p \<Rightarrow> p | None \<Rightarrow> vw_perms s)" "viewer_ok s1"
    using viewer_step_follows [OF s1(1) ne] Cons.prems(3) by simp_all
  have no: "\<forall>q d a n. M_Accepted q d a n \<notin> set (received xs)" using Cons.prems(4) by (auto simp: received_def)
  have r: "received (x # xs) = (case x of VT_Msg m _ \<Rightarrow> [m] | _ \<Rightarrow> []) @ received xs" by (simp add: received_def)
  have "announced (vw_perms s) (received (x # xs)) = announced (vw_perms s1) (received xs)"
  proof (cases x)
    case (VT_Msg m env)
    have "\<forall>q d a n. m \<noteq> M_Accepted q d a n" using Cons.prems(4) VT_Msg unfolding r by auto
    then have "announces m = heard x" using VT_Msg by (cases m) (auto simp: heard_def)
    moreover have "received (x # xs) = m # received xs" by (simp add: VT_Msg received_def)
    ultimately show ?thesis using st(1) by simp
  qed (use st(1) in \<open>simp_all add: received_def heard_def\<close>)
  then show ?case using Cons.IH [OF s1(2) Cons.prems(2) st(2) no] by simp
qed (simp add: received_def)

text \<open>Only the messages about permissions bear on them.\<close>

definition about_permissions :: "msg \<Rightarrow> bool" where
  "about_permissions m \<longleftrightarrow> announces m \<noteq> None"

lemma announced_filter: "announced p (filter about_permissions ms) = announced p ms"
  by (induction ms arbitrary: p) (auto simp: about_permissions_def split: option.split)

text \<open>
  C30. The viewer follows the host. In every reachable state of a host session, the viewer that took
  part from the acceptance on and has received the permission changes the host has sent, whatever else it
  received in between (frames, cursors, files, clipboard, anything, in any order) and whatever happened at
  its side, shows exactly the permissions in force at the host, and both sides let
  files through or refuse them alike.
\<close>

theorem viewer_follows_host:
  assumes "host_reachable g h" "ho_sent h = M_Accepted p ds act name # ms"
    and "viewer_run (viewer_start cfg p ds clip fs env) xs = Some v" "vw_ended v = None"
    and "filter about_permissions (received xs) = filter about_permissions ms"
  shows "vw_perms v = ho_perms h \<and> fm_allowed (vw_files v) = fm_allowed (ho_files h)"
proof -
  have t: "tells h" by (rule reachable_tells [OF assms(1)])
  have no: "\<forall>q d a n. M_Accepted q d a n \<notin> set (received xs)"
  proof (intro allI notI)
    fix q d a n assume "M_Accepted q d a n \<in> set (received xs)"
    then have "M_Accepted q d a n \<in> set (filter about_permissions ms)"
      unfolding assms(5) [symmetric] by (simp add: about_permissions_def)
    then show False using t assms(2) by (auto simp: tells_def)
  qed
  have ok: "viewer_ok (viewer_start cfg p ds clip fs env)" by (simp add: viewer_ok_def viewer_start_def manager_new_def)
  have "announced p (received xs) = announced p ms"
    using announced_filter [of p "received xs"] announced_filter [of p ms] assms(5) by simp
  then have f: "vw_perms v = announced p ms" "viewer_ok v"
    using viewer_run_follows [OF assms(3,4) ok no] by (simp_all add: viewer_start_def)
  have "announced p ms = ho_perms h" using t assms(2) by (simp add: tells_def)
  moreover have "fm_allowed (ho_files h) = p_files (ho_perms h)"
    using host_reachable_ok [OF assms(1)] by (simp add: host_ok_def)
  ultimately show ?thesis using f by (simp add: viewer_ok_def)
qed

text \<open>The owner withdraws the keyboard; the viewer hears of it after a ping of its own and before a frame.\<close>

definition some_frame :: video_frame where
  "some_frame = \<lparr>vf_seq = 1, vf_display = 0, vf_codec = H264, vf_keyframe = True, vf_width = 640, vf_height = 480,
     vf_captured_ms = 0, vf_input_seq = 0, vf_data = [1]\<rparr>"

definition demo_viewer_env :: "mock viewer_env" where
  "demo_viewer_env = \<lparr>ve_now = 0, ve_now_ms = 0, ve_sha = (\<lambda>b. b), ve_clip_ops = mock_ops, ve_file = he_file demo_env,
     ve_bulk_bytes = 5, ve_bytes_received = 0, ve_input_rtt_us = 0, ve_input_queue_us = 0, ve_motion_to_frame_us = 0,
     ve_moves_coalesced = 0\<rparr>"

theorem viewer_follows_host_witness:
  "\<exists>h v :: mock viewer. host_reachable PERM_ALL (h :: mock host) \<and>
    viewer_run (viewer_start (engine_config_new [] [] [] []) PERM_ALL [some_display] None \<lparr>f_dirs = [[]], f_names = [], f_data = []\<rparr> demo_viewer_env)
      [VT_Probe demo_viewer_env, VT_Msg (M_PermissionsChanged no_keyboard) demo_viewer_env,
       VT_Msg (M_Video some_frame) demo_viewer_env] = Some v \<and>
    vw_perms v = no_keyboard \<and> ho_perms h = no_keyboard"
proof -
  obtain s where s: "demo_start = Inr s" "ho_perms s = PERM_ALL" "ho_max_perms s = PERM_ALL" "ho_mid s = None" "ho_ended s = None"
    "ho_input s = input_spawn (shared_new PERM_ALL [some_display] 0) 0"
    using demo_started by blast
  have sent: "ho_sent s = [M_Accepted PERM_ALL [some_display] 0 [72]]"
  proof -
    have "primary_index [some_display] = 0" by (simp add: primary_index_def some_display_def)
    then show ?thesis using s(1) by (auto simp: demo_start_def host_start_def host_elevate_def PERM_ALL_def Let_def)
  qed
  have r: "iw_route (ho_input s) = []" by (simp add: s(6) input_spawn_def)
  obtain h where h: "host_run s withdraw = Some h" "ho_perms h = no_keyboard" using demo_withdrawn [OF s(2-5) r] by blast
  have hs: "ho_sent h = M_Accepted PERM_ALL [some_display] 0 [72] # [M_PermissionsChanged no_keyboard]"
    using h(1) s(2-5) sent
    by (simp add: withdraw_def host_step_def in_loop_def host_command_def begin_permissions_def elevate_change_def intersect_def
        no_keyboard_def PERM_ALL_def lost_input_def end_permissions_def host_defs demo_env_def) auto
  have reach: "host_reachable PERM_ALL h"
    using host_run_reachable [OF host_reach_start h(1)] s(1) unfolding demo_start_def by blast
  let ?v0 = "viewer_start (engine_config_new [] [] [] []) PERM_ALL [some_display] None \<lparr>f_dirs = [[]], f_names = [], f_data = []\<rparr> demo_viewer_env"
  let ?xs = "[VT_Probe demo_viewer_env, VT_Msg (M_PermissionsChanged no_keyboard) demo_viewer_env,
      VT_Msg (M_Video some_frame) demo_viewer_env]"
  obtain v where v: "viewer_run ?v0 ?xs = Some v" "vw_ended v = None"
    by (simp add: viewer_step_def viewer_start_def viewer_probe_def demo_viewer_env_def vw_send_def vw_emit_def viewer_msg_def Let_def)
  have "filter about_permissions (received ?xs) = filter about_permissions [M_PermissionsChanged no_keyboard]"
    by (simp add: received_def about_permissions_def)
  from viewer_follows_host [OF reach hs v this] show ?thesis using reach v h(2) by auto
qed

end
