(* ===== verification/Viewer_Engine.thy ===== *)
theory Viewer_Engine
  imports Viewer_Session Ids
begin

text \<open>
  The viewer side of the engine, \<open>crates/session/src/engine_viewer.rs\<close>: one attempt to connect, from
  the request at the server to the end of the session, and the supervision that reconnects.

  \<open>attempt\<close> is a function of what the surroundings answer, \<open>attempt_env\<close>; it returns what it reports,
  what it sends to the server, the connects still pending and its outcome. The supervision is a
  state machine over outcomes, elapsed delays and the user's commands.
\<close>

section \<open>Failures\<close>

definition map_connect :: "connect_failure \<Rightarrow> fail_reason" where
  "map_connect f = (case f of Offline \<Rightarrow> FR_Offline | NotAccepting \<Rightarrow> FR_NotAccepting | RateLimited \<Rightarrow> FR_RateLimited
     | Banned \<Rightarrow> FR_Banned | Busy \<Rightarrow> FR_Busy | InvalidId \<Rightarrow> FR_InvalidId)"

definition map_abort :: "abort_reason \<Rightarrow> fail_reason" where
  "map_abort a = (case a of A_Busy \<Rightarrow> FR_Busy | A_Unsupported \<Rightarrow> FR_Unsupported | A_NotAccepting \<Rightarrow> FR_NotAccepting
     | A_LockedOut \<Rightarrow> FR_LockedOut | A_AuthFailed \<Rightarrow> FR_WrongPassword | A_UnattendedDisabled \<Rightarrow> FR_UnattendedDisabled)"

definition map_reject :: "reject_reason \<Rightarrow> fail_reason" where
  "map_reject r = (case r of R_Declined \<Rightarrow> FR_Declined | R_Timeout \<Rightarrow> FR_Timeout | R_Busy \<Rightarrow> FR_Busy)"

definition map_viewer :: "viewer_failure \<Rightarrow> fail_reason" where
  "map_viewer f = (case f of V_WrongPassword \<Rightarrow> FR_WrongPassword | V_Aborted a \<Rightarrow> map_abort a | V_Protocol \<Rightarrow> FR_Protocol)"

definition retryable :: "fail_reason \<Rightarrow> bool" where
  "retryable r \<longleftrightarrow> r \<in> {FR_ServerUnavailable, FR_ConnectionLost, FR_Protocol, FR_Timeout}"

section \<open>Starting\<close>

record connect_target =
  tg_id :: device_id
  tg_password :: rstr
  tg_auth :: auth_kind
  tg_requested :: permissions

definition str_trim :: "rstr \<Rightarrow> rstr" where
  "str_trim s = rev (dropWhile is_whitespace (rev (dropWhile is_whitespace s)))"

definition connect_start ::
  "(uchar \<Rightarrow> rstr) \<Rightarrow> rstr \<Rightarrow> rstr \<Rightarrow> auth_kind \<Rightarrow> permissions \<Rightarrow> connect_failure + connect_target" where
  "connect_start to_uppercase target password auth requested =
     (case device_id_parse target of
        None \<Rightarrow> Inl InvalidId
      | Some d \<Rightarrow>
          Inr \<lparr>tg_id = d,
               tg_password = (case auth of Temporary \<Rightarrow> normalize_temp_password to_uppercase password
                              | Permanent \<Rightarrow> str_trim password),
               tg_auth = auth, tg_requested = requested\<rparr>)"

section \<open>An attempt\<close>

datatype attempt_result = At_Ended end_reason | At_Failed fail_reason

datatype connect_event = CE_State viewer_state | CE_Ready viewer_ready

record 's attempt_env =
  ae_cfg :: engine_config
  ae_my_id :: "rstr option"
  ae_online :: bool
  ae_sends :: bool
  ae_ready :: "(connect_failure + session_id \<times> rstr list) option"
  ae_direct :: "rstr option"
  ae_crypto :: "'s crypto"
  ae_ser :: hs_ser
  ae_de :: hs_de
  ae_up :: "nat \<Rightarrow> bool"
  ae_seed :: nat
  ae_frames :: "bytes option list"
  ae_first :: "msg option option"
  ae_end :: end_reason

record attempt_out =
  ao_events :: "connect_event list"
  ao_sent :: "client_to_server list"
  ao_pending :: "rstr list"
  ao_result :: attempt_result
  ao_connected :: bool

definition failed :: "connect_event list \<Rightarrow> client_to_server list \<Rightarrow> rstr list \<Rightarrow> fail_reason \<Rightarrow> attempt_out" where
  "failed evs sent pend r =
     \<lparr>ao_events = evs, ao_sent = sent, ao_pending = pend, ao_result = At_Failed r, ao_connected = False\<rparr>"

text \<open>The link: direct when there are candidates and one answers, the relay otherwise.\<close>

definition choose_link :: "engine_config \<Rightarrow> rstr list \<Rightarrow> rstr option \<Rightarrow> (link_kind \<times> rstr) option" where
  "choose_link cfg candidates direct =
     (case (if ec_direct_enabled cfg \<and> candidates \<noteq> [] then direct else None) of
        Some peer \<Rightarrow> Some (Link_Direct, peer)
      | None \<Rightarrow> if ec_relay_fallback cfg then Some (Link_Relay, lit ''relay'') else None)"

definition viewer_link_info :: "link_kind \<Rightarrow> rstr \<Rightarrow> link_info" where
  "viewer_link_info k peer = \<lparr>li_kind = k, li_peer = peer,
     li_protocol = (if k = Link_Direct then ''tcp'' else ''tls-websocket'')\<rparr>"

definition attempt_params :: "connect_target \<Rightarrow> 's attempt_env \<Rightarrow> rstr \<Rightarrow> session_id \<Rightarrow> viewer_params" where
  "attempt_params t env my_id sid =
     \<lparr>vp_session = sid, vp_viewer_id = my_id, vp_viewer_name = ec_device_name (ae_cfg env), vp_host_id = tg_id t,
      vp_password = tg_password t, vp_auth = tg_auth t, vp_requested = tg_requested t\<rparr>"

text \<open>From the authenticated channel on: the host's first message, then the session.\<close>

definition attempt_session ::
  "'s attempt_env \<Rightarrow> session_id \<Rightarrow> link_info \<Rightarrow> connect_event list \<Rightarrow> client_to_server list \<Rightarrow> rstr list \<Rightarrow> attempt_out" where
  "attempt_session env sid link evs0 sent pend =
     (let evs = evs0 @ [CE_State VS_WaitingForApproval]; cleaned = sent @ [C_EndSession sid False]
      in case ae_first env of
           Some (Some (M_Accepted p ds act name)) \<Rightarrow>
             \<lparr>ao_events = evs @ [CE_Ready \<lparr>vr_host_name = name, vr_displays = ds, vr_permissions = p, vr_active = act, vr_link = link\<rparr>,
                CE_State VS_Connected],
              ao_sent = cleaned, ao_pending = pend, ao_result = At_Ended (ae_end env), ao_connected = True\<rparr>
         | Some (Some (M_Rejected r)) \<Rightarrow> failed evs cleaned pend (map_reject r)
         | None \<Rightarrow> failed evs cleaned pend FR_Timeout
         | _ \<Rightarrow> failed evs cleaned pend FR_Protocol)"

definition attempt_link ::
  "connect_target \<Rightarrow> 's attempt_env \<Rightarrow> rstr \<Rightarrow> session_id \<Rightarrow> rstr list \<Rightarrow> connect_event list \<Rightarrow> client_to_server list \<Rightarrow>
    rstr list \<Rightarrow> attempt_out" where
  "attempt_link t env my_id sid candidates evs sent pend =
     (case choose_link (ae_cfg env) candidates (ae_direct env) of
        None \<Rightarrow> failed evs (sent @ [C_EndSession sid False]) pend FR_Offline
      | Some (k, peer) \<Rightarrow>
          (let sent1 = sent @ [C_SessionMode sid (k = Link_Direct)]; evs1 = evs @ [CE_State VS_Authenticating]
           in case snd (viewer_handshake (ae_crypto env) (ae_ser env) (ae_de env) (ae_up env) (ae_seed env)
                          (attempt_params t env my_id sid) (ae_frames env)) of
                Inl e \<Rightarrow> failed evs1 (sent1 @ [C_EndSession sid False]) pend (map_viewer e)
              | Inr _ \<Rightarrow> attempt_session env sid (viewer_link_info k peer) evs1 sent1 pend))"

text \<open>\<open>pend\<close> are the pending connects; the dispatcher removes the one it resolves.\<close>

definition attempt :: "connect_target \<Rightarrow> 's attempt_env \<Rightarrow> rstr list \<Rightarrow> attempt_out" where
  "attempt t env pend =
     (case (if ae_online env then ae_my_id env else None) of
        None \<Rightarrow> failed [] [] pend FR_ServerUnavailable
      | Some my_id \<Rightarrow>
          (let pend1 = List.insert (tg_id t) pend; evs = [CE_State VS_Connecting]
           in if \<not> ae_sends env then failed evs [] pend1 FR_ServerUnavailable
              else let sent = [C_Connect (tg_id t)]
                   in case ae_ready env of
                        Some (Inr (sid, candidates)) \<Rightarrow>
                          attempt_link t env my_id sid candidates evs sent pend1
                      | Some (Inl f) \<Rightarrow> failed evs sent pend1 (map_connect f)
                      | None \<Rightarrow> failed evs sent [] FR_ServerUnavailable))"

section \<open>Supervision\<close>

definition backoff_secs :: "u32 \<Rightarrow> u32" where
  "backoff_secs n = min (push_bit (min (unat (sat_sub n 1)) 5) 1) 30"

definition MAX_RECONNECT_ATTEMPTS :: u32 where
  "MAX_RECONNECT_ATTEMPTS = 8"

datatype super_phase = SU_Attempt | SU_Sleep u32 | SU_Wait | SU_Done

record supervisor =
  su_ever :: bool
  su_attempt :: u32
  su_phase :: super_phase
  su_events :: "viewer_state list"

definition su_new :: supervisor where
  "su_new = \<lparr>su_ever = False, su_attempt = 0, su_phase = SU_Attempt, su_events = []\<rparr>"

definition su_emit :: "supervisor \<Rightarrow> viewer_state \<Rightarrow> supervisor" where
  "su_emit s e = s\<lparr>su_events := su_events s @ [e]\<rparr>"

text \<open>What follows an attempt.\<close>

definition su_retry :: "supervisor \<Rightarrow> bool \<Rightarrow> supervisor" where
  "su_retry s conn =
     (let n = (if conn then 0 else su_attempt s) + 1; s1 = s\<lparr>su_attempt := n\<rparr>
      in if n > MAX_RECONNECT_ATTEMPTS then (su_emit s1 (VS_Failed FR_ConnectionLost))\<lparr>su_phase := SU_Wait\<rparr>
         else (su_emit s1 (VS_Reconnecting n (backoff_secs n)))\<lparr>su_phase := SU_Sleep (backoff_secs n)\<rparr>)"

definition su_outcome :: "supervisor \<Rightarrow> attempt_result \<Rightarrow> bool \<Rightarrow> supervisor" where
  "su_outcome s0 r conn =
     (let s = s0\<lparr>su_ever := su_ever s0 \<or> conn\<rparr>
      in case r of
           At_Ended LocalClosed \<Rightarrow> s\<lparr>su_phase := SU_Done\<rparr>
         | At_Ended ConnectionLost \<Rightarrow> su_retry s conn
         | At_Ended _ \<Rightarrow> (su_emit s VS_Closed)\<lparr>su_phase := SU_Done\<rparr>
         | At_Failed f \<Rightarrow>
             if \<not> (su_ever s \<and> retryable f) then (su_emit s (VS_Failed f))\<lparr>su_phase := SU_Done\<rparr>
             else su_retry s conn)"

text \<open>A command while sleeping or while waiting for the user.\<close>

definition su_command :: "supervisor \<Rightarrow> viewer_cmd \<Rightarrow> supervisor" where
  "su_command s c =
     (case su_phase s of
        SU_Sleep _ \<Rightarrow> (if c = VK_Disconnect then (su_emit s VS_Closed)\<lparr>su_phase := SU_Done\<rparr> else s)
      | SU_Wait \<Rightarrow>
          (case c of
             VK_Disconnect \<Rightarrow> s\<lparr>su_phase := SU_Done\<rparr>
           | VK_RequestKeyframe \<Rightarrow> s\<lparr>su_attempt := 0, su_phase := SU_Attempt\<rparr>
           | _ \<Rightarrow> s)
      | _ \<Rightarrow> s)"

datatype super_step = ST_Outcome attempt_result bool | ST_Slept | ST_Command viewer_cmd

definition super_step :: "supervisor \<Rightarrow> super_step \<Rightarrow> supervisor" where
  "super_step s x =
     (case x of
        ST_Outcome r conn \<Rightarrow> if su_phase s = SU_Attempt then su_outcome s r conn else s
      | ST_Slept \<Rightarrow> (case su_phase s of SU_Sleep _ \<Rightarrow> s\<lparr>su_phase := SU_Attempt\<rparr> | _ \<Rightarrow> s)
      | ST_Command c \<Rightarrow> su_command s c)"

section \<open>Passwords with spaces around them\<close>

text \<open>A permanent password that begins or ends with white space is stored as it is but never sent.\<close>

lemma trimmed_ends: "str_trim s \<noteq> [] \<Longrightarrow> \<not> is_whitespace (hd (str_trim s)) \<and> \<not> is_whitespace (last (str_trim s))"
proof -
  assume ne: "str_trim s \<noteq> []"
  let ?u = "dropWhile is_whitespace s"
  have l: "str_trim s = rev (dropWhile is_whitespace (rev ?u))" by (simp add: str_trim_def)
  have "dropWhile is_whitespace (rev ?u) \<noteq> []" using ne by (simp add: l)
  then have 1: "\<not> is_whitespace (last (str_trim s))" using hd_dropWhile [of is_whitespace "rev ?u"] by (simp add: l last_rev)
  obtain v where v: "?u = str_trim s @ v"
    using takeWhile_dropWhile_id [of is_whitespace "rev ?u"] unfolding l by (metis rev_append rev_rev_ident)
  then have "hd (str_trim s) = hd ?u" "?u \<noteq> []" using ne by (simp_all add: hd_append)
  then show ?thesis using 1 hd_dropWhile [of is_whitespace s] by simp
qed

lemma padded_password_never_sent:
  assumes "pw \<noteq> []" "is_whitespace (hd pw) \<or> is_whitespace (last pw)"
    and "connect_start up target typed Permanent req = Inr t"
  shows "tg_password t \<noteq> pw"
  using assms trimmed_ends [of typed] by (auto simp: connect_start_def split: option.splits)

end
