(* ===== verification/Reconnect.thy ===== *)
theory Reconnect
  imports Viewer_Engine
begin

text \<open>
  Reconnecting: the supervision ends or waits for the user after a bounded number of attempts and a
  bounded time, and never repeats an attempt the host or the server refused.
\<close>

section \<open>The attempts of a run\<close>

definition super_run :: "supervisor \<Rightarrow> super_step list \<Rightarrow> supervisor" where
  "super_run s xs = foldl super_step s xs"

fun outcomes :: "supervisor \<Rightarrow> super_step list \<Rightarrow> (attempt_result \<times> bool) list" where
  "outcomes s [] = []"
| "outcomes s (x # xs) =
     (case x of ST_Outcome r c \<Rightarrow> if su_phase s = SU_Attempt then [(r, c)] else [] | _ \<Rightarrow> []) @ outcomes (super_step s x) xs"

fun slept :: "supervisor \<Rightarrow> super_step list \<Rightarrow> nat" where
  "slept s [] = 0"
| "slept s (x # xs) =
     (case (x, su_phase s) of (ST_Slept, SU_Sleep d) \<Rightarrow> unat d | _ \<Rightarrow> 0) + slept (super_step s x) xs"

text \<open>Neither a new session nor the user's Reconnect starts the count over.\<close>

definition no_restart :: "supervisor \<Rightarrow> super_step list \<Rightarrow> bool" where
  "no_restart s xs \<longleftrightarrow> ST_Command VK_RequestKeyframe \<notin> set xs \<and> (\<forall>(r, c) \<in> set (outcomes s xs). \<not> c)"

definition sleep_ok :: "supervisor \<Rightarrow> bool" where
  "sleep_ok s \<longleftrightarrow> (case su_phase s of SU_Sleep d \<Rightarrow> d = backoff_secs (su_attempt s) \<and> 1 \<le> unat (su_attempt s) \<and> unat (su_attempt s) \<le> 8
     | SU_Attempt \<Rightarrow> unat (su_attempt s) \<le> 8 | _ \<Rightarrow> True)"

definition attempts_left :: "supervisor \<Rightarrow> nat" where
  "attempts_left s = (case su_phase s of SU_Wait \<Rightarrow> 0 | SU_Done \<Rightarrow> 0 | _ \<Rightarrow> 9 - unat (su_attempt s))"

definition backoff_nat :: "nat \<Rightarrow> nat" where
  "backoff_nat n = min (2 ^ min (n - 1) 5) 30"

lemma backoff_table: "k \<in> {0, 1, 2, 3, 4, 5, 6, 7, 8} \<Longrightarrow> unat (backoff_secs (of_nat k)) = backoff_nat k"
  by (elim insertE emptyE) (simp_all add: backoff_secs_def backoff_nat_def sat_sub_def min_def push_bit_of_1 word_le_nat_alt)

lemma backoff_eq:
  assumes "unat n \<le> 8"
  shows "unat (backoff_secs n) = backoff_nat (unat n)"
proof -
  have "unat n \<in> {0, 1, 2, 3, 4, 5, 6, 7, 8}" using assms by auto
  from backoff_table [OF this] show ?thesis by simp
qed

definition time_from :: "nat \<Rightarrow> nat" where
  "time_from a = sum_list (map backoff_nat [a..<9])"

definition time_left :: "supervisor \<Rightarrow> nat" where
  "time_left s = (case su_phase s of SU_Wait \<Rightarrow> 0 | SU_Done \<Rightarrow> 0
     | SU_Sleep _ \<Rightarrow> time_from (unat (su_attempt s)) | SU_Attempt \<Rightarrow> time_from (Suc (unat (su_attempt s))))"

lemma time_from_step: "a \<le> 8 \<Longrightarrow> time_from a = backoff_nat a + time_from (Suc a)"
  by (simp add: time_from_def upt_conv_Cons)

lemma unat_suc8: "unat (n :: u32) \<le> 8 \<Longrightarrow> unat (n + 1) = Suc (unat n)"
  by (simp add: unat_word_ariths(1))

text \<open>One step pays for the attempt it takes and for the delay it waits.\<close>

lemma retry_left:
  assumes "unat (su_attempt s) \<le> 8"
  shows "sleep_ok (su_retry s False)" "attempts_left (su_retry s False) \<le> 8 - unat (su_attempt s)"
    "time_left (su_retry s False) \<le> time_from (Suc (unat (su_attempt s)))"
  using assms
  by (auto simp: su_retry_def Let_def su_emit_def sleep_ok_def attempts_left_def time_left_def unat_suc8
      MAX_RECONNECT_ATTEMPTS_def word_less_nat_alt word_le_nat_alt split: if_splits)

lemma outcome_cases:
  "su_outcome s r c = su_retry (s\<lparr>su_ever := su_ever s \<or> c\<rparr>) c \<or> (\<exists>t. su_outcome s r c = t\<lparr>su_phase := SU_Done\<rparr>)"
  by (auto simp: su_outcome_def Let_def split: attempt_result.split end_reason.split)

lemma step_left:
  assumes ok: "sleep_ok s" and "x \<noteq> ST_Command VK_RequestKeyframe" and "\<forall>r c. x = ST_Outcome r c \<and> su_phase s = SU_Attempt \<longrightarrow> \<not> c"
  shows "sleep_ok (super_step s x) \<and>
    attempts_left (super_step s x) + (case x of ST_Outcome r c \<Rightarrow> if su_phase s = SU_Attempt then 1 else 0 | _ \<Rightarrow> 0) \<le> attempts_left s \<and>
    time_left (super_step s x) + (case (x, su_phase s) of (ST_Slept, SU_Sleep d) \<Rightarrow> unat d | _ \<Rightarrow> 0) \<le> time_left s"
proof (cases x)
  case (ST_Outcome r c)
  show ?thesis
  proof (cases "su_phase s = SU_Attempt")
    case True
    then have c: "\<not> c" using assms(3) ST_Outcome by blast
    have a: "unat (su_attempt s) \<le> 8" using ok True by (simp add: sleep_ok_def)
    have fin: "sleep_ok (t\<lparr>su_phase := SU_Done\<rparr>) \<and> attempts_left (t\<lparr>su_phase := SU_Done\<rparr>) = 0 \<and> time_left (t\<lparr>su_phase := SU_Done\<rparr>) = 0" for t
      by (simp add: sleep_ok_def attempts_left_def time_left_def)
    have left: "attempts_left s = 9 - unat (su_attempt s)" "time_left s = time_from (Suc (unat (su_attempt s)))"
      using True by (simp_all add: attempts_left_def time_left_def)
    have e: "super_step s (ST_Outcome r c) = su_outcome s r False" using True c by (simp add: super_step_def)
    have "su_outcome s r False = su_retry s False \<or> (\<exists>t. su_outcome s r False = t\<lparr>su_phase := SU_Done\<rparr>)"
      using outcome_cases [of s r False] by simp
    then show ?thesis using retry_left [OF a] a fin left by (auto simp: e ST_Outcome True)
  next
    case False
    then show ?thesis using ok ST_Outcome by (simp add: super_step_def)
  qed
next
  case ST_Slept
  show ?thesis
  proof (cases "su_phase s")
    case (SU_Sleep d)
    then have d: "d = backoff_secs (su_attempt s)" "1 \<le> unat (su_attempt s)" "unat (su_attempt s) \<le> 8"
      using ok by (simp_all add: sleep_ok_def)
    then show ?thesis using SU_Sleep ST_Slept backoff_eq [OF d(3)] time_from_step [OF d(3)]
      by (simp add: super_step_def sleep_ok_def attempts_left_def time_left_def)
  qed (use ok ST_Slept in \<open>simp_all add: super_step_def\<close>)
next
  case (ST_Command c)
  then show ?thesis using ok assms(2)
    by (cases c) (auto simp: super_step_def su_command_def su_emit_def sleep_ok_def attempts_left_def time_left_def
        split: super_phase.split)
qed

lemma run_left:
  assumes "sleep_ok s" "no_restart s xs"
  shows "sleep_ok (super_run s xs) \<and> length (outcomes s xs) + attempts_left (super_run s xs) \<le> attempts_left s \<and>
    slept s xs \<le> time_left s"
  using assms
proof (induction xs arbitrary: s)
  case (Cons x xs)
  have x: "x \<noteq> ST_Command VK_RequestKeyframe" "\<forall>r c. x = ST_Outcome r c \<and> su_phase s = SU_Attempt \<longrightarrow> \<not> c"
    using Cons.prems(2) by (auto simp: no_restart_def)
  note st = step_left [OF Cons.prems(1) x]
  have "no_restart (super_step s x) xs" using Cons.prems(2) by (auto simp: no_restart_def)
  then have IH: "sleep_ok (super_run (super_step s x) xs)"
    "length (outcomes (super_step s x) xs) + attempts_left (super_run (super_step s x) xs) \<le> attempts_left (super_step s x)"
    "slept (super_step s x) xs \<le> time_left (super_step s x)" using Cons.IH st by blast+
  have r: "super_run s (x # xs) = super_run (super_step s x) xs" by (simp add: super_run_def)
  show ?case using st IH unfolding r by (auto split: super_step.splits if_splits)
qed (simp add: super_run_def)

lemma su_retry_ok: "unat (su_attempt s) \<le> 8 \<Longrightarrow> sleep_ok (su_retry s c)"
  by (auto simp: su_retry_def Let_def su_emit_def sleep_ok_def unat_suc8 MAX_RECONNECT_ATTEMPTS_def word_less_nat_alt)

lemma step_ok: "sleep_ok s \<Longrightarrow> sleep_ok (super_step s x)"
proof (cases x)
  case (ST_Outcome r c)
  assume ok: "sleep_ok s"
  show ?thesis
  proof (cases "su_phase s = SU_Attempt")
    case True
    then have a: "unat (su_attempt (s\<lparr>su_ever := e\<rparr>)) \<le> 8" for e using ok by (simp add: sleep_ok_def)
    have "su_outcome s r c = su_retry (s\<lparr>su_ever := su_ever s \<or> c\<rparr>) c \<or> (\<exists>t. su_outcome s r c = t\<lparr>su_phase := SU_Done\<rparr>)"
      by (rule outcome_cases)
    then have "sleep_ok (su_outcome s r c)"
    proof
      assume "su_outcome s r c = su_retry (s\<lparr>su_ever := su_ever s \<or> c\<rparr>) c"
      then show ?thesis using su_retry_ok [OF a] by presburger
    next
      assume "\<exists>t. su_outcome s r c = t\<lparr>su_phase := SU_Done\<rparr>"
      then show ?thesis by (auto simp: sleep_ok_def)
    qed
    then show ?thesis using ST_Outcome True by (simp add: super_step_def)
  qed (use ok ST_Outcome in \<open>simp add: super_step_def\<close>)
qed (auto simp: super_step_def su_command_def su_emit_def sleep_ok_def split: super_phase.splits viewer_cmd.split)

lemma super_run_ok: "sleep_ok s \<Longrightarrow> sleep_ok (super_run s xs)"
  unfolding super_run_def by (induction xs arbitrary: s) (simp_all add: step_ok)

lemma left_bound: "sleep_ok s \<Longrightarrow> attempts_left s \<le> 9 \<and> time_left s \<le> 121"
proof -
  assume ok: "sleep_ok s"
  have mono: "time_from a \<le> time_from 1" if "1 \<le> a" for a
  proof (cases "a \<le> 9")
    case True
    have "[1..<9] = [1..<a] @ [a..<9]" using that True upt_add_eq_append [of 1 a "9 - a"] by simp
    then show ?thesis by (simp add: time_from_def)
  qed (simp add: time_from_def)
  have "time_from 1 = 121" by (simp add: time_from_def backoff_nat_def upt_rec min_def)
  then show ?thesis using mono [of "unat (su_attempt s)"] mono [of "Suc (unat (su_attempt s))"] ok
    by (auto simp: sleep_ok_def attempts_left_def time_left_def split: super_phase.splits)
qed

lemma none_left: "sleep_ok s \<Longrightarrow> attempts_left s = 0 \<Longrightarrow> su_phase s \<in> {SU_Wait, SU_Done}"
  by (auto simp: sleep_ok_def attempts_left_def split: super_phase.splits)

section \<open>Refusals\<close>

lemma after_done: "su_phase s = SU_Done \<Longrightarrow> outcomes s xs = []"
proof (induction xs arbitrary: s)
  case (Cons x xs)
  have "su_phase (super_step s x) = SU_Done" using Cons.prems by (auto simp: super_step_def su_command_def split: super_step.split)
  then show ?case using Cons by (simp split: super_step.split)
qed simp

lemma ever_step: "su_ever (super_step s x) = (su_ever s \<or> (\<exists>r. x = ST_Outcome r True \<and> su_phase s = SU_Attempt))"
  by (auto simp: super_step_def su_outcome_def su_retry_def su_command_def su_emit_def Let_def
      split: super_step.split attempt_result.split end_reason.split super_phase.split viewer_cmd.split)

lemma refusal_final:
  assumes "outcomes s xs = ys @ (At_Failed f, c) # zs" "zs \<noteq> []"
  shows "retryable f \<and> (su_ever s \<or> (\<exists>(r, d) \<in> set (ys @ [(At_Failed f, c)]). d))"
  using assms
proof (induction xs arbitrary: s ys)
  case (Cons x xs)
  show ?case
  proof (cases "\<exists>r d. x = ST_Outcome r d \<and> su_phase s = SU_Attempt")
    case False
    then have "outcomes s (x # xs) = outcomes (super_step s x) xs" by (auto split: super_step.split)
    moreover have "su_ever (super_step s x) = su_ever s" using False ever_step [of s x] by blast
    ultimately show ?thesis using Cons.IH [of "super_step s x" ys] Cons.prems by auto
  next
    case True
    then obtain r d where x: "x = ST_Outcome r d" "su_phase s = SU_Attempt" by blast
    then have o: "(r, d) # outcomes (super_step s x) xs = ys @ (At_Failed f, c) # zs" using Cons.prems(1) by simp
    have ev: "su_ever (super_step s x) = (su_ever s \<or> d)" using ever_step [of s x] x by auto
    show ?thesis
    proof (cases ys)
      case Nil
      then have r: "r = At_Failed f" "d = c" "outcomes (super_step s x) xs \<noteq> []" using o Cons.prems(2) by auto
      then have "su_phase (super_step s x) \<noteq> SU_Done" using after_done by blast
      then have "(su_ever s \<or> d) \<and> retryable f"
        using x r by (auto simp: super_step_def su_outcome_def Let_def split: if_splits)
      then show ?thesis using r Nil by auto
    next
      case (Cons y ys')
      then have "y = (r, d)" "outcomes (super_step s x) xs = ys' @ (At_Failed f, c) # zs" using o by auto
      then have "retryable f \<and> (su_ever (super_step s x) \<or> (\<exists>(r, d) \<in> set (ys' @ [(At_Failed f, c)]). d))"
        using Cons.IH Cons.prems(2) by blast
      then show ?thesis using ev \<open>y = (r, d)\<close> Cons by auto
    qed
  qed
qed simp

section \<open>Claims\<close>

text \<open>Reconnecting is bounded: from any state the supervision can be in, as long as no session comes
  up and the user does not press Reconnect, at most nine further attempts are made and at most 121
  seconds are spent waiting between them; when nine were made the supervision waits for the user or
  has ended.\<close>

theorem reconnect_bounded:
  assumes "no_restart (super_run su_new ws) xs"
  shows "length (outcomes (super_run su_new ws) xs) \<le> 9 \<and> slept (super_run su_new ws) xs \<le> 121 \<and>
    (length (outcomes (super_run su_new ws) xs) = 9 \<longrightarrow>
       su_phase (super_run (super_run su_new ws) xs) \<in> {SU_Wait, SU_Done})"
proof -
  have "sleep_ok su_new" by (simp add: sleep_ok_def su_new_def)
  then have ok: "sleep_ok (super_run su_new ws)" by (rule super_run_ok)
  show ?thesis using run_left [OF ok assms] left_bound [OF ok] none_left by force
qed

definition lost_session :: "super_step list" where
  "lost_session = [ST_Outcome (At_Ended ConnectionLost) True]"

definition failing :: "nat \<Rightarrow> super_step list" where
  "failing n = concat (replicate n [ST_Slept, ST_Outcome (At_Failed FR_ServerUnavailable) False])"

lemma reconnect_bounded_witness:
  "let s = super_run su_new (lost_session @ failing 8 @ [ST_Command VK_RequestKeyframe]);
       xs = ST_Outcome (At_Failed FR_Timeout) False # failing 8
   in length (outcomes s xs) = 9 \<and> slept s xs = 121 \<and> su_phase (super_run s xs) \<in> {SU_Wait, SU_Done}"
proof -
  let ?ws = "lost_session @ failing 8 @ [ST_Command VK_RequestKeyframe]"
  let ?xs = "ST_Outcome (At_Failed FR_Timeout) False # failing 8"
  have h: "no_restart (super_run su_new ?ws) ?xs" by code_simp
  have l: "length (outcomes (super_run su_new ?ws) ?xs) = 9 \<and> slept (super_run su_new ?ws) ?xs = 121" by code_simp
  show ?thesis using reconnect_bounded [OF h] l by (simp add: Let_def)
qed

text \<open>A refusal is final: whatever follows the first request, another attempt after a failed one is made
  only when the failure was the loss of the server or the connection, a protocol error or a timeout,
  and only after a session had been established; a wrong password, a lockout, a ban or a declined
  request is never tried again.\<close>

theorem refused_not_retried:
  assumes "outcomes su_new xs = ys @ (At_Failed f, False) # zs" "zs \<noteq> []"
  shows "f \<in> {FR_ServerUnavailable, FR_ConnectionLost, FR_Protocol, FR_Timeout} \<and> (\<exists>r. (r, True) \<in> set ys)"
  using refusal_final [OF assms] by (auto simp: retryable_def su_new_def)

lemma refused_not_retried_witness:
  "FR_Timeout \<in> {FR_ServerUnavailable, FR_ConnectionLost, FR_Protocol, FR_Timeout} \<and>
   (\<exists>r. (r, True) \<in> set [(At_Ended ConnectionLost, True)]) \<and>
   outcomes su_new (lost_session @ [ST_Slept, ST_Outcome (At_Failed FR_WrongPassword) False, ST_Slept,
     ST_Outcome (At_Ended LocalClosed) True]) = [(At_Ended ConnectionLost, True), (At_Failed FR_WrongPassword, False)]"
proof -
  let ?xs = "lost_session @ [ST_Slept, ST_Outcome (At_Failed FR_Timeout) False, ST_Slept, ST_Outcome (At_Ended LocalClosed) True]"
  have o: "outcomes su_new ?xs = [(At_Ended ConnectionLost, True)] @ (At_Failed FR_Timeout, False) # [(At_Ended LocalClosed, True)]"
    by code_simp
  have w: "outcomes su_new (lost_session @ [ST_Slept, ST_Outcome (At_Failed FR_WrongPassword) False, ST_Slept,
     ST_Outcome (At_Ended LocalClosed) True]) = [(At_Ended ConnectionLost, True), (At_Failed FR_WrongPassword, False)]"
    by code_simp
  show ?thesis using refused_not_retried [OF o] w by simp
qed

end
