(* ===== verification/Db.thy ===== *)
theory Db
  imports Hub
begin

text \<open>
  The server's database, \<open>server/src/db.rs\<close>, as the tables the rest of the server reads and writes.
  Each statement either takes effect or fails and changes nothing; the flag of a call says whether it
  succeeds. \<open>now\<close> is the wall clock in seconds. The tables of nodes and of software versions are
  written for operators only and are kept to what is written into them.
\<close>

section \<open>Tables\<close>

record device_row =
  dr_hash :: "u8 list"
  dr_created :: int
  dr_seen :: int
  dr_version :: rstr

record session_row =
  sr_viewer :: rstr
  sr_host :: rstr
  sr_started :: int
  sr_ended :: "int option"
  sr_mode :: rstr
  sr_bytes :: int

record attempt_row =
  ar_ts :: int
  ar_ip :: rstr
  ar_kind :: rstr
  ar_success :: bool
  ar_device :: "rstr option"

record node_row =
  nr_started :: int
  nr_heartbeat :: int
  nr_version :: rstr

record db =
  db_devices :: "(rstr, device_row) hmap"
  db_sessions :: "(rstr, session_row) hmap"
  db_attempts :: "attempt_row list"
  db_nodes :: "(rstr, node_row) hmap"
  db_versions :: "(rstr, int) hmap"

definition db_empty :: db where
  "db_empty = \<lparr>db_devices = [], db_sessions = [], db_attempts = [], db_nodes = [], db_versions = []\<rparr>"

section \<open>Devices\<close>

text \<open>\<open>INSERT OR IGNORE\<close>: the number of rows inserted tells whether the id was free. \<open>None\<close> is a failed call.\<close>

definition insert_device :: "db \<Rightarrow> rstr \<Rightarrow> u8 list \<Rightarrow> int \<Rightarrow> bool \<Rightarrow> bool option \<times> db" where
  "insert_device d i h now ok =
     (if \<not> ok then (None, d)
      else if hm_contains (db_devices d) i then (Some False, d)
      else (Some True, d\<lparr>db_devices :=
        hm_insert i \<lparr>dr_hash = h, dr_created = now, dr_seen = now, dr_version = []\<rparr> (db_devices d)\<rparr>))"

definition device_hash :: "db \<Rightarrow> rstr \<Rightarrow> bool \<Rightarrow> u8 list option option" where
  "device_hash d i ok = (if ok then Some (map_option dr_hash (hm_get (db_devices d) i)) else None)"

text \<open>Two statements without a transaction: the second can fail after the first took effect.\<close>

definition touch_device :: "db \<Rightarrow> rstr \<Rightarrow> rstr \<Rightarrow> int \<Rightarrow> bool \<Rightarrow> bool \<Rightarrow> db" where
  "touch_device d i ver now ok1 ok2 =
     (if \<not> ok1 then d
      else let d1 = (case hm_get (db_devices d) i of
                       Some r \<Rightarrow> d\<lparr>db_devices := hm_insert i (r\<lparr>dr_seen := now, dr_version := ver\<rparr>) (db_devices d)\<rparr>
                     | None \<Rightarrow> d)
           in if \<not> ok2 \<or> hm_contains (db_versions d1) ver then d1
              else d1\<lparr>db_versions := hm_insert ver now (db_versions d1)\<rparr>)"

section \<open>Attempts and sessions\<close>

definition log_attempt :: "db \<Rightarrow> rstr \<Rightarrow> rstr \<Rightarrow> bool \<Rightarrow> rstr option \<Rightarrow> int \<Rightarrow> bool \<Rightarrow> db" where
  "log_attempt d a kind success device now ok =
     (if ok then d\<lparr>db_attempts := db_attempts d @
        [\<lparr>ar_ts = now, ar_ip = a, ar_kind = kind, ar_success = success, ar_device = device\<rparr>]\<rparr> else d)"

definition session_start :: "db \<Rightarrow> rstr \<Rightarrow> rstr \<Rightarrow> rstr \<Rightarrow> int \<Rightarrow> bool \<Rightarrow> db" where
  "session_start d i viewer host now ok =
     (if \<not> ok \<or> hm_contains (db_sessions d) i then d
      else d\<lparr>db_sessions := hm_insert i \<lparr>sr_viewer = viewer, sr_host = host, sr_started = now, sr_ended = None,
               sr_mode = lit ''pending'', sr_bytes = 0\<rparr> (db_sessions d)\<rparr>)"

definition session_end :: "db \<Rightarrow> rstr \<Rightarrow> rstr \<Rightarrow> u64 \<Rightarrow> int \<Rightarrow> bool \<Rightarrow> db" where
  "session_end d i m bytes now ok =
     (case (if ok then hm_get (db_sessions d) i else None) of
        None \<Rightarrow> d
      | Some r \<Rightarrow> d\<lparr>db_sessions :=
          hm_insert i (r\<lparr>sr_ended := Some now, sr_mode := m, sr_bytes := sint bytes\<rparr>) (db_sessions d)\<rparr>)"

section \<open>Upkeep\<close>

definition recent_failed :: "db \<Rightarrow> int \<Rightarrow> bool \<Rightarrow> nat" where
  "recent_failed d since ok =
     (if ok then length (filter (\<lambda>r. \<not> ar_success r \<and> since \<le> ar_ts r) (db_attempts d)) else 0)"

definition heartbeat :: "db \<Rightarrow> rstr \<Rightarrow> int \<Rightarrow> rstr \<Rightarrow> int \<Rightarrow> bool \<Rightarrow> db" where
  "heartbeat d node started_at ver now ok =
     (if ok then d\<lparr>db_nodes := hm_insert node \<lparr>nr_started = started_at, nr_heartbeat = now, nr_version = ver\<rparr> (db_nodes d)\<rparr>
      else d)"

definition purge_old :: "db \<Rightarrow> int \<Rightarrow> bool \<Rightarrow> bool \<Rightarrow> db" where
  "purge_old d now ok1 ok2 =
     (if \<not> ok1 then d
      else let d1 = d\<lparr>db_attempts := filter (\<lambda>r. \<not> ar_ts r < now - 30 * 86400) (db_attempts d)\<rparr>
           in if \<not> ok2 then d1
              else d1\<lparr>db_sessions := hm_retain
                (\<lambda>_ r. case sr_ended r of Some t \<Rightarrow> \<not> t < now - 90 * 86400 | None \<Rightarrow> True) (db_sessions d1)\<rparr>)"

section \<open>Facts\<close>

text \<open>A stored device keeps its secret: nothing replaces or removes the hash of a registered id.\<close>

definition keeps_hashes :: "db \<Rightarrow> db \<Rightarrow> bool" where
  "keeps_hashes d d' \<longleftrightarrow> (\<forall>i h. device_hash d i True = Some (Some h) \<longrightarrow> device_hash d' i True = Some (Some h))"

lemma hashes_refl [simp, intro]: "keeps_hashes d d"
  by (simp add: keeps_hashes_def)

lemma hashes_trans: "keeps_hashes d e \<Longrightarrow> keeps_hashes e f \<Longrightarrow> keeps_hashes d f"
  by (simp add: keeps_hashes_def)

lemma hashes_same_devices: "db_devices d' = db_devices d \<Longrightarrow> keeps_hashes d d'"
  by (simp add: keeps_hashes_def device_hash_def)

lemma hashes_insert: "keeps_hashes d (snd (insert_device d i h now ok))"
  by (auto simp: keeps_hashes_def insert_device_def device_hash_def hm_contains_def)

lemma db_devices_simps [simp]:
  "db_devices (log_attempt d a k s dv now ok) = db_devices d"
  "db_devices (session_start d i v hst now ok) = db_devices d"
  "db_devices (session_end d i m b now ok) = db_devices d"
  by (simp_all add: log_attempt_def session_start_def session_end_def split: option.split)

lemma hashes_touch: "keeps_hashes d (touch_device d i ver now ok1 ok2)"
  by (auto simp: keeps_hashes_def touch_device_def device_hash_def Let_def split: option.split if_splits)

lemma hashes_ops [intro]:
  "keeps_hashes d (log_attempt d a k s dv now ok)"
  "keeps_hashes d (session_start d i v hst now ok)"
  "keeps_hashes d (session_end d i m b now ok)"
  "keeps_hashes d (heartbeat d node st ver now ok)"
  "keeps_hashes d (purge_old d now ok1 ok2)"
  by (auto intro!: hashes_same_devices simp: heartbeat_def purge_old_def Let_def)

end
