(* ===== verification/Sock_Addr.thy ===== *)
theory Sock_Addr
  imports Ids "HOL-Library.Code_Target_Nat"
begin

text \<open>
  Socket addresses in text, as the standard library's \<open>str::parse::<SocketAddr>\<close> reads them: an IPv4
  address and a port, or a bracketed IPv6 address, optionally with a zone, and a port. A reader takes
  the input and gives what it read and the rest, or nothing; a reader that fails consumes nothing.
\<close>

section \<open>Numbers\<close>

definition to_digit :: "nat \<Rightarrow> uchar \<Rightarrow> nat option" where
  "to_digit radix c =
     (let d = (if 48 \<le> c \<and> c \<le> 57 then Some (c - 48)
               else if 97 \<le> c \<and> c \<le> 122 then Some (c - 87)
               else if 65 \<le> c \<and> c \<le> 90 then Some (c - 55) else None)
      in case d of Some v \<Rightarrow> if v < radix then Some v else None | None \<Rightarrow> None)"

fun digits_of :: "nat \<Rightarrow> rstr \<Rightarrow> nat list \<times> rstr" where
  "digits_of radix [] = ([], [])"
| "digits_of radix (c # cs) =
     (case to_digit radix c of
        None \<Rightarrow> ([], c # cs)
      | Some d \<Rightarrow> (let (ds, r) = digits_of radix cs in (d # ds, r)))"

definition digits_val :: "nat \<Rightarrow> nat list \<Rightarrow> nat" where
  "digits_val radix ds = foldl (\<lambda>v d. v * radix + d) 0 ds"

text \<open>\<open>most\<close> bounds the digits, \<open>below\<close> the value, \<open>zeros\<close> allows leading zeros.\<close>

definition read_number :: "nat \<Rightarrow> nat option \<Rightarrow> bool \<Rightarrow> nat \<Rightarrow> rstr \<Rightarrow> (nat \<times> rstr) option" where
  "read_number radix most zeros below s =
     (let (ds, r) = digits_of radix s
      in if ds = [] then None
         else if (case most of Some m \<Rightarrow> length ds > m | None \<Rightarrow> False) then None
         else if \<not> zeros \<and> hd ds = 0 \<and> length ds > 1 then None
         else if digits_val radix ds \<ge> below then None
         else Some (digits_val radix ds, r))"

definition read_char :: "uchar \<Rightarrow> rstr \<Rightarrow> rstr option" where
  "read_char c s = (case s of [] \<Rightarrow> None | x # xs \<Rightarrow> if x = c then Some xs else None)"

section \<open>Addresses\<close>

definition read_octet :: "rstr \<Rightarrow> rstr option" where
  "read_octet s = map_option snd (read_number 10 (Some 3) False 256 s)"

fun read_octets :: "nat \<Rightarrow> rstr \<Rightarrow> rstr option" where
  "read_octets 0 s = Some s"
| "read_octets (Suc n) s =
     (case read_char 46 s of
        None \<Rightarrow> None
      | Some s1 \<Rightarrow> (case read_octet s1 of None \<Rightarrow> None | Some s2 \<Rightarrow> read_octets n s2))"

definition read_ipv4 :: "rstr \<Rightarrow> rstr option" where
  "read_ipv4 s = (case read_octet s of None \<Rightarrow> None | Some s1 \<Rightarrow> read_octets 3 s1)"

text \<open>Up to \<open>left\<close> groups of an IPv6 address; the index only says whether a separator comes first.\<close>

definition after_sep :: "nat \<Rightarrow> rstr \<Rightarrow> rstr option" where
  "after_sep i s = (if i = 0 then Some s else read_char 58 s)"

fun read_groups :: "nat \<Rightarrow> nat \<Rightarrow> rstr \<Rightarrow> nat \<times> bool \<times> rstr" where
  "read_groups i 0 s = (i, False, s)"
| "read_groups i (Suc left) s =
     (case (if 0 < left then Option.bind (after_sep i s) read_ipv4 else None) of
        Some r \<Rightarrow> (i + 2, True, r)
      | None \<Rightarrow>
          (case Option.bind (after_sep i s) (read_number 16 (Some 4) True 65536) of
             None \<Rightarrow> (i, False, s)
           | Some (_, r) \<Rightarrow> read_groups (Suc i) left r))"

definition read_ipv6 :: "rstr \<Rightarrow> rstr option" where
  "read_ipv6 s =
     (let (n, v4, r) = read_groups 0 8 s
      in if n = 8 then Some r
         else if v4 then None
         else case Option.bind (read_char 58 r) (read_char 58) of
                None \<Rightarrow> None
              | Some r1 \<Rightarrow> (case read_groups 0 (8 - (n + 1)) r1 of (_, _, r2) \<Rightarrow> Some r2))"

definition read_port :: "rstr \<Rightarrow> (nat \<times> rstr) option" where
  "read_port s = Option.bind (read_char 58 s) (read_number 10 None True 65536)"

definition read_zone :: "rstr \<Rightarrow> rstr" where
  "read_zone s =
     (case Option.bind (read_char 37 s) (read_number 10 None True (2 ^ 32)) of
        Some (_, r) \<Rightarrow> r
      | None \<Rightarrow> s)"

definition socket_v4 :: "rstr \<Rightarrow> rstr option" where
  "socket_v4 s = map_option snd (Option.bind (read_ipv4 s) read_port)"

definition socket_v6 :: "rstr \<Rightarrow> rstr option" where
  "socket_v6 s =
     map_option snd (Option.bind (Option.bind (Option.bind (read_char 91 s) read_ipv6)
       (\<lambda>r. read_char 93 (read_zone r))) read_port)"

definition is_socket_addr :: "rstr \<Rightarrow> bool" where
  "is_socket_addr s \<longleftrightarrow> (case socket_v4 s of Some r \<Rightarrow> r = [] | None \<Rightarrow> socket_v6 s = Some [])"

lemma socket_addr_examples:
  "is_socket_addr (lit ''192.168.1.20:50000'')" "is_socket_addr (lit ''[::1]:80'')"
  "is_socket_addr (lit ''[fe80::1%12]:443'')" "is_socket_addr (lit ''[::ffff:10.0.0.1]:0080'')"
  "\<not> is_socket_addr (lit ''192.168.1.20'')" "\<not> is_socket_addr (lit ''192.168.01.20:1'')"
  "\<not> is_socket_addr (lit ''256.1.1.1:1'')" "\<not> is_socket_addr (lit ''1.1.1.1:65536'')"
  "\<not> is_socket_addr (lit ''[1:2:3:4:5:6:7:8::]:1'')" "\<not> is_socket_addr (lit ''localhost:80'')"
  by code_simp+

end
