(* ===== verification/Ws.thy ===== *)
theory Ws
  imports Db Sock_Addr Wire
begin

text \<open>
  The server's WebSocket endpoint (\<open>server/src/ws.rs\<close>), its upkeep task (\<open>server/src/lib.rs\<close>) and
  its admin endpoint (\<open>server/src/admin.rs\<close>) over the hub and the database.

  A connection is a task that reads one message after the other; any number of them run side by side, and
  with them the upkeep and the shutdown. One step runs one task from one point where it waits to the
  next. The clocks, the random draws, a new session id, whether a statement of the database succeeds and
  whether a relay peer takes a message in time come with the step. SHA-256 and the text of an IP
  address are parameters. What is offered to an outbox is appended to \<open>sv_out\<close>.
\<close>

lemma device_id_parse_code [code]:
  "device_id_parse input =
     (let digits = normalize_digits (filter (\<lambda>c. \<not> is_separator c) input)
      in if str_len digits = DEVICE_ID_LEN \<and> list_all (\<lambda>b. is_ascii_digit (unat b)) (as_bytes digits) \<and>
            (case digits of [] \<Rightarrow> True | c # _ \<Rightarrow> c \<noteq> 48)
         then Some digits else None)"
  by (simp add: device_id_parse_def list_all_iff Let_def split: list.split)

section \<open>State\<close>

record ws_params =
  wsp_pepper :: rstr
  wsp_token :: rstr
  wsp_sha :: "u8 list \<Rightarrow> u8 list"
  wsp_ip_text :: "ip \<Rightarrow> rstr"
  wsp_version :: rstr

datatype ws_phase = WP_Auth instant | WP_Main | WP_Ending session_id | WP_Leaving

record ws_task =
  wt_ip :: ip
  wt_out :: outbox
  wt_kick :: kick
  wt_phase :: ws_phase
  wt_id :: rstr
  wt_conn :: u64
  wt_window_start :: instant
  wt_window_count :: u32
  wt_last_presence :: instant

record server =
  sv_hub :: hub
  sv_db :: db
  sv_tasks :: "(nat, ws_task) hmap"
  sv_out :: "(outbox \<times> server_to_client) list"
  sv_kicked :: "kick list"
  sv_stopping :: bool
  sv_errors :: u64
  sv_tick :: u64
  sv_last_bytes :: u64
  sv_relay_bps :: u64
  sv_started :: int

record ws_env =
  we_now :: instant
  we_wall :: int
  we_db :: "nat \<Rightarrow> bool"
  we_draws :: "(device_id \<times> u8 list \<times> bool) list"
  we_sid :: session_id
  we_stalled :: bool

definition server_new :: "nat \<Rightarrow> u32 \<Rightarrow> int \<Rightarrow> server" where
  "server_new mx mbps wall =
     \<lparr>sv_hub = hub_new mx mbps, sv_db = db_empty, sv_tasks = [], sv_out = [], sv_kicked = [], sv_stopping = False,
      sv_errors = 0, sv_tick = 0, sv_last_bytes = 0, sv_relay_bps = 0, sv_started = wall\<rparr>"

definition reply :: "server \<Rightarrow> ws_task \<Rightarrow> server_to_client \<Rightarrow> server" where
  "reply s t m = s\<lparr>sv_out := sv_out s @ [(wt_out t, m)]\<rparr>"

definition hash_secret :: "ws_params \<Rightarrow> u8 list \<Rightarrow> u8 list" where
  "hash_secret p secret = wsp_sha p (as_bytes (wsp_pepper p) @ as_bytes (lit '':device:'') @ secret)"

definition valid_name :: "rstr \<Rightarrow> bool" where
  "valid_name n \<longleftrightarrow> n \<noteq> [] \<and> str_len n \<le> MAX_NAME_LEN \<and> \<not> list_ex is_control n"

fun mode_str :: "mode \<Rightarrow> rstr" where
  "mode_str Pending = lit ''pending''"
| "mode_str Relay = lit ''relay''"
| "mode_str Direct = lit ''direct''"

text \<open>\<open>finish\<close>: the peers are told and the end is recorded.\<close>

definition finish_one :: "ws_env \<Rightarrow> ended \<Rightarrow> server \<Rightarrow> server" where
  "finish_one e x s =
     s\<lparr>sv_out := sv_out s @ notify_ended x,
       sv_db := session_end (sv_db s) (to_hex (en_session x)) (mode_str (en_mode x)) (en_bytes x) (we_wall e) (we_db e 0)\<rparr>"

definition finish_all :: "ws_env \<Rightarrow> ended list \<Rightarrow> server \<Rightarrow> server" where
  "finish_all e xs s = fold (finish_one e) xs s"

section \<open>Before authentication\<close>

definition AUTH_DEADLINE :: duration where
  "AUTH_DEADLINE = secs 45"

definition set_task :: "server \<Rightarrow> nat \<Rightarrow> ws_task \<Rightarrow> server" where
  "set_task s cid t = s\<lparr>sv_tasks := hm_insert cid t (sv_tasks s)\<rparr>"

definition drop_task :: "server \<Rightarrow> nat \<Rightarrow> server" where
  "drop_task s cid = s\<lparr>sv_tasks := hm_remove cid (sv_tasks s)\<rparr>"

definition ws_accept :: "server \<Rightarrow> nat \<Rightarrow> ip \<Rightarrow> outbox \<Rightarrow> kick \<Rightarrow> ws_env \<Rightarrow> server" where
  "ws_accept s cid a out k e =
     (let (banned, g) = ip_banned_for_auth (sv_hub s) a (we_now e);
          s1 = s\<lparr>sv_hub := g\<rparr>;
          t = \<lparr>wt_ip = a, wt_out = out, wt_kick = k, wt_phase = WP_Auth (we_now e + AUTH_DEADLINE), wt_id = [],
               wt_conn = 0, wt_window_start = 0, wt_window_count = 0, wt_last_presence = 0\<rparr>
      in if banned then reply s1 t (S_AuthFailed (lit ''temporarily blocked''))
         else set_task s1 cid t)"

definition REGISTER_TRIES :: nat where
  "REGISTER_TRIES = 20"

fun register_loop :: "ws_params \<Rightarrow> int \<Rightarrow> (device_id \<times> u8 list \<times> bool) list \<Rightarrow> db \<Rightarrow> (device_id \<times> u8 list) option \<times> db" where
  "register_loop p wall [] d = (None, d)"
| "register_loop p wall ((i, secret, ok) # xs) d =
     (case insert_device d i (hash_secret p secret) wall ok of
        (Some True, d1) \<Rightarrow> (Some (i, secret), d1)
      | (Some False, d1) \<Rightarrow> register_loop p wall xs d1
      | (None, d1) \<Rightarrow> (None, d1))"

definition ws_register :: "ws_params \<Rightarrow> server \<Rightarrow> nat \<Rightarrow> ws_task \<Rightarrow> ws_env \<Rightarrow> server" where
  "ws_register p s cid t e =
     (let (allowed, g) = allow_register (sv_hub s) (wt_ip t) (we_now e);
          s1 = s\<lparr>sv_hub := g\<rparr>
      in if \<not> allowed then drop_task (reply s1 t (S_AuthFailed (lit ''rate limited''))) cid
         else let (r, d) = register_loop p (we_wall e) (take REGISTER_TRIES (we_draws e)) (sv_db s1)
              in case r of
                   None \<Rightarrow> drop_task (s1\<lparr>sv_db := d\<rparr>) cid
                 | Some (i, secret) \<Rightarrow>
                     reply (s1\<lparr>sv_db := log_attempt d (wsp_ip_text p (wt_ip t)) (lit ''register'') True (Some i)
                                 (we_wall e) (we_db e 0)\<rparr>) t (S_Registered i secret))"

definition auth_failure :: "server \<Rightarrow> nat \<Rightarrow> ws_task \<Rightarrow> ws_env \<Rightarrow> server" where
  "auth_failure s cid t e =
     drop_task (s\<lparr>sv_hub := snd (record_auth_failure (sv_hub s) (wt_ip t) (we_now e))\<rparr>) cid"

text \<open>The secret check compares with a dummy hash when the id is unknown or the lookup fails.\<close>

definition secret_ok :: "ws_params \<Rightarrow> db \<Rightarrow> ws_env \<Rightarrow> rstr \<Rightarrow> u8 list \<Rightarrow> bool" where
  "secret_ok p d e i secret =
     (let h = (case device_hash d i (we_db e 0) of Some r \<Rightarrow> r | None \<Rightarrow> None);
          expected = (case h of Some x \<Rightarrow> x | None \<Rightarrow> replicate 32 0)
      in h \<noteq> None \<and> expected = hash_secret p secret)"

definition auth_input_ok :: "rstr \<Rightarrow> rstr \<Rightarrow> rstr list \<Rightarrow> bool" where
  "auth_input_ok name ver cands \<longleftrightarrow>
     valid_name name \<and> str_len ver \<le> 32 \<and> length cands \<le> MAX_CANDIDATES \<and> list_all is_socket_addr cands"

text \<open>
  Entering the main loop. \<open>Instant::now() - Duration::from_secs(60)\<close> panics when the monotonic clock
  shows less than a minute; the task is then gone, what it did to the hub stays.
\<close>

definition ws_attach ::
  "ws_params \<Rightarrow> server \<Rightarrow> nat \<Rightarrow> ws_task \<Rightarrow> ws_env \<Rightarrow> rstr \<Rightarrow> rstr \<Rightarrow> rstr \<Rightarrow> rstr list \<Rightarrow> bool \<Rightarrow> server" where
  "ws_attach p s cid t e i ver name cands inc =
     (let (n, g) = next_conn_id (sv_hub s);
          (k, g1) = attach g i \<lparr>conn_id = n, conn_tx = wt_out t, conn_kick = wt_kick t, conn_name = name,
                      conn_ip = wt_ip t, conn_candidates = cands, incoming_enabled = inc\<rparr>;
          s1 = s\<lparr>sv_hub := g1, sv_kicked := (case k of Some x \<Rightarrow> x # sv_kicked s | None \<Rightarrow> sv_kicked s),
                 sv_db := touch_device (sv_db s) i ver (we_wall e) (we_db e 2) (we_db e 3)\<rparr>;
          s2 = reply s1 t (S_AuthOk (wsp_ip_text p (wt_ip t)))
      in if we_now e < secs 60 then drop_task s2 cid
         else set_task s2 cid (t\<lparr>wt_phase := WP_Main, wt_id := i, wt_conn := n, wt_window_start := we_now e,
                wt_window_count := 0, wt_last_presence := we_now e - secs 60\<rparr>))"

definition ws_auth ::
  "ws_params \<Rightarrow> server \<Rightarrow> nat \<Rightarrow> ws_task \<Rightarrow> ws_env \<Rightarrow> rstr \<Rightarrow> u8 list \<Rightarrow> rstr \<Rightarrow> rstr \<Rightarrow> rstr list \<Rightarrow> bool \<Rightarrow> server" where
  "ws_auth p s cid t e i secret ver name cands inc =
     (let good = secret_ok p (sv_db s) e i secret \<and> auth_input_ok name ver cands;
          s1 = (if good then s else s\<lparr>sv_hub := snd (record_auth_failure (sv_hub s) (wt_ip t) (we_now e))\<rparr>);
          s2 = s1\<lparr>sv_db := log_attempt (sv_db s1) (wsp_ip_text p (wt_ip t)) (lit ''auth'') good (Some i)
                     (we_wall e) (we_db e 1)\<rparr>
      in if good then ws_attach p s2 cid t e i ver name cands inc
         else drop_task (reply s2 t (S_AuthFailed (lit ''invalid credentials''))) cid)"

section \<open>The main loop\<close>

text \<open>At most 60 messages other than relayed frames in one window.\<close>

definition FLOOD_LIMIT :: u32 where
  "FLOOD_LIMIT = 60"

definition is_relay :: "client_to_server \<Rightarrow> bool" where
  "is_relay m \<longleftrightarrow> (case m of C_Relay _ _ \<Rightarrow> True | _ \<Rightarrow> False)"

definition flood_check :: "ws_task \<Rightarrow> client_to_server \<Rightarrow> instant \<Rightarrow> ws_task option" where
  "flood_check t m now =
     (if is_relay m then Some t
      else let t1 = (if duration_since now (wt_window_start t) > secs 1
                     then t\<lparr>wt_window_start := now, wt_window_count := 0\<rparr> else t);
               t2 = t1\<lparr>wt_window_count := wt_window_count t1 + 1\<rparr>
           in if wt_window_count t2 > FLOOD_LIMIT then None else Some t2)"

definition leave :: "server \<Rightarrow> nat \<Rightarrow> ws_task \<Rightarrow> server" where
  "leave s cid t = set_task s cid (t\<lparr>wt_phase := WP_Leaving\<rparr>)"

definition ws_presence :: "server \<Rightarrow> nat \<Rightarrow> ws_task \<Rightarrow> ws_env \<Rightarrow> rstr list \<Rightarrow> server" where
  "ws_presence s cid t e ids =
     (if length ids > 64 \<or> duration_since (we_now e) (wt_last_presence t) < secs 2 then set_task s cid t
      else reply (set_task s cid (t\<lparr>wt_last_presence := we_now e\<rparr>)) t (S_Presence (presence (sv_hub s) ids)))"

definition ws_connect :: "server \<Rightarrow> nat \<Rightarrow> ws_task \<Rightarrow> ws_env \<Rightarrow> rstr \<Rightarrow> server" where
  "ws_connect s cid t e target =
     (let (r, g) = hub_connect (sv_hub s) (wt_id t) target (we_sid e) (we_now e);
          s1 = set_task (s\<lparr>sv_hub := g\<rparr>) cid t
      in case r of
           Inl f \<Rightarrow> reply s1 t (S_ConnectFailed target f)
         | Inr st \<Rightarrow>
             (let s2 = (case st_replaced st of Some x \<Rightarrow> finish_one e x s1 | None \<Rightarrow> s1);
                  s3 = s2\<lparr>sv_db := session_start (sv_db s2) (to_hex (st_session st)) (wt_id t)
                             (filter (\<lambda>c. c \<noteq> 32) target) (we_wall e) (we_db e 1),
                          sv_out := sv_out s2 @ [(st_host_tx st,
                             S_Incoming (st_session st) (wt_id t) (st_viewer_name st) (st_same_network st))]\<rparr>
              in reply s3 t (S_SessionReady (st_session st) (st_host_name st) (st_host_candidates st) (st_same_network st))))"

text \<open>The bytes of a frame go to the peer unless it stalls; a stalled peer costs the session.\<close>

definition ws_relay :: "server \<Rightarrow> nat \<Rightarrow> ws_task \<Rightarrow> ws_env \<Rightarrow> session_id \<Rightarrow> u8 list \<Rightarrow> server" where
  "ws_relay s cid t e sid data =
     (if length data > MAX_FRAME then leave s cid t
      else let (r, g) = relay_route (sv_hub s) sid (wt_id t) (length data) (we_now e);
               s1 = s\<lparr>sv_hub := g\<rparr>
           in case r of
                NoRoute \<Rightarrow> set_task s1 cid t
              | RoutePanic \<Rightarrow> drop_task s1 cid
              | Routed out _ \<Rightarrow>
                  if we_stalled e then set_task s1 cid (t\<lparr>wt_phase := WP_Ending sid\<rparr>)
                  else (set_task s1 cid t)\<lparr>sv_out := sv_out s1 @ [(out, S_Relay sid data)]\<rparr>)"

definition ws_end_session :: "ws_params \<Rightarrow> server \<Rightarrow> nat \<Rightarrow> ws_task \<Rightarrow> ws_env \<Rightarrow> session_id \<Rightarrow> bool \<Rightarrow> server" where
  "ws_end_session p s cid t e sid auth_failed =
     (let s1 = (if auth_failed
                then let (r, g) = report_password_failure (sv_hub s) sid (wt_id t) (we_now e)
                     in case r of
                          None \<Rightarrow> s\<lparr>sv_hub := g\<rparr>
                        | Some (v, _) \<Rightarrow> s\<lparr>sv_hub := g, sv_db := log_attempt (sv_db s) (wsp_ip_text p (wt_ip t))
                            (lit ''password'') False (Some v) (we_wall e) (we_db e 1)\<rparr>
                else s)
      in set_task s1 cid (t\<lparr>wt_phase := WP_Ending sid\<rparr>))"

definition ws_message :: "ws_params \<Rightarrow> server \<Rightarrow> nat \<Rightarrow> ws_task \<Rightarrow> ws_env \<Rightarrow> client_to_server \<Rightarrow> server" where
  "ws_message p s cid t0 e m =
     (case flood_check t0 m (we_now e) of
        None \<Rightarrow> leave s cid t0
      | Some t \<Rightarrow>
          (case m of
             C_Ping \<Rightarrow> reply (set_task s cid t) t S_Pong
           | C_SetIncomingEnabled v \<Rightarrow> set_task (s\<lparr>sv_hub := update_incoming (sv_hub s) (wt_id t) (wt_conn t) v\<rparr>) cid t
           | C_QueryPresence ids \<Rightarrow> ws_presence s cid t e ids
           | C_Connect target \<Rightarrow> ws_connect s cid t e target
           | C_Relay sid data \<Rightarrow> ws_relay s cid t e sid data
           | C_SessionMode sid direct \<Rightarrow> set_task (s\<lparr>sv_hub := set_mode (sv_hub s) sid (wt_id t) direct (we_now e)\<rparr>) cid t
           | C_EndSession sid auth_failed \<Rightarrow> ws_end_session p s cid t e sid auth_failed
           | C_Register _ \<Rightarrow> leave s cid t
           | C_Auth _ _ _ _ _ _ \<Rightarrow> leave s cid t))"

section \<open>Steps of a task\<close>

text \<open>What a waiting task gets: a message (\<open>None\<close> does not decode), the end of the stream or of its
  patience, the kick of a newer connection, the shutdown.\<close>

datatype ws_input = WI_Msg "client_to_server option" | WI_Closed | WI_Kick | WI_Shutdown

definition ws_auth_input :: "ws_params \<Rightarrow> server \<Rightarrow> nat \<Rightarrow> ws_task \<Rightarrow> ws_env \<Rightarrow> ws_input \<Rightarrow> server" where
  "ws_auth_input p s cid t e x =
     (case x of
        WI_Msg (Some (C_Register _)) \<Rightarrow> ws_register p s cid t e
      | WI_Msg (Some (C_Auth i secret ver name cands inc)) \<Rightarrow> ws_auth p s cid t e i secret ver name cands inc
      | WI_Msg _ \<Rightarrow> auth_failure s cid t e
      | WI_Closed \<Rightarrow> drop_task s cid
      | _ \<Rightarrow> s)"

definition ws_main_input :: "ws_params \<Rightarrow> server \<Rightarrow> nat \<Rightarrow> ws_task \<Rightarrow> ws_env \<Rightarrow> ws_input \<Rightarrow> server" where
  "ws_main_input p s cid t e x =
     (case x of
        WI_Msg (Some m) \<Rightarrow> ws_message p s cid t e m
      | WI_Msg None \<Rightarrow> leave (s\<lparr>sv_errors := sv_errors s + 1\<rparr>) cid t
      | WI_Closed \<Rightarrow> leave s cid t
      | WI_Kick \<Rightarrow>
          if wt_kick t \<in> set (sv_kicked s)
          then leave (reply (s\<lparr>sv_kicked := removeAll (wt_kick t) (sv_kicked s)\<rparr>) t
                 (S_Error (lit ''signed in from another location''))) cid t
          else s
      | WI_Shutdown \<Rightarrow> if sv_stopping s then leave s cid t else s)"

text \<open>The rest of a handler, and the way out of the main loop.\<close>

definition ws_continue :: "server \<Rightarrow> nat \<Rightarrow> ws_task \<Rightarrow> ws_env \<Rightarrow> server" where
  "ws_continue s cid t e =
     (case wt_phase t of
        WP_Ending sid \<Rightarrow>
          (let (x, g) = end_by (sv_hub s) sid (wt_id t)
           in finish_all e (case x of Some y \<Rightarrow> [y] | None \<Rightarrow> []) (set_task (s\<lparr>sv_hub := g\<rparr>) cid (t\<lparr>wt_phase := WP_Main\<rparr>)))
      | WP_Leaving \<Rightarrow>
          (let (xs, g) = detach (sv_hub s) (wt_id t) (wt_conn t)
           in finish_all e xs (drop_task (s\<lparr>sv_hub := g\<rparr>) cid))
      | _ \<Rightarrow> s)"

section \<open>Upkeep and administration\<close>

definition housekeeping :: "ws_params \<Rightarrow> server \<Rightarrow> ws_env \<Rightarrow> server" where
  "housekeeping p s e =
     (let k = sv_tick s + 1; (xs, g) = hub_sweep (sv_hub s) (we_now e);
          s1 = finish_all e xs (s\<lparr>sv_hub := g, sv_tick := k\<rparr>);
          total = relay_bytes (metrics (sv_hub s1));
          s2 = s1\<lparr>sv_relay_bps := (total - sv_last_bytes s1) div 5, sv_last_bytes := total\<rparr>;
          s3 = (if k mod 12 = 0 then s2\<lparr>sv_db := heartbeat (sv_db s2) (lit ''primary'') (sv_started s2) (wsp_version p)
                  (we_wall e) (we_db e 1)\<rparr> else s2)
      in if k mod 720 = 1 then s3\<lparr>sv_db := purge_old (sv_db s3) (we_wall e) (we_db e 2) (we_db e 3)\<rparr> else s3)"

datatype admin_answer = AA_Locked | AA_Unauthorized | AA_Stats hub_stats nat

text \<open>\<open>header\<close> is the text of the Authorization header, if there is one.\<close>

definition bearer :: "rstr option \<Rightarrow> rstr" where
  "bearer h =
     (case h of
        None \<Rightarrow> []
      | Some v \<Rightarrow> if take 7 v = lit ''Bearer '' then drop 7 v else [])"

definition admin_stats :: "ws_params \<Rightarrow> server \<Rightarrow> ip \<Rightarrow> rstr option \<Rightarrow> ws_env \<Rightarrow> admin_answer \<times> server" where
  "admin_stats p s a h e =
     (let (l, g) = admin_locked (sv_hub s) a (we_now e)
      in if l then (AA_Locked, s\<lparr>sv_hub := g\<rparr>)
         else if as_bytes (bearer h) \<noteq> as_bytes (wsp_token p)
         then (AA_Unauthorized, s\<lparr>sv_hub := admin_failure g a (we_now e)\<rparr>)
         else (AA_Stats (stats g) (recent_failed (sv_db s) (we_wall e - 3600) (we_db e 0)), s\<lparr>sv_hub := g\<rparr>))"

section \<open>The server\<close>

datatype server_event =
    SE_Accept nat ip outbox kick ws_env
  | SE_Input nat ws_input ws_env
  | SE_Continue nat ws_env
  | SE_Upkeep ws_env
  | SE_Admin ip "rstr option" ws_env
  | SE_Shutdown

fun server_apply :: "ws_params \<Rightarrow> server \<Rightarrow> server_event \<Rightarrow> server" where
  "server_apply p s (SE_Accept cid a out k e) = ws_accept s cid a out k e"
| "server_apply p s (SE_Input cid x e) =
     (case hm_get (sv_tasks s) cid of
        None \<Rightarrow> s
      | Some t \<Rightarrow>
          (case wt_phase t of
             WP_Auth _ \<Rightarrow> ws_auth_input p s cid t e x
           | WP_Main \<Rightarrow> ws_main_input p s cid t e x
           | _ \<Rightarrow> s))"
| "server_apply p s (SE_Continue cid e) =
     (case hm_get (sv_tasks s) cid of None \<Rightarrow> s | Some t \<Rightarrow> ws_continue s cid t e)"
| "server_apply p s (SE_Upkeep e) = housekeeping p s e"
| "server_apply p s (SE_Admin a h e) = snd (admin_stats p s a h e)"
| "server_apply p s SE_Shutdown = s\<lparr>sv_stopping := True\<rparr>"

fun event_env :: "server_event \<Rightarrow> ws_env option" where
  "event_env (SE_Accept _ _ _ _ e) = Some e"
| "event_env (SE_Input _ _ e) = Some e"
| "event_env (SE_Continue _ e) = Some e"
| "event_env (SE_Upkeep e) = Some e"
| "event_env (SE_Admin _ _ e) = Some e"
| "event_env SE_Shutdown = None"

text \<open>Connection handles are new, and so is the random id a session would get.\<close>

fun server_ok :: "server \<Rightarrow> server_event \<Rightarrow> bool" where
  "server_ok s (SE_Accept cid a out k e) = (hm_get (sv_tasks s) cid = None)"
| "server_ok s (SE_Input cid x e) = (hm_get (sessions (sv_hub s)) (we_sid e) = None)"
| "server_ok s _ = True"

definition server_run :: "ws_params \<Rightarrow> server \<Rightarrow> server_event list \<Rightarrow> server" where
  "server_run p s es = foldl (server_apply p) s es"

fun server_oks :: "ws_params \<Rightarrow> server \<Rightarrow> server_event list \<Rightarrow> bool" where
  "server_oks p s [] = True"
| "server_oks p s (x # xs) = (server_ok s x \<and> server_oks p (server_apply p s x) xs)"

end
