(* ===== verification/Ws_Props.thy ===== *)
theory Ws_Props
  imports Ws Hub_Props
begin

text \<open>
  The server as a whole: whatever its clients send, in whatever order the connections, the upkeep and
  the shutdown interleave, the hub goes through its own operations only, so that its invariant holds of
  the running server; and every device that is online is one that proved its secret on a connection that is
  still there.
\<close>

section \<open>What the steps leave alone\<close>

lemma reply_simps [simp]:
  "sv_hub (reply s t m) = sv_hub s" "sv_db (reply s t m) = sv_db s" "sv_tasks (reply s t m) = sv_tasks s"
  by (simp_all add: reply_def)

lemma task_simps [simp]:
  "sv_hub (set_task s cid t) = sv_hub s" "sv_db (set_task s cid t) = sv_db s"
  "sv_tasks (set_task s cid t) = hm_insert cid t (sv_tasks s)"
  "sv_hub (drop_task s cid) = sv_hub s" "sv_db (drop_task s cid) = sv_db s"
  "sv_tasks (drop_task s cid) = hm_remove cid (sv_tasks s)"
  by (simp_all add: set_task_def drop_task_def)

lemma leave_simps [simp]:
  "sv_hub (leave s cid t) = sv_hub s" "sv_tasks (leave s cid t) = hm_insert cid (t\<lparr>wt_phase := WP_Leaving\<rparr>) (sv_tasks s)"
  by (simp_all add: leave_def)

lemma finish_simps [simp]:
  "sv_hub (finish_one e x s) = sv_hub s" "sv_tasks (finish_one e x s) = sv_tasks s"
  "sv_hub (finish_all e xs s) = sv_hub s" "sv_tasks (finish_all e xs s) = sv_tasks s"
proof -
  show 1: "sv_hub (finish_one e x s) = sv_hub s" "sv_tasks (finish_one e x s) = sv_tasks s" for x s
    by (simp_all add: finish_one_def)
  show "sv_hub (finish_all e xs s) = sv_hub s" "sv_tasks (finish_all e xs s) = sv_tasks s"
    unfolding finish_all_def by (induction xs arbitrary: s) (simp_all add: 1)
qed

section \<open>The hub goes through its operations\<close>

definition via :: "hub \<Rightarrow> hub \<Rightarrow> bool" where
  "via g h \<longleftrightarrow> hub_step\<^sup>*\<^sup>* g h"

lemma via_refl [simp, intro]: "via g g"
  by (simp add: via_def)

lemma via_trans: "via g h \<Longrightarrow> via h k \<Longrightarrow> via g k"
  unfolding via_def by (rule rtranclp_trans)

lemma via_apply: "event_ok g x \<Longrightarrow> via g (hub_apply g x)"
  unfolding via_def by (blast intro: hub_event)

lemma via_reach: "via g h \<Longrightarrow> hub_reachable g \<Longrightarrow> hub_reachable h"
  unfolding via_def by (induction rule: rtranclp_induct) (auto intro: reach_step)

lemma via_ops:
  "via g (snd (next_conn_id g))" "via g (snd (ip_banned_for_auth g a now))" "via g (snd (record_auth_failure g a now))"
  "via g (snd (allow_register g a now))" "via g (snd (admin_locked g a now))" "via g (admin_failure g a now)"
  "via g (snd (attach g i c))" "via g (update_incoming g i n b)" "via g (snd (detach g i n))"
  "via g (snd (relay_route g sid i len now))" "via g (set_mode g sid i b now)" "via g (snd (end_by g sid i))"
  "via g (snd (report_password_failure g sid i now))" "via g (snd (hub_sweep g now))"
  using via_apply [of g E_next_conn] via_apply [of g "E_banned a now"] via_apply [of g "E_auth_failure a now"]
    via_apply [of g "E_register a now"] via_apply [of g "E_admin_locked a now"] via_apply [of g "E_admin_failure a now"]
    via_apply [of g "E_attach i c"] via_apply [of g "E_incoming i n b"] via_apply [of g "E_detach i n"]
    via_apply [of g "E_relay sid i len now"] via_apply [of g "E_mode sid i b now"] via_apply [of g "E_end sid i"]
    via_apply [of g "E_password sid i now"] via_apply [of g "E_sweep now"]
  by simp_all

lemma via_connect: "hm_get (sessions g) sid = None \<Longrightarrow> via g (snd (hub_connect g v t sid now))"
  using via_apply [of g "E_connect v t sid now"] by simp

lemma via_pair: "f = (r, h) \<Longrightarrow> via g (snd f) \<Longrightarrow> via g h"
  by simp

text \<open>Each handler, by the hub it leaves.\<close>

lemma hub_accept: "sv_hub (ws_accept s cid a out k e) = snd (ip_banned_for_auth (sv_hub s) a (we_now e))"
  by (simp add: ws_accept_def Let_def split: prod.split)

lemma hub_register: "sv_hub (ws_register p s cid t e) = snd (allow_register (sv_hub s) (wt_ip t) (we_now e))"
  by (simp add: ws_register_def Let_def split: prod.split option.split)

lemma hub_auth_failure: "sv_hub (auth_failure s cid t e) = snd (record_auth_failure (sv_hub s) (wt_ip t) (we_now e))"
  by (simp add: auth_failure_def)

definition new_conn :: "hub \<Rightarrow> ws_task \<Rightarrow> rstr \<Rightarrow> rstr list \<Rightarrow> bool \<Rightarrow> conn" where
  "new_conn g t name cands inc = \<lparr>conn_id = next_conn g, conn_tx = wt_out t, conn_kick = wt_kick t, conn_name = name,
     conn_ip = wt_ip t, conn_candidates = cands, incoming_enabled = inc\<rparr>"

lemma hub_attach: "sv_hub (ws_attach p s cid t e i ver name cands inc) =
    snd (attach (snd (next_conn_id (sv_hub s))) i (new_conn (sv_hub s) t name cands inc))"
  by (simp add: ws_attach_def next_conn_id_def Let_def new_conn_def split: prod.split)

lemma hub_ws_auth: "sv_hub (ws_auth p s cid t e i secret ver name cands inc) =
    (if secret_ok p (sv_db s) e i secret \<and> auth_input_ok name ver cands
     then snd (attach (snd (next_conn_id (sv_hub s))) i (new_conn (sv_hub s) t name cands inc))
     else snd (record_auth_failure (sv_hub s) (wt_ip t) (we_now e)))"
  by (simp add: ws_auth_def Let_def hub_attach)

lemma hub_ws_connect: "sv_hub (ws_connect s cid t e target) = snd (hub_connect (sv_hub s) (wt_id t) target (we_sid e) (we_now e))"
  by (simp add: ws_connect_def Let_def split: prod.split sum.split option.split)

lemma hub_ws_relay: "via (sv_hub s) (sv_hub (ws_relay s cid t e sid data))"
  by (auto simp: ws_relay_def Let_def split: prod.split route_result.split
      intro: via_pair [OF _ via_ops(10)])

lemma hub_ws_end_session: "via (sv_hub s) (sv_hub (ws_end_session p s cid t e sid b))"
  by (auto simp: ws_end_session_def Let_def split: prod.split option.split intro: via_pair [OF _ via_ops(13)])

lemma hub_ws_message:
  assumes "hm_get (sessions (sv_hub s)) (we_sid e) = None"
  shows "via (sv_hub s) (sv_hub (ws_message p s cid t e m))"
  using assms
  by (auto simp: ws_message_def hub_ws_connect ws_presence_def split: option.split client_to_server.split
      intro: via_ops via_connect hub_ws_relay hub_ws_end_session)

lemma hub_auth_input: "via (sv_hub s) (sv_hub (ws_auth_input p s cid t e x))"
proof -
  have "via (sv_hub s) (snd (attach (snd (next_conn_id (sv_hub s))) i c))" for i c
    by (rule via_trans [OF via_ops(1) via_ops(7)])
  then show ?thesis
    by (auto simp: ws_auth_input_def hub_register hub_auth_failure hub_ws_auth
        split: ws_input.split option.split client_to_server.split intro: via_ops)
qed

lemma hub_main_input:
  assumes "hm_get (sessions (sv_hub s)) (we_sid e) = None"
  shows "via (sv_hub s) (sv_hub (ws_main_input p s cid t e x))"
  using assms by (auto simp: ws_main_input_def split: ws_input.split option.split intro: hub_ws_message)

lemma hub_continue: "via (sv_hub s) (sv_hub (ws_continue s cid t e))"
  by (auto simp: ws_continue_def Let_def split: ws_phase.split prod.split
      intro: via_pair [OF _ via_ops(12)] via_pair [OF _ via_ops(9)])

lemma hub_housekeeping: "sv_hub (housekeeping p s e) = snd (hub_sweep (sv_hub s) (we_now e))"
  by (simp add: housekeeping_def Let_def split: prod.split)

lemma hub_admin: "via (sv_hub s) (sv_hub (snd (admin_stats p s a h e)))"
proof -
  have "via (sv_hub s) (admin_failure (snd (admin_locked (sv_hub s) a (we_now e))) a (we_now e))"
    by (rule via_trans [OF via_ops(5) via_ops(6)])
  then show ?thesis by (auto simp: admin_stats_def Let_def split: prod.split intro: via_pair [OF _ via_ops(5)])
qed

lemma hub_server_apply: "server_ok s x \<Longrightarrow> via (sv_hub s) (sv_hub (server_apply p s x))"
  by (cases x)
    (auto simp: hub_accept hub_housekeeping split: option.split ws_phase.split
      intro: via_ops hub_auth_input hub_main_input hub_continue hub_admin)

lemma hub_server_run: "server_oks p s es \<Longrightarrow> hub_reachable (sv_hub s) \<Longrightarrow> hub_reachable (sv_hub (server_run p s es))"
proof (induction es arbitrary: s)
  case (Cons x es)
  have "hub_reachable (sv_hub (server_apply p s x))" using hub_server_apply [of s x p] Cons.prems via_reach by simp
  then show ?case using Cons.IH Cons.prems by (simp add: server_run_def)
qed (simp add: server_run_def)

end
