(* ===== verification/Online.thy ===== *)
theory Online
  imports Ws_Props
begin

text \<open>
  Who is online: every entry of the hub's presence table belongs to a connection that still runs and that
  proved the secret stored for the device.
\<close>

section \<open>What the operations do to presence\<close>

lemma end_each_keeps: "devices (snd (end_each g sids)) = devices g \<and> max_relay_mbps (snd (end_each g sids)) = max_relay_mbps g"
proof (induction sids arbitrary: g)
  case (Cons sid sids)
  have "max_relay_mbps (snd (end_locked g sid)) = max_relay_mbps g" by (simp add: end_locked_def split: option.split)
  then show ?case using Cons by (simp only: snd_end_each_Cons end_locked_keeps)
qed simp

lemma replace_own_mbps: "max_relay_mbps (snd (replace_own g v)) = max_relay_mbps g"
  by (simp add: replace_own_def end_locked_def split: option.split)

lemma admit_keeps:
  "devices (snd (admit g v a vn tid host sid now)) = devices g \<and>
   max_relay_mbps (snd (admit g v a vn tid host sid now)) = max_relay_mbps g"
proof -
  obtain r g1 where r: "replace_own g v = (r, g1)" by force
  then have "devices g1 = devices g" "max_relay_mbps g1 = max_relay_mbps g"
    using replace_own_keeps [of g v] replace_own_mbps [of g v] by simp_all
  then show ?thesis by (simp add: admit_def r Let_def reject_def)
qed

lemma connect_keeps:
  "devices (snd (hub_connect g v t sid now)) = devices g \<and> max_relay_mbps (snd (hub_connect g v t sid now)) = max_relay_mbps g"
proof -
  have b: "devices (snd (connect_banned g v a now)) = devices g" for g a
    using same_core_banned [of g v a now] by (simp add: same_core_def)
  have p: "connect_banned g v a now = (r, h) \<Longrightarrow> devices h = devices g \<and> max_relay_mbps h = max_relay_mbps g" for g a r h
    using b [of g a] connect_banned_result(2) [of g v a now] by simp
  show ?thesis
    by (auto simp: hub_connect_def Let_def admit_keeps reject_def count_enumeration_def dest!: p split: option.split prod.split)
qed

lemma apply_mbps: "max_relay_mbps (hub_apply g x) = max_relay_mbps g"
proof (cases x)
  case (E_relay sid i len now)
  then show ?thesis by (simp add: relay_route_def Let_def split: option.split)
next
  case (E_detach i n)
  then show ?thesis by (simp add: detach_def end_locked_def Let_def split: option.split)
qed (simp_all add: next_conn_id_def ip_banned_for_auth_def record_auth_failure_def allow_register_def
    admin_locked_def admin_failure_def attach_def update_incoming_def set_mode_def end_by_def end_locked_def
    report_password_failure_def snd_hub_sweep end_each_keeps connect_keeps Let_def split: prod.split option.split)

lemma via_mbps: "via g h \<Longrightarrow> max_relay_mbps h = max_relay_mbps g"
  unfolding via_def by (induction rule: rtranclp_induct) (auto elim!: hub_step.cases simp: apply_mbps)

text \<open>Only \<open>attach\<close>, \<open>detach\<close> and \<open>update_incoming\<close> touch the presence table.\<close>

lemma devices_kept [simp]:
  "devices (snd (next_conn_id g)) = devices g" "devices (snd (ip_banned_for_auth g a now)) = devices g"
  "devices (snd (record_auth_failure g a now)) = devices g" "devices (snd (allow_register g a now)) = devices g"
  "devices (snd (admin_locked g a now)) = devices g" "devices (admin_failure g a now) = devices g"
  "devices (snd (relay_route g sid i len now)) = devices g" "devices (set_mode g sid i b now) = devices g"
  "devices (snd (end_by g sid i)) = devices g" "devices (snd (report_password_failure g sid i now)) = devices g"
  "devices (snd (hub_sweep g now)) = devices g" "devices (snd (hub_connect g v t sid now)) = devices g"
  by (simp_all add: next_conn_id_def ip_banned_for_auth_def record_auth_failure_def allow_register_def
    admin_locked_def admin_failure_def set_mode_def end_by_def end_locked_def relay_route_def
    report_password_failure_def snd_hub_sweep end_each_keeps connect_keeps Let_def split: prod.split option.split)

lemma devices_attach: "hm_get (devices (snd (attach g i c))) j = (if j = i then Some c else hm_get (devices g) j)"
  by (simp add: attach_def)

lemma devices_detach: "hm_get (devices (snd (detach g i n))) j =
    (if j = i \<and> map_option conn_id (hm_get (devices g) i) = Some n then None else hm_get (devices g) j)"
  by (auto simp: detach_def Let_def end_locked_def split: option.split)

section \<open>Holders\<close>

text \<open>The connection \<open>cid\<close> runs and is the one the entry \<open>c\<close> of device \<open>i\<close> stands for.\<close>

definition holder :: "server \<Rightarrow> nat \<Rightarrow> rstr \<Rightarrow> conn \<Rightarrow> bool" where
  "holder s cid i c \<longleftrightarrow>
     (case hm_get (sv_tasks s) cid of
        None \<Rightarrow> False
      | Some t \<Rightarrow> (case wt_phase t of WP_Auth _ \<Rightarrow> False | _ \<Rightarrow> True) \<and> wt_id t = i \<and> wt_conn t = conn_id c \<and>
          wt_out t = conn_tx c \<and> wt_ip t = conn_ip c)"

definition same_task :: "ws_task \<Rightarrow> ws_task \<Rightarrow> bool" where
  "same_task t t' \<longleftrightarrow> (case wt_phase t' of WP_Auth _ \<Rightarrow> False | _ \<Rightarrow> True) \<and> wt_id t' = wt_id t \<and>
     wt_conn t' = wt_conn t \<and> wt_out t' = wt_out t \<and> wt_ip t' = wt_ip t"

text \<open>\<open>same_conn\<close>: two entries that differ at most in whether the device takes connections.\<close>

definition same_conn :: "conn \<Rightarrow> conn \<Rightarrow> bool" where
  "same_conn c c' \<longleftrightarrow> (\<exists>b. c' = c\<lparr>incoming_enabled := b\<rparr>)"

lemma same_conn_refl [simp, intro]: "same_conn c c"
  unfolding same_conn_def by (rule exI [of _ "incoming_enabled c"]) simp

lemma holder_same_conn: "same_conn c c' \<Longrightarrow> holder s cid i c' = holder s cid i c"
  by (auto simp: holder_def same_conn_def split: option.split)

text \<open>
  What a step may do: every entry of the table after it was there before, up to that flag, and its
  holder still holds it.
\<close>

definition presence_kept :: "server \<Rightarrow> server \<Rightarrow> bool" where
  "presence_kept s s' \<longleftrightarrow>
     (\<forall>i c'. hm_get (devices (sv_hub s')) i = Some c' \<longrightarrow>
        (\<exists>c. hm_get (devices (sv_hub s)) i = Some c \<and> same_conn c c' \<and> (\<forall>cid. holder s cid i c \<longrightarrow> holder s' cid i c')))"

lemma kept_same_devices:
  assumes "devices (sv_hub s') = devices (sv_hub s)"
    and "\<And>cid i c. hm_get (devices (sv_hub s)) i = Some c \<Longrightarrow> holder s cid i c \<Longrightarrow> holder s' cid i c"
  shows "presence_kept s s'"
  using assms unfolding presence_kept_def by (metis same_conn_refl)

lemma kept_same_tasks: "devices (sv_hub s') = devices (sv_hub s) \<Longrightarrow> sv_tasks s' = sv_tasks s \<Longrightarrow> presence_kept s s'"
  by (rule kept_same_devices) (simp_all add: holder_def)

lemma holder_update:
  assumes "hm_get (sv_tasks s) cid = Some t" "same_task t t'" "sv_tasks s' = hm_insert cid t' (sv_tasks s)"
    and "holder s x i c"
  shows "holder s' x i c"
  using assms by (auto simp: holder_def same_task_def split: if_splits)

lemma kept_update:
  assumes "hm_get (sv_tasks s) cid = Some t" "same_task t t'" "sv_tasks s' = hm_insert cid t' (sv_tasks s)"
    and "devices (sv_hub s') = devices (sv_hub s)"
  shows "presence_kept s s'"
  using kept_same_devices [OF assms(4)] holder_update [OF assms(1-3)] by blast

lemma kept_drop_auth:
  assumes "hm_get (sv_tasks s) cid = Some t" "wt_phase t = WP_Auth d" "sv_tasks s' = hm_remove cid (sv_tasks s)"
    and "devices (sv_hub s') = devices (sv_hub s)"
  shows "presence_kept s s'"
  using assms(4) by (rule kept_same_devices) (use assms(1-3) in \<open>auto simp: holder_def split: if_splits\<close>)

section \<open>The handlers\<close>

lemma flood_same: "flood_check t m now = Some t' \<Longrightarrow> wt_phase t = WP_Main \<Longrightarrow> same_task t t' \<and> wt_phase t' = WP_Main"
  by (auto simp: flood_check_def same_task_def Let_def split: if_splits)

lemma same_task_trans: "same_task t u \<Longrightarrow> same_task u v \<Longrightarrow> same_task t v"
  by (simp add: same_task_def)

lemma kept_set:
  assumes "hm_get (sv_tasks s) cid = Some t" "same_task t t'"
    and "sv_tasks s' = hm_insert cid t' (sv_tasks s)" "devices (sv_hub s') = devices (sv_hub s)"
  shows "presence_kept s s'"
  using assms by (rule kept_update)

lemma kept_incoming:
  assumes "hm_get (sv_tasks s) cid = Some t" "same_task t t'"
  shows "presence_kept s (set_task (s\<lparr>sv_hub := update_incoming (sv_hub s) i n b\<rparr>) cid t')"
  unfolding presence_kept_def
proof (intro allI impI)
  fix j c'
  let ?s = "set_task (s\<lparr>sv_hub := update_incoming (sv_hub s) i n b\<rparr>) cid t'"
  assume "hm_get (devices (sv_hub ?s)) j = Some c'"
  then have "\<exists>c. hm_get (devices (sv_hub s)) j = Some c \<and> same_conn c c'"
    by (auto simp: update_incoming_def same_conn_def split: option.splits if_splits) (metis same_conn_def same_conn_refl)+
  then obtain c where c: "hm_get (devices (sv_hub s)) j = Some c" "same_conn c c'" by blast
  have "holder ?s x j c" if "holder s x j c" for x
    by (rule holder_update [OF assms _ that]) simp
  then show "\<exists>c. hm_get (devices (sv_hub s)) j = Some c \<and> same_conn c c' \<and> (\<forall>x. holder s x j c \<longrightarrow> holder ?s x j c')"
    using c holder_same_conn [OF c(2)] by blast
qed

lemma kept_message:
  assumes t0: "hm_get (sv_tasks s) cid = Some t0" "wt_phase t0 = WP_Main" and mbps: "max_relay_mbps (sv_hub s) \<noteq> 0"
  shows "presence_kept s (ws_message p s cid t0 e m)"
proof (cases "flood_check t0 m (we_now e)")
  case None
  then show ?thesis using kept_set [OF t0(1), of "t0\<lparr>wt_phase := WP_Leaving\<rparr>"]
    by (simp add: ws_message_def same_task_def)
next
  case (Some t)
  then have t: "same_task t0 t" "wt_phase t = WP_Main" using flood_same t0(2) by blast+
  have go: "presence_kept s s'" if "sv_tasks s' = hm_insert cid t' (sv_tasks s)" "devices (sv_hub s') = devices (sv_hub s)"
    "same_task t t'" for s' t'
    using kept_set [OF t0(1) same_task_trans [OF t(1) that(3)] that(1,2)] .
  have tt: "same_task t t" "same_task t (t\<lparr>wt_phase := WP_Leaving\<rparr>)" "same_task t (t\<lparr>wt_phase := WP_Ending sid\<rparr>)"
    "same_task t (t\<lparr>wt_last_presence := now\<rparr>)" for sid now
    using t(2) by (simp_all add: same_task_def)
  note M = ws_message_def [of p s cid t0 e m, unfolded Some option.case]
  show ?thesis
  proof (cases m)
    case (C_Relay sid data)
    have np: "fst (relay_route (sv_hub s) sid i n now) \<noteq> RoutePanic" for i n now
      using relay_rate_pos [OF mbps] by (auto simp: relay_route_def Let_def split: option.split)
    have k: "devices h = devices (sv_hub s)" if "relay_route (sv_hub s) sid (wt_id t) n now = (r, h)" for n now r h
      using devices_kept(7) [of "sv_hub s" sid "wt_id t" n now] that by simp
    show ?thesis
    proof (cases "length data > MAX_FRAME")
      case True
      then show ?thesis using go [OF _ _ tt(2)] unfolding M by (simp add: C_Relay ws_relay_def)
    next
      case False
      obtain r h where r: "relay_route (sv_hub s) sid (wt_id t) (length data) (we_now e) = (r, h)" by force
      have "r \<noteq> RoutePanic" using np [of "wt_id t" "length data" "we_now e"] r by simp
      then show ?thesis
        using go [OF _ _ tt(1)] go [OF _ _ tt(3)] False k [OF r]
        unfolding M by (cases r) (simp_all add: C_Relay ws_relay_def r Let_def)
    qed
  next
    case (C_EndSession sid b)
    have "devices h = devices (sv_hub s)" if "report_password_failure (sv_hub s) sid (wt_id t) (we_now e) = (r, h)" for r h
      using devices_kept(10) [of "sv_hub s" sid "wt_id t" "we_now e"] that by simp
    then have "devices (sv_hub (ws_end_session p s cid t e sid b)) = devices (sv_hub s)"
      by (auto simp: ws_end_session_def Let_def split: prod.split option.split)
    moreover have "sv_tasks (ws_end_session p s cid t e sid b) = hm_insert cid (t\<lparr>wt_phase := WP_Ending sid\<rparr>) (sv_tasks s)"
      by (auto simp: ws_end_session_def Let_def split: prod.split option.split)
    ultimately show ?thesis using go [OF _ _ tt(3)] unfolding M by (simp add: C_EndSession)
  next
    case (C_Connect target)
    have "sv_tasks (ws_connect s cid t e target) = hm_insert cid t (sv_tasks s)"
      by (simp add: ws_connect_def Let_def split: prod.split sum.split option.split)
    then show ?thesis using go [OF _ _ tt(1)] unfolding M by (simp add: C_Connect hub_ws_connect)
  next
    case (C_QueryPresence ids)
    then show ?thesis using go [OF _ _ tt(1)] go [OF _ _ tt(4)] unfolding M by (simp add: C_QueryPresence ws_presence_def)
  next
    case (C_SetIncomingEnabled b)
    then show ?thesis using kept_incoming [OF t0(1) t(1)] unfolding M by (simp add: C_SetIncomingEnabled)
  qed (use go [OF _ _ tt(1)] go [OF _ _ tt(2)] M in \<open>simp_all\<close>)
qed

lemma kept_main_input:
  assumes t: "hm_get (sv_tasks s) cid = Some t" "wt_phase t = WP_Main" and mbps: "max_relay_mbps (sv_hub s) \<noteq> 0"
  shows "presence_kept s (ws_main_input p s cid t e x)"
proof -
  have l: "presence_kept s s'" if "sv_tasks s' = hm_insert cid (t\<lparr>wt_phase := WP_Leaving\<rparr>) (sv_tasks s)"
    "devices (sv_hub s') = devices (sv_hub s)" for s'
    using kept_set [OF t(1) _ that] by (simp add: same_task_def)
  have n: "presence_kept s s" by (rule kept_same_tasks) simp_all
  show ?thesis
    using kept_message [OF t mbps] l n by (cases x) (auto simp: ws_main_input_def split: option.split)
qed

lemma kept_continue:
  assumes t: "hm_get (sv_tasks s) cid = Some t"
  shows "presence_kept s (ws_continue s cid t e)"
proof (cases "wt_phase t")
  case (WP_Ending sid)
  obtain x g where g: "end_by (sv_hub s) sid (wt_id t) = (x, g)" by force
  have "devices g = devices (sv_hub s)" using devices_kept(9) [of "sv_hub s" sid "wt_id t"] g by simp
  then show ?thesis using kept_set [OF t, of "t\<lparr>wt_phase := WP_Main\<rparr>"]
    by (simp add: ws_continue_def WP_Ending g same_task_def)
next
  case WP_Leaving
  obtain xs g where g: "detach (sv_hub s) (wt_id t) (wt_conn t) = (xs, g)" by force
  let ?s = "ws_continue s cid t e"
  have d: "hm_get (devices (sv_hub ?s)) j =
      (if j = wt_id t \<and> map_option conn_id (hm_get (devices (sv_hub s)) (wt_id t)) = Some (wt_conn t) then None
       else hm_get (devices (sv_hub s)) j)" for j
    using devices_detach [of "sv_hub s" "wt_id t" "wt_conn t" j] g by (simp add: ws_continue_def WP_Leaving)
  have k: "sv_tasks ?s = hm_remove cid (sv_tasks s)" by (simp add: ws_continue_def WP_Leaving g)
  show ?thesis
    unfolding presence_kept_def
  proof (intro allI impI)
    fix i c assume c: "hm_get (devices (sv_hub ?s)) i = Some c"
    then have old: "hm_get (devices (sv_hub s)) i = Some c" "\<not> (i = wt_id t \<and> conn_id c = wt_conn t)"
      unfolding d by (auto split: if_splits)
    have "holder ?s x i c" if "holder s x i c" for x
      using that old(2) t by (auto simp: holder_def k split: option.splits)
    then show "\<exists>c'. hm_get (devices (sv_hub s)) i = Some c' \<and> same_conn c' c \<and> (\<forall>x. holder s x i c' \<longrightarrow> holder ?s x i c)"
      using old(1) by blast
  qed
qed (simp_all add: ws_continue_def kept_same_tasks)

section \<open>Proofs of secrets\<close>

text \<open>
  The connection \<open>cid\<close> presented, for the device \<open>i\<close>, a secret whose hash was the stored one, with the
  name and the candidates that the entry \<open>c\<close> shows.
\<close>

definition proven :: "ws_params \<Rightarrow> server \<Rightarrow> server_event list \<Rightarrow> nat \<Rightarrow> rstr \<Rightarrow> conn \<Rightarrow> bool" where
  "proven p s0 es cid i c \<longleftrightarrow>
     (\<exists>es1 es2 e secret ver inc.
        es = es1 @ SE_Input cid (WI_Msg (Some (C_Auth i secret ver (conn_name c) (conn_candidates c) inc))) e # es2 \<and>
        device_hash (sv_db (server_run p s0 es1)) i True = Some (Some (hash_secret p secret)) \<and>
        auth_input_ok (conn_name c) ver (conn_candidates c))"

lemma proven_more: "proven p s0 es cid i c \<Longrightarrow> same_conn c c' \<Longrightarrow> proven p s0 (es @ [x]) cid i c'"
proof -
  assume a: "proven p s0 es cid i c" and "same_conn c c'"
  then have n: "conn_name c' = conn_name c" "conn_candidates c' = conn_candidates c" by (auto simp: same_conn_def)
  from a obtain es1 es2 e secret ver inc where
    "es = es1 @ SE_Input cid (WI_Msg (Some (C_Auth i secret ver (conn_name c) (conn_candidates c) inc))) e # es2"
    and "device_hash (sv_db (server_run p s0 es1)) i True = Some (Some (hash_secret p secret))"
    and "auth_input_ok (conn_name c) ver (conn_candidates c)"
    unfolding proven_def by blast
  then show ?thesis unfolding proven_def n by (intro exI [of _ es1] exI [of _ "es2 @ [x]"]) auto
qed

definition enters :: "ws_params \<Rightarrow> server \<Rightarrow> server_event \<Rightarrow> server \<Rightarrow> bool" where
  "enters p s x s' \<longleftrightarrow>
     (\<exists>cid i secret ver inc e c.
        x = SE_Input cid (WI_Msg (Some (C_Auth i secret ver (conn_name c) (conn_candidates c) inc))) e \<and>
        secret_ok p (sv_db s) e i secret \<and> auth_input_ok (conn_name c) ver (conn_candidates c) \<and>
        (\<forall>j. hm_get (devices (sv_hub s')) j = (if j = i then Some c else hm_get (devices (sv_hub s)) j)) \<and>
        holder s' cid i c \<and> (\<forall>y j c'. holder s y j c' \<longrightarrow> holder s' y j c'))"

lemma enters_attach:
  assumes t: "hm_get (sv_tasks s) cid = Some t" "wt_phase t = WP_Auth d" and now: "secs 60 \<le> we_now e"
    and ok: "secret_ok p (sv_db s) e i secret" "auth_input_ok name ver cands"
  shows "enters p s (SE_Input cid (WI_Msg (Some (C_Auth i secret ver name cands inc))) e)
    (ws_auth p s cid t e i secret ver name cands inc)"
proof -
  let ?s = "ws_auth p s cid t e i secret ver name cands inc" and ?c = "new_conn (sv_hub s) t name cands inc"
  have n: "conn_name ?c = name" "conn_candidates ?c = cands" by (simp_all add: new_conn_def)
  have dv: "hm_get (devices (sv_hub ?s)) j = (if j = i then Some ?c else hm_get (devices (sv_hub s)) j)" for j
    using ok by (simp add: hub_ws_auth devices_attach)
  obtain t' where t': "sv_tasks ?s = hm_insert cid t' (sv_tasks s)" "wt_phase t' = WP_Main" "wt_id t' = i"
      "wt_conn t' = next_conn (sv_hub s)" "wt_out t' = wt_out t" "wt_ip t' = wt_ip t"
    using ok now by (simp add: ws_auth_def ws_attach_def next_conn_id_def Let_def split: prod.split)
  have "holder ?s cid i ?c" by (simp add: holder_def t' new_conn_def)
  moreover have "holder ?s y j c'" if "holder s y j c'" for y j c'
    using that t by (auto simp: holder_def t'(1))
  ultimately show ?thesis
    unfolding enters_def using ok dv n by (intro exI [of _ cid] exI [of _ i] exI [of _ secret] exI [of _ ver]
      exI [of _ inc] exI [of _ e] exI [of _ ?c]) simp
qed

lemma auth_input_kept:
  assumes t: "hm_get (sv_tasks s) cid = Some t" "wt_phase t = WP_Auth d" and now: "secs 60 \<le> we_now e"
  shows "presence_kept s (ws_auth_input p s cid t e x) \<or> enters p s (SE_Input cid x e) (ws_auth_input p s cid t e x)"
proof -
  have drop: "presence_kept s s'" if "sv_tasks s' = hm_remove cid (sv_tasks s)" "devices (sv_hub s') = devices (sv_hub s)" for s'
    using kept_drop_auth [OF t that] .
  have same: "presence_kept s s'" if "sv_tasks s' = sv_tasks s" "devices (sv_hub s') = devices (sv_hub s)" for s'
    using kept_same_tasks [OF that(2,1)] .
  have fail: "presence_kept s (auth_failure s cid t e)"
    by (rule drop) (simp_all add: auth_failure_def)
  have reg: "presence_kept s (ws_register p s cid t e)"
  proof -
    have "sv_tasks (ws_register p s cid t e) \<in> {sv_tasks s, hm_remove cid (sv_tasks s)}"
      by (simp add: ws_register_def Let_def split: prod.split option.split)
    then show ?thesis using drop same by (auto simp: hub_register)
  qed
  have auth: "presence_kept s (ws_auth p s cid t e i secret ver name cands inc) \<or>
      enters p s (SE_Input cid (WI_Msg (Some (C_Auth i secret ver name cands inc))) e) (ws_auth p s cid t e i secret ver name cands inc)"
    for i secret ver name cands inc
  proof (cases "secret_ok p (sv_db s) e i secret \<and> auth_input_ok name ver cands")
    case True
    then show ?thesis using enters_attach [OF t now] by blast
  next
    case False
    then have "presence_kept s (ws_auth p s cid t e i secret ver name cands inc)"
      by (intro drop) (auto simp: ws_auth_def Let_def)
    then show ?thesis by blast
  qed
  show ?thesis
    using fail reg auth drop same by (auto simp: ws_auth_input_def split: ws_input.split option.split client_to_server.split)
qed

lemma step_kept:
  assumes ok: "server_ok s x" and mbps: "max_relay_mbps (sv_hub s) \<noteq> 0"
    and now: "\<forall>e. event_env x = Some e \<longrightarrow> secs 60 \<le> we_now e"
  shows "presence_kept s (server_apply p s x) \<or> enters p s x (server_apply p s x)"
proof (cases x)
  case (SE_Accept cid a out k e)
  have "holder (ws_accept s cid a out k e) y i c" if "holder s y i c" for y i c
    using that ok SE_Accept by (auto simp: ws_accept_def holder_def Let_def split: prod.split option.splits)
  then have "presence_kept s (ws_accept s cid a out k e)" by (intro kept_same_devices) (simp_all add: hub_accept)
  then show ?thesis by (simp add: SE_Accept)
next
  case (SE_Input cid y e)
  have now: "secs 60 \<le> we_now e" using now SE_Input by simp
  show ?thesis
    using auth_input_kept [OF _ _ now] kept_main_input [OF _ _ mbps] kept_same_tasks [of s s]
    by (auto simp: SE_Input split: option.split ws_phase.split)
next
  case (SE_Continue cid e)
  then show ?thesis using kept_continue kept_same_tasks [of s s] by (auto split: option.split)
next
  case (SE_Upkeep e)
  have "sv_tasks (housekeeping p s e) = sv_tasks s" by (simp add: housekeeping_def Let_def split: prod.split)
  then show ?thesis using kept_same_tasks [of "housekeeping p s e" s] by (simp add: SE_Upkeep hub_housekeeping)
next
  case (SE_Admin a h e)
  have "devices g = devices (sv_hub s)" if "admin_locked (sv_hub s) a (we_now e) = (l, g)" for l g
    using devices_kept(5) [of "sv_hub s" a "we_now e"] that by simp
  then have "devices (sv_hub (snd (admin_stats p s a h e))) = devices (sv_hub s)"
    "sv_tasks (snd (admin_stats p s a h e)) = sv_tasks s"
    by (auto simp: admin_stats_def Let_def split: prod.split)
  then show ?thesis using kept_same_tasks by (simp add: SE_Admin)
qed (simp add: kept_same_tasks)

end
