(* ===== verification/Server_Props.thy ===== *)
theory Server_Props
  imports Online
begin

text \<open>
  The guarantees of the running server, with concrete runs: one that satisfies the hypotheses, and two that
  show what happens outside them.
\<close>

lemma server_run_snoc: "server_run p s (es @ [x]) = server_apply p (server_run p s es) x"
  by (simp add: server_run_def)

lemma server_oks_snoc: "server_oks p s (es @ [x]) = (server_oks p s es \<and> server_ok (server_run p s es) x)"
  by (induction es arbitrary: s) (simp_all add: server_run_def)

lemma server_mbps: "server_oks p s es \<Longrightarrow> max_relay_mbps (sv_hub (server_run p s es)) = max_relay_mbps (sv_hub s)"
proof (induction es arbitrary: s)
  case (Cons x es)
  then show ?case using via_mbps [OF hub_server_apply [of s x p]] by (simp add: server_run_def)
qed (simp add: server_run_def)

definition clock_past :: "duration \<Rightarrow> server_event list \<Rightarrow> bool" where
  "clock_past d es \<longleftrightarrow> list_all (\<lambda>x. case event_env x of Some e \<Rightarrow> d \<le> we_now e | None \<Rightarrow> True) es"

lemma online_proven:
  assumes "mbps \<noteq> 0" and "server_oks p (server_new mx mbps wall) es" and "clock_past (secs 60) es"
    and "hm_get (devices (sv_hub (server_run p (server_new mx mbps wall) es))) i = Some c"
  shows "\<exists>cid. holder (server_run p (server_new mx mbps wall) es) cid i c \<and> proven p (server_new mx mbps wall) es cid i c"
  using assms(2-4)
proof (induction es arbitrary: i c rule: rev_induct)
  case Nil
  then show ?case by (simp add: server_run_def server_new_def hub_new_def)
next
  case (snoc x es)
  let ?start = "server_new mx mbps wall"
  let ?s = "server_run p ?start es" and ?s' = "server_run p ?start (es @ [x])"
  have "server_oks p ?start es \<and> server_ok ?s x" using snoc.prems(1) unfolding server_oks_snoc .
  then have ok: "server_oks p ?start es" "server_ok ?s x" by blast+
  have now: "clock_past (secs 60) es" "\<forall>e. event_env x = Some e \<longrightarrow> secs 60 \<le> we_now e"
    using snoc.prems(2) by (auto simp: clock_past_def split: option.splits)
  have m: "max_relay_mbps (sv_hub ?s) \<noteq> 0" using server_mbps [OF ok(1)] assms(1) by (simp add: server_new_def hub_new_def)
  have s': "?s' = server_apply p ?s x" by (rule server_run_snoc)
  note IH = snoc.IH [OF ok(1) now(1)]
  from step_kept [OF ok(2) m now(2), of p] show ?case
  proof
    assume "presence_kept ?s (server_apply p ?s x)"
    then obtain c0 where c0: "hm_get (devices (sv_hub ?s)) i = Some c0" "same_conn c0 c"
        "\<And>cid. holder ?s cid i c0 \<Longrightarrow> holder ?s' cid i c"
      using snoc.prems(3) unfolding presence_kept_def s' by metis
    from IH [OF c0(1)] obtain cid where "holder ?s cid i c0" "proven p ?start es cid i c0" by blast
    then show ?thesis using c0 proven_more by blast
  next
    assume "enters p ?s x (server_apply p ?s x)"
    then obtain cid j secret ver inc e d where en:
        "x = SE_Input cid (WI_Msg (Some (C_Auth j secret ver (conn_name d) (conn_candidates d) inc))) e"
        "secret_ok p (sv_db ?s) e j secret" "auth_input_ok (conn_name d) ver (conn_candidates d)"
        "\<And>k. hm_get (devices (sv_hub ?s')) k = (if k = j then Some d else hm_get (devices (sv_hub ?s)) k)"
        "holder ?s' cid j d" "\<And>y k c'. holder ?s y k c' \<Longrightarrow> holder ?s' y k c'"
      unfolding enters_def s' by blast
    show ?thesis
    proof (cases "i = j")
      case True
      then have "c = d" using snoc.prems(3) en(4) [of i] by simp
      have "device_hash (sv_db ?s) j True = Some (Some (hash_secret p secret))"
        using en(2) by (auto simp: secret_ok_def device_hash_def Let_def split: option.splits if_splits)
      then have "proven p ?start (es @ [x]) cid j d"
        unfolding proven_def using en(1,3) by (intro exI [of _ es] exI [of _ "[]"]) auto
      then show ?thesis using en(5) True \<open>c = d\<close> by blast
    next
      case False
      then have "hm_get (devices (sv_hub ?s)) i = Some c" using snoc.prems(3) en(4) [of i] by simp
      from IH [OF this] obtain y where "holder ?s y i c" "proven p ?start es y i c" by blast
      then show ?thesis using en(6) proven_more [OF _ same_conn_refl] by blast
    qed
  qed
qed

section \<open>The flood limit\<close>

text \<open>How many control messages a connection lets through, until it closes, of what arrives when.\<close>

fun let_through :: "ws_task \<Rightarrow> (client_to_server \<times> instant) list \<Rightarrow> nat" where
  "let_through t [] = 0"
| "let_through t ((m, now) # xs) =
     (case flood_check t m now of
        None \<Rightarrow> 0
      | Some t' \<Rightarrow> (if is_relay m then 0 else 1) + let_through t' xs)"

lemma count_succ: "unat (n :: u32) \<le> 60 \<Longrightarrow> unat (n + 1) = Suc (unat n)"
  by (simp add: unat_word_ariths(1))

lemma let_through_bound:
  assumes "unat (wt_window_count t) \<le> 60" and "\<forall>(m, now) \<in> set xs. now \<le> e"
  shows "let_through t xs + unat (wt_window_count t) \<le> 60 + 60 * ((e - wt_window_start t) div secs 1)"
  using assms
proof (induction xs arbitrary: t)
  case (Cons x xs)
  obtain m now where x: "x = (m, now)" by force
  then have now: "now \<le> e" and later: "\<forall>(m, now) \<in> set xs. now \<le> e" using Cons.prems(2) by auto
  let ?w = "wt_window_start t" and ?n = "wt_window_count t"
  have s1: "0 < secs 1" by (simp add: secs_def)
  show ?case
  proof (cases "is_relay m")
    case True
    then show ?thesis using Cons.IH [OF Cons.prems(1) later] by (simp add: x flood_check_def)
  next
    case relay: False
    show ?thesis
    proof (cases "now - ?w > secs 1")
      case True
      let ?t = "t\<lparr>wt_window_start := now, wt_window_count := 1\<rparr>"
      have "flood_check t m now = Some ?t" using True relay by (simp add: flood_check_def FLOOD_LIMIT_def word_less_nat_alt)
      moreover have "let_through ?t xs + 1 \<le> 60 + 60 * ((e - now) div secs 1)"
        using Cons.IH [of ?t] later by simp
      moreover have "(e - now) div secs 1 + 1 \<le> (e - ?w) div secs 1"
      proof -
        have "e - now + secs 1 \<le> e - ?w" using True now by linarith
        then have "(e - now + secs 1) div secs 1 \<le> (e - ?w) div secs 1" by (rule div_le_mono)
        then show ?thesis using s1 by simp
      qed
      ultimately show ?thesis using Cons.prems(1) relay by (simp add: x)
    next
      case False
      let ?t = "t\<lparr>wt_window_count := ?n + 1\<rparr>"
      show ?thesis
      proof (cases "unat ?n = 60")
        case True
        then have "flood_check t m now = None"
          using False relay count_succ [of ?n] by (simp add: flood_check_def FLOOD_LIMIT_def word_less_nat_alt Let_def)
        then show ?thesis using True by (simp add: x)
      next
        case ne: False
        then have n: "unat (?n + 1) = Suc (unat ?n)" "Suc (unat ?n) \<le> 60" using Cons.prems(1) count_succ [of ?n] by simp_all
        then have "flood_check t m now = Some ?t"
          using False relay by (simp add: flood_check_def FLOOD_LIMIT_def word_less_nat_alt Let_def)
        then show ?thesis using Cons.IH [of ?t] later n relay by (simp add: x)
      qed
    qed
  qed
qed simp

section \<open>Concrete runs\<close>

definition demo_params :: ws_params where
  "demo_params = \<lparr>wsp_pepper = lit ''pepper'', wsp_token = lit ''token'', wsp_sha = (\<lambda>bs. bs), wsp_ip_text = (\<lambda>a. [48 + a]),
     wsp_version = lit ''1''\<rparr>"

definition demo_env :: "instant \<Rightarrow> ws_env" where
  "demo_env t = \<lparr>we_now = t, we_wall = 0, we_db = (\<lambda>_. True), we_draws = [(lit ''123456789'', [1, 2], True)],
     we_sid = [9], we_stalled = False\<rparr>"

definition demo_auth :: "u8 list \<Rightarrow> ws_input" where
  "demo_auth secret = WI_Msg (Some (C_Auth (lit ''123456789'') secret (lit ''1'') (lit ''pc'') [lit ''10.0.0.2:9''] True))"

definition demo_login :: "instant \<Rightarrow> server_event list" where
  "demo_login t = [SE_Accept 0 7 10 10 (demo_env t), SE_Input 0 (WI_Msg (Some (C_Register (lit ''1'')))) (demo_env t),
     SE_Input 0 (demo_auth [1, 2]) (demo_env t)]"

definition demo_conn :: conn where
  "demo_conn = \<lparr>conn_id = 1, conn_tx = 10, conn_kick = 10, conn_name = lit ''pc'', conn_ip = 7,
     conn_candidates = [lit ''10.0.0.2:9''], incoming_enabled = True\<rparr>"

lemma demo_login_online:
  "hm_get (devices (sv_hub (server_run demo_params (server_new 5 8 0) (demo_login (secs 60))))) (lit ''123456789'') = Some demo_conn"
  by code_simp

text \<open>
  A server whose monotonic clock shows less than a minute (it starts with its machine) loses the task of
  a client that signs in, and keeps the device online with nobody behind it.
\<close>

lemma early_login_leaves_ghost:
  "let s = server_run demo_params (server_new 5 8 0) (demo_login (secs 59))
   in hm_get (devices (sv_hub s)) (lit ''123456789'') \<noteq> None \<and> sv_tasks s = []"
  by code_simp

text \<open>
  The ban for failed secrets is only looked up when a connection opens: connections opened before it get
  their guess afterwards all the same.
\<close>

definition opened :: "nat \<Rightarrow> server_event list" where
  "opened n = map (\<lambda>k. SE_Accept k 7 k k (demo_env (secs 60))) [1..<Suc n]"

definition guesses :: "nat \<Rightarrow> server_event list" where
  "guesses n = map (\<lambda>k. SE_Input k (demo_auth [5]) (demo_env (secs 61))) [1..<Suc n]"

lemma ban_spares_open_connections:
  "let s = server_run demo_params (server_new 5 8 0)
       (demo_login (secs 60) @ opened 11 @ guesses 10);
       s' = server_run demo_params s [SE_Input 11 (demo_auth [1, 2]) (demo_env (secs 61))]
   in fst (ip_banned_for_auth (sv_hub s) 7 (secs 61)) \<and> map_option wt_phase (hm_get (sv_tasks s') 11) = Some WP_Main"
  by code_simp

section \<open>Claims\<close>

text \<open>The hub behind the server is sound: whatever the clients send, in whatever order the
  connections, the upkeep, the administration and the shutdown take their turns, the state of the hub
  is one that its own operations reach, so that everything shown of reachable hubs holds of the running server.\<close>

theorem server_keeps_hub_reachable:
  assumes "server_oks p (server_new mx mbps wall) es"
  shows "hub_reachable (sv_hub (server_run p (server_new mx mbps wall) es))"
  using hub_server_run [OF assms] hub_reach_new by (simp add: server_new_def)

theorem server_keeps_hub_reachable_witness:
  "hub_reachable (sv_hub (server_run demo_params (server_new 5 8 0) (demo_login (secs 60))))"
proof -
  have "server_oks demo_params (server_new 5 8 0) (demo_login (secs 60))" by code_simp
  then show ?thesis by (rule server_keeps_hub_reachable)
qed

text \<open>C3. Who is online proved who it is: at any moment of any run, the entry of a device belongs to a
  connection that still runs, and this connection presented a secret whose hash was the one stored for that
  device when it did, with a valid name and the socket addresses the entry shows.\<close>

theorem online_is_authenticated:
  assumes "mbps \<noteq> 0" and "server_oks p (server_new mx mbps wall) es" and "clock_past (secs 60) es"
    and "hm_get (devices (sv_hub (server_run p (server_new mx mbps wall) es))) i = Some c"
  shows "\<exists>cid. holder (server_run p (server_new mx mbps wall) es) cid i c \<and>
    (\<exists>es1 es2 e secret ver inc.
        es = es1 @ SE_Input cid (WI_Msg (Some (C_Auth i secret ver (conn_name c) (conn_candidates c) inc))) e # es2 \<and>
        device_hash (sv_db (server_run p (server_new mx mbps wall) es1)) i True = Some (Some (hash_secret p secret)) \<and>
        auth_input_ok (conn_name c) ver (conn_candidates c))"
  using online_proven [OF assms] unfolding proven_def by blast

theorem online_is_authenticated_witness:
  "\<exists>cid. holder (server_run demo_params (server_new 5 8 0) (demo_login (secs 60))) cid (lit ''123456789'') demo_conn"
proof -
  have "server_oks demo_params (server_new 5 8 0) (demo_login (secs 60))" "clock_past (secs 60) (demo_login (secs 60))"
    by code_simp+
  from online_is_authenticated [OF _ this demo_login_online] show ?thesis by auto
qed

text \<open>A client cannot flood the server with control messages: of whatever it sends up to the moment
  \<open>e\<close>, a connection that entered its main loop at \<open>w\<close> lets through at most 60 messages for the first second
  and 60 for each further second begun; the next one closes it. Relayed frames do not count.\<close>

theorem control_flood_bounded:
  assumes "wt_window_count t = 0" and "\<forall>(m, now) \<in> set xs. now \<le> e"
  shows "let_through t xs \<le> 60 * (1 + (e - wt_window_start t) div secs 1)"
  using let_through_bound [of t xs e] assms by simp

definition demo_task :: ws_task where
  "demo_task = \<lparr>wt_ip = 7, wt_out = 10, wt_kick = 10, wt_phase = WP_Main, wt_id = lit ''123456789'', wt_conn = 1,
     wt_window_start = 100, wt_window_count = 0, wt_last_presence = 0\<rparr>"

theorem control_flood_bounded_witness:
  "let_through demo_task (replicate 100 (C_Ping, 200)) = 60"
proof -
  have "\<forall>(m, now) \<in> set (replicate 100 (C_Ping, 200)). now \<le> (200 :: nat)" by simp
  moreover have "wt_window_count demo_task = 0" "wt_window_start demo_task = 100" by (simp_all add: demo_task_def)
  ultimately have "let_through demo_task (replicate 100 (C_Ping, 200)) \<le> 60"
    using control_flood_bounded [of demo_task "replicate 100 (C_Ping, 200)" 200] by (simp add: secs_def)
  moreover have "60 \<le> let_through demo_task (replicate 100 (C_Ping, 200))" by code_simp
  ultimately show ?thesis by simp
qed

end
