(* ===== verification/Utf8.thy ===== *)
theory Utf8
  imports Prelude
begin

text \<open>
  \<open>std::str::from_utf8\<close>: strict decoding, which takes the shortest form only and no surrogates, and its
  agreement with the encoding of \<open>Prelude\<close>.
\<close>

definition is_cont :: "nat \<Rightarrow> bool" where
  "is_cont b \<longleftrightarrow> 128 \<le> b \<and> b < 192"

definition is_scalar :: "uchar \<Rightarrow> bool" where
  "is_scalar c \<longleftrightarrow> c < 1114112 \<and> \<not> (55296 \<le> c \<and> c < 57344)"

text \<open>One character and the bytes after it.\<close>

definition decode_char :: "nat list \<Rightarrow> (uchar \<times> nat list) option" where
  "decode_char bs =
     (case bs of
        [] \<Rightarrow> None
      | b # r \<Rightarrow>
          if b < 128 then Some (b, r)
          else if 192 \<le> b \<and> b < 224 then
            (case r of
               x # r \<Rightarrow> (let c = (b - 192) * 64 + (x - 128)
                 in if is_cont x \<and> 128 \<le> c then Some (c, r) else None)
             | _ \<Rightarrow> None)
          else if 224 \<le> b \<and> b < 240 then
            (case r of
               x # y # r \<Rightarrow> (let c = (b - 224) * 4096 + (x - 128) * 64 + (y - 128)
                 in if is_cont x \<and> is_cont y \<and> 2048 \<le> c \<and> is_scalar c then Some (c, r) else None)
             | _ \<Rightarrow> None)
          else if 240 \<le> b \<and> b < 248 then
            (case r of
               x # y # z # r \<Rightarrow> (let c = (b - 240) * 262144 + (x - 128) * 4096 + (y - 128) * 64 + (z - 128)
                 in if is_cont x \<and> is_cont y \<and> is_cont z \<and> 65536 \<le> c \<and> is_scalar c then Some (c, r) else None)
             | _ \<Rightarrow> None)
          else None)"

lemma decode_char_shorter: "decode_char bs = Some (c, r) \<Longrightarrow> length r < length bs"
  by (auto simp: decode_char_def Let_def split: list.splits if_splits)

function utf8_decode :: "nat list \<Rightarrow> rstr option" where
  "utf8_decode bs =
     (if bs = [] then Some []
      else case decode_char bs of
             None \<Rightarrow> None
           | Some (c, r) \<Rightarrow> map_option ((#) c) (utf8_decode r))"
  by pat_completeness auto
termination by (relation "measure length") (auto dest: decode_char_shorter)

declare utf8_decode.simps [simp del]

definition from_utf8 :: "u8 list \<Rightarrow> rstr option" where
  "from_utf8 bs = utf8_decode (map unat bs)"

definition scalar_str :: "rstr \<Rightarrow> bool" where
  "scalar_str s \<longleftrightarrow> list_all is_scalar s"

lemma split_3: "(c :: nat) div 4096 * 4096 + c div 64 mod 64 * 64 + c mod 64 = c"
proof -
  have q: "c div 4096 = c div 64 div 64" by (simp add: div_mult2_eq [symmetric])
  have 1: "c div 64 div 64 * 64 + c div 64 mod 64 = c div 64" and 2: "c div 64 * 64 + c mod 64 = c"
    by (rule div_mult_mod_eq)+
  show ?thesis unfolding q using 1 2 by linarith
qed

lemma split_4: "(c :: nat) div 262144 * 262144 + c div 4096 mod 64 * 4096 + c div 64 mod 64 * 64 + c mod 64 = c"
proof -
  have q: "c div 262144 = c div 4096 div 64" by (simp add: div_mult2_eq [symmetric])
  have 1: "c div 4096 div 64 * 64 + c div 4096 mod 64 = c div 4096" by (rule div_mult_mod_eq)
  show ?thesis unfolding q using 1 split_3 [of c] by linarith
qed

lemma decode_char_encode: "is_scalar c \<Longrightarrow> decode_char (utf8_nats c @ r) = Some (c, r)"
proof -
  assume c: "is_scalar c"
  have m: "x mod 64 < 64" for x :: nat by simp
  consider "c < 128" | "128 \<le> c" "c < 2048" | "2048 \<le> c" "c < 65536" | "65536 \<le> c" by linarith
  then show ?thesis
  proof cases
    case 1
    then show ?thesis by (simp add: utf8_nats_def decode_char_def)
  next
    case 2
    then have "c div 64 < 32" by (simp add: less_mult_imp_div_less)
    then show ?thesis using 2 m [of c] by (simp add: utf8_nats_def decode_char_def is_cont_def)
  next
    case 3
    then have "c div 4096 < 16" by (simp add: less_mult_imp_div_less)
    then show ?thesis using 3 c m [of c] m [of "c div 64"] split_3 [of c]
      by (simp add: utf8_nats_def decode_char_def is_cont_def)
  next
    case 4
    then have "c div 262144 < 8" using c by (simp add: is_scalar_def less_mult_imp_div_less)
    then show ?thesis using 4 c m [of c] m [of "c div 64"] m [of "c div 4096"] split_4 [of c]
      by (simp add: utf8_nats_def decode_char_def is_cont_def)
  qed
qed

lemma map_unat_bytes: "is_scalar c \<Longrightarrow> map unat (map of_nat (utf8_nats c) :: u8 list) = utf8_nats c"
  using utf8_nats_bound [of c] by (simp add: is_scalar_def unat_u8_small map_idI)

lemma from_utf8_as_bytes: "scalar_str s \<Longrightarrow> from_utf8 (as_bytes s) = Some s"
proof (induction s)
  case Nil
  then show ?case by (simp add: from_utf8_def as_bytes_def utf8_decode.simps)
next
  case (Cons c s)
  then have c: "is_scalar c" and IH: "utf8_decode (map unat (as_bytes s)) = Some s"
    by (simp_all add: scalar_str_def from_utf8_def)
  have "map unat (as_bytes (c # s)) = utf8_nats c @ map unat (as_bytes s)"
    using map_unat_bytes [OF c] by (simp add: as_bytes_def)
  then show ?case using decode_char_encode [OF c] utf8_nats_nonempty [of c] IH
    by (simp add: from_utf8_def utf8_decode.simps [of "utf8_nats c @ x" for x])
qed

end
