(* ===== verification/Store.thy ===== *)
theory Store
  imports Files Peer Utf8
begin

text \<open>
  Local persistence, \<open>crates/session/src/store.rs\<close>: atomic writes, settings with their sanitizing, the
  address book with trusted devices and recent connections, the protected device identity and the
  protected unattended password.

  The disk is a map from paths to contents. JSON and DPAPI are parameters; which operation of the disk
  fails, and what a failed write leaves behind, comes with the call.
\<close>

section \<open>The disk\<close>

type_synonym disk = "(path, u8 list) hmap"

datatype io_error = IO_NotFound | IO_Other

text \<open>\<open>with_extension\<close>: the last component keeps its stem.\<close>

definition with_extension :: "path \<Rightarrow> rstr \<Rightarrow> path" where
  "with_extension p ext = (if p = [] then [] else butlast p @ [fst (rsplit_dot (last p)) @ 46 # ext])"

record io_env =
  io_mkdir :: bool
  io_write :: bool
  io_partial :: "u8 list"
  io_rename :: bool
  io_remove :: bool
  io_read :: bool

definition write_atomic :: "disk \<Rightarrow> path \<Rightarrow> u8 list \<Rightarrow> io_env \<Rightarrow> bool \<times> disk" where
  "write_atomic d p bytes e =
     (let tmp = with_extension p (lit ''tmp'')
      in if \<not> io_mkdir e then (False, d)
         else if \<not> io_write e then (False, hm_insert tmp (io_partial e) d)
         else if \<not> io_rename e then (False, hm_insert tmp bytes d)
         else (True, hm_insert p bytes (hm_remove tmp (hm_insert tmp bytes d))))"

definition read_path :: "disk \<Rightarrow> path \<Rightarrow> io_env \<Rightarrow> io_error + u8 list" where
  "read_path d p e =
     (case hm_get d p of
        None \<Rightarrow> Inl IO_NotFound
      | Some b \<Rightarrow> if io_read e then Inr b else Inl IO_Other)"

definition remove_path :: "disk \<Rightarrow> path \<Rightarrow> io_env \<Rightarrow> disk" where
  "remove_path d p e = (if io_remove e then hm_remove p d else d)"

definition rename_path :: "disk \<Rightarrow> path \<Rightarrow> path \<Rightarrow> io_env \<Rightarrow> disk" where
  "rename_path d p q e =
     (case (if io_rename e then hm_get d p else None) of
        Some b \<Rightarrow> hm_insert q b (hm_remove p d)
      | None \<Rightarrow> d)"

section \<open>JSON files\<close>

definition BOM :: "u8 list" where
  "BOM = [0xEF, 0xBB, 0xBF]"

definition strip_bom :: "u8 list \<Rightarrow> u8 list" where
  "strip_bom bytes = (if take 3 bytes = BOM then drop 3 bytes else bytes)"

definition load_json :: "(u8 list \<Rightarrow> 'a option) \<Rightarrow> 'a \<Rightarrow> disk \<Rightarrow> path \<Rightarrow> io_env \<Rightarrow> 'a \<times> disk" where
  "load_json parse dflt d p e =
     (case read_path d p e of
        Inl _ \<Rightarrow> (dflt, d)
      | Inr bytes \<Rightarrow>
          (case parse (strip_bom bytes) of
             Some v \<Rightarrow> (v, d)
           | None \<Rightarrow> (dflt, rename_path d p (with_extension p (lit ''bak'')) e)))"

definition save_json :: "('a \<Rightarrow> u8 list option) \<Rightarrow> 'a \<Rightarrow> disk \<Rightarrow> path \<Rightarrow> io_env \<Rightarrow> bool \<times> disk" where
  "save_json ser v d p e = (case ser v of Some b \<Rightarrow> write_atomic d p b e | None \<Rightarrow> (False, d))"

section \<open>Settings\<close>

record settings =
  set_language :: rstr
  set_theme :: rstr
  set_start_with_windows :: bool
  set_minimize_to_tray :: bool
  set_launch_minimized :: bool
  set_close_behavior :: rstr
  set_check_updates :: bool
  set_first_run_done :: bool
  set_device_name :: rstr
  set_preset :: rstr
  set_codec :: rstr
  set_fps :: u32
  set_bitrate_kbps :: u32
  set_resolution :: rstr
  set_hardware :: bool
  set_prefer_direct :: bool
  set_relay_fallback :: bool
  set_adaptive :: bool
  set_low_bandwidth :: bool
  set_performance_mode :: bool
  set_show_cursor :: bool
  set_prediction :: rstr
  set_scale_mode :: rstr
  set_incoming :: bool
  set_expiry_mins :: u32
  set_rotate :: bool
  set_permissions :: permissions
  set_clipboard_sync :: bool
  set_clipboard_images :: bool
  set_unattended :: bool
  set_any_device :: bool
  set_elevated :: bool
  set_download_dir :: rstr
  set_ask :: bool
  set_max_transfers :: u32
  set_open_dir :: bool
  set_ui_scale :: u32

definition settings_default :: settings where
  "settings_default =
     \<lparr>set_language = lit ''system'', set_theme = lit ''system'', set_start_with_windows = False,
      set_minimize_to_tray = True, set_launch_minimized = False, set_close_behavior = lit ''tray'',
      set_check_updates = True, set_first_run_done = False, set_device_name = [], set_preset = lit ''auto'',
      set_codec = lit ''auto'', set_fps = 0, set_bitrate_kbps = 0, set_resolution = lit ''auto'',
      set_hardware = True, set_prefer_direct = True, set_relay_fallback = True, set_adaptive = True,
      set_low_bandwidth = False, set_performance_mode = False, set_show_cursor = True,
      set_prediction = lit ''auto'', set_scale_mode = lit ''fit'', set_incoming = True, set_expiry_mins = 0,
      set_rotate = True, set_permissions = PERM_ALL, set_clipboard_sync = True, set_clipboard_images = True,
      set_unattended = False, set_any_device = False, set_elevated = False, set_download_dir = [], set_ask = True,
      set_max_transfers = 3, set_open_dir = False, set_ui_scale = 100\<rparr>"

definition clamp :: "'a::linorder \<Rightarrow> 'a \<Rightarrow> 'a \<Rightarrow> 'a" where
  "clamp lo hi v = (if v < lo then lo else if v > hi then hi else v)"

text \<open>\<open>str::parse::<u16>\<close>: an optional plus sign and decimal digits.\<close>

definition parse_u16 :: "rstr \<Rightarrow> u16 option" where
  "parse_u16 s =
     (let ds = (case s of c # r \<Rightarrow> if c = 43 \<and> r \<noteq> [] then r else s | [] \<Rightarrow> s);
          v = foldl (\<lambda>n c. n * 10 + (c - 48)) 0 ds
      in if ds \<noteq> [] \<and> list_all is_ascii_digit ds \<and> v < 65536 then Some (of_nat v) else None)"

definition settings_preset :: "settings \<Rightarrow> preset" where
  "settings_preset s =
     (if set_preset s = lit ''best'' then P_BestQuality
      else if set_preset s = lit ''balanced'' then P_Balanced
      else if set_preset s = lit ''lowLatency'' then P_LowLatency
      else if set_preset s = lit ''lowBandwidth'' then P_LowBandwidth
      else if set_low_bandwidth s then P_LowBandwidth
      else if set_performance_mode s then P_LowLatency
      else P_Auto)"

definition settings_height :: "settings \<Rightarrow> u16" where
  "settings_height s =
     (if set_resolution s = lit ''auto'' then 0
      else if set_resolution s = lit ''native'' then 4320
      else case parse_u16 (set_resolution s) of Some h \<Rightarrow> clamp 180 4320 h | None \<Rightarrow> 0)"

definition settings_quality :: "settings \<Rightarrow> quality" where
  "settings_quality s =
     \<lparr>q_preset = settings_preset s, q_fps = ucast (set_fps s), q_max_height = settings_height s,
      q_bitrate_kbps = set_bitrate_kbps s,
      q_codec = (if set_codec s = lit ''h264'' then Some H264 else if set_codec s = lit ''h265'' then Some H265 else None),
      q_hardware = set_hardware s, q_adaptive = set_adaptive s\<rparr>"

definition sanitized :: "settings \<Rightarrow> settings" where
  "sanitized s =
     s\<lparr>set_max_transfers := clamp 1 8 (set_max_transfers s), set_ui_scale := clamp 80 160 (set_ui_scale s),
       set_fps := (if set_fps s \<in> {0, 15, 30, 60} then set_fps s else 0),
       set_bitrate_kbps := (if set_bitrate_kbps s = 0 then 0 else clamp 200 100000 (set_bitrate_kbps s)),
       set_language := (if set_language s \<in> {lit ''system'', lit ''en'', lit ''ar''} then set_language s else lit ''system''),
       set_theme := (if set_theme s \<in> {lit ''system'', lit ''light'', lit ''dark''} then set_theme s else lit ''system''),
       set_prediction := (if set_prediction s \<in> {lit ''auto'', lit ''on'', lit ''off''} then set_prediction s else lit ''auto'')\<rparr>"

section \<open>The device book\<close>

record trusted_device =
  td_id :: rstr
  td_name :: rstr
  td_added :: u64
  td_last :: "u64 option"

record address_entry =
  ad_id :: rstr
  ad_name :: rstr
  ad_favorite :: bool
  ad_group :: rstr
  ad_added :: u64
  ad_last :: "u64 option"

record recent =
  rc_id :: rstr
  rc_last :: u64

record book =
  bk_trusted :: "trusted_device list"
  bk_entries :: "address_entry list"
  bk_recents :: "recent list"

definition book_empty :: book where
  "book_empty = \<lparr>bk_trusted = [], bk_entries = [], bk_recents = []\<rparr>"

definition MAX_RECENTS :: nat where "MAX_RECENTS = 20"
definition MAX_ENTRIES :: nat where "MAX_ENTRIES = 500"

text \<open>\<open>iter_mut().find\<close>: the first match is changed.\<close>

fun update_first :: "('a \<Rightarrow> bool) \<Rightarrow> ('a \<Rightarrow> 'a) \<Rightarrow> 'a list \<Rightarrow> 'a list" where
  "update_first P f [] = []"
| "update_first P f (x # xs) = (if P x then f x # xs else x # update_first P f xs)"

definition trust :: "book \<Rightarrow> rstr \<Rightarrow> rstr \<Rightarrow> u64 \<Rightarrow> book" where
  "trust b i name now =
     (if list_ex (\<lambda>t. td_id t = i) (bk_trusted b) then b
      else b\<lparr>bk_trusted := bk_trusted b @ [\<lparr>td_id = i, td_name = name, td_added = now, td_last = Some now\<rparr>]\<rparr>)"

definition revoke_trusted :: "book \<Rightarrow> rstr \<Rightarrow> bool \<times> book" where
  "revoke_trusted b i =
     (let ts = filter (\<lambda>t. td_id t \<noteq> i) (bk_trusted b)
      in (length (bk_trusted b) \<noteq> length ts, b\<lparr>bk_trusted := ts\<rparr>))"

definition revoke_all :: "book \<Rightarrow> book" where
  "revoke_all b = b\<lparr>bk_trusted := []\<rparr>"

definition rename_trusted :: "book \<Rightarrow> rstr \<Rightarrow> rstr \<Rightarrow> book" where
  "rename_trusted b i name =
     b\<lparr>bk_trusted := update_first (\<lambda>t. td_id t = i) (\<lambda>t. t\<lparr>td_name := take 64 name\<rparr>) (bk_trusted b)\<rparr>"

definition touch_trusted :: "book \<Rightarrow> rstr \<Rightarrow> u64 \<Rightarrow> book" where
  "touch_trusted b i now =
     b\<lparr>bk_trusted := update_first (\<lambda>t. td_id t = i) (\<lambda>t. t\<lparr>td_last := Some now\<rparr>) (bk_trusted b)\<rparr>"

definition record_connection :: "book \<Rightarrow> rstr \<Rightarrow> u64 \<Rightarrow> book" where
  "record_connection b i now =
     b\<lparr>bk_recents := take MAX_RECENTS (\<lparr>rc_id = i, rc_last = now\<rparr> # filter (\<lambda>r. rc_id r \<noteq> i) (bk_recents b)),
       bk_entries := update_first (\<lambda>x. ad_id x = i) (\<lambda>x. x\<lparr>ad_last := Some now\<rparr>) (bk_entries b)\<rparr>"

definition upsert_entry :: "book \<Rightarrow> rstr \<Rightarrow> rstr \<Rightarrow> bool \<Rightarrow> rstr \<Rightarrow> u64 \<Rightarrow> rstr option \<times> book" where
  "upsert_entry b i name fav grp now =
     (if list_ex (\<lambda>x. ad_id x = i) (bk_entries b)
      then (None, b\<lparr>bk_entries := update_first (\<lambda>x. ad_id x = i)
              (\<lambda>x. x\<lparr>ad_name := take 64 name, ad_favorite := fav, ad_group := grp\<rparr>) (bk_entries b)\<rparr>)
      else if length (bk_entries b) \<ge> MAX_ENTRIES then (Some (lit ''address book is full''), b)
      else (None, b\<lparr>bk_entries := bk_entries b @
              [\<lparr>ad_id = i, ad_name = take 64 name, ad_favorite = fav,
                ad_group = (if grp = lit ''my'' then lit ''my'' else lit ''other''), ad_added = now, ad_last = None\<rparr>]\<rparr>))"

definition remove_entry :: "book \<Rightarrow> rstr \<Rightarrow> book" where
  "remove_entry b i = b\<lparr>bk_entries := filter (\<lambda>x. ad_id x \<noteq> i) (bk_entries b)\<rparr>"

section \<open>The protected identity\<close>

record credentials =
  cr_id :: rstr
  cr_secret :: "u8 list"

record protection =
  pr_ser :: "credentials \<Rightarrow> u8 list option"
  pr_de :: "u8 list \<Rightarrow> credentials option"
  pr_protect :: "u8 list \<Rightarrow> u8 list option"
  pr_unprotect :: "u8 list \<Rightarrow> u8 list option"

record cred_store =
  cs_disk :: disk
  cs_path :: path
  cs_cache :: "credentials option"

definition cred_load :: "protection \<Rightarrow> cred_store \<Rightarrow> io_env \<Rightarrow> credentials option \<times> cred_store" where
  "cred_load p s e =
     (case cs_cache s of
        Some c \<Rightarrow> (Some c, s)
      | None \<Rightarrow>
          (case read_path (cs_disk s) (cs_path s) e of
             Inl _ \<Rightarrow> (None, s)
           | Inr blob \<Rightarrow>
               (case Option.bind (pr_unprotect p blob) (pr_de p) of
                  None \<Rightarrow> (None, s)
                | Some c \<Rightarrow> (Some c, s\<lparr>cs_cache := Some c\<rparr>))))"

definition cred_save :: "protection \<Rightarrow> cred_store \<Rightarrow> credentials \<Rightarrow> io_env \<Rightarrow> cred_store" where
  "cred_save p s c e =
     (let json = (case pr_ser p c of Some j \<Rightarrow> j | None \<Rightarrow> []);
          d = (case pr_protect p json of
                 Some blob \<Rightarrow> snd (write_atomic (cs_disk s) (cs_path s) blob e)
               | None \<Rightarrow> cs_disk s)
      in s\<lparr>cs_disk := d, cs_cache := Some c\<rparr>)"

definition cred_clear :: "cred_store \<Rightarrow> io_env \<Rightarrow> cred_store" where
  "cred_clear s e = s\<lparr>cs_disk := remove_path (cs_disk s) (cs_path s) e, cs_cache := None\<rparr>"

text \<open>The program starts again: what was only cached is gone.\<close>

definition cred_restart :: "cred_store \<Rightarrow> cred_store" where
  "cred_restart s = s\<lparr>cs_cache := None\<rparr>"

text \<open>The trait \<open>CredentialStore\<close> as a table of functions, and the protected store as one.\<close>

record 's cred_ops =
  co_load :: "'s \<Rightarrow> credentials option \<times> 's"
  co_save :: "'s \<Rightarrow> credentials \<Rightarrow> 's"
  co_clear :: "'s \<Rightarrow> 's"

definition dpapi_ops :: "protection \<Rightarrow> io_env \<Rightarrow> cred_store cred_ops" where
  "dpapi_ops p e = \<lparr>co_load = (\<lambda>s. cred_load p s e), co_save = (\<lambda>s c. cred_save p s c e), co_clear = (\<lambda>s. cred_clear s e)\<rparr>"

section \<open>The protected password\<close>

definition secret_store :: "protection \<Rightarrow> disk \<Rightarrow> path \<Rightarrow> rstr \<Rightarrow> io_env \<Rightarrow> bool \<times> disk" where
  "secret_store p d f s e =
     (case pr_protect p (as_bytes s) of
        None \<Rightarrow> (False, d)
      | Some blob \<Rightarrow> write_atomic d f blob e)"

definition secret_load :: "protection \<Rightarrow> disk \<Rightarrow> path \<Rightarrow> io_env \<Rightarrow> rstr option" where
  "secret_load p d f e =
     (case read_path d f e of
        Inl _ \<Rightarrow> None
      | Inr blob \<Rightarrow> Option.bind (pr_unprotect p blob) from_utf8)"

definition secret_clear :: "disk \<Rightarrow> path \<Rightarrow> io_env \<Rightarrow> disk" where
  "secret_clear d f e = remove_path d f e"

end
