(* ===== verification/Store_Props.thy ===== *)
theory Store_Props
  imports Store
begin

text \<open>
  Local persistence does what the program relies on: writes replace a file or leave it, what was saved
  is loaded again, settings from anywhere end up in the supported ranges, and the device book keeps its
  form under every sequence of operations.
\<close>

section \<open>Writing\<close>

lemma write_atomic_cases:
  assumes "write_atomic d p bytes e = (ok, d')" and "with_extension p (lit ''tmp'') \<noteq> p"
  shows "hm_get d' p = (if ok then Some bytes else hm_get d p)"
    and "q \<noteq> p \<Longrightarrow> q \<noteq> with_extension p (lit ''tmp'') \<Longrightarrow> hm_get d' q = hm_get d q"
  using assms by (auto simp: write_atomic_def Let_def split: if_splits)

definition io_fine :: io_env where
  "io_fine = \<lparr>io_mkdir = True, io_write = True, io_partial = [], io_rename = True, io_remove = True, io_read = True\<rparr>"

lemma strip_bom_plain: "take 3 b \<noteq> BOM \<Longrightarrow> strip_bom b = b"
  by (simp add: strip_bom_def)

lemma load_json_same:
  "hm_get d p = hm_get d' p \<Longrightarrow> fst (load_json parse dflt d p e) = fst (load_json parse dflt d' p e)"
  by (simp add: load_json_def read_path_def split: option.split)

section \<open>Settings in range\<close>

definition settings_ok :: "settings \<Rightarrow> bool" where
  "settings_ok s \<longleftrightarrow> 1 \<le> set_max_transfers s \<and> set_max_transfers s \<le> 8 \<and> 80 \<le> set_ui_scale s \<and> set_ui_scale s \<le> 160 \<and>
     set_fps s \<in> {0, 15, 30, 60} \<and> (set_bitrate_kbps s = 0 \<or> 200 \<le> set_bitrate_kbps s \<and> set_bitrate_kbps s \<le> 100000) \<and>
     set_language s \<in> {lit ''system'', lit ''en'', lit ''ar''} \<and> set_theme s \<in> {lit ''system'', lit ''light'', lit ''dark''} \<and>
     set_prediction s \<in> {lit ''auto'', lit ''on'', lit ''off''}"

lemma clamp_range: "lo \<le> hi \<Longrightarrow> lo \<le> clamp lo hi v \<and> clamp lo hi v \<le> hi"
  by (auto simp: clamp_def)

lemma clamp_id: "lo \<le> v \<Longrightarrow> v \<le> hi \<Longrightarrow> clamp lo hi v = v"
  by (auto simp: clamp_def)

lemma sanitized_ok: "settings_ok (sanitized s)"
proof -
  have "(1 :: u32) \<le> clamp 1 8 (set_max_transfers s) \<and> clamp 1 8 (set_max_transfers s) \<le> 8"
    "(80 :: u32) \<le> clamp 80 160 (set_ui_scale s) \<and> clamp 80 160 (set_ui_scale s) \<le> 160"
    "(200 :: u32) \<le> clamp 200 100000 (set_bitrate_kbps s) \<and> clamp 200 100000 (set_bitrate_kbps s) \<le> 100000"
    by (rule clamp_range; simp add: word_le_nat_alt)+
  then show ?thesis by (auto simp: settings_ok_def sanitized_def)
qed

lemma sanitized_same: "settings_ok s \<Longrightarrow> sanitized s = s"
  by (auto simp: settings_ok_def sanitized_def clamp_id)

lemma quality_height: "settings_height s = 0 \<or> 180 \<le> settings_height s \<and> settings_height s \<le> 4320"
proof -
  have "(180 :: u16) \<le> clamp 180 4320 h \<and> clamp 180 4320 h \<le> 4320" for h
    by (rule clamp_range) (simp add: word_le_nat_alt)
  then show ?thesis by (auto simp: settings_height_def word_le_nat_alt split: option.split)
qed

section \<open>The book\<close>

definition book_ok :: "book \<Rightarrow> bool" where
  "book_ok b \<longleftrightarrow> distinct (map td_id (bk_trusted b)) \<and>
     distinct (map ad_id (bk_entries b)) \<and> length (bk_entries b) \<le> MAX_ENTRIES \<and>
     list_all (\<lambda>x. length (ad_name x) \<le> 64) (bk_entries b) \<and>
     distinct (map rc_id (bk_recents b)) \<and> length (bk_recents b) \<le> MAX_RECENTS"

datatype book_op =
    BO_Trust rstr rstr u64
  | BO_Revoke rstr
  | BO_Revoke_All
  | BO_Rename rstr rstr
  | BO_Touch rstr u64
  | BO_Connection rstr u64
  | BO_Upsert rstr rstr bool rstr u64
  | BO_Remove rstr

fun book_apply :: "book \<Rightarrow> book_op \<Rightarrow> book" where
  "book_apply b (BO_Trust i n t) = trust b i n t"
| "book_apply b (BO_Revoke i) = snd (revoke_trusted b i)"
| "book_apply b BO_Revoke_All = revoke_all b"
| "book_apply b (BO_Rename i n) = rename_trusted b i n"
| "book_apply b (BO_Touch i t) = touch_trusted b i t"
| "book_apply b (BO_Connection i t) = record_connection b i t"
| "book_apply b (BO_Upsert i n f g t) = snd (upsert_entry b i n f g t)"
| "book_apply b (BO_Remove i) = remove_entry b i"

lemma map_update_first: "(\<And>x. g (f x) = g x) \<Longrightarrow> map g (update_first P f xs) = map g xs"
  by (induction xs) auto

lemma length_update_first [simp]: "length (update_first P f xs) = length xs"
  by (induction xs) auto

lemma all_update_first: "list_all Q xs \<Longrightarrow> (\<And>x. Q x \<Longrightarrow> Q (f x)) \<Longrightarrow> list_all Q (update_first P f xs)"
  by (induction xs) auto

lemma distinct_map_filter: "distinct (map f xs) \<Longrightarrow> distinct (map f (filter P xs))"
  by (induction xs) auto

lemma distinct_map_take: "distinct (map f xs) \<Longrightarrow> distinct (map f (take n xs))"
  by (simp add: take_map [symmetric])

lemma fresh_id: "\<not> list_ex (\<lambda>t. f t = i) xs \<Longrightarrow> i \<notin> f ` set xs"
  by (auto simp: list_ex_iff)

lemma book_ok_apply: "book_ok b \<Longrightarrow> book_ok (book_apply b x)"
proof (cases x)
  case (BO_Connection i t)
  assume ok: "book_ok b"
  let ?r = "\<lparr>rc_id = i, rc_last = t\<rparr> # filter (\<lambda>r. rc_id r \<noteq> i) (bk_recents b)"
  have "distinct (map rc_id ?r)" using ok by (auto simp: book_ok_def intro: distinct_map_filter)
  then have "distinct (map rc_id (take MAX_RECENTS ?r))" by (rule distinct_map_take)
  then show ?thesis using ok BO_Connection
    by (auto simp: book_ok_def record_connection_def map_update_first intro!: all_update_first)
next
  case (BO_Upsert i n f g t)
  assume ok: "book_ok b"
  have "length (ad_name x) \<le> 64 \<Longrightarrow> length (ad_name (x\<lparr>ad_name := take 64 n, ad_favorite := f, ad_group := g\<rparr>)) \<le> 64" for x
    by simp
  then show ?thesis using ok BO_Upsert
    by (auto simp: book_ok_def upsert_entry_def map_update_first intro!: all_update_first dest: fresh_id)
next
  case (BO_Remove i)
  assume "book_ok b"
  then show ?thesis using BO_Remove
    by (auto simp: book_ok_def remove_entry_def list_all_iff intro!: distinct_map_filter le_trans [OF length_filter_le])
qed (auto simp: book_ok_def trust_def revoke_trusted_def revoke_all_def rename_trusted_def touch_trusted_def
    map_update_first Let_def intro!: distinct_map_filter dest: fresh_id)

lemma book_ok_run: "book_ok b \<Longrightarrow> book_ok (foldl book_apply b xs)"
  by (induction xs arbitrary: b) (simp_all add: book_ok_apply)

lemma book_ok_empty: "book_ok book_empty"
  by (simp add: book_ok_def book_empty_def)

section \<open>The identity\<close>

text \<open>What the program asks of a credential store, whatever keeps it.\<close>

locale credential_store =
  fixes ops :: "'s cred_ops"
  assumes load_saved: "fst (co_load ops (co_save ops s c)) = Some c"
    and load_kept: "fst (co_load ops (snd (co_load ops s))) = fst (co_load ops s)"
    and load_cleared: "fst (co_load ops (co_clear ops s)) = None"
begin

lemma last_saved: "fst (co_load ops (co_save ops (co_save ops s c) c')) = Some c'"
  by (rule load_saved)

lemma new_identity: "fst (co_load ops (co_save ops (co_clear ops s) c)) = Some c \<and> fst (co_load ops (co_clear ops (co_save ops s c))) = None"
  using load_saved load_cleared by blast

end

interpretation dpapi: credential_store "dpapi_ops p io_fine" for p
proof
  fix s c
  show "fst (co_load (dpapi_ops p io_fine) (co_save (dpapi_ops p io_fine) s c)) = Some c"
    by (simp add: dpapi_ops_def cred_save_def cred_load_def)
  show "fst (co_load (dpapi_ops p io_fine) (snd (co_load (dpapi_ops p io_fine) s))) = fst (co_load (dpapi_ops p io_fine) s)"
    by (auto simp: dpapi_ops_def cred_load_def split: option.split sum.split)
  show "fst (co_load (dpapi_ops p io_fine) (co_clear (dpapi_ops p io_fine) s)) = None"
    by (simp add: dpapi_ops_def cred_clear_def cred_load_def read_path_def remove_path_def io_fine_def)
qed

text \<open>What JSON and DPAPI promise: what was written is read back, by the same user on the same machine.\<close>

definition protects :: "protection \<Rightarrow> bool" where
  "protects p \<longleftrightarrow> (\<forall>c. \<exists>j. pr_ser p c = Some j \<and> pr_de p j = Some c) \<and>
     (\<forall>b blob. pr_protect p b = Some blob \<longrightarrow> pr_unprotect p blob = Some b)"

lemma identity_survives_restart:
  assumes "protects p" and "write_atomic (cs_disk s) (cs_path s) blob e = (True, d)"
    and "pr_protect p (the (pr_ser p c)) = Some blob" and "with_extension (cs_path s) (lit ''tmp'') \<noteq> cs_path s" and "io_read e'"
  shows "fst (cred_load p (cred_restart (cred_save p s c e)) e') = Some c"
proof -
  obtain j where j: "pr_ser p c = Some j" "pr_de p j = Some c" using assms(1) unfolding protects_def by blast
  have "pr_unprotect p blob = Some j" using assms(1,3) j by (auto simp: protects_def)
  moreover have "hm_get d (cs_path s) = Some blob" using write_atomic_cases(1) [OF assms(2,4)] by simp
  ultimately show ?thesis using assms(2,3,5) j
    by (simp add: cred_load_def cred_restart_def cred_save_def read_path_def)
qed

lemma unattended_password_survives:
  assumes "protects p" "scalar_str pw" "secret_store p d f pw e = (True, d')" "with_extension f (lit ''tmp'') \<noteq> f" "io_read e'"
  shows "secret_load p d' f e' = Some pw"
proof -
  obtain blob where b: "pr_protect p (as_bytes pw) = Some blob" "write_atomic d f blob e = (True, d')"
    using assms(3) by (auto simp: secret_store_def split: option.splits)
  then have "pr_unprotect p blob = Some (as_bytes pw)" using assms(1) by (simp add: protects_def)
  then show ?thesis using write_atomic_cases(1) [OF b(2) assms(4)] from_utf8_as_bytes [OF assms(2)] assms(5)
    by (simp add: secret_load_def read_path_def)
qed

text \<open>A file that cannot be removed brings the forgotten identity back.\<close>

lemma clear_can_fail:
  "let e = io_fine\<lparr>io_remove := False\<rparr>;
       p = \<lparr>pr_ser = (\<lambda>c. Some (cr_secret c)), pr_de = (\<lambda>b. Some \<lparr>cr_id = [], cr_secret = b\<rparr>), pr_protect = Some, pr_unprotect = Some\<rparr>;
       s = cred_save p \<lparr>cs_disk = [], cs_path = [lit ''identity.bin''], cs_cache = None\<rparr> \<lparr>cr_id = [], cr_secret = [7]\<rparr> e
   in fst (cred_load p (cred_clear s e) e) = Some \<lparr>cr_id = [], cr_secret = [7]\<rparr>"
  by (simp add: io_fine_def cred_save_def write_atomic_def with_extension_def cred_load_def cred_clear_def
      remove_path_def read_path_def Let_def rsplit_dot_def)

section \<open>Claims\<close>

text \<open>C29. The device book keeps its form: whatever sequence of operations the user and the sessions
  perform, no device is trusted, listed or recent twice, the address book holds at most 500 entries with
  names of at most 64 characters, and at most 20 connections are remembered.\<close>

theorem book_keeps_its_form:
  "distinct (map td_id (bk_trusted (foldl book_apply book_empty xs))) \<and>
   distinct (map ad_id (bk_entries (foldl book_apply book_empty xs))) \<and>
   length (bk_entries (foldl book_apply book_empty xs)) \<le> 500 \<and>
   list_all (\<lambda>x. length (ad_name x) \<le> 64) (bk_entries (foldl book_apply book_empty xs)) \<and>
   distinct (map rc_id (bk_recents (foldl book_apply book_empty xs))) \<and>
   length (bk_recents (foldl book_apply book_empty xs)) \<le> 20"
  using book_ok_run [OF book_ok_empty, of xs] by (simp add: book_ok_def MAX_ENTRIES_def MAX_RECENTS_def)

text \<open>Settings are saved and loaded faithfully and atomically: saving makes the next load give exactly
  the settings saved, if it reports success; otherwise the next load gives what it would have given
  before. Whatever was loaded is brought into the supported ranges, and what is in range is not
  touched.\<close>

theorem settings_saved_or_kept:
  assumes "\<And>v b. ser v = Some b \<Longrightarrow> parse b = Some v \<and> take 3 b \<noteq> BOM"
    and "save_json ser v d p e = (ok, d')" and "with_extension p (lit ''tmp'') \<noteq> p" and "io_read e'"
  shows "fst (load_json parse dflt d' p e') = (if ok then v else fst (load_json parse dflt d p e')) \<and>
    settings_ok (sanitized (fst (load_json parse dflt d' p e'))) \<and> (settings_ok v \<longrightarrow> sanitized v = v)"
proof -
  have "fst (load_json parse dflt d' p e') = (if ok then v else fst (load_json parse dflt d p e'))"
  proof (cases "ser v")
    case None
    then show ?thesis using assms(2) by (simp add: save_json_def)
  next
    case (Some b)
    then have w: "write_atomic d p b e = (ok, d')" using assms(2) by (simp add: save_json_def)
    note g = write_atomic_cases(1) [OF w assms(3)]
    show ?thesis
    proof (cases ok)
      case True
      then show ?thesis using g assms(1) [OF Some] assms(4)
        by (simp add: load_json_def read_path_def strip_bom_plain)
    next
      case False
      then show ?thesis using load_json_same [of d' p d parse dflt e'] g by simp
    qed
  qed
  then show ?thesis using sanitized_ok sanitized_same by blast
qed

theorem settings_saved_or_kept_witness:
  "fst (load_json (\<lambda>b. case b of [_, x, _] \<Rightarrow> Some (settings_default\<lparr>set_fps := ucast x\<rparr>) | _ \<Rightarrow> None) settings_default
     (snd (save_json (\<lambda>s. if s = settings_default\<lparr>set_fps := 60\<rparr> then Some [123, 60, 125] else None)
        (settings_default\<lparr>set_fps := 60\<rparr>) [] [lit ''settings.json''] io_fine)) [lit ''settings.json''] io_fine)
   = settings_default\<lparr>set_fps := 60\<rparr>"
proof -
  let ?ser = "\<lambda>s. if s = settings_default\<lparr>set_fps := 60\<rparr> then Some [123, 60, 125 :: u8] else None"
  let ?parse = "\<lambda>b :: u8 list. case b of [_, x, _] \<Rightarrow> Some (settings_default\<lparr>set_fps := ucast x\<rparr>) | _ \<Rightarrow> None"
  let ?p = "[lit ''settings.json'']" and ?v = "settings_default\<lparr>set_fps := 60\<rparr>"
  have j: "?parse b = Some v \<and> take 3 b \<noteq> BOM" if "?ser v = Some b" for v b
    using that by (auto simp: BOM_def split: if_splits)
  have t: "with_extension ?p (lit ''tmp'') \<noteq> ?p"
    by (simp add: with_extension_def rsplit_dot_def Let_def)
  obtain ok d' where r: "save_json ?ser ?v [] ?p io_fine = (ok, d')" by force
  have "ok" using r by (simp add: save_json_def write_atomic_def io_fine_def Let_def)
  then show ?thesis using settings_saved_or_kept [OF j r t, of io_fine settings_default] r by (simp add: io_fine_def)
qed

end
