(* ===== verification/Signaling.thy ===== *)
theory Signaling
  imports Store Host_Engine Ws
begin

text \<open>
  The client's connection to the server, \<open>crates/session/src/signaling.rs\<close>: the address of the service,
  registration and authentication, the connected phase, and the loop that connects again.

  The loop is a state machine whose steps are an attempt, what happens while connected, the end of a
  delay and what the rest of the program queues. The outcome of TCP and TLS, the frames the service sends,
  the clocks and the random jitter come with the steps; the credential store is a table of functions.
\<close>

section \<open>The address\<close>

record sig_config =
  sc_url :: rstr
  sc_allow_insecure :: bool
  sc_version :: rstr
  sc_name :: rstr

record sig_target =
  sgt_host :: rstr
  sgt_port :: u16
  sgt_tls :: bool

definition strip_prefix :: "rstr \<Rightarrow> rstr \<Rightarrow> rstr option" where
  "strip_prefix pre s = (if take (length pre) s = pre then Some (drop (length pre) s) else None)"

definition rsplit_once :: "uchar \<Rightarrow> rstr \<Rightarrow> (rstr \<times> rstr) option" where
  "rsplit_once c s =
     (let ps = split_on c s in if length ps = 1 then None else Some (join_with c (butlast ps), last ps))"

definition is_bracket :: "uchar \<Rightarrow> bool" where
  "is_bracket c \<longleftrightarrow> c = 91 \<or> c = 93"

definition trim_brackets :: "rstr \<Rightarrow> rstr" where
  "trim_brackets s = rev (dropWhile is_bracket (rev (dropWhile is_bracket s)))"

definition host_port :: "rstr \<Rightarrow> bool \<Rightarrow> rstr + rstr \<times> u16" where
  "host_port authority tls =
     (let plain = (authority, if tls then 443 else 80)
      in case rsplit_once 58 authority of
           None \<Rightarrow> Inr plain
         | Some (h, p) \<Rightarrow>
             if (h = [] \<or> last h \<noteq> 93) \<or> (h \<noteq> [] \<and> hd h = 91)
             then (case parse_u16 p of None \<Rightarrow> Inl (lit ''bad port'') | Some n \<Rightarrow> Inr (trim_brackets h, n))
             else Inr plain)"

definition parse_url :: "rstr \<Rightarrow> rstr + sig_target" where
  "parse_url url =
     (case (case strip_prefix (lit ''wss://'') url of
              Some r \<Rightarrow> Some (True, r)
            | None \<Rightarrow> map_option (Pair False) (strip_prefix (lit ''ws://'') url)) of
        None \<Rightarrow> Inl (lit ''server URL must start with wss:// or ws://'')
      | Some (tls, rest) \<Rightarrow>
          (case host_port (hd (split_on 47 rest)) tls of
             Inl e \<Rightarrow> Inl e
           | Inr (h, p) \<Rightarrow>
               if h = [] then Inl (lit ''server URL has no host'')
               else Inr \<lparr>sgt_host = h, sgt_port = p, sgt_tls = tls\<rparr>))"

definition patience_for :: "u32 \<Rightarrow> u32" where
  "patience_for failures = min (1 + failures) 6"

text \<open>\<open>net\<close>: the error of TCP, TLS or the upgrade, if there is one.\<close>

definition sig_connect :: "sig_config \<Rightarrow> rstr option \<Rightarrow> rstr + sig_target" where
  "sig_connect cfg net =
     (case parse_url (sc_url cfg) of
        Inl e \<Rightarrow> Inl e
      | Inr t \<Rightarrow>
          if \<not> sgt_tls t \<and> \<not> sc_allow_insecure cfg
          then Inl (lit ''refusing unencrypted connection to the server'')
          else case net of Some e \<Rightarrow> Inl e | None \<Rightarrow> Inr t)"

section \<open>Registration and authentication\<close>

text \<open>What the socket yields: a binary frame, the close or a failure or the end of patience, another frame.\<close>

datatype sock_frame = SF_Binary "u8 list" | SF_Over | SF_Other

fun recv_msg :: "(u8 list \<Rightarrow> server_to_client option) \<Rightarrow> sock_frame list \<Rightarrow> server_to_client option \<times> sock_frame list" where
  "recv_msg de [] = (None, [])"
| "recv_msg de (SF_Binary b # fs) = (de b, fs)"
| "recv_msg de (SF_Over # fs) = (None, fs)"
| "recv_msg de (SF_Other # fs) = recv_msg de fs"

datatype sig_auth = HO_Ready rstr | HO_Rejected rstr | HO_Invalid | HO_Failed rstr

record auth_env =
  au_net :: "rstr option"
  au_sends1 :: bool
  au_sends2 :: bool
  au_frames :: "sock_frame list"
  au_de :: "u8 list \<Rightarrow> server_to_client option"
  au_candidates :: "rstr list"
  au_incoming :: bool

definition obtain_identity ::
  "'s cred_ops \<Rightarrow> sig_config \<Rightarrow> auth_env \<Rightarrow> 's \<Rightarrow> client_to_server list \<times> (sig_auth + credentials) \<times> sock_frame list \<times> 's" where
  "obtain_identity ops cfg e s =
     (case co_load ops s of
        (Some c, s1) \<Rightarrow> ([], Inr c, au_frames e, s1)
      | (None, s1) \<Rightarrow>
          (let sent = [C_Register (sc_version cfg)]
           in if \<not> au_sends1 e then ([], Inl (HO_Failed (lit ''connection closed'')), au_frames e, s1)
              else case recv_msg (au_de e) (au_frames e) of
                     (Some (S_Registered i secret), fs) \<Rightarrow>
                       (let c = \<lparr>cr_id = i, cr_secret = secret\<rparr> in (sent, Inr c, fs, co_save ops s1 c))
                   | (Some (S_AuthFailed reason), fs) \<Rightarrow> (sent, Inl (HO_Rejected reason), fs, s1)
                   | (_, fs) \<Rightarrow> (sent, Inl (HO_Failed (lit ''registration failed'')), fs, s1)))"

definition auth_message :: "sig_config \<Rightarrow> auth_env \<Rightarrow> credentials \<Rightarrow> client_to_server" where
  "auth_message cfg e c = C_Auth (cr_id c) (cr_secret c) (sc_version cfg) (sc_name cfg) (au_candidates e) (au_incoming e)"

definition authenticate ::
  "'s cred_ops \<Rightarrow> sig_config \<Rightarrow> auth_env \<Rightarrow> 's \<Rightarrow> client_to_server list \<times> sig_auth \<times> 's" where
  "authenticate ops cfg e s =
     (case obtain_identity ops cfg e s of
        (sent, Inl h, _, s1) \<Rightarrow> (sent, h, s1)
      | (sent, Inr c, fs, s1) \<Rightarrow>
          if \<not> au_sends2 e then (sent, HO_Failed (lit ''connection closed''), s1)
          else (sent @ [auth_message cfg e c],
                (case fst (recv_msg (au_de e) fs) of
                   Some (S_AuthOk _) \<Rightarrow> HO_Ready (cr_id c)
                 | Some (S_AuthFailed reason) \<Rightarrow>
                     if reason = lit ''invalid credentials'' then HO_Invalid else HO_Rejected reason
                 | _ \<Rightarrow> HO_Failed (lit ''authentication failed'')), s1))"

section \<open>Delays\<close>

definition BACKOFF_STEPS :: "nat list" where
  "BACKOFF_STEPS = [1, 2, 4, 8, 15, 30]"

definition sig_backoff :: "nat \<Rightarrow> nat" where
  "sig_backoff k = BACKOFF_STEPS ! min k (length BACKOFF_STEPS - 1)"

definition step_after_session :: "nat \<Rightarrow> duration \<Rightarrow> nat" where
  "step_after_session k uptime = (if uptime \<ge> secs 20 then 0 else k)"

text \<open>\<open>probes\<close>: which of the two public endpoints answer.\<close>

definition probe_online :: "(instant \<times> bool) option \<Rightarrow> instant \<Rightarrow> bool \<times> bool \<Rightarrow> bool \<times> (instant \<times> bool) option" where
  "probe_online last_probe now probes =
     (case (case last_probe of Some (t, v) \<Rightarrow> if duration_since now t < secs 5 then Some v else None | None \<Rightarrow> None) of
        Some v \<Rightarrow> (v, last_probe)
      | None \<Rightarrow> (let ok = fst probes \<or> snd probes in (ok, Some (now, ok))))"

section \<open>The loop\<close>

datatype sig_phase = SG_Connect | SG_Serve instant instant | SG_Sleep nat

record 's sig_state =
  sg_step :: nat
  sg_attempt :: u32
  sg_failures :: u32
  sg_was_online :: bool
  sg_reset_used :: bool
  sg_probe :: "(instant \<times> bool) option"
  sg_store :: 's
  sg_phase :: sig_phase
  sg_events :: "sig_event list"
  sg_queue :: "client_to_server list"
  sg_sent :: "client_to_server list"

definition sig_new :: "'s \<Rightarrow> 's sig_state" where
  "sig_new s = \<lparr>sg_step = 0, sg_attempt = 0, sg_failures = 0, sg_was_online = False, sg_reset_used = False,
     sg_probe = None, sg_store = s, sg_phase = SG_Connect, sg_events = [], sg_queue = [], sg_sent = []\<rparr>"

definition QUEUE_DEPTH :: nat where
  "QUEUE_DEPTH = 16"

definition sig_emit :: "'s sig_state \<Rightarrow> sig_event \<Rightarrow> 's sig_state" where
  "sig_emit g x = g\<lparr>sg_events := sg_events g @ [x]\<rparr>"

text \<open>The queue is emptied, then the delay begins; \<open>jitter\<close> is one random byte.\<close>

definition sig_pause :: "'s sig_state \<Rightarrow> u8 \<Rightarrow> 's sig_state" where
  "sig_pause g jitter =
     g\<lparr>sg_queue := [], sg_phase := SG_Sleep (sig_backoff (sg_step g - 1) * 1000 + (unat jitter + 1))\<rparr>"

datatype sig_result = SR_Ready rstr | SR_Err rstr

definition sig_try :: "'s cred_ops \<Rightarrow> sig_config \<Rightarrow> auth_env \<Rightarrow> 's \<Rightarrow> client_to_server list \<times> sig_result \<times> 's" where
  "sig_try ops cfg e s =
     (case sig_connect cfg (au_net e) of
        Inl x \<Rightarrow> ([], SR_Err x, s)
      | Inr _ \<Rightarrow>
          (case authenticate ops cfg e s of
             (sent, h, s1) \<Rightarrow>
               (sent, (case h of
                  HO_Ready i \<Rightarrow> SR_Ready i
                | HO_Rejected r \<Rightarrow> SR_Err (lit ''rejected:'' @ r)
                | HO_Invalid \<Rightarrow> SR_Err (lit ''identity'')
                | HO_Failed x \<Rightarrow> SR_Err x), s1)))"

definition sig_failed :: "'s sig_state \<Rightarrow> rstr \<Rightarrow> instant \<Rightarrow> bool \<times> bool \<Rightarrow> u8 \<Rightarrow> 's sig_state" where
  "sig_failed g x now probes jitter =
     (let g1 = g\<lparr>sg_failures := sg_failures g + 1\<rparr>;
          g2 = (if strip_prefix (lit ''rejected:'') x \<noteq> None then sig_emit g1 (SE_State SS_Rejected)
                else if \<not> sg_was_online g1 \<or> sg_failures g1 \<ge> 2
                then let (ok, p) = probe_online (sg_probe g1) now probes
                     in sig_emit (g1\<lparr>sg_probe := p\<rparr>) (SE_State (if ok then SS_Unavailable else SS_NoInternet))
                else g1)
      in sig_pause (g2\<lparr>sg_step := sg_step g2 + 1\<rparr>) jitter)"

definition sig_attempt :: "'s cred_ops \<Rightarrow> sig_config \<Rightarrow> 's sig_state \<Rightarrow> auth_env \<Rightarrow> instant \<Rightarrow> bool \<times> bool \<Rightarrow> u8 \<Rightarrow> 's sig_state" where
  "sig_attempt ops cfg g e now probes jitter =
     (let n = sg_attempt g + 1;
          g1 = sig_emit (g\<lparr>sg_attempt := n\<rparr>) (SE_State (if n = 1 then SS_Connecting else SS_Reconnecting (n - 1)))
      in case sig_try ops cfg e (sg_store g1) of
           (sent, r, st) \<Rightarrow>
             (let g2 = g1\<lparr>sg_store := st, sg_sent := sg_sent g1 @ sent\<rparr>
              in case r of
                   SR_Ready i \<Rightarrow>
                     (sig_emit (sig_emit g2 (SE_Identity i)) (SE_State SS_Online))
                       \<lparr>sg_reset_used := False, sg_was_online := True, sg_failures := 0, sg_phase := SG_Serve now now\<rparr>
                 | SR_Err x \<Rightarrow>
                     if x = lit ''identity'' \<and> \<not> sg_reset_used g2
                     then g2\<lparr>sg_store := co_clear ops st, sg_reset_used := True, sg_attempt := 0\<rparr>
                     else sig_failed g2 x now probes jitter))"

text \<open>The connection is over: \<open>up\<close> is when it came up.\<close>

definition sig_lost :: "'s sig_state \<Rightarrow> instant \<Rightarrow> instant \<Rightarrow> u8 \<Rightarrow> 's sig_state" where
  "sig_lost g up now jitter =
     sig_pause ((sig_emit g (SE_State (SS_Reconnecting 1)))
       \<lparr>sg_step := step_after_session (sg_step g) (duration_since now up), sg_attempt := 1\<rparr>) jitter"

datatype serve_input =
    SV_Frame sock_frame
  | SV_Queued bool
  | SV_Ping bool
  | SV_Incoming bool bool

definition sig_put :: "'s sig_state \<Rightarrow> client_to_server \<Rightarrow> 's sig_state" where
  "sig_put g m = g\<lparr>sg_sent := sg_sent g @ [m]\<rparr>"

text \<open>One turn of \<open>serve\<close>; \<open>None\<close>: it returns. The flag of a sending turn says whether the send succeeds.\<close>

definition sig_serve ::
  "(u8 list \<Rightarrow> server_to_client option) \<Rightarrow> 's sig_state \<Rightarrow> instant \<Rightarrow> instant \<Rightarrow> instant \<Rightarrow> serve_input \<Rightarrow> 's sig_state option" where
  "sig_serve de g up seen now x =
     (case x of
        SV_Frame (SF_Binary b) \<Rightarrow>
          (let g1 = g\<lparr>sg_phase := SG_Serve up now\<rparr>
           in Some (case de b of
                      Some S_Pong \<Rightarrow> g1
                    | Some m \<Rightarrow> sig_emit g1 (SE_Msg m)
                    | None \<Rightarrow> g1))
      | SV_Frame SF_Over \<Rightarrow> None
      | SV_Frame SF_Other \<Rightarrow> Some (g\<lparr>sg_phase := SG_Serve up now\<rparr>)
      | SV_Queued ok \<Rightarrow>
          (case sg_queue g of
             [] \<Rightarrow> Some g
           | m # q \<Rightarrow> if ok then Some (sig_put (g\<lparr>sg_queue := q\<rparr>) m) else None)
      | SV_Ping ok \<Rightarrow>
          if duration_since now seen > secs 60 then None
          else if ok then Some (sig_put g C_Ping) else None
      | SV_Incoming v ok \<Rightarrow> if ok then Some (sig_put g (C_SetIncomingEnabled v)) else None)"

datatype sig_step =
    SX_Attempt auth_env instant "bool \<times> bool" u8
  | SX_Serve serve_input "u8 list \<Rightarrow> server_to_client option" instant u8
  | SX_Slept
  | SX_Queue client_to_server

definition sig_step :: "'s cred_ops \<Rightarrow> sig_config \<Rightarrow> 's sig_state \<Rightarrow> sig_step \<Rightarrow> 's sig_state" where
  "sig_step ops cfg g x =
     (case x of
        SX_Attempt e now probes jitter \<Rightarrow>
          if sg_phase g = SG_Connect then sig_attempt ops cfg g e now probes jitter else g
      | SX_Serve y de now jitter \<Rightarrow>
          (case sg_phase g of
             SG_Serve up seen \<Rightarrow>
               (case sig_serve de g up seen now y of
                  Some g1 \<Rightarrow> g1
                | None \<Rightarrow> sig_lost (case (y, sg_queue g) of (SV_Queued _, _ # q) \<Rightarrow> g\<lparr>sg_queue := q\<rparr> | _ \<Rightarrow> g) up now jitter)
           | _ \<Rightarrow> g)
      | SX_Slept \<Rightarrow> (case sg_phase g of SG_Sleep _ \<Rightarrow> g\<lparr>sg_phase := SG_Connect\<rparr> | _ \<Rightarrow> g)
      | SX_Queue m \<Rightarrow> if length (sg_queue g) < QUEUE_DEPTH then g\<lparr>sg_queue := sg_queue g @ [m]\<rparr> else g)"

definition sig_run :: "'s cred_ops \<Rightarrow> sig_config \<Rightarrow> 's sig_state \<Rightarrow> sig_step list \<Rightarrow> 's sig_state" where
  "sig_run ops cfg g xs = foldl (sig_step ops cfg) g xs"

end
