(* ===== verification/Signaling_Props.thy ===== *)
theory Signaling_Props
  imports Signaling Store_Props
begin

text \<open>
  The connection to the server: the address of the service is read back exactly, the delays between
  attempts are bounded, a device gives up its identity at most once between two successful sign-ins,
  and two observations on the loop that differ from its comments.
\<close>

section \<open>The address\<close>

lemma split_on_unique: "c \<notin> set a \<Longrightarrow> c \<notin> set b \<Longrightarrow> split_on c (a @ c # b) = [a, b]"
  by (simp add: split_on_append split_on_plain)

lemma parse_u16_digits: "n < 65536 \<Longrightarrow> parse_u16 (dec_digits n) = Some (of_nat n)"
proof -
  assume n: "n < 65536"
  have v: "foldl (\<lambda>n c. n * 10 + (c - 48)) 0 (dec_digits n) = n"
    using dval_dec_digits [of n] by (simp add: dval_def mult.commute)
  have d: "list_all is_ascii_digit (dec_digits n)" using dec_digits_digit [of _ n] by (auto simp: list_all_iff)
  have ne: "dec_digits n \<noteq> []" by (subst dec_digits.simps) simp
  have h: "hd (dec_digits n) \<noteq> 43" using d ne by (cases "dec_digits n") (auto simp: is_ascii_digit_def)
  then have "(case dec_digits n of [] \<Rightarrow> dec_digits n | c # r \<Rightarrow> if c = 43 \<and> r \<noteq> [] then r else dec_digits n) = dec_digits n"
    by (simp split: list.split) (metis list.sel(1))
  then show ?thesis using v d ne n unfolding parse_u16_def Let_def by presburger
qed

lemma strip_prefix_append: "strip_prefix pre (pre @ s) = Some s"
  by (simp add: strip_prefix_def)

definition plain_host :: "rstr \<Rightarrow> bool" where
  "plain_host h \<longleftrightarrow> h \<noteq> [] \<and> list_all (\<lambda>c. c \<notin> {47, 58, 91, 93}) h"

lemma trim_plain: "plain_host h \<Longrightarrow> trim_brackets h = h"
proof -
  assume "plain_host h"
  then have h: "\<forall>c \<in> set h. \<not> is_bracket c" by (auto simp: plain_host_def is_bracket_def list_all_iff)
  have d: "dropWhile is_bracket s = s" if "\<forall>c \<in> set s. \<not> is_bracket c" for s
    using that by (cases s) simp_all
  show ?thesis using d [OF h] d [of "rev h"] h by (simp add: trim_brackets_def)
qed

text \<open>An address with an IPv6 host and no port is refused, although the check of the brackets is meant for it.\<close>

lemma ipv6_needs_port: "parse_url (lit ''wss://[::1]/ws'') = Inl (lit ''bad port'')"
  "parse_url (lit ''wss://[::1]:443/ws'') = Inr \<lparr>sgt_host = lit ''::1'', sgt_port = 443, sgt_tls = True\<rparr>"
  by code_simp+

section \<open>Delays\<close>

lemma sig_backoff_range: "1 \<le> sig_backoff k \<and> sig_backoff k \<le> 30"
proof -
  have "min k (length BACKOFF_STEPS - 1) < length BACKOFF_STEPS" by (simp add: BACKOFF_STEPS_def)
  then have "sig_backoff k \<in> set BACKOFF_STEPS" unfolding sig_backoff_def by (rule nth_mem)
  then show ?thesis by (auto simp: BACKOFF_STEPS_def)
qed

definition paced :: "'s sig_state \<Rightarrow> bool" where
  "paced g \<longleftrightarrow> (case sg_phase g of SG_Sleep d \<Rightarrow> 1001 \<le> d \<and> d \<le> 30256 | _ \<Rightarrow> True)"

lemma paced_pause: "paced (sig_pause g j)"
proof -
  have "unat j < 256" using unsigned_less [of j] by simp
  then show ?thesis using sig_backoff_range [of "sg_step g - 1"] by (simp add: paced_def sig_pause_def)
qed

lemma sig_emit_simps [simp]: "sg_phase (sig_emit g x) = sg_phase g" "sg_reset_used (sig_emit g x) = sg_reset_used g"
  "sg_store (sig_emit g x) = sg_store g" "sg_step (sig_emit g x) = sg_step g" "sg_queue (sig_emit g x) = sg_queue g"
  by (simp_all add: sig_emit_def)

lemma sig_serve_keeps:
  assumes "sig_serve de g up seen now y = Some g1"
  shows "(sg_phase g1 = sg_phase g \<or> sg_phase g1 = SG_Serve up now) \<and> sg_reset_used g1 = sg_reset_used g"
  using assms
  by (auto simp: sig_serve_def sig_put_def Let_def
      split: serve_input.splits sock_frame.splits option.splits server_to_client.splits list.splits if_splits)

lemma pacedI: "sg_phase g = SG_Connect \<Longrightarrow> paced g" "sg_phase g = SG_Serve up seen \<Longrightarrow> paced g"
  by (simp_all add: paced_def)

lemma paced_attempt: "sg_phase g = SG_Connect \<Longrightarrow> paced (sig_attempt ops cfg g e now pr j)"
  by (auto simp: sig_attempt_def Let_def sig_failed_def paced_pause split: prod.split sig_result.split intro: pacedI)

lemma paced_step: "paced g \<Longrightarrow> paced (sig_step ops cfg g x)"
proof (cases x)
  case (SX_Attempt e now pr j)
  assume "paced g"
  then show ?thesis using SX_Attempt paced_attempt [of g ops cfg e now pr j] by (simp add: sig_step_def)
next
  case (SX_Serve y de now j)
  assume p: "paced g"
  show ?thesis
  proof (cases "sg_phase g")
    case (SG_Serve up seen)
    show ?thesis
    proof (cases "sig_serve de g up seen now y")
      case None
      then show ?thesis using SX_Serve SG_Serve by (simp add: sig_step_def sig_lost_def paced_pause)
    next
      case (Some g1)
      then show ?thesis using SX_Serve SG_Serve sig_serve_keeps [OF Some] p by (auto simp: sig_step_def paced_def)
    qed
  qed (use p SX_Serve in \<open>simp_all add: sig_step_def\<close>)
qed (auto simp: sig_step_def paced_def split: sig_phase.splits)

lemma paced_run: "paced g \<Longrightarrow> paced (sig_run ops cfg g xs)"
  unfolding sig_run_def by (induction xs arbitrary: g) (simp_all add: paced_step)

lemma delays_bounded: "sg_phase (sig_run ops cfg (sig_new s) xs) = SG_Sleep d \<Longrightarrow> 1001 \<le> d \<and> d \<le> 30256"
proof -
  assume d: "sg_phase (sig_run ops cfg (sig_new s) xs) = SG_Sleep d"
  have "paced (sig_new s)" by (simp add: paced_def sig_new_def)
  then have "paced (sig_run ops cfg (sig_new s) xs)" by (rule paced_run)
  then show ?thesis using d by (simp add: paced_def)
qed

text \<open>
  A connection that is lost within 20 seconds leaves the step where it was: after a successful first
  sign-in the delay stays at one second however often the service drops the connection.
\<close>

lemma flapping_never_climbs:
  assumes "duration_since now up < secs 20" and "sg_step g \<le> 1"
  shows "sg_step (sig_lost g up now j) = sg_step g \<and> sg_phase (sig_lost g up now j) = SG_Sleep (1000 + (unat j + 1))"
  using assms by (simp add: sig_lost_def sig_pause_def step_after_session_def sig_backoff_def BACKOFF_STEPS_def)

section \<open>Giving up the identity\<close>

fun tries :: "sig_step \<Rightarrow> auth_env option" where
  "tries (SX_Attempt e now pr j) = Some e"
| "tries _ = None"

definition gives_up :: "'s cred_ops \<Rightarrow> sig_config \<Rightarrow> 's sig_state \<Rightarrow> sig_step \<Rightarrow> bool" where
  "gives_up ops cfg g x \<longleftrightarrow>
     (case tries x of
        Some e \<Rightarrow> sg_phase g = SG_Connect \<and> fst (snd (sig_try ops cfg e (sg_store g))) = SR_Err (lit ''identity'') \<and> \<not> sg_reset_used g
      | None \<Rightarrow> False)"

definition signs_in :: "'s cred_ops \<Rightarrow> sig_config \<Rightarrow> 's sig_state \<Rightarrow> sig_step \<Rightarrow> bool" where
  "signs_in ops cfg g x \<longleftrightarrow>
     (case tries x of
        Some e \<Rightarrow> sg_phase g = SG_Connect \<and> (case fst (snd (sig_try ops cfg e (sg_store g))) of SR_Ready _ \<Rightarrow> True | _ \<Rightarrow> False)
      | None \<Rightarrow> False)"

fun times :: "('s sig_state \<Rightarrow> sig_step \<Rightarrow> bool) \<Rightarrow> 's cred_ops \<Rightarrow> sig_config \<Rightarrow> 's sig_state \<Rightarrow> sig_step list \<Rightarrow> nat" where
  "times P ops cfg g [] = 0"
| "times P ops cfg g (x # xs) = (if P g x then 1 else 0) + times P ops cfg (sig_step ops cfg g x) xs"

lemma pause_reset [simp]: "sg_reset_used (sig_pause g j) = sg_reset_used g"
  by (simp add: sig_pause_def)

lemma failed_reset [simp]: "sg_reset_used (sig_failed g x now pr j) = sg_reset_used g"
  by (simp add: sig_failed_def Let_def split: prod.split)

lemma attempt_reset:
  "sg_reset_used (sig_attempt ops cfg g e now pr j) =
     (case fst (snd (sig_try ops cfg e (sg_store g))) of
        SR_Ready _ \<Rightarrow> False
      | SR_Err x \<Rightarrow> if x = lit ''identity'' \<and> \<not> sg_reset_used g then True else sg_reset_used g)"
  by (auto simp: sig_attempt_def Let_def split: prod.split sig_result.split)

lemma step_reset:
  "sg_reset_used (sig_step ops cfg g x) =
     (if gives_up ops cfg g x then True else if signs_in ops cfg g x then False else sg_reset_used g)"
proof (cases x)
  case (SX_Attempt e now pr j)
  then show ?thesis by (auto simp: sig_step_def gives_up_def signs_in_def attempt_reset split: sig_result.splits)
next
  case (SX_Serve y de now j)
  have "sg_reset_used (sig_step ops cfg g x) = sg_reset_used g"
    using sig_serve_keeps [of de g _ _ now y]
    by (auto simp: SX_Serve sig_step_def sig_lost_def split: sig_phase.split option.split serve_input.split list.split)
  then show ?thesis by (simp add: gives_up_def signs_in_def SX_Serve)
qed (auto simp: sig_step_def gives_up_def signs_in_def split: sig_phase.split)

lemma reset_budget:
  "times (gives_up ops cfg) ops cfg g xs \<le> times (signs_in ops cfg) ops cfg g xs + (if sg_reset_used g then 0 else 1)"
proof (induction xs arbitrary: g)
  case (Cons x xs)
  have "gives_up ops cfg g x \<Longrightarrow> \<not> sg_reset_used g \<and> \<not> signs_in ops cfg g x"
    by (auto simp: gives_up_def signs_in_def split: option.splits sig_result.splits)
  then show ?case using Cons.IH [of "sig_step ops cfg g x"] step_reset [of ops cfg g x] by (auto split: if_splits)
qed simp

section \<open>The queue\<close>

text \<open>
  The queue is emptied before the delay, not after it: what the program queues while the loop sleeps or
  connects is sent on the next connection.
\<close>

lemma queued_offline_is_sent:
  assumes "sg_phase g = SG_Sleep d" and "sg_queue g = []"
    and "sig_try ops cfg e (sg_store g) = (sent, SR_Ready i, st)"
  shows "m \<in> set (sg_sent (sig_run ops cfg g [SX_Queue m, SX_Slept, SX_Attempt e now pr j, SX_Serve (SV_Queued True) de now j]))"
  using assms by (simp add: sig_run_def sig_step_def QUEUE_DEPTH_def sig_attempt_def sig_emit_def sig_serve_def sig_put_def Let_def)

section \<open>Claims\<close>

text \<open>The address the application embeds, \<open>from_json\<close> of \<open>apps/desktop/src-tauri/src/infra.rs\<close>.\<close>

definition infra_url :: "rstr \<Rightarrow> u16 \<Rightarrow> rstr \<Rightarrow> rstr" where
  "infra_url h p path = lit ''wss://'' @ h @ [58] @ dec_digits (unat p) @ path"

text \<open>The client connects to the service it was built for, and never in the clear: for every host name or
  IPv4 address, port and path, the address the application makes of them is read back as exactly
  that host and port with TLS on, and the attempt goes on whether or not unencrypted connections are allowed.\<close>

theorem service_address_roundtrip:
  assumes "plain_host h" and "path = [] \<or> hd path = 47" and "sc_url cfg = infra_url h p path"
  shows "parse_url (infra_url h p path) = Inr \<lparr>sgt_host = h, sgt_port = p, sgt_tls = True\<rparr> \<and>
    sig_connect cfg None = Inr \<lparr>sgt_host = h, sgt_port = p, sgt_tls = True\<rparr>"
proof -
  let ?ds = "dec_digits (unat p)" and ?a = "h @ 58 # dec_digits (unat p)"
  have dg: "\<forall>c \<in> set ?ds. 48 \<le> c \<and> c \<le> 57" using dec_digits_digit by (auto simp: is_ascii_digit_def)
  have h: "\<forall>c \<in> set h. c \<noteq> 47 \<and> c \<noteq> 58 \<and> c \<noteq> 91 \<and> c \<noteq> 93" "h \<noteq> []"
    using assms(1) by (auto simp: plain_host_def list_all_iff)
  have a: "47 \<notin> set ?a" using dg h(1) by fastforce
  have "split_on 47 (?a @ path) = ?a # tl (split_on 47 (?a @ path))"
  proof (cases path)
    case Nil
    then show ?thesis using split_on_plain [OF a] by simp
  next
    case (Cons c r)
    then have "c = 47" using assms(2) by simp
    then show ?thesis using split_on_append [OF a, of r] Cons by simp
  qed
  then have hd: "hd (split_on 47 (?a @ path)) = ?a" by (metis list.sel(1))
  have sp: "split_on 58 ?a = [h, ?ds]" using split_on_unique [of 58 h ?ds] dg h(1) by fastforce
  have pp: "parse_u16 ?ds = Some p" using parse_u16_digits [of "unat p"] unat_bound [of p] by simp
  have hp: "host_port ?a True = Inr (h, p)"
    using h pp trim_plain [OF assms(1)] by (simp add: host_port_def rsplit_once_def sp)
  have pre: "strip_prefix (lit ''wss://'') (infra_url h p path) = Some (?a @ path)"
    unfolding infra_url_def by (simp only: strip_prefix_append append.assoc append_Cons append_Nil)
  have u: "parse_url (infra_url h p path) = Inr \<lparr>sgt_host = h, sgt_port = p, sgt_tls = True\<rparr>"
    unfolding parse_url_def pre option.case prod.case hd hp sum.case using h(2) by simp
  then show ?thesis using assms(3) by (simp add: sig_connect_def)
qed

theorem service_address_roundtrip_witness:
  "parse_url (infra_url (lit ''45.88.9.191'') 8443 (lit ''/ws'')) =
     Inr \<lparr>sgt_host = lit ''45.88.9.191'', sgt_port = 8443, sgt_tls = True\<rparr>"
proof -
  let ?cfg = "\<lparr>sc_url = infra_url (lit ''45.88.9.191'') 8443 (lit ''/ws''), sc_allow_insecure = False, sc_version = [], sc_name = []\<rparr>"
  have "plain_host (lit ''45.88.9.191'')" by (simp add: plain_host_def)
  moreover have "lit ''/ws'' = [] \<or> hd (lit ''/ws'') = 47" by simp
  ultimately show ?thesis using service_address_roundtrip [of "lit ''45.88.9.191''" "lit ''/ws''" ?cfg 8443] by simp
qed

text \<open>A device keeps its identity: in any run of the connection loop, whatever the service answers, the
  stored identity is given up at most once more often than the device signed in, so that a service that
  keeps refusing it costs the identity once and not at every attempt.\<close>

theorem identity_given_up_once:
  "times (gives_up ops cfg) ops cfg (sig_new s) xs \<le> times (signs_in ops cfg) ops cfg (sig_new s) xs + 1"
  using reset_budget [of ops cfg "sig_new s" xs] by (simp add: sig_new_def)

end
