(* ===== verification/First_Contact.thy ===== *)
theory First_Contact
  imports Signaling_Props Server_Props
begin

text \<open>
  Client and server together: what a device that has no identity goes through on its first contact, and
  what a refused sign-in does to a device that has one.
\<close>

section \<open>The server's answers\<close>

lemma register_answer:
  assumes t: "hm_get (sv_tasks s) cid = Some t" "wt_phase t = WP_Auth dl"
    and free: "fst (allow_register (sv_hub s) (wt_ip t) (we_now e))"
    and draw: "we_draws e = (i, secret, True) # others" "hm_get (db_devices (sv_db s)) i = None"
  shows "\<exists>s'. server_apply p s (SE_Input cid (WI_Msg (Some (C_Register ver))) e) = s' \<and>
    sv_out s' = sv_out s @ [(wt_out t, S_Registered i secret)] \<and> sv_tasks s' = sv_tasks s \<and>
    device_hash (sv_db s') i True = Some (Some (hash_secret p secret)) \<and> devices (sv_hub s') = devices (sv_hub s)"
proof -
  obtain g where g: "allow_register (sv_hub s) (wt_ip t) (we_now e) = (True, g)"
    using free by (cases "allow_register (sv_hub s) (wt_ip t) (we_now e)") simp
  have dv: "devices g = devices (sv_hub s)" using devices_kept(4) [of "sv_hub s" "wt_ip t" "we_now e"] g by simp
  show ?thesis using t draw g dv
    by (simp add: ws_auth_input_def ws_register_def REGISTER_TRIES_def insert_device_def hm_contains_def reply_def
        device_hash_def Let_def)
qed

lemma auth_answer:
  assumes t: "hm_get (sv_tasks s) cid = Some t" "wt_phase t = WP_Auth dl"
    and ok: "device_hash (sv_db s) i True = Some (Some (hash_secret p secret))" "we_db e 0"
      "auth_input_ok name ver cands" "secs 60 \<le> we_now e"
  shows "sv_out (server_apply p s (SE_Input cid (WI_Msg (Some (C_Auth i secret ver name cands inc))) e)) =
      sv_out s @ [(wt_out t, S_AuthOk (wsp_ip_text p (wt_ip t)))] \<and>
    hm_get (devices (sv_hub (server_apply p s (SE_Input cid (WI_Msg (Some (C_Auth i secret ver name cands inc))) e)))) i =
      Some (new_conn (sv_hub s) t name cands inc)"
proof -
  have so: "secret_ok p (sv_db s) e i secret" using ok(1,2) by (auto simp: secret_ok_def device_hash_def Let_def)
  show ?thesis using t ok(3,4) so
    by (simp add: ws_auth_input_def ws_auth_def ws_attach_def reply_def set_task_def next_conn_id_def attach_def
        new_conn_def Let_def split: option.split)
qed

lemma auth_refusal:
  assumes t: "hm_get (sv_tasks s) cid = Some t" "wt_phase t = WP_Auth dl" and bad: "\<not> auth_input_ok name ver cands"
  shows "sv_out (server_apply p s (SE_Input cid (WI_Msg (Some (C_Auth i secret ver name cands inc))) e)) =
      sv_out s @ [(wt_out t, S_AuthFailed (lit ''invalid credentials''))]"
  using t bad by (simp add: ws_auth_input_def ws_auth_def reply_def drop_task_def Let_def)

section \<open>A refused sign-in\<close>

text \<open>
  A sign-in whose name, version or candidates the server does not take is answered like one with a wrong
  secret; the client then forgets its identity.
\<close>

lemma refused_input_loses_identity:
  assumes "co_load ops (sg_store g) = (Some c, st)" and "sg_phase g = SG_Connect" "\<not> sg_reset_used g"
    and "sig_connect cfg (au_net e) = Inr tg" "au_sends2 e"
    and "au_frames e = [SF_Binary b]" "au_de e b = Some (S_AuthFailed (lit ''invalid credentials''))"
  shows "sg_store (sig_step ops cfg g (SX_Attempt e now pr j)) = co_clear ops st"
  using assms
  by (simp add: sig_step_def sig_attempt_def sig_try_def authenticate_def obtain_identity_def sig_emit_def Let_def)

text \<open>The name the application makes of 64 characters that take two bytes each is such a name.\<close>

lemma long_name_is_refused: "\<not> auth_input_ok (replicate 64 1575) ver cands"
proof -
  have "str_len (replicate 64 1575) = 128" by (simp add: str_len_def utf8_len_def sum_list_replicate)
  then show ?thesis by (simp add: auth_input_ok_def valid_name_def MAX_NAME_LEN_def)
qed

section \<open>Claims\<close>

text \<open>C9. First contact works: a device without an identity, whose connection the server accepted and whose
  registration it does not limit, registers and signs in on that connection. The server answers with the
  drawn id and secret and then with the confirmation; the client, receiving these two answers,
  stores the identity, reports itself ready under that id, and the device is online under the name and
  with the candidates it announced. This holds for every credential store that meets its contract.\<close>

theorem first_contact_signs_in:
  fixes ops :: "'s cred_ops"
  assumes store: "credential_store ops" "co_load ops st = (None, st1)"
    and task: "hm_get (sv_tasks s) cid = Some t" "wt_phase t = WP_Auth dl"
    and free: "fst (allow_register (sv_hub s) (wt_ip t) (we_now e1))"
    and draw: "we_draws e1 = (i, secret, True) # others" "hm_get (db_devices (sv_db s)) i = None"
    and e2: "we_db e2 0" "secs 60 \<le> we_now e2"
    and input: "auth_input_ok (sc_name cfg) (sc_version cfg) (au_candidates ae)"
    and wire: "au_sends1 ae" "au_sends2 ae" "au_frames ae = [SF_Binary b1, SF_Binary b2]"
      "au_de ae b1 = Some (S_Registered i secret)" "au_de ae b2 = Some (S_AuthOk (wsp_ip_text p (wt_ip t)))"
  shows "\<exists>s1 s2 st2. server_apply p s (SE_Input cid (WI_Msg (Some (C_Register (sc_version cfg)))) e1) = s1 \<and>
    server_apply p s1 (SE_Input cid (WI_Msg (Some (auth_message cfg ae \<lparr>cr_id = i, cr_secret = secret\<rparr>))) e2) = s2 \<and>
    sv_out s2 = sv_out s @ [(wt_out t, S_Registered i secret), (wt_out t, S_AuthOk (wsp_ip_text p (wt_ip t)))] \<and>
    authenticate ops cfg ae st =
      ([C_Register (sc_version cfg), auth_message cfg ae \<lparr>cr_id = i, cr_secret = secret\<rparr>], HO_Ready i, st2) \<and>
    fst (co_load ops st2) = Some \<lparr>cr_id = i, cr_secret = secret\<rparr> \<and>
    (\<exists>c. hm_get (devices (sv_hub s2)) i = Some c \<and> conn_name c = sc_name cfg \<and>
      conn_candidates c = au_candidates ae \<and> incoming_enabled c = au_incoming ae)"
proof -
  let ?c = "\<lparr>cr_id = i, cr_secret = secret\<rparr>"
  from register_answer [OF task free draw, of p "sc_version cfg"] obtain s1 where s1:
    "server_apply p s (SE_Input cid (WI_Msg (Some (C_Register (sc_version cfg)))) e1) = s1"
    "sv_out s1 = sv_out s @ [(wt_out t, S_Registered i secret)]" "sv_tasks s1 = sv_tasks s"
    "device_hash (sv_db s1) i True = Some (Some (hash_secret p secret))" by blast
  note an = auth_answer [OF _ task(2) s1(4) e2(1) input e2(2), of cid "au_incoming ae"]
  let ?s2 = "server_apply p s1 (SE_Input cid (WI_Msg (Some (auth_message cfg ae ?c))) e2)"
  have s2: "sv_out ?s2 = sv_out s1 @ [(wt_out t, S_AuthOk (wsp_ip_text p (wt_ip t)))]"
    "hm_get (devices (sv_hub ?s2)) i = Some (new_conn (sv_hub s1) t (sc_name cfg) (au_candidates ae) (au_incoming ae))"
    using an task(1) s1(3) by (simp_all add: auth_message_def)
  have cl: "authenticate ops cfg ae st =
      ([C_Register (sc_version cfg), auth_message cfg ae ?c], HO_Ready i, co_save ops st1 ?c)"
    using store(2) wire by (simp add: authenticate_def obtain_identity_def Let_def)
  have "fst (co_load ops (co_save ops st1 ?c)) = Some ?c"
    using store(1) by (rule credential_store.load_saved)
  then show ?thesis using s1(1,2) s2 cl
    by (intro exI [of _ s1] exI [of _ ?s2] exI [of _ "co_save ops st1 ?c"]) (simp add: new_conn_def)
qed

section \<open>A first contact\<close>

definition demo_protection :: protection where
  "demo_protection = \<lparr>pr_ser = (\<lambda>c. Some (cr_secret c)), pr_de = (\<lambda>b. Some \<lparr>cr_id = [], cr_secret = b\<rparr>),
     pr_protect = Some, pr_unprotect = Some\<rparr>"

definition demo_store :: cred_store where
  "demo_store = \<lparr>cs_disk = [], cs_path = [lit ''identity.bin''], cs_cache = None\<rparr>"

definition demo_config :: sig_config where
  "demo_config = \<lparr>sc_url = infra_url (lit ''host'') 443 (lit ''/ws''), sc_allow_insecure = False, sc_version = lit ''1'',
     sc_name = lit ''pc''\<rparr>"

definition demo_answers :: auth_env where
  "demo_answers = \<lparr>au_net = None, au_sends1 = True, au_sends2 = True, au_frames = [SF_Binary [1], SF_Binary [2]],
     au_de = (\<lambda>b. if b = [1] then Some (S_Registered (lit ''123456789'') [1, 2]) else Some (S_AuthOk [55])),
     au_candidates = [lit ''10.0.0.2:9''], au_incoming = True\<rparr>"

definition demo_waiting :: server where
  "demo_waiting = ws_accept (server_new 5 8 0) 0 7 10 10 (demo_env (secs 60))"

definition demo_waiting_task :: ws_task where
  "demo_waiting_task = \<lparr>wt_ip = 7, wt_out = 10, wt_kick = 10, wt_phase = WP_Auth (secs 60 + AUTH_DEADLINE), wt_id = [],
     wt_conn = 0, wt_window_start = 0, wt_window_count = 0, wt_last_presence = 0\<rparr>"

theorem first_contact_signs_in_witness:
  "\<exists>st2. authenticate (dpapi_ops demo_protection io_fine) demo_config demo_answers demo_store =
     ([C_Register (lit ''1''), auth_message demo_config demo_answers \<lparr>cr_id = lit ''123456789'', cr_secret = [1, 2]\<rparr>],
      HO_Ready (lit ''123456789''), st2)"
proof -
  have st: "co_load (dpapi_ops demo_protection io_fine) demo_store = (None, demo_store)"
    by (simp add: dpapi_ops_def cred_load_def demo_store_def read_path_def)
  have t: "hm_get (sv_tasks demo_waiting) 0 = Some demo_waiting_task"
    by (simp add: demo_waiting_def ws_accept_def ip_banned_for_auth_def locked_def server_new_def hub_new_def new_limiters_def
        limiter_new_def set_task_def demo_waiting_task_def demo_env_def)
  have ph: "wt_phase demo_waiting_task = WP_Auth (secs 60 + AUTH_DEADLINE)" by (simp add: demo_waiting_task_def)
  have free: "fst (allow_register (sv_hub demo_waiting) (wt_ip demo_waiting_task) (we_now (demo_env (secs 60))))" by code_simp
  have draw: "we_draws (demo_env (secs 60)) = (lit ''123456789'', [1, 2], True) # []" by (simp add: demo_env_def)
  have new: "hm_get (db_devices (sv_db demo_waiting)) (lit ''123456789'') = None" by code_simp
  have db: "we_db (demo_env (secs 60)) 0" "secs 60 \<le> we_now (demo_env (secs 60))" by (simp_all add: demo_env_def)
  have inp: "auth_input_ok (sc_name demo_config) (sc_version demo_config) (au_candidates demo_answers)" by code_simp
  have w: "au_sends1 demo_answers" "au_sends2 demo_answers" "au_frames demo_answers = [SF_Binary [1], SF_Binary [2]]"
    "au_de demo_answers [1] = Some (S_Registered (lit ''123456789'') [1, 2])"
    "au_de demo_answers [2] = Some (S_AuthOk (wsp_ip_text demo_params (wt_ip demo_waiting_task)))"
    by (simp_all add: demo_answers_def demo_params_def demo_waiting_task_def)
  have v: "sc_version demo_config = lit ''1''" by (simp add: demo_config_def)
  show ?thesis
    using first_contact_signs_in [OF dpapi.credential_store_axioms st t ph free draw new db inp w] v by auto
qed

end
