(* ===== verification/Shell.thy ===== *)
theory Shell
  imports Views Utf8 Floats
begin

text \<open>
  The last hop between the engine and the web page of the desktop application: the binary input packets
  (\<open>decode_input\<close> of \<open>apps/desktop/src-tauri/src/commands.rs\<close>, written by \<open>encodeInput\<close> of
  \<open>apps/desktop/src/lib/inputPacket.ts\<close>) and the video frames with their acknowledgements
  (\<open>video_packet\<close> and \<open>forward\<close> of \<open>lib.rs\<close>, read by \<open>parsePacket\<close> of \<open>apps/desktop/src/lib/codec.ts\<close>).
\<close>

section \<open>Input\<close>

datatype ui_input =
    UI_MouseMove u16 u16
  | UI_MouseButton u8 bool
  | UI_Wheel i16 i16
  | UI_Key u16 bool bool
  | UI_Text rstr
  | UI_ReleaseAll

definition ui_button :: "u8 \<Rightarrow> mouse_button" where
  "ui_button b = (if b = 0 then B_Left else if b = 1 then B_Middle else if b = 2 then B_Right
     else if b = 3 then B_Back else B_Forward)"

definition ui_event :: "ui_input \<Rightarrow> input_event" where
  "ui_event i = (case i of
     UI_MouseMove x y \<Rightarrow> MouseMove x y
   | UI_MouseButton b down \<Rightarrow> MouseButton (ui_button b) down
   | UI_Wheel dx dy \<Rightarrow> Wheel dx dy
   | UI_Key sc ext down \<Rightarrow> Key sc ext down
   | UI_Text t \<Rightarrow> TextInput (take 4096 t)
   | UI_ReleaseAll \<Rightarrow> ReleaseAll)"

text \<open>\<open>slice::get\<close> of an index and of a range.\<close>

definition byte_at :: "u8 list \<Rightarrow> nat \<Rightarrow> u8 option" where
  "byte_at b i = (if i < length b then Some (b ! i) else None)"

definition bytes_at :: "u8 list \<Rightarrow> nat \<Rightarrow> nat \<Rightarrow> u8 list option" where
  "bytes_at b i n = (if i + n \<le> length b then Some (take n (drop i b)) else None)"

definition u16_at :: "u8 list \<Rightarrow> nat \<Rightarrow> u16 option" where
  "u16_at p i = map_option (\<lambda>s. of_nat (le_val s)) (bytes_at p i 2)"

definition decode_payload :: "u8 \<Rightarrow> u8 list \<Rightarrow> input_event option" where
  "decode_payload kind p =
     (if kind = 0 then Option.bind (u16_at p 0) (\<lambda>x. map_option (MouseMove x) (u16_at p 2))
      else if kind = 1 then
        Option.bind (byte_at p 0) (\<lambda>b. map_option (\<lambda>d. ui_event (UI_MouseButton b (d \<noteq> 0))) (byte_at p 1))
      else if kind = 2 then Option.bind (u16_at p 0) (\<lambda>x. map_option (Wheel x) (u16_at p 2))
      else if kind = 3 then
        Option.bind (u16_at p 0) (\<lambda>s. Option.bind (byte_at p 2) (\<lambda>e. map_option (\<lambda>d. Key s (e \<noteq> 0) (d \<noteq> 0)) (byte_at p 3)))
      else if kind = 4 then map_option TextInput (from_utf8 p)
      else if kind = 5 then Some ReleaseAll
      else None)"

definition decode_input :: "u8 list \<Rightarrow> (u64 \<times> input_event) option" where
  "decode_input b =
     Option.bind (bytes_at b 0 4) (\<lambda>s.
       Option.bind (if 5 \<le> length b then Some (drop 5 b) else None) (\<lambda>p.
         Option.bind (byte_at b 4) (\<lambda>kind.
           map_option (Pair (of_nat (le_val s))) (decode_payload kind p))))"

text \<open>What the page writes.\<close>

definition flag :: "bool \<Rightarrow> u8" where
  "flag b = (if b then 1 else 0)"

definition encode_input :: "u64 \<Rightarrow> ui_input \<Rightarrow> u8 list" where
  "encode_input session e =
     le_bytes 4 (unat (ucast session :: u32)) @
     (case e of
        UI_MouseMove x y \<Rightarrow> 0 # le_bytes 2 (unat x) @ le_bytes 2 (unat y)
      | UI_MouseButton b down \<Rightarrow> [1, b, flag down]
      | UI_Wheel dx dy \<Rightarrow> 2 # le_bytes 2 (unat dx) @ le_bytes 2 (unat dy)
      | UI_Key sc ext down \<Rightarrow> 3 # le_bytes 2 (unat sc) @ [flag ext, flag down]
      | UI_Text t \<Rightarrow> 4 # as_bytes t
      | UI_ReleaseAll \<Rightarrow> [5])"

section \<open>Video\<close>

definition codec_byte :: "codec \<Rightarrow> u8" where
  "codec_byte c = (case c of H264 \<Rightarrow> 0 | H265 \<Rightarrow> 1 | Av1 \<Rightarrow> 2)"

definition video_packet :: "video_frame \<Rightarrow> u8 list" where
  "video_packet f =
     [flag (vf_keyframe f), codec_byte (vf_codec f)] @ le_bytes 4 (unat (vf_width f)) @ le_bytes 4 (unat (vf_height f)) @
     le_bytes 8 (unat (vf_captured_ms f)) @ le_bytes 8 (unat (vf_seq f)) @ vf_data f"

text \<open>The page's reading of it; \<open>Number\<close> of a 64-bit integer rounds to 53 bits.\<close>

record video_header =
  vh_keyframe :: bool
  vh_codec :: codec
  vh_width :: u32
  vh_height :: u32
  vh_captured_ms :: rat
  vh_seq :: rat
  vh_data :: "u8 list"

definition HEADER_BYTES :: nat where "HEADER_BYTES = 26"

definition js_number :: "nat \<Rightarrow> rat" where
  "js_number n = r64 (of_nat n)"

definition parse_packet :: "u8 list \<Rightarrow> video_header option" where
  "parse_packet b =
     (if length b \<le> HEADER_BYTES then None
      else let u = (\<lambda>i n. le_val (take n (drop i b)))
           in if b ! 1 \<ge> 3 then None
              else Some \<lparr>vh_keyframe = b ! 0 = 1, vh_codec = [H264, H265, Av1] ! unat (b ! 1), vh_width = of_nat (u 2 4),
                         vh_height = of_nat (u 6 4), vh_captured_ms = js_number (u 10 8), vh_seq = js_number (u 18 8),
                         vh_data = drop HEADER_BYTES b\<rparr>)"

text \<open>
  Frames the page has not acknowledged. \<open>sh_sent\<close> and \<open>sh_keys\<close> are what went out: the packets to the page, the requests for
  a keyframe to the viewer sessions. \<open>ok\<close>: the channel took the packet.

  The forwarding loop, the page's subscription and its acknowledgements run on threads of their own. A step
  is what one of them does to the shared state at once: the loop reads the counter, then sends under the lock of the channel,
  then counts and lets the lock go; a subscription sets the channel under the lock and then, without it, the counter;
  an acknowledgement changes the counter alone. A step that has to wait for the lock changes nothing.
\<close>

definition MAX_INFLIGHT_FRAMES :: u64 where "MAX_INFLIGHT_FRAMES = 3"

datatype forwarder = FW_Idle | FW_Passed video_frame | FW_Sent

record shell =
  sh_inflight :: u64
  sh_stale :: u64
  sh_subscribed :: bool
  sh_key_at :: instant
  sh_sent :: "video_frame list"
  sh_keys :: "u64 list"
  sh_forwarder :: forwarder
  sh_subscribing :: nat

definition shell_new :: "instant \<Rightarrow> shell" where
  "shell_new now = \<lparr>sh_inflight = 0, sh_stale = 0, sh_subscribed = False, sh_key_at = now, sh_sent = [], sh_keys = [],
     sh_forwarder = FW_Idle, sh_subscribing = 0\<rparr>"

definition forward_check :: "shell \<Rightarrow> u64 \<Rightarrow> video_frame \<Rightarrow> instant \<Rightarrow> shell" where
  "forward_check s session f now =
     (if sh_forwarder s \<noteq> FW_Idle then s
      else if sh_inflight s \<ge> MAX_INFLIGHT_FRAMES \<and> \<not> vf_keyframe f
      then let s1 = s\<lparr>sh_stale := sh_stale s + 1\<rparr>
           in if duration_since now (sh_key_at s) > millis 500
              then s1\<lparr>sh_key_at := now, sh_keys := sh_keys s @ [session]\<rparr> else s1
      else s\<lparr>sh_forwarder := FW_Passed f\<rparr>)"

definition forward_send :: "shell \<Rightarrow> bool \<Rightarrow> shell" where
  "forward_send s ok =
     (case sh_forwarder s of
        FW_Passed f \<Rightarrow>
          if sh_subscribed s \<and> ok then s\<lparr>sh_sent := sh_sent s @ [f], sh_forwarder := FW_Sent\<rparr>
          else s\<lparr>sh_forwarder := FW_Idle\<rparr>
      | _ \<Rightarrow> s)"

definition forward_count :: "shell \<Rightarrow> shell" where
  "forward_count s =
     (if sh_forwarder s = FW_Sent then s\<lparr>sh_inflight := sh_inflight s + 1, sh_forwarder := FW_Idle\<rparr> else s)"

definition subscribe_set :: "shell \<Rightarrow> shell" where
  "subscribe_set s =
     (if sh_forwarder s = FW_Sent then s else s\<lparr>sh_subscribed := True, sh_subscribing := sh_subscribing s + 1\<rparr>)"

definition subscribe_zero :: "shell \<Rightarrow> shell" where
  "subscribe_zero s =
     (if sh_subscribing s = 0 then s else s\<lparr>sh_inflight := 0, sh_subscribing := sh_subscribing s - 1\<rparr>)"

definition video_ack :: "shell \<Rightarrow> u64 \<Rightarrow> shell" where
  "video_ack s count = s\<lparr>sh_inflight := sat_sub (sh_inflight s) count\<rparr>"

datatype shell_step =
  SH_Check u64 video_frame instant | SH_Send bool | SH_Count | SH_Subscribe | SH_Zero | SH_Ack u64

definition shell_step :: "shell \<Rightarrow> shell_step \<Rightarrow> shell" where
  "shell_step s x =
     (case x of
        SH_Check n f now \<Rightarrow> forward_check s n f now
      | SH_Send ok \<Rightarrow> forward_send s ok
      | SH_Count \<Rightarrow> forward_count s
      | SH_Subscribe \<Rightarrow> subscribe_set s
      | SH_Zero \<Rightarrow> subscribe_zero s
      | SH_Ack n \<Rightarrow> video_ack s n)"

definition shell_run :: "shell \<Rightarrow> shell_step list \<Rightarrow> shell" where
  "shell_run s xs = foldl shell_step s xs"

end
