(* ===== verification/Shell_Props.thy ===== *)
theory Shell_Props
  imports Shell
begin

text \<open>
  What page and shell exchange arrives as it was sent, and the shell keeps the backlog of video frames
  in front of the page short.
\<close>

section \<open>Input packets\<close>

lemma le_bytes_2: "le_bytes 2 n = [of_nat (n mod 256), of_nat (n div 256 mod 256)]"
  by (simp add: numeral_2_eq_2)

lemma length_le_4 [simp]: "le_bytes 4 n ! 0 = of_nat (n mod 256)" "length (le_bytes 4 n) = 4"
  by (simp_all add: le_bytes_4)

lemma u16_at_read: "i + 2 \<le> length p \<Longrightarrow> take 2 (drop i p) = le_bytes 2 (unat x) \<Longrightarrow> u16_at p i = Some x"
proof -
  assume "i + 2 \<le> length p" "take 2 (drop i p) = le_bytes 2 (unat x)"
  moreover have "le_val (le_bytes 2 (unat x)) = unat x" using unat_bound [of x] by (intro le_val_le_bytes) simp
  ultimately show ?thesis by (simp add: u16_at_def bytes_at_def)
qed

lemma u16_pair [simp]: "u16_at (le_bytes 2 (unat x) @ r) 0 = Some x" "u16_at (le_bytes 2 (unat x) @ le_bytes 2 (unat y)) 2 = Some y"
  by (rule u16_at_read; simp)+

lemma byte_behind [simp]:
  "byte_at (le_bytes 2 n @ [a, b]) 2 = Some a" "byte_at (le_bytes 2 n @ [a, b]) 3 = Some b"
  "byte_at (a # r) 0 = Some a" "byte_at [a, b] (Suc 0) = Some b"
  by (simp_all add: byte_at_def nth_append)

lemma flag_zero [simp]: "(flag b \<noteq> 0) = b" "(flag b = 1) = b" "flag b = 0 \<longleftrightarrow> \<not> b"
  by (simp_all add: flag_def)

lemma decode_split: "decode_input (le_bytes 4 n @ k # p) = map_option (Pair (of_nat (le_val (le_bytes 4 n)))) (decode_payload k p)"
  by (simp add: decode_input_def bytes_at_def byte_at_def nth_append)

text \<open>What the page means by a packet; text is not cut on this path.\<close>

definition page_event :: "ui_input \<Rightarrow> input_event" where
  "page_event e = (case e of UI_Text t \<Rightarrow> TextInput t | _ \<Rightarrow> ui_event e)"

lemma decode_read:
  assumes "case e of UI_Text t \<Rightarrow> scalar_str t | _ \<Rightarrow> True"
  shows "decode_input (encode_input s e) = Some (ucast (ucast s :: u32), page_event e)"
proof -
  let ?n = "unat (ucast s :: u32)"
  have "le_val (le_bytes 4 ?n) = ?n" using unat_bound [of "ucast s :: u32"] by (intro le_val_le_bytes) simp
  then have v: "(of_nat (le_val (le_bytes 4 ?n)) :: u64) = ucast (ucast s :: u32)" by simp
  show ?thesis
    using assms unfolding encode_input_def
    by (cases e) (simp_all add: decode_split v decode_payload_def page_event_def ui_event_def from_utf8_as_bytes del: of_nat_unat)
qed

lemma short_u16 [simp]: "length p < i + 2 \<Longrightarrow> u16_at p i = None"
  by (simp add: u16_at_def bytes_at_def)

lemma short_byte [simp]: "length p \<le> i \<Longrightarrow> byte_at p i = None"
  by (simp add: byte_at_def)

lemma decode_cut:
  assumes "n < length (encode_input s e)" and "\<forall>t. e \<noteq> UI_Text t"
  shows "decode_input (take n (encode_input s e)) = None"
proof (cases "n < 5")
  case True
  then show ?thesis using assms(1) by (simp add: decode_input_def bytes_at_def split: if_splits bind_split)
next
  case False
  then obtain m where m: "n = Suc (4 + m)" by (metis add_Suc less_eqE linorder_not_less numeral_eq_Suc pred_numeral_simps(3) Suc_eq_plus1 add.commute eval_nat_numeral(3))
  have t: "take n (le_bytes 4 k @ c # p) = le_bytes 4 k @ c # take m p" for k c and p :: "u8 list" by (simp add: m)
  have n: "Option.bind x (\<lambda>_. None) = None" for x :: "'a option" by (cases x) simp_all
  show ?thesis
    using assms unfolding encode_input_def
    by (cases e) (simp_all add: t decode_split decode_payload_def m n)
qed

text \<open>C31. Every input event of the page reaches the engine as it was meant: whatever the event, the shell decodes the
  page's packet to the session it was for and the event it says, and a packet cut short anywhere
  is refused, text apart. The session number must fit the four bytes the packet has for it.\<close>

theorem input_packet_roundtrip:
  assumes "unat s < 2 ^ 32" and "case e of UI_Text t \<Rightarrow> scalar_str t | _ \<Rightarrow> True"
  shows "decode_input (encode_input s e) = Some (s, page_event e) \<and>
    (n < length (encode_input s e) \<and> (\<forall>t. e \<noteq> UI_Text t) \<longrightarrow> decode_input (take n (encode_input s e)) = None)"
proof -
  have "ucast (ucast s :: u32) = s"
    using assms(1) by (intro unat_eqI) (simp add: unsigned_ucast_eq unsigned_take_bit_eq take_bit_nat_eq_self)
  then show ?thesis using decode_read [OF assms(2), of s] decode_cut [of n s e] by simp
qed

theorem input_packet_roundtrip_witness:
  "decode_input (encode_input 7 (UI_Wheel 0xFFFE 10)) = Some (7, Wheel 0xFFFE 10) \<and>
   decode_input (take 8 (encode_input 7 (UI_Wheel 0xFFFE 10))) = None"
proof -
  have "page_event (UI_Wheel 0xFFFE 10) = Wheel 0xFFFE 10" by (simp add: page_event_def ui_event_def)
  moreover have "8 < length (encode_input 7 (UI_Wheel 0xFFFE 10))" by (simp add: encode_input_def)
  ultimately show ?thesis using input_packet_roundtrip [of 7 "UI_Wheel 0xFFFE 10" 8] by simp
qed

text \<open>A session number that does not fit names another session.\<close>

lemma session_number_wraps: "decode_input (encode_input 0x100000007 UI_ReleaseAll) = Some (7, ReleaseAll)"
  by (simp add: decode_read page_event_def ui_event_def)

section \<open>Video packets\<close>

lemma take_le: "k = n \<Longrightarrow> take k (le_bytes n x @ r) = le_bytes n x"
  by simp

lemma video_fields:
  fixes f :: video_frame
  shows "length (video_packet f) = 26 + length (vf_data f)" "video_packet f ! 0 = flag (vf_keyframe f)"
    "video_packet f ! 1 = codec_byte (vf_codec f)" "take 4 (drop 2 (video_packet f)) = le_bytes 4 (unat (vf_width f))"
    "take 4 (drop 6 (video_packet f)) = le_bytes 4 (unat (vf_height f))"
    "take 8 (drop 10 (video_packet f)) = le_bytes 8 (unat (vf_captured_ms f))"
    "take 8 (drop 18 (video_packet f)) = le_bytes 8 (unat (vf_seq f))" "drop 26 (video_packet f) = vf_data f"
proof -
  have at: "length a = i \<Longrightarrow> length b = n \<Longrightarrow> take n (drop i (a @ b @ r)) = b" for a b r :: "u8 list" and i n by simp
  have behind: "length a = i \<Longrightarrow> drop i (a @ r) = r" for a r :: "u8 list" and i by simp
  let ?h = "[flag (vf_keyframe f), codec_byte (vf_codec f)]" and ?w = "le_bytes 4 (unat (vf_width f))"
  let ?v = "le_bytes 4 (unat (vf_height f))" and ?t = "le_bytes 8 (unat (vf_captured_ms f))" and ?q = "le_bytes 8 (unat (vf_seq f))"
  have l: "length ?h = 2" "length ?w = 4" "length ?v = 4" "length ?t = 8" "length ?q = 8" by simp_all
  have d: "video_packet f = ?h @ ?w @ ?v @ ?t @ ?q @ vf_data f" by (simp only: video_packet_def append.assoc)
  show "length (video_packet f) = 26 + length (vf_data f)" unfolding d length_append l by simp
  show "video_packet f ! 0 = flag (vf_keyframe f)" "video_packet f ! 1 = codec_byte (vf_codec f)" unfolding d by simp_all
  show "take 4 (drop 2 (video_packet f)) = ?w" unfolding d using l by (intro at)
  have 6: "length (?h @ ?w) = 6" and 10: "length (?h @ ?w @ ?v) = 10" and 18: "length (?h @ ?w @ ?v @ ?t) = 18"
    unfolding length_append l by simp_all
  show "take 4 (drop 6 (video_packet f)) = ?v" unfolding d using at [OF 6 l(3)] by (simp only: append.assoc)
  show "take 8 (drop 10 (video_packet f)) = ?t" unfolding d using at [OF 10 l(4)] by (simp only: append.assoc)
  show "take 8 (drop 18 (video_packet f)) = ?q" unfolding d using at [OF 18 l(5)] by (simp only: append.assoc)
  have "length (?h @ ?w @ ?v @ ?t @ ?q) = 26" unfolding length_append l by simp
  then have "drop 26 ((?h @ ?w @ ?v @ ?t @ ?q) @ vf_data f) = vf_data f" by (rule behind)
  then show "drop 26 (video_packet f) = vf_data f" unfolding d by (simp only: append.assoc)
qed

lemma le_back: "le_val (le_bytes 4 (unat (w :: u32))) = unat w" "le_val (le_bytes 8 (unat (v :: u64))) = unat v"
  using unat_bound [of w] unat_bound [of v] by (simp_all add: le_val_le_bytes)

text \<open>A frame with a picture in it is read as it was written; the two times are exact below \<open>2 ^ 53\<close>.\<close>

lemma video_packet_read:
  assumes "vf_data f \<noteq> []"
  shows "parse_packet (video_packet f) =
    Some \<lparr>vh_keyframe = vf_keyframe f, vh_codec = vf_codec f, vh_width = vf_width f, vh_height = vf_height f,
      vh_captured_ms = js_number (unat (vf_captured_ms f)), vh_seq = js_number (unat (vf_seq f)), vh_data = vf_data f\<rparr>"
proof -
  have c: "\<not> 3 \<le> codec_byte (vf_codec f)" "[H264, H265, Av1] ! unat (codec_byte (vf_codec f)) = vf_codec f"
    by (cases "vf_codec f"; simp add: codec_byte_def word_le_nat_alt)+
  have n: "\<not> length (video_packet f) \<le> HEADER_BYTES"
    using assms unfolding video_fields(1) HEADER_BYTES_def by simp
  note v = video_fields [of f, folded HEADER_BYTES_def]
  have "(3 \<le> codec_byte (vf_codec f)) = False" using c(1) by simp
  note e = parse_packet_def [of "video_packet f", unfolded Let_def v le_back this c(2) flag_zero if_False]
  show ?thesis unfolding e using n by (simp only: if_False v HEADER_BYTES_def of_nat_unat) simp
qed

lemma js_number_exact: "n < 2 ^ 53 \<Longrightarrow> js_number n = of_nat n"
  by (simp add: js_number_def r64_nat)

section \<open>The backlog\<close>

text \<open>
  The frames in front of the page: those sent on its channel that it has not acknowledged. And how many of
  them stood there, and are not counted, when a subscription last set the counter back.
\<close>

record backlog =
  bl_shell :: shell
  bl_waiting :: "video_frame list"
  bl_uncounted :: nat

definition backlog_new :: "instant \<Rightarrow> backlog" where
  "backlog_new now = \<lparr>bl_shell = shell_new now, bl_waiting = [], bl_uncounted = 0\<rparr>"

definition sent_now :: "shell \<Rightarrow> shell \<Rightarrow> video_frame list" where
  "sent_now s s' = drop (length (sh_sent s)) (sh_sent s')"

definition backlog_step :: "backlog \<Rightarrow> shell_step \<Rightarrow> backlog" where
  "backlog_step b x =
     (let s = bl_shell b; s' = shell_step s x
      in b\<lparr>bl_shell := s',
           bl_waiting := (case x of
               SH_Subscribe \<Rightarrow> if sh_subscribing s' = sh_subscribing s then bl_waiting b else []
             | SH_Ack n \<Rightarrow> drop (unat n) (bl_waiting b)
             | _ \<Rightarrow> bl_waiting b @ sent_now s s'),
           bl_uncounted := (case x of
               SH_Zero \<Rightarrow> if sh_subscribing s = 0 then bl_uncounted b else length (bl_waiting b)
             | _ \<Rightarrow> bl_uncounted b)\<rparr>)"

definition backlog_run :: "instant \<Rightarrow> shell_step list \<Rightarrow> backlog" where
  "backlog_run now xs = foldl backlog_step (backlog_new now) xs"

definition deltas :: "video_frame list \<Rightarrow> nat" where
  "deltas fs = length (filter (\<lambda>f. \<not> vf_keyframe f) fs)"

lemma deltas_simps [simp]: "deltas [] = 0" "deltas (fs @ [f]) = deltas fs + (if vf_keyframe f then 0 else 1)"
  by (simp_all add: deltas_def)

lemma deltas_le: "deltas fs \<le> length fs"
  by (simp add: deltas_def)

lemma deltas_drop: "deltas (drop n fs) \<le> deltas fs"
  using length_filter_le [of _ "take n fs"] append_take_drop_id [of n fs] unfolding deltas_def
  by (metis filter_append length_append le_add2)

text \<open>
  The counter is at most behind by what is not counted and by the frame about to be counted; a frame that
  passed the check and is no keyframe finds at most two more than those in front of it.
\<close>

definition passed_ok :: "backlog \<Rightarrow> bool" where
  "passed_ok b \<longleftrightarrow>
     (case sh_forwarder (bl_shell b) of
        FW_Passed f \<Rightarrow> vf_keyframe f \<or> length (bl_waiting b) \<le> 2 + bl_uncounted b
      | _ \<Rightarrow> True)"

definition backlog_ok :: "nat \<Rightarrow> backlog \<Rightarrow> bool" where
  "backlog_ok k b \<longleftrightarrow>
     length (bl_waiting b) \<le> unat (sh_inflight (bl_shell b)) + bl_uncounted b +
       (if sh_forwarder (bl_shell b) = FW_Sent then 1 else 0) \<and>
     unat (sh_inflight (bl_shell b)) \<le> k \<and> deltas (bl_waiting b) \<le> 3 + bl_uncounted b \<and> passed_ok b"

lemma backlog_ok_step:
  assumes ok: "backlog_ok k b" and k: "Suc k < 2 ^ 64"
  shows "backlog_ok (Suc k) (backlog_step b x)"
proof (cases x)
  case (SH_Check n f now)
  show ?thesis
  proof (cases "sh_forwarder (bl_shell b) = FW_Idle")
    case True
    then show ?thesis using ok SH_Check
      by (auto simp: backlog_ok_def passed_ok_def backlog_step_def shell_step_def forward_check_def sent_now_def Let_def
          MAX_INFLIGHT_FRAMES_def word_le_nat_alt)
  next
    case False
    then show ?thesis using ok SH_Check
      by (auto simp: backlog_ok_def passed_ok_def backlog_step_def shell_step_def forward_check_def sent_now_def
          split: forwarder.splits)
  qed
next
  case (SH_Send taken)
  show ?thesis
  proof (cases "sh_forwarder (bl_shell b)")
    case (FW_Passed f)
    then show ?thesis using ok deltas_le [of "bl_waiting b"] SH_Send
      by (auto simp: backlog_ok_def passed_ok_def backlog_step_def shell_step_def forward_send_def sent_now_def Let_def)
  qed (use ok SH_Send in \<open>auto simp: backlog_ok_def passed_ok_def backlog_step_def shell_step_def forward_send_def sent_now_def Let_def\<close>)
next
  case SH_Count
  have w: "unat (sh_inflight (bl_shell b) + 1) = Suc (unat (sh_inflight (bl_shell b)))"
    using ok k by (simp add: backlog_ok_def unat_add_no_wrap)
  show ?thesis using ok w SH_Count
    by (cases "sh_forwarder (bl_shell b)")
      (auto simp: backlog_ok_def passed_ok_def backlog_step_def shell_step_def forward_count_def sent_now_def Let_def)
next
  case SH_Subscribe
  then show ?thesis using ok
    by (auto simp: backlog_ok_def passed_ok_def backlog_step_def shell_step_def subscribe_set_def Let_def split: forwarder.splits)
next
  case SH_Zero
  then show ?thesis using ok deltas_le [of "bl_waiting b"]
    by (auto simp: backlog_ok_def passed_ok_def backlog_step_def shell_step_def subscribe_zero_def sent_now_def Let_def
        split: forwarder.splits)
next
  case (SH_Ack n)
  then show ?thesis using ok deltas_drop [of "unat n" "bl_waiting b"]
    by (auto simp: backlog_ok_def passed_ok_def backlog_step_def shell_step_def video_ack_def unat_sat_sub Let_def
        split: forwarder.splits)
qed

lemma backlog_ok_run: "length xs < 2 ^ 64 \<Longrightarrow> backlog_ok (length xs) (backlog_run now xs)"
proof (induction xs rule: rev_induct)
  case Nil
  then show ?case by (simp add: backlog_run_def backlog_new_def backlog_ok_def passed_ok_def shell_new_def)
next
  case (snoc x xs)
  then show ?case using backlog_ok_step [of "length xs" _ x] by (simp add: backlog_run_def)
qed

lemma backlog_shell: "bl_shell (backlog_run now xs) = shell_run (shell_new now) xs"
  by (induction xs rule: rev_induct) (simp_all add: backlog_run_def backlog_new_def shell_run_def backlog_step_def Let_def)

text \<open>C32. How much latency the shell adds, for every interleaving of the forwarding loop, the page's subscriptions and its
  acknowledgements: of the frames in front of the page at most three are not keyframes, which alone may pass
  a full backlog, besides those that were sent on the channel before its subscription set the counter back. The
  counter is never behind by more than these and the frame about to be counted.\<close>

theorem shell_backlog_bounded:
  assumes "length xs < 2 ^ 64"
  shows "deltas (bl_waiting (backlog_run now xs)) \<le> 3 + bl_uncounted (backlog_run now xs) \<and>
    length (bl_waiting (backlog_run now xs)) \<le>
      unat (sh_inflight (shell_run (shell_new now) xs)) + bl_uncounted (backlog_run now xs) + 1"
  using backlog_ok_run [OF assms, of now] unfolding backlog_shell [symmetric] backlog_ok_def
  by (auto split: if_splits)

text \<open>A frame of a stream, and a run: five frames and one acknowledgement of two.\<close>

definition demo_frame :: "bool \<Rightarrow> u64 \<Rightarrow> video_frame" where
  "demo_frame key n = \<lparr>vf_seq = n, vf_display = 0, vf_codec = H264, vf_keyframe = key, vf_width = 640, vf_height = 480,
     vf_captured_ms = 0, vf_input_seq = 0, vf_data = [1]\<rparr>"

definition forward_whole :: "bool \<Rightarrow> u64 \<Rightarrow> shell_step list" where
  "forward_whole key n = [SH_Check 1 (demo_frame key n) 0, SH_Send True, SH_Count]"

definition demo_shell :: "shell_step list" where
  "demo_shell = [SH_Subscribe, SH_Zero] @ forward_whole True 1 @ forward_whole False 2 @ forward_whole False 3 @
     forward_whole False 4 @ [SH_Ack 2] @ forward_whole False 5"

lemma demo_waiting:
  "map vf_seq (bl_waiting (backlog_run 0 demo_shell)) = [3, 5]" "bl_uncounted (backlog_run 0 demo_shell) = 0"
  by code_simp+

theorem shell_backlog_bounded_witness:
  "deltas (bl_waiting (backlog_run 0 demo_shell)) \<le> 3"
proof -
  have "length demo_shell < 2 ^ 64" by (simp add: demo_shell_def forward_whole_def)
  from shell_backlog_bounded [OF this, of 0] show ?thesis by (simp add: demo_waiting(2))
qed

text \<open>
  In that run the fourth frame never reached the page, no keyframe was asked for, and the fifth, which
  builds on it, was shown: a frame dropped within half a second of the last request (here, of the
  start) is never made up for.
\<close>

lemma lost_frame_unrequested:
  "map vf_seq (sh_sent (shell_run (shell_new 0) demo_shell)) = [1, 2, 3, 5] \<and>
   sh_stale (shell_run (shell_new 0) demo_shell) = 1 \<and> sh_keys (shell_run (shell_new 0) demo_shell) = []"
  by code_simp

text \<open>
  The two halves of a subscription: a frame sent in between is forgotten, and four deltas wait.
\<close>

definition subscription_race :: "shell_step list" where
  "subscription_race = [SH_Subscribe] @ forward_whole False 1 @ [SH_Zero] @ forward_whole False 2 @ forward_whole False 3 @
     forward_whole False 4"

lemma subscription_lets_four_wait: "deltas (bl_waiting (backlog_run 0 subscription_race)) = 4"
  by code_simp

text \<open>
  A frame acknowledged before it is counted stays counted: nothing waits in front of the page, and yet the
  counter stands at one, and the third delta from there on is dropped.
\<close>

definition early_ack :: "shell_step list" where
  "early_ack = [SH_Subscribe, SH_Zero, SH_Check 1 (demo_frame False 1) 0, SH_Send True, SH_Ack 1, SH_Count]"

lemma early_ack_stays_counted:
  "bl_waiting (backlog_run 0 early_ack) = [] \<and> sh_inflight (bl_shell (backlog_run 0 early_ack)) = 1 \<and>
   map vf_seq (bl_waiting (backlog_run 0 (early_ack @ forward_whole False 2 @ forward_whole False 3 @ forward_whole False 4))) = [2, 3]"
  by code_simp

end
