(* ===== verification/Text.thy ===== *)
theory Text
  imports Viewer_Engine Signaling
begin

text \<open>
  Text as the standard library reads it: lines, prefixes and suffixes, and paths made of text.
\<close>

text \<open>\<open>str::lines\<close>: a carriage return goes with the line feed after it, and only with it.\<close>

definition strip_cr :: "rstr \<Rightarrow> rstr" where
  "strip_cr l = (if l \<noteq> [] \<and> last l = 13 then butlast l else l)"

definition str_lines :: "rstr \<Rightarrow> rstr list" where
  "str_lines s =
     (let ps = split_on 10 s
      in map strip_cr (butlast ps) @ (if last ps = [] then [] else [last ps]))"

text \<open>\<open>split_once\<close>: at the first occurrence.\<close>

definition split_once :: "uchar \<Rightarrow> rstr \<Rightarrow> (rstr \<times> rstr) option" where
  "split_once c s =
     (if c \<in> set s then Some (takeWhile (\<lambda>x. x \<noteq> c) s, tl (dropWhile (\<lambda>x. x \<noteq> c) s)) else None)"

definition strip_suffix :: "rstr \<Rightarrow> rstr \<Rightarrow> rstr option" where
  "strip_suffix p s =
     (if length p \<le> length s \<and> drop (length s - length p) s = p then Some (take (length s - length p) s) else None)"

definition starts_with :: "rstr \<Rightarrow> rstr \<Rightarrow> bool" where
  "starts_with p s \<longleftrightarrow> take (length p) s = p"

text \<open>A path from its text: both separators of Windows, no empty and no dot components; a leading separator is not kept.\<close>

definition path_of :: "rstr \<Rightarrow> path" where
  "path_of s = filter (\<lambda>c. c \<noteq> [] \<and> c \<noteq> [46]) (split_on 47 (map (\<lambda>c. if c = 92 then 47 else c) s))"

lemma str_trim_idle:
  assumes "s = [] \<or> \<not> is_whitespace (hd s) \<and> \<not> is_whitespace (last s)"
  shows "str_trim s = s"
proof (cases s)
  case Nil
  then show ?thesis by (simp add: str_trim_def)
next
  case (Cons c r)
  then have h: "dropWhile is_whitespace s = s" using assms by simp
  obtain d u where u: "rev s = d # u" using Cons by (cases "rev s") simp_all
  then have "last s = d" by (metis last_rev list.sel(1) rev_rev_ident hd_rev)
  then have "\<not> is_whitespace d" using assms Cons by simp
  then have "dropWhile is_whitespace (rev s) = rev s" by (simp add: u)
  then show ?thesis by (simp add: str_trim_def h)
qed

lemma split_once_sep: "c \<notin> set k \<Longrightarrow> split_once c (k @ c # v) = Some (k, v)"
proof -
  assume "c \<notin> set k"
  then have "takeWhile (\<lambda>x. x \<noteq> c) (k @ c # v) = k" "dropWhile (\<lambda>x. x \<noteq> c) (k @ c # v) = c # v"
    by (induction k) auto
  then show ?thesis by (simp add: split_once_def)
qed

lemma strip_suffix_append: "strip_suffix p (s @ p) = Some s"
  by (simp add: strip_suffix_def)

end
