(* ===== verification/App.thy ===== *)
theory App
  imports Text Host_Engine Store Shell Secure "HOL-Library.List_Lexorder"
begin

text \<open>
  The desktop application between the web page and the engine: the commands of
  \<open>apps/desktop/src-tauri/src/commands.rs\<close> on the state of \<open>state.rs\<close>, the engine configuration
  made of the settings (\<open>config.rs\<close>), the start in \<open>lib.rs\<close> and the menu of \<open>tray.rs\<close>.

  A command is a function of the state and of what the surroundings answer, \<open>app_env\<close>; one clock reading serves
  a whole command. The commands that change the state run one after the other, on the application's main thread. Error texts are
  the constructors of \<open>app_error\<close>.
\<close>

section \<open>State\<close>

record infrastructure =
  in_url :: rstr
  in_pins :: "u8 list list"
  in_allow_insecure :: bool

record app_env =
  av_now :: u64
  av_infra :: infrastructure
  av_computer :: "rstr option"
  av_profile :: "path option"
  av_version :: rstr
  av_prot :: protection
  av_ser_settings :: "settings \<Rightarrow> u8 list option"
  av_ser_book :: "book \<Rightarrow> u8 list option"
  av_save :: io_env
  av_secret :: io_env
  av_autostart :: bool
  av_upper :: "uchar \<Rightarrow> rstr"
  av_merge :: "settings \<Rightarrow> settings option"

text \<open>What the engine keeps for a session of the viewer: the command queue and the live channel.\<close>

record viewer_handle =
  vh_cmds :: "viewer_cmd list"
  vh_pipe :: "pipe option"

record 'b app =
  ap_engine :: "'b engine"
  ap_viewers :: "(u64, viewer_handle) hmap"
  ap_targets :: "(u64 \<times> connect_target) list"
  ap_settings :: settings
  ap_book :: book
  ap_disk :: disk
  ap_dir :: path
  ap_tray :: "bool option"
  ap_autostart :: bool

datatype app_error =
    AE_TooShort | AE_NotStored | AE_Autostart | AE_InvalidId | AE_BookFull | AE_Malformed | AE_UnknownAction | AE_Json
  | AE_Connect connect_failure

definition on_engine :: "('b engine \<Rightarrow> 'b engine) \<Rightarrow> 'b app \<Rightarrow> 'b app" where
  "on_engine f a = a\<lparr>ap_engine := f (ap_engine a)\<rparr>"

definition settings_path :: "'b app \<Rightarrow> path" where "settings_path a = ap_dir a @ [lit ''settings.json'']"
definition book_path :: "'b app \<Rightarrow> path" where "book_path a = ap_dir a @ [lit ''devices.json'']"
definition secret_path :: "'b app \<Rightarrow> path" where "secret_path a = ap_dir a @ [lit ''unattended.bin'']"

definition save_settings :: "'b app \<Rightarrow> app_env \<Rightarrow> 'b app" where
  "save_settings a v = a\<lparr>ap_disk := snd (save_json (av_ser_settings v) (ap_settings a) (ap_disk a) (settings_path a) (av_save v))\<rparr>"

definition save_book :: "'b app \<Rightarrow> app_env \<Rightarrow> 'b app" where
  "save_book a v = a\<lparr>ap_disk := snd (save_json (av_ser_book v) (ap_book a) (ap_disk a) (book_path a) (av_save v))\<rparr>"

section \<open>The engine's configuration\<close>

definition computer_name :: "app_env \<Rightarrow> rstr" where
  "computer_name v = (case av_computer v of Some n \<Rightarrow> if n \<noteq> [] then n else lit ''My PC'' | None \<Rightarrow> lit ''My PC'')"

definition default_download_dir :: "app_env \<Rightarrow> path" where
  "default_download_dir v =
     (case av_profile v of Some p \<Rightarrow> p @ [lit ''Downloads'', lit ''RemoteX''] | None \<Rightarrow> [lit ''downloads''])"

definition config_of :: "app_env \<Rightarrow> settings \<Rightarrow> engine_config" where
  "config_of v s =
     (let name = (if str_trim (set_device_name s) = [] then computer_name v else take 64 (str_trim (set_device_name s)));
          dl = (if str_trim (set_download_dir s) = [] then default_download_dir v else path_of (set_download_dir s))
      in (engine_config_new (av_version v) (in_url (av_infra v)) name dl)
           \<lparr>ec_cert_pins := in_pins (av_infra v), ec_allow_insecure := in_allow_insecure (av_infra v),
            ec_ask_before_receiving := set_ask s, ec_max_transfers := unat (clamp 1 8 (set_max_transfers s)),
            ec_temp_password_ttl := (if set_expiry_mins s > 0 then Some (secs (unat (set_expiry_mins s) * 60)) else None),
            ec_rotate_after_session := set_rotate s, ec_direct_enabled := set_prefer_direct s,
            ec_relay_fallback := set_relay_fallback s, ec_incoming_enabled := set_incoming s,
            ec_clipboard_images := set_clipboard_images s\<rparr>)"

section \<open>Settings and the permanent password\<close>

definition apply_unattended :: "'b app \<Rightarrow> app_env \<Rightarrow> 'b app" where
  "apply_unattended a v =
     (let s = ap_settings a; ids = map td_id (bk_trusted (ap_book a));
          pw = secret_load (av_prot v) (ap_disk a) (secret_path a) (av_secret v)
      in on_engine (\<lambda>e. set_unattended_elevated
           (Host_Engine.set_unattended e (settings.set_unattended s) pw ids (set_any_device s)) (set_elevated s)) a)"

definition settings_save :: "'b app \<Rightarrow> settings \<Rightarrow> app_env \<Rightarrow> (app_error + settings) \<times> 'b app" where
  "settings_save a st v =
     (let clean = sanitized st; previous = ap_settings a;
          a1 = save_settings (a\<lparr>ap_settings := clean\<rparr>) v;
          a2 = on_engine (\<lambda>e. e\<lparr>en_cfg := config_of v clean, en_incoming := set_incoming clean\<rparr>) a1;
          a3 = apply_unattended (a2\<lparr>ap_tray := map_option (\<lambda>_. set_incoming clean) (ap_tray a2)\<rparr>) v
      in if set_start_with_windows clean \<noteq> set_start_with_windows previous
         then if av_autostart v then (Inr clean, a3\<lparr>ap_autostart := set_start_with_windows clean\<rparr>)
              else (Inl AE_Autostart, a3)
         else (Inr clean, a3))"

definition unattended_set_password :: "'b app \<Rightarrow> rstr \<Rightarrow> app_env \<Rightarrow> (app_error + unit) \<times> 'b app" where
  "unattended_set_password a pw v =
     (if length pw < 8 then (Inl AE_TooShort, a)
      else case secret_store (av_prot v) (ap_disk a) (secret_path a) pw (av_save v) of
             (False, d) \<Rightarrow> (Inl AE_NotStored, a\<lparr>ap_disk := d\<rparr>)
           | (True, d) \<Rightarrow> (Inr (), apply_unattended (a\<lparr>ap_disk := d\<rparr>) v))"

definition unattended_clear_password :: "'b app \<Rightarrow> app_env \<Rightarrow> 'b app" where
  "unattended_clear_password a v =
     apply_unattended (a\<lparr>ap_disk := secret_clear (ap_disk a) (secret_path a) (av_save v)\<rparr>) v"

definition tray_incoming :: "'b app \<Rightarrow> app_env \<Rightarrow> 'b app" where
  "tray_incoming a v =
     (let on = \<not> set_incoming (ap_settings a); a1 = save_settings (a\<lparr>ap_settings := (ap_settings a)\<lparr>set_incoming := on\<rparr>\<rparr>) v
      in on_engine (\<lambda>e. e\<lparr>en_incoming := on\<rparr>) a1)"

text \<open>Closing the window hides it when this holds, and ends the application otherwise.\<close>

definition closes_to_tray :: "settings \<Rightarrow> bool" where
  "closes_to_tray s \<longleftrightarrow> set_close_behavior s = lit ''tray'' \<and> set_minimize_to_tray s"

section \<open>Sessions of the viewer\<close>

definition send_viewer :: "'b app \<Rightarrow> u64 \<Rightarrow> viewer_cmd \<Rightarrow> 'b app" where
  "send_viewer a n c =
     (case hm_get (ap_viewers a) n of
        None \<Rightarrow> a
      | Some h \<Rightarrow>
          (let h' = (case c of
                       VK_Input ev \<Rightarrow> h\<lparr>vh_pipe := map_option (\<lambda>p. snd (tx_send_input p ev (en_now (ap_engine a)))) (vh_pipe h)\<rparr>
                     | _ \<Rightarrow> h\<lparr>vh_cmds := vh_cmds h @ [c]\<rparr>)
           in a\<lparr>ap_viewers := hm_insert n h' (ap_viewers a)\<rparr>))"

record connect_args =
  ca_target :: rstr
  ca_password :: rstr
  ca_unattended :: bool
  ca_elevated :: bool

definition cmd_connect :: "'b app \<Rightarrow> connect_args \<Rightarrow> app_env \<Rightarrow> (app_error + u64) \<times> 'b app" where
  "cmd_connect a g v =
     (let kind = (if ca_unattended g then Permanent else Temporary);
          requested = (set_permissions (ap_settings a))\<lparr>p_elevated := ca_elevated g\<rparr>
      in case connect_start (av_upper v) (ca_target g) (ca_password g) kind requested of
           Inl f \<Rightarrow> (Inl (AE_Connect f), a)
         | Inr t \<Rightarrow>
             (let n = en_next_session (ap_engine a);
                  a1 = on_engine (\<lambda>e. e\<lparr>en_next_session := en_next_session e + 1\<rparr>) a;
                  a2 = a1\<lparr>ap_viewers := hm_insert n \<lparr>vh_cmds = [], vh_pipe = None\<rparr> (ap_viewers a1),
                          ap_targets := ap_targets a1 @ [(n, t)]\<rparr>
              in (Inr n,
                  case device_id_parse (ca_target g) of
                    None \<Rightarrow> a2
                  | Some d \<Rightarrow>
                      save_book (a2\<lparr>ap_book := touch_trusted (record_connection (ap_book a2) d (av_now v)) d (av_now v)\<rparr>) v)))"

definition viewer_input_bin :: "'b app \<Rightarrow> u8 list \<Rightarrow> (app_error + unit) \<times> 'b app" where
  "viewer_input_bin a b =
     (case decode_input b of
        None \<Rightarrow> (Inl AE_Malformed, a)
      | Some (n, ev) \<Rightarrow> (Inr (), send_viewer a n (VK_Input ev)))"

definition viewer_input :: "'b app \<Rightarrow> u64 \<Rightarrow> ui_input \<Rightarrow> 'b app" where
  "viewer_input a n i = send_viewer a n (VK_Input (ui_event i))"

definition viewer_set_quality :: "'b app \<Rightarrow> u64 \<Rightarrow> app_env \<Rightarrow> (app_error + unit) \<times> 'b app" where
  "viewer_set_quality a n v =
     (case av_merge v (ap_settings a) of
        None \<Rightarrow> (Inl AE_Json, a)
      | Some m \<Rightarrow> (Inr (), send_viewer a n (VK_SetQuality (settings_quality (sanitized m)))))"

definition chat_text :: "rstr \<Rightarrow> rstr" where
  "chat_text t = take 4000 (str_trim t)"

definition viewer_chat :: "'b app \<Rightarrow> u64 \<Rightarrow> rstr \<Rightarrow> 'b app" where
  "viewer_chat a n t = (if chat_text t = [] then a else send_viewer a n (VK_Chat (chat_text t)))"

definition viewer_file :: "'b app \<Rightarrow> u64 \<Rightarrow> rstr \<Rightarrow> u64 \<Rightarrow> (app_error + unit) \<times> 'b app" where
  "viewer_file a n action i =
     (case (if action = lit ''pause'' then Some (VK_FilePause i)
            else if action = lit ''resume'' then Some (VK_FileResume i)
            else if action = lit ''cancel'' then Some (VK_FileCancel i)
            else if action = lit ''retry'' then Some (VK_FileRetry i) else None) of
        None \<Rightarrow> (Inl AE_UnknownAction, a)
      | Some c \<Rightarrow> (Inr (), send_viewer a n c))"

section \<open>The owner of this computer\<close>

record decision =
  dc_request :: u64
  dc_permissions :: "permissions option"
  dc_trust :: bool
  dc_viewer_id :: rstr
  dc_viewer_name :: rstr

definition cmd_respond :: "'b app \<Rightarrow> decision \<Rightarrow> app_env \<Rightarrow> 'b app" where
  "cmd_respond a d v =
     (let a1 = (if dc_permissions d \<noteq> None \<and> dc_trust d
                then apply_unattended
                       (save_book (a\<lparr>ap_book := trust (ap_book a) (dc_viewer_id d) (dc_viewer_name d) (av_now v)\<rparr>) v) v
                else a)
      in on_engine (\<lambda>e. respond_incoming e (dc_request d) (dc_permissions d)) a1)"

definition cmd_host :: "'b app \<Rightarrow> host_cmd \<Rightarrow> 'b app" where
  "cmd_host a c = on_engine (\<lambda>e. engine_command e c) a"

definition host_chat_cmd :: "'b app \<Rightarrow> rstr \<Rightarrow> 'b app" where
  "host_chat_cmd a t = (if chat_text t = [] then a else cmd_host a (HC_Chat (chat_text t)))"

definition regenerate :: "'b app \<Rightarrow> rstr \<Rightarrow> 'b app" where
  "regenerate a pw = on_engine (\<lambda>e. rotate_password e pw) a"

section \<open>The device book\<close>

definition valid_id :: "rstr \<Rightarrow> app_error + device_id" where
  "valid_id i = (case device_id_parse i of Some d \<Rightarrow> Inr d | None \<Rightarrow> Inl AE_InvalidId)"

definition book_trust :: "'b app \<Rightarrow> rstr \<Rightarrow> rstr \<Rightarrow> app_env \<Rightarrow> (app_error + trusted_device list) \<times> 'b app" where
  "book_trust a i name v =
     (case valid_id i of
        Inl e \<Rightarrow> (Inl e, a)
      | Inr d \<Rightarrow>
          (let a1 = apply_unattended
                (save_book (a\<lparr>ap_book := trust (ap_book a) d (take 64 (str_trim name)) (av_now v)\<rparr>) v) v
           in (Inr (bk_trusted (ap_book a1)), a1)))"

definition book_revoke :: "'b app \<Rightarrow> rstr \<Rightarrow> app_env \<Rightarrow> trusted_device list \<times> 'b app" where
  "book_revoke a i v =
     (let a1 = apply_unattended (save_book (a\<lparr>ap_book := snd (revoke_trusted (ap_book a) i)\<rparr>) v) v
      in (bk_trusted (ap_book a1), a1))"

definition book_revoke_all :: "'b app \<Rightarrow> app_env \<Rightarrow> 'b app" where
  "book_revoke_all a v = apply_unattended (save_book (a\<lparr>ap_book := revoke_all (ap_book a)\<rparr>) v) v"

definition book_rename_trusted :: "'b app \<Rightarrow> rstr \<Rightarrow> rstr \<Rightarrow> app_env \<Rightarrow> trusted_device list \<times> 'b app" where
  "book_rename_trusted a i name v =
     (let a1 = save_book (a\<lparr>ap_book := rename_trusted (ap_book a) i (str_trim name)\<rparr>) v in (bk_trusted (ap_book a1), a1))"

record entry_args =
  ea_id :: rstr
  ea_name :: rstr
  ea_favorite :: bool
  ea_group :: rstr

definition book_upsert :: "'b app \<Rightarrow> entry_args \<Rightarrow> app_env \<Rightarrow> (app_error + address_entry list) \<times> 'b app" where
  "book_upsert a g v =
     (case valid_id (ea_id g) of
        Inl e \<Rightarrow> (Inl e, a)
      | Inr d \<Rightarrow>
          (case upsert_entry (ap_book a) d (str_trim (ea_name g)) (ea_favorite g) (ea_group g) (av_now v) of
             (Some _, b) \<Rightarrow> (Inl AE_BookFull, a\<lparr>ap_book := b\<rparr>)
           | (None, b) \<Rightarrow> (let a1 = save_book (a\<lparr>ap_book := b\<rparr>) v in (Inr (bk_entries (ap_book a1)), a1))))"

definition book_remove :: "'b app \<Rightarrow> rstr \<Rightarrow> app_env \<Rightarrow> address_entry list \<times> 'b app" where
  "book_remove a i v =
     (let a1 = save_book (a\<lparr>ap_book := remove_entry (ap_book a) i\<rparr>) v in (bk_entries (ap_book a1), a1))"

definition presence_query :: "'b app \<Rightarrow> rstr list \<Rightarrow> 'b app" where
  "presence_query a ids = on_engine (\<lambda>e. e\<lparr>en_sent := en_sent e @ [C_QueryPresence (take 64 ids)]\<rparr>) a"

section \<open>Views\<close>

record bootstrap =
  bs_id :: "rstr option"
  bs_password :: rstr
  bs_settings :: settings
  bs_book :: book
  bs_version :: rstr
  bs_online :: bool
  bs_computer :: rstr
  bs_downloads :: path
  bs_data :: path
  bs_password_set :: bool

definition shown_id :: "'b app \<Rightarrow> rstr option" where
  "shown_id a = Option.bind (Option.bind (en_my_id (ap_engine a)) device_id_parse) device_id_display"

definition get_bootstrap :: "'b app \<Rightarrow> app_env \<Rightarrow> bootstrap" where
  "get_bootstrap a v =
     \<lparr>bs_id = shown_id a, bs_password = hg_temp (engine.en_host (ap_engine a)), bs_settings = ap_settings a, bs_book = ap_book a,
      bs_version = av_version v, bs_online = en_online (ap_engine a), bs_computer = computer_name v,
      bs_downloads = ec_download_dir (config_of v (ap_settings a)), bs_data = ap_dir a,
      bs_password_set = secret_load (av_prot v) (ap_disk a) (secret_path a) (av_secret v) \<noteq> None\<rparr>"

definition folder_of :: "'b app \<Rightarrow> path \<Rightarrow> app_env \<Rightarrow> rstr \<Rightarrow> path option" where
  "folder_of a logs v kind =
     (if kind = lit ''logs'' then Some logs
      else if kind = lit ''downloads'' then Some (ec_download_dir (config_of v (ap_settings a)))
      else if kind = lit ''data'' then Some (ap_dir a) else None)"

text \<open>The newest file of the security log, its last lines first.\<close>

definition security_log :: "(rstr \<times> u8 list) list \<Rightarrow> nat \<Rightarrow> rstr list" where
  "security_log files limit =
     (let fs = sort_key fst (filter (\<lambda>f. starts_with (lit ''security.log'') (fst f)) files)
      in if fs = [] then []
         else let txt = (case from_utf8 (snd (last fs)) of Some t \<Rightarrow> t | None \<Rightarrow> [])
              in take (min limit 500) (rev (str_lines txt)))"

section \<open>Runs\<close>

text \<open>The start: settings and book from the disk, a new engine, and unattended access restored.\<close>

definition app_start ::
  "disk \<Rightarrow> path \<Rightarrow> (u8 list \<Rightarrow> settings option) \<Rightarrow> (u8 list \<Rightarrow> book option) \<Rightarrow> io_env \<Rightarrow> rstr \<Rightarrow> instant \<Rightarrow> bool \<Rightarrow> app_env \<Rightarrow> 'b app" where
  "app_start d dir parse_settings parse_book io temp now auto v =
     (let (st, d1) = load_json parse_settings settings_default d (dir @ [lit ''settings.json'']) io;
          clean = sanitized st;
          (b, d2) = load_json parse_book book_empty d1 (dir @ [lit ''devices.json'']) io;
          a = \<lparr>ap_engine = engine_new (config_of v clean) temp now, ap_viewers = [], ap_targets = [], ap_settings = clean,
               ap_book = b, ap_disk = d2, ap_dir = dir, ap_tray = None, ap_autostart = auto\<rparr>
      in (apply_unattended a v)\<lparr>ap_tray := Some (set_incoming clean)\<rparr>)"

datatype app_cmd =
    AC_SettingsSave settings
  | AC_SetPassword rstr
  | AC_ClearPassword
  | AC_Regenerate rstr
  | AC_Connect connect_args
  | AC_Viewer u64 viewer_cmd
  | AC_InputBin "u8 list"
  | AC_Input u64 ui_input
  | AC_SetQuality u64
  | AC_ViewerChat u64 rstr
  | AC_ViewerFile u64 rstr u64
  | AC_Respond decision
  | AC_Host host_cmd
  | AC_HostChat rstr
  | AC_Trust rstr rstr
  | AC_Revoke rstr
  | AC_RevokeAll
  | AC_RenameTrusted rstr rstr
  | AC_Upsert entry_args
  | AC_Remove rstr
  | AC_Presence "rstr list"
  | AC_TrayIncoming

definition run_cmd :: "'b app \<Rightarrow> app_cmd \<Rightarrow> app_env \<Rightarrow> 'b app" where
  "run_cmd a c v =
     (case c of
        AC_SettingsSave st \<Rightarrow> snd (settings_save a st v)
      | AC_SetPassword pw \<Rightarrow> snd (unattended_set_password a pw v)
      | AC_ClearPassword \<Rightarrow> unattended_clear_password a v
      | AC_Regenerate pw \<Rightarrow> regenerate a pw
      | AC_Connect g \<Rightarrow> snd (cmd_connect a g v)
      | AC_Viewer n k \<Rightarrow> send_viewer a n k
      | AC_InputBin b \<Rightarrow> snd (viewer_input_bin a b)
      | AC_Input n i \<Rightarrow> viewer_input a n i
      | AC_SetQuality n \<Rightarrow> snd (viewer_set_quality a n v)
      | AC_ViewerChat n t \<Rightarrow> viewer_chat a n t
      | AC_ViewerFile n action i \<Rightarrow> snd (viewer_file a n action i)
      | AC_Respond d \<Rightarrow> cmd_respond a d v
      | AC_Host k \<Rightarrow> cmd_host a k
      | AC_HostChat t \<Rightarrow> host_chat_cmd a t
      | AC_Trust i name \<Rightarrow> snd (book_trust a i name v)
      | AC_Revoke i \<Rightarrow> snd (book_revoke a i v)
      | AC_RevokeAll \<Rightarrow> book_revoke_all a v
      | AC_RenameTrusted i name \<Rightarrow> snd (book_rename_trusted a i name v)
      | AC_Upsert g \<Rightarrow> snd (book_upsert a g v)
      | AC_Remove i \<Rightarrow> snd (book_remove a i v)
      | AC_Presence ids \<Rightarrow> presence_query a ids
      | AC_TrayIncoming \<Rightarrow> tray_incoming a v)"

text \<open>
  A run: commands of the page and the tray, steps of the engine's own tasks, and what the supervisor of
  a viewer session does to its handle. The owner's steps of the engine come from the commands only.
\<close>

datatype ('b, 's) app_step =
    AS_Do app_cmd app_env
  | AS_Engine "('b, 's) engine_step"
  | AS_Channel u64 "pipe option"
  | AS_Gone u64

definition owner_step :: "('b, 's) engine_step \<Rightarrow> bool" where
  "owner_step x =
     (case x of
        ES_Respond _ _ \<Rightarrow> True | ES_Command _ \<Rightarrow> True | ES_Unattended _ _ _ _ \<Rightarrow> True | ES_UnattendedElevated _ \<Rightarrow> True
      | ES_Revoke _ \<Rightarrow> True | ES_Config _ \<Rightarrow> True | ES_Enable _ \<Rightarrow> True | ES_Rotate _ \<Rightarrow> True | ES_Viewer \<Rightarrow> True
      | ES_Presence _ \<Rightarrow> True | _ \<Rightarrow> False)"

definition app_step :: "'b app \<Rightarrow> ('b, 's) app_step \<Rightarrow> 'b app" where
  "app_step a x =
     (case x of
        AS_Do c v \<Rightarrow> run_cmd a c v
      | AS_Engine y \<Rightarrow> if owner_step y then a else on_engine (\<lambda>e. engine_step e y) a
      | AS_Channel n p \<Rightarrow>
          (case hm_get (ap_viewers a) n of
             None \<Rightarrow> a
           | Some h \<Rightarrow> a\<lparr>ap_viewers := hm_insert n (h\<lparr>vh_pipe := p\<rparr>) (ap_viewers a)\<rparr>)
      | AS_Gone n \<Rightarrow> a\<lparr>ap_viewers := hm_remove n (ap_viewers a)\<rparr>)"

definition app_run :: "'b app \<Rightarrow> ('b, 's) app_step list \<Rightarrow> 'b app" where
  "app_run a xs = foldl app_step a xs"

end
