(* ===== verification/App_Props.thy ===== *)
theory App_Props
  imports App Engine_Props
begin

text \<open>
  What the commands of the application keep: the engine's policy is always that of the settings and the
  device book, and a session of this computer rests on an answer of the owner or on unattended
  access as the settings and the book had it.
\<close>

section \<open>The engine's policy\<close>

definition policy :: "'b engine \<Rightarrow> (bool \<times> rstr option \<times> bool \<times> bool \<times> rstr list) \<times> bool \<times> engine_config" where
  "policy e = (let h = engine.en_host e
     in ((hg_unattended h, hg_permanent h, hg_any_device h, hg_unattended_elevated h, hg_authorized h), en_incoming e, en_cfg e))"

lemma policy_same [simp]:
  "policy (to_phase e i ph) = policy e" "policy (rotate_password e pw) = policy e" "policy (emit e ev) = policy e"
  "policy (relay_link e sid) = policy e" "policy (drop_route e sid) = policy e"
  "policy (end_on_server e sid b) = policy e" "policy (Host_Engine.reject e sid r) = policy e" "policy (release_busy e) = policy e"
  by (simp_all add: policy_def to_phase_def rotate_password_def emit_def on_host_def relay_link_def drop_route_def
      end_on_server_def Host_Engine.reject_def release_busy_def Let_def)

lemma lookup_policy:
  "policy (on_host (\<lambda>_. snd (pw_lookup (engine.en_host e) now v kind)) e) = policy e"
  by (simp add: policy_def on_host_def pw_lookup_def Let_def split: prod.split option.split)

lemma bad_password_policy [simp]: "policy (bad_password e v pw) = policy e"
  by (simp add: bad_password_def Let_def split: prod.split) (simp add: policy_def on_host_def Let_def)

lemma policy_tasks [simp]:
  "policy (hi_check e i) = policy e" "policy (hi_link e i came) = policy e"
  "policy (hi_consent e i k a) = policy e" "policy (hi_decision e i k a rid ans) = policy e"
  "policy (hi_start e i k a g pf) = policy e" "policy (hi_run e i a g s y) = policy e"
  "policy (hi_stop e i a g s) = policy e" "policy (hi_end e i a g s) = policy e"
  "policy (hi_over e i a g r) = policy e"
  by (simp_all add: hi_check_def hi_link_def hi_consent_def hi_decision_def hi_start_def hi_run_def hi_stop_def
      hi_end_def hi_over_def Let_def split: option.split sum.split prod.split host_step.split list.split;
      simp add: policy_def on_host_def to_phase_def relay_link_def emit_def Host_Engine.reject_def Let_def)+

lemma policy_close [simp]: "policy (hi_close e i f held rot pw) = policy e"
  by (simp add: hi_close_def Let_def)

lemma policy_hello [simp]: "policy (hi_hello e i k hv rs) = policy e"
  by (simp add: hi_hello_def Let_def lookup_policy split: option.split prod.split)

lemma policy_on_success [simp]: "policy (on_host (\<lambda>h. h\<lparr>hg_failures := f h\<rparr>) e) = policy e"
  by (simp add: policy_def on_host_def Let_def)

lemma policy_result [simp]: "policy (hi_result e i k r pw) = policy e"
  by (simp add: hi_result_def split: sum.split host_failure.split)

lemma policy_task_step: "policy (task_step e i ph x) = policy e"
  by (simp add: task_step_def split: engine_step.split phase.split)

lemma policy_fields [simp]:
  "policy (e\<lparr>en_direct := m\<rparr>) = policy e" "policy (e\<lparr>en_now := n\<rparr>) = policy e" "policy (e\<lparr>en_connects := cs\<rparr>) = policy e"
  "policy (e\<lparr>en_connects := cs, en_resolved := rl\<rparr>) = policy e" "policy (e\<lparr>en_relayed := q\<rparr>) = policy e"
  "policy (e\<lparr>en_online := b\<rparr>) = policy e" "policy (e\<lparr>en_my_id := d\<rparr>) = policy e" "policy (e\<lparr>en_tasks := ts\<rparr>) = policy e"
  "policy (e\<lparr>en_cmds := c\<rparr>) = policy e" "policy (e\<lparr>en_next_session := r\<rparr>) = policy e" "policy (e\<lparr>en_sent := sl\<rparr>) = policy e"
  by (simp_all add: policy_def)

lemma policy_dispatch [simp]: "policy (dispatch e ev first full) = policy e"
  by (simp add: dispatch_def resolve_first_def split: sig_event.split server_to_client.split)

lemma policy_direct [simp]: "policy (accept_direct e sid ok) = policy e"
  by (simp add: accept_direct_def Let_def split: option.split)

lemma policy_respond [simp]: "policy (respond_incoming e rid g) = policy e"
proof -
  have "policy (on_host (\<lambda>h. h\<lparr>hg_pending := f h\<rparr>) e) = policy e" for f by (simp add: policy_def on_host_def Let_def)
  then show ?thesis by (simp add: respond_incoming_def Let_def split: option.split phase.split)
qed

lemma policy_command [simp]: "policy (engine_command e c) = policy e"
  by (simp add: engine_command_def)

lemma policy_step: "\<not> owner_step x \<Longrightarrow> policy (engine_step e x) = policy e"
proof (cases "step_task x")
  case None
  assume "\<not> owner_step x"
  then have "policy (other_step e x) = policy e"
    by (cases x) (simp_all add: other_step_def owner_step_def password_expiry_def split: option.split)
  then show ?thesis by (simp add: engine_step_def None)
qed (simp add: engine_step_def policy_task_step)

section \<open>The policy follows the settings and the book\<close>

definition trusted_ids :: "'b app \<Rightarrow> rstr list" where
  "trusted_ids a = map td_id (bk_trusted (ap_book a))"

definition in_step :: "'b app \<Rightarrow> bool" where
  "in_step a \<longleftrightarrow>
     (let h = engine.en_host (ap_engine a); s = ap_settings a
      in hg_authorized h = remdups (trusted_ids a) \<and> hg_any_device h = set_any_device s \<and>
         hg_unattended_elevated h = set_elevated s \<and> en_incoming (ap_engine a) = set_incoming s \<and>
         (hg_unattended h \<longrightarrow> settings.set_unattended s \<and> (\<exists>pw. hg_permanent h = Some pw \<and> str_len pw \<ge> 8)) \<and>
         (\<not> hg_unattended h \<longrightarrow> hg_permanent h = None) \<and> sanitized s = s)"

text \<open>What of the state the policy is made from.\<close>

definition basis :: "'b app \<Rightarrow> (bool \<times> bool \<times> bool \<times> bool) \<times> settings \<times> rstr list" where
  "basis a = (let s = ap_settings a in ((settings.set_unattended s, set_any_device s, set_elevated s, set_incoming s), s, trusted_ids a))"

lemma in_step_same:
  "in_step a \<Longrightarrow> policy (ap_engine a') = policy (ap_engine a) \<Longrightarrow> basis a' = basis a \<Longrightarrow> in_step a'"
  by (simp add: in_step_def policy_def basis_def Let_def)

lemma save_same [simp]:
  "ap_engine (save_settings a v) = ap_engine a" "ap_settings (save_settings a v) = ap_settings a" "ap_book (save_settings a v) = ap_book a"
  "ap_engine (save_book a v) = ap_engine a" "ap_settings (save_book a v) = ap_settings a" "ap_book (save_book a v) = ap_book a"
  "ap_tray (save_settings a v) = ap_tray a"
  by (simp_all add: save_settings_def save_book_def)

lemma trusted_ids_fields [simp]:
  "trusted_ids (a\<lparr>ap_engine := e\<rparr>) = trusted_ids a" "trusted_ids (a\<lparr>ap_viewers := w\<rparr>) = trusted_ids a"
  "trusted_ids (a\<lparr>ap_disk := d\<rparr>) = trusted_ids a" "trusted_ids (a\<lparr>ap_targets := ts\<rparr>) = trusted_ids a" "trusted_ids (a\<lparr>ap_settings := s\<rparr>) = trusted_ids a"
  "trusted_ids (a\<lparr>ap_tray := t\<rparr>) = trusted_ids a" "trusted_ids (a\<lparr>ap_autostart := b\<rparr>) = trusted_ids a"
  "trusted_ids (save_settings a v) = trusted_ids a" "trusted_ids (save_book a v) = trusted_ids a" "trusted_ids (on_engine f a) = trusted_ids a"
  by (simp_all add: trusted_ids_def on_engine_def)

lemma apply_same [simp]:
  "ap_settings (apply_unattended a v) = ap_settings a" "ap_book (apply_unattended a v) = ap_book a"
  "trusted_ids (apply_unattended a v) = trusted_ids a" "ap_tray (apply_unattended a v) = ap_tray a"
  "ap_viewers (apply_unattended a v) = ap_viewers a" "en_tasks (ap_engine (apply_unattended a v)) = en_tasks (ap_engine a)"
  by (simp_all add: apply_unattended_def on_engine_def on_host_def Host_Engine.set_unattended_def set_unattended_elevated_def
      Let_def trusted_ids_def)

lemma apply_in_step:
  assumes "sanitized (ap_settings a) = ap_settings a" "en_incoming (ap_engine a) = set_incoming (ap_settings a)"
  shows "in_step (apply_unattended a v)"
  using assms
  by (simp add: in_step_def apply_unattended_def on_engine_def on_host_def Host_Engine.set_unattended_def
      set_unattended_elevated_def Let_def trusted_ids_def split: option.split)

lemma sanitized_twice: "sanitized (sanitized s) = sanitized s"
proof -
  have c: "clamp lo hi (clamp lo hi x) = clamp lo hi x" if "lo \<le> hi" for lo hi x :: u32
    using that by (auto simp: clamp_def)
  have z: "clamp 200 100000 x \<noteq> (0 :: u32)" for x by (auto simp: clamp_def)
  show ?thesis by (simp add: sanitized_def c z)
qed

lemma sanitized_incoming: "sanitized s = s \<Longrightarrow> sanitized (s\<lparr>set_incoming := b\<rparr>) = s\<lparr>set_incoming := b\<rparr>"
proof -
  assume s: "sanitized s = s"
  have "sanitized (s\<lparr>set_incoming := b\<rparr>) = (sanitized s)\<lparr>set_incoming := b\<rparr>" unfolding sanitized_def by simp
  then show ?thesis by (simp add: s)
qed

lemma update_first_map: "(\<And>x. g (f x) = g x) \<Longrightarrow> map g (update_first P f xs) = map g xs"
  by (induction xs) simp_all

lemma ids_kept:
  "map td_id (bk_trusted (rename_trusted b i n)) = map td_id (bk_trusted b)"
  "map td_id (bk_trusted (touch_trusted b i now)) = map td_id (bk_trusted b)"
  "bk_trusted (record_connection b i now) = bk_trusted b" "bk_trusted (remove_entry b i) = bk_trusted b"
  "bk_trusted (snd (upsert_entry b i n fv gr now)) = bk_trusted b"
  by (simp_all add: rename_trusted_def touch_trusted_def record_connection_def remove_entry_def upsert_entry_def update_first_map)

lemma quiet_viewer: "ap_engine (send_viewer a n c) = ap_engine a" "basis (send_viewer a n c) = basis a"
  by (simp_all add: send_viewer_def basis_def Let_def split: option.split)

lemma basis_book: "map td_id (bk_trusted b) = trusted_ids a \<Longrightarrow> basis (a\<lparr>ap_book := b\<rparr>) = basis a"
  by (simp add: basis_def trusted_ids_def Let_def)

lemma basis_fields [simp]:
  "basis (a\<lparr>ap_engine := e\<rparr>) = basis a" "basis (a\<lparr>ap_viewers := w\<rparr>) = basis a" "basis (a\<lparr>ap_disk := d\<rparr>) = basis a"
  "basis (on_engine f a) = basis a" "basis (save_book a v) = basis a" "basis (a\<lparr>ap_targets := t\<rparr>) = basis a"
  by (simp_all add: basis_def on_engine_def save_book_def trusted_ids_def)

lemma on_engine_engine [simp]: "ap_engine (on_engine f a) = f (ap_engine a)" "ap_settings (on_engine f a) = ap_settings a"
    "ap_book (on_engine f a) = ap_book a"
  by (simp_all add: on_engine_def)

lemma applied:
  assumes "in_step a"
  shows "in_step (apply_unattended (save_book (a\<lparr>ap_book := b\<rparr>) v) v)" "in_step (apply_unattended (a\<lparr>ap_disk := d\<rparr>) v)"
  by (rule apply_in_step; use assms in \<open>simp add: in_step_def Let_def\<close>)+

lemma in_step_settings: "in_step (snd (settings_save a st v))"
proof -
  let ?a = "on_engine (\<lambda>e. e\<lparr>en_cfg := config_of v (sanitized st), en_incoming := set_incoming (sanitized st)\<rparr>)
    (save_settings (a\<lparr>ap_settings := sanitized st\<rparr>) v)"
  have k: "in_step (apply_unattended (?a\<lparr>ap_tray := t\<rparr>) v)" for t
    by (rule apply_in_step) (simp_all add: sanitized_twice)
  have "in_step b \<Longrightarrow> in_step (b\<lparr>ap_autostart := x\<rparr>)" for b :: "'a app" and x
    by (simp add: in_step_def trusted_ids_def)
  then show ?thesis using k by (simp add: settings_save_def Let_def)
qed

lemma in_step_tray: "in_step a \<Longrightarrow> in_step (tray_incoming a v)"
  by (simp add: in_step_def tray_incoming_def Let_def sanitized_incoming)

lemma in_step_run: "in_step a \<Longrightarrow> in_step (run_cmd a c v)"
proof (cases c)
  case (AC_Connect g)
  assume "in_step a"
  have "policy (ap_engine (run_cmd a c v)) = policy (ap_engine a) \<and> basis (run_cmd a c v) = basis a"
    by (simp add: AC_Connect run_cmd_def cmd_connect_def Let_def basis_book ids_kept trusted_ids_def [symmetric] split: sum.split option.split)
  then show ?thesis using in_step_same [OF \<open>in_step a\<close>] by blast
next
  case (AC_SettingsSave st)
  then show ?thesis by (simp add: run_cmd_def in_step_settings)
next
  case (AC_SetPassword pw)
  assume i: "in_step a"
  have "in_step (a\<lparr>ap_disk := d\<rparr>)" for d by (rule in_step_same [OF i]) simp_all
  then show ?thesis using i applied(2) [OF i]
    by (simp add: AC_SetPassword run_cmd_def unattended_set_password_def split: prod.split bool.split)
next
  case AC_ClearPassword
  assume i: "in_step a"
  then show ?thesis using i applied(2) [OF i] by (simp add: AC_ClearPassword run_cmd_def unattended_clear_password_def)
next
  case (AC_Respond d)
  assume i: "in_step a"
  have "in_step b \<Longrightarrow> in_step (on_engine (\<lambda>e. respond_incoming e rid g) b)" for b :: "'a app" and rid g
    by (rule in_step_same) simp_all
  then show ?thesis using i applied(1) [OF i] by (simp add: AC_Respond run_cmd_def cmd_respond_def Let_def)
next
  case (AC_Trust i n)
  assume i: "in_step a"
  then show ?thesis using i applied(1) [OF i] by (simp add: AC_Trust run_cmd_def book_trust_def Let_def split: sum.split)
next
  case (AC_Revoke i)
  assume i: "in_step a"
  then show ?thesis using i applied(1) [OF i] by (simp add: AC_Revoke run_cmd_def book_revoke_def Let_def)
next
  case AC_RevokeAll
  assume i: "in_step a"
  then show ?thesis using i applied(1) [OF i] by (simp add: AC_RevokeAll run_cmd_def book_revoke_all_def)
next
  case AC_TrayIncoming
  assume "in_step a"
  then show ?thesis by (simp add: AC_TrayIncoming run_cmd_def in_step_tray)
next
  case (AC_Upsert g)
  assume i: "in_step a"
  have "in_step (a\<lparr>ap_book := snd (upsert_entry (ap_book a) d n f r t)\<rparr>)" for d n f r t
    by (rule in_step_same [OF i]) (simp_all add: basis_book ids_kept trusted_ids_def [symmetric])
  moreover have "in_step b \<Longrightarrow> in_step (save_book b v)" for b :: "'a app" by (erule in_step_same) simp_all
  ultimately have k: "in_step (a\<lparr>ap_book := snd (upsert_entry (ap_book a) d n f r t)\<rparr>)"
    "in_step (save_book (a\<lparr>ap_book := snd (upsert_entry (ap_book a) d n f r t)\<rparr>) v)" for d n f r t
    by blast+
  have "in_step (snd (book_upsert a g v))"
  proof (cases "valid_id (ea_id g)")
    case (Inr d)
    obtain r b where u: "upsert_entry (ap_book a) d (str_trim (ea_name g)) (ea_favorite g) (ea_group g) (av_now v) = (r, b)"
      by (cases "upsert_entry (ap_book a) d (str_trim (ea_name g)) (ea_favorite g) (ea_group g) (av_now v)")
    then have "snd (upsert_entry (ap_book a) d (str_trim (ea_name g)) (ea_favorite g) (ea_group g) (av_now v)) = b" by simp
    from k [of d "str_trim (ea_name g)" "ea_favorite g" "ea_group g" "av_now v", unfolded this] show ?thesis
      by (cases r) (simp_all add: book_upsert_def Inr u Let_def)
  qed (use i in \<open>simp add: book_upsert_def\<close>)
  then show ?thesis by (simp add: AC_Upsert run_cmd_def)
next
  case (AC_RenameTrusted i n)
  assume "in_step a"
  then show ?thesis
    by (rule in_step_same) (simp_all add: AC_RenameTrusted run_cmd_def book_rename_trusted_def Let_def basis_book ids_kept trusted_ids_def [symmetric])
next
  case (AC_Remove i)
  assume "in_step a"
  then show ?thesis
    by (rule in_step_same) (simp_all add: AC_Remove run_cmd_def book_remove_def Let_def basis_book ids_kept trusted_ids_def [symmetric])
qed (erule in_step_same; simp add: run_cmd_def regenerate_def quiet_viewer viewer_input_bin_def viewer_input_def viewer_set_quality_def
    viewer_chat_def viewer_file_def cmd_host_def host_chat_cmd_def presence_query_def split: option.split prod.split)+

lemma in_step_step: "in_step a \<Longrightarrow> in_step (app_step a x)"
proof (cases x)
  case (AS_Engine y)
  assume "in_step a"
  then show ?thesis by (cases "owner_step y") (auto simp: AS_Engine app_step_def policy_step intro: in_step_same)
next
  case (AS_Channel n p)
  assume "in_step a"
  then show ?thesis by (rule in_step_same) (simp_all add: AS_Channel app_step_def split: option.split)
next
  case (AS_Gone n)
  assume "in_step a"
  then show ?thesis by (rule in_step_same) (simp_all add: AS_Gone app_step_def)
qed (simp add: app_step_def in_step_run)

lemma in_step_start: "in_step (app_start d dir ps pb io temp now auto v)"
proof -
  have "in_step b \<Longrightarrow> in_step (b\<lparr>ap_tray := t\<rparr>)" for b :: "'a app" and t by (simp add: in_step_def trusted_ids_def)
  moreover have "en_incoming (engine_new (config_of v s) temp now :: 'a engine) = set_incoming s" for s
    by (simp add: engine_new_def config_of_def Let_def)
  ultimately show ?thesis
    by (simp add: app_start_def Let_def apply_in_step sanitized_twice split: prod.split)
qed

end
