(* ===== verification/App_Safety.thy ===== *)
theory App_Safety
  imports App_Props Engine_Demo
begin

text \<open>
  The application and the engine together: what revoking a device does, and what a session of this
  computer rests on.
\<close>

text \<open>The engine's access rules are always those of the settings and the device book. After every start and every sequence of
  commands of the page and the tray, steps of the engine's tasks and messages of the server, failed saves and an unreadable
  password file included: the viewers authorized are the trusted devices, unattended access is never on
  unless the settings allow it and a password of eight bytes is set, no permanent password is kept
  otherwise, the switches agree with the settings, and the settings are within their ranges.\<close>

theorem app_policy_in_step:
  "in_step (app_run (app_start d dir ps pb io temp now auto v) xs)"
  by (induction xs rule: rev_induct) (simp_all add: app_run_def in_step_start in_step_step)

lemma run_in_step: "in_step a \<Longrightarrow> in_step (app_run a xs)"
  by (induction xs rule: rev_induct) (simp_all add: app_run_def in_step_step)

section \<open>Revoking\<close>

text \<open>The commands that make a device trusted.\<close>

definition trusts :: "rstr \<Rightarrow> ('b, 's) app_step \<Rightarrow> bool" where
  "trusts i x =
     (case x of
        AS_Do c _ \<Rightarrow>
          (case c of
             AC_Trust j _ \<Rightarrow> device_id_parse j = Some i
           | AC_Respond d \<Rightarrow> dc_permissions d \<noteq> None \<and> dc_trust d \<and> dc_viewer_id d = i
           | _ \<Rightarrow> False)
      | _ \<Rightarrow> False)"

lemma trusted_ids_book: "trusted_ids (a\<lparr>ap_book := b\<rparr>) = map td_id (bk_trusted b)"
  by (simp add: trusted_ids_def)

lemma trust_ids: "set (map td_id (bk_trusted (trust b i n now))) \<subseteq> insert i (td_id ` set (bk_trusted b))"
  by (auto simp: trust_def)

lemma trusted_run:
  assumes "i \<notin> set (trusted_ids a)" and "\<not> trusts i (AS_Do c v)"
  shows "i \<notin> set (trusted_ids (run_cmd a c v))"
proof (cases c)
  case (AC_Trust j n)
  then show ?thesis using assms trust_ids
    by (auto simp: run_cmd_def book_trust_def valid_id_def Let_def trusts_def trusted_ids_book trust_def split: option.split)
      (auto simp: trusted_ids_def)
next
  case (AC_Respond d)
  then show ?thesis using assms
    by (auto simp: run_cmd_def cmd_respond_def Let_def trusts_def trusted_ids_book trust_def)
      (auto simp: trusted_ids_def)
next
  case (AC_Revoke j)
  then show ?thesis using assms(1)
    by (auto simp: run_cmd_def book_revoke_def Let_def trusted_ids_book revoke_trusted_def) (auto simp: trusted_ids_def)
next
  case AC_RevokeAll
  then show ?thesis by (simp add: run_cmd_def book_revoke_all_def trusted_ids_book revoke_all_def)
next
  case (AC_Connect g)
  then show ?thesis using assms(1)
    by (simp add: run_cmd_def cmd_connect_def Let_def trusted_ids_book ids_kept trusted_ids_def [symmetric] split: sum.split option.split)
next
  case (AC_SettingsSave st)
  then show ?thesis using assms(1) by (simp add: run_cmd_def settings_save_def Let_def)
next
  case (AC_SetPassword pw)
  then show ?thesis using assms(1) by (simp add: run_cmd_def unattended_set_password_def split: prod.split bool.split)
next
  case (AC_RenameTrusted j n)
  then show ?thesis using assms(1)
    by (simp add: run_cmd_def book_rename_trusted_def Let_def trusted_ids_book ids_kept trusted_ids_def [symmetric])
next
  case (AC_Upsert g)
  have "bk_trusted b = bk_trusted (ap_book a)" if "upsert_entry (ap_book a) d n f r t = (x, b)" for d n f r t x b
    using ids_kept(5) [of "ap_book a" d n f r t] that by simp
  then show ?thesis using AC_Upsert assms(1)
    by (simp add: run_cmd_def book_upsert_def Let_def trusted_ids_book split: sum.split option.split prod.split)
      (simp add: trusted_ids_def)
next
  case (AC_Remove j)
  then show ?thesis using assms(1)
    by (simp add: run_cmd_def book_remove_def Let_def trusted_ids_book ids_kept trusted_ids_def [symmetric])
next
  case AC_TrayIncoming
  then show ?thesis using assms(1) by (simp add: run_cmd_def tray_incoming_def Let_def)
qed (use assms(1) in \<open>simp add: run_cmd_def regenerate_def send_viewer_def viewer_input_bin_def viewer_input_def viewer_set_quality_def
    viewer_chat_def viewer_file_def cmd_host_def host_chat_cmd_def presence_query_def unattended_clear_password_def Let_def
    split: option.split prod.split\<close>)+

lemma trusted_step:
  "i \<notin> set (trusted_ids a) \<Longrightarrow> \<not> trusts i x \<Longrightarrow> i \<notin> set (trusted_ids (app_step a x))"
  by (cases x) (simp_all add: trusted_run app_step_def split: option.split)

lemma trusted_steps:
  "i \<notin> set (trusted_ids a) \<Longrightarrow> \<forall>x \<in> set xs. \<not> trusts i x \<Longrightarrow> i \<notin> set (trusted_ids (app_run a xs))"
  by (induction xs rule: rev_induct) (simp_all add: app_run_def trusted_step)

lemma revoked_now: "i \<notin> set (trusted_ids (run_cmd a (AC_Revoke i) v))"
  by (auto simp: run_cmd_def book_revoke_def Let_def revoke_trusted_def trusted_ids_book)

text \<open>C5. Revoking a device takes its unattended access at once and for good. However the application got there and whatever
  happens afterwards, short of the owner trusting it again or opening unattended access to any device: no frames
  a revoked device sends, with whatever password, make the host accept it for unattended access.\<close>

theorem revoked_device_locked_out:
  assumes "a = app_run (app_start d dir ps pb io temp now auto v) (xs @ AS_Do (AC_Revoke i) w # ys)"
    and "\<forall>x \<in> set ys. \<not> trusts i x" and "\<not> set_any_device (ap_settings a)"
  shows "\<not> (shake hv p (engine.en_host (ap_engine a)) t rs = Inr au \<and> au_viewer_id au = i \<and> au_auth au = Permanent)"
proof
  assume "shake hv p (engine.en_host (ap_engine a)) t rs = Inr au \<and> au_viewer_id au = i \<and> au_auth au = Permanent"
  then have s: "shake hv p (engine.en_host (ap_engine a)) t rs = Inr au" "au_viewer_id au = i" "au_auth au = Permanent"
    by blast+
  let ?h = "engine.en_host (ap_engine a)"
  obtain pw where "valid_password ?h t au pw" using shake_accepts [OF s(1)] by blast
  then have v: "hg_any_device ?h \<or> i \<in> set (hg_authorized ?h)" by (simp add: valid_password_def s(2,3))
  have i: "in_step a" unfolding assms(1) by (rule run_in_step) (rule in_step_start)
  have "i \<notin> set (trusted_ids a)"
    unfolding assms(1) app_run_def foldl_append foldl_Cons
    using trusted_steps [OF revoked_now assms(2), unfolded app_run_def] by (simp add: app_step_def)
  then show False using v i assms(3) by (simp add: in_step_def Let_def)
qed

definition no_io :: io_env where
  "no_io = \<lparr>io_mkdir = True, io_write = True, io_partial = [], io_rename = True, io_remove = True, io_read = True\<rparr>"

definition demo_app_env :: app_env where
  "demo_app_env = \<lparr>av_now = 0, av_infra = \<lparr>in_url = [], in_pins = [], in_allow_insecure = False\<rparr>, av_computer = None,
     av_profile = None, av_version = [], av_prot = \<lparr>pr_ser = \<lambda>_. None, pr_de = \<lambda>_. None, pr_protect = Some, pr_unprotect = Some\<rparr>,
     av_ser_settings = \<lambda>_. None, av_ser_book = \<lambda>_. None, av_save = no_io, av_secret = no_io, av_autostart = True,
     av_upper = \<lambda>c. [c], av_merge = \<lambda>_. None\<rparr>"

definition demo_app :: "mock app" where
  "demo_app = app_start [] [lit ''data''] (\<lambda>_. None) (\<lambda>_. None) no_io [97] 0 False demo_app_env"

definition known :: "(mock, 8 word list) app_step list" where
  "known = [AS_Do (AC_SettingsSave (settings_default\<lparr>settings.set_unattended := True\<rparr>)) demo_app_env,
     AS_Do (AC_SetPassword (lit ''a long password'')) demo_app_env, AS_Do (AC_Trust (lit ''123 456 789'') []) demo_app_env]"

definition forgotten :: "(mock, 8 word list) app_step list" where
  "forgotten = known @ AS_Do (AC_Revoke (lit ''123456789'')) demo_app_env # [AS_Do AC_ClearPassword demo_app_env]"

lemma settings_after:
  "ap_settings (run_cmd a (AC_SettingsSave st) v) = sanitized st" "ap_settings (run_cmd a (AC_SetPassword pw) v) = ap_settings a"
  "ap_settings (run_cmd a (AC_Trust i n) v) = ap_settings a" "ap_settings (run_cmd a (AC_Revoke i) v) = ap_settings a"
  "ap_settings (run_cmd a AC_ClearPassword v) = ap_settings a" "ap_settings (run_cmd a (AC_Respond d) v) = ap_settings a"
  by (simp_all add: run_cmd_def settings_save_def unattended_set_password_def book_trust_def book_revoke_def
      unattended_clear_password_def cmd_respond_def Let_def split: prod.split bool.split sum.split)

lemma trust_now: "device_id_parse j = Some i \<Longrightarrow> i \<in> set (trusted_ids (run_cmd a (AC_Trust j n) v))"
  by (simp add: run_cmd_def book_trust_def valid_id_def Let_def trusted_ids_book trust_def list_ex_iff) force

lemma demo_known: "lit ''123456789'' \<in> set (hg_authorized (engine.en_host (ap_engine (app_run demo_app known))))"
proof -
  have "device_id_parse (lit ''123 456 789'') = Some (lit ''123456789'')" by code_simp
  from trust_now [OF this] have "lit ''123456789'' \<in> set (trusted_ids (app_run demo_app known))"
    by (simp add: known_def app_run_def app_step_def)
  moreover have "in_step (app_run demo_app known)" unfolding demo_app_def by (rule run_in_step) (rule in_step_start)
  ultimately show ?thesis by (simp add: in_step_def Let_def)
qed

theorem revoked_device_locked_out_witness:
  "\<not> (\<exists>p t rs au. shake toy_env p (engine.en_host (ap_engine (app_run demo_app forgotten))) t rs = Inr au \<and>
     au_viewer_id au = lit ''123456789'' \<and> au_auth au = Permanent)"
proof -
  have "\<not> set_any_device (ap_settings (app_run demo_app forgotten))"
    by (simp add: forgotten_def known_def app_run_def app_step_def settings_after sanitized_def settings_default_def)
  moreover have "\<forall>x \<in> set [AS_Do AC_ClearPassword demo_app_env :: (mock, 8 word list) app_step]. \<not> trusts (lit ''123456789'') x"
    by (simp add: trusts_def)
  ultimately show ?thesis
    using revoked_device_locked_out [OF refl, of "[AS_Do AC_ClearPassword demo_app_env]" "lit ''123456789''" "[]" "[lit ''data'']"
        "\<lambda>_. None" "\<lambda>_. None" no_io "[97]" 0 False demo_app_env known demo_app_env toy_env]
    unfolding demo_app_def forgotten_def by blast
qed

text \<open>A session that is running goes on: revoking does not touch the tasks of the engine.\<close>

lemma revoking_spares_sessions: "en_tasks (ap_engine (run_cmd a (AC_Revoke i) v)) = en_tasks (ap_engine a)"
  by (simp add: run_cmd_def book_revoke_def Let_def)

text \<open>An answer that comes after the prompt has ended grants nothing, but the device is trusted all the same.\<close>

lemma late_answer_trusts:
  "hm_get (hg_pending (engine.en_host (ap_engine a))) (dc_request d) = None \<Longrightarrow> dc_permissions d \<noteq> None \<Longrightarrow> dc_trust d \<Longrightarrow>
   en_tasks (ap_engine (cmd_respond a d v)) = en_tasks (ap_engine a) \<and> dc_viewer_id d \<in> set (trusted_ids (cmd_respond a d v))"
proof -
  assume h: "hm_get (hg_pending (engine.en_host (ap_engine a))) (dc_request d) = None" "dc_permissions d \<noteq> None" "dc_trust d"
  let ?b = "apply_unattended (save_book (a\<lparr>ap_book := trust (ap_book a) (dc_viewer_id d) (dc_viewer_name d) (av_now v)\<rparr>) v) v"
  have "hg_pending (engine.en_host (ap_engine ?b)) = hg_pending (engine.en_host (ap_engine a))"
    by (simp add: apply_unattended_def on_host_def Host_Engine.set_unattended_def set_unattended_elevated_def Let_def)
  then have "ap_engine (cmd_respond a d v) = ap_engine ?b"
    using h by (simp add: cmd_respond_def respond_incoming_def)
  moreover have "trusted_ids (cmd_respond a d v) = trusted_ids ?b" using h by (simp add: cmd_respond_def)
  moreover have "dc_viewer_id d \<in> set (trusted_ids ?b)" by (simp add: trusted_ids_book trust_def list_ex_iff) force
  ultimately show ?thesis by simp
qed

end
