(* ===== verification/App_Sessions.thy ===== *)
theory App_Sessions
  imports App_Safety
begin

text \<open>
  The engine inside the application: every run of the application is a history of the engine, in which
  the owner's answers are those the page gave, and the unattended access that of the settings and the book.
\<close>

section \<open>What the engine's policy comes from\<close>

definition access_step :: "('b, 's) engine_step \<Rightarrow> bool" where
  "access_step x =
     (case x of ES_Unattended _ _ _ _ \<Rightarrow> True | ES_UnattendedElevated _ \<Rightarrow> True | ES_Revoke _ \<Rightarrow> True | _ \<Rightarrow> False)"

lemma policy_other:
  assumes "owner_step x" "\<not> access_step x"
  shows "fst (policy (other_step e x)) = fst (policy e)"
proof -
  have "fst (policy (e\<lparr>en_cfg := c\<rparr>)) = fst (policy e)" "fst (policy (e\<lparr>en_incoming := b\<rparr>)) = fst (policy e)" for c b
    by (simp_all add: policy_def Let_def)
  then show ?thesis using assms by (cases x) (simp_all add: other_step_def owner_step_def access_step_def)
qed

lemma access_source:
  fixes e :: "'b engine" and ys :: "('b, 's) engine_step list"
  assumes "engine_hist ys e"
  shows "hg_unattended (engine.en_host e) \<longrightarrow>
      (\<exists>pw ids any. ES_Unattended True pw ids any \<in> set ys \<and> hg_any_device (engine.en_host e) = any \<and>
         set (hg_authorized (engine.en_host e)) \<subseteq> set ids)"
    and "hg_unattended_elevated (engine.en_host e) \<longrightarrow> ES_UnattendedElevated True \<in> set ys"
proof -
  have "(hg_unattended (engine.en_host e) \<longrightarrow>
      (\<exists>pw ids any. ES_Unattended True pw ids any \<in> set ys \<and> hg_any_device (engine.en_host e) = any \<and>
         set (hg_authorized (engine.en_host e)) \<subseteq> set ids)) \<and>
    (hg_unattended_elevated (engine.en_host e) \<longrightarrow> ES_UnattendedElevated True \<in> set ys)"
    using assms
  proof induction
    case (hist_new cfg temp now)
    then show ?case by (simp add: engine_new_def host_state_new_def)
  next
    case (hist_step xs e x)
    have same: ?case if "fst (policy (engine_step e x)) = fst (policy e)"
      using that hist_step.IH by (auto simp: policy_def Let_def)
    have out: "engine_step e x = other_step e x" if "step_task x = None" using that by (simp add: engine_step_def)
    show ?case
    proof (cases "owner_step x")
      case False
      show ?thesis by (rule same) (simp add: policy_step False)
    next
      case True
      then have st: "step_task x = None" by (cases x) (simp_all add: owner_step_def step_task_def)
      show ?thesis
      proof (cases "access_step x")
        case False
        show ?thesis by (rule same) (unfold out [OF st], rule policy_other [OF True False])
      next
        case access: True
        show ?thesis
        proof (cases x)
          case (ES_Unattended on pw ids any)
          then show ?thesis using hist_step.IH unfolding out [OF st]
            by (auto simp: other_step_def Host_Engine.set_unattended_def on_host_def Let_def)
        next
          case (ES_UnattendedElevated on)
          then show ?thesis using hist_step.IH unfolding out [OF st]
            by (auto simp: other_step_def set_unattended_elevated_def on_host_def)
        next
          case (ES_Revoke v)
          then show ?thesis using hist_step.IH unfolding out [OF st]
            by (auto simp: other_step_def revoke_authorization_def on_host_def)
        qed (use access in \<open>simp_all add: access_step_def\<close>)
      qed
    qed
  qed
  then show "hg_unattended (engine.en_host e) \<longrightarrow>
      (\<exists>pw ids any. ES_Unattended True pw ids any \<in> set ys \<and> hg_any_device (engine.en_host e) = any \<and>
         set (hg_authorized (engine.en_host e)) \<subseteq> set ids)"
    "hg_unattended_elevated (engine.en_host e) \<longrightarrow> ES_UnattendedElevated True \<in> set ys" by blast+
qed

section \<open>A run of the application as a history of the engine\<close>

text \<open>An engine step that a step of the application, leading to the state \<open>b\<close>, may cause.\<close>

definition caused :: "'b app \<Rightarrow> ('b, 's) app_step \<Rightarrow> ('b, 's) engine_step \<Rightarrow> bool" where
  "caused b x z =
     (case z of
        ES_Respond rid g \<Rightarrow> (\<exists>d v. x = AS_Do (AC_Respond d) v \<and> dc_request d = rid \<and> dc_permissions d = g)
      | ES_Unattended on pw ids any \<Rightarrow>
          on = settings.set_unattended (ap_settings b) \<and> ids = trusted_ids b \<and> any = set_any_device (ap_settings b)
      | ES_UnattendedElevated on \<Rightarrow> on = set_elevated (ap_settings b)
      | _ \<Rightarrow> True)"

definition causes :: "'b app \<Rightarrow> ('b, 's) app_step \<Rightarrow> 'b app \<Rightarrow> bool" where
  "causes a x b \<longleftrightarrow> (\<exists>zs. ap_engine b = foldl engine_step (ap_engine a) zs \<and> list_all (caused b x) zs)"

lemma causes_none: "ap_engine b = ap_engine a \<Longrightarrow> causes a x b"
  unfolding causes_def by (rule exI [of _ "[]"]) simp

lemma causes_one: "ap_engine b = engine_step (ap_engine a) z \<Longrightarrow> caused b x z \<Longrightarrow> causes a x b"
  unfolding causes_def by (rule exI [of _ "[z]"]) simp

lemma own_step:
  "engine_step e (ES_Unattended on pw ids any :: ('b, 's) engine_step) = Host_Engine.set_unattended e on pw ids any"
  "engine_step e (ES_UnattendedElevated on :: ('b, 's) engine_step) = set_unattended_elevated e on"
  "engine_step e (ES_Respond rid g :: ('b, 's) engine_step) = respond_incoming e rid g"
  "engine_step e (ES_Command c :: ('b, 's) engine_step) = engine_command e c"
  "engine_step e (ES_Config cfg :: ('b, 's) engine_step) = e\<lparr>en_cfg := cfg\<rparr>"
  "engine_step e (ES_Enable b :: ('b, 's) engine_step) = e\<lparr>en_incoming := b\<rparr>"
  "engine_step e (ES_Rotate npw :: ('b, 's) engine_step) = rotate_password e npw"
  "engine_step e (ES_Viewer :: ('b, 's) engine_step) = e\<lparr>en_next_session := en_next_session e + 1\<rparr>"
  "engine_step e (ES_Presence l :: ('b, 's) engine_step) = e\<lparr>en_sent := en_sent e @ [C_QueryPresence l]\<rparr>"
  by (simp_all add: engine_step_def step_task_def other_step_def)

definition access_steps :: "'b app \<Rightarrow> app_env \<Rightarrow> ('b, 's) engine_step list" where
  "access_steps a v =
     [ES_Unattended (settings.set_unattended (ap_settings a)) (secret_load (av_prot v) (ap_disk a) (secret_path a) (av_secret v))
        (trusted_ids a) (set_any_device (ap_settings a)), ES_UnattendedElevated (set_elevated (ap_settings a))]"

lemma apply_steps: "ap_engine (apply_unattended a v) = foldl engine_step (ap_engine a) (access_steps a v :: ('b, 's) engine_step list)"
  by (simp add: apply_unattended_def access_steps_def own_step Let_def trusted_ids_def)

lemma access_caused:
  "ap_settings b = ap_settings a \<Longrightarrow> trusted_ids b = trusted_ids a \<Longrightarrow> list_all (caused b x) (access_steps a v)"
  by (simp add: access_steps_def caused_def)

lemma causes_apply: "ap_engine a' = ap_engine a \<Longrightarrow> causes a (x :: ('b, 's) app_step) (apply_unattended a' v)"
  unfolding causes_def
  by (rule exI [of _ "access_steps a' v"]) (simp add: apply_steps [where 's = 's] access_caused)

lemma caused_simps [simp]:
  "caused b x (ES_Command c)" "caused b x (ES_Rotate pw)" "caused b x ES_Viewer" "caused b x (ES_Presence l)"
  "caused b x (ES_Config cfg)" "caused b x (ES_Enable on)"
  by (simp_all add: caused_def)

lemma causes_settings: "causes a (x :: ('b, 's) app_step) (snd (settings_save a st v))"
proof -
  let ?c = "sanitized st" and ?b = "snd (settings_save a st v)"
  let ?a = "\<lambda>t. (on_engine (\<lambda>e. e\<lparr>en_cfg := config_of v ?c, en_incoming := set_incoming ?c\<rparr>)
    (save_settings (a\<lparr>ap_settings := ?c\<rparr>) v))\<lparr>ap_tray := t\<rparr>"
  have t: "ap_tray (on_engine f b) = ap_tray b" for f and b :: "'b app" by (simp add: on_engine_def)
  have b: "ap_engine ?b = ap_engine (apply_unattended (?a (map_option (\<lambda>_. set_incoming ?c) (ap_tray a))) v)"
    "ap_settings ?b = ?c" "trusted_ids ?b = trusted_ids a"
    by (simp_all add: settings_save_def Let_def t)
  let ?t = "?a (map_option (\<lambda>_. set_incoming ?c) (ap_tray a))"
  have "ap_engine ?b = foldl engine_step (ap_engine a)
      ([ES_Config (config_of v ?c), ES_Enable (set_incoming ?c)] @ (access_steps ?t v :: ('b, 's) engine_step list))"
    unfolding b(1) apply_steps [where 's = 's] by (simp add: own_step)
  moreover have "list_all (caused ?b x) ([ES_Config (config_of v ?c), ES_Enable (set_incoming ?c)] @ access_steps ?t v)"
    using access_caused [of ?b ?t x v] by (simp add: b(2,3))
  ultimately show ?thesis unfolding causes_def by blast
qed

lemma causes_respond: "causes a (AS_Do (AC_Respond d) w :: ('b, 's) app_step) (cmd_respond a d v)"
proof -
  let ?r = "ES_Respond (dc_request d) (dc_permissions d) :: ('b, 's) engine_step" and ?b = "cmd_respond a d v"
  have r: "caused ?b (AS_Do (AC_Respond d) w) ?r" by (simp add: caused_def)
  show ?thesis
  proof (cases "dc_permissions d \<noteq> None \<and> dc_trust d")
    case True
    let ?t = "save_book (a\<lparr>ap_book := trust (ap_book a) (dc_viewer_id d) (dc_viewer_name d) (av_now v)\<rparr>) v"
    have "ap_engine ?b = foldl engine_step (ap_engine a) (access_steps ?t v @ [?r])"
      using True by (simp add: cmd_respond_def own_step apply_steps [where 's = 's])
    moreover have "list_all (caused ?b (AS_Do (AC_Respond d) w)) (access_steps ?t v @ [?r])"
      using True access_caused [of ?b ?t "AS_Do (AC_Respond d) w" v] r by (simp add: cmd_respond_def)
    ultimately show ?thesis unfolding causes_def by blast
  next
    case False
    then have "ap_engine ?b = engine_step (ap_engine a) ?r" by (auto simp: cmd_respond_def own_step)
    then show ?thesis using r by (rule causes_one)
  qed
qed

lemma causes_cmd:
  fixes a :: "'b app"
  shows "causes a (AS_Do c v :: ('b, 's) app_step) (run_cmd a c v)"
proof (cases c)
  case (AC_SettingsSave st)
  then show ?thesis by (simp add: run_cmd_def causes_settings)
next
  case (AC_SetPassword pw)
  then show ?thesis
    by (simp add: run_cmd_def unattended_set_password_def causes_none causes_apply split: prod.split bool.split)
next
  case AC_ClearPassword
  then show ?thesis by (simp add: run_cmd_def unattended_clear_password_def causes_apply)
next
  case (AC_Respond d)
  then show ?thesis by (simp add: run_cmd_def causes_respond)
next
  case (AC_Trust i n)
  then show ?thesis by (simp add: run_cmd_def book_trust_def Let_def causes_none causes_apply split: sum.split)
next
  case (AC_Revoke i)
  then show ?thesis by (simp add: run_cmd_def book_revoke_def Let_def causes_apply)
next
  case AC_RevokeAll
  then show ?thesis by (simp add: run_cmd_def book_revoke_all_def causes_apply)
next
  case (AC_Connect g)
  have one: "ap_engine b = (ap_engine a)\<lparr>en_next_session := en_next_session (ap_engine a) + 1\<rparr> \<Longrightarrow>
      causes a (AS_Do c v :: ('b, 's) app_step) b" for b :: "'b app"
    by (rule causes_one [where z = ES_Viewer]) (simp_all add: own_step)
  show ?thesis
    by (simp add: AC_Connect run_cmd_def cmd_connect_def Let_def causes_none split: sum.split option.split)
      (use one AC_Connect in simp)
next
  case (AC_Regenerate pw)
  show ?thesis by (rule causes_one [where z = "ES_Rotate pw"]) (simp_all add: AC_Regenerate run_cmd_def regenerate_def own_step)
next
  case (AC_Host k)
  show ?thesis by (rule causes_one [where z = "ES_Command k"]) (simp_all add: AC_Host run_cmd_def cmd_host_def own_step)
next
  case (AC_HostChat t)
  have "causes a (AS_Do c v :: ('b, 's) app_step) (cmd_host a (HC_Chat (chat_text t)))"
    by (rule causes_one [where z = "ES_Command (HC_Chat (chat_text t))"]) (simp_all add: cmd_host_def own_step)
  then show ?thesis by (simp add: AC_HostChat run_cmd_def host_chat_cmd_def causes_none)
next
  case (AC_Presence l)
  show ?thesis by (rule causes_one [where z = "ES_Presence (take 64 l)"]) (simp_all add: AC_Presence run_cmd_def presence_query_def own_step)
next
  case AC_TrayIncoming
  show ?thesis
    by (rule causes_one [where z = "ES_Enable (\<not> set_incoming (ap_settings a))"])
      (simp_all add: AC_TrayIncoming run_cmd_def tray_incoming_def own_step Let_def)
next
  case (AC_Upsert g)
  then show ?thesis
    by (simp add: run_cmd_def book_upsert_def Let_def causes_none split: sum.split option.split prod.split)
qed (rule causes_none; simp add: run_cmd_def quiet_viewer viewer_input_bin_def viewer_input_def viewer_set_quality_def
    viewer_chat_def viewer_file_def book_rename_trusted_def book_remove_def Let_def split: option.split prod.split)+

lemma causes_step: "causes a x (app_step a x)"
proof (cases x)
  case (AS_Engine y)
  have "caused b x y" if "\<not> owner_step y" for b using that by (cases y) (simp_all add: caused_def owner_step_def)
  then show ?thesis
    by (cases "owner_step y") (auto simp: AS_Engine app_step_def intro: causes_none causes_one)
next
  case (AS_Channel n p)
  then show ?thesis by (intro causes_none) (simp add: app_step_def split: option.split)
qed (simp_all add: app_step_def causes_cmd causes_none)

text \<open>An engine step explained by a run: by an answer in it, or by the settings and the book at some point of it.\<close>

definition explained :: "'b app \<Rightarrow> ('b, 's) app_step list \<Rightarrow> ('b, 's) engine_step \<Rightarrow> bool" where
  "explained start xs z =
     (case z of
        ES_Respond rid g \<Rightarrow> (\<exists>d v. AS_Do (AC_Respond d) v \<in> set xs \<and> dc_request d = rid \<and> dc_permissions d = g)
      | ES_Unattended on pw ids any \<Rightarrow>
          (\<exists>n. let b = app_run start (take n xs)
             in on = settings.set_unattended (ap_settings b) \<and> ids = trusted_ids b \<and> any = set_any_device (ap_settings b))
      | ES_UnattendedElevated on \<Rightarrow> (\<exists>n. on = set_elevated (ap_settings (app_run start (take n xs))))
      | _ \<Rightarrow> True)"

lemma explained_more:
  assumes "explained start xs z"
  shows "explained start (xs @ [x]) z"
proof -
  have t: "\<exists>m. take m (xs @ [x]) = take n xs" for n
    by (rule exI [of _ "min n (length xs)"]) (cases "n \<le> length xs"; simp add: min_def)
  show ?thesis using assms t unfolding explained_def
    by (cases z) (auto simp: Let_def, metis+)
qed

lemma explained_last:
  assumes "caused (app_run start (xs @ [x])) x z"
  shows "explained start (xs @ [x]) z"
proof -
  have t: "take (Suc (length xs)) (xs @ [x]) = xs @ [x]" by simp
  show ?thesis
  proof (cases z)
    case (ES_Unattended on pw ids any)
    then show ?thesis using assms unfolding explained_def caused_def
      by (simp add: Let_def) (rule exI [of _ "Suc (length xs)"], simp)
  next
    case (ES_UnattendedElevated on)
    then show ?thesis using assms unfolding explained_def caused_def
      by simp (rule exI [of _ "Suc (length xs)"], simp)
  next
    case (ES_Respond rid g)
    then show ?thesis using assms by (auto simp: explained_def caused_def)
  qed (simp_all add: explained_def)
qed

lemma run_is_history:
  fixes xs :: "('b, 's) app_step list" and start :: "'b app"
  assumes "start = app_start d dir ps pb io temp now auto v"
  shows "\<exists>zs. engine_hist zs (ap_engine (app_run start xs)) \<and> list_all (explained start xs) zs"
proof (induction xs rule: rev_induct)
  case Nil
  obtain st d1 where l: "load_json ps settings_default d (dir @ [lit ''settings.json'']) io = (st, d1)"
    by (cases "load_json ps settings_default d (dir @ [lit ''settings.json'']) io")
  obtain b d2 where m: "load_json pb book_empty d1 (dir @ [lit ''devices.json'']) io = (b, d2)"
    by (cases "load_json pb book_empty d1 (dir @ [lit ''devices.json'']) io")
  define a :: "'b app" where "a = \<lparr>ap_engine = engine_new (config_of v (sanitized st)) temp now, ap_viewers = [], ap_targets = [],
    ap_settings = sanitized st, ap_book = b, ap_disk = d2, ap_dir = dir, ap_tray = None, ap_autostart = auto\<rparr>"
  have s: "start = (apply_unattended a v)\<lparr>ap_tray := Some (set_incoming (sanitized st))\<rparr>"
    unfolding assms a_def app_start_def Let_def l prod.case m ..
  let ?zs = "access_steps a v :: ('b, 's) engine_step list"
  have e: "ap_engine start = foldl engine_step (ap_engine a) ?zs" by (simp add: s apply_steps [where 's = 's])
  have "engine_hist [] (ap_engine a)" by (simp add: a_def hist_new)
  from hist_run [OF this, of ?zs] have "engine_hist ?zs (ap_engine start)" by (simp add: e)
  moreover have "list_all (explained start []) ?zs" by (simp add: access_steps_def explained_def s app_run_def)
  ultimately show ?case by (auto simp: app_run_def)
next
  case (snoc x xs)
  then obtain zs where z: "engine_hist zs (ap_engine (app_run start xs))" "list_all (explained start xs) zs" by blast
  have r: "app_run start (xs @ [x]) = app_step (app_run start xs) x" by (simp add: app_run_def)
  obtain ws where w: "ap_engine (app_run start (xs @ [x])) = foldl engine_step (ap_engine (app_run start xs)) ws"
    "list_all (caused (app_run start (xs @ [x])) x) ws"
    using causes_step [of "app_run start xs" x] unfolding r causes_def by blast
  have "engine_hist (zs @ ws) (ap_engine (app_run start (xs @ [x])))" unfolding w(1) by (rule hist_run [OF z(1)])
  moreover have "list_all (explained start (xs @ [x])) (zs @ ws)"
    using z(2) w(2) explained_more [of start xs _ x] explained_last [of start xs x] by (auto simp: list_all_iff)
  ultimately show ?case by blast
qed

section \<open>Sessions of this computer\<close>

text \<open>C2. Whoever controls this computer was let in by its owner. Whatever the page, the server and the viewers do, in any order, from
  any state on the disk: a session with the permissions \<open>g\<close> runs for a viewer only if the owner answered a request on the page with at
  least these permissions, or if at some moment the settings had unattended access on and the viewer was
  a trusted device of the book then, or any device was allowed; and it has elevated control then only if
  the settings allowed it for unattended access at some moment.\<close>

theorem app_session_needs_owner:
  fixes xs :: "('b, 's) app_step list" and start :: "'b app"
  assumes "start = app_start d dir ps pb io temp now auto v" and "e = ap_engine (app_run start xs)"
    and "i < length (en_tasks e)" and "ic_phase (en_tasks e ! i) = Ph_Run a g s"
  shows "(\<exists>r w p. AS_Do (AC_Respond r) w \<in> set xs \<and> dc_permissions r = Some p \<and> perm_le g p) \<or>
    (\<exists>n. let b = app_run start (take n xs)
       in settings.set_unattended (ap_settings b) \<and> (set_any_device (ap_settings b) \<or> au_viewer_id a \<in> set (trusted_ids b))) \<and>
    (p_elevated g \<longrightarrow> (\<exists>n. set_elevated (ap_settings (app_run start (take n xs)))))"
proof -
  obtain zs :: "('b, 's) engine_step list" where z: "engine_hist zs e" "\<forall>z \<in> set zs. explained start xs z"
    using run_is_history [OF assms(1), of xs] assms(2) by (auto simp: list_all_iff)
  have "engine_ok zs e" by (rule engine_hist_ok [OF z(1)])
  then have "consented zs (au_viewer_id a) g" using ok_task [OF _ assms(3)] assms(4) by (fastforce simp: phase_ok_def)
  then consider "owner_approved zs (au_viewer_id a) g" | "unattended_consent zs (au_viewer_id a) g"
    by (auto simp: consented_def)
  then show ?thesis
  proof cases
    case 1
    then obtain rid p req where r: "ES_Respond rid (Some p) \<in> set zs" "perm_le g (intersect p req)"
      unfolding owner_approved_def by (metis in_set_conv_decomp)
    then have "perm_le g p" by (auto simp: perm_le_def intersect_def)
    moreover have "explained start xs (ES_Respond rid (Some p))" using z(2) r(1) by blast
    ultimately show ?thesis unfolding explained_def by auto
  next
    case 2
    then obtain q e1 e2 ys ys' pw ws ws' hv rs where q: "au_viewer_id q = au_viewer_id a" "au_auth q = Permanent"
      "engine_hist ys e1" "valid_password (engine.en_host e1) (en_now e1) q pw" "zs = ys @ ws"
      "engine_hist ys' e2" "zs = ys' @ ws'" "p_elevated g \<longrightarrow> hg_unattended_elevated (engine.en_host e2)"
      unfolding unattended_consent_def admitted_def by blast
    have u: "hg_unattended (engine.en_host e1)" "hg_any_device (engine.en_host e1) \<or> au_viewer_id a \<in> set (hg_authorized (engine.en_host e1))"
      using q(1,2,4) by (simp_all add: valid_password_def)
    then obtain pw' ids any where s: "ES_Unattended True pw' ids any \<in> set zs" "any \<or> au_viewer_id a \<in> set ids"
      using access_source(1) [OF q(3)] q(5) by auto
    have "explained start xs (ES_Unattended True pw' ids any)" using z(2) s(1) by blast
    then have 1: "\<exists>n. let b = app_run start (take n xs)
       in settings.set_unattended (ap_settings b) \<and> (set_any_device (ap_settings b) \<or> au_viewer_id a \<in> set (trusted_ids b))"
      using s(2) unfolding explained_def by (auto simp: Let_def)
    have "\<exists>n. set_elevated (ap_settings (app_run start (take n xs)))" if "p_elevated g"
    proof -
      have "ES_UnattendedElevated True \<in> set zs" using access_source(2) [OF q(6)] q(7,8) that by simp
      then have "explained start xs (ES_UnattendedElevated True)" using z(2) by blast
      then show ?thesis unfolding explained_def by simp
    qed
    then show ?thesis using 1 by blast
  qed
qed

text \<open>The application of the example starts with a plain engine; then a viewer asks and the owner accepts on the page.\<close>

lemma demo_config: "config_of demo_app_env (sanitized settings_default) = engine_config_new [] [] (lit ''My PC'') [lit ''downloads'']"
  by (simp add: config_of_def demo_app_env_def settings_default_def sanitized_def engine_config_new_def str_trim_def
      computer_name_def default_download_dir_def clamp_def Let_def)

lemma demo_engine: "ap_engine demo_app = engine_new (engine_config_new [] [] (lit ''My PC'') [lit ''downloads'']) [97] 0"
proof -
  have "ap_engine demo_app = set_unattended_elevated (Host_Engine.set_unattended
      (engine_new (config_of demo_app_env (sanitized settings_default)) [97] 0) False None [] False) False"
    by (simp add: demo_app_def app_start_def load_json_def read_path_def hm_get_def apply_unattended_def secret_load_def
        book_empty_def Let_def) (simp add: settings_default_def sanitized_def on_engine_def)
  then show ?thesis unfolding demo_config
    by (simp add: set_unattended_elevated_def Host_Engine.set_unattended_def on_host_def engine_new_def host_state_new_def)
qed

definition prompted :: "(mock, 8 word list) app_step list" where
  "prompted = map AS_Engine [ES_Server (SE_Identity (vp_host_id toy_vp)) 0 False,
     ES_Server (SE_Msg (S_Incoming (vp_session toy_vp) [49] [86] False)) 0 False,
     ES_Check 0, ES_Link 0 True, ES_Hello 0 toy_env (map Some [[0], [2, 112]]), ES_Result 0 [], ES_Consent 0]"

definition demo_yes :: "(mock, 8 word list) app_step list" where
  "demo_yes = prompted @ [AS_Do (AC_Respond \<lparr>dc_request = 1, dc_permissions = Some PERM_ALL, dc_trust = False,
     dc_viewer_id = [49], dc_viewer_name = [86]\<rparr>) demo_app_env, AS_Engine (ES_Decision 0)]"

lemma demo_granted: "granted_all (ap_engine (app_run demo_app demo_yes))"
proof -
  have "ap_engine (app_run demo_app demo_yes) = foldl engine_step (ap_engine demo_app) visit"
    by (simp add: demo_yes_def prompted_def visit_def app_run_def app_step_def owner_step_def run_cmd_def cmd_respond_def own_step)
  moreover have "granted_all (foldl engine_step (engine_new (engine_config_new [] [] (lit ''My PC'') [lit ''downloads'']) [97] 0) visit)"
    by code_simp
  ultimately show ?thesis by (simp only: demo_engine)
qed

definition quiet :: "('b, 's) app_step \<Rightarrow> bool" where
  "quiet x = (case x of AS_Engine _ \<Rightarrow> True | AS_Do c _ \<Rightarrow> (case c of AC_Respond _ \<Rightarrow> True | _ \<Rightarrow> False) | _ \<Rightarrow> False)"

lemma quiet_settings: "quiet x \<Longrightarrow> ap_settings (app_step b x) = ap_settings b"
  by (auto simp: quiet_def app_step_def settings_after split: app_step.splits app_cmd.splits)

theorem app_session_needs_owner_witness:
  "\<exists>a s. ic_phase (en_tasks (ap_engine (app_run demo_app (demo_yes @ [AS_Engine (ES_Start 0 demo_platform)]))) ! 0) = Ph_Run a PERM_ALL s \<and>
    (\<exists>r w p. AS_Do (AC_Respond r) w \<in> set (demo_yes @ [AS_Engine (ES_Start 0 demo_platform)]) \<and> dc_permissions r = Some p \<and> perm_le PERM_ALL p)"
proof -
  let ?x = "ES_Start 0 demo_platform :: (mock, 8 word list) engine_step"
  let ?xs = "demo_yes @ [AS_Engine ?x]" and ?e = "ap_engine (app_run demo_app (demo_yes @ [AS_Engine ?x]))"
  have f: "?e = engine_step (ap_engine (app_run demo_app demo_yes)) ?x" by (simp add: app_run_def app_step_def owner_step_def)
  obtain a s where q: "length (en_tasks ?e) = 1" "ic_phase (en_tasks ?e ! 0) = Ph_Run a PERM_ALL s"
    using start_runs [OF demo_granted, of ?x] unfolding f by blast
  have r: "0 < length (en_tasks ?e)" by (simp only: q(1))
  have "ap_settings (app_run demo_app ys) = ap_settings demo_app" if "list_all quiet ys" for ys :: "(mock, 8 word list) app_step list"
    using that by (induction ys rule: rev_induct) (auto simp: app_run_def quiet_settings)
  moreover have "list_all quiet (take n ?xs)" for n
  proof -
    have "list_all quiet ?xs" by (simp add: demo_yes_def prompted_def quiet_def list_all_iff)
    then show ?thesis by (meson in_set_takeD list_all_iff)
  qed
  ultimately have "ap_settings (app_run demo_app (take n ?xs)) = ap_settings demo_app" for n by blast
  moreover have "\<not> settings.set_unattended (ap_settings demo_app)"
    by (simp add: demo_app_def app_start_def load_json_def read_path_def hm_get_def Let_def sanitized_def settings_default_def)
  ultimately have "\<not> settings.set_unattended (ap_settings (app_run demo_app (take n ?xs)))" for n by simp
  then show ?thesis using app_session_needs_owner [OF demo_app_def refl r q(2)] q(2) by (auto simp: Let_def)
qed

end
