(* ===== verification/Video.thy ===== *)
theory Video
  imports Host_Session Viewer_Session
begin

text \<open>
  The video thread of the host, \<open>crates/session/src/video.rs\<close>, with the types of \<open>env.rs\<close> it works on.
  One iteration of its loop is one step; the answers of the capture source, the encoder, the service and
  the send queue, and the clock readings, come with the step. What the thread sends and asks of the
  source is appended to its state, and \<open>vt_log\<close> has the order of it all. The sleeps show only in the clock readings.
\<close>

section \<open>Types\<close>

record encoder_request =
  er_codec :: codec
  er_width :: u32
  er_height :: u32
  er_fps :: u32
  er_bitrate_kbps :: u32
  er_hardware :: bool

record frame =
  fr_width :: u32
  fr_height :: u32
  fr_data :: "u8 list"

record pointer =
  po_x :: i32
  po_y :: i32
  po_visible :: bool

record source_output =
  so_frame :: "frame option"
  so_pointer :: "pointer option"
  so_shape :: "cursor_shape option"

datatype source_error = SE_Lost | SE_Fatal rstr

record encoded_unit =
  eu_data :: "u8 list"
  eu_keyframe :: bool

record encoder_slot =
  es_name :: rstr
  es_width :: u32
  es_height :: u32
  es_fps :: u32
  es_codec :: codec
  es_kbps :: u32

record window =
  wn_start :: instant
  wn_frames :: u32
  wn_bytes :: u64
  wn_capture_us :: u64
  wn_encode_us :: u64
  wn_samples :: u32

definition window_new :: "instant \<Rightarrow> window" where
  "window_new now = \<lparr>wn_start = now, wn_frames = 0, wn_bytes = 0, wn_capture_us = 0, wn_encode_us = 0, wn_samples = 0\<rparr>"

text \<open>
  What the thread does, in order: a command it reads, a change between screen and service, a new encoder, a
  call of the encoder (whether a keyframe was asked for, and whether it returned units), a unit offered to
  the send queue (and whether it was taken).
\<close>

datatype video_log =
    VL_Control video_ctl
  | VL_Source bool
  | VL_Encoder encoder_slot
  | VL_Encode frame bool "rstr + encoded_unit list"
  | VL_Unit video_frame bool

text \<open>
  \<open>vt_video\<close>: the frames offered to the send queue, with whether it took them. \<open>vt_requests\<close> counts the
  frames asked of the source. \<open>vt_end\<close>: the thread is over, with the error if there was one.
\<close>

record video =
  vt_quality :: quality
  vt_displays :: "display_info list"
  vt_active :: display_info
  vt_target :: target
  vt_slot :: "encoder_slot option"
  vt_force :: bool
  vt_paused :: bool
  vt_start :: instant
  vt_seq :: u64
  vt_last_sent :: instant
  vt_displays_at :: instant
  vt_pointer :: "pointer option"
  vt_pointer_at :: instant
  vt_elevated :: "nat option"
  vt_service :: bool
  vt_probe_at :: instant
  vt_input_seq :: u32
  vt_input_at :: instant
  vt_window :: window
  vt_video :: "(video_frame \<times> bool) list"
  vt_cursor :: "cursor_update list"
  vt_events :: "video_event list"
  vt_requests :: nat
  vt_skipped :: nat
  vt_log :: "video_log list"
  vt_end :: "rstr option option"

text \<open>
  The answers of one iteration. \<open>ie_select\<close>: choosing a display; \<open>ie_reopen\<close>: the displays of a new
  capture source, and its answer to choosing one; \<open>ie_accept\<close>: whether the send queue takes the n-th unit;
  \<open>ie_now\<close> is the top of the loop, \<open>ie_late\<close> the delay of the capture after the pause before it, and the
  other durations are those of capturing, encoding and sending.
\<close>

record video_env =
  ie_ctl :: "video_ctl list"
  ie_select :: "u32 \<Rightarrow> rstr + display_info"
  ie_now :: instant
  ie_displays :: "display_info list"
  ie_create :: "encoder_request \<Rightarrow> rstr + rstr"
  ie_applied :: u32
  ie_late :: duration
  ie_captured :: u32
  ie_secure :: bool
  ie_secure_again :: bool
  ie_picture :: "source_output option"
  ie_next :: "source_error + source_output"
  ie_reopen :: "rstr + display_info list"
  ie_reselect :: "u32 \<Rightarrow> rstr + display_info"
  ie_congested :: bool
  ie_capture_time :: duration
  ie_encode :: "frame \<Rightarrow> bool \<Rightarrow> rstr + encoded_unit list"
  ie_encode_time :: duration
  ie_accept :: "nat \<Rightarrow> bool"
  ie_closed :: bool
  ie_send_time :: duration
  ie_dropped :: u64

section \<open>Start and control\<close>

definition last_index :: "display_info list \<Rightarrow> u32" where
  "last_index ds = of_nat (length ds - 1)"

definition video_start ::
  "quality \<Rightarrow> u32 \<Rightarrow> bool \<Rightarrow> rstr + display_info list \<Rightarrow> (u32 \<Rightarrow> rstr + display_info) \<Rightarrow> u32 \<Rightarrow> instant \<Rightarrow> rstr + video" where
  "video_start q disp paused screen select applied now =
     (case screen of
        Inl e \<Rightarrow> Inl e
      | Inr ds \<Rightarrow>
          (case select (min disp (last_index ds)) of
             Inl e \<Rightarrow> Inl e
           | Inr d \<Rightarrow>
               Inr \<lparr>vt_quality = q, vt_displays = ds, vt_active = d,
                    vt_target = ad_target (adapter_new q (d_width d) (d_height d) now), vt_slot = None, vt_force = True,
                    vt_paused = paused, vt_start = now, vt_seq = 0, vt_last_sent = now - secs 1, vt_displays_at = now,
                    vt_pointer = None, vt_pointer_at = now, vt_elevated = None, vt_service = False, vt_probe_at = now,
                    vt_input_seq = applied, vt_input_at = now - secs 10, vt_window = window_new now, vt_video = [],
                    vt_cursor = [], vt_events = [], vt_requests = 0, vt_skipped = 0, vt_log = [], vt_end = None\<rparr>))"

definition vt_emit :: "video \<Rightarrow> video_event \<Rightarrow> video" where
  "vt_emit s ev = s\<lparr>vt_events := vt_events s @ [ev]\<rparr>"

definition request_frame :: "video \<Rightarrow> video" where
  "request_frame s = s\<lparr>vt_requests := vt_requests s + 1\<rparr>"

definition vt_note :: "video \<Rightarrow> video_log \<Rightarrow> video" where
  "vt_note s x = s\<lparr>vt_log := vt_log s @ [x]\<rparr>"

definition vt_control :: "video_env \<Rightarrow> video \<Rightarrow> video_ctl \<Rightarrow> video" where
  "vt_control env s0 c =
     (let s = vt_note s0 (VL_Control c) in case c of
        VC_Select i \<Rightarrow>
          (case ie_select env i of
             Inr d \<Rightarrow>
               vt_emit (s\<lparr>vt_active := d, vt_target := ad_target (adapter_new (vt_quality s) (d_width d) (d_height d) (ie_now env)),
                          vt_slot := None, vt_force := True\<rparr>) (VE_Displays (vt_displays s) (d_index d))
           | Inl _ \<Rightarrow> s)
      | VC_Quality q \<Rightarrow>
          s\<lparr>vt_quality := q,
            vt_target := ad_target (adapter_new q (d_width (vt_active s)) (d_height (vt_active s)) (ie_now env)),
            vt_slot := None, vt_force := True\<rparr>
      | VC_Keyframe \<Rightarrow> request_frame (s\<lparr>vt_force := True\<rparr>)
      | VC_Target t \<Rightarrow>
          (if t_fps t \<noteq> t_fps (vt_target s) \<or> t_scale_percent t \<noteq> t_scale_percent (vt_target s)
           then s\<lparr>vt_slot := None, vt_force := True, vt_target := t\<rparr>
           else s\<lparr>vt_slot := map_option (\<lambda>e. e\<lparr>es_kbps := t_bitrate_kbps t\<rparr>) (vt_slot s), vt_target := t\<rparr>)
      | VC_Elevated e \<Rightarrow> request_frame (s\<lparr>vt_elevated := e, vt_service := False, vt_force := True\<rparr>)
      | VC_Pause p \<Rightarrow> (if p then s\<lparr>vt_paused := True\<rparr> else request_frame (s\<lparr>vt_paused := False, vt_force := True\<rparr>)))"

section \<open>One picture\<close>

definition make_encoder :: "video_env \<Rightarrow> quality \<Rightarrow> u32 \<Rightarrow> u32 \<Rightarrow> target \<Rightarrow> rstr + encoder_slot" where
  "make_encoder env q w h t =
     (let wanted = (case q_codec q of Some c \<Rightarrow> c | None \<Rightarrow> H264);
          req = (\<lambda>c. \<lparr>er_codec = c, er_width = w, er_height = h, er_fps = t_fps t, er_bitrate_kbps = t_bitrate_kbps t,
                      er_hardware = q_hardware q\<rparr>);
          made = (\<lambda>c n. \<lparr>es_name = n, es_width = w, es_height = h, es_fps = t_fps t, es_codec = c, es_kbps = t_bitrate_kbps t\<rparr>)
      in case ie_create env (req wanted) of
           Inr n \<Rightarrow> Inr (made wanted n)
         | Inl _ \<Rightarrow> (case ie_create env (req H264) of Inr n \<Rightarrow> Inr (made H264 n) | Inl e \<Rightarrow> Inl e))"

text \<open>The time between two pictures: the target's, and at most a sixtieth of a second while someone is at the controls.\<close>

definition frame_interval :: "video \<Rightarrow> instant \<Rightarrow> duration" where
  "frame_interval s now =
     (let base = 1000000 div unat (max (t_fps (vt_target s)) 1) * 1000
      in if duration_since now (vt_input_at s) < millis 600 then min base (16667 * 1000) else base)"

definition capture_at :: "video \<Rightarrow> video_env \<Rightarrow> instant" where
  "capture_at s env = max (ie_now env) (vt_last_sent s + frame_interval s (ie_now env)) + ie_late env"

definition micros :: "instant \<Rightarrow> instant \<Rightarrow> u64" where
  "micros a b = of_nat (duration_since b a div 1000)"

definition f32_of :: "'a::len word \<Rightarrow> f32" where
  "f32_of w = r32 (of_nat (unat w))"

definition window_stats :: "video \<Rightarrow> encoder_slot \<Rightarrow> video_env \<Rightarrow> instant \<Rightarrow> host_stats" where
  "window_stats s e env t3 =
     (let w = vt_window s; dt = secs_f32 (duration_since t3 (wn_start w)); n = f32_of (max (wn_samples w) 1)
      in \<lparr>hs_fps = r32 (f32_of (wn_frames w) / dt),
          hs_bitrate_kbps = f32_to_u32 (r32 (r32 (r32 (f32_of (wn_bytes w) * 8) / dt) / 1000)),
          hs_capture_ms = r32 (r32 (f32_of (wn_capture_us w) / n) / 1000),
          hs_encode_ms = r32 (r32 (f32_of (wn_encode_us w) / n) / 1000),
          hs_dropped = ie_dropped env, hs_encoder = es_name e, hs_codec = Some (es_codec e), hs_width = es_width e,
          hs_height = es_height e, hs_input_queue_us = 0, hs_input_apply_us = 0, hs_stale_moves_dropped = 0\<rparr>)"

definition no_pointer :: pointer where
  "no_pointer = \<lparr>po_x = 0, po_y = 0, po_visible = False\<rparr>"

definition cursor_msg :: "pointer \<Rightarrow> cursor_shape option \<Rightarrow> cursor_update" where
  "cursor_msg p sh = \<lparr>cu_x = po_x p, cu_y = po_y p, cu_visible = po_visible p, cu_shape = sh\<rparr>"

definition vt_cursors :: "video \<Rightarrow> source_output \<Rightarrow> instant \<Rightarrow> video" where
  "vt_cursors s out t1 =
     (case so_pointer out of
        Some p \<Rightarrow>
          if vt_pointer s \<noteq> Some p \<and> (duration_since t1 (vt_pointer_at s) > millis 8 \<or> so_shape out \<noteq> None)
          then s\<lparr>vt_pointer := Some p, vt_pointer_at := t1, vt_cursor := vt_cursor s @ [cursor_msg p (so_shape out)]\<rparr>
          else s
      | None \<Rightarrow>
          (case so_shape out of
             Some sh \<Rightarrow>
               s\<lparr>vt_cursor := vt_cursor s @ [cursor_msg (case vt_pointer s of Some p \<Rightarrow> p | None \<Rightarrow> no_pointer) (Some sh)]\<rparr>
           | None \<Rightarrow> s))"

text \<open>The n-th unit of an encoded picture.\<close>

definition send_unit :: "video_env \<Rightarrow> encoder_slot \<Rightarrow> u32 \<times> u32 \<Rightarrow> instant \<Rightarrow> video \<Rightarrow> nat \<times> encoded_unit \<Rightarrow> video" where
  "send_unit env e sz t2 s p =
     (let u = snd p; sq = vt_seq s + 1; ok = ie_accept env (fst p); w = vt_window s;
          f = \<lparr>vf_seq = sq, vf_display = d_index (vt_active s), vf_codec = es_codec e, vf_keyframe = eu_keyframe u,
               vf_width = fst sz, vf_height = snd sz,
               vf_captured_ms = of_nat (duration_since t2 (vt_start s) div 1000000),
               vf_input_seq = ie_captured env, vf_data = eu_data u\<rparr>
      in s\<lparr>vt_seq := sq, vt_video := vt_video s @ [(f, ok)], vt_log := vt_log s @ [VL_Unit f ok], vt_force := vt_force s \<or> \<not> ok,
           vt_window := w\<lparr>wn_bytes := wn_bytes w + of_nat (length (eu_data u)), wn_frames := wn_frames w + 1\<rparr>\<rparr>)"

definition vt_stats :: "video \<Rightarrow> encoder_slot \<Rightarrow> video_env \<Rightarrow> instant \<Rightarrow> video" where
  "vt_stats s e env t3 =
     (if duration_since t3 (wn_start (vt_window s)) \<ge> secs 1
      then (vt_emit s (VE_Stats (window_stats s e env t3)))\<lparr>vt_window := window_new t3\<rparr>
      else s)"

definition vt_encode :: "video \<Rightarrow> encoder_slot \<Rightarrow> u32 \<times> u32 \<Rightarrow> frame \<Rightarrow> video_env \<Rightarrow> instant \<Rightarrow> video" where
  "vt_encode s e sz f env t0 =
     (let t1 = t0 + ie_capture_time env; t2 = t1 + ie_encode_time env; w = vt_window s;
          s1 = s\<lparr>vt_window := w\<lparr>wn_capture_us := wn_capture_us w + micros t0 t1\<rparr>, vt_force := False\<rparr>
      in case ie_encode env f (vt_force s) of
           Inl x \<Rightarrow> (vt_note s1 (VL_Encode f (vt_force s) (Inl x)))\<lparr>vt_slot := None\<rparr>
         | Inr units \<Rightarrow>
             (let w1 = vt_window s1;
                  s2 = (vt_note s1 (VL_Encode f (vt_force s) (Inr units)))\<lparr>vt_window := w1\<lparr>wn_encode_us := wn_encode_us w1 + micros t1 t2, wn_samples := wn_samples w1 + 1\<rparr>,
                          vt_last_sent := t2\<rparr>;
                  s3 = foldl (send_unit env e sz t2) s2 (enumerate 0 units)
              in if ie_closed env then s3\<lparr>vt_end := Some None\<rparr> else vt_stats s3 e env (t2 + ie_send_time env)))"

definition vt_output :: "video \<Rightarrow> encoder_slot \<Rightarrow> u32 \<times> u32 \<Rightarrow> source_output \<Rightarrow> video_env \<Rightarrow> instant \<Rightarrow> video" where
  "vt_output s e sz out env t0 =
     (let s1 = vt_cursors s out (t0 + ie_capture_time env)
      in case so_frame out of
           None \<Rightarrow> s1
         | Some f \<Rightarrow>
             if ie_congested env then request_frame (s1\<lparr>vt_skipped := vt_skipped s1 + 1\<rparr>) else vt_encode s1 e sz f env t0)"

text \<open>The source was lost: a secure desktop in an elevated session is taken from the service, otherwise the source is opened anew.\<close>

definition vt_lost :: "video \<Rightarrow> video_env \<Rightarrow> video" where
  "vt_lost s env =
     (if vt_elevated s \<noteq> None \<and> ie_secure_again env then vt_note (s\<lparr>vt_service := True, vt_force := True\<rparr>) (VL_Source True)
      else case ie_reopen env of
             Inl x \<Rightarrow> s\<lparr>vt_end := Some (Some x)\<rparr>
           | Inr ds \<Rightarrow>
               (case ie_reselect env (min (d_index (vt_active s)) (last_index ds)) of
                  Inl x \<Rightarrow> s\<lparr>vt_displays := ds, vt_end := Some (Some x)\<rparr>
                | Inr d \<Rightarrow> s\<lparr>vt_displays := ds, vt_active := d, vt_slot := None\<rparr>))"

definition vt_probe :: "video \<Rightarrow> video_env \<Rightarrow> instant \<Rightarrow> video" where
  "vt_probe s env t0 =
     (if vt_elevated s \<noteq> None \<and> duration_since t0 (vt_probe_at s) > millis 250
      then let s1 = s\<lparr>vt_probe_at := t0\<rparr>
           in if ie_secure env \<noteq> vt_service s then vt_note (request_frame (s1\<lparr>vt_service := ie_secure env, vt_force := True\<rparr>)) (VL_Source (ie_secure env)) else s1
      else s)"

definition vt_capture :: "video \<Rightarrow> encoder_slot \<Rightarrow> u32 \<times> u32 \<Rightarrow> video_env \<Rightarrow> video" where
  "vt_capture s0 e sz env =
     (let t0 = capture_at s0 env; s = vt_probe s0 env t0
      in case (if vt_service s then map_option Inr (if vt_elevated s = None then None else ie_picture env)
               else Some (ie_next env)) of
           None \<Rightarrow> s
         | Some (Inr out) \<Rightarrow> vt_output s e sz out env t0
         | Some (Inl SE_Lost) \<Rightarrow> vt_lost s env
         | Some (Inl (SE_Fatal x)) \<Rightarrow> s\<lparr>vt_end := Some (Some x)\<rparr>)"

section \<open>The loop\<close>

definition vt_displays_check :: "video \<Rightarrow> video_env \<Rightarrow> video" where
  "vt_displays_check s env =
     (if duration_since (ie_now env) (vt_displays_at s) > secs 3
      then let s1 = s\<lparr>vt_displays_at := ie_now env\<rparr>
           in if ie_displays env \<noteq> vt_displays s
              then vt_emit (s1\<lparr>vt_displays := ie_displays env\<rparr>) (VE_Displays (ie_displays env) (d_index (vt_active s))) else s1
      else s)"

definition slot_fits :: "encoder_slot option \<Rightarrow> u32 \<times> u32 \<Rightarrow> u32 \<Rightarrow> bool" where
  "slot_fits e sz fps \<longleftrightarrow> (case e of Some x \<Rightarrow> es_width x = fst sz \<and> es_height x = snd sz \<and> es_fps x = fps | None \<Rightarrow> False)"

definition vt_encoder :: "video \<Rightarrow> u32 \<times> u32 \<Rightarrow> video_env \<Rightarrow> rstr + encoder_slot \<times> video" where
  "vt_encoder s sz env =
     (case vt_slot s of
        Some x \<Rightarrow> if slot_fits (Some x) sz (t_fps (vt_target s)) then Inr (x, s)
          else map_sum id (\<lambda>y. (y, vt_note (request_frame (s\<lparr>vt_slot := Some y, vt_force := True\<rparr>)) (VL_Encoder y)))
                 (make_encoder env (vt_quality s) (fst sz) (snd sz) (vt_target s))
      | None \<Rightarrow> map_sum id (\<lambda>y. (y, vt_note (request_frame (s\<lparr>vt_slot := Some y, vt_force := True\<rparr>)) (VL_Encoder y)))
                 (make_encoder env (vt_quality s) (fst sz) (snd sz) (vt_target s)))"

definition vt_activity :: "video \<Rightarrow> video_env \<Rightarrow> video" where
  "vt_activity s env =
     (if ie_applied env \<noteq> vt_input_seq s then s\<lparr>vt_input_seq := ie_applied env, vt_input_at := ie_now env\<rparr> else s)"

definition vt_picture :: "video \<Rightarrow> video_env \<Rightarrow> video" where
  "vt_picture s0 env =
     (let s = vt_displays_check s0 env;
          sz = output_size (d_width (vt_active s)) (d_height (vt_active s)) (t_scale_percent (vt_target s)) (q_max_height (vt_quality s))
      in case vt_encoder s sz env of
           Inl x \<Rightarrow> s\<lparr>vt_end := Some (Some x)\<rparr>
         | Inr (e, s1) \<Rightarrow> vt_capture (vt_activity s1 env) e sz env)"

definition vt_iter :: "video \<Rightarrow> video_env \<Rightarrow> video" where
  "vt_iter s env =
     (if vt_end s \<noteq> None then s
      else let s1 = foldl (vt_control env) s (ie_ctl env) in if vt_paused s1 then s1 else vt_picture s1 env)"

definition vt_run :: "video \<Rightarrow> video_env list \<Rightarrow> video" where
  "vt_run s envs = foldl vt_iter s envs"

end
