(* ===== verification/Video_Props.thy ===== *)
theory Video_Props
  imports Video Host_Demo
begin

text \<open>
  What the video thread sends: nothing while the viewer may not see the screen. Every picture the send queue refused is
  answered by asking the encoder for a keyframe. With an encoder that answers at once, no picture builds on one the queue
  did not take; with any encoder, the request may be lost (\<open>key_request_taken_back\<close>).
\<close>

section \<open>Nothing without permission\<close>

lemma units_keep [simp]:
  "vt_paused (foldl (send_unit env e sz t) s ps) = vt_paused s" "vt_slot (foldl (send_unit env e sz t) s ps) = vt_slot s"
  by (induction ps arbitrary: s) (simp_all add: send_unit_def Let_def)

lemma emit_keep [simp]:
  "vt_paused (vt_emit s ev) = vt_paused s" "vt_slot (vt_emit s ev) = vt_slot s" "vt_force (vt_emit s ev) = vt_force s"
  "vt_video (vt_emit s ev) = vt_video s" "vt_end (vt_emit s ev) = vt_end s" "vt_cursor (vt_emit s ev) = vt_cursor s"
  "vt_paused (request_frame s) = vt_paused s" "vt_slot (request_frame s) = vt_slot s" "vt_force (request_frame s) = vt_force s"
  "vt_video (request_frame s) = vt_video s" "vt_end (request_frame s) = vt_end s" "vt_cursor (request_frame s) = vt_cursor s"
  "vt_target (vt_emit s ev) = vt_target s" "vt_target (request_frame s) = vt_target s"
  "vt_log (vt_emit s ev) = vt_log s" "vt_log (request_frame s) = vt_log s"
  by (simp_all add: vt_emit_def request_frame_def)

lemma note_keep [simp]:
  "vt_paused (vt_note s x) = vt_paused s" "vt_slot (vt_note s x) = vt_slot s" "vt_force (vt_note s x) = vt_force s"
  "vt_video (vt_note s x) = vt_video s" "vt_end (vt_note s x) = vt_end s" "vt_cursor (vt_note s x) = vt_cursor s"
  "vt_target (vt_note s x) = vt_target s" "vt_log (vt_note s x) = vt_log s @ [x]" "vt_seq (vt_note s x) = vt_seq s"
  by (simp_all add: vt_note_def)

lemma stats_keep [simp]:
  "vt_paused (vt_stats s e env t) = vt_paused s" "vt_slot (vt_stats s e env t) = vt_slot s" "vt_force (vt_stats s e env t) = vt_force s"
  "vt_video (vt_stats s e env t) = vt_video s" "vt_log (vt_stats s e env t) = vt_log s"
  by (simp_all add: vt_stats_def)

lemma cursors_keep [simp]:
  "vt_paused (vt_cursors s out t) = vt_paused s" "vt_slot (vt_cursors s out t) = vt_slot s" "vt_force (vt_cursors s out t) = vt_force s"
  "vt_video (vt_cursors s out t) = vt_video s" "vt_log (vt_cursors s out t) = vt_log s"
  by (simp_all add: vt_cursors_def split: option.split)

lemma probe_keep [simp]:
  "vt_paused (vt_probe s env t) = vt_paused s" "vt_slot (vt_probe s env t) = vt_slot s" "vt_video (vt_probe s env t) = vt_video s"
  "vt_force s \<Longrightarrow> vt_force (vt_probe s env t)"
  by (simp_all add: vt_probe_def Let_def)

lemma paused_capture [simp]: "vt_paused (vt_capture s e sz env) = vt_paused s"
proof -
  have "vt_paused (vt_lost b env) = vt_paused b" for b by (simp add: vt_lost_def split: sum.split)
  moreover have "vt_paused (vt_output b e sz out env t) = vt_paused b" for b out t
    by (simp add: vt_output_def vt_encode_def Let_def split: option.split sum.split)
  ultimately show ?thesis
    by (simp add: vt_capture_def Let_def split: option.split sum.split source_error.split)
qed

lemma check_keep [simp]:
  "vt_paused (vt_displays_check s env) = vt_paused s" "vt_slot (vt_displays_check s env) = vt_slot s"
  "vt_force (vt_displays_check s env) = vt_force s" "vt_video (vt_displays_check s env) = vt_video s"
  "vt_paused (vt_activity s env) = vt_paused s" "vt_slot (vt_activity s env) = vt_slot s" "vt_force (vt_activity s env) = vt_force s"
  "vt_video (vt_activity s env) = vt_video s"
  "vt_log (vt_displays_check s env) = vt_log s" "vt_log (vt_activity s env) = vt_log s"
  by (simp_all add: vt_displays_check_def vt_activity_def Let_def)

text \<open>The encoder of an iteration: the one there was, or a new one with a keyframe to come.\<close>

lemma encoder_cases:
  assumes "vt_encoder s sz env = Inr (e, s1)"
  shows "vt_paused s1 = vt_paused s \<and> vt_video s1 = vt_video s \<and> vt_slot s1 = Some e \<and> es_width e = fst sz \<and> es_height e = snd sz \<and>
    (s1 = s \<or> vt_force s1 \<and> vt_log s1 = vt_log s @ [VL_Encoder e])"
proof -
  have m: "es_width y = fst sz \<and> es_height y = snd sz" if "make_encoder env q (fst sz) (snd sz) t = Inr y" for q t y
    using that by (auto simp: make_encoder_def Let_def split: sum.splits)
  have new: ?thesis if "map_sum id (\<lambda>y. (y, vt_note (request_frame (s\<lparr>vt_slot := Some y, vt_force := True\<rparr>)) (VL_Encoder y)))
      (make_encoder env (vt_quality s) (fst sz) (snd sz) (vt_target s)) = Inr (e, s1)"
    using that m by (cases "make_encoder env (vt_quality s) (fst sz) (snd sz) (vt_target s)") auto
  show ?thesis
  proof (cases "vt_slot s")
    case None
    then show ?thesis using new assms by (simp add: vt_encoder_def)
  next
    case (Some x)
    then show ?thesis using new assms by (cases "slot_fits (Some x) sz (t_fps (vt_target s))") (auto simp: vt_encoder_def slot_fits_def)
  qed
qed

lemma picture_cases:
  obtains x where "vt_picture s env = (vt_displays_check s env)\<lparr>vt_end := Some (Some x)\<rparr>"
  | e sz s1 where "vt_encoder (vt_displays_check s env) sz env = Inr (e, s1)" "vt_picture s env = vt_capture (vt_activity s1 env) e sz env"
proof -
  let ?s = "vt_displays_check s env"
  let ?sz = "output_size (d_width (vt_active ?s)) (d_height (vt_active ?s)) (t_scale_percent (vt_target ?s)) (q_max_height (vt_quality ?s))"
  note p = vt_picture_def [of s env, unfolded Let_def]
  show ?thesis
  proof (cases "vt_encoder ?s ?sz env")
    case (Inl x)
    then show ?thesis using that(1) p by simp
  next
    case (Inr q)
    then show ?thesis using that(2) [of ?sz "fst q" "snd q"] p by (cases q) simp
  qed
qed

lemma paused_picture [simp]: "vt_paused (vt_picture s env) = vt_paused s"
  by (rule picture_cases [of s env]) (auto dest: encoder_cases)

lemma paused_control: "vt_paused (vt_control env s c) = (case c of VC_Pause b \<Rightarrow> b | _ \<Rightarrow> vt_paused s)"
  by (simp add: vt_control_def Let_def split: video_ctl.split sum.split)

lemma paused_controls:
  "vt_paused (foldl (vt_control env) s cs) = fold (\<lambda>c p. case c of VC_Pause b \<Rightarrow> b | _ \<Rightarrow> p) cs (vt_paused s)"
  by (induction cs arbitrary: s) (simp_all add: paused_control)

lemma sent_controls:
  "vt_video (foldl (vt_control env) s cs) = vt_video s \<and> vt_cursor (foldl (vt_control env) s cs) = vt_cursor s"
proof (induction cs arbitrary: s)
  case (Cons c cs)
  have "vt_video (vt_control env s c) = vt_video s" "vt_cursor (vt_control env s c) = vt_cursor s"
    by (simp_all add: vt_control_def Let_def split: video_ctl.split sum.split)
  then show ?case using Cons by simp
qed simp

lemma paused_iter:
  "vt_end (vt_iter s env) = None \<Longrightarrow>
   vt_paused (vt_iter s env) = fold (\<lambda>c p. case c of VC_Pause b \<Rightarrow> b | _ \<Rightarrow> p) (ie_ctl env) (vt_paused s)"
  by (auto simp: vt_iter_def Let_def paused_controls split: if_splits)

lemma ended_iter: "vt_end s \<noteq> None \<Longrightarrow> vt_iter s env = s"
  by (simp add: vt_iter_def)

lemma paused_run:
  "vt_end (vt_run s envs) = None \<Longrightarrow>
   vt_paused (vt_run s envs) = fold (\<lambda>c p. case c of VC_Pause b \<Rightarrow> b | _ \<Rightarrow> p) (concat (map ie_ctl envs)) (vt_paused s)"
proof (induction envs rule: rev_induct)
  case Nil
  then show ?case by (simp add: vt_run_def)
next
  case (snoc env envs)
  have r: "vt_run s (envs @ [env]) = vt_iter (vt_run s envs) env" by (simp add: vt_run_def)
  have e: "vt_end (vt_run s envs) = None" using snoc.prems ended_iter [of "vt_run s envs" env] unfolding r by (cases "vt_end (vt_run s envs)") simp_all
  show ?case using paused_iter snoc.prems snoc.IH [OF e] unfolding r by simp
qed

lemma start_paused: "video_start q disp b screen select applied now = Inr s \<Longrightarrow> vt_paused s = b \<and> vt_end s = None"
  by (auto simp: video_start_def split: sum.splits)

text \<open>C33. A viewer without permission to see the screen is sent no picture of it. In every state a host session can reach in which viewing is
  not permitted, once the video thread has read the commands the session gave it, up to the last one, the very
  iteration that reads them sends neither a frame nor a cursor, whatever the screen shows and the clock says.\<close>

theorem no_view_no_picture:
  assumes "host_reachable granted h" and "\<not> p_view (ho_perms h)"
    and "video_start q disp b screen select applied now = Inr s"
    and "ho_video h = VC_Pause b # concat (map ie_ctl (envs @ [env]))"
  shows "vt_video (vt_run s (envs @ [env])) = vt_video (vt_run s envs) \<and> vt_cursor (vt_run s (envs @ [env])) = vt_cursor (vt_run s envs)"
proof (cases "vt_end (vt_run s envs) = None")
  case False
  then show ?thesis by (simp add: vt_run_def ended_iter)
next
  case True
  let ?t = "vt_run s envs"
  have "host_ok granted h" by (rule host_reachable_ok [OF assms(1)])
  then have v: "video_paused (ho_video h)" using assms(2) by (simp add: host_ok_def)
  have "vt_paused (foldl (vt_control env) ?t (ie_ctl env)) =
      fold (\<lambda>c p. case c of VC_Pause b \<Rightarrow> b | _ \<Rightarrow> p) (concat (map ie_ctl (envs @ [env]))) b"
    using paused_run [OF True] start_paused [OF assms(3)] by (simp add: paused_controls)
  also have "\<dots> = video_paused (ho_video h)" by (simp add: assms(4) video_paused_def)
  finally have "vt_paused (foldl (vt_control env) ?t (ie_ctl env))" using v by simp
  then have "vt_iter ?t env = foldl (vt_control env) ?t (ie_ctl env)" using True by (simp add: vt_iter_def)
  then show ?thesis using sent_controls by (simp add: vt_run_def)
qed

text \<open>One iteration with an unchanged screen, one encoder for everything, and a queue that takes what it is given.\<close>

definition demo_encode :: "frame \<Rightarrow> bool \<Rightarrow> rstr + encoded_unit list" where
  "demo_encode f key = Inr [\<lparr>eu_data = [1], eu_keyframe = key\<rparr>]"

definition demo_video_env :: video_env where
  "demo_video_env =
     \<lparr>ie_ctl = [], ie_select = \<lambda>_. Inr some_display, ie_now = 0, ie_displays = [some_display], ie_create = \<lambda>_. Inr [], ie_applied = 0,
      ie_late = 0, ie_captured = 0, ie_secure = False, ie_secure_again = False, ie_picture = None,
      ie_next = Inr \<lparr>so_frame = Some \<lparr>fr_width = 640, fr_height = 480, fr_data = []\<rparr>, so_pointer = None, so_shape = None\<rparr>,
      ie_reopen = Inl [], ie_reselect = \<lambda>_. Inl [], ie_congested = False, ie_capture_time = 0, ie_encode = demo_encode,
      ie_encode_time = 0, ie_accept = \<lambda>_. True, ie_closed = False, ie_send_time = 0, ie_dropped = 0\<rparr>"

definition blind :: permissions where
  "blind = PERM_ALL\<lparr>p_view := False\<rparr>"

theorem no_view_no_picture_witness:
  "\<exists>(h :: mock host) s. host_start 1 (engine_config_new [] [] [] []) [72] demo_auth demo_link blind (Some [some_display]) None
      \<lparr>f_dirs = [[]], f_names = [], f_data = []\<rparr> demo_env = Inr h \<and>
    video_start quality_default 0 True (Inr [some_display]) (\<lambda>_. Inr some_display) 0 0 = Inr s \<and>
    vt_video (vt_run s [demo_video_env]) = vt_video s"
proof -
  obtain h :: "mock host" where h: "host_start 1 (engine_config_new [] [] [] []) [72] demo_auth demo_link blind (Some [some_display]) None
      \<lparr>f_dirs = [[]], f_names = [], f_data = []\<rparr> demo_env = Inr h" "ho_perms h = blind" "ho_video h = [VC_Pause True]"
    by (simp add: host_start_def host_elevate_def blind_def PERM_ALL_def Let_def)
  obtain s where s: "video_start quality_default 0 True (Inr [some_display]) (\<lambda>_. Inr some_display) 0 0 = Inr s"
    by (simp add: video_start_def)
  have r: "host_reachable blind h" using h(1) by (rule host_reach_start)
  have v: "\<not> p_view (ho_perms h)" unfolding h(2) by (simp add: blind_def)
  have c: "ho_video h = VC_Pause True # concat (map ie_ctl ([] @ [demo_video_env]))" by (simp add: h(3) demo_video_env_def)
  from no_view_no_picture [OF r v s c] h(1) s show ?thesis by (auto simp: vt_run_def)
qed

text \<open>
  The display the viewer asked for could not be captured: the thread goes on with the old one and says
  nothing, while the session already maps the viewer's input to the new one.
\<close>

lemma failed_switch_unreported:
  assumes "ie_select env i = Inl x" and "unat i < length (ho_displays h)"
  shows "vt_control env s (VC_Select i) = vt_note s (VL_Control (VC_Select i))" "ho_active (select_display h i now) = i"
    "ho_video (select_display h i now) = ho_video h @ [VC_Select i]"
  using assms by (simp_all add: vt_control_def select_display_def ho_control_def on_shared_def)

section \<open>No picture without the one it builds on\<close>

definition follows :: "video_frame \<times> bool \<Rightarrow> video_frame \<Rightarrow> bool" where
  "follows p f \<longleftrightarrow> snd p \<and> vf_codec (fst p) = vf_codec f \<and> vf_width (fst p) = vf_width f \<and> vf_height (fst p) = vf_height f"

fun decodable_after :: "(video_frame \<times> bool) option \<Rightarrow> (video_frame \<times> bool) list \<Rightarrow> bool" where
  "decodable_after prev [] = True"
| "decodable_after prev (p # ps) =
     ((vf_keyframe (fst p) \<or> (case prev of Some q \<Rightarrow> follows q (fst p) | None \<Rightarrow> False)) \<and> decodable_after (Some p) ps)"

definition decodable :: "(video_frame \<times> bool) list \<Rightarrow> bool" where
  "decodable vs = decodable_after None vs"

lemma decodable_after_snoc:
  "decodable_after prev (vs @ [p]) \<longleftrightarrow> decodable_after prev vs \<and>
     (vf_keyframe (fst p) \<or> (case (if vs = [] then prev else Some (last vs)) of Some q \<Rightarrow> follows q (fst p) | None \<Rightarrow> False))"
  by (induction vs arbitrary: prev) auto

lemma decodable_snoc:
  "decodable (vs @ [p]) \<longleftrightarrow> decodable vs \<and> (vf_keyframe (fst p) \<or> (vs \<noteq> [] \<and> follows (last vs) (fst p)))"
  by (simp add: decodable_def decodable_after_snoc)

text \<open>
  An encoder that answers at once: one unit for a picture that has to be a keyframe, and it is one; at most one
  unit for any other. Not every encoder does; what follows is about those.
\<close>

definition encoder_ok :: "video_env \<Rightarrow> bool" where
  "encoder_ok env \<longleftrightarrow>
     (\<forall>f us. (ie_encode env f True = Inr us \<longrightarrow> (\<exists>u. us = [u] \<and> eu_keyframe u)) \<and> (ie_encode env f False = Inr us \<longrightarrow> length us \<le> 1))"

definition stream_ok :: "video \<Rightarrow> bool" where
  "stream_ok s \<longleftrightarrow> decodable (vt_video s) \<and>
     (vt_force s \<or> (case vt_slot s of None \<Rightarrow> True
        | Some e \<Rightarrow> vt_video s \<noteq> [] \<and> snd (last (vt_video s)) \<and> vf_codec (fst (last (vt_video s))) = es_codec e \<and>
            vf_width (fst (last (vt_video s))) = es_width e \<and> vf_height (fst (last (vt_video s))) = es_height e))"

lemma stream_ok_same:
  "stream_ok s \<Longrightarrow> vt_video s' = vt_video s \<Longrightarrow> vt_slot s' = vt_slot s \<Longrightarrow> (vt_force s \<Longrightarrow> vt_force s') \<Longrightarrow> stream_ok s'"
  by (auto simp: stream_ok_def split: option.splits)

lemma stream_ok_fresh: "decodable (vt_video s) \<Longrightarrow> vt_force s \<or> vt_slot s = None \<Longrightarrow> stream_ok s"
  by (auto simp: stream_ok_def)

lemma encoder_ok_says:
  assumes "encoder_ok env" and "ie_encode env f force = Inr us"
  shows "length us \<le> 1 \<and> (force \<longrightarrow> (\<exists>u. us = [u] \<and> eu_keyframe u))"
proof (cases force)
  case True
  then have "ie_encode env f True = Inr us" using assms(2) by simp
  then obtain u where "us = [u]" "eu_keyframe u" using assms(1) unfolding encoder_ok_def by blast
  then show ?thesis by simp
next
  case False
  then have "ie_encode env f False = Inr us" using assms(2) by simp
  then show ?thesis using assms(1) False unfolding encoder_ok_def by blast
qed

lemma stream_ok_units:
  assumes "stream_ok s" "vt_slot s = Some e" "es_width e = fst sz" "es_height e = snd sz" "encoder_ok env"
    and us: "ie_encode env f (vt_force s) = Inr us"
    and 2: "vt_video s2 = vt_video s" "vt_slot s2 = Some e" "\<not> vt_force s2"
  shows "stream_ok (foldl (send_unit env e sz t) s2 (enumerate 0 us))"
proof -
  have d: "decodable (vt_video s)" using assms(1) by (simp add: stream_ok_def)
  have "length us \<le> 1" and key: "vt_force s \<Longrightarrow> \<exists>u. us = [u] \<and> eu_keyframe u"
    using encoder_ok_says [OF assms(5) us] by simp_all
  then consider "us = []" "\<not> vt_force s" | u where "us = [u]" by (cases us) auto
  then show ?thesis
  proof cases
    case 1
    then show ?thesis using stream_ok_same [OF assms(1), of s2] 2 assms(2) by simp
  next
    case 2: (2 u)
    define s3 where "s3 = foldl (send_unit env e sz t) s2 (enumerate 0 us)"
    obtain g ok where g: "vt_video s3 = vt_video s @ [(g, ok)]" "vt_slot s3 = Some e" "vt_force s3 \<longleftrightarrow> \<not> ok"
      "vf_keyframe g = eu_keyframe u" "vf_codec g = es_codec e" "vf_width g = es_width e" "vf_height g = es_height e"
      using assms(3,4,7-9) by (simp add: s3_def 2 send_unit_def Let_def)
    have "vf_keyframe g \<or> (vt_video s \<noteq> [] \<and> follows (last (vt_video s)) g)"
    proof (cases "vt_force s")
      case True
      then show ?thesis using key 2 g(4) by auto
    next
      case False
      then show ?thesis using assms(1,2) g(5-7) by (simp add: stream_ok_def follows_def)
    qed
    then show ?thesis using d g unfolding s3_def [symmetric] stream_ok_def by (simp add: decodable_snoc)
  qed
qed

lemma stream_ok_encode:
  assumes "stream_ok s" "vt_slot s = Some e" "es_width e = fst sz" "es_height e = snd sz" "encoder_ok env"
  shows "stream_ok (vt_encode s e sz f env t0)"
proof (cases "ie_encode env f (vt_force s)")
  case (Inl x)
  then show ?thesis using assms(1) by (simp add: vt_encode_def Let_def stream_ok_def)
next
  case (Inr us)
  have k: "stream_ok (u\<lparr>vt_end := x\<rparr>)" "stream_ok (vt_stats u e env t)" if "stream_ok u" for u x t
    using that by (auto intro: stream_ok_same)
  note units = stream_ok_units [OF assms Inr]
  show ?thesis unfolding vt_encode_def Let_def Inr sum.case
    by (auto simp: assms(2) intro!: k units)
qed

lemma stream_ok_capture:
  assumes "stream_ok s" "vt_slot s = Some e" "es_width e = fst sz" "es_height e = snd sz" "encoder_ok env"
  shows "stream_ok (vt_capture s e sz env)"
proof -
  let ?s = "vt_probe s env (capture_at s env)"
  have p: "stream_ok ?s" "vt_slot ?s = Some e" using assms(1,2) by (auto intro: stream_ok_same)
  have d: "decodable (vt_video ?s)" using p(1) by (simp add: stream_ok_def)
  have out: "stream_ok (vt_output ?s e sz o1 env t)" for o1 t
  proof -
    let ?c = "vt_cursors ?s o1 (t + ie_capture_time env)"
    have c: "stream_ok ?c" "vt_slot ?c = Some e" using p by (auto intro: stream_ok_same)
    have "stream_ok (request_frame (?c\<lparr>vt_skipped := n\<rparr>))" for n using c(1) by (auto intro: stream_ok_same)
    then show ?thesis using c stream_ok_encode [OF c assms(3-5)] by (simp add: vt_output_def Let_def split: option.split)
  qed
  have lost: "stream_ok (vt_lost ?s env)"
  proof -
    have "stream_ok (?s\<lparr>vt_end := x\<rparr>)" "stream_ok (?s\<lparr>vt_displays := ds, vt_end := x\<rparr>)" for ds x
      using p(1) by (auto intro: stream_ok_same)
    then show ?thesis using d by (simp add: vt_lost_def stream_ok_fresh split: sum.split)
  qed
  have fatal: "stream_ok (?s\<lparr>vt_end := x\<rparr>)" for x using p(1) by (auto intro: stream_ok_same)
  show ?thesis unfolding vt_capture_def Let_def
    using p(1) out lost fatal by (auto split: option.split sum.split source_error.split)
qed

lemma stream_ok_control: "stream_ok s \<Longrightarrow> stream_ok (vt_control env s c)"
proof -
  assume s: "stream_ok s"
  then have d: "decodable (vt_video s)" by (simp add: stream_ok_def)
  let ?s = "vt_note s (VL_Control c)"
  have n: "stream_ok ?s" using s by (auto intro: stream_ok_same)
  have t: "stream_ok (?s\<lparr>vt_slot := map_option (\<lambda>e. e\<lparr>es_kbps := k\<rparr>) (vt_slot s), vt_target := t\<rparr>)" for k t
    using s by (auto simp: stream_ok_def split: option.splits)
  have p: "stream_ok (?s\<lparr>vt_paused := True\<rparr>)" using s by (auto intro: stream_ok_same)
  show ?thesis unfolding vt_control_def Let_def
    using n d t p by (auto simp: stream_ok_fresh split: video_ctl.split sum.split)
qed

lemma stream_ok_iter: "stream_ok s \<Longrightarrow> encoder_ok env \<Longrightarrow> stream_ok (vt_iter s env)"
proof -
  assume s: "stream_ok s" and ok: "encoder_ok env"
  have c: "stream_ok (foldl (vt_control env) s cs)" for cs
    by (induction cs rule: rev_induct) (simp_all add: s stream_ok_control)
  have pic: "stream_ok (vt_picture u env)" if u: "stream_ok u" for u
  proof (rule picture_cases [of u env])
    fix x
    assume "vt_picture u env = (vt_displays_check u env)\<lparr>vt_end := Some (Some x)\<rparr>"
    then show ?thesis using u by (auto intro: stream_ok_same)
  next
    fix e sz s1
    assume e: "vt_encoder (vt_displays_check u env) sz env = Inr (e, s1)" "vt_picture u env = vt_capture (vt_activity s1 env) e sz env"
    have k: "stream_ok (vt_displays_check u env)" using u by (auto intro: stream_ok_same)
    note q = encoder_cases [OF e(1)]
    have "stream_ok s1"
    proof (cases "vt_force s1")
      case True
      then show ?thesis using k q by (simp add: stream_ok_def)
    next
      case False
      then show ?thesis using k q by simp
    qed
    then have "stream_ok (vt_activity s1 env)" by (auto intro: stream_ok_same)
    then show ?thesis unfolding e(2) by (rule stream_ok_capture) (use q ok in simp_all)
  qed
  show ?thesis using s c pic by (simp add: vt_iter_def Let_def)
qed

text \<open>Then every frame offered is a keyframe, or the frame before it was taken and has the same codec and size.\<close>

lemma immediate_encoder_decodable:
  assumes "video_start q disp b screen select applied now = Inr s" and "\<forall>env \<in> set envs. encoder_ok env"
  shows "decodable (vt_video (vt_run s envs))"
proof -
  have "stream_ok s" using assms(1) by (auto simp: video_start_def stream_ok_def decodable_def split: sum.splits)
  moreover have "stream_ok (vt_run s envs)" if "stream_ok s"
    using assms(2) that by (induction envs rule: rev_induct) (simp_all add: vt_run_def stream_ok_iter)
  ultimately show ?thesis by (simp add: stream_ok_def)
qed

section \<open>Losses are answered\<close>








definition units_of_log :: "video_log list \<Rightarrow> (video_frame \<times> bool) list" where
  "units_of_log xs = List.map_filter (\<lambda>x. case x of VL_Unit f ok \<Rightarrow> Some (f, ok) | _ \<Rightarrow> None) xs"

lemma units_of_log_simps [simp]:
  "units_of_log [] = []" "units_of_log (xs @ [VL_Unit f ok]) = units_of_log xs @ [(f, ok)]"
  "units_of_log (xs @ [VL_Control c]) = units_of_log xs" "units_of_log (xs @ [VL_Source b]) = units_of_log xs"
  "units_of_log (xs @ [VL_Encoder e]) = units_of_log xs" "units_of_log (xs @ [VL_Encode g key r]) = units_of_log xs"
  by (simp_all add: units_of_log_def List.map_filter_def)

text \<open>The calls in the log are those made: each result is what one of the encoders answered to that very call.\<close>

definition calls_made :: "video_env list \<Rightarrow> video_log list \<Rightarrow> bool" where
  "calls_made envs xs \<longleftrightarrow> (\<forall>f key r. VL_Encode f key r \<in> set xs \<longrightarrow> (\<exists>env \<in> set envs. ie_encode env f key = r))"

lemma calls_made_simps [simp]:
  "calls_made envs []" "calls_made envs (xs @ [VL_Unit f ok]) \<longleftrightarrow> calls_made envs xs"
  "calls_made envs (xs @ [VL_Control c]) \<longleftrightarrow> calls_made envs xs" "calls_made envs (xs @ [VL_Source b]) \<longleftrightarrow> calls_made envs xs"
  "calls_made envs (xs @ [VL_Encoder e]) \<longleftrightarrow> calls_made envs xs"
  by (simp_all add: calls_made_def)




















text \<open>
  Asking is not getting: the request is taken back with the call, whatever the call returns. An encoder that
  has no unit yet for the keyframe it was asked for, and then returns a unit of before, has it sent where the keyframe was owed.
\<close>

lemma key_request_taken_back:
  assumes "ie_encode env f True = Inr []" and "ie_encode env' f' False = Inr [u]"
    and "vt_force s" and "\<not> eu_keyframe u" and "ie_accept env' 0"
    and s1: "s1 = vt_encode s e sz f env t" and s2: "s2 = vt_encode s1 e sz f' env' t'"
  shows "\<exists>g. vt_video s2 = vt_video s @ [(g, True)] \<and> \<not> vf_keyframe g \<and> \<not> vt_force s2"
proof -
  have v: "vt_video s1 = vt_video s" "\<not> vt_force s1"
    using assms(1,3) by (simp_all add: s1 vt_encode_def vt_note_def Let_def)
  show ?thesis unfolding s2
    using v assms(2,4,5) by (simp add: vt_encode_def [of s1] vt_note_def send_unit_def Let_def)
qed

end
