(* ===== verification/Server_Config.thy ===== *)
theory Server_Config
  imports Text
begin

text \<open>
  The server's configuration, \<open>server/src/config.rs\<close>: the \<open>.env\<close> files, the process environment and
  what of them the server accepts; and the pinned fingerprints of \<open>crates/session/src/tls.rs\<close>, which the
  client compares the server's certificate with.

  The environment maps names to values; a value that is not Unicode is \<open>None\<close>.
\<close>

section \<open>The environment\<close>

type_synonym environment = "(rstr, rstr option) hmap"

definition env_var :: "environment \<Rightarrow> rstr \<Rightarrow> rstr option" where
  "env_var env name =
     (case hm_get env name of
        Some (Some v) \<Rightarrow> if str_trim v = [] then None else Some (str_trim v)
      | _ \<Rightarrow> None)"

text \<open>\<open>str::parse\<close> of an unsigned integer with the given maximum.\<close>

definition parse_uint :: "nat \<Rightarrow> rstr \<Rightarrow> nat option" where
  "parse_uint mx s =
     (let ds = (case s of c # r \<Rightarrow> if c = 43 \<and> r \<noteq> [] then r else s | [] \<Rightarrow> s);
          v = foldl (\<lambda>n c. n * 10 + (c - 48)) 0 ds
      in if ds \<noteq> [] \<and> list_all is_ascii_digit ds \<and> v \<le> mx then Some v else None)"

definition num_var :: "environment \<Rightarrow> rstr \<Rightarrow> nat \<Rightarrow> nat \<Rightarrow> rstr + nat" where
  "num_var env name mx dflt =
     (case env_var env name of
        None \<Rightarrow> Inr dflt
      | Some v \<Rightarrow> (case parse_uint mx v of Some n \<Rightarrow> Inr n | None \<Rightarrow> Inl (name @ lit '' must be a number'')))"

section \<open>Files\<close>

definition unquote :: "rstr \<Rightarrow> rstr" where
  "unquote v =
     (case Option.bind (strip_prefix [34] v) (strip_suffix [34]) of
        Some w \<Rightarrow> w
      | None \<Rightarrow> (case Option.bind (strip_prefix [39] v) (strip_suffix [39]) of Some w \<Rightarrow> w | None \<Rightarrow> v))"

definition parse_env_line :: "rstr \<Rightarrow> (rstr \<times> rstr) option" where
  "parse_env_line l =
     (let line = str_trim l
      in if line = [] \<or> starts_with [35] line then None
         else case split_once 61 line of
                None \<Rightarrow> None
              | Some (k, v) \<Rightarrow>
                  (let key0 = str_trim k;
                       key = str_trim (case strip_prefix (lit ''export '') key0 of Some r \<Rightarrow> r | None \<Rightarrow> key0)
                   in if key = [] then None else Some (key, unquote (str_trim v))))"

definition parse_env_file :: "rstr \<Rightarrow> (rstr \<times> rstr) list" where
  "parse_env_file text = List.map_filter parse_env_line (str_lines text)"

text \<open>What is set already stays; a file that cannot be read is \<open>None\<close>.\<close>

definition set_if_unset :: "environment \<Rightarrow> rstr \<times> rstr \<Rightarrow> environment" where
  "set_if_unset env p = (if hm_contains env (fst p) then env else hm_insert (fst p) (Some (snd p)) env)"

definition load_env_file :: "environment \<Rightarrow> rstr option \<Rightarrow> environment" where
  "load_env_file env file =
     (case file of
        None \<Rightarrow> env
      | Some txt \<Rightarrow> foldl set_if_unset env (parse_env_file (dropWhile (\<lambda>c. c = 65279) txt)))"

section \<open>The configuration\<close>

record server_config =
  sv_host :: rstr
  sv_port :: nat
  sv_public_url :: rstr
  sv_database :: path
  sv_secret :: rstr
  sv_admin_token :: rstr
  sv_tls :: "(path \<times> path) option"
  sv_log_dir :: path
  sv_max_sessions :: nat
  sv_max_mbps :: nat
  sv_updates :: path

definition loopback_host :: "rstr \<Rightarrow> bool" where
  "loopback_host h \<longleftrightarrow> h \<in> {lit ''127.0.0.1'', lit ''localhost'', lit ''::1'', lit ''[::1]''}"

definition plain_http_allowed :: "rstr \<Rightarrow> bool \<Rightarrow> bool \<Rightarrow> bool" where
  "plain_http_allowed host tls opt_in \<longleftrightarrow> tls \<or> opt_in \<or> loopback_host host"

definition or_else :: "rstr option \<Rightarrow> rstr \<Rightarrow> rstr" where
  "or_else v d = (case v of Some x \<Rightarrow> x | None \<Rightarrow> d)"

definition tls_files :: "environment \<Rightarrow> rstr + (path \<times> path) option" where
  "tls_files env =
     (case (env_var env (lit ''TLS_CERT_PATH''), env_var env (lit ''TLS_KEY_PATH'')) of
        (Some c, Some k) \<Rightarrow> Inr (Some (path_of c, path_of k))
      | (None, None) \<Rightarrow> Inr None
      | _ \<Rightarrow> Inl (lit ''TLS_CERT_PATH and TLS_KEY_PATH must be set together''))"

definition secrets :: "environment \<Rightarrow> rstr + rstr \<times> rstr" where
  "secrets env =
     (case env_var env (lit ''SERVER_SECRET'') of
        None \<Rightarrow> Inl (lit ''SERVER_SECRET is required'')
      | Some s \<Rightarrow>
          (case env_var env (lit ''ADMIN_TOKEN'') of
             None \<Rightarrow> Inl (lit ''ADMIN_TOKEN is required'')
           | Some t \<Rightarrow>
               if str_len s < 32 then Inl (lit ''SERVER_SECRET must be at least 32 characters'')
               else if str_len t < 20 then Inl (lit ''ADMIN_TOKEN must be at least 20 characters'')
               else Inr (s, t)))"

definition config_read :: "environment \<Rightarrow> rstr + server_config" where
  "config_read env =
     (let host = or_else (env_var env (lit ''SERVER_HOST'')) (lit ''0.0.0.0'') in
      case num_var env (lit ''SERVER_PORT'') 65535 8443 of Inl e \<Rightarrow> Inl e | Inr port \<Rightarrow>
      (case secrets env of Inl e \<Rightarrow> Inl e | Inr (secret, token) \<Rightarrow>
      (case tls_files env of Inl e \<Rightarrow> Inl e | Inr tls \<Rightarrow>
       if \<not> plain_http_allowed host (tls \<noteq> None) (env_var env (lit ''ALLOW_PLAIN_HTTP'') = Some (lit ''1''))
       then Inl (lit ''refusing to serve plain HTTP on '' @ host)
       else
      (case num_var env (lit ''MAX_SESSIONS'') (2 ^ 64 - 1) 500 of Inl e \<Rightarrow> Inl e | Inr ms \<Rightarrow>
      (case num_var env (lit ''MAX_RELAY_MBPS_PER_SESSION'') (2 ^ 32 - 1) 80 of Inl e \<Rightarrow> Inl e | Inr mb \<Rightarrow>
         Inr \<lparr>sv_host = host, sv_port = port,
              sv_public_url = or_else (env_var env (lit ''PUBLIC_SERVER_URL''))
                ((if tls \<noteq> None then lit ''wss'' else lit ''ws'') @ lit ''://'' @ host @ [58] @ dec_digits port @ lit ''/ws''),
              sv_database = path_of (or_else (env_var env (lit ''DATABASE_PATH'')) (lit ''remotex.db'')), sv_secret = secret,
              sv_admin_token = token, sv_tls = tls, sv_log_dir = path_of (or_else (env_var env (lit ''LOG_DIR'')) (lit ''logs'')),
              sv_max_sessions = ms, sv_max_mbps = mb,
              sv_updates = path_of (or_else (env_var env (lit ''UPDATES_DIR'')) (lit ''updates''))\<rparr>)))))"

text \<open>\<open>exe_file\<close> is the file next to the executable, \<open>cwd_file\<close> the one in the working directory.\<close>

definition from_env :: "environment \<Rightarrow> rstr option \<Rightarrow> rstr option \<Rightarrow> rstr + server_config" where
  "from_env env exe_file cwd_file = config_read (load_env_file (load_env_file env exe_file) cwd_file)"

section \<open>Pinned certificates\<close>

definition hex_value :: "uchar \<Rightarrow> nat option" where
  "hex_value c = (if 48 \<le> c \<and> c \<le> 57 then Some (c - 48) else if 97 \<le> c \<and> c \<le> 102 then Some (c - 87)
     else if 65 \<le> c \<and> c \<le> 70 then Some (c - 55) else None)"

fun hex_decode :: "rstr \<Rightarrow> u8 list option" where
  "hex_decode [] = Some []"
| "hex_decode [_] = None"
| "hex_decode (a # b # r) =
     (case (hex_value a, hex_value b, hex_decode r) of
        (Some x, Some y, Some t) \<Rightarrow> Some (of_nat (x * 16 + y) # t)
      | _ \<Rightarrow> None)"

definition parse_pin :: "rstr \<Rightarrow> u8 list option" where
  "parse_pin s =
     (case hex_decode (filter (\<lambda>c. hex_value c \<noteq> None) s) of
        Some b \<Rightarrow> if length b = 32 then Some b else None
      | None \<Rightarrow> None)"

text \<open>The certificate of the server, as the fingerprint of it; without pins the web's authorities decide.\<close>

definition certificate_ok :: "u8 list list \<Rightarrow> bool \<Rightarrow> u8 list \<Rightarrow> bool" where
  "certificate_ok pins web fingerprint \<longleftrightarrow> (if pins = [] then web else fingerprint \<in> set pins)"

text \<open>The application's pins: the current and the backup one. A pin that cannot be read ends the program.\<close>

definition parse_pins :: "rstr \<Rightarrow> rstr \<Rightarrow> u8 list list option" where
  "parse_pins current backup = those (map parse_pin (filter (\<lambda>p. str_trim p \<noteq> []) [current, backup]))"

section \<open>What is accepted\<close>

lemma config_accepted:
  assumes "config_read env = Inr c"
  shows "tls_files env = Inr (sv_tls c) \<and> secrets env = Inr (sv_secret c, sv_admin_token c) \<and>
    plain_http_allowed (sv_host c) (sv_tls c \<noteq> None) (env_var env (lit ''ALLOW_PLAIN_HTTP'') = Some (lit ''1''))"
  using assms by (auto simp: config_read_def Let_def split: sum.splits prod.splits if_splits)

lemma secrets_long: "secrets env = Inr (s, t) \<Longrightarrow> str_len s \<ge> 32 \<and> str_len t \<ge> 20"
  by (auto simp: secrets_def split: option.splits if_splits)

text \<open>
  The server never serves unencrypted connections beyond this computer unless it was told to, and never
  runs with a short secret or token.
\<close>

lemma config_is_safe:
  assumes "from_env env exe_file cwd_file = Inr c"
  shows "(sv_tls c = None \<and> \<not> loopback_host (sv_host c) \<longrightarrow>
      env_var (load_env_file (load_env_file env exe_file) cwd_file) (lit ''ALLOW_PLAIN_HTTP'') = Some (lit ''1'')) \<and>
    str_len (sv_secret c) \<ge> 32 \<and> str_len (sv_admin_token c) \<ge> 20"
  using config_accepted [of _ c] secrets_long assms by (auto simp: from_env_def plain_http_allowed_def)

lemma files_never_override: "hm_contains env k \<Longrightarrow> hm_get (load_env_file env f) k = hm_get env k"
proof -
  assume k: "hm_contains env k"
  have one: "hm_contains e k \<Longrightarrow> hm_get (set_if_unset e p) k = hm_get e k" for e p
    by (cases "fst p = k") (auto simp: set_if_unset_def)
  have "hm_get (foldl set_if_unset env ps) k = hm_get env k" for ps
  proof (induction ps rule: rev_induct)
    case (snoc p ps)
    then show ?case using k one [of "foldl set_if_unset env ps" p] by (simp add: hm_contains_def)
  qed simp
  then show ?thesis by (simp add: load_env_file_def split: option.split)
qed

lemma environment_wins:
  "hm_contains env k \<Longrightarrow> env_var (load_env_file (load_env_file env f) g) k = env_var env k"
  using files_never_override [of env k f] files_never_override [of "load_env_file env f" k g]
  by (simp add: env_var_def hm_contains_def)

text \<open>With a pin for the current certificate the web authorities have no say.\<close>

lemma pins_close_the_web:
  "parse_pins current backup = Some ps \<Longrightarrow> str_trim current \<noteq> [] \<Longrightarrow> ps \<noteq> [] \<and> (certificate_ok ps web f \<longleftrightarrow> f \<in> set ps)"
  by (auto simp: parse_pins_def certificate_ok_def split: option.splits)

end
