(* ===== verification/Annexb.thy ===== *)
theory Annexb
  imports Prelude
begin

text \<open>
  The Annex-B bitstream of \<open>crates/codec/src/annexb.rs\<close>: cutting it into its units and reading their
  types. The scanner of the code is compared with the set of places where a start code stands, and from
  that follows how it cuts a stream that is put together.
\<close>

section \<open>The code\<close>

function nal_starts :: "u8 list \<Rightarrow> nat \<Rightarrow> nat list" where
  "nal_starts d i =
     (if i + 3 \<le> length d
      then if d ! i = 0 \<and> d ! (i + 1) = 0 \<and> d ! (i + 2) = 1 then (i + 3) # nal_starts d (i + 3)
           else nal_starts d (i + 1)
      else [])"
  by pat_completeness auto
termination by (relation "measure (\<lambda>(d, i). length d - i)") auto

declare nal_starts.simps [simp del]

fun trim_zeros :: "u8 list \<Rightarrow> nat \<Rightarrow> nat \<Rightarrow> nat" where
  "trim_zeros d s 0 = 0"
| "trim_zeros d s (Suc e) = (if s < Suc e \<and> d ! e = 0 then trim_zeros d s e else Suc e)"

definition nal_slice :: "u8 list \<Rightarrow> nat \<Rightarrow> nat \<Rightarrow> u8 list" where
  "nal_slice d s e = (let e' = trim_zeros d s e in take (e' - s) (drop s d))"

fun nal_slices :: "u8 list \<Rightarrow> nat list \<Rightarrow> u8 list list" where
  "nal_slices d [] = []"
| "nal_slices d [s] = [nal_slice d s (length d)]"
| "nal_slices d (s # n # r) = nal_slice d s (n - 3) # nal_slices d (n # r)"

definition split_nals :: "u8 list \<Rightarrow> u8 list list" where
  "split_nals d = nal_slices d (nal_starts d 0)"

definition nal_type :: "bool \<Rightarrow> u8 list \<Rightarrow> u8" where
  "nal_type hevc n = (if hevc then and (drop_bit 1 (n ! 0)) 0x3f else and (n ! 0) 0x1f)"

definition nal_types :: "u8 list \<Rightarrow> bool \<Rightarrow> u8 list" where
  "nal_types d hevc = map (nal_type hevc) (filter (\<lambda>n. n \<noteq> []) (split_nals d))"

section \<open>Where the units start\<close>

definition code_at :: "u8 list \<Rightarrow> nat \<Rightarrow> bool" where
  "code_at d i \<longleftrightarrow> i + 3 \<le> length d \<and> d ! i = 0 \<and> d ! (i + 1) = 0 \<and> d ! (i + 2) = 1"

lemma code_at_apart: "code_at d i \<Longrightarrow> \<not> code_at d (i + 1) \<and> \<not> code_at d (i + 2)"
  by (auto simp: code_at_def)

lemma nal_starts_filter: "nal_starts d i = map (\<lambda>j. j + 3) (filter (code_at d) [i..<length d])"
proof (induction d i rule: nal_starts.induct)
  case (1 d i)
  show ?case
  proof (cases "i + 3 \<le> length d")
    case short: True
    then have i: "[i..<length d] = i # [i + 1..<length d]" by (simp add: upt_conv_Cons)
    show ?thesis
    proof (cases "code_at d i")
      case True
      have "[i + 1..<length d] = [i + 1, i + 2] @ [i + 3..<length d]"
        using short by (simp add: upt_conv_Cons eval_nat_numeral)
      then have "filter (code_at d) [i..<length d] = i # filter (code_at d) [i + 3..<length d]"
        using True code_at_apart [OF True] i by simp
      moreover have "nal_starts d i = (i + 3) # nal_starts d (i + 3)"
        using True by (simp add: nal_starts.simps [of d i] code_at_def)
      moreover have "nal_starts d (i + 3) = map (\<lambda>j. j + 3) (filter (code_at d) [i + 3..<length d])"
        using 1(1) True by (simp add: code_at_def [of d i])
      ultimately show ?thesis by simp
    next
      case False
      then have "nal_starts d i = nal_starts d (i + 1)"
        using short by (auto simp: nal_starts.simps [of d i] code_at_def)
      moreover have "nal_starts d (i + 1) = map (\<lambda>j. j + 3) (filter (code_at d) [i + 1..<length d])"
        using 1(2) False short by (auto simp: code_at_def [of d i])
      ultimately show ?thesis using False i by simp
    qed
  next
    case False
    then have "filter (code_at d) [i..<length d] = []" by (auto simp: filter_empty_conv code_at_def)
    then show ?thesis using False by (simp add: nal_starts.simps [of d i])
  qed
qed

text \<open>A stream that begins with a start code, of three or of four bytes.\<close>

definition starts_unit :: "u8 list \<Rightarrow> bool" where
  "starts_unit b \<longleftrightarrow> take 3 b = [0, 0, 1] \<or> take 4 b = [0, 0, 0, 1]"

lemma starts_unitE:
  assumes "starts_unit b"
  obtains r where "b = 0 # 0 # 1 # r" | r where "b = 0 # 0 # 0 # 1 # r"
proof -
  have "take 3 b = [0, 0, 1] \<Longrightarrow> b = 0 # 0 # 1 # drop 3 b"
    using append_take_drop_id [of 3 b] by simp
  moreover have "take 4 b = [0, 0, 0, 1] \<Longrightarrow> b = 0 # 0 # 0 # 1 # drop 4 b"
    using append_take_drop_id [of 4 b] by simp
  ultimately show thesis using assms that by (auto simp: starts_unit_def)
qed

lemma code_at_append_left:
  assumes "starts_unit b" "i < length a"
  shows "code_at (a @ b) i \<longleftrightarrow> code_at a i"
proof (cases "i + 3 \<le> length a")
  case True
  then show ?thesis by (simp add: code_at_def nth_append)
next
  case False
  then have "i + 1 = length a \<or> i + 2 = length a" using assms(2) by linarith
  then show ?thesis using assms(1) False by (auto elim!: starts_unitE simp: code_at_def nth_append)
qed

lemma code_at_append_right: "code_at (a @ b) (length a + j) \<longleftrightarrow> code_at b j"
  by (auto simp: code_at_def nth_append)

lemma nal_starts_append:
  assumes "starts_unit b"
  shows "nal_starts (a @ b) 0 = nal_starts a 0 @ map (\<lambda>s. length a + s) (nal_starts b 0)"
proof -
  have up: "[0..<length (a @ b)] = [0..<length a] @ map (\<lambda>j. length a + j) [0..<length b]"
    using upt_add_eq_append [of 0 "length a" "length b"] map_add_upt [of "length a" "length b"]
    by (simp add: add.commute)
  have l: "filter (code_at (a @ b)) [0..<length a] = filter (code_at a) [0..<length a]"
    using code_at_append_left [OF assms] by (intro filter_cong) auto
  have r: "filter (code_at (a @ b)) (map (\<lambda>j. length a + j) [0..<length b]) =
      map (\<lambda>j. length a + j) (filter (code_at b) [0..<length b])"
    by (simp add: filter_map comp_def code_at_append_right)
  show ?thesis unfolding nal_starts_filter up filter_append l r
    by (simp only: map_append map_map comp_def add.assoc)
qed

section \<open>Streams put together\<close>

lemma trim_zeros_le: "trim_zeros d s e \<le> e"
  by (induction d s e rule: trim_zeros.induct) auto

lemma trim_zeros_append: "e \<le> length a \<Longrightarrow> trim_zeros (a @ b) s e = trim_zeros a s e"
  by (induction a s e rule: trim_zeros.induct) (auto simp: nth_append)

lemma trim_zeros_shift: "trim_zeros (a @ b) (length a + s) (length a + e) - length a = trim_zeros b s e \<and>
    (s \<le> e \<longrightarrow> length a + s \<le> trim_zeros (a @ b) (length a + s) (length a + e))"
proof (induction e)
  case 0
  then show ?case by (cases "length a") (auto simp: )
next
  case (Suc e)
  then show ?case by (auto simp: nth_append)
qed

lemma nal_slice_append: "e \<le> length a \<Longrightarrow> nal_slice (a @ b) s e = nal_slice a s e"
  using trim_zeros_le [of a s e] by (simp add: nal_slice_def Let_def trim_zeros_append)

lemma nal_slice_shift:
  assumes "s \<le> e"
  shows "nal_slice (a @ b) (length a + s) (length a + e) = nal_slice b s e"
proof -
  have "trim_zeros (a @ b) (length a + s) (length a + e) = length a + trim_zeros b s e"
    using trim_zeros_shift [of a b s e] assms by linarith
  then show ?thesis by (simp add: nal_slice_def)
qed

lemma nal_starts_range: "s \<in> set (nal_starts d i) \<Longrightarrow> i + 3 \<le> s \<and> s \<le> length d"
  by (auto simp: nal_starts_filter code_at_def)

lemma nal_starts_apart: "sorted_wrt (\<lambda>s n. s + 3 \<le> n) (nal_starts d i)"
proof (induction d i rule: nal_starts.induct)
  case (1 d i)
  then show ?case
    by (subst nal_starts.simps) (auto simp: nal_starts_filter code_at_def)
qed

lemma starts_unit_head:
  assumes "starts_unit b"
  obtains m r where "nal_starts b 0 = m # r" "m = 3 \<or> m = 4 \<and> b ! 0 = 0"
  using assms
proof (cases rule: starts_unitE)
  case (1 r)
  then have "nal_starts b 0 = 3 # nal_starts b 3" by (subst nal_starts.simps) simp
  then show thesis using that by blast
next
  case (2 r)
  then have "nal_starts b 0 = nal_starts b 1" by (subst nal_starts.simps) simp
  also have "\<dots> = 4 # nal_starts b 4" using 2 by (subst nal_starts.simps) simp
  finally show thesis using that 2 by simp
qed

lemma last_slice:
  assumes "starts_unit b" "nal_starts b 0 = m # r" "s \<le> length a"
  shows "nal_slice (a @ b) s (length a + m - 3) = nal_slice a s (length a)"
proof -
  obtain m' r' where m: "nal_starts b 0 = m' # r'" "m' = 3 \<or> m' = 4 \<and> b ! 0 = 0"
    using starts_unit_head [OF assms(1)] .
  then consider "m = 3" | "m = 4" "b ! 0 = 0" using assms(2) by auto
  then show ?thesis
  proof cases
    case 1
    then show ?thesis by (simp add: nal_slice_append)
  next
    case 2
    then have "trim_zeros (a @ b) s (Suc (length a)) = trim_zeros (a @ b) s (length a)"
      using assms(3) by (simp add: nth_append)
    then show ?thesis using 2 nal_slice_append [of "length a" a b s] by (simp add: nal_slice_def)
  qed
qed

lemma nal_slices_shift:
  assumes "sorted_wrt (\<lambda>s n. s + 3 \<le> n) ss" "\<forall>s\<in>set ss. s \<le> length b"
  shows "nal_slices (a @ b) (map (\<lambda>s. length a + s) ss) = nal_slices b ss"
  using assms
proof (induction b ss rule: nal_slices.induct)
  case (2 d s)
  then show ?case using nal_slice_shift [of s "length d" a d] by simp
next
  case (3 d s n r)
  then have n: "length a + n - 3 = length a + (n - 3)" "s \<le> n - 3" by auto
  have "nal_slices (a @ d) (map (\<lambda>s. length a + s) (n # r)) = nal_slices d (n # r)"
    using 3 by auto
  then show ?case by (simp add: n(1) nal_slice_shift [OF n(2)])
qed simp

lemma nal_slices_append:
  assumes b: "starts_unit b"
    and "sorted_wrt (\<lambda>s n. s + 3 \<le> n) ss" "\<forall>s\<in>set ss. s \<le> length a"
  shows "nal_slices (a @ b) (ss @ map (\<lambda>s. length a + s) (nal_starts b 0)) = nal_slices a ss @ split_nals b"
  using assms(2, 3)
proof (induction a ss rule: nal_slices.induct)
  case (1 d)
  then show ?case
    using nal_slices_shift [OF nal_starts_apart, of b 0 b d] nal_starts_range [of _ b 0]
    by (auto simp: split_nals_def)
next
  case (2 d s)
  obtain m r where m: "nal_starts b 0 = m # r" using starts_unit_head [OF b] by blast
  have "nal_slices (d @ b) (map (\<lambda>s. length d + s) (nal_starts b 0)) = split_nals b"
    using nal_slices_shift [OF nal_starts_apart, of b 0 b d] nal_starts_range [of _ b 0]
    by (auto simp: split_nals_def)
  then show ?case using 2 last_slice [OF b m] m by simp
next
  case (3 d s n r)
  then have "n - 3 \<le> length d" by auto
  moreover have "nal_slices (d @ b) ((n # r) @ map (\<lambda>s. length d + s) (nal_starts b 0)) = nal_slices d (n # r) @ split_nals b"
    using 3 by auto
  ultimately show ?case by (simp add: nal_slice_append)
qed

text \<open>A stream cut between two units has the units of both parts.\<close>

lemma split_nals_append: "starts_unit b \<Longrightarrow> split_nals (a @ b) = split_nals a @ split_nals b"
  using nal_slices_append [OF _ nal_starts_apart, of b a 0 a] nal_starts_range [of _ a 0]
  by (auto simp: split_nals_def [of "a @ b"] split_nals_def [of a] nal_starts_append)

lemma nal_types_append: "starts_unit b \<Longrightarrow> nal_types (a @ b) hevc = nal_types a hevc @ nal_types b hevc"
  by (simp add: nal_types_def split_nals_append)

text \<open>What an encoder must not put into a unit: a start code, or a zero at its end.\<close>

definition clean_unit :: "u8 list \<Rightarrow> bool" where
  "clean_unit n \<longleftrightarrow> n \<noteq> [] \<and> last n \<noteq> 0 \<and> list_all (\<lambda>i. \<not> code_at n i) [0..<length n]"

definition start_code :: "bool \<Rightarrow> u8 list" where
  "start_code long = (if long then [0, 0, 0, 1] else [0, 0, 1])"

definition annexb_stream :: "(bool \<times> u8 list) list \<Rightarrow> u8 list" where
  "annexb_stream us = concat (map (\<lambda>u. start_code (fst u) @ snd u) us)"

lemma split_one_unit:
  assumes "clean_unit n"
  shows "split_nals (start_code long @ n) = [n]"
proof -
  let ?d = "start_code long @ n" and ?s = "length (start_code long)"
  have n: "\<not> code_at n i" for i
    using assms by (cases "i < length n") (auto simp: clean_unit_def list_all_iff code_at_def)
  have ne: "n \<noteq> []" "last n \<noteq> 0" using assms by (auto simp: clean_unit_def)
  have "\<not> code_at ?d (?s + j)" for j using n [of j] code_at_append_right [of "start_code long" n j] by simp
  then have none: "nal_starts ?d ?s = []"
    by (auto simp: nal_starts_filter filter_empty_conv) (metis le_add_diff_inverse)
  have "nal_starts ?d 0 = [?s]"
  proof (cases long)
    case True
    have "nal_starts ?d 0 = nal_starts ?d 1" using True by (subst nal_starts.simps) (simp add: start_code_def)
    also have "\<dots> = 4 # nal_starts ?d 4" using True by (subst nal_starts.simps) (simp add: start_code_def)
    finally show ?thesis using none True by (simp add: start_code_def eval_nat_numeral)
  next
    case False
    have "nal_starts ?d 0 = 3 # nal_starts ?d 3" using False by (subst nal_starts.simps) (simp add: start_code_def)
    then show ?thesis using none False by (simp add: start_code_def eval_nat_numeral)
  qed
  moreover have "nal_slice ?d ?s (length ?d) = n"
  proof -
    obtain k where k: "length ?d = Suc k" using ne by (cases "length ?d") auto
    then have "?d ! k = last ?d" using ne by (simp add: last_conv_nth)
    then have "trim_zeros ?d ?s (Suc k) = Suc k" using ne by simp
    then show ?thesis using k by (simp add: nal_slice_def)
  qed
  ultimately show ?thesis by (simp add: split_nals_def)
qed

lemma starts_unit_stream: "us \<noteq> [] \<Longrightarrow> starts_unit (annexb_stream us)"
  by (cases us) (auto simp: annexb_stream_def starts_unit_def start_code_def)

text \<open>Cutting gives back the units a stream was put together from, whichever start codes stand before them.\<close>

lemma split_stream: "list_all (\<lambda>u. clean_unit (snd u)) us \<Longrightarrow> split_nals (annexb_stream us) = map snd us"
proof (induction us)
  case Nil
  then show ?case by (simp add: annexb_stream_def split_nals_def nal_starts_filter)
next
  case (Cons u us)
  have u: "annexb_stream (u # us) = (start_code (fst u) @ snd u) @ annexb_stream us"
    by (simp add: annexb_stream_def)
  show ?case
  proof (cases "us = []")
    case True
    then show ?thesis using Cons.prems split_one_unit [of "snd u" "fst u"] by (simp add: annexb_stream_def)
  next
    case False
    then show ?thesis
      using Cons split_nals_append [OF starts_unit_stream [OF False]] split_one_unit [of "snd u" "fst u"]
      by (simp only: u) simp
  qed
qed

end
