(* ===== verification/Encoder.thy ===== *)
theory Encoder
  imports Video Annexb
begin

text \<open>
  The video encoder, \<open>crates/codec/src/encoder.rs\<close>, with its wrapping in
  \<open>crates/session/src/platform.rs\<close>. Media Foundation is not part of the repository: what a transform
  answers to the calls of the code comes with the operations, and what the code sets on it is recorded.

  A call that has not come back yet (the answers are used up) is \<^term>\<open>Waits\<close>, a failed assertion
  \<^term>\<open>Panics\<close>. \<open>init_mf\<close> and the locking of buffers have no state of their own.
\<close>

type_synonym hresult = u32

definition MF_NEED_MORE_INPUT :: hresult where "MF_NEED_MORE_INPUT = 0xC00D6D72"
definition MF_STREAM_CHANGE :: hresult where "MF_STREAM_CHANGE = 0xC00D6D61"

datatype codec_error = CE_NoEncoder codec | CE_Unsupported codec | CE_NoOutput | CE_Windows hresult

text \<open>\<open>EncoderConfig\<close> has the fields of \<open>EncoderRequest\<close>, which \<open>create\<close> copies one by one.\<close>

type_synonym encoder_config = encoder_request

datatype mf_subtype = MF_H264 | MF_HEVC

definition subtype :: "codec \<Rightarrow> codec_error + mf_subtype" where
  "subtype c = (case c of H264 \<Rightarrow> Inr MF_H264 | H265 \<Rightarrow> Inr MF_HEVC | Av1 \<Rightarrow> Inl (CE_Unsupported Av1))"

section \<open>Setting a transform up\<close>

text \<open>
  \<open>ts_error\<close> is the first call that must succeed and does not. \<open>ts_async\<close>: the transform works by events
  and hands out its event generator; \<open>ts_api\<close>: it has a codec interface.
\<close>

record transform_setup =
  ts_error :: "hresult option"
  ts_async :: bool
  ts_api :: bool
  ts_buffer :: u32
  ts_provides :: bool
  ts_header :: "u8 list"

record candidate =
  ca_name :: rstr
  ca_hardware :: bool
  ca_setup :: transform_setup

datatype media_attr =
    MA_Subtype mf_subtype | MA_Nv12 | MA_AvgBitrate u32 | MA_FrameSize u64 | MA_FrameRate u64
  | MA_PixelAspect u64 | MA_Progressive | MA_MainProfile

datatype api_set =
    SetLowLatency u32 | SetRateControlCbr | SetMeanBitRate u32 | SetBufferSize u32 | SetBPictures u32
  | SetGopSize u32 | SetQualityVsSpeed u32 | SetForceKeyFrame u32

definition pack :: "u32 \<Rightarrow> u32 \<Rightarrow> u64" where
  "pack hi lo = or (push_bit 32 (ucast hi)) (ucast lo)"

text \<open>The rate in bits per second; the product wraps at 32 bits.\<close>

definition mean_rate :: "u32 \<Rightarrow> u32" where
  "mean_rate kbps = max kbps 100 * 1000"

definition common_attrs :: "encoder_config \<Rightarrow> media_attr list" where
  "common_attrs cfg =
     [MA_FrameSize (pack (er_width cfg) (er_height cfg)), MA_FrameRate (pack (max (er_fps cfg) 1) 1),
      MA_PixelAspect (pack 1 1), MA_Progressive]"

definition out_type :: "encoder_config \<Rightarrow> mf_subtype \<Rightarrow> media_attr list" where
  "out_type cfg s =
     [MA_Subtype s, MA_AvgBitrate (mean_rate (er_bitrate_kbps cfg))] @ common_attrs cfg @
     (if er_codec cfg = H264 then [MA_MainProfile] else [])"

definition in_type :: "encoder_config \<Rightarrow> media_attr list" where
  "in_type cfg = MA_Nv12 # common_attrs cfg"

definition api_setup :: "encoder_config \<Rightarrow> api_set list" where
  "api_setup cfg =
     [SetLowLatency 1, SetRateControlCbr, SetMeanBitRate (mean_rate (er_bitrate_kbps cfg)),
      SetBufferSize (max (mean_rate (er_bitrate_kbps cfg) div 4) 60000), SetBPictures 0,
      SetGopSize (max (er_fps cfg) 1 * 300), SetQualityVsSpeed 30]"

text \<open>\<open>en_api\<close>: what was set through the codec interface so far, if there is one.\<close>

record encoder =
  en_cfg :: encoder_config
  en_name :: rstr
  en_hardware :: bool
  en_async :: bool
  en_types :: "media_attr list \<times> media_attr list"
  en_api :: "api_set list option"
  en_index :: u64
  en_frame_bytes :: nat
  en_buffer :: u32
  en_provides :: bool
  en_header :: "u8 list"
  en_need :: u32
  en_force :: bool

definition configure :: "candidate \<Rightarrow> encoder_config \<Rightarrow> codec_error + encoder" where
  "configure c cfg =
     (case subtype (er_codec cfg) of
        Inl e \<Rightarrow> Inl (case ts_error (ca_setup c) of Some h \<Rightarrow> CE_Windows h | None \<Rightarrow> e)
      | Inr s \<Rightarrow>
          (case ts_error (ca_setup c) of
             Some h \<Rightarrow> Inl (CE_Windows h)
           | None \<Rightarrow>
               Inr \<lparr>en_cfg = cfg, en_name = ca_name c, en_hardware = ca_hardware c,
                    en_async = ts_async (ca_setup c), en_types = (out_type cfg s, in_type cfg),
                    en_api = (if ts_api (ca_setup c) then Some (api_setup cfg) else None), en_index = 0,
                    en_frame_bytes = unat (er_width cfg * er_height cfg * 3 div 2),
                    en_buffer = max (ts_buffer (ca_setup c)) (er_width cfg * er_height cfg),
                    en_provides = ts_provides (ca_setup c), en_header = ts_header (ca_setup c),
                    en_need = 0, en_force = True\<rparr>))"

text \<open>\<open>installed\<close>: the transforms of a kind that the system lists.\<close>

type_synonym catalogue = "mf_subtype \<Rightarrow> bool \<Rightarrow> hresult + candidate list"

definition enumerate_encoders :: "catalogue \<Rightarrow> codec \<Rightarrow> bool \<Rightarrow> codec_error + candidate list" where
  "enumerate_encoders installed c hardware =
     (case subtype c of Inl e \<Rightarrow> Inl e
      | Inr s \<Rightarrow> (case installed s hardware of Inl h \<Rightarrow> Inl (CE_Windows h) | Inr cs \<Rightarrow> Inr cs))"

definition ok_list :: "'e + 'a list \<Rightarrow> 'a list" where
  "ok_list r = (case r of Inr xs \<Rightarrow> xs | Inl _ \<Rightarrow> [])"

definition available_encoders :: "catalogue \<Rightarrow> (codec \<times> rstr \<times> bool) list" where
  "available_encoders installed =
     concat (map (\<lambda>(c, hw). map (\<lambda>x. (c, ca_name x, ca_hardware x)) (ok_list (enumerate_encoders installed c hw)))
       [(H264, True), (H264, False), (H265, True), (H265, False)])"

fun first_accepted :: "candidate list \<Rightarrow> encoder_config \<Rightarrow> codec_error \<Rightarrow> codec_error + encoder" where
  "first_accepted [] cfg err = Inl err"
| "first_accepted (c # cs) cfg err =
     (case configure c cfg of Inr en \<Rightarrow> Inr en | Inl e \<Rightarrow> first_accepted cs cfg e)"

definition even_size :: "encoder_config \<Rightarrow> encoder_config" where
  "even_size cfg = cfg\<lparr>er_width := and (er_width cfg) (not 1), er_height := and (er_height cfg) (not 1)\<rparr>"

definition candidates :: "catalogue \<Rightarrow> encoder_config \<Rightarrow> candidate list" where
  "candidates installed cfg =
     (if er_hardware cfg then ok_list (enumerate_encoders installed (er_codec cfg) True) else []) @
     ok_list (enumerate_encoders installed (er_codec cfg) False)"

definition encoder_new :: "catalogue \<Rightarrow> encoder_config \<Rightarrow> codec_error + encoder" where
  "encoder_new installed cfg = first_accepted (candidates installed cfg) (even_size cfg) (CE_NoEncoder (er_codec cfg))"

definition force_keyframe :: "encoder \<Rightarrow> encoder" where
  "force_keyframe en = en\<lparr>en_force := True\<rparr>"

definition api_add :: "api_set \<Rightarrow> encoder \<Rightarrow> encoder" where
  "api_add v en = en\<lparr>en_api := map_option (\<lambda>l. l @ [v]) (en_api en)\<rparr>"

definition set_bitrate :: "u32 \<Rightarrow> encoder \<Rightarrow> encoder" where
  "set_bitrate kbps en =
     api_add (SetMeanBitRate (mean_rate kbps)) (en\<lparr>en_cfg := (en_cfg en)\<lparr>er_bitrate_kbps := kbps\<rparr>\<rparr>)"

section \<open>Taking pictures out\<close>

record out_sample =
  os_data :: "hresult + u8 list"
  os_clean :: bool

text \<open>
  What \<open>ProcessOutput\<close> answers. After a change of the stream the new type is set, with the header of it,
  or that fails. \<open>OA_NoBuffer\<close>: the buffer to write to could not be made.
\<close>

datatype output_answer =
    OA_Ok "out_sample option"
  | OA_Err hresult "hresult + u8 list"
  | OA_NoBuffer hresult

definition params_type :: "bool \<Rightarrow> u8" where
  "params_type hevc = (if hevc then 33 else 7)"

definition have_params :: "u8 list \<Rightarrow> bool \<Rightarrow> bool" where
  "have_params d hevc \<longleftrightarrow> list_ex (\<lambda>t. t = params_type hevc) (nal_types d hevc)"

definition extract_unit :: "encoder \<Rightarrow> out_sample \<Rightarrow> codec_error + encoded_unit" where
  "extract_unit en s =
     (case os_data s of
        Inl h \<Rightarrow> Inl (CE_Windows h)
      | Inr d \<Rightarrow>
          Inr \<lparr>eu_data = (if os_clean s \<and> en_header en \<noteq> [] \<and> \<not> have_params d (er_codec (en_cfg en) = H265)
                          then en_header en @ d else d),
               eu_keyframe = os_clean s\<rparr>)"

type_synonym output_result = "(codec_error + encoded_unit option) \<times> encoder \<times> output_answer list"

fun process_output :: "nat \<Rightarrow> encoder \<Rightarrow> output_answer list \<Rightarrow> output_result option" where
  "process_output 0 en ans = Some (Inr None, en, ans)"
| "process_output (Suc k) en [] = None"
| "process_output (Suc k) en (OA_NoBuffer h # ans) = Some (Inl (CE_Windows h), en, ans)"
| "process_output (Suc k) en (OA_Ok None # ans) = Some (Inr None, en, ans)"
| "process_output (Suc k) en (OA_Ok (Some s) # ans) =
     Some (case extract_unit en s of Inl e \<Rightarrow> Inl e | Inr f \<Rightarrow> Inr (Some f), en, ans)"
| "process_output (Suc k) en (OA_Err h after # ans) =
     (if h = MF_NEED_MORE_INPUT then Some (Inr None, en, ans)
      else if h = MF_STREAM_CHANGE
      then (case after of
              Inl h' \<Rightarrow> Some (Inl (CE_Windows h'), en, ans)
            | Inr hdr \<Rightarrow> process_output k (en\<lparr>en_header := hdr\<rparr>) ans)
      else Some (Inl (CE_Windows h), en, ans))"

definition OUTPUT_TRIES :: nat where "OUTPUT_TRIES = 2"

lemma process_output_shorter:
  "process_output k en ans = Some (r, en', ans') \<Longrightarrow> 0 < k \<Longrightarrow> length ans' < length ans"
proof (induction k en ans rule: process_output.induct)
  case (6 k en h after ans)
  have le: "process_output j e l = Some (r, e', l') \<Longrightarrow> length l' \<le> length l" for j e l e' l'
    by (induction j e l rule: process_output.induct) (auto split: sum.splits if_splits)
  from 6(2) show ?case
    by (auto split: sum.splits if_splits dest: le)
qed auto

function drain_output :: "encoder \<Rightarrow> output_answer list \<Rightarrow> encoded_unit list \<Rightarrow>
    ((codec_error + encoded_unit list) \<times> encoder) option" where
  "drain_output en ans out =
     (case process_output OUTPUT_TRIES en ans of
        None \<Rightarrow> None
      | Some (Inr (Some f), en', ans') \<Rightarrow> drain_output en' ans' (out @ [f])
      | Some (Inr None, en', ans') \<Rightarrow> Some (Inr out, en')
      | Some (Inl e, en', ans') \<Rightarrow> Some (if e = CE_Windows MF_NEED_MORE_INPUT then Inr out else Inl e, en'))"
  by pat_completeness auto
termination
  by (relation "measure (\<lambda>(en, ans, out). length ans)")
     (auto simp: OUTPUT_TRIES_def dest: process_output_shorter)

declare drain_output.simps [simp del]

text \<open>The events of a transform that works by itself.\<close>

datatype media_event = ME_NeedInput | ME_HaveOutput "output_answer list" | ME_Other | ME_Fail hresult

definition IDLE_EVENTS :: nat where "IDLE_EVENTS = 64"

function encode_async :: "hresult option \<Rightarrow> encoder \<Rightarrow> bool \<Rightarrow> nat \<Rightarrow> encoded_unit list \<Rightarrow> media_event list \<Rightarrow>
    ((codec_error + encoded_unit list) \<times> encoder) option" where
  "encode_async refuse en fed idle out evs =
     (if \<not> fed \<and> 0 < en_need en
      then (case refuse of
              Some h \<Rightarrow> Some (Inl (CE_Windows h), en)
            | None \<Rightarrow> encode_async refuse (en\<lparr>en_need := en_need en - 1\<rparr>) True idle out evs)
      else case evs of
        [] \<Rightarrow> None
      | ME_Fail h # evs' \<Rightarrow> Some (Inl (CE_Windows h), en)
      | ME_NeedInput # evs' \<Rightarrow> encode_async refuse (en\<lparr>en_need := en_need en + 1\<rparr>) fed idle out evs'
      | ME_HaveOutput ans # evs' \<Rightarrow>
          (case process_output OUTPUT_TRIES en ans of
             None \<Rightarrow> None
           | Some (Inl e, en', _) \<Rightarrow> Some (Inl e, en')
           | Some (Inr f, en', _) \<Rightarrow>
               (let out' = (case f of Some u \<Rightarrow> out @ [u] | None \<Rightarrow> out)
                in if fed then Some (Inr out', en') else encode_async refuse en' fed idle out' evs'))
      | ME_Other # evs' \<Rightarrow>
          if IDLE_EVENTS < idle + 1 then Some (Inl CE_NoOutput, en)
          else encode_async refuse en fed (idle + 1) out evs')"
  by pat_completeness auto
termination
  by (relation "measure (\<lambda>(_, _, fed, _, _, evs). length evs + (if fed then 0 else 1))") auto

declare encode_async.simps [simp del]

section \<open>Encoding a picture\<close>

datatype 'a outcome = Returns 'a | Waits | Panics

text \<open>The answers of the transform to one picture: making the sample, taking it, and what comes out.\<close>

record media_answers =
  an_sample :: "hresult option"
  an_refuse :: "hresult option"
  an_outputs :: "output_answer list"
  an_events :: "media_event list"

definition apply_force :: "encoder \<Rightarrow> encoder" where
  "apply_force en = (if en_force en then (api_add (SetForceKeyFrame 1) en)\<lparr>en_force := False\<rparr> else en)"

definition run_transform :: "encoder \<Rightarrow> media_answers \<Rightarrow> ((codec_error + encoded_unit list) \<times> encoder) option" where
  "run_transform en an =
     (if en_async en then encode_async (an_refuse an) en False 0 [] (an_events an)
      else case an_refuse an of
        Some h \<Rightarrow> Some (Inl (CE_Windows h), en)
      | None \<Rightarrow> drain_output en (an_outputs an) [])"

definition encoder_encode :: "encoder \<Rightarrow> u8 list \<Rightarrow> media_answers \<Rightarrow>
    ((codec_error + encoded_unit list) \<times> encoder) outcome" where
  "encoder_encode en nv12 an =
     (if length nv12 \<noteq> en_frame_bytes en then Panics
      else case an_sample an of
        Some h \<Rightarrow> Returns (Inl (CE_Windows h), apply_force en)
      | None \<Rightarrow>
          (case run_transform (apply_force en) an of
             None \<Rightarrow> Waits
           | Some (Inl e, en') \<Rightarrow> Returns (Inl e, en')
           | Some (Inr us, en') \<Rightarrow> Returns (Inr us, en'\<lparr>en_index := en_index en' + 1\<rparr>)))"

definition mf_encode :: "encoder \<Rightarrow> frame \<Rightarrow> bool \<Rightarrow> media_answers \<Rightarrow>
    ((codec_error + encoded_unit list) \<times> encoder) outcome" where
  "mf_encode en f force_key an =
     encoder_encode (if force_key then force_keyframe en else en) (fr_data f) an"

end
