(* ===== verification/Encoder_Props.thy ===== *)
theory Encoder_Props
  imports Encoder
begin

text \<open>
  What the encoder hands on: every picture as the transform coded it, with the sequence header of the stream it belongs to
  in front of a key picture that has no parameters of its own. And what the encoder waits for.
\<close>

section \<open>The stream an encoder answers with\<close>

lemma split_nals_Nil [simp]: "split_nals [] = []"
  by (simp add: split_nals_def nal_starts_filter)

abbreviation hevc_of :: "encoder \<Rightarrow> bool" where "hevc_of en \<equiv> er_codec (en_cfg en) = H265"

text \<open>
  The units that a sequence of answers of the transform stands for, and the header at its end: a change of the stream brings
  its own header, which holds from there on.
\<close>

definition picture_unit :: "bool \<Rightarrow> u8 list \<Rightarrow> bool \<Rightarrow> u8 list \<Rightarrow> encoded_unit" where
  "picture_unit hevc header key d =
     \<lparr>eu_data = (if key \<and> \<not> have_params d hevc then header @ d else d), eu_keyframe = key\<rparr>"

fun stream_units :: "bool \<Rightarrow> u8 list \<Rightarrow> output_answer list \<Rightarrow> encoded_unit list \<times> u8 list" where
  "stream_units hevc header [] = ([], header)"
| "stream_units hevc header (a # as1) =
     (case a of
        OA_Err h (Inr hdr) \<Rightarrow> stream_units hevc (if h = MF_STREAM_CHANGE then hdr else header) as1
      | OA_Ok (Some s) \<Rightarrow>
          (case os_data s of
             Inr d \<Rightarrow> map_prod ((#) (picture_unit hevc header (os_clean s) d)) id (stream_units hevc header as1)
           | Inl _ \<Rightarrow> stream_units hevc header as1)
      | _ \<Rightarrow> stream_units hevc header as1)"

lemma stream_units_split:
  "fst (stream_units hevc header (xs @ ys)) = fst (stream_units hevc header xs) @ fst (stream_units hevc (snd (stream_units hevc header xs)) ys)"
  "snd (stream_units hevc header (xs @ ys)) = snd (stream_units hevc (snd (stream_units hevc header xs)) ys)"
  by (induction xs arbitrary: header) (simp_all split: output_answer.split option.split sum.split)

lemma stream_units_append:
  assumes "stream_units hevc header xs = (us, h1)" and "stream_units hevc h1 ys = (vs, h2)"
  shows "stream_units hevc header (xs @ ys) = (us @ vs, h2)"
  using stream_units_split [of hevc header xs ys] assms by (simp add: prod_eq_iff)

text \<open>The data of an answer; what one try to take an output hands on.\<close>

fun answer_data :: "output_answer \<Rightarrow> u8 list set" where
  "answer_data (OA_Ok (Some s)) = (case os_data s of Inr d \<Rightarrow> {d} | Inl _ \<Rightarrow> {})"
| "answer_data a = {}"

definition handed :: "codec_error + encoded_unit option \<Rightarrow> encoded_unit list" where
  "handed r = (case r of Inr (Some u) \<Rightarrow> [u] | _ \<Rightarrow> [])"

lemma handed_simps [simp]: "handed (Inl e) = []" "handed (Inr None) = []" "handed (Inr (Some u)) = [u]"
  by (simp_all add: handed_def)

lemma need_more_is_no_change: "MF_NEED_MORE_INPUT \<noteq> MF_STREAM_CHANGE"
  by (simp add: MF_NEED_MORE_INPUT_def MF_STREAM_CHANGE_def)

lemma process_output_reads:
  assumes "process_output k en ans = Some (r, en', ans')"
  shows "en_cfg en' = en_cfg en \<and> (\<exists>xs. ans = xs @ ans' \<and> (0 < k \<longrightarrow> xs \<noteq> []) \<and>
    stream_units (hevc_of en) (en_header en) xs = (handed r, en_header en') \<and>
    (handed r = [] \<longrightarrow> list_all (\<lambda>a. answer_data a = {}) xs))"
  using assms
proof (induction k en ans rule: process_output.induct)
  case (1 en ans)
  then show ?case by auto
next
  case (3 k en h ans)
  then show ?case by (intro conjI exI [of _ "[OA_NoBuffer h]"]) auto
next
  case (4 k en ans)
  then show ?case by (intro conjI exI [of _ "[OA_Ok None]"]) auto
next
  case (5 k en s ans)
  then show ?case
    by (intro conjI exI [of _ "[OA_Ok (Some s)]"])
      (auto simp: extract_unit_def picture_unit_def split: sum.splits if_splits)
next
  case (6 k en h after ans)
  show ?case
  proof (cases "h = MF_STREAM_CHANGE \<and> (\<exists>x. after = Inr x)")
    case True
    then obtain x where x: "after = Inr x" by blast
    have "process_output k (en\<lparr>en_header := x\<rparr>) ans = Some (r, en', ans')"
      using 6(2) True x need_more_is_no_change by simp
    with 6(1) True x need_more_is_no_change obtain xs where
      xs: "en_cfg en' = en_cfg en" "ans = xs @ ans'" "stream_units (hevc_of en) x xs = (handed r, en_header en')"
        "handed r = [] \<longrightarrow> list_all (\<lambda>a. answer_data a = {}) xs"
      by fastforce
    then show ?thesis using True x by (intro conjI exI [of _ "OA_Err h after # xs"]) auto
  next
    case False
    then show ?thesis using 6(2)
      by (intro conjI exI [of _ "[OA_Err h after]"]) (auto split: sum.splits if_splits)
  qed
qed simp

text \<open>Draining takes the answers from the front, up to one that hands out nothing.\<close>

lemma drain_reads:
  assumes "drain_output en ans out = Some (Inr us, en')"
  shows "en_cfg en' = en_cfg en \<and> (\<exists>xs rest vs. ans = xs @ rest \<and> xs \<noteq> [] \<and> answer_data (last xs) = {} \<and>
    us = out @ vs \<and> stream_units (hevc_of en) (en_header en) xs = (vs, en_header en'))"
  using assms
proof (induction ans arbitrary: en out rule: length_induct)
  case (1 ans)
  obtain r e1 a1 where p: "process_output OUTPUT_TRIES en ans = Some (r, e1, a1)"
    using 1(2) by (subst (asm) drain_output.simps) (auto split: option.splits)
  from process_output_reads [OF p] obtain xs where xs: "en_cfg e1 = en_cfg en" "ans = xs @ a1" "xs \<noteq> []"
    "stream_units (hevc_of en) (en_header en) xs = (handed r, en_header e1)" "handed r = [] \<longrightarrow> list_all (\<lambda>a. answer_data a = {}) xs"
    by (auto simp: OUTPUT_TRIES_def)
  show ?case
  proof (cases "\<exists>f. r = Inr (Some f)")
    case True
    then obtain f where f: "r = Inr (Some f)" by blast
    have "drain_output e1 a1 (out @ [f]) = Some (Inr us, en')"
      using 1(2) p f by (subst (asm) drain_output.simps) simp
    moreover have "length a1 < length ans" using xs(2,3) by simp
    ultimately obtain ys rest vs where ys: "en_cfg en' = en_cfg e1" "a1 = ys @ rest" "ys \<noteq> []" "answer_data (last ys) = {}"
      "us = (out @ [f]) @ vs" "stream_units (hevc_of e1) (en_header e1) ys = (vs, en_header en')"
      using 1(1) by blast
    have "stream_units (hevc_of en) (en_header en) (xs @ ys) = ([f] @ vs, en_header en')"
      using stream_units_append [OF xs(4)] ys(6) xs(1) f by simp
    then show ?thesis using xs(1,2) ys(1-5) by (intro conjI exI [of _ "xs @ ys"] exI [of _ rest] exI [of _ "[f] @ vs"]) auto
  next
    case False
    then have "us = out \<and> en' = e1" "handed r = []"
      using 1(2) p by (subst (asm) drain_output.simps; auto simp: handed_def split: sum.splits option.splits if_splits)+
    then show ?thesis using xs by (intro conjI exI [of _ xs] exI [of _ a1] exI [of _ "[]"]) (auto simp: list_all_iff)
  qed
qed

text \<open>Of the events, each that announces an output has some of its answers taken, from the front.\<close>

definition part_of :: "output_answer list \<Rightarrow> media_event \<Rightarrow> bool" where
  "part_of p e \<longleftrightarrow> (case e of ME_HaveOutput ans \<Rightarrow> p \<noteq> [] \<and> (\<exists>rest. ans = p @ rest) | _ \<Rightarrow> p = [])"

lemma async_reads:
  assumes "encode_async refuse en fed idle out evs = Some (Inr us, en')"
  shows "en_cfg en' = en_cfg en \<and> (\<exists>ys zs parts vs. evs = ys @ zs \<and> list_all2 part_of parts ys \<and>
    us = out @ vs \<and> stream_units (hevc_of en) (en_header en) (concat parts) = (vs, en_header en'))"
  using assms
proof (induction "length evs + (if fed then 0 else 1)" arbitrary: en fed idle out evs rule: less_induct)
  case less
  note run = less(2) [unfolded encode_async.simps [of refuse en fed idle out evs]]
  have skip: "en_cfg en' = en_cfg en \<and> (\<exists>ys zs parts vs. evs = ys @ zs \<and> list_all2 part_of parts ys \<and>
      us = out @ vs \<and> stream_units (hevc_of en) (en_header en) (concat parts) = (vs, en_header en'))"
    if "evs = e # evs'" "part_of [] e" "en_cfg en1 = en_cfg en" "en_header en1 = en_header en"
      "encode_async refuse en1 fed j out evs' = Some (Inr us, en')" for e evs' en1 j
  proof -
    have "length evs' + (if fed then 0 else 1) < length evs + (if fed then 0 else 1)" using that(1) by simp
    from less(1) [OF this that(5)] that(3,4) obtain ys zs parts vs where
      r: "en_cfg en' = en_cfg en" "evs' = ys @ zs" "list_all2 part_of parts ys" "us = out @ vs"
        "stream_units (hevc_of en) (en_header en) (concat parts) = (vs, en_header en')" by auto
    then show ?thesis using that(1,2)
      by (intro conjI exI [of _ "e # ys"] exI [of _ zs] exI [of _ "[] # parts"] exI [of _ vs]) auto
  qed
  show ?case
  proof (cases "\<not> fed \<and> 0 < en_need en")
    case True
    then have "encode_async refuse (en\<lparr>en_need := en_need en - 1\<rparr>) True idle out evs = Some (Inr us, en')"
      using run by (auto split: option.splits)
    from less(1) [OF _ this] True show ?thesis by simp
  next
    case False
    then obtain e evs' where e: "evs = e # evs'" using run by (cases evs) auto
    show ?thesis
    proof (cases e)
      case ME_NeedInput
      then have "encode_async refuse (en\<lparr>en_need := en_need en + 1\<rparr>) fed idle out evs' = Some (Inr us, en')"
        using run False e by simp
      from skip [OF e _ _ _ this] ME_NeedInput show ?thesis by (simp add: part_of_def)
    next
      case ME_Other
      then have "encode_async refuse en fed (idle + 1) out evs' = Some (Inr us, en')"
        using run False e by (simp split: if_splits)
      from skip [OF e _ _ _ this] ME_Other show ?thesis by (simp add: part_of_def)
    next
      case (ME_Fail h)
      then show ?thesis using run False e by simp
    next
      case (ME_HaveOutput ans)
      obtain r e1 a1 where p: "process_output OUTPUT_TRIES en ans = Some (r, e1, a1)"
        using run False e ME_HaveOutput by (auto split: option.splits)
      obtain f where f: "r = Inr f" using run False e ME_HaveOutput p by (cases r) auto
      from process_output_reads [OF p] obtain xs where xs: "en_cfg e1 = en_cfg en" "ans = xs @ a1" "xs \<noteq> []"
        "stream_units (hevc_of en) (en_header en) xs = (handed r, en_header e1)" by (auto simp: OUTPUT_TRIES_def)
      have part: "part_of xs e" using xs(2,3) ME_HaveOutput by (simp add: part_of_def)
      have out: "(case f of Some u \<Rightarrow> out @ [u] | None \<Rightarrow> out) = out @ handed r" by (cases f) (simp_all add: f)
      have rest: "(if fed then Some (Inr (out @ handed r), e1) else encode_async refuse e1 fed idle (out @ handed r) evs') = Some (Inr us, en')"
        using run False e ME_HaveOutput p f out by (cases fed) (simp_all add: Let_def)
      show ?thesis
      proof (cases fed)
        case True
        then show ?thesis using rest xs(1,4) part e
          by (intro conjI exI [of _ "[e]"] exI [of _ evs'] exI [of _ "[xs]"] exI [of _ "handed r"]) auto
      next
        case fed: False
        then have run1: "encode_async refuse e1 fed idle (out @ handed r) evs' = Some (Inr us, en')" using rest by simp
        have "length evs' + (if fed then 0 else 1) < length evs + (if fed then 0 else 1)" using e by simp
        from less(1) [OF this run1] obtain ys zs parts vs where
          r: "en_cfg en' = en_cfg e1" "evs' = ys @ zs" "list_all2 part_of parts ys" "us = (out @ handed r) @ vs"
            "stream_units (hevc_of e1) (en_header e1) (concat parts) = (vs, en_header en')" by blast
        then have "stream_units (hevc_of en) (en_header en) (xs @ concat parts) = (handed r @ vs, en_header en')"
          using stream_units_append [OF xs(4)] xs(1) by simp
        then show ?thesis using r xs(1) e part
          by (intro conjI exI [of _ "e # ys"] exI [of _ zs] exI [of _ "xs # parts"] exI [of _ "handed r @ vs"]) auto
      qed
    qed
  qed
qed

section \<open>Every key picture can be begun with\<close>

text \<open>The parameter sets a decoder begins with: SPS and PPS of H.264, VPS, SPS and PPS of HEVC.\<close>

definition brings :: "u8 list \<Rightarrow> bool \<Rightarrow> bool" where
  "brings d hevc \<longleftrightarrow> (if hevc then {32, 33, 34} else {7, 8}) \<subseteq> set (nal_types d hevc)"

text \<open>
  What the documents of the transforms promise: data in Annex-B form, which begins with a start code; a sequence header with
  all parameter sets; and a key picture that brings an SPS brings all of them.
\<close>

fun answer_ok :: "bool \<Rightarrow> output_answer \<Rightarrow> bool" where
  "answer_ok hevc (OA_Err h (Inr hdr)) \<longleftrightarrow> brings hdr hevc"
| "answer_ok hevc (OA_Ok (Some s)) \<longleftrightarrow>
     (case os_data s of Inr d \<Rightarrow> starts_unit d \<and> (os_clean s \<and> have_params d hevc \<longrightarrow> brings d hevc) | Inl _ \<Rightarrow> True)"
| "answer_ok hevc a \<longleftrightarrow> True"

definition unit_ok :: "bool \<Rightarrow> u8 list set \<Rightarrow> encoded_unit \<Rightarrow> bool" where
  "unit_ok hevc ds u \<longleftrightarrow> (eu_keyframe u \<longrightarrow> brings (eu_data u) hevc) \<and> (\<not> eu_keyframe u \<longrightarrow> eu_data u \<in> ds) \<and>
     (\<exists>d h. d \<in> ds \<and> eu_data u = h @ d \<and> split_nals (eu_data u) = split_nals h @ split_nals d)"

lemma unit_ok_mono: "unit_ok hevc ds u \<Longrightarrow> ds \<subseteq> es \<Longrightarrow> unit_ok hevc es u"
  by (auto simp: unit_ok_def)

lemma picture_unit_ok:
  assumes "brings header hevc" "starts_unit d" "key \<and> have_params d hevc \<longrightarrow> brings d hevc"
  shows "unit_ok hevc {d} (picture_unit hevc header key d)"
proof -
  have "brings (header @ d) hevc" using assms(1) nal_types_append [OF assms(2), of header hevc] by (auto simp: brings_def split: if_splits)
  moreover have "split_nals (header @ d) = split_nals header @ split_nals d" by (rule split_nals_append [OF assms(2)])
  ultimately show ?thesis using assms(3) by (auto simp: unit_ok_def picture_unit_def intro: exI [of _ "[]"])
qed

lemma stream_units_ok:
  assumes "stream_units hevc header xs = (us, h)" "brings header hevc" "list_all (answer_ok hevc) xs"
  shows "brings h hevc \<and> (\<forall>u\<in>set us. unit_ok hevc (\<Union> (answer_data ` set xs)) u)"
  using assms
proof (induction xs arbitrary: header us)
  case (Cons a xs)
  have step: "brings h hevc \<and> (\<forall>u\<in>set us. unit_ok hevc (\<Union> (answer_data ` set (a # xs))) u)"
    if "stream_units hevc hd1 xs = (vs, h)" "brings hd1 hevc" "\<forall>u\<in>set us - set vs. unit_ok hevc (answer_data a) u" for hd1 vs
  proof -
    have "brings h hevc" "\<forall>u\<in>set vs. unit_ok hevc (\<Union> (answer_data ` set xs)) u"
      using Cons.IH [OF that(1,2)] Cons.prems(3) by simp_all
    moreover have "unit_ok hevc (\<Union> (answer_data ` set (a # xs))) u"
      if "unit_ok hevc (answer_data a) u \<or> unit_ok hevc (\<Union> (answer_data ` set xs)) u" for u
      using that by (auto elim!: unit_ok_mono)
    ultimately show ?thesis using that(3) by blast
  qed
  show ?case
  proof (cases "\<exists>s d. a = OA_Ok (Some s) \<and> os_data s = Inr d")
    case True
    then obtain s d where a: "a = OA_Ok (Some s)" "os_data s = Inr d" by blast
    obtain vs where vs: "stream_units hevc header xs = (vs, h)" "us = picture_unit hevc header (os_clean s) d # vs"
      using Cons.prems(1) a by (cases "stream_units hevc header xs") auto
    have "unit_ok hevc {d} (picture_unit hevc header (os_clean s) d)"
      using Cons.prems(2,3) a by (intro picture_unit_ok) auto
    then show ?thesis using step [OF vs(1) Cons.prems(2)] vs(2) a by auto
  next
    case False
    then obtain hd1 where "stream_units hevc hd1 xs = (us, h)" "brings hd1 hevc"
      using Cons.prems by (auto split: output_answer.splits option.splits sum.splits if_splits)
    then show ?thesis using step by simp
  qed
qed simp

text \<open>
  The answers a call has used: those of the output up to one that hands out nothing, or those that the
  events announced.
\<close>

definition consumed :: "encoder \<Rightarrow> media_answers \<Rightarrow> output_answer list \<Rightarrow> bool" where
  "consumed en an xs \<longleftrightarrow>
     (if en_async en
      then \<exists>ys zs parts. an_events an = ys @ zs \<and> list_all2 part_of parts ys \<and> xs = concat parts
      else (\<exists>rest. an_outputs an = xs @ rest) \<and> xs \<noteq> [] \<and> answer_data (last xs) = {})"

lemma apply_force_keeps [simp]:
  "en_cfg (apply_force en) = en_cfg en" "en_header (apply_force en) = en_header en" "en_async (apply_force en) = en_async en"
  "en_cfg (force_keyframe en) = en_cfg en" "en_header (force_keyframe en) = en_header en" "en_async (force_keyframe en) = en_async en"
  by (simp_all add: apply_force_def force_keyframe_def api_add_def)

lemma encode_reads:
  assumes "mf_encode en f force_key an = Returns (Inr us, en')"
  shows "hevc_of en' = hevc_of en \<and>
    (\<exists>xs. consumed en an xs \<and> stream_units (hevc_of en) (en_header en) xs = (us, en_header en'))"
proof -
  define en0 where "en0 = apply_force (if force_key then force_keyframe en else en)"
  have en0: "en_cfg en0 = en_cfg en" "en_header en0 = en_header en" "en_async en0 = en_async en" by (simp_all add: en0_def)
  obtain en1 where run: "run_transform en0 an = Some (Inr us, en1)" and en1: "en' = en1\<lparr>en_index := en_index en1 + 1\<rparr>"
    using assms
    by (auto simp: mf_encode_def encoder_encode_def en0_def split: if_splits option.splits prod.splits sum.splits)
  show ?thesis
  proof (cases "en_async en")
    case True
    then have "encode_async (an_refuse an) en0 False 0 [] (an_events an) = Some (Inr us, en1)"
      using run en0 by (simp add: run_transform_def)
    from async_reads [OF this] show ?thesis using True en0 en1 unfolding consumed_def by fastforce
  next
    case False
    then have "drain_output en0 (an_outputs an) [] = Some (Inr us, en1)"
      using run en0 by (auto simp: run_transform_def split: option.splits)
    from drain_reads [OF this] show ?thesis using False en0 en1 unfolding consumed_def by fastforce
  qed
qed

text \<open>
  C37. Whatever a call of \<open>encode\<close> returns, through the events of a hardware encoder or not, with changes of the
  stream in between or not: the units are exactly those of the answers it used, in order; a key picture without
  an SPS has in front of it the sequence header of the stream it belongs to, that is of the last change before it,
  or the one the encoder had; every other picture is passed on as it is; and the encoder ends with the last
  header. So if the encoder's header has all parameter sets and the transform hands out Annex-B data with headers that
  do, every key picture brings all parameter sets, no unit of a picture is cut or merged, and the encoder again has
  such a header.
\<close>

theorem keyframes_bring_parameters:
  assumes "mf_encode en f force_key an = Returns (Inr us, en')"
  shows "\<exists>xs. consumed en an xs \<and> stream_units (hevc_of en) (en_header en) xs = (us, en_header en') \<and>
    hevc_of en' = hevc_of en \<and>
    (brings (en_header en) (hevc_of en) \<and> list_all (answer_ok (hevc_of en)) xs \<longrightarrow>
      brings (en_header en') (hevc_of en) \<and> (\<forall>u\<in>set us. unit_ok (hevc_of en) (\<Union> (answer_data ` set xs)) u))"
  using encode_reads [OF assms] stream_units_ok by meson

lemma consumed_subset:
  assumes "consumed en an xs"
  shows "set xs \<subseteq> set (an_outputs an) \<union> (\<Union>e\<in>set (an_events an). case e of ME_HaveOutput ans \<Rightarrow> set ans | _ \<Rightarrow> {})"
proof -
  have "set (concat parts) \<subseteq> (\<Union>e\<in>set ys. case e of ME_HaveOutput ans \<Rightarrow> set ans | _ \<Rightarrow> {})" if "list_all2 part_of parts ys" for parts ys
    using that
  proof (induction rule: list_all2_induct)
    case (Cons p ps e es)
    have "set p \<subseteq> (case e of ME_HaveOutput ans \<Rightarrow> set ans | _ \<Rightarrow> {})" using Cons(1) by (auto simp: part_of_def split: media_event.splits)
    then show ?case using Cons(3) by auto
  qed simp
  then show ?thesis using assms by (fastforce simp: consumed_def split: if_splits)
qed

text \<open>A hardware encoder that hands out its picture without parameter sets, in its first call.\<close>

definition demo_header :: "u8 list" where "demo_header = [0, 0, 0, 1, 0x67, 1, 0, 0, 0, 1, 0x68, 2]"
definition demo_slice :: "u8 list" where "demo_slice = [0, 0, 0, 1, 0x65, 9]"

definition demo_encoder :: encoder where
  "demo_encoder =
     \<lparr>en_cfg = \<lparr>er_codec = H264, er_width = 2, er_height = 2, er_fps = 30, er_bitrate_kbps = 1000, er_hardware = True\<rparr>,
      en_name = [], en_hardware = True, en_async = True, en_types = ([], []), en_api = None, en_index = 0,
      en_frame_bytes = 6, en_buffer = 4, en_provides = True, en_header = demo_header, en_need = 0, en_force = True\<rparr>"

definition encoder_answers :: media_answers where
  "encoder_answers =
     \<lparr>an_sample = None, an_refuse = None, an_outputs = [],
      an_events = [ME_NeedInput, ME_Other, ME_HaveOutput [OA_Ok (Some \<lparr>os_data = Inr demo_slice, os_clean = True\<rparr>)]]\<rparr>"

lemma demo_parameters: "brings demo_header False" "\<not> have_params demo_slice False"
proof -
  have h: "demo_header = annexb_stream [(True, [0x67, 1]), (True, [0x68, 2])]"
    by (simp add: demo_header_def annexb_stream_def start_code_def)
  have "split_nals demo_header = [[0x67, 1], [0x68, 2]]"
    unfolding h by (subst split_stream) (simp_all add: clean_unit_def code_at_def upt_conv_Cons)
  then show "brings demo_header False"
    by (simp add: brings_def nal_types_def nal_type_def)
  have s: "demo_slice = annexb_stream [(True, [0x65, 9])]"
    by (simp add: demo_slice_def annexb_stream_def start_code_def)
  have "split_nals demo_slice = [[0x65, 9]]"
    unfolding s by (subst split_stream) (simp_all add: clean_unit_def code_at_def upt_conv_Cons)
  then show "\<not> have_params demo_slice False"
    by (simp add: have_params_def nal_types_def nal_type_def params_type_def)
qed

theorem keyframes_bring_parameters_witness:
  "\<exists>en'. mf_encode demo_encoder \<lparr>fr_width = 2, fr_height = 2, fr_data = replicate 6 0\<rparr> True encoder_answers =
      Returns (Inr [\<lparr>eu_data = demo_header @ demo_slice, eu_keyframe = True\<rparr>], en') \<and>
    brings (demo_header @ demo_slice) False \<and> en_header en' = demo_header"
proof -
  have run: "\<exists>en'. mf_encode demo_encoder \<lparr>fr_width = 2, fr_height = 2, fr_data = replicate 6 0\<rparr> True encoder_answers =
      Returns (Inr [\<lparr>eu_data = demo_header @ demo_slice, eu_keyframe = True\<rparr>], en')"
    using demo_parameters
    by (simp add: mf_encode_def encoder_encode_def run_transform_def encode_async.simps demo_encoder_def encoder_answers_def
        force_keyframe_def apply_force_def api_add_def extract_unit_def OUTPUT_TRIES_def IDLE_EVENTS_def eval_nat_numeral demo_header_def)
  then obtain en' where en': "mf_encode demo_encoder \<lparr>fr_width = 2, fr_height = 2, fr_data = replicate 6 0\<rparr> True encoder_answers =
      Returns (Inr [\<lparr>eu_data = demo_header @ demo_slice, eu_keyframe = True\<rparr>], en')" by blast
  have h: "hevc_of demo_encoder = False" "en_header demo_encoder = demo_header" by (simp_all add: demo_encoder_def)
  obtain xs where xs: "consumed demo_encoder encoder_answers xs"
      "brings (en_header demo_encoder) False \<and> list_all (answer_ok False) xs \<longrightarrow>
        (\<forall>u\<in>set [\<lparr>eu_data = demo_header @ demo_slice, eu_keyframe = True\<rparr>]. unit_ok False (\<Union> (answer_data ` set xs)) u)"
    using keyframes_bring_parameters [OF en'] unfolding h(1) by blast
  have "set xs \<subseteq> {OA_Ok (Some \<lparr>os_data = Inr demo_slice, os_clean = True\<rparr>)}"
    using consumed_subset [OF xs(1)] by (simp add: encoder_answers_def)
  then have "list_all (answer_ok False) xs" using demo_parameters by (auto simp: list_all_iff demo_slice_def starts_unit_def)
  then have "brings (demo_header @ demo_slice) False" using xs(2) demo_parameters(1) h(2) by (simp add: unit_ok_def)
  moreover have "en_header en' = demo_header"
    using en' demo_parameters
    by (auto simp: mf_encode_def encoder_encode_def run_transform_def encode_async.simps demo_encoder_def encoder_answers_def
        force_keyframe_def apply_force_def api_add_def extract_unit_def OUTPUT_TRIES_def IDLE_EVENTS_def eval_nat_numeral demo_header_def)
  ultimately show ?thesis using en' by blast
qed

text \<open>
  The code looks for the SPS only: a key picture with an SPS and no PPS is passed on without the header.
\<close>

lemma lone_sps_passes:
  "have_params d (hevc_of en) \<Longrightarrow> extract_unit en \<lparr>os_data = Inr d, os_clean = True\<rparr> = Inr \<lparr>eu_data = d, eu_keyframe = True\<rparr>"
  by (simp add: extract_unit_def)

section \<open>Waiting for a picture\<close>

text \<open>
  The comment of \<open>encode\<close> allows for an encoder that takes several pictures before it hands out the first
  one. A hardware encoder that asks for them is waited for without end: after its picture was taken the
  call returns only with an output, however often the encoder asks for more input.
\<close>

lemma async_waits: "list_all (\<lambda>e. e = ME_NeedInput) evs \<Longrightarrow> encode_async None en True idle out evs = None"
  by (induction evs arbitrary: en) (simp_all add: encode_async.simps)

lemma priming_never_returns:
  assumes "length (fr_data f) = en_frame_bytes en" "en_async en" "an_sample an = None" "an_refuse an = None"
    "en_need en = 0" "an_events an = ME_NeedInput # evs" "list_all (\<lambda>e. e = ME_NeedInput) evs"
  shows "mf_encode en f force_key an = Waits"
  using assms async_waits
  by (simp add: mf_encode_def encoder_encode_def run_transform_def encode_async.simps force_keyframe_def apply_force_def api_add_def)

end
