(* ===== verification/Pictures.thy ===== *)
theory Pictures
  imports Prelude
begin

text \<open>
  Pictures as bytes: the conversion of a BGRA picture to NV12 with scaling
  (\<open>crates/elevate/src/nv12.rs\<close>) and the colours of a cursor read off two drawings of it
  (\<open>render\<close> in \<open>crates/capture/src/cursor.rs\<close>).

  The sizes are at most \<open>MAX_DIMENSION\<close> where the code calls the conversion, so that no product wraps;
  \<open>i32\<close> values are \<^typ>\<open>int\<close>, and the arithmetic shift by eight is division by 256, rounded down.
\<close>

section \<open>BGRA to NV12\<close>

definition clamp_int :: "int \<Rightarrow> int \<Rightarrow> int \<Rightarrow> int" where
  "clamp_int x lo hi = max lo (min hi x)"

definition luma_of :: "int \<Rightarrow> int \<Rightarrow> int \<Rightarrow> u8" where
  "luma_of r g b = of_int (clamp_int ((47 * r + 157 * g + 16 * b + 128) div 256 + 16) 16 235)"

definition u_of :: "int \<Rightarrow> int \<Rightarrow> int \<Rightarrow> u8" where
  "u_of r g b = of_int (clamp_int ((- 26 * r - 87 * g + 112 * b + 128) div 256 + 128) 16 240)"

definition v_of :: "int \<Rightarrow> int \<Rightarrow> int \<Rightarrow> u8" where
  "v_of r g b = of_int (clamp_int ((112 * r - 102 * g - 10 * b + 128) div 256 + 128) 16 240)"

text \<open>The pixel of the source for a position of the result, as red, green and blue.\<close>

definition map_pos :: "nat \<Rightarrow> nat \<Rightarrow> nat \<Rightarrow> nat" where
  "map_pos x s d = min (x * s div d) (s - 1)"

definition pixel_at :: "u8 list \<Rightarrow> nat \<Rightarrow> int \<times> int \<times> int" where
  "pixel_at row x = (let p = take 4 (drop (x * 4) row) in (uint (p ! 2), uint (p ! 1), uint (p ! 0)))"

definition source_row :: "u8 list \<Rightarrow> nat \<Rightarrow> nat \<Rightarrow> u8 list" where
  "source_row src sw sy = take ((sy + 1) * sw * 4 - sy * sw * 4) (drop (sy * sw * 4) src)"

definition nv12_pixel :: "u8 list \<Rightarrow> nat \<Rightarrow> nat \<Rightarrow> nat \<Rightarrow> nat \<Rightarrow> u8 list \<times> u8 list \<Rightarrow> nat \<times> nat \<Rightarrow> u8 list \<times> u8 list" where
  "nv12_pixel src sw sh dw dh s p =
     (let (luma, chroma) = s; (y, x) = p;
          (r, g, b) = pixel_at (source_row src sw (map_pos y sh dh)) (map_pos x sw dw);
          luma' = luma[y * dw + x := luma_of r g b]
      in if even y \<and> even x
         then let ci = (y div 2) * dw + x
              in (luma', (chroma[ci := u_of r g b])[ci + 1 := v_of r g b])
         else (luma', chroma))"

definition bgra_to_nv12 :: "u8 list \<Rightarrow> nat \<Rightarrow> nat \<Rightarrow> nat \<Rightarrow> nat \<Rightarrow> u8 list option" where
  "bgra_to_nv12 src sw sh dw dh =
     (if sw = 0 \<or> sh = 0 \<or> dw = 0 \<or> dh = 0 \<or> odd dw \<or> odd dh \<or> length src < sw * sh * 4 then None
      else let (luma, chroma) = foldl (nv12_pixel src sw sh dw dh)
                 (replicate (dw * dh) 0, replicate (dw * dh * 3 div 2 - dw * dh) 0)
                 (concat (map (\<lambda>y. map (Pair y) [0..<dw]) [0..<dh]))
           in Some (luma @ chroma))"

section \<open>The result, position by position\<close>

definition source_pixel :: "u8 list \<Rightarrow> nat \<Rightarrow> nat \<Rightarrow> nat \<Rightarrow> nat \<Rightarrow> nat \<Rightarrow> nat \<Rightarrow> int \<times> int \<times> int" where
  "source_pixel src sw sh dw dh y x =
     (let o1 = (map_pos y sh dh * sw + map_pos x sw dw) * 4
      in (uint (src ! (o1 + 2)), uint (src ! (o1 + 1)), uint (src ! o1)))"

definition luma_at :: "u8 list \<Rightarrow> nat \<Rightarrow> nat \<Rightarrow> nat \<Rightarrow> nat \<Rightarrow> nat \<Rightarrow> u8" where
  "luma_at src sw sh dw dh i = (let (r, g, b) = source_pixel src sw sh dw dh (i div dw) (i mod dw) in luma_of r g b)"

definition chroma_at :: "u8 list \<Rightarrow> nat \<Rightarrow> nat \<Rightarrow> nat \<Rightarrow> nat \<Rightarrow> nat \<Rightarrow> u8" where
  "chroma_at src sw sh dw dh i =
     (let x = i mod dw; (r, g, b) = source_pixel src sw sh dw dh (2 * (i div dw)) (x - x mod 2)
      in if even x then u_of r g b else v_of r g b)"

lemma map_pos_less: "0 < s \<Longrightarrow> map_pos x s d < s"
  by (simp add: map_pos_def min_less_iff_disj)

lemma row_pixel:
  assumes "sx < sw" "sy < sh" "sw * sh * 4 \<le> length src"
  shows "pixel_at (source_row src sw sy) sx =
    (uint (src ! ((sy * sw + sx) * 4 + 2)), uint (src ! ((sy * sw + sx) * 4 + 1)), uint (src ! ((sy * sw + sx) * 4)))"
    and "(sy * sw + sx) * 4 + 3 < length src"
proof -
  have "(sy + 1) * sw \<le> sh * sw" using assms(2) by (intro mult_right_mono) auto
  then have b: "(sy * sw + sw) * 4 \<le> length src" using assms(3) by (simp add: algebra_simps)
  then show last: "(sy * sw + sx) * 4 + 3 < length src" using assms(1) by (simp add: algebra_simps)
  have w: "(sy + 1) * sw * 4 - sy * sw * 4 = sw * 4" by (simp add: algebra_simps)
  have n: "take 4 (drop (sx * 4) (source_row src sw sy)) ! k = src ! ((sy * sw + sx) * 4 + k)" if "k < 4" for k
  proof -
    have "sx * 4 + k < sw * 4" using that assms(1) by linarith
    then have "drop (sx * 4) (source_row src sw sy) ! k = src ! (sy * sw * 4 + (sx * 4 + k))"
      using b by (simp add: source_row_def w add_mult_distrib)
    then show ?thesis using that by (simp add: algebra_simps)
  qed
  from n [of 0] n [of 1] n [of 2]
  show "pixel_at (source_row src sw sy) sx =
    (uint (src ! ((sy * sw + sx) * 4 + 2)), uint (src ! ((sy * sw + sx) * 4 + 1)), uint (src ! ((sy * sw + sx) * 4)))"
    by (simp add: pixel_at_def Let_def)
qed

text \<open>Writes whose value is a function of the place written.\<close>

lemma length_writes: "length (foldl (\<lambda>l j. l[j := F j]) l js) = length l"
  by (induction js rule: rev_induct) auto

lemma fold_writes:
  assumes "i < length l"
  shows "foldl (\<lambda>l j. l[j := F j]) l js ! i = (if i \<in> set js then F i else l ! i)"
  using assms
proof (induction js rule: rev_induct)
  case (snoc j js)
  then show ?case by (cases "j = i") (auto simp: length_writes)
qed simp

lemma writes_all:
  assumes "{0..<length l} \<subseteq> set js"
  shows "foldl (\<lambda>l j. l[j := F j]) l js = map F [0..<length l]"
  using assms by (intro nth_equalityI) (auto simp: length_writes fold_writes subset_iff)

definition chroma_places :: "nat \<Rightarrow> nat \<times> nat \<Rightarrow> nat list" where
  "chroma_places dw p = (case p of (y, x) \<Rightarrow>
     if even y \<and> even x then [(y div 2) * dw + x, (y div 2) * dw + x + 1] else [])"

lemma place:
  fixes y x dw :: nat
  assumes "x < dw"
  shows "(y * dw + x) div dw = y" "(y * dw + x) mod dw = x"
  using assms by simp_all

lemma one_pixel:
  assumes sizes: "0 < sw" "0 < sh" "even dw" "sw * sh * 4 \<le> length src" and "x < dw"
  shows "nv12_pixel src sw sh dw dh (l, c) (y, x) =
    (l[y * dw + x := luma_at src sw sh dw dh (y * dw + x)],
     foldl (\<lambda>c j. c[j := chroma_at src sw sh dw dh j]) c (chroma_places dw (y, x)))"
proof -
  have px: "pixel_at (source_row src sw (map_pos y sh dh)) (map_pos x sw dw) = source_pixel src sw sh dw dh y x"
    using row_pixel(1) [OF map_pos_less [OF sizes(1)] map_pos_less [OF sizes(2)] sizes(4)]
    by (simp add: source_pixel_def Let_def)
  obtain r g b where rgb: "source_pixel src sw sh dw dh y x = (r, g, b)" by (cases "source_pixel src sw sh dw dh y x")
  have l: "luma_at src sw sh dw dh (y * dw + x) = luma_of r g b"
    using place [OF assms(5), of y] rgb by (simp add: luma_at_def)
  show ?thesis
  proof (cases "even y \<and> even x")
    case True
    then have x1: "x + 1 < dw" using assms(5) sizes(3) by (metis Suc_eq_plus1 Suc_lessI even_Suc)
    have e: "2 * (y div 2) = y" "x mod 2 = 0" "Suc x mod 2 = 1" using True by (auto simp: mod_2_eq_odd)
    have "chroma_at src sw sh dw dh ((y div 2) * dw + x) = u_of r g b"
      using place [OF assms(5), of "y div 2"] rgb True e by (simp add: chroma_at_def)
    moreover have "chroma_at src sw sh dw dh ((y div 2) * dw + x + 1) = v_of r g b"
      using place [OF x1, of "y div 2"] rgb True e by (simp add: chroma_at_def add.assoc)
    ultimately show ?thesis using True px rgb l by (simp add: nv12_pixel_def chroma_places_def Let_def)
  next
    case False
    then show ?thesis using px rgb l by (auto simp: nv12_pixel_def chroma_places_def Let_def)
  qed
qed

lemma all_pixels:
  assumes sizes: "0 < sw" "0 < sh" "even dw" "sw * sh * 4 \<le> length src" and "\<forall>(y, x)\<in>set ps. x < dw"
  shows "foldl (nv12_pixel src sw sh dw dh) (l, c) ps =
    (foldl (\<lambda>l j. l[j := luma_at src sw sh dw dh j]) l (map (\<lambda>(y, x). y * dw + x) ps),
     foldl (\<lambda>c j. c[j := chroma_at src sw sh dw dh j]) c (concat (map (chroma_places dw) ps)))"
  using assms(5)
proof (induction ps arbitrary: l c)
  case (Cons p ps)
  obtain y x where p: "p = (y, x)" by force
  then show ?case using Cons one_pixel [OF sizes, where x = x and y = y and dh = dh and l = l and c = c] by (simp add: p)
qed simp

lemma nv12_result:
  "bgra_to_nv12 src sw sh dw dh =
     (if 0 < sw \<and> 0 < sh \<and> 0 < dw \<and> 0 < dh \<and> even dw \<and> even dh \<and> sw * sh * 4 \<le> length src
      then Some (map (luma_at src sw sh dw dh) [0..<dw * dh] @ map (chroma_at src sw sh dw dh) [0..<dw * dh div 2])
      else None)"
proof (cases "0 < sw \<and> 0 < sh \<and> 0 < dw \<and> 0 < dh \<and> even dw \<and> even dh \<and> sw * sh * 4 \<le> length src")
  case True
  let ?ps = "concat (map (\<lambda>y. map (Pair y) [0..<dw]) [0..<dh])"
  have ps: "\<forall>(y, x)\<in>set ?ps. x < dw" by auto
  have half: "dw * dh * 3 div 2 - dw * dh = dw * dh div 2" using True by (elim conjE evenE) simp
  have "{0..<dw * dh} \<subseteq> set (map (\<lambda>(y, x). y * dw + x) ?ps)"
  proof
    fix i assume "i \<in> {0..<dw * dh}"
    then have "i div dw < dh" "i mod dw < dw" "i = i div dw * dw + i mod dw"
      using True by (auto simp: less_mult_imp_div_less mult.commute)
    then have "(i div dw, i mod dw) \<in> set ?ps" by (force simp: image_iff)
    then show "i \<in> set (map (\<lambda>(y, x). y * dw + x) ?ps)" by (force simp: image_iff)
  qed
  moreover have "{0..<dw * dh div 2} \<subseteq> set (concat (map (chroma_places dw) ?ps))"
  proof
    fix i assume i: "i \<in> {0..<dw * dh div 2}"
    let ?y = "2 * (i div dw)" and ?x = "i mod dw - i mod dw mod 2"
    have "i div dw < dh div 2"
      using i True by (intro less_mult_imp_div_less) (auto elim!: evenE simp: algebra_simps)
    then have y: "?y < dh" by linarith
    have x: "?x < dw" using True by (meson diff_le_self le_less_trans mod_less_divisor)
    have ev: "even ?x" by (simp add: minus_mod_eq_mult_div)
    have "i = i div dw * dw + i mod dw" by simp
    moreover have "i mod dw = ?x \<or> i mod dw = ?x + 1" by (cases "even (i mod dw)") (auto simp: odd_pos)
    ultimately have "i \<in> set (chroma_places dw (?y, ?x))" using ev by (auto simp: chroma_places_def)
    moreover have "(?y, ?x) \<in> set ?ps" using x y by (force simp: image_iff)
    ultimately show "i \<in> set (concat (map (chroma_places dw) ?ps))" by (force simp: image_iff)
  qed
  ultimately show ?thesis
    using True all_pixels [of sw sh dw src ?ps dh] ps
    by (simp add: bgra_to_nv12_def half writes_all)
qed (auto simp: bgra_to_nv12_def)

text \<open>
  C38. The conversion, with its two loops and its writes by index, is the picture given position by position:
  the luminance of the nearest source pixel for every place, then for every second place of every second
  line the two colour values of its pixel. It answers exactly for sizes that are positive and even and a
  source that is long enough; it never reads outside the source; all values are in the range of the format.
\<close>

theorem nv12_is_pointwise:
  "bgra_to_nv12 src sw sh dw dh =
     (if 0 < sw \<and> 0 < sh \<and> 0 < dw \<and> 0 < dh \<and> even dw \<and> even dh \<and> sw * sh * 4 \<le> length src
      then Some (map (luma_at src sw sh dw dh) [0..<dw * dh] @ map (chroma_at src sw sh dw dh) [0..<dw * dh div 2])
      else None)"
  by (rule nv12_result)

lemma byte_range:
  assumes "0 \<le> lo" "lo \<le> hi" "hi < 256"
  shows "lo \<le> int (unat (of_int (clamp_int x lo hi) :: u8)) \<and> int (unat (of_int (clamp_int x lo hi) :: u8)) \<le> hi"
proof -
  have c: "lo \<le> clamp_int x lo hi" "clamp_int x lo hi \<le> hi" using assms(2) by (auto simp: clamp_int_def)
  then have "int (unat (of_int (clamp_int x lo hi) :: u8)) = clamp_int x lo hi"
    using assms by (simp add: uint_word_of_int_eq take_bit_int_eq_self)
  then show ?thesis using c by simp
qed

lemma values_in_range:
  "16 \<le> unat (luma_at src sw sh dw dh i) \<and> unat (luma_at src sw sh dw dh i) \<le> 235"
  "16 \<le> unat (chroma_at src sw sh dw dh i) \<and> unat (chroma_at src sw sh dw dh i) \<le> 240"
proof -
  have l: "16 \<le> int (unat (luma_of r g b)) \<and> int (unat (luma_of r g b)) \<le> 235" for r g b
    unfolding luma_of_def by (rule byte_range) simp_all
  have u: "16 \<le> int (unat (u_of r g b)) \<and> int (unat (u_of r g b)) \<le> 240" for r g b
    unfolding u_of_def by (rule byte_range) simp_all
  have v: "16 \<le> int (unat (v_of r g b)) \<and> int (unat (v_of r g b)) \<le> 240" for r g b
    unfolding v_of_def by (rule byte_range) simp_all
  have le: "16 \<le> unat w \<and> unat w \<le> k" if "16 \<le> int (unat w) \<and> int (unat w) \<le> int k" for w :: u8 and k
    using that by linarith
  show "16 \<le> unat (luma_at src sw sh dw dh i) \<and> unat (luma_at src sw sh dw dh i) \<le> 235"
    using le [of _ 235] l by (auto simp: luma_at_def Let_def split: prod.split simp del: of_nat_le_iff)
  show "16 \<le> unat (chroma_at src sw sh dw dh i) \<and> unat (chroma_at src sw sh dw dh i) \<le> 240"
    using le [of _ 240] u v by (auto simp: chroma_at_def Let_def split: prod.split)
qed

section \<open>The colours of a cursor\<close>

text \<open>
  The cursor drawn on black and on white; its opacity is what the two drawings do not differ by. The bytes
  are blue, green, red, and the result is red, green, blue and opacity.
\<close>

definition sat_diff :: "u8 \<Rightarrow> u8 \<Rightarrow> nat" where
  "sat_diff white black = unat white - unat black"

definition alpha_of :: "u8 list \<Rightarrow> u8 list \<Rightarrow> nat" where
  "alpha_of black white =
     255 - min (Max {sat_diff (white ! 0) (black ! 0), sat_diff (white ! 1) (black ! 1), sat_diff (white ! 2) (black ! 2)}) 255"

definition unmultiply :: "u8 \<Rightarrow> nat \<Rightarrow> u8" where
  "unmultiply c a = of_nat (min (unat c * 255 div a) 255)"

definition cursor_pixel :: "u8 list \<Rightarrow> u8 list \<Rightarrow> u8 list" where
  "cursor_pixel black white =
     (let a = alpha_of black white
      in if a = 0 then [0, 0, 0, 0]
         else [unmultiply (black ! 2) a, unmultiply (black ! 1) a, unmultiply (black ! 0) a, of_nat a])"

definition cursor_rgba :: "nat \<Rightarrow> nat \<Rightarrow> u8 list \<Rightarrow> u8 list \<Rightarrow> u8 list" where
  "cursor_rgba w h on_black on_white =
     concat (map (\<lambda>i. cursor_pixel (take 4 (drop (i * 4) on_black)) (take 4 (drop (i * 4) on_white))) [0..<w * h])"

lemma length_cursor_rgba: "length (cursor_rgba w h on_black on_white) = w * h * 4"
proof -
  have "length (cursor_pixel b c) = 4" for b c by (simp add: cursor_pixel_def Let_def)
  then show ?thesis by (simp add: cursor_rgba_def length_concat comp_def sum_list_triv)
qed

lemma alpha_le: "alpha_of black white \<le> 255"
  by (simp add: alpha_of_def)

text \<open>
  Drawn on black again, a colour that is not brighter than its opacity comes out as it was, up to the one
  step the division loses; a brighter one (only a cursor that inverts has that) is cut to full.
\<close>

lemma unmultiply_back:
  assumes "0 < a" "a \<le> 255" "unat c \<le> a"
  shows "unat (unmultiply c a) * a \<le> unat c * 255 \<and> unat c * 255 < (unat (unmultiply c a) + 1) * a"
proof -
  have "unat c * 255 div a \<le> a * 255 div a" using assms(3) by (intro div_le_mono) simp
  then have le: "unat c * 255 div a \<le> 255" using assms(1) by simp
  then have "unat (unmultiply c a) = unat c * 255 div a"
    by (simp add: unmultiply_def unat_of_nat_small)
  then show ?thesis using assms(1) dividend_less_div_times [of a "unat c * 255"] by (simp add: algebra_simps)
qed

end
