(* ===== verification/Elevation.thy ===== *)
theory Elevation
  imports Broker Injector Pictures
begin

text \<open>
  Elevated control from one end to the other: the client of the service inside the desktop application
  (\<open>crates/session/src/elevation.rs\<close>), the service (\<open>Broker.thy\<close>) and the agent it starts
  (\<open>crates/service/src/agent.rs\<close>, with the desktop it follows in \<open>desktop.rs\<close>).

  The two pipes of a session are the service's two connections, \<open>None\<close> once closed. A message the client
  writes is handled by the service before the client reads on; what others do at the service in between
  is the argument \<open>meanwhile\<close>.
\<close>

section \<open>Opening and beginning\<close>

text \<open>
  Where opening and beginning fail. The last one says what the failure leaves behind: the thread for the
  service's answers runs already, and keeps the input pipe open.
\<close>

datatype elevation_error =
    EE_Connect | EE_Refused service_to_ui | EE_NotGranted service_to_ui | EE_NotAttached service_to_ui | EE_Pipe
  | EE_Thread | EE_Heartbeat "ui_conn option"

text \<open>\<open>op_connect\<close>: the pipe opens in time; \<open>op_admitted\<close>: the service's caller check.\<close>

record open_answer =
  op_connect :: bool
  op_admitted :: bool
  op_version :: rstr

definition fresh_conn :: "u32 \<Rightarrow> ui_conn" where
  "fresh_conn pid = \<lparr>uc_pid = pid, uc_token = None, uc_owner = False\<rparr>"

definition elevation_open :: "open_answer \<Rightarrow> u32 \<Rightarrow> elevation_error + ui_conn" where
  "elevation_open o1 pid =
     (if \<not> op_connect o1 then Inl EE_Connect
      else if \<not> op_admitted o1 then Inl (EE_Refused (T_Denied NotAuthorized))
      else case client_hello (op_version o1) (U_Hello ELEVATE_VERSION) of
             Answer (Some (T_Welcome _ _)) \<Rightarrow> Inr (fresh_conn pid)
           | Answer (Some r) \<Rightarrow> Inl (EE_Refused r)
           | _ \<Rightarrow> Inl EE_Pipe)"

definition elevation_available :: "open_answer \<Rightarrow> u32 \<Rightarrow> bool" where
  "elevation_available o1 pid = (case elevation_open o1 pid of Inr _ \<Rightarrow> True | Inl _ \<Rightarrow> False)"

record elevated =
  el_input :: "ui_conn option"
  el_video :: "ui_conn option"
  el_alive :: bool

text \<open>An answer to a request; a connection the service closed is gone there as well.\<close>

definition ask :: "broker \<Rightarrow> ui_conn \<Rightarrow> ui_to_service \<Rightarrow> surroundings \<Rightarrow>
    service_to_ui option option \<times> ui_conn option \<times> broker" where
  "ask b c m e =
     (case client_request b c m e of
        (Answer r, c1, b1) \<Rightarrow> (Some r, Some c1, b1)
      | (Close_conn, c1, b1) \<Rightarrow> (None, None, client_closed b1 c1))"

definition hang_up :: "broker \<Rightarrow> ui_conn option \<Rightarrow> broker" where
  "hang_up b c = (case c of Some c1 \<Rightarrow> client_closed b c1 | None \<Rightarrow> b)"

text \<open>
  What the system answers while control begins: whether each message can be written and each answer read,
  whether the input pipe's handle can be duplicated, and whether the two threads start.
\<close>

record begin_io =
  bi_grant_write :: bool
  bi_grant_read :: bool
  bi_attach_write :: bool
  bi_attach_read :: bool
  bi_clone :: bool
  bi_events :: bool
  bi_heartbeat :: bool

text \<open>
  The last part: the two threads. The first takes the input pipe; when the second does not start, the first
  has it still, while the duplicate and the picture channel are closed.
\<close>

definition elevation_threads ::
  "broker \<Rightarrow> ui_conn option \<Rightarrow> ui_conn option \<Rightarrow> begin_io \<Rightarrow> (elevation_error + elevated) \<times> broker" where
  "elevation_threads b inp vid io =
     (if \<not> bi_clone io then (Inl EE_Pipe, hang_up (hang_up b vid) inp)
      else if \<not> bi_events io then (Inl EE_Thread, hang_up (hang_up b vid) inp)
      else if \<not> bi_heartbeat io then (Inl (EE_Heartbeat inp), hang_up b vid)
      else (Inr \<lparr>el_input = inp, el_video = vid, el_alive = True\<rparr>, b))"

text \<open>The second half: the picture channel. When it fails both pipes are closed.\<close>

definition elevation_attach ::
  "broker \<Rightarrow> ui_conn option \<Rightarrow> token \<Rightarrow> open_answer \<Rightarrow> surroundings \<Rightarrow> begin_io \<Rightarrow> u32 \<Rightarrow>
    (elevation_error + elevated) \<times> broker" where
  "elevation_attach b inp t o2 e2 io pid =
     (case elevation_open o2 pid of
        Inl err \<Rightarrow> (Inl err, hang_up b inp)
      | Inr c2 \<Rightarrow>
          if \<not> bi_attach_write io then (Inl EE_Pipe, hang_up (hang_up b (Some c2)) inp)
          else (case ask b c2 (U_Attach t Role_Video) e2 of
            (x, vid, b1) \<Rightarrow>
              if \<not> bi_attach_read io then (Inl EE_Pipe, hang_up (hang_up b1 vid) inp)
              else (case x of
                      Some (Some T_Attached) \<Rightarrow> elevation_threads b1 inp vid io
                    | Some (Some r) \<Rightarrow> (Inl (EE_NotAttached r), hang_up (hang_up b1 vid) inp)
                    | _ \<Rightarrow> (Inl EE_Pipe, hang_up (hang_up b1 vid) inp))))"

definition elevation_begin ::
  "broker \<Rightarrow> open_answer \<Rightarrow> surroundings \<Rightarrow> (broker \<Rightarrow> broker) \<Rightarrow> open_answer \<Rightarrow> surroundings \<Rightarrow> begin_io \<Rightarrow> u32 \<Rightarrow>
    rstr \<Rightarrow> (elevation_error + elevated) \<times> broker" where
  "elevation_begin b o1 e1 meanwhile o2 e2 io pid label =
     (case elevation_open o1 pid of
        Inl err \<Rightarrow> (Inl err, b)
      | Inr c1 \<Rightarrow>
          if \<not> bi_grant_write io then (Inl EE_Pipe, hang_up b (Some c1))
          else (case ask b c1 (U_Grant (take 64 label)) e1 of
            (x, inp, b1) \<Rightarrow>
              if \<not> bi_grant_read io then (Inl EE_Pipe, hang_up b1 inp)
              else (case x of
                      Some (Some (T_Granted t)) \<Rightarrow> elevation_attach (meanwhile b1) inp t o2 e2 io pid
                    | Some (Some r) \<Rightarrow> (Inl (EE_NotGranted r), hang_up b1 inp)
                    | _ \<Rightarrow> (Inl EE_Pipe, hang_up b1 inp))))"

section \<open>During a session\<close>

text \<open>
  What comes back on the input pipe is read by a thread of its own: a refusal or the end of the grant,
  like a closed pipe, ends the session.
\<close>

definition still_alive :: "service_to_ui option option \<Rightarrow> bool" where
  "still_alive r = (case r of
     None \<Rightarrow> False
   | Some (Some (T_Denied _)) \<Rightarrow> False
   | Some (Some T_Revoked) \<Rightarrow> False
   | Some _ \<Rightarrow> True)"

definition send_input :: "elevated \<Rightarrow> broker \<Rightarrow> ui_to_service \<Rightarrow> surroundings \<Rightarrow> elevated \<times> broker" where
  "send_input el b m e =
     (case el_input el of
        None \<Rightarrow> (el\<lparr>el_alive := False\<rparr>, b)
      | Some c \<Rightarrow>
          (case ask b c m e of
             (r, c1, b1) \<Rightarrow> (el\<lparr>el_input := c1, el_alive := el_alive el \<and> still_alive r\<rparr>, b1)))"

definition elevated_apply :: "elevated \<Rightarrow> broker \<Rightarrow> input_event \<Rightarrow> display_info \<Rightarrow> surroundings \<Rightarrow> elevated \<times> broker" where
  "elevated_apply el b ev d e = send_input el b (U_Input ev d) e"

definition pipe_heartbeat :: "elevated \<Rightarrow> broker \<Rightarrow> surroundings \<Rightarrow> elevated \<times> broker" where
  "pipe_heartbeat el b e = (if el_alive el then send_input el b U_Heartbeat e else (el, b))"

definition guard_drop :: "elevated \<Rightarrow> broker \<Rightarrow> surroundings \<Rightarrow> elevated \<times> broker" where
  "guard_drop el b e = send_input (el\<lparr>el_alive := False\<rparr>) b U_Revoke e"

definition ask_video :: "elevated \<Rightarrow> broker \<Rightarrow> ui_to_service \<Rightarrow> surroundings \<Rightarrow>
    service_to_ui option option \<times> elevated \<times> broker" where
  "ask_video el b m e =
     (case el_video el of
        None \<Rightarrow> (None, el, b)
      | Some c \<Rightarrow> (case ask b c m e of (r, c1, b1) \<Rightarrow> (r, el\<lparr>el_video := c1\<rparr>, b1)))"

text \<open>Only a request that could not be written ends the session here; a closed pipe is found by the next one.\<close>

definition secure_desktop :: "elevated \<Rightarrow> broker \<Rightarrow> surroundings \<Rightarrow> bool \<times> elevated \<times> broker" where
  "secure_desktop el b e =
     (if el_video el = None then (False, el\<lparr>el_alive := False\<rparr>, b)
      else case ask_video el b U_Status e of
        (r, el1, b1) \<Rightarrow> ((case r of Some (Some (T_Status s _)) \<Rightarrow> s | _ \<Rightarrow> False), el1, b1))"

record elevated_picture =
  ep_width :: u32
  ep_height :: u32
  ep_data :: "u8 list"
  ep_pointer :: "(i32 \<times> i32 \<times> bool) option"

definition picture_of :: "display_info \<Rightarrow> picture \<Rightarrow> elevated_picture" where
  "picture_of d p =
     \<lparr>ep_width = pic_width p, ep_height = pic_height p, ep_data = pic_nv12 p,
      ep_pointer = map_option (\<lambda>(x, y, v). (x - d_x d, y - d_y d, v)) (pic_pointer p)\<rparr>"

definition elevated_capture :: "elevated \<Rightarrow> broker \<Rightarrow> display_info \<Rightarrow> u32 \<Rightarrow> u32 \<Rightarrow> surroundings \<Rightarrow>
    elevated_picture option \<times> elevated \<times> broker" where
  "elevated_capture el b d out_w out_h e =
     (case ask_video el b (U_Capture d out_w out_h) e of
        (r, el1, b1) \<Rightarrow> ((case r of Some (Some (T_Picture p)) \<Rightarrow> Some (picture_of d p) | _ \<Rightarrow> None), el1, b1))"

section \<open>The agent\<close>

text \<open>The name of the desktop the thread is attached to; \<open>None\<close>: it could not be followed.\<close>

definition follow_input_desktop :: "rstr \<Rightarrow> rstr option \<Rightarrow> rstr" where
  "follow_input_desktop name now = (case now of Some n \<Rightarrow> n | None \<Rightarrow> name)"

definition is_secure :: "rstr \<Rightarrow> bool" where
  "is_secure name \<longleftrightarrow> name \<noteq> [] \<and> map ascii_lower name \<noteq> lit ''default''"

record agent_input =
  ai_desk :: rstr
  ai_injector :: injector
  ai_done :: bool

definition agent_input_new :: agent_input where
  "agent_input_new = \<lparr>ai_desk = [], ai_injector = injector_new, ai_done = False\<rparr>"

text \<open>
  One turn of the input loop: the desktop it finds, the screen it finds, and what it reads (\<open>None\<close>: the
  pipe is closed). What it injects and what it answers.
\<close>

definition agent_input_step :: "agent_input \<Rightarrow> rstr option \<Rightarrow> virtual_screen \<Rightarrow> service_to_agent option \<Rightarrow>
    os_input list \<times> agent_to_service option \<times> agent_input" where
  "agent_input_step a desk v m =
     (case m of
        Some (G_Inject ev d) \<Rightarrow>
          (let (rs, i) = inj_build (ai_injector a) ev d v
           in (rs, None, a\<lparr>ai_desk := follow_input_desktop (ai_desk a) desk, ai_injector := i\<rparr>))
      | Some G_Status \<Rightarrow>
          (let n = follow_input_desktop (ai_desk a) desk
           in ([], Some (A_Status (is_secure n)), a\<lparr>ai_desk := n\<rparr>))
      | Some (G_Capture _ _ _) \<Rightarrow> ([], None, a)
      | _ \<Rightarrow> (let (rs, i) = release_records (ai_injector a) in (rs, None, a\<lparr>ai_injector := i, ai_done := True\<rparr>)))"

text \<open>The loop over what it reads, until it returns.\<close>

fun agent_input_run :: "agent_input \<Rightarrow> (rstr option \<times> virtual_screen \<times> service_to_agent option) list \<Rightarrow>
    os_input list \<times> agent_input" where
  "agent_input_run a [] = ([], a)"
| "agent_input_run a ((desk, v, m) # ms) =
     (if ai_done a then ([], a)
      else let (rs, _, a1) = agent_input_step a desk v m; (rs', a2) = agent_input_run a1 ms in (rs @ rs', a2))"

text \<open>The picture loop; \<open>pic\<close> is the outcome of the capture, \<open>wrote\<close> whether the answer could be written.\<close>

definition agent_video_step :: "rstr \<Rightarrow> rstr option \<Rightarrow> service_to_agent option \<Rightarrow> picture option \<Rightarrow> bool \<Rightarrow>
    agent_to_service option \<times> rstr \<times> bool" where
  "agent_video_step name desk m pic wrote =
     (case m of
        Some (G_Capture _ _ _) \<Rightarrow>
          (Some (case pic of Some p \<Rightarrow> A_Picture p | None \<Rightarrow> A_NoPicture), follow_input_desktop name desk, \<not> wrote)
      | Some G_Status \<Rightarrow>
          (let n = follow_input_desktop name desk in (Some (A_Status (is_secure n)), n, \<not> wrote))
      | Some (G_Inject _ _) \<Rightarrow> (None, name, False)
      | _ \<Rightarrow> (None, name, True))"

text \<open>
  The picture of a display: what was copied of the screen (\<open>None\<close>: that failed), converted to the size asked
  for, with the pointer.
\<close>

definition desktop_capture :: "display_info \<Rightarrow> u32 \<Rightarrow> u32 \<Rightarrow> u8 list option \<Rightarrow> (i32 \<times> i32 \<times> bool) option \<Rightarrow> picture option" where
  "desktop_capture d out_w out_h copied ptr =
     (if d_width d = 0 \<or> d_height d = 0 \<or> d_width d > MAX_DIMENSION \<or> d_height d > MAX_DIMENSION then None
      else case copied of
        None \<Rightarrow> None
      | Some bgra \<Rightarrow>
          (case bgra_to_nv12 bgra (unat (d_width d)) (unat (d_height d)) (unat out_w) (unat out_h) of
             None \<Rightarrow> None
           | Some nv12 \<Rightarrow> Some \<lparr>pic_width = out_w, pic_height = out_h, pic_nv12 = nv12, pic_pointer = ptr\<rparr>))"

section \<open>Starting the agent\<close>

text \<open>
  What the service finds when it starts an agent: whether both pipes could be made, the process that was
  started, whether it connected to both in time, and for each pipe the process at its other end and the
  first message from it.
\<close>

record start_answers =
  sa_pipes :: bool
  sa_spawn :: "u32 option"
  sa_connected :: bool
  sa_input :: "u32 option \<times> agent_to_service option"
  sa_video :: "u32 option \<times> agent_to_service option"

definition is_our_agent :: "u32 \<Rightarrow> u32 option \<times> agent_to_service option \<Rightarrow> conn_role \<Rightarrow> bool" where
  "is_our_agent child x role \<longleftrightarrow> fst x = Some child \<and> snd x = Some (A_Ready child role)"

text \<open>The agent, if it is accepted, and the process that is killed, if it is not.\<close>

definition start_agent :: "start_answers \<Rightarrow> u32 option \<times> u32 option" where
  "start_agent s =
     (if \<not> sa_pipes s then (None, None)
      else case sa_spawn s of
        None \<Rightarrow> (None, None)
      | Some child \<Rightarrow>
          if \<not> sa_connected s then (None, Some child)
          else if is_our_agent child (sa_input s) Role_Input \<and> is_our_agent child (sa_video s) Role_Video
          then (Some child, None)
          else (None, Some child))"

end
