(* ===== verification/Elevation_Props.thy ===== *)
theory Elevation_Props
  imports Elevation
begin

text \<open>
  Beginning elevated control gives both pipes the one live grant or leaves nothing of it behind, unless only the heartbeat
  thread fails to start, which leaves a grant that the watchdog has to end; and what
  is applied in an elevated session is what the agent injects, with nothing held afterwards if the agent
  comes to read its shutdown.
\<close>

section \<open>Beginning\<close>

lemma open_Inr: "elevation_open o1 pid = Inr c \<Longrightarrow> c = fresh_conn pid"
  by (auto simp: elevation_open_def split: if_splits client_result.splits option.splits service_to_ui.splits)

lemma fresh_conn_simps [simp]: "uc_pid (fresh_conn pid) = pid" "uc_token (fresh_conn pid) = None" "\<not> uc_owner (fresh_conn pid)"
  by (simp_all add: fresh_conn_def)

definition held_by :: "broker \<Rightarrow> u32 \<Rightarrow> bool" where
  "held_by b pid \<longleftrightarrow> (\<exists>g. br_grant b = Some g \<and> gr_owner_pid g = pid)"

lemma grant_ended: "br_grant (end_grant b) = None"
  by (simp add: end_grant_def agent_shutdown_def agent_write_def Let_def split: option.split)

lemma closed_owner: "uc_owner c \<Longrightarrow> \<not> held_by (client_closed b c) (uc_pid c)"
  by (auto simp: client_closed_def owner_gone_def held_by_def grant_ended split: option.split)

lemma closed_keeps: "\<not> held_by b pid \<Longrightarrow> \<not> held_by (client_closed b c) pid"
  by (auto simp: client_closed_def owner_gone_def held_by_def grant_ended split: option.split)

text \<open>What a request for the grant leaves behind.\<close>

lemma ask_grant:
  assumes "ask b (fresh_conn pid) (U_Grant label) e = (r, inp, b1)"
  shows "(\<exists>c. inp = Some c \<and> r = Some (Some (T_Granted (su_token e))) \<and> uc_owner c \<and> uc_pid c = pid \<and>
      uc_token c = Some (su_token e)) \<or>
    (\<forall>t. r \<noteq> Some (Some (T_Granted t))) \<and> br_grant b1 = br_grant b \<and> (\<forall>c. inp = Some c \<longrightarrow> \<not> uc_owner c)"
  using assms
  by (auto simp: ask_def client_request_def broker_grant_def grant_commit_def client_closed_def agent_shutdown_def
      agent_write_def Let_def split: sum.splits if_splits option.splits prod.splits)

lemma ask_attach:
  assumes "ask b (fresh_conn pid) (U_Attach t role) e = (r, vid, b1)"
  shows "b1 = b \<and> (r = Some (Some T_Attached) \<longrightarrow>
      (\<exists>g. br_grant b = Some g \<and> gr_token g = t \<and> gr_owner_pid g = pid) \<and>
      (\<exists>c. vid = Some c \<and> uc_token c = Some t \<and> uc_pid c = pid)) \<and> (\<forall>c. vid = Some c \<longrightarrow> \<not> uc_owner c)"
  using assms
  by (auto simp: ask_def client_request_def broker_attach_def current_def client_closed_def
      split: sum.splits if_splits option.splits)

lemma closed_other: "\<not> uc_owner c \<Longrightarrow> client_closed b c = b"
  by (simp add: client_closed_def)

text \<open>Both pipes hold the live grant, with this token, of this process.\<close>

definition begun :: "elevated \<Rightarrow> broker \<Rightarrow> token \<Rightarrow> u32 \<Rightarrow> bool" where
  "begun el b t pid \<longleftrightarrow> (\<exists>g c v. br_grant b = Some g \<and> gr_token g = t \<and> gr_owner_pid g = pid \<and>
     el_input el = Some c \<and> uc_token c = Some (gr_token g) \<and> uc_pid c = pid \<and>
     el_video el = Some v \<and> uc_token v = Some (gr_token g) \<and> uc_pid v = pid \<and> el_alive el)"

text \<open>
  What is left when the heartbeat thread did not start: the grant is live, and the input pipe that owns it is
  open; the service's watchdog ends it when its last heartbeat is long enough ago.
\<close>

definition left_over :: "ui_conn option \<Rightarrow> broker \<Rightarrow> token \<Rightarrow> u32 \<Rightarrow> bool" where
  "left_over inp b t pid \<longleftrightarrow> (\<exists>g c. br_grant b = Some g \<and> gr_token g = t \<and> gr_owner_pid g = pid \<and>
     inp = Some c \<and> uc_owner c \<and> uc_pid c = pid \<and>
     (\<forall>alive now. duration_since now (gr_last_beat g) > secs GRANT_LAPSE_SECS \<longrightarrow> br_grant (broker_sweep b alive now) = None))"

lemma sweep_ends: "br_grant b = Some g \<Longrightarrow> duration_since now (gr_last_beat g) > secs GRANT_LAPSE_SECS \<Longrightarrow>
    br_grant (broker_sweep b alive now) = None"
  by (simp add: broker_sweep_def grant_dead_def grant_ended)

lemma attach_result:
  assumes "elevation_attach b (Some c) t o2 e2 io pid = (r, b1)"
    and c: "uc_owner c" "uc_pid c = pid" "uc_token c = Some t"
  shows "case r of
      Inr el \<Rightarrow> begun el b1 t pid
    | Inl (EE_Heartbeat inp) \<Rightarrow> \<not> bi_heartbeat io \<and> left_over inp b1 t pid
    | Inl _ \<Rightarrow> \<not> held_by b1 pid"
proof (cases "elevation_open o2 pid")
  case (Inl err)
  then have "r = Inl err" "b1 = client_closed b c" using assms(1) by (auto simp: elevation_attach_def hang_up_def)
  moreover have "\<forall>i. err \<noteq> EE_Heartbeat i"
    using Inl by (auto simp: elevation_open_def split: if_splits client_result.splits option.splits service_to_ui.splits)
  ultimately show ?thesis using closed_owner [OF c(1), of b] c(2) by (simp split: elevation_error.split)
next
  case (Inr c2)
  then have o: "elevation_open o2 pid = Inr (fresh_conn pid)" using open_Inr by blast
  have hung: "\<not> held_by (hang_up b' (Some c)) pid" for b' using closed_owner [OF c(1), of b'] c(2) by (simp add: hang_up_def)
  obtain x vid b2 where a: "ask b (fresh_conn pid) (U_Attach t Role_Video) e2 = (x, vid, b2)"
    by (cases "ask b (fresh_conn pid) (U_Attach t Role_Video) e2")
  note at = ask_attach [OF a]
  show ?thesis
  proof (cases "bi_attach_write io \<and> bi_attach_read io \<and> x = Some (Some T_Attached)")
    case True
    then have th: "elevation_threads b2 (Some c) vid io = (r, b1)" using assms(1) by (simp add: elevation_attach_def o a)
    obtain g v where g: "br_grant b2 = Some g" "gr_token g = t" "gr_owner_pid g = pid" "vid = Some v" "uc_token v = Some t"
        "uc_pid v = pid" "\<not> uc_owner v" using True at by auto
    then have "hang_up b2 vid = b2" by (simp add: hang_up_def closed_other)
    moreover have "left_over (Some c) b2 t pid" unfolding left_over_def using g c sweep_ends by blast
    moreover have "begun \<lparr>el_input = Some c, el_video = vid, el_alive = True\<rparr> b2 t pid" using g c by (auto simp: begun_def)
    ultimately show ?thesis using th hung by (auto simp: elevation_threads_def split: if_splits)
  next
    case False
    have "\<exists>err b'. r = Inl err \<and> b1 = hang_up b' (Some c) \<and> (\<forall>i. err \<noteq> EE_Heartbeat i)"
      using assms(1) False by (auto simp: elevation_attach_def o a split: if_splits option.splits service_to_ui.splits)
    then show ?thesis using hung by (auto split: elevation_error.split)
  qed
qed

text \<open>How beginning ends.\<close>

lemma begin_result:
  assumes "elevation_begin b o1 e1 meanwhile o2 e2 io pid label = (r, b1)" and "\<not> held_by b pid"
  shows "case r of
      Inr el \<Rightarrow> begun el b1 (su_token e1) pid
    | Inl (EE_Heartbeat inp) \<Rightarrow> \<not> bi_heartbeat io \<and> left_over inp b1 (su_token e1) pid
    | Inl _ \<Rightarrow> \<not> held_by b1 pid"
proof (cases "elevation_open o1 pid")
  case (Inl err)
  then have "r = Inl err" "b1 = b" using assms(1) by (auto simp: elevation_begin_def)
  moreover have "\<forall>i. err \<noteq> EE_Heartbeat i"
    using Inl by (auto simp: elevation_open_def split: if_splits client_result.splits option.splits service_to_ui.splits)
  ultimately show ?thesis using assms(2) by (simp split: elevation_error.split)
next
  case (Inr c1)
  then have o: "elevation_open o1 pid = Inr (fresh_conn pid)" using open_Inr by blast
  obtain x inp b2 where a: "ask b (fresh_conn pid) (U_Grant (take 64 label)) e1 = (x, inp, b2)"
    by (cases "ask b (fresh_conn pid) (U_Grant (take 64 label)) e1")
  have hung: "\<not> held_by (hang_up b2 inp) pid"
    using ask_grant [OF a]
  proof (elim disjE exE conjE)
    fix c assume "inp = Some c" "uc_owner c" "uc_pid c = pid"
    then show ?thesis using closed_owner [of c b2] by (simp add: hang_up_def)
  next
    assume "br_grant b2 = br_grant b" "\<forall>c. inp = Some c \<longrightarrow> \<not> uc_owner c"
    then show ?thesis using assms(2) by (cases inp) (simp_all add: hang_up_def closed_other held_by_def)
  qed
  show ?thesis
  proof (cases "bi_grant_write io \<and> bi_grant_read io \<and> (\<exists>t. x = Some (Some (T_Granted t)))")
    case True
    then obtain c where c: "inp = Some c" "x = Some (Some (T_Granted (su_token e1)))" "uc_owner c" "uc_pid c = pid"
      "uc_token c = Some (su_token e1)" using ask_grant [OF a] by auto
    have "elevation_attach (meanwhile b2) (Some c) (su_token e1) o2 e2 io pid = (r, b1)"
      using assms(1) True a o c(1,2) by (simp add: elevation_begin_def)
    from attach_result [OF this c(3-5)] show ?thesis .
  next
    case False
    have "\<exists>err. r = Inl err \<and> (b1 = hang_up b2 inp \<or> b1 = hang_up b (Some (fresh_conn pid))) \<and> (\<forall>i. err \<noteq> EE_Heartbeat i)"
      using assms(1) False by (auto simp: elevation_begin_def o a split: if_splits option.splits service_to_ui.splits)
    then show ?thesis using hung assms(2) by (auto simp: hang_up_def closed_other split: elevation_error.split)
  qed
qed

text \<open>
  C36. Beginning elevated control, whatever other clients do at the service in between and wherever it
  fails: when it succeeds both pipes hold the live grant, which belongs to this process; when it fails no grant of this
  process is left, given that there was none before, but in one case. If only the heartbeat thread could not
  be started, the grant is live although beginning failed, and the input pipe that owns it stays open; what
  ends it is the service's watchdog, since no heartbeat comes.
\<close>

theorem begin_all_or_nothing:
  assumes "elevation_begin b o1 e1 meanwhile o2 e2 io pid label = (r, b1)" and "\<not> held_by b pid"
  shows "case r of
      Inr el \<Rightarrow> begun el b1 (su_token e1) pid
    | Inl (EE_Heartbeat inp) \<Rightarrow> \<not> bi_heartbeat io \<and> left_over inp b1 (su_token e1) pid
    | Inl _ \<Rightarrow> \<not> held_by b1 pid"
  by (rule begin_result [OF assms])

definition demo_open :: open_answer where
  "demo_open = \<lparr>op_connect = True, op_admitted = True, op_version = []\<rparr>"

definition demo_surroundings :: surroundings where
  "demo_surroundings = \<lparr>su_now = 0, su_protected = True, su_started = Some 7, su_token = [1], su_wrote = True, su_answer = None\<rparr>"

definition io_fine :: begin_io where
  "io_fine = \<lparr>bi_grant_write = True, bi_grant_read = True, bi_attach_write = True, bi_attach_read = True, bi_clone = True,
     bi_events = True, bi_heartbeat = True\<rparr>"

lemmas demo_begin_defs = elevation_begin_def elevation_attach_def elevation_threads_def elevation_open_def ask_def
  client_request_def broker_attach_def current_def client_hello_def broker_grant_def grant_commit_def demo_open_def
  demo_surroundings_def fresh_conn_def broker_new_def io_fine_def

text \<open>The picture channel cannot be opened: the grant is taken back.\<close>

theorem begin_all_or_nothing_witness:
  "\<exists>b1. elevation_begin broker_new demo_open demo_surroundings (\<lambda>b. b) (demo_open\<lparr>op_connect := False\<rparr>) demo_surroundings
     io_fine 5 [] = (Inl EE_Connect, b1) \<and> \<not> held_by b1 5"
proof -
  obtain r b1 where run: "elevation_begin broker_new demo_open demo_surroundings (\<lambda>b. b)
      (demo_open\<lparr>op_connect := False\<rparr>) demo_surroundings io_fine 5 [] = (r, b1)" by force
  have "\<not> held_by broker_new 5" by (simp add: held_by_def broker_new_def)
  note all = begin_all_or_nothing [OF run this]
  have "r = Inl EE_Connect" using run by (simp add: demo_begin_defs)
  then show ?thesis using run all by auto
qed

text \<open>
  The heartbeat thread does not start: beginning fails, the grant stays, and trying again is refused as long as the
  watchdog has not ended it.
\<close>

lemma failed_begin_blocks_next:
  "case elevation_begin broker_new demo_open demo_surroundings (\<lambda>b. b) demo_open demo_surroundings
     (io_fine\<lparr>bi_heartbeat := False\<rparr>) 5 [] of
     (r, b1) \<Rightarrow> (\<exists>inp. r = Inl (EE_Heartbeat inp)) \<and> held_by b1 5 \<and>
       fst (elevation_begin b1 demo_open demo_surroundings (\<lambda>b. b) demo_open demo_surroundings io_fine 5 []) =
         Inl (EE_NotGranted (T_Denied AlreadyGranted))"
  by (simp add: demo_begin_defs held_by_def hang_up_def client_closed_def)

section \<open>Input from end to end\<close>

type_synonym elevated_input = "input_event \<times> display_info \<times> surroundings"

definition apply_each :: "elevated \<times> broker \<Rightarrow> elevated_input list \<Rightarrow> elevated \<times> broker" where
  "apply_each s xs = foldl (\<lambda>(el, b) (ev, d, e). elevated_apply el b ev d e) s xs"

definition as_inject :: "elevated_input \<Rightarrow> service_to_agent" where
  "as_inject x = (case x of (ev, d, _) \<Rightarrow> G_Inject ev d)"

text \<open>An input the service accepts and can pass on.\<close>

definition passes :: "elevated_input \<Rightarrow> bool" where
  "passes x = (case x of (ev, d, e) \<Rightarrow> validate_ui (U_Input ev d) = Inr () \<and> su_wrote e)"

definition to_input :: "agent \<Rightarrow> broker \<Rightarrow> broker \<Rightarrow> service_to_agent list" where
  "to_input a b b1 = map (\<lambda>x. snd (snd x)) (filter (\<lambda>x. fst x = a \<and> fst (snd x) = Role_Input) (drop (length (br_log b)) (br_log b1)))"

lemma one_input:
  assumes "passes (ev, d, e)" "el_input el = Some c" "br_grant b = Some g" "uc_token c = Some (gr_token g)" "uc_pid c = gr_owner_pid g"
  shows "elevated_apply el b ev d e = (el, agent_write b (gr_agent g) Role_Input (G_Inject ev d))"
  using assms
  by (simp add: passes_def elevated_apply_def send_input_def ask_def client_request_def inject_def current_def denied_def
      still_alive_def)

lemma apply_each_log:
  assumes "list_all passes xs" "el_input el = Some c" "br_grant b = Some g" "uc_token c = Some (gr_token g)" "uc_pid c = gr_owner_pid g"
  shows "apply_each (el, b) xs = (el, b\<lparr>br_log := br_log b @ map (\<lambda>x. (gr_agent g, Role_Input, as_inject x)) xs\<rparr>)"
  using assms
proof (induction xs arbitrary: b)
  case (Cons x xs)
  obtain ev d e where x: "x = (ev, d, e)" by (cases x)
  let ?b = "agent_write b (gr_agent g) Role_Input (G_Inject ev d)"
  have "elevated_apply el b ev d e = (el, ?b)" using one_input Cons.prems x by auto
  then have "apply_each (el, b) (x # xs) = apply_each (el, ?b) xs" by (simp add: apply_each_def x)
  also have "\<dots> = (el, ?b\<lparr>br_log := br_log ?b @ map (\<lambda>x. (gr_agent g, Role_Input, as_inject x)) xs\<rparr>)"
    using Cons by (intro Cons.IH) (auto simp: agent_write_def)
  finally show ?case by (simp add: agent_write_def as_inject_def x)
qed (simp add: apply_each_def)

lemma drop_guard:
  assumes "el_input el = Some c" "br_grant b = Some g" "uc_token c = Some (gr_token g)" "uc_pid c = gr_owner_pid g"
  shows "guard_drop el b e = (el\<lparr>el_input := Some (c\<lparr>uc_token := None\<rparr>), el_alive := False\<rparr>, end_grant b)"
  using assms by (simp add: guard_drop_def send_input_def ask_def client_request_def broker_revoke_def current_def)

text \<open>What the agent does with the messages of a session and the shutdown after them.\<close>

definition calls_of :: "(virtual_screen \<times> elevated_input) list \<Rightarrow> (virtual_screen \<times> sink_call) list" where
  "calls_of ys = map (\<lambda>(v, ev, d, _). (v, SC_Apply ev d)) ys"

lemma agent_run_session:
  assumes "map (\<lambda>(_, _, m). m) ms = map Some (map as_inject xs @ [G_Shutdown])" "\<not> ai_done a"
    and "agent_input_run a ms = (rs, a1)"
  shows "\<exists>vs. length vs = length xs \<and>
    rs = fst (inj_calls (ai_injector a) (calls_of (zip vs xs))) @
      fst (release_records (snd (inj_calls (ai_injector a) (calls_of (zip vs xs))))) \<and>
    ai_injector a1 = snd (release_records (snd (inj_calls (ai_injector a) (calls_of (zip vs xs))))) \<and> ai_done a1"
  using assms
proof (induction xs arbitrary: ms a rs)
  case Nil
  then obtain desk v where "ms = [(desk, v, Some G_Shutdown)]" by (cases ms) auto
  then show ?case using Nil by (auto simp: agent_input_step_def calls_of_def split: prod.splits)
next
  case (Cons x xs)
  obtain ev d e where x: "x = (ev, d, e)" by (cases x)
  obtain desk v ms' where ms: "ms = (desk, v, Some (G_Inject ev d)) # ms'"
    "map (\<lambda>(_, _, m). m) ms' = map Some (map as_inject xs @ [G_Shutdown])"
    using Cons.prems(1) by (cases ms) (auto simp: as_inject_def x)
  obtain r i where i: "inj_build (ai_injector a) ev d v = (r, i)" by force
  let ?a = "a\<lparr>ai_desk := follow_input_desktop (ai_desk a) desk, ai_injector := i\<rparr>"
  obtain rs' where rs': "agent_input_run ?a ms' = (rs', a1)" "rs = r @ rs'"
    using Cons.prems(2, 3) ms(1) i by (auto simp: agent_input_step_def split: prod.splits)
  obtain vs where vs: "length vs = length xs"
    "rs' = fst (inj_calls i (calls_of (zip vs xs))) @ fst (release_records (snd (inj_calls i (calls_of (zip vs xs)))))"
    "ai_injector a1 = snd (release_records (snd (inj_calls i (calls_of (zip vs xs)))))" "ai_done a1"
    using Cons.IH [OF ms(2) _ rs'(1)] Cons.prems(2) by auto
  have "inj_calls (ai_injector a) (calls_of (zip (v # vs) (x # xs))) =
      (r @ fst (inj_calls i (calls_of (zip vs xs))), snd (inj_calls i (calls_of (zip vs xs))))"
    using i by (simp add: calls_of_def x inj_call_def split: prod.splits)
  then show ?case using vs rs'(2) by (intro exI [of _ "v # vs"]) simp
qed

text \<open>
  C35. The whole way of elevated input. In a session that \<open>begin\<close> opened, whatever input is applied and then
  the guard dropped: the agent of the grant is sent exactly that input, in order, and then its shutdown;
  the grant is over and its agent ended. An agent that reads all of it injects what the events say and
  then releases: no key and no button is down that was not down before.
\<close>

theorem elevated_input_reaches_agent:
  assumes "elevation_begin b0 o1 e1 meanwhile o2 e2 io pid label = (Inr el, b)" and "\<not> held_by b0 pid"
    and "list_all passes xs" and "apply_each (el, b) xs = (el1, b1)" and "guard_drop el1 b1 e = (el2, b2)"
    and "br_grant b = Some g"
    and "map (\<lambda>(_, _, m). m) ms = map Some (to_input (gr_agent g) b b2)"
    and "agent_input_run agent_input_new ms = (rs, a)"
  shows "to_input (gr_agent g) b b2 = map as_inject xs @ [G_Shutdown] \<and> br_grant b2 = None \<and>
    gr_agent g \<in> set (br_killed b2) \<and> \<not> el_alive el2 \<and> ai_done a \<and>
    (\<exists>vs. length vs = length xs \<and> take (length (fst (inj_calls injector_new (calls_of (zip vs xs))))) rs =
       fst (inj_calls injector_new (calls_of (zip vs xs)))) \<and>
    fst (os_run rs (ks, bs)) \<subseteq> ks \<and> snd (os_run rs (ks, bs)) \<subseteq> bs"
proof -
  obtain c where c: "el_input el = Some c" "uc_token c = Some (gr_token g)" "uc_pid c = gr_owner_pid g"
    using begin_result [OF assms(1, 2)] assms(6) by (auto simp: begun_def)
  have b1: "el1 = el" "b1 = b\<lparr>br_log := br_log b @ map (\<lambda>x. (gr_agent g, Role_Input, as_inject x)) xs\<rparr>"
    using apply_each_log [OF assms(3) c(1) assms(6) c(2, 3)] assms(4) by simp_all
  have g: "br_grant b1 = Some g" using b1(2) assms(6) by simp
  have b2: "b2 = end_grant b1" "\<not> el_alive el2" using drop_guard [OF c(1) g c(2, 3), of e] assms(5) b1(1) by auto
  have log: "br_log b2 = br_log b @ map (\<lambda>x. (gr_agent g, Role_Input, as_inject x)) xs @
      [(gr_agent g, Role_Input, G_Shutdown), (gr_agent g, Role_Video, G_Shutdown)]"
    and killed: "gr_agent g \<in> set (br_killed b2)" and gone: "br_grant b2 = None"
    using b1(2) g by (simp_all add: b2(1) end_grant_def agent_shutdown_def agent_write_def Let_def)
  have "filter (\<lambda>x. fst x = gr_agent g \<and> fst (snd x) = Role_Input) (map (\<lambda>x. (gr_agent g, Role_Input, as_inject x)) xs) =
      map (\<lambda>x. (gr_agent g, Role_Input, as_inject x)) xs"
    by (simp add: filter_map comp_def)
  then have sent: "to_input (gr_agent g) b b2 = map as_inject xs @ [G_Shutdown]"
    by (simp add: to_input_def log comp_def)
  obtain vs where vs: "length vs = length xs" "ai_done a"
    "rs = fst (inj_calls injector_new (calls_of (zip vs xs))) @ fst (release_records (snd (inj_calls injector_new (calls_of (zip vs xs)))))"
    using agent_run_session [of ms xs agent_input_new rs a] assms(7, 8) sent by (auto simp: agent_input_new_def)
  obtain r i where ri: "inj_calls injector_new (calls_of (zip vs xs)) = (r, i)" by force
  obtain rel j where rel: "release_records i = (rel, j)" by force
  have "tracks (ks, bs) i (os_run r (ks, bs))"
    using inj_calls_ok [OF inj_ok_new, of "calls_of (zip vs xs)" "(ks, bs)" "(ks, bs)"] ri
    by (auto simp: tracks_def held_of_def injector_new_def)
  then have "fst (os_run rs (ks, bs)) \<subseteq> ks \<and> snd (os_run rs (ks, bs)) \<subseteq> bs"
    using vs(3) ri rel os_run_release [of i "fst (os_run r (ks, bs))" "snd (os_run r (ks, bs))"]
    by (auto simp: tracks_def)
  then show ?thesis using sent gone killed b2(2) vs by auto
qed

text \<open>The key A is pressed, and the guard dropped with it down.\<close>

definition demo_key :: elevated_input where
  "demo_key = (Key 0x1e False True, some_display, demo_surroundings)"

definition demo_messages :: "(rstr option \<times> virtual_screen \<times> service_to_agent option) list" where
  "demo_messages = [(None, some_screen, Some (G_Inject (Key 0x1e False True) some_display)), (None, some_screen, Some G_Shutdown)]"

lemma demo_begun:
  "\<exists>el b g. elevation_begin broker_new demo_open demo_surroundings (\<lambda>b. b) demo_open demo_surroundings io_fine 5 [] = (Inr el, b) \<and>
     br_grant b = Some g"
  by (simp add: demo_begin_defs)

lemma demo_passes: "list_all passes [demo_key]"
  by (simp add: passes_def demo_key_def demo_surroundings_def check_display_def some_display_def MAX_DIMENSION_def)

theorem elevated_input_reaches_agent_witness:
  "ai_done (snd (agent_input_run agent_input_new demo_messages)) \<and>
    fst (os_run (fst (agent_input_run agent_input_new demo_messages)) ({}, {})) = {}"
proof -
  obtain el b g where b: "elevation_begin broker_new demo_open demo_surroundings (\<lambda>b. b) demo_open demo_surroundings io_fine 5 [] = (Inr el, b)"
    and g: "br_grant b = Some g" using demo_begun by blast
  obtain el1 b1 where a: "apply_each (el, b) [demo_key] = (el1, b1)" by force
  obtain el2 b2 where d: "guard_drop el1 b1 demo_surroundings = (el2, b2)" by force
  obtain rs ag where run: "agent_input_run agent_input_new demo_messages = (rs, ag)" by force
  have n: "\<not> held_by broker_new 5" by (simp add: held_by_def broker_new_def)
  obtain c where c: "el_input el = Some c" "uc_token c = Some (gr_token g)" "uc_pid c = gr_owner_pid g"
    using b g by (auto simp: demo_begin_defs)
  have b1: "el1 = el" "b1 = b\<lparr>br_log := br_log b @ [(gr_agent g, Role_Input, as_inject demo_key)]\<rparr>"
    using apply_each_log [OF demo_passes c(1) g c(2, 3)] a by simp_all
  have "b2 = end_grant b1" using drop_guard [OF c(1) _ c(2, 3), of b1] d g b1 by simp
  then have "to_input (gr_agent g) b b2 = [as_inject demo_key, G_Shutdown]"
    using b1(2) g by (simp add: to_input_def end_grant_def agent_shutdown_def agent_write_def Let_def)
  then have m: "map (\<lambda>(_, _, m). m) demo_messages = map Some (to_input (gr_agent g) b b2)"
    by (simp add: demo_messages_def as_inject_def demo_key_def)
  show ?thesis using elevated_input_reaches_agent [OF b n demo_passes a d g m run, of "{}" "{}"] run by simp
qed

section \<open>The shutdown is a race\<close>

text \<open>
  The service writes the shutdown and kills the agent at once. An agent that is killed before it reads the
  shutdown leaves held what it holds, and nobody else knows of it.
\<close>

lemma killed_agent_holds_key:
  "br_grant b = Some g \<Longrightarrow> br_killed (end_grant b) = br_killed b @ [gr_agent g]"
  "os_run (fst (agent_input_run agent_input_new (take 1 demo_messages))) ({}, {}) = ({(0x1e, False)}, {})"
  by (simp_all add: end_grant_def agent_shutdown_def agent_write_def Let_def demo_messages_def agent_input_step_def
      inj_build_def agent_input_new_def)

text \<open>A name of a viewer always fits the label, which the service limits to 128 bytes and the client to 64 characters.\<close>

lemma label_fits: "str_len label \<le> 64 \<Longrightarrow> validate_ui (U_Grant (take 64 label)) = Inr ()"
proof -
  assume l: "str_len label \<le> 64"
  have "str_len (take 64 label) + str_len (drop 64 label) = str_len label"
    by (metis append_take_drop_id str_len_append)
  then show ?thesis using l by simp
qed

text \<open>A longer label of characters outside ASCII would be refused although the client cut it.\<close>

lemma cut_label_refused: "elevation_begin b demo_open e1 mw o2 e2 io pid (replicate 64 0x20AC) = (Inl EE_Pipe, b)"
proof -
  have "str_len (take 64 (replicate 64 (0x20AC :: nat))) = 192"
    by (simp add: str_len_def sum_list_replicate utf8_len_def)
  then have "validate_ui (U_Grant (take 64 (replicate 64 0x20AC))) \<noteq> Inr ()" by (simp del: take_replicate)
  then have "ask b (fresh_conn pid) (U_Grant (take 64 (replicate 64 0x20AC))) e1 = (None, None, b)"
    by (auto simp: ask_def client_request_def client_closed_def simp del: take_replicate split: sum.splits)
  then show ?thesis
    by (simp add: elevation_begin_def elevation_open_def client_hello_def demo_open_def hang_up_def closed_other del: take_replicate)
qed

section \<open>The agent\<close>

text \<open>Only the process that was started becomes the agent, on the pipes it was started with; no other one is left running.\<close>

lemma agent_is_child:
  "start_agent s = (Some pid, killed) \<Longrightarrow> sa_spawn s = Some pid \<and> killed = None \<and>
     fst (sa_input s) = Some pid \<and> fst (sa_video s) = Some pid \<and>
     snd (sa_input s) = Some (A_Ready pid Role_Input) \<and> snd (sa_video s) = Some (A_Ready pid Role_Video)"
  "start_agent s = (None, killed) \<Longrightarrow> sa_pipes s \<Longrightarrow> sa_spawn s = killed"
  by (auto simp: start_agent_def is_our_agent_def split: if_splits option.splits)

text \<open>A request the service let through and whose screen was copied whole is answered with a picture of that size.\<close>

lemma capture_answers:
  assumes "validate_ui (U_Capture d out_w out_h) = Inr ()" "length bgra = unat (d_width d) * unat (d_height d) * 4"
  shows "\<exists>p. desktop_capture d out_w out_h (Some bgra) ptr = Some p \<and>
    length (pic_nv12 p) = unat out_w * unat out_h + unat out_w * unat out_h div 2"
proof -
  have d: "d_width d \<noteq> 0" "d_height d \<noteq> 0" "\<not> d_width d > MAX_DIMENSION" "\<not> d_height d > MAX_DIMENSION"
    and o: "\<not> out_w < 16" "\<not> out_h < 16" "out_w mod 2 = 0" "out_h mod 2 = 0"
    using assms(1) by (auto simp: check_display_def split: if_splits)
  have ev: "even (unat x)" if "x mod 2 = 0" for x :: u32
  proof -
    have "unat x mod unat (2 :: u32) = unat (x mod 2)" by (simp only: unat_mod)
    then have "unat x mod 2 = 0" using that by simp
    then show ?thesis by presburger
  qed
  have e: "even (unat out_w)" "even (unat out_h)" using ev [OF o(3)] ev [OF o(4)] .
  have "0 < unat out_w" "0 < unat out_h" "0 < unat (d_width d)" "0 < unat (d_height d)"
    using o(1, 2) d(1, 2) by (auto simp: word_less_nat_alt unat_gt_0)
  then show ?thesis using d e assms(2) by (simp add: desktop_capture_def nv12_result)
qed

end
