(* ===== verification/Screen.thy ===== *)
theory Screen
  imports Encoder Pictures "HOL-Library.Product_Lexorder"
begin

text \<open>
  The screen of the host: the displays (\<open>crates/capture/src/monitors.rs\<close>), the capture of one of them
  (\<open>duplication.rs\<close>, with the rows \<open>converter.rs\<close> reads back), the shape of the pointer
  (\<open>cursor.rs\<close>) and the screen source made of them (\<open>WinScreen\<close> in
  \<open>crates/session/src/platform.rs\<close>).

  Direct3D and GDI are not part of the repository: what they answer comes with the operations. A desktop
  image is any value; what is kept of it is the latest one.
\<close>

section \<open>Displays\<close>

record monitor =
  mo_index :: u32
  mo_name :: rstr
  mo_width :: u32
  mo_height :: u32
  mo_x :: i32
  mo_y :: i32
  mo_primary :: bool
  mo_adapter :: u32
  mo_output :: u32

text \<open>What the system says of an output; the coordinates are left, top, right and bottom.\<close>

record output_desc =
  od_attached :: bool
  od_rect :: "i32 \<times> i32 \<times> i32 \<times> i32"
  od_device :: "u16 list"
  od_primary :: bool

text \<open>\<open>String::from_utf16_lossy\<close>.\<close>

fun utf16_lossy :: "u16 list \<Rightarrow> rstr" where
  "utf16_lossy [] = []"
| "utf16_lossy [u] = [if unat u < 0xD800 \<or> 0xE000 \<le> unat u then unat u else 0xFFFD]"
| "utf16_lossy (u # v # r) =
     (if unat u < 0xD800 \<or> 0xE000 \<le> unat u then unat u # utf16_lossy (v # r)
      else if unat u < 0xDC00 \<and> 0xDC00 \<le> unat v \<and> unat v < 0xE000
      then (0x10000 + (unat u - 0xD800) * 1024 + (unat v - 0xDC00)) # utf16_lossy r
      else 0xFFFD # utf16_lossy (v # r))"

text \<open>\<open>trim_start_matches\<close> of the prefix of device names.\<close>

function trim_device :: "rstr \<Rightarrow> rstr" where
  "trim_device s = (if take 4 s = [92, 92, 46, 92] then trim_device (drop 4 s) else s)"
  by pat_completeness auto
termination
proof (relation "measure length")
  fix s :: rstr
  assume "take 4 s = [92, 92, 46, 92]"
  then have "s \<noteq> []" by auto
  then show "(drop 4 s, s) \<in> measure length" by (cases s) auto
qed simp

declare trim_device.simps [simp del]

definition monitor_of :: "u32 \<Rightarrow> u32 \<Rightarrow> u32 \<Rightarrow> output_desc \<Rightarrow> monitor" where
  "monitor_of index a o1 d =
     (case od_rect d of (l, t, r, b) \<Rightarrow>
        \<lparr>mo_index = index, mo_name = trim_device (utf16_lossy (takeWhile (\<lambda>u. u \<noteq> 0) (od_device d))),
         mo_width = r - l, mo_height = b - t, mo_x = l, mo_y = t, mo_primary = od_primary d,
         mo_adapter = a, mo_output = o1\<rparr>)"

text \<open>The outputs of the adapters; one that cannot be described ends the enumeration.\<close>

fun add_outputs :: "u32 \<Rightarrow> u32 \<Rightarrow> (hresult + output_desc) list \<Rightarrow> monitor list \<Rightarrow> hresult + monitor list" where
  "add_outputs a o1 [] out = Inr out"
| "add_outputs a o1 (Inl h # ds) out = Inl h"
| "add_outputs a o1 (Inr d # ds) out =
     add_outputs a (o1 + 1) ds (if od_attached d then out @ [monitor_of (of_nat (length out)) a o1 d] else out)"

fun add_adapters :: "u32 \<Rightarrow> (hresult + output_desc) list list \<Rightarrow> monitor list \<Rightarrow> hresult + monitor list" where
  "add_adapters a [] out = Inr out"
| "add_adapters a (ds # as') out =
     (case add_outputs a 0 ds out of Inl h \<Rightarrow> Inl h | Inr out' \<Rightarrow> add_adapters (a + 1) as' out')"

definition monitor_key :: "monitor \<Rightarrow> bool \<times> int \<times> int" where
  "monitor_key m = (\<not> mo_primary m, sint (mo_x m), sint (mo_y m))"

definition reindex :: "monitor list \<Rightarrow> monitor list" where
  "reindex ms = map (\<lambda>(i, m). m\<lparr>mo_index := of_nat i\<rparr>) (enumerate 0 ms)"

definition list_monitors :: "hresult + (hresult + output_desc) list list \<Rightarrow> hresult + monitor list" where
  "list_monitors sys =
     (case sys of
        Inl h \<Rightarrow> Inl h
      | Inr adapters \<Rightarrow>
          (case add_adapters 0 adapters [] of Inl h \<Rightarrow> Inl h | Inr ms \<Rightarrow> Inr (reindex (sort_key monitor_key ms))))"

definition to_display :: "monitor \<Rightarrow> display_info" where
  "to_display m =
     \<lparr>d_index = mo_index m, d_name = lit ''Display '' @ dec_digits (unat (mo_index m + 1)) @ lit '' ('' @ mo_name m @ lit '')'',
      d_width = mo_width m, d_height = mo_height m, d_x = mo_x m, d_y = mo_y m, d_primary = mo_primary m\<rparr>"

section \<open>Capturing a display\<close>

datatype capture_error = CA_AccessLost | CA_NoSuchMonitor u32 | CA_Windows hresult

definition DXGI_ACCESS_LOST :: hresult where "DXGI_ACCESS_LOST = 0x887A0026"
definition DXGI_INVALID_CALL :: hresult where "DXGI_INVALID_CALL = 0x887A0001"
definition DXGI_DISCONNECTED :: hresult where "DXGI_DISCONNECTED = 0x887A0028"
definition DXGI_WAIT_TIMEOUT :: hresult where "DXGI_WAIT_TIMEOUT = 0x887A0027"

definition map_dxgi :: "hresult \<Rightarrow> capture_error" where
  "map_dxgi h = (if h = DXGI_ACCESS_LOST \<or> h = DXGI_INVALID_CALL \<or> h = DXGI_DISCONNECTED then CA_AccessLost else CA_Windows h)"

text \<open>\<open>cp_conv\<close> is the sizes the converter was made for, \<open>cp_last\<close> the copy of the desktop.\<close>

record 'd capturer =
  cp_monitor :: monitor
  cp_src :: "u32 \<times> u32"
  cp_conv :: "(u32 \<times> u32 \<times> u32 \<times> u32) option"
  cp_pointer :: pointer
  cp_force :: bool
  cp_last :: "'d option"

record captured =
  cd_frame :: "frame option"
  cd_pointer :: pointer

text \<open>Opening: the error of a call, or that of \<open>DuplicateOutput\<close>, or the size of the mode.\<close>

definition capturer_new :: "monitor \<Rightarrow> hresult option \<Rightarrow> hresult + u32 \<times> u32 \<Rightarrow> capture_error + 'd capturer" where
  "capturer_new m fail dup =
     (case fail of Some h \<Rightarrow> Inl (CA_Windows h)
      | None \<Rightarrow>
          (case dup of Inl h \<Rightarrow> Inl (map_dxgi h)
           | Inr sz \<Rightarrow> Inr \<lparr>cp_monitor = m, cp_src = sz, cp_conv = None,
                         cp_pointer = \<lparr>po_x = 0, po_y = 0, po_visible = False\<rparr>, cp_force = True, cp_last = None\<rparr>))"

definition capturer_request :: "'d capturer \<Rightarrow> 'd capturer" where
  "capturer_request c = c\<lparr>cp_force := True\<rparr>"

definition even_part :: "u32 \<Rightarrow> u32" where
  "even_part w = and w (not 1)"

definition conv_matches :: "u32 \<times> u32 \<times> u32 \<times> u32 \<Rightarrow> u32 \<times> u32 \<Rightarrow> u32 \<Rightarrow> u32 \<Rightarrow> bool" where
  "conv_matches cv src out_w out_h \<longleftrightarrow>
     (case cv of (sw, sh, ow, oh) \<Rightarrow> (sw, sh) = src \<and> ow = even_part out_w \<and> oh = even_part out_h)"

text \<open>
  Reading the converted picture back: the lines of the luminance and then those of the colours stand a
  pitch apart in the mapped memory.
\<close>

definition packed_rows :: "u8 list \<Rightarrow> nat \<Rightarrow> nat \<Rightarrow> nat \<Rightarrow> u8 list" where
  "packed_rows mapped pitch w h =
     concat (map (\<lambda>row. take w (drop (row * pitch) mapped)) [0..<h]) @
     concat (map (\<lambda>row. take w (drop (pitch * h + row * pitch) mapped)) [0..<h div 2])"

text \<open>The answers of one conversion: the copy's texture, a new converter, and the mapped picture.\<close>

record conv_answers =
  cv_texture :: "hresult option"
  cv_new :: "hresult option"
  cv_mapped :: "hresult + u8 list \<times> nat"

definition converter_convert :: "u32 \<times> u32 \<times> u32 \<times> u32 \<Rightarrow> conv_answers \<Rightarrow> capture_error + frame" where
  "converter_convert cv an =
     (case (cv, cv_mapped an) of
        (_, Inl h) \<Rightarrow> Inl (CA_Windows h)
      | ((_, _, ow, oh), Inr (mapped, pitch)) \<Rightarrow>
          Inr \<lparr>fr_width = ow, fr_height = oh, fr_data = packed_rows mapped pitch (unat ow) (unat oh)\<rparr>)"

definition converter_new :: "u32 \<times> u32 \<Rightarrow> u32 \<Rightarrow> u32 \<Rightarrow> conv_answers \<Rightarrow> hresult + u32 \<times> u32 \<times> u32 \<times> u32" where
  "converter_new src out_w out_h an =
     (case cv_new an of Some h \<Rightarrow> Inl h | None \<Rightarrow> Inr (fst src, snd src, even_part out_w, even_part out_h))"

definition has_converter :: "'d capturer \<Rightarrow> u32 \<Rightarrow> u32 \<Rightarrow> bool" where
  "has_converter c out_w out_h =
     (case cp_conv c of Some cv \<Rightarrow> conv_matches cv (cp_src c) out_w out_h | None \<Rightarrow> False)"

definition run_converter :: "'d capturer \<Rightarrow> u32 \<Rightarrow> u32 \<Rightarrow> conv_answers \<Rightarrow> (capture_error + frame) \<times> 'd capturer" where
  "run_converter c out_w out_h an =
     (if has_converter c out_w out_h then (converter_convert (the (cp_conv c)) an, c)
      else case converter_new (cp_src c) out_w out_h an of
             Inl h \<Rightarrow> (Inl (CA_Windows h), c)
           | Inr cv \<Rightarrow> (converter_convert cv an, c\<lparr>cp_conv := Some cv\<rparr>))"

definition capturer_convert :: "'d capturer \<Rightarrow> 'd \<Rightarrow> u32 \<Rightarrow> u32 \<Rightarrow> conv_answers \<Rightarrow> (capture_error + frame) \<times> 'd capturer" where
  "capturer_convert c desktop out_w out_h an =
     (case (cp_last c, cv_texture an) of
        (None, Some h) \<Rightarrow> (Inl (CA_Windows h), c)
      | _ \<Rightarrow> run_converter (c\<lparr>cp_last := Some desktop\<rparr>) out_w out_h an)"

definition reconvert :: "'d capturer \<Rightarrow> u32 \<Rightarrow> u32 \<Rightarrow> conv_answers \<Rightarrow> (capture_error + frame option) \<times> 'd capturer" where
  "reconvert c out_w out_h an =
     (case cp_last c of
        None \<Rightarrow> (Inr None, c)
      | Some d \<Rightarrow> (case run_converter c out_w out_h an of (r, c1) \<Rightarrow> (map_sum (\<lambda>e. e) Some r, c1)))"

text \<open>
  What \<open>AcquireNextFrame\<close> answers: an error (a timeout is one), or the pointer if it moved and the
  desktop if it changed. \<open>an2\<close> answers the conversion of a frame that is owed.
\<close>

datatype 'd acquired = AQ_Err hresult | AQ_Ok "pointer option" "'d option"

definition frame_owed :: "'d capturer \<Rightarrow> u32 \<Rightarrow> u32 \<Rightarrow> conv_answers \<Rightarrow> (capture_error + frame option) \<times> 'd capturer" where
  "frame_owed c out_w out_h an = (if cp_force c then reconvert c out_w out_h an else (Inr None, c))"

definition hand_out :: "(capture_error + frame option) \<times> 'd capturer \<Rightarrow> (capture_error + captured) \<times> 'd capturer" where
  "hand_out x =
     (case x of
        (Inl e, c) \<Rightarrow> (Inl e, c)
      | (Inr f, c) \<Rightarrow>
          (Inr \<lparr>cd_frame = f, cd_pointer = cp_pointer c\<rparr>, if f \<noteq> None then c\<lparr>cp_force := False\<rparr> else c))"

definition capture_next :: "'d capturer \<Rightarrow> u32 \<Rightarrow> u32 \<Rightarrow> 'd acquired \<Rightarrow> conv_answers \<Rightarrow>
    (capture_error + captured) \<times> 'd capturer" where
  "capture_next c out_w out_h aq an =
     (case aq of
        AQ_Err h \<Rightarrow> if h = DXGI_WAIT_TIMEOUT then hand_out (frame_owed c out_w out_h an) else (Inl (map_dxgi h), c)
      | AQ_Ok ptr changed \<Rightarrow>
          (let c1 = (case ptr of Some p \<Rightarrow> c\<lparr>cp_pointer := p\<rparr> | None \<Rightarrow> c)
           in case changed of
                Some d \<Rightarrow> (case capturer_convert c1 d out_w out_h an of (r, c2) \<Rightarrow> hand_out (map_sum (\<lambda>e. e) Some r, c2))
              | None \<Rightarrow> hand_out (frame_owed c1 out_w out_h an)))"

section \<open>The shape of the pointer\<close>

text \<open>\<open>None\<close>: the system does not say, shows no pointer, or its handle is invalid.\<close>

record cursor_answer =
  cu_handle :: "int option"
  cu_image :: "(u16 \<times> u16 \<times> u16 \<times> u16 \<times> u8 list \<times> u8 list) option"

record tracker =
  tk_last :: "int option"
  tk_next :: u32

definition tracker_new :: tracker where "tracker_new = \<lparr>tk_last = None, tk_next = 0\<rparr>"

definition tracker_reset :: "tracker \<Rightarrow> tracker" where "tracker_reset t = t\<lparr>tk_last := None\<rparr>"

text \<open>The size, the hot spot and the two drawings of a shape; a shape without size or above 128 is left out.\<close>

definition render_cursor :: "u32 \<Rightarrow> cursor_answer \<Rightarrow> cursor_shape option" where
  "render_cursor i an =
     (case cu_image an of
        None \<Rightarrow> None
      | Some (w, h, x, y, on_black, on_white) \<Rightarrow>
          if w = 0 \<or> h = 0 \<or> w > 128 \<or> h > 128 then None
          else Some \<lparr>cs_id = i, cs_width = w, cs_height = h, cs_hot_x = x, cs_hot_y = y,
                     cs_rgba = cursor_rgba (unat w) (unat h) on_black on_white\<rparr>)"

definition tracker_poll :: "tracker \<Rightarrow> cursor_answer \<Rightarrow> cursor_shape option \<times> tracker" where
  "tracker_poll t an =
     (case cu_handle an of
        None \<Rightarrow> (None, t)
      | Some h \<Rightarrow>
          if tk_last t = Some h then (None, t)
          else (case render_cursor (tk_next t) an of
                  None \<Rightarrow> (None, t)
                | Some s \<Rightarrow> (Some s, \<lparr>tk_last = Some h, tk_next = tk_next t + 1\<rparr>)))"

section \<open>The screen source\<close>

record 'd win_screen =
  wi_monitors :: "monitor list"
  wi_capturer :: "'d capturer option"
  wi_cursor :: tracker

definition win_screen_new :: "hresult + monitor list \<Rightarrow> unit + 'd win_screen" where
  "win_screen_new ms =
     (case ms of
        Inl _ \<Rightarrow> Inl ()
      | Inr m \<Rightarrow> if m = [] then Inl () else Inr \<lparr>wi_monitors = m, wi_capturer = None, wi_cursor = tracker_new\<rparr>)"

definition screen_displays :: "'d win_screen \<Rightarrow> hresult + monitor list \<Rightarrow> display_info list \<times> 'd win_screen" where
  "screen_displays s ms =
     (let s1 = (case ms of Inr m \<Rightarrow> if m \<noteq> [] then s\<lparr>wi_monitors := m\<rparr> else s | Inl _ \<Rightarrow> s)
      in (map to_display (wi_monitors s1), s1))"

definition screen_select :: "'d win_screen \<Rightarrow> u32 \<Rightarrow> (monitor \<Rightarrow> capture_error + 'd capturer) \<Rightarrow>
    (capture_error option + display_info) \<times> 'd win_screen" where
  "screen_select s i open_capturer =
     (if unat i < length (wi_monitors s)
      then let m = wi_monitors s ! unat i
           in case open_capturer m of
                Inl e \<Rightarrow> (Inl (Some e), s)
              | Inr c \<Rightarrow> (Inr (to_display m), s\<lparr>wi_capturer := Some c, wi_cursor := tracker_reset (wi_cursor s)\<rparr>)
      else (Inl None, s))"

definition screen_next :: "'d win_screen \<Rightarrow> u32 \<Rightarrow> u32 \<Rightarrow> 'd acquired \<Rightarrow> conv_answers \<Rightarrow> cursor_answer \<Rightarrow>
    (capture_error option + source_output) \<times> 'd win_screen" where
  "screen_next s out_w out_h aq an cu =
     (case wi_capturer s of
        None \<Rightarrow> (Inl None, s)
      | Some c \<Rightarrow>
          (case capture_next c out_w out_h aq an of
             (Inl e, c1) \<Rightarrow> (Inl (Some e), s\<lparr>wi_capturer := Some c1\<rparr>)
           | (Inr got, c1) \<Rightarrow>
               (case tracker_poll (wi_cursor s) cu of (shape, t) \<Rightarrow>
                  (Inr \<lparr>so_frame = cd_frame got, so_pointer = Some (cd_pointer got), so_shape = shape\<rparr>,
                   s\<lparr>wi_capturer := Some c1, wi_cursor := t\<rparr>))))"

text \<open>The error as the video thread sees it; the text of a fatal one is left open.\<close>

definition source_lost :: "capture_error option \<Rightarrow> bool" where
  "source_lost e \<longleftrightarrow> e = Some CA_AccessLost"

definition screen_request_frame :: "'d win_screen \<Rightarrow> 'd win_screen" where
  "screen_request_frame s = s\<lparr>wi_capturer := map_option capturer_request (wi_capturer s)\<rparr>"

end
