(* ===== verification/Screen_Props.thy ===== *)
theory Screen_Props
  imports Screen "HOL-Library.Multiset"
begin

text \<open>
  The displays are numbered in the order they are shown, a frame that was asked for comes as soon as there
  is a picture, and a captured picture always has the size the encoder was made for.
\<close>

section \<open>Displays\<close>

definition unnumbered :: "monitor \<Rightarrow> monitor" where
  "unnumbered m = m\<lparr>mo_index := 0\<rparr>"

lemma length_reindex [simp]: "length (reindex ms) = length ms"
  by (simp add: reindex_def)

lemma reindex_nth: "i < length ms \<Longrightarrow> reindex ms ! i = (ms ! i)\<lparr>mo_index := of_nat i\<rparr>"
  by (simp add: reindex_def nth_enumerate_eq)

lemma unnumbered_reindex: "map unnumbered (reindex ms) = map unnumbered ms"
  by (rule nth_equalityI) (simp_all add: reindex_nth unnumbered_def)

lemma key_unnumbered: "monitor_key (unnumbered m) = monitor_key m"
  by (simp add: monitor_key_def unnumbered_def)

text \<open>The outputs that belong to the desktop, in the order of the enumeration.\<close>

definition attached_outputs :: "(hresult + output_desc) list list \<Rightarrow> output_desc list" where
  "attached_outputs adapters = concat (map (List.map_filter (\<lambda>r. case r of Inr d \<Rightarrow> if od_attached d then Some d else None | Inl _ \<Rightarrow> None)) adapters)"

lemma add_outputs_count:
  "add_outputs a j ds out = Inr out' \<Longrightarrow>
     map (\<lambda>m. (mo_x m, mo_y m, mo_primary m)) out' = map (\<lambda>m. (mo_x m, mo_y m, mo_primary m)) out @
       map (\<lambda>d. (fst (od_rect d), fst (snd (od_rect d)), od_primary d)) (attached_outputs [ds])"
proof (induction a j ds out rule: add_outputs.induct)
  case (3 a o1 d ds out)
  then show ?case by (auto simp: attached_outputs_def monitor_of_def List.map_filter_simps split: prod.splits)
qed (auto simp: attached_outputs_def List.map_filter_simps)

lemma add_adapters_count:
  "add_adapters a ads out = Inr out' \<Longrightarrow>
     map (\<lambda>m. (mo_x m, mo_y m, mo_primary m)) out' = map (\<lambda>m. (mo_x m, mo_y m, mo_primary m)) out @
       map (\<lambda>d. (fst (od_rect d), fst (snd (od_rect d)), od_primary d)) (attached_outputs ads)"
proof (induction a ads out rule: add_adapters.induct)
  case (2 a ds ads out)
  then show ?case
    by (auto simp: attached_outputs_def split: sum.splits dest!: add_outputs_count)
qed (simp add: attached_outputs_def)

text \<open>
  Every attached output is one display, the main one comes first, and the number of a display is its place
  in the list, which is what \<open>select\<close> looks up.
\<close>

lemma displays_numbered:
  assumes "list_monitors (Inr adapters) = Inr ms"
  shows "mset (map (\<lambda>m. (mo_x m, mo_y m, mo_primary m)) ms) =
      mset (map (\<lambda>d. (fst (od_rect d), fst (snd (od_rect d)), od_primary d)) (attached_outputs adapters))"
    and "\<forall>i<length ms. mo_index (ms ! i) = of_nat i"
    and "\<exists>m\<in>set ms. mo_primary m \<Longrightarrow> mo_primary (ms ! 0)"
proof -
  obtain out where out: "add_adapters 0 adapters [] = Inr out" "ms = reindex (sort_key monitor_key out)"
    using assms by (auto simp: list_monitors_def split: sum.splits)
  let ?f = "\<lambda>m. (mo_x m, mo_y m, mo_primary m)"
  have f: "map ?f l = map ?f (map unnumbered l)" for l by (simp add: unnumbered_def)
  have "map ?f ms = map ?f (sort_key monitor_key out)"
    unfolding f [of ms] f [of "sort_key monitor_key out"] by (simp only: out(2) unnumbered_reindex)
  then have "mset (map ?f ms) = image_mset ?f (mset out)" by simp
  then show "mset (map ?f ms) =
      mset (map (\<lambda>d. (fst (od_rect d), fst (snd (od_rect d)), od_primary d)) (attached_outputs adapters))"
    using add_adapters_count [OF out(1)] by (simp flip: mset_map)
  show "\<forall>i<length ms. mo_index (ms ! i) = of_nat i" by (simp add: out(2) reindex_nth)
  show "mo_primary (ms ! 0)" if ex: "\<exists>m\<in>set ms. mo_primary m"
  proof -
    have u: "map monitor_key l = map monitor_key (map unnumbered l)" for l by (simp add: key_unnumbered)
    have k: "map monitor_key ms = map monitor_key (sort_key monitor_key out)"
      unfolding u [of ms] u [of "sort_key monitor_key out"] by (simp only: out(2) unnumbered_reindex)
    then have "sorted (map monitor_key ms)" by simp
    moreover obtain i where i: "i < length ms" "mo_primary (ms ! i)" using ex by (auto simp: in_set_conv_nth)
    ultimately have "map monitor_key ms ! 0 \<le> map monitor_key ms ! i"
      using sorted_nth_mono [of "map monitor_key ms" 0 i] by simp
    moreover have "0 < length ms" using i(1) by linarith
    ultimately have "monitor_key (ms ! 0) \<le> monitor_key (ms ! i)" using i(1) by (simp only: nth_map)
    then show ?thesis using i(2) by (auto simp: monitor_key_def less_eq_prod_def)
  qed
qed

lemma select_finds_display:
  assumes "screen_displays s ms = (ds, s1)" "i < length ds" "i < 2 ^ 32"
    and "open_capturer (wi_monitors s1 ! i) = Inr c"
  shows "fst (screen_select s1 (of_nat i) open_capturer) = Inr (ds ! i)"
proof -
  have "ds = map to_display (wi_monitors s1)" using assms(1) by (auto simp: screen_displays_def Let_def split: if_splits sum.splits)
  then show ?thesis using assms(2-4) by (simp add: screen_select_def unat_of_nat_small)
qed

section \<open>Frames\<close>

lemma run_converter_keeps:
  "cp_force (snd (run_converter c w h an)) = cp_force c \<and> cp_last (snd (run_converter c w h an)) = cp_last c"
  by (auto simp: run_converter_def split: sum.splits)

lemma some_frame: "map_sum (\<lambda>e. e) Some x \<noteq> Inr None"
  by (cases x) simp_all

lemma frame_of_sum: "map_sum (\<lambda>e. e) Some x = Inr (Some f) \<longleftrightarrow> x = Inr f"
  by (cases x) simp_all

lemma owed_frame_out:
  assumes "capture_next c w h aq an = (Inr got, c1)" and "cp_force c"
  shows "(cd_frame got \<noteq> None \<and> \<not> cp_force c1) \<or> (cd_frame got = None \<and> cp_force c1 \<and> cp_last c = None \<and> cp_last c1 = None)"
proof -
  have run: "cp_force c2 = cp_force c0 \<and> cp_last c2 = cp_last c0" if "run_converter c0 w h an = (r, c2)" for c0 c2 r
    using run_converter_keeps [of c0 w h an] that by simp
  show ?thesis
    using assms
    by (auto simp: capture_next_def hand_out_def frame_owed_def reconvert_def capturer_convert_def Let_def
        split: acquired.splits if_splits option.splits prod.splits sum.splits dest!: run simp: some_frame)
qed


text \<open>The first frame of a capture whose desktop has just changed, and a static desktop after it.\<close>

definition demo_monitor :: monitor where
  "demo_monitor = \<lparr>mo_index = 0, mo_name = [], mo_width = 2, mo_height = 2, mo_x = 0, mo_y = 0, mo_primary = True,
     mo_adapter = 0, mo_output = 0\<rparr>"

definition demo_conv :: conv_answers where
  "demo_conv = \<lparr>cv_texture = None, cv_new = None, cv_mapped = Inr (replicate 12 16, 4)\<rparr>"

definition demo_capturer :: "unit capturer" where
  "demo_capturer = \<lparr>cp_monitor = demo_monitor, cp_src = (2, 2), cp_conv = None,
     cp_pointer = \<lparr>po_x = 0, po_y = 0, po_visible = False\<rparr>, cp_force = True, cp_last = Some ()\<rparr>"


section \<open>The size of a picture\<close>

definition mapped_whole :: "conv_answers \<Rightarrow> nat \<Rightarrow> nat \<Rightarrow> bool" where
  "mapped_whole an w h \<longleftrightarrow>
     (case cv_mapped an of Inr (mapped, pitch) \<Rightarrow> w \<le> pitch \<and> pitch * h + pitch * (h div 2) \<le> length mapped | Inl _ \<Rightarrow> True)"

lemma length_rows:
  assumes "w \<le> pitch" "o1 + pitch * n \<le> length mapped"
  shows "length (concat (map (\<lambda>row. take w (drop (o1 + row * pitch) mapped)) [0..<n])) = w * n"
  using assms
proof (induction n)
  case (Suc n)
  have "o1 + n * pitch + w \<le> length mapped" using Suc.prems by (simp add: algebra_simps)
  then show ?case using Suc by (simp add: algebra_simps)
qed simp

lemma length_packed:
  assumes "w \<le> pitch" "pitch * h + pitch * (h div 2) \<le> length mapped"
  shows "length (packed_rows mapped pitch w h) = w * h + w * (h div 2)"
  using length_rows [of w pitch 0 h mapped] length_rows [of w pitch "pitch * h" "h div 2" mapped] assms
  by (simp add: packed_rows_def)

lemma frame_size:
  assumes "fst (run_converter c w h an) = Inr f" "mapped_whole an (unat (even_part w)) (unat (even_part h))"
  shows "length (fr_data f) = unat (even_part w) * unat (even_part h) + unat (even_part w) * (unat (even_part h) div 2)"
  using assms
  by (auto simp: run_converter_def has_converter_def conv_matches_def converter_new_def converter_convert_def mapped_whole_def
      length_packed split: if_splits sum.splits option.splits prod.splits)

lemma captured_size:
  fixes c :: "'d capturer"
  assumes "capture_next c w h aq an = (Inr got, c1)" "cd_frame got = Some f"
    and "mapped_whole an (unat (even_part w)) (unat (even_part h))"
  shows "length (fr_data f) = unat (even_part w) * unat (even_part h) + unat (even_part w) * (unat (even_part h) div 2)"
proof -
  have ex: "\<exists>c0 :: 'd capturer. fst (run_converter c0 w h an) = Inr f" if "run_converter c2 w h an = (Inr f, c3)" for c2 c3 :: "'d capturer"
    using that by (intro exI [of _ c2]) simp
  have "\<exists>c0 :: 'd capturer. fst (run_converter c0 w h an) = Inr f"
    using assms(1, 2)
    by (auto simp: capture_next_def hand_out_def frame_owed_def reconvert_def capturer_convert_def Let_def frame_of_sum
        split: acquired.splits if_splits option.splits prod.splits sum.splits intro: ex)
  then show ?thesis using frame_size assms(3) by blast
qed

lemma even_part_even: "even (unat (even_part w))"
proof -
  have "\<not> bit (unat (even_part w)) 0" by (simp add: even_part_def bit_unsigned_iff bit_and_iff bit_not_iff)
  then show ?thesis by (simp add: bit_0)
qed

lemma even_part_le: "unat (even_part w) \<le> unat w"
  using word_and_le2 [of w "not 1"] by (simp add: even_part_def word_le_nat_alt)

lemma first_accepted_size:
  "first_accepted cs cfg err = Inr en \<Longrightarrow>
     en_frame_bytes en = unat (er_width cfg * er_height cfg * 3 div 2)"
  by (induction cs cfg err rule: first_accepted.induct) (auto simp: configure_def split: sum.splits option.splits)

text \<open>
  C39. The encoder asserts that a picture has its size and would end the thread otherwise. A picture captured
  for a size fits the encoder made for that size, odd sizes included, for every display up to the point where
  the size in bytes no longer fits 32 bits: the assertion never fails.
\<close>

theorem captured_picture_fits:
  assumes "capture_next c w h aq an = (Inr got, c1)" "cd_frame got = Some f"
    and "mapped_whole an (unat (even_part w)) (unat (even_part h))"
    and "encoder_new installed cfg = Inr en" "er_width cfg = w" "er_height cfg = h"
    and "unat w * unat h * 3 < 2 ^ 32"
  shows "length (fr_data f) = en_frame_bytes en \<and> mf_encode en f force_key answers \<noteq> Panics"
proof -
  let ?w = "even_part w" and ?h = "even_part h"
  have "unat ?w * unat ?h \<le> unat w * unat h" using even_part_le by (intro mult_mono) auto
  then have small: "unat ?w * unat ?h * 3 < 2 ^ 32" using assms(7) by linarith
  have "er_width (even_size cfg) = ?w" "er_height (even_size cfg) = ?h"
    using assms(5, 6) by (simp_all add: even_size_def even_part_def)
  then have "en_frame_bytes en = unat (?w * ?h * 3 div 2)"
    using first_accepted_size assms(4) by (fastforce simp: encoder_new_def)
  also have "\<dots> = unat ?w * unat ?h * 3 div 2"
  proof -
    have "unat (?w * ?h) = unat ?w * unat ?h" using small by (simp add: unat_word_ariths)
    then have "unat (?w * ?h * 3) = unat ?w * unat ?h * 3" using small by (simp add: unat_word_ariths)
    then show ?thesis by (simp add: unat_div)
  qed
  also have "\<dots> = unat ?w * unat ?h + unat ?w * (unat ?h div 2)"
    using even_part_even [of h] by (elim evenE) simp
  finally have l: "length (fr_data f) = en_frame_bytes en" using captured_size [OF assms(1-3)] by simp
  have "en_frame_bytes (if force_key then force_keyframe en else en) = en_frame_bytes en"
    by (simp add: force_keyframe_def)
  then show ?thesis using l by (auto simp: mf_encode_def encoder_encode_def split: option.splits prod.splits sum.splits)
qed

definition demo_installed :: catalogue where
  "demo_installed s hw = Inr [\<lparr>ca_name = [], ca_hardware = hw,
     ca_setup = \<lparr>ts_error = None, ts_async = False, ts_api = True, ts_buffer = 0, ts_provides = True, ts_header = []\<rparr>\<rparr>]"

definition demo_request :: encoder_config where
  "demo_request = \<lparr>er_codec = H264, er_width = 2, er_height = 2, er_fps = 30, er_bitrate_kbps = 1000, er_hardware = False\<rparr>"

definition no_answers :: media_answers where
  "no_answers = \<lparr>an_sample = None, an_refuse = None, an_outputs = [], an_events = []\<rparr>"

theorem captured_picture_fits_witness:
  "\<exists>got f c1 en. capture_next demo_capturer 2 2 (AQ_Err DXGI_WAIT_TIMEOUT) demo_conv = (Inr got, c1) \<and> cd_frame got = Some f \<and>
     encoder_new demo_installed demo_request = Inr en \<and> mf_encode en f True no_answers \<noteq> Panics"
proof -
  obtain got c1 f where run: "capture_next demo_capturer 2 2 (AQ_Err DXGI_WAIT_TIMEOUT) demo_conv = (Inr got, c1)" "cd_frame got = Some f"
    using owed_frame_out [of demo_capturer 2 2 "AQ_Err DXGI_WAIT_TIMEOUT" demo_conv]
    by (auto simp: capture_next_def hand_out_def frame_owed_def reconvert_def run_converter_def has_converter_def
        converter_new_def converter_convert_def demo_capturer_def demo_conv_def)
  obtain en where en: "encoder_new demo_installed demo_request = Inr en"
    by (auto simp: encoder_new_def candidates_def enumerate_encoders_def ok_list_def demo_installed_def demo_request_def
        subtype_def configure_def even_size_def)
  have m: "mapped_whole demo_conv (unat (even_part 2)) (unat (even_part 2))"
    by (simp add: mapped_whole_def demo_conv_def even_part_def)
  have "mf_encode en f True no_answers \<noteq> Panics"
    using captured_picture_fits [OF run m en, of True no_answers] by (simp add: demo_request_def)
  then show ?thesis using run en by blast
qed

text \<open>Pictures of the service have the same size as captured ones.\<close>

lemma service_picture_size:
  "bgra_to_nv12 src sw sh dw dh = Some p \<Longrightarrow> length p = dw * dh + dw * (dh div 2)"
  by (auto simp: nv12_result split: if_splits elim!: evenE)

section \<open>Pointer shapes\<close>

text \<open>
  A shape that cannot be rendered is not remembered, so it is rendered again at every picture; and the
  numbers of the shapes sent are counted up.
\<close>

lemma unrendered_shape_again:
  "cu_handle an = Some h \<Longrightarrow> render_cursor (tk_next t) an = None \<Longrightarrow> tracker_poll t an = (None, t)"
  by (simp add: tracker_poll_def)

lemma shape_sent_once:
  "tracker_poll t an = (Some s, t') \<Longrightarrow> tracker_poll t' an = (None, t') \<and> cs_id s = tk_next t \<and>
     length (cs_rgba s) = unat (cs_width s) * unat (cs_height s) * 4"
  by (auto simp: tracker_poll_def render_cursor_def length_cursor_rgba split: option.splits if_splits prod.splits)

end
