(* ===== verification/Spec2Isabelle.thy ===== *)
theory Spec2Isabelle
  imports Limiter Ids Wire Channel Hub_Safety Secure_Props Broker_Props Transfers_Guard Transfers_Live Handshake Adapt_Recovery Lockout_Demo Viewer_Props Viewer_Engine Reconnect Server_Props Store_Props First_Contact Shell_Props App_Sessions Video_Props Server_Config Encoder_Props Elevation_Props Screen_Props
begin

text \<open>
  \<^bold>\<open>RemoteX\<close>, a remote desktop tool for Windows written in Rust. Three programs work together:

    \<^item> the desktop application (\<open>apps/desktop\<close>), on the computer that is controlled (the host) and
      on the one that controls it (the viewer). Both sides are the session engine (\<open>crates/session\<close>) behind
      a web page;
    \<^item> the server (\<open>server\<close>), where devices register and sign in, which tells a host that a viewer
      calls, and which relays a session's frames when no direct link is possible;
    \<^item> the elevation service (\<open>crates/service\<close>), which lets an approved session reach
      administrator windows through an agent it starts.

  A session goes like this. The viewer asks the server to connect; the server admits it or not
  (\<open>hub.rs\<close>) and tells the host. Both open a link, direct or relayed, and run a password-authenticated key
  exchange over it (\<open>handshake.rs\<close>, \<open>pake.rs\<close>). The host asks its owner, unless the viewer may connect
  unattended (\<open>engine_host.rs\<close>). From then on two encrypted one-way channels (\<open>channel.rs\<close>) carry lanes of
  fragments (\<open>secure.rs\<close>): pictures from the video thread (\<open>video.rs\<close>), input to the input thread
  (\<open>input_thread.rs\<close>), the clipboard, chat and files, each under the permissions in force.

  \<^bold>\<open>How the code is rendered.\<close> A struct is a \<open>record\<close>, an enum a \<open>datatype\<close>, an integer a word of its
  width where it is computed with and wraps (nat or int where the code can not reach the bound; the theory
  says so), a string the list of its Unicode scalars, a \<open>HashMap\<close> an association list with distinct keys in
  any order, an \<open>f32\<close> or \<open>f64\<close> a rational with every operation rounded (\<open>Floats.thy\<close>). A method is a
  function from the state to its result and the new state; an error, an early return and a panic are
  values. What runs concurrently (connections, tasks, threads, the owner, the clock) is a list of steps in
  any order, one step from one waiting point or lock to the next. What the system, a library or the
  other side answers comes in with the step. Cryptography, serialisation (postcard, serde), hashing and the
  system's calls are parameters; what is assumed of them is a named hypothesis.

  \<^bold>\<open>Foundations.\<close> \<open>Prelude\<close>: widths, clock, maps, strings, the locale \<open>invariant_system\<close> of step systems with an
  inductive invariant. \<open>Floats\<close>: rounding. \<open>Text\<close>, \<open>Utf8\<close>, \<open>Sock_Addr\<close>: what the code uses of the standard
  library's text. \<open>Limiter\<close> (\<open>security/limiter.rs\<close>): the window of failures and the lockout, with the locale
  \<open>lockout_limiter\<close> that server and host share. \<open>Ids\<close> (\<open>common/ids.rs\<close>, \<open>security/ids.rs\<close>, \<open>password.rs\<close>).
  \<open>Wire\<close> (\<open>common/wire.rs\<close>, \<open>link.rs\<close>, \<open>elevate/proto.rs\<close>): framing, stated once in the locale \<open>framing\<close>
  and interpreted for the link and for the pipe. \<open>Channel\<close>: counters and nonces; the accepted plaintexts
  are a prefix of the sealed ones whatever the network does. \<open>Messages\<close>, \<open>Peer\<close>: the two protocols and the
  validation of the peer's messages.

  \<^bold>\<open>The server.\<close> \<open>Hub\<close> (\<open>hub.rs\<close>) has presence, sessions and limiters; \<open>Hub_Inv\<close> the invariant (tables agree,
  one session per device, bounded), \<open>Hub_Props\<close> and \<open>Hub_Safety\<close> what follows: relaying exactly between the
  participants, bans that hold. \<open>Db\<close> (\<open>db.rs\<close>) is the database, \<open>Ws\<close> (\<open>ws.rs\<close>, the upkeep of \<open>lib.rs\<close>, \<open>admin.rs\<close>)
  the connections. \<open>Ws_Props\<close>: the hub of the running server is always one the hub's own operations reach, \<open>Online\<close> and
  \<open>Server_Props\<close> that whoever is online proved its secret, and that floods are bounded. \<open>Server_Config\<close>
  (\<open>config.rs\<close>, and the pins of \<open>tls.rs\<close>) shows that the server never serves unencrypted beyond the computer
  unless told to.

  \<^bold>\<open>A session's pipe.\<close> \<open>Secure\<close> and \<open>Secure_Props\<close> (\<open>secure.rs\<close>): fragments reassemble, pointer positions may
  be merged but every click lands where it was made, the peer puts every press together again from what is sent, and a
  hostile peer's buffers are bounded.
  \<open>Handshake\<close>: the host accepts only who proved the password, and the exchange succeeds exactly with
  equal passwords. \<open>Adapt\<close>, \<open>Adapt_Props\<close>, \<open>Adapt_Recovery\<close> (\<open>adapt.rs\<close>, \<open>bulk.rs\<close>): bounds of the quality
  controller, and its recovery on a clean link.

  \<^bold>\<open>The host.\<close> \<open>Injector\<close> (\<open>injector.rs\<close>) against a model of what Windows holds pressed; \<open>Input_Thread\<close> and
  \<open>Input_Props\<close> (locale \<open>input_class\<close>, interpreted for mouse and keyboard); \<open>Clip\<close> (\<open>clipboard.rs\<close>). \<open>Host_Session\<close>
  (\<open>host.rs\<close>) is the session loop with its threads; \<open>Host_Props\<close> bounds the permissions by the grant,
  \<open>Host_Revoke\<close> shows that withdrawn input is released under every interleaving. \<open>Host_Engine\<close>
  (\<open>engine.rs\<close>, \<open>engine_host.rs\<close>) has any number of incoming connections; \<open>Engine_Props\<close>: a session needs
  password and consent, \<open>Engine_Lockout\<close>: five wrong passwords shut a viewer out. \<open>Host_Demo\<close>,
  \<open>Engine_Demo\<close>, \<open>Lockout_Demo\<close> run concrete histories.

  \<^bold>\<open>Pictures.\<close> \<open>Screen\<close> (\<open>capture\<close>, \<open>platform.rs\<close>), \<open>Pictures\<close> (\<open>nv12.rs\<close>, the colours of a cursor),
  \<open>Annexb\<close> and \<open>Encoder\<close> (\<open>codec\<close>), \<open>Video\<close> (\<open>video.rs\<close>, \<open>env.rs\<close>). Shown: without the permission to view nothing
  is sent, every refused frame is answered by asking for a keyframe, every key picture brings its parameter sets, a
  captured picture has the size its encoder asserts, the conversion to NV12 is the pointwise one.

  \<^bold>\<open>The viewer.\<close> \<open>Views\<close>, \<open>Viewer_Session\<close> (\<open>viewer.rs\<close>), \<open>Viewer_Engine\<close> (\<open>engine_viewer.rs\<close>);
  \<open>Viewer_Props\<close>: its permissions are those the host announced; \<open>Reconnect\<close>: retries are bounded and refusals
  final. \<open>Signaling\<close> (\<open>signaling.rs\<close>) and \<open>First_Contact\<close>: client and server composed sign a new device in.

  \<^bold>\<open>Files.\<close> \<open>Files\<close> (\<open>crates/files\<close>) over an explicit file system, \<open>Transfers\<close> (\<open>transfer.rs\<close>). \<open>Files_Props\<close> (locale
  \<open>byte_sink\<close>): accepted names stay inside, a delivered file is the verified one, the copy is the source.
  \<open>Transfers_Props\<close>, \<open>Transfers_Guard\<close> (locale \<open>store_guard\<close>), \<open>Transfers_Live\<close>: what is received was asked for, by an
  answer to the offer last shown under its number, only the download directory changes, when the queue's loop returns.

  \<^bold>\<open>Elevated control.\<close> \<open>Broker\<close> and \<open>Broker_Props\<close> (\<open>service/broker.rs\<close>, \<open>server.rs\<close>): one grant, with a live
  owner, that lapses. \<open>Elevation\<close> and \<open>Elevation_Props\<close> (\<open>session/elevation.rs\<close>, \<open>service/agent.rs\<close>, \<open>desktop.rs\<close>)
  put client, service, agent and injector together: beginning gives both pipes the grant or leaves none, unless only
  the heartbeat thread fails to start; and input arrives in order, with nothing held at the end.

  \<^bold>\<open>The application.\<close> \<open>Store\<close>, \<open>Store_Props\<close> (\<open>store.rs\<close>, locale \<open>credential_store\<close>): settings, device book,
  secrets. \<open>Shell\<close>, \<open>Shell_Props\<close>: the packets between page and program. \<open>App\<close> (\<open>commands.rs\<close>, \<open>config.rs\<close>,
  \<open>state.rs\<close>, \<open>tray.rs\<close>), \<open>App_Props\<close>, \<open>App_Safety\<close>, \<open>App_Sessions\<close>: the engine's access rules are always those
  of settings and book, a revoked device is locked out, and a session rests on the owner's answer on the
  page or on unattended access.

  \<^bold>\<open>Bounds and fuel.\<close> Loops over data are structural or have a measure. The loops that read random numbers
  until one fits (\<open>Ids\<close>) read a list and return none when it is used up; they are shown to return as soon
  as a fitting number comes. The loop that starts queued downloads (\<open>Transfers\<close>) is an option-valued partial
  function, and \<open>start_queued_returns_iff\<close> says exactly when it returns. Calls that wait for a device are
  none, or \<open>Waits\<close>, while it does not answer. \<open>process_output\<close> tries twice, as the code does.

  \<^bold>\<open>What modelling showed.\<close> Where the code does not do what it means to, a lemma runs the case, for instance:
  \<open>interrupted_gather_moves_click\<close> (\<open>Secure_Props\<close>), \<open>old_owner_ends_newer_grant\<close> (\<open>Broker_Props\<close>),
  \<open>part_named_file_is_lost\<close> (\<open>Files_Props\<close>), \<open>answer_takes_later_offer\<close> (\<open>Transfers_Props\<close>), \<open>early_login_leaves_ghost\<close> (\<open>Server_Props\<close>),
  \<open>lost_frame_unrequested\<close> and \<open>subscription_lets_four_wait\<close> (\<open>Shell_Props\<close>), \<open>late_answer_trusts\<close> (\<open>App_Safety\<close>), \<open>failed_switch_unreported\<close> and
  \<open>key_request_taken_back\<close> (\<open>Video_Props\<close>), \<open>killed_agent_holds_key\<close> and \<open>failed_begin_blocks_next\<close> (\<open>Elevation_Props\<close>), \<open>priming_never_returns\<close> (\<open>Encoder_Props\<close>).

  \<^bold>\<open>Not modelled.\<close>
    \<^item> Sockets, TLS, WebSocket and named pipes (\<open>elevate/pipe.rs\<close>, \<open>connect_direct\<close> of \<open>link.rs\<close>): library and
      system calls; the steps carry their outcomes.
    \<^item> Process creation, service registration and access lists (\<open>launch.rs\<close>, \<open>install.rs\<close>, \<open>service.rs\<close>),
      Direct3D, GDI and Media Foundation, DPAPI, the system clipboard: calls of Windows.
    \<^item> Log files, crash reports, texts of the tray, the page itself except for its packets, the generator of
      certificates, the counters of the administration page, and test support: nothing of the program's
      behaviour depends on them.
    \<^item> Time is what the clock shows to a step; that an idle task wakes up, and the order in which a
      scheduler picks ready tasks, are the order of the steps. Steps that hold no lock between two accesses
      are split only where the code releases a lock or waits.
\<close>

end
